(* ===== verification/Prelude.thy ===== *)
theory Prelude
  imports Main "HOL-Library.AList"
begin

text \<open>
  Shared vocabulary of the development: Rust's \<open>Result\<close> as a sum with its \<open>?\<close> operator,
  the integer operations the sources use (\<open>checked_add\<close>, \<open>wrapping_add\<close>, the rounded-up
  division of a retry delay), and the two map containers the sources use, both as association
  lists: \<open>IndexMap\<close>, which keeps insertion order, and \<open>BTreeMap\<close>, which keeps key order.
  The laws a client may use of a map are the locale \<open>keyed_store\<close>; both containers interpret it.
\<close>

named_theorems store_simps
named_theorems result_simps
named_theorems arith_defs

section \<open>Results\<close>

type_synonym ('e, 'a) result = "'e + 'a"

definition rbind :: "('e, 'a) result \<Rightarrow> ('a \<Rightarrow> ('e, 'b) result) \<Rightarrow> ('e, 'b) result" where
  "rbind m f = (case m of Inl e \<Rightarrow> Inl e | Inr x \<Rightarrow> f x)"

definition ok_or :: "'e \<Rightarrow> 'a option \<Rightarrow> ('e, 'a) result" where
  "ok_or e x = (case x of None \<Rightarrow> Inl e | Some v \<Rightarrow> Inr v)"

definition ensure :: "bool \<Rightarrow> 'e \<Rightarrow> ('e, unit) result" where
  "ensure b e = (if b then Inr () else Inl e)"

fun rmap :: "('a \<Rightarrow> ('e, 'b) result) \<Rightarrow> 'a list \<Rightarrow> ('e, 'b list) result" where
  "rmap f [] = Inr []"
| "rmap f (x # xs) = rbind (f x) (\<lambda>y. rbind (rmap f xs) (\<lambda>ys. Inr (y # ys)))"

section \<open>Integers\<close>

abbreviation u64_max :: nat where
  "u64_max \<equiv> 18446744073709551615"

definition the_default :: "'a \<Rightarrow> 'a option \<Rightarrow> 'a" where
  "the_default d x = (case x of None \<Rightarrow> d | Some v \<Rightarrow> v)"

lemma the_default_simps [simp]:
  "the_default d None = d"
  "the_default d (Some v) = v"
  by (simp_all add: the_default_def)

definition checked_add_u64 :: "nat \<Rightarrow> nat \<Rightarrow> nat option" where
  "checked_add_u64 a b = (if a + b \<le> u64_max then Some (a + b) else None)"

definition wrapping_add_u64 :: "nat \<Rightarrow> nat \<Rightarrow> nat" where
  "wrapping_add_u64 a b = (a + b) mod (u64_max + 1)"

definition ceil_div :: "int \<Rightarrow> int \<Rightarrow> int" where
  "ceil_div a b = - ((- a) div b)"

fun try_fold :: "('s \<Rightarrow> 'a \<Rightarrow> 's option) \<Rightarrow> 's \<Rightarrow> 'a list \<Rightarrow> 's option" where
  "try_fold f s [] = Some s"
| "try_fold f s (x # xs) = (case f s x of None \<Rightarrow> None | Some s' \<Rightarrow> try_fold f s' xs)"

section \<open>Ordered maps as association lists\<close>

type_synonym ('k, 'v) index_map = "('k \<times> 'v) list"
type_synonym ('k, 'v) btree_map = "('k \<times> 'v) list"

definition im_get :: "('k, 'v) index_map \<Rightarrow> 'k \<Rightarrow> 'v option" where
  "im_get m k = map_of m k"

definition im_insert :: "'k \<Rightarrow> 'v \<Rightarrow> ('k, 'v) index_map \<Rightarrow> ('k, 'v) index_map" where
  "im_insert k v m = AList.update k v m"

definition im_remove :: "'k \<Rightarrow> ('k, 'v) index_map \<Rightarrow> ('k, 'v) index_map" where
  "im_remove k m = AList.delete k m"

definition im_retain :: "('k \<Rightarrow> 'v \<Rightarrow> bool) \<Rightarrow> ('k, 'v) index_map \<Rightarrow> ('k, 'v) index_map" where
  "im_retain P m = filter (\<lambda>(k, v). P k v) m"

text \<open>The rows of a table that an \<open>UPDATE\<close> selects.\<close>

definition update_rows :: "('r \<Rightarrow> bool) \<Rightarrow> ('r \<Rightarrow> 'r) \<Rightarrow> 'r list \<Rightarrow> 'r list" where
  "update_rows P f rows = map (\<lambda>r. if P r then f r else r) rows"

definition im_wf :: "('k, 'v) index_map \<Rightarrow> bool" where
  "im_wf m \<longleftrightarrow> distinct (map fst m)"

fun bt_insert :: "'k::linorder \<Rightarrow> 'v \<Rightarrow> ('k, 'v) btree_map \<Rightarrow> ('k, 'v) btree_map" where
  "bt_insert k v [] = [(k, v)]"
| "bt_insert k v ((j, w) # m) =
     (if k < j then (k, v) # (j, w) # m
      else if k = j then (k, v) # m
      else (j, w) # bt_insert k v m)"

definition bt_get :: "('k, 'v) btree_map \<Rightarrow> 'k::linorder \<Rightarrow> 'v option" where
  "bt_get m k = map_of m k"

definition bt_remove :: "'k::linorder \<Rightarrow> ('k, 'v) btree_map \<Rightarrow> ('k, 'v) btree_map" where
  "bt_remove k m = filter (\<lambda>e. fst e \<noteq> k) m"

definition bt_wf :: "('k::linorder, 'v) btree_map \<Rightarrow> bool" where
  "bt_wf m \<longleftrightarrow> sorted_wrt (<) (map fst m)"

definition find_index_of :: "('a \<Rightarrow> bool) \<Rightarrow> 'a list \<Rightarrow> nat option" where
  "find_index_of P xs = (let n = length (takeWhile (\<lambda>x. \<not> P x) xs) in if n < length xs then Some n else None)"

definition list_insert_at :: "nat \<Rightarrow> 'a \<Rightarrow> 'a list \<Rightarrow> 'a list" where
  "list_insert_at i x xs = take i xs @ x # drop i xs"

section \<open>Results and integers: lemmas\<close>

lemma rbind_simps [simp, result_simps]:
  "rbind (Inl e) f = Inl e" "rbind (Inr x) f = f x"
  by (simp_all add: rbind_def)

lemma rbind_eq_Inr: "rbind m f = Inr y \<longleftrightarrow> (\<exists>x. m = Inr x \<and> f x = Inr y)"
  by (cases m) auto

lemma rbind_eq_Inl: "rbind m f = Inl e \<longleftrightarrow> m = Inl e \<or> (\<exists>x. m = Inr x \<and> f x = Inl e)"
  by (cases m) auto

lemma ok_or_simps [simp, result_simps]:
  "ok_or e None = Inl e" "ok_or e (Some v) = Inr v"
  by (simp_all add: ok_or_def)

lemma ok_or_eq_Inr [simp]: "ok_or e x = Inr v \<longleftrightarrow> x = Some v"
  by (cases x) auto

lemma ok_or_eq_Inl [simp]: "ok_or e x = Inl f \<longleftrightarrow> x = None \<and> f = e"
  by (cases x) auto

lemma ensure_eq_Inr [simp]: "ensure b e = Inr u \<longleftrightarrow> b"
  by (simp add: ensure_def)

lemma ensure_eq_Inl [simp]: "ensure b e = Inl f \<longleftrightarrow> \<not> b \<and> f = e"
  by (auto simp: ensure_def)

lemma ensure_simps [simp]: "ensure True e = Inr ()" "ensure False e = Inl e"
  by (simp_all add: ensure_def)

lemma rbindE: "rbind m f = Inr y \<Longrightarrow> (\<And>x. m = Inr x \<Longrightarrow> f x = Inr y \<Longrightarrow> R) \<Longrightarrow> R"
  by (cases m) auto

lemma rbind_not_Inl: "m \<noteq> Inl e \<Longrightarrow> (\<And>x. m = Inr x \<Longrightarrow> f x \<noteq> Inl e) \<Longrightarrow> rbind m f \<noteq> Inl e"
  by (cases m) auto

lemmas result_iffs = rbind_eq_Inr rbind_eq_Inl

lemma rmap_length: "rmap f xs = Inr ys \<Longrightarrow> length ys = length xs"
  by (induction xs arbitrary: ys) (auto simp: rbind_eq_Inr)

lemma ceil_div_bounds:
  assumes "0 < b"
  shows "a \<le> b * ceil_div a b" and "b * ceil_div a b < a + b"
proof -
  have eq: "- a = b * ((- a) div b) + (- a) mod b" by simp
  have md: "0 \<le> (- a) mod b" "(- a) mod b < b" using assms by simp_all
  have neg: "b * ceil_div a b = - (b * ((- a) div b))" by (simp add: ceil_div_def)
  show "a \<le> b * ceil_div a b" using eq md neg by linarith
  show "b * ceil_div a b < a + b" using eq md neg by linarith
qed

lemma ceil_div_pos: "0 < b \<Longrightarrow> 0 < a \<Longrightarrow> 0 < ceil_div a b"
  using ceil_div_bounds(1) [of b a] by (metis less_le_trans zero_less_mult_pos)

lemma checked_add_u64_eq_Some [simp]:
  "checked_add_u64 a b = Some c \<longleftrightarrow> a + b \<le> u64_max \<and> c = a + b"
  by (auto simp: checked_add_u64_def)

lemma try_fold_checked_add:
  "try_fold (\<lambda>s x. checked_add_u64 s (f x)) s xs = Some t \<longleftrightarrow>
     s + sum_list (map f xs) = t \<and> (xs = [] \<or> t \<le> u64_max)"
proof (induction xs arbitrary: s)
  case (Cons x xs)
  show ?case
  proof (cases "s + f x \<le> u64_max")
    case True
    then show ?thesis
      using Cons.IH [of "s + f x"] by (auto simp: checked_add_u64_def add.assoc)
  next
    case False
    then show ?thesis by (auto simp: checked_add_u64_def)
  qed
qed simp

section \<open>The map interface\<close>

locale keyed_store =
  fixes get :: "'m \<Rightarrow> 'k \<Rightarrow> 'v option"
    and put :: "'k \<Rightarrow> 'v \<Rightarrow> 'm \<Rightarrow> 'm"
    and del :: "'k \<Rightarrow> 'm \<Rightarrow> 'm"
    and wf :: "'m \<Rightarrow> bool"
  assumes get_put: "wf m \<Longrightarrow> get (put k v m) j = (if j = k then Some v else get m j)"
    and get_del: "wf m \<Longrightarrow> get (del k m) j = (if j = k then None else get m j)"
    and wf_put: "wf m \<Longrightarrow> wf (put k v m)"
    and wf_del: "wf m \<Longrightarrow> wf (del k m)"
begin

lemma get_put_same [simp]: "wf m \<Longrightarrow> get (put k v m) k = Some v"
  by (simp add: get_put)

lemma get_put_other [simp]: "wf m \<Longrightarrow> j \<noteq> k \<Longrightarrow> get (put k v m) j = get m j"
  by (simp add: get_put)

lemma get_del_same [simp]: "wf m \<Longrightarrow> get (del k m) k = None"
  by (simp add: get_del)

lemma get_del_other [simp]: "wf m \<Longrightarrow> j \<noteq> k \<Longrightarrow> get (del k m) j = get m j"
  by (simp add: get_del)

lemma del_put_get: "wf m \<Longrightarrow> get m k = None \<Longrightarrow> get (del k (put k v m)) j = get m j"
  by (simp add: get_put get_del wf_put)

lemma put_del_get: "wf m \<Longrightarrow> get m k = Some v \<Longrightarrow> get (put k v (del k m)) j = get m j"
  by (simp add: get_put get_del wf_del)

lemma put_put_get: "wf m \<Longrightarrow> get (put k v (put k w m)) j = get (put k v m) j"
  by (simp add: get_put wf_put)

end

lemma map_fst_update_keys: "set (map fst (AList.update k v m)) = insert k (set (map fst m))"
  using dom_update [of k v m] by (simp add: dom_map_of_conv_image_fst)

interpretation im: keyed_store im_get im_insert im_remove im_wf
proof unfold_locales
  fix m :: "('k \<times> 'v) list" and k j v
  show "im_get (im_insert k v m) j = (if j = k then Some v else im_get m j)"
    by (auto simp: im_get_def im_insert_def update_conv)
  show "im_get (im_remove k m) j = (if j = k then None else im_get m j)"
    by (auto simp: im_get_def im_remove_def delete_conv)
  show "im_wf m \<Longrightarrow> im_wf (im_insert k v m)"
    by (simp add: im_wf_def im_insert_def distinct_update)
  show "im_wf m \<Longrightarrow> im_wf (im_remove k m)"
    by (simp add: im_wf_def im_remove_def distinct_delete)
qed

lemma bt_insert_keys: "set (map fst (bt_insert k v m)) = insert k (set (map fst m))"
  by (induction k v m rule: bt_insert.induct) auto

lemma bt_wf_Cons: "bt_wf (e # m) \<longleftrightarrow> bt_wf m \<and> (\<forall>j \<in> set (map fst m). fst e < j)"
  by (auto simp: bt_wf_def)

lemma bt_wf_insert: "bt_wf m \<Longrightarrow> bt_wf (bt_insert k v m)"
proof (induction k v m rule: bt_insert.induct)
  case (2 k v j w m)
  then show ?case by (auto simp: bt_wf_Cons bt_insert_keys simp del: set_map)
qed (simp add: bt_wf_def)

lemma map_of_bt_insert: "bt_wf m \<Longrightarrow> map_of (bt_insert k v m) j = (if j = k then Some v else map_of m j)"
  by (induction k v m rule: bt_insert.induct) (auto simp: bt_wf_Cons)

lemma map_of_filter_key:
  "map_of (filter (\<lambda>e. fst e \<noteq> k) m) j = (if j = k then None else map_of m j)"
  by (induction m) auto

interpretation bt: keyed_store bt_get bt_insert bt_remove bt_wf
proof unfold_locales
  fix m :: "('k::linorder \<times> 'v) list" and k j v
  show "bt_wf m \<Longrightarrow> bt_get (bt_insert k v m) j = (if j = k then Some v else bt_get m j)"
    by (simp add: bt_get_def map_of_bt_insert)
  show "bt_get (bt_remove k m) j = (if j = k then None else bt_get m j)"
    by (simp add: bt_get_def bt_remove_def map_of_filter_key)
  show "bt_wf m \<Longrightarrow> bt_wf (bt_insert k v m)" by (rule bt_wf_insert)
  show "bt_wf m \<Longrightarrow> bt_wf (bt_remove k m)"
    by (induction m) (auto simp: bt_wf_def bt_remove_def)
qed

lemmas im_laws [store_simps] = im.get_put im.get_del im.wf_put im.wf_del
lemmas bt_laws [store_simps] = bt.get_put bt.get_del bt.wf_put bt.wf_del

section \<open>Sizes and membership\<close>

lemma wf_empty [simp, store_simps]: "im_wf []" "bt_wf []" "im_get [] i = None" "bt_get [] k = None"
  by (simp_all add: im_wf_def bt_wf_def im_get_def bt_get_def)

lemma bt_wf_distinct: "bt_wf m \<Longrightarrow> distinct (map fst m)"
  unfolding bt_wf_def by (metis strict_sorted_iff)

lemma bt_get_eq_Some: "bt_wf m \<Longrightarrow> bt_get m k = Some v \<longleftrightarrow> (k, v) \<in> set m"
  unfolding bt_get_def by (simp add: bt_wf_distinct)

lemma im_get_eq_Some: "im_wf m \<Longrightarrow> im_get m k = Some v \<longleftrightarrow> (k, v) \<in> set m"
  by (simp add: im_get_def im_wf_def)

lemma bt_get_None_iff: "bt_get m k = None \<longleftrightarrow> k \<notin> set (map fst m)"
  by (auto simp: bt_get_def map_of_eq_None_iff)

lemma im_get_None_iff: "im_get m k = None \<longleftrightarrow> k \<notin> set (map fst m)"
  by (auto simp: im_get_def map_of_eq_None_iff)

lemma bt_remove_absent: "bt_get m k = None \<Longrightarrow> bt_remove k m = m"
  by (auto simp: bt_remove_def bt_get_None_iff filter_id_conv)

lemma length_bt_insert:
  "bt_wf m \<Longrightarrow> length (bt_insert k v m) = (if bt_get m k = None then Suc (length m) else length m)"
  by (induction k v m rule: bt_insert.induct)
    (auto simp: bt_wf_Cons bt_get_def dest!: map_of_SomeD)

lemma length_bt_remove:
  "bt_wf m \<Longrightarrow> length (bt_remove k m) = (if bt_get m k = None then length m else length m - 1)"
proof (induction m)
  case (Cons e m)
  show ?case
  proof (cases "fst e = k")
    case True
    with Cons.prems have "bt_get m k = None"
      by (auto simp: bt_wf_Cons bt_get_None_iff)
    then have "bt_remove k m = m" by (rule bt_remove_absent)
    with True show ?thesis by (cases e) (simp add: bt_remove_def bt_get_def)
  next
    case False
    have "length m - 1 + 1 = length m" if "bt_get m k \<noteq> None"
      using that by (cases m) (auto simp: bt_get_def)
    with False Cons show ?thesis
      by (cases e) (auto simp: bt_remove_def bt_get_def bt_wf_Cons)
  qed
qed (simp add: bt_remove_def bt_get_def)

lemma bt_remove_insert: "bt_wf m \<Longrightarrow> bt_get m k = None \<Longrightarrow> bt_remove k (bt_insert k v m) = m"
  by (induction k v m rule: bt_insert.induct)
    (auto simp: bt_wf_Cons bt_remove_def bt_get_def split: if_splits intro!: filter_True)

lemma length_im_insert: "length (im_insert k e m) = (if im_get m k = None then Suc (length m) else length m)"
  unfolding im_insert_def im_get_def by (induction m) auto

lemma length_im_remove: "length (im_remove k m) \<le> length m"
  by (simp add: im_remove_def length_delete_le)

lemma im_wf_filter: "im_wf m \<Longrightarrow> im_wf (filter P m)"
  by (simp add: im_wf_def distinct_map_filter)

lemma im_wf_retain: "im_wf m \<Longrightarrow> im_wf (im_retain P m)"
  by (simp add: im_retain_def im_wf_filter)

lemma set_list_insert_at [simp]: "set (list_insert_at i x xs) = insert x (set xs)"
  unfolding list_insert_at_def by (metis Un_insert_right append_take_drop_id list.set(2) set_append)

lemma map_replace_key: "f y = k \<Longrightarrow> map f (map (\<lambda>q. if f q = k then y else q) xs) = map f xs"
  by (induction xs) auto

lemma find_SomeD: "find P xs = Some x \<Longrightarrow> x \<in> set xs \<and> P x"
  by (induction xs) (auto split: if_splits)

lemma find_index_of_Some:
  assumes "find_index_of P xs = Some i"
  shows "i < length xs" "P (xs ! i)"
proof -
  have i: "i = length (takeWhile (\<lambda>x. \<not> P x) xs)" "i < length xs"
    using assms by (auto simp: find_index_of_def Let_def split: if_splits)
  show "i < length xs" by (fact i(2))
  show "P (xs ! i)" using i nth_length_takeWhile [of "\<lambda>x. \<not> P x" xs] by simp
qed

lemma find_index_of_None: "find_index_of P xs = None \<longleftrightarrow> (\<forall>x \<in> set xs. \<not> P x)"
proof -
  have "length (takeWhile (\<lambda>x. \<not> P x) xs) < length xs \<longleftrightarrow> (\<exists>x \<in> set xs. P x)"
    by (induction xs) auto
  then show ?thesis by (auto simp: find_index_of_def Let_def)
qed

lemma bt_insert_new:
  assumes "bt_wf m" "bt_get m c = None"
  shows "\<exists>as bs. m = as @ bs \<and> bt_insert c h m = as @ (c, h) # bs"
  using assms
proof (induction c h m rule: bt_insert.induct)
  case (1 k v)
  then show ?case by simp
next
  case (2 k v j w m)
  show ?case
  proof (cases "k < j")
    case True
    then show ?thesis by (intro exI [of _ "[]"] exI [of _ "(j, w) # m"]) simp
  next
    case False
    have kj: "k \<noteq> j" using "2.prems" by (auto simp: bt_get_def)
    have "\<exists>as bs. m = as @ bs \<and> bt_insert k v m = as @ (k, v) # bs"
      by (rule "2.IH" [OF False kj]) (use "2.prems" kj in \<open>auto simp: bt_wf_Cons bt_get_def\<close>)
    then obtain as bs where "m = as @ bs" "bt_insert k v m = as @ (k, v) # bs" by blast
    with False kj show ?thesis by (intro exI [of _ "(j, w) # as"] exI [of _ bs]) simp
  qed
qed

lemma bt_insert_present:
  "bt_wf m \<Longrightarrow> bt_get m c \<noteq> None \<Longrightarrow> bt_insert c g m = map (\<lambda>e. if fst e = c then (c, g) else e) m"
proof (induction c g m rule: bt_insert.induct)
  case (2 k v j w m)
  then show ?case
    by (cases "k < j"; cases "k = j") (auto simp: bt_wf_Cons bt_get_def intro!: map_idI [symmetric] dest!: map_of_SomeD)
qed simp

lemma sorted_wrt_snoc_last: "sorted_wrt (<) (xs :: nat list) \<Longrightarrow> xs = [] \<or> last xs < n \<Longrightarrow> sorted_wrt (<) (xs @ [n])"
  by (cases xs rule: rev_cases) (auto simp: sorted_wrt_append)

end
