(* ===== verification/WorkspaceModel.thy ===== *)
theory WorkspaceModel
  imports Complex_Main Prelude
begin

text \<open>
  The device workspace: a versioned ownership snapshot (workspace, windows, panes, views) and the
  rules a snapshot must satisfy. The sources keep it as JSON values validated by the contract
  \<^verbatim>\<open>workspaceOwnershipSchema\<close>; here each validated object is a record. A nullable field is an
  \<open>option\<close>; a field that may be absent is an \<open>option\<close> whose \<open>None\<close> is absence; a field that may be
  both is a nested option. Values that the commands only copy (protected titles, dock presentation,
  file modes and viewers) are opaque texts; a text is the sequence of its UTF-8 bytes; numbers that are only compared are \<open>nat\<close> (the contract
  makes them safe integers) or \<open>rat\<close> (a split fraction).
\<close>

section \<open>Data\<close>

type_synonym opaque = string

datatype region = Center | RightDock | BottomDock | LeftDock
datatype direction = Horizontal | Vertical

datatype resource =
    Builtin (definition_id: string)
  | Entity (definition_id: string) (resource_id: string)

record view =
  view_id :: string
  view_resource :: resource
  preview :: bool
  file_mode :: "opaque option"
  file_viewer :: "opaque option option"
  view_title :: "opaque option"
  built_in_state :: "(string \<times> opaque) option"
  dock_presentation :: "opaque option"

datatype selection = SelTab "string option" | SelConversation "string option"

record pane =
  pane_id :: string
  pane_region :: region
  pane_title :: "opaque option"
  tabs :: "view list"
  active_tab :: "string option"
  conversation_view :: "view option option"
  pane_selection :: "selection option"

datatype node =
    Leaf (leaf_pane: string)
  | Split (split_id: string) (split_direction: direction) (split_fraction: rat) (split_first: node) (split_second: node)

datatype view_kind = TabView | ConversationView

record placement =
  pane_position :: nat
  tab_position :: nat
  placed_kind :: "view_kind option"
  placed_region :: region
  placed_root :: "node option"

record return_placement =
  rp_detached_pane :: "string option"
  rp_source_window :: string
  rp_source_pane :: string
  rp_placement :: placement
  rp_whole_pane :: bool

record window =
  win_id :: string
  attachment_generation :: nat
  renderer_id :: "string option"
  panes :: "pane list"
  center_root :: "node option"
  focused_pane :: "string option"
  recent_panes :: "string list"
  recent_tabs :: "string option list option"
  return_placement :: "return_placement option"

datatype phase = Preparing | DestinationReady | StateReady

record transfer =
  tr_id :: string
  tr_source_window :: string
  tr_source_generation :: nat
  tr_source_pane :: string
  tr_placement :: placement
  tr_tabs :: "string list"
  tr_whole_pane :: bool
  tr_destination_window :: string
  tr_destination_generation :: nat
  tr_destination_pane :: string
  tr_return_split :: "string option"
  tr_phase :: phase

record legacy_view =
  lv_tab :: string
  lv_document :: string
  lv_mode :: opaque

record code_import =
  ci_tab :: string
  ci_code :: string
  ci_views :: "legacy_view list"

record file_import =
  fi_window :: string
  fi_pane :: string
  fi_views :: "legacy_view list"

record layout =
  version :: nat
  lay_id :: string
  project_id :: string
  revision :: nat
  main_window :: string
  windows :: "window list"
  pending_transfers :: "transfer list option"
  file_imports :: "file_import list option"
  code_imports :: "code_import list option"

section \<open>Reading\<close>

definition json_values :: "'a list option \<Rightarrow> 'a list" where
  "json_values xs = (case xs of None \<Rightarrow> [] | Some ys \<Rightarrow> ys)"

definition truthy :: "string option \<Rightarrow> bool" where
  "truthy x = (case x of None \<Rightarrow> False | Some s \<Rightarrow> s \<noteq> [])"

definition direct_view :: "pane \<Rightarrow> view option" where
  "direct_view p = (case conversation_view p of None \<Rightarrow> None | Some v \<Rightarrow> v)"

definition direct_id :: "pane \<Rightarrow> string option" where
  "direct_id p = map_option view_id (direct_view p)"

definition pane_views :: "pane \<Rightarrow> view list" where
  "pane_views p = tabs p @ (case direct_view p of None \<Rightarrow> [] | Some v \<Rightarrow> [v])"

definition selected_view_id :: "pane \<Rightarrow> string option" where
  "selected_view_id p =
     (case pane_selection p of
        Some (SelConversation v) \<Rightarrow> v
      | Some (SelTab t) \<Rightarrow> t
      | None \<Rightarrow> active_tab p)"

definition window_views :: "window \<Rightarrow> view list" where
  "window_views w = concat (map pane_views (panes w))"

definition layout_views :: "layout \<Rightarrow> view list" where
  "layout_views l = concat (map window_views (windows l))"

section \<open>The center tree\<close>

fun remove_leaf :: "node option \<Rightarrow> string \<Rightarrow> node option" where
  "remove_leaf None pane = None"
| "remove_leaf (Some (Leaf p)) pane = (if p = pane then None else Some (Leaf p))"
| "remove_leaf (Some (Split i d f a b)) pane =
     (case remove_leaf (Some a) pane of
        None \<Rightarrow> remove_leaf (Some b) pane
      | Some a' \<Rightarrow>
          (case remove_leaf (Some b) pane of
             None \<Rightarrow> Some a'
           | Some b' \<Rightarrow> Some (Split i d f a' b')))"

fun replace_leaf :: "node \<Rightarrow> string \<Rightarrow> node \<Rightarrow> node" where
  "replace_leaf (Leaf p) pane r = (if p = pane then r else Leaf p)"
| "replace_leaf (Split i d f a b) pane r = Split i d f (replace_leaf a pane r) (replace_leaf b pane r)"

fun resize_node :: "node \<Rightarrow> string \<Rightarrow> rat \<Rightarrow> node \<times> bool" where
  "resize_node (Leaf p) sid fr = (Leaf p, False)"
| "resize_node (Split i d f a b) sid fr =
     (if i = sid then (Split i d fr a b, True)
      else case resize_node a sid fr of
        (a', True) \<Rightarrow> (Split i d f a' b, True)
      | (a', False) \<Rightarrow> (case resize_node b sid fr of (b', r) \<Rightarrow> (Split i d f a' b', r)))"

fun reorder_node :: "node \<Rightarrow> string list \<Rightarrow> nat \<Rightarrow> (node \<times> nat) option" where
  "reorder_node (Leaf p) ids k = (if k < length ids then Some (Leaf (ids ! k), k + 1) else None)"
| "reorder_node (Split i d f a b) ids k =
     (case reorder_node a ids k of
        None \<Rightarrow> None
      | Some (a', k') \<Rightarrow>
          (case reorder_node b ids k' of
             None \<Rightarrow> None
           | Some (b', k'') \<Rightarrow> Some (Split i d f a' b', k'')))"

fun leaves :: "node \<Rightarrow> string list" where
  "leaves (Leaf p) = [p]"
| "leaves (Split i d f a b) = leaves a @ leaves b"

fun split_ids :: "node \<Rightarrow> string list" where
  "split_ids (Leaf p) = []"
| "split_ids (Split i d f a b) = i # split_ids a @ split_ids b"

fun node_count :: "node \<Rightarrow> nat" where
  "node_count (Leaf p) = 1"
| "node_count (Split i d f a b) = 1 + node_count a + node_count b"

fun node_depth :: "node \<Rightarrow> nat" where
  "node_depth (Leaf p) = 0"
| "node_depth (Split i d f a b) = 1 + max (node_depth a) (node_depth b)"

definition root_leaves :: "node option \<Rightarrow> string list" where
  "root_leaves r = (case r of None \<Rightarrow> [] | Some n \<Rightarrow> leaves n)"

definition root_splits :: "node option \<Rightarrow> string list" where
  "root_splits r = (case r of None \<Rightarrow> [] | Some n \<Rightarrow> split_ids n)"

text \<open>
  The validator walks a window's tree with an explicit stack, counts nodes, stops at the first one
  past the bounds, and reports leaves that are no local center pane or repeat, and repeated splits.
\<close>

record walk =
  walk_leaves :: "string list"
  walk_splits :: "string list"
  walk_ok :: bool

function tree_walk :: "string list \<Rightarrow> (node \<times> nat) list \<Rightarrow> nat \<Rightarrow> walk \<Rightarrow> walk" where
  "tree_walk centers [] nodes s = s"
| "tree_walk centers ((n, depth) # stack) nodes s =
     (if nodes + 1 > 255 \<or> depth > 32 then s\<lparr>walk_ok := False\<rparr>
      else case n of
        Leaf p \<Rightarrow>
          tree_walk centers stack (nodes + 1)
            (s\<lparr>walk_leaves := p # walk_leaves s,
               walk_ok := walk_ok s \<and> p \<in> set centers \<and> p \<notin> set (walk_leaves s)\<rparr>)
      | Split i d f a b \<Rightarrow>
          tree_walk centers ((b, depth + 1) # (a, depth + 1) # stack) (nodes + 1)
            (s\<lparr>walk_splits := i # walk_splits s, walk_ok := walk_ok s \<and> i \<notin> set (walk_splits s)\<rparr>))"
  by pat_completeness auto
termination
  by (relation "measure (\<lambda>(_, stack, _, _). sum_list (map (node_count \<circ> fst) stack))") auto

section \<open>The ownership rules\<close>

abbreviation max_safe_integer :: nat where
  "max_safe_integer \<equiv> 9007199254740991"

definition entity_definitions :: "string list" where
  "entity_definitions =
     [''project.agent'', ''project.terminal'', ''project.explorer'', ''project.file'',
      ''project.browser'', ''project.code'', ''project.remote-desktop'', ''project.git-history'',
      ''project.git-graph'', ''project.github-issues'', ''project.github-pull-requests'',
      ''project.github-actions'']"

definition resource_ok :: "resource \<Rightarrow> bool" where
  "resource_ok r = (case r of Builtin _ \<Rightarrow> True | Entity d _ \<Rightarrow> d \<in> set entity_definitions)"

definition view_ok :: "view \<Rightarrow> bool" where
  "view_ok v \<longleftrightarrow>
     resource_ok (view_resource v) \<and>
     (file_mode v \<noteq> None \<longrightarrow> definition_id (view_resource v) = ''project.file'') \<and>
     (file_viewer v \<noteq> None \<longrightarrow> definition_id (view_resource v) = ''project.file'') \<and>
     (case view_resource v of
        Builtin d \<Rightarrow> map_option fst (built_in_state v) = Some d
      | Entity _ _ \<Rightarrow> built_in_state v = None)"

definition conversation_view_ok :: "view \<Rightarrow> bool" where
  "conversation_view_ok v \<longleftrightarrow>
     view_ok v \<and> (\<exists>r. view_resource v = Entity ''project.agent'' r) \<and> \<not> preview v"

definition code_imports_ok :: "code_import list \<Rightarrow> bool" where
  "code_imports_ok cs \<longleftrightarrow>
     distinct (map ci_tab cs) \<and>
     (\<forall>c \<in> set cs. distinct (map lv_tab (ci_views c)) \<and> distinct (map lv_document (ci_views c)) \<and>
        ci_tab c \<notin> set (map lv_tab (ci_views c)))"

definition pane_ok :: "nat \<Rightarrow> pane \<Rightarrow> bool" where
  "pane_ok ver p \<longleftrightarrow>
     (ver = 1 \<longrightarrow> conversation_view p = None \<and> pane_selection p = None) \<and>
     (ver = 2 \<longrightarrow> conversation_view p \<noteq> None \<and> pane_selection p \<noteq> None) \<and>
     (tabs p \<noteq> [] \<or> direct_view p \<noteq> None) \<and>
     (case active_tab p of None \<Rightarrow> tabs p = [] | Some t \<Rightarrow> t \<in> set (map view_id (tabs p))) \<and>
     (direct_view p \<noteq> None \<longrightarrow> pane_region p = Center) \<and>
     (case pane_selection p of
        None \<Rightarrow> True
      | Some (SelTab t) \<Rightarrow> t = active_tab p \<and> (\<exists>i \<in> set (map view_id (tabs p)). active_tab p = Some i)
      | Some (SelConversation v) \<Rightarrow> direct_view p \<noteq> None \<and> direct_id p = v)"

definition window_ok :: "nat \<Rightarrow> window \<Rightarrow> bool" where
  "window_ok ver w \<longleftrightarrow>
     (case focused_pane w of None \<Rightarrow> True | Some p \<Rightarrow> p \<in> set (map pane_id (panes w))) \<and>
     distinct (json_values (recent_tabs w)) \<and>
     set (json_values (recent_tabs w)) \<subseteq> set (map (Some \<circ> view_id) (window_views w)) \<and>
     distinct (recent_panes w) \<and> set (recent_panes w) \<subseteq> set (map pane_id (panes w)) \<and>
     (\<forall>p \<in> set (panes w). pane_ok ver p)"

definition centers :: "window \<Rightarrow> string list" where
  "centers w = map pane_id (filter (\<lambda>p. pane_region p = Center) (panes w))"

fun trees_walk :: "window list \<Rightarrow> string list \<Rightarrow> bool" where
  "trees_walk [] seen = True"
| "trees_walk (w # ws) seen =
     (let s = tree_walk (centers w) (case center_root w of None \<Rightarrow> [] | Some n \<Rightarrow> [(n, 0)]) 0
                \<lparr>walk_leaves = [], walk_splits = seen, walk_ok = True\<rparr>
      in walk_ok s \<and> set (centers w) \<subseteq> set (walk_leaves s) \<and> trees_walk ws (walk_splits s))"

definition transfer_ok :: "layout \<Rightarrow> transfer \<Rightarrow> bool" where
  "transfer_ok l t \<longleftrightarrow>
     (if tr_whole_pane t then tr_destination_pane t = tr_source_pane t
      else tr_destination_pane t \<notin> set (concat (map (\<lambda>w. map pane_id (panes w)) (windows l)))) \<and>
     (case (find (\<lambda>w. win_id w = tr_source_window t) (windows l),
            find (\<lambda>w. win_id w = tr_destination_window t) (windows l)) of
        (Some s, Some d) \<Rightarrow>
          win_id s \<noteq> win_id d \<and>
          (if truthy (tr_return_split t) then win_id d = main_window l
           else win_id d \<noteq> main_window l \<and> panes d = []) \<and>
          attachment_generation s = tr_source_generation t \<and>
          attachment_generation d = tr_destination_generation t
      | _ \<Rightarrow> False)"

definition transfers_ok :: "layout \<Rightarrow> bool" where
  "transfers_ok l \<longleftrightarrow>
     (let ts = json_values (pending_transfers l)
      in distinct (map tr_id ts) \<and>
         distinct (map tr_destination_window (filter (\<lambda>t. \<not> truthy (tr_return_split t)) ts)) \<and>
         distinct (map tr_destination_pane ts) \<and>
         distinct (concat (map tr_tabs ts)) \<and>
         (\<forall>t \<in> set ts. transfer_ok l t))"

definition ownership_ok :: "layout \<Rightarrow> bool" where
  "ownership_ok l \<longleftrightarrow>
     code_imports_ok (json_values (code_imports l)) \<and>
     distinct (map win_id (windows l)) \<and>
     distinct (concat (map (\<lambda>w. map pane_id (panes w)) (windows l))) \<and>
     distinct (map view_id (layout_views l)) \<and>
     (\<forall>w \<in> set (windows l). window_ok (version l) w) \<and>
     trees_walk (windows l) [] \<and>
     main_window l \<in> set (map win_id (windows l)) \<and>
     transfers_ok l"

section \<open>The shape of the contract\<close>

text \<open>What the contract asks of an ownership value before its rules: nonempty identities, safe integers, bounds.\<close>

fun node_shape :: "node \<Rightarrow> bool" where
  "node_shape (Leaf p) = (p \<noteq> [])"
| "node_shape (Split i d f a b) = (i \<noteq> [] \<and> 1 / 10 \<le> f \<and> f \<le> 9 / 10 \<and> node_shape a \<and> node_shape b)"

definition ident :: "string option \<Rightarrow> bool" where
  "ident x = (case x of None \<Rightarrow> True | Some s \<Rightarrow> s \<noteq> [])"

definition view_shape :: "view \<Rightarrow> bool" where
  "view_shape v \<longleftrightarrow> view_id v \<noteq> [] \<and> view_ok v"

definition pane_shape :: "pane \<Rightarrow> bool" where
  "pane_shape p \<longleftrightarrow>
     pane_id p \<noteq> [] \<and> list_all view_shape (tabs p) \<and> ident (active_tab p) \<and>
     (case direct_view p of None \<Rightarrow> True | Some v \<Rightarrow> view_shape v \<and> conversation_view_ok v) \<and>
     (case pane_selection p of
        None \<Rightarrow> True
      | Some (SelTab t) \<Rightarrow> truthy t
      | Some (SelConversation v) \<Rightarrow> truthy v)"

definition placement_shape :: "placement \<Rightarrow> bool" where
  "placement_shape p \<longleftrightarrow>
     pane_position p \<le> max_safe_integer \<and> tab_position p \<le> max_safe_integer \<and>
     (case placed_root p of None \<Rightarrow> True | Some n \<Rightarrow> node_shape n)"

definition window_shape :: "window \<Rightarrow> bool" where
  "window_shape w \<longleftrightarrow>
     win_id w \<noteq> [] \<and> attachment_generation w \<le> max_safe_integer \<and> ident (renderer_id w) \<and>
     list_all pane_shape (panes w) \<and> (case center_root w of None \<Rightarrow> True | Some n \<Rightarrow> node_shape n) \<and>
     ident (focused_pane w) \<and> list_all (\<lambda>i. i \<noteq> []) (recent_panes w) \<and>
     list_all truthy (json_values (recent_tabs w)) \<and>
     (case return_placement w of
        None \<Rightarrow> True
      | Some r \<Rightarrow> ident (rp_detached_pane r) \<and> rp_source_window r \<noteq> [] \<and> rp_source_pane r \<noteq> [] \<and>
          placement_shape (rp_placement r))"

definition transfer_shape :: "transfer \<Rightarrow> bool" where
  "transfer_shape t \<longleftrightarrow>
     tr_id t \<noteq> [] \<and> tr_source_window t \<noteq> [] \<and> tr_source_generation t \<le> max_safe_integer \<and>
     tr_source_pane t \<noteq> [] \<and> placement_shape (tr_placement t) \<and>
     tr_tabs t \<noteq> [] \<and> list_all (\<lambda>i. i \<noteq> []) (tr_tabs t) \<and>
     tr_destination_window t \<noteq> [] \<and> tr_destination_generation t \<le> max_safe_integer \<and>
     tr_destination_pane t \<noteq> [] \<and> ident (tr_return_split t)"

definition views_shape :: "legacy_view list \<Rightarrow> bool" where
  "views_shape vs \<longleftrightarrow> vs \<noteq> [] \<and> list_all (\<lambda>v. lv_tab v \<noteq> [] \<and> lv_document v \<noteq> []) vs"

text \<open>
  The pattern \<^verbatim>\<open>/^cantrip-editor-.+/u\<close>: one more character that is no line terminator, which are line feed, carriage return
  and the UTF-8 texts of U+2028 and U+2029.
\<close>

definition legacy_window_ident :: "string \<Rightarrow> bool" where
  "legacy_window_ident w \<longleftrightarrow>
     (let n = length ''cantrip-editor-''
      in take n w = ''cantrip-editor-'' \<and> n < length w \<and> w ! n \<notin> set [CHR 0x0A, CHR 0x0D] \<and>
         take 3 (drop n w) \<notin> set [[CHR 0xE2, CHR 0x80, CHR 0xA8], [CHR 0xE2, CHR 0x80, CHR 0xA9]])"

definition file_import_shape :: "file_import \<Rightarrow> bool" where
  "file_import_shape f \<longleftrightarrow> legacy_window_ident (fi_window f) \<and> fi_pane f \<noteq> [] \<and> views_shape (fi_views f)"

definition layout_shape :: "layout \<Rightarrow> bool" where
  "layout_shape l \<longleftrightarrow>
     version l \<in> {1, 2} \<and> lay_id l \<noteq> [] \<and> project_id l \<noteq> [] \<and> revision l \<le> max_safe_integer \<and>
     main_window l \<noteq> [] \<and> windows l \<noteq> [] \<and> list_all window_shape (windows l) \<and>
     length (json_values (pending_transfers l)) \<le> 128 \<and>
     list_all transfer_shape (json_values (pending_transfers l)) \<and>
     list_all file_import_shape (json_values (file_imports l)) \<and>
     list_all (\<lambda>c. ci_tab c \<noteq> [] \<and> ci_code c \<noteq> [] \<and> views_shape (ci_views c)) (json_values (code_imports l))"

definition valid_layout :: "layout \<Rightarrow> bool" where
  "valid_layout l \<longleftrightarrow> layout_shape l \<and> ownership_ok l"

end
