(* ===== verification/WorkspaceTree.thy ===== *)
theory WorkspaceTree
  imports WorkspaceModel
begin

text \<open>
  Lemmas on the center tree of a window: what each tree operation does to the leaves, the splits and
  the bounds, and that the validator's walk with an explicit stack decides the declarative rule
  \<open>tree_rule\<close>.
\<close>

section \<open>Removal and replacement of leaves\<close>

lemma node_count_pos [simp]: "0 < node_count n"
  by (cases n) simp_all

lemma leaves_nonempty [simp]: "leaves n \<noteq> []"
  by (induction n) simp_all

lemma remove_leaf_leaves [simp]: "root_leaves (remove_leaf r p) = filter (\<lambda>q. q \<noteq> p) (root_leaves r)"
  by (induction r p rule: remove_leaf.induct) (auto simp: root_leaves_def split: option.splits)

lemma remove_leaf_None: "remove_leaf r p = None \<longleftrightarrow> set (root_leaves r) \<subseteq> {p}"
  by (induction r p rule: remove_leaf.induct) (auto simp: root_leaves_def split: option.splits)

lemma remove_leaf_absent: "p \<notin> set (root_leaves r) \<Longrightarrow> remove_leaf r p = r"
  by (induction r p rule: remove_leaf.induct) (auto simp: root_leaves_def split: option.splits)

lemma remove_leaf_splits: "set (root_splits (remove_leaf r p)) \<subseteq> set (root_splits r)"
  by (induction r p rule: remove_leaf.induct) (auto simp: root_splits_def split: option.splits)

lemma remove_leaf_splits_distinct: "distinct (root_splits r) \<Longrightarrow> distinct (root_splits (remove_leaf r p))"
proof (induction r p rule: remove_leaf.induct)
  case (3 i d f a b p)
  have a: "set (root_splits (remove_leaf (Some a) p)) \<subseteq> set (split_ids a)"
    using remove_leaf_splits [of "Some a" p] by (simp add: root_splits_def)
  have b: "set (root_splits (remove_leaf (Some b) p)) \<subseteq> set (split_ids b)"
    using remove_leaf_splits [of "Some b" p] by (simp add: root_splits_def)
  show ?case
    using 3 a b by (auto simp: root_splits_def split: option.splits)
qed (auto simp: root_splits_def)

definition root_count :: "node option \<Rightarrow> nat" where
  "root_count r = (case r of None \<Rightarrow> 0 | Some n \<Rightarrow> node_count n)"

definition root_depth :: "node option \<Rightarrow> nat" where
  "root_depth r = (case r of None \<Rightarrow> 0 | Some n \<Rightarrow> node_depth n)"

lemma remove_leaf_count: "root_count (remove_leaf r p) \<le> root_count r"
proof (induction r p rule: remove_leaf.induct)
  case (3 i d f a b p)
  then show ?case by (auto simp: root_count_def split: option.splits)
qed (simp_all add: root_count_def)

lemma remove_leaf_depth: "root_depth (remove_leaf r p) \<le> root_depth r"
proof (induction r p rule: remove_leaf.induct)
  case (3 i d f a b p)
  then show ?case by (auto simp: root_depth_def split: option.splits)
qed (simp_all add: root_depth_def)

lemma remove_leaf_shape:
  "(case r of None \<Rightarrow> True | Some n \<Rightarrow> node_shape n) \<Longrightarrow>
   (case remove_leaf r p of None \<Rightarrow> True | Some n \<Rightarrow> node_shape n)"
  by (induction r p rule: remove_leaf.induct) (auto split: option.splits)

lemma replace_leaf_leaves:
  "leaves (replace_leaf n p r) = concat (map (\<lambda>q. if q = p then leaves r else [q]) (leaves n))"
  by (induction n p r rule: replace_leaf.induct) auto

lemma replace_leaf_absent: "p \<notin> set (leaves n) \<Longrightarrow> replace_leaf n p r = n"
  by (induction n p r rule: replace_leaf.induct) auto

lemma replace_leaf_set:
  "p \<in> set (leaves n) \<Longrightarrow> set (leaves (replace_leaf n p r)) = set (leaves n) - {p} \<union> set (leaves r)"
  by (auto simp: replace_leaf_leaves)

lemma resize_node_leaves [simp]: "leaves (fst (resize_node n sid f)) = leaves n"
  by (induction n sid f rule: resize_node.induct) (auto split: prod.splits bool.splits)

lemma resize_node_splits [simp]: "split_ids (fst (resize_node n sid f)) = split_ids n"
  by (induction n sid f rule: resize_node.induct) (auto split: prod.splits bool.splits)

lemma resize_node_count [simp]: "node_count (fst (resize_node n sid f)) = node_count n"
  by (induction n sid f rule: resize_node.induct) (auto split: prod.splits bool.splits)

lemma resize_node_depth [simp]: "node_depth (fst (resize_node n sid f)) = node_depth n"
  by (induction n sid f rule: resize_node.induct) (auto split: prod.splits bool.splits)

lemma resize_node_found: "snd (resize_node n sid f) \<longleftrightarrow> sid \<in> set (split_ids n)"
  by (induction n) (auto simp: case_prod_unfold split: bool.splits)

lemma resize_node_shape:
  "node_shape n \<Longrightarrow> 1 / 10 \<le> f \<Longrightarrow> f \<le> 9 / 10 \<Longrightarrow> node_shape (fst (resize_node n sid f))"
  by (induction n sid f rule: resize_node.induct) (auto split: prod.splits bool.splits)

section \<open>Reordering\<close>

lemma reorder_node_total:
  "k + length (leaves n) \<le> length ids \<Longrightarrow>
   \<exists>m. reorder_node n ids k = Some (m, k + length (leaves n)) \<and>
       leaves m = take (length (leaves n)) (drop k ids) \<and>
       split_ids m = split_ids n \<and> node_count m = node_count n \<and> node_depth m = node_depth n"
proof (induction n ids k rule: reorder_node.induct)
  case (1 p ids k)
  then show ?case by (auto simp: take_Suc_conv_app_nth hd_drop_conv_nth take_Suc)
next
  case (2 i d f a b ids k)
  obtain a' where a: "reorder_node a ids k = Some (a', k + length (leaves a))"
      "leaves a' = take (length (leaves a)) (drop k ids)" "split_ids a' = split_ids a"
      "node_count a' = node_count a" "node_depth a' = node_depth a"
    using 2 by (auto simp: add.assoc)
  have "k + length (leaves a) + length (leaves b) \<le> length ids"
    using 2 by simp
  from "2.IH"(2) [OF a(1) refl this] obtain b' where
      b: "reorder_node b ids (k + length (leaves a)) = Some (b', k + length (leaves a) + length (leaves b))"
      "leaves b' = take (length (leaves b)) (drop (k + length (leaves a)) ids)" "split_ids b' = split_ids b"
      "node_count b' = node_count b" "node_depth b' = node_depth b"
    by auto
  show ?case
    by (simp add: a b take_add add.commute add.left_commute)
qed

lemma reorder_node_shape:
  "reorder_node n ids k = Some (m, k') \<Longrightarrow> node_shape n \<Longrightarrow> list_all (\<lambda>i. i \<noteq> []) ids \<Longrightarrow> node_shape m"
  by (induction n ids k arbitrary: m k' rule: reorder_node.induct)
     (auto simp: list_all_length split: if_splits option.splits)

section \<open>The validator's walk\<close>

lemma stack_count_pos: "stack \<noteq> [] \<Longrightarrow> 0 < sum_list (map (node_count \<circ> fst) stack)"
  by (cases stack) auto

lemma tree_walk_iff:
  "k \<le> 255 \<Longrightarrow>
   walk_ok (tree_walk cs stack k s) \<longleftrightarrow>
     walk_ok s \<and> k + sum_list (map (node_count \<circ> fst) stack) \<le> 255 \<and>
     (\<forall>(n, d) \<in> set stack. d + node_depth n \<le> 32) \<and>
     distinct (concat (map (leaves \<circ> fst) stack)) \<and>
     set (concat (map (leaves \<circ> fst) stack)) \<subseteq> set cs - set (walk_leaves s) \<and>
     distinct (concat (map (split_ids \<circ> fst) stack)) \<and>
     set (concat (map (split_ids \<circ> fst) stack)) \<inter> set (walk_splits s) = {}"
proof (induction cs stack k s rule: tree_walk.induct)
  case (1 cs k s)
  then show ?case by simp
next
  case (2 cs n d stack k s)
  show ?case
  proof (cases "k + 1 > 255 \<or> d > 32")
    case True
    then show ?thesis
      using node_count_pos [of n] by (auto simp del: node_count_pos)
  next
    case False
    then have k: "k + 1 \<le> 255" by simp
    show ?thesis
    proof (cases n)
      case (Leaf p)
      then show ?thesis
        using "2.IH"(1) [OF False Leaf k] False by auto
    next
      case (Split i dir f a b)
      then show ?thesis
        using "2.IH"(2) [OF False Split k] False by (auto simp: Int_Un_distrib Int_Un_distrib2)
    qed
  qed
qed

lemma tree_walk_sets:
  "walk_ok (tree_walk cs stack k s) \<Longrightarrow>
   set (walk_leaves (tree_walk cs stack k s)) = set (walk_leaves s) \<union> set (concat (map (leaves \<circ> fst) stack)) \<and>
   set (walk_splits (tree_walk cs stack k s)) = set (walk_splits s) \<union> set (concat (map (split_ids \<circ> fst) stack))"
proof (induction cs stack k s rule: tree_walk.induct)
  case (2 cs n d stack k s)
  show ?case
  proof (cases "k + 1 > 255 \<or> d > 32")
    case True
    then show ?thesis using "2.prems" by auto
  next
    case False
    then show ?thesis
      using "2.IH" [OF False] "2.prems" by (cases n) auto
  qed
qed simp

definition tree_rule :: "window \<Rightarrow> bool" where
  "tree_rule w \<longleftrightarrow>
     root_count (center_root w) \<le> 255 \<and> root_depth (center_root w) \<le> 32 \<and>
     distinct (root_leaves (center_root w)) \<and> set (root_leaves (center_root w)) = set (centers w)"

lemma trees_walk_iff:
  "trees_walk ws seen \<longleftrightarrow>
     (\<forall>w \<in> set ws. tree_rule w) \<and>
     distinct (concat (map (root_splits \<circ> center_root) ws)) \<and>
     set (concat (map (root_splits \<circ> center_root) ws)) \<inter> set seen = {}"
proof (induction ws arbitrary: seen)
  case (Cons w ws)
  define stack where "stack = (case center_root w of None \<Rightarrow> [] | Some n \<Rightarrow> [(n, 0 :: nat)])"
  define s where "s = tree_walk (centers w) stack 0 \<lparr>walk_leaves = [], walk_splits = seen, walk_ok = True\<rparr>"
  have ok: "walk_ok s \<longleftrightarrow> root_count (center_root w) \<le> 255 \<and> root_depth (center_root w) \<le> 32 \<and>
      distinct (root_leaves (center_root w)) \<and> set (root_leaves (center_root w)) \<subseteq> set (centers w) \<and>
      distinct (root_splits (center_root w)) \<and> set (root_splits (center_root w)) \<inter> set seen = {}"
    by (auto simp: s_def stack_def tree_walk_iff root_count_def root_depth_def root_leaves_def root_splits_def
        split: option.splits)
  have sets: "walk_ok s \<Longrightarrow> set (walk_leaves s) = set (root_leaves (center_root w)) \<and>
      set (walk_splits s) = set seen \<union> set (root_splits (center_root w))"
    using tree_walk_sets [of "centers w" stack 0 "\<lparr>walk_leaves = [], walk_splits = seen, walk_ok = True\<rparr>"]
    by (auto simp: s_def stack_def root_leaves_def root_splits_def split: option.splits)
  have "trees_walk (w # ws) seen \<longleftrightarrow>
      walk_ok s \<and> set (centers w) \<subseteq> set (walk_leaves s) \<and> trees_walk ws (walk_splits s)"
    by (simp add: s_def stack_def Let_def)
  also have "\<dots> \<longleftrightarrow> walk_ok s \<and> set (centers w) \<subseteq> set (root_leaves (center_root w)) \<and>
      (\<forall>w \<in> set ws. tree_rule w) \<and> distinct (concat (map (root_splits \<circ> center_root) ws)) \<and>
      set (concat (map (root_splits \<circ> center_root) ws)) \<inter> (set seen \<union> set (root_splits (center_root w))) = {}"
    unfolding Cons.IH using sets by (cases "walk_ok s") simp_all
  also have "\<dots> \<longleftrightarrow> (\<forall>w \<in> set (w # ws). tree_rule w) \<and>
      distinct (concat (map (root_splits \<circ> center_root) (w # ws))) \<and>
      set (concat (map (root_splits \<circ> center_root) (w # ws))) \<inter> set seen = {}"
    unfolding ok by (simp add: tree_rule_def) blast
  finally show ?case .
qed simp

end
