(* ===== verification/WorkspaceCommands.thy ===== *)
theory WorkspaceCommands
  imports WorkspaceModel
begin

text \<open>
  The helpers and the view commands of the device workspace
  (\<^verbatim>\<open>workspace_layouts/commands/mod.rs\<close>, \<^verbatim>\<open>views.rs\<close>, \<^verbatim>\<open>conversations.rs\<close> and
  \<^verbatim>\<open>migrations.rs\<close>). A command works on a copy of the layout and of the window it addresses;
  an error discards the copy, so each action is a function from the command state to a result. The
  \<open>expect\<close>, \<open>unwrap\<close> and index operations of the source that would abort are the error \<open>Panic\<close>.
\<close>

section \<open>Errors and the command state\<close>

datatype ws_code = CodeScope | CodeRevision | CodeAttachment | CodeMissing | CodeInvalid

datatype ws_error =
    ValidationFailed
  | CommandError ws_code string
  | Panic

abbreviation invalid :: "string \<Rightarrow> ws_error" where
  "invalid m \<equiv> CommandError CodeInvalid m"

abbreviation missing :: "string \<Rightarrow> ws_error" where
  "missing m \<equiv> CommandError CodeMissing m"

record command_state =
  cs_layout :: layout
  cs_window :: window
  cs_focus :: "string option"
  cs_retired :: "string list"

fun set_first :: "('a \<Rightarrow> bool) \<Rightarrow> 'a \<Rightarrow> 'a list \<Rightarrow> 'a list" where
  "set_first P y [] = []"
| "set_first P y (x # xs) = (if P x then y # xs else x # set_first P y xs)"

definition state_windows :: "command_state \<Rightarrow> window list" where
  "state_windows s =
     map (\<lambda>w. if win_id w = win_id (cs_window s) then cs_window s else w) (windows (cs_layout s))"

definition other_window :: "command_state \<Rightarrow> string \<Rightarrow> string \<Rightarrow> (ws_error, window) result" where
  "other_window s i msg = ok_or (missing msg) (find (\<lambda>w. win_id w = i) (state_windows s))"

definition store_window :: "command_state \<Rightarrow> window \<Rightarrow> command_state" where
  "store_window s w =
     (if win_id w = win_id (cs_window s) then s\<lparr>cs_window := w\<rparr>
      else s\<lparr>cs_layout := (cs_layout s)\<lparr>windows :=
               set_first (\<lambda>v. win_id v = win_id w) w (windows (cs_layout s))\<rparr>\<rparr>)"

definition all_tabs :: "command_state \<Rightarrow> view list" where
  "all_tabs s = concat (map window_views (state_windows s))"

definition reserved_in :: "layout \<Rightarrow> string \<Rightarrow> bool" where
  "reserved_in l i \<longleftrightarrow> (\<exists>t \<in> set (json_values (pending_transfers l)). i \<in> set (tr_tabs t))"

definition reserved :: "command_state \<Rightarrow> string \<Rightarrow> bool" where
  "reserved s i = reserved_in (cs_layout s) i"

section \<open>Panes and views\<close>

definition normalize_pane :: "pane \<Rightarrow> pane" where
  "normalize_pane p =
     (let p = (if conversation_view p = None then p\<lparr>conversation_view := Some None\<rparr> else p)
      in if pane_selection p = None then p\<lparr>pane_selection := Some (SelTab (active_tab p))\<rparr> else p)"

definition pane_by_id :: "window \<Rightarrow> string \<Rightarrow> (ws_error, pane) result" where
  "pane_by_id w i =
     ok_or (missing ''Pane does not belong to this window.'') (find (\<lambda>p. pane_id p = i) (panes w))"

fun find_view :: "pane list \<Rightarrow> string \<Rightarrow> (pane \<times> view) option" where
  "find_view [] i = None"
| "find_view (p # ps) i =
     (case find (\<lambda>v. view_id v = i) (pane_views p) of
        Some v \<Rightarrow> Some (p, v)
      | None \<Rightarrow> find_view ps i)"

definition tab_by_id :: "window \<Rightarrow> string \<Rightarrow> (ws_error, pane \<times> view) result" where
  "tab_by_id w i = ok_or (missing ''Tab does not belong to this window.'') (find_view (panes w) i)"

definition store_pane :: "window \<Rightarrow> pane \<Rightarrow> (ws_error, window) result" where
  "store_pane w p =
     (if \<exists>q \<in> set (panes w). pane_id q = pane_id p
      then Inr (w\<lparr>panes := set_first (\<lambda>q. pane_id q = pane_id p) p (panes w)\<rparr>)
      else Inl Panic)"

definition front :: "'a \<Rightarrow> 'a list \<Rightarrow> 'a list" where
  "front i previous = i # filter (\<lambda>v. v \<noteq> i) previous"

definition focus_content :: "pane \<Rightarrow> string option \<Rightarrow> pane" where
  "focus_content p tab =
     (if direct_id p = tab then p\<lparr>pane_selection := Some (SelConversation tab)\<rparr>
      else if pane_selection p \<noteq> None then p\<lparr>active_tab := tab, pane_selection := Some (SelTab tab)\<rparr>
      else p\<lparr>active_tab := tab\<rparr>)"

definition focus :: "window \<Rightarrow> string \<Rightarrow> string option \<Rightarrow> (ws_error, window) result" where
  "focus w pid tab =
     (case find (\<lambda>p. pane_id p = pid) (panes w) of
        None \<Rightarrow> Inl Panic
      | Some p \<Rightarrow>
          Inr (w\<lparr>panes := set_first (\<lambda>q. pane_id q = pid) (focus_content p tab) (panes w),
                 focused_pane := Some pid,
                 recent_panes := front pid (recent_panes w),
                 recent_tabs := Some (front tab (json_values (recent_tabs w)))\<rparr>))"

definition retire_conversation :: "layout \<Rightarrow> pane \<Rightarrow> string option \<Rightarrow> (ws_error, pane) result" where
  "retire_conversation l p tab =
     (case direct_view p of
        None \<Rightarrow> Inr p
      | Some v \<Rightarrow>
          if Some (view_id v) \<noteq> tab
          then if reserved_in l (view_id v)
               then Inl (invalid ''Conversation is reserved for a pending transfer.'')
               else Inr (p\<lparr>conversation_view := Some None\<rparr>)
          else Inr p)"

definition navigate :: "layout \<Rightarrow> window \<Rightarrow> string \<Rightarrow> string \<Rightarrow> (ws_error, window) result" where
  "navigate l w pid tab =
     (case find (\<lambda>p. pane_id p = pid) (panes w) of
        None \<Rightarrow> Inl Panic
      | Some p \<Rightarrow>
          rbind (retire_conversation l p (Some tab)) (\<lambda>p'.
            focus (w\<lparr>panes := set_first (\<lambda>q. pane_id q = pid) p' (panes w)\<rparr>) pid (Some tab)))"

definition or_else :: "'a option \<Rightarrow> 'a option \<Rightarrow> 'a option" where
  "or_else x y = (case x of None \<Rightarrow> y | Some v \<Rightarrow> Some v)"

definition head_option :: "'a list \<Rightarrow> 'a option" where
  "head_option xs = (case xs of [] \<Rightarrow> None | x # _ \<Rightarrow> Some x)"

definition next_focus :: "string list \<Rightarrow> pane list \<Rightarrow> string option" where
  "next_focus recent ps =
     or_else (head_option recent)
       (or_else (map_option pane_id (find (\<lambda>p. pane_region p = Center) ps))
                (map_option pane_id (head_option ps)))"

definition remove_pane :: "window \<Rightarrow> string \<Rightarrow> window" where
  "remove_pane w pid =
     (let w1 = w\<lparr>panes := filter (\<lambda>p. pane_id p \<noteq> pid) (panes w),
                 center_root := remove_leaf (center_root w) pid,
                 recent_panes := filter (\<lambda>i. i \<noteq> pid) (recent_panes w)\<rparr>
      in if focused_pane w1 = Some pid
         then let nxt = next_focus (recent_panes w1) (panes w1);
                  w2 = w1\<lparr>focused_pane := nxt\<rparr>
              in (case nxt of
                    Some i \<Rightarrow> if i \<noteq> [] then w2\<lparr>recent_panes := front i (recent_panes w2)\<rparr> else w2
                  | None \<Rightarrow> w2)
         else w1)"

definition drop_direct :: "pane \<Rightarrow> view \<Rightarrow> pane" where
  "drop_direct p v =
     (let u = p\<lparr>conversation_view := Some None\<rparr>
      in if selected_view_id p = Some (view_id v) then u\<lparr>pane_selection := Some (SelTab (active_tab u))\<rparr> else u)"

definition drop_tab :: "pane \<Rightarrow> view \<Rightarrow> nat \<Rightarrow> pane" where
  "drop_tab p v i =
     (let u = p\<lparr>tabs := take i (tabs p) @ drop (i + 1) (tabs p)\<rparr>;
          u1 = (if active_tab u = Some (view_id v)
                then u\<lparr>active_tab :=
                       (if i < length (tabs u) then Some (view_id (tabs u ! i))
                        else map_option view_id (head_option (rev (tabs u))))\<rparr>
                else u)
      in if selected_view_id p = Some (view_id v) \<and> pane_selection u1 \<noteq> None
         then u1\<lparr>pane_selection := Some
                (if active_tab u1 = None then SelConversation (direct_id u1) else SelTab (active_tab u1))\<rparr>
         else u1)"

definition take_tab :: "window \<Rightarrow> pane \<Rightarrow> view \<Rightarrow> (ws_error, window) result" where
  "take_tab w p v =
     (if direct_id p = Some (view_id v)
      then if tabs p = [] then Inr (remove_pane w (pane_id p)) else store_pane w (drop_direct p v)
      else (case find_index_of (\<lambda>t. view_id t = view_id v) (tabs p) of
              None \<Rightarrow> Inl Panic
            | Some i \<Rightarrow>
                if pane_views (drop_tab p v i) = [] then Inr (remove_pane w (pane_id p))
                else store_pane w (drop_tab p v i)))"

definition new_pane :: "string \<Rightarrow> region \<Rightarrow> view \<Rightarrow> pane" where
  "new_pane i r v =
     \<lparr>pane_id = i, pane_region = r, pane_title = None, tabs = [v], active_tab = Some (view_id v),
      conversation_view = None, pane_selection = None\<rparr>"

section \<open>View commands\<close>

definition same_resource :: "view \<Rightarrow> view \<Rightarrow> bool" where
  "same_resource a b =
     (case (view_resource a, view_resource b) of
        (Builtin d, Builtin e) \<Rightarrow> d = e
      | (Entity d r, Entity e q) \<Rightarrow> d = e \<and> r = q
      | _ \<Rightarrow> False)"

definition exact_ids :: "string list \<Rightarrow> string list \<Rightarrow> bool" where
  "exact_ids ids available \<longleftrightarrow>
     length ids = length (remdups available) \<and> set ids \<subseteq> set available \<and> distinct ids"

definition focus_next :: "window \<Rightarrow> bool \<Rightarrow> (ws_error, window) result" where
  "focus_next w was_focused =
     (if was_focused
      then (case find (\<lambda>p. Some (pane_id p) = focused_pane w) (panes w) of
              None \<Rightarrow> Inr w
            | Some p \<Rightarrow> focus w (pane_id p) (selected_view_id p))
      else Inr w)"

definition store_view :: "pane \<Rightarrow> view \<Rightarrow> (ws_error, pane) result" where
  "store_view p v =
     (if direct_id p = Some (view_id v) then Inr (p\<lparr>conversation_view := Some (Some v)\<rparr>)
      else if \<exists>t \<in> set (tabs p). view_id t = view_id v
      then Inr (p\<lparr>tabs := set_first (\<lambda>t. view_id t = view_id v) v (tabs p)\<rparr>)
      else Inl Panic)"

definition set_window :: "command_state \<Rightarrow> (ws_error, window) result \<Rightarrow> (ws_error, command_state) result" where
  "set_window s r = rbind r (\<lambda>w. Inr (s\<lparr>cs_window := w\<rparr>))"

definition act_home :: "command_state \<Rightarrow> (ws_error, command_state) result" where
  "act_home s = Inr (s\<lparr>cs_window := (cs_window s)\<lparr>focused_pane := None\<rparr>\<rparr>)"

definition act_select :: "command_state \<Rightarrow> string \<Rightarrow> (ws_error, command_state) result" where
  "act_select s tab =
     rbind (tab_by_id (cs_window s) tab) (\<lambda>(p, v).
       set_window s (navigate (cs_layout s) (cs_window s) (pane_id p) (view_id v)))"

definition act_close_tab :: "command_state \<Rightarrow> string \<Rightarrow> (ws_error, command_state) result" where
  "act_close_tab s tab =
     rbind (tab_by_id (cs_window s) tab) (\<lambda>(p, v).
       if direct_id p = Some (view_id v) then Inl (invalid ''Use close-conversation for a direct view.'')
       else
         let focused = (focused_pane (cs_window s) = Some (pane_id p) \<and> selected_view_id p = Some (view_id v))
         in rbind (case pane_selection p of
                     Some (SelTab _) \<Rightarrow> retire_conversation (cs_layout s) p (selected_view_id p)
                   | _ \<Rightarrow> Inr p) (\<lambda>current.
              rbind (take_tab (cs_window s) current v) (\<lambda>w.
                set_window s (focus_next w focused))))"

definition act_close_pane :: "command_state \<Rightarrow> string \<Rightarrow> (ws_error, command_state) result" where
  "act_close_pane s pid =
     rbind (pane_by_id (cs_window s) pid) (\<lambda>p.
       let focused = (focused_pane (cs_window s) = Some (pane_id p))
       in set_window s (focus_next (remove_pane (cs_window s) (pane_id p)) focused))"

definition act_update_view ::
  "command_state \<Rightarrow> string \<Rightarrow> (pane \<Rightarrow> view \<Rightarrow> (ws_error, view) result) \<Rightarrow> (ws_error, command_state) result" where
  "act_update_view s tab f =
     rbind (tab_by_id (cs_window s) tab) (\<lambda>(p, v).
       rbind (f p v) (\<lambda>v'. rbind (store_view p v') (\<lambda>p'. set_window s (store_pane (cs_window s) p'))))"

definition act_pin :: "command_state \<Rightarrow> string \<Rightarrow> (ws_error, command_state) result" where
  "act_pin s tab = act_update_view s tab (\<lambda>p v. Inr (v\<lparr>preview := False\<rparr>))"

definition act_file_mode :: "command_state \<Rightarrow> string \<Rightarrow> opaque \<Rightarrow> (ws_error, command_state) result" where
  "act_file_mode s tab mode =
     act_update_view s tab (\<lambda>p v.
       if definition_id (view_resource v) \<noteq> ''project.file'' then Inl (invalid ''File mode requires a file view.'')
       else Inr (v\<lparr>file_mode := Some mode\<rparr>))"

definition act_dock_presentation :: "command_state \<Rightarrow> string \<Rightarrow> opaque \<Rightarrow> (ws_error, command_state) result" where
  "act_dock_presentation s tab pres =
     act_update_view s tab (\<lambda>p v.
       if pane_region p \<noteq> RightDock \<and> pane_region p \<noteq> BottomDock
       then Inl (invalid ''Dock presentation requires a right or bottom pane.'')
       else Inr (v\<lparr>dock_presentation := Some pres\<rparr>))"

definition act_rename_pane :: "command_state \<Rightarrow> string \<Rightarrow> opaque option \<Rightarrow> (ws_error, command_state) result" where
  "act_rename_pane s pid title =
     rbind (pane_by_id (cs_window s) pid) (\<lambda>p.
       set_window s (store_pane (cs_window s) (p\<lparr>pane_title := title\<rparr>)))"

fun place_region :: "region \<Rightarrow> pane list \<Rightarrow> pane list \<Rightarrow> string list \<Rightarrow> (ws_error, pane list) result" where
  "place_region r members [] ids = Inr []"
| "place_region r members (p # ps) ids =
     (if pane_region p = r
      then (case ids of
              [] \<Rightarrow> Inl Panic
            | i # rest \<Rightarrow>
                rbind (ok_or Panic (find (\<lambda>q. pane_id q = i) members)) (\<lambda>q.
                  rbind (place_region r members ps rest) (\<lambda>qs. Inr (q # qs))))
      else rbind (place_region r members ps ids) (\<lambda>qs. Inr (p # qs)))"

definition act_reorder_panes :: "command_state \<Rightarrow> region \<Rightarrow> string list \<Rightarrow> (ws_error, command_state) result" where
  "act_reorder_panes s r ids =
     (let w = cs_window s; members = filter (\<lambda>p. pane_region p = r) (panes w)
      in if \<not> exact_ids ids (map pane_id members)
         then Inl (invalid ''Pane order must contain every local region member exactly once.'')
         else rbind (place_region r members (panes w) ids) (\<lambda>ps.
           case (r, center_root w) of
             (Center, Some rt) \<Rightarrow>
               (case reorder_node rt ids 0 of
                  None \<Rightarrow> Inl Panic
                | Some (rt', _) \<Rightarrow> Inr (s\<lparr>cs_window := w\<lparr>panes := ps, center_root := Some rt'\<rparr>\<rparr>))
           | _ \<Rightarrow> Inr (s\<lparr>cs_window := w\<lparr>panes := ps\<rparr>\<rparr>)))"

definition act_reorder :: "command_state \<Rightarrow> string \<Rightarrow> string list \<Rightarrow> (ws_error, command_state) result" where
  "act_reorder s pid ids =
     rbind (pane_by_id (cs_window s) pid) (\<lambda>p.
       if \<not> exact_ids ids (map view_id (tabs p))
       then Inl (invalid ''Tab order must contain each pane member exactly once.'')
       else rbind (rmap (\<lambda>i. ok_or Panic (find (\<lambda>t. view_id t = i) (tabs p))) ids) (\<lambda>ts.
         set_window s (store_pane (cs_window s) (p\<lparr>tabs := ts\<rparr>))))"

definition insert_tab :: "pane \<Rightarrow> nat \<Rightarrow> view \<Rightarrow> (ws_error, pane) result" where
  "insert_tab p i v =
     (if i > length (tabs p) then Inl Panic else Inr (p\<lparr>tabs := list_insert_at i v (tabs p)\<rparr>))"

definition lift_for_move :: "window \<Rightarrow> pane \<Rightarrow> view \<Rightarrow> pane \<Rightarrow> (ws_error, window \<times> pane) result" where
  "lift_for_move w p v target =
     (if pane_id target = pane_id p
      then Inr (w, if direct_id p = Some (view_id v) then target\<lparr>conversation_view := Some None\<rparr>
                   else target\<lparr>tabs := filter (\<lambda>t. view_id t \<noteq> view_id v) (tabs target)\<rparr>)
      else rbind (take_tab w p v) (\<lambda>w'. Inr (w', target)))"

definition act_move :: "command_state \<Rightarrow> string \<Rightarrow> string \<Rightarrow> nat \<Rightarrow> (ws_error, command_state) result" where
  "act_move s tab target_id position =
     rbind (tab_by_id (cs_window s) tab) (\<lambda>(p, v).
       rbind (pane_by_id (cs_window s) target_id) (\<lambda>target.
         let same = (pane_id target = pane_id p);
             direct = (direct_id p = Some (view_id v))
         in if same \<and> \<not> direct \<and> tabs target = [] then Inl Panic
            else if position > length (tabs target) - (if same \<and> \<not> direct then 1 else 0)
            then Inl (invalid ''Target tab position is outside the pane.'')
            else
              rbind (lift_for_move (cs_window s) p v target) (\<lambda>(w, target').
                rbind (insert_tab target' position v) (\<lambda>target''.
                  rbind (store_pane w target'') (\<lambda>w'.
                    set_window s (navigate (cs_layout s) w' (pane_id target'') (view_id v)))))))"

definition insert_pane :: "window \<Rightarrow> nat \<Rightarrow> pane \<Rightarrow> (ws_error, window) result" where
  "insert_pane w i p =
     (if i > length (panes w) then Inl Panic else Inr (w\<lparr>panes := list_insert_at i p (panes w)\<rparr>))"

definition checked_nth :: "'a list \<Rightarrow> nat \<Rightarrow> 'a option" where
  "checked_nth xs i = (if i < length xs then Some (xs ! i) else None)"

definition insertion_index :: "window \<Rightarrow> pane option \<Rightarrow> pane option \<Rightarrow> (ws_error, nat) result" where
  "insertion_index w neighbor previous =
     (case neighbor of
        Some n \<Rightarrow> ok_or Panic (find_index_of (\<lambda>q. pane_id q = pane_id n) (panes w))
      | None \<Rightarrow>
          (case previous of
             Some n \<Rightarrow> rbind (ok_or Panic (find_index_of (\<lambda>q. pane_id q = pane_id n) (panes w))) (\<lambda>i. Inr (i + 1))
           | None \<Rightarrow> Inr (length (panes w))))"

definition center_beside ::
  "window \<Rightarrow> string \<Rightarrow> string \<Rightarrow> pane option \<Rightarrow> pane option \<Rightarrow> (ws_error, window) result" where
  "center_beside w new_id sid neighbor previous =
     (case center_root w of
        None \<Rightarrow> Inr (w\<lparr>center_root := Some (Leaf new_id)\<rparr>)
      | Some rt \<Rightarrow>
          rbind (ok_or Panic (or_else neighbor previous)) (\<lambda>anchor.
            let replacement =
              (if neighbor \<noteq> None
               then Split sid Horizontal (1 / 2) (Leaf new_id) (Leaf (pane_id anchor))
               else Split sid Horizontal (1 / 2) (Leaf (pane_id anchor)) (Leaf new_id))
            in Inr (w\<lparr>center_root := Some (replace_leaf rt (pane_id anchor) replacement)\<rparr>)))"

definition act_move_new_pane ::
  "command_state \<Rightarrow> string \<Rightarrow> string \<Rightarrow> region \<Rightarrow> nat \<Rightarrow> string \<Rightarrow> (ws_error, command_state) result" where
  "act_move_new_pane s tab new_id r position sid =
     rbind (tab_by_id (cs_window s) tab) (\<lambda>(p, v).
       let count = length (filter (\<lambda>q. pane_region q = r \<and>
                     \<not> (pane_id q = pane_id p \<and> length (pane_views p) = 1)) (panes (cs_window s)))
       in if position > count then Inl (invalid ''Target pane position is outside the region.'')
          else rbind (take_tab (cs_window s) p v) (\<lambda>w.
            let members = filter (\<lambda>q. pane_region q = r) (panes w);
                neighbor = checked_nth members position;
                previous = (if position = 0 then None else checked_nth members (position - 1))
            in rbind (insertion_index w neighbor previous) (\<lambda>insertion.
                 rbind (insert_pane w insertion (new_pane new_id r v)) (\<lambda>w1.
                   rbind (if r = Center then center_beside w1 new_id sid neighbor previous else Inr w1) (\<lambda>w2.
                     set_window s (navigate (cs_layout s) w2 new_id (view_id v)))))))"

datatype edge = EdgeLeft | EdgeRight | EdgeTop | EdgeBottom

definition act_split ::
  "command_state \<Rightarrow> string \<Rightarrow> string \<Rightarrow> string \<Rightarrow> string \<Rightarrow> edge \<Rightarrow> rat \<Rightarrow> (ws_error, command_state) result" where
  "act_split s tab target_id new_id sid e fr =
     rbind (tab_by_id (cs_window s) tab) (\<lambda>(p, v).
       rbind (pane_by_id (cs_window s) target_id) (\<lambda>target.
         if pane_region target \<noteq> Center \<or> (pane_id p = pane_id target \<and> length (pane_views p) = 1)
         then Inl (invalid ''A split requires a surviving center target pane.'')
         else rbind (take_tab (cs_window s) p v) (\<lambda>w.
           let new = new_pane new_id Center v;
               new_first = (e = EdgeLeft \<or> e = EdgeTop);
               first = Leaf (if new_first then new_id else pane_id target);
               second = Leaf (if new_first then pane_id target else new_id);
               dir = (if e = EdgeLeft \<or> e = EdgeRight then Horizontal else Vertical)
           in case center_root w of
                None \<Rightarrow> Inl (missing ''Center tree is missing.'')
              | Some rt \<Rightarrow>
                  rbind (ok_or Panic (find_index_of (\<lambda>q. pane_id q = pane_id target) (panes w))) (\<lambda>i.
                    rbind (insert_pane
                             (w\<lparr>center_root := Some (replace_leaf rt (pane_id target) (Split sid dir fr first second))\<rparr>)
                             (i + (if new_first then 0 else 1)) new) (\<lambda>w1.
                      set_window s (navigate (cs_layout s) w1 new_id (view_id v)))))))"

definition act_resize :: "command_state \<Rightarrow> string \<Rightarrow> rat \<Rightarrow> (ws_error, command_state) result" where
  "act_resize s sid fr =
     (case center_root (cs_window s) of
        None \<Rightarrow> Inl (missing ''Split does not belong to this window.'')
      | Some rt \<Rightarrow>
          (case resize_node rt sid fr of
             (rt', True) \<Rightarrow> Inr (s\<lparr>cs_window := (cs_window s)\<lparr>center_root := Some rt'\<rparr>\<rparr>)
           | (_, False) \<Rightarrow> Inl (missing ''Split does not belong to this window.'')))"

fun find_resource_pane :: "pane list \<Rightarrow> view \<Rightarrow> (pane \<times> view) option" where
  "find_resource_pane [] v = None"
| "find_resource_pane (p # ps) v =
     (case find (\<lambda>t. same_resource t v) (pane_views p) of
        Some t \<Rightarrow> Some (p, t)
      | None \<Rightarrow> find_resource_pane ps v)"

fun find_resource :: "window list \<Rightarrow> view \<Rightarrow> (window \<times> pane \<times> view) option" where
  "find_resource [] v = None"
| "find_resource (w # ws) v =
     (case find_resource_pane (panes w) v of
        Some (p, t) \<Rightarrow> Some (w, p, t)
      | None \<Rightarrow> find_resource ws v)"

datatype open_target =
    TargetPane string
  | TargetNewPane string region string

definition reopen_view :: "command_state \<Rightarrow> view \<Rightarrow> view \<Rightarrow> (ws_error, view) result" where
  "reopen_view s found wanted =
     (let t = (if \<not> preview wanted then found\<lparr>preview := False\<rparr> else found)
      in case file_viewer wanted of
           None \<Rightarrow> Inr t
         | Some viewer \<Rightarrow>
             let changed = (file_viewer t \<noteq> Some viewer \<or>
                   (case file_mode wanted of None \<Rightarrow> False | Some m \<Rightarrow> file_mode t \<noteq> Some m))
             in if changed \<and> reserved s (view_id t)
                then Inl (invalid ''File view is reserved for a pending transfer.'')
                else Inr (case file_mode wanted of
                            None \<Rightarrow> t\<lparr>file_viewer := Some viewer\<rparr>
                          | Some m \<Rightarrow> t\<lparr>file_viewer := Some viewer, file_mode := Some m\<rparr>))"

definition open_existing ::
  "command_state \<Rightarrow> view \<Rightarrow> window \<Rightarrow> pane \<Rightarrow> view \<Rightarrow> (ws_error, command_state) result" where
  "open_existing s wanted owner p found =
     rbind (reopen_view s found wanted) (\<lambda>t.
       rbind (store_view p t) (\<lambda>p'.
         rbind (store_pane owner p') (\<lambda>w1.
           rbind (navigate (cs_layout s) w1 (pane_id p') (view_id t)) (\<lambda>w2.
             let s1 = (if win_id w2 \<noteq> win_id (cs_window s) then s\<lparr>cs_focus := Some (win_id w2)\<rparr> else s)
             in Inr (store_window s1 w2)))))"

definition replaced_preview ::
  "command_state \<Rightarrow> view \<Rightarrow> string option \<Rightarrow> pane \<Rightarrow> (ws_error, view option) result" where
  "replaced_preview s wanted replace target =
     (case replace of
        None \<Rightarrow> Inr None
      | Some i \<Rightarrow>
          if i = [] then Inr None
          else rbind (tab_by_id (cs_window s) i) (\<lambda>(p, t).
            if pane_id p \<noteq> pane_id target \<or> definition_id (view_resource t) \<noteq> ''project.file'' \<or>
               definition_id (view_resource wanted) \<noteq> ''project.file'' \<or> \<not> preview wanted
            then Inl (invalid ''Preview replacement requires file views in the same pane.'')
            else Inr (if preview t then Some t else None)))"

definition add_or_replace ::
  "command_state \<Rightarrow> view \<Rightarrow> view option \<Rightarrow> pane \<Rightarrow> (ws_error, pane) result" where
  "add_or_replace s wanted replaced target =
     (case replaced of
        None \<Rightarrow> Inr (target\<lparr>tabs := tabs target @ [wanted]\<rparr>)
      | Some t \<Rightarrow>
          if reserved s (view_id t) then Inl (invalid ''Preview is reserved for a pending transfer.'')
          else if \<exists>u \<in> set (tabs target). view_id u = view_id t
          then Inr (target\<lparr>tabs := set_first (\<lambda>u. view_id u = view_id t) wanted (tabs target)\<rparr>)
          else Inl Panic)"

definition open_in_pane ::
  "command_state \<Rightarrow> view \<Rightarrow> string option \<Rightarrow> string \<Rightarrow> (ws_error, command_state) result" where
  "open_in_pane s wanted replace pid =
     rbind (pane_by_id (cs_window s) pid) (\<lambda>target.
       rbind (replaced_preview s wanted replace target) (\<lambda>replaced.
         rbind (add_or_replace s wanted replaced target) (\<lambda>target'.
           rbind (store_pane (cs_window s) target') (\<lambda>w.
             set_window s (navigate (cs_layout s) w (pane_id target') (view_id wanted))))))"

definition open_new_pane ::
  "command_state \<Rightarrow> view \<Rightarrow> string option \<Rightarrow> string \<Rightarrow> region \<Rightarrow> string \<Rightarrow> (ws_error, command_state) result" where
  "open_new_pane s wanted replace pid r sid =
     (if truthy replace then Inl (invalid ''Preview replacement requires an existing pane.'')
      else
        let w = cs_window s;
            w1 = w\<lparr>panes := panes w @ [new_pane pid r wanted]\<rparr>;
            w2 = (if r = Center
                  then w1\<lparr>center_root := Some (case center_root w of
                            None \<Rightarrow> Leaf pid
                          | Some rt \<Rightarrow> Split sid Horizontal (1 / 2) rt (Leaf pid))\<rparr>
                  else w1)
        in set_window s (navigate (cs_layout s) w2 pid (view_id wanted)))"

definition act_open ::
  "command_state \<Rightarrow> view \<Rightarrow> string option \<Rightarrow> open_target \<Rightarrow> (ws_error, command_state) result" where
  "act_open s wanted replace target =
     (case find_resource (state_windows s) wanted of
        Some (owner, p, t) \<Rightarrow> open_existing s wanted owner p t
      | None \<Rightarrow>
          (case target of
             TargetPane pid \<Rightarrow> open_in_pane s wanted replace pid
           | TargetNewPane pid r sid \<Rightarrow> open_new_pane s wanted replace pid r sid))"

section \<open>Direct conversations\<close>

definition act_close_conversation :: "command_state \<Rightarrow> string \<Rightarrow> (ws_error, command_state) result" where
  "act_close_conversation s i =
     rbind (tab_by_id (cs_window s) i) (\<lambda>(p, v).
       if direct_id p \<noteq> Some (view_id v) then Inl (invalid ''View is not a direct conversation.'')
       else rbind (take_tab (cs_window s) p v) (\<lambda>w.
         set_window s (focus_next w (selected_view_id p = Some (view_id v)))))"

definition conversation_target :: "window \<Rightarrow> string option \<Rightarrow> (ws_error, pane option) result" where
  "conversation_target w pid =
     (case pid of
        Some i \<Rightarrow> rbind (pane_by_id w i) (\<lambda>p. Inr (Some p))
      | None \<Rightarrow>
          Inr (or_else
            (head_option (List.map_filter
               (\<lambda>i. find (\<lambda>p. pane_id p = i \<and> pane_region p = Center) (panes w)) (recent_panes w)))
            (find (\<lambda>p. pane_region p = Center) (panes w))))"

definition conversation_pane :: "window \<Rightarrow> pane option \<Rightarrow> string \<Rightarrow> string \<Rightarrow> (ws_error, window \<times> pane) result" where
  "conversation_pane w target new_id sid =
     (case target of
        Some p \<Rightarrow>
          if pane_region p \<noteq> Center then Inl (invalid ''Direct conversations require a center pane.'')
          else Inr (w, p)
      | None \<Rightarrow>
          let p = \<lparr>pane_id = new_id, pane_region = Center, pane_title = None, tabs = [],
                   active_tab = None, conversation_view = Some None, pane_selection = None\<rparr>
          in Inr (w\<lparr>panes := panes w @ [p],
                    center_root := Some (case center_root w of
                        None \<Rightarrow> Leaf new_id
                      | Some rt \<Rightarrow> Split sid Horizontal (1 / 2) rt (Leaf new_id))\<rparr>, p))"

definition act_open_conversation ::
  "command_state \<Rightarrow> string option option \<Rightarrow> view \<Rightarrow> string option \<Rightarrow> string \<Rightarrow> string \<Rightarrow> (ws_error, command_state) result" where
  "act_open_conversation s expected v pid new_id sid =
     (case find_resource (state_windows s) v of
        Some (owner, p, t) \<Rightarrow>
          rbind (focus owner (pane_id p) (Some (view_id t))) (\<lambda>w.
            let s1 = (if win_id w \<noteq> win_id (cs_window s) then s\<lparr>cs_focus := Some (win_id w)\<rparr> else s)
            in Inr (store_window s1 w))
      | None \<Rightarrow>
          rbind (conversation_target (cs_window s) pid) (\<lambda>target.
            rbind (conversation_pane (cs_window s) target new_id sid)
              (\<lambda>(w, p).
                 rbind (ensure (\<not> (\<exists>i. direct_id p = Some i \<and> reserved s i))
                          (invalid ''Conversation is reserved for a pending transfer.'')) (\<lambda>_.
                   rbind (ensure (case expected of None \<Rightarrow> True | Some e \<Rightarrow> e = direct_id p)
                            (invalid ''Conversation selection changed during draft preparation.'')) (\<lambda>_.
                     let p' = p\<lparr>conversation_view := Some (Some v)\<rparr>
                     in rbind (store_pane w p') (\<lambda>w'.
                          set_window s (focus w' (pane_id p') (Some (view_id v)))))))))"

section \<open>Migrations of legacy views\<close>

definition file_view :: "legacy_view \<Rightarrow> opaque option \<Rightarrow> view" where
  "file_view lv dock =
     \<lparr>view_id = lv_tab lv, view_resource = Entity ''project.file'' (lv_document lv), preview = False,
      file_mode = Some (lv_mode lv), file_viewer = None, view_title = None, built_in_state = None,
      dock_presentation = dock\<rparr>"

fun migration_free :: "string list \<Rightarrow> string list \<Rightarrow> legacy_view list \<Rightarrow> bool" where
  "migration_free occupied documents [] = True"
| "migration_free occupied documents (v # vs) =
     (lv_tab v \<notin> set occupied \<and> lv_document v \<notin> set documents \<and>
      migration_free (lv_tab v # occupied) (lv_document v # documents) vs)"

definition file_documents :: "view list \<Rightarrow> string list" where
  "file_documents vs =
     List.map_filter (\<lambda>t. case view_resource t of
        Entity d r \<Rightarrow> if d = ''project.file'' then Some r else None
      | Builtin _ \<Rightarrow> None) vs"

definition splice_after :: "nat \<Rightarrow> 'a list \<Rightarrow> 'a list \<Rightarrow> 'a list" where
  "splice_after i ys xs = take (i + 1) xs @ ys @ drop (i + 1) xs"

definition splice_files :: "pane \<Rightarrow> view \<Rightarrow> nat \<Rightarrow> view list \<Rightarrow> (ws_error, pane) result" where
  "splice_files p v i files =
     (let p1 = p\<lparr>tabs := splice_after i files (tabs p)\<rparr>
      in if active_tab p = Some (view_id v)
         then rbind (ok_or Panic (head_option files)) (\<lambda>f. Inr (p1\<lparr>active_tab := Some (view_id f)\<rparr>))
         else Inr p1)"

definition act_migrate_code_files ::
  "command_state \<Rightarrow> string \<Rightarrow> string \<Rightarrow> legacy_view list \<Rightarrow> (ws_error, command_state) result" where
  "act_migrate_code_files s tab code vs =
     rbind (tab_by_id (cs_window s) tab) (\<lambda>(p, v).
       if view_resource v \<noteq> Entity ''project.code'' code then Inl (invalid ''Legacy Code binding changed.'')
       else
         let receipt = \<lparr>ci_tab = view_id v, ci_code = code, ci_views = vs\<rparr>
         in case find (\<lambda>r. ci_tab r = view_id v) (json_values (code_imports (cs_layout s))) of
              Some prior \<Rightarrow>
                if prior \<noteq> receipt then Inl (invalid ''Code conversion receipt does not match.'') else Inr s
            | None \<Rightarrow>
                if reserved s (view_id v) then Inl (invalid ''Legacy view is reserved for a pending transfer.'')
                else if \<not> migration_free (map view_id (all_tabs s)) (file_documents (all_tabs s)) vs
                then Inl (invalid ''Migration view or document identity is already in use.'')
                else
                  let files = map (\<lambda>lv. file_view lv (dock_presentation v)) vs
                  in case find_index_of (\<lambda>t. view_id t = view_id v) (tabs p) of
                       None \<Rightarrow> Inl Panic
                     | Some i \<Rightarrow>
                         rbind (splice_files p v i files) (\<lambda>p'.
                           rbind (store_pane (cs_window s) p') (\<lambda>w.
                             rbind (if active_tab p = Some (view_id v) \<and> focused_pane (cs_window s) = Some (pane_id p)
                                    then rbind (ok_or Panic (head_option files)) (\<lambda>f.
                                           focus w (pane_id p') (Some (view_id f)))
                                    else Inr w) (\<lambda>w'.
                               Inr (s\<lparr>cs_window := w', cs_layout := (cs_layout s)\<lparr>code_imports :=
                                        Some (json_values (code_imports (cs_layout s)) @ [receipt])\<rparr>\<rparr>)))))"

definition act_migrate_explorer_file ::
  "command_state \<Rightarrow> string \<Rightarrow> string \<Rightarrow> string \<Rightarrow> opaque \<Rightarrow> legacy_view list \<Rightarrow> (ws_error, command_state) result" where
  "act_migrate_explorer_file s tab explorer document mode retained =
     rbind (tab_by_id (cs_window s) tab) (\<lambda>(p, v).
       if view_resource v \<noteq> Entity ''project.explorer'' explorer
       then Inl (invalid ''Legacy Explorer binding changed.'')
       else if reserved s (view_id v) then Inl (invalid ''Legacy view is reserved for a pending transfer.'')
       else if \<not> migration_free (map view_id (all_tabs s)) [document] retained
       then Inl (invalid ''Migration view or document identity is already in use.'')
       else
         let v' = v\<lparr>view_resource := Entity ''project.file'' document, file_mode := Some mode, view_title := None\<rparr>
         in case find_index_of (\<lambda>t. view_id t = view_id v) (tabs p) of
              None \<Rightarrow> Inl Panic
            | Some i \<Rightarrow>
                set_window s (store_pane (cs_window s)
                  (p\<lparr>tabs := splice_after i (map (\<lambda>lv. file_view lv (dock_presentation v')) retained)
                              ((tabs p)[i := v'])\<rparr>)))"

end
