(* ===== verification/WorkspaceWindow.thy ===== *)
theory WorkspaceWindow
  imports WorkspaceTree WorkspaceCommands
begin

text \<open>
  Lemmas on the operations that a command applies to one window: storing, focusing, removing a pane
  and taking a view. Each is given as an equation on the panes under the distinctness of identities
  that a valid layout provides; the commands' proofs use these equations only.
\<close>

named_theorems window_simps

section \<open>Lists with keys\<close>

lemma key_image: "k \<in> f ` S \<longleftrightarrow> (\<exists>x \<in> S. f x = k)"
  by auto

lemma set_first_map:
  "distinct (map f xs) \<Longrightarrow> x \<in> set xs \<Longrightarrow> f x = k \<Longrightarrow>
   set_first (\<lambda>q. f q = k) y xs = map (\<lambda>q. if f q = k then y else q) xs"
proof (induction xs)
  case (Cons a xs)
  show ?case
  proof (cases "f a = k")
    case True
    with Cons.prems have "map (\<lambda>q. if f q = k then y else q) xs = xs"
      by (intro map_idI) (auto simp: key_image)
    with True show ?thesis by simp
  next
    case False
    with Cons show ?thesis by auto
  qed
qed simp

lemma find_distinct: "distinct (map f xs) \<Longrightarrow> x \<in> set xs \<Longrightarrow> find (\<lambda>q. f q = f x) xs = Some x"
  by (induction xs) (auto simp: rev_image_eqI)

lemma find_None_iff_key: "find (\<lambda>q. f q = k) xs = None \<longleftrightarrow> k \<notin> set (map f xs)"
  by (auto simp: find_None_iff)

lemma distinct_keyD: "distinct (map f xs) \<Longrightarrow> x \<in> set xs \<Longrightarrow> y \<in> set xs \<Longrightarrow> f x = f y \<Longrightarrow> x = y"
  by (metis distinct_map inj_onD)

lemma remove_at_filter:
  "distinct (map f xs) \<Longrightarrow> find_index_of (\<lambda>q. f q = k) xs = Some i \<Longrightarrow>
   take i xs @ drop (i + 1) xs = filter (\<lambda>q. f q \<noteq> k) xs"
proof (induction xs arbitrary: i)
  case (Cons a xs)
  show ?case
  proof (cases "f a = k")
    case True
    with Cons.prems have "i = 0" by (simp add: find_index_of_def)
    moreover have "filter (\<lambda>q. f q \<noteq> k) xs = xs"
      using Cons.prems(1) True by (auto simp: filter_id_conv key_image)
    ultimately show ?thesis using True by simp
  next
    case False
    with Cons.prems obtain j where "find_index_of (\<lambda>q. f q = k) xs = Some j" "i = Suc j"
      by (auto simp: find_index_of_def Let_def split: if_splits)
    with Cons False show ?thesis by simp
  qed
qed (simp add: find_index_of_def)

lemma concat_map_replace:
  "distinct (map f xs) \<Longrightarrow> x \<in> set xs \<Longrightarrow> f x = k \<Longrightarrow>
   \<exists>as bs. xs = as @ x # bs \<and> map (\<lambda>q. if f q = k then y else q) xs = as @ y # bs"
proof -
  assume d: "distinct (map f xs)" and x: "x \<in> set xs" "f x = k"
  obtain as bs where xs: "xs = as @ x # bs" using x(1) by (auto simp: in_set_conv_decomp)
  have "map (\<lambda>q. if f q = k then y else q) as = as" "map (\<lambda>q. if f q = k then y else q) bs = bs"
    using d x(2) unfolding xs by (auto intro!: map_idI simp: key_image)
  then show ?thesis using xs x(2) by auto
qed

section \<open>Views of a pane\<close>

lemma normalize_pane_simps [simp]:
  "pane_id (normalize_pane p) = pane_id p"
  "pane_region (normalize_pane p) = pane_region p"
  "tabs (normalize_pane p) = tabs p"
  "active_tab (normalize_pane p) = active_tab p"
  "direct_view (normalize_pane p) = direct_view p"
  "pane_views (normalize_pane p) = pane_views p"
  by (simp_all add: normalize_pane_def Let_def direct_view_def pane_views_def split: option.splits)

lemma pane_views_update [simp]:
  "pane_views (p\<lparr>active_tab := a\<rparr>) = pane_views p"
  "pane_views (p\<lparr>pane_selection := c\<rparr>) = pane_views p"
  "pane_views (p\<lparr>pane_title := t\<rparr>) = pane_views p"
  "pane_views (p\<lparr>pane_region := r\<rparr>) = pane_views p"
  by (simp_all add: pane_views_def direct_view_def)

lemma direct_view_update [simp]:
  "direct_view (p\<lparr>active_tab := a\<rparr>) = direct_view p"
  "direct_view (p\<lparr>pane_selection := c\<rparr>) = direct_view p"
  "direct_view (p\<lparr>pane_title := t\<rparr>) = direct_view p"
  "direct_view (p\<lparr>pane_region := r\<rparr>) = direct_view p"
  "direct_view (p\<lparr>tabs := ts\<rparr>) = direct_view p"
  "direct_view (p\<lparr>conversation_view := Some v\<rparr>) = v"
  by (simp_all add: direct_view_def)

lemma direct_id_None [simp]: "direct_id p = None \<longleftrightarrow> direct_view p = None"
  by (simp add: direct_id_def)

lemma direct_id_eq: "direct_id p = Some i \<longleftrightarrow> (\<exists>v. direct_view p = Some v \<and> view_id v = i)"
  by (simp add: direct_id_def)

lemma focus_content_simps [simp]:
  "pane_id (focus_content p t) = pane_id p"
  "pane_region (focus_content p t) = pane_region p"
  "pane_title (focus_content p t) = pane_title p"
  "tabs (focus_content p t) = tabs p"
  "direct_view (focus_content p t) = direct_view p"
  "pane_views (focus_content p t) = pane_views p"
  "direct_id (focus_content p t) = direct_id p"
  by (simp_all add: focus_content_def direct_id_def)

definition without_view :: "pane \<Rightarrow> view \<Rightarrow> pane" where
  "without_view p v =
     (if direct_id p = Some (view_id v) then drop_direct p v
      else drop_tab p v (the (find_index_of (\<lambda>t. view_id t = view_id v) (tabs p))))"

lemma drop_id [simp]:
  "pane_id (drop_direct p v) = pane_id p" "pane_region (drop_direct p v) = pane_region p"
  "pane_id (drop_tab p v i) = pane_id p" "pane_region (drop_tab p v i) = pane_region p"
  by (simp_all add: drop_direct_def drop_tab_def Let_def)

lemma without_view_id [simp]:
  "pane_id (without_view p v) = pane_id p"
  "pane_region (without_view p v) = pane_region p"
  by (simp_all add: without_view_def)

lemma drop_tab_views:
  assumes "distinct (map view_id (tabs p))" "direct_id p \<noteq> Some (view_id v)"
    and "find_index_of (\<lambda>t. view_id t = view_id v) (tabs p) = Some i"
  shows "pane_views (drop_tab p v i) = filter (\<lambda>u. view_id u \<noteq> view_id v) (pane_views p)"
proof -
  have "pane_views (p\<lparr>tabs := take i (tabs p) @ drop (Suc i) (tabs p)\<rparr>) =
      filter (\<lambda>u. view_id u \<noteq> view_id v) (pane_views p)"
    using assms(2) remove_at_filter [OF assms(1,3)]
    by (auto simp: pane_views_def direct_id_def split: option.splits)
  then show ?thesis by (simp add: drop_tab_def Let_def)
qed

lemma without_view_views:
  assumes "distinct (map view_id (pane_views p))" "v \<in> set (pane_views p)"
  shows "pane_views (without_view p v) = filter (\<lambda>u. view_id u \<noteq> view_id v) (pane_views p)"
proof (cases "direct_id p = Some (view_id v)")
  case True
  then obtain c where c: "direct_view p = Some c" "view_id c = view_id v"
    by (auto simp: direct_id_eq)
  have "\<forall>u \<in> set (tabs p). view_id u \<noteq> view_id v"
    using assms(1) c by (auto simp: pane_views_def key_image)
  then show ?thesis
    using True c by (simp add: without_view_def drop_direct_def Let_def pane_views_def)
next
  case False
  then have v: "v \<in> set (tabs p)" and d: "distinct (map view_id (tabs p))"
    using assms by (auto simp: pane_views_def direct_id_def split: option.splits)
  obtain i where i: "find_index_of (\<lambda>t. view_id t = view_id v) (tabs p) = Some i"
    using v find_index_of_None [of "\<lambda>t. view_id t = view_id v" "tabs p"] by fastforce
  show ?thesis
    using False i drop_tab_views [OF d False i] by (simp add: without_view_def)
qed

lemma pane_views_single:
  assumes "distinct (map view_id (pane_views p))" "v \<in> set (pane_views p)"
  shows "length (pane_views p) = 1 \<longleftrightarrow> filter (\<lambda>u. view_id u \<noteq> view_id v) (pane_views p) = []"
proof -
  have "filter (\<lambda>u. view_id u \<noteq> view_id v) (pane_views p) = [] \<longleftrightarrow> (\<forall>u \<in> set (pane_views p). u = v)"
    using distinct_keyD [OF assms(1) _ assms(2)] by (auto simp: filter_empty_conv)
  also have "\<dots> \<longleftrightarrow> length (pane_views p) = 1"
  proof
    assume "\<forall>u \<in> set (pane_views p). u = v"
    then have "set (pane_views p) = {v}" using assms(2) by blast
    moreover have "distinct (pane_views p)" using assms(1) by (simp add: distinct_map)
    ultimately show "length (pane_views p) = 1" using distinct_card [of "pane_views p"] by simp
  next
    assume "length (pane_views p) = 1"
    then show "\<forall>u \<in> set (pane_views p). u = v" using assms(2) by (auto simp: length_Suc_conv)
  qed
  finally show ?thesis by simp
qed

lemma view_not_direct: "v \<in> set (pane_views p) \<Longrightarrow> direct_id p \<noteq> Some (view_id v) \<Longrightarrow> v \<in> set (tabs p)"
  by (cases "direct_view p") (auto simp: pane_views_def direct_id_def)

lemma pane_views_tabs: "distinct (map view_id (pane_views p)) \<Longrightarrow> distinct (map view_id (tabs p))"
  by (auto simp: pane_views_def)

lemma found_index: "x \<in> set xs \<Longrightarrow> f x = k \<Longrightarrow> \<exists>i. find_index_of (\<lambda>q. f q = k) xs = Some i"
  using find_index_of_None [of "\<lambda>q. f q = k" xs] by auto

lemma length_filter_key:
  assumes "distinct (map f xs)" "x \<in> set xs" "f x = k"
  shows "length (filter (\<lambda>q. f q \<noteq> k) xs) = length xs - 1"
proof -
  obtain as bs where xs: "xs = as @ x # bs" using assms(2) by (auto simp: in_set_conv_decomp)
  have "filter (\<lambda>q. f q \<noteq> k) as = as" "filter (\<lambda>q. f q \<noteq> k) bs = bs"
    using assms(1,3) unfolding xs by (auto simp: filter_id_conv key_image)
  then show ?thesis using assms(3) xs by simp
qed

section \<open>Operations on a window\<close>

lemma store_pane_ok:
  "distinct (map pane_id (panes w)) \<Longrightarrow> pane_id p \<in> set (map pane_id (panes w)) \<Longrightarrow>
   store_pane w p = Inr (w\<lparr>panes := map (\<lambda>q. if pane_id q = pane_id p then p else q) (panes w)\<rparr>)"
  by (auto simp: store_pane_def set_first_map)

lemma store_pane_Inr: "store_pane w p = Inr w' \<Longrightarrow> pane_id p \<in> set (map pane_id (panes w))"
  by (auto simp: store_pane_def key_image split: if_splits)

lemma store_pane_safe: "store_pane w p = Inl e \<longleftrightarrow> pane_id p \<notin> set (map pane_id (panes w)) \<and> e = Panic"
  by (auto simp: store_pane_def key_image)

lemma focus_ok:
  assumes "distinct (map pane_id (panes w))" "p \<in> set (panes w)"
  shows "focus w (pane_id p) tab =
    Inr (w\<lparr>panes := map (\<lambda>q. if pane_id q = pane_id p then focus_content p tab else q) (panes w),
           focused_pane := Some (pane_id p),
           recent_panes := front (pane_id p) (recent_panes w),
           recent_tabs := Some (front tab (json_values (recent_tabs w)))\<rparr>)"
  using assms by (simp add: focus_def find_distinct set_first_map [OF assms refl])

lemma focus_Inl: "focus w i tab = Inl e \<longleftrightarrow> i \<notin> set (map pane_id (panes w)) \<and> e = Panic"
  by (auto simp: focus_def find_None_iff split: option.splits dest!: find_SomeD)

lemma retire_conversation_Inr:
  "retire_conversation l p t = Inr q \<Longrightarrow>
   q = p \<or> (\<exists>v. direct_view p = Some v \<and> Some (view_id v) \<noteq> t \<and> \<not> reserved_in l (view_id v) \<and>
     q = p\<lparr>conversation_view := Some None\<rparr>)"
  by (auto simp: retire_conversation_def split: option.splits if_splits)

lemma retire_conversation_id: "retire_conversation l p t = Inr q \<Longrightarrow> pane_id q = pane_id p \<and> tabs q = tabs p"
  by (auto dest!: retire_conversation_Inr)

lemma retire_conversation_safe [simp]: "retire_conversation l p t \<noteq> Inl Panic"
  by (auto simp: retire_conversation_def split: option.splits)

lemma set_first_keys:
  "f y = k \<Longrightarrow> map f (set_first (\<lambda>q. f q = k) y xs) = map f xs"
  by (induction xs) auto

lemma navigate_Inl_Panic: "navigate l w i tab = Inl Panic \<longleftrightarrow> i \<notin> set (map pane_id (panes w))"
proof (cases "find (\<lambda>p. pane_id p = i) (panes w)")
  case None
  then have "i \<notin> set (map pane_id (panes w))" by (simp add: find_None_iff_key)
  then show ?thesis by (simp add: navigate_def None)
next
  case (Some p)
  then have p: "p \<in> set (panes w)" "pane_id p = i" by (auto dest: find_SomeD)
  have "map pane_id (set_first (\<lambda>q. pane_id q = i) p' (panes w)) = map pane_id (panes w)"
    if "retire_conversation l p (Some tab) = Inr p'" for p'
    using that p(2) by (intro set_first_keys) (auto dest: retire_conversation_id)
  then show ?thesis
    using Some p by (auto simp: navigate_def rbind_eq_Inl focus_Inl simp del: set_map) (simp add: rev_image_eqI)
qed

lemma remove_pane_simps [simp]:
  "panes (remove_pane w i) = filter (\<lambda>p. pane_id p \<noteq> i) (panes w)"
  "center_root (remove_pane w i) = remove_leaf (center_root w) i"
  "win_id (remove_pane w i) = win_id w"
  "attachment_generation (remove_pane w i) = attachment_generation w"
  "renderer_id (remove_pane w i) = renderer_id w"
  "recent_tabs (remove_pane w i) = recent_tabs w"
  "return_placement (remove_pane w i) = return_placement w"
  by (simp_all add: remove_pane_def Let_def split: option.splits)

definition after_take :: "window \<Rightarrow> pane \<Rightarrow> view \<Rightarrow> window" where
  "after_take w p v =
     (if length (pane_views p) = 1 then remove_pane w (pane_id p)
      else w\<lparr>panes := map (\<lambda>q. if pane_id q = pane_id p then without_view p v else q) (panes w)\<rparr>)"

lemma take_tab_ok:
  assumes d: "distinct (map pane_id (panes w))" and p: "pane_id p \<in> set (map pane_id (panes w))"
    and dv: "distinct (map view_id (pane_views p))" and v: "v \<in> set (pane_views p)"
  shows "take_tab w p v = Inr (after_take w p v)"
proof (cases "direct_id p = Some (view_id v)")
  case True
  then obtain c where c: "direct_view p = Some c" by (auto simp: direct_id_eq)
  then have "length (pane_views p) = 1 \<longleftrightarrow> tabs p = []" by (simp add: pane_views_def)
  moreover have "store_pane w (without_view p v) =
      Inr (w\<lparr>panes := map (\<lambda>q. if pane_id q = pane_id p then without_view p v else q) (panes w)\<rparr>)"
    using store_pane_ok [OF d, of "without_view p v"] p by simp
  ultimately show ?thesis
    using True by (simp add: take_tab_def without_view_def after_take_def)
next
  case False
  then have vt: "v \<in> set (tabs p)" and dt: "distinct (map view_id (tabs p))"
    using dv v by (auto simp: pane_views_def direct_id_def split: option.splits)
  obtain i where i: "find_index_of (\<lambda>t. view_id t = view_id v) (tabs p) = Some i"
    using vt find_index_of_None [of "\<lambda>t. view_id t = view_id v" "tabs p"] by fastforce
  have ve: "pane_views (drop_tab p v i) = [] \<longleftrightarrow> length (pane_views p) = 1"
    using pane_views_single [OF dv v] drop_tab_views [OF dt False i] by simp
  have "store_pane w (without_view p v) =
      Inr (w\<lparr>panes := map (\<lambda>q. if pane_id q = pane_id p then without_view p v else q) (panes w)\<rparr>)"
    using store_pane_ok [OF d, of "without_view p v"] p by simp
  then show ?thesis
    using False i ve by (simp add: take_tab_def without_view_def after_take_def)
qed

end
