(* ===== verification/WorkspaceTransfers.thy ===== *)
theory WorkspaceTransfers
  imports WorkspaceCommands
begin

text \<open>
  Transfers of views between windows (\<^verbatim>\<open>workspace_layouts/commands/transfers.rs\<close>): a pane or
  one of its views is reserved for a destination window, the destination acknowledges its readiness
  and its restored state, and the source commits. Until the commit the source owns every view.
\<close>

section \<open>Reservations\<close>

definition pending :: "command_state \<Rightarrow> transfer list" where
  "pending s = json_values (pending_transfers (cs_layout s))"

definition set_pending :: "command_state \<Rightarrow> transfer list \<Rightarrow> command_state" where
  "set_pending s ts = s\<lparr>cs_layout := (cs_layout s)\<lparr>pending_transfers := Some ts\<rparr>\<rparr>"

definition retire :: "command_state \<Rightarrow> string \<Rightarrow> command_state" where
  "retire s i =
     s\<lparr>cs_layout := (cs_layout s)\<lparr>windows := filter (\<lambda>w. win_id w \<noteq> i) (windows (cs_layout s))\<rparr>,
       cs_retired := cs_retired s @ [i]\<rparr>"

definition placement_of :: "command_state \<Rightarrow> pane \<Rightarrow> nat \<Rightarrow> (ws_error, placement) result" where
  "placement_of s p tab_at =
     rbind (ok_or Panic (find_index_of (\<lambda>q. pane_id q = pane_id p) (panes (cs_window s)))) (\<lambda>i.
       Inr \<lparr>pane_position = i, tab_position = tab_at, placed_kind = None,
            placed_region = pane_region p, placed_root = center_root (cs_window s)\<rparr>)"

definition window_transfer :: "string \<Rightarrow> transfer \<Rightarrow> bool" where
  "window_transfer i t \<longleftrightarrow> tr_source_window t = i \<or> tr_destination_window t = i"

definition retire_staged :: "command_state \<Rightarrow> transfer list \<Rightarrow> command_state" where
  "retire_staged s ts =
     fold (\<lambda>t s. if truthy (tr_return_split t) then s else retire s (tr_destination_window t)) ts s"

definition act_replace_attachment :: "command_state \<Rightarrow> string \<Rightarrow> (ws_error, command_state) result" where
  "act_replace_attachment s renderer =
     (let w = cs_window s; previous = pending s
      in if renderer_id w = Some renderer then Inr s
         else if (\<exists>t \<in> set previous. tr_destination_window t = win_id w \<and> \<not> truthy (tr_return_split t)) \<and>
                 renderer_id w = None
         then Inr (s\<lparr>cs_window := w\<lparr>renderer_id := Some renderer\<rparr>\<rparr>)
         else if attachment_generation w + 1 > max_safe_integer
         then Inl (CommandError CodeAttachment ''Workspace attachment generation is exhausted.'')
         else
           let s1 = retire_staged s (filter (window_transfer (win_id w)) previous);
               s2 = set_pending s1 (filter (\<lambda>t. \<not> window_transfer (win_id w) t) previous)
           in Inr (s2\<lparr>cs_window := w\<lparr>attachment_generation := attachment_generation w + 1,
                                      renderer_id := Some renderer\<rparr>\<rparr>))"

section \<open>Preparation\<close>

definition selected_views :: "pane \<Rightarrow> string option \<Rightarrow> (ws_error, view list) result" where
  "selected_views p tab =
     (case tab of
        Some i \<Rightarrow>
          if i \<noteq> []
          then rbind (ok_or (missing ''Tab does not belong to the source pane.'')
                       (find (\<lambda>v. view_id v = i) (pane_views p))) (\<lambda>v. Inr [v])
          else Inr (pane_views p)
      | None \<Rightarrow> Inr (pane_views p))"

definition pane_in_windows :: "window list \<Rightarrow> string \<Rightarrow> bool" where
  "pane_in_windows ws i \<longleftrightarrow> (\<exists>w \<in> set ws. \<exists>p \<in> set (panes w). pane_id p = i)"

definition transfer_in_use :: "transfer list \<Rightarrow> string \<Rightarrow> view list \<Rightarrow> bool" where
  "transfer_in_use ts i selected \<longleftrightarrow>
     (\<exists>t \<in> set ts. tr_id t = i \<or> (\<exists>v \<in> set (tr_tabs t). v \<in> set (map view_id selected)))"

definition source_placement ::
  "command_state \<Rightarrow> pane \<Rightarrow> string option \<Rightarrow> view list \<Rightarrow> (ws_error, placement) result" where
  "source_placement s p tab selected =
     rbind (ok_or Panic (head_option selected)) (\<lambda>first.
       rbind (ok_or Panic (find_index_of (\<lambda>v. view_id v = view_id first) (pane_views p))) (\<lambda>i.
         rbind (placement_of s p i) (\<lambda>pl.
           Inr (if truthy tab \<and> direct_id p = tab then pl\<lparr>placed_kind := Some ConversationView\<rparr> else pl))))"

definition act_prepare_return ::
  "command_state \<Rightarrow> string \<Rightarrow> string \<Rightarrow> string option \<Rightarrow> string option \<Rightarrow> string \<Rightarrow> (ws_error, command_state) result" where
  "act_prepare_return s transfer_id pid tab destination_pane sid =
     (if win_id (cs_window s) = main_window (cs_layout s)
      then Inl (invalid ''The main window cannot return to itself.'')
      else rbind (pane_by_id (cs_window s) pid) (\<lambda>p.
        rbind (selected_views p tab) (\<lambda>selected.
          rbind (ensure (\<not> (if truthy tab
                            then \<not> truthy destination_pane \<or>
                                 pane_in_windows (state_windows s) (the_default [] destination_pane)
                            else truthy destination_pane \<and> destination_pane \<noteq> Some (pane_id p)))
                   (invalid ''A pane transfer preserves its identity; a tab transfer requires a new pane identity.''))
            (\<lambda>_. rbind (other_window s (main_window (cs_layout s)) ''Main window is unavailable.'') (\<lambda>destination.
               rbind (ensure (\<not> transfer_in_use (pending s) transfer_id selected)
                        (invalid ''Transfer identity or views are already in use.'')) (\<lambda>_.
                 rbind (source_placement s p tab selected) (\<lambda>pl.
                   Inr (set_pending s (pending s @
                     [\<lparr>tr_id = transfer_id, tr_source_window = win_id (cs_window s),
                       tr_source_generation = attachment_generation (cs_window s),
                       tr_source_pane = pane_id p, tr_placement = pl, tr_tabs = map view_id selected,
                       tr_whole_pane = (\<not> truthy tab), tr_destination_window = win_id destination,
                       tr_destination_generation = attachment_generation destination,
                       tr_destination_pane =
                         (if truthy tab then the_default [] destination_pane else pane_id p),
                       tr_return_split = Some sid, tr_phase = Preparing\<rparr>])))))))))"

definition act_prepare_detach ::
  "command_state \<Rightarrow> string \<Rightarrow> string \<Rightarrow> string option \<Rightarrow> string \<Rightarrow> string \<Rightarrow> (ws_error, command_state) result" where
  "act_prepare_detach s transfer_id pid tab destination destination_pane =
     rbind (pane_by_id (cs_window s) pid) (\<lambda>p.
       rbind (selected_views p tab) (\<lambda>selected.
         if (\<exists>w \<in> set (state_windows s). win_id w = destination) \<or>
            transfer_in_use (pending s) transfer_id selected
         then Inl (invalid ''Transfer identity, destination, or views are already in use.'')
         else if (if truthy tab then pane_in_windows (state_windows s) destination_pane
                  else destination_pane \<noteq> pane_id p)
         then Inl (invalid ''A pane transfer preserves its identity; a tab transfer requires a new pane identity.'')
         else rbind (source_placement s p tab selected) (\<lambda>pl.
           let l = cs_layout s;
               w = \<lparr>win_id = destination, attachment_generation = 0, renderer_id = None, panes = [],
                    center_root = None, focused_pane = None, recent_panes = [], recent_tabs = None,
                    return_placement = None\<rparr>;
               t = \<lparr>tr_id = transfer_id, tr_source_window = win_id (cs_window s),
                    tr_source_generation = attachment_generation (cs_window s),
                    tr_source_pane = pane_id p, tr_placement = pl, tr_tabs = map view_id selected,
                    tr_whole_pane = (\<not> truthy tab), tr_destination_window = destination,
                    tr_destination_generation = 0, tr_destination_pane = destination_pane,
                    tr_return_split = None, tr_phase = Preparing\<rparr>
           in Inr (s\<lparr>cs_layout := l\<lparr>windows := windows l @ [w],
                                     pending_transfers := Some (pending s @ [t])\<rparr>\<rparr>))))"

section \<open>Acknowledgement and cancellation\<close>

definition pending_by_id :: "command_state \<Rightarrow> string \<Rightarrow> (ws_error, transfer) result" where
  "pending_by_id s i = ok_or (missing ''Transfer no longer exists.'') (find (\<lambda>t. tr_id t = i) (pending s))"

definition store_transfer :: "command_state \<Rightarrow> transfer \<Rightarrow> command_state" where
  "store_transfer s t = set_pending s (set_first (\<lambda>u. tr_id u = tr_id t) t (pending s))"

definition act_transfer_ready :: "command_state \<Rightarrow> string \<Rightarrow> (ws_error, command_state) result" where
  "act_transfer_ready s i =
     rbind (pending_by_id s i) (\<lambda>t.
       if tr_destination_window t \<noteq> win_id (cs_window s)
       then Inl (CommandError CodeScope ''Only the destination can acknowledge readiness.'')
       else Inr (store_transfer s (if tr_phase t = Preparing then t\<lparr>tr_phase := DestinationReady\<rparr> else t)))"

definition act_transfer_state_ready :: "command_state \<Rightarrow> string \<Rightarrow> (ws_error, command_state) result" where
  "act_transfer_state_ready s i =
     rbind (pending_by_id s i) (\<lambda>t.
       if tr_destination_window t \<noteq> win_id (cs_window s)
       then Inl (CommandError CodeScope ''Only the destination can acknowledge restored state.'')
       else if tr_phase t = Preparing
       then Inl (invalid ''Destination application readiness has not been acknowledged.'')
       else Inr (store_transfer s (t\<lparr>tr_phase := StateReady\<rparr>)))"

definition act_cancel_transfer :: "command_state \<Rightarrow> string \<Rightarrow> (ws_error, command_state) result" where
  "act_cancel_transfer s i =
     rbind (pending_by_id s i) (\<lambda>t.
       if tr_source_window t \<noteq> win_id (cs_window s)
       then Inl (CommandError CodeScope ''Only the source can cancel this transfer.'')
       else
         let s1 = (if truthy (tr_return_split t) then s else retire s (tr_destination_window t))
         in Inr (set_pending s1 (filter (\<lambda>u. tr_id u \<noteq> i) (pending s))))"

section \<open>Commit\<close>

definition commit_views :: "transfer \<Rightarrow> pane \<Rightarrow> (ws_error, view list) result" where
  "commit_views t p =
     rbind (rmap (\<lambda>i. ok_or (missing ''Transferred tab no longer belongs to the prepared source pane.'')
                    (find (\<lambda>v. view_id v = i) (pane_views p))) (tr_tabs t)) (\<lambda>selected.
       if tr_whole_pane t \<and>
          (length (pane_views p) \<noteq> length selected \<or>
           (\<exists>(v, i) \<in> set (zip (pane_views p) (tr_tabs t)). view_id v \<noteq> i))
       then Inl (invalid ''Source pane membership changed during transfer preparation.'')
       else Inr selected)"

definition original_placement :: "transfer \<Rightarrow> window \<Rightarrow> pane \<Rightarrow> window \<Rightarrow> return_placement option" where
  "original_placement t w source destination =
     (case return_placement w of
        None \<Rightarrow> None
      | Some r \<Rightarrow>
          if truthy (tr_return_split t) \<and> rp_source_window r = win_id destination \<and>
             (rp_detached_pane r = Some (pane_id source) \<or>
              (rp_whole_pane r \<and> rp_source_pane r = pane_id source) \<or>
              (rp_detached_pane r = None \<and> \<not> rp_whole_pane r \<and> length (panes w) = 1))
          then Some r else None)"

definition moved_pane ::
  "transfer \<Rightarrow> window \<Rightarrow> pane \<Rightarrow> view list \<Rightarrow> (ws_error, window \<times> pane) result" where
  "moved_pane t w source selected =
     (if tr_whole_pane t
      then Inr (remove_pane w (pane_id source), source\<lparr>pane_region := Center\<rparr>)
      else (case selected of
              [v] \<Rightarrow>
                rbind (take_tab w source v) (\<lambda>w'.
                  Inr (w',
                    if placed_kind (tr_placement t) = Some ConversationView
                    then \<lparr>pane_id = tr_destination_pane t, pane_region = Center,
                          pane_title = pane_title source, tabs = [], active_tab = None,
                          conversation_view = Some (Some v),
                          pane_selection = Some (SelConversation (Some (view_id v)))\<rparr>
                    else \<lparr>pane_id = tr_destination_pane t, pane_region = Center,
                          pane_title = pane_title source, tabs = [v], active_tab = Some (view_id v),
                          conversation_view = None, pane_selection = None\<rparr>))
            | _ \<Rightarrow> Inl (invalid ''Single-tab transfer contains multiple tabs.'')))"

definition original_pane :: "return_placement \<Rightarrow> pane \<Rightarrow> window \<Rightarrow> pane option" where
  "original_pane r moved destination =
     (let conversation = (placed_kind (rp_placement r) = Some ConversationView)
      in if rp_whole_pane r \<or>
            \<not> (if conversation then direct_view moved \<noteq> None \<and> tabs moved = [] else direct_view moved = None)
         then None
         else or_else
           (find (\<lambda>p. pane_id p = rp_source_pane r \<and>
                      (conversation \<longrightarrow> pane_region p = Center \<and> direct_view p = None)) (panes destination))
           (if conversation then None
            else or_else
              (find (\<lambda>p. Some (pane_id p) = focused_pane destination \<and>
                         pane_region p = placed_region (rp_placement r)) (panes destination))
              (find (\<lambda>p. pane_region p = placed_region (rp_placement r)) (panes destination))))"

definition return_into :: "return_placement \<Rightarrow> pane \<Rightarrow> pane \<Rightarrow> window \<Rightarrow> (ws_error, window) result" where
  "return_into r moved p destination =
     (let p' = (if placed_kind (rp_placement r) = Some ConversationView
                then p\<lparr>conversation_view := Some (direct_view moved)\<rparr>
                else
                  let i = (if pane_id p = rp_source_pane r
                           then min (tab_position (rp_placement r)) (length (tabs p))
                           else length (tabs p))
                  in p\<lparr>tabs := take i (tabs p) @ tabs moved @ drop i (tabs p)\<rparr>)
      in rbind (store_pane destination p') (\<lambda>w. focus w (pane_id p') (selected_view_id moved)))"

definition return_tree :: "return_placement option \<Rightarrow> string \<Rightarrow> string \<Rightarrow> node option \<Rightarrow> node" where
  "return_tree original pid sid tree =
     (let original_tree = (case original of
            Some r \<Rightarrow> if rp_whole_pane r then placed_root (rp_placement r) else None
          | None \<Rightarrow> None)
      in case original_tree of
           Some o_tree \<Rightarrow>
             if remove_leaf (Some o_tree) pid = tree then o_tree
             else (case tree of Some n \<Rightarrow> Split sid Horizontal (1 / 2) n (Leaf pid) | None \<Rightarrow> Leaf pid)
         | None \<Rightarrow>
             (case tree of Some n \<Rightarrow> Split sid Horizontal (1 / 2) n (Leaf pid) | None \<Rightarrow> Leaf pid))"

definition return_beside ::
  "return_placement option \<Rightarrow> transfer \<Rightarrow> pane \<Rightarrow> window \<Rightarrow> (ws_error, window) result" where
  "return_beside original t moved destination =
     (let r = (if direct_view moved \<noteq> None then Center
               else case original of Some r \<Rightarrow> placed_region (rp_placement r) | None \<Rightarrow> Center);
          moved' = moved\<lparr>pane_region := r\<rparr>;
          n = length (panes destination);
          i = min (case original of Some r \<Rightarrow> pane_position (rp_placement r) | None \<Rightarrow> n) n
      in rbind (insert_pane destination i moved') (\<lambda>w.
           let w' = (if r = Center
                     then w\<lparr>center_root := Some (return_tree original (pane_id moved')
                              (the_default [] (tr_return_split t)) (center_root w))\<rparr>
                     else w)
           in focus w' (pane_id moved') (selected_view_id moved')))"

definition place_moved ::
  "return_placement option \<Rightarrow> transfer \<Rightarrow> pane \<Rightarrow> window \<Rightarrow> (ws_error, window) result" where
  "place_moved original t moved destination =
     (if truthy (tr_return_split t)
      then (case (case original of None \<Rightarrow> None | Some r \<Rightarrow> map_option (Pair r) (original_pane r moved destination)) of
              Some (r, p) \<Rightarrow> return_into r moved p destination
            | None \<Rightarrow> return_beside original t moved destination)
      else focus (destination\<lparr>panes := [moved], center_root := Some (Leaf (pane_id moved)),
              return_placement := Some
                \<lparr>rp_detached_pane = Some (pane_id moved), rp_source_window = tr_source_window t,
                 rp_source_pane = tr_source_pane t, rp_placement = tr_placement t,
                 rp_whole_pane = tr_whole_pane t\<rparr>\<rparr>) (pane_id moved) (selected_view_id moved))"

definition act_commit_transfer :: "command_state \<Rightarrow> string \<Rightarrow> (ws_error, command_state) result" where
  "act_commit_transfer s i =
     rbind (pending_by_id s i) (\<lambda>t.
       if tr_source_window t \<noteq> win_id (cs_window s)
       then Inl (CommandError CodeScope ''Only the source can commit transfer ownership after retiring its renderers.'')
       else if tr_phase t \<noteq> StateReady
       then Inl (invalid ''Destination state restoration has not been acknowledged.'')
       else
         rbind (pane_by_id (cs_window s) (tr_source_pane t)) (\<lambda>source.
           rbind (other_window s (tr_destination_window t) ''Destination window no longer exists.'') (\<lambda>destination.
             rbind (commit_views t source) (\<lambda>selected.
               rbind (moved_pane t (cs_window s) source selected) (\<lambda>(w, moved).
                 rbind (place_moved (original_placement t (cs_window s) source destination) t moved destination)
                   (\<lambda>d. let s1 = store_window (s\<lparr>cs_window := w, cs_focus := Some (win_id d)\<rparr>) d
                        in Inr (set_pending s1 (filter (\<lambda>u. tr_id u \<noteq> tr_id t) (pending s1)))))))))"

end
