(* ===== verification/WorkspaceApply.thy ===== *)
theory WorkspaceApply
  imports WorkspaceTransfers
begin

text \<open>
  The command executor of the device workspace (\<^verbatim>\<open>workspace_layouts/commands/mod.rs\<close>,
  \<open>apply\<close>) and the import of legacy editor windows (\<^verbatim>\<open>legacy_import.rs\<close>). A command carries
  the identity, the revision and the attachment generation it was issued against; the executor
  refuses a stale one, runs the action on a copy, and returns the new layout only when the contract
  accepts it.
\<close>

section \<open>Commands\<close>

datatype action =
    OpenConversation "string option option" view "string option" string string
  | CloseConversation string
  | MigrateCodeFiles string string "legacy_view list"
  | MigrateExplorerFile string string string opaque "legacy_view list"
  | ReplaceAttachment string
  | PrepareReturn string string "string option" "string option" string
  | PrepareDetach string string "string option" string string
  | TransferReady string
  | TransferStateReady string
  | CommitTransfer string
  | CancelTransfer string
  | SelectTab string
  | Home
  | CloseTab string
  | ClosePane string
  | Pin string
  | FileMode string opaque
  | RenamePane string "opaque option"
  | DockPresentation string opaque
  | ReorderPanes region "string list"
  | MoveNewPane string string region nat string
  | Reorder string "string list"
  | MoveTab string string nat
  | SplitPane string string string string edge rat
  | ResizeSplit string rat
  | OpenView view "string option" open_target

record command =
  operation_id :: string
  cmd_workspace :: string
  cmd_project :: string
  cmd_window :: string
  cmd_generation :: nat
  expected_revision :: nat
  cmd_action :: action

definition fraction_shape :: "rat \<Rightarrow> bool" where
  "fraction_shape f \<longleftrightarrow> 1 / 10 \<le> f \<and> f \<le> 9 / 10"

text \<open>The contract of a command (\<^verbatim>\<open>workspaceCommandSchema\<close>): identities are nonempty, integers safe.\<close>

fun action_shape :: "action \<Rightarrow> bool" where
  "action_shape (OpenConversation e v p n sid) =
     ((case e of Some x \<Rightarrow> ident x | None \<Rightarrow> True) \<and> view_shape v \<and> conversation_view_ok v \<and> ident p \<and>
      n \<noteq> [] \<and> sid \<noteq> [])"
| "action_shape (CloseConversation i) = (i \<noteq> [])"
| "action_shape (MigrateCodeFiles t c vs) = (t \<noteq> [] \<and> c \<noteq> [] \<and> views_shape vs)"
| "action_shape (MigrateExplorerFile t e d m vs) =
     (t \<noteq> [] \<and> e \<noteq> [] \<and> d \<noteq> [] \<and> list_all (\<lambda>v. lv_tab v \<noteq> [] \<and> lv_document v \<noteq> []) vs)"
| "action_shape (ReplaceAttachment r) = (r \<noteq> [])"
| "action_shape (PrepareReturn t p tab d sid) = (t \<noteq> [] \<and> p \<noteq> [] \<and> ident tab \<and> ident d \<and> sid \<noteq> [])"
| "action_shape (PrepareDetach t p tab w d) = (t \<noteq> [] \<and> p \<noteq> [] \<and> ident tab \<and> w \<noteq> [] \<and> d \<noteq> [])"
| "action_shape (TransferReady t) = (t \<noteq> [])"
| "action_shape (TransferStateReady t) = (t \<noteq> [])"
| "action_shape (CommitTransfer t) = (t \<noteq> [])"
| "action_shape (CancelTransfer t) = (t \<noteq> [])"
| "action_shape (SelectTab t) = (t \<noteq> [])"
| "action_shape Home = True"
| "action_shape (CloseTab t) = (t \<noteq> [])"
| "action_shape (ClosePane p) = (p \<noteq> [])"
| "action_shape (Pin t) = (t \<noteq> [])"
| "action_shape (FileMode t m) = (t \<noteq> [])"
| "action_shape (RenamePane p t) = (p \<noteq> [])"
| "action_shape (DockPresentation t d) = (t \<noteq> [])"
| "action_shape (ReorderPanes r ids) = list_all (\<lambda>i. i \<noteq> []) ids"
| "action_shape (MoveNewPane t p r k sid) = (t \<noteq> [] \<and> p \<noteq> [] \<and> k \<le> max_safe_integer \<and> sid \<noteq> [])"
| "action_shape (Reorder p ids) = (p \<noteq> [] \<and> ids \<noteq> [] \<and> list_all (\<lambda>i. i \<noteq> []) ids)"
| "action_shape (MoveTab t p k) = (t \<noteq> [] \<and> p \<noteq> [] \<and> k \<le> max_safe_integer)"
| "action_shape (SplitPane t p n sid e f) = (t \<noteq> [] \<and> p \<noteq> [] \<and> n \<noteq> [] \<and> sid \<noteq> [] \<and> fraction_shape f)"
| "action_shape (ResizeSplit sid f) = (sid \<noteq> [] \<and> fraction_shape f)"
| "action_shape (OpenView v r target) =
     (view_shape v \<and> ident r \<and>
      (case target of TargetPane p \<Rightarrow> p \<noteq> [] | TargetNewPane p _ sid \<Rightarrow> p \<noteq> [] \<and> sid \<noteq> []))"

definition command_shape :: "command \<Rightarrow> bool" where
  "command_shape c \<longleftrightarrow>
     operation_id c \<noteq> [] \<and> cmd_workspace c \<noteq> [] \<and> cmd_project c \<noteq> [] \<and> cmd_window c \<noteq> [] \<and>
     cmd_generation c \<le> max_safe_integer \<and> expected_revision c \<le> max_safe_integer \<and>
     action_shape (cmd_action c)"

section \<open>The executor\<close>

fun dispatch :: "command_state \<Rightarrow> action \<Rightarrow> (ws_error, command_state) result" where
  "dispatch s (OpenConversation e v p n sid) = act_open_conversation s e v p n sid"
| "dispatch s (CloseConversation i) = act_close_conversation s i"
| "dispatch s (MigrateCodeFiles t c vs) = act_migrate_code_files s t c vs"
| "dispatch s (MigrateExplorerFile t e d m vs) = act_migrate_explorer_file s t e d m vs"
| "dispatch s (ReplaceAttachment r) = act_replace_attachment s r"
| "dispatch s (PrepareReturn t p tab d sid) = act_prepare_return s t p tab d sid"
| "dispatch s (PrepareDetach t p tab w d) = act_prepare_detach s t p tab w d"
| "dispatch s (TransferReady t) = act_transfer_ready s t"
| "dispatch s (TransferStateReady t) = act_transfer_state_ready s t"
| "dispatch s (CommitTransfer t) = act_commit_transfer s t"
| "dispatch s (CancelTransfer t) = act_cancel_transfer s t"
| "dispatch s (SelectTab t) = act_select s t"
| "dispatch s Home = act_home s"
| "dispatch s (CloseTab t) = act_close_tab s t"
| "dispatch s (ClosePane p) = act_close_pane s p"
| "dispatch s (Pin t) = act_pin s t"
| "dispatch s (FileMode t m) = act_file_mode s t m"
| "dispatch s (RenamePane p t) = act_rename_pane s p t"
| "dispatch s (DockPresentation t d) = act_dock_presentation s t d"
| "dispatch s (ReorderPanes r ids) = act_reorder_panes s r ids"
| "dispatch s (MoveNewPane t p r k sid) = act_move_new_pane s t p r k sid"
| "dispatch s (Reorder p ids) = act_reorder s p ids"
| "dispatch s (MoveTab t p k) = act_move s t p k"
| "dispatch s (SplitPane t p n sid e f) = act_split s t p n sid e f"
| "dispatch s (ResizeSplit sid f) = act_resize s sid f"
| "dispatch s (OpenView v r target) = act_open s v r target"

fun passes_reservation :: "action \<Rightarrow> bool" where
  "passes_reservation (TransferReady _) = True"
| "passes_reservation (TransferStateReady _) = True"
| "passes_reservation (ReplaceAttachment _) = True"
| "passes_reservation _ = False"

fun opens_conversation :: "action \<Rightarrow> bool" where
  "opens_conversation (OpenConversation _ _ _ _ _) = True"
| "opens_conversation _ = False"

definition normalize_window :: "window \<Rightarrow> window" where
  "normalize_window w = w\<lparr>panes := map normalize_pane (panes w)\<rparr>"

definition upgrade :: "action \<Rightarrow> layout \<Rightarrow> layout" where
  "upgrade a l =
     (if opens_conversation a \<and> version l = 1
      then l\<lparr>version := 2, windows := map normalize_window (windows l)\<rparr> else l)"

definition prune_recent :: "window \<Rightarrow> window" where
  "prune_recent w =
     (case recent_tabs w of
        None \<Rightarrow> w
      | Some ids \<Rightarrow> w\<lparr>recent_tabs := Some (filter (\<lambda>i. i \<in> set (map (Some \<circ> view_id) (window_views w))) ids)\<rparr>)"

definition finish_window :: "nat \<Rightarrow> window \<Rightarrow> window" where
  "finish_window ver w = prune_recent (if ver = 2 then normalize_window w else w)"

definition finish_layout :: "command_state \<Rightarrow> layout" where
  "finish_layout s =
     (cs_layout s)\<lparr>windows := map (finish_window (version (cs_layout s))) (state_windows s),
                    revision := revision (cs_layout s) + 1\<rparr>"

record outcome =
  out_layout :: layout
  out_operation :: string
  out_focus :: "string option"
  out_empty :: "string list"

definition begin_command :: "layout \<Rightarrow> command \<Rightarrow> (ws_error, command_state) result" where
  "begin_command initial c =
     (if \<not> command_shape c \<or> \<not> valid_layout initial then Inl ValidationFailed
      else
        let l = upgrade (cmd_action c) initial
        in if cmd_workspace c \<noteq> lay_id l \<or> cmd_project c \<noteq> project_id l
           then Inl (CommandError CodeScope ''Command belongs to a different workspace or project.'')
           else if expected_revision c \<noteq> revision l
           then Inl (CommandError CodeRevision ''Workspace revision changed; rebase the pending operation.'')
           else (case find (\<lambda>w. win_id w = cmd_window c) (windows l) of
                   None \<Rightarrow> Inl (missing ''Command window no longer exists.'')
                 | Some w \<Rightarrow>
                     if cmd_generation c \<noteq> attachment_generation w
                     then Inl (CommandError CodeAttachment ''The command's renderer no longer owns this window.'')
                     else if (\<exists>t \<in> set (json_values (pending_transfers l)).
                                tr_destination_window t = win_id w \<and> \<not> truthy (tr_return_split t)) \<and>
                             \<not> passes_reservation (cmd_action c)
                     then Inl (invalid ''The destination is reserved for a pending transfer.'')
                     else Inr \<lparr>cs_layout = l, cs_window = w, cs_focus = None, cs_retired = []\<rparr>))"

definition finish_command :: "command \<Rightarrow> command_state \<Rightarrow> command_state \<Rightarrow> (ws_error, outcome) result" where
  "finish_command c s0 s =
     (let l = finish_layout s
      in if \<not> valid_layout l
         then Inl (invalid ''The command would create invalid workspace ownership.'')
         else Inr \<lparr>out_layout = l, out_operation = operation_id c, out_focus = cs_focus s,
                   out_empty = cs_retired s @
                     (if panes (cs_window s0) \<noteq> [] \<and> win_id (cs_window s) \<noteq> main_window (cs_layout s) \<and>
                         panes (cs_window s) = []
                      then [win_id (cs_window s)] else [])\<rparr>)"

definition apply_command :: "layout \<Rightarrow> command \<Rightarrow> (ws_error, outcome) result" where
  "apply_command initial c =
     rbind (begin_command initial c) (\<lambda>s0.
       rbind (dispatch s0 (cmd_action c)) (\<lambda>s. finish_command c s0 s))"

section \<open>Import of legacy windows\<close>

fun import_documents ::
  "(string \<Rightarrow> opaque option) \<Rightarrow> string list \<Rightarrow> legacy_view list \<Rightarrow> (ws_error, string list) result" where
  "import_documents titles seen [] = Inr seen"
| "import_documents titles seen (v # vs) =
     (case titles (lv_document v) of
        None \<Rightarrow> Inl (missing ''An imported document is unavailable in this project.'')
      | Some _ \<Rightarrow>
          if lv_document v \<in> set seen then Inl (invalid ''Legacy import repeats a document.'')
          else import_documents titles (lv_document v # seen) vs)"

definition imported_view :: "(string \<Rightarrow> opaque option) \<Rightarrow> legacy_view \<Rightarrow> view" where
  "imported_view titles lv = (file_view lv None)\<lparr>view_title := titles (lv_document lv)\<rparr>"

definition owned_documents :: "layout \<Rightarrow> string list" where
  "owned_documents l =
     file_documents (concat (map (\<lambda>w. concat (map tabs (panes w))) (windows l)))"

definition imported_window :: "nat \<Rightarrow> (string \<Rightarrow> opaque option) \<Rightarrow> file_import \<Rightarrow> (ws_error, window) result" where
  "imported_window ver titles request =
     (case map (imported_view titles) (fi_views request) of
        [] \<Rightarrow> Inl Panic
      | first # rest \<Rightarrow>
          let active = Some (view_id first);
              p = \<lparr>pane_id = fi_pane request, pane_region = Center, pane_title = None,
                   tabs = first # rest, active_tab = active,
                   conversation_view = (if ver = 2 then Some None else None),
                   pane_selection = (if ver = 2 then Some (SelTab active) else None)\<rparr>
          in Inr \<lparr>win_id = fi_window request, attachment_generation = 0, renderer_id = None, panes = [p],
                  center_root = Some (Leaf (fi_pane request)), focused_pane = Some (fi_pane request),
                  recent_panes = [fi_pane request], recent_tabs = Some [active], return_placement = None\<rparr>)"

definition import_legacy_files ::
  "layout \<Rightarrow> file_import \<Rightarrow> (string \<Rightarrow> opaque option) \<Rightarrow> (ws_error, layout \<times> bool) result" where
  "import_legacy_files l request titles =
     (if \<not> valid_layout l \<or> \<not> file_import_shape request then Inl ValidationFailed
      else case find (\<lambda>f. fi_window f = fi_window request) (json_values (file_imports l)) of
        Some previous \<Rightarrow>
          if previous \<noteq> request
          then Inl (invalid ''Legacy window import identity was already used for different views.'')
          else Inr (l, True)
      | None \<Rightarrow>
          if \<exists>w \<in> set (windows l). win_id w = fi_window request
          then Inl (CommandError CodeAttachment ''Legacy window already belongs to this workspace.'')
          else rbind (import_documents titles [] (fi_views request)) (\<lambda>documents.
            if \<exists>d \<in> set (owned_documents l). d \<in> set documents
            then Inl (CommandError CodeAttachment
                   ''An imported document already has an owned view; retain both drafts for reconciliation.'')
            else rbind (imported_window (version l) titles request) (\<lambda>w.
              let l' = l\<lparr>windows := windows l @ [w],
                         file_imports := Some (json_values (file_imports l) @ [request]),
                         revision := revision l + 1\<rparr>
              in if valid_layout l' then Inr (l', False) else Inl ValidationFailed)))"

end
