(* ===== verification/WorkspaceSafety.thy ===== *)
theory WorkspaceSafety
  imports WorkspaceWindow WorkspaceApply
begin

text \<open>
  The contract of a workspace action, as the locale \<open>workspace_action\<close>: from a started command it
  never reaches an abort and leaves the identity of the layout alone. Every action of the model
  satisfies it, so the executor never aborts and every accepted command is one revision.
\<close>

section \<open>Valid layouts\<close>

lemma valid_layout_facts:
  assumes "valid_layout l" "w \<in> set (windows l)"
  shows "distinct (map pane_id (panes w))" "distinct (map view_id (window_views w))"
    "window_ok (version l) w" "tree_rule w" "window_shape w"
proof -
  have l: "layout_shape l" "ownership_ok l" using assms(1) by (simp_all add: valid_layout_def)
  show "distinct (map pane_id (panes w))"
    using l(2) assms(2) by (auto simp: ownership_ok_def distinct_concat_iff)
  have "distinct (map view_id (layout_views l))" using l(2) by (simp add: ownership_ok_def)
  then show "distinct (map view_id (window_views w))"
    using assms(2) by (auto simp: layout_views_def map_concat distinct_concat_iff comp_def)
  show "window_ok (version l) w" using l(2) assms(2) by (simp add: ownership_ok_def)
  show "tree_rule w" using l(2) assms(2) by (simp add: ownership_ok_def trees_walk_iff)
  show "window_shape w" using l(1) assms(2) by (simp add: layout_shape_def list_all_iff)
qed

lemma valid_pane_facts:
  assumes "valid_layout l" "w \<in> set (windows l)" "p \<in> set (panes w)"
  shows "distinct (map view_id (pane_views p))" "pane_ok (version l) p" "pane_shape p" "pane_views p \<noteq> []"
proof -
  show "distinct (map view_id (pane_views p))"
    using valid_layout_facts(2) [OF assms(1,2)] assms(3)
    by (auto simp: window_views_def map_concat distinct_concat_iff comp_def)
  show "pane_ok (version l) p"
    using valid_layout_facts(3) [OF assms(1,2)] assms(3) by (simp add: window_ok_def)
  then show "pane_views p \<noteq> []"
    by (auto simp: pane_ok_def pane_views_def split: option.splits)
  show "pane_shape p"
    using valid_layout_facts(5) [OF assms(1,2)] assms(3) by (simp add: window_shape_def list_all_iff)
qed

lemma normalize_window_simps [simp]:
  "win_id (normalize_window w) = win_id w"
  "attachment_generation (normalize_window w) = attachment_generation w"
  "renderer_id (normalize_window w) = renderer_id w"
  "panes (normalize_window w) = map normalize_pane (panes w)"
  "center_root (normalize_window w) = center_root w"
  "focused_pane (normalize_window w) = focused_pane w"
  "recent_panes (normalize_window w) = recent_panes w"
  "recent_tabs (normalize_window w) = recent_tabs w"
  "return_placement (normalize_window w) = return_placement w"
  "window_views (normalize_window w) = window_views w"
  "centers (normalize_window w) = centers w"
  by (simp_all add: normalize_window_def window_views_def centers_def comp_def filter_map)

lemma normalize_pane_ok: "pane_ok 1 p \<Longrightarrow> pane_ok 2 (normalize_pane p)"
  by (auto simp: pane_ok_def normalize_pane_def Let_def direct_view_def split: option.splits)

lemma normalize_pane_shape: "pane_ok 1 p \<Longrightarrow> pane_shape p \<Longrightarrow> pane_shape (normalize_pane p)"
  by (auto simp: pane_ok_def pane_shape_def normalize_pane_def Let_def direct_view_def truthy_def ident_def
      split: option.splits)

lemma layout_views_normalize [simp]:
  "layout_views (l\<lparr>version := n, windows := map normalize_window ws\<rparr>) = layout_views (l\<lparr>windows := ws\<rparr>)"
  by (simp add: layout_views_def comp_def)

lemma tree_rule_normalize [simp]: "tree_rule (normalize_window w) = tree_rule w"
  by (simp add: tree_rule_def)

lemma find_map_key: "(\<And>x. f (g x) = f x) \<Longrightarrow> find (\<lambda>x. f x = k) (map g xs) = map_option g (find (\<lambda>x. f x = k) xs)"
  by (induction xs) auto

lemma transfer_ok_normalize:
  "transfer_ok (l\<lparr>version := n, windows := map normalize_window (windows l)\<rparr>) t = transfer_ok l t"
proof -
  have f: "find (\<lambda>w. win_id w = i) (map normalize_window (windows l)) =
      map_option normalize_window (find (\<lambda>w. win_id w = i) (windows l))" for i
    by (rule find_map_key) simp
  show ?thesis
    by (simp add: transfer_ok_def f comp_def split: option.splits)
qed

lemma upgrade_valid:
  assumes "valid_layout l"
  shows "valid_layout (upgrade a l)"
proof (cases "opens_conversation a \<and> version l = 1")
  case False
  then show ?thesis using assms by (auto simp: upgrade_def)
next
  case True
  define l' where "l' = l\<lparr>version := 2, windows := map normalize_window (windows l)\<rparr>"
  have l: "layout_shape l" "ownership_ok l" using assms by (simp_all add: valid_layout_def)
  note w = valid_layout_facts [OF assms]
  have wok: "window_ok 2 (normalize_window w)" if "w \<in> set (windows l)" for w
    using w(3) [OF that] True normalize_pane_ok
    by (auto simp: window_ok_def comp_def split: option.splits)
  have wsh: "window_shape (normalize_window w)" if "w \<in> set (windows l)" for w
    using w(3,5) [OF that] True normalize_pane_shape
    by (auto simp: window_shape_def window_ok_def list_all_iff)
  have "layout_shape l'"
    using l(1) wsh by (auto simp: layout_shape_def l'_def list_all_iff)
  moreover have "ownership_ok l'"
    using l(2) wok by (auto simp: ownership_ok_def l'_def trees_walk_iff comp_def transfers_ok_def
        transfer_ok_normalize layout_views_def)
  ultimately have "valid_layout l'" by (simp add: valid_layout_def)
  then show ?thesis using True by (simp add: upgrade_def l'_def)
qed

section \<open>The contract of an action\<close>

definition started :: "command_state \<Rightarrow> bool" where
  "started s \<longleftrightarrow> valid_layout (cs_layout s) \<and> cs_window s \<in> set (windows (cs_layout s)) \<and>
     cs_focus s = None \<and> cs_retired s = []"

definition identity :: "command_state \<Rightarrow> nat \<times> string \<times> string \<times> nat \<times> string \<times> string" where
  "identity s =
     (let l = cs_layout s
      in (version l, lay_id l, project_id l, revision l, main_window l, win_id (cs_window s)))"

lemma begin_command_started:
  "begin_command l c = Inr s \<Longrightarrow> started s \<and> cs_layout s = upgrade (cmd_action c) l \<and> action_shape (cmd_action c)"
  by (auto simp: command_shape_def begin_command_def Let_def started_def upgrade_valid split: if_splits option.splits
      dest: find_SomeD)

lemma begin_command_safe: "begin_command l c \<noteq> Inl Panic"
  by (auto simp: begin_command_def Let_def split: option.splits)

lemma finish_command_safe: "finish_command c s0 s \<noteq> Inl Panic"
  by (simp add: finish_command_def Let_def)

lemma finish_command_Inr:
  "finish_command c s0 s = Inr out \<Longrightarrow>
   out_layout out = finish_layout s \<and> valid_layout (out_layout out) \<and> out_operation out = operation_id c \<and>
   out_focus out = cs_focus s"
  by (auto simp: finish_command_def Let_def split: if_splits)

locale workspace_action =
  fixes act :: "command_state \<Rightarrow> action \<Rightarrow> (ws_error, command_state) result"
  assumes safe: "started s \<Longrightarrow> action_shape a \<Longrightarrow> act s a \<noteq> Inl Panic"
    and keeps: "act s a = Inr s' \<Longrightarrow> identity s' = identity s"
begin

definition execute :: "layout \<Rightarrow> command \<Rightarrow> (ws_error, outcome) result" where
  "execute l c = rbind (begin_command l c) (\<lambda>s0. rbind (act s0 (cmd_action c)) (\<lambda>s. finish_command c s0 s))"

lemma execute_safe: "execute l c \<noteq> Inl Panic"
  unfolding execute_def
  by (intro rbind_not_Inl begin_command_safe finish_command_safe safe) (auto dest: begin_command_started)

lemma execute_revision:
  assumes "execute l c = Inr out"
  shows "valid_layout (out_layout out)" "revision (out_layout out) = expected_revision c + 1"
    "expected_revision c = revision l" "lay_id (out_layout out) = lay_id l"
    "project_id (out_layout out) = project_id l" "main_window (out_layout out) = main_window l"
proof -
  obtain s0 s where s: "begin_command l c = Inr s0" "act s0 (cmd_action c) = Inr s" "finish_command c s0 s = Inr out"
    using assms by (auto simp: execute_def rbind_eq_Inr)
  have o: "out_layout out = finish_layout s" "valid_layout (out_layout out)"
    using finish_command_Inr [OF s(3)] by blast+
  have l0: "cs_layout s0 = upgrade (cmd_action c) l" using begin_command_started [OF s(1)] by simp
  have "identity s = identity s0" by (rule keeps [OF s(2)])
  then have i: "lay_id (cs_layout s) = lay_id l" "project_id (cs_layout s) = project_id l"
      "revision (cs_layout s) = revision l" "main_window (cs_layout s) = main_window l"
    using l0 by (auto simp: identity_def Let_def upgrade_def)
  show "valid_layout (out_layout out)" by (fact o(2))
  show e: "expected_revision c = revision l"
    using s(1) by (auto simp: begin_command_def Let_def upgrade_def split: if_splits)
  show "revision (out_layout out) = expected_revision c + 1"
    using i e by (simp add: o finish_layout_def)
  show "lay_id (out_layout out) = lay_id l" "project_id (out_layout out) = project_id l"
    "main_window (out_layout out) = main_window l"
    using i by (simp_all add: o finish_layout_def)
qed

end

section \<open>What the window operations keep\<close>

definition win_core :: "window \<Rightarrow> string \<times> nat \<times> string option \<times> return_placement option" where
  "win_core w = (win_id w, attachment_generation w, renderer_id w, return_placement w)"

lemma win_core_id: "win_core w = win_core v \<Longrightarrow> win_id w = win_id v"
  by (simp add: win_core_def)

lemma store_pane_core: "store_pane w p = Inr w' \<Longrightarrow> win_core w' = win_core w"
  by (auto simp: store_pane_def win_core_def split: if_splits)

lemma focus_core: "focus w i t = Inr w' \<Longrightarrow> win_core w' = win_core w"
  by (auto simp: focus_def win_core_def split: option.splits)

lemma navigate_core: "navigate l w i t = Inr w' \<Longrightarrow> win_core w' = win_core w"
  by (auto simp: navigate_def rbind_eq_Inr split: option.splits dest!: focus_core) (simp add: win_core_def)

lemma remove_pane_core [simp]: "win_core (remove_pane w i) = win_core w"
  by (simp add: win_core_def)

lemma take_tab_core: "take_tab w p v = Inr w' \<Longrightarrow> win_core w' = win_core w"
  by (auto simp: take_tab_def split: if_splits option.splits dest: store_pane_core)

lemma focus_next_core: "focus_next w b = Inr w' \<Longrightarrow> win_core w' = win_core w"
  by (auto simp: focus_next_def split: if_splits option.splits dest: focus_core)

lemma insert_pane_core: "insert_pane w i p = Inr w' \<Longrightarrow> win_core w' = win_core w"
  by (auto simp: insert_pane_def win_core_def split: if_splits)

lemma core_updates [simp]:
  "win_core (w\<lparr>panes := ps\<rparr>) = win_core w" "win_core (w\<lparr>center_root := r\<rparr>) = win_core w"
  "win_core (w\<lparr>focused_pane := f\<rparr>) = win_core w"
  by (simp_all add: win_core_def)

lemmas core_rules = store_pane_core focus_core navigate_core take_tab_core focus_next_core insert_pane_core

lemma identity_window: "win_core w = win_core (cs_window s) \<Longrightarrow> identity (s\<lparr>cs_window := w\<rparr>) = identity s"
  by (simp add: identity_def win_core_def Let_def)

lemma set_window_Inr: "set_window s r = Inr s' \<longleftrightarrow> (\<exists>w. r = Inr w \<and> s' = s\<lparr>cs_window := w\<rparr>)"
  by (auto simp: set_window_def rbind_eq_Inr)

lemma set_window_Inl [simp]: "set_window s r = Inl e \<longleftrightarrow> r = Inl e"
  by (auto simp: set_window_def rbind_eq_Inl)

lemma identity_updates [simp]:
  "identity (s\<lparr>cs_focus := f\<rparr>) = identity s"
  "identity (s\<lparr>cs_retired := ids\<rparr>) = identity s"
  "identity (s\<lparr>cs_layout := (cs_layout s)\<lparr>windows := ws\<rparr>\<rparr>) = identity s"
  "identity (s\<lparr>cs_layout := (cs_layout s)\<lparr>pending_transfers := ts\<rparr>\<rparr>) = identity s"
  "identity (s\<lparr>cs_layout := (cs_layout s)\<lparr>windows := ws, pending_transfers := ts\<rparr>\<rparr>) = identity s"
  "identity (s\<lparr>cs_layout := (cs_layout s)\<lparr>code_imports := cs\<rparr>\<rparr>) = identity s"
  by (simp_all add: identity_def Let_def)

lemma identity_store_window [simp]: "identity (store_window s w) = identity s"
  by (auto simp: store_window_def identity_def Let_def)

section \<open>View actions keep the identity\<close>

lemma act_home_keeps: "act_home s = Inr s' \<Longrightarrow> identity s' = identity s"
  by (auto simp: act_home_def intro!: identity_window)

lemma act_select_keeps: "act_select s t = Inr s' \<Longrightarrow> identity s' = identity s"
  by (auto simp: act_select_def result_iffs set_window_Inr intro!: identity_window dest: core_rules)

lemma act_close_tab_keeps: "act_close_tab s t = Inr s' \<Longrightarrow> identity s' = identity s"
  by (auto simp: act_close_tab_def result_iffs set_window_Inr Let_def intro!: identity_window
      split: if_splits dest!: core_rules)

lemma act_close_pane_keeps: "act_close_pane s t = Inr s' \<Longrightarrow> identity s' = identity s"
  by (auto simp: act_close_pane_def result_iffs set_window_Inr Let_def intro!: identity_window dest!: core_rules)

lemma act_update_view_keeps: "act_update_view s t f = Inr s' \<Longrightarrow> identity s' = identity s"
  by (auto simp: act_update_view_def result_iffs set_window_Inr intro!: identity_window dest!: core_rules)

lemma act_rename_pane_keeps: "act_rename_pane s p t = Inr s' \<Longrightarrow> identity s' = identity s"
  by (auto simp: act_rename_pane_def result_iffs set_window_Inr intro!: identity_window dest!: core_rules)

lemma act_reorder_panes_keeps: "act_reorder_panes s r ids = Inr s' \<Longrightarrow> identity s' = identity s"
  by (cases r; cases "center_root (cs_window s)")
     (auto simp: act_reorder_panes_def Let_def intro!: identity_window split: if_splits option.splits elim!: rbindE)

lemma act_reorder_keeps: "act_reorder s p ids = Inr s' \<Longrightarrow> identity s' = identity s"
  by (auto simp: act_reorder_def result_iffs set_window_Inr intro!: identity_window split: if_splits dest!: core_rules)

lemma lift_for_move_core: "lift_for_move w p v g = Inr (w', g') \<Longrightarrow> win_core w' = win_core w \<and> pane_id g' = pane_id g"
  by (auto simp: lift_for_move_def rbind_eq_Inr split: if_splits dest: take_tab_core)

lemma insert_tab_id: "insert_tab p k v = Inr q \<Longrightarrow> pane_id q = pane_id p"
  by (auto simp: insert_tab_def split: if_splits)

lemma act_move_keeps: "act_move s t p k = Inr s' \<Longrightarrow> identity s' = identity s"
  by (auto simp: act_move_def result_iffs set_window_Inr Let_def intro!: identity_window
      split: if_splits dest!: lift_for_move_core core_rules)

lemma center_beside_core: "center_beside w n sid a b = Inr w' \<Longrightarrow> win_core w' = win_core w"
  by (auto simp: center_beside_def result_iffs Let_def split: option.splits)

lemma act_move_new_pane_keeps:
  assumes "act_move_new_pane s t i r k sid = Inr s'"
  shows "identity s' = identity s"
proof -
  obtain p v w a b n w1 w2 w3 where
    *: "take_tab (cs_window s) p v = Inr w" "insert_pane w n (new_pane i r v) = Inr w1"
      "(if r = Center then center_beside w1 i sid a b else Inr w1) = Inr w2"
      "navigate (cs_layout s) w2 i (view_id v) = Inr w3" "s' = s\<lparr>cs_window := w3\<rparr>"
    using assms unfolding act_move_new_pane_def Let_def
    by (elim rbindE) (auto simp: set_window_Inr split: if_splits elim!: rbindE)
  have "win_core w2 = win_core w1"
    using *(3) by (auto split: if_splits dest: center_beside_core)
  with * show ?thesis by (auto intro!: identity_window dest!: core_rules)
qed

lemma act_split_keeps: "act_split s t p n sid e f = Inr s' \<Longrightarrow> identity s' = identity s"
  by (auto simp: act_split_def result_iffs set_window_Inr Let_def intro!: identity_window
      split: if_splits option.splits dest!: core_rules)

lemma act_resize_keeps: "act_resize s sid f = Inr s' \<Longrightarrow> identity s' = identity s"
  by (auto simp: act_resize_def intro!: identity_window split: option.splits prod.splits bool.splits)

lemma open_existing_keeps: "open_existing s v w p t = Inr s' \<Longrightarrow> identity s' = identity s"
  unfolding open_existing_def Let_def by (elim rbindE) auto

lemma open_in_pane_keeps: "open_in_pane s v r p = Inr s' \<Longrightarrow> identity s' = identity s"
  unfolding open_in_pane_def
  by (elim rbindE) (auto simp: set_window_Inr intro!: identity_window dest!: core_rules)

lemma open_new_pane_keeps: "open_new_pane s v r p g sid = Inr s' \<Longrightarrow> identity s' = identity s"
  by (auto simp: open_new_pane_def set_window_Inr Let_def intro!: identity_window split: if_splits dest!: core_rules)

lemma act_open_keeps: "act_open s v r target = Inr s' \<Longrightarrow> identity s' = identity s"
  by (auto simp: act_open_def split: option.splits open_target.splits
      dest: open_existing_keeps open_in_pane_keeps open_new_pane_keeps)

section \<open>Conversations, migrations and transfers keep the identity\<close>

lemma act_close_conversation_keeps: "act_close_conversation s i = Inr s' \<Longrightarrow> identity s' = identity s"
  by (auto simp: act_close_conversation_def result_iffs set_window_Inr intro!: identity_window
      split: if_splits dest!: core_rules)

lemma conversation_pane_Inr:
  "conversation_pane w g n sid = Inr (w', p) \<Longrightarrow>
   win_core w' = win_core w \<and> set (panes w) \<subseteq> set (panes w') \<and> (set_option g \<subseteq> set (panes w) \<longrightarrow> p \<in> set (panes w'))"
  by (auto simp: conversation_pane_def Let_def split: option.splits if_splits)

lemma open_conversationE:
  assumes "act_open_conversation s e v i n sid = Inr s'" "find_resource (state_windows s) v = None"
  obtains g w p w1 w2 where "conversation_target (cs_window s) i = Inr g" "conversation_pane (cs_window s) g n sid = Inr (w, p)"
    "\<not> (\<exists>i. direct_id p = Some i \<and> reserved s i)" "store_pane w (p\<lparr>conversation_view := Some (Some v)\<rparr>) = Inr w1"
    "focus w1 (pane_id p) (Some (view_id v)) = Inr w2" "s' = s\<lparr>cs_window := w2\<rparr>"
  using assms unfolding act_open_conversation_def Let_def by (auto simp: set_window_Inr elim!: rbindE)

lemma act_open_conversation_keeps: "act_open_conversation s e v p n sid = Inr s' \<Longrightarrow> identity s' = identity s"
proof (cases "find_resource (state_windows s) v")
  case None
  assume *: "act_open_conversation s e v p n sid = Inr s'"
  show ?thesis
    using * None by (rule open_conversationE) (auto intro!: identity_window dest!: core_rules conversation_pane_Inr)
qed (auto simp: act_open_conversation_def Let_def elim!: rbindE)

lemma identity_window_imports:
  "win_core w = win_core (cs_window s) \<Longrightarrow>
   identity (s\<lparr>cs_window := w, cs_layout := (cs_layout s)\<lparr>code_imports := cs\<rparr>\<rparr>) = identity s"
  by (simp add: identity_def win_core_def Let_def)

lemma splice_files_Inr:
  "splice_files p v i fs = Inr q \<Longrightarrow> pane_id q = pane_id p \<and> tabs q = splice_after i fs (tabs p) \<and> direct_view q = direct_view p"
  by (auto simp: splice_files_def Let_def split: if_splits elim!: rbindE)

lemma migrate_code_filesE:
  assumes "act_migrate_code_files s t c vs = Inr s'"
  obtains (replayed) "s' = s"
  | (stored) p v i fs q w cs where "tab_by_id (cs_window s) t = Inr (p, v)" "splice_files p v i fs = Inr q"
      "store_pane (cs_window s) q = Inr w"
      "s' = s\<lparr>cs_window := w, cs_layout := (cs_layout s)\<lparr>code_imports := cs\<rparr>\<rparr>"
  | (focused) p v i fs q w x w2 cs where "tab_by_id (cs_window s) t = Inr (p, v)" "splice_files p v i fs = Inr q"
      "store_pane (cs_window s) q = Inr w" "focus w (pane_id q) x = Inr w2"
      "s' = s\<lparr>cs_window := w2, cs_layout := (cs_layout s)\<lparr>code_imports := cs\<rparr>\<rparr>"
proof -
  obtain p v where t: "tab_by_id (cs_window s) t = Inr (p, v)"
    using assms by (auto simp: act_migrate_code_files_def elim!: rbindE)
  let ?fs = "map (\<lambda>lv. file_view lv (dock_presentation v)) vs"
  let ?focus = "active_tab p = Some (view_id v) \<and> focused_pane (cs_window s) = Some (pane_id p)"
  have r: "view_resource v = Entity ''project.code'' c"
    using assms t by (auto simp: act_migrate_code_files_def split: if_splits)
  show thesis
  proof (cases "find (\<lambda>r. ci_tab r = view_id v) (json_values (code_imports (cs_layout s)))")
    case (Some prior)
    then show thesis using assms t r replayed by (auto simp: act_migrate_code_files_def Let_def split: if_splits)
  next
    case None
    then obtain i where i: "find_index_of (\<lambda>t. view_id t = view_id v) (tabs p) = Some i"
      using assms t r by (auto simp: act_migrate_code_files_def Let_def split: if_splits option.splits)
    have free: "\<not> reserved s (view_id v)" "migration_free (map view_id (all_tabs s)) (file_documents (all_tabs s)) vs"
      using assms t r None by (auto simp: act_migrate_code_files_def Let_def split: if_splits)
    obtain q w w2 cs where *: "splice_files p v i ?fs = Inr q" "store_pane (cs_window s) q = Inr w"
        "(if ?focus then rbind (ok_or Panic (head_option ?fs)) (\<lambda>f. focus w (pane_id q) (Some (view_id f))) else Inr w) = Inr w2"
        "s' = s\<lparr>cs_window := w2, cs_layout := (cs_layout s)\<lparr>code_imports := cs\<rparr>\<rparr>"
    proof -
      have "rbind (splice_files p v i ?fs) (\<lambda>q. rbind (store_pane (cs_window s) q) (\<lambda>w.
          rbind (if ?focus then rbind (ok_or Panic (head_option ?fs)) (\<lambda>f. focus w (pane_id q) (Some (view_id f))) else Inr w) (\<lambda>w2.
            Inr (s\<lparr>cs_window := w2, cs_layout := (cs_layout s)\<lparr>code_imports := Some (json_values (code_imports (cs_layout s)) @
              [\<lparr>ci_tab = view_id v, ci_code = c, ci_views = vs\<rparr>])\<rparr>\<rparr>)))) = Inr s'"
        using assms t r None i free unfolding act_migrate_code_files_def Let_def by (simp split del: if_split)
      then show thesis by (elim rbindE) (rule that, assumption+, drule sum.inject(2) [THEN iffD1], erule sym)
    qed
    show thesis
    proof (cases ?focus)
      case True
      then obtain x where "focus w (pane_id q) x = Inr w2" using *(3) by (auto elim!: rbindE)
      then show thesis using focused [OF t *(1,2) _ *(4)] by blast
    next
      case False
      then have "w2 = w" using *(3) by auto
      then show thesis using stored [OF t *(1,2)] *(4) by blast
    qed
  qed
qed

lemma act_migrate_code_files_keeps: "act_migrate_code_files s t c vs = Inr s' \<Longrightarrow> identity s' = identity s"
  by (erule migrate_code_filesE) (auto intro!: identity_window_imports dest!: core_rules)

lemma act_migrate_explorer_file_keeps:
  "act_migrate_explorer_file s t e d m vs = Inr s' \<Longrightarrow> identity s' = identity s"
  by (auto simp: act_migrate_explorer_file_def result_iffs set_window_Inr Let_def intro!: identity_window
      split: if_splits option.splits dest!: core_rules)

lemma identity_set_pending [simp]: "identity (set_pending s ts) = identity s"
  by (simp add: set_pending_def)

lemma identity_retire [simp]: "identity (retire s i) = identity s"
  by (simp add: retire_def identity_def Let_def)

lemma identity_retire_staged [simp]: "identity (retire_staged s ts) = identity s"
  unfolding retire_staged_def by (induction ts arbitrary: s) simp_all

lemma identity_renderer [simp]:
  "identity (s\<lparr>cs_window := (cs_window t)\<lparr>attachment_generation := g, renderer_id := r\<rparr>\<rparr>) = identity (s\<lparr>cs_window := cs_window t\<rparr>)"
  "identity (s\<lparr>cs_window := (cs_window t)\<lparr>renderer_id := r\<rparr>\<rparr>) = identity (s\<lparr>cs_window := cs_window t\<rparr>)"
  by (simp_all add: identity_def Let_def)

lemma act_replace_attachment_keeps: "act_replace_attachment s r = Inr s' \<Longrightarrow> identity s' = identity s"
proof -
  assume *: "act_replace_attachment s r = Inr s'"
  have "identity (t\<lparr>cs_window := cs_window s\<rparr>) = identity s" if "identity t = identity s" for t :: command_state
    using that by (simp add: identity_def Let_def)
  with * show ?thesis by (auto simp: act_replace_attachment_def Let_def split: if_splits)
qed

lemma act_prepare_keeps:
  "act_prepare_return s i p t d sid = Inr s' \<Longrightarrow> identity s' = identity s"
  "act_prepare_detach s i p t w e = Inr s' \<Longrightarrow> identity s' = identity s"
  by (auto simp: act_prepare_return_def act_prepare_detach_def result_iffs Let_def split: if_splits)

lemma act_phase_keeps:
  "act_transfer_ready s i = Inr s' \<Longrightarrow> identity s' = identity s"
  "act_transfer_state_ready s i = Inr s' \<Longrightarrow> identity s' = identity s"
  "act_cancel_transfer s i = Inr s' \<Longrightarrow> identity s' = identity s"
  by (auto simp: act_transfer_ready_def act_transfer_state_ready_def act_cancel_transfer_def store_transfer_def
      result_iffs Let_def split: if_splits)

lemma moved_pane_core: "moved_pane t w p vs = Inr (w', m) \<Longrightarrow> win_core w' = win_core w"
  by (auto simp: moved_pane_def result_iffs split: if_splits list.splits dest: core_rules)

lemma act_commit_transfer_keeps: "act_commit_transfer s i = Inr s' \<Longrightarrow> identity s' = identity s"
  by (auto simp: act_commit_transfer_def result_iffs Let_def split: if_splits dest!: moved_pane_core)
     (simp add: identity_def win_core_def Let_def)

lemma dispatch_keeps: "dispatch s a = Inr s' \<Longrightarrow> identity s' = identity s"
  by (cases a)
     (auto simp: act_pin_def act_file_mode_def act_dock_presentation_def
       dest: act_home_keeps act_select_keeps act_close_tab_keeps act_close_pane_keeps act_update_view_keeps
         act_rename_pane_keeps act_reorder_panes_keeps act_reorder_keeps act_move_keeps act_move_new_pane_keeps
         act_split_keeps act_resize_keeps act_open_keeps act_close_conversation_keeps act_open_conversation_keeps
         act_migrate_code_files_keeps act_migrate_explorer_file_keeps act_replace_attachment_keeps
         act_prepare_keeps act_phase_keeps act_commit_transfer_keeps)

section \<open>No action aborts\<close>

lemma tab_by_id_Inr: "tab_by_id w i = Inr (p, v) \<Longrightarrow> p \<in> set (panes w) \<and> v \<in> set (pane_views p) \<and> view_id v = i"
proof -
  have "find_view ps i = Some (p, v) \<Longrightarrow> p \<in> set ps \<and> v \<in> set (pane_views p) \<and> view_id v = i" for ps
    by (induction ps) (auto split: option.splits dest: find_SomeD)
  then show "tab_by_id w i = Inr (p, v) \<Longrightarrow> ?thesis" by (simp add: tab_by_id_def)
qed

lemma tab_by_id_safe [simp]: "tab_by_id w i \<noteq> Inl Panic"
  by (simp add: tab_by_id_def)

lemma pane_by_id_Inr: "pane_by_id w i = Inr p \<Longrightarrow> p \<in> set (panes w) \<and> pane_id p = i"
  by (auto simp: pane_by_id_def dest: find_SomeD)

lemma pane_by_id_safe [simp]: "pane_by_id w i \<noteq> Inl Panic"
  by (simp add: pane_by_id_def)

lemma focus_next_safe [simp]: "focus_next w b \<noteq> Inl Panic"
  by (auto simp: focus_next_def focus_Inl split: option.splits dest!: find_SomeD)

lemma store_pane_ids: "store_pane w p = Inr w' \<Longrightarrow> map pane_id (panes w') = map pane_id (panes w)"
  by (auto simp: store_pane_def set_first_keys split: if_splits)

lemma focus_ids: "focus w i t = Inr w' \<Longrightarrow> map pane_id (panes w') = map pane_id (panes w)"
  by (auto simp: focus_def set_first_keys split: option.splits dest!: find_SomeD)

lemma insert_pane_ids: "insert_pane w k p = Inr w' \<Longrightarrow> set (map pane_id (panes w')) = insert (pane_id p) (set (map pane_id (panes w)))"
  by (auto simp: insert_pane_def split: if_splits)

lemma started_facts:
  assumes "started s"
  shows "valid_layout (cs_layout s)" "cs_window s \<in> set (windows (cs_layout s))"
    "distinct (map pane_id (panes (cs_window s)))" "tree_rule (cs_window s)"
  using assms valid_layout_facts by (auto simp: started_def)

lemma started_pane:
  assumes "started s" "p \<in> set (panes (cs_window s))"
  shows "distinct (map view_id (pane_views p))" "pane_ok (version (cs_layout s)) p" "pane_shape p" "pane_views p \<noteq> []"
    "pane_id p \<in> set (map pane_id (panes (cs_window s)))"
  using assms valid_pane_facts started_facts(1,2) [OF assms(1)] by auto

lemma started_take_tab:
  assumes "started s" "p \<in> set (panes (cs_window s))" "v \<in> set (pane_views p)"
  shows "take_tab (cs_window s) p v = Inr (after_take (cs_window s) p v)"
  by (rule take_tab_ok) (use assms started_facts started_pane in auto)

lemma after_take_ids:
  "set (map pane_id (panes (after_take w p v))) =
   (if length (pane_views p) = 1 then set (map pane_id (panes w)) - {pane_id p} else set (map pane_id (panes w)))"
proof (cases "length (pane_views p) = 1")
  case False
  have "map pane_id (map (\<lambda>q. if pane_id q = pane_id p then without_view p v else q) (panes w)) = map pane_id (panes w)"
    by (rule map_replace_key) simp
  with False show ?thesis by (simp only: after_take_def if_False window.simps) simp
qed (auto simp: after_take_def)

lemma direct_conversation:
  "pane_shape p \<Longrightarrow> direct_view p = Some v \<Longrightarrow> definition_id (view_resource v) = ''project.agent''"
  by (auto simp: pane_shape_def conversation_view_ok_def)

lemma act_select_safe: "started s \<Longrightarrow> act_select s t \<noteq> Inl Panic"
  unfolding act_select_def
  by (intro rbind_not_Inl) (auto simp: navigate_Inl_Panic dest!: tab_by_id_Inr)

lemma act_close_tab_safe:
  assumes "started s"
  shows "act_close_tab s t \<noteq> Inl Panic"
proof -
  have "take_tab (cs_window s) q v \<noteq> Inl Panic"
    if t: "tab_by_id (cs_window s) t = Inr (p, v)" and d: "direct_id p \<noteq> Some (view_id v)"
      and q: "(case pane_selection p of
          Some (SelTab _) \<Rightarrow> retire_conversation (cs_layout s) p (selected_view_id p) | _ \<Rightarrow> Inr p) = Inr q" for p v q
  proof -
    note tv = tab_by_id_Inr [OF t]
    have "q = p \<or> (direct_view p \<noteq> None \<and> q = p\<lparr>conversation_view := Some None\<rparr>)"
      using q by (auto split: option.splits selection.splits dest!: retire_conversation_Inr)
    then have "pane_id q = pane_id p" "distinct (map view_id (pane_views q))" "v \<in> set (pane_views q)"
      using tv d started_pane(1) [OF assms, of p]
      by (auto simp: pane_views_def direct_id_def)
    then show ?thesis
      using take_tab_ok [of "cs_window s" q v] started_facts(3) [OF assms] started_pane(5) [OF assms, of p] tv by simp
  qed
  moreover have "(case pane_selection p of
      Some (SelTab _) \<Rightarrow> retire_conversation (cs_layout s) p (selected_view_id p) | _ \<Rightarrow> Inr p) \<noteq> Inl Panic" for p
    by (auto split: option.splits selection.splits)
  ultimately show ?thesis
    by (auto simp: act_close_tab_def Let_def rbind_eq_Inl split: if_splits)
qed

lemma act_close_pane_safe: "act_close_pane s p \<noteq> Inl Panic"
  unfolding act_close_pane_def Let_def by (intro rbind_not_Inl) auto

lemma store_view_safe: "v \<in> set (pane_views p) \<Longrightarrow> view_id u = view_id v \<Longrightarrow> store_view p u \<noteq> Inl Panic"
  by (cases "direct_view p") (auto simp: store_view_def pane_views_def direct_id_def)

lemma store_view_id: "store_view p v = Inr q \<Longrightarrow> pane_id q = pane_id p"
  by (auto simp: store_view_def split: if_splits)

lemma act_update_view_safe:
  assumes "started s" "\<And>p v. f p v \<noteq> Inl Panic" "\<And>p v u. f p v = Inr u \<Longrightarrow> view_id u = view_id v"
  shows "act_update_view s t f \<noteq> Inl Panic"
proof -
  have "store_pane (cs_window s) q \<noteq> Inl Panic"
    if "tab_by_id (cs_window s) t = Inr (p, v)" "store_view p u = Inr q" for p v u q
    using that by (auto simp: store_pane_safe dest!: tab_by_id_Inr store_view_id)
  moreover have "store_view p u \<noteq> Inl Panic"
    if "tab_by_id (cs_window s) t = Inr (p, v)" "f p v = Inr u" for p v u
    using that assms(3) store_view_safe by (meson tab_by_id_Inr)
  ultimately show ?thesis
    using assms(2) by (auto simp: act_update_view_def rbind_eq_Inl)
qed

lemma act_rename_pane_safe: "act_rename_pane s p t \<noteq> Inl Panic"
  unfolding act_rename_pane_def
  by (intro rbind_not_Inl) (auto simp: store_pane_safe dest!: pane_by_id_Inr)

lemma exact_ids_length: "exact_ids ids xs \<Longrightarrow> distinct xs \<Longrightarrow> length ids = length xs"
  by (simp add: exact_ids_def distinct_remdups_id)

lemma exact_ids_set: "exact_ids ids xs \<Longrightarrow> set ids = set xs"
  unfolding exact_ids_def by (metis card_subset_eq distinct_card finite_set length_remdups_card_conv)

lemma place_region_ok:
  "length ids = length (filter (\<lambda>p. pane_region p = r) ps) \<Longrightarrow> set ids \<subseteq> set (map pane_id members) \<Longrightarrow>
   \<exists>qs. place_region r members ps ids = Inr qs"
proof (induction r members ps ids rule: place_region.induct)
  case (2 r members p ps ids)
  show ?case
  proof (cases "pane_region p = r")
    case False
    then show ?thesis using 2 by auto
  next
    case True
    then obtain i rest where ids: "ids = i # rest" using 2(3) by (cases ids) auto
    then obtain q where "find (\<lambda>q. pane_id q = i) members = Some q"
      using 2(4) find_None_iff_key [of pane_id i members] by fastforce
    moreover have "\<exists>qs. place_region r members ps rest = Inr qs"
      using "2.IH"(1) [OF True ids] calculation 2(3,4) True ids by auto
    ultimately show ?thesis using True ids by auto
  qed
qed simp

lemma tree_leaves_length:
  "tree_rule w \<Longrightarrow> distinct (map pane_id (panes w)) \<Longrightarrow> length (root_leaves (center_root w)) = length (centers w)"
  unfolding tree_rule_def centers_def by (metis distinct_card distinct_map_filter)

lemma act_reorder_panes_safe:
  assumes "started s"
  shows "act_reorder_panes s r ids \<noteq> Inl Panic"
proof (cases "exact_ids ids (map pane_id (filter (\<lambda>p. pane_region p = r) (panes (cs_window s))))")
  case False
  then show ?thesis by (simp add: act_reorder_panes_def Let_def)
next
  case True
  note d = started_facts(3) [OF assms]
  have len: "length ids = length (filter (\<lambda>p. pane_region p = r) (panes (cs_window s)))"
    using exact_ids_length [OF True] d by (simp add: distinct_map_filter)
  obtain qs where qs: "place_region r (filter (\<lambda>p. pane_region p = r) (panes (cs_window s))) (panes (cs_window s)) ids = Inr qs"
    using place_region_ok [OF len, of "filter (\<lambda>p. pane_region p = r) (panes (cs_window s))"] exact_ids_set [OF True] by auto
  have "\<exists>m k. reorder_node n ids 0 = Some (m, k)" if "r = Center" "center_root (cs_window s) = Some n" for n
    using reorder_node_total [of 0 n ids] tree_leaves_length [OF started_facts(4) [OF assms] d] len that
    by (auto simp: root_leaves_def centers_def)
  then show ?thesis
    using True qs by (cases r; cases "center_root (cs_window s)") (auto simp: act_reorder_panes_def Let_def)
qed

lemma rmap_find_ok:
  "set ids \<subseteq> set (map f xs) \<Longrightarrow> \<exists>ys. rmap (\<lambda>i. ok_or e (find (\<lambda>t. f t = i) xs)) ids = Inr ys"
proof (induction ids)
  case (Cons i ids)
  then obtain y where "find (\<lambda>t. f t = i) xs = Some y"
    using find_None_iff_key [of f i xs] by fastforce
  with Cons show ?case by auto
qed simp

lemma act_reorder_safe: "act_reorder s p ids \<noteq> Inl Panic"
proof -
  have "rmap (\<lambda>i. ok_or Panic (find (\<lambda>t. view_id t = i) (tabs q))) ids \<noteq> Inl Panic"
    if "exact_ids ids (map view_id (tabs q))" for q
    using rmap_find_ok [of ids view_id "tabs q" Panic] exact_ids_set [OF that] by auto
  then show ?thesis
    by (auto simp: act_reorder_def rbind_eq_Inl store_pane_safe dest!: pane_by_id_Inr split: if_splits)
qed

lemma lift_for_move_ok:
  assumes s: "started s" and p: "p \<in> set (panes (cs_window s))" "v \<in> set (pane_views p)"
    and g: "g \<in> set (panes (cs_window s))"
    and k: "k \<le> length (tabs g) - (if pane_id g = pane_id p \<and> direct_id p \<noteq> Some (view_id v) then 1 else 0)"
  shows "\<exists>w g'. lift_for_move (cs_window s) p v g = Inr (w, g') \<and> k \<le> length (tabs g') \<and>
    pane_id g' = pane_id g \<and> pane_id g \<in> set (map pane_id (panes w))"
proof (cases "pane_id g = pane_id p")
  case True
  then have gp: "g = p" using p(1) g distinct_keyD [OF started_facts(3) [OF s]] by blast
  have "length (filter (\<lambda>t. view_id t \<noteq> view_id v) (tabs p)) = length (tabs p) - 1" if "direct_id p \<noteq> Some (view_id v)"
    by (rule length_filter_key [OF pane_views_tabs [OF started_pane(1) [OF s p(1)]] view_not_direct [OF p(2) that] refl])
  then show ?thesis using gp k p(1) by (auto simp: lift_for_move_def)
next
  case False
  then show ?thesis
    using k g started_take_tab [OF s p] after_take_ids [of "cs_window s" p v]
    by (auto simp: lift_for_move_def)
qed

lemma act_move_safe:
  assumes "started s"
  shows "act_move s t i k \<noteq> Inl Panic"
proof -
  { fix p v g
    assume t: "tab_by_id (cs_window s) t = Inr (p, v)" and g: "pane_by_id (cs_window s) i = Inr g"
      and k: "k \<le> length (tabs g) - (if pane_id g = pane_id p \<and> direct_id p \<noteq> Some (view_id v) then 1 else 0)"
    obtain w g' where l: "lift_for_move (cs_window s) p v g = Inr (w, g')" "k \<le> length (tabs g')"
        "pane_id g' = pane_id g" "pane_id g \<in> set (map pane_id (panes w))"
      using lift_for_move_ok [OF assms _ _ _ k] tab_by_id_Inr [OF t] pane_by_id_Inr [OF g] by blast
    have "rbind (lift_for_move (cs_window s) p v g) (\<lambda>(w, target').
        rbind (insert_tab target' k v) (\<lambda>target''.
          rbind (store_pane w target'') (\<lambda>w'.
            set_window s (navigate (cs_layout s) w' (pane_id target'') (view_id v))))) \<noteq> Inl Panic"
      using l by (auto simp: insert_tab_def rbind_eq_Inl store_pane_safe navigate_Inl_Panic simp del: set_map
          dest: store_pane_ids)
  }
  moreover have "tabs g \<noteq> []"
    if "tab_by_id (cs_window s) t = Inr (p, v)" "pane_by_id (cs_window s) i = Inr g" "pane_id g = pane_id p"
      "direct_id p \<noteq> Some (view_id v)" for p v g
  proof -
    have "g = p" using that tab_by_id_Inr pane_by_id_Inr distinct_keyD [OF started_facts(3) [OF assms]] by metis
    then show ?thesis using view_not_direct that tab_by_id_Inr by fastforce
  qed
  ultimately show ?thesis
    by (auto simp: act_move_def Let_def rbind_eq_Inl split: if_splits)
qed

lemma insertion_index_ok:
  assumes "\<forall>n \<in> set_option a \<union> set_option b. n \<in> set (panes w)"
  shows "\<exists>i. insertion_index w a b = Inr i \<and> i \<le> length (panes w)"
proof -
  have "\<exists>i. find_index_of (\<lambda>q. pane_id q = pane_id n) (panes w) = Some i \<and> i < length (panes w)" if "n \<in> set (panes w)" for n
    using found_index [OF that refl] find_index_of_Some(1) by fastforce
  then show ?thesis using assms by (fastforce simp: insertion_index_def split: option.splits)
qed

lemma replace_region_ids:
  "\<forall>q \<in> set qs. pane_id q = pane_id u \<longrightarrow> pane_region q = pane_region u \<Longrightarrow>
   map pane_id (filter (\<lambda>q. pane_region q = r) (map (\<lambda>q. if pane_id q = pane_id u then u else q) qs)) =
   map pane_id (filter (\<lambda>q. pane_region q = r) qs)"
  by (induction qs) auto

lemma after_take_region_ids:
  assumes "p \<in> set (panes w)" "distinct (map pane_id (panes w))"
  shows "map pane_id (filter (\<lambda>q. pane_region q = r) (panes (after_take w p v))) =
    map pane_id (filter (\<lambda>q. pane_region q = r \<and> \<not> (pane_id q = pane_id p \<and> length (pane_views p) = 1)) (panes w))"
proof (cases "length (pane_views p) = 1")
  case False
  have "\<forall>q \<in> set (panes w). pane_id q = pane_id (without_view p v) \<longrightarrow> pane_region q = pane_region (without_view p v)"
    using distinct_keyD [OF assms(2) _ assms(1)] by auto
  from replace_region_ids [OF this] show ?thesis using False by (simp add: after_take_def)
qed (simp add: after_take_def conj_commute)

lemma after_take_tree:
  assumes "tree_rule w" "p \<in> set (panes w)" "distinct (map pane_id (panes w))"
  shows "tree_rule (after_take w p v)"
proof -
  have "centers (after_take w p v) = filter (\<lambda>i. \<not> (i = pane_id p \<and> length (pane_views p) = 1)) (centers w)"
    using after_take_region_ids [OF assms(2,3), of Center] by (simp add: centers_def filter_map comp_def conj_commute)
  then show ?thesis
    using assms(1) remove_leaf_count [of "center_root w" "pane_id p"] remove_leaf_depth [of "center_root w" "pane_id p"]
    by (auto simp: tree_rule_def after_take_def split: if_splits)
qed

lemma act_move_new_pane_safe:
  assumes "started s"
  shows "act_move_new_pane s t i r k sid \<noteq> Inl Panic"
proof -
  { fix p v
    assume t: "tab_by_id (cs_window s) t = Inr (p, v)"
    define w where "w = after_take (cs_window s) p v"
    define a where "a = checked_nth (filter (\<lambda>q. pane_region q = r) (panes w)) k"
    define b where "b = (if k = 0 then None else checked_nth (filter (\<lambda>q. pane_region q = r) (panes w)) (k - 1))"
    note tv = tab_by_id_Inr [OF t]
    assume k: "k \<le> length (filter (\<lambda>q. pane_region q = r \<and> \<not> (pane_id q = pane_id p \<and> length (pane_views p) = 1)) (panes (cs_window s)))"
    have tk: "take_tab (cs_window s) p v = Inr w"
      using started_take_tab [OF assms] tv by (simp add: w_def)
    have len: "k \<le> length (filter (\<lambda>q. pane_region q = r) (panes w))"
      using arg_cong [OF after_take_region_ids [OF _ started_facts(3) [OF assms], of p r v], of length] tv k by (simp add: w_def)
    have mem: "\<forall>n \<in> set_option a \<union> set_option b. n \<in> set (panes w)"
      by (auto simp: a_def b_def checked_nth_def split: if_splits dest!: nth_mem)
    obtain j where j: "insertion_index w a b = Inr j" "j \<le> length (panes w)"
      using insertion_index_ok [OF mem] by auto
    obtain w1 where w1: "insert_pane w j (new_pane i r v) = Inr w1" "center_root w1 = center_root w"
      using j(2) by (auto simp: insert_pane_def)
    have anchor: "or_else a b \<noteq> None" if "r = Center" "center_root w \<noteq> None"
    proof -
      have "tree_rule w" using after_take_tree [OF started_facts(4) [OF assms] _ started_facts(3) [OF assms]] tv w_def by blast
      then have "filter (\<lambda>q. pane_region q = r) (panes w) \<noteq> []"
        using that leaves_nonempty [of "the (center_root w)"]
        by (auto simp: tree_rule_def centers_def root_leaves_def simp del: leaves_nonempty simp flip: set_empty)
      then show ?thesis using len by (auto simp: a_def b_def or_else_def checked_nth_def not_less_eq_eq split: option.splits)
    qed
    then have "(if r = Center then center_beside w1 i sid a b else Inr w1) \<noteq> Inl Panic"
      using w1 by (auto simp: center_beside_def Let_def rbind_eq_Inl split: option.splits)
    moreover have "i \<in> set (map pane_id (panes w2))" if "(if r = Center then center_beside w1 i sid a b else Inr w1) = Inr w2" for w2
      using that insert_pane_ids [OF w1(1)]
      by (auto simp: center_beside_def Let_def rbind_eq_Inr new_pane_def split: if_splits option.splits)
    ultimately have "rbind (insertion_index w a b) (\<lambda>insertion.
        rbind (insert_pane w insertion (new_pane i r v)) (\<lambda>w1.
          rbind (if r = Center then center_beside w1 i sid a b else Inr w1) (\<lambda>w2.
            set_window s (navigate (cs_layout s) w2 i (view_id v))))) \<noteq> Inl Panic"
      using j w1 by (auto simp: rbind_eq_Inl navigate_Inl_Panic simp del: set_map)
    note tk this [unfolded a_def b_def]
  }
  then show ?thesis
    by (auto simp: act_move_new_pane_def Let_def rbind_eq_Inl split: if_splits)
qed

lemma act_split_safe:
  assumes "started s"
  shows "act_split s t i n sid e f \<noteq> Inl Panic"
proof -
  { fix p v g
    assume t: "tab_by_id (cs_window s) t = Inr (p, v)" and g: "pane_by_id (cs_window s) i = Inr g"
      and ok: "\<not> (pane_region g \<noteq> Center \<or> (pane_id p = pane_id g \<and> length (pane_views p) = 1))"
    let ?w = "after_take (cs_window s) p v"
    note tv = tab_by_id_Inr [OF t] and gi = pane_by_id_Inr [OF g]
    have tk: "take_tab (cs_window s) p v = Inr ?w"
      using started_take_tab [OF assms] tv by simp
    have "pane_id g \<in> set (map pane_id (panes ?w))"
      using after_take_ids [of "cs_window s" p v] ok gi by auto
    then obtain j where j: "find_index_of (\<lambda>q. pane_id q = pane_id g) (panes ?w) = Some j" "j < length (panes ?w)"
      using found_index [of _ "panes ?w" pane_id "pane_id g"] find_index_of_Some(1) by (fastforce simp: image_iff)
    then have "rbind (ok_or Panic (find_index_of (\<lambda>q. pane_id q = pane_id g) (panes ?w))) (\<lambda>j.
        rbind (insert_pane (?w\<lparr>center_root := r\<rparr>) (j + (if b then 0 else 1)) (new_pane n Center v)) (\<lambda>w1.
          set_window s (navigate (cs_layout s) w1 n (view_id v)))) \<noteq> Inl Panic" for r b
      using j(2) by (auto simp: insert_pane_def rbind_eq_Inl navigate_Inl_Panic new_pane_def)
    note tk this [of _ True, simplified] this [of _ False, simplified]
  }
  note * = this
  show ?thesis
  proof (cases "tab_by_id (cs_window s) t")
    case (Inr pv)
    obtain p v where pv: "pv = (p, v)" by (cases pv)
    show ?thesis
    proof (cases "pane_by_id (cs_window s) i")
      case (Inr g)
      with * [OF \<open>tab_by_id (cs_window s) t = Inr pv\<close> [unfolded pv] Inr] show ?thesis
        unfolding act_split_def Let_def \<open>tab_by_id (cs_window s) t = Inr pv\<close> pv
        by (auto split: option.splits)
    qed (use Inr pv in \<open>auto simp: act_split_def pane_by_id_def\<close>)
  qed (auto simp: act_split_def tab_by_id_def)
qed

lemma act_resize_safe: "act_resize s sid f \<noteq> Inl Panic"
  by (auto simp: act_resize_def split: option.splits prod.splits bool.splits)

lemma state_windows_started: "started s \<Longrightarrow> state_windows s = windows (cs_layout s)"
proof -
  assume s: "started s"
  then have "distinct (map win_id (windows (cs_layout s)))"
    by (simp add: started_def valid_layout_def ownership_ok_def)
  with s show ?thesis
    unfolding state_windows_def by (auto simp: started_def intro!: map_idI dest: distinct_keyD)
qed

lemma find_resource_Some:
  "find_resource ws v = Some (w, p, t) \<Longrightarrow> w \<in> set ws \<and> p \<in> set (panes w) \<and> t \<in> set (pane_views p) \<and> same_resource t v"
proof (induction ws)
  case (Cons a ws)
  have "find_resource_pane ps v = Some (p, t) \<Longrightarrow> p \<in> set ps \<and> t \<in> set (pane_views p) \<and> same_resource t v" for ps
    by (induction ps) (auto split: option.splits dest: find_SomeD)
  with Cons show ?case by (auto split: option.splits)
qed simp

lemma reopen_view_id: "reopen_view s t v = Inr u \<Longrightarrow> view_id u = view_id t"
  by (auto simp: reopen_view_def Let_def split: option.splits if_splits)

lemma reopen_view_safe [simp]: "reopen_view s t v \<noteq> Inl Panic"
  by (auto simp: reopen_view_def Let_def split: option.splits if_splits)

lemma open_existing_safe:
  assumes "p \<in> set (panes w)" "t \<in> set (pane_views p)"
  shows "open_existing s v w p t \<noteq> Inl Panic"
  using assms store_view_safe [OF assms(2)]
  by (auto simp: open_existing_def Let_def rbind_eq_Inl store_pane_safe navigate_Inl_Panic simp del: set_map
      dest!: reopen_view_id store_view_id store_pane_ids) (auto simp: image_iff)

lemma open_in_pane_safe:
  assumes "started s"
  shows "open_in_pane s v r i \<noteq> Inl Panic"
proof -
  { fix g t
    assume g: "pane_by_id (cs_window s) i = Inr g" and t: "replaced_preview s v r g = Inr (Some t)"
    have g': "g \<in> set (panes (cs_window s))" using pane_by_id_Inr [OF g] by simp
    obtain j p where p: "tab_by_id (cs_window s) j = Inr (p, t)" "pane_id p = pane_id g"
        "definition_id (view_resource t) = ''project.file''"
      using t by (auto simp: replaced_preview_def rbind_eq_Inr split: option.splits if_splits)
    have "p = g" using tab_by_id_Inr [OF p(1)] g' p(2) distinct_keyD [OF started_facts(3) [OF assms]] by blast
    moreover have "direct_id g \<noteq> Some (view_id t)"
    proof
      assume "direct_id g = Some (view_id t)"
      then obtain c where c: "direct_view g = Some c" "view_id c = view_id t" by (auto simp: direct_id_eq)
      then have "c = t"
        using distinct_keyD [OF started_pane(1) [OF assms g']] tab_by_id_Inr [OF p(1)] \<open>p = g\<close>
        by (auto simp: pane_views_def)
      then show False using direct_conversation [OF started_pane(3) [OF assms g']] c p(3) by simp
    qed
    ultimately have "t \<in> set (tabs g)" using tab_by_id_Inr [OF p(1)] view_not_direct by blast
    then have "add_or_replace s v (Some t) g \<noteq> Inl Panic" by (auto simp: add_or_replace_def)
  }
  moreover have "add_or_replace s v None g \<noteq> Inl Panic" for g by (simp add: add_or_replace_def)
  ultimately have a: "add_or_replace s v x g \<noteq> Inl Panic"
    if "pane_by_id (cs_window s) i = Inr g" "replaced_preview s v r g = Inr x" for x g
    using that by (cases x) auto
  have b: "replaced_preview s v r g \<noteq> Inl Panic" for g
    by (auto simp: replaced_preview_def rbind_eq_Inl split: option.splits)
  have c: "add_or_replace s v x g = Inr h \<Longrightarrow> pane_id h = pane_id g" for x g h
    by (auto simp: add_or_replace_def split: option.splits if_splits)
  show ?thesis
    using a b by (auto simp: open_in_pane_def rbind_eq_Inl store_pane_safe navigate_Inl_Panic simp del: set_map
        dest!: c store_pane_ids pane_by_id_Inr) (auto simp: image_iff)
qed

lemma open_new_pane_safe: "open_new_pane s v r i g sid \<noteq> Inl Panic"
  by (auto simp: open_new_pane_def Let_def navigate_Inl_Panic new_pane_def)

lemma act_open_safe: "started s \<Longrightarrow> act_open s v r g \<noteq> Inl Panic"
  by (auto simp: act_open_def state_windows_started open_in_pane_safe open_new_pane_safe
      split: option.splits open_target.splits dest!: find_resource_Some dest: open_existing_safe)

lemma store_pane_member: "store_pane w q = Inr w' \<Longrightarrow> pane_id q \<in> set (map pane_id (panes w'))"
  using store_pane_Inr store_pane_ids by metis

lemma store_focus_safe:
  assumes "pane_id q \<in> set (map pane_id (panes w))"
  shows "rbind (store_pane w q) (\<lambda>w'. focus w' (pane_id q) t) \<noteq> Inl Panic"
proof -
  have "focus w' (pane_id q) t \<noteq> Inl Panic" if "store_pane w q = Inr w'" for w'
    using assms store_pane_ids [OF that] by (simp add: focus_Inl del: set_map)
  then show ?thesis using assms by (auto simp: rbind_eq_Inl store_pane_safe)
qed

lemma act_close_conversation_safe: "started s \<Longrightarrow> act_close_conversation s i \<noteq> Inl Panic"
  by (auto simp: act_close_conversation_def rbind_eq_Inl started_take_tab dest!: tab_by_id_Inr split: if_splits)

lemma conversation_target_member: "conversation_target w i = Inr (Some p) \<Longrightarrow> p \<in> set (panes w)"
proof -
  have "head_option (List.map_filter (\<lambda>j. find (\<lambda>p. pane_id p = j \<and> pane_region p = Center) (panes w)) js) = Some p \<Longrightarrow>
      p \<in> set (panes w)" for js
    by (induction js) (auto simp: head_option_def map_filter_simps split: option.splits dest: find_SomeD)
  then show "conversation_target w i = Inr (Some p) \<Longrightarrow> ?thesis"
    by (auto simp: conversation_target_def or_else_def rbind_eq_Inr split: option.splits
        dest: find_SomeD pane_by_id_Inr)
qed

lemma act_open_conversation_safe:
  assumes "started s"
  shows "act_open_conversation s e v i n sid \<noteq> Inl Panic"
proof -
  have "conversation_target w i \<noteq> Inl Panic" for w
    by (auto simp: conversation_target_def rbind_eq_Inl split: option.splits)
  moreover have "conversation_pane w g n sid \<noteq> Inl Panic" for w g
    by (auto simp: conversation_pane_def Let_def split: option.splits)
  ultimately show ?thesis
    using assms
    by (auto simp: act_open_conversation_def state_windows_started Let_def rbind_eq_Inl focus_Inl store_pane_safe
        split: option.splits if_splits dest!: find_resource_Some conversation_target_member store_pane_member
        conversation_pane_Inr)
qed

lemma code_view_index:
  assumes "started s" "tab_by_id (cs_window s) t = Inr (p, v)" "definition_id (view_resource v) \<noteq> ''project.agent''"
  shows "\<exists>i. find_index_of (\<lambda>u. view_id u = view_id v) (tabs p) = Some i"
proof -
  note tv = tab_by_id_Inr [OF assms(2)]
  have "direct_id p \<noteq> Some (view_id v)"
  proof
    assume "direct_id p = Some (view_id v)"
    then obtain c where c: "direct_view p = Some c" "view_id c = view_id v" by (auto simp: direct_id_eq)
    then have "c = v"
      using distinct_keyD [OF started_pane(1) [OF assms(1)]] tv by (auto simp: pane_views_def)
    then show False using direct_conversation [OF started_pane(3) [OF assms(1)]] c tv assms(3) by blast
  qed
  then have "v \<in> set (tabs p)" using tv view_not_direct by blast
  then show ?thesis by (rule found_index) simp
qed

lemma act_migrate_code_files_safe:
  assumes "started s" "vs \<noteq> []"
  shows "act_migrate_code_files s t c vs \<noteq> Inl Panic"
proof -
  { fix p v
    assume t: "tab_by_id (cs_window s) t = Inr (p, v)" and r: "view_resource v = Entity ''project.code'' c"
    obtain i where i: "find_index_of (\<lambda>u. view_id u = view_id v) (tabs p) = Some i"
      using code_view_index [OF assms(1) t] r by auto
    have "store_pane (cs_window s) q \<noteq> Inl Panic" if "splice_files p v i fs = Inr q" for q fs
      using tab_by_id_Inr [OF t] splice_files_Inr [OF that] by (simp add: store_pane_safe)
    moreover have "splice_files p v i fs \<noteq> Inl Panic" if "fs \<noteq> []" for fs
      using that by (cases fs) (auto simp: splice_files_def head_option_def Let_def)
    moreover have "focus w (pane_id q) x \<noteq> Inl Panic" if "store_pane (cs_window s) q = Inr w" for q w x
      using store_pane_Inr [OF that] store_pane_ids [OF that] by (simp add: focus_Inl del: set_map)
    ultimately have "act_migrate_code_files s t c vs \<noteq> Inl Panic"
      using t r i assms(2)
      by (cases vs) (auto simp: act_migrate_code_files_def Let_def rbind_eq_Inl head_option_def split: option.splits if_splits)
  }
  then show ?thesis
    by (auto simp: act_migrate_code_files_def rbind_eq_Inl split: if_splits)
qed

lemma act_migrate_explorer_file_safe:
  assumes "started s"
  shows "act_migrate_explorer_file s t e d m vs \<noteq> Inl Panic"
proof -
  { fix p v
    assume t: "tab_by_id (cs_window s) t = Inr (p, v)" and r: "view_resource v = Entity ''project.explorer'' e"
    obtain i where i: "find_index_of (\<lambda>u. view_id u = view_id v) (tabs p) = Some i"
      using code_view_index [OF assms(1) t] r by auto
    have "store_pane (cs_window s) (p\<lparr>tabs := ts\<rparr>) \<noteq> Inl Panic" for ts
      using tab_by_id_Inr [OF t] by (simp add: store_pane_safe)
    then have "act_migrate_explorer_file s t e d m vs \<noteq> Inl Panic"
      using t r i by (auto simp: act_migrate_explorer_file_def Let_def)
  }
  then show ?thesis
    by (auto simp: act_migrate_explorer_file_def rbind_eq_Inl split: if_splits)
qed

lemma act_replace_attachment_safe: "act_replace_attachment s r \<noteq> Inl Panic"
  by (simp add: act_replace_attachment_def Let_def)

lemma selected_views_Inr: "selected_views p t = Inr vs \<Longrightarrow> pane_views p \<noteq> [] \<Longrightarrow> vs \<noteq> [] \<and> set vs \<subseteq> set (pane_views p)"
  by (auto simp: selected_views_def rbind_eq_Inr split: option.splits if_splits dest: find_SomeD)

lemma source_placement_safe:
  assumes "started s" "p \<in> set (panes (cs_window s))" "selected_views p t = Inr vs"
  shows "source_placement s p t vs \<noteq> Inl Panic"
proof -
  obtain v us where vs: "vs = v # us" "v \<in> set (pane_views p)"
    using selected_views_Inr [OF assms(3) started_pane(4) [OF assms(1,2)]] by (cases vs) auto
  show ?thesis
    using found_index [OF vs(2), of view_id "view_id v"] found_index [OF assms(2), of pane_id "pane_id p"] vs(1)
    by (auto simp: source_placement_def placement_of_def head_option_def)
qed

lemma act_prepare_safe:
  assumes "started s"
  shows "act_prepare_return s i p t d sid \<noteq> Inl Panic" "act_prepare_detach s i p t w e \<noteq> Inl Panic"
proof -
  have "selected_views q t \<noteq> Inl Panic" for q
    by (auto simp: selected_views_def rbind_eq_Inl split: option.splits)
  moreover have "other_window s j m \<noteq> Inl Panic" for j m by (simp add: other_window_def)
  moreover have "source_placement s q t vs \<noteq> Inl Panic"
    if "pane_by_id (cs_window s) p = Inr q" "selected_views q t = Inr vs" for q vs
    using source_placement_safe [OF assms] pane_by_id_Inr [OF that(1)] that(2) by blast
  ultimately show "act_prepare_return s i p t d sid \<noteq> Inl Panic" "act_prepare_detach s i p t w e \<noteq> Inl Panic"
    by (auto simp: act_prepare_return_def act_prepare_detach_def rbind_eq_Inl Let_def split: if_splits)
qed

lemma act_phase_safe:
  "act_transfer_ready s i \<noteq> Inl Panic" "act_transfer_state_ready s i \<noteq> Inl Panic" "act_cancel_transfer s i \<noteq> Inl Panic"
  by (auto simp: act_transfer_ready_def act_transfer_state_ready_def act_cancel_transfer_def pending_by_id_def
      rbind_eq_Inl Let_def split: if_splits)

lemma rmap_Inl: "rmap f xs = Inl e \<Longrightarrow> \<exists>x \<in> set xs. f x = Inl e"
  by (induction xs) (auto simp: rbind_eq_Inl)

lemma rmap_Inr_set: "rmap f xs = Inr ys \<Longrightarrow> y \<in> set ys \<Longrightarrow> \<exists>x \<in> set xs. f x = Inr y"
  by (induction xs arbitrary: ys) (auto simp: rbind_eq_Inr)

lemma commit_views_safe: "commit_views t p \<noteq> Inl Panic"
  by (auto simp: commit_views_def rbind_eq_Inl dest!: rmap_Inl)

lemma commit_views_set: "commit_views t p = Inr vs \<Longrightarrow> set vs \<subseteq> set (pane_views p)"
  by (auto simp: commit_views_def rbind_eq_Inr split: if_splits dest!: rmap_Inr_set dest: find_SomeD)

lemma moved_pane_safe:
  assumes "started s" "p \<in> set (panes (cs_window s))" "set vs \<subseteq> set (pane_views p)"
  shows "moved_pane t (cs_window s) p vs \<noteq> Inl Panic"
  using assms started_take_tab [OF assms(1,2)]
  by (auto simp: moved_pane_def split: list.splits)

lemma original_pane_member: "original_pane r m d = Some p \<Longrightarrow> p \<in> set (panes d)"
  by (auto simp: original_pane_def or_else_def Let_def split: if_splits option.splits dest: find_SomeD)

lemma place_moved_safe: "place_moved original t m d \<noteq> Inl Panic"
proof -
  have into: "return_into r m p d \<noteq> Inl Panic" if "p \<in> set (panes d)" for r p
    unfolding return_into_def Let_def using that by (intro store_focus_safe) auto
  have beside: "return_beside x t m d \<noteq> Inl Panic" for x
    by (auto simp: return_beside_def Let_def rbind_eq_Inl insert_pane_def focus_Inl split: option.splits)
  show ?thesis
    using into beside
    by (auto simp: place_moved_def focus_Inl split: option.splits dest: original_pane_member)
qed

lemma act_commit_transfer_safe: "started s \<Longrightarrow> act_commit_transfer s i \<noteq> Inl Panic"
  by (auto simp: act_commit_transfer_def pending_by_id_def other_window_def rbind_eq_Inl Let_def commit_views_safe
      place_moved_safe split: if_splits dest!: pane_by_id_Inr commit_views_set dest: moved_pane_safe)

lemma dispatch_safe:
  assumes "started s" "action_shape a"
  shows "dispatch s a \<noteq> Inl Panic"
proof (cases a)
  case (MigrateCodeFiles t c vs)
  then show ?thesis using assms act_migrate_code_files_safe by (simp add: views_shape_def)
next
  case (Pin t)
  then show ?thesis by (simp add: act_pin_def) (rule act_update_view_safe [OF assms(1)], auto)
next
  case (FileMode t m)
  then show ?thesis
    by (simp add: act_file_mode_def) (rule act_update_view_safe [OF assms(1)], auto split: if_splits)
next
  case (DockPresentation t d)
  then show ?thesis
    by (simp add: act_dock_presentation_def) (rule act_update_view_safe [OF assms(1)], auto split: if_splits)
qed (use assms(1) in \<open>simp_all add: act_home_def act_select_safe act_close_tab_safe act_close_pane_safe
   act_rename_pane_safe act_reorder_panes_safe act_reorder_safe act_move_safe act_move_new_pane_safe act_split_safe
   act_resize_safe act_open_safe act_close_conversation_safe act_open_conversation_safe act_migrate_explorer_file_safe
   act_replace_attachment_safe act_prepare_safe act_phase_safe act_commit_transfer_safe\<close>)

interpretation ws: workspace_action dispatch
  by unfold_locales (fact dispatch_safe, fact dispatch_keeps)

lemma apply_command_execute: "apply_command l c = ws.execute l c"
  by (simp add: apply_command_def ws.execute_def)

end
