(* ===== verification/WorkspaceViews.thy ===== *)
theory WorkspaceViews
  imports WorkspaceSafety
begin

text \<open>
  What the commands do to the set of views of a layout: the rearranging actions and a committed
  transfer conserve it, and a view reserved for a pending transfer survives every action that does
  not close a view explicitly.
\<close>

section \<open>The views of a window under each operation\<close>

lemma set_window_views: "set (window_views w) = (\<Union>q \<in> set (panes w). set (pane_views q))"
  by (auto simp: window_views_def)

lemma set_window_views_pane:
  "p \<in> set (panes w) \<Longrightarrow>
   set (window_views w) = (\<Union>q \<in> set (panes w) - {p}. set (pane_views q)) \<union> set (pane_views p)"
  by (auto simp: set_window_views)

lemma set_replace_pane:
  assumes "distinct (map pane_id (panes w))" "p \<in> set (panes w)"
  shows "set (map (\<lambda>q. if pane_id q = pane_id p then u else q) (panes w)) = insert u (set (panes w) - {p})"
proof -
  have "pane_id q = pane_id p \<longleftrightarrow> q = p" if "q \<in> set (panes w)" for q
    using distinct_keyD [OF assms(1) that assms(2)] by blast
  then have "set (map (\<lambda>q. if pane_id q = pane_id p then u else q) (panes w)) = (\<lambda>q. if q = p then u else q) ` set (panes w)"
    unfolding set_map by (intro image_cong) auto
  then show ?thesis using assms(2) by auto
qed

lemma views_replace_pane:
  assumes "distinct (map pane_id (panes w))" "p \<in> set (panes w)"
  shows "set (window_views (w\<lparr>panes := map (\<lambda>q. if pane_id q = pane_id p then u else q) (panes w)\<rparr>)) =
    (\<Union>q \<in> set (panes w) - {p}. set (pane_views q)) \<union> set (pane_views u)"
proof -
  let ?w = "w\<lparr>panes := map (\<lambda>q. if pane_id q = pane_id p then u else q) (panes w)\<rparr>"
  have "panes ?w = map (\<lambda>q. if pane_id q = pane_id p then u else q) (panes w)" by simp
  then have "set (panes ?w) = insert u (set (panes w) - {p})"
    by (simp only: set_replace_pane [OF assms])
  then show ?thesis unfolding set_window_views by auto
qed

lemma other_panes_disjoint:
  assumes "distinct (map view_id (window_views w))" "p \<in> set (panes w)" "v \<in> set (pane_views p)"
    and "q \<in> set (panes w) - {p}" "u \<in> set (pane_views q)"
  shows "view_id u \<noteq> view_id v"
proof -
  obtain as bs where ps: "panes w = as @ p # bs" using assms(2) by (auto simp: in_set_conv_decomp)
  then have "q \<in> set as \<union> set bs" using assms(4) by auto
  moreover have "distinct (window_views w)" using assms(1) by (simp add: distinct_map)
  ultimately have "u \<noteq> v" using assms(3,5) by (auto simp: window_views_def ps)
  moreover have "u \<in> set (window_views w)" "v \<in> set (window_views w)" using assms(2-5) by (auto simp: set_window_views)
  ultimately show ?thesis using distinct_keyD [OF assms(1)] by blast
qed

lemma after_take_views:
  assumes "distinct (map pane_id (panes w))" "distinct (map view_id (window_views w))"
    and "p \<in> set (panes w)" "v \<in> set (pane_views p)"
  shows "set (window_views (after_take w p v)) = set (window_views w) - {v}"
proof -
  have dv: "distinct (map view_id (pane_views p))"
    using assms(2,3) by (auto simp: window_views_def map_concat distinct_concat_iff comp_def)
  have pv: "set (filter (\<lambda>u. view_id u \<noteq> view_id v) (pane_views p)) = set (pane_views p) - {v}"
    using distinct_keyD [OF dv _ assms(4)] by auto
  have "v \<notin> (\<Union>q \<in> set (panes w) - {p}. set (pane_views q))"
    using other_panes_disjoint [OF assms(2-4)] by blast
  then have w: "set (window_views w) - {v} = (\<Union>q \<in> set (panes w) - {p}. set (pane_views q)) \<union> (set (pane_views p) - {v})"
    using set_window_views_pane [OF assms(3)] by auto
  show ?thesis
  proof (cases "length (pane_views p) = 1")
    case True
    then have "set (pane_views p) - {v} = {}"
      using pane_views_single [OF dv assms(4)] pv by (metis list.set(1))
    moreover have "set (panes w) - {p} = set (filter (\<lambda>q. pane_id q \<noteq> pane_id p) (panes w))"
      using distinct_keyD [OF assms(1) _ assms(3)] by auto
    ultimately show ?thesis
      using True w by (auto simp: after_take_def set_window_views)
  next
    case False
    have "set (window_views (after_take w p v)) =
        (\<Union>q \<in> set (panes w) - {p}. set (pane_views q)) \<union> set (pane_views (without_view p v))"
      using False views_replace_pane [OF assms(1,3), of "without_view p v"] by (simp add: after_take_def)
    then show ?thesis using w without_view_views [OF dv assms(4)] pv by simp
  qed
qed

lemma focus_views: "focus w i t = Inr w' \<Longrightarrow> window_views w' = window_views w"
proof -
  have "find (\<lambda>p. pane_id p = i) ps = Some p \<Longrightarrow> map pane_views (set_first (\<lambda>q. pane_id q = i) (focus_content p t) ps) = map pane_views ps" for ps p
    by (induction ps) (auto split: if_splits)
  then show "focus w i t = Inr w' \<Longrightarrow> ?thesis"
    by (clarsimp simp: focus_def window_views_def split: option.splits)
qed

lemma retire_conversation_views:
  "retire_conversation l p t = Inr q \<Longrightarrow> v \<in> set (pane_views p) \<Longrightarrow> v \<notin> set (pane_views q) \<Longrightarrow>
   direct_view p = Some v \<and> Some (view_id v) \<noteq> t \<and> \<not> reserved_in l (view_id v)"
  by (auto simp: pane_views_def dest!: retire_conversation_Inr split: option.splits)

lemma retire_conversation_subset: "retire_conversation l p t = Inr q \<Longrightarrow> set (pane_views q) \<subseteq> set (pane_views p)"
  by (auto simp: pane_views_def dest!: retire_conversation_Inr split: option.splits)

lemma navigate_views:
  assumes "navigate l w (pane_id p) t = Inr w'" "distinct (map pane_id (panes w))" "p \<in> set (panes w)"
  shows "set (window_views w') \<subseteq> set (window_views w)"
    and "v \<in> set (window_views w) - set (window_views w') \<Longrightarrow>
      direct_view p = Some v \<and> view_id v \<noteq> t \<and> \<not> reserved_in l (view_id v)"
proof -
  obtain q where q: "retire_conversation l p (Some t) = Inr q"
      "focus (w\<lparr>panes := set_first (\<lambda>u. pane_id u = pane_id p) q (panes w)\<rparr>) (pane_id p) (Some t) = Inr w'"
    using assms(1) unfolding navigate_def find_distinct [OF assms(2,3)] by (auto elim: rbindE)
  have w': "set (window_views w') = (\<Union>u \<in> set (panes w) - {p}. set (pane_views u)) \<union> set (pane_views q)"
    using focus_views [OF q(2)] views_replace_pane [OF assms(2,3), of q]
    by (simp add: set_first_map [OF assms(2,3) refl])
  show "set (window_views w') \<subseteq> set (window_views w)"
    using w' set_window_views_pane [OF assms(3)] retire_conversation_subset [OF q(1)] by auto
  show "direct_view p = Some v \<and> view_id v \<noteq> t \<and> \<not> reserved_in l (view_id v)"
    if "v \<in> set (window_views w) - set (window_views w')"
    using that w' set_window_views_pane [OF assms(3)] retire_conversation_views [OF q(1), of v] by auto
qed

lemma insert_pane_views: "insert_pane w k p = Inr w' \<Longrightarrow> set (window_views w') = set (pane_views p) \<union> set (window_views w)"
  by (auto simp: insert_pane_def set_window_views split: if_splits)

lemma new_pane_views [simp]: "pane_views (new_pane i r v) = [v]" "direct_view (new_pane i r v) = None"
  by (simp_all add: new_pane_def pane_views_def direct_view_def)

section \<open>The views of a command state\<close>

lemma set_all_tabs: "set (all_tabs s) = (\<Union>w \<in> set (state_windows s). set (window_views w))"
  by (auto simp: all_tabs_def)

lemma started_window_ids: "started s \<Longrightarrow> distinct (map win_id (windows (cs_layout s)))"
  by (simp add: started_def valid_layout_def ownership_ok_def)

lemma started_all_tabs: "started s \<Longrightarrow> all_tabs s = layout_views (cs_layout s)"
  by (simp add: all_tabs_def state_windows_started layout_views_def)

lemma all_tabs_window:
  assumes "started s" "win_id w = win_id (cs_window s)"
  shows "set (all_tabs (s\<lparr>cs_window := w\<rparr>)) =
    (\<Union>u \<in> set (windows (cs_layout s)) - {cs_window s}. set (window_views u)) \<union> set (window_views w)"
proof -
  have "set (state_windows (s\<lparr>cs_window := w\<rparr>)) = insert w (set (windows (cs_layout s)) - {cs_window s})"
    using started_facts(2) [OF assms(1)] distinct_keyD [OF started_window_ids [OF assms(1)]] assms(2)
    by (auto simp: state_windows_def)
  then show ?thesis by (auto simp: set_all_tabs)
qed

lemma finish_layout_views: "layout_views (finish_layout s) = all_tabs s"
proof -
  have "window_views (finish_window n w) = window_views w" for n w
  proof -
    have "window_views (prune_recent u) = window_views u" for u
      by (simp add: prune_recent_def window_views_def split: option.splits)
    then show ?thesis by (simp add: finish_window_def)
  qed
  then show ?thesis by (simp add: finish_layout_def layout_views_def all_tabs_def comp_def)
qed

lemma upgrade_views: "layout_views (upgrade a l) = layout_views l"
  by (simp add: upgrade_def layout_views_def comp_def)

lemma apply_commandE:
  assumes "apply_command l c = Inr out"
  obtains s0 s where "begin_command l c = Inr s0" "started s0" "cs_layout s0 = upgrade (cmd_action c) l"
    "dispatch s0 (cmd_action c) = Inr s" "out_layout out = finish_layout s" "valid_layout (out_layout out)"
    "layout_views l = all_tabs s0" "layout_views (out_layout out) = all_tabs s"
proof -
  obtain s0 s where s: "begin_command l c = Inr s0" "dispatch s0 (cmd_action c) = Inr s" "finish_command c s0 s = Inr out"
    using assms by (auto simp: apply_command_def elim!: rbindE)
  have o: "out_layout out = finish_layout s" "valid_layout (out_layout out)"
    using finish_command_Inr [OF s(3)] by blast+
  have b: "started s0" "cs_layout s0 = upgrade (cmd_action c) l" using begin_command_started [OF s(1)] by auto
  show thesis
    by (rule that [OF s(1) b s(2) o]) (use b o in \<open>simp_all add: started_all_tabs upgrade_views finish_layout_views\<close>)
qed

section \<open>Rearranging actions conserve views\<close>

lemma navigate_ids: "navigate l w i t = Inr w' \<Longrightarrow> map pane_id (panes w') = map pane_id (panes w)"
  by (auto simp: navigate_def rbind_eq_Inr split: option.splits dest!: focus_ids)
     (auto simp: set_first_keys dest!: retire_conversation_id find_SomeD)

lemma all_tabs_same_window:
  assumes "started s" "win_core w = win_core (cs_window s)" "set (window_views w) = set (window_views (cs_window s))"
  shows "set (all_tabs (s\<lparr>cs_window := w\<rparr>)) = set (all_tabs s)"
  using all_tabs_window [OF assms(1) win_core_id [OF assms(2)]] all_tabs_window [OF assms(1) refl] assms(3) by simp

lemma place_region_set:
  "place_region r members ps ids = Inr qs \<Longrightarrow> length ids = length (filter (\<lambda>p. pane_region p = r) ps) \<Longrightarrow>
   set qs = set (filter (\<lambda>p. pane_region p \<noteq> r) ps) \<union> {q. \<exists>i \<in> set ids. find (\<lambda>q. pane_id q = i) members = Some q}"
proof (induction r members ps ids arbitrary: qs rule: place_region.induct)
  case (2 r members p ps ids)
  then show ?case
    by (cases "pane_region p = r"; cases ids) (auto simp: rbind_eq_Inr)
qed simp

lemma act_reorder_panes_views:
  assumes "started s" "act_reorder_panes s r ids = Inr s'"
  shows "set (all_tabs s') = set (all_tabs s)"
proof -
  let ?w = "cs_window s"
  let ?m = "filter (\<lambda>p. pane_region p = r) (panes ?w)"
  have e: "exact_ids ids (map pane_id ?m)"
    using assms(2) by (auto simp: act_reorder_panes_def Let_def split: if_splits)
  obtain qs root' where qs: "place_region r ?m (panes ?w) ids = Inr qs" and s': "s' = s\<lparr>cs_window := ?w\<lparr>panes := qs, center_root := root'\<rparr>\<rparr>"
  proof -
    obtain qs where "place_region r ?m (panes ?w) ids = Inr qs"
      using assms(2) e by (auto simp: act_reorder_panes_def Let_def elim!: rbindE)
    moreover have "\<exists>root'. s' = s\<lparr>cs_window := ?w\<lparr>panes := qs, center_root := root'\<rparr>\<rparr>"
      using assms(2) e calculation
      by (cases r; cases "center_root ?w") (auto simp: act_reorder_panes_def Let_def split: option.splits intro: exI [of _ None] exI [of _ "center_root ?w"])
    ultimately show thesis using that by blast
  qed
  have d: "distinct (map pane_id ?m)" using started_facts(3) [OF assms(1)] by (simp add: distinct_map_filter)
  have "{q. \<exists>i \<in> set ids. find (\<lambda>q. pane_id q = i) ?m = Some q} = set ?m"
    using exact_ids_set [OF e] find_distinct [OF d] by (auto dest!: find_SomeD)
  moreover have "length ids = length ?m" using exact_ids_length [OF e d] by simp
  ultimately have "set qs = set (panes ?w)" using place_region_set [OF qs] by auto
  then show ?thesis
    unfolding s' by (intro all_tabs_same_window assms) (simp_all add: win_core_def set_window_views)
qed

lemma store_pane_views:
  assumes "started s" "p \<in> set (panes (cs_window s))" "store_pane (cs_window s) q = Inr w" "pane_id q = pane_id p"
  shows "set (window_views w) = (\<Union>u \<in> set (panes (cs_window s)) - {p}. set (pane_views u)) \<union> set (pane_views q)"
  using assms(3) views_replace_pane [OF started_facts(3) [OF assms(1)] assms(2), of q]
    store_pane_ok [OF started_facts(3) [OF assms(1)], of q] assms(2,4) by (simp add: rev_image_eqI)

lemma store_pane_same_views:
  assumes "started s" "p \<in> set (panes (cs_window s))" "store_pane (cs_window s) q = Inr w" "pane_id q = pane_id p"
    and "set (pane_views q) = set (pane_views p)"
  shows "set (all_tabs (s\<lparr>cs_window := w\<rparr>)) = set (all_tabs s)"
  by (rule all_tabs_same_window [OF assms(1) store_pane_core [OF assms(3)]])
     (simp only: store_pane_views [OF assms(1-4)] set_window_views_pane [OF assms(2)] assms(5))

lemma rmap_find_set:
  "rmap (\<lambda>i. ok_or e (find (\<lambda>t. f t = i) xs)) ids = Inr ys \<Longrightarrow> distinct (map f xs) \<Longrightarrow> set ids = set (map f xs) \<Longrightarrow>
   set ys = set xs"
proof -
  assume r: "rmap (\<lambda>i. ok_or e (find (\<lambda>t. f t = i) xs)) ids = Inr ys" and d: "distinct (map f xs)" and s: "set ids = set (map f xs)"
  have "rmap (\<lambda>i. ok_or e (find (\<lambda>t. f t = i) xs)) is = Inr zs \<Longrightarrow>
      set zs = {y. \<exists>i \<in> set is. find (\<lambda>t. f t = i) xs = Some y}" for "is" zs
    by (induction "is" arbitrary: zs) (auto simp: rbind_eq_Inr)
  from this [OF r] show ?thesis
    using s find_distinct [OF d] by (auto dest!: find_SomeD)
qed

lemma act_reorder_views:
  assumes "started s" "act_reorder s i ids = Inr s'"
  shows "set (all_tabs s') = set (all_tabs s)"
proof -
  obtain p ts w where p: "pane_by_id (cs_window s) i = Inr p" "exact_ids ids (map view_id (tabs p))"
      "rmap (\<lambda>i. ok_or Panic (find (\<lambda>t. view_id t = i) (tabs p))) ids = Inr ts"
      "store_pane (cs_window s) (p\<lparr>tabs := ts\<rparr>) = Inr w" "s' = s\<lparr>cs_window := w\<rparr>"
    using assms(2) by (auto simp: act_reorder_def set_window_Inr split: if_splits elim!: rbindE)
  have m: "p \<in> set (panes (cs_window s))" using pane_by_id_Inr [OF p(1)] by simp
  have "set ts = set (tabs p)"
    by (rule rmap_find_set [OF p(3) pane_views_tabs [OF started_pane(1) [OF assms(1) m]] exact_ids_set [OF p(2)]])
  then show ?thesis
    unfolding p(5) by (intro store_pane_same_views [OF assms(1) m p(4)]) (auto simp: pane_views_def)
qed

lemma act_rename_pane_views: "started s \<Longrightarrow> act_rename_pane s i t = Inr s' \<Longrightarrow> set (all_tabs s') = set (all_tabs s)"
proof -
  assume s: "started s" and r: "act_rename_pane s i t = Inr s'"
  obtain p w where p: "pane_by_id (cs_window s) i = Inr p" "store_pane (cs_window s) (p\<lparr>pane_title := t\<rparr>) = Inr w"
      "s' = s\<lparr>cs_window := w\<rparr>"
    using r by (auto simp: act_rename_pane_def set_window_Inr elim!: rbindE)
  show ?thesis
    unfolding p(3) by (rule store_pane_same_views [OF s _ p(2)]) (use pane_by_id_Inr [OF p(1)] in simp_all)
qed

lemma act_home_views: "started s \<Longrightarrow> act_home s = Inr s' \<Longrightarrow> set (all_tabs s') = set (all_tabs s)"
  using all_tabs_same_window [of s "(cs_window s)\<lparr>focused_pane := None\<rparr>"] by (auto simp: act_home_def set_window_views)

lemma act_resize_views: "started s \<Longrightarrow> act_resize s sid f = Inr s' \<Longrightarrow> set (all_tabs s') = set (all_tabs s)"
  using all_tabs_same_window [of s "(cs_window s)\<lparr>center_root := _\<rparr>"]
  by (auto simp: act_resize_def set_window_views split: option.splits prod.splits bool.splits)

lemma new_pane_id: "pane_id (new_pane i r v) = i"
  by (simp add: new_pane_def)

text \<open>A view taken from its pane and placed in a new pane stays owned.\<close>

lemma new_pane_navigate_views:
  assumes "started s" "p \<in> set (panes (cs_window s))" "v \<in> set (pane_views p)"
    and w: "panes w = panes (after_take (cs_window s) p v)"
    and w1: "insert_pane w k (new_pane i r v) = Inr w1" "panes w2 = panes w1"
    and w3: "navigate (cs_layout s) w2 i t = Inr w3"
    and d: "distinct (map pane_id (panes w3))"
  shows "set (window_views w3) = set (window_views (cs_window s))"
proof -
  have d2: "distinct (map pane_id (panes w2))" using d navigate_ids [OF w3] by simp
  have m: "new_pane i r v \<in> set (panes w2)"
    using w1 by (auto simp: insert_pane_def split: if_splits)
  have "set (window_views w3) = set (window_views w2)"
    using navigate_views [of "cs_layout s" w2 "new_pane i r v" t w3] w3 d2 m by (auto simp: new_pane_id)
  also have "\<dots> = insert v (set (window_views (after_take (cs_window s) p v)))"
    using insert_pane_views [OF w1(1)] w w1(2) by (simp add: set_window_views)
  also have "\<dots> = set (window_views (cs_window s))"
    using after_take_views [OF started_facts(3) [OF assms(1)] valid_layout_facts(2) [OF started_facts(1,2) [OF assms(1)]] assms(2,3)]
      assms(2,3) by (auto simp: set_window_views)
  finally show ?thesis .
qed

lemma act_move_new_pane_views:
  assumes "started s" "act_move_new_pane s t i r k sid = Inr s'" "distinct (map pane_id (panes (cs_window s')))"
  shows "set (all_tabs s') = set (all_tabs s)"
proof -
  obtain p v w a b n w1 w2 w3 where
    *: "tab_by_id (cs_window s) t = Inr (p, v)" "take_tab (cs_window s) p v = Inr w" "insert_pane w n (new_pane i r v) = Inr w1"
      "(if r = Center then center_beside w1 i sid a b else Inr w1) = Inr w2"
      "navigate (cs_layout s) w2 i (view_id v) = Inr w3" "s' = s\<lparr>cs_window := w3\<rparr>"
    using assms(2) unfolding act_move_new_pane_def Let_def
    by (elim rbindE) (auto simp: set_window_Inr split: if_splits elim!: rbindE)
  note tv = tab_by_id_Inr [OF *(1)]
  have "panes w2 = panes w1"
    using *(4) by (auto simp: center_beside_def Let_def rbind_eq_Inr split: if_splits option.splits)
  moreover have "w = after_take (cs_window s) p v" using started_take_tab [OF assms(1)] tv *(2) by simp
  ultimately have "set (window_views w3) = set (window_views (cs_window s))"
    using new_pane_navigate_views [OF assms(1), of p v w n i r w1 w2 "view_id v" w3] tv * assms(3) by simp
  moreover have "win_core w3 = win_core (cs_window s)"
    using * act_move_new_pane_keeps [OF assms(2)] by (auto split: if_splits dest!: core_rules center_beside_core)
  ultimately show ?thesis unfolding *(6) by (intro all_tabs_same_window assms)
qed

lemma act_split_views:
  assumes "started s" "act_split s t i n sid e f = Inr s'" "distinct (map pane_id (panes (cs_window s')))"
  shows "set (all_tabs s') = set (all_tabs s)"
proof -
  obtain p v w rt k w1 w3 where
    *: "tab_by_id (cs_window s) t = Inr (p, v)" "take_tab (cs_window s) p v = Inr w"
      "insert_pane (w\<lparr>center_root := rt\<rparr>) k (new_pane n Center v) = Inr w1"
      "navigate (cs_layout s) w1 n (view_id v) = Inr w3" "s' = s\<lparr>cs_window := w3\<rparr>"
    using assms(2) unfolding act_split_def Let_def
    by (elim rbindE) (auto simp: set_window_Inr split: if_splits option.splits elim!: rbindE)
  note tv = tab_by_id_Inr [OF *(1)]
  have "w = after_take (cs_window s) p v" using started_take_tab [OF assms(1)] tv *(2) by simp
  then have "set (window_views w3) = set (window_views (cs_window s))"
    using new_pane_navigate_views [OF assms(1), of p v "w\<lparr>center_root := rt\<rparr>" k n Center w1 w1 "view_id v" w3] tv * assms(3) by simp
  moreover have "win_core w3 = win_core (cs_window s)"
    using * by (auto dest!: core_rules)
  ultimately show ?thesis unfolding *(5) by (intro all_tabs_same_window assms)
qed

fun rearranges :: "action \<Rightarrow> bool" where
  "rearranges Home = True"
| "rearranges (RenamePane _ _) = True"
| "rearranges (ReorderPanes _ _) = True"
| "rearranges (Reorder _ _) = True"
| "rearranges (MoveNewPane _ _ _ _ _) = True"
| "rearranges (SplitPane _ _ _ _ _ _) = True"
| "rearranges (ResizeSplit _ _) = True"
| "rearranges _ = False"

lemma rearranges_views:
  assumes "started s" "dispatch s a = Inr s'" "rearranges a" "distinct (map pane_id (panes (cs_window s')))"
  shows "set (all_tabs s') = set (all_tabs s)"
  using assms by (cases a) (auto simp del: set_concat
      dest: act_home_views act_rename_pane_views act_reorder_panes_views act_reorder_views act_resize_views
        act_move_new_pane_views act_split_views)

section \<open>A committed transfer conserves views\<close>

lemma remove_pane_views:
  assumes "distinct (map pane_id (panes w))" "distinct (map view_id (window_views w))" "p \<in> set (panes w)"
  shows "set (window_views (remove_pane w (pane_id p))) = set (window_views w) - set (pane_views p)"
proof -
  have "set (filter (\<lambda>q. pane_id q \<noteq> pane_id p) (panes w)) = set (panes w) - {p}"
    using distinct_keyD [OF assms(1) _ assms(3)] by auto
  moreover have "(\<Union>q \<in> set (panes w) - {p}. set (pane_views q)) \<inter> set (pane_views p) = {}"
    using other_panes_disjoint [OF assms(2,3)] by blast
  ultimately show ?thesis
    using set_window_views_pane [OF assms(3)] by (auto simp: set_window_views)
qed

lemma moved_pane_views:
  assumes "started s" "p \<in> set (panes (cs_window s))" "set vs \<subseteq> set (pane_views p)"
    and "moved_pane t (cs_window s) p vs = Inr (w, m)"
  shows "set (pane_views m) \<subseteq> set (window_views (cs_window s))"
    and "set (window_views w) = set (window_views (cs_window s)) - set (pane_views m)"
proof -
  note d = started_facts(3) [OF assms(1)]
    and dv = valid_layout_facts(2) [OF started_facts(1,2) [OF assms(1)]]
  show "set (window_views w) = set (window_views (cs_window s)) - set (pane_views m)"
  proof (cases "tr_whole_pane t")
    case True
    then have "w = remove_pane (cs_window s) (pane_id p)" "m = p\<lparr>pane_region := Center\<rparr>"
      using assms(4) by (simp_all add: moved_pane_def)
    then show ?thesis using remove_pane_views [OF d dv assms(2)] by simp
  next
    case False
    then obtain v where v: "vs = [v]" using assms(4) by (auto simp: moved_pane_def split: list.splits)
    then have "take_tab (cs_window s) p v = Inr (after_take (cs_window s) p v)"
      using started_take_tab [OF assms(1,2)] assms(3) by simp
    then have "w = after_take (cs_window s) p v" "pane_views m = [v]"
      using assms(4) False v by (auto simp: moved_pane_def pane_views_def direct_view_def split: if_splits)
    then show ?thesis using after_take_views [OF d dv assms(2)] assms(3) v by simp
  qed
  show "set (pane_views m) \<subseteq> set (window_views (cs_window s))"
    using assms(2-4)
    by (auto simp: moved_pane_def pane_views_def direct_view_def rbind_eq_Inr set_window_views
        split: list.splits if_splits option.splits)
qed

lemma return_into_views:
  assumes "distinct (map pane_id (panes d))" "original_pane r m d = Some p" "return_into r m p d = Inr d'"
  shows "set (window_views d') = set (window_views d) \<union> set (pane_views m)"
proof -
  note p = original_pane_member [OF assms(2)]
  obtain q w where q: "pane_id q = pane_id p" "set (pane_views q) = set (pane_views p) \<union> set (pane_views m)"
      "store_pane d q = Inr w" "focus w (pane_id q) (selected_view_id m) = Inr d'"
  proof (cases "placed_kind (rp_placement r) = Some ConversationView")
    case True
    have "direct_view p = None" "tabs m = []"
      using assms(2) True by (auto simp: original_pane_def or_else_def Let_def split: if_splits option.splits dest!: find_SomeD)
    then have "set (pane_views (p\<lparr>conversation_view := Some (direct_view m)\<rparr>)) = set (pane_views p) \<union> set (pane_views m)"
      by (auto simp: pane_views_def)
    then show thesis
      using that [of "p\<lparr>conversation_view := Some (direct_view m)\<rparr>"] assms(3) True
      by (auto simp: return_into_def Let_def elim!: rbindE)
  next
    case False
    have m: "direct_view m = None"
      using assms(2) False by (auto simp: original_pane_def or_else_def Let_def split: if_splits)
    define i where "i = (if pane_id p = rp_source_pane r then min (tab_position (rp_placement r)) (length (tabs p)) else length (tabs p))"
    have "set (take i (tabs p) @ tabs m @ drop i (tabs p)) = set (tabs p) \<union> set (tabs m)"
      by (metis append_take_drop_id set_append sup_assoc sup_commute)
    then have "set (pane_views (p\<lparr>tabs := take i (tabs p) @ tabs m @ drop i (tabs p)\<rparr>)) = set (pane_views p) \<union> set (pane_views m)"
      using m by (auto simp: pane_views_def)
    then show thesis
      using that [of "p\<lparr>tabs := take i (tabs p) @ tabs m @ drop i (tabs p)\<rparr>"] assms(3) False
      unfolding return_into_def Let_def i_def [symmetric] by (auto elim!: rbindE)
  qed
  have "w = d\<lparr>panes := map (\<lambda>u. if pane_id u = pane_id p then q else u) (panes d)\<rparr>"
    using store_pane_ok [OF assms(1), of q] q(1,3) p by simp
  then have "set (window_views w) = (\<Union>u \<in> set (panes d) - {p}. set (pane_views u)) \<union> set (pane_views q)"
    using views_replace_pane [OF assms(1) p, of q] by simp
  then show ?thesis
    using q(2) set_window_views_pane [OF p] focus_views [OF q(4)] by auto
qed

lemma return_beside_views:
  assumes "return_beside x t m d = Inr d'"
  shows "set (window_views d') = set (window_views d) \<union> set (pane_views m)"
proof -
  obtain r k w root' where "insert_pane d k (m\<lparr>pane_region := r\<rparr>) = Inr w"
      "focus (w\<lparr>center_root := root'\<rparr>) (pane_id m) (selected_view_id (m\<lparr>pane_region := r\<rparr>)) = Inr d'"
    using assms unfolding return_beside_def Let_def
    by (elim rbindE) (auto split: if_splits, (metis window.surjective window.update_convs(5))+)
  then show ?thesis
    using insert_pane_views [of d k "m\<lparr>pane_region := r\<rparr>" w] focus_views by (auto simp: set_window_views)
qed

lemma place_moved_views:
  assumes "place_moved x t m d = Inr d'" "distinct (map pane_id (panes d))"
    and "\<not> truthy (tr_return_split t) \<Longrightarrow> panes d = []"
  shows "set (window_views d') = set (window_views d) \<union> set (pane_views m)"
proof (cases "truthy (tr_return_split t)")
  case True
  then show ?thesis
    using assms(1,2) return_into_views return_beside_views
    by (auto simp: place_moved_def split: option.splits)
next
  case False
  then have "focus (d\<lparr>panes := [m], center_root := Some (Leaf (pane_id m)),
      return_placement := Some \<lparr>rp_detached_pane = Some (pane_id m), rp_source_window = tr_source_window t,
        rp_source_pane = tr_source_pane t, rp_placement = tr_placement t, rp_whole_pane = tr_whole_pane t\<rparr>\<rparr>)
      (pane_id m) (selected_view_id m) = Inr d'"
    using assms(1) by (simp add: place_moved_def)
  from focus_views [OF this] show ?thesis
    using assms(3) False by (simp add: window_views_def)
qed

lemma all_tabs_two_windows:
  assumes s: "started s" and d: "d \<in> set (windows (cs_layout s))" "win_id d \<noteq> win_id (cs_window s)"
    and w: "win_id w = win_id (cs_window s)" and d': "win_id d' = win_id d"
  shows "set (all_tabs (set_pending (store_window (s\<lparr>cs_window := w, cs_focus := f\<rparr>) d') ts)) =
    (\<Union>u \<in> set (windows (cs_layout s)) - {cs_window s, d}. set (window_views u)) \<union>
    set (window_views w) \<union> set (window_views d')"
proof -
  let ?ws = "windows (cs_layout s)"
  note di = started_window_ids [OF s] and c = started_facts(2) [OF s]
  have k: "win_id u = win_id (cs_window s) \<longleftrightarrow> u = cs_window s" "win_id u = win_id d \<longleftrightarrow> u = d" if "u \<in> set ?ws" for u
    using distinct_keyD [OF di that c] distinct_keyD [OF di that d(1)] by blast+
  let ?s = "set_pending (store_window (s\<lparr>cs_window := w, cs_focus := f\<rparr>) d') ts"
  have "state_windows ?s = map (\<lambda>u. if win_id u = win_id w then w else u) (map (\<lambda>u. if win_id u = win_id d then d' else u) ?ws)"
    using d(2) w d' set_first_map [OF di d(1), of "win_id d'" d'] by (simp add: state_windows_def store_window_def set_pending_def)
  also have "\<dots> = map (\<lambda>u. if u = cs_window s then w else if u = d then d' else u) ?ws"
    using k w d d' by (auto intro!: map_cong)
  finally have "set (state_windows ?s) = insert w (insert d' (set ?ws - {cs_window s, d}))"
    using c d by auto
  then show ?thesis by (auto simp: set_all_tabs)
qed

lemma act_commit_transfer_views:
  assumes "started s" "act_commit_transfer s i = Inr s'"
  shows "set (all_tabs s') = set (all_tabs s)"
proof -
  obtain t p d vs w m d' ts where
    *: "pending_by_id s i = Inr t" "tr_source_window t = win_id (cs_window s)" "pane_by_id (cs_window s) (tr_source_pane t) = Inr p"
      "other_window s (tr_destination_window t) ''Destination window no longer exists.'' = Inr d" "commit_views t p = Inr vs"
      "moved_pane t (cs_window s) p vs = Inr (w, m)"
      "place_moved (original_placement t (cs_window s) p d) t m d = Inr d'"
      "s' = set_pending (store_window (s\<lparr>cs_window := w, cs_focus := Some (win_id d')\<rparr>) d') ts"
    using assms(2) unfolding act_commit_transfer_def Let_def
    by (elim rbindE) (auto split: if_splits elim!: rbindE)
  have d: "find (\<lambda>w. win_id w = tr_destination_window t) (windows (cs_layout s)) = Some d"
    using *(4) assms(1) by (simp add: other_window_def state_windows_started)
  have t: "t \<in> set (json_values (pending_transfers (cs_layout s)))"
    using *(1) by (auto simp: pending_by_id_def pending_def dest: find_SomeD)
  have "transfer_ok (cs_layout s) t"
    using started_facts(1) [OF assms(1)] t by (auto simp: valid_layout_def ownership_ok_def transfers_ok_def Let_def)
  then have ok: "win_id d \<noteq> win_id (cs_window s)" "\<not> truthy (tr_return_split t) \<Longrightarrow> panes d = []"
    using d *(2) by (auto simp: transfer_ok_def split: option.splits if_splits dest: find_SomeD)
  have dm: "d \<in> set (windows (cs_layout s))" using find_SomeD [OF d] by simp
  have m: "p \<in> set (panes (cs_window s))" using pane_by_id_Inr [OF *(3)] by simp
  note mv = moved_pane_views [OF assms(1) m commit_views_set [OF *(5)] *(6)]
  have pl: "set (window_views d') = set (window_views d) \<union> set (pane_views m)"
    by (rule place_moved_views [OF *(7) valid_layout_facts(1) [OF started_facts(1) [OF assms(1)] dm] ok(2)])
  have "win_id w = win_id (cs_window s)" using moved_pane_core [OF *(6)] by (simp add: win_core_def)
  moreover have "win_id d' = win_id d"
    using *(7) by (auto simp: place_moved_def return_into_def return_beside_def Let_def win_core_def
        split: if_splits option.splits elim!: rbindE dest!: core_rules)
  ultimately have "set (all_tabs s') = (\<Union>u \<in> set (windows (cs_layout s)) - {cs_window s, d}. set (window_views u)) \<union>
      set (window_views w) \<union> set (window_views d')"
    unfolding *(8) by (rule all_tabs_two_windows [OF assms(1) dm ok(1)])
  also have "\<dots> = (\<Union>u \<in> set (windows (cs_layout s)). set (window_views u))"
    using mv pl dm started_facts(2) [OF assms(1)] by auto
  finally show ?thesis using assms(1) by (simp add: set_all_tabs state_windows_started)
qed

section \<open>Reserved views survive\<close>

definition view_ids :: "window \<Rightarrow> string set" where
  "view_ids w = view_id ` set (window_views w)"

definition survives :: "command_state \<Rightarrow> command_state \<Rightarrow> bool" where
  "survives s s' \<longleftrightarrow> (\<forall>v \<in> set (all_tabs s). reserved s (view_id v) \<longrightarrow> view_id v \<in> view_id ` set (all_tabs s'))"

definition keeps_reserved :: "layout \<Rightarrow> window \<Rightarrow> window \<Rightarrow> bool" where
  "keeps_reserved l w w' \<longleftrightarrow> (\<forall>i \<in> view_ids w. reserved_in l i \<longrightarrow> i \<in> view_ids w')"

lemma keeps_reserved_refl [simp]: "keeps_reserved l w w"
  by (simp add: keeps_reserved_def)

lemma keeps_reserved_trans: "keeps_reserved l u v \<Longrightarrow> keeps_reserved l v w \<Longrightarrow> keeps_reserved l u w"
  by (auto simp: keeps_reserved_def)

lemma keeps_reserved_subset: "view_ids w \<subseteq> view_ids w' \<Longrightarrow> keeps_reserved l w w'"
  by (auto simp: keeps_reserved_def)

lemma survives_views: "set (all_tabs s') = set (all_tabs s) \<Longrightarrow> survives s s'"
  by (simp add: survives_def)

lemma survives_window:
  assumes "started s" "win_core w = win_core (cs_window s)" "keeps_reserved (cs_layout s) (cs_window s) w"
  shows "survives s (s\<lparr>cs_window := w\<rparr>)"
  using all_tabs_window [OF assms(1) win_core_id [OF assms(2)]] all_tabs_window [OF assms(1) refl] assms(3)
  by (fastforce simp: survives_def keeps_reserved_def view_ids_def reserved_def)

lemma find_set_first:
  "find (\<lambda>p. f p = i) ps = Some p \<Longrightarrow>
   \<exists>as bs. ps = as @ p # bs \<and> set_first (\<lambda>q. f q = i) y ps = as @ y # bs"
proof (induction ps)
  case (Cons a ps)
  then show ?case
  proof (cases "f a = i")
    case False
    with Cons obtain as bs where "ps = as @ p # bs" "set_first (\<lambda>q. f q = i) y ps = as @ y # bs" by auto
    then have "a # ps = (a # as) @ p # bs" "set_first (\<lambda>q. f q = i) y (a # ps) = (a # as) @ y # bs"
      using False by simp_all
    then show ?thesis by blast
  qed (auto intro: exI [of _ "[]"])
qed simp

lemma set_first_views:
  assumes "find (\<lambda>p. pane_id p = i) (panes w) = Some p"
  shows "\<exists>R. set (window_views w) = R \<union> set (pane_views p) \<and>
    set (window_views (w\<lparr>panes := set_first (\<lambda>q. pane_id q = i) q (panes w)\<rparr>)) = R \<union> set (pane_views q)"
proof -
  obtain as bs where "panes w = as @ p # bs" "set_first (\<lambda>q. pane_id q = i) q (panes w) = as @ q # bs"
    using find_set_first [OF assms] by blast
  then show ?thesis
    by (intro exI [of _ "\<Union>u \<in> set as \<union> set bs. set (pane_views u)"]) (auto simp: set_window_views)
qed

lemma navigate_keeps:
  assumes "navigate l w i t = Inr w'"
  shows "keeps_reserved l w w'"
proof -
  obtain p q where p: "find (\<lambda>p. pane_id p = i) (panes w) = Some p" "retire_conversation l p (Some t) = Inr q"
      "focus (w\<lparr>panes := set_first (\<lambda>q. pane_id q = i) q (panes w)\<rparr>) i (Some t) = Inr w'"
    using assms by (auto simp: navigate_def split: option.splits elim!: rbindE)
  obtain R where R: "set (window_views w) = R \<union> set (pane_views p)" "set (window_views w') = R \<union> set (pane_views q)"
    using set_first_views [OF p(1), of q] focus_views [OF p(3)] by auto
  have "v \<in> set (pane_views q)" if "v \<in> set (pane_views p)" "reserved_in l (view_id v)" for v
    using that retire_conversation_views [OF p(2), of v] by blast
  then show ?thesis unfolding keeps_reserved_def view_ids_def R by blast
qed

lemma store_pane_keeps:
  assumes "store_pane w q = Inr w'" "find (\<lambda>p. pane_id p = pane_id q) (panes w) = Some p"
    and "\<And>v. v \<in> set (pane_views p) \<Longrightarrow> reserved_in l (view_id v) \<Longrightarrow> view_id v \<in> view_id ` set (pane_views q)"
  shows "keeps_reserved l w w'"
proof -
  have w': "w' = w\<lparr>panes := set_first (\<lambda>p. pane_id p = pane_id q) q (panes w)\<rparr>"
    using assms(1) by (auto simp: store_pane_def split: if_splits)
  obtain R where R: "set (window_views w) = R \<union> set (pane_views p)" "set (window_views w') = R \<union> set (pane_views q)"
    using set_first_views [OF assms(2), of q] w' by auto
  show ?thesis unfolding keeps_reserved_def view_ids_def R using assms(3) by blast
qed

lemma focus_keeps: "focus w i t = Inr w' \<Longrightarrow> keeps_reserved l w w'"
  by (simp add: keeps_reserved_def view_ids_def focus_views)

lemma store_view_ids:
  assumes "store_view p u = Inr q" "v \<in> set (pane_views p)" "view_id u = view_id v" "distinct (map view_id (pane_views p))"
  shows "view_id ` set (pane_views p) \<subseteq> view_id ` set (pane_views q)"
proof (cases "direct_id p = Some (view_id u)")
  case True
  then show ?thesis using assms(1) by (auto simp: store_view_def pane_views_def direct_id_def split: option.splits)
next
  case False
  then have q: "q = p\<lparr>tabs := set_first (\<lambda>t. view_id t = view_id u) u (tabs p)\<rparr>"
    using assms(1) by (auto simp: store_view_def split: if_splits)
  have "map view_id (tabs q) = map view_id (tabs p)"
    unfolding q using set_first_keys [of view_id u "view_id u" "tabs p"] by simp
  then have "view_id ` set (tabs q) = view_id ` set (tabs p)" by (metis set_map)
  then show ?thesis by (auto simp: pane_views_def q image_Un)
qed

lemma store_view_keeps:
  assumes "p \<in> set (panes w)" "distinct (map pane_id (panes w))" "distinct (map view_id (pane_views p))" "v \<in> set (pane_views p)"
    and "view_id u = view_id v" "store_view p u = Inr q" "store_pane w q = Inr w'"
  shows "keeps_reserved l w w'"
  using store_pane_keeps [OF assms(7), of p l] find_distinct [OF assms(2,1)] store_view_id [OF assms(6)]
    store_view_ids [OF assms(6,4,5,3)] by auto

lemma act_select_survives: "started s \<Longrightarrow> act_select s t = Inr s' \<Longrightarrow> survives s s'"
  by (auto simp: act_select_def set_window_Inr elim!: rbindE intro!: survives_window
      intro: navigate_keeps navigate_core)

lemma act_update_view_survives:
  assumes "started s" "act_update_view s t f = Inr s'" "\<And>p v u. f p v = Inr u \<Longrightarrow> view_id u = view_id v"
  shows "survives s s'"
proof -
  obtain p v u q w where *: "tab_by_id (cs_window s) t = Inr (p, v)" "f p v = Inr u" "store_view p u = Inr q"
      "store_pane (cs_window s) q = Inr w" "s' = s\<lparr>cs_window := w\<rparr>"
    using assms(2) by (auto simp: act_update_view_def set_window_Inr elim!: rbindE)
  note tv = tab_by_id_Inr [OF *(1)]
  have "keeps_reserved (cs_layout s) (cs_window s) w"
    by (rule store_view_keeps [OF _ started_facts(3) [OF assms(1)] started_pane(1) [OF assms(1)] _ assms(3) [OF *(2)] *(3,4)])
       (use tv in auto)
  then show ?thesis unfolding *(5)
    by (intro survives_window [OF assms(1)] store_pane_core [OF *(4)])
qed


lemma after_take_distinct:
  assumes "distinct (map pane_id (panes w))"
  shows "distinct (map pane_id (panes (after_take w p v)))"
proof (cases "length (pane_views p) = 1")
  case False
  have "map pane_id (map (\<lambda>q. if pane_id q = pane_id p then without_view p v else q) (panes w)) = map pane_id (panes w)"
    by (rule map_replace_key) simp
  moreover have "panes (after_take w p v) = map (\<lambda>q. if pane_id q = pane_id p then without_view p v else q) (panes w)"
    using False by (simp add: after_take_def)
  ultimately show ?thesis using assms by (simp only:)
qed (simp add: assms after_take_def distinct_map_filter)

lemma act_move_survives:
  assumes "started s" "act_move s t i k = Inr s'"
  shows "survives s s'"
proof -
  obtain p v g w g1 g2 w1 w2 where *: "tab_by_id (cs_window s) t = Inr (p, v)" "pane_by_id (cs_window s) i = Inr g"
      "lift_for_move (cs_window s) p v g = Inr (w, g1)" "insert_tab g1 k v = Inr g2" "store_pane w g2 = Inr w1"
      "navigate (cs_layout s) w1 (pane_id g2) (view_id v) = Inr w2" "s' = s\<lparr>cs_window := w2\<rparr>"
    using assms(2) unfolding act_move_def Let_def
    by (elim rbindE) (auto simp: set_window_Inr split: if_splits elim!: rbindE)
  note tv = tab_by_id_Inr [OF *(1)] and gi = pane_by_id_Inr [OF *(2)] and d = started_facts(3) [OF assms(1)]
  have id: "pane_id g2 = pane_id g" using insert_tab_id [OF *(4)] lift_for_move_core [OF *(3)] by simp
  have g2: "set (pane_views g2) = insert v (set (pane_views g1))"
    using *(4) by (auto simp: insert_tab_def pane_views_def split: if_splits)
  have "view_ids (cs_window s) \<subseteq> view_ids w1"
  proof (cases "pane_id g = pane_id p")
    case True
    then have gp: "g = p" using distinct_keyD [OF d] tv gi by blast
    have "w = cs_window s" "set (pane_views p) \<subseteq> set (pane_views g2)"
      using *(3) True gp g2 tv distinct_keyD [OF started_pane(1) [OF assms(1), of p]]
      by (auto simp: lift_for_move_def pane_views_def direct_id_def split: if_splits option.splits)
    then have "set (window_views (cs_window s)) \<subseteq> set (window_views w1)"
      using store_pane_views [OF assms(1) _ *(5) [unfolded \<open>w = cs_window s\<close>]] id gp gi set_window_views_pane [of g "cs_window s"] by auto
    then show ?thesis by (auto simp: view_ids_def)
  next
    case False
    have w: "w = after_take (cs_window s) p v" "g1 = g"
      using *(3) False started_take_tab [OF assms(1)] tv by (auto simp: lift_for_move_def)
    have dw: "distinct (map pane_id (panes w))"
      by (simp add: w(1) after_take_distinct d)
    have gw: "g \<in> set (panes w)"
      using gi False by (auto simp: w(1) after_take_def)
    have "w1 = w\<lparr>panes := map (\<lambda>q. if pane_id q = pane_id g then g2 else q) (panes w)\<rparr>"
      using store_pane_ok [OF dw, of g2] *(5) id gw by simp
    then have "set (window_views w1) = insert v (set (window_views w))"
      using views_replace_pane [OF dw gw, of g2] set_window_views_pane [OF gw] g2 w(2) by auto
    then show ?thesis
      using after_take_views [OF d valid_layout_facts(2) [OF started_facts(1,2) [OF assms(1)]]] tv w(1)
      by (auto simp: view_ids_def)
  qed
  then have "keeps_reserved (cs_layout s) (cs_window s) w2"
    by (rule keeps_reserved_trans [OF keeps_reserved_subset navigate_keeps [OF *(6)]])
  moreover have "win_core w2 = win_core (cs_window s)"
    using * lift_for_move_core [OF *(3)] by (auto dest!: core_rules)
  ultimately show ?thesis unfolding *(7) by (intro survives_window assms(1))
qed

lemma survives_other_window:
  assumes "started s" "w \<in> set (windows (cs_layout s))" "win_core w' = win_core w" "keeps_reserved (cs_layout s) w w'"
  shows "survives s (store_window (s\<lparr>cs_focus := f\<rparr>) w')" "survives s (store_window s w')"
proof -
  note di = started_window_ids [OF assms(1)] and c = started_facts(2) [OF assms(1)]
  have w': "win_id w' = win_id w" by (rule win_core_id [OF assms(3)])
  show "survives s (store_window (s\<lparr>cs_focus := f\<rparr>) w')" for f
  proof (cases "win_id w = win_id (cs_window s)")
    case True
    then have "w = cs_window s" using distinct_keyD [OF di assms(2) c] by blast
    then have "survives s (s\<lparr>cs_window := w'\<rparr>)" using survives_window [OF assms(1)] assms by simp
    moreover have "all_tabs (store_window (s\<lparr>cs_focus := f\<rparr>) w') = all_tabs (s\<lparr>cs_window := w'\<rparr>)"
      using w' True by (simp add: store_window_def all_tabs_def state_windows_def cong: if_cong)
    ultimately show ?thesis by (simp add: survives_def)
  next
    case False
    have "all_tabs (store_window (s\<lparr>cs_focus := f\<rparr>) w') = all_tabs (set_pending (store_window (s\<lparr>cs_window := cs_window s, cs_focus := f\<rparr>) w') [])"
      using w' False by (simp add: store_window_def all_tabs_def state_windows_def set_pending_def cong: if_cong)
    then have new: "set (all_tabs (store_window (s\<lparr>cs_focus := f\<rparr>) w')) =
        (\<Union>u \<in> set (windows (cs_layout s)) - {cs_window s, w}. set (window_views u)) \<union> set (window_views (cs_window s)) \<union> set (window_views w')"
      using all_tabs_two_windows [OF assms(1,2) False refl w', of f "[]"] by simp
    have old: "set (all_tabs s) =
        (\<Union>u \<in> set (windows (cs_layout s)) - {cs_window s, w}. set (window_views u)) \<union> set (window_views (cs_window s)) \<union> set (window_views w)"
      using assms(2) c by (auto simp: set_all_tabs state_windows_started [OF assms(1)])
    have "view_id v \<in> view_id ` set (window_views w')" if "v \<in> set (window_views w)" "reserved s (view_id v)" for v
      using assms(4) that by (simp add: keeps_reserved_def view_ids_def reserved_def)
    then show ?thesis unfolding survives_def new old by blast
  qed
  from this [of "cs_focus s"] show "survives s (store_window s w')" by simp
qed

lemma open_existing_survives:
  assumes "started s" "w \<in> set (windows (cs_layout s))" "p \<in> set (panes w)" "t \<in> set (pane_views p)"
    and "open_existing s v w p t = Inr s'"
  shows "survives s s'"
proof -
  obtain u q w1 w2 where *: "reopen_view s t v = Inr u" "store_view p u = Inr q" "store_pane w q = Inr w1"
      "navigate (cs_layout s) w1 (pane_id q) (view_id u) = Inr w2"
      "s' = store_window (if win_id w2 \<noteq> win_id (cs_window s) then s\<lparr>cs_focus := Some (win_id w2)\<rparr> else s) w2"
    using assms(5) unfolding open_existing_def Let_def by (elim rbindE) auto
  note vl = started_facts(1) [OF assms(1)]
  have "keeps_reserved (cs_layout s) w w2"
    by (rule keeps_reserved_trans [OF store_view_keeps [OF assms(3) valid_layout_facts(1) [OF vl assms(2)]
          valid_pane_facts(1) [OF vl assms(2,3)] assms(4) reopen_view_id [OF *(1)] *(2,3)] navigate_keeps [OF *(4)]])
  moreover have "win_core w2 = win_core w" using * by (auto dest!: core_rules)
  ultimately show ?thesis unfolding *(5) using survives_other_window [OF assms(1,2)] by simp
qed

lemma set_first_other: "x \<in> set xs \<Longrightarrow> \<not> P x \<Longrightarrow> x \<in> set (set_first P y xs)"
  by (induction xs) auto

lemma open_in_pane_survives:
  assumes "started s" "open_in_pane s v r i = Inr s'"
  shows "survives s s'"
proof -
  obtain g x q w w2 where *: "pane_by_id (cs_window s) i = Inr g" "add_or_replace s v x g = Inr q"
      "store_pane (cs_window s) q = Inr w" "navigate (cs_layout s) w (pane_id q) (view_id v) = Inr w2" "s' = s\<lparr>cs_window := w2\<rparr>"
    using assms(2) unfolding open_in_pane_def by (elim rbindE) (auto simp: set_window_Inr)
  have g: "g \<in> set (panes (cs_window s))" using pane_by_id_Inr [OF *(1)] by simp
  have id: "pane_id q = pane_id g" using *(2) by (auto simp: add_or_replace_def split: option.splits if_splits)
  have "keeps_reserved (cs_layout s) (cs_window s) w"
  proof (rule store_pane_keeps [OF *(3)])
    show "find (\<lambda>p. pane_id p = pane_id q) (panes (cs_window s)) = Some g"
      unfolding id by (rule find_distinct [OF started_facts(3) [OF assms(1)] g])
    fix u assume u: "u \<in> set (pane_views g)" "reserved_in (cs_layout s) (view_id u)"
    have "u \<in> set (pane_views q)"
    proof (cases x)
      case None
      then show ?thesis using *(2) u(1) by (auto simp: add_or_replace_def pane_views_def)
    next
      case (Some t)
      then have "q = g\<lparr>tabs := set_first (\<lambda>u. view_id u = view_id t) v (tabs g)\<rparr>" "view_id u \<noteq> view_id t"
        using *(2) u(2) by (auto simp: add_or_replace_def reserved_def split: if_splits)
      then show ?thesis using u(1) set_first_other [of u "tabs g"] by (auto simp: pane_views_def)
    qed
    then show "view_id u \<in> view_id ` set (pane_views q)" by simp
  qed
  then have "keeps_reserved (cs_layout s) (cs_window s) w2"
    by (rule keeps_reserved_trans [OF _ navigate_keeps [OF *(4)]])
  moreover have "win_core w2 = win_core (cs_window s)" using * by (auto dest!: core_rules)
  ultimately show ?thesis unfolding *(5) by (intro survives_window assms(1))
qed

lemma open_new_pane_survives:
  assumes "started s" "open_new_pane s v r i g sid = Inr s'"
  shows "survives s s'"
proof -
  obtain w w2 where *: "panes w = panes (cs_window s) @ [new_pane i g v]" "win_core w = win_core (cs_window s)"
      "navigate (cs_layout s) w i (view_id v) = Inr w2" "s' = s\<lparr>cs_window := w2\<rparr>"
  proof -
    define w where "w = (if g = Center then (cs_window s)\<lparr>panes := panes (cs_window s) @ [new_pane i g v], center_root := Some (case center_root (cs_window s) of
        None \<Rightarrow> Leaf i | Some rt \<Rightarrow> Split sid Horizontal (1 / 2) rt (Leaf i))\<rparr> else (cs_window s)\<lparr>panes := panes (cs_window s) @ [new_pane i g v]\<rparr>)"
    have "set_window s (navigate (cs_layout s) w i (view_id v)) = Inr s'"
      using assms(2) by (auto simp: open_new_pane_def Let_def w_def split: if_splits)
    then obtain w2 where "navigate (cs_layout s) w i (view_id v) = Inr w2" "s' = s\<lparr>cs_window := w2\<rparr>"
      by (auto simp: set_window_Inr)
    then show thesis using that [of w w2] by (simp add: w_def)
  qed
  have "keeps_reserved (cs_layout s) (cs_window s) w2"
    by (rule keeps_reserved_trans [OF keeps_reserved_subset navigate_keeps [OF *(3)]]) (auto simp: view_ids_def set_window_views *(1))
  then show ?thesis unfolding *(4)
    by (intro survives_window assms(1)) (use *(2) navigate_core [OF *(3)] in simp)
qed

lemma act_open_survives: "started s \<Longrightarrow> act_open s v r g = Inr s' \<Longrightarrow> survives s s'"
  by (auto simp: act_open_def state_windows_started split: option.splits open_target.splits
      dest!: find_resource_Some intro: open_existing_survives open_in_pane_survives open_new_pane_survives)

lemma act_open_conversation_survives:
  assumes "started s" "act_open_conversation s e v i n sid = Inr s'" "distinct (map pane_id (panes (cs_window s')))"
  shows "survives s s'"
proof (cases "find_resource (state_windows s) v")
  case (Some x)
  obtain w p t where x: "x = (w, p, t)" by (cases x)
  then have m: "w \<in> set (windows (cs_layout s))"
    using Some find_resource_Some assms(1) by (auto simp: state_windows_started)
  obtain w' where w': "focus w (pane_id p) (Some (view_id t)) = Inr w'"
      "s' = store_window (if win_id w' \<noteq> win_id (cs_window s) then s\<lparr>cs_focus := Some (win_id w')\<rparr> else s) w'"
    using assms(2) Some x unfolding act_open_conversation_def Let_def by (auto elim!: rbindE)
  show ?thesis
    unfolding w'(2) using survives_other_window [OF assms(1) m focus_core [OF w'(1)] focus_keeps [OF w'(1)]] by simp
next
  case None
  obtain g w p w1 w2 where g: "conversation_target (cs_window s) i = Inr g" "conversation_pane (cs_window s) g n sid = Inr (w, p)"
    and r: "\<not> (\<exists>i. direct_id p = Some i \<and> reserved s i)"
      "store_pane w (p\<lparr>conversation_view := Some (Some v)\<rparr>) = Inr w1" "focus w1 (pane_id p) (Some (view_id v)) = Inr w2"
      "s' = s\<lparr>cs_window := w2\<rparr>"
    using assms(2) None by (rule open_conversationE)
  have "set_option g \<subseteq> set (panes (cs_window s))"
    using conversation_target_member [of "cs_window s" i] g(1) by (cases g) auto
  then have "p \<in> set (panes w)" "set (panes (cs_window s)) \<subseteq> set (panes w)" "win_core w = win_core (cs_window s)"
    using conversation_pane_Inr [OF g(2)] by auto
  note * = this r
  have ids: "map pane_id (panes w2) = map pane_id (panes w)"
    using focus_ids [OF *(6)] store_pane_ids [OF *(5)] by simp
  have "keeps_reserved (cs_layout s) w w1"
  proof (rule store_pane_keeps [OF *(5)])
    show "find (\<lambda>q. pane_id q = pane_id (p\<lparr>conversation_view := Some (Some v)\<rparr>)) (panes w) = Some p"
      using find_distinct [OF _ *(1), of pane_id] assms(3) ids *(7) by simp
    fix u assume u: "u \<in> set (pane_views p)" "reserved_in (cs_layout s) (view_id u)"
    then have "direct_id p \<noteq> Some (view_id u)" using *(4) by (auto simp: reserved_def)
    then have "u \<in> set (tabs p)" using view_not_direct u(1) by blast
    then show "view_id u \<in> view_id ` set (pane_views (p\<lparr>conversation_view := Some (Some v)\<rparr>))"
      by (auto simp: pane_views_def)
  qed
  moreover have "keeps_reserved (cs_layout s) (cs_window s) w"
    by (rule keeps_reserved_subset) (use *(2) in \<open>auto simp: view_ids_def set_window_views\<close>)
  ultimately have "keeps_reserved (cs_layout s) (cs_window s) w2"
    using keeps_reserved_trans focus_keeps [OF *(6)] by blast
  moreover have "win_core w2 = win_core (cs_window s)" using * by (auto dest!: core_rules)
  ultimately show ?thesis unfolding *(7) by (intro survives_window assms(1))
qed

lemma survives_imports:
  assumes "survives s (s\<lparr>cs_window := w\<rparr>)"
  shows "survives s (s\<lparr>cs_window := w, cs_layout := (cs_layout s)\<lparr>code_imports := cs\<rparr>\<rparr>)"
  using assms by (simp add: survives_def all_tabs_def state_windows_def cong: if_cong)

lemma splice_after_set: "set (splice_after i ys xs) = set xs \<union> set ys"
  unfolding splice_after_def by (metis append_take_drop_id set_append sup_assoc sup_commute)

lemma splice_files_keeps:
  assumes "started s" "p \<in> set (panes (cs_window s))" "splice_files p v i fs = Inr q" "store_pane (cs_window s) q = Inr w"
  shows "keeps_reserved (cs_layout s) (cs_window s) w"
proof (rule store_pane_keeps [OF assms(4)])
  note q = splice_files_Inr [OF assms(3)]
  show "find (\<lambda>u. pane_id u = pane_id q) (panes (cs_window s)) = Some p"
    using find_distinct [OF started_facts(3) [OF assms(1)] assms(2)] q by simp
  show "view_id u \<in> view_id ` set (pane_views q)" if "u \<in> set (pane_views p)" for u
    using that q by (auto simp: pane_views_def splice_after_set)
qed

lemma act_migrate_code_files_survives:
  assumes "started s" "act_migrate_code_files s t c vs = Inr s'"
  shows "survives s s'"
  using assms(2)
proof (cases rule: migrate_code_filesE)
  case replayed
  then show ?thesis by (simp add: survives_views)
next
  case (stored p v i fs q w cs)
  have "survives s (s\<lparr>cs_window := w\<rparr>)"
    using splice_files_keeps [OF assms(1) _ stored(2,3)] tab_by_id_Inr [OF stored(1)]
    by (intro survives_window [OF assms(1) store_pane_core [OF stored(3)]]) blast
  then show ?thesis unfolding stored(4) by (rule survives_imports)
next
  case (focused p v i fs q w x w2 cs)
  have "keeps_reserved (cs_layout s) (cs_window s) w"
    using splice_files_keeps [OF assms(1) _ focused(2,3)] tab_by_id_Inr [OF focused(1)] by blast
  then have "keeps_reserved (cs_layout s) (cs_window s) w2"
    by (rule keeps_reserved_trans [OF _ focus_keeps [OF focused(4)]])
  then have "survives s (s\<lparr>cs_window := w2\<rparr>)"
    by (intro survives_window [OF assms(1)]) (use store_pane_core [OF focused(3)] focus_core [OF focused(4)] in simp)
  then show ?thesis unfolding focused(5) by (rule survives_imports)
qed

lemma act_migrate_explorer_file_survives:
  assumes "started s" "act_migrate_explorer_file s t e d m vs = Inr s'"
  shows "survives s s'"
proof -
  obtain p v i w where m: "tab_by_id (cs_window s) t = Inr (p, v)"
      "find_index_of (\<lambda>t. view_id t = view_id v) (tabs p) = Some i"
      "store_pane (cs_window s) (p\<lparr>tabs := splice_after i (map (\<lambda>lv. file_view lv (dock_presentation v)) vs)
        ((tabs p)[i := v\<lparr>view_resource := Entity ''project.file'' d, file_mode := Some m, view_title := None\<rparr>])\<rparr>) = Inr w"
      "s' = s\<lparr>cs_window := w\<rparr>"
    using assms(2) by (auto simp: act_migrate_explorer_file_def Let_def set_window_Inr split: if_splits option.splits elim!: rbindE)
  define u where "u = v\<lparr>view_resource := Entity ''project.file'' d, file_mode := Some m, view_title := None\<rparr>"
  define fs where "fs = map (\<lambda>lv. file_view lv (dock_presentation v)) vs"
  have "view_id u = view_id v" by (simp add: u_def)
  note * = m(1) this m(2) m(3) [folded u_def fs_def] m(4)
  note i = find_index_of_Some [OF *(3)]
  have "map view_id ((tabs p)[i := u]) = map view_id (tabs p)"
    using i *(2) by (simp add: map_update list_update_same_conv)
  then have "view_id ` set ((tabs p)[i := u]) = view_id ` set (tabs p)" by (metis set_map)
  then have "view_id ` set (pane_views p) \<subseteq> view_id ` set (pane_views (p\<lparr>tabs := splice_after i fs ((tabs p)[i := u])\<rparr>))"
    by (auto simp: pane_views_def splice_after_set image_Un)
  then have "keeps_reserved (cs_layout s) (cs_window s) w"
    using store_pane_keeps [OF *(4), of p "cs_layout s"] find_distinct [OF started_facts(3) [OF assms(1)]] tab_by_id_Inr [OF *(1)]
    by auto
  then show ?thesis unfolding *(5) by (intro survives_window [OF assms(1) store_pane_core [OF *(4)]])
qed

lemma windows_retire_staged:
  "windows (cs_layout (retire_staged s ts)) =
     filter (\<lambda>w. \<forall>t \<in> set ts. \<not> truthy (tr_return_split t) \<longrightarrow> win_id w \<noteq> tr_destination_window t) (windows (cs_layout s)) \<and>
   cs_window (retire_staged s ts) = cs_window s"
  unfolding retire_staged_def
  by (induction ts arbitrary: s) (auto simp: retire_def intro: filter_cong)

lemma staged_empty:
  assumes "started s" "t \<in> set (pending s)" "\<not> truthy (tr_return_split t)" "w \<in> set (windows (cs_layout s))"
    "win_id w = tr_destination_window t"
  shows "window_views w = []"
proof -
  have "transfer_ok (cs_layout s) t"
    using started_facts(1) [OF assms(1)] assms(2)
    by (auto simp: valid_layout_def ownership_ok_def transfers_ok_def Let_def pending_def)
  moreover have "find (\<lambda>w. win_id w = tr_destination_window t) (windows (cs_layout s)) = Some w"
    using find_distinct [OF started_window_ids [OF assms(1)] assms(4)] assms(5) by simp
  ultimately have "panes w = []" using assms(3) by (auto simp: transfer_ok_def split: option.splits if_splits)
  then show ?thesis by (simp add: window_views_def)
qed

lemma retire_views:
  assumes "started s" "win_id w = win_id (cs_window s)" "window_views w = window_views (cs_window s)"
    and "set ts \<subseteq> set (pending s)"
    and "windows l = windows (cs_layout (retire_staged s ts))"
  shows "set (all_tabs (s'\<lparr>cs_layout := l, cs_window := w\<rparr>)) = set (all_tabs s)"
proof -
  let ?keep = "\<lambda>w. \<forall>t \<in> set ts. \<not> truthy (tr_return_split t) \<longrightarrow> win_id w \<noteq> tr_destination_window t"
  have drop: "set (window_views u) = {}" if "u \<in> set (windows (cs_layout s))" "\<not> ?keep u" for u
    using staged_empty [OF assms(1)] that assms(4) by fastforce
  have ws: "set (state_windows (s'\<lparr>cs_layout := l, cs_window := w\<rparr>)) =
      (\<lambda>u. if u = cs_window s then w else u) ` {u \<in> set (windows (cs_layout s)). ?keep u}"
  proof -
    have "win_id u = win_id (cs_window s) \<longleftrightarrow> u = cs_window s" if "u \<in> set (windows (cs_layout s))" for u
      using distinct_keyD [OF started_window_ids [OF assms(1)] that started_facts(2) [OF assms(1)]] by blast
    then show ?thesis
      using windows_retire_staged [of s ts] by (auto simp: state_windows_def assms(2,5) intro!: image_cong)
  qed
  have "window_views (if u = cs_window s then w else u) = window_views u" for u using assms(3) by simp
  then have "set (all_tabs (s'\<lparr>cs_layout := l, cs_window := w\<rparr>)) =
      (\<Union>u \<in> {u \<in> set (windows (cs_layout s)). ?keep u}. set (window_views u))"
    unfolding set_all_tabs ws image_image by simp
  also have "\<dots> = (\<Union>u \<in> set (windows (cs_layout s)). set (window_views u))"
  proof -
    have "x \<in> (\<Union>u \<in> {u \<in> set (windows (cs_layout s)). ?keep u}. set (window_views u))"
      if "u \<in> set (windows (cs_layout s))" "x \<in> set (window_views u)" for u x
    proof (rule UN_I)
      show "u \<in> {u \<in> set (windows (cs_layout s)). ?keep u}"
        unfolding mem_Collect_eq using drop [of u] that by (metis empty_iff)
    qed (fact that(2))
    then show ?thesis by blast
  qed
  finally show ?thesis unfolding set_all_tabs state_windows_started [OF assms(1)] .
qed


lemma retire_as_staged:
  "cs_layout (set_pending (retire s i) ts) = (cs_layout s)\<lparr>windows := filter (\<lambda>w. win_id w \<noteq> i) (windows (cs_layout s)), pending_transfers := Some ts\<rparr>"
  "cs_window (set_pending (retire s i) ts) = cs_window s"
  by (simp_all add: set_pending_def retire_def)

lemma state_update_eta: "s = s\<lparr>cs_layout := cs_layout s, cs_window := cs_window s\<rparr>"
  by simp

lemma act_replace_attachment_views:
  assumes "started s" "act_replace_attachment s r = Inr s'"
  shows "set (all_tabs s') = set (all_tabs s)"
proof -
  let ?w = "cs_window s"
  consider "s' = s" | "s' = s\<lparr>cs_window := ?w\<lparr>renderer_id := Some r\<rparr>\<rparr>"
    | "s' = (set_pending (retire_staged s (filter (window_transfer (win_id ?w)) (pending s)))
         (filter (\<lambda>t. \<not> window_transfer (win_id ?w) t) (pending s)))\<lparr>cs_window :=
            ?w\<lparr>attachment_generation := attachment_generation ?w + 1, renderer_id := Some r\<rparr>\<rparr>"
    using assms(2) by (auto simp: act_replace_attachment_def Let_def split: if_splits)
  then show ?thesis
  proof cases
    case 2
    then show ?thesis
      using all_tabs_window [OF assms(1), of "?w\<lparr>renderer_id := Some r\<rparr>"] all_tabs_window [OF assms(1) refl]
      by (simp add: window_views_def)
  next
    case 3
    let ?t = "set_pending (retire_staged s (filter (window_transfer (win_id ?w)) (pending s)))
         (filter (\<lambda>t. \<not> window_transfer (win_id ?w) t) (pending s))"
    have "s' = ?t\<lparr>cs_layout := cs_layout ?t, cs_window := ?w\<lparr>attachment_generation := attachment_generation ?w + 1, renderer_id := Some r\<rparr>\<rparr>"
      using 3 by simp
    then show ?thesis
      by (simp only:) (rule retire_views [OF assms(1), where ts = "filter (window_transfer (win_id ?w)) (pending s)"],
        simp_all add: window_views_def set_pending_def)
  qed simp
qed

lemma act_cancel_transfer_views:
  assumes "started s" "act_cancel_transfer s i = Inr s'"
  shows "set (all_tabs s') = set (all_tabs s)"
proof -
  obtain t where t: "pending_by_id s i = Inr t"
      "s' = set_pending (if truthy (tr_return_split t) then s else retire s (tr_destination_window t)) (filter (\<lambda>u. tr_id u \<noteq> i) (pending s))"
    using assms(2) by (auto simp: act_cancel_transfer_def Let_def split: if_splits elim!: rbindE)
  have m: "t \<in> set (pending s)" using t(1) by (auto simp: pending_by_id_def dest: find_SomeD)
  have w: "windows (cs_layout s') = windows (cs_layout (retire_staged s [t]))" "cs_window s' = cs_window s"
    unfolding t(2) by (simp_all add: retire_staged_def set_pending_def retire_def)
  show ?thesis
    using retire_views [OF assms(1) refl refl _ w(1), of s'] m by (simp flip: w(2))
qed

lemma act_prepare_views:
  assumes "started s"
  shows "act_prepare_return s i p t d sid = Inr s' \<Longrightarrow> set (all_tabs s') = set (all_tabs s)"
    and "act_prepare_detach s i p t w e = Inr s' \<Longrightarrow> set (all_tabs s') = set (all_tabs s)"
proof -
  have p: "all_tabs (set_pending s ts) = all_tabs s" for ts
    by (simp add: set_pending_def all_tabs_def state_windows_def cong: if_cong)
  then show "act_prepare_return s i p t d sid = Inr s' \<Longrightarrow> set (all_tabs s') = set (all_tabs s)"
    by (auto simp: act_prepare_return_def simp del: set_concat elim!: rbindE split: if_splits)
  assume "act_prepare_detach s i p t w e = Inr s'"
  then obtain ts where ts: "\<forall>v \<in> set (windows (cs_layout s)). win_id v \<noteq> w"
      "s' = s\<lparr>cs_layout := (cs_layout s)\<lparr>windows := windows (cs_layout s) @ [\<lparr>win_id = w, attachment_generation = 0,
         renderer_id = None, panes = [], center_root = None, focused_pane = None, recent_panes = [], recent_tabs = None,
         return_placement = None\<rparr>], pending_transfers := ts\<rparr>\<rparr>"
    using assms unfolding act_prepare_detach_def Let_def
    by (elim rbindE) (auto simp: state_windows_started split: if_splits elim!: rbindE)
  define u where "u = \<lparr>win_id = w, attachment_generation = 0, renderer_id = None, panes = [], center_root = None,
      focused_pane = None, recent_panes = [], recent_tabs = None, return_placement = None\<rparr>"
  have s': "\<forall>v \<in> set (windows (cs_layout s)). win_id v \<noteq> win_id u" "panes u = []"
      "s' = s\<lparr>cs_layout := (cs_layout s)\<lparr>windows := windows (cs_layout s) @ [u], pending_transfers := ts\<rparr>\<rparr>"
    using ts by (simp_all add: u_def)
  then have "win_id u \<noteq> win_id (cs_window s)" using started_facts(2) [OF assms] by auto
  then show "set (all_tabs s') = set (all_tabs s)"
    using s'(2) unfolding s'(3) by (simp add: all_tabs_def state_windows_def window_views_def cong: if_cong)
qed

lemma act_phase_views:
  "act_transfer_ready s i = Inr s' \<Longrightarrow> all_tabs s' = all_tabs s"
  "act_transfer_state_ready s i = Inr s' \<Longrightarrow> all_tabs s' = all_tabs s"
  by (auto simp: act_transfer_ready_def act_transfer_state_ready_def store_transfer_def set_pending_def all_tabs_def
      state_windows_def split: if_splits elim!: rbindE cong: if_cong)

fun closes :: "action \<Rightarrow> bool" where
  "closes (CloseTab _) = True"
| "closes (ClosePane _) = True"
| "closes (CloseConversation _) = True"
| "closes _ = False"

lemma dispatch_survives:
  assumes "started s" "dispatch s a = Inr s'" "\<not> closes a"
    and "rearranges a \<or> opens_conversation a \<Longrightarrow> distinct (map pane_id (panes (cs_window s')))"
  shows "survives s s'"
proof (cases "rearranges a")
  case True
  then show ?thesis using rearranges_views [OF assms(1,2)] assms(4) by (intro survives_views) blast
next
  case False
  show ?thesis
  proof (cases a)
    case (Pin t)
    then show ?thesis
      using assms(2) by (simp add: act_pin_def) (erule act_update_view_survives [OF assms(1)], auto)
  next
    case (FileMode t m)
    then show ?thesis
      using assms(2) by (simp add: act_file_mode_def) (erule act_update_view_survives [OF assms(1)], auto split: if_splits)
  next
    case (DockPresentation t d)
    then show ?thesis
      using assms(2) by (simp add: act_dock_presentation_def) (erule act_update_view_survives [OF assms(1)], auto split: if_splits)
  next
    case (TransferReady t)
    then show ?thesis using assms(2) act_phase_views by (simp add: survives_def)
  next
    case (TransferStateReady t)
    then show ?thesis using assms(2) act_phase_views by (simp add: survives_def)
  next
    case (PrepareReturn i p t d sid)
    then show ?thesis using assms(1,2) by (intro survives_views) (simp add: act_prepare_views)
  next
    case (PrepareDetach i p t w e)
    then show ?thesis using assms(1,2) by (intro survives_views) (simp add: act_prepare_views)
  next
    case (CommitTransfer t)
    then show ?thesis using assms(1,2) by (intro survives_views) (simp add: act_commit_transfer_views)
  next
    case (CancelTransfer t)
    then show ?thesis using assms(1,2) by (intro survives_views) (simp add: act_cancel_transfer_views)
  next
    case (ReplaceAttachment r)
    then show ?thesis using assms(1,2) by (intro survives_views) (simp add: act_replace_attachment_views)
  next
    case (OpenConversation e v p n sid)
    then show ?thesis using assms act_open_conversation_survives by simp
  next
    case (MigrateCodeFiles t c vs)
    then show ?thesis using assms act_migrate_code_files_survives by simp
  next
    case (MigrateExplorerFile t e d m vs)
    then show ?thesis using assms act_migrate_explorer_file_survives by simp
  next
    case (SelectTab t)
    then show ?thesis using assms act_select_survives by simp
  next
    case (MoveTab t p k)
    then show ?thesis using assms act_move_survives by simp
  next
    case (OpenView v r g)
    then show ?thesis using assms act_open_survives by simp
  qed (use False assms(3) in simp_all)
qed

end
