(* ===== verification/WorkspaceProperties.thy ===== *)
theory WorkspaceProperties
  imports WorkspaceViews "HOL-Library.Multiset"
begin

text \<open>
  The properties of the device workspace: the executor never aborts, every accepted command is one
  revision, stale commands are refused, views are conserved, reserved views survive, and transfers
  follow their protocol. The layouts named \<open>demo\<close> are the concrete inputs of the witnesses.
\<close>

section \<open>Pending transfers\<close>

lemma pending_simps [simp]:
  "pending (set_pending s ts) = ts"
  "pending (s\<lparr>cs_layout := (cs_layout s)\<lparr>windows := ws, pending_transfers := Some ts\<rparr>\<rparr>) = ts"
  "pending (s\<lparr>cs_window := w\<rparr>) = pending s"
  "pending (s\<lparr>cs_focus := f\<rparr>) = pending s"
  "pending (retire s i) = pending s"
  "pending (store_window s w) = pending s"
  by (simp_all add: pending_def set_pending_def retire_def store_window_def json_values_def)

lemma pending_store_window [simp]: "pending_transfers (cs_layout (store_window s w)) = pending_transfers (cs_layout s)"
  by (simp add: store_window_def)

fun transfers_action :: "action \<Rightarrow> bool" where
  "transfers_action (ReplaceAttachment _) = True"
| "transfers_action (PrepareReturn _ _ _ _ _) = True"
| "transfers_action (PrepareDetach _ _ _ _ _) = True"
| "transfers_action (TransferReady _) = True"
| "transfers_action (TransferStateReady _) = True"
| "transfers_action (CommitTransfer _) = True"
| "transfers_action (CancelTransfer _) = True"
| "transfers_action _ = False"

lemma view_actions_pending:
  "act_home s = Inr s' \<Longrightarrow> pending_transfers (cs_layout s') = pending_transfers (cs_layout s)"
  "act_select s t = Inr s' \<Longrightarrow> pending_transfers (cs_layout s') = pending_transfers (cs_layout s)"
  "act_close_tab s t = Inr s' \<Longrightarrow> pending_transfers (cs_layout s') = pending_transfers (cs_layout s)"
  "act_close_pane s t = Inr s' \<Longrightarrow> pending_transfers (cs_layout s') = pending_transfers (cs_layout s)"
  "act_update_view s t f = Inr s' \<Longrightarrow> pending_transfers (cs_layout s') = pending_transfers (cs_layout s)"
  "act_rename_pane s t x = Inr s' \<Longrightarrow> pending_transfers (cs_layout s') = pending_transfers (cs_layout s)"
  "act_reorder s t ids = Inr s' \<Longrightarrow> pending_transfers (cs_layout s') = pending_transfers (cs_layout s)"
  "act_move s t i k = Inr s' \<Longrightarrow> pending_transfers (cs_layout s') = pending_transfers (cs_layout s)"
  "act_close_conversation s t = Inr s' \<Longrightarrow> pending_transfers (cs_layout s') = pending_transfers (cs_layout s)"
  by (auto simp: act_home_def act_select_def act_close_tab_def act_close_pane_def act_update_view_def act_rename_pane_def
      act_reorder_def act_move_def act_close_conversation_def set_window_Inr Let_def elim!: rbindE split: if_splits)

lemma layout_actions_pending:
  "act_reorder_panes s r ids = Inr s' \<Longrightarrow> pending_transfers (cs_layout s') = pending_transfers (cs_layout s)"
  "act_resize s sid f = Inr s' \<Longrightarrow> pending_transfers (cs_layout s') = pending_transfers (cs_layout s)"
  "act_move_new_pane s t i r k sid = Inr s' \<Longrightarrow> pending_transfers (cs_layout s') = pending_transfers (cs_layout s)"
  "act_split s t i n sid e f = Inr s' \<Longrightarrow> pending_transfers (cs_layout s') = pending_transfers (cs_layout s)"
  subgoal by (cases r; cases "center_root (cs_window s)")
     (auto simp: act_reorder_panes_def Let_def split: if_splits option.splits elim!: rbindE)
  subgoal by (auto simp: act_resize_def split: option.splits prod.splits bool.splits)
  subgoal unfolding act_move_new_pane_def Let_def
    by (elim rbindE) (auto simp: set_window_Inr split: if_splits elim!: rbindE)
  subgoal unfolding act_split_def Let_def
    by (elim rbindE) (auto simp: set_window_Inr split: if_splits option.splits elim!: rbindE)
  done

lemma open_actions_pending:
  "act_open s v r g = Inr s' \<Longrightarrow> pending_transfers (cs_layout s') = pending_transfers (cs_layout s)"
  "act_open_conversation s e v i n sid = Inr s' \<Longrightarrow> pending_transfers (cs_layout s') = pending_transfers (cs_layout s)"
  "act_migrate_code_files s t c vs = Inr s' \<Longrightarrow> pending_transfers (cs_layout s') = pending_transfers (cs_layout s)"
  "act_migrate_explorer_file s t e' d m vs = Inr s' \<Longrightarrow> pending_transfers (cs_layout s') = pending_transfers (cs_layout s)"
  subgoal
    unfolding act_open_def open_existing_def open_in_pane_def open_new_pane_def Let_def
    by (auto simp: set_window_Inr split: option.splits open_target.splits if_splits elim!: rbindE)
  subgoal
    unfolding act_open_conversation_def Let_def
    by (auto simp: set_window_Inr split: option.splits elim!: rbindE)
  subgoal by (erule migrate_code_filesE) auto
  subgoal by (auto simp: act_migrate_explorer_file_def set_window_Inr Let_def elim!: rbindE split: if_splits option.splits)
  done

lemma dispatch_pending:
  "dispatch s a = Inr s' \<Longrightarrow> \<not> transfers_action a \<Longrightarrow> pending_transfers (cs_layout s') = pending_transfers (cs_layout s)"
  by (cases a) (auto simp: act_pin_def act_file_mode_def act_dock_presentation_def
      dest: view_actions_pending layout_actions_pending open_actions_pending)

definition phase_step :: "window \<Rightarrow> action \<Rightarrow> transfer \<Rightarrow> transfer \<Rightarrow> bool" where
  "phase_step w a t t' \<longleftrightarrow>
     win_id w = tr_destination_window t \<and>
     (a = TransferReady (tr_id t) \<and> tr_phase t = Preparing \<and> t' = t\<lparr>tr_phase := DestinationReady\<rparr> \<or>
      a = TransferStateReady (tr_id t) \<and> tr_phase t \<noteq> Preparing \<and> t' = t\<lparr>tr_phase := StateReady\<rparr>)"

lemma dispatch_transfer_step:
  assumes s: "started s" and d: "dispatch s a = Inr s'"
    and t: "t \<in> set (pending s)" "t' \<in> set (pending s')" "tr_id t' = tr_id t"
  shows "t' = t \<or> phase_step (cs_window s) a t t'"
proof -
  have di: "distinct (map tr_id (pending s))"
    using started_facts(1) [OF s] by (simp add: valid_layout_def ownership_ok_def transfers_ok_def Let_def pending_def)
  have old: "t' = t" if "t' \<in> set (pending s)" using distinct_keyD [OF di that t(1) t(3)] .
  have ph: "t = u \<and> t' = u' \<or> t' = t"
    if u: "pending_by_id s i = Inr u" "tr_id u' = tr_id u" "s' = store_transfer s u'" for i u u'
  proof -
    have f: "find (\<lambda>t. tr_id t = tr_id u') (pending s) = Some u" "u \<in> set (pending s)"
      using u(1,2) by (auto simp: pending_by_id_def dest: find_SomeD)
    have p: "pending s' = map (\<lambda>q. if tr_id q = tr_id u' then u' else q) (pending s)"
      using set_first_map [OF di f(2), of "tr_id u'" u'] u(2,3) by (simp add: store_transfer_def)
    then have "t' = u' \<or> t' \<in> set (pending s)" using t(2) by (auto split: if_splits)
    then show ?thesis using old distinct_keyD [OF di t(1) f(2)] t(3) u(2) by auto
  qed
  show ?thesis
  proof (cases "transfers_action a")
    case False
    then have "pending s' = pending s" using dispatch_pending [OF d] by (simp add: pending_def)
    then show ?thesis using old t(2) by simp
  next
    case True
    then show ?thesis
    proof (cases a)
      case (ReplaceAttachment r)
      have "set (pending s') \<subseteq> set (pending s)"
        using d ReplaceAttachment by (auto simp: act_replace_attachment_def Let_def split: if_splits)
      then show ?thesis using old t(2) by blast
    next
      case (PrepareReturn i p tab dp sid)
      then have "\<exists>x. pending s' = pending s @ [x] \<and> tr_id x = i" "\<forall>t \<in> set (pending s). tr_id t \<noteq> i"
        using d by (auto simp: act_prepare_return_def transfer_in_use_def split: if_splits elim!: rbindE)
      then show ?thesis using t old by (metis Un_iff empty_iff insert_iff list.set set_append)
    next
      case (PrepareDetach i p tab w e)
      then have "\<exists>x. pending s' = pending s @ [x] \<and> tr_id x = i" "\<forall>t \<in> set (pending s). tr_id t \<noteq> i"
        using d by (auto simp: act_prepare_detach_def transfer_in_use_def Let_def split: if_splits elim!: rbindE)
      then show ?thesis using t old by (metis Un_iff empty_iff insert_iff list.set set_append)
    next
      case (TransferReady i)
      then obtain u where u: "pending_by_id s i = Inr u" "tr_destination_window u = win_id (cs_window s)"
          "s' = store_transfer s (if tr_phase u = Preparing then u\<lparr>tr_phase := DestinationReady\<rparr> else u)"
        using d by (auto simp: act_transfer_ready_def split: if_splits elim!: rbindE)
      have "tr_id u = i" using u(1) by (auto simp: pending_by_id_def dest: find_SomeD)
      then show ?thesis using ph [OF u(1) _ u(3)] u(2) TransferReady by (auto simp: phase_step_def split: if_splits)
    next
      case (TransferStateReady i)
      then obtain u where u: "pending_by_id s i = Inr u" "tr_destination_window u = win_id (cs_window s)" "tr_phase u \<noteq> Preparing"
          "s' = store_transfer s (u\<lparr>tr_phase := StateReady\<rparr>)"
        using d by (auto simp: act_transfer_state_ready_def split: if_splits elim!: rbindE)
      have "tr_id u = i" using u(1) by (auto simp: pending_by_id_def dest: find_SomeD)
      then show ?thesis using ph [OF u(1) _ u(4)] u(2,3) TransferStateReady by (auto simp: phase_step_def)
    next
      case (CommitTransfer i)
      have "set (pending s') \<subseteq> set (pending s)"
        using d CommitTransfer
        by (auto simp: act_commit_transfer_def Let_def split: if_splits elim!: rbindE)
      then show ?thesis using old t(2) by blast
    next
      case (CancelTransfer i)
      have "set (pending s') \<subseteq> set (pending s)"
        using d CancelTransfer
        by (auto simp: act_cancel_transfer_def Let_def split: if_splits elim!: rbindE)
      then show ?thesis using old t(2) by blast
    qed simp_all
  qed
qed

definition demo_view :: "string \<Rightarrow> string \<Rightarrow> view" where
  "demo_view i r =
     \<lparr>view_id = i, view_resource = Entity ''project.terminal'' r, preview = False, file_mode = None, file_viewer = None,
      view_title = None, built_in_state = None, dock_presentation = None\<rparr>"

definition demo_pane :: pane where
  "demo_pane =
     \<lparr>pane_id = ''a'', pane_region = Center, pane_title = None, tabs = [demo_view ''t'' ''x'', demo_view ''u'' ''y''],
      active_tab = Some ''t'', conversation_view = None, pane_selection = None\<rparr>"

definition demo_transfer :: transfer where
  "demo_transfer =
     \<lparr>tr_id = ''r'', tr_source_window = ''m'', tr_source_generation = 0, tr_source_pane = ''a'',
      tr_placement = \<lparr>pane_position = 0, tab_position = 0, placed_kind = None, placed_region = Center,
        placed_root = Some (Leaf ''a'')\<rparr>,
      tr_tabs = [''t''], tr_whole_pane = False, tr_destination_window = ''d'', tr_destination_generation = 0,
      tr_destination_pane = ''b'', tr_return_split = None, tr_phase = StateReady\<rparr>"

definition demo_window :: "string \<Rightarrow> pane list \<Rightarrow> window" where
  "demo_window i ps =
     \<lparr>win_id = i, attachment_generation = 0, renderer_id = None, panes = ps,
      center_root = (case ps of [] \<Rightarrow> None | p # _ \<Rightarrow> Some (Leaf (pane_id p))), focused_pane = None, recent_panes = [],
      recent_tabs = None, return_placement = None\<rparr>"

definition demo_layout :: "transfer list \<Rightarrow> layout" where
  "demo_layout ts =
     \<lparr>version = 1, lay_id = ''w'', project_id = ''p'', revision = 7, main_window = ''m'',
      windows = [demo_window ''m'' [demo_pane], demo_window ''d'' []], pending_transfers = Some ts,
      file_imports = None, code_imports = None\<rparr>"

definition demo_command :: "string \<Rightarrow> action \<Rightarrow> command" where
  "demo_command i a =
     \<lparr>operation_id = ''o'', cmd_workspace = ''w'', cmd_project = ''p'', cmd_window = i, cmd_generation = 0,
      expected_revision = 7, cmd_action = a\<rparr>"

lemmas demo_defs = demo_view_def demo_pane_def demo_transfer_def demo_window_def demo_layout_def demo_command_def

lemmas validity_defs = valid_layout_def layout_shape_def ownership_ok_def window_shape_def pane_shape_def view_shape_def
  view_ok_def resource_ok_def entity_definitions_def placement_shape_def transfer_shape_def ident_def truthy_def
  json_values_def direct_view_def direct_id_def pane_views_def window_views_def layout_views_def code_imports_ok_def
  window_ok_def pane_ok_def centers_def transfers_ok_def transfer_ok_def Let_def

lemmas executor_defs = apply_command_def begin_command_def finish_command_def finish_layout_def finish_window_def
  prune_recent_def normalize_window_def normalize_pane_def upgrade_def command_shape_def state_windows_def
  other_window_def store_window_def set_window_def tab_by_id_def pane_by_id_def focus_def focus_content_def
  navigate_def retire_conversation_def store_pane_def take_tab_def drop_tab_def remove_pane_def selected_view_id_def
  find_index_of_def head_option_def front_def insert_pane_def list_insert_at_def

lemma demo_valid: "valid_layout (demo_layout [demo_transfer])"
  by (simp add: demo_defs validity_defs)

lemma demo_commit_ok: "\<exists>out. apply_command (demo_layout [demo_transfer]) (demo_command ''m'' (CommitTransfer ''r'')) = Inr out"
  by (simp add: demo_defs validity_defs executor_defs act_commit_transfer_def pending_by_id_def pending_def commit_views_def
    original_placement_def moved_pane_def place_moved_def set_pending_def)

section \<open>Properties of the executor\<close>

text \<open>
  (C1) No command aborts: whatever the stored layout and the command, the executor returns a result
  or one of the command errors; none of the \<open>unwrap\<close>, \<open>expect\<close> and index operations of the
  actions can fail, because the layout was validated first.
\<close>
theorem apply_command_never_aborts: "apply_command l c \<noteq> Inl Panic"
  unfolding apply_command_execute by (rule ws.execute_safe)

text \<open>
  (C5) An accepted command is exactly one revision of the same workspace: the result satisfies the
  ownership contract, its revision is the successor of the one the command expected, and workspace,
  project and main window are unchanged.
\<close>
theorem apply_command_one_revision:
  assumes "apply_command l c = Inr out"
  shows "valid_layout (out_layout out) \<and> expected_revision c = revision l \<and>
    revision (out_layout out) = revision l + 1 \<and> lay_id (out_layout out) = lay_id l \<and>
    project_id (out_layout out) = project_id l \<and> main_window (out_layout out) = main_window l \<and>
    out_operation out = operation_id c"
proof -
  have "out_operation out = operation_id c"
    using assms by (auto simp: apply_command_def elim!: rbindE dest: finish_command_Inr)
  then show ?thesis using ws.execute_revision [OF assms [unfolded apply_command_execute]] by simp
qed

lemma witness_commit:
  obtains out where "apply_command (demo_layout [demo_transfer]) (demo_command ''m'' (CommitTransfer ''r'')) = Inr out"
  using demo_commit_ok by blast

theorem apply_command_one_revision_witness:
  "\<exists>out. apply_command (demo_layout [demo_transfer]) (demo_command ''m'' (CommitTransfer ''r'')) = Inr out \<and>
     revision (out_layout out) = revision (demo_layout [demo_transfer]) + 1"
proof -
  obtain out where "apply_command (demo_layout [demo_transfer]) (demo_command ''m'' (CommitTransfer ''r'')) = Inr out"
    by (rule witness_commit)
  with apply_command_one_revision [OF this] show ?thesis by blast
qed

text \<open>
  No lost update: once a command was accepted, every well-formed command of the same workspace
  that still expects the old revision is refused with the revision error.
\<close>
lemma stale_command_refused:
  assumes "apply_command l c = Inr out" "command_shape c'" "cmd_workspace c' = lay_id l" "cmd_project c' = project_id l"
    and "expected_revision c' = revision l"
  shows "apply_command (out_layout out) c' =
    Inl (CommandError CodeRevision ''Workspace revision changed; rebase the pending operation.'')"
proof -
  note e = ws.execute_revision [OF assms(1) [unfolded apply_command_execute]]
  have "begin_command (out_layout out) c' =
      Inl (CommandError CodeRevision ''Workspace revision changed; rebase the pending operation.'')"
    using e assms(2-5) by (simp add: begin_command_def Let_def upgrade_def)
  then show ?thesis by (simp add: apply_command_def)
qed

text \<open>The layouts a workspace goes through.\<close>

inductive layout_reaches :: "layout \<Rightarrow> layout \<Rightarrow> bool" for l where
  reaches_start: "layout_reaches l l"
| reaches_step: "layout_reaches l k \<Longrightarrow> apply_command k c = Inr out \<Longrightarrow> layout_reaches l (out_layout out)"

lemma layout_reaches_revision: "layout_reaches l k \<Longrightarrow> revision l \<le> revision k \<and> (revision k = revision l \<longrightarrow> k = l)"
proof (induction rule: layout_reaches.induct)
  case (reaches_step k c out)
  note ws.execute_revision [OF reaches_step(2) [unfolded apply_command_execute]]
  then show ?case using reaches_step.IH by simp
qed simp

text \<open>
  Along a history of accepted commands every layout is valid, belongs to the same workspace, and
  is determined by its revision: a client that holds the current revision holds the current layout.
\<close>
lemma revision_identifies_layout:
  assumes "layout_reaches l k" "valid_layout l"
  shows "valid_layout k \<and> lay_id k = lay_id l \<and> project_id k = project_id l \<and> main_window k = main_window l \<and>
    revision l \<le> revision k \<and> (revision k = revision l \<longrightarrow> k = l)"
  using assms
proof (induction rule: layout_reaches.induct)
  case (reaches_step k c out)
  note ws.execute_revision [OF reaches_step(2) [unfolded apply_command_execute]]
  then show ?case using reaches_step by simp
qed simp

section \<open>Properties of views and transfers\<close>

lemma valid_views_distinct: "valid_layout l \<Longrightarrow> distinct (layout_views l)"
  by (simp add: valid_layout_def ownership_ok_def distinct_map)

lemma apply_command_valid_input: "apply_command l c = Inr out \<Longrightarrow> valid_layout l"
  by (auto simp: apply_command_def begin_command_def elim!: rbindE split: if_splits)

lemma views_conserved:
  assumes "apply_command l c = Inr out" "set (layout_views (out_layout out)) = set (layout_views l)"
  shows "mset (layout_views (out_layout out)) = mset (layout_views l)"
  using assms valid_views_distinct apply_command_valid_input ws.execute_revision(1) [OF assms(1) [unfolded apply_command_execute]]
  by (simp add: set_eq_iff_mset_eq_distinct)

text \<open>
  (C2) A committed transfer moves views and nothing else: the views of the whole workspace before and
  after are the same, with multiplicities, whether a pane or a single view moves, to a new window or
  back into the main one.
\<close>
theorem commit_conserves_views:
  assumes "apply_command l c = Inr out" "cmd_action c = CommitTransfer t"
  shows "mset (layout_views (out_layout out)) = mset (layout_views l)"
proof (rule apply_commandE [OF assms(1)])
  fix s0 s
  assume "started s0" "dispatch s0 (cmd_action c) = Inr s" "layout_views l = all_tabs s0" "layout_views (out_layout out) = all_tabs s"
  then show ?thesis using act_commit_transfer_views assms(2) by (intro views_conserved [OF assms(1)]) simp
qed

theorem commit_conserves_views_witness:
  "\<exists>out. apply_command (demo_layout [demo_transfer]) (demo_command ''m'' (CommitTransfer ''r'')) = Inr out \<and>
     mset (layout_views (out_layout out)) = mset [demo_view ''t'' ''x'', demo_view ''u'' ''y'']"
proof -
  obtain out where o: "apply_command (demo_layout [demo_transfer]) (demo_command ''m'' (CommitTransfer ''r'')) = Inr out"
    by (rule witness_commit)
  have "mset (layout_views (out_layout out)) = mset (layout_views (demo_layout [demo_transfer]))"
    by (rule commit_conserves_views [OF o]) (simp add: demo_command_def)
  then have "mset (layout_views (out_layout out)) = mset [demo_view ''t'' ''x'', demo_view ''u'' ''y'']"
    by (simp add: layout_views_def window_views_def pane_views_def direct_view_def demo_layout_def demo_window_def demo_pane_def)
  with o show ?thesis by blast
qed

lemma finish_window_ids:
  assumes "valid_layout (finish_layout s)" "w \<in> set (state_windows s)"
  shows "distinct (map pane_id (panes w))"
proof -
  have "map pane_id (panes (finish_window n w)) = map pane_id (panes w)" for n
    by (simp add: finish_window_def prune_recent_def split: option.splits)
  moreover have "finish_window (version (cs_layout s)) w \<in> set (windows (finish_layout s))"
    using assms(2) by (simp add: finish_layout_def)
  ultimately show ?thesis using valid_layout_facts(1) [OF assms(1)] by metis
qed

lemma windows_kept:
  assumes "dispatch s a = Inr s'" "rearranges a \<or> opens_conversation a"
  shows "map win_id (windows (cs_layout s')) = map win_id (windows (cs_layout s))"
proof -
  have st: "map win_id (windows (cs_layout (store_window t w))) = map win_id (windows (cs_layout t))" for t w
    by (simp add: store_window_def set_first_keys)
  show ?thesis
  proof (cases a)
    case (OpenConversation e v i n sid)
    then show ?thesis
      using assms(1) st unfolding act_open_conversation_def Let_def
      by (auto simp: act_open_conversation_def Let_def set_window_Inr split: option.splits if_splits elim!: rbindE)
  next
    case (ReorderPanes r ids)
    then show ?thesis
      using assms(1) by (cases r; cases "center_root (cs_window s)")
        (auto simp: act_reorder_panes_def Let_def split: if_splits option.splits elim!: rbindE)
  next
    case (MoveNewPane t i r k sid)
    then have "act_move_new_pane s t i r k sid = Inr s'" using assms(1) by simp
    then show ?thesis
      unfolding act_move_new_pane_def Let_def by (elim rbindE) (auto simp: set_window_Inr split: if_splits elim!: rbindE)
  next
    case (SplitPane t i n sid e f)
    then have "act_split s t i n sid e f = Inr s'" using assms(1) by simp
    then show ?thesis
      unfolding act_split_def Let_def by (elim rbindE) (auto simp: set_window_Inr split: if_splits option.splits elim!: rbindE)
  qed (use assms in \<open>auto simp: act_home_def act_rename_pane_def act_reorder_def act_resize_def set_window_Inr
      split: if_splits option.splits prod.splits bool.splits elim!: rbindE\<close>)
qed

lemma window_panes_distinct:
  assumes "started s" "dispatch s a = Inr s'" "rearranges a \<or> opens_conversation a" "valid_layout (finish_layout s')"
  shows "distinct (map pane_id (panes (cs_window s')))"
proof (rule finish_window_ids [OF assms(4)])
  have "win_id (cs_window s') = win_id (cs_window s)"
    using dispatch_keeps [OF assms(2)] by (simp add: identity_def Let_def)
  then have "win_id (cs_window s') \<in> set (map win_id (windows (cs_layout s')))"
    using windows_kept [OF assms(2,3)] started_facts(2) [OF assms(1)] by simp
  then show "cs_window s' \<in> set (state_windows s')" by (auto simp: state_windows_def)
qed

text \<open>
  The rearranging commands (home, rename, reorder of panes and tabs, split, move to a new pane,
  resize) neither lose nor duplicate a view.
\<close>
lemma rearranging_conserves_views:
  assumes "apply_command l c = Inr out" "rearranges (cmd_action c)"
  shows "mset (layout_views (out_layout out)) = mset (layout_views l)"
proof (rule apply_commandE [OF assms(1)])
  fix s0 s
  assume s: "started s0" "dispatch s0 (cmd_action c) = Inr s" "layout_views l = all_tabs s0" "layout_views (out_layout out) = all_tabs s"
    "out_layout out = finish_layout s" "valid_layout (out_layout out)"
  then have "distinct (map pane_id (panes (cs_window s)))" using window_panes_distinct assms(2) by metis
  then show ?thesis using rearranges_views [OF s(1,2) assms(2)] s(3,4) by (intro views_conserved [OF assms(1)]) simp
qed

lemma demo_split_ok:
  "\<exists>out. apply_command (demo_layout []) (demo_command ''m'' (SplitPane ''u'' ''a'' ''n'' ''s'' EdgeTop (1 / 2))) = Inr out"
  by (simp add: demo_defs validity_defs executor_defs act_split_def new_pane_def fraction_shape_def)

text \<open>
  (C3) A view reserved for a pending transfer is never lost: after any accepted command other than an
  explicit close of a tab, pane or conversation, a view with the same identity is still owned by the
  workspace.
\<close>
theorem reserved_views_survive:
  assumes "apply_command l c = Inr out" "\<not> closes (cmd_action c)"
    and "t \<in> set (json_values (pending_transfers l))" "i \<in> set (tr_tabs t)" "i \<in> view_id ` set (layout_views l)"
  shows "i \<in> view_id ` set (layout_views (out_layout out))"
proof (rule apply_commandE [OF assms(1)])
  fix s0 s
  assume s: "started s0" "dispatch s0 (cmd_action c) = Inr s" "layout_views l = all_tabs s0" "layout_views (out_layout out) = all_tabs s"
    "out_layout out = finish_layout s" "valid_layout (out_layout out)" "cs_layout s0 = upgrade (cmd_action c) l"
  have "survives s0 s"
    using dispatch_survives [OF s(1,2) assms(2)] window_panes_distinct [OF s(1,2)] s(5,6) by metis
  moreover have "reserved s0 i"
    using assms(3,4) s(7) by (auto simp: reserved_def reserved_in_def upgrade_def)
  ultimately show ?thesis using assms(5) s(3,4) by (auto simp: survives_def)
qed

definition demo_open :: action where
  "demo_open = OpenView (demo_view ''v'' ''z'') None (TargetPane ''a'')"

lemma demo_open_ok: "\<exists>out. apply_command (demo_layout [demo_transfer]) (demo_command ''m'' demo_open) = Inr out"
  by (simp add: demo_open_def demo_defs validity_defs executor_defs act_open_def same_resource_def open_in_pane_def
      replaced_preview_def add_or_replace_def)

theorem reserved_views_survive_witness:
  "\<exists>out. apply_command (demo_layout [demo_transfer]) (demo_command ''m'' demo_open) = Inr out \<and>
     ''t'' \<in> view_id ` set (layout_views (out_layout out))"
proof -
  obtain out where o: "apply_command (demo_layout [demo_transfer]) (demo_command ''m'' demo_open) = Inr out"
    using demo_open_ok by blast
  have "''t'' \<in> view_id ` set (layout_views (out_layout out))"
    by (rule reserved_views_survive [OF o, of demo_transfer])
       (simp_all add: demo_open_def demo_command_def demo_layout_def demo_transfer_def demo_window_def demo_pane_def
         demo_view_def json_values_def layout_views_def window_views_def pane_views_def direct_view_def)
  with o show ?thesis by blast
qed

text \<open>
  (C4) The transfer protocol: a command changes a pending transfer that it does not remove only by
  advancing its phase, and only when it comes from the destination window, first to
  \<open>DestinationReady\<close> and only then to \<open>StateReady\<close>; every other field of the transfer is fixed.
\<close>
theorem transfer_phase_protocol:
  assumes "apply_command l c = Inr out"
    and "t \<in> set (json_values (pending_transfers l))" "t' \<in> set (json_values (pending_transfers (out_layout out)))"
    and "tr_id t' = tr_id t"
  shows "t' = t \<or>
    cmd_window c = tr_destination_window t \<and>
    (cmd_action c = TransferReady (tr_id t) \<and> tr_phase t = Preparing \<and> t' = t\<lparr>tr_phase := DestinationReady\<rparr> \<or>
     cmd_action c = TransferStateReady (tr_id t) \<and> tr_phase t \<noteq> Preparing \<and> t' = t\<lparr>tr_phase := StateReady\<rparr>)"
proof (rule apply_commandE [OF assms(1)])
  fix s0 s
  assume s: "begin_command l c = Inr s0" "started s0" "dispatch s0 (cmd_action c) = Inr s" "out_layout out = finish_layout s"
    "cs_layout s0 = upgrade (cmd_action c) l"
  have w: "win_id (cs_window s0) = cmd_window c"
    using s(1) by (auto simp: begin_command_def Let_def split: if_splits option.splits dest: find_SomeD)
  have "t \<in> set (pending s0)" "t' \<in> set (pending s)"
    using assms(2,3) s(4,5) by (auto simp: pending_def upgrade_def finish_layout_def)
  from dispatch_transfer_step [OF s(2,3) this assms(4)] show ?thesis
    unfolding phase_step_def w by blast
qed

lemma demo_ready_ok:
  "\<exists>out. apply_command (demo_layout [demo_transfer\<lparr>tr_phase := Preparing\<rparr>]) (demo_command ''d'' (TransferReady ''r'')) = Inr out \<and>
     json_values (pending_transfers (out_layout out)) = [demo_transfer\<lparr>tr_phase := DestinationReady\<rparr>]"
  by (simp add: demo_defs validity_defs executor_defs act_transfer_ready_def pending_by_id_def pending_def set_pending_def store_transfer_def)

theorem transfer_phase_protocol_witness:
  "\<exists>out. apply_command (demo_layout [demo_transfer\<lparr>tr_phase := Preparing\<rparr>]) (demo_command ''d'' (TransferReady ''r'')) = Inr out \<and>
     cmd_window (demo_command ''d'' (TransferReady ''r'')) = tr_destination_window demo_transfer"
proof -
  obtain out where o: "apply_command (demo_layout [demo_transfer\<lparr>tr_phase := Preparing\<rparr>]) (demo_command ''d'' (TransferReady ''r'')) = Inr out"
      "json_values (pending_transfers (out_layout out)) = [demo_transfer\<lparr>tr_phase := DestinationReady\<rparr>]"
    using demo_ready_ok by blast
  have p: "demo_transfer\<lparr>tr_phase := Preparing\<rparr> \<in>
      set (json_values (pending_transfers (demo_layout [demo_transfer\<lparr>tr_phase := Preparing\<rparr>])))"
    by (simp add: demo_layout_def json_values_def)
  have q: "demo_transfer\<lparr>tr_phase := DestinationReady\<rparr> \<in> set (json_values (pending_transfers (out_layout out)))"
    by (simp add: o(2))
  have "demo_transfer\<lparr>tr_phase := DestinationReady\<rparr> \<noteq> demo_transfer\<lparr>tr_phase := Preparing\<rparr>"
    by (simp add: demo_transfer_def)
  with transfer_phase_protocol [OF o(1) p q] have
    "cmd_window (demo_command ''d'' (TransferReady ''r'')) = tr_destination_window (demo_transfer\<lparr>tr_phase := Preparing\<rparr>)"
    by simp
  then show ?thesis using o(1) by (intro exI [of _ out] conjI) (simp_all add: demo_transfer_def)
qed

section \<open>The validator and the legacy import\<close>

text \<open>
  (C24) The validator's walk over the center trees, with its explicit stack and shared set of split
  identities, accepts exactly the windows whose trees are within the bounds, list every local center
  pane exactly once, and have split identities unique across the workspace.
\<close>
theorem validator_walk_exact:
  "trees_walk ws [] \<longleftrightarrow>
     list_all tree_rule ws \<and> distinct (concat (map (\<lambda>w. root_splits (center_root w)) ws))"
  by (simp add: trees_walk_iff list_all_iff comp_def)

lemma find_append_None: "find P xs = None \<Longrightarrow> find P (xs @ ys) = find P ys"
  by (induction xs) (auto split: if_splits)

lemma imported_window_views:
  "imported_window n titles r = Inr w \<Longrightarrow> window_views w = map (imported_view titles) (fi_views r) \<and> win_id w = fi_window r"
  by (auto simp: imported_window_def window_views_def pane_views_def direct_view_def Let_def split: list.splits)

lemma import_legacy_filesE:
  assumes "import_legacy_files l r titles = Inr (l', False)"
  obtains w where "valid_layout l'" "file_import_shape r" "imported_window (version l) titles r = Inr w"
    "l' = l\<lparr>windows := windows l @ [w], file_imports := Some (json_values (file_imports l) @ [r]), revision := revision l + 1\<rparr>"
    "find (\<lambda>f. fi_window f = fi_window r) (json_values (file_imports l)) = None"
  using assms
  by (auto simp: import_legacy_files_def Let_def split: if_splits option.splits elim!: rbindE)


definition demo_import :: file_import where
  "demo_import = \<lparr>fi_window = ''cantrip-editor-1'', fi_pane = ''e'',
     fi_views = [\<lparr>lv_tab = ''f'', lv_document = ''doc'', lv_mode = ''edit''\<rparr>]\<rparr>"

lemma demo_import_ok: "\<exists>l'. import_legacy_files (demo_layout []) demo_import (\<lambda>_. Some ''title'') = Inr (l', False)"
  by (simp add: demo_import_def import_legacy_files_def demo_defs validity_defs file_import_shape_def legacy_window_ident_def
      views_shape_def imported_window_def imported_view_def file_view_def owned_documents_def file_documents_def
      List.map_filter_def) auto


section \<open>A rejected migration\<close>

definition demo_code_view :: view where
  "demo_code_view = (demo_view ''c'' ''code'')\<lparr>view_resource := Entity ''project.code'' ''code''\<rparr>"

definition demo_code_layout :: "string option \<Rightarrow> layout" where
  "demo_code_layout focused =
     (demo_layout [])\<lparr>version := 2, windows :=
        [(demo_window ''m'' [demo_pane\<lparr>tabs := [demo_code_view], active_tab := Some ''c'',
            conversation_view := Some None, pane_selection := Some (SelTab (Some ''c''))\<rparr>])\<lparr>focused_pane := focused\<rparr>]\<rparr>"

definition demo_migration :: action where
  "demo_migration = MigrateCodeFiles ''c'' ''code'' [\<lparr>lv_tab = ''f'', lv_document = ''doc'', lv_mode = ''edit''\<rparr>]"

lemmas demo_code_defs = demo_code_view_def demo_code_layout_def demo_migration_def demo_defs

text \<open>
  The conversion of a code view moves the active tab of its pane to the first file. It moves the
  selection with it only when the pane is focused, so in a version 2 layout the conversion of the
  active code view of a pane that is not focused is refused by the final validation; the theorem shows one such layout and the same layout with the pane focused.
\<close>
lemma migration_needs_focus:
  "apply_command (demo_code_layout None) (demo_command ''m'' demo_migration) =
     Inl (invalid ''The command would create invalid workspace ownership.'') \<and>
   (\<exists>out. apply_command (demo_code_layout (Some ''a'')) (demo_command ''m'' demo_migration) = Inr out)"
  by (intro conjI; simp add: demo_code_defs validity_defs executor_defs views_shape_def act_migrate_code_files_def splice_files_def
      splice_after_def file_view_def reserved_def reserved_in_def all_tabs_def file_documents_def List.map_filter_def)

end
