(* ===== verification/Texts.thy ===== *)
theory Texts
  imports Complex_Main Prelude
begin

text \<open>
  Doubles and text. A double is its exact rational value, an infinity or a NaN; no operation modelled here
  rounds. A Rust string is the list of its Unicode scalar values, with the lengths its UTF-8 and UTF-16
  encodings have; a JavaScript string is the list of its UTF-16 units. The white space of
  \<^verbatim>\<open>cantrip_server_rs/src/text.rs\<close> and the decimal forms of Rust's formatter.
\<close>

section \<open>Doubles and text\<close>

datatype f64 = Finite rat | PosInf | NegInf | NaN

definition is_finite :: "f64 \<Rightarrow> bool" where
  "is_finite x = (case x of Finite _ \<Rightarrow> True | _ \<Rightarrow> False)"

fun f64_lt :: "f64 \<Rightarrow> f64 \<Rightarrow> bool" where
  "f64_lt (Finite a) (Finite b) = (a < b)"
| "f64_lt (Finite a) PosInf = True"
| "f64_lt NegInf (Finite a) = True"
| "f64_lt NegInf PosInf = True"
| "f64_lt _ _ = False"

definition f64_eq :: "f64 \<Rightarrow> f64 \<Rightarrow> bool" where
  "f64_eq x y \<longleftrightarrow> x \<noteq> NaN \<and> x = y"

definition f64_le :: "f64 \<Rightarrow> f64 \<Rightarrow> bool" where
  "f64_le x y \<longleftrightarrow> f64_lt x y \<or> f64_eq x y"

type_synonym text_value = "nat list"

definition utf8_len :: "nat \<Rightarrow> nat" where
  "utf8_len c = (if c < 128 then 1 else if c < 2048 then 2 else if c < 65536 then 3 else 4)"

definition utf16_len :: "nat \<Rightarrow> nat" where
  "utf16_len c = (if c < 65536 then 1 else 2)"

definition byte_length :: "text_value \<Rightarrow> nat" where
  "byte_length s = sum_list (map utf8_len s)"

definition utf16_count :: "text_value \<Rightarrow> nat" where
  "utf16_count s = sum_list (map utf16_len s)"

definition is_control :: "nat \<Rightarrow> bool" where
  "is_control c \<longleftrightarrow> c < 32 \<or> (127 \<le> c \<and> c < 160)"

definition text_of :: "string \<Rightarrow> text_value" where
  "text_of s = map of_char s"

definition whitespace :: "nat \<Rightarrow> bool" where
  "whitespace c \<longleftrightarrow> (9 \<le> c \<and> c \<le> 13) \<or> c = 32 \<or> c = 160 \<or> c = 5760 \<or> (8192 \<le> c \<and> c \<le> 8202) \<or> c = 8232 \<or> c = 8233 \<or>
     c = 8239 \<or> c = 8287 \<or> c = 12288 \<or> c = 65279"

definition trim_text :: "text_value \<Rightarrow> text_value" where
  "trim_text s = rev (dropWhile whitespace (rev (dropWhile whitespace s)))"

fun decimal_digits :: "nat \<Rightarrow> nat list" where
  "decimal_digits n = (if n < 10 then [48 + n] else decimal_digits (n div 10) @ [48 + n mod 10])"

definition zero_padded :: "nat \<Rightarrow> nat \<Rightarrow> text_value" where
  "zero_padded w n = replicate (w - length (decimal_digits n)) 48 @ decimal_digits n"

section \<open>Decimal digits\<close>

definition is_digit :: "nat \<Rightarrow> bool" where
  "is_digit c \<longleftrightarrow> 48 \<le> c \<and> c \<le> 57"

definition digits_value :: "nat list \<Rightarrow> nat" where
  "digits_value ds = foldl (\<lambda>n d. n * 10 + (d - 48)) 0 ds"

lemma digits_value_simps [simp]:
  "digits_value [] = 0" "digits_value (ds @ [d]) = digits_value ds * 10 + (d - 48)"
  by (simp_all add: digits_value_def)

declare decimal_digits.simps [simp del]

lemma decimal_digits_induct [case_names small large]:
  fixes n :: nat
  assumes "\<And>n. n < 10 \<Longrightarrow> P n" "\<And>n. 10 \<le> n \<Longrightarrow> P (n div 10) \<Longrightarrow> P n"
  shows "P n"
  by (induction n rule: decimal_digits.induct) (metis assms not_less)

lemma decimal_digits_small: "n < 10 \<Longrightarrow> decimal_digits n = [48 + n]"
  by (simp add: decimal_digits.simps [of n])

lemma decimal_digits_large: "10 \<le> n \<Longrightarrow> decimal_digits n = decimal_digits (n div 10) @ [48 + n mod 10]"
  by (simp add: decimal_digits.simps [of n])

lemma decimal_digits_digit: "c \<in> set (decimal_digits n) \<Longrightarrow> is_digit c"
  by (induction n rule: decimal_digits_induct) (auto simp: decimal_digits_small decimal_digits_large is_digit_def)

lemma decimal_digits_value [simp]: "digits_value (decimal_digits n) = n"
  by (induction n rule: decimal_digits_induct) (auto simp: decimal_digits_small decimal_digits_large digits_value_def)

lemma decimal_digits_length: "0 < w \<Longrightarrow> length (decimal_digits n) \<le> w \<longleftrightarrow> n < 10 ^ w"
proof (induction n arbitrary: w rule: decimal_digits_induct)
  case (small n)
  have "(10::nat) ^ 1 \<le> 10 ^ w" by (rule power_increasing) (use small in auto)
  then show ?case using small by (simp add: decimal_digits_small)
next
  case (large n)
  show ?case
  proof (cases "w = 1")
    case True
    then show ?thesis using large by (auto simp: decimal_digits_large Suc_le_eq decimal_digits.simps [of "n div 10"])
  next
    case False
    then obtain v where "w = Suc v" "0 < v" using \<open>0 < w\<close> by (cases w) auto
    then show ?thesis using large by (simp add: decimal_digits_large less_mult_imp_div_less div_less_iff_less_mult mult.commute)
  qed
qed

lemma decimal_digits_head: "0 < n \<Longrightarrow> \<exists>d ds. decimal_digits n = d # ds \<and> d \<noteq> 48"
  by (induction n rule: decimal_digits_induct) (fastforce simp: decimal_digits_small decimal_digits_large)+

lemma zero_padded_length: "0 < w \<Longrightarrow> n < 10 ^ w \<Longrightarrow> length (zero_padded w n) = w"
  using decimal_digits_length [of w n] by (simp add: zero_padded_def)

lemma zero_padded_digit: "c \<in> set (zero_padded w n) \<Longrightarrow> is_digit c"
  by (auto simp: zero_padded_def is_digit_def dest: decimal_digits_digit)

end
