(* ===== verification/Input.thy ===== *)
theory Input
  imports Texts
begin

text \<open>
  The backend-neutral input vocabulary (\<^verbatim>\<open>cantrip_interaction/src/input.rs\<close>), the surface geometry it
  refers to (\<^verbatim>\<open>geometry.rs\<close>) and the cursor a participant presents (\<^verbatim>\<open>cursor.rs\<close>).
\<close>

section \<open>Geometry\<close>

record point =
  point_x :: f64
  point_y :: f64

record bounds =
  bounds_x :: f64
  bounds_y :: f64
  bounds_width :: f64
  bounds_height :: f64

definition bounds_validate :: "bounds \<Rightarrow> (string, unit) result" where
  "bounds_validate b =
     (if list_all is_finite [bounds_x b, bounds_y b, bounds_width b, bounds_height b] \<and>
         f64_lt (Finite 0) (bounds_width b) \<and> f64_lt (Finite 0) (bounds_height b)
      then Inr () else Inl ''Invalid target bounds.'')"

definition contains_local :: "bounds \<Rightarrow> point \<Rightarrow> bool" where
  "contains_local b p \<longleftrightarrow>
     is_finite (point_x p) \<and> is_finite (point_y p) \<and> f64_le (Finite 0) (point_x p) \<and> f64_le (Finite 0) (point_y p) \<and>
     f64_lt (point_x p) (bounds_width b) \<and> f64_lt (point_y p) (bounds_height b)"

section \<open>Input events\<close>

datatype modifier = Shift | Control | Alt | Meta

datatype mouse_button = ButtonLeft | ButtonRight | ButtonMiddle | ButtonBack | ButtonForward

datatype media_key = PlayPause | NextTrack | PreviousTrack | FastForward | Rewind | VolumeUp | VolumeDown | VolumeMute

definition valid_modifiers :: "modifier list \<Rightarrow> bool" where
  "valid_modifiers ms \<longleftrightarrow> length ms \<le> 4 \<and> list_all (\<lambda>i. ms ! i \<notin> set (take i ms)) [0..<length ms]"

definition normalize_key :: "text_value \<Rightarrow> text_value" where
  "normalize_key key =
     (case key of [c] \<Rightarrow> if utf8_len c = 1 \<and> 97 \<le> c \<and> c \<le> 122 then [c - 32] else key | _ \<Rightarrow> key)"

definition deserialize_keys :: "text_value list \<Rightarrow> text_value list" where
  "deserialize_keys ks = map normalize_key ks"

datatype input_scope = ScopeSurface | ScopeHostFocus | ScopeSystem

datatype text_input = Commit text_value | Composition text_value nat nat | CancelComposition

datatype input_event =
  PointerMove point "modifier list"
| PointerDown point mouse_button "modifier list"
| PointerUp point mouse_button
| KeyDown text_value "modifier list" bool
| KeyUp text_value
| Scroll point int int "modifier list"
| InputText text_input
| PrepareSurface
| RequestHostFocus
| Media media_key "modifier list"

definition scope_of :: "input_event \<Rightarrow> input_scope" where
  "scope_of e = (case e of RequestHostFocus \<Rightarrow> ScopeHostFocus | Media _ _ \<Rightarrow> ScopeSystem | _ \<Rightarrow> ScopeSurface)"

definition point_ok :: "point \<Rightarrow> bool" where
  "point_ok p \<longleftrightarrow> is_finite (point_x p) \<and> is_finite (point_y p) \<and> f64_le (Finite 0) (point_x p) \<and> f64_le (Finite 0) (point_y p)"

definition key_ok :: "text_value \<Rightarrow> bool" where
  "key_ok s \<longleftrightarrow> s \<noteq> [] \<and> byte_length s \<le> 256 \<and> \<not> list_ex is_control s"

definition validate :: "input_event \<Rightarrow> (string, unit) result" where
  "validate e =
     ensure
       (case e of
          PointerMove p ms \<Rightarrow> point_ok p \<and> valid_modifiers ms
        | PointerDown p _ ms \<Rightarrow> point_ok p \<and> valid_modifiers ms
        | Scroll p _ _ ms \<Rightarrow> point_ok p \<and> valid_modifiers ms
        | PointerUp p _ \<Rightarrow> point_ok p
        | KeyDown k ms _ \<Rightarrow> key_ok k \<and> valid_modifiers ms
        | KeyUp k \<Rightarrow> key_ok k
        | Media _ ms \<Rightarrow> valid_modifiers ms
        | InputText (Composition t a b) \<Rightarrow> a \<le> b \<and> b \<le> utf16_count t
        | _ \<Rightarrow> True)
       ''Invalid input event.''"

section \<open>Cursor state\<close>

abbreviation (input) max_sequence :: nat where "max_sequence \<equiv> 2 ^ 53 - 1"
abbreviation (input) max_trail_points :: nat where "max_trail_points \<equiv> 24"
abbreviation (input) min_cursor_size :: nat where "min_cursor_size \<equiv> 8"
abbreviation (input) max_cursor_size :: nat where "max_cursor_size \<equiv> 96"
abbreviation (input) max_label_characters :: nat where "max_label_characters \<equiv> 64"
abbreviation (input) max_label_bytes :: nat where "max_label_bytes \<equiv> 256"
abbreviation (input) cursor_appearance_version :: nat where "cursor_appearance_version \<equiv> 1"

datatype cursor_style = StyleArrow | StyleDot | StyleRing | StyleCrosshair

record cursor_appearance =
  appearance_version :: nat
  appearance_style :: cursor_style
  appearance_color :: text_value
  appearance_size :: nat
  appearance_label :: "text_value option"
  appearance_trail :: bool
  appearance_visible :: bool

record cursor_action =
  action_method :: string
  action_outcome :: string
  action_at_ms :: nat

record cursor_state =
  cursor_appearance_of :: cursor_appearance
  cursor_position :: point
  trail_points :: "point list"
  updated_at_ms :: nat
  cursor_revision :: nat
  cursor_action_of :: "cursor_action option"

definition appearance_default :: cursor_appearance where
  "appearance_default =
     \<lparr>appearance_version = cursor_appearance_version, appearance_style = StyleArrow, appearance_color = text_of ''#20BFA9'',
      appearance_size = 24, appearance_label = None, appearance_trail = False, appearance_visible = True\<rparr>"

definition cursor_default :: cursor_state where
  "cursor_default =
     \<lparr>cursor_appearance_of = appearance_default, cursor_position = \<lparr>point_x = Finite 0, point_y = Finite 0\<rparr>, trail_points = [],
      updated_at_ms = 0, cursor_revision = 1, cursor_action_of = None\<rparr>"

definition is_hexdigit :: "nat \<Rightarrow> bool" where
  "is_hexdigit c \<longleftrightarrow> (48 \<le> c \<and> c \<le> 57) \<or> (97 \<le> c \<and> c \<le> 102) \<or> (65 \<le> c \<and> c \<le> 70)"

definition nibble :: "nat \<Rightarrow> nat" where
  "nibble b = (if 48 \<le> b \<and> b \<le> 57 then b - 48 else if 97 \<le> b \<and> b \<le> 102 then b - 97 + 10 else b - 65 + 10)"

fun channels :: "text_value \<Rightarrow> nat list" where
  "channels (a # b # r) = (nibble a * 16 + nibble b) # channels r"
| "channels _ = []"

text \<open>
  \<open>rgba\<close> reads the bytes of the colour. A colour with a character above the ASCII range has a byte that is no
  hexadecimal digit, whatever its length, so it is refused here as in the source.
\<close>

definition rgba :: "cursor_appearance \<Rightarrow> (string, nat list) result" where
  "rgba a =
     (let c = appearance_color a
      in if \<not> (byte_length c = 7 \<or> byte_length c = 9) \<or> hd c \<noteq> 35 \<or> \<not> list_all is_hexdigit (tl c)
         then Inl ''Cursor color must be #RRGGBB or #RRGGBBAA.''
         else let ch = channels (tl c) in Inr (ch @ drop (length ch) [0, 0, 0, 255]))"

definition appearance_validate :: "cursor_appearance \<Rightarrow> (string, unit) result" where
  "appearance_validate a =
     (if appearance_version a \<noteq> cursor_appearance_version \<or> \<not> (min_cursor_size \<le> appearance_size a \<and> appearance_size a \<le> max_cursor_size)
      then Inl ''Unsupported cursor appearance version or size.''
      else rbind (rgba a) (\<lambda>_.
        if (case appearance_label a of None \<Rightarrow> False
            | Some l \<Rightarrow> byte_length l > max_label_bytes \<or> length l > max_label_characters \<or> list_ex is_control l)
        then Inl ''Cursor label exceeds its limit or contains control characters.''
        else Inr ()))"

definition next_revision :: "cursor_state \<Rightarrow> nat \<Rightarrow> (string, nat) result" where
  "next_revision s now =
     (if now > max_sequence \<or> cursor_revision s \<ge> max_sequence
      then Inl ''Cursor timestamp or revision is outside the supported range.''
      else Inr (cursor_revision s + 1))"

definition presentation :: "cursor_state \<Rightarrow> nat \<Rightarrow> cursor_state" where
  "presentation s now = s\<lparr>updated_at_ms := max (updated_at_ms s) now\<rparr>"

definition configure :: "cursor_appearance \<Rightarrow> nat \<Rightarrow> cursor_state \<Rightarrow> (string, cursor_state) result" where
  "configure a now s =
     rbind (appearance_validate a) (\<lambda>_.
     rbind (next_revision s now) (\<lambda>r.
       Inr (s\<lparr>trail_points := (if \<not> appearance_trail a \<or> \<not> appearance_trail (cursor_appearance_of s) then [] else trail_points s),
              cursor_appearance_of := a, updated_at_ms := max (updated_at_ms s) now, cursor_revision := r\<rparr>)))"

definition point_ne :: "point \<Rightarrow> point \<Rightarrow> bool" where
  "point_ne p q \<longleftrightarrow> \<not> (f64_eq (point_x p) (point_x q) \<and> f64_eq (point_y p) (point_y q))"

definition push_trail :: "point \<Rightarrow> point list \<Rightarrow> point list" where
  "push_trail p ps = (if length ps \<ge> max_trail_points then drop (length ps - max_trail_points + 1) ps else ps) @ [p]"

definition move_to :: "point \<Rightarrow> bounds \<Rightarrow> nat \<Rightarrow> cursor_state \<Rightarrow> (string, cursor_state) result" where
  "move_to p b now s =
     rbind (bounds_validate b) (\<lambda>_.
     if \<not> contains_local b p then Inl ''Cursor is outside target bounds.''
     else rbind (next_revision s now) (\<lambda>r.
       Inr (s\<lparr>trail_points := (if appearance_trail (cursor_appearance_of s) \<and> point_ne (cursor_position s) p
                                then push_trail (cursor_position s) (trail_points s) else trail_points s),
              cursor_action_of := None, cursor_position := p, updated_at_ms := max (updated_at_ms s) now,
              cursor_revision := r\<rparr>)))"

definition bump_revision :: "cursor_state \<Rightarrow> nat" where
  "bump_revision s = min (min (cursor_revision s + 1) u64_max) max_sequence"

definition mark_action :: "string \<Rightarrow> string \<Rightarrow> nat \<Rightarrow> cursor_state \<Rightarrow> cursor_state" where
  "mark_action method outcome now s =
     s\<lparr>cursor_action_of := Some \<lparr>action_method = method, action_outcome = outcome, action_at_ms = now\<rparr>,
       updated_at_ms := max (updated_at_ms s) now, cursor_revision := bump_revision s\<rparr>"

definition clear_action :: "nat \<Rightarrow> cursor_state \<Rightarrow> cursor_state" where
  "clear_action now s =
     (if cursor_action_of s = None then s
      else s\<lparr>cursor_action_of := None, updated_at_ms := max (updated_at_ms s) now, cursor_revision := bump_revision s\<rparr>)"

definition hex_digit :: "nat \<Rightarrow> nat" where
  "hex_digit n = (if n < 10 then 48 + n else 55 + n)"

definition format_color :: "nat \<Rightarrow> nat \<Rightarrow> nat \<Rightarrow> text_value" where
  "format_color r g b = 35 # concat (map (\<lambda>v. [hex_digit (v div 16), hex_digit (v mod 16)]) [r, g, b])"

section \<open>Validation lemmas\<close>

lemma f64_le_zero: "f64_le (Finite 0) (Finite a) \<longleftrightarrow> 0 \<le> a"
  by (auto simp: f64_le_def f64_eq_def)

lemma is_finiteE: "is_finite x \<Longrightarrow> (\<And>a. x = Finite a \<Longrightarrow> P) \<Longrightarrow> P"
  by (cases x) (auto simp: is_finite_def)

lemma distinct_by_prefix: "distinct xs \<longleftrightarrow> list_all (\<lambda>i. xs ! i \<notin> set (take i xs)) [0..<length xs]"
proof (induction xs rule: rev_induct)
  case (snoc x xs)
  have "list_all (\<lambda>i. (xs @ [x]) ! i \<notin> set (take i (xs @ [x]))) [0..<length xs]
      \<longleftrightarrow> list_all (\<lambda>i. xs ! i \<notin> set (take i xs)) [0..<length xs]"
    by (rule list.pred_cong) (auto simp: nth_append)
  then show ?case using snoc.IH by (auto simp: list_all_append)
qed simp

lemma distinct_modifiers_short: "distinct (ms :: modifier list) \<Longrightarrow> length ms \<le> 4"
proof -
  assume d: "distinct ms"
  have "set ms \<subseteq> {Shift, Control, Alt, Meta}" using modifier.exhaust by auto
  from card_mono [OF _ this] d show ?thesis by (simp add: distinct_card)
qed

lemma byte_length_ge: "length s \<le> byte_length s"
  unfolding byte_length_def by (induction s) (auto simp: utf8_len_def)

lemma hexdigit_ascii: "list_all is_hexdigit s \<Longrightarrow> byte_length s = length s"
  by (induction s) (auto simp: byte_length_def utf8_len_def is_hexdigit_def)

lemma nibble_bound: "is_hexdigit c \<Longrightarrow> nibble c \<le> 15"
  by (auto simp: is_hexdigit_def nibble_def)

lemma channels_length: "length (channels s) = length s div 2"
  by (induction s rule: channels.induct) auto

lemma channels_bound: "list_all is_hexdigit s \<Longrightarrow> \<forall>v \<in> set (channels s). v \<le> 255"
proof (induction s rule: channels.induct)
  case (1 a b r)
  then have "nibble a \<le> 15" "nibble b \<le> 15" by (simp_all add: nibble_bound)
  then have "nibble a * 16 + nibble b \<le> 255" by linarith
  with 1 show ?case by simp
qed auto

lemma rgba_shape:
  assumes "rgba a = Inr ch"
  shows "length ch = 4 \<and> (\<forall>v \<in> set ch. v \<le> 255)"
proof -
  let ?c = "appearance_color a" and ?k = "channels (tl (appearance_color a))"
  have len: "byte_length ?c = 7 \<or> byte_length ?c = 9" and hd: "hd ?c = 35" and hex: "list_all is_hexdigit (tl ?c)"
    and ch: "ch = ?k @ drop (length ?k) [0, 0, 0, 255]"
    using assms by (auto simp: rgba_def Let_def split: if_splits)
  have "?c \<noteq> []" using len by (auto simp: byte_length_def)
  then have "byte_length ?c = 1 + byte_length (tl ?c)" using hd by (cases ?c) (auto simp: byte_length_def utf8_len_def)
  then have "length (tl ?c) = 6 \<or> length (tl ?c) = 8" using len hexdigit_ascii [OF hex] by simp
  then have "length ?k = 3 \<or> length ?k = 4" by (auto simp: channels_length)
  moreover have "\<forall>v \<in> set (drop n [0, 0, 0, 255 :: nat]). v \<le> 255" for n by (auto dest: in_set_dropD)
  ultimately show ?thesis using ch channels_bound [OF hex] by auto
qed

lemma hex_digit_read: "n < 16 \<Longrightarrow> is_hexdigit (hex_digit n) \<and> nibble (hex_digit n) = n"
  by (auto simp: hex_digit_def is_hexdigit_def nibble_def)

lemma format_color_read:
  assumes "r \<le> 255" "g \<le> 255" "b \<le> 255"
  shows "rgba (a\<lparr>appearance_color := format_color r g b\<rparr>) = Inr [r, g, b, 255]"
proof -
  have d: "is_hexdigit (hex_digit (v div 16))" "is_hexdigit (hex_digit (v mod 16))"
      "nibble (hex_digit (v div 16)) * 16 + nibble (hex_digit (v mod 16)) = v" if "v \<le> 255" for v
    using hex_digit_read [of "v div 16"] hex_digit_read [of "v mod 16"] that by auto
  let ?s = "tl (format_color r g b)"
  have hex: "list_all is_hexdigit ?s" using assms d by (simp add: format_color_def)
  have "byte_length (format_color r g b) = 1 + byte_length ?s" by (simp add: format_color_def byte_length_def utf8_len_def)
  also have "byte_length ?s = 6" using hexdigit_ascii [OF hex] by (simp add: format_color_def)
  finally have "byte_length (format_color r g b) = 7" by simp
  moreover have "channels ?s = [r, g, b]" using assms d by (simp add: format_color_def)
  moreover have "hd (format_color r g b) = 35" by (simp add: format_color_def)
  ultimately show ?thesis using hex by (simp add: rgba_def Let_def)
qed

section \<open>Cursor invariant\<close>

definition cursor_ok :: "cursor_state \<Rightarrow> bool" where
  "cursor_ok s \<longleftrightarrow> appearance_validate (cursor_appearance_of s) = Inr () \<and> length (trail_points s) \<le> max_trail_points \<and>
     (\<not> appearance_trail (cursor_appearance_of s) \<longrightarrow> trail_points s = []) \<and>
     point_ok (cursor_position s) \<and> list_all point_ok (trail_points s) \<and> 1 \<le> cursor_revision s \<and> cursor_revision s \<le> max_sequence"

datatype cursor_op =
  CConfigure cursor_appearance nat | CMove point bounds nat | CMark string string nat | CClear nat

fun cursor_exec :: "cursor_op \<Rightarrow> cursor_state \<Rightarrow> (string, cursor_state) result" where
  "cursor_exec (CConfigure a now) s = configure a now s"
| "cursor_exec (CMove p b now) s = move_to p b now s"
| "cursor_exec (CMark m out now) s = Inr (mark_action m out now s)"
| "cursor_exec (CClear now) s = Inr (clear_action now s)"

inductive cursor_reachable :: "cursor_state \<Rightarrow> bool" where
  cursor_start: "cursor_reachable cursor_default"
| cursor_step: "cursor_reachable s \<Longrightarrow> cursor_exec op s = Inr s' \<Longrightarrow> cursor_reachable s'"

lemma contains_local_point_ok: "contains_local b p \<Longrightarrow> point_ok p"
  by (simp add: contains_local_def point_ok_def)

lemma length_push_trail: "length ps \<le> max_trail_points \<Longrightarrow> length (push_trail p ps) \<le> max_trail_points"
  by (simp add: push_trail_def)

lemma push_trail_ok: "list_all point_ok ps \<Longrightarrow> point_ok p \<Longrightarrow> list_all point_ok (push_trail p ps)"
  by (auto simp: push_trail_def list_all_iff dest: in_set_dropD)

lemma cursor_ok_default: "cursor_ok cursor_default"
  by (simp add: cursor_ok_def cursor_default_def appearance_default_def appearance_validate_def rgba_def text_of_def byte_length_def
      utf8_len_def is_hexdigit_def point_ok_def is_finite_def f64_le_zero)

lemma cursor_ok_exec: "cursor_ok s \<Longrightarrow> cursor_exec op s = Inr s' \<Longrightarrow> cursor_ok s'"
  by (cases op)
    (auto simp: cursor_ok_def configure_def move_to_def mark_action_def clear_action_def next_revision_def bump_revision_def
      contains_local_point_ok length_push_trail push_trail_ok rbind_eq_Inr split: if_splits)

lemma reachable_cursor_ok: "cursor_reachable s \<Longrightarrow> cursor_ok s"
  by (induction rule: cursor_reachable.induct) (auto intro: cursor_ok_default cursor_ok_exec)


lemma cursor_ok_channels:
  assumes "cursor_ok s"
  shows "\<exists>r g b a. rgba (cursor_appearance_of s) = Inr [r, g, b, a] \<and> r \<le> 255 \<and> g \<le> 255 \<and> b \<le> 255 \<and> a \<le> 255"
proof -
  obtain ch where ch: "rgba (cursor_appearance_of s) = Inr ch"
    using assms by (auto simp: cursor_ok_def appearance_validate_def rbind_eq_Inr split: if_splits)
  have "length ch = Suc (Suc (Suc (Suc 0)))" using rgba_shape [OF ch] by simp
  then obtain r g b a where "ch = [r, g, b, a]" by (auto simp: length_Suc_conv)
  then show ?thesis using ch rgba_shape [OF ch] by auto
qed

lemma cursor_exec_forward:
  assumes "cursor_ok s" "cursor_exec op s = Inr s'"
  shows "updated_at_ms s \<le> updated_at_ms s' \<and> cursor_revision s \<le> cursor_revision s' \<and>
    (s' = s \<or> cursor_revision s < cursor_revision s' \<or> cursor_revision s = max_sequence)"
  using assms by (cases op) (auto simp: cursor_ok_def configure_def move_to_def mark_action_def clear_action_def next_revision_def
      bump_revision_def rbind_eq_Inr split: if_splits)

section \<open>Properties\<close>

text \<open>
  Every cursor state a participant can present is well formed and moves forward: the appearance passes
  validation and its colour reads as four channel bytes, at most 24 trail points are kept and none when the
  trail is off, every point is finite and non-negative, and the revision stays within the integers a client
  represents exactly. Each later operation either is refused, or leaves a state whose time and revision are
  not smaller, and a changed state has a larger revision unless the revision has reached its maximum.
\<close>

lemma cursor_presentable:
  assumes "cursor_reachable s"
  shows "(\<exists>r g b a. rgba (cursor_appearance_of s) = Inr [r, g, b, a] \<and> r \<le> 255 \<and> g \<le> 255 \<and> b \<le> 255 \<and> a \<le> 255) \<and>
    length (trail_points s) \<le> 24 \<and> (appearance_trail (cursor_appearance_of s) \<or> trail_points s = []) \<and>
    list_all point_ok (cursor_position s # trail_points s) \<and> cursor_revision s \<le> max_sequence \<and>
    (case cursor_exec op s of
       Inl e \<Rightarrow> True
     | Inr s' \<Rightarrow> updated_at_ms s \<le> updated_at_ms s' \<and> cursor_revision s \<le> cursor_revision s' \<and>
         (s' = s \<or> cursor_revision s < cursor_revision s' \<or> cursor_revision s = max_sequence))"
proof -
  have ok: "cursor_ok s" using assms by (rule reachable_cursor_ok)
  then show ?thesis using cursor_ok_channels cursor_exec_forward [of s op] unfolding cursor_ok_def by (auto split: sum.splits)
qed

text \<open>
  The modifier check accepts exactly the lists without a repeated modifier; its length bound excludes
  nothing more, since there are four modifiers.
\<close>

lemma valid_modifiers_iff: "valid_modifiers ms \<longleftrightarrow> distinct ms"
  using distinct_modifiers_short [of ms] by (auto simp: valid_modifiers_def distinct_by_prefix)

end
