(* ===== verification/Ownership.thy ===== *)
theory Ownership
  imports Prelude "HOL-Library.List_Lexorder" "HOL-Library.Char_ord" "HOL-Library.Product_Lexorder"
begin

text \<open>
  Participant-scoped ownership of held input (\<^verbatim>\<open>cantrip_interaction/src/ownership.rs\<close>). A
  participant is a session token; a session holds controls, each with the release that undoes it; a
  control of a collision domain has at most one owner. The two \<open>BTreeMap\<close>s of the source are the
  ordered maps of the prelude, its \<open>u64\<close> counters are \<open>nat\<close>s with the checked addition of the source.
\<close>

section \<open>Data\<close>

record target_identity =
  target_id :: string
  target_generation :: nat

datatype participant = Participant (registry: nat) (sequence: nat)

instantiation participant :: linorder
begin

definition less_eq_participant :: "participant \<Rightarrow> participant \<Rightarrow> bool" where
  "less_eq_participant a b \<longleftrightarrow> registry a < registry b \<or> (registry a = registry b \<and> sequence a \<le> sequence b)"

definition less_participant :: "participant \<Rightarrow> participant \<Rightarrow> bool" where
  "less_participant a b \<longleftrightarrow> registry a < registry b \<or> (registry a = registry b \<and> sequence a < sequence b)"

instance
proof
  fix a b c :: participant
  show "(a < b) = (a \<le> b \<and> \<not> b \<le> a)" by (auto simp: less_participant_def less_eq_participant_def)
  show "a \<le> a" by (simp add: less_eq_participant_def)
  show "a \<le> b \<Longrightarrow> b \<le> c \<Longrightarrow> a \<le> c" by (auto simp: less_eq_participant_def)
  show "a \<le> b \<Longrightarrow> b \<le> a \<Longrightarrow> a = b"
    by (cases a; cases b) (auto simp: less_eq_participant_def)
  show "a \<le> b \<or> b \<le> a" by (auto simp: less_eq_participant_def)
qed

end

datatype ownership_error = SessionNotFound | OwnershipCapacity | AlreadyHeld | Conflict | NotHeld | StaleInput

record 'r hold =
  hold_release :: 'r
  hold_ordinal :: nat

record ('c, 'r) session =
  session_target :: target_identity
  session_domain :: string
  session_holds :: "('c, 'r hold) btree_map"
  session_ordinal :: nat
  last_sequence :: "nat option"

record ('c, 'r) ownership =
  sessions :: "(participant, ('c, 'r) session) btree_map"
  owners :: "(string \<times> 'c, participant) btree_map"
  registry_id :: nat
  next_sequence :: nat
  max_sessions :: nat
  max_held :: nat

section \<open>Operations\<close>

text \<open>The process-wide registry counter is passed in and out of \<open>ownership_new\<close>.\<close>

definition ownership_new :: "nat \<Rightarrow> nat \<Rightarrow> nat \<Rightarrow> nat \<times> ('c, 'r) ownership" where
  "ownership_new counter sessions_limit held_limit =
     (let (counter', r) = (case checked_add_u64 counter 1 of Some n \<Rightarrow> (n, counter) | None \<Rightarrow> (counter, 0))
      in (counter', \<lparr>sessions = [], owners = [], registry_id = r, next_sequence = 0,
                     max_sessions = sessions_limit, max_held = held_limit\<rparr>))"

definition open_session ::
  "target_identity \<Rightarrow> string \<Rightarrow> ('c, 'r) ownership \<Rightarrow> (ownership_error, participant \<times> ('c, 'r) ownership) result" where
  "open_session target domain s =
     (if registry_id s = 0 \<or> length (sessions s) \<ge> max_sessions s then Inl OwnershipCapacity
      else rbind (ok_or OwnershipCapacity (checked_add_u64 (next_sequence s) 1)) (\<lambda>n.
        let owner = Participant (registry_id s) n
        in Inr (owner, s\<lparr>next_sequence := n, sessions := bt_insert owner
                 \<lparr>session_target = target, session_domain = domain, session_holds = [], session_ordinal = 0,
                  last_sequence = None\<rparr> (sessions s)\<rparr>)))"

definition get_session :: "('c, 'r) ownership \<Rightarrow> participant \<Rightarrow> (ownership_error, ('c, 'r) session) result" where
  "get_session s owner = ok_or SessionNotFound (bt_get (sessions s) owner)"

definition target_of :: "('c, 'r) ownership \<Rightarrow> participant \<Rightarrow> (ownership_error, target_identity) result" where
  "target_of s owner = rbind (get_session s owner) (\<lambda>u. Inr (session_target u))"

definition put_session :: "participant \<Rightarrow> ('c, 'r) session \<Rightarrow> ('c, 'r) ownership \<Rightarrow> ('c, 'r) ownership" where
  "put_session owner u s = s\<lparr>sessions := bt_insert owner u (sessions s)\<rparr>"

definition accept_sequence ::
  "participant \<Rightarrow> nat \<Rightarrow> ('c, 'r) ownership \<Rightarrow> (ownership_error, ('c, 'r) ownership) result" where
  "accept_sequence owner n s =
     rbind (get_session s owner) (\<lambda>u.
       if (case last_sequence u of None \<Rightarrow> False | Some previous \<Rightarrow> n \<le> previous) then Inl StaleInput
       else Inr (put_session owner (u\<lparr>last_sequence := Some n\<rparr>) s))"

definition available ::
  "('c::linorder, 'r) ownership \<Rightarrow> participant \<Rightarrow> 'c \<Rightarrow> (ownership_error, unit) result" where
  "available s owner control =
     rbind (get_session s owner) (\<lambda>u.
       case bt_get (owners s) (session_domain u, control) of
         None \<Rightarrow> Inr ()
       | Some current \<Rightarrow> if current = owner then Inl AlreadyHeld else Inl Conflict)"

definition hold_control ::
  "participant \<Rightarrow> 'c::linorder \<Rightarrow> 'r \<Rightarrow> ('c, 'r) ownership \<Rightarrow> (ownership_error, ('c, 'r) ownership) result" where
  "hold_control owner control rel s =
     rbind (get_session s owner) (\<lambda>u.
       if bt_get (session_holds u) control \<noteq> None then Inl AlreadyHeld
       else if length (session_holds u) \<ge> max_held s then Inl OwnershipCapacity
       else if bt_get (owners s) (session_domain u, control) \<noteq> None then Inl Conflict
       else rbind (ok_or OwnershipCapacity (checked_add_u64 (session_ordinal u) 1)) (\<lambda>n.
         Inr ((put_session owner
                 (u\<lparr>session_ordinal := n, session_holds :=
                     bt_insert control \<lparr>hold_release = rel, hold_ordinal = n\<rparr> (session_holds u)\<rparr>) s)
              \<lparr>owners := bt_insert (session_domain u, control) owner (owners s)\<rparr>)))"

definition held :: "('c::linorder, 'r) ownership \<Rightarrow> participant \<Rightarrow> 'c \<Rightarrow> (ownership_error, 'r) result" where
  "held s owner control =
     rbind (get_session s owner) (\<lambda>u.
       rbind (ok_or NotHeld (bt_get (session_holds u) control)) (\<lambda>h. Inr (hold_release h)))"

definition holds_of :: "('c, 'r) ownership \<Rightarrow> participant \<Rightarrow> (ownership_error, ('c \<times> 'r) list) result" where
  "holds_of s owner =
     rbind (get_session s owner) (\<lambda>u. Inr (map (\<lambda>(c, h). (c, hold_release h)) (session_holds u)))"

definition replace_release ::
  "participant \<Rightarrow> 'c::linorder \<Rightarrow> 'r \<Rightarrow> ('c, 'r) ownership \<Rightarrow> (ownership_error, 'r \<times> ('c, 'r) ownership) result" where
  "replace_release owner control rel s =
     rbind (get_session s owner) (\<lambda>u.
       rbind (ok_or NotHeld (bt_get (session_holds u) control)) (\<lambda>h.
         Inr (hold_release h,
              put_session owner (u\<lparr>session_holds := bt_insert control (h\<lparr>hold_release := rel\<rparr>) (session_holds u)\<rparr>) s)))"

definition update_release ::
  "participant \<Rightarrow> 'c::linorder \<Rightarrow> 'r \<Rightarrow> ('c, 'r) ownership \<Rightarrow> (ownership_error, ('c, 'r) ownership) result" where
  "update_release owner control rel s = rbind (replace_release owner control rel s) (\<lambda>(_, s'). Inr s')"

definition release ::
  "participant \<Rightarrow> 'c::linorder \<Rightarrow> ('c, 'r) ownership \<Rightarrow> (ownership_error, 'r \<times> ('c, 'r) ownership) result" where
  "release owner control s =
     rbind (get_session s owner) (\<lambda>u.
       rbind (ok_or NotHeld (bt_get (session_holds u) control)) (\<lambda>h.
         Inr (hold_release h,
              (put_session owner (u\<lparr>session_holds := bt_remove control (session_holds u)\<rparr>) s)
                \<lparr>owners := bt_remove (session_domain u, control) (owners s)\<rparr>)))"

definition release_order :: "('c, 'r hold) btree_map \<Rightarrow> 'r hold list" where
  "release_order m = rev (sort_key hold_ordinal (rev (map snd m)))"

definition close_session :: "participant \<Rightarrow> ('c::linorder, 'r) ownership \<Rightarrow> 'r list \<times> ('c, 'r) ownership" where
  "close_session owner s =
     (case bt_get (sessions s) owner of
        None \<Rightarrow> ([], s)
      | Some u \<Rightarrow>
          (map hold_release (release_order (session_holds u)),
           s\<lparr>sessions := bt_remove owner (sessions s),
             owners := fold (\<lambda>(c, _) m. bt_remove (session_domain u, c) m) (session_holds u) (owners s)\<rparr>))"

definition participants :: "('c, 'r) ownership \<Rightarrow> participant list" where
  "participants s = map fst (sessions s)"

definition held_count :: "('c, 'r) ownership \<Rightarrow> participant \<Rightarrow> (ownership_error, nat) result" where
  "held_count s owner = rbind (get_session s owner) (\<lambda>u. Inr (length (session_holds u)))"

section \<open>The ownership invariant\<close>

definition session_inv :: "nat \<Rightarrow> ('c::linorder, 'r) session \<Rightarrow> bool" where
  "session_inv m u \<longleftrightarrow>
     bt_wf (session_holds u) \<and> length (session_holds u) \<le> m \<and>
     distinct (map (hold_ordinal \<circ> snd) (session_holds u)) \<and>
     (\<forall>n \<in> set (map (hold_ordinal \<circ> snd) (session_holds u)). n \<le> session_ordinal u)"

definition holder :: "('c::linorder, 'r) ownership \<Rightarrow> string \<Rightarrow> 'c \<Rightarrow> participant \<Rightarrow> bool" where
  "holder s d c p \<longleftrightarrow>
     (\<exists>u. bt_get (sessions s) p = Some u \<and> session_domain u = d \<and> bt_get (session_holds u) c \<noteq> None)"

definition own_inv :: "('c::linorder, 'r) ownership \<Rightarrow> bool" where
  "own_inv s \<longleftrightarrow>
     bt_wf (sessions s) \<and> bt_wf (owners s) \<and> length (sessions s) \<le> max_sessions s \<and>
     (\<forall>p u. bt_get (sessions s) p = Some u \<longrightarrow>
        session_inv (max_held s) u \<and> registry p = registry_id s \<and> sequence p \<le> next_sequence s) \<and>
     (\<forall>d c p. bt_get (owners s) (d, c) = Some p \<longleftrightarrow> holder s d c p)"

lemma own_invD:
  assumes "own_inv s"
  shows "bt_wf (sessions s)" "bt_wf (owners s)" "length (sessions s) \<le> max_sessions s"
    "bt_get (sessions s) p = Some u \<Longrightarrow> session_inv (max_held s) u \<and> registry p = registry_id s \<and> sequence p \<le> next_sequence s"
    "bt_get (owners s) (d, c) = Some p \<longleftrightarrow> holder s d c p"
  using assms unfolding own_inv_def by blast+

lemma get_session_Inr [simp]: "get_session s p = Inr u \<longleftrightarrow> bt_get (sessions s) p = Some u"
  by (simp add: get_session_def)

lemma put_session_simps [simp]:
  "owners (put_session p u s) = owners s" "registry_id (put_session p u s) = registry_id s"
  "next_sequence (put_session p u s) = next_sequence s" "max_sessions (put_session p u s) = max_sessions s"
  "max_held (put_session p u s) = max_held s" "sessions (put_session p u s) = bt_insert p u (sessions s)"
  by (simp_all add: put_session_def)

lemma own_inv_new: "own_inv (snd (ownership_new n ms mh))"
  by (auto simp: own_inv_def ownership_new_def holder_def Let_def split: prod.splits)

lemma own_inv_open:
  assumes "own_inv s" "open_session t d s = Inr (p, s')"
  shows "own_inv s'"
proof -
  define u :: "('a, 'b) session" where "u = \<lparr>session_target = t, session_domain = d, session_holds = [], session_ordinal = 0, last_sequence = None\<rparr>"
  have s': "p = Participant (registry_id s) (next_sequence s + 1)" "length (sessions s) < max_sessions s"
      "s' = s\<lparr>next_sequence := next_sequence s + 1, sessions := bt_insert p u (sessions s)\<rparr>"
    using assms(2) by (auto simp: open_session_def u_def Let_def rbind_eq_Inr split: if_splits)
  note i = own_invD [OF assms(1)]
  have new: "bt_get (sessions s) p = None"
    using i(4) [of p] s'(1) by (cases "bt_get (sessions s) p") auto
  have h: "holder s' d' c q \<longleftrightarrow> holder s d' c q" for d' c q
    using new i(1) by (auto simp: holder_def s'(3) u_def store_simps)
  have sess: "session_inv (max_held s') v \<and> registry q = registry_id s' \<and> sequence q \<le> next_sequence s'"
    if "bt_get (sessions s') q = Some v" for q v
    using that i(1) i(4) [of q v] s'(1)
    by (auto simp: s'(3) u_def session_inv_def store_simps le_Suc_eq split: if_splits)
  show ?thesis
    unfolding own_inv_def h using i(1,2,5) s'(2) new sess
    by (auto simp: s'(3) store_simps length_bt_insert)
qed

lemma own_inv_put:
  assumes "own_inv s" "bt_get (sessions s) p = Some u" "session_inv (max_held s) v"
    and "session_domain v = session_domain u" "\<And>c. bt_get (session_holds v) c \<noteq> None \<longleftrightarrow> bt_get (session_holds u) c \<noteq> None"
  shows "own_inv (put_session p v s)"
proof -
  note i = own_invD [OF assms(1)]
  have h: "holder (put_session p v s) d c q \<longleftrightarrow> holder s d c q" for d c q
    using i(1) assms(2,4) assms(5) [of c] by (auto simp: holder_def store_simps)
  have sess: "session_inv (max_held s) w \<and> registry q = registry_id s \<and> sequence q \<le> next_sequence s"
    if "bt_get (sessions (put_session p v s)) q = Some w" for q w
    using that i(1) i(4) [of q w] i(4) [OF assms(2)] assms(3) by (auto simp: store_simps split: if_splits)
  show ?thesis
    unfolding own_inv_def h using i(1,2,3,5) assms(2) sess by (simp add: store_simps length_bt_insert)
qed

lemma own_inv_accept:
  assumes "own_inv s" "accept_sequence p n s = Inr s'"
  shows "own_inv s'"
proof -
  obtain u where "bt_get (sessions s) p = Some u" "s' = put_session p (u\<lparr>last_sequence := Some n\<rparr>) s"
    using assms(2) by (auto simp: accept_sequence_def split: if_splits elim!: rbindE)
  then show ?thesis
    using own_inv_put [OF assms(1), of p u "u\<lparr>last_sequence := Some n\<rparr>"] own_invD(4) [OF assms(1)]
    by (auto simp: session_inv_def)
qed

lemma own_inv_hold:
  assumes "own_inv s" "hold_control p c r s = Inr s'"
  shows "own_inv s'"
proof -
  obtain u where u: "bt_get (sessions s) p = Some u" "bt_get (session_holds u) c = None"
      "length (session_holds u) < max_held s" "bt_get (owners s) (session_domain u, c) = None"
      "s' = (put_session p (u\<lparr>session_ordinal := session_ordinal u + 1, session_holds :=
          bt_insert c \<lparr>hold_release = r, hold_ordinal = session_ordinal u + 1\<rparr> (session_holds u)\<rparr>) s)
        \<lparr>owners := bt_insert (session_domain u, c) p (owners s)\<rparr>"
    using assms(2) by (auto simp: hold_control_def rbind_eq_Inr split: if_splits)
  define v where "v = u\<lparr>session_ordinal := session_ordinal u + 1, session_holds :=
      bt_insert c \<lparr>hold_release = r, hold_ordinal = session_ordinal u + 1\<rparr> (session_holds u)\<rparr>"
  note i = own_invD [OF assms(1)]
  have w: "session_inv (max_held s) u" using i(4) [OF u(1)] by simp
  have v: "session_inv (max_held s) v"
  proof -
    let ?h = "\<lparr>hold_release = r, hold_ordinal = session_ordinal u + 1\<rparr>"
    have wf: "bt_wf (session_holds u)" using w by (simp add: session_inv_def)
    obtain as bs where ab: "session_holds u = as @ bs" "bt_insert c ?h (session_holds u) = as @ (c, ?h) # bs"
      using bt_insert_new [OF wf u(2)] by blast
    have "bt_wf (bt_insert c ?h (session_holds u))" using wf by (rule bt_wf_insert)
    moreover have "\<forall>x \<in> set as \<union> set bs. hold_ordinal (snd x) \<le> session_ordinal u" using w ab(1) by (auto simp: session_inv_def)
    ultimately show ?thesis
      using w u(3) ab by (force simp: v_def session_inv_def)
  qed
  have wf: "bt_wf (session_holds u)" using w by (simp add: session_inv_def)
  have h: "holder s' d k q \<longleftrightarrow> holder s d k q \<or> (d = session_domain u \<and> k = c \<and> q = p)" for d k q
    using i(1) u(1,2) wf by (auto simp: holder_def u(5) store_simps)
  have sess: "session_inv (max_held s) x \<and> registry q = registry_id s \<and> sequence q \<le> next_sequence s"
    if "bt_get (sessions s') q = Some x" for q x
    using that i(1) i(4) [of q x] i(4) [OF u(1)] v by (auto simp: u(5) v_def store_simps split: if_splits)
  have own: "bt_get (owners s') (d, k) = Some q \<longleftrightarrow> holder s' d k q" for d k q
    unfolding h using i(2) i(5) [of d k q] u(4) by (auto simp: u(5) store_simps)
  show ?thesis
    unfolding own_inv_def using own sess i(1,2,3) u(1) by (simp add: u(5) store_simps length_bt_insert)
qed

lemma map_snd_replace:
  assumes "bt_wf m" "bt_get m c = Some h" "f g = f h"
  shows "map (f \<circ> snd) (bt_insert c g m) = map (f \<circ> snd) m" "length (bt_insert c g m) = length m"
  using assms by (induction c g m rule: bt_insert.induct) (fastforce simp: bt_wf_Cons bt_get_def dest!: map_of_SomeD split: if_splits)+

lemma own_inv_replace:
  assumes "own_inv s" "replace_release p c r s = Inr (old, s')"
  shows "own_inv s'"
proof -
  obtain u h where u: "bt_get (sessions s) p = Some u" "bt_get (session_holds u) c = Some h"
      "s' = put_session p (u\<lparr>session_holds := bt_insert c (h\<lparr>hold_release := r\<rparr>) (session_holds u)\<rparr>) s"
    using assms(2) by (auto simp: replace_release_def elim!: rbindE)
  have w: "session_inv (max_held s) u" using own_invD(4) [OF assms(1) u(1)] by simp
  then have wf: "bt_wf (session_holds u)" by (simp add: session_inv_def)
  have "hold_ordinal (h\<lparr>hold_release := r\<rparr>) = hold_ordinal h" by simp
  note ms = map_snd_replace [OF wf u(2) this]
  have "session_inv (max_held s) (u\<lparr>session_holds := bt_insert c (h\<lparr>hold_release := r\<rparr>) (session_holds u)\<rparr>)"
    using w wf unfolding session_inv_def by (simp add: ms store_simps del: set_map)
  then show ?thesis
    unfolding u(3) by (rule own_inv_put [OF assms(1) u(1)]) (use wf u(2) in \<open>auto simp: store_simps\<close>)
qed

lemma own_inv_release:
  assumes "own_inv s" "release p c s = Inr (r, s')"
  shows "own_inv s'"
proof -
  obtain u h where u: "bt_get (sessions s) p = Some u" "bt_get (session_holds u) c = Some h"
      "s' = (put_session p (u\<lparr>session_holds := bt_remove c (session_holds u)\<rparr>) s)\<lparr>owners := bt_remove (session_domain u, c) (owners s)\<rparr>"
    using assms(2) by (auto simp: release_def elim!: rbindE)
  note i = own_invD [OF assms(1)]
  have w: "session_inv (max_held s) u" using i(4) [OF u(1)] by simp
  then have wf: "bt_wf (session_holds u)" by (simp add: session_inv_def)
  have v: "session_inv (max_held s) (u\<lparr>session_holds := bt_remove c (session_holds u)\<rparr>)"
    using w wf by (auto simp: session_inv_def bt_remove_def bt.wf_del [unfolded bt_remove_def] distinct_map_filter
        intro: le_trans [OF length_filter_le])
  have h: "holder s' d k q \<longleftrightarrow> holder s d k q \<and> \<not> (d = session_domain u \<and> k = c \<and> q = p)" for d k q
    using i(1) u(1) wf by (auto simp: holder_def u(3) store_simps)
  have mine: "holder s (session_domain u) c p" using u(1,2) by (auto simp: holder_def)
  have own: "bt_get (owners s') (d, k) = Some q \<longleftrightarrow> holder s' d k q" for d k q
    unfolding h using i(2) i(5) [of d k q] i(5) [of "session_domain u" c p] mine by (auto simp: u(3) store_simps)
  have sess: "session_inv (max_held s) x \<and> registry q = registry_id s \<and> sequence q \<le> next_sequence s"
    if "bt_get (sessions s') q = Some x" for q x
    using that i(1) i(4) [of q x] i(4) [OF u(1)] v by (auto simp: u(3) store_simps split: if_splits)
  show ?thesis
    unfolding own_inv_def using own sess i(1,2,3) u(1) by (simp add: u(3) store_simps length_bt_insert)
qed

lemma fold_remove_owners:
  "bt_wf m \<Longrightarrow> bt_wf (fold (\<lambda>(c, _) m. bt_remove (d, c) m) cs m) \<and>
   bt_get (fold (\<lambda>(c, _) m. bt_remove (d, c) m) cs m) k = (if fst k = d \<and> snd k \<in> fst ` set cs then None else bt_get m k)"
proof (induction cs arbitrary: m)
  case (Cons a cs)
  have "bt_wf (bt_remove (d, fst a) m)" using Cons.prems by (rule bt.wf_del)
  from Cons.IH [OF this] show ?case using Cons.prems by (cases a; cases k) (auto simp: store_simps)
qed simp

lemma own_inv_close:
  assumes "own_inv s" "close_session p s = (rs, s')"
  shows "own_inv s'"
proof (cases "bt_get (sessions s) p")
  case None
  then show ?thesis using assms by (simp add: close_session_def)
next
  case (Some u)
  then have s': "s' = s\<lparr>sessions := bt_remove p (sessions s),
      owners := fold (\<lambda>(c, _) m. bt_remove (session_domain u, c) m) (session_holds u) (owners s)\<rparr>"
    using assms(2) by (simp add: close_session_def)
  note i = own_invD [OF assms(1)] and fo = fold_remove_owners [OF own_invD(2) [OF assms(1)], of "session_domain u" "session_holds u"]
  have h: "holder s' d k q \<longleftrightarrow> holder s d k q \<and> q \<noteq> p" for d k q
    using i(1) by (auto simp: holder_def s' store_simps)
  have mem: "k \<in> fst ` set (session_holds u) \<longleftrightarrow> bt_get (session_holds u) k \<noteq> None" for k
    using bt_get_None_iff [of "session_holds u" k] by simp
  have own: "bt_get (owners s') (d, k) = Some q \<longleftrightarrow> holder s' d k q" for d k q
  proof (cases "d = session_domain u \<and> bt_get (session_holds u) k \<noteq> None")
    case True
    then have "holder s d k p" using Some by (auto simp: holder_def)
    then have "bt_get (owners s) (d, k) = Some p" using i(5) by blast
    then have "holder s d k q \<longrightarrow> q = p" using i(5) [of d k q] by auto
    then show ?thesis unfolding h using fo [of "(d, k)"] mem [of k] True by (auto simp: s')
  next
    case False
    then have "\<not> holder s d k p" using Some by (auto simp: holder_def)
    then show ?thesis
      unfolding h using fo [of "(d, k)"] mem [of k] False i(5) [of d k q] by (auto simp: s')
  qed
  have sess: "session_inv (max_held s) x \<and> registry q = registry_id s \<and> sequence q \<le> next_sequence s"
    if "bt_get (sessions s') q = Some x" for q x
    using that i(1) i(4) [of q x] by (auto simp: s' store_simps split: if_splits)
  have "length (bt_remove p (sessions s)) \<le> max_sessions s"
    using i(3) length_bt_remove [OF i(1), of p] by (auto split: if_splits)
  then show ?thesis
    unfolding own_inv_def using own sess i(1) fo by (simp add: s' store_simps)
qed

end
