(* ===== verification/OwnershipSpec.thy ===== *)
theory OwnershipSpec
  imports Ownership "HOL-Library.Multiset"
begin

text \<open>
  The contract of the ownership registry. A run is a sequence of its operations with their results; the
  specification gives each participant a stack of holds and has neither owner index nor ordinals. The
  registry refines it; a token is never used twice, accepted sequence numbers increase, and the locale
  \<open>participant_isolation\<close> states that a participant's cleanup depends on nobody else.
\<close>

section \<open>Operations and runs\<close>

datatype ('c, 'r) own_op =
  OpOpen target_identity string
| OpTarget participant
| OpAccept participant nat
| OpAvailable participant 'c
| OpHold participant 'c 'r
| OpHeld participant 'c
| OpReplace participant 'c 'r
| OpRelease participant 'c
| OpClose participant
| OpCount participant

datatype 'r own_result =
  Opened participant | TargetIs target_identity | Accepted | HeldRelease 'r | Drained "'r list" | HeldCount nat
| Refused ownership_error

definition settle :: "'s \<Rightarrow> ('a \<Rightarrow> 'r own_result \<times> 's) \<Rightarrow> (ownership_error, 'a) result \<Rightarrow> 'r own_result \<times> 's" where
  "settle s f m = (case m of Inl e \<Rightarrow> (Refused e, s) | Inr x \<Rightarrow> f x)"

fun own_exec :: "('c::linorder, 'r) own_op \<Rightarrow> ('c, 'r) ownership \<Rightarrow> 'r own_result \<times> ('c, 'r) ownership" where
  "own_exec (OpOpen t d) s = settle s (\<lambda>(p, s'). (Opened p, s')) (open_session t d s)"
| "own_exec (OpTarget p) s = settle s (\<lambda>t. (TargetIs t, s)) (target_of s p)"
| "own_exec (OpAccept p n) s = settle s (\<lambda>s'. (Accepted, s')) (accept_sequence p n s)"
| "own_exec (OpAvailable p c) s = settle s (\<lambda>_. (Accepted, s)) (available s p c)"
| "own_exec (OpHold p c r) s = settle s (\<lambda>s'. (Accepted, s')) (hold_control p c r s)"
| "own_exec (OpHeld p c) s = settle s (\<lambda>r. (HeldRelease r, s)) (held s p c)"
| "own_exec (OpReplace p c r) s = settle s (\<lambda>(q, s'). (HeldRelease q, s')) (replace_release p c r s)"
| "own_exec (OpRelease p c) s = settle s (\<lambda>(r, s'). (HeldRelease r, s')) (release p c s)"
| "own_exec (OpClose p) s = (case close_session p s of (rs, s') \<Rightarrow> (Drained rs, s'))"
| "own_exec (OpCount p) s = settle s (\<lambda>n. (HeldCount n, s)) (held_count s p)"

inductive own_run :: "('c::linorder, 'r) ownership \<Rightarrow> (('c, 'r) own_op \<times> 'r own_result) list \<Rightarrow> ('c, 'r) ownership \<Rightarrow> bool" where
  own_run_refl: "own_run s [] s"
| own_run_step: "own_run s tr s' \<Longrightarrow> own_exec op s' = (res, s'') \<Longrightarrow> own_run s (tr @ [(op, res)]) s''"

definition own_reachable :: "('c::linorder, 'r) ownership \<Rightarrow> bool" where
  "own_reachable s \<longleftrightarrow> (\<exists>n ms mh tr. own_run (snd (ownership_new n ms mh)) tr s)"

lemma settle_simps [simp]: "settle s f (Inl e) = (Refused e, s)" "settle s f (Inr x) = f x"
  by (simp_all add: settle_def)

lemma settle_eq: "settle s f m = (res, s') \<longleftrightarrow> (\<exists>e. m = Inl e \<and> res = Refused e \<and> s' = s) \<or> (\<exists>x. m = Inr x \<and> f x = (res, s'))"
  by (cases m) auto

lemma own_inv_exec: "own_inv s \<Longrightarrow> own_exec op s = (res, s') \<Longrightarrow> own_inv s'"
  by (cases op) (auto simp: settle_eq split: prod.splits
      intro: own_inv_open own_inv_accept own_inv_hold own_inv_replace own_inv_release own_inv_close)

lemma own_inv_run: "own_run s tr s' \<Longrightarrow> own_inv s \<Longrightarrow> own_inv s'"
  by (induction rule: own_run.induct) (auto intro: own_inv_exec)

lemma reachable_inv: "own_reachable s \<Longrightarrow> own_inv s"
  unfolding own_reachable_def using own_inv_run own_inv_new by blast

section \<open>The specification: a stack of holds per participant\<close>

text \<open>
  The specification keeps no owner index and no ordinals: a seat holds its controls as a list in the
  order they were acquired, and a conflict is a seat of another participant in the same collision domain
  with the control in its list.
\<close>

record ('c, 'r) seat =
  seat_target :: target_identity
  seat_domain :: string
  seat_stack :: "('c \<times> 'r) list"
  seat_acquired :: nat
  seat_last :: "nat option"

record ('c, 'r) room =
  seats :: "participant \<Rightarrow> ('c, 'r) seat option"
  room_registry :: nat
  room_next :: nat
  room_sessions :: nat
  room_held :: nat

definition seat_holds :: "('c, 'r) seat \<Rightarrow> 'c \<Rightarrow> bool" where
  "seat_holds u c \<longleftrightarrow> c \<in> fst ` set (seat_stack u)"

definition contested :: "('c, 'r) room \<Rightarrow> participant \<Rightarrow> string \<Rightarrow> 'c \<Rightarrow> bool" where
  "contested a p d c \<longleftrightarrow> (\<exists>q v. q \<noteq> p \<and> seats a q = Some v \<and> seat_domain v = d \<and> seat_holds v c)"

definition with_seat :: "('c, 'r) room \<Rightarrow> participant \<Rightarrow> (('c, 'r) seat \<Rightarrow> 'r own_result \<times> ('c, 'r) room) \<Rightarrow> 'r own_result \<times> ('c, 'r) room" where
  "with_seat a p f = (case seats a p of None \<Rightarrow> (Refused SessionNotFound, a) | Some u \<Rightarrow> f u)"

definition set_seat :: "participant \<Rightarrow> ('c, 'r) seat option \<Rightarrow> ('c, 'r) room \<Rightarrow> ('c, 'r) room" where
  "set_seat p u a = a\<lparr>seats := (seats a)(p := u)\<rparr>"

definition with_hold :: "('c, 'r) room \<Rightarrow> ('c, 'r) seat \<Rightarrow> 'c \<Rightarrow> ('r \<Rightarrow> ('c, 'r) room) \<Rightarrow> 'r own_result \<times> ('c, 'r) room" where
  "with_hold a u c f = (case map_of (seat_stack u) c of None \<Rightarrow> (Refused NotHeld, a) | Some r \<Rightarrow> (HeldRelease r, f r))"

fun room_exec :: "('c, 'r) own_op \<Rightarrow> ('c, 'r) room \<Rightarrow> 'r own_result \<times> ('c, 'r) room" where
  "room_exec (OpOpen t d) a =
     (if room_registry a = 0 \<or> card (dom (seats a)) \<ge> room_sessions a \<or> room_next a \<ge> u64_max then (Refused OwnershipCapacity, a)
      else let p = Participant (room_registry a) (room_next a + 1)
        in (Opened p, set_seat p (Some \<lparr>seat_target = t, seat_domain = d, seat_stack = [], seat_acquired = 0, seat_last = None\<rparr>)
              (a\<lparr>room_next := room_next a + 1\<rparr>)))"
| "room_exec (OpTarget p) a = with_seat a p (\<lambda>u. (TargetIs (seat_target u), a))"
| "room_exec (OpAccept p n) a = with_seat a p (\<lambda>u.
     if \<exists>m. seat_last u = Some m \<and> n \<le> m then (Refused StaleInput, a)
     else (Accepted, set_seat p (Some (u\<lparr>seat_last := Some n\<rparr>)) a))"
| "room_exec (OpAvailable p c) a = with_seat a p (\<lambda>u.
     if seat_holds u c then (Refused AlreadyHeld, a)
     else if contested a p (seat_domain u) c then (Refused Conflict, a) else (Accepted, a))"
| "room_exec (OpHold p c r) a = with_seat a p (\<lambda>u.
     if seat_holds u c then (Refused AlreadyHeld, a)
     else if length (seat_stack u) \<ge> room_held a then (Refused OwnershipCapacity, a)
     else if contested a p (seat_domain u) c then (Refused Conflict, a)
     else if seat_acquired u \<ge> u64_max then (Refused OwnershipCapacity, a)
     else (Accepted, set_seat p (Some (u\<lparr>seat_acquired := seat_acquired u + 1, seat_stack := seat_stack u @ [(c, r)]\<rparr>)) a))"
| "room_exec (OpHeld p c) a = with_seat a p (\<lambda>u. with_hold a u c (\<lambda>_. a))"
| "room_exec (OpReplace p c r) a = with_seat a p (\<lambda>u. with_hold a u c (\<lambda>_.
     set_seat p (Some (u\<lparr>seat_stack := map (\<lambda>(k, x). (k, if k = c then r else x)) (seat_stack u)\<rparr>)) a))"
| "room_exec (OpRelease p c) a = with_seat a p (\<lambda>u. with_hold a u c (\<lambda>_.
     set_seat p (Some (u\<lparr>seat_stack := filter (\<lambda>e. fst e \<noteq> c) (seat_stack u)\<rparr>)) a))"
| "room_exec (OpClose p) a =
     (case seats a p of None \<Rightarrow> (Drained [], a)
      | Some u \<Rightarrow> (Drained (rev (map snd (seat_stack u))), set_seat p None a))"
| "room_exec (OpCount p) a = with_seat a p (\<lambda>u. (HeldCount (length (seat_stack u)), a))"

section \<open>Abstraction\<close>

definition by_age :: "('c, 'r hold) btree_map \<Rightarrow> ('c \<times> 'r hold) list" where
  "by_age m = sort_key (hold_ordinal \<circ> snd) m"

definition stack_of :: "('c, 'r hold) btree_map \<Rightarrow> ('c \<times> 'r) list" where
  "stack_of m = map (\<lambda>(c, h). (c, hold_release h)) (by_age m)"

definition abs_session :: "('c, 'r) session \<Rightarrow> ('c, 'r) seat" where
  "abs_session u = \<lparr>seat_target = session_target u, seat_domain = session_domain u, seat_stack = stack_of (session_holds u),
     seat_acquired = session_ordinal u, seat_last = last_sequence u\<rparr>"

definition abs_ownership :: "('c::linorder, 'r) ownership \<Rightarrow> ('c, 'r) room" where
  "abs_ownership s = \<lparr>seats = (\<lambda>p. map_option abs_session (bt_get (sessions s) p)), room_registry = registry_id s,
     room_next = next_sequence s, room_sessions = max_sessions s, room_held = max_held s\<rparr>"

lemma abs_session_simps [simp]:
  "seat_target (abs_session u) = session_target u" "seat_domain (abs_session u) = session_domain u"
  "seat_stack (abs_session u) = stack_of (session_holds u)" "seat_acquired (abs_session u) = session_ordinal u"
  "seat_last (abs_session u) = last_sequence u"
  by (simp_all add: abs_session_def)

lemma abs_session_updates [simp]:
  "abs_session (u\<lparr>last_sequence := x\<rparr>) = (abs_session u)\<lparr>seat_last := x\<rparr>"
  "abs_session (u\<lparr>session_holds := m\<rparr>) = (abs_session u)\<lparr>seat_stack := stack_of m\<rparr>"
  "abs_session (u\<lparr>session_ordinal := n\<rparr>) = (abs_session u)\<lparr>seat_acquired := n\<rparr>"
  by (simp_all add: abs_session_def)

lemma abs_ownership_simps [simp]:
  "seats (abs_ownership s) p = map_option abs_session (bt_get (sessions s) p)" "room_registry (abs_ownership s) = registry_id s"
  "room_next (abs_ownership s) = next_sequence s" "room_sessions (abs_ownership s) = max_sessions s"
  "room_held (abs_ownership s) = max_held s"
  by (simp_all add: abs_ownership_def)

lemma length_stack_of [simp]: "length (stack_of m) = length m"
  by (simp add: stack_of_def by_age_def)

lemma keys_stack_of [simp]: "fst ` set (stack_of m) = set (map fst m)"
  by (force simp: stack_of_def by_age_def)

lemma stack_of_Nil [simp]: "stack_of [] = []"
  by (simp add: stack_of_def by_age_def)

lemma seat_holds_abs [simp]: "seat_holds (abs_session u) c \<longleftrightarrow> bt_get (session_holds u) c \<noteq> None"
  by (simp add: seat_holds_def bt_get_None_iff)

lemma session_invD:
  assumes "session_inv m u"
  shows "bt_wf (session_holds u)" "length (session_holds u) \<le> m" "inj_on (hold_ordinal \<circ> snd) (set (session_holds u))"
    "(c, h) \<in> set (session_holds u) \<Longrightarrow> hold_ordinal h \<le> session_ordinal u"
  using assms by (auto simp: session_inv_def distinct_map)

lemma map_of_stack:
  assumes "bt_wf m"
  shows "map_of (stack_of m) c = map_option hold_release (bt_get m c)"
proof -
  have d: "distinct (map fst (by_age m))"
    using bt_wf_distinct [OF assms] mset_eq_imp_distinct_iff [of "map fst (by_age m)" "map fst m"] by (simp add: by_age_def)
  have "map_of (by_age m) = map_of m"
    by (rule map_of_inject_set [THEN iffD2, OF d bt_wf_distinct [OF assms]]) (simp add: by_age_def)
  then show ?thesis by (simp add: stack_of_def map_of_map bt_get_def)
qed


lemma by_age_eqI:
  assumes "mset xs = mset m" "inj_on (hold_ordinal \<circ> snd) (set m)" "sorted (map (hold_ordinal \<circ> snd) xs)"
  shows "by_age m = xs"
  unfolding by_age_def by (rule sort_key_inj_key_eq) (use assms in auto)

lemma sorted_by_age: "sorted (map (hold_ordinal \<circ> snd) (by_age m))"
  by (simp only: by_age_def sorted_sort_key)

lemma stack_of_acquire:
  assumes "session_inv k u" "bt_get (session_holds u) c = None"
  shows "stack_of (bt_insert c \<lparr>hold_release = r, hold_ordinal = Suc (session_ordinal u)\<rparr> (session_holds u))
    = stack_of (session_holds u) @ [(c, r)]"
proof -
  let ?h = "\<lparr>hold_release = r, hold_ordinal = Suc (session_ordinal u)\<rparr>" and ?m = "session_holds u"
  note v = session_invD [OF assms(1)]
  obtain as bs where ab: "?m = as @ bs" "bt_insert c ?h ?m = as @ (c, ?h) # bs"
    using bt_insert_new [OF v(1) assms(2)] by blast
  have old: "hold_ordinal (snd e) \<le> session_ordinal u" if "e \<in> set ?m" for e using v(4) that by (cases e) auto
  have "by_age (bt_insert c ?h ?m) = by_age ?m @ [(c, ?h)]"
  proof (rule by_age_eqI)
    show "mset (by_age ?m @ [(c, ?h)]) = mset (bt_insert c ?h ?m)" unfolding ab(2) by (simp add: by_age_def ab(1))
    have "inj_on (hold_ordinal \<circ> snd) (insert (c, ?h) (set ?m))" using v(3) old by (fastforce simp: inj_on_def)
    then show "inj_on (hold_ordinal \<circ> snd) (set (bt_insert c ?h ?m))" using ab by simp
    show "sorted (map (hold_ordinal \<circ> snd) (by_age ?m @ [(c, ?h)]))"
      using sorted_by_age [of ?m] old by (auto simp: sorted_append by_age_def intro: le_SucI)
  qed
  then show ?thesis by (simp add: stack_of_def)
qed

lemma stack_of_replace:
  assumes "session_inv k u" "bt_get (session_holds u) c = Some h"
  shows "stack_of (bt_insert c (h\<lparr>hold_release := r\<rparr>) (session_holds u))
    = map (\<lambda>(k, x). (k, if k = c then r else x)) (stack_of (session_holds u))"
proof -
  let ?m = "session_holds u" and ?g = "\<lambda>e. if fst e = c then (c, h\<lparr>hold_release := r\<rparr>) else e"
  note v = session_invD [OF assms(1)]
  have eq: "bt_insert c (h\<lparr>hold_release := r\<rparr>) ?m = map ?g ?m" using assms(2) by (intro bt_insert_present [OF v(1)]) simp
  have own: "e = (c, h)" if "e \<in> set ?m" "fst e = c" for e
    using that assms(2) bt_get_eq_Some [OF v(1), of c "snd e"] by (cases e) auto
  then have key: "hold_ordinal (snd (?g e)) = hold_ordinal (snd e)" if "e \<in> set ?m" for e using that own [of e] by (cases e) auto
  have "by_age (map ?g ?m) = map ?g (by_age ?m)"
  proof (rule by_age_eqI)
    show "mset (map ?g (by_age ?m)) = mset (map ?g ?m)" by (simp add: by_age_def)
    show "inj_on (hold_ordinal \<circ> snd) (set (map ?g ?m))"
    proof (rule inj_onI)
      fix x y
      assume "x \<in> set (map ?g ?m)" "y \<in> set (map ?g ?m)" and eq: "(hold_ordinal \<circ> snd) x = (hold_ordinal \<circ> snd) y"
      then obtain e f where ef: "e \<in> set ?m" "f \<in> set ?m" "x = ?g e" "y = ?g f" unfolding set_map by blast
      with eq have "(hold_ordinal \<circ> snd) e = (hold_ordinal \<circ> snd) f" using key [of e] key [of f] by (simp only: comp_apply)
      then have "e = f" using inj_onD [OF v(3)] ef by blast
      then show "x = y" using ef by simp
    qed
    have "map (hold_ordinal \<circ> snd) (map ?g (by_age ?m)) = map (hold_ordinal \<circ> snd) (by_age ?m)"
      unfolding map_map by (rule map_cong [OF refl]) (use key in \<open>auto simp: by_age_def\<close>)
    then show "sorted (map (hold_ordinal \<circ> snd) (map ?g (by_age ?m)))" using sorted_by_age [of ?m] by (simp only:)
  qed
  moreover have "set (by_age ?m) = set ?m" by (simp add: by_age_def)
  ultimately show ?thesis unfolding eq by (auto simp: stack_of_def)
qed

lemma stack_of_release: "stack_of (bt_remove c m) = filter (\<lambda>e. fst e \<noteq> c) (stack_of m)"
  by (auto simp: stack_of_def by_age_def bt_remove_def filter_sort [symmetric] filter_map comp_def case_prod_unfold)

lemma drain_stack:
  assumes "session_inv k u"
  shows "map hold_release (release_order (session_holds u)) = rev (map snd (stack_of (session_holds u)))"
proof -
  let ?m = "session_holds u"
  note v = session_invD [OF assms(1)]
  have "sort_key hold_ordinal (rev (map snd ?m)) = map snd (by_age ?m)"
  proof (rule sort_key_inj_key_eq)
    show "mset (rev (map snd ?m)) = mset (map snd (by_age ?m))" by (simp add: by_age_def)
    show "inj_on hold_ordinal (set (rev (map snd ?m)))" using v(3) by (fastforce simp: inj_on_def)
    show "sorted (map hold_ordinal (map snd (by_age ?m)))" using sorted_by_age [of ?m] by (simp add: comp_def)
  qed
  then show ?thesis by (simp add: release_order_def stack_of_def rev_map comp_def case_prod_unfold)
qed


lemma contested_abs:
  assumes "own_inv s" "bt_get (sessions s) p = Some u" "bt_get (session_holds u) c = None"
  shows "contested (abs_ownership s) p (session_domain u) c \<longleftrightarrow> bt_get (owners s) (session_domain u, c) \<noteq> None"
proof -
  have "contested (abs_ownership s) p (session_domain u) c \<longleftrightarrow> (\<exists>q. q \<noteq> p \<and> holder s (session_domain u) c q)"
    by (auto simp: contested_def holder_def)
  also have "\<dots> \<longleftrightarrow> (\<exists>q. holder s (session_domain u) c q)" 
  proof -
    have "\<not> holder s (session_domain u) c p" using assms(2,3) by (simp add: holder_def)
    then show ?thesis by metis
  qed
  finally show ?thesis using own_invD(5) [OF assms(1), of "session_domain u" c] by auto
qed

lemma owner_self:
  assumes "own_inv s" "bt_get (sessions s) p = Some u"
  shows "bt_get (owners s) (session_domain u, c) = Some p \<longleftrightarrow> bt_get (session_holds u) c \<noteq> None"
  using own_invD(5) [OF assms(1), of "session_domain u" c p] assms(2) by (auto simp: holder_def)

lemma card_seats: "bt_wf (sessions s) \<Longrightarrow> card (dom (seats (abs_ownership s))) = length (sessions s)"
proof -
  assume "bt_wf (sessions s)"
  then have "distinct (map fst (sessions s))" by (rule bt_wf_distinct)
  moreover have "dom (seats (abs_ownership s)) = set (map fst (sessions s))"
    unfolding dom_def abs_ownership_simps by (auto simp: bt_get_None_iff)
  ultimately show ?thesis using distinct_card [of "map fst (sessions s)"] by (simp only: length_map)
qed

lemma abs_put:
  assumes "bt_wf (sessions s)"
  shows "abs_ownership (put_session p u s) = set_seat p (Some (abs_session u)) (abs_ownership s)"
    "abs_ownership (put_session p u s\<lparr>owners := w\<rparr>) = set_seat p (Some (abs_session u)) (abs_ownership s)"
  using assms by (auto simp: abs_ownership_def set_seat_def put_session_def store_simps)



lemma get_session_eq: "get_session s p = (case bt_get (sessions s) p of None \<Rightarrow> Inl SessionNotFound | Some u \<Rightarrow> Inr u)"
  by (simp add: get_session_def ok_or_def split: option.splits)

lemma refines_open:
  assumes "own_inv s"
  shows "room_exec (OpOpen t d) (abs_ownership s) = apsnd abs_ownership (own_exec (OpOpen t d) s)"
  using own_invD(1) [OF assms] card_seats [OF own_invD(1) [OF assms]]
  by (auto simp: open_session_def Let_def checked_add_u64_def set_seat_def abs_ownership_def abs_session_def store_simps ok_or_def
      split: if_splits)

lemma refines_accept:
  assumes "own_inv s"
  shows "room_exec (OpAccept p n) (abs_ownership s) = apsnd abs_ownership (own_exec (OpAccept p n) s)"
  using own_invD(1) [OF assms]
  by (cases "bt_get (sessions s) p")
    (auto simp: accept_sequence_def with_seat_def get_session_eq abs_put split: option.splits)

lemma refines_available:
  assumes "own_inv s"
  shows "room_exec (OpAvailable p c) (abs_ownership s) = apsnd abs_ownership (own_exec (OpAvailable p c) s)"
proof (cases "bt_get (sessions s) p")
  case (Some u)
  then show ?thesis
    using owner_self [OF assms Some, of c] contested_abs [OF assms Some, of c]
    by (auto simp: available_def with_seat_def get_session_eq split: option.splits)
qed (simp add: available_def with_seat_def get_session_eq)

lemma refines_hold:
  assumes "own_inv s"
  shows "room_exec (OpHold p c r) (abs_ownership s) = apsnd abs_ownership (own_exec (OpHold p c r) s)"
proof (cases "bt_get (sessions s) p")
  case (Some u)
  have v: "session_inv (max_held s) u" using own_invD(4) [OF assms Some] by simp
  show ?thesis
    using Some contested_abs [OF assms Some, of c] own_invD(1) [OF assms] stack_of_acquire [OF v, of c r]
    by (auto simp: hold_control_def with_seat_def get_session_eq abs_put checked_add_u64_def ok_or_def)
qed (simp add: hold_control_def with_seat_def get_session_eq)

lemma refines_held_control:
  assumes "own_inv s"
  shows "room_exec (OpHeld p c) (abs_ownership s) = apsnd abs_ownership (own_exec (OpHeld p c) s)"
    "room_exec (OpReplace p c r) (abs_ownership s) = apsnd abs_ownership (own_exec (OpReplace p c r) s)"
    "room_exec (OpRelease p c) (abs_ownership s) = apsnd abs_ownership (own_exec (OpRelease p c) s)"
proof -
  note defs = held_def replace_release_def release_def with_seat_def with_hold_def get_session_eq abs_put [OF own_invD(1) [OF assms]]
  have "room_exec (OpHeld p c) (abs_ownership s) = apsnd abs_ownership (own_exec (OpHeld p c) s) \<and>
    room_exec (OpReplace p c r) (abs_ownership s) = apsnd abs_ownership (own_exec (OpReplace p c r) s) \<and>
    room_exec (OpRelease p c) (abs_ownership s) = apsnd abs_ownership (own_exec (OpRelease p c) s)"
  proof (cases "bt_get (sessions s) p")
    case (Some u)
    have v: "session_inv (max_held s) u" using own_invD(4) [OF assms Some] by simp
    show ?thesis
      using Some map_of_stack [OF session_invD(1) [OF v], of c] stack_of_replace [OF v, of c]
      by (cases "bt_get (session_holds u) c") (auto simp: defs stack_of_release ok_or_def)
  qed (simp add: defs)
  then show "room_exec (OpHeld p c) (abs_ownership s) = apsnd abs_ownership (own_exec (OpHeld p c) s)"
    "room_exec (OpReplace p c r) (abs_ownership s) = apsnd abs_ownership (own_exec (OpReplace p c r) s)"
    "room_exec (OpRelease p c) (abs_ownership s) = apsnd abs_ownership (own_exec (OpRelease p c) s)" by blast+
qed

lemma refines_close:
  assumes "own_inv s"
  shows "room_exec (OpClose p) (abs_ownership s) = apsnd abs_ownership (own_exec (OpClose p) s)"
proof (cases "bt_get (sessions s) p")
  case (Some u)
  have v: "session_inv (max_held s) u" using own_invD(4) [OF assms Some] by simp
  show ?thesis
    using Some own_invD(1) [OF assms] drain_stack [OF v]
    by (auto simp: close_session_def set_seat_def abs_ownership_def store_simps)
qed (simp add: close_session_def)

lemma refines_queries:
  "room_exec (OpTarget p) (abs_ownership s) = apsnd abs_ownership (own_exec (OpTarget p) s)"
  "room_exec (OpCount p) (abs_ownership s) = apsnd abs_ownership (own_exec (OpCount p) s)"
  by (auto simp: target_of_def held_count_def with_seat_def get_session_eq split: option.splits)

lemmas refines_ops = refines_open refines_accept refines_available refines_hold refines_held_control refines_close refines_queries

lemma own_exec_refines: "own_inv s \<Longrightarrow> room_exec op (abs_ownership s) = apsnd abs_ownership (own_exec op s)"
  by (cases op) (simp_all only: refines_ops)

section \<open>Isolation of participants\<close>

text \<open>
  The contract of a component participants share: an operation of one participant, or of none, leaves the
  seat of every other live participant as it is.
\<close>

locale seat_frame =
  fixes exec :: "'op \<Rightarrow> 's \<Rightarrow> 'res \<times> 's"
    and actor :: "'op \<Rightarrow> participant option"
    and seat :: "'s \<Rightarrow> participant \<Rightarrow> 'v option"
    and inv :: "'s \<Rightarrow> bool"
  assumes inv_exec: "inv s \<Longrightarrow> inv (snd (exec op s))"
    and other_seat: "inv s \<Longrightarrow> actor op \<noteq> Some p \<Longrightarrow> seat s p = Some v \<Longrightarrow> seat (snd (exec op s)) p = Some v"
begin

definition execs :: "'op list \<Rightarrow> 's \<Rightarrow> 's" where
  "execs ops s = fold (\<lambda>op s. snd (exec op s)) ops s"

lemma execs_inv: "inv s \<Longrightarrow> inv (execs ops s)"
  by (induction ops arbitrary: s) (simp_all add: execs_def inv_exec)

lemma execs_seat:
  "inv s \<Longrightarrow> \<forall>op \<in> set ops. actor op \<noteq> Some p \<Longrightarrow> seat s p = Some v \<Longrightarrow> seat (execs ops s) p = Some v"
  by (induction ops arbitrary: s) (simp_all add: execs_def inv_exec other_seat)

end

text \<open>Where draining a seat depends on that seat alone, nobody else changes what a participant's cleanup returns.\<close>

locale participant_isolation = seat_frame exec actor seat inv
  for exec :: "'op \<Rightarrow> 's \<Rightarrow> 'res \<times> 's" and actor :: "'op \<Rightarrow> participant option"
    and seat :: "'s \<Rightarrow> participant \<Rightarrow> 'v option" and inv :: "'s \<Rightarrow> bool" +
  fixes drain :: "participant \<Rightarrow> 'op"
  assumes drain_local: "inv s \<Longrightarrow> inv t \<Longrightarrow> seat s p = seat t p \<Longrightarrow> fst (exec (drain p) s) = fst (exec (drain p) t)"
begin

lemma drain_isolated:
  assumes "inv s" "\<forall>op \<in> set ops. actor op \<noteq> Some p" "seat s p = Some v"
  shows "fst (exec (drain p) (execs ops s)) = fst (exec (drain p) s)"
  using drain_local [OF execs_inv [OF assms(1)] assms(1), of ops p] execs_seat [OF assms] assms(3) by simp

end

fun own_actor :: "('c, 'r) own_op \<Rightarrow> participant option" where
  "own_actor (OpOpen t d) = None"
| "own_actor (OpTarget p) = Some p"
| "own_actor (OpAccept p n) = Some p"
| "own_actor (OpAvailable p c) = Some p"
| "own_actor (OpHold p c r) = Some p"
| "own_actor (OpHeld p c) = Some p"
| "own_actor (OpReplace p c r) = Some p"
| "own_actor (OpRelease p c) = Some p"
| "own_actor (OpClose p) = Some p"
| "own_actor (OpCount p) = Some p"

lemma own_other_session:
  assumes "own_inv s" "own_actor op \<noteq> Some p" "own_exec op s = (res, s')"
  shows "bt_get (sessions s) p = Some u \<Longrightarrow> bt_get (sessions s') p = Some u"
    and "sequence p \<le> next_sequence s \<Longrightarrow> bt_get (sessions s') p = bt_get (sessions s) p"
proof -
  have wf: "bt_wf (sessions s)" using own_invD(1) [OF assms(1)] .
  have fresh: "bt_get (sessions s) p \<noteq> None \<Longrightarrow> sequence p \<le> next_sequence s" for p
    using own_invD(4) [OF assms(1), of p] by auto
  have "bt_get (sessions s') p = bt_get (sessions s) p \<or> next_sequence s < sequence p"
    using assms(2,3) wf
    by (cases op) (auto simp: settle_eq open_session_def target_of_def accept_sequence_def available_def hold_control_def held_def
        replace_release_def release_def close_session_def held_count_def Let_def rbind_eq_Inr rbind_eq_Inl store_simps
        split: if_splits option.splits)
  then show "bt_get (sessions s) p = Some u \<Longrightarrow> bt_get (sessions s') p = Some u"
    "sequence p \<le> next_sequence s \<Longrightarrow> bt_get (sessions s') p = bt_get (sessions s) p"
    using fresh [of p] by auto
qed

interpretation own: participant_isolation own_exec own_actor "\<lambda>s. bt_get (sessions s)" own_inv OpClose
proof unfold_locales
  fix s t :: "('c::linorder, 'r) ownership" and op p v
  show "own_inv s \<Longrightarrow> own_inv (snd (own_exec op s))" by (rule own_inv_exec [OF _ surjective_pairing])
  show "own_inv s \<Longrightarrow> own_actor op \<noteq> Some p \<Longrightarrow> bt_get (sessions s) p = Some v \<Longrightarrow> bt_get (sessions (snd (own_exec op s))) p = Some v"
    by (rule own_other_session(1) [OF _ _ surjective_pairing])
  show "bt_get (sessions s) p = bt_get (sessions t) p \<Longrightarrow> fst (own_exec (OpClose p) s) = fst (own_exec (OpClose p) t)"
    by (simp add: close_session_def split: option.splits)
qed

lemma own_next_mono: "own_exec op s = (res, s') \<Longrightarrow> next_sequence s \<le> next_sequence s'"
  by (cases op) (auto simp: settle_eq open_session_def accept_sequence_def hold_control_def
        replace_release_def release_def close_session_def Let_def rbind_eq_Inr
        split: if_splits option.splits)

lemma dead_exec:
  assumes "own_inv s" "own_exec op s = (res, s')" "sequence p \<le> next_sequence s" "bt_get (sessions s) p = None"
  shows "bt_get (sessions s') p = None"
proof (cases "own_actor op = Some p")
  case True
  then show ?thesis using assms(2,4)
    by (cases op) (auto simp: settle_eq target_of_def accept_sequence_def available_def hold_control_def held_def
        replace_release_def release_def close_session_def held_count_def rbind_eq_Inr)
next
  case False
  then show ?thesis using own_other_session(2) [OF assms(1) _ assms(2), of p] assms(3,4) by simp
qed

lemma dead_run:
  assumes "own_run s tr s'" "own_inv s" "sequence p \<le> next_sequence s" "bt_get (sessions s) p = None"
  shows "bt_get (sessions s') p = None \<and> sequence p \<le> next_sequence s'"
  using assms
proof (induction rule: own_run.induct)
  case (own_run_step s tr s' op res s'')
  have "bt_get (sessions s') p = None" "sequence p \<le> next_sequence s'"
    using own_run_step by auto
  moreover have "own_inv s'" using own_inv_run own_run_step by blast
  ultimately show ?case using dead_exec [OF _ own_run_step.hyps(2)] own_next_mono [OF own_run_step.hyps(2)] by simp
qed simp

definition accepted_by :: "participant \<Rightarrow> (('c, 'r) own_op \<times> 'r own_result) list \<Rightarrow> nat list" where
  "accepted_by p tr = List.map_filter (\<lambda>e. case e of (OpAccept q n, Accepted) \<Rightarrow> if q = p then Some n else None | _ \<Rightarrow> None) tr"

lemma accepted_by_simps [simp]:
  "accepted_by p [] = []"
  "accepted_by p (tr @ [(op, res)]) = accepted_by p tr @ (case op of OpAccept q n \<Rightarrow> if q = p \<and> res = Accepted then [n] else [] | _ \<Rightarrow> [])"
  by (auto simp: accepted_by_def List.map_filter_def split: own_op.splits own_result.splits)

lemma last_sequence_exec:
  assumes "own_inv s" "own_exec op s = (res, s')" "bt_get (sessions s') p = Some v"
  shows "(\<exists>u. bt_get (sessions s) p = Some u \<and>
        last_sequence v = (case op of OpAccept q n \<Rightarrow> if q = p \<and> res = Accepted then Some n else last_sequence u | _ \<Rightarrow> last_sequence u))
    \<or> (\<exists>t d. op = OpOpen t d) \<and> next_sequence s < sequence p \<and> last_sequence v = None"
  using assms(2,3) own_invD(1) [OF assms(1)]
  by (cases op) (auto simp: settle_eq open_session_def target_of_def accept_sequence_def available_def hold_control_def held_def
        replace_release_def release_def close_session_def held_count_def Let_def rbind_eq_Inr rbind_eq_Inl store_simps
        split: if_splits option.splits)

lemma accept_ok:
  assumes "own_exec (OpAccept p n) s = (Accepted, s')"
  shows "\<exists>u. bt_get (sessions s) p = Some u \<and> (case last_sequence u of None \<Rightarrow> True | Some m \<Rightarrow> m < n)"
  using assms by (auto simp: settle_eq accept_sequence_def rbind_eq_Inr split: if_splits option.splits)

definition fenced :: "participant \<Rightarrow> nat list \<Rightarrow> ('c, 'r) ownership \<Rightarrow> bool" where
  "fenced p acc s \<longleftrightarrow> sorted_wrt (<) acc \<and> (next_sequence s < sequence p \<longrightarrow> acc = []) \<and>
     (\<forall>u. bt_get (sessions s) p = Some u \<longrightarrow> last_sequence u = (if acc = [] then None else Some (last acc)))"

lemma fenced_exec:
  assumes "own_inv s" "fenced p acc s" "own_exec op s = (res, s')"
  shows "fenced p (acc @ (case op of OpAccept q n \<Rightarrow> if q = p \<and> res = Accepted then [n] else [] | _ \<Rightarrow> [])) s'"
proof (cases "\<exists>n. op = OpAccept p n \<and> res = Accepted")
  case True
  then obtain n where n: "op = OpAccept p n" "res = Accepted" by blast
  obtain u where u: "bt_get (sessions s) p = Some u" "case last_sequence u of None \<Rightarrow> True | Some m \<Rightarrow> m < n"
    using accept_ok assms(3) n by metis
  have "acc = [] \<or> last acc < n" using u assms(2) by (auto simp: fenced_def split: if_splits)
  moreover have "sequence p \<le> next_sequence s'"
    using own_invD(4) [OF assms(1) u(1)] own_next_mono [OF assms(3)] by simp
  moreover have "last_sequence v = Some n" if "bt_get (sessions s') p = Some v" for v
    using last_sequence_exec [OF assms(1,3) that] n by auto
  ultimately show ?thesis using assms(2) n by (auto simp: fenced_def intro: sorted_wrt_snoc_last)
next
  case False
  then have e: "(case op of OpAccept q n \<Rightarrow> if q = p \<and> res = Accepted then [n] else [] | _ \<Rightarrow> []) = []"
    by (auto split: own_op.splits)
  have "last_sequence v = (if acc = [] then None else Some (last acc))" if v: "bt_get (sessions s') p = Some v" for v
    using last_sequence_exec [OF assms(1,3) v] assms(2) False by (cases op) (auto simp: fenced_def split: if_splits)
  then show ?thesis
    unfolding e using assms(2) own_next_mono [OF assms(3)] by (auto simp: fenced_def)
qed

lemma fenced_run:
  "own_run s tr s' \<Longrightarrow> own_inv s \<Longrightarrow> fenced p [] s \<Longrightarrow> fenced p (accepted_by p tr) s'"
proof (induction rule: own_run.induct)
  case (own_run_step s tr s' op res s'')
  then show ?case using fenced_exec [OF own_inv_run [OF own_run_step.hyps(1)]] by simp
qed simp

lemma fenced_new: "fenced p [] (snd (ownership_new n ms mh))"
  by (simp add: fenced_def ownership_new_def Let_def split: prod.splits)

section \<open>Properties\<close>

text \<open>
  (C26) The ownership registry implements the specification of a stack of holds per participant: from every
  state its operations can reach, each operation returns exactly what the specification returns, errors
  included, and moves to a state that abstracts to the specification's next state. So the owner index and
  the ordinals of the source never disagree with the holds, and \<open>close\<close> drains a participant's releases in
  reverse acquisition order.
\<close>

theorem ownership_refines_stacks:
  assumes "own_reachable s" "own_exec op s = (res, s')"
  shows "room_exec op (abs_ownership s) = (res, abs_ownership s')"
  using own_exec_refines [OF reachable_inv [OF assms(1)], of op] assms(2) by simp

definition demo_ownership :: "(nat, string) ownership" where
  "demo_ownership = snd (ownership_new 1 2 2)"

definition demo_target :: target_identity where
  "demo_target = \<lparr>target_id = ''pane'', target_generation = 1\<rparr>"

definition demo_holding :: "(nat, string) ownership" where
  "demo_holding = own.execs [OpOpen demo_target ''seat'', OpHold (Participant 1 1) 7 ''up-7'', OpHold (Participant 1 1) 3 ''up-3''] demo_ownership"

lemma own_run_execs: "own_run s tr s' \<Longrightarrow> \<exists>tr. own_run s tr (own.execs ops s')"
proof (induction ops arbitrary: tr s')
  case (Cons op ops)
  obtain res s'' where e: "own_exec op s' = (res, s'')" by fastforce
  from Cons.IH [OF own_run_step [OF Cons.prems e]] show ?case using e by (simp add: own.execs_def)
qed (auto simp: own.execs_def)

lemma demo_holding_reachable: "own_reachable demo_holding"
  unfolding own_reachable_def demo_holding_def demo_ownership_def using own_run_execs [OF own_run_refl] by blast

lemmas own_op_defs = open_session_def get_session_def accept_sequence_def available_def hold_control_def held_def replace_release_def
  release_def close_session_def release_order_def put_session_def target_of_def held_count_def

lemma demo_holding_eq:
  "demo_holding = \<lparr>sessions = [(Participant 1 1, \<lparr>session_target = demo_target, session_domain = ''seat'',
       session_holds = [(3, \<lparr>hold_release = ''up-3'', hold_ordinal = 2\<rparr>), (7, \<lparr>hold_release = ''up-7'', hold_ordinal = 1\<rparr>)],
       session_ordinal = 2, last_sequence = None\<rparr>)],
     owners = [((''seat'', 3), Participant 1 1), ((''seat'', 7), Participant 1 1)], registry_id = 1, next_sequence = 1,
     max_sessions = 2, max_held = 2\<rparr>"
  by (simp add: demo_holding_def demo_ownership_def own.execs_def ownership_new_def own_op_defs Let_def bt_get_def checked_add_u64_def
      less_participant_def)

theorem ownership_refines_stacks_witness:
  "own_reachable demo_holding \<and> fst (own_exec (OpClose (Participant 1 1)) demo_holding) = Drained [''up-3'', ''up-7''] \<and>
   room_exec (OpClose (Participant 1 1)) (abs_ownership demo_holding)
     = (Drained [''up-3'', ''up-7''], abs_ownership (snd (own_exec (OpClose (Participant 1 1)) demo_holding)))"
proof -
  have "fst (own_exec (OpClose (Participant 1 1)) demo_holding) = Drained [''up-3'', ''up-7'']"
    by (simp add: demo_holding_eq own_op_defs bt_get_def)
  then show ?thesis
    using ownership_refines_stacks [OF demo_holding_reachable, of "OpClose (Participant 1 1)"] demo_holding_reachable
    by (metis prod.collapse)
qed


text \<open>
  (C32) A control of a collision domain has at most one owner and the capacities hold: in every reachable state
  there are at most \<open>max_sessions\<close> sessions, every session holds at most \<open>max_held\<close> controls, and two
  participants of the same domain that hold the same control are the same participant, with one release.
\<close>

theorem exclusive_control:
  assumes "own_reachable s"
  shows "length (sessions s) \<le> max_sessions s \<and>
    (\<forall>p u. bt_get (sessions s) p = Some u \<longrightarrow> length (session_holds u) \<le> max_held s) \<and>
    (\<forall>p q u v c r r'. bt_get (sessions s) p = Some u \<and> bt_get (sessions s) q = Some v \<and> session_domain u = session_domain v \<and>
       held s p c = Inr r \<and> held s q c = Inr r' \<longrightarrow> p = q \<and> r = r')"
proof (intro conjI allI impI; (elim conjE)?)
  have inv: "own_inv s" using assms by (rule reachable_inv)
  show "length (sessions s) \<le> max_sessions s" by (rule own_invD(3) [OF inv])
  show "length (session_holds u) \<le> max_held s" if "bt_get (sessions s) p = Some u" for p u
    using own_invD(4) [OF inv that] session_invD(2) by blast
  show eq: "p = q" if "bt_get (sessions s) p = Some u" "bt_get (sessions s) q = Some v" "session_domain u = session_domain v"
      "held s p c = Inr r" "held s q c = Inr r'" for p q u v c r r'
  proof -
    have "bt_get (session_holds u) c \<noteq> None" "bt_get (session_holds v) c \<noteq> None"
      using that by (auto simp: held_def rbind_eq_Inr)
    then show ?thesis using owner_self [OF inv that(1), of c] owner_self [OF inv that(2), of c] that(3) by simp
  qed
  show "r = r'" if "bt_get (sessions s) p = Some u" "bt_get (sessions s) q = Some v" "session_domain u = session_domain v"
      "held s p c = Inr r" "held s q c = Inr r'" for p q u v c r r'
    using eq [OF that] that(4,5) by simp
qed

definition demo_pair :: "(nat, string) ownership" where
  "demo_pair = own.execs [OpOpen demo_target ''seat''] demo_holding"

theorem exclusive_control_witness:
  "own_reachable demo_pair \<and> length (sessions demo_pair) = 2 \<and> held demo_pair (Participant 1 1) 3 = Inr ''up-3'' \<and>
   (\<nexists>r. held demo_pair (Participant 1 2) 3 = Inr r)"
proof -
  have reach: "own_reachable demo_pair" unfolding own_reachable_def demo_pair_def
    using demo_holding_reachable own_run_execs unfolding own_reachable_def by blast
  have eq: "demo_pair = snd (own_exec (OpOpen demo_target ''seat'') demo_holding)" by (simp add: demo_pair_def own.execs_def)
  have h: "length (sessions demo_pair) = 2" "held demo_pair (Participant 1 1) 3 = Inr ''up-3''"
    by (simp_all add: eq demo_holding_eq own_op_defs bt_get_def Let_def checked_add_u64_def less_participant_def)
  obtain u v where u: "bt_get (sessions demo_pair) (Participant 1 1) = Some u" "bt_get (sessions demo_pair) (Participant 1 2) = Some v"
      "session_domain u = session_domain v"
    by (simp add: eq demo_holding_eq own_op_defs bt_get_def Let_def checked_add_u64_def less_participant_def)
  have "Participant 1 1 = Participant 1 2" if "held demo_pair (Participant 1 2) 3 = Inr r" for r
    using exclusive_control [OF reach] u h(2) that by metis
  then show ?thesis using reach h by fastforce
qed

text \<open>
  A participant token is used once: after \<open>close\<close>, whatever operations follow, no session ever exists
  under that token again, so every later operation with it is refused with \<open>SessionNotFound\<close> and delayed
  input cannot enter a reopened session.
\<close>

lemma closed_token_dead:
  assumes "own_reachable s" "bt_get (sessions s) p \<noteq> None"
    and "own_run (snd (close_session p s)) tr s'" "own_actor op = Some p" "op \<noteq> OpClose p"
  shows "own_exec op s' = (Refused SessionNotFound, s')"
proof -
  have inv: "own_inv s" using assms(1) by (rule reachable_inv)
  obtain u where u: "bt_get (sessions s) p = Some u" using assms(2) by blast
  have "own_inv (snd (close_session p s))" by (rule own_inv_close [OF inv surjective_pairing])
  moreover have "bt_get (sessions (snd (close_session p s))) p = None" "next_sequence (snd (close_session p s)) = next_sequence s"
    using u own_invD(1) [OF inv] by (simp_all add: close_session_def store_simps)
  ultimately have "bt_get (sessions s') p = None"
    using dead_run [OF assms(3)] own_invD(4) [OF inv u] by simp
  then show ?thesis using assms(4,5) by (cases op) (simp_all add: own_op_defs)
qed

text \<open>
  Transport reordering is fenced: over any run of a registry, the sequence numbers accepted for a
  participant are strictly increasing.
\<close>

lemma accepted_sequences_increase:
  assumes "own_run (snd (ownership_new n ms mh)) tr s"
  shows "sorted_wrt (<) (accepted_by p tr)"
  using fenced_run [OF assms own_inv_new fenced_new, of p] by (simp add: fenced_def)

definition demo_trace :: "((nat, string) own_op \<times> string own_result) list" where
  "demo_trace = [(OpOpen demo_target ''seat'', Opened (Participant 1 1)), (OpAccept (Participant 1 1) 4, Accepted),
      (OpAccept (Participant 1 1) 4, Refused StaleInput), (OpAccept (Participant 1 1) 6, Accepted)]"

fun own_log :: "('c::linorder, 'r) own_op list \<Rightarrow> ('c, 'r) ownership \<Rightarrow> (('c, 'r) own_op \<times> 'r own_result) list" where
  "own_log [] s = []"
| "own_log (op # ops) s = (op, fst (own_exec op s)) # own_log ops (snd (own_exec op s))"

lemma own_log_run: "own_run s tr s' \<Longrightarrow> \<exists>s''. own_run s (tr @ own_log ops s') s''"
proof (induction ops arbitrary: tr s')
  case (Cons op ops)
  from Cons.IH [OF own_run_step [OF Cons.prems surjective_pairing]] show ?case by simp
qed auto

lemma demo_trace_runs: "\<exists>s. own_run demo_ownership demo_trace s"
proof -
  have "demo_trace = [] @ own_log (map fst demo_trace) demo_ownership"
    by (simp add: demo_trace_def demo_ownership_def ownership_new_def own_op_defs Let_def bt_get_def checked_add_u64_def
        less_participant_def)
  then show ?thesis using own_log_run [OF own_run_refl] by metis
qed

text \<open>
  There is no cross-owner cleanup: whatever operations other participants perform, refused or not,
  closing a live participant afterwards drains exactly the releases that closing it at once would drain.
\<close>

lemma cleanup_isolated:
  assumes "own_reachable s" "bt_get (sessions s) p = Some u"
    and "\<forall>op \<in> set ops. own_actor op \<noteq> Some p"
  shows "fst (close_session p (fold (\<lambda>op s. snd (own_exec op s)) ops s)) = fst (close_session p s)"
  using own.drain_isolated [OF reachable_inv [OF assms(1)] assms(3,2)]
  by (simp add: own.execs_def split: prod.splits)

end
