(* ===== verification/Host.thy ===== *)
theory Host
  imports Input OwnershipSpec
begin

text \<open>
  Delivery and held-input lifetime (\<^verbatim>\<open>cantrip_interaction/src/host.rs\<close>). The backend is the trait
  \<open>InputBackend\<close>: a record of its methods over a state of its own, each of which may return or panic. A host is
  the backend's state, the ownership registry and the map of native targets. An operation returns its
  result, or the panic it resumes, with the host it leaves.
\<close>

section \<open>Data\<close>

datatype 'a call_result = Returned 'a | Panicked

datatype ('c, 'p) prepared =
  PrepDown 'c 'p 'p
| PrepUp 'c "'p option"
| PrepRepeat 'c 'p
| PrepMoveHeld 'c 'p 'p
| PrepAction "'c list" 'p

datatype delivery = DispatchedUnverified

datatype 'e post_failure = NotDispatched 'e | Uncertain 'e | BackendPanicked

record ('b, 't, 'c, 'p, 'e) backend =
  be_prepare :: "'t \<Rightarrow> input_event \<Rightarrow> ('c \<times> 'p) list \<Rightarrow> 'b \<Rightarrow> ('e, ('c, 'p) prepared) result call_result \<times> 'b"
  be_post :: "'t \<Rightarrow> 'p \<Rightarrow> 'b \<Rightarrow> ('e post_failure, delivery) result call_result \<times> 'b"
  be_closed :: "'t \<Rightarrow> 'b \<Rightarrow> unit call_result \<times> 'b"
  be_refreshed :: "'t \<Rightarrow> 't \<Rightarrow> 'b \<Rightarrow> unit call_result \<times> 'b"

datatype 'e input_failure =
  OwnershipFailure ownership_error
| InvalidInput string
| PrepareFailure 'e
| PostFailed "'e post_failure" "'e post_failure list"

record ('b, 't, 'c, 'p) host =
  host_backend :: 'b
  host_ownership :: "('c, 'p) ownership"
  host_targets :: "(participant, 't) btree_map"

section \<open>Opening and closing\<close>

definition host_new :: "'b \<Rightarrow> nat \<Rightarrow> nat \<Rightarrow> nat \<Rightarrow> nat \<times> ('b, 't, 'c, 'p) host" where
  "host_new b counter sessions_limit held_limit =
     (case ownership_new counter sessions_limit held_limit of
        (counter', s) \<Rightarrow> (counter', \<lparr>host_backend = b, host_ownership = s, host_targets = []\<rparr>))"

definition host_open ::
  "target_identity \<Rightarrow> string \<Rightarrow> 't \<Rightarrow> ('b, 't, 'c, 'p) host \<Rightarrow> (ownership_error, participant) result \<times> ('b, 't, 'c, 'p) host" where
  "host_open identity domain target h =
     (case open_session identity domain (host_ownership h) of
        Inl e \<Rightarrow> (Inl e, h)
      | Inr (owner, s) \<Rightarrow> (Inr owner, h\<lparr>host_ownership := s, host_targets := bt_insert owner target (host_targets h)\<rparr>))"

definition host_held_count :: "('b, 't, 'c, 'p) host \<Rightarrow> participant \<Rightarrow> (ownership_error, nat) result" where
  "host_held_count h owner = held_count (host_ownership h) owner"

definition host_target :: "('b, 't, 'c, 'p) host \<Rightarrow> participant \<Rightarrow> (ownership_error, target_identity) result" where
  "host_target h owner = target_of (host_ownership h) owner"

definition post_caught :: "('b, 't, 'c, 'p, 'e) backend \<Rightarrow> 't \<Rightarrow> 'p \<Rightarrow> 'b \<Rightarrow> 'e post_failure list \<times> 'b" where
  "post_caught be target packet b =
     (case be_post be target packet b of
        (Returned (Inl error), b') \<Rightarrow> ([error], b')
      | (Returned (Inr _), b') \<Rightarrow> ([], b')
      | (Panicked, b') \<Rightarrow> ([BackendPanicked], b'))"

fun drain_releases :: "('b, 't, 'c, 'p, 'e) backend \<Rightarrow> 't \<Rightarrow> 'p list \<Rightarrow> 'b \<Rightarrow> 'e post_failure list \<times> 'b" where
  "drain_releases be target [] b = ([], b)"
| "drain_releases be target (packet # rest) b =
     (case post_caught be target packet b of (fs, b') \<Rightarrow>
        case drain_releases be target rest b' of (fs', b'') \<Rightarrow> (fs @ fs', b''))"

definition closed_caught :: "('b, 't, 'c, 'p, 'e) backend \<Rightarrow> 't \<Rightarrow> 'b \<Rightarrow> 'e post_failure list \<times> 'b" where
  "closed_caught be target b =
     (case be_closed be target b of (Returned _, b') \<Rightarrow> ([], b') | (Panicked, b') \<Rightarrow> ([BackendPanicked], b'))"

definition host_close ::
  "('b, 't, 'c::linorder, 'p, 'e) backend \<Rightarrow> participant \<Rightarrow> ('b, 't, 'c, 'p) host \<Rightarrow> 'e post_failure list \<times> ('b, 't, 'c, 'p) host" where
  "host_close be owner h =
     (case close_session owner (host_ownership h) of (releases, s) \<Rightarrow>
        case bt_get (host_targets h) owner of
          None \<Rightarrow> ([], h\<lparr>host_ownership := s\<rparr>)
        | Some target \<Rightarrow>
            (case drain_releases be target releases (host_backend h) of (fs, b) \<Rightarrow>
               case closed_caught be target b of (fs', b') \<Rightarrow>
                 (fs @ fs', h\<lparr>host_backend := b', host_ownership := s, host_targets := bt_remove owner (host_targets h)\<rparr>)))"

definition host_drop :: "('b, 't, 'c::linorder, 'p, 'e) backend \<Rightarrow> ('b, 't, 'c, 'p) host \<Rightarrow> ('b, 't, 'c, 'p) host" where
  "host_drop be h = fold (\<lambda>owner h. snd (host_close be owner h)) (participants (host_ownership h)) h"

section \<open>Delivery\<close>

definition unwind_scoped ::
  "('b, 't, 'c::linorder, 'p, 'e) backend \<Rightarrow> participant \<Rightarrow> (('b, 't, 'c, 'p) host \<Rightarrow> 'a call_result \<times> ('b, 't, 'c, 'p) host) \<Rightarrow>
   ('b, 't, 'c, 'p) host \<Rightarrow> 'a call_result \<times> ('b, 't, 'c, 'p) host" where
  "unwind_scoped be owner operation h =
     (case operation h of
        (Returned r, h') \<Rightarrow> (Returned r, h')
      | (Panicked, h') \<Rightarrow> (Panicked, snd (host_close be owner h')))"

text \<open>A call on the backend with the target of a participant; indexing a missing target panics.\<close>

definition with_target ::
  "participant \<Rightarrow> ('t \<Rightarrow> 'b \<Rightarrow> 'a call_result \<times> 'b) \<Rightarrow> ('b, 't, 'c, 'p) host \<Rightarrow> 'a call_result \<times> ('b, 't, 'c, 'p) host" where
  "with_target owner f h =
     (case bt_get (host_targets h) owner of
        None \<Rightarrow> (Panicked, h)
      | Some target \<Rightarrow> (case f target (host_backend h) of (r, b) \<Rightarrow> (r, h\<lparr>host_backend := b\<rparr>)))"

definition map_call_err :: "('e \<Rightarrow> 'f) \<Rightarrow> ('e, 'a) result call_result \<Rightarrow> ('f, 'a) result call_result" where
  "map_call_err f r = (case r of Panicked \<Rightarrow> Panicked | Returned (Inl e) \<Rightarrow> Returned (Inl (f e)) | Returned (Inr x) \<Rightarrow> Returned (Inr x))"

definition update_destination ::
  "('b, 't, 'c::linorder, 'p, 'e) backend \<Rightarrow> participant \<Rightarrow> target_identity \<Rightarrow> 't \<Rightarrow> ('b, 't, 'c, 'p) host \<Rightarrow>
   (ownership_error, unit) result call_result \<times> ('b, 't, 'c, 'p) host" where
  "update_destination be owner identity target h =
     (case target_of (host_ownership h) owner of
        Inl e \<Rightarrow> (Returned (Inl e), h)
      | Inr t \<Rightarrow>
          if t \<noteq> identity then (Returned (Inl StaleInput), h)
          else unwind_scoped be owner (\<lambda>h.
            case with_target owner (\<lambda>previous. be_refreshed be previous target) h of
              (Panicked, h') \<Rightarrow> (Panicked, h')
            | (Returned _, h') \<Rightarrow> (Returned (Inr ()), h'\<lparr>host_targets := bt_insert owner target (host_targets h')\<rparr>)) h)"

definition prepare_event ::
  "('b, 't, 'c, 'p, 'e) backend \<Rightarrow> participant \<Rightarrow> input_event \<Rightarrow> ('b, 't, 'c, 'p) host \<Rightarrow>
   ('e input_failure, ('c, 'p) prepared) result call_result \<times> ('b, 't, 'c, 'p) host" where
  "prepare_event be owner event h =
     (case bt_get (host_targets h) owner of
        None \<Rightarrow> (Panicked, h)
      | Some _ \<Rightarrow>
          (case holds_of (host_ownership h) owner of
             Inl e \<Rightarrow> (Returned (Inl (OwnershipFailure e)), h)
           | Inr hs \<Rightarrow>
               (case with_target owner (\<lambda>target. be_prepare be target event hs) h of
                  (r, h') \<Rightarrow> (map_call_err PrepareFailure r, h'))))"

definition host_prepare ::
  "('b, 't, 'c::linorder, 'p, 'e) backend \<Rightarrow> participant \<Rightarrow> input_event \<Rightarrow> ('b, 't, 'c, 'p) host \<Rightarrow>
   ('e input_failure, ('c, 'p) prepared) result call_result \<times> ('b, 't, 'c, 'p) host" where
  "host_prepare be owner event h =
     (case target_of (host_ownership h) owner of
        Inl e \<Rightarrow> (Returned (Inl (OwnershipFailure e)), h)
      | Inr _ \<Rightarrow>
          (case validate event of
             Inl m \<Rightarrow> (Returned (Inl (InvalidInput m)), h)
           | Inr _ \<Rightarrow> unwind_scoped be owner (prepare_event be owner event) h))"

definition host_compile ::
  "('b, 't, 'c::linorder, 'p, 'e) backend \<Rightarrow> participant \<Rightarrow> ('t \<Rightarrow> 'b \<Rightarrow> ('e, 'a) result call_result \<times> 'b) \<Rightarrow> ('b, 't, 'c, 'p) host \<Rightarrow>
   ('e input_failure, 'a) result call_result \<times> ('b, 't, 'c, 'p) host" where
  "host_compile be owner compile h =
     (case target_of (host_ownership h) owner of
        Inl e \<Rightarrow> (Returned (Inl (OwnershipFailure e)), h)
      | Inr _ \<Rightarrow>
          unwind_scoped be owner (\<lambda>h. case with_target owner compile h of (r, h') \<Rightarrow> (map_call_err PrepareFailure r, h')) h)"

definition accept ::
  "participant \<Rightarrow> target_identity \<Rightarrow> nat \<Rightarrow> ('b, 't, 'c, 'p) host \<Rightarrow> (ownership_error, ('b, 't, 'c, 'p) host) result" where
  "accept owner identity n h =
     rbind (target_of (host_ownership h) owner) (\<lambda>t.
       if t \<noteq> identity then Inl StaleInput
       else rbind (accept_sequence owner n (host_ownership h)) (\<lambda>s. Inr (h\<lparr>host_ownership := s\<rparr>)))"

text \<open>What \<open>dispatch\<close> reserves before it posts: the packet, and what a certain non-delivery rolls back.\<close>

datatype ('c, 'p) rollback = RollDown 'c | RollMoved 'c 'p | RollUp | RollNone

fun all_available :: "('c::linorder, 'p) ownership \<Rightarrow> participant \<Rightarrow> 'c list \<Rightarrow> (ownership_error, unit) result" where
  "all_available s owner [] = Inr ()"
| "all_available s owner (c # cs) = rbind (available s owner c) (\<lambda>_. all_available s owner cs)"

fun reserve ::
  "participant \<Rightarrow> ('c::linorder, 'p) prepared \<Rightarrow> ('c, 'p) ownership \<Rightarrow>
   (ownership_error, 'p \<times> ('c, 'p) rollback \<times> ('c, 'p) ownership) result" where
  "reserve owner (PrepDown c packet rel) s = rbind (hold_control owner c rel s) (\<lambda>s'. Inr (packet, RollDown c, s'))"
| "reserve owner (PrepUp c packet) s = rbind (release owner c s) (\<lambda>(rel, s'). Inr (the_default rel packet, RollUp, s'))"
| "reserve owner (PrepRepeat c packet) s = rbind (held s owner c) (\<lambda>_. Inr (packet, RollNone, s))"
| "reserve owner (PrepMoveHeld c packet rel) s =
     rbind (replace_release owner c rel s) (\<lambda>(old, s'). Inr (packet, RollMoved c old, s'))"
| "reserve owner (PrepAction cs packet) s = rbind (all_available s owner cs) (\<lambda>_. Inr (packet, RollNone, s))"

fun undo :: "participant \<Rightarrow> ('c::linorder, 'p) rollback \<Rightarrow> ('c, 'p) ownership \<Rightarrow> ('c, 'p) ownership" where
  "undo owner (RollDown c) s = (case release owner c s of Inl _ \<Rightarrow> s | Inr (_, s') \<Rightarrow> s')"
| "undo owner (RollMoved c old) s = (case update_release owner c old s of Inl _ \<Rightarrow> s | Inr s' \<Rightarrow> s')"
| "undo owner RollUp s = s"
| "undo owner RollNone s = s"

definition fail_post ::
  "('b, 't, 'c::linorder, 'p, 'e) backend \<Rightarrow> participant \<Rightarrow> 'e post_failure \<Rightarrow> 'e post_failure list \<Rightarrow> ('b, 't, 'c, 'p) host \<Rightarrow>
   ('e input_failure, 'a) result call_result \<times> ('b, 't, 'c, 'p) host" where
  "fail_post be owner failure cleanup h =
     (case host_close be owner h of (fs, h') \<Rightarrow> (Returned (Inl (PostFailed failure (cleanup @ fs))), h'))"

definition recover ::
  "('b, 't, 'c::linorder, 'p, 'e) backend \<Rightarrow> participant \<Rightarrow> 'p \<Rightarrow> ('c, 'p) rollback \<Rightarrow> 'e post_failure \<Rightarrow> ('b, 't, 'c, 'p) host \<Rightarrow>
   ('e input_failure, delivery) result call_result \<times> ('b, 't, 'c, 'p) host" where
  "recover be owner packet roll failure h =
     (case failure of
        NotDispatched _ \<Rightarrow>
          (let h' = h\<lparr>host_ownership := undo owner roll (host_ownership h)\<rparr>
           in if roll = RollUp
              then (case with_target owner (\<lambda>target. be_post be target packet) h' of
                      (Panicked, h'') \<Rightarrow> (Panicked, h'')
                    | (Returned (Inl error), h'') \<Rightarrow> fail_post be owner failure [error] h''
                    | (Returned (Inr _), h'') \<Rightarrow> fail_post be owner failure [] h'')
              else fail_post be owner failure [] h')
      | _ \<Rightarrow> fail_post be owner failure [] h)"

definition host_dispatch ::
  "('b, 't, 'c::linorder, 'p, 'e) backend \<Rightarrow> participant \<Rightarrow> ('c, 'p) prepared \<Rightarrow> ('b, 't, 'c, 'p) host \<Rightarrow>
   ('e input_failure, delivery) result call_result \<times> ('b, 't, 'c, 'p) host" where
  "host_dispatch be owner prep h =
     (case reserve owner prep (host_ownership h) of
        Inl e \<Rightarrow> (Returned (Inl (OwnershipFailure e)), h)
      | Inr (packet, roll, s) \<Rightarrow>
          (case with_target owner (\<lambda>target. be_post be target packet) (h\<lparr>host_ownership := s\<rparr>) of
             (Panicked, h') \<Rightarrow> (Panicked, h')
           | (Returned (Inr receipt), h') \<Rightarrow> (Returned (Inr receipt), h')
           | (Returned (Inl failure), h') \<Rightarrow> recover be owner packet roll failure h'))"

definition submit ::
  "('b, 't, 'c::linorder, 'p, 'e) backend \<Rightarrow> participant \<Rightarrow> target_identity \<Rightarrow> nat \<Rightarrow> input_event \<Rightarrow> ('b, 't, 'c, 'p) host \<Rightarrow>
   ('e input_failure, delivery) result call_result \<times> ('b, 't, 'c, 'p) host" where
  "submit be owner identity n event h =
     (case accept owner identity n h of
        Inl e \<Rightarrow> (Returned (Inl (OwnershipFailure e)), h)
      | Inr h1 \<Rightarrow>
          (case validate event of
             Inl m \<Rightarrow> (Returned (Inl (InvalidInput m)), h1)
           | Inr _ \<Rightarrow>
               unwind_scoped be owner (\<lambda>h.
                 case prepare_event be owner event h of
                   (Panicked, h') \<Rightarrow> (Panicked, h')
                 | (Returned (Inl e), h') \<Rightarrow> (Returned (Inl e), h')
                 | (Returned (Inr packet), h') \<Rightarrow> host_dispatch be owner packet h') h1))"

definition submit_prepared ::
  "('b, 't, 'c::linorder, 'p, 'e) backend \<Rightarrow> participant \<Rightarrow> target_identity \<Rightarrow> nat \<Rightarrow> ('c, 'p) prepared \<Rightarrow> ('b, 't, 'c, 'p) host \<Rightarrow>
   ('e input_failure, delivery) result call_result \<times> ('b, 't, 'c, 'p) host" where
  "submit_prepared be owner identity n packet h =
     (case accept owner identity n h of
        Inl e \<Rightarrow> (Returned (Inl (OwnershipFailure e)), h)
      | Inr h1 \<Rightarrow> unwind_scoped be owner (host_dispatch be owner packet) h1)"

definition submit_action ::
  "('b, 't, 'c::linorder, 'p, 'e) backend \<Rightarrow> participant \<Rightarrow> target_identity \<Rightarrow> nat \<Rightarrow> 'c list \<Rightarrow>
   ('t \<Rightarrow> 'b \<Rightarrow> ('e post_failure, 'a) result call_result \<times> 'b) \<Rightarrow> ('b, 't, 'c, 'p) host \<Rightarrow>
   ('e input_failure, 'a) result call_result \<times> ('b, 't, 'c, 'p) host" where
  "submit_action be owner identity n controls action h =
     (case accept owner identity n h of
        Inl e \<Rightarrow> (Returned (Inl (OwnershipFailure e)), h)
      | Inr h1 \<Rightarrow>
          (case all_available (host_ownership h1) owner controls of
             Inl e \<Rightarrow> (Returned (Inl (OwnershipFailure e)), h1)
           | Inr _ \<Rightarrow>
               unwind_scoped be owner (\<lambda>h.
                 case with_target owner action h of
                   (Panicked, h') \<Rightarrow> (Panicked, h')
                 | (Returned (Inr r), h') \<Rightarrow> (Returned (Inr r), h')
                 | (Returned (Inl failure), h') \<Rightarrow> fail_post be owner failure [] h') h1))"

section \<open>Operations and reachable hosts\<close>

datatype ('b, 't, 'c, 'p, 'e) host_op =
  HOpen target_identity string 't
| HUpdate participant target_identity 't
| HPrepare participant input_event
| HCompile participant "'t \<Rightarrow> 'b \<Rightarrow> ('e, unit) result call_result \<times> 'b"
| HSubmit participant target_identity nat input_event
| HPrepared participant target_identity nat "('c, 'p) prepared"
| HAction participant target_identity nat "'c list" "'t \<Rightarrow> 'b \<Rightarrow> ('e post_failure, unit) result call_result \<times> 'b"
| HClose participant

datatype ('c, 'p, 'e) host_report =
  ReportOpened "(ownership_error, participant) result"
| ReportUpdated "(ownership_error, unit) result call_result"
| ReportPrepared "('e input_failure, ('c, 'p) prepared) result call_result"
| ReportCompiled "('e input_failure, unit) result call_result"
| ReportSubmitted "('e input_failure, delivery) result call_result"
| ReportActed "('e input_failure, unit) result call_result"
| ReportClosed "'e post_failure list"

fun host_exec ::
  "('b, 't, 'c::linorder, 'p, 'e) backend \<Rightarrow> ('b, 't, 'c, 'p, 'e) host_op \<Rightarrow> ('b, 't, 'c, 'p) host \<Rightarrow>
   ('c, 'p, 'e) host_report \<times> ('b, 't, 'c, 'p) host" where
  "host_exec be (HOpen i d t) h = apfst ReportOpened (host_open i d t h)"
| "host_exec be (HUpdate p i t) h = apfst ReportUpdated (update_destination be p i t h)"
| "host_exec be (HPrepare p e) h = apfst ReportPrepared (host_prepare be p e h)"
| "host_exec be (HCompile p f) h = apfst ReportCompiled (host_compile be p f h)"
| "host_exec be (HSubmit p i n e) h = apfst ReportSubmitted (submit be p i n e h)"
| "host_exec be (HPrepared p i n q) h = apfst ReportSubmitted (submit_prepared be p i n q h)"
| "host_exec be (HAction p i n cs f) h = apfst ReportActed (submit_action be p i n cs f h)"
| "host_exec be (HClose p) h = apfst ReportClosed (host_close be p h)"

fun host_actor :: "('b, 't, 'c, 'p, 'e) host_op \<Rightarrow> participant option" where
  "host_actor (HOpen i d t) = None"
| "host_actor (HUpdate p i t) = Some p"
| "host_actor (HPrepare p e) = Some p"
| "host_actor (HCompile p f) = Some p"
| "host_actor (HSubmit p i n e) = Some p"
| "host_actor (HPrepared p i n q) = Some p"
| "host_actor (HAction p i n cs f) = Some p"
| "host_actor (HClose p) = Some p"

inductive host_reachable :: "('b, 't, 'c::linorder, 'p, 'e) backend \<Rightarrow> ('b, 't, 'c, 'p) host \<Rightarrow> bool" for be where
  host_start: "host_reachable be (snd (host_new b n ms mh))"
| host_step: "host_reachable be h \<Longrightarrow> host_reachable be (snd (host_exec be op h))"

section \<open>The host invariant\<close>

abbreviation session_at :: "('b, 't, 'c, 'p) host \<Rightarrow> participant \<Rightarrow> ('c, 'p) session option" where
  "session_at h p \<equiv> bt_get (sessions (host_ownership h)) p"

definition host_inv :: "('b, 't, 'c::linorder, 'p) host \<Rightarrow> bool" where
  "host_inv h \<longleftrightarrow> own_inv (host_ownership h) \<and> bt_wf (host_targets h) \<and>
     (\<forall>p. bt_get (host_targets h) p = None \<longleftrightarrow> session_at h p = None)"

text \<open>A step of one participant: the invariant stays and no other participant is touched.\<close>

definition touches :: "participant \<Rightarrow> ('b, 't, 'c::linorder, 'p) host \<Rightarrow> ('b, 't, 'c, 'p) host \<Rightarrow> bool" where
  "touches p h h' \<longleftrightarrow> host_inv h' \<and>
     (\<forall>q. q \<noteq> p \<longrightarrow> session_at h' q = session_at h q \<and> bt_get (host_targets h') q = bt_get (host_targets h) q)"

lemma touches_refl [simp]: "touches p h h \<longleftrightarrow> host_inv h"
  by (simp add: touches_def)

lemma touches_trans: "touches p h h' \<Longrightarrow> touches p h' h'' \<Longrightarrow> touches p h h''"
  by (simp add: touches_def)

lemma touches_inv: "touches p h h' \<Longrightarrow> host_inv h'"
  by (simp add: touches_def)

lemma touches_backend [simp]: "touches p h (h'\<lparr>host_backend := b\<rparr>) \<longleftrightarrow> touches p h h'"
  by (simp add: touches_def host_inv_def)

lemma host_invD:
  assumes "host_inv h"
  shows "own_inv (host_ownership h)" "bt_wf (host_targets h)" "bt_wf (sessions (host_ownership h))"
    "bt_get (host_targets h) p = None \<longleftrightarrow> session_at h p = None"
  using assms own_invD(1) by (auto simp: host_inv_def)

lemma own_exec_local:
  assumes "own_inv s" "own_exec op s = (res, s')" "own_actor op = Some p" "op \<noteq> OpClose p"
  shows "\<forall>q. (bt_get (sessions s') q = None) = (bt_get (sessions s) q = None) \<and> (q \<noteq> p \<longrightarrow> bt_get (sessions s') q = bt_get (sessions s) q)"
  using assms(2-) own_invD(1) [OF assms(1)]
  by (cases op) (auto simp: settle_eq target_of_def accept_sequence_def available_def hold_control_def held_def
        replace_release_def release_def held_count_def rbind_eq_Inr rbind_eq_Inl store_simps split: if_splits)

lemma touches_own_exec:
  assumes "host_inv h" "own_exec op (host_ownership h) = (res, s')" "own_actor op = Some p" "op \<noteq> OpClose p"
  shows "touches p h (h\<lparr>host_ownership := s'\<rparr>)"
  using own_exec_local [OF host_invD(1) [OF assms(1)] assms(2-4)] own_inv_exec [OF host_invD(1) [OF assms(1)] assms(2)] assms(1)
  by (simp add: touches_def host_inv_def)

lemma touches_with_target: "host_inv h \<Longrightarrow> with_target p f h = (r, h') \<Longrightarrow> touches p h h'"
  by (auto simp: with_target_def split: option.splits prod.splits)

lemma touches_close:
  assumes "host_inv h" "host_close be p h = (fs, h')"
  shows "touches p h h'" "session_at h' p = None" "bt_get (host_targets h') p = None"
proof -
  obtain rs s where c: "close_session p (host_ownership h) = (rs, s)" by fastforce
  note i = host_invD [OF assms(1)]
  have s: "own_inv s" by (rule own_inv_close [OF i(1) c])
  have get: "bt_get (sessions s) q = (if q = p then None else session_at h q)" for q
    using c i(3) by (auto simp: close_session_def store_simps split: option.splits)
  have h': "host_ownership h' = s \<and> host_targets h' = bt_remove p (host_targets h)"
    using assms(2) c by (auto simp: host_close_def bt_remove_absent split: option.splits prod.splits)
  show "session_at h' p = None" "bt_get (host_targets h') p = None" using get h' i(2) by (simp_all add: store_simps)
  show "touches p h h'"
    using s get h' i(2,4) by (auto simp: touches_def host_inv_def store_simps)
qed

fun post_failed :: "('e input_failure, 'a) result \<Rightarrow> bool" where
  "post_failed (Inl (PostFailed _ _)) = True"
| "post_failed _ = False"

text \<open>
  The result decides whether the participant is still there: \<open>gone\<close> says of a returned value that the
  participant was closed, and a panic always closes it.
\<close>

definition settled :: "('r \<Rightarrow> bool) \<Rightarrow> participant \<Rightarrow> ('b, 't, 'c::linorder, 'p) host \<Rightarrow> 'r call_result \<times> ('b, 't, 'c, 'p) host \<Rightarrow> bool" where
  "settled gone p h res \<longleftrightarrow> (case res of (out, h') \<Rightarrow> touches p h h' \<and>
     (session_at h p \<noteq> None \<longrightarrow> (session_at h' p = None) = (case out of Panicked \<Rightarrow> True | Returned r \<Rightarrow> gone r)))"

definition settling :: "('r \<Rightarrow> bool) \<Rightarrow> participant \<Rightarrow> ('b, 't, 'c::linorder, 'p) host \<Rightarrow> 'r call_result \<times> ('b, 't, 'c, 'p) host \<Rightarrow> bool" where
  "settling gone p h res \<longleftrightarrow> (case res of (out, h') \<Rightarrow> touches p h h' \<and>
     (session_at h p \<noteq> None \<longrightarrow> (case out of Panicked \<Rightarrow> True | Returned r \<Rightarrow> (session_at h' p = None) = gone r)))"

lemma settled_unwind:
  assumes "settling gone p h (operation h)"
  shows "settled gone p h (unwind_scoped be p operation h)"
proof (cases "operation h")
  case (Pair out h')
  obtain fs h2 where c: "host_close be p h' = (fs, h2)" by fastforce
  have t: "touches p h h'" using assms Pair by (simp add: settling_def)
  note close = touches_close [OF touches_inv [OF t] c]
  show ?thesis
    using assms Pair c close(2) touches_trans [OF t close(1)]
    by (cases out) (auto simp: settling_def settled_def unwind_scoped_def)
qed

lemma settled_unchanged: "host_inv h \<Longrightarrow> \<not> gone r \<Longrightarrow> settled gone p h (Returned r, h)"
  by (simp add: settled_def)

lemma settling_step: "touches p h h' \<Longrightarrow> (session_at h' p = None) = (session_at h p = None) \<Longrightarrow> settling gone p h' res \<Longrightarrow> settling gone p h res"
  by (auto simp: settling_def intro: touches_trans)

lemma settled_step: "touches p h h' \<Longrightarrow> (session_at h' p = None) = (session_at h p = None) \<Longrightarrow> settled gone p h' res \<Longrightarrow> settled gone p h res"
  by (auto simp: settled_def intro: touches_trans)

lemma settling_ret: "host_inv h \<Longrightarrow> \<not> gone r \<Longrightarrow> settling gone p h (Returned r, h)" "host_inv h \<Longrightarrow> settling gone p h (Panicked, h)"
  by (simp_all add: settling_def)

lemma with_target_sessions: "with_target p f h = (r, h') \<Longrightarrow> host_ownership h' = host_ownership h \<and> host_targets h' = host_targets h"
  by (auto simp: with_target_def split: option.splits prod.splits)

lemma settling_with_target:
  assumes "host_inv h" "with_target p f h = (r, h')" "settling gone p h' res"
  shows "settling gone p h res"
  by (rule settling_step [OF touches_with_target [OF assms(1,2)] _ assms(3)]) (simp add: with_target_sessions [OF assms(2)])

lemma host_inv_with_target: "host_inv h \<Longrightarrow> with_target p f h = (r, h') \<Longrightarrow> host_inv h'"
  using touches_with_target touches_inv by blast

lemma settling_fail_post: "host_inv h \<Longrightarrow> settling post_failed p h (fail_post be p failure cs h)"
  using touches_close [of h be p] by (auto simp: settling_def fail_post_def split: prod.splits)

lemma settling_own:
  assumes "host_inv h" "own_exec op (host_ownership h) = (res, s)" "own_actor op = Some p" "op \<noteq> OpClose p"
    and "settling gone p (h\<lparr>host_ownership := s\<rparr>) r"
  shows "settling gone p h r"
  by (rule settling_step [OF touches_own_exec [OF assms(1-4)] _ assms(5)])
    (use own_exec_local [OF host_invD(1) [OF assms(1)] assms(2-4)] in simp)

lemma host_inv_own:
  assumes "host_inv h" "own_exec op (host_ownership h) = (res, s)" "own_actor op = Some p" "op \<noteq> OpClose p"
  shows "host_inv (h\<lparr>host_ownership := s\<rparr>)"
  using touches_own_exec [OF assms] by (rule touches_inv)

lemma reserve_own_exec:
  assumes "reserve p prep s = Inr (packet, roll, s')"
  shows "\<exists>op res. own_exec op s = (res, s') \<and> own_actor op = Some p \<and> op \<noteq> OpClose p"
proof (cases prep)
  case (PrepDown c q r)
  then show ?thesis using assms by (intro exI [of _ "OpHold p c r"]) (auto elim!: rbindE)
next
  case (PrepUp c q)
  then show ?thesis using assms by (intro exI [of _ "OpRelease p c"]) (auto elim!: rbindE)
next
  case (PrepRepeat c q)
  then show ?thesis using assms by (intro exI [of _ "OpHeld p c"]) (auto elim!: rbindE)
next
  case (PrepMoveHeld c q r)
  then show ?thesis using assms by (intro exI [of _ "OpReplace p c r"]) (auto elim!: rbindE)
next
  case (PrepAction cs q)
  then show ?thesis using assms by (intro exI [of _ "OpTarget p"]) (auto simp: settle_def elim!: rbindE split: sum.splits)
qed

lemma undo_own_exec: "\<exists>op res. own_exec op s = (res, undo p roll s) \<and> own_actor op = Some p \<and> op \<noteq> OpClose p"
proof (cases roll)
  case (RollDown c)
  then show ?thesis by (intro exI [of _ "OpRelease p c"]) (auto simp: settle_def split: sum.splits prod.splits)
next
  case (RollMoved c old)
  then show ?thesis by (intro exI [of _ "OpReplace p c old"])
      (auto simp: settle_def update_release_def rbind_def split: sum.splits prod.splits)
qed (intro exI [of _ "OpTarget p"]; auto simp: settle_def split: sum.splits)+

lemma settling_recover:
  assumes "host_inv h"
  shows "settling post_failed p h (recover be p packet roll failure h)"
proof (cases failure)
  case (NotDispatched e)
  obtain op res where u: "own_exec op (host_ownership h) = (res, undo p roll (host_ownership h))" "own_actor op = Some p" "op \<noteq> OpClose p"
    using undo_own_exec by blast
  let ?h = "h\<lparr>host_ownership := undo p roll (host_ownership h)\<rparr>"
  have i: "host_inv ?h" by (rule host_inv_own [OF assms u])
  obtain r h2 where w: "with_target p (\<lambda>t. be_post be t packet) ?h = (r, h2)" by fastforce
  have i2: "host_inv h2" by (rule host_inv_with_target [OF i w])
  have "settling post_failed p ?h (case (r, h2) of (Panicked, h'') \<Rightarrow> (Panicked, h'')
      | (Returned (Inl error), h'') \<Rightarrow> fail_post be p failure [error] h'' | (Returned (Inr _), h'') \<Rightarrow> fail_post be p failure [] h'')"
    by (rule settling_with_target [OF i w])
      (use i2 in \<open>auto simp: settling_ret settling_fail_post split: call_result.splits sum.splits\<close>)
  moreover have "settling post_failed p ?h (fail_post be p failure [] ?h)" by (rule settling_fail_post [OF i])
  ultimately have "settling post_failed p ?h (recover be p packet roll failure h)"
    unfolding recover_def NotDispatched post_failure.case Let_def w by (cases "roll = RollUp") simp_all
  then show ?thesis by (rule settling_own [OF assms u])
qed (use settling_fail_post [OF assms] in \<open>simp_all add: recover_def\<close>)

lemma settling_dispatch:
  assumes "host_inv h"
  shows "settling post_failed p h (host_dispatch be p prep h)"
proof (cases "reserve p prep (host_ownership h)")
  case (Inl e)
  then show ?thesis using assms by (simp add: host_dispatch_def settling_ret)
next
  case (Inr x)
  then obtain packet roll s where r: "reserve p prep (host_ownership h) = Inr (packet, roll, s)" by (cases x) auto
  obtain op res where u: "own_exec op (host_ownership h) = (res, s)" "own_actor op = Some p" "op \<noteq> OpClose p"
    using reserve_own_exec [OF r] by blast
  let ?h = "h\<lparr>host_ownership := s\<rparr>"
  have i: "host_inv ?h" by (rule host_inv_own [OF assms u])
  obtain out h2 where w: "with_target p (\<lambda>t. be_post be t packet) ?h = (out, h2)" by fastforce
  have i2: "host_inv h2" by (rule host_inv_with_target [OF i w])
  have "settling post_failed p ?h (host_dispatch be p prep h)"
    by (rule settling_with_target [OF i w])
      (use i2 in \<open>auto simp: host_dispatch_def r w settling_ret settling_recover split: call_result.splits sum.splits\<close>)
  then show ?thesis by (rule settling_own [OF assms u])
qed

lemma settling_prepare_event:
  assumes "host_inv h" "prepare_event be p e h = (r, h')"
  shows "settling post_failed p h (r, h')" "host_ownership h' = host_ownership h" "host_targets h' = host_targets h" "host_inv h'"
proof -
  have "settling post_failed p h (r, h') \<and> host_ownership h' = host_ownership h \<and> host_targets h' = host_targets h \<and> host_inv h'"
  proof (cases "bt_get (host_targets h) p = None \<or> (\<exists>err. holds_of (host_ownership h) p = Inl err)")
    case True
    then show ?thesis using assms by (auto simp: prepare_event_def settling_ret split: option.splits)
  next
    case False
    then obtain hs t where f: "holds_of (host_ownership h) p = Inr hs" "bt_get (host_targets h) p = Some t"
      by (cases "holds_of (host_ownership h) p") auto
    obtain q h2 where w: "with_target p (\<lambda>t. be_prepare be t e hs) h = (q, h2)" by fastforce
    have i2: "host_inv h2" by (rule host_inv_with_target [OF assms(1) w])
    have "settling post_failed p h (map_call_err PrepareFailure q, h2)"
      by (rule settling_with_target [OF assms(1) w])
        (use i2 in \<open>auto simp: settling_ret map_call_err_def split: call_result.splits sum.splits\<close>)
    then show ?thesis using assms(2) f w i2 with_target_sessions [OF w] by (auto simp: prepare_event_def)
  qed
  then show "settling post_failed p h (r, h')" "host_ownership h' = host_ownership h" "host_targets h' = host_targets h" "host_inv h'" by auto
qed

lemma accept_own_exec:
  assumes "accept p i n h = Inr h1"
  shows "own_exec (OpAccept p n) (host_ownership h) = (Accepted, host_ownership h1)" "h1 = h\<lparr>host_ownership := host_ownership h1\<rparr>"
  using assms by (auto simp: accept_def rbind_eq_Inr split: if_splits)

lemma accept_settled:
  assumes "host_inv h" "accept p i n h = Inr h1"
  shows "touches p h h1" "(session_at h1 p = None) = (session_at h p = None)" "host_inv h1" "session_at h p \<noteq> None"
proof -
  note e = accept_own_exec [OF assms(2)]
  show t: "touches p h h1" by (subst e(2)) (rule touches_own_exec [OF assms(1) e(1)], simp_all)
  show "(session_at h1 p = None) = (session_at h p = None)" using own_exec_local [OF host_invD(1) [OF assms(1)] e(1)] by simp
  show "host_inv h1" using t by (rule touches_inv)
  show "session_at h p \<noteq> None" using assms(2) by (auto simp: accept_def target_of_def rbind_eq_Inr)
qed

lemma settling_prepare_dispatch:
  fixes be :: "('b, 't, 'c::linorder, 'p, 'e) backend"
  assumes "host_inv h"
  shows "settling post_failed p h (case prepare_event be p e h of
      (Panicked, h') \<Rightarrow> (Panicked, h') | (Returned (Inl e), h') \<Rightarrow> (Returned (Inl e), h')
    | (Returned (Inr packet), h') \<Rightarrow> host_dispatch be p packet h')"
proof -
  obtain r h' where q: "prepare_event be p e h = (r, h')" by fastforce
  note s = settling_prepare_event [OF assms q]
  have t: "touches p h h'" using s(1) by (simp add: settling_def)
  have "settling post_failed p h (host_dispatch be p packet h')" for packet
    by (rule settling_step [OF t _ settling_dispatch [OF s(4)]]) (simp add: s(2))
  moreover have "settling post_failed p h (Panicked :: ('e input_failure, delivery) result call_result, h')" using t by (simp add: settling_def)
  moreover have "settling post_failed p h (Returned (Inl err) :: ('e input_failure, delivery) result call_result, h')" if "r = Returned (Inl err)" for err
    using s(1) that by (cases err) (auto simp: settling_def)
  ultimately show ?thesis using q by (simp split: call_result.splits sum.splits)
qed

lemma settled_submit:
  assumes "host_inv h"
  shows "settled post_failed p h (submit be p i n e h)"
proof (cases "accept p i n h")
  case (Inl err)
  then show ?thesis using assms by (simp add: submit_def settled_unchanged)
next
  case (Inr h1)
  note a = accept_settled [OF assms Inr]
  have "settled post_failed p h1 (submit be p i n e h)"
    using a(3) by (auto simp: submit_def Inr settled_unchanged split: sum.splits intro!: settled_unwind settling_prepare_dispatch)
  then show ?thesis by (rule settled_step [OF a(1,2)])
qed

lemma settled_submit_prepared:
  assumes "host_inv h"
  shows "settled post_failed p h (submit_prepared be p i n q h)"
proof (cases "accept p i n h")
  case (Inl err)
  then show ?thesis using assms by (simp add: submit_prepared_def settled_unchanged)
next
  case (Inr h1)
  note a = accept_settled [OF assms Inr]
  have "settled post_failed p h1 (submit_prepared be p i n q h)"
    using a(3) by (auto simp: submit_prepared_def Inr intro!: settled_unwind settling_dispatch)
  then show ?thesis by (rule settled_step [OF a(1,2)])
qed

lemma settled_submit_action:
  assumes "host_inv h"
  shows "settled post_failed p h (submit_action be p i n cs f h)"
proof (cases "accept p i n h")
  case (Inl err)
  then show ?thesis using assms by (simp add: submit_action_def settled_unchanged)
next
  case (Inr h1)
  note a = accept_settled [OF assms Inr]
  obtain r h2 where w: "with_target p f h1 = (r, h2)" by fastforce
  have i2: "host_inv h2" by (rule host_inv_with_target [OF a(3) w])
  have "settling post_failed p h1 (case with_target p f h1 of (Panicked, h') \<Rightarrow> (Panicked, h')
      | (Returned (Inr r), h') \<Rightarrow> (Returned (Inr r), h') | (Returned (Inl failure), h') \<Rightarrow> fail_post be p failure [] h')"
    by (rule settling_with_target [OF a(3) w])
      (use i2 w in \<open>auto simp: settling_ret settling_fail_post split: call_result.splits sum.splits\<close>)
  then have "settled post_failed p h1 (submit_action be p i n cs f h)"
    using a(3) by (simp add: submit_action_def Inr settled_unchanged settled_unwind split: sum.splits)
  then show ?thesis by (rule settled_step [OF a(1,2)])
qed

lemma settled_prepare:
  assumes "host_inv h"
  shows "settled post_failed p h (host_prepare be p e h)"
proof -
  have "settling post_failed p h (prepare_event be p e h)"
    using settling_prepare_event(1) [OF assms] by (metis surjective_pairing)
  then show ?thesis using assms by (simp add: host_prepare_def settled_unchanged settled_unwind split: sum.splits)
qed

lemma settled_compile:
  assumes "host_inv h"
  shows "settled post_failed p h (host_compile be p f h)"
proof -
  obtain r h2 where w: "with_target p f h = (r, h2)" by fastforce
  have i2: "host_inv h2" by (rule host_inv_with_target [OF assms w])
  have "settling post_failed p h (case with_target p f h of (r, h') \<Rightarrow> (map_call_err PrepareFailure r, h'))"
    by (rule settling_with_target [OF assms w])
      (use i2 w in \<open>auto simp: settling_ret map_call_err_def split: call_result.splits sum.splits\<close>)
  then show ?thesis using assms by (simp add: host_compile_def settled_unchanged settled_unwind split: sum.splits)
qed

lemma settled_update:
  assumes "host_inv h"
  shows "settled (\<lambda>_. False) p h (update_destination be p i t h)"
proof (cases "session_at h p")
  case None
  then show ?thesis using assms by (simp add: update_destination_def target_of_def get_session_def settled_unchanged)
next
  case (Some u)
  obtain r h2 where w: "with_target p (\<lambda>previous. be_refreshed be previous t) h = (r, h2)" by fastforce
  note i2 = host_inv_with_target [OF assms w] and w2 = with_target_sessions [OF w]
  have "touches p h2 (h2\<lparr>host_targets := bt_insert p t (host_targets h2)\<rparr>)"
    using i2 Some w2 by (auto simp: touches_def host_inv_def store_simps)
  then have "settling (\<lambda>_. False) p h (case with_target p (\<lambda>previous. be_refreshed be previous t) h of
      (Panicked, h') \<Rightarrow> (Panicked, h') | (Returned _, h') \<Rightarrow> (Returned (Inr ()), h'\<lparr>host_targets := bt_insert p t (host_targets h')\<rparr>))"
    by (intro settling_with_target [OF assms w])
      (use i2 w in \<open>auto simp: settling_ret settling_def split: call_result.splits\<close>)
  then show ?thesis
    using assms by (auto simp: update_destination_def settled_unchanged split: sum.splits intro!: settled_unwind)
qed

lemma host_open_cases:
  assumes "host_inv h" "host_open i d t h = (r, h')"
  shows "host_inv h'" "session_at h p \<noteq> None \<Longrightarrow> session_at h' p = session_at h p \<and> bt_get (host_targets h') p = bt_get (host_targets h) p"
proof -
  note inv = host_invD [OF assms(1)]
  have "host_inv h' \<and> (session_at h p \<noteq> None \<longrightarrow> session_at h' p = session_at h p \<and> bt_get (host_targets h') p = bt_get (host_targets h) p)"
  proof (cases "open_session i d (host_ownership h)")
    case (Inl e)
    then show ?thesis using assms by (simp add: host_open_def)
  next
    case (Inr x)
    then obtain q s where opened: "open_session i d (host_ownership h) = Inr (q, s)" by (cases x) auto
    have s: "own_inv s" by (rule own_inv_open [OF inv(1) opened])
    have q: "sequence q = next_sequence (host_ownership h) + 1" and get: "\<And>r. bt_get (sessions s) r = None \<longleftrightarrow> r \<noteq> q \<and> session_at h r = None"
        "\<And>r. r \<noteq> q \<Longrightarrow> bt_get (sessions s) r = session_at h r"
      using opened inv(3) by (auto simp: open_session_def Let_def rbind_eq_Inr store_simps split: if_splits)
    have "session_at h p \<noteq> None \<Longrightarrow> p \<noteq> q" using own_invD(4) [OF inv(1), of p] q by auto
    then show ?thesis
      using assms(2) s get inv(2,4) by (auto simp: host_open_def opened host_inv_def store_simps split: if_splits)
  qed
  then show "host_inv h'" "session_at h p \<noteq> None \<Longrightarrow> session_at h' p = session_at h p \<and> bt_get (host_targets h') p = bt_get (host_targets h) p" by auto
qed

end
