(* ===== verification/HostCalls.thy ===== *)
theory HostCalls
  imports Host
begin

text \<open>
  What a host asks of its backend. A backend is observed by recording its deliveries and closings; the calls
  of a delivery, of a close and of a drop are then stated as lists, for every backend, failing and panicking
  ones included. The host interprets \<open>seat_frame\<close>, so participants are isolated from each other.
\<close>

lemma settled_touches: "settled gone p h res \<Longrightarrow> touches p h (snd res)"
  by (simp add: settled_def split: prod.splits)

lemmas settled_ops = settled_update settled_prepare settled_compile settled_submit settled_submit_prepared settled_submit_action

lemma host_exec_touches:
  assumes "host_inv h" "host_actor op = Some p"
  shows "touches p h (snd (host_exec be op h))"
proof -
  have "touches p h (snd (host_close be p h))" by (rule touches_close(1) [OF assms(1) surjective_pairing])
  then show ?thesis
    using assms(2) settled_ops [OF assms(1), THEN settled_touches] by (cases op) (simp_all add: apfst_def)
qed

lemma ownership_new_empty [simp]: "sessions (snd (ownership_new n ms mh)) = []"
  by (simp add: ownership_new_def Let_def split: prod.splits)

lemma host_inv_new: "host_inv (snd (host_new b n ms mh))"
  by (simp add: host_inv_def host_new_def case_prod_unfold own_inv_new)

lemma host_inv_exec: "host_inv h \<Longrightarrow> host_inv (snd (host_exec be op h))"
proof (cases "host_actor op")
  case None
  assume "host_inv h"
  then show ?thesis using None host_open_cases(1) by (cases op) (auto simp: apfst_def map_prod_def split: prod.splits)
next
  case (Some p)
  assume "host_inv h"
  then show ?thesis using host_exec_touches [OF _ Some] touches_inv by blast
qed

lemma host_reachable_inv: "host_reachable be h \<Longrightarrow> host_inv h"
  by (induction rule: host_reachable.induct) (auto intro: host_inv_new host_inv_exec)

definition host_seat :: "('b, 't, 'c, 'p) host \<Rightarrow> participant \<Rightarrow> (('c, 'p) session \<times> 't) option" where
  "host_seat h p = (case (session_at h p, bt_get (host_targets h) p) of (Some u, Some t) \<Rightarrow> Some (u, t) | _ \<Rightarrow> None)"

lemma host_seat_Some: "host_seat h p = Some (u, t) \<longleftrightarrow> session_at h p = Some u \<and> bt_get (host_targets h) p = Some t"
  by (auto simp: host_seat_def split: option.splits)

interpretation hostf: seat_frame "host_exec be" host_actor host_seat host_inv for be
proof unfold_locales
  fix h op p v
  show "host_inv h \<Longrightarrow> host_inv (snd (host_exec be op h))" by (rule host_inv_exec)
  assume a: "host_inv h" "host_actor op \<noteq> Some p" "host_seat h p = Some v"
  obtain u t where v: "v = (u, t)" by fastforce
  have "session_at (snd (host_exec be op h)) p = session_at h p \<and> bt_get (host_targets (snd (host_exec be op h))) p = bt_get (host_targets h) p"
  proof (cases "host_actor op")
    case None
    then obtain i d x where op: "op = HOpen i d x" by (cases op) auto
    show ?thesis
      using host_open_cases(2) [OF a(1) surjective_pairing, of p i d x] a(3) v by (simp add: op host_seat_Some apfst_def map_prod_def case_prod_unfold)
  next
    case (Some q)
    then show ?thesis using host_exec_touches [OF a(1) Some, of be] a(2) by (auto simp: touches_def)
  qed
  then show "host_seat (snd (host_exec be op h)) p = Some v" using a(3) v by (simp add: host_seat_Some)
qed

section \<open>What the backend is asked to do\<close>

text \<open>A backend that records every delivery attempt and every target it is told is closed.\<close>

datatype ('t, 'p) native_call = Posted 't 'p | TargetClosed 't

definition observed :: "('b, 't, 'c, 'p, 'e) backend \<Rightarrow> ('b \<times> ('t, 'p) native_call list, 't, 'c, 'p, 'e) backend" where
  "observed be = \<lparr>
     be_prepare = (\<lambda>t e hs (b, l). case be_prepare be t e hs b of (r, b') \<Rightarrow> (r, (b', l))),
     be_post = (\<lambda>t p (b, l). case be_post be t p b of (r, b') \<Rightarrow> (r, (b', l @ [Posted t p]))),
     be_closed = (\<lambda>t (b, l). case be_closed be t b of (r, b') \<Rightarrow> (r, (b', l @ [TargetClosed t]))),
     be_refreshed = (\<lambda>t t' (b, l). case be_refreshed be t t' b of (r, b') \<Rightarrow> (r, (b', l)))\<rparr>"

lemma observed_simps [simp]:
  "be_prepare (observed be) t e hs bl = (fst (be_prepare be t e hs (fst bl)), (snd (be_prepare be t e hs (fst bl)), snd bl))"
  "be_post (observed be) t p bl = (fst (be_post be t p (fst bl)), (snd (be_post be t p (fst bl)), snd bl @ [Posted t p]))"
  "be_closed (observed be) t bl = (fst (be_closed be t (fst bl)), (snd (be_closed be t (fst bl)), snd bl @ [TargetClosed t]))"
  by (simp_all add: observed_def case_prod_unfold)

abbreviation calls :: "('b \<times> ('t, 'p) native_call list, 't, 'c, 'p) host \<Rightarrow> ('t, 'p) native_call list" where
  "calls h \<equiv> snd (host_backend h)"

lemma drain_releases_calls: "snd (snd (drain_releases (observed be) t ps bl)) = snd bl @ map (Posted t) ps"
proof (induction ps arbitrary: bl)
  case (Cons q ps)
  have "snd (snd (post_caught (observed be) t q bl)) = snd bl @ [Posted t q]"
    by (simp add: post_caught_def split: call_result.splits sum.splits)
  then show ?case using Cons.IH [of "snd (post_caught (observed be) t q bl)"] by (simp add: case_prod_unfold)
qed simp

lemma host_close_calls:
  assumes "bt_get (host_targets h) p = Some t"
  shows "calls (snd (host_close (observed be) p h)) = calls h @ map (Posted t) (fst (close_session p (host_ownership h))) @ [TargetClosed t]"
proof -
  have "snd (snd (closed_caught (observed be) t bl)) = snd bl @ [TargetClosed t]" for bl
    by (simp add: closed_caught_def split: call_result.splits)
  then show ?thesis using assms by (simp add: host_close_def case_prod_unfold drain_releases_calls)
qed

lemma close_drains_stack:
  assumes "host_inv h" "session_at h p = Some u"
  shows "fst (close_session p (host_ownership h)) = rev (map snd (stack_of (session_holds u)))"
  using drain_stack [of "max_held (host_ownership h)" u] own_invD(4) [OF host_invD(1) [OF assms(1)] assms(2)] assms(2)
  by (simp add: close_session_def)


section \<open>The calls of a delivery\<close>

fun armed :: "('c, 'p) prepared \<Rightarrow> ('c \<times> 'p) list \<Rightarrow> ('c \<times> 'p) list" where
  "armed (PrepDown c packet rel) st = st @ [(c, rel)]"
| "armed (PrepUp c packet) st = filter (\<lambda>e. fst e \<noteq> c) st"
| "armed (PrepMoveHeld c packet rel) st = map (\<lambda>(k, x). (k, if k = c then rel else x)) st"
| "armed prep st = st"

fun packet_of :: "('c, 'p) prepared \<Rightarrow> ('c \<times> 'p) list \<Rightarrow> 'p option" where
  "packet_of (PrepDown c packet rel) st = Some packet"
| "packet_of (PrepUp c packet) st = (case packet of None \<Rightarrow> map_of st c | Some q \<Rightarrow> Some q)"
| "packet_of (PrepRepeat c packet) st = Some packet"
| "packet_of (PrepMoveHeld c packet rel) st = Some packet"
| "packet_of (PrepAction cs packet) st = Some packet"

fun is_up :: "('c, 'p) prepared \<Rightarrow> bool" where
  "is_up (PrepUp _ _) = True"
| "is_up _ = False"

text \<open>The stack of a participant in a host.\<close>

definition host_stack :: "('b, 't, 'c::linorder, 'p) host \<Rightarrow> participant \<Rightarrow> ('c \<times> 'p) list option" where
  "host_stack h p = map_option (\<lambda>u. stack_of (session_holds u)) (session_at h p)"

lemma host_stack_seat: "host_stack h p = map_option seat_stack (seats (abs_ownership (host_ownership h)) p)"
  by (simp add: host_stack_def option.map_comp comp_def)

lemma room_step: "own_inv s \<Longrightarrow> own_exec op s = (res, s') \<Longrightarrow> room_exec op (abs_ownership s) = (res, abs_ownership s')"
  using own_exec_refines [of s op] by simp

lemma host_stack_abs:
  assumes "abs_ownership (host_ownership h) = set_seat p (Some v) a"
  shows "host_stack h p = Some (seat_stack v)"
  unfolding host_stack_seat assms by (simp add: set_seat_def)

text \<open>A step of the registry, read off the specification.\<close>

lemma stack_steps:
  assumes "own_inv (host_ownership h)" "session_at h p = Some u" "host_ownership h' = s"
  shows "own_exec (OpHold p c r) (host_ownership h) = (Accepted, s) \<Longrightarrow>
      host_stack h' p = Some (stack_of (session_holds u) @ [(c, r)]) \<and> c \<notin> fst ` set (stack_of (session_holds u))"
    and "own_exec (OpRelease p c) (host_ownership h) = (HeldRelease r, s) \<Longrightarrow>
      host_stack h' p = Some (filter (\<lambda>e. fst e \<noteq> c) (stack_of (session_holds u))) \<and> map_of (stack_of (session_holds u)) c = Some r"
    and "own_exec (OpReplace p c q) (host_ownership h) = (HeldRelease r, s) \<Longrightarrow>
      host_stack h' p = Some (map (\<lambda>(k, x). (k, if k = c then q else x)) (stack_of (session_holds u))) \<and>
      map_of (stack_of (session_holds u)) c = Some r"
proof -
  note seat = assms(2) with_seat_def with_hold_def seat_holds_def
  show "host_stack h' p = Some (stack_of (session_holds u) @ [(c, r)]) \<and> c \<notin> fst ` set (stack_of (session_holds u))"
    if "own_exec (OpHold p c r) (host_ownership h) = (Accepted, s)"
  proof -
    have "c \<notin> fst ` set (stack_of (session_holds u)) \<and> abs_ownership s =
        set_seat p (Some (abs_session u\<lparr>seat_acquired := seat_acquired (abs_session u) + 1, seat_stack := stack_of (session_holds u) @ [(c, r)]\<rparr>)) (abs_ownership (host_ownership h))"
      using room_step [OF assms(1) that] by (simp add: seat split: if_splits)
    then show ?thesis using host_stack_abs [of h' p] assms(3) by auto
  qed
  show "host_stack h' p = Some (filter (\<lambda>e. fst e \<noteq> c) (stack_of (session_holds u))) \<and> map_of (stack_of (session_holds u)) c = Some r"
    if "own_exec (OpRelease p c) (host_ownership h) = (HeldRelease r, s)"
  proof -
    have "map_of (stack_of (session_holds u)) c = Some r \<and> abs_ownership s =
        set_seat p (Some (abs_session u\<lparr>seat_stack := filter (\<lambda>e. fst e \<noteq> c) (stack_of (session_holds u))\<rparr>)) (abs_ownership (host_ownership h))"
      using room_step [OF assms(1) that] by (simp add: seat split: option.splits)
    then show ?thesis using host_stack_abs [of h' p] assms(3) by auto
  qed
  show "host_stack h' p = Some (map (\<lambda>(k, x). (k, if k = c then q else x)) (stack_of (session_holds u))) \<and> map_of (stack_of (session_holds u)) c = Some r"
    if "own_exec (OpReplace p c q) (host_ownership h) = (HeldRelease r, s)"
  proof -
    have "map_of (stack_of (session_holds u)) c = Some r \<and> abs_ownership s =
        set_seat p (Some (abs_session u\<lparr>seat_stack := map (\<lambda>(k, x). (k, if k = c then q else x)) (stack_of (session_holds u))\<rparr>)) (abs_ownership (host_ownership h))"
      using room_step [OF assms(1) that] by (simp add: seat split: option.splits)
    then show ?thesis using host_stack_abs [of h' p] assms(3) by auto
  qed
qed

lemma close_calls:
  assumes "host_inv h" "host_stack h p = Some st" "bt_get (host_targets h) p = Some t"
  shows "calls (snd (host_close (observed be) p h)) = calls h @ map (Posted t) (rev (map snd st)) @ [TargetClosed t]"
    "host_stack (snd (host_close (observed be) p h)) p = None"
proof -
  obtain u where u: "session_at h p = Some u" "st = stack_of (session_holds u)" using assms(2) by (auto simp: host_stack_def)
  show "calls (snd (host_close (observed be) p h)) = calls h @ map (Posted t) (rev (map snd st)) @ [TargetClosed t]"
    using host_close_calls [OF assms(3)] close_drains_stack [OF assms(1) u(1)] u(2) by simp
  show "host_stack (snd (host_close (observed be) p h)) p = None"
    using touches_close(2) [OF assms(1) surjective_pairing] by (simp add: host_stack_def)
qed

lemma host_stackE:
  assumes "host_stack h p = Some st"
  obtains u where "session_at h p = Some u" "st = stack_of (session_holds u)"
  using assms by (auto simp: host_stack_def)

lemma distinct_stack: "host_inv h \<Longrightarrow> host_stack h p = Some st \<Longrightarrow> distinct (map fst st)"
proof (erule host_stackE)
  fix u assume h: "host_inv h" "session_at h p = Some u" "st = stack_of (session_holds u)"
  have "bt_wf (session_holds u)" using session_invD(1) own_invD(4) [OF host_invD(1) [OF h(1)] h(2)] by blast
  then have "distinct (map fst (session_holds u))" by (rule bt_wf_distinct)
  moreover have "map fst st = map fst (by_age (session_holds u))" using h(3) by (simp add: stack_of_def comp_def case_prod_unfold)
  ultimately show ?thesis
    using mset_eq_imp_distinct_iff [of "map fst (by_age (session_holds u))" "map fst (session_holds u)"] by (simp add: by_age_def)
qed

lemma reserve_stack:
  assumes "host_inv h" "host_stack h p = Some st" "reserve p prep (host_ownership h) = Inr (packet, roll, s)" "host_ownership h' = s"
  shows "host_stack h' p = Some (armed prep st) \<and> packet_of prep st = Some packet \<and> (roll = RollUp \<longleftrightarrow> is_up prep)"
proof -
  obtain u where u: "session_at h p = Some u" "st = stack_of (session_holds u)" by (rule host_stackE [OF assms(2)])
  note st = stack_steps [OF host_invD(1) [OF assms(1)] u(1) assms(4)]
  show ?thesis
  proof (cases prep)
    case (PrepDown c q r)
    then have "own_exec (OpHold p c r) (host_ownership h) = (Accepted, s)" using assms(3) by (auto elim!: rbindE)
    from st(1) [OF this] show ?thesis using PrepDown assms(3) u(2) by (auto elim!: rbindE)
  next
    case (PrepUp c q)
    then obtain r where r: "own_exec (OpRelease p c) (host_ownership h) = (HeldRelease r, s)" "packet = the_default r q"
      using assms(3) by (auto elim!: rbindE)
    from st(2) [OF r(1)] show ?thesis using PrepUp assms(3) u(2) r(2) by (cases q) (auto elim!: rbindE)
  next
    case (PrepMoveHeld c q r)
    then obtain old where "own_exec (OpReplace p c r) (host_ownership h) = (HeldRelease old, s)"
      using assms(3) by (auto elim!: rbindE)
    from st(3) [OF this] show ?thesis using PrepMoveHeld assms(3) u(2) by (auto elim!: rbindE)
  qed (use assms(2,3,4) in \<open>auto simp: host_stack_def elim!: rbindE\<close>)
qed

lemma replace_back:
  assumes "distinct (map fst st)" "map_of st c = Some old"
  shows "map (\<lambda>(k, x). (k, if k = c then old else x)) (map (\<lambda>(k, x). (k, if k = c then q else x)) st) = st"
proof -
  have "y = old" if "(c, y) \<in> set st" for y using map_of_is_SomeI [OF assms(1) that] assms(2) by simp
  then show ?thesis unfolding map_map by (auto intro!: map_idI)
qed

lemma undo_stack:
  fixes h h1 h2 :: "('b, 't, 'c::linorder, 'p) host"
  assumes "host_inv h" "host_stack h p = Some st" "reserve p prep (host_ownership h) = Inr (packet, roll, s)"
    and "host_ownership h1 = s" "host_ownership h2 = undo p roll s"
  shows "host_stack h2 p = Some (if is_up prep then armed prep st else st)"
proof -
  have inv: "own_inv s" using reserve_own_exec [OF assms(3)] own_inv_exec [OF host_invD(1) [OF assms(1)]] by blast
  have inv1: "own_inv (host_ownership h1)" using inv assms(4) by simp
  have armed: "host_stack h1 p = Some (armed prep st)" using reserve_stack [OF assms(1-4)] by simp
  obtain u where u: "session_at h p = Some u" "st = stack_of (session_holds u)" by (rule host_stackE [OF assms(2)])
  obtain v where v: "session_at h1 p = Some v" "armed prep st = stack_of (session_holds v)" by (rule host_stackE [OF armed])
  note bwd = stack_steps [OF inv1 v(1) assms(5)] and fwd = stack_steps [OF host_invD(1) [OF assms(1)] u(1) assms(4)]
  show ?thesis
  proof (cases prep)
    case (PrepDown c q r)
    then have d: "own_exec (OpHold p c r) (host_ownership h) = (Accepted, s)" "roll = RollDown c" using assms(3) by (auto elim!: rbindE)
    have new: "c \<notin> fst ` set st" using fwd(1) [OF d(1)] u(2) by simp
    have "c \<in> fst ` set (stack_of (session_holds v))" unfolding v(2) [symmetric] using PrepDown by simp
    then have "bt_get (session_holds v) c \<noteq> None" by (simp add: bt_get_None_iff)
    then obtain rel where "own_exec (OpRelease p c) (host_ownership h1) = (HeldRelease rel, undo p roll s)"
      using v(1) assms(4) d(2) by (auto simp: release_def get_session_def settle_def)
    from bwd(2) [OF this] have "host_stack h2 p = Some (filter (\<lambda>e. fst e \<noteq> c) (st @ [(c, r)]))" unfolding v(2) [symmetric] using PrepDown by simp
    moreover have "filter (\<lambda>e. fst e \<noteq> c) st = st" using new by (intro filter_True) auto
    ultimately show ?thesis using PrepDown by simp
  next
    case (PrepMoveHeld c q r)
    then obtain old where m: "own_exec (OpReplace p c r) (host_ownership h) = (HeldRelease old, s)" "roll = RollMoved c old"
      using assms(3) by (auto elim!: rbindE)
    have get: "map_of st c = Some old" using fwd(3) [OF m(1)] u(2) by simp
    have "fst ` set (armed prep st) = fst ` set st" using PrepMoveHeld by force
    then have "c \<in> set (map fst (session_holds v))"
      unfolding keys_stack_of [symmetric] v(2) [symmetric] using map_of_SomeD [OF get] by force
    then have "bt_get (session_holds v) c \<noteq> None" by (simp add: bt_get_None_iff)
    then obtain rel where "own_exec (OpReplace p c old) (host_ownership h1) = (HeldRelease rel, undo p roll s)"
      using v(1) assms(4) m(2) by (auto simp: update_release_def replace_release_def get_session_def settle_def)
    from bwd(3) [OF this] have "host_stack h2 p = Some (map (\<lambda>(k, x). (k, if k = c then old else x)) (armed prep st))" using v(2) by simp
    then show ?thesis
      using PrepMoveHeld replace_back [OF distinct_stack [OF assms(1,2)] get] by simp
  qed (use assms(2-5) armed in \<open>auto simp: host_stack_def elim!: rbindE\<close>)
qed


fun delivered :: "('c, 'p) prepared \<Rightarrow> 't \<Rightarrow> ('c \<times> 'p) list \<Rightarrow> ('e input_failure, delivery) result call_result \<Rightarrow> ('t, 'p) native_call list \<Rightarrow>
   ('c \<times> 'p) list option \<Rightarrow> bool" where
  "delivered prep t st (Returned (Inr receipt)) new final \<longleftrightarrow>
     (\<exists>packet. packet_of prep st = Some packet \<and> new = [Posted t packet]) \<and> final = Some (armed prep st)"
| "delivered prep t st (Returned (Inl (PostFailed (NotDispatched e) cleanup))) new final \<longleftrightarrow>
     (\<exists>packet. packet_of prep st = Some packet \<and>
        new = Posted t packet # (if is_up prep then [Posted t packet] else []) @
          map (Posted t) (rev (map snd (if is_up prep then armed prep st else st))) @ [TargetClosed t]) \<and> final = None"
| "delivered prep t st (Returned (Inl (PostFailed failure cleanup))) new final \<longleftrightarrow>
     (\<exists>packet. packet_of prep st = Some packet \<and>
        new = Posted t packet # map (Posted t) (rev (map snd (armed prep st))) @ [TargetClosed t]) \<and> final = None"
| "delivered prep t st Panicked new final \<longleftrightarrow>
     (\<exists>packet again. packet_of prep st = Some packet \<and> (again = [] \<or> is_up prep \<and> again = [Posted t packet]) \<and>
        new = Posted t packet # again @ map (Posted t) (rev (map snd (armed prep st))) @ [TargetClosed t]) \<and> final = None"
| "delivered prep t st (Returned (Inl (OwnershipFailure e))) new final \<longleftrightarrow> new = [] \<and> final = Some st"
| "delivered prep t st (Returned (Inl _)) new final \<longleftrightarrow> False"

lemma with_target_post:
  assumes "bt_get (host_targets h) p = Some t" "with_target p (\<lambda>t. be_post (observed be) t packet) h = (r, h')"
  shows "calls h' = calls h @ [Posted t packet]" "host_ownership h' = host_ownership h" "host_targets h' = host_targets h"
  using assms by (auto simp: with_target_def)

lemma fail_post_calls:
  assumes "host_inv h" "host_stack h p = Some st" "bt_get (host_targets h) p = Some t" "fail_post (observed be) p failure cs h = (out, h')"
  shows "calls h' = calls h @ map (Posted t) (rev (map snd st)) @ [TargetClosed t]" "host_stack h' p = None"
    "\<exists>fs. out = Returned (Inl (PostFailed failure fs))"
  using close_calls [OF assms(1-3), of be] assms(4) by (auto simp: fail_post_def split: prod.splits)


lemma recover_calls:
  fixes h h1 :: "('b \<times> ('t, 'p) native_call list, 't, 'c::linorder, 'p) host"
  assumes "host_inv h" "host_stack h p = Some st" "bt_get (host_targets h) p = Some t"
    and "reserve p prep (host_ownership h) = Inr (packet, roll, s)"
    and "host_inv h1" "host_ownership h1 = s" "host_targets h1 = host_targets h" "calls h1 = calls h @ [Posted t packet]"
    and "recover (observed be) p packet roll failure h1 = (out, h')"
  shows "case out of
      Returned r \<Rightarrow> (\<exists>new. calls h' = calls h @ new \<and> delivered prep t st out new (host_stack h' p))
    | Panicked \<Rightarrow> is_up prep \<and> calls h' = calls h @ [Posted t packet, Posted t packet] \<and> host_stack h' p = Some (armed prep st) \<and>
        host_inv h' \<and> bt_get (host_targets h') p = Some t"
proof -
  have res: "host_stack h1 p = Some (armed prep st)" "packet_of prep st = Some packet" "roll = RollUp \<longleftrightarrow> is_up prep"
    using reserve_stack [OF assms(1,2,4,6)] by auto
  have t1: "bt_get (host_targets h1) p = Some t" using assms(3,7) by simp
  show ?thesis
  proof (cases failure)
    case (NotDispatched e)
    let ?h = "h1\<lparr>host_ownership := undo p roll (host_ownership h1)\<rparr>"
    obtain op rs where u: "own_exec op (host_ownership h1) = (rs, undo p roll (host_ownership h1))" "own_actor op = Some p" "op \<noteq> OpClose p"
      using undo_own_exec by blast
    have i: "host_inv ?h" by (rule host_inv_own [OF assms(5) u])
    have st: "host_stack ?h p = Some (if is_up prep then armed prep st else st)"
      by (rule undo_stack [OF assms(1,2,4,6)]) (simp add: assms(6))
    have t2: "bt_get (host_targets ?h) p = Some t" using t1 by simp
    show ?thesis
    proof (cases "is_up prep")
      case False
      then have "fail_post (observed be) p failure [] ?h = (out, h')" using assms(9) res(3) NotDispatched by (simp add: recover_def)
      note f = fail_post_calls [OF i st t2 this]
      then show ?thesis using False res(2) assms(8) NotDispatched by auto
    next
      case True
      obtain r h2 where w: "with_target p (\<lambda>t. be_post (observed be) t packet) ?h = (r, h2)" by fastforce
      note w2 = with_target_post [OF t2 w]
      have i2: "host_inv h2" by (rule host_inv_with_target [OF i w])
      have s2: "host_stack h2 p = Some (armed prep st)" using st True w2(2) by (simp add: host_stack_def)
      have t3: "bt_get (host_targets h2) p = Some t" using w2(3) t1 by simp
      have rec: "recover (observed be) p packet roll failure h1 = (case r of Panicked \<Rightarrow> (Panicked, h2)
          | Returned (Inl error) \<Rightarrow> fail_post (observed be) p failure [error] h2 | Returned (Inr _) \<Rightarrow> fail_post (observed be) p failure [] h2)"
        using res(3) True NotDispatched w by (auto simp: recover_def Let_def split: call_result.splits sum.splits)
      show ?thesis
      proof (cases "r = Panicked")
        case True
        then show ?thesis using rec assms(9) w2(1) assms(8) s2 i2 t3 \<open>is_up prep\<close> by simp
      next
        case False
        then obtain cs where "fail_post (observed be) p failure cs h2 = (out, h')"
          using rec assms(9) by (auto split: call_result.splits sum.splits)
        note f = fail_post_calls [OF i2 s2 t3 this]
        then show ?thesis using True res(2) assms(8) w2(1) NotDispatched by auto
      qed
    qed
  next
    case (Uncertain e)
    then have "fail_post (observed be) p failure [] h1 = (out, h')" using assms(9) by (simp add: recover_def)
    note f = fail_post_calls [OF assms(5) res(1) t1 this]
    then show ?thesis using res(2) assms(8) Uncertain by auto
  next
    case BackendPanicked
    then have "fail_post (observed be) p failure [] h1 = (out, h')" using assms(9) by (simp add: recover_def)
    note f = fail_post_calls [OF assms(5) res(1) t1 this]
    then show ?thesis using res(2) assms(8) BackendPanicked by auto
  qed
qed

lemma dispatch_calls:
  assumes "host_inv h" "host_stack h p = Some st" "bt_get (host_targets h) p = Some t"
    and "unwind_scoped (observed be) p (host_dispatch (observed be) p prep) h = (out, h')"
  shows "\<exists>new. calls h' = calls h @ new \<and> delivered prep t st out new (host_stack h' p)"
proof (cases "reserve p prep (host_ownership h)")
  case (Inl e)
  then show ?thesis using assms(2,4) by (simp add: unwind_scoped_def host_dispatch_def) (auto simp: assms(2))
next
  case (Inr x)
  then obtain packet roll s where r: "reserve p prep (host_ownership h) = Inr (packet, roll, s)" by (cases x) auto
  let ?h = "h\<lparr>host_ownership := s\<rparr>"
  obtain op rs where u: "own_exec op (host_ownership h) = (rs, s)" "own_actor op = Some p" "op \<noteq> OpClose p"
    using reserve_own_exec [OF r] by blast
  have i: "host_inv ?h" by (rule host_inv_own [OF assms(1) u])
  have t1: "bt_get (host_targets ?h) p = Some t" using assms(3) by simp
  have res: "host_stack ?h p = Some (armed prep st)" "packet_of prep st = Some packet"
    using reserve_stack [OF assms(1,2) r, of ?h] by auto
  obtain q h2 where w: "with_target p (\<lambda>t. be_post (observed be) t packet) ?h = (q, h2)" by fastforce
  note w2 = with_target_post [OF t1 w]
  have i2: "host_inv h2" by (rule host_inv_with_target [OF i w])
  have s2: "host_stack h2 p = Some (armed prep st)" and t2: "bt_get (host_targets h2) p = Some t"
    using res(1) w2 t1 by (simp_all add: host_stack_def)
  have panic: "\<exists>new. calls h' = calls h @ new \<and> delivered prep t st out new (host_stack h' p)"
    if d: "host_dispatch (observed be) p prep h = (Panicked, h3)" and i3: "host_inv h3" "host_stack h3 p = Some (armed prep st)" "bt_get (host_targets h3) p = Some t"
      and c3: "calls h3 = calls h @ Posted t packet # again" "again = [] \<or> is_up prep \<and> again = [Posted t packet]" for h3 again
    using close_calls [OF i3, of be] c3 res(2) assms(4) d by (auto simp: unwind_scoped_def)
  show ?thesis
  proof (cases q)
    case Panicked
    then have "host_dispatch (observed be) p prep h = (Panicked, h2)" using r w by (simp add: host_dispatch_def)
    from panic [OF this i2 s2 t2, of "[]"] show ?thesis using w2(1) by simp
  next
    case (Returned y)
    show ?thesis
    proof (cases y)
      case (Inr receipt)
      then have "out = Returned (Inr receipt)" "h' = h2"
        using assms(4) r w Returned by (simp_all add: unwind_scoped_def host_dispatch_def)
      then show ?thesis using w2(1) res(2) s2 by simp
    next
      case (Inl failure)
      obtain out2 h3 where rc: "recover (observed be) p packet roll failure h2 = (out2, h3)" by fastforce
      have d: "host_dispatch (observed be) p prep h = (out2, h3)" using r w Returned Inl rc by (simp add: host_dispatch_def)
      note c = recover_calls [OF assms(1-3) r i2 _ _ _ rc]
      have c: "case out2 of Returned r \<Rightarrow> (\<exists>new. calls h3 = calls h @ new \<and> delivered prep t st out2 new (host_stack h3 p))
          | Panicked \<Rightarrow> is_up prep \<and> calls h3 = calls h @ [Posted t packet, Posted t packet] \<and> host_stack h3 p = Some (armed prep st) \<and>
              host_inv h3 \<and> bt_get (host_targets h3) p = Some t"
        by (rule c) (use w2 in simp_all)
      show ?thesis
      proof (cases out2)
        case Panicked
        then show ?thesis using panic [of h3 "[Posted t packet]"] d c by simp
      next
        case (Returned z)
        then show ?thesis using c d assms(4) by (simp add: unwind_scoped_def)
      qed
    qed
  qed
qed

lemma accept_stack:
  assumes "host_inv h" "accept p i n h = Inr h1"
  shows "host_stack h1 p = host_stack h p" "host_backend h1 = host_backend h" "host_targets h1 = host_targets h"
  using assms host_invD(3) [OF assms(1)]
  by (auto simp: accept_def accept_sequence_def rbind_eq_Inr host_stack_def store_simps split: if_splits)

lemma submit_prepared_calls:
  assumes "host_inv h" "host_stack h p = Some st" "bt_get (host_targets h) p = Some t"
    and "submit_prepared (observed be) p i n prep h = (out, h')"
  shows "\<exists>new. calls h' = calls h @ new \<and> delivered prep t st out new (host_stack h' p)"
proof (cases "accept p i n h")
  case (Inl e)
  then show ?thesis using assms(2,4) by (simp add: submit_prepared_def) (auto simp: assms(2))
next
  case (Inr h1)
  note a = accept_stack [OF assms(1) Inr]
  have "unwind_scoped (observed be) p (host_dispatch (observed be) p prep) h1 = (out, h')"
    using assms(4) Inr by (simp add: submit_prepared_def)
  from dispatch_calls [OF accept_settled(3) [OF assms(1) Inr] _ _ this] show ?thesis using a assms(2,3) by simp
qed

lemma prepare_event_calls:
  assumes "host_inv h" "prepare_event (observed be) p e h = (r, h')"
  shows "calls h' = calls h" "host_stack h' p = host_stack h p"
  using assms settling_prepare_event(2) [OF assms]
  by (auto simp: prepare_event_def with_target_def host_stack_def split: option.splits sum.splits)

text \<open>What \<open>submit\<close> may do with an event: nothing, drain after a panicking preparation, or deliver what was prepared.\<close>

definition submitted :: "'t \<Rightarrow> ('c \<times> 'p) list \<Rightarrow> ('e input_failure, delivery) result call_result \<Rightarrow> ('t, 'p) native_call list \<Rightarrow>
   ('c \<times> 'p) list option \<Rightarrow> bool" where
  "submitted t st out new final \<longleftrightarrow>
     (\<exists>e. out = Returned (Inl e) \<and> (\<forall>f cleanup. e \<noteq> PostFailed f cleanup) \<and> new = [] \<and> final = Some st) \<or>
     (out = Panicked \<and> new = map (Posted t) (rev (map snd st)) @ [TargetClosed t] \<and> final = None) \<or>
     (\<exists>prep. delivered prep t st out new final)"

lemma prepare_failure:
  assumes "prepare_event be p e h = (Returned (Inl err), h')"
  shows "err \<noteq> PostFailed f cleanup"
  using assms by (auto simp: prepare_event_def map_call_err_def split: option.splits sum.splits prod.splits call_result.splits)

lemma submit_calls:
  assumes "host_inv h" "host_stack h p = Some st" "bt_get (host_targets h) p = Some t"
    and "submit (observed be) p i n e h = (out, h')"
  shows "\<exists>new. calls h' = calls h @ new \<and> submitted t st out new (host_stack h' p)"
proof (cases "accept p i n h")
  case (Inl err)
  then show ?thesis using assms(2,4) by (auto simp: submit_def submitted_def)
next
  case (Inr h1)
  note a = accept_stack [OF assms(1) Inr] and i1 = accept_settled(3) [OF assms(1) Inr]
  show ?thesis
  proof (cases "validate e")
    case (Inl m)
    then show ?thesis using assms(2,4) Inr a by (auto simp: submit_def submitted_def)
  next
    case (Inr ok)
    obtain r h2 where q: "prepare_event (observed be) p e h1 = (r, h2)" by fastforce
    note p = prepare_event_calls [OF i1 q] settling_prepare_event [OF i1 q]
    have h2: "host_stack h2 p = Some st" "bt_get (host_targets h2) p = Some t" "calls h2 = calls h"
      using p a assms(2,3) by simp_all
    have sub: "submit (observed be) p i n e h = unwind_scoped (observed be) p (\<lambda>h.
                 case prepare_event (observed be) p e h of
                   (Panicked, h') \<Rightarrow> (Panicked, h')
                 | (Returned (Inl e), h') \<Rightarrow> (Returned (Inl e), h')
                 | (Returned (Inr packet), h') \<Rightarrow> host_dispatch (observed be) p packet h') h1"
      using Inr \<open>accept p i n h = Inr h1\<close> by (simp add: submit_def)
    show ?thesis
    proof (cases r)
      case Panicked
      then have "out = Panicked" "h' = snd (host_close (observed be) p h2)" using sub assms(4) q by (simp_all add: unwind_scoped_def)
      then show ?thesis using close_calls [OF p(6) h2(1,2), of be] h2(3) by (simp add: submitted_def)
    next
      case (Returned x)
      show ?thesis
      proof (cases x)
        case (Inl err)
        then have "out = Returned (Inl err)" "h' = h2" using sub assms(4) q Returned by (simp_all add: unwind_scoped_def)
        moreover have "err \<noteq> PostFailed f cleanup" for f cleanup using prepare_failure q Returned Inl by blast
        ultimately show ?thesis using h2 by (simp add: submitted_def)
      next
        case (Inr prep)
        then have "unwind_scoped (observed be) p (host_dispatch (observed be) p prep) h2 = (out, h')"
          using sub assms(4) q Returned by (simp add: unwind_scoped_def)
        from dispatch_calls [OF p(6) h2(1,2) this] show ?thesis using h2(3) by (auto simp: submitted_def)
      qed
    qed
  qed
qed

section \<open>Dropping a host\<close>

definition cleanup_calls :: "('b, 't, 'c::linorder, 'p) host \<Rightarrow> participant \<Rightarrow> ('t, 'p) native_call list" where
  "cleanup_calls h p = (case (host_stack h p, bt_get (host_targets h) p) of
     (Some st, Some t) \<Rightarrow> map (Posted t) (rev (map snd st)) @ [TargetClosed t] | _ \<Rightarrow> [])"

lemma close_cleanup:
  assumes "host_inv h" "session_at h p \<noteq> None"
  shows "calls (snd (host_close (observed be) p h)) = calls h @ cleanup_calls h p"
proof -
  obtain st t where "host_stack h p = Some st" "bt_get (host_targets h) p = Some t"
    using assms host_invD(4) [OF assms(1), of p] by (auto simp: host_stack_def)
  then show ?thesis using close_calls(1) [OF assms(1)] by (simp add: cleanup_calls_def)
qed

lemma close_each:
  assumes "host_inv h" "distinct ps" "\<forall>p \<in> set ps. session_at h p \<noteq> None"
  shows "calls (fold (\<lambda>p h. snd (host_close (observed be) p h)) ps h) = calls h @ concat (map (cleanup_calls h) ps) \<and>
    host_inv (fold (\<lambda>p h. snd (host_close (observed be) p h)) ps h) \<and>
    (\<forall>q. session_at (fold (\<lambda>p h. snd (host_close (observed be) p h)) ps h) q = (if q \<in> set ps then None else session_at h q))"
  using assms
proof (induction ps arbitrary: h)
  case (Cons p ps)
  let ?h = "snd (host_close (observed be) p h)"
  note c = touches_close [OF Cons.prems(1) surjective_pairing [of "host_close (observed be) p h"]]
  have other: "session_at ?h q = session_at h q" "bt_get (host_targets ?h) q = bt_get (host_targets h) q" if "q \<noteq> p" for q
    using c(1) that by (simp_all add: touches_def)
  have "cleanup_calls ?h q = cleanup_calls h q" if "q \<noteq> p" for q
    unfolding cleanup_calls_def host_stack_def other [OF that] ..
  moreover have ne: "q \<noteq> p" if "q \<in> set ps" for q using that Cons.prems(2) by auto
  ultimately have same: "map (cleanup_calls ?h) ps = map (cleanup_calls h) ps" by simp
  have live: "\<forall>q \<in> set ps. session_at ?h q \<noteq> None" using Cons.prems(3) other(1) [OF ne] by simp
  show ?case
    using Cons.IH [OF touches_inv [OF c(1)] _ live] Cons.prems close_cleanup [OF Cons.prems(1), of p be] same c(2) other by auto
qed simp

lemma participants_live: "host_inv h \<Longrightarrow> distinct (participants (host_ownership h)) \<and> (\<forall>p. p \<in> set (participants (host_ownership h)) \<longleftrightarrow> session_at h p \<noteq> None)"
  using bt_wf_distinct [OF host_invD(3)] by (auto simp: participants_def bt_get_None_iff simp del: set_map)

section \<open>Panics\<close>

definition never_panics :: "('b, 't, 'c, 'p, 'e) backend \<Rightarrow> bool" where
  "never_panics be \<longleftrightarrow> (\<forall>t e hs b. fst (be_prepare be t e hs b) \<noteq> Panicked) \<and> (\<forall>t p b. fst (be_post be t p b) \<noteq> Panicked) \<and>
     (\<forall>t b. fst (be_closed be t b) \<noteq> Panicked) \<and> (\<forall>t t' b. fst (be_refreshed be t t' b) \<noteq> Panicked)"

lemma with_target_quiet:
  "bt_get (host_targets h) p \<noteq> None \<Longrightarrow> \<forall>t b. fst (f t b) \<noteq> Panicked \<Longrightarrow> fst (with_target p f h) \<noteq> Panicked"
  by (auto simp: with_target_def case_prod_unfold)

lemma unwind_quiet: "fst (operation h) \<noteq> Panicked \<Longrightarrow> fst (unwind_scoped be p operation h) \<noteq> Panicked"
  by (auto simp: unwind_scoped_def split: prod.splits call_result.splits)

lemma dispatch_quiet:
  assumes "never_panics be" "bt_get (host_targets h) p \<noteq> None"
  shows "fst (host_dispatch be p prep h) \<noteq> Panicked"
proof -
  have post: "fst (with_target p (\<lambda>t. be_post be t packet) k) \<noteq> Panicked" if "host_targets k = host_targets h" for packet and k :: "('a, 'b, 'c, 'd) host"
    by (rule with_target_quiet) (use assms that in \<open>simp_all add: never_panics_def\<close>)
  have fail: "fst (fail_post be p f cs k :: ('e input_failure, delivery) result call_result \<times> _) \<noteq> Panicked" for f cs k
    by (simp add: fail_post_def split: prod.splits)
  have rec: "fst (recover be p packet roll f k) \<noteq> Panicked" if "host_targets k = host_targets h" for packet roll f k
    using fail post [of "k\<lparr>host_ownership := undo p roll (host_ownership k)\<rparr>" packet] that
    by (auto simp: recover_def Let_def split: post_failure.splits prod.splits call_result.splits sum.splits)
  show ?thesis
  proof (cases "reserve p prep (host_ownership h)")
    case (Inr x)
    then obtain packet roll s where r: "reserve p prep (host_ownership h) = Inr (packet, roll, s)" by (cases x) auto
    obtain q h2 where w: "with_target p (\<lambda>t. be_post be t packet) (h\<lparr>host_ownership := s\<rparr>) = (q, h2)" by fastforce
    then show ?thesis
      using r w post [of "h\<lparr>host_ownership := s\<rparr>" packet] rec [of h2] with_target_sessions [OF w]
      by (auto simp: host_dispatch_def split: call_result.splits sum.splits)
  qed (simp add: host_dispatch_def)
qed


lemma reachable_seat:
  assumes "host_reachable be h" "host_seat h p = Some (u, t)"
  shows "host_inv h" "host_stack h p = Some (stack_of (session_holds u))" "bt_get (host_targets h) p = Some t" "session_at h p = Some u"
  using assms host_reachable_inv by (auto simp: host_seat_Some host_stack_def)

lemma prepare_event_quiet:
  assumes "never_panics be" "bt_get (host_targets h) p \<noteq> None"
  shows "fst (prepare_event be p e h) \<noteq> Panicked"
proof (cases "holds_of (host_ownership h) p")
  case (Inr hs)
  have "fst (with_target p (\<lambda>t. be_prepare be t e hs) h) \<noteq> Panicked"
    by (rule with_target_quiet) (use assms in \<open>simp_all add: never_panics_def\<close>)
  then show ?thesis using Inr assms(2)
    by (auto simp: prepare_event_def map_call_err_def split: prod.splits call_result.splits sum.splits)
qed (use assms(2) in \<open>auto simp: prepare_event_def\<close>)

lemma submit_quiet:
  assumes "never_panics be" "host_inv h"
  shows "fst (submit be p i n e h) \<noteq> Panicked" "fst (submit_prepared be p i n prep h) \<noteq> Panicked"
    "fst (update_destination be p i t h) \<noteq> Panicked" "fst (host_prepare be p e h) \<noteq> Panicked"
proof -
  have tgt: "bt_get (host_targets h1) p \<noteq> None" if "accept p i n h = Inr h1" for h1
    using accept_settled(2,3,4) [OF assms(2) that] host_invD(4) [of h1 p] by simp
  have pd: "fst (case prepare_event be p e k of (Panicked, h') \<Rightarrow> (Panicked, h') | (Returned (Inl e), h') \<Rightarrow> (Returned (Inl e), h')
      | (Returned (Inr packet), h') \<Rightarrow> host_dispatch be p packet h') \<noteq> Panicked" if k: "host_inv k" "bt_get (host_targets k) p \<noteq> None" for k
  proof -
    obtain r k2 where q: "prepare_event be p e k = (r, k2)" by fastforce
    have "bt_get (host_targets k2) p \<noteq> None" using settling_prepare_event(3) [OF k(1) q] k(2) by simp
    then show ?thesis using q prepare_event_quiet [OF assms(1) k(2), of e] dispatch_quiet [OF assms(1)] by (auto split: call_result.splits sum.splits)
  qed
  show "fst (submit be p i n e h) \<noteq> Panicked"
    using pd accept_settled(3) [OF assms(2)] tgt by (auto simp: submit_def intro!: unwind_quiet split: sum.splits)
  show "fst (submit_prepared be p i n prep h) \<noteq> Panicked"
    using dispatch_quiet [OF assms(1)] tgt by (auto simp: submit_prepared_def intro!: unwind_quiet split: sum.splits)
  have live: "bt_get (host_targets h) p \<noteq> None" if "target_of (host_ownership h) p = Inr x" for x
    using that host_invD(4) [OF assms(2), of p] by (auto simp: target_of_def rbind_eq_Inr)
  show "fst (host_prepare be p e h) \<noteq> Panicked"
    using prepare_event_quiet [OF assms(1)] live by (auto simp: host_prepare_def intro!: unwind_quiet split: sum.splits)
  have "fst (with_target p (\<lambda>previous. be_refreshed be previous t) h) \<noteq> Panicked" if "bt_get (host_targets h) p \<noteq> None"
    by (rule with_target_quiet) (use assms that in \<open>simp_all add: never_panics_def\<close>)
  then show "fst (update_destination be p i t h) \<noteq> Panicked"
    using live by (auto simp: update_destination_def intro!: unwind_quiet split: sum.splits prod.splits call_result.splits)
qed

section \<open>Properties\<close>

text \<open>
  (C27) Exactly the right native calls: for every backend and every reachable host, submitting a prepared
  packet of a live participant posts nothing and leaves its holds as they are when ownership refuses it;
  posts the packet once and arms its release on success; after an uncertain delivery or a backend panic
  posts the packet and then every armed release once, newest first, the new packet's own release included;
  and after a delivery the backend certifies as not sent, posts the releases held before, rolling back the
  new hold or the moved release, with one more attempt of an unsent release. In every failing case the
  target is told it is closed and the participant holds nothing.
\<close>

theorem prepared_delivery_calls:
  assumes "host_reachable (observed be) h" "host_seat h p = Some (u, t)"
    and "submit_prepared (observed be) p identity n prep h = (out, h')"
  shows "\<exists>new. calls h' = calls h @ new \<and> delivered prep t (stack_of (session_holds u)) out new (host_stack h' p)"
  using submit_prepared_calls [OF reachable_seat(1-3) [OF assms(1,2)] assms(3)] .

definition demo_backend :: "(nat, string, nat, string, string) backend" where
  "demo_backend = \<lparr>
     be_prepare = (\<lambda>t e hs b. (Returned (case e of KeyDown k ms rep \<Rightarrow> Inr (PrepDown (length k) ''down'' ''up'') | _ \<Rightarrow> Inl ''unsupported''), b)),
     be_post = (\<lambda>t p b. (if b = 0 then Panicked else if b = 1 then Returned (Inl (Uncertain ''lost'')) else Returned (Inr DispatchedUnverified), b - 1)),
     be_closed = (\<lambda>t b. (Returned (), b)), be_refreshed = (\<lambda>t t' b. (Returned (), b))\<rparr>"

abbreviation demo_observed where "demo_observed \<equiv> observed demo_backend"

definition demo_host :: "nat \<Rightarrow> (nat \<times> (string, string) native_call list, string, nat, string) host" where
  "demo_host budget = hostf.execs demo_observed [HOpen demo_target ''seat'' ''window'', HPrepared (Participant 1 1) demo_target 1 (PrepDown 7 ''down-7'' ''up-7'')]
     (snd (host_new (budget, []) 1 2 2))"

lemma host_execs_reachable: "host_reachable be h \<Longrightarrow> host_reachable be (hostf.execs be ops h)"
  by (induction ops arbitrary: h) (simp_all add: hostf.execs_def host_step)

lemma demo_host_reachable: "host_reachable demo_observed (demo_host budget)"
  unfolding demo_host_def by (intro host_execs_reachable host_start)

lemmas demo_host_defs = demo_backend_def hostf.execs_def host_new_def ownership_new_def host_open_def submit_prepared_def accept_def
  unwind_scoped_def host_dispatch_def with_target_def own_op_defs Let_def bt_get_def checked_add_u64_def less_participant_def

definition demo_session :: "(nat, string) session" where
  "demo_session = \<lparr>session_target = demo_target, session_domain = ''seat'',
     session_holds = [(7, \<lparr>hold_release = ''up-7'', hold_ordinal = 1\<rparr>)], session_ordinal = 1, last_sequence = Some 1\<rparr>"

lemma demo_host_eq:
  "demo_host (Suc (Suc k)) = \<lparr>host_backend = (Suc k, [Posted ''window'' ''down-7'']),
     host_ownership = \<lparr>sessions = [(Participant 1 1, demo_session)], owners = [((''seat'', 7), Participant 1 1)], registry_id = 1,
       next_sequence = 1, max_sessions = 2, max_held = 2\<rparr>, host_targets = [(Participant 1 1, ''window'')]\<rparr>"
  by (simp add: demo_host_def demo_host_defs demo_session_def)

lemma demo_host_seat: "host_seat (demo_host 2) (Participant 1 1) = Some (demo_session, ''window'')"
  by (simp add: numeral_2_eq_2 demo_host_eq host_seat_def bt_get_def)

theorem prepared_delivery_calls_witness:
  "fst (submit_prepared demo_observed (Participant 1 1) demo_target 2 (PrepDown 8 ''down-8'' ''up-8'') (demo_host 2))
     = Returned (Inl (PostFailed (Uncertain ''lost'') [BackendPanicked, BackendPanicked])) \<and>
   (\<exists>new. calls (snd (submit_prepared demo_observed (Participant 1 1) demo_target 2 (PrepDown 8 ''down-8'' ''up-8'') (demo_host 2)))
      = calls (demo_host 2) @ new \<and> new = map (Posted ''window'') [''down-8'', ''up-8'', ''up-7''] @ [TargetClosed ''window''])"
proof -
  let ?r = "submit_prepared demo_observed (Participant 1 1) demo_target 2 (PrepDown 8 ''down-8'' ''up-8'') (demo_host 2)"
  have out: "fst ?r = Returned (Inl (PostFailed (Uncertain ''lost'') [BackendPanicked, BackendPanicked]))"
    by (simp add: numeral_2_eq_2 demo_host_eq demo_session_def demo_host_defs recover_def fail_post_def host_close_def post_caught_def
        closed_caught_def)
  have st: "stack_of (session_holds demo_session) = [(7, ''up-7'')]" by (simp add: demo_session_def stack_of_def by_age_def)
  obtain new where new: "calls (snd ?r) = calls (demo_host 2) @ new"
      "delivered (PrepDown 8 ''down-8'' ''up-8'') ''window'' (stack_of (session_holds demo_session)) (fst ?r) new (host_stack (snd ?r) (Participant 1 1))"
    using prepared_delivery_calls [OF demo_host_reachable demo_host_seat prod.collapse [symmetric]] by blast
  have "new = map (Posted ''window'') [''down-8'', ''up-8'', ''up-7''] @ [TargetClosed ''window'']"
    using new(2) unfolding out st by simp
  then show ?thesis using out new(1) by blast
qed

text \<open>
  An event submitted for a live participant either is refused, invalid or cannot be prepared, and then
  nothing is posted and the holds stay; or its preparation panicked, and then every held release is posted
  once, newest first; or what the backend prepared was delivered with exactly the native calls of a
  prepared delivery.
\<close>

lemma event_submission_calls:
  assumes "host_reachable (observed be) h" "host_seat h p = Some (u, t)"
    and "submit (observed be) p identity n event h = (out, h')"
  shows "\<exists>new. calls h' = calls h @ new \<and> submitted t (stack_of (session_holds u)) out new (host_stack h' p)"
  using submit_calls [OF reachable_seat(1-3) [OF assms(1,2)] assms(3)] .

text \<open>
  A failure ends the participant and only the participant: for every backend and reachable host, an
  operation of a live participant leaves it without session exactly when a delivery failed or something
  panicked, and in every case the sessions and targets of all other participants are unchanged.
\<close>

lemma failure_ends_only_its_participant:
  assumes "host_reachable be h"
  shows "settled post_failed p h (submit be p identity n event h) \<and>
    settled post_failed p h (submit_prepared be p identity n prep h) \<and>
    settled post_failed p h (submit_action be p identity n controls action h) \<and>
    settled post_failed p h (host_prepare be p event h) \<and>
    settled post_failed p h (host_compile be p compile h) \<and>
    settled (\<lambda>_. False) p h (update_destination be p identity target h)"
  by (simp only: settled_ops [OF host_reachable_inv [OF assms]] simp_thms)

text \<open>
  (C29) Whatever other participants do, even with a failing or panicking backend, a live participant keeps
  its session, its holds and its target.
\<close>

theorem host_isolation:
  assumes "host_reachable be h" "host_seat h p = Some seat" "\<forall>op \<in> set ops. host_actor op \<noteq> Some p"
  shows "host_seat (fold (\<lambda>op h. snd (host_exec be op h)) ops h) p = Some seat"
  using hostf.execs_seat [OF host_reachable_inv [OF assms(1)] assms(3,2)] by (simp add: hostf.execs_def)

theorem host_isolation_witness:
  "host_seat (fold (\<lambda>op h. snd (host_exec demo_observed op h))
     [HOpen demo_target ''seat'' ''other'', HPrepared (Participant 1 2) demo_target 1 (PrepDown 9 ''down-9'' ''up-9''), HClose (Participant 1 2)]
     (demo_host 2)) (Participant 1 1) = Some (demo_session, ''window'')"
  by (rule host_isolation [OF demo_host_reachable demo_host_seat]) simp

text \<open>
  (C28) Dropping a host releases everything: each live participant, in order, has its releases posted newest
  first and its target closed, whatever the backend answers, and no session is left.
\<close>

theorem drop_releases_everything:
  assumes "host_reachable (observed be) h"
  shows "calls (host_drop (observed be) h) = calls h @ concat (map (cleanup_calls h) (participants (host_ownership h))) \<and>
    (\<forall>p. host_seat (host_drop (observed be) h) p = None)"
proof -
  note i = host_reachable_inv [OF assms]
  have "calls (host_drop (observed be) h) = calls h @ concat (map (cleanup_calls h) (participants (host_ownership h))) \<and>
      (\<forall>q. session_at (host_drop (observed be) h) q = None)"
    using close_each [OF i, of "participants (host_ownership h)" be] participants_live [OF i] unfolding host_drop_def by auto
  then show ?thesis by (simp add: host_seat_def)
qed

theorem drop_releases_everything_witness:
  "calls (host_drop demo_observed (demo_host 2)) = [Posted ''window'' ''down-7'', Posted ''window'' ''up-7'', TargetClosed ''window'']"
  using drop_releases_everything [OF demo_host_reachable, of 2]
  by (simp add: numeral_2_eq_2 demo_host_eq demo_session_def participants_def cleanup_calls_def host_stack_def bt_get_def stack_of_def by_age_def)

text \<open>A report of a panic, and an operation whose own closure (of \<open>compile\<close> and \<open>submit_action\<close>) does not panic.\<close>

fun report_panicked :: "('c, 'p, 'e) host_report \<Rightarrow> bool" where
  "report_panicked (ReportUpdated r) \<longleftrightarrow> r = Panicked"
| "report_panicked (ReportPrepared r) \<longleftrightarrow> r = Panicked"
| "report_panicked (ReportCompiled r) \<longleftrightarrow> r = Panicked"
| "report_panicked (ReportSubmitted r) \<longleftrightarrow> r = Panicked"
| "report_panicked (ReportActed r) \<longleftrightarrow> r = Panicked"
| "report_panicked _ \<longleftrightarrow> False"

fun op_quiet :: "('b, 't, 'c, 'p, 'e) host_op \<Rightarrow> bool" where
  "op_quiet (HCompile _ f) \<longleftrightarrow> (\<forall>t b. fst (f t b) \<noteq> Panicked)"
| "op_quiet (HAction _ _ _ _ f) \<longleftrightarrow> (\<forall>t b. fst (f t b) \<noteq> Panicked)"
| "op_quiet _ \<longleftrightarrow> True"

lemma live_target:
  assumes "host_inv h" "target_of (host_ownership h) p = Inr t"
  shows "bt_get (host_targets h) p \<noteq> None"
  using assms(2) host_invD(4) [OF assms(1), of p] by (auto simp: target_of_def rbind_eq_Inr)

lemma closure_quiet:
  assumes "host_inv h"
  shows "\<forall>t b. fst (f t b) \<noteq> Panicked \<Longrightarrow> fst (host_compile be p f h) \<noteq> Panicked"
    and "\<forall>t b. fst (g t b) \<noteq> Panicked \<Longrightarrow> fst (submit_action be p i n cs g h) \<noteq> Panicked"
proof -
  show "fst (host_compile be p f h) \<noteq> Panicked" if "\<forall>t b. fst (f t b) \<noteq> Panicked"
  proof (cases "target_of (host_ownership h) p")
    case (Inr t)
    then have "fst (with_target p f h) \<noteq> Panicked" by (rule with_target_quiet [OF live_target [OF assms] that])
    then show ?thesis using Inr by (auto simp: host_compile_def map_call_err_def intro!: unwind_quiet split: prod.splits call_result.splits sum.splits)
  qed (simp add: host_compile_def)
  show "fst (submit_action be p i n cs g h) \<noteq> Panicked" if "\<forall>t b. fst (g t b) \<noteq> Panicked"
  proof (cases "accept p i n h")
    case (Inr h1)
    then have "bt_get (host_targets h1) p \<noteq> None" using accept_settled(2,3,4) [OF assms Inr] host_invD(4) [of h1 p] by simp
    then have "fst (with_target p g h1) \<noteq> Panicked" by (rule with_target_quiet) (rule that)
    then show ?thesis using Inr
      by (auto simp: submit_action_def fail_post_def intro!: unwind_quiet split: sum.splits prod.splits call_result.splits)
  qed (simp add: submit_action_def)
qed

text \<open>
  (C30) The host itself never panics: with a backend none of whose methods panics, no operation on a reachable
  host reports a panic, whatever the participant, and neither does \<open>compile\<close> or \<open>submit_action\<close> with a closure that
  does not panic; in particular a live participant always has a target to index. (\<open>open\<close> indexes nothing and \<open>close\<close>
  catches what the backend throws, so their reports have no panic at all.)
\<close>

theorem host_never_panics:
  assumes "never_panics be" "host_reachable be h" "op_quiet op"
  shows "\<not> report_panicked (fst (host_exec be op h))"
  using submit_quiet [OF assms(1) host_reachable_inv [OF assms(2)]] closure_quiet [OF host_reachable_inv [OF assms(2)]] assms(3)
  by (cases op) simp_all

definition demo_quiet :: "(nat, string, nat, string, string) backend" where
  "demo_quiet = demo_backend\<lparr>be_post := (\<lambda>t p b. (Returned (Inr DispatchedUnverified), b))\<rparr>"

theorem host_never_panics_witness:
  "let h = snd (host_exec demo_quiet (HOpen demo_target ''seat'' ''window'') (snd (host_new 0 1 2 2)))
   in bt_get (host_targets h) (Participant 1 1) = Some ''window'' \<and>
      \<not> report_panicked (fst (host_exec demo_quiet (HSubmit (Participant 1 1) demo_target 1 PrepareSurface) h)) \<and>
      \<not> report_panicked (fst (host_exec demo_quiet (HPrepared (Participant 1 1) demo_target 1 (PrepDown 7 ''down-7'' ''up-7'')) h)) \<and>
      \<not> report_panicked (fst (host_exec demo_quiet (HAction (Participant 1 1) demo_target 1 [7] (\<lambda>t b. (Returned (Inr ()), b))) h))"
proof -
  have q: "never_panics demo_quiet" by (simp add: never_panics_def demo_quiet_def demo_backend_def)
  let ?h = "snd (host_exec demo_quiet (HOpen demo_target ''seat'' ''window'') (snd (host_new 0 1 2 2)))"
  have r: "host_reachable demo_quiet ?h" by (rule host_step [OF host_start])
  have "bt_get (host_targets ?h) (Participant 1 1) = Some ''window''"
    by (simp add: demo_host_defs)
  then show ?thesis using host_never_panics [OF q r] by (simp add: Let_def del: host_exec.simps)
qed

end
