(* ===== verification/Schedule.thy ===== *)
theory Schedule
  imports Input "HOL-Library.Sublist"
begin

text \<open>
  Timeline dispatch (\<^verbatim>\<open>cantrip_interaction/src/schedule.rs\<close>). The clock, the cancellation check, the
  preparation and the delivery of a transition are the caller's closures: parameters that thread a state of
  the caller's own. A duration is a number of nanoseconds. Indexing the held flags outside their range is
  the panic of the source, after which the drop of \<open>Held\<close> still releases every held key.
\<close>

section \<open>Data\<close>

datatype transition = Down nat | Up nat | Move point

record frame =
  frame_at :: nat
  frame_events :: "transition list"

record ('s, 'e) closures =
  check :: "'s \<Rightarrow> ('e, unit) result \<times> 's"
  post :: "transition \<Rightarrow> 's \<Rightarrow> ('e, unit) result \<times> 's"
  prepare :: "transition \<Rightarrow> 's \<Rightarrow> ('e, unit) result \<times> 's"
  wait :: "nat \<Rightarrow> 's \<Rightarrow> ('e, nat) result \<times> 's"

record 'e dispatch_failure =
  source :: 'e
  input_began :: bool

datatype 'e dispatched = Finished "('e dispatch_failure, unit) result" | DispatchPanicked

section \<open>Held keys\<close>

definition first_error :: "('e, unit) result \<Rightarrow> ('e, unit) result \<Rightarrow> ('e, unit) result" where
  "first_error result new = (case result of Inr _ \<Rightarrow> new | Inl e \<Rightarrow> Inl e)"

fun release_loop ::
  "('s, 'e) closures \<Rightarrow> nat \<Rightarrow> bool list \<Rightarrow> ('e, unit) result \<Rightarrow> 's \<Rightarrow> ('e, unit) result \<times> bool list \<times> 's" where
  "release_loop k 0 keys result s = (result, keys, s)"
| "release_loop k (Suc i) keys result s =
     (if keys ! i
      then let (r, s') = post k (Up i) s in release_loop k i (keys[i := False]) (first_error result r) s'
      else release_loop k i keys result s)"

definition release_all :: "('s, 'e) closures \<Rightarrow> bool list \<Rightarrow> 's \<Rightarrow> ('e, unit) result \<times> bool list \<times> 's" where
  "release_all k keys s = release_loop k (length keys) keys (Inr ()) s"

section \<open>The dispatch loop\<close>

datatype 'e flow = Proceed | Break 'e | Unwind

definition is_move :: "transition \<Rightarrow> bool" where
  "is_move t = (case t of Move _ \<Rightarrow> True | _ \<Rightarrow> False)"

definition mark_held :: "transition \<Rightarrow> bool list \<Rightarrow> bool \<Rightarrow> (bool list \<times> bool) option" where
  "mark_held t keys began =
     (case t of
        Down i \<Rightarrow> if i < length keys then Some (keys[i := True], True) else None
      | Up i \<Rightarrow> if i < length keys then Some (keys[i := False], True) else None
      | Move _ \<Rightarrow> Some (keys, began))"

fun run_events ::
  "('s, 'e) closures \<Rightarrow> bool \<Rightarrow> transition list \<Rightarrow> bool list \<Rightarrow> bool \<Rightarrow> 's \<Rightarrow> 'e flow \<times> bool list \<times> bool \<times> 's" where
  "run_events k late [] keys began s = (Proceed, keys, began, s)"
| "run_events k late (t # ts) keys began s =
     (if late \<and> is_move t then run_events k late ts keys began s
      else case check k s of
        (Inl e, s1) \<Rightarrow> (Break e, keys, began, s1)
      | (Inr _, s1) \<Rightarrow> (case prepare k t s1 of
          (Inl e, s2) \<Rightarrow> (Break e, keys, began, s2)
        | (Inr _, s2) \<Rightarrow> (case mark_held t keys began of
            None \<Rightarrow> (Unwind, keys, began, s2)
          | Some (keys', began') \<Rightarrow> (case post k t s2 of
              (Inl e, s3) \<Rightarrow> (Break e, keys', began', s3)
            | (Inr _, s3) \<Rightarrow> run_events k late ts keys' began' s3))))"

abbreviation (input) late_after :: nat where "late_after \<equiv> 16000000"

definition wait_frame :: "('s, 'e) closures \<Rightarrow> frame \<Rightarrow> 's \<Rightarrow> ('e, nat) result \<times> 's" where
  "wait_frame k f s =
     (case wait k (frame_at f) s of
        (Inl e, s') \<Rightarrow> (Inl e, s')
      | (Inr elapsed, s') \<Rightarrow> (case check k s' of (Inl e, s'') \<Rightarrow> (Inl e, s'') | (Inr _, s'') \<Rightarrow> (Inr elapsed, s'')))"

fun run_frames ::
  "('s, 'e) closures \<Rightarrow> frame list \<Rightarrow> bool list \<Rightarrow> bool \<Rightarrow> 's \<Rightarrow> 'e flow \<times> bool list \<times> bool \<times> 's" where
  "run_frames k [] keys began s = (Proceed, keys, began, s)"
| "run_frames k (f # fs) keys began s =
     (case wait_frame k f s of
        (Inl e, s') \<Rightarrow> (Break e, keys, began, s')
      | (Inr elapsed, s') \<Rightarrow>
          (case run_events k (elapsed - frame_at f > late_after) (frame_events f) keys began s' of
             (Proceed, keys', began', s'') \<Rightarrow> run_frames k fs keys' began' s''
           | stop \<Rightarrow> stop))"

definition dispatch_fallible :: "('s, 'e) closures \<Rightarrow> frame list \<Rightarrow> nat \<Rightarrow> 's \<Rightarrow> 'e dispatched \<times> 's" where
  "dispatch_fallible k frames count s =
     (case run_frames k frames (replicate count False) False s of
        (flow, keys, began, s1) \<Rightarrow>
          (case release_all k keys s1 of
             (cleanup, keys', s2) \<Rightarrow>
               (let dropped = snd (snd (release_all k keys' s2))
                in case flow of
                  Unwind \<Rightarrow> (DispatchPanicked, s2)
                | Break e \<Rightarrow> (Finished (Inl \<lparr>source = e, input_began = began\<rparr>), dropped)
                | Proceed \<Rightarrow>
                    (Finished (case cleanup of Inl e \<Rightarrow> Inl \<lparr>source = e, input_began = began\<rparr> | Inr _ \<Rightarrow> Inr ()), dropped))))"

definition dispatch_infallible ::
  "('s, 'e) closures \<Rightarrow> (transition \<Rightarrow> 's \<Rightarrow> 's) \<Rightarrow> frame list \<Rightarrow> nat \<Rightarrow> 's \<Rightarrow> 'e dispatched \<times> 's" where
  "dispatch_infallible k post' = dispatch_fallible (k\<lparr>post := (\<lambda>t s. (Inr (), post' t s))\<rparr>)"

section \<open>What is delivered\<close>

text \<open>
  The caller's closures with a record of every delivery attempt beside the caller's state.
\<close>

definition recording :: "('s, 'e) closures \<Rightarrow> ('s \<times> transition list, 'e) closures" where
  "recording k = \<lparr>
     check = (\<lambda>(s, l). case check k s of (r, s') \<Rightarrow> (r, (s', l))),
     post = (\<lambda>t (s, l). case post k t s of (r, s') \<Rightarrow> (r, (s', l @ [t]))),
     prepare = (\<lambda>t (s, l). case prepare k t s of (r, s') \<Rightarrow> (r, (s', l))),
     wait = (\<lambda>d (s, l). case wait k d s of (r, s') \<Rightarrow> (r, (s', l)))\<rparr>"

lemma recording_simps [simp]:
  "check (recording k) (s, l) = (fst (check k s), (snd (check k s), l))"
  "post (recording k) t (s, l) = (fst (post k t s), (snd (post k t s), l @ [t]))"
  "prepare (recording k) t (s, l) = (fst (prepare k t s), (snd (prepare k t s), l))"
  "wait (recording k) d (s, l) = (fst (wait k d s), (snd (wait k d s), l))"
  by (simp_all add: recording_def case_prod_unfold)

definition native :: "transition \<Rightarrow> bool" where
  "native t \<longleftrightarrow> \<not> is_move t"

fun down_in :: "nat \<Rightarrow> transition list \<Rightarrow> bool \<Rightarrow> bool" where
  "down_in i [] d = d"
| "down_in i (Down j # ts) d = down_in i ts (d \<or> j = i)"
| "down_in i (Up j # ts) d = down_in i ts (d \<and> j \<noteq> i)"
| "down_in i (Move p # ts) d = down_in i ts d"

lemma down_in_append [simp]: "down_in i (xs @ ys) d = down_in i ys (down_in i xs d)"
  by (induction i xs d rule: down_in.induct) simp_all

lemma down_in_releases: "down_in i (map Up js) d \<longleftrightarrow> d \<and> i \<notin> set js"
  by (induction js arbitrary: d) auto

lemma mark_held_down:
  assumes "mark_held t keys began = Some (keys', began')"
  shows "length keys' = length keys" "began' = (began \<or> native t)"
    "i < length keys \<Longrightarrow> keys' ! i = down_in i [t] (keys ! i)"
    "length keys \<le> i \<Longrightarrow> down_in i [t] d = d"
  using assms by (cases t; auto simp: mark_held_def native_def is_move_def nth_list_update split: if_splits)+

lemma release_loop_recording:
  "n \<le> length keys \<Longrightarrow> \<exists>r' s'. release_loop (recording k) n keys r (s, l) =
     (r', map (\<lambda>i. i \<ge> n \<and> keys ! i) [0..<length keys], (s', l @ map Up (rev (filter (\<lambda>i. keys ! i) [0..<n]))))"
proof (induction n arbitrary: keys r s l)
  case 0
  then show ?case by (auto intro!: nth_equalityI)
next
  case (Suc n)
  show ?case
  proof (cases "keys ! n")
    case True
    have "\<exists>r' s'. release_loop (recording k) n (keys[n := False]) (first_error r (fst (post k (Up n) s))) (snd (post k (Up n) s), l @ [Up n]) = (r',
        map (\<lambda>i. i \<ge> n \<and> keys[n := False] ! i) [0..<length (keys[n := False])],
        (s', (l @ [Up n]) @ map Up (rev (filter (\<lambda>i. keys[n := False] ! i) [0..<n]))))"
      using Suc.prems by (intro Suc.IH) simp
    moreover have m: "map (\<lambda>i. i \<ge> n \<and> keys[n := False] ! i) [0..<length (keys[n := False])] = map (\<lambda>i. i \<ge> Suc n \<and> keys ! i) [0..<length keys]"
      using Suc.prems by (auto simp: nth_list_update)
    moreover have f: "filter (\<lambda>i. keys[n := False] ! i) [0..<n] = filter (\<lambda>i. keys ! i) [0..<n]"
      by (rule filter_cong) auto
    ultimately obtain r' s' where "release_loop (recording k) n (keys[n := False]) (first_error r (fst (post k (Up n) s))) (snd (post k (Up n) s), l @ [Up n])
        = (r', map (\<lambda>i. i \<ge> Suc n \<and> keys ! i) [0..<length keys], (s', (l @ [Up n]) @ map Up (rev (filter (\<lambda>i. keys ! i) [0..<n]))))"
      unfolding m f by blast
    then show ?thesis using True by simp
  next
    case False
    have "map (\<lambda>i. i \<ge> n \<and> keys ! i) [0..<length keys] = map (\<lambda>i. i \<ge> Suc n \<and> keys ! i) [0..<length keys]"
      using False Suc.prems by (auto simp: le_Suc_eq dest: le_neq_implies_less)
    then show ?thesis using Suc.IH [of keys r s l] Suc.prems False by (simp del: map_eq_conv)
  qed
qed

lemma release_all_recording:
  "\<exists>r' s'. release_all (recording k) keys (s, l) =
     (r', replicate (length keys) False, (s', l @ map Up (rev (filter (\<lambda>i. keys ! i) [0..<length keys]))))"
proof -
  have "map (\<lambda>i. i \<ge> length keys \<and> keys ! i) [0..<length keys] = replicate (length keys) False"
    by (auto intro: nth_equalityI)
  then show ?thesis unfolding release_all_def using release_loop_recording [of "length keys" keys k "Inr ()" s l] by simp
qed

lemma release_all_none:
  "\<exists>r' s'. release_all (recording k) (replicate n False) (s, l) = (r', replicate n False, (s', l))"
proof -
  have "filter (\<lambda>i. replicate n False ! i) [0..<n] = []" by (simp add: filter_empty_conv)
  then show ?thesis using release_all_recording [of k "replicate n False" s l] by (auto cong: filter_cong)
qed

text \<open>
  A segment of a run: what it delivered, and how the held flags and the began flag follow from it.
\<close>

definition segment :: "transition list \<Rightarrow> transition list \<Rightarrow> 'e flow \<Rightarrow> bool list \<Rightarrow> bool \<Rightarrow> bool list \<Rightarrow> bool \<Rightarrow> bool" where
  "segment todo body flow keys began keys' began' \<longleftrightarrow>
     length keys' = length keys \<and> (\<forall>i < length keys. keys' ! i = down_in i body (keys ! i)) \<and>
     (\<forall>i d. length keys \<le> i \<longrightarrow> down_in i body d = d) \<and>
     began' = (began \<or> list_ex native body) \<and> subseq body todo \<and>
     prefix (filter native body) (filter native todo) \<and> (flow = Proceed \<longrightarrow> filter native body = filter native todo)"

lemma segment_refl: "segment todo [] (Break e) keys began keys began" "segment todo [] Unwind keys began keys began" "segment [] [] f keys began keys began"
  by (auto simp: segment_def)

lemma segment_skip: "\<not> native t \<Longrightarrow> segment todo body f keys b keys' b' \<Longrightarrow> segment (t # todo) body f keys b keys' b'"
  by (auto simp: segment_def)

lemma segment_Cons:
  assumes "mark_held t keys b = Some (keys1, b1)" "segment todo body f keys1 b1 keys' b'"
  shows "segment (t # todo) (t # body) f keys b keys' b'"
  using mark_held_down [OF assms(1)] assms(2) unfolding segment_def by (cases t) auto

lemma segment_trans:
  assumes "segment xs as Proceed keys b keys1 b1" "segment ys bs f keys1 b1 keys' b'"
  shows "segment (xs @ ys) (as @ bs) f keys b keys' b'"
  using assms unfolding segment_def by (auto intro: list_emb_append_mono)

lemma segment_stop:
  assumes "segment xs body f keys b keys' b'" "f \<noteq> Proceed"
  shows "segment (xs @ ys) body f keys b keys' b'"
  using assms unfolding segment_def by (auto intro: prefix_prefix subseq_drop_many list_emb_append2)

lemma run_events_recording:
  assumes "run_events (recording k) late ts keys b (s, l) = (f, keys', b', st)"
  shows "\<exists>body s'. st = (s', l @ body) \<and> segment ts body f keys b keys' b'"
  using assms
proof (induction ts arbitrary: keys b s l)
  case Nil
  then show ?case by (auto simp: segment_refl)
next
  case (Cons t ts)
  show ?case
  proof (cases "late \<and> is_move t")
    case True
    then show ?thesis using Cons by (fastforce simp: native_def intro: segment_skip)
  next
    case False
    define s2 where "s2 = snd (prepare k t (snd (check k s)))"
    show ?thesis
    proof (cases "mark_held t keys b")
      case None
      then show ?thesis using Cons.prems False by (auto simp: segment_refl split: sum.splits)
    next
      case (Some kb)
      obtain keys1 b1 where m: "mark_held t keys b = Some (keys1, b1)" using Some by (cases kb) auto
      have one: "segment (t # ts) [t] (Break e) keys b keys1 b1" for e
        by (rule segment_Cons [OF m segment_refl(1)])
      have more: "\<exists>body s'. st = (s', l @ body) \<and> segment (t # ts) body f keys b keys' b'"
        if run: "run_events (recording k) late ts keys1 b1 (snd (post k t s2), l @ [t]) = (f, keys', b', st)"
      proof -
        obtain body s' where "st = (s', (l @ [t]) @ body)" "segment ts body f keys1 b1 keys' b'"
          using Cons.IH [OF run] by blast
        then show ?thesis using segment_Cons [OF m] by (intro exI [of _ "t # body"] exI [of _ s']) simp
      qed
      show ?thesis
        using Cons.prems False m one more by (auto simp: segment_refl s2_def split: sum.splits)
    qed
  qed
qed


lemma wait_frame_recording:
  "wait_frame (recording k) f (s, l) = (fst (wait_frame k f s), (snd (wait_frame k f s), l))"
  by (auto simp: wait_frame_def split: sum.splits prod.splits)

lemma run_frames_recording:
  assumes "run_frames (recording k) fs keys b (s, l) = (f, keys', b', st)"
  shows "\<exists>body s'. st = (s', l @ body) \<and> segment (concat (map frame_events fs)) body f keys b keys' b'"
  using assms
proof (induction fs arbitrary: keys b s l)
  case Nil
  then show ?case by (auto simp: segment_refl)
next
  case (Cons fr fs)
  show ?case
  proof (cases "fst (wait_frame k fr s)")
    case (Inl e)
    then show ?thesis using Cons.prems by (auto simp: wait_frame_recording segment_refl)
  next
    case (Inr elapsed)
    obtain g keys1 b1 st1 where ev: "run_events (recording k) (elapsed - frame_at fr > late_after) (frame_events fr) keys b
        (snd (wait_frame k fr s), l) = (g, keys1, b1, st1)" by (metis prod_cases4)
    obtain body1 s1 where b1: "st1 = (s1, l @ body1)" "segment (frame_events fr) body1 g keys b keys1 b1"
      using run_events_recording [OF ev] by blast
    show ?thesis
    proof (cases "g = Proceed")
      case True
      then have "run_frames (recording k) fs keys1 b1 (s1, l @ body1) = (f, keys', b', st)"
        using Cons.prems Inr ev b1(1) by (simp add: wait_frame_recording)
      then obtain body2 s2 where "st = (s2, (l @ body1) @ body2)" "segment (concat (map frame_events fs)) body2 f keys1 b1 keys' b'"
        using Cons.IH by blast
      then show ?thesis using segment_trans [of _ body1 keys b keys1 b1] b1(2) True by (intro exI [of _ "body1 @ body2"] exI [of _ s2]) simp
    next
      case False
      then have "f = g \<and> keys' = keys1 \<and> b' = b1 \<and> st = st1"
        using Cons.prems Inr ev by (cases g) (auto simp: wait_frame_recording)
      then show ?thesis using segment_stop [OF b1(2) False] b1(1) by auto
    qed
  qed
qed

definition result_flow :: "'e dispatched \<Rightarrow> bool \<Rightarrow> bool \<Rightarrow> bool" where
  "result_flow out whole began \<longleftrightarrow>
     (case out of
        DispatchPanicked \<Rightarrow> True
      | Finished (Inr _) \<Rightarrow> whole
      | Finished (Inl failure) \<Rightarrow> input_began failure = began)"

lemma dispatch_recording:
  "\<exists>out s' body. dispatch_fallible (recording k) fs n (s, []) = (out, (s', body @ map Up (rev (filter (\<lambda>i. down_in i body False) [0..<n])))) \<and>
     subseq body (concat (map frame_events fs)) \<and> (\<forall>i \<ge> n. \<not> down_in i body False) \<and>
     prefix (filter native body) (filter native (concat (map frame_events fs))) \<and>
     result_flow out (filter native body = filter native (concat (map frame_events fs))) (list_ex native body)"
proof -
  obtain f keys b st where run: "run_frames (recording k) fs (replicate n False) False (s, []) = (f, keys, b, st)" by (metis prod_cases4)
  obtain body s1 where st: "st = (s1, body)" and seg: "segment (concat (map frame_events fs)) body f (replicate n False) False keys b"
    using run_frames_recording [OF run] by auto
  have len: "length keys = n" and hold: "\<And>i. i < n \<Longrightarrow> keys ! i = down_in i body False"
    using seg by (auto simp: segment_def)
  have held: "filter (\<lambda>i. keys ! i) [0..<n] = filter (\<lambda>i. down_in i body False) [0..<n]"
    by (rule filter_cong) (auto simp: hold)
  obtain c s2 where r1: "release_all (recording k) keys (s1, body) = (c, replicate n False, (s2, body @ map Up (rev (filter (\<lambda>i. down_in i body False) [0..<n]))))"
    using release_all_recording [of k keys s1 body] unfolding len held by blast
  obtain c' s3 where r2: "release_all (recording k) (replicate n False) (s2, body @ map Up (rev (filter (\<lambda>i. down_in i body False) [0..<n])))
      = (c', replicate n False, (s3, body @ map Up (rev (filter (\<lambda>i. down_in i body False) [0..<n]))))"
    using release_all_none [of k n s2] by blast
  have "\<exists>out s'. dispatch_fallible (recording k) fs n (s, []) = (out, (s', body @ map Up (rev (filter (\<lambda>i. down_in i body False) [0..<n])))) \<and>
      result_flow out (filter native body = filter native (concat (map frame_events fs))) (list_ex native body)"
    using seg by (cases f; cases c) (auto simp: dispatch_fallible_def run st r1 r2 segment_def result_flow_def)
  moreover have "subseq body (concat (map frame_events fs))" "\<forall>i \<ge> n. \<not> down_in i body False"
      "prefix (filter native body) (filter native (concat (map frame_events fs)))"
    using seg by (auto simp: segment_def)
  ultimately show ?thesis by blast
qed


section \<open>Properties\<close>

text \<open>
  (C31) No key stays down, whatever happens: over any timeline, closures and outcome (success, cancellation,
  failed delivery, a failed release, an index outside the prepared keys), every key whose \<open>Down\<close> was
  attempted has a later \<open>Up\<close>, and the cleanup attempts one \<open>Up\<close> for each key still down after the timeline, in
  descending order, and no other transition.
\<close>

theorem timeline_releases_every_key:
  "\<exists>out s' body. dispatch_fallible (recording k) frames n (s, []) =
       (out, s', body @ map Up (rev (filter (\<lambda>i. down_in i body False) [0..<n]))) \<and>
     subseq body (concat (map frame_events frames)) \<and>
     (\<forall>i. \<not> down_in i (body @ map Up (rev (filter (\<lambda>i. down_in i body False) [0..<n]))) False)"
proof -
  obtain out s' body where d: "dispatch_fallible (recording k) frames n (s, []) =
      (out, s', body @ map Up (rev (filter (\<lambda>i. down_in i body False) [0..<n])))"
    "subseq body (concat (map frame_events frames))" "\<forall>i \<ge> n. \<not> down_in i body False"
    using dispatch_recording [of k frames n s] by blast
  have "\<not> down_in i (body @ map Up (rev (filter (\<lambda>i. down_in i body False) [0..<n]))) False" for i
    using d(3) by (cases "i < n") (auto simp: down_in_releases)
  then show ?thesis using d(1,2) by blast
qed

text \<open>
  Native input is delivered in order and completely, and failure reports are exact: the key transitions
  attempted by the timeline are a prefix of the scheduled ones (late cosmetic moves are the only events
  skipped), all of them when dispatch succeeds, and a reported failure says that input began exactly when
  some key transition was attempted.
\<close>

lemma timeline_native_in_order:
  "\<exists>out s' body. dispatch_fallible (recording k) frames n (s, []) =
       (out, s', body @ map Up (rev (filter (\<lambda>i. down_in i body False) [0..<n]))) \<and>
     prefix (filter native body) (filter native (concat (map frame_events frames))) \<and>
     (out = Finished (Inr ()) \<longrightarrow> filter native body = filter native (concat (map frame_events frames))) \<and>
     (\<forall>failure. out = Finished (Inl failure) \<longrightarrow> input_began failure = list_ex native body)"
proof -
  obtain out s' body where d: "dispatch_fallible (recording k) frames n (s, []) =
      (out, s', body @ map Up (rev (filter (\<lambda>i. down_in i body False) [0..<n])))"
    "prefix (filter native body) (filter native (concat (map frame_events frames)))"
    "result_flow out (filter native body = filter native (concat (map frame_events frames))) (list_ex native body)"
    using dispatch_recording [of k frames n s] by blast
  then show ?thesis by (intro exI conjI) (auto simp: result_flow_def)
qed

definition demo_closures :: "(nat, string) closures" where
  "demo_closures = \<lparr>check = (\<lambda>s. if s = 0 then (Inl ''cancelled'', 0) else (Inr (), s - 1)), post = (\<lambda>t s. (Inr (), s)),
     prepare = (\<lambda>t s. (Inr (), s)), wait = (\<lambda>d s. (Inr d, s))\<rparr>"

definition demo_frames :: "frame list" where
  "demo_frames = [\<lparr>frame_at = 0, frame_events = [Down 0, Down 1]\<rparr>, \<lparr>frame_at = 5, frame_events = [Up 1, Up 0]\<rparr>]"

end
