(* ===== verification/Meter.thy ===== *)
theory Meter
  imports Input
begin

text \<open>
  The bounded bandwidth meter (\<^verbatim>\<open>cantrip_server_rs/src/usage/meter.rs\<close>, with the records of
  \<^verbatim>\<open>usage/types.rs\<close>). A \<open>BigInt\<close> is an \<open>int\<close>, an instant its number of
  milliseconds. The calendar is the \<open>chrono\<close> crate: the parameters \<open>civil\<close> (year, month and day of an
  instant) and \<open>representable\<close> (the instants a \<open>DateTime\<close> can hold). The two callbacks of \<open>record_with_hooks\<close>
  are the list of their calls. The flush counters are doubles that only ever gain one, so they are the
  naturals up to \<open>2^53\<close>, where adding one no longer changes them.
\<close>

section \<open>Timestamps\<close>

definition iso :: "(int \<Rightarrow> int \<times> nat \<times> nat) \<Rightarrow> int \<Rightarrow> text_value" where
  "iso civil ms =
     (case civil ms of (year, month, day) \<Rightarrow>
        let t = nat (ms mod 86400000)
        in (if 0 \<le> year \<and> year \<le> 9999 then zero_padded 4 (nat year)
            else (if year < 0 then 45 else 43) # zero_padded 6 (nat (abs year))) @
           45 # zero_padded 2 month @ 45 # zero_padded 2 day @ 84 # zero_padded 2 (t div 3600000) @
           58 # zero_padded 2 (t div 60000 mod 60) @ 58 # zero_padded 2 (t div 1000 mod 60) @
           46 # zero_padded 3 (t mod 1000) @ [90])"

section \<open>Data\<close>

abbreviation (input) max_safe_integer :: int where "max_safe_integer \<equiv> 9007199254740991"
abbreviation (input) i64_max :: int where "i64_max \<equiv> 9223372036854775807"

definition usage_channels :: "string list" where
  "usage_channels = [''http'', ''client-live-websocket'', ''worker-control-websocket'', ''worker-log-stream'', ''terminal-relay'',
     ''remote-surface-relay'', ''tunnel-relay'', ''attachment-transfer'', ''code-relay'', ''project-share-relay'', ''other'']"

datatype counter = Number f64 | Integer int

record measurement =
  m_owner :: text_value
  m_bytes :: counter
  m_operations :: "counter option"
  m_channel :: text_value
  m_direction :: text_value
  m_notify :: "bool option"

record normalized =
  n_owner :: text_value
  n_bytes :: int
  n_operations :: int
  n_channel :: text_value
  n_direction :: text_value
  n_notify :: "bool option"

record meter_options =
  meter_id :: text_value
  max_buffered_entries :: nat
  flush_threshold_bytes :: int
  flush_interval_ms :: nat

record bandwidth_entry =
  bucket_start :: int
  entry_bytes :: int
  entry_channel :: text_value
  entry_direction :: text_value
  entry_operations :: int
  entry_owner :: text_value

record buffered_entry =
  buffered :: bandwidth_entry
  notify_measurements :: int

record flush_batch =
  batch_entries :: "bandwidth_entry list"
  flushed_at :: int
  batch_meter_id :: text_value
  batch_sequence :: int

record flush_result =
  applied :: bool
  owner_ids :: "text_value list"

record pending_flush =
  pending_batch_of :: flush_batch
  pending_entries :: "(text_value \<times> buffered_entry) list"

record meter_stats =
  buffered_bytes :: int
  buffered_entries :: nat
  dropped_bytes :: int
  dropped_measurements :: int
  flush_count :: nat
  flush_failure_count :: nat
  last_flush_duration_ms :: "int option"
  last_flushed_at :: "text_value option"
  pending_sequence :: "text_value option"

datatype record_outcome = RecordRejected | RecordNoop | Recorded

datatype meter_hook = Observed normalized | CapacityReached nat

record meter =
  meter_options_of :: meter_options
  buffer :: "(text_value, buffered_entry) index_map"
  pending_of :: "pending_flush option"
  flush_sequence :: int
  meter_closed :: bool
  stats_of :: meter_stats

section \<open>Operations\<close>

definition counter_checked :: "counter \<Rightarrow> int option" where
  "counter_checked c =
     (case c of
        Number (Finite v) \<Rightarrow>
          if 0 \<le> v \<and> v = of_int \<lfloor>v\<rfloor> \<and> v \<le> of_int max_safe_integer then Some \<lfloor>v\<rfloor> else None
      | Number _ \<Rightarrow> None
      | Integer v \<Rightarrow> if 0 \<le> v \<and> v \<le> i64_max then Some v else None)"

definition meter_new :: "meter_options \<Rightarrow> (string, meter) result" where
  "meter_new options =
     (if trim_text (meter_id options) \<noteq> [] \<and> max_buffered_entries options > 0 \<and>
         int (max_buffered_entries options) \<le> max_safe_integer \<and> flush_threshold_bytes options > 0 \<and>
         flush_interval_ms options > 0 \<and> int (flush_interval_ms options) \<le> max_safe_integer
      then Inr \<lparr>meter_options_of = options, buffer = [], pending_of = None, flush_sequence = 0, meter_closed = False,
        stats_of = \<lparr>buffered_bytes = 0, buffered_entries = 0, dropped_bytes = 0, dropped_measurements = 0, flush_count = 0,
          flush_failure_count = 0, last_flush_duration_ms = None, last_flushed_at = None, pending_sequence = None\<rparr>\<rparr>
      else Inl ''Account usage meter options are invalid.'')"

definition normalize_measurement :: "measurement \<Rightarrow> normalized option" where
  "normalize_measurement input =
     (let owner = trim_text (m_owner input)
      in case (counter_checked (m_bytes input), case m_operations input of None \<Rightarrow> Some 1 | Some c \<Rightarrow> counter_checked c) of
           (Some bytes, Some operations) \<Rightarrow>
             if owner = [] \<or> utf16_count owner > 200 \<or> m_channel input \<notin> set (map text_of usage_channels) \<or>
                m_direction input \<notin> set (map text_of [''ingress'', ''egress''])
             then None
             else Some \<lparr>n_owner = owner, n_bytes = bytes, n_operations = operations, n_channel = m_channel input,
               n_direction = m_direction input, n_notify = m_notify input\<rparr>
         | _ \<Rightarrow> None)"

definition hour_start :: "int \<Rightarrow> int" where
  "hour_start now = now div 3600000 * 3600000"

definition meter_key :: "(int \<Rightarrow> int \<times> nat \<times> nat) \<Rightarrow> int \<Rightarrow> normalized \<Rightarrow> text_value" where
  "meter_key civil bucket n = n_owner n @ 0 # iso civil bucket @ 0 # n_channel n @ 0 # n_direction n"

definition notify_weight :: "normalized \<Rightarrow> int" where
  "notify_weight n = (if n_notify n \<noteq> Some False then 1 else 0)"

definition drop_measurement :: "normalized \<Rightarrow> meter \<Rightarrow> meter" where
  "drop_measurement n s =
     s\<lparr>stats_of := (stats_of s)\<lparr>dropped_bytes := dropped_bytes (stats_of s) + n_bytes n,
                              dropped_measurements := dropped_measurements (stats_of s) + 1\<rparr>\<rparr>"

definition add_buffered :: "text_value \<Rightarrow> buffered_entry \<Rightarrow> int \<Rightarrow> meter \<Rightarrow> meter" where
  "add_buffered key e bytes s =
     s\<lparr>buffer := im_insert key e (buffer s),
       stats_of := (stats_of s)\<lparr>buffered_bytes := buffered_bytes (stats_of s) + bytes\<rparr>\<rparr>"

definition merge_entry :: "normalized \<Rightarrow> buffered_entry \<Rightarrow> buffered_entry" where
  "merge_entry n e =
     e\<lparr>buffered := (buffered e)\<lparr>entry_bytes := entry_bytes (buffered e) + n_bytes n,
                                entry_operations := entry_operations (buffered e) + n_operations n\<rparr>,
       notify_measurements := notify_measurements e + notify_weight n\<rparr>"

definition new_entry :: "int \<Rightarrow> normalized \<Rightarrow> buffered_entry" where
  "new_entry bucket n =
     \<lparr>buffered = \<lparr>bucket_start = bucket, entry_bytes = n_bytes n, entry_channel = n_channel n, entry_direction = n_direction n,
        entry_operations = n_operations n, entry_owner = n_owner n\<rparr>, notify_measurements = notify_weight n\<rparr>"

definition record_normalized ::
  "(int \<Rightarrow> int \<times> nat \<times> nat) \<Rightarrow> int \<Rightarrow> normalized \<Rightarrow> meter \<Rightarrow> record_outcome \<times> meter_hook list \<times> meter" where
  "record_normalized civil bucket n s =
     (let key = meter_key civil bucket n
      in case im_get (buffer s) key of
           None \<Rightarrow>
             if length (buffer s) \<ge> max_buffered_entries (meter_options_of s)
             then (RecordRejected, [CapacityReached (length (buffer s))], drop_measurement n s)
             else (Recorded, [], add_buffered key (new_entry bucket n) (n_bytes n) s)
         | Some current \<Rightarrow>
             if entry_bytes (buffered current) + n_bytes n > i64_max \<or>
                entry_operations (buffered current) + n_operations n > i64_max
             then (RecordRejected, [], drop_measurement n s)
             else (Recorded, [], add_buffered key (merge_entry n current) (n_bytes n) s))"

definition record_with_hooks ::
  "(int \<Rightarrow> int \<times> nat \<times> nat) \<Rightarrow> (int \<Rightarrow> bool) \<Rightarrow> measurement \<Rightarrow> int option \<Rightarrow> meter \<Rightarrow> record_outcome \<times> meter_hook list \<times> meter" where
  "record_with_hooks civil representable input now s =
     (if meter_closed s then (RecordRejected, [], s)
      else case (normalize_measurement input, now) of
          (Some n, Some t) \<Rightarrow>
            if n_bytes n = 0 \<and> n_operations n = 0 then (RecordNoop, [], s)
            else if \<not> representable (hour_start t) then (RecordRejected, [Observed n], s)
            else (case record_normalized civil (hour_start t) n s of (out, hooks, s') \<Rightarrow> (out, Observed n # hooks, s'))
        | _ \<Rightarrow> (RecordRejected, [], s))"

definition meter_record ::
  "(int \<Rightarrow> int \<times> nat \<times> nat) \<Rightarrow> (int \<Rightarrow> bool) \<Rightarrow> measurement \<Rightarrow> int option \<Rightarrow> meter \<Rightarrow> bool \<times> meter_hook list \<times> meter" where
  "meter_record civil representable input now s =
     (case record_with_hooks civil representable input now s of
        (out, hooks, s') \<Rightarrow> (out \<noteq> RecordRejected, filter (\<lambda>h. case h of Observed _ \<Rightarrow> True | CapacityReached _ \<Rightarrow> False) hooks, s'))"

definition flush_due :: "meter \<Rightarrow> bool" where
  "flush_due s \<longleftrightarrow> buffered_bytes (stats_of s) \<ge> flush_threshold_bytes (meter_options_of s)"

definition has_work :: "meter \<Rightarrow> bool" where
  "has_work s \<longleftrightarrow> pending_of s \<noteq> None \<or> buffer s \<noteq> []"

definition pending_batch :: "meter \<Rightarrow> flush_batch option" where
  "pending_batch s = map_option pending_batch_of (pending_of s)"

definition capture :: "int \<Rightarrow> meter \<Rightarrow> flush_batch option \<times> meter" where
  "capture t s =
     (case pending_of s of
        Some p \<Rightarrow> (Some (pending_batch_of p), s)
      | None \<Rightarrow>
          if buffer s = [] then (None, s)
          else let n = flush_sequence s + 1;
                   batch = \<lparr>batch_entries = map (\<lambda>(_, e). buffered e) (buffer s), flushed_at = t,
                     batch_meter_id = meter_id (meter_options_of s), batch_sequence = n\<rparr>
               in (Some batch, s\<lparr>flush_sequence := n,
                     pending_of := Some \<lparr>pending_batch_of = batch, pending_entries = buffer s\<rparr>\<rparr>))"

definition count_one :: "nat \<Rightarrow> nat" where
  "count_one n = (if n < 2 ^ 53 then n + 1 else n)"

definition flush_failed :: "int \<Rightarrow> meter \<Rightarrow> meter" where
  "flush_failed d s =
     s\<lparr>stats_of := (stats_of s)\<lparr>flush_failure_count := count_one (flush_failure_count (stats_of s)),
                              last_flush_duration_ms := Some d\<rparr>\<rparr>"

definition subtract_entry :: "buffered_entry \<Rightarrow> buffered_entry \<Rightarrow> buffered_entry" where
  "subtract_entry flushed e =
     e\<lparr>buffered := (buffered e)\<lparr>entry_bytes := entry_bytes (buffered e) - entry_bytes (buffered flushed),
                                entry_operations := entry_operations (buffered e) - entry_operations (buffered flushed)\<rparr>,
       notify_measurements := notify_measurements e - notify_measurements flushed\<rparr>"

definition entry_spent :: "buffered_entry \<Rightarrow> bool" where
  "entry_spent e \<longleftrightarrow> entry_bytes (buffered e) = 0 \<and> entry_operations (buffered e) = 0 \<and> notify_measurements e = 0"

definition settle_entry :: "text_value \<times> buffered_entry \<Rightarrow> meter \<Rightarrow> meter" where
  "settle_entry ke s =
     (case ke of (key, flushed) \<Rightarrow>
        case im_get (buffer s) key of
          None \<Rightarrow> s
        | Some current \<Rightarrow>
            let e = subtract_entry flushed current
            in s\<lparr>buffer := (if entry_spent e then im_remove key (buffer s) else im_insert key e (buffer s)),
                 stats_of := (stats_of s)\<lparr>buffered_bytes := buffered_bytes (stats_of s) - entry_bytes (buffered flushed)\<rparr>\<rparr>)"

definition notifying_owners :: "(text_value \<times> buffered_entry) list \<Rightarrow> text_value list" where
  "notifying_owners es = map (\<lambda>(_, e). entry_owner (buffered e)) (filter (\<lambda>(_, e). notify_measurements e > 0) es)"

definition committed ::
  "(int \<Rightarrow> int \<times> nat \<times> nat) \<Rightarrow> flush_result \<Rightarrow> int \<Rightarrow> int \<Rightarrow> meter \<Rightarrow> (string, text_value list \<times> meter) result" where
  "committed civil result t d s =
     (case pending_of s of
        None \<Rightarrow> Inl ''usage flush completion without a pending batch''
      | Some p \<Rightarrow>
          let s1 = fold settle_entry (pending_entries p) (s\<lparr>pending_of := None\<rparr>);
              s2 = s1\<lparr>stats_of := (stats_of s1)\<lparr>flush_count := count_one (flush_count (stats_of s1)),
                       last_flush_duration_ms := Some d, last_flushed_at := Some (iso civil t)\<rparr>\<rparr>
          in Inr (filter (\<lambda>o'. o' \<in> set (notifying_owners (pending_entries p))) (owner_ids result), s2))"

definition decimal_text :: "int \<Rightarrow> text_value" where
  "decimal_text n = (if n < 0 then 45 # decimal_digits (nat (- n)) else decimal_digits (nat n))"

definition meter_stats_of :: "meter \<Rightarrow> meter_stats" where
  "meter_stats_of s =
     (stats_of s)\<lparr>buffered_entries := length (buffer s),
                 pending_sequence := map_option (\<lambda>p. decimal_text (batch_sequence (pending_batch_of p))) (pending_of s)\<rparr>"

definition close_meter :: "meter \<Rightarrow> meter" where
  "close_meter s = s\<lparr>meter_closed := True\<rparr>"

section \<open>Amounts held per key\<close>

datatype amount_kind = Bytes | Operations

fun entry_amount :: "amount_kind \<Rightarrow> buffered_entry \<Rightarrow> int" where
  "entry_amount Bytes e = entry_bytes (buffered e)"
| "entry_amount Operations e = entry_operations (buffered e)"

fun measured_amount :: "amount_kind \<Rightarrow> normalized \<Rightarrow> int" where
  "measured_amount Bytes n = n_bytes n"
| "measured_amount Operations n = n_operations n"

definition amount_at :: "amount_kind \<Rightarrow> (text_value, buffered_entry) index_map \<Rightarrow> text_value \<Rightarrow> int" where
  "amount_at a m k = (case im_get m k of None \<Rightarrow> 0 | Some e \<Rightarrow> entry_amount a e)"

definition total_bytes :: "(text_value, buffered_entry) index_map \<Rightarrow> int" where
  "total_bytes m = sum_list (map (\<lambda>(_, e). entry_bytes (buffered e)) m)"

lemma entry_updates:
  "entry_amount a (merge_entry n e) = entry_amount a e + measured_amount a n"
  "entry_amount a (new_entry t n) = measured_amount a n"
  "entry_amount a (subtract_entry f e) = entry_amount a e - entry_amount a f"
  "notify_measurements (merge_entry n e) = notify_measurements e + notify_weight n"
  "notify_measurements (new_entry t n) = notify_weight n"
  "notify_measurements (subtract_entry f e) = notify_measurements e - notify_measurements f"
  by (cases a; simp add: merge_entry_def new_entry_def subtract_entry_def)+

lemma amount_kind_all: "(\<forall>a. P a) \<longleftrightarrow> P Bytes \<and> P Operations"
  by (metis amount_kind.exhaust)

lemma im_get_laws:
  "im_wf m \<Longrightarrow> im_get (im_insert k e m) j = (if j = k then Some e else im_get m j)"
  "im_wf m \<Longrightarrow> im_get (im_remove k m) j = (if j = k then None else im_get m j)"
  by (simp_all add: store_simps)

lemma total_bytes_insert:
  "im_wf m \<Longrightarrow> total_bytes (im_insert k e m) = total_bytes m - amount_at Bytes m k + entry_amount Bytes e"
proof (induction m)
  case (Cons x m)
  obtain j d where x: "x = (j, d)" by fastforce
  show ?case
  proof (cases "j = k")
    case True
    then have "im_get m k = None" using Cons.prems x by (auto simp: im_wf_def im_get_None_iff)
    then show ?thesis using True x by (simp add: total_bytes_def im_insert_def amount_at_def im_get_def)
  next
    case False
    then show ?thesis using Cons x by (simp add: total_bytes_def im_insert_def amount_at_def im_get_def im_wf_def)
  qed
qed (simp add: total_bytes_def im_insert_def amount_at_def im_get_def)

lemma total_bytes_remove:
  "im_wf m \<Longrightarrow> total_bytes (im_remove k m) = total_bytes m - amount_at Bytes m k"
proof (induction m)
  case (Cons x m)
  obtain j d where x: "x = (j, d)" by fastforce
  show ?case
  proof (cases "j = k")
    case True
    then have n: "im_get m k = None" using Cons.prems x by (auto simp: im_wf_def im_get_None_iff)
    then have "im_remove k m = m" by (auto simp: im_get_None_iff im_remove_def delete_id)
    then show ?thesis using True x by (simp add: total_bytes_def im_remove_def amount_at_def im_get_def)
  next
    case False
    then show ?thesis using Cons x by (simp add: total_bytes_def im_remove_def amount_at_def im_get_def im_wf_def)
  qed
qed (simp add: total_bytes_def im_remove_def amount_at_def im_get_def)

section \<open>The meter invariant\<close>

definition entry_ok :: "buffered_entry \<Rightarrow> bool" where
  "entry_ok e \<longleftrightarrow> (\<forall>a. 0 \<le> entry_amount a e \<and> entry_amount a e \<le> i64_max) \<and> 0 \<le> notify_measurements e \<and>
     notify_measurements e \<le> entry_amount Bytes e + entry_amount Operations e \<and> 0 < entry_amount Bytes e + entry_amount Operations e"

definition grown :: "buffered_entry \<Rightarrow> buffered_entry \<Rightarrow> bool" where
  "grown f e \<longleftrightarrow> (\<forall>a. entry_amount a f \<le> entry_amount a e) \<and> notify_measurements f \<le> notify_measurements e \<and>
     notify_measurements e - notify_measurements f \<le>
       entry_amount Bytes e - entry_amount Bytes f + (entry_amount Operations e - entry_amount Operations f)"

definition captured_in :: "(text_value \<times> buffered_entry) list \<Rightarrow> (text_value, buffered_entry) index_map \<Rightarrow> bool" where
  "captured_in es m \<longleftrightarrow> im_wf es \<and> (\<forall>(k, f) \<in> set es. entry_ok f \<and> (\<exists>e. im_get m k = Some e \<and> grown f e))"

definition meter_inv :: "meter \<Rightarrow> bool" where
  "meter_inv s \<longleftrightarrow> im_wf (buffer s) \<and> buffered_bytes (stats_of s) = total_bytes (buffer s) \<and>
     length (buffer s) \<le> max_buffered_entries (meter_options_of s) \<and> (\<forall>k e. im_get (buffer s) k = Some e \<longrightarrow> entry_ok e) \<and>
     (\<forall>p. pending_of s = Some p \<longrightarrow> captured_in (pending_entries p) (buffer s) \<and> pending_entries p \<noteq> [] \<and>
        batch_entries (pending_batch_of p) = map (\<lambda>(_, e). buffered e) (pending_entries p) \<and>
        batch_sequence (pending_batch_of p) = flush_sequence s)"

lemma grown_refl: "grown e e"
  by (simp add: grown_def)

lemma grown_merge: "grown f e \<Longrightarrow> \<forall>a. 0 \<le> measured_amount a n \<Longrightarrow> 0 < measured_amount Bytes n + measured_amount Operations n \<Longrightarrow>
    grown f (merge_entry n e)"
  unfolding grown_def entry_updates amount_kind_all by (auto simp: notify_weight_def)

lemma entry_ok_merge: "entry_ok e \<Longrightarrow> \<forall>a. 0 \<le> measured_amount a n \<Longrightarrow> 0 < measured_amount Bytes n + measured_amount Operations n \<Longrightarrow>
    \<forall>a. entry_amount a e + measured_amount a n \<le> i64_max \<Longrightarrow> entry_ok (merge_entry n e)"
  unfolding entry_ok_def entry_updates amount_kind_all by (auto simp: notify_weight_def)

lemma entry_ok_new: "\<forall>a. 0 \<le> measured_amount a n \<and> measured_amount a n \<le> i64_max \<Longrightarrow> 0 < measured_amount Bytes n + measured_amount Operations n \<Longrightarrow>
    entry_ok (new_entry t n)"
  unfolding entry_ok_def entry_updates amount_kind_all by (auto simp: notify_weight_def)

text \<open>What remains of an entry after its captured part is flushed: nothing, or an entry in order.\<close>

lemma subtract_ok:
  assumes "entry_ok e" "grown f e" "entry_ok f"
  shows "entry_spent (subtract_entry f e) \<longleftrightarrow> (\<forall>a. entry_amount a e = entry_amount a f)"
    "\<not> entry_spent (subtract_entry f e) \<Longrightarrow> entry_ok (subtract_entry f e)"
  using assms unfolding entry_ok_def grown_def entry_spent_def entry_updates amount_kind_all by (auto simp: subtract_entry_def)

lemma counter_checked_bounds: "counter_checked c = Some v \<Longrightarrow> 0 \<le> v \<and> v \<le> i64_max"
  by (auto simp: counter_checked_def split: counter.splits f64.splits if_splits)

lemma normalized_bounds:
  assumes "normalize_measurement input = Some n"
  shows "0 \<le> measured_amount a n \<and> measured_amount a n \<le> i64_max"
  using assms counter_checked_bounds
  by (cases a) (auto simp: normalize_measurement_def Let_def split: option.splits if_splits)

lemma amount_at_insert: "im_wf m \<Longrightarrow> amount_at a (im_insert k e m) j = (if j = k then entry_amount a e else amount_at a m j)"
  by (simp add: amount_at_def im_get_laws)

lemma captured_in_grow:
  assumes "captured_in es m" "im_wf m" "\<And>e. im_get m k = Some e \<Longrightarrow> grown e e'" "\<And>f e. grown f e \<Longrightarrow> im_get m k = Some e \<Longrightarrow> grown f e'"
  shows "captured_in es (im_insert k e' m)"
  using assms unfolding captured_in_def by (fastforce simp: im_get_laws)

text \<open>An accepted measurement adds its amounts to its key and nothing anywhere else.\<close>

lemma record_normalized_cases:
  assumes "meter_inv s" "record_normalized civil t n s = (out, hooks, s')"
    and n: "\<forall>a. 0 \<le> measured_amount a n \<and> measured_amount a n \<le> i64_max" "0 < measured_amount Bytes n + measured_amount Operations n"
  shows "meter_inv s'" "flush_sequence s' = flush_sequence s" "pending_of s' = pending_of s" "meter_options_of s' = meter_options_of s"
    "amount_at a (buffer s') k = amount_at a (buffer s) k + (if out = Recorded \<and> k = meter_key civil t n then measured_amount a n else 0)"
proof -
  let ?k = "meter_key civil t n"
  have inv: "im_wf (buffer s)" "\<And>k e. im_get (buffer s) k = Some e \<Longrightarrow> entry_ok e" "buffered_bytes (stats_of s) = total_bytes (buffer s)"
      "length (buffer s) \<le> max_buffered_entries (meter_options_of s)"
    using assms(1) by (auto simp: meter_inv_def)
  have pos: "\<forall>a. 0 \<le> measured_amount a n" using n(1) by simp
  have drop: "meter_inv (drop_measurement n s)" using assms(1) by (simp add: meter_inv_def drop_measurement_def)
  have add: "meter_inv (add_buffered ?k e (n_bytes n) s) \<and> amount_at a (buffer (add_buffered ?k e (n_bytes n) s)) k =
      amount_at a (buffer s) k + (if k = ?k then measured_amount a n else 0)"
    if e: "entry_ok e" "\<And>a. entry_amount a e = amount_at a (buffer s) ?k + measured_amount a n"
      and room: "im_get (buffer s) ?k = None \<Longrightarrow> length (buffer s) < max_buffered_entries (meter_options_of s)"
      and gr: "\<And>c. im_get (buffer s) ?k = Some c \<Longrightarrow> e = merge_entry n c" for e
  proof -
    have cap: "captured_in es (im_insert ?k e (buffer s))" if "captured_in es (buffer s)" for es
      by (rule captured_in_grow [OF that inv(1)]) (auto simp: gr intro!: grown_merge grown_refl pos n(2))
    have "total_bytes (im_insert ?k e (buffer s)) = total_bytes (buffer s) + n_bytes n"
      using total_bytes_insert [OF inv(1)] e(2) [of Bytes] by simp
    then have "meter_inv (add_buffered ?k e (n_bytes n) s)"
      using assms(1) e(1) cap room inv(1)
      by (auto simp: meter_inv_def add_buffered_def im_get_laws length_im_insert store_simps split: option.splits)
    then show ?thesis using inv(1) e(2) by (simp add: add_buffered_def amount_at_insert)
  qed
  have "meter_inv s' \<and> flush_sequence s' = flush_sequence s \<and> pending_of s' = pending_of s \<and> meter_options_of s' = meter_options_of s \<and>
      amount_at a (buffer s') k = amount_at a (buffer s) k + (if out = Recorded \<and> k = ?k then measured_amount a n else 0)"
  proof (cases "im_get (buffer s) ?k")
    case None
    note f = add [of "new_entry t n"]
    show ?thesis
      using assms(2) None drop f entry_ok_new [OF n]
      by (auto simp: record_normalized_def Let_def amount_at_def entry_updates drop_measurement_def add_buffered_def split: if_splits)
  next
    case (Some c)
    show ?thesis
    proof (cases "entry_bytes (buffered c) + n_bytes n > i64_max \<or> entry_operations (buffered c) + n_operations n > i64_max")
      case True
      then have "out = RecordRejected" "s' = drop_measurement n s" using assms(2) Some by (simp_all add: record_normalized_def Let_def)
      then show ?thesis using drop by (simp add: drop_measurement_def)
    next
      case False
      then have out: "out = Recorded" "s' = add_buffered ?k (merge_entry n c) (n_bytes n) s"
        using assms(2) Some by (simp_all add: record_normalized_def Let_def)
      have "\<forall>a. entry_amount a c + measured_amount a n \<le> i64_max" unfolding amount_kind_all using False by simp
      then have "entry_ok (merge_entry n c)" by (rule entry_ok_merge [OF inv(2) [OF Some] pos n(2)])
      note f = add [OF this]
      have "meter_inv s' \<and> amount_at a (buffer s') k = amount_at a (buffer s) k + (if k = ?k then measured_amount a n else 0)"
        unfolding out(2) by (rule f) (simp_all add: Some amount_at_def entry_updates)
      then show ?thesis using out by (simp add: add_buffered_def)
    qed
  qed
  then show "meter_inv s'" "flush_sequence s' = flush_sequence s" "pending_of s' = pending_of s" "meter_options_of s' = meter_options_of s"
    "amount_at a (buffer s') k = amount_at a (buffer s) k + (if out = Recorded \<and> k = meter_key civil t n then measured_amount a n else 0)"
    by auto
qed

definition settling_inv :: "(text_value \<times> buffered_entry) list \<Rightarrow> meter \<Rightarrow> bool" where
  "settling_inv es s \<longleftrightarrow> im_wf (buffer s) \<and> buffered_bytes (stats_of s) = total_bytes (buffer s) \<and>
     length (buffer s) \<le> max_buffered_entries (meter_options_of s) \<and> (\<forall>k e. im_get (buffer s) k = Some e \<longrightarrow> entry_ok e) \<and>
     captured_in es (buffer s)"

lemma settle_entry_step:
  assumes "settling_inv ((k, f) # es) s"
  shows "settling_inv es (settle_entry (k, f) s)"
    "amount_at a (buffer (settle_entry (k, f) s)) j = amount_at a (buffer s) j - (if j = k then entry_amount a f else 0)"
    "flush_sequence (settle_entry (k, f) s) = flush_sequence s" "pending_of (settle_entry (k, f) s) = pending_of s"
    "meter_options_of (settle_entry (k, f) s) = meter_options_of s"
proof -
  have wf: "im_wf (buffer s)" and ok: "\<And>k e. im_get (buffer s) k = Some e \<Longrightarrow> entry_ok e"
    and tot: "buffered_bytes (stats_of s) = total_bytes (buffer s)" and len: "length (buffer s) \<le> max_buffered_entries (meter_options_of s)"
    and es: "im_wf es" "k \<notin> fst ` set es" "\<And>j g. (j, g) \<in> set es \<Longrightarrow> entry_ok g \<and> (\<exists>e. im_get (buffer s) j = Some e \<and> grown g e)"
    using assms by (auto simp: settling_inv_def captured_in_def im_wf_def)
  obtain e where e: "im_get (buffer s) k = Some e" "grown f e" "entry_ok f" using assms by (auto simp: settling_inv_def captured_in_def)
  let ?d = "subtract_entry f e"
  let ?m = "if entry_spent ?d then im_remove k (buffer s) else im_insert k ?d (buffer s)"
  have set: "settle_entry (k, f) s = s\<lparr>buffer := ?m, stats_of := (stats_of s)\<lparr>buffered_bytes := buffered_bytes (stats_of s) - entry_bytes (buffered f)\<rparr>\<rparr>"
    using e(1) by (simp add: settle_entry_def Let_def)
  note sub = subtract_ok [OF ok [OF e(1)] e(2,3)]
  have spent: "entry_amount a e = entry_amount a f" if "entry_spent ?d" for a using sub(1) that by simp
  have get: "im_get ?m j = (if j = k then if entry_spent ?d then None else Some ?d else im_get (buffer s) j)" for j
    using wf by (simp add: im_get_laws)
  have amt: "amount_at a ?m j = amount_at a (buffer s) j - (if j = k then entry_amount a f else 0)" for a j
    using e(1) spent [of a] unfolding amount_at_def get by (simp add: entry_updates)
  have total: "total_bytes ?m = total_bytes (buffer s) - entry_amount Bytes f"
    using total_bytes_remove [OF wf, of k] total_bytes_insert [OF wf, of k ?d] e(1) spent [of Bytes] by (simp add: amount_at_def entry_updates)
  have length: "length ?m \<le> length (buffer s)" using e(1) by (simp add: length_im_insert length_im_remove)
  have cap: "captured_in es ?m" unfolding captured_in_def get
  proof (intro conjI ballI)
    fix x assume x: "x \<in> set es"
    obtain j g where jg: "x = (j, g)" by fastforce
    have "j \<noteq> k" using es(2) x jg by force
    then show "case x of (k', f') \<Rightarrow> entry_ok f' \<and> (\<exists>e. (if k' = k then if entry_spent ?d then None else Some ?d else im_get (buffer s) k') = Some e \<and> grown f' e)"
      using es(3) x jg by simp
  qed (rule es(1))
  have "\<And>j e'. im_get ?m j = Some e' \<Longrightarrow> entry_ok e'" unfolding get using ok sub(2) by (auto split: if_splits)
  moreover have "im_wf ?m" using wf by (simp add: store_simps)
  ultimately show "settling_inv es (settle_entry (k, f) s)"
    using tot total len length cap unfolding settling_inv_def set by simp
  show "amount_at a (buffer (settle_entry (k, f) s)) j = amount_at a (buffer s) j - (if j = k then entry_amount a f else 0)"
    using amt unfolding set by simp
  show "flush_sequence (settle_entry (k, f) s) = flush_sequence s" "pending_of (settle_entry (k, f) s) = pending_of s"
    "meter_options_of (settle_entry (k, f) s) = meter_options_of s" unfolding set by simp_all
qed

lemma settle_entries:
  assumes "settling_inv es s"
  shows "settling_inv [] (fold settle_entry es s) \<and> amount_at a (buffer (fold settle_entry es s)) j = amount_at a (buffer s) j - amount_at a es j \<and>
    flush_sequence (fold settle_entry es s) = flush_sequence s \<and> pending_of (fold settle_entry es s) = pending_of s \<and>
    meter_options_of (fold settle_entry es s) = meter_options_of s"
  using assms
proof (induction es arbitrary: s)
  case Nil
  then show ?case by (simp add: amount_at_def im_get_def)
next
  case (Cons x es)
  obtain k f where x: "x = (k, f)" by fastforce
  note st = settle_entry_step [OF Cons.prems [unfolded x]]
  have "im_get es k = None" using Cons.prems x by (auto simp: settling_inv_def captured_in_def im_wf_def im_get_None_iff)
  then have "amount_at a (x # es) j = (if j = k then entry_amount a f else 0) + amount_at a es j" using x by (simp add: amount_at_def im_get_def)
  then show ?case using Cons.IH [OF st(1)] st(2-5) x by simp
qed

section \<open>Runs\<close>

datatype meter_op =
  MRecord measurement "int option"
| MCapture int
| MFail int
| MCommit flush_result int int
| MClose

fun meter_exec :: "(int \<Rightarrow> int \<times> nat \<times> nat) \<Rightarrow> (int \<Rightarrow> bool) \<Rightarrow> meter_op \<Rightarrow> meter \<Rightarrow> meter" where
  "meter_exec civil rep (MRecord m t) s = snd (snd (record_with_hooks civil rep m t s))"
| "meter_exec civil rep (MCapture t) s = snd (capture t s)"
| "meter_exec civil rep (MFail d) s = flush_failed d s"
| "meter_exec civil rep (MCommit r t d) s = (case committed civil r t d s of Inl _ \<Rightarrow> s | Inr (_, s') \<Rightarrow> s')"
| "meter_exec civil rep MClose s = close_meter s"

text \<open>The amount an operation credits to a key, and the amount it flushes from it.\<close>

fun credited :: "(int \<Rightarrow> int \<times> nat \<times> nat) \<Rightarrow> (int \<Rightarrow> bool) \<Rightarrow> meter_op \<Rightarrow> meter \<Rightarrow> amount_kind \<Rightarrow> text_value \<Rightarrow> int" where
  "credited civil rep (MRecord m t) s a k =
     (case (record_with_hooks civil rep m t s, normalize_measurement m, t) of
        ((Recorded, _, _), Some n, Some now) \<Rightarrow> if k = meter_key civil (hour_start now) n then measured_amount a n else 0
      | _ \<Rightarrow> 0)"
| "credited civil rep _ s a k = 0"

fun flushed :: "meter_op \<Rightarrow> meter \<Rightarrow> amount_kind \<Rightarrow> text_value \<Rightarrow> int" where
  "flushed (MCommit r t d) s a k = (case pending_of s of None \<Rightarrow> 0 | Some p \<Rightarrow> amount_at a (pending_entries p) k)"
| "flushed _ s a k = 0"

fun confirmed :: "meter_op \<Rightarrow> meter \<Rightarrow> int list" where
  "confirmed (MCommit r t d) s = (case pending_of s of None \<Rightarrow> [] | Some p \<Rightarrow> [batch_sequence (pending_batch_of p)])"
| "confirmed _ s = []"

lemma record_hooks_cases:
  assumes "meter_inv s" "record_with_hooks civil rep m t s = (out, hooks, s')"
  shows "meter_inv s' \<and> flush_sequence s' = flush_sequence s \<and> pending_of s' = pending_of s \<and>
    amount_at a (buffer s') k = amount_at a (buffer s) k + credited civil rep (MRecord m t) s a k"
proof (cases "meter_closed s \<or> normalize_measurement m = None \<or> t = None")
  case True
  then show ?thesis using assms by (auto simp: record_with_hooks_def split: option.splits prod.splits)
next
  case False
  then obtain n now where n: "\<not> meter_closed s" "normalize_measurement m = Some n" "t = Some now" by auto
  show ?thesis
  proof (cases "(n_bytes n = 0 \<and> n_operations n = 0) \<or> \<not> rep (hour_start now)")
    case True
    then have "out \<noteq> Recorded \<and> s' = s" using assms(2) n by (auto simp: record_with_hooks_def split: if_splits)
    then show ?thesis using assms n by (cases out) auto
  next
    case False
    obtain o1 h1 s1 where r: "record_normalized civil (hour_start now) n s = (o1, h1, s1)" by (metis prod_cases3)
    have b: "\<forall>a. 0 \<le> measured_amount a n \<and> measured_amount a n \<le> i64_max" using normalized_bounds [OF n(2)] by simp
    have "0 < measured_amount Bytes n + measured_amount Operations n" using b False unfolding amount_kind_all by auto
    note c = record_normalized_cases [OF assms(1) r b this]
    have "out = o1" "s' = s1" using assms(2) n False r by (auto simp: record_with_hooks_def)
    then show ?thesis using c assms(2) n by (cases o1) auto
  qed
qed

lemma meter_exec_step:
  assumes "meter_inv s"
  shows "meter_inv (meter_exec civil rep op s)"
    "amount_at a (buffer (meter_exec civil rep op s)) k = amount_at a (buffer s) k + credited civil rep op s a k - flushed op s a k"
proof -
  have "meter_inv (meter_exec civil rep op s) \<and>
    amount_at a (buffer (meter_exec civil rep op s)) k = amount_at a (buffer s) k + credited civil rep op s a k - flushed op s a k"
  proof (cases op)
    case (MRecord m t)
    obtain out hooks s' where r: "record_with_hooks civil rep m t s = (out, hooks, s')" by (metis prod_cases3)
    from record_hooks_cases [OF assms r, of a k] show ?thesis using MRecord r by simp
  next
    case (MCapture t)
    have "captured_in (buffer s) (buffer s)"
      using assms by (auto simp: meter_inv_def captured_in_def im_get_eq_Some grown_refl)
    then show ?thesis
      using MCapture assms by (auto simp: capture_def meter_inv_def Let_def split: option.splits)
  next
    case (MFail d)
    then show ?thesis using assms by (simp add: flush_failed_def meter_inv_def)
  next
    case MClose
    then show ?thesis using assms by (simp add: close_meter_def meter_inv_def)
  next
    case (MCommit r t d)
    show ?thesis
    proof (cases "pending_of s")
      case None
      then show ?thesis using MCommit assms by (simp add: committed_def)
    next
      case (Some p)
      have "settling_inv (pending_entries p) (s\<lparr>pending_of := None\<rparr>)"
        using assms Some by (auto simp: meter_inv_def settling_inv_def)
      from settle_entries [OF this, of a k] show ?thesis
        using MCommit Some by (auto simp: committed_def Let_def meter_inv_def settling_inv_def)
    qed
  qed
  then show "meter_inv (meter_exec civil rep op s)"
    "amount_at a (buffer (meter_exec civil rep op s)) k = amount_at a (buffer s) k + credited civil rep op s a k - flushed op s a k" by auto
qed

text \<open>A history of a meter, with the ledger of what was recorded and confirmed.\<close>

record meter_ledger =
  ledger_meter :: meter
  recorded_total :: "amount_kind \<Rightarrow> text_value \<Rightarrow> int"
  flushed_total :: "amount_kind \<Rightarrow> text_value \<Rightarrow> int"
  confirmed_sequences :: "int list"

inductive meter_history :: "(int \<Rightarrow> int \<times> nat \<times> nat) \<Rightarrow> (int \<Rightarrow> bool) \<Rightarrow> meter_ledger \<Rightarrow> bool" for civil rep where
  meter_start: "meter_new options = Inr s \<Longrightarrow>
    meter_history civil rep \<lparr>ledger_meter = s, recorded_total = (\<lambda>_ _. 0), flushed_total = (\<lambda>_ _. 0), confirmed_sequences = []\<rparr>"
| meter_step: "meter_history civil rep l \<Longrightarrow>
    meter_history civil rep \<lparr>ledger_meter = meter_exec civil rep op (ledger_meter l),
      recorded_total = (\<lambda>a k. recorded_total l a k + credited civil rep op (ledger_meter l) a k),
      flushed_total = (\<lambda>a k. flushed_total l a k + flushed op (ledger_meter l) a k),
      confirmed_sequences = confirmed_sequences l @ confirmed op (ledger_meter l)\<rparr>"

lemma meter_new_inv:
  assumes "meter_new options = Inr s"
  shows "meter_inv s" "buffer s = []" "flush_sequence s = 0" "pending_of s = None"
  using assms by (auto simp: meter_new_def meter_inv_def total_bytes_def im_wf_def im_get_def split: if_splits)

lemma history_inv: "meter_history civil rep l \<Longrightarrow> meter_inv (ledger_meter l)"
  by (induction rule: meter_history.induct) (auto intro: meter_new_inv meter_exec_step(1))

lemma history_balanced:
  "meter_history civil rep l \<Longrightarrow> recorded_total l a k = flushed_total l a k + amount_at a (buffer (ledger_meter l)) k"
proof (induction rule: meter_history.induct)
  case (meter_start options s)
  then show ?case by (simp add: meter_new_inv(2) [OF meter_start] amount_at_def im_get_def)
next
  case (meter_step l op)
  then show ?case using meter_exec_step(2) [OF history_inv [OF meter_step.hyps], of a civil rep op k] by simp
qed

definition confirmed_count :: "meter \<Rightarrow> int" where
  "confirmed_count s = flush_sequence s - (if pending_of s = None then 0 else 1)"

lemma exec_sequence:
  assumes "meter_inv s" "0 \<le> confirmed_count s"
  shows "0 \<le> confirmed_count (meter_exec civil rep op s)"
    "confirmed op s = (if confirmed_count (meter_exec civil rep op s) = confirmed_count s then [] else [confirmed_count s + 1])"
    "confirmed_count (meter_exec civil rep op s) \<in> {confirmed_count s, confirmed_count s + 1}"
proof -
  have "0 \<le> confirmed_count (meter_exec civil rep op s) \<and>
    confirmed op s = (if confirmed_count (meter_exec civil rep op s) = confirmed_count s then [] else [confirmed_count s + 1]) \<and>
    confirmed_count (meter_exec civil rep op s) \<in> {confirmed_count s, confirmed_count s + 1}"
  proof (cases op)
    case (MRecord m t)
    obtain out hooks s' where r: "record_with_hooks civil rep m t s = (out, hooks, s')" by (metis prod_cases3)
    from record_hooks_cases [OF assms(1) r] show ?thesis using MRecord r assms(2) by (simp add: confirmed_count_def)
  next
    case (MCapture t)
    then show ?thesis using assms(2) by (auto simp: capture_def confirmed_count_def Let_def split: option.splits)
  next
    case (MFail d)
    then show ?thesis using assms(2) by (simp add: flush_failed_def confirmed_count_def)
  next
    case MClose
    then show ?thesis using assms(2) by (simp add: close_meter_def confirmed_count_def)
  next
    case (MCommit r t d)
    show ?thesis
    proof (cases "pending_of s")
      case None
      then show ?thesis using MCommit assms(2) by (simp add: committed_def)
    next
      case (Some p)
      have "settling_inv (pending_entries p) (s\<lparr>pending_of := None\<rparr>)" "batch_sequence (pending_batch_of p) = flush_sequence s"
        using assms Some by (auto simp: meter_inv_def settling_inv_def)
      then show ?thesis
        using settle_entries [of "pending_entries p" "s\<lparr>pending_of := None\<rparr>"] MCommit Some assms(2)
        by (auto simp: committed_def Let_def confirmed_count_def)
    qed
  qed
  then show "0 \<le> confirmed_count (meter_exec civil rep op s)"
    "confirmed op s = (if confirmed_count (meter_exec civil rep op s) = confirmed_count s then [] else [confirmed_count s + 1])"
    "confirmed_count (meter_exec civil rep op s) \<in> {confirmed_count s, confirmed_count s + 1}" by auto
qed

lemma history_sequences:
  "meter_history civil rep l \<Longrightarrow> 0 \<le> confirmed_count (ledger_meter l) \<and> confirmed_sequences l = [1..confirmed_count (ledger_meter l)]"
proof (induction rule: meter_history.induct)
  case (meter_start options s)
  then show ?case by (simp add: confirmed_count_def meter_new_inv(3,4) [OF meter_start])
next
  case (meter_step l op)
  note e = exec_sequence [OF history_inv [OF meter_step.hyps], where civil = civil and rep = rep and op = op]
  have snoc: "[1..c] @ [c + 1] = [1..c + 1]" if "0 \<le> c" for c :: int using that by (simp add: upto_rec2)
  show ?case using e meter_step.IH snoc by (auto split: if_splits)
qed

lemma capture_pending: "pending_of s = Some p \<Longrightarrow> capture t s = (Some (pending_batch_of p), s)"
  by (simp add: capture_def)

lemma exec_keeps_pending:
  assumes "meter_inv s" "pending_of s = Some p" "\<And>r t d. op \<noteq> MCommit r t d"
  shows "pending_of (meter_exec civil rep op s) = Some p"
proof (cases op)
  case (MRecord m t)
  obtain out hooks s' where r: "record_with_hooks civil rep m t s = (out, hooks, s')" by (metis prod_cases3)
  from record_hooks_cases [OF assms(1) r] show ?thesis using MRecord r assms(2) by simp
qed (use assms in \<open>auto simp: capture_def flush_failed_def close_meter_def\<close>)

lemma execs_keep_pending:
  "meter_inv s \<Longrightarrow> pending_of s = Some p \<Longrightarrow> \<forall>op \<in> set ops. \<forall>r t d. op \<noteq> MCommit r t d \<Longrightarrow>
    pending_of (fold (meter_exec civil rep) ops s) = Some p"
  by (induction ops arbitrary: s) (simp_all add: meter_exec_step(1) exec_keeps_pending)


section \<open>Properties\<close>

text \<open>
  (C37) The meter neither loses nor invents usage: in every history of a meter, for every buffer key and for
  bytes and operations alike, what was recorded equals what confirmed flushes carried plus what the buffer
  still holds; the reported buffered bytes are the buffer's total, every buffered amount is between zero and
  the largest 64-bit integer, no spent entry stays, and the buffer respects its capacity.
\<close>

theorem meter_conserves_usage:
  assumes "meter_history civil rep l"
  shows "recorded_total l a k = flushed_total l a k + amount_at a (buffer (ledger_meter l)) k \<and>
    buffered_bytes (meter_stats_of (ledger_meter l)) = total_bytes (buffer (ledger_meter l)) \<and>
    buffered_entries (meter_stats_of (ledger_meter l)) \<le> max_buffered_entries (meter_options_of (ledger_meter l)) \<and>
    (\<forall>(j, e) \<in> set (buffer (ledger_meter l)). entry_ok e)"
proof -
  have inv: "meter_inv (ledger_meter l)" by (rule history_inv [OF assms])
  then have "\<forall>(j, e) \<in> set (buffer (ledger_meter l)). entry_ok e" by (auto simp: meter_inv_def im_get_eq_Some)
  then show ?thesis using history_balanced [OF assms] inv by (simp add: meter_inv_def meter_stats_of_def)
qed

text \<open>
  Flushes are numbered and confirmed exactly once: in every history the sequence numbers of the
  confirmed batches are 1, 2, 3 and so on without gap or repetition, up to the current sequence, or to the
  one before it while a batch is pending.
\<close>

lemma flushes_confirmed_in_sequence:
  assumes "meter_history civil rep l"
  shows "confirmed_sequences l = [1..flush_sequence (ledger_meter l) - (if pending_of (ledger_meter l) = None then 0 else 1)]"
  using history_sequences [OF assms] by (simp add: confirmed_count_def)

text \<open>
  A failed flush is retried with the same receipt: once a batch is captured, whatever is recorded,
  captured or reported failed before a confirmation, capturing again returns the identical batch and leaves
  the meter unchanged.
\<close>

lemma retried_flush_identical:
  assumes "meter_history civil rep l" "capture t (ledger_meter l) = (Some batch, s)"
    and "\<forall>op \<in> set ops. \<forall>r u d. op \<noteq> MCommit r u d"
  shows "capture t' (fold (meter_exec civil rep) ops s) = (Some batch, fold (meter_exec civil rep) ops s)"
proof -
  have inv: "meter_inv s" using meter_exec_step(1) [OF history_inv [OF assms(1)], where op = "MCapture t"] assms(2) by simp
  obtain p where p: "pending_of s = Some p" "pending_batch_of p = batch"
    using assms(2) by (auto simp: capture_def Let_def split: option.splits if_splits)
  show ?thesis using capture_pending [OF execs_keep_pending [OF inv p(1) assms(3)]] p(2) by simp
qed

definition demo_civil :: "int \<Rightarrow> int \<times> nat \<times> nat" where
  "demo_civil ms = (1970, 1, 1 + nat (ms div 86400000))"

definition demo_options :: meter_options where
  "demo_options = \<lparr>meter_id = text_of ''m'', max_buffered_entries = 2, flush_threshold_bytes = 100, flush_interval_ms = 60000\<rparr>"

definition demo_measurement :: measurement where
  "demo_measurement = \<lparr>m_owner = text_of '' user '', m_bytes = Integer 40, m_operations = None, m_channel = text_of ''http'',
     m_direction = text_of ''ingress'', m_notify = None\<rparr>"

definition demo_meter :: meter where
  "demo_meter = (case meter_new demo_options of Inr s \<Rightarrow> s)"

definition demo_ops :: "meter_op list" where
  "demo_ops = [MRecord demo_measurement (Some 5000), MCapture 6000, MRecord demo_measurement (Some 7000)]"

definition ledger_step :: "(int \<Rightarrow> int \<times> nat \<times> nat) \<Rightarrow> (int \<Rightarrow> bool) \<Rightarrow> meter_op \<Rightarrow> meter_ledger \<Rightarrow> meter_ledger" where
  "ledger_step civil rep op l = \<lparr>ledger_meter = meter_exec civil rep op (ledger_meter l),
      recorded_total = (\<lambda>a k. recorded_total l a k + credited civil rep op (ledger_meter l) a k),
      flushed_total = (\<lambda>a k. flushed_total l a k + flushed op (ledger_meter l) a k),
      confirmed_sequences = confirmed_sequences l @ confirmed op (ledger_meter l)\<rparr>"

definition demo_ledger :: meter_ledger where
  "demo_ledger = fold (ledger_step demo_civil (\<lambda>_. True)) demo_ops
     \<lparr>ledger_meter = demo_meter, recorded_total = (\<lambda>_ _. 0), flushed_total = (\<lambda>_ _. 0), confirmed_sequences = []\<rparr>"

lemma history_fold: "meter_history civil rep l \<Longrightarrow> meter_history civil rep (fold (ledger_step civil rep) ops l)"
  by (induction ops arbitrary: l) (simp_all add: ledger_step_def meter_step)

lemma demo_new: "meter_new demo_options = Inr demo_meter"
  by (simp add: demo_meter_def meter_new_def demo_options_def trim_text_def text_of_def whitespace_def)

lemma demo_history: "meter_history demo_civil (\<lambda>_. True) demo_ledger"
  unfolding demo_ledger_def by (rule history_fold [OF meter_start [OF demo_new]])

lemmas demo_meter_defs = demo_ledger_def demo_ops_def demo_meter_def meter_new_def demo_options_def trim_text_def text_of_def whitespace_def
  ledger_step_def record_with_hooks_def normalize_measurement_def demo_measurement_def counter_checked_def utf16_count_def utf16_len_def
  usage_channels_def hour_start_def record_normalized_def meter_key_def iso_def demo_civil_def zero_padded_def
  im_get_def add_buffered_def im_insert_def new_entry_def merge_entry_def notify_weight_def capture_def Let_def

lemma demo_ledger_amounts:
  "flush_sequence (ledger_meter demo_ledger) = 1" "pending_of (ledger_meter demo_ledger) \<noteq> None"
  "total_bytes (buffer (ledger_meter demo_ledger)) = 80"
  by (simp_all add: demo_meter_defs total_bytes_def)

theorem meter_conserves_usage_witness:
  "buffered_bytes (meter_stats_of (ledger_meter demo_ledger)) = 80 \<and>
   (\<forall>k. recorded_total demo_ledger Bytes k = flushed_total demo_ledger Bytes k + amount_at Bytes (buffer (ledger_meter demo_ledger)) k)"
  using meter_conserves_usage [OF demo_history] demo_ledger_amounts(3) by simp

end
