(* ===== verification/Calendar.thy ===== *)
theory Calendar
  imports Texts
begin

text \<open>
  The proleptic Gregorian calendar of \<^verbatim>\<open>cantrip_server_rs/src/wire/js_date.rs\<close>: \<open>days\<close>, its inverse
  \<open>utc_fields\<close> over ECMAScript's range of dates, \<open>Date.UTC\<close> as \<open>utc_milliseconds\<close>, and \<open>Date.toISOString\<close> as
  \<open>iso_milliseconds\<close>. Months count from one in \<open>days\<close> and \<open>utc_fields\<close> and from zero in \<open>utc_milliseconds\<close>, as
  in the source. The reference is the calendar's own rule: month lengths and leap years.
\<close>

abbreviation (input) time_clip :: int where "time_clip \<equiv> 8640000000000000"
abbreviation (input) day_ms :: int where "day_ms \<equiv> 86400000"

section \<open>The source's arithmetic\<close>

definition days :: "int \<Rightarrow> int \<Rightarrow> int \<Rightarrow> int" where
  "days year month day =
     (let y = year - (if month \<le> 2 then 1 else 0);
          era = y div 400;
          part = y - era * 400;
          m = month + (if month > 2 then - 3 else 9)
      in era * 146097 + part * 365 + part div 4 - part div 100 + (153 * m + 2) div 5 + day - 1 - 719468)"

definition utc_fields :: "int \<Rightarrow> (int \<times> int \<times> int) option" where
  "utc_fields value =
     (if \<bar>value\<bar> > time_clip then None
      else
        let shifted = value div day_ms + 719468;
            era = shifted div 146097;
            day_of_era = shifted - era * 146097;
            year_of_era = (day_of_era - day_of_era div 1460 + day_of_era div 36524 - day_of_era div 146096) div 365;
            year = year_of_era + era * 400;
            day_of_year = day_of_era - (365 * year_of_era + year_of_era div 4 - year_of_era div 100);
            march_month = (5 * day_of_year + 2) div 153;
            day = day_of_year - (153 * march_month + 2) div 5 + 1;
            month = march_month + (if march_month < 10 then 3 else - 9)
        in Some (year + (if month \<le> 2 then 1 else 0), month, day))"

definition utc_milliseconds :: "int \<Rightarrow> int \<Rightarrow> int \<Rightarrow> int option" where
  "utc_milliseconds year month day =
     (let y = (if 0 \<le> year \<and> year \<le> 99 then year + 1900 else year);
          value = days (y + month div 12) (month mod 12 + 1) day * day_ms
      in if \<bar>value\<bar> \<le> time_clip then Some value else None)"

definition iso_year :: "int \<Rightarrow> text_value" where
  "iso_year year =
     (if 0 \<le> year \<and> year \<le> 9999 then zero_padded 4 (nat year)
      else if year < 0 then 45 # zero_padded 6 (nat (- year))
      else 43 # zero_padded 6 (nat year))"

definition iso_milliseconds :: "int \<Rightarrow> text_value option" where
  "iso_milliseconds value =
     (case utc_fields value of
        None \<Rightarrow> None
      | Some (year, month, day) \<Rightarrow>
          let clock = nat (value mod day_ms)
          in Some (iso_year year @
               45 # zero_padded 2 (nat month) @ 45 # zero_padded 2 (nat day) @ 84 # zero_padded 2 (clock div 3600000) @
               58 # zero_padded 2 (clock div 60000 mod 60) @ 58 # zero_padded 2 (clock div 1000 mod 60) @
               46 # zero_padded 3 (clock mod 1000) @ [90]))"

section \<open>The calendar's rule\<close>

definition leap_year :: "int \<Rightarrow> bool" where
  "leap_year y \<longleftrightarrow> y mod 4 = 0 \<and> (y mod 100 \<noteq> 0 \<or> y mod 400 = 0)"

definition month_length :: "int \<Rightarrow> int \<Rightarrow> int" where
  "month_length y m = (if m = 2 then (if leap_year y then 29 else 28) else if m \<in> {4, 6, 9, 11} then 30 else 31)"

definition valid_date :: "int \<Rightarrow> int \<Rightarrow> int \<Rightarrow> bool" where
  "valid_date y m d \<longleftrightarrow> 1 \<le> m \<and> m \<le> 12 \<and> 1 \<le> d \<and> d \<le> month_length y m"

definition year_days :: "int \<Rightarrow> int" where
  "year_days y = 365 * y + y div 4 - y div 100 + y div 400"

lemma era_days:
  fixes y :: int
  shows "y div 400 * 146097 + (y - y div 400 * 400) * 365 + (y - y div 400 * 400) div 4 - (y - y div 400 * 400) div 100 = year_days y"
proof -
  let ?e = "y div 400"
  have a: "y div 4 = 100 * ?e + (y - ?e * 400) div 4" using div_mult_self1 [of 4 "y - ?e * 400" "100 * ?e"] by simp
  have b: "y div 100 = 4 * ?e + (y - ?e * 400) div 100" using div_mult_self1 [of 100 "y - ?e * 400" "4 * ?e"] by simp
  show ?thesis unfolding year_days_def a b by simp
qed

lemma days_eq:
  "days y m d = year_days (if m \<le> 2 then y - 1 else y) + (153 * (m + (if m > 2 then - 3 else 9)) + 2) div 5 + d - 719469"
proof -
  have "days y m d = (let z = (if m \<le> 2 then y - 1 else y) in year_days z + (153 * (m + (if m > 2 then - 3 else 9)) + 2) div 5 + d - 719469)"
    unfolding days_def Let_def by (simp add: era_days [symmetric])
  then show ?thesis by (simp add: Let_def)
qed

lemma div_pred:
  fixes y n :: int
  assumes "1 < n"
  shows "(y - 1) div n = y div n - (if y mod n = 0 then 1 else 0)"
proof (cases "y mod n = 0")
  case True
  then have "y = n * (y div n)" using mult_div_mod_eq [of n y] by simp
  then have "y - 1 = n * (y div n - 1) + (n - 1)" by (simp add: algebra_simps)
  then have "(y - 1) div n = y div n - 1" using assms by (intro int_div_pos_eq [where r = "n - 1"]) auto
  then show ?thesis using True by simp
next
  case False
  have "y - 1 = n * (y div n) + (y mod n - 1)" by simp
  moreover have "0 < y mod n" "y mod n < n"
    using False assms pos_mod_sign [of n y] pos_mod_bound [of n y] by linarith+
  ultimately have "(y - 1) div n = y div n" by (intro int_div_pos_eq [where r = "y mod n - 1"]) auto
  then show ?thesis using False by simp
qed

lemma year_days_step: "year_days y = year_days (y - 1) + (if leap_year y then 366 else 365)"
proof -
  have "y mod 100 = 0" if "y mod 400 = 0" using that mod_mod_cancel [of 100 400 y] by simp
  moreover have "y mod 4 = 0" if "y mod 100 = 0" using that mod_mod_cancel [of 4 100 y] by simp
  ultimately show ?thesis by (auto simp: year_days_def leap_year_def div_pred)
qed

lemma month_cases:
  fixes m :: int
  assumes "1 \<le> m" "m \<le> 12"
  obtains "m = 1" | "m = 2" | "m = 3" | "m = 4" | "m = 5" | "m = 6" | "m = 7" | "m = 8" | "m = 9" | "m = 10" | "m = 11" | "m = 12"
proof -
  have "m = 1 \<or> m = 2 \<or> m = 3 \<or> m = 4 \<or> m = 5 \<or> m = 6 \<or> m = 7 \<or> m = 8 \<or> m = 9 \<or> m = 10 \<or> m = 11 \<or> m = 12"
    using assms by presburger
  then show ?thesis using that by blast
qed

text \<open>The months of all years in a row: month \<open>t\<close> is month \<open>t mod 12 + 1\<close> of year \<open>t div 12\<close>.\<close>

definition month_start :: "int \<Rightarrow> int" where
  "month_start t = days (t div 12) (t mod 12 + 1) 1"

definition month_days :: "int \<Rightarrow> int" where
  "month_days t = month_length (t div 12) (t mod 12 + 1)"

lemma month_days_bounds: "28 \<le> month_days t" "month_days t \<le> 31"
  by (auto simp: month_days_def month_length_def)

lemma next_month:
  assumes "1 \<le> m" "m \<le> 12"
  shows "(if m = 12 then days (y + 1) 1 1 else days y (m + 1) 1) = days y m 1 + month_length y m"
  using assms year_days_step [of y] by (cases rule: month_cases) (simp_all add: days_eq month_length_def)

lemma month_start_step: "month_start (t + 1) = month_start t + month_days t"
proof (cases "t mod 12 = 11")
  case True
  then have e: "t = 12 * (t div 12) + 11" using mult_div_mod_eq [of 12 t] by simp
  have "(t + 1) div 12 = t div 12 + 1" by (rule int_div_pos_eq [where r = 0]) (use e in simp_all)
  moreover have "(t + 1) mod 12 = 0" by (rule int_mod_pos_eq [where q = "t div 12 + 1"]) (use e in simp_all)
  ultimately
  show ?thesis using next_month [of 12 "t div 12"] True by (simp add: month_start_def month_days_def)
next
  case False
  have r: "0 \<le> t mod 12" "t mod 12 < 12" by simp_all
  have e: "t + 1 = 12 * (t div 12) + (t mod 12 + 1)" by simp
  have "(t + 1) div 12 = t div 12" by (rule int_div_pos_eq [OF e]) (use r False in simp_all)
  moreover have "(t + 1) mod 12 = t mod 12 + 1" by (rule int_mod_pos_eq [OF e]) (use r False in simp_all)
  moreover have "t mod 12 + 1 \<noteq> 12" using False by simp
  ultimately show ?thesis using next_month [of "t mod 12 + 1" "t div 12"] r by (simp add: month_start_def month_days_def)
qed

lemma month_start_mono: "t < u \<Longrightarrow> month_start t + month_days t \<le> month_start u"
proof (induction u rule: int_gr_induct)
  case base then show ?case by (simp add: month_start_step)
next
  case (step u)
  then show ?case using month_start_step [of u] month_days_bounds [of u] by simp
qed

lemma month_index:
  fixes y m :: int
  assumes "1 \<le> m" "m \<le> 12"
  shows "(12 * y + m - 1) div 12 = y" "(12 * y + m - 1) mod 12 = m - 1"
  using assms by (auto intro: int_div_pos_eq int_mod_pos_eq)

lemma days_month_start: "1 \<le> m \<Longrightarrow> m \<le> 12 \<Longrightarrow> days y m d = month_start (12 * y + m - 1) + d - 1"
  by (simp add: month_index month_start_def days_eq)

lemma month_days_index: "1 \<le> m \<Longrightarrow> m \<le> 12 \<Longrightarrow> month_days (12 * y + m - 1) = month_length y m"
  by (simp add: month_index month_days_def)

text \<open>\<open>days\<close> orders valid dates as the calendar does.\<close>

lemma days_less_month:
  assumes "valid_date y m d" "valid_date y' m' d'" "12 * y + m < 12 * y' + m'"
  shows "days y m d < days y' m' d'"
  using assms month_start_mono [of "12 * y + m - 1" "12 * y' + m' - 1"]
  by (simp add: valid_date_def days_month_start month_days_index)

lemma days_inject:
  assumes "valid_date y m d" "valid_date y' m' d'" "days y m d = days y' m' d'"
  shows "y = y' \<and> m = m' \<and> d = d'"
proof -
  have i: "12 * y + m = 12 * y' + m'"
    using days_less_month [OF assms(1,2)] days_less_month [OF assms(2,1)] assms(3) by linarith
  moreover have "12 * y + m - 1 = 12 * y' + m' - 1" using i by simp
  ultimately have "y = y'" "m = m'"
    using assms(1,2) month_index [of m y] month_index [of m' y'] by (auto simp: valid_date_def)
  then show ?thesis using assms(3) by (simp add: days_eq)
qed

section \<open>The inverse of \<open>days\<close>\<close>

text \<open>A day of a 400 year era lies in the year the source computes.\<close>

lemma era_split:
  fixes doe :: int
  assumes "0 \<le> doe" "doe < 146097"
  obtains c q s k where "doe = 36524 * c + 1461 * q + 365 * s + k"
    "0 \<le> c" "c \<le> 3" "0 \<le> q" "q \<le> 24" "0 \<le> s" "s \<le> 3" "0 \<le> k" "k \<le> 365"
    "k = 365 \<Longrightarrow> s = 3 \<and> (q < 24 \<or> c = 3)" "c = (if doe = 146096 then 3 else doe div 36524)"
proof -
  define c where "c = (if doe = 146096 then 3 else doe div 36524)"
  have e: "36524 * (doe div 36524) + doe mod 36524 = doe" "0 \<le> doe mod 36524" "doe mod 36524 < 36524" by simp_all
  have c: "0 \<le> c" "c \<le> 3" using assms e by (auto simp: c_def)
  define r where "r = doe - 36524 * c"
  have r: "0 \<le> r" "r \<le> 36524" "c < 3 \<Longrightarrow> r \<le> 36523" using e by (auto simp: r_def c_def split: if_splits)
  define q where "q = r div 1461"
  have f: "1461 * q + r mod 1461 = r" "0 \<le> r mod 1461" "r mod 1461 < 1461" by (simp_all add: q_def)
  have q: "0 \<le> q" "q \<le> 24" using f r by linarith+
  define t where "t = r mod 1461"
  define s where "s = (if t = 1460 then 3 else t div 365)"
  have g: "365 * (t div 365) + t mod 365 = t" "0 \<le> t mod 365" "t mod 365 < 365" by simp_all
  have t: "0 \<le> t" "t \<le> 1460" using f by (simp_all add: t_def)
  have s: "0 \<le> s" "s \<le> 3" using g t by (auto simp: s_def)
  define k where "k = t - 365 * s"
  have k: "0 \<le> k" "k \<le> 365" "k = 365 \<Longrightarrow> s = 3 \<and> t = 1460" using g by (auto simp: k_def s_def split: if_splits)
  have "q < 24 \<or> c = 3" if "k = 365" using k(3) [OF that] f(1) r(3) c(2) q(2) by (fastforce simp: t_def [symmetric])
  moreover have "doe = 36524 * c + 1461 * q + 365 * s + k" using f(1) by (simp add: k_def r_def t_def)
  ultimately show ?thesis using that c q s k c_def by blast
qed

lemma year_of_era:
  fixes doe :: int
  assumes "0 \<le> doe" "doe < 146097"
  defines "n \<equiv> (doe - doe div 1460 + doe div 36524 - doe div 146096) div 365"
  shows "0 \<le> n" "n < 400" "365 * n + n div 4 - n div 100 \<le> doe"
    "doe < 365 * n + n div 4 - n div 100 + (if leap_year (n + 1) then 366 else 365)"
proof -
  obtain c q s k where d: "doe = 36524 * c + 1461 * q + 365 * s + k"
    and b: "0 \<le> c" "c \<le> 3" "0 \<le> q" "q \<le> 24" "0 \<le> s" "s \<le> 3" "0 \<le> k" "k \<le> 365"
    and l: "k = 365 \<Longrightarrow> s = 3 \<and> (q < 24 \<or> c = 3)" and c: "c = (if doe = 146096 then 3 else doe div 36524)"
    using era_split [OF assms(1,2)] by blast
  define e :: int where "e = (if k = 365 \<or> 1460 \<le> 24 * c + q + 365 * s + k then 1 else 0)"
  have "doe div 1460 = 25 * c + q + e"
    by (rule int_div_pos_eq [where r = "24 * c + q + 365 * s + k - 1460 * e"]) (use d b l in \<open>auto simp: e_def\<close>)
  moreover have "doe div 36524 - doe div 146096 = c" using c assms(1,2) by (auto simp: div_pos_pos_trivial)
  ultimately have m: "doe - doe div 1460 + doe div 36524 - doe div 146096 = 365 * (100 * c + 4 * q + s) + (k - e)" using d by simp
  have e: "0 \<le> k - e" "k - e < 365" using b l by (auto simp: e_def)
  have n: "n = 100 * c + 4 * q + s" unfolding n_def by (rule int_div_pos_eq [OF m]) (use e in auto)
  have n4: "n div 4 = 25 * c + q" by (rule int_div_pos_eq [where r = s]) (use n b in auto)
  have n100: "n div 100 = c" by (rule int_div_pos_eq [where r = "4 * q + s"]) (use n b in auto)
  show "0 \<le> n" "n < 400" using n b by auto
  have y: "365 * n + n div 4 - n div 100 + k = doe" using n4 n100 d n by simp
  then show "365 * n + n div 4 - n div 100 \<le> doe" using b by simp
  have "leap_year (n + 1)" if "k = 365"
  proof -
    have z: "n + 1 = 4 * (25 * c + q + 1)" using n l [OF that] by simp
    then have "(n + 1) mod 4 = 0" by simp
    moreover have "(n + 1) mod 100 = 4 * (q + 1)" if "q < 24" by (rule int_mod_pos_eq [where q = c]) (use z b that in auto)
    moreover have "n + 1 = 400" if "\<not> q < 24" using z l [OF \<open>k = 365\<close>] that b by simp
    ultimately show ?thesis using b by (cases "q < 24") (auto simp: leap_year_def)
  qed
  then show "doe < 365 * n + n div 4 - n div 100 + (if leap_year (n + 1) then 366 else 365)" using y b(8) by (cases "k = 365") auto
qed

text \<open>The month of a day of the year that starts in March.\<close>

lemma march_month:
  fixes k :: int
  assumes "0 \<le> k" "k \<le> 365"
  defines "m \<equiv> (5 * k + 2) div 153"
  shows "0 \<le> m" "m \<le> 11" "(153 * m + 2) div 5 \<le> k" "k < (153 * (m + 1) + 2) div 5"
proof -
  have e: "153 * m + (5 * k + 2) mod 153 = 5 * k + 2" "0 \<le> (5 * k + 2) mod 153" "(5 * k + 2) mod 153 < 153" by (simp_all add: m_def)
  show "0 \<le> m" "m \<le> 11" using e assms(1,2) by linarith+
  have "(153 * m + 2) div 5 \<le> (5 * k + 4) div 5" by (rule zdiv_mono1) (use e in simp_all)
  then show "(153 * m + 2) div 5 \<le> k" by simp
  have "(5 * (k + 1)) div 5 \<le> (153 * (m + 1) + 2) div 5" by (rule zdiv_mono1) (use e in simp_all)
  then show "k < (153 * (m + 1) + 2) div 5" by simp
qed

lemma leap_year_era: "leap_year (n + 400 * e) \<longleftrightarrow> leap_year n"
proof -
  have "(n + 400 * e) mod 4 = n mod 4" using mod_mult_self2 [of n 4 "100 * e"] by simp
  moreover have "(n + 400 * e) mod 100 = n mod 100" using mod_mult_self2 [of n 100 "4 * e"] by simp
  ultimately show ?thesis by (simp add: leap_year_def)
qed

lemma year_days_era: "0 \<le> n \<Longrightarrow> n < 400 \<Longrightarrow> year_days (n + 400 * e) = e * 146097 + (365 * n + n div 4 - n div 100)"
  using era_days [of "n + 400 * e"] by simp

lemma march_date:
  fixes n e k :: int
  assumes "0 \<le> n" "n < 400" "0 \<le> k" "k < (if leap_year (n + 1) then 366 else 365)"
  defines "m \<equiv> (5 * k + 2) div 153"
  defines "d \<equiv> k - (153 * m + 2) div 5 + 1" and "month \<equiv> m + (if m < 10 then 3 else - 9)"
  defines "y \<equiv> n + e * 400 + (if month \<le> 2 then 1 else 0)"
  shows "valid_date y month d" "days y month d = e * 146097 + (365 * n + n div 4 - n div 100) + k - 719468"
proof -
  have k: "k \<le> 365" using assms(4) by (simp split: if_splits)
  note mm = march_month [OF assms(3) k, folded m_def]
  have j: "1 \<le> month" "month \<le> 12" "month + (if month > 2 then - 3 else 9) = m" "month > 2 \<longleftrightarrow> m < 10"
    using mm(1,2) by (auto simp: month_def)
  have "year_days (if month \<le> 2 then y - 1 else y) = e * 146097 + (365 * n + n div 4 - n div 100)"
    using year_days_era [OF assms(1,2), of e] by (simp add: y_def mult.commute)
  then show "days y month d = e * 146097 + (365 * n + n div 4 - n div 100) + k - 719468"
    unfolding days_eq j(3) by (simp add: d_def)
  have "leap_year y \<longleftrightarrow> leap_year (n + 1)" if "m = 11"
    using that leap_year_era [of "n + 1" e] by (simp add: y_def month_def algebra_simps)
  moreover have "m = 0 \<or> m = 1 \<or> m = 2 \<or> m = 3 \<or> m = 4 \<or> m = 5 \<or> m = 6 \<or> m = 7 \<or> m = 8 \<or> m = 9 \<or> m = 10 \<or> m = 11"
    using mm(1,2) by presburger
  ultimately have "d \<le> month_length y month"
    using mm(4) assms(4) by (elim disjE) (simp_all add: d_def month_def month_length_def split: if_splits)
  then show "valid_date y month d" using j mm(3) by (simp add: valid_date_def d_def)
qed

lemma utc_fields_days:
  assumes "\<bar>v\<bar> \<le> time_clip"
  obtains y m d where "utc_fields v = Some (y, m, d)" "valid_date y m d" "days y m d = v div day_ms"
proof -
  define z where "z = v div day_ms + 719468"
  define e where "e = z div 146097"
  define doe where "doe = z - e * 146097"
  have doe: "0 \<le> doe" "doe < 146097"
    using mult_div_mod_eq [of 146097 z] pos_mod_bound [of 146097 z] pos_mod_sign [of 146097 z] by (simp_all add: doe_def e_def)
  define n where "n = (doe - doe div 1460 + doe div 36524 - doe div 146096) div 365"
  note ye = year_of_era [OF doe, folded n_def]
  define k where "k = doe - (365 * n + n div 4 - n div 100)"
  have k: "0 \<le> k" "k < (if leap_year (n + 1) then 366 else 365)" using ye(3,4) by (simp_all add: k_def)
  define m where "m = (5 * k + 2) div 153"
  define d where "d = k - (153 * m + 2) div 5 + 1"
  define month where "month = m + (if m < 10 then 3 else - 9)"
  note md = march_date [OF ye(1,2) k, of e, folded m_def, folded d_def month_def]
  have "utc_fields v = Some (n + e * 400 + (if month \<le> 2 then 1 else 0), month, d)"
    using assms unfolding utc_fields_def Let_def z_def [symmetric] e_def [symmetric] doe_def [symmetric] n_def [symmetric]
      k_def [symmetric] m_def [symmetric] d_def [symmetric] month_def [symmetric] by simp
  moreover have "days (n + e * 400 + (if month \<le> 2 then 1 else 0)) month d = v div day_ms"
    unfolding md(2) by (simp add: k_def doe_def z_def)
  ultimately show ?thesis using that md(1) by blast
qed

lemma utc_fields_eq:
  "utc_fields v = Some (y, m, d) \<longleftrightarrow> \<bar>v\<bar> \<le> time_clip \<and> valid_date y m d \<and> days y m d = v div day_ms"
proof (cases "\<bar>v\<bar> \<le> time_clip")
  case True
  then obtain y' m' d' where f: "utc_fields v = Some (y', m', d')" "valid_date y' m' d'" "days y' m' d' = v div day_ms"
    by (rule utc_fields_days)
  then show ?thesis using True days_inject [of y m d y' m' d'] by auto
next
  case False
  then show ?thesis by (simp add: utc_fields_def)
qed

lemma utc_fields_None: "utc_fields v = None \<longleftrightarrow> \<bar>v\<bar> > time_clip"
proof (cases "\<bar>v\<bar> \<le> time_clip")
  case True
  then show ?thesis by (rule utc_fields_days) (use True in auto)
next
  case False
  then show ?thesis by (simp add: utc_fields_def)
qed

lemma date_year_bound:
  assumes "valid_date y m d" "\<bar>days y m d\<bar> \<le> 100000000"
  shows "\<bar>y\<bar> \<le> 999999"
proof (rule ccontr)
  assume y: "\<not> ?thesis"
  define z where "z = (if m \<le> 2 then y - 1 else y)"
  define k where "k = (153 * (m + (if m > 2 then - 3 else 9)) + 2) div 5"
  have m: "1 \<le> m" "m \<le> 12" "1 \<le> d" "d \<le> 31" using assms(1) by (auto simp: valid_date_def month_length_def split: if_splits)
  then have k: "0 \<le> k" "k \<le> 337" unfolding k_def by (cases rule: month_cases; simp)+
  have e: "days y m d = 365 * z + z div 4 - z div 100 + z div 400 + k + d - 719469"
    by (simp add: days_eq year_days_def z_def k_def)
  show False
  proof (cases "0 \<le> y")
    case True
    then have z: "999999 \<le> z" using y by (auto simp: z_def)
    then have "z div 100 \<le> z div 4" "0 \<le> z div 400" by (auto intro: zdiv_mono2)
    then show False using e z k m assms(2) by linarith
  next
    case False
    then have z: "z \<le> - 1000000" using y by (auto simp: z_def)
    then have "z div 4 \<le> z div 100" "z div 400 \<le> 0" by (auto intro: zdiv_mono2_neg simp: div_nonpos_pos_le0)
    then show False using e z k m assms(2) by linarith
  qed
qed

definition next_date :: "int \<times> int \<times> int \<Rightarrow> int \<times> int \<times> int" where
  "next_date x =
     (case x of (y, m, d) \<Rightarrow>
        if d < month_length y m then (y, m, d + 1) else if m < 12 then (y, m + 1, 1) else (y + 1, 1, 1))"

lemma month_length_pos: "1 \<le> month_length y m"
  by (simp add: month_length_def)

lemma next_date_valid:
  "valid_date y m d \<Longrightarrow> (case next_date (y, m, d) of (y', m', d') \<Rightarrow> valid_date y' m' d' \<and> days y' m' d' = days y m d + 1)"
  using next_month [of m y] month_length_pos [of y "m + 1"] month_length_pos [of "y + 1" 1]
  by (auto simp: next_date_def valid_date_def days_month_start split: if_splits)

lemma month_start_bound:
  assumes "1200 \<le> t" "t < 12 * 275002"
  shows "- 800000 < month_start t" "month_start t < 99999900"
proof -
  have i: "12 * (t div 12) + (t mod 12 + 1) - 1 = t" by simp
  have v: "valid_date (t div 12) (t mod 12 + 1) 1" by (simp add: valid_date_def month_length_pos)
  have m: "month_start t = days (t div 12) (t mod 12 + 1) 1" by (simp add: month_start_def)
  have "days (t div 12) (t mod 12 + 1) 1 < days 275759 9 1" "days 1 1 1 < days (t div 12) (t mod 12 + 1) 1"
    using assms i by (intro days_less_month v; simp add: valid_date_def month_length_def leap_year_def)+
  moreover have "days 275759 9 1 < 99999900" "- 800000 < days 1 1 1" by (simp_all add: days_def)
  ultimately show "- 800000 < month_start t" "month_start t < 99999900" unfolding m by linarith+
qed

lemma month_clock_clip:
  fixes a k r :: int
  assumes "- 800000 < a" "a < 99999900" "0 \<le> r" "r < day_ms" "1 \<le> k" "k \<le> 31"
  shows "\<bar>(a + k - 1) * day_ms + r\<bar> \<le> time_clip"
  using assms by (simp add: abs_le_iff algebra_simps)

lemma utc_milliseconds_month:
  assumes "100 \<le> y" "y \<le> 275000" "0 \<le> m" "m \<le> 12" "0 \<le> d" "d \<le> 40"
  shows "utc_milliseconds y m d = Some ((month_start (12 * y + m) + d - 1) * day_ms)"
proof -
  have i: "(12 * y + m) div 12 = y + m div 12" "(12 * y + m) mod 12 = m mod 12" by simp_all
  have d: "days (y + m div 12) (m mod 12 + 1) d = month_start (12 * y + m) + d - 1"
    by (simp add: month_start_def i days_eq)
  have "\<bar>(month_start (12 * y + m) + d - 1) * day_ms\<bar> \<le> time_clip"
    using month_start_bound [of "12 * y + m"] assms by (simp add: abs_le_iff)
  then show ?thesis using assms(1) d by (simp add: utc_milliseconds_def Let_def)
qed

lemma month_end_fields:
  assumes "1200 \<le> t" "t < 12 * 275001"
  shows "utc_fields ((month_start (t + 1) - 1) * day_ms) = Some (t div 12, t mod 12 + 1, month_days t)"
proof -
  have i: "12 * (t div 12) + (t mod 12 + 1) - 1 = t" by simp
  have "valid_date (t div 12) (t mod 12 + 1) (month_days t)" by (simp add: valid_date_def month_length_pos month_days_def)
  moreover have "days (t div 12) (t mod 12 + 1) (month_days t) = month_start (t + 1) - 1"
    using days_month_start [of "t mod 12 + 1" "t div 12"] i by (simp add: month_start_step)
  moreover have "\<bar>(month_start (t + 1) - 1) * day_ms\<bar> \<le> time_clip"
    using month_start_bound [of "t + 1"] assms by (simp add: abs_le_iff)
  ultimately show ?thesis by (simp add: utc_fields_eq)
qed

text \<open>
  The calendar arithmetic is exact. Day numbers count from the epoch along the calendar (month lengths and leap
  years), one for each date; and \<open>utc_fields\<close> inverts them: for every millisecond of ECMAScript's range, and no
  other, it returns the one date of the calendar whose day number is the day of the millisecond.
\<close>

lemma calendar_exact:
  "(utc_fields v = Some (y, m, d) \<longleftrightarrow> \<bar>v\<bar> \<le> time_clip \<and> valid_date y m d \<and> days y m d = v div day_ms) \<and>
   days 1970 1 1 = 0 \<and>
   (valid_date y m d \<longrightarrow>
     (case next_date (y, m, d) of (y', m', d') \<Rightarrow> valid_date y' m' d' \<and> days y' m' d' = days y m d + 1))"
  using utc_fields_eq next_date_valid by (simp add: days_def)

end
