(* ===== verification/JsDate.thy ===== *)
theory JsDate
  imports Calendar
begin

text \<open>
  The date parser of the wire protocol (\<^verbatim>\<open>cantrip_server_rs/src/wire/js_date.rs\<close>): a scanner over UTF-16 units, the
  ISO reader and the fallback reader for other forms. The scanner's position is the rest of its input; a unit 0 ends
  the input, as in the source. Reading the wall clock of the host's time zone is code outside the sources: the
  parameter \<open>host\<close>, which gives the instant of a wall clock in milliseconds, or nothing where it has none.
\<close>

section \<open>Tokens and the scanner\<close>

datatype keyword = UnknownWord | MonthWord | ZoneWord | Separator | AmPm

datatype token = Number int nat | Symbol nat | Word keyword int nat | Space | UnknownToken | End

fun token_fixed :: "nat \<Rightarrow> token \<Rightarrow> int option" where
  "token_fixed n (Number v k) = (if k = n then Some v else None)"
| "token_fixed n _ = None"

fun token_number :: "token \<Rightarrow> int option" where
  "token_number (Number v _) = Some v"
| "token_number _ = None"

definition token_sign :: "token \<Rightarrow> int option" where
  "token_sign t = (if t = Symbol 43 then Some 1 else if t = Symbol 45 then Some (- 1) else None)"

definition token_z :: "token \<Rightarrow> bool" where
  "token_z t \<longleftrightarrow> t = Word ZoneWord 0 1"

definition current :: "nat list \<Rightarrow> nat" where
  "current xs = (case xs of [] \<Rightarrow> 0 | x # _ \<Rightarrow> x)"

definition word_space :: "nat \<Rightarrow> bool" where
  "word_space c \<longleftrightarrow> whitespace c \<and> c \<notin> {10, 13, 8232, 8233}"

definition word_unit :: "nat \<Rightarrow> bool" where
  "word_unit c \<longleftrightarrow> 65 \<le> c \<and> \<not> word_space c"

definition lower_unit :: "nat \<Rightarrow> nat" where
  "lower_unit c = (if 65 \<le> c \<and> c \<le> 90 then c + 32 else c)"

definition scan_number :: "nat list \<Rightarrow> token \<times> nat list" where
  "scan_number xs =
     (let zeros = takeWhile (\<lambda>c. c = 48) xs; rest = dropWhile (\<lambda>c. c = 48) xs; ds = takeWhile is_digit rest
      in (Number (int (digits_value (take 9 ds))) (length zeros + length ds), dropWhile is_digit rest))"

definition month_words :: "string list" where
  "month_words = [''jan'', ''feb'', ''mar'', ''apr'', ''may'', ''jun'', ''jul'', ''aug'', ''sep'', ''oct'', ''nov'', ''dec'']"

definition short_words :: "(string \<times> keyword \<times> int) list" where
  "short_words =
     [(''am'', AmPm, 0), (''pm'', AmPm, 12), (''ut'', ZoneWord, 0), (''utc'', ZoneWord, 0), (''z'', ZoneWord, 0),
      (''gmt'', ZoneWord, 0), (''cdt'', ZoneWord, - 5), (''cst'', ZoneWord, - 6), (''edt'', ZoneWord, - 4),
      (''est'', ZoneWord, - 5), (''mdt'', ZoneWord, - 6), (''mst'', ZoneWord, - 7), (''pdt'', ZoneWord, - 7),
      (''pst'', ZoneWord, - 8), (''t'', Separator, 0)]"

definition word_token :: "nat list \<Rightarrow> token" where
  "word_token w =
     (let prefix = map lower_unit (take 3 w)
      in case find_index_of (\<lambda>m. text_of m = prefix) month_words of
           Some i \<Rightarrow> Word MonthWord (int i + 1) (length w)
         | None \<Rightarrow>
             (case (if length w \<le> 3 then find (\<lambda>(s, _). text_of s = prefix) short_words else None) of
                Some (_, kind, v) \<Rightarrow> Word kind v (length w)
              | None \<Rightarrow> Word UnknownWord 0 (length w)))"

fun skip_parens :: "int \<Rightarrow> nat list \<Rightarrow> nat list" where
  "skip_parens balance [] = []"
| "skip_parens balance (x # xs) =
     (let b = (if x = 40 then balance + 1 else if x = 41 then balance - 1 else balance)
      in if b = 0 \<or> current xs = 0 then xs else skip_parens b xs)"

definition scan :: "nat list \<Rightarrow> token \<times> nat list" where
  "scan xs =
     (let c = current xs
      in if c = 0 then (End, xs)
         else if is_digit c then scan_number xs
         else if c \<in> {58, 45, 43, 46, 41} then (Symbol c, tl xs)
         else if word_unit c then (word_token (takeWhile word_unit xs), dropWhile word_unit xs)
         else if whitespace c then (Space, tl xs)
         else if c = 40 then (UnknownToken, skip_parens 0 xs)
         else (UnknownToken, tl xs))"

record js_day =
  day_parts :: "int list"
  day_month :: "int option"
  day_iso :: bool

record js_time =
  time_parts :: "int list"
  time_offset :: "int option"

record js_zone =
  zone_sign :: "int option"
  zone_hour :: "int option"
  zone_minute :: "int option"

record js_parser =
  ps_rest :: "nat list"
  ps_next :: token
  ps_day :: js_day
  ps_time :: js_time
  ps_zone :: js_zone

definition take_token :: "js_parser \<Rightarrow> token \<times> js_parser" where
  "take_token p = (case scan (ps_rest p) of (t, rest) \<Rightarrow> (ps_next p, p\<lparr>ps_next := t, ps_rest := rest\<rparr>))"

definition advance :: "js_parser \<Rightarrow> js_parser" where
  "advance p = snd (take_token p)"

definition skip_symbol :: "nat \<Rightarrow> js_parser \<Rightarrow> bool \<times> js_parser" where
  "skip_symbol s p = (if ps_next p = Symbol s then (True, advance p) else (False, p))"

section \<open>Day, time and zone\<close>

definition day_add :: "int \<Rightarrow> js_day \<Rightarrow> js_day option" where
  "day_add v d = (if length (day_parts d) = 3 then None else Some (d\<lparr>day_parts := day_parts d @ [v]\<rparr>))"

definition day_fields :: "js_day \<Rightarrow> (int \<times> int \<times> int) option" where
  "day_fields d =
     (if day_parts d = [] then None
      else
        let f = (\<lambda>i. if i < length (day_parts d) then day_parts d ! i else 1);
            small = (1 \<le> f 0 \<and> f 0 \<le> 31);
            (year, month, day) =
              (case day_month d of
                 Some m \<Rightarrow> if \<not> small then (f 0, m, f 1) else (f 1, m, f 0)
               | None \<Rightarrow> if day_iso d \<or> \<not> small then (f 0, f 1, f 2) else (f 2, f 0, f 1));
            year' = (if day_iso d then year
                     else if 0 \<le> year \<and> year \<le> 49 then year + 2000
                     else if 50 \<le> year \<and> year \<le> 99 then year + 1900 else year)
        in if 1 \<le> month \<and> month \<le> 12 \<and> 1 \<le> day \<and> day \<le> 31 then Some (year', month, day) else None)"

definition time_add :: "int \<Rightarrow> js_time \<Rightarrow> js_time option" where
  "time_add v t = (if length (time_parts t) = 4 then None else Some (t\<lparr>time_parts := time_parts t @ [v]\<rparr>))"

definition time_expecting :: "int \<Rightarrow> js_time \<Rightarrow> bool" where
  "time_expecting v t =
     (let n = length (time_parts t)
      in if n = 1 \<or> n = 2 then 0 \<le> v \<and> v \<le> 59 else if n = 3 then 0 \<le> v \<and> v \<le> 999 else False)"

definition time_finish :: "int \<Rightarrow> js_time \<Rightarrow> js_time" where
  "time_finish v t =
     (case time_add v t of
        None \<Rightarrow> t
      | Some t' \<Rightarrow> t'\<lparr>time_parts := take 4 (time_parts t' @ replicate 4 0)\<rparr>)"

definition time_fields :: "js_time \<Rightarrow> (int \<times> int \<times> int \<times> int) option" where
  "time_fields t =
     (let f = (\<lambda>i. if i < length (time_parts t) then time_parts t ! i else 0);
          hour = (case time_offset t of
                    None \<Rightarrow> Some (f 0)
                  | Some offset \<Rightarrow> if 0 \<le> f 0 \<and> f 0 \<le> 12 then Some (f 0 mod 12 + offset) else None)
      in case hour of
           None \<Rightarrow> None
         | Some h \<Rightarrow>
             if (0 \<le> h \<and> h \<le> 23 \<and> 0 \<le> f 1 \<and> f 1 \<le> 59 \<and> 0 \<le> f 2 \<and> f 2 \<le> 59 \<and> 0 \<le> f 3 \<and> f 3 \<le> 999) \<or>
                (h, f 1, f 2, f 3) = (24, 0, 0, 0)
             then Some (h, f 1, f 2, f 3) else None)"

definition zone_set :: "int \<Rightarrow> js_zone \<Rightarrow> js_zone" where
  "zone_set offset z =
     z\<lparr>zone_sign := Some (if offset < 0 then - 1 else 1), zone_hour := Some \<bar>offset\<bar>, zone_minute := Some 0\<rparr>"

definition zone_utc :: "js_zone \<Rightarrow> bool" where
  "zone_utc z \<longleftrightarrow> zone_hour z = Some 0 \<and> zone_minute z = Some 0"

definition zone_expecting :: "int \<Rightarrow> js_zone \<Rightarrow> bool" where
  "zone_expecting v z \<longleftrightarrow> zone_hour z \<noteq> None \<and> zone_minute z = None \<and> 0 \<le> v \<and> v \<le> 59"

abbreviation (input) u32_size :: int where "u32_size \<equiv> 4294967296"

definition zone_seconds :: "js_zone \<Rightarrow> int option option" where
  "zone_seconds z =
     (case zone_sign z of
        None \<Rightarrow> Some None
      | Some sign \<Rightarrow>
          let total = (the_default 0 (zone_hour z) * 3600 + the_default 0 (zone_minute z) * 60) mod u32_size
          in if total \<le> 2147483647 then Some (Some (total * sign)) else None)"

definition token_milliseconds :: "int \<Rightarrow> nat \<Rightarrow> int" where
  "token_milliseconds v n = (if n = 1 then v * 100 else if n = 2 then v * 10 else if n = 3 then v else v div 10 ^ (min n 9 - 3))"

section \<open>The ISO reader\<close>

text \<open>
  The ISO reader leaves early with the token at which the fallback reader goes on, or fails; both are the error side
  of a result, so that the source's early returns are \<open>rbind\<close>.
\<close>

type_synonym iso_exit = "(token \<times> js_parser) option"

definition leave :: "js_parser \<Rightarrow> (iso_exit, 'a) result" where
  "leave p = Inl (Some (take_token p))"

definition in_range :: "int \<Rightarrow> int \<Rightarrow> int option \<Rightarrow> int option" where
  "in_range a b v = (case v of None \<Rightarrow> None | Some n \<Rightarrow> if a \<le> n \<and> n \<le> b then Some n else None)"

definition push_day :: "int \<Rightarrow> js_parser \<Rightarrow> js_parser" where
  "push_day v p = p\<lparr>ps_day := the_default (ps_day p) (day_add v (ps_day p))\<rparr>"

definition push_time :: "int \<Rightarrow> js_parser \<Rightarrow> js_parser" where
  "push_time v p = p\<lparr>ps_time := the_default (ps_time p) (time_add v (ps_time p))\<rparr>"

definition iso_read_year :: "js_parser \<Rightarrow> (iso_exit, js_parser) result" where
  "iso_read_year p =
     (case token_sign (ps_next p) of
        Some sign \<Rightarrow>
          (case take_token p of (sign_token, p1) \<Rightarrow>
             case token_fixed 6 (ps_next p1) of
               None \<Rightarrow> Inl (Some (sign_token, p1))
             | Some year \<Rightarrow>
                 let p2 = advance p1
                 in if sign < 0 \<and> year = 0 then Inl (Some (sign_token, p2)) else Inr (push_day (sign * year) p2))
      | None \<Rightarrow>
          (case token_fixed 4 (ps_next p) of
             Some year \<Rightarrow> Inr (advance (push_day year p))
           | None \<Rightarrow> leave p))"

definition iso_read_date :: "js_parser \<Rightarrow> (iso_exit, js_parser) result" where
  "iso_read_date p =
     (case skip_symbol 45 p of
        (False, p1) \<Rightarrow> Inr p1
      | (True, p1) \<Rightarrow>
          (case in_range 1 12 (token_fixed 2 (ps_next p1)) of
             None \<Rightarrow> leave p1
           | Some month \<Rightarrow>
               (case skip_symbol 45 (advance (push_day month p1)) of
                  (False, p2) \<Rightarrow> Inr p2
                | (True, p2) \<Rightarrow>
                    (case in_range 1 31 (token_fixed 2 (ps_next p2)) of
                       None \<Rightarrow> leave p2
                     | Some date \<Rightarrow> Inr (advance (push_day date p2))))))"

definition iso_read_number :: "int \<Rightarrow> (int \<Rightarrow> bool) \<Rightarrow> js_parser \<Rightarrow> (iso_exit, int \<times> js_parser) result" where
  "iso_read_number bound ok p =
     (case in_range 0 bound (token_fixed 2 (ps_next p)) of
        None \<Rightarrow> Inl None
      | Some n \<Rightarrow> if ok n then Inr (n, advance (push_time n p)) else Inl None)"

definition expect_symbol :: "nat \<Rightarrow> js_parser \<Rightarrow> (iso_exit, js_parser) result" where
  "expect_symbol c p = (case skip_symbol c p of (True, p') \<Rightarrow> Inr p' | (False, _) \<Rightarrow> Inl None)"

definition iso_read_seconds :: "int \<Rightarrow> js_parser \<Rightarrow> (iso_exit, js_parser) result" where
  "iso_read_seconds hour p =
     (case skip_symbol 58 p of
        (False, p1) \<Rightarrow> Inr p1
      | (True, p1) \<Rightarrow>
          rbind (iso_read_number 59 (\<lambda>n. hour \<noteq> 24 \<or> n = 0) p1) (\<lambda>(_, p2).
            case skip_symbol 46 p2 of
              (False, p3) \<Rightarrow> Inr p3
            | (True, p3) \<Rightarrow>
                (case ps_next p3 of
                   Number v n \<Rightarrow>
                     if hour \<noteq> 24 \<or> v = 0 then Inr (push_time (token_milliseconds v n) (advance p3)) else Inl None
                 | _ \<Rightarrow> Inl None)))"

definition iso_read_zone :: "js_parser \<Rightarrow> (iso_exit, js_parser) result" where
  "iso_read_zone p =
     (if token_z (ps_next p) then Inr ((advance p)\<lparr>ps_zone := zone_set 0 (ps_zone p)\<rparr>)
      else case token_sign (ps_next p) of
        None \<Rightarrow> Inr p
      | Some sign \<Rightarrow>
          let p1 = (advance p)\<lparr>ps_zone := (ps_zone p)\<lparr>zone_sign := Some sign\<rparr>\<rparr>
          in case token_fixed 4 (ps_next p1) of
               Some v \<Rightarrow>
                 if v div 100 > 23 \<or> v mod 100 > 59 then Inl None
                 else Inr ((advance p1)\<lparr>ps_zone := (ps_zone p1)\<lparr>zone_hour := Some (v div 100), zone_minute := Some (v mod 100)\<rparr>\<rparr>)
             | None \<Rightarrow>
                 rbind (ok_or None (in_range 0 23 (token_fixed 2 (ps_next p1)))) (\<lambda>hour.
                   rbind (expect_symbol 58 (advance p1)) (\<lambda>p2.
                     rbind (ok_or None (in_range 0 59 (token_fixed 2 (ps_next p2)))) (\<lambda>minute.
                       Inr ((advance p2)\<lparr>ps_zone :=
                         (ps_zone p2)\<lparr>zone_hour := Some hour, zone_minute := Some minute\<rparr>\<rparr>)))))"

definition is_separator :: "token \<Rightarrow> bool" where
  "is_separator t = (case t of Word Separator _ _ \<Rightarrow> True | _ \<Rightarrow> False)"

definition iso_read_clock :: "js_parser \<Rightarrow> (iso_exit, js_parser) result" where
  "iso_read_clock p =
     (if \<not> is_separator (ps_next p) then (if ps_next p \<noteq> End then leave p else Inr p)
      else
        rbind (iso_read_number 24 (\<lambda>_. True) (advance p)) (\<lambda>(hour, p1).
          rbind (expect_symbol 58 p1) (\<lambda>p2.
            rbind (iso_read_number 59 (\<lambda>n. hour \<noteq> 24 \<or> n = 0) p2) (\<lambda>(_, p3).
              rbind (iso_read_seconds hour p3) (\<lambda>p4.
                rbind (iso_read_zone p4) (\<lambda>p5.
                  if ps_next p5 \<noteq> End then Inl None else Inr p5))))))"

definition iso_read :: "js_parser \<Rightarrow> (token \<times> js_parser) option" where
  "iso_read p =
     (case rbind (iso_read_year p) (\<lambda>p1. rbind (iso_read_date p1) iso_read_clock) of
        Inl e \<Rightarrow> e
      | Inr p' \<Rightarrow>
          let p'' = (if zone_hour (ps_zone p') = None \<and> time_parts (ps_time p') = []
                     then p'\<lparr>ps_zone := zone_set 0 (ps_zone p')\<rparr> else p')
          in Some (End, p''\<lparr>ps_day := (ps_day p'')\<lparr>day_iso := True\<rparr>\<rparr>))"

section \<open>The fallback reader\<close>

type_synonym js_loop = "bool \<times> js_parser"

definition after_time :: "token \<Rightarrow> bool" where
  "after_time t \<longleftrightarrow> t = End \<or> t = Space \<or> token_z t \<or> token_sign t \<noteq> None"

definition number_step :: "int \<Rightarrow> js_parser \<Rightarrow> js_parser option" where
  "number_step v p =
     (case skip_symbol 58 p of
        (True, p1) \<Rightarrow>
          (case skip_symbol 58 p1 of
             (True, p2) \<Rightarrow> if time_parts (ps_time p2) \<noteq> [] then None else Some (push_time 0 (push_time v p2))
           | (False, p2) \<Rightarrow>
               (case time_add v (ps_time p2) of
                  None \<Rightarrow> None
                | Some t \<Rightarrow> Some (snd (skip_symbol 46 (p2\<lparr>ps_time := t\<rparr>)))))
      | (False, p1) \<Rightarrow>
          (case skip_symbol 46 p1 of (dot, p2) \<Rightarrow>
             if dot \<and> time_expecting v (ps_time p2)
             then (case ps_next p2 of
                     Number w n \<Rightarrow>
                       let p3 = advance (push_time v p2)
                       in Some (p3\<lparr>ps_time := time_finish (token_milliseconds w n) (ps_time p3)\<rparr>)
                   | _ \<Rightarrow> None)
             else if zone_expecting v (ps_zone p2) then Some (p2\<lparr>ps_zone := (ps_zone p2)\<lparr>zone_minute := Some v\<rparr>\<rparr>)
             else if time_expecting v (ps_time p2)
             then (if after_time (ps_next p2) then Some (p2\<lparr>ps_time := time_finish v (ps_time p2)\<rparr>) else None)
             else (case day_add v (ps_day p2) of
                     None \<Rightarrow> None
                   | Some d \<Rightarrow> Some (snd (skip_symbol 45 (p2\<lparr>ps_day := d\<rparr>))))))"

definition word_step :: "keyword \<Rightarrow> int \<Rightarrow> js_loop \<Rightarrow> js_loop option" where
  "word_step kind v s =
     (case s of (has_number, p) \<Rightarrow>
        if kind = AmPm \<and> time_parts (ps_time p) \<noteq> []
        then Some (has_number, p\<lparr>ps_time := (ps_time p)\<lparr>time_offset := Some v\<rparr>\<rparr>)
        else if kind = MonthWord
        then Some (has_number, snd (skip_symbol 45 (p\<lparr>ps_day := (ps_day p)\<lparr>day_month := Some v\<rparr>\<rparr>)))
        else if kind = ZoneWord \<and> has_number then Some (has_number, p\<lparr>ps_zone := zone_set v (ps_zone p)\<rparr>)
        else if has_number \<or> token_number (ps_next p) \<noteq> None then None
        else Some s)"

definition sign_step :: "token \<Rightarrow> js_parser \<Rightarrow> js_parser option" where
  "sign_step t p =
     (let p0 = p\<lparr>ps_zone := (ps_zone p)\<lparr>zone_sign := token_sign t\<rparr>\<rparr>;
          (number, n, p1) = (case ps_next p0 of Number v k \<Rightarrow> (v, k, advance p0) | _ \<Rightarrow> (0, 0, p0))
      in if ps_next p1 = Symbol 58
         then Some (p1\<lparr>ps_zone := (ps_zone p1)\<lparr>zone_hour := Some number, zone_minute := None\<rparr>\<rparr>)
         else if n = 1 \<or> n = 2
         then Some (p1\<lparr>ps_zone := (ps_zone p1)\<lparr>zone_hour := Some number, zone_minute := Some 0\<rparr>\<rparr>)
         else if n = 3 \<or> n = 4
         then Some (p1\<lparr>ps_zone := (ps_zone p1)\<lparr>zone_hour := Some (number div 100), zone_minute := Some (number mod 100)\<rparr>\<rparr>)
         else None)"

definition parse_step :: "token \<Rightarrow> js_loop \<Rightarrow> js_loop option" where
  "parse_step t s =
     (case s of (has_number, p) \<Rightarrow>
        case t of
          Number v _ \<Rightarrow> map_option (Pair True) (number_step v p)
        | Word kind v _ \<Rightarrow> word_step kind v s
        | _ \<Rightarrow>
            if token_sign t \<noteq> None \<and> (zone_utc (ps_zone p) \<or> time_parts (ps_time p) \<noteq> [])
            then map_option (Pair True) (sign_step t p)
            else if has_number \<and> (token_sign t \<noteq> None \<or> t = Symbol 41) then None
            else Some s)"

section \<open>Every token consumes input\<close>

definition scan_size :: "js_parser \<Rightarrow> nat" where
  "scan_size p = length (ps_rest p) + (if ps_next p = End then 0 else 1)"

lemma skip_parens_length: "length (skip_parens b xs) \<le> length xs"
  by (induction b xs rule: skip_parens.induct) (auto simp: Let_def)

lemma word_unit_pos: "word_unit c \<Longrightarrow> 65 \<le> c"
  by (simp add: word_unit_def)

lemma scan_shorter:
  assumes "scan xs = (t, ys)" "t \<noteq> End"
  shows "length ys < length xs"
proof (cases xs)
  case Nil
  then show ?thesis using assms by (auto simp: scan_def current_def)
next
  case (Cons c zs)
  have "length (dropWhile is_digit (dropWhile (\<lambda>c. c = 48) xs)) < length xs" if "is_digit c"
    using that Cons le_less_trans [OF length_dropWhile_le length_dropWhile_le [THEN le_imp_less_Suc]]
    by (auto simp: length_dropWhile_le le_imp_less_Suc)
  moreover have "length (skip_parens 0 (40 # zs)) \<le> length zs"
    using skip_parens_length [of 1 zs] by (simp add: Let_def)
  ultimately show ?thesis
    using assms Cons length_dropWhile_le [of word_unit zs]
    by (auto simp: scan_def scan_number_def current_def Let_def le_imp_less_Suc split: if_splits)
qed

lemma word_token_not_End: "word_token w \<noteq> End"
  by (auto simp: word_token_def Let_def split: option.splits)

lemma scan_End: "scan xs = (End, ys) \<longleftrightarrow> current xs = 0 \<and> ys = xs"
  using word_token_not_End by (auto simp: scan_def scan_number_def Let_def)

lemma scan_size_le: "scan xs = (t, ys) \<Longrightarrow> length ys + (if t = End then 0 else 1) \<le> length xs"
  using scan_shorter [of xs t ys] by (cases "t = End") (auto simp: scan_End)

lemma take_token_size:
  assumes "take_token p = (t, q)"
  shows "scan_size q \<le> length (ps_rest p)" "t = ps_next p"
  using assms scan_size_le [of "ps_rest p"] by (auto simp: take_token_def scan_size_def split: prod.splits)

lemma advance_size: "scan_size (advance p) \<le> scan_size p"
  using take_token_size [of p] by (cases "take_token p") (fastforce simp: advance_def scan_size_def)

lemma scan_size_fields [simp]:
  "scan_size (p\<lparr>ps_day := d\<rparr>) = scan_size p" "scan_size (p\<lparr>ps_time := t\<rparr>) = scan_size p"
  "scan_size (p\<lparr>ps_zone := z\<rparr>) = scan_size p"
  by (simp_all add: scan_size_def)

lemma scan_size_push [simp]: "scan_size (push_day v p) = scan_size p" "scan_size (push_time v p) = scan_size p"
  by (simp_all add: push_day_def push_time_def)

lemma skip_symbol_size: "scan_size (snd (skip_symbol c p)) \<le> scan_size p"
  using advance_size by (simp add: skip_symbol_def)

lemma skip_symbol_size': "skip_symbol c p = (b, q) \<Longrightarrow> scan_size q \<le> scan_size p"
  using skip_symbol_size [of c p] by simp

lemma number_step_size:
  assumes "number_step v p = Some q"
  shows "scan_size q \<le> scan_size p"
proof -
  obtain b1 p1 where 1: "skip_symbol 58 p = (b1, p1)" by force
  obtain b2 p2 where 2: "skip_symbol (if b1 then 58 else 46) p1 = (b2, p2)" by force
  have "scan_size q \<le> scan_size p2"
    using assms 1 2 order_trans [OF skip_symbol_size] order_trans [OF advance_size]
    by (cases b1; cases b2) (auto simp: number_step_def Let_def split: if_splits option.splits token.splits)
  then show ?thesis using skip_symbol_size' [OF 1] skip_symbol_size' [OF 2] by simp
qed

lemma word_step_size: "word_step k v (b, p) = Some (c, q) \<Longrightarrow> scan_size q \<le> scan_size p"
  using skip_symbol_size [of 45 "p\<lparr>ps_day := (ps_day p)\<lparr>day_month := Some v\<rparr>\<rparr>"] by (auto simp: word_step_def split: if_splits)

lemma sign_step_size:
  assumes "sign_step t p = Some q"
  shows "scan_size q \<le> scan_size p"
proof -
  define p0 where "p0 = p\<lparr>ps_zone := (ps_zone p)\<lparr>zone_sign := token_sign t\<rparr>\<rparr>"
  obtain v n p1 where 1: "(case ps_next p0 of Number v k \<Rightarrow> (v, k, advance p0) | _ \<Rightarrow> (0, 0, p0)) = (v, n, p1)"
    by (metis prod_cases3)
  then have "scan_size p1 \<le> scan_size p0" using advance_size [of p0] by (auto split: token.splits)
  moreover have "scan_size q = scan_size p1" using assms 1 by (auto simp: sign_step_def p0_def [symmetric] split: if_splits)
  ultimately show ?thesis by (simp add: p0_def)
qed

lemma parse_step_size: "parse_step t (b, p) = Some (c, q) \<Longrightarrow> scan_size q \<le> scan_size p"
  using number_step_size word_step_size sign_step_size
  by (cases t) (fastforce simp: parse_step_def split: if_splits)+

lemma parse_round_size:
  assumes "t \<noteq> End" "parse_step t s = Some (b, p)" "take_token p = (t', q)"
  shows "scan_size q + (if t' = End then 0 else 1) < scan_size (snd s) + 1"
proof -
  have "scan_size p \<le> scan_size (snd s)" using parse_step_size [of t "fst s" "snd s"] assms(2) by simp
  moreover have "scan_size q \<le> length (ps_rest p)" "t' = ps_next p" using take_token_size [OF assms(3)] by auto
  ultimately show ?thesis by (auto simp: scan_size_def split: if_splits)
qed

section \<open>The loop and the parser\<close>

text \<open>The loop ends: every round takes a token, and a token other than the end consumes input.\<close>

function parse_loop :: "token \<Rightarrow> js_loop \<Rightarrow> js_parser option" where
  "parse_loop t s =
     (if t = End then Some (snd s)
      else case parse_step t s of
        None \<Rightarrow> None
      | Some (has_number, p) \<Rightarrow> (case take_token p of (t', p') \<Rightarrow> parse_loop t' (has_number, p')))"
  by pat_completeness auto

termination
  by (relation "measure (\<lambda>(t, s). scan_size (snd s) + (if t = End then 0 else 1))") (use parse_round_size in \<open>fastforce+\<close>)

declare parse_loop.simps [simp del]

definition fits_i64 :: "int \<Rightarrow> bool" where
  "fits_i64 v \<longleftrightarrow> - 9223372036854775808 \<le> v \<and> v \<le> 9223372036854775807"

definition clock_ms :: "int \<times> int \<times> int \<times> int \<Rightarrow> int" where
  "clock_ms c = (case c of (h, m, s, ms) \<Rightarrow> h * 3600000 + m * 60000 + s * 1000 + ms)"

definition lookup_year :: "int \<Rightarrow> int" where
  "lookup_year year =
     (if year > 9998 then year mod 400 + 2400 else if year < - 9998 then year mod 400 - 9600 else year)"

definition local_instant :: "(int \<Rightarrow> int option) \<Rightarrow> int \<Rightarrow> int \<Rightarrow> int \<Rightarrow> int \<Rightarrow> int \<times> int \<times> int \<times> int \<Rightarrow> int option" where
  "local_instant host value year month day clock =
     (let lookup = days (lookup_year year) month day * day_ms + clock_ms clock
      in if \<not> fits_i64 lookup then None
         else case host lookup of
           None \<Rightarrow> None
         | Some utc \<Rightarrow>
             if fits_i64 value \<and> fits_i64 (value - (lookup - utc)) then Some (value - (lookup - utc)) else None)"

definition parser_new :: "nat list \<Rightarrow> js_parser" where
  "parser_new input =
     (case scan input of (t, rest) \<Rightarrow>
        \<lparr>ps_rest = rest, ps_next = t, ps_day = \<lparr>day_parts = [], day_month = None, day_iso = False\<rparr>,
         ps_time = \<lparr>time_parts = [], time_offset = None\<rparr>,
         ps_zone = \<lparr>zone_sign = None, zone_hour = None, zone_minute = None\<rparr>\<rparr>)"

definition finish_date :: "(int \<Rightarrow> int option) \<Rightarrow> js_parser \<Rightarrow> int option" where
  "finish_date host p =
     (case (day_fields (ps_day p), time_fields (ps_time p), zone_seconds (ps_zone p)) of
        (Some (year, month, date), Some clock, Some offset) \<Rightarrow>
          let value = days year month date * day_ms + clock_ms clock;
              instant = (case offset of
                           Some o' \<Rightarrow> if fits_i64 (value - o' * 1000) then Some (value - o' * 1000) else None
                         | None \<Rightarrow> local_instant host value year month date clock)
          in case instant of
               None \<Rightarrow> None
             | Some v \<Rightarrow> if - time_clip \<le> v \<and> v \<le> time_clip then Some v else None
      | _ \<Rightarrow> None)"

definition parse_date :: "(int \<Rightarrow> int option) \<Rightarrow> nat list \<Rightarrow> int option" where
  "parse_date host input =
     (case iso_read (parser_new input) of
        None \<Rightarrow> None
      | Some (t, p) \<Rightarrow>
          (case parse_loop t (day_parts (ps_day p) \<noteq> [], p) of
             None \<Rightarrow> None
           | Some q \<Rightarrow> finish_date host q))"

section \<open>Scanning a printed date\<close>

lemma takeWhile_digits: "\<forall>c \<in> set ds. is_digit c \<Longrightarrow> \<not> is_digit (current xs) \<Longrightarrow> takeWhile is_digit (ds @ xs) = ds"
  by (cases xs) (auto simp: current_def takeWhile_append)

lemma dropWhile_digits: "\<forall>c \<in> set ds. is_digit c \<Longrightarrow> \<not> is_digit (current xs) \<Longrightarrow> dropWhile is_digit (ds @ xs) = xs"
  by (cases xs) (auto simp: current_def dropWhile_append)

lemma zeros_then:
  assumes "ds = [] \<or> hd ds \<noteq> 48" "ds = [] \<Longrightarrow> current xs \<noteq> 48"
  shows "takeWhile (\<lambda>c. c = 48) (replicate n 48 @ ds @ xs) = replicate n 48"
    "dropWhile (\<lambda>c. c = 48) (replicate n 48 @ ds @ xs) = ds @ xs"
  using assms by (cases ds; cases xs; force simp: current_def takeWhile_append dropWhile_append)+

text \<open>A padded number of at most nine significant digits is read back with its width.\<close>

lemma scan_padded:
  assumes w: "0 < w" "w \<le> 9" and n: "n < 10 ^ w" and x: "\<not> is_digit (current xs)"
  shows "scan (zero_padded w n @ xs) = (Number (int n) w, xs)"
proof -
  obtain k ds where z: "zero_padded w n = replicate k 48 @ ds" "ds = [] \<or> hd ds \<noteq> 48" "digits_value ds = n" "length ds \<le> w" "k + length ds = w"
    "\<forall>c \<in> set ds. is_digit c"
  proof (cases "n = 0")
    case True
    then have "zero_padded w n = replicate w 48 @ []"
      using w by (cases w) (simp_all add: zero_padded_def decimal_digits_small replicate_append_same)
    then show ?thesis using that [of w "[]"] True by simp
  next
    case False
    let ?ds = "decimal_digits n"
    have "length ?ds \<le> w" using decimal_digits_length [OF w(1)] n by simp
    moreover have "hd ?ds \<noteq> 48" using decimal_digits_head [of n] False by auto
    ultimately show ?thesis
      using that [of "w - length ?ds" ?ds] decimal_digits_digit [of _ n] by (simp add: zero_padded_def)
  qed
  have x': "current xs \<noteq> 48" using x by (auto simp: is_digit_def)
  have "zero_padded w n \<noteq> []" using z(1,5) w by auto
  then have "is_digit (current (zero_padded w n @ xs))"
    using zero_padded_digit [of _ w n] by (cases "zero_padded w n") (auto simp: current_def)
  moreover have "scan_number (zero_padded w n @ xs) = (Number (int n) w, xs)"
    using zeros_then [OF z(2) x'] takeWhile_digits [OF z(6) x] dropWhile_digits [OF z(6) x] z(3,4,5) w(2)
    by (simp add: scan_number_def z(1) Let_def)
  moreover have "c \<noteq> 0" if "is_digit c" for c using that by (auto simp: is_digit_def)
  ultimately show ?thesis unfolding scan_def Let_def by simp
qed

lemma scan_symbol: "c \<in> {58, 45, 43, 46, 41} \<Longrightarrow> scan (c # xs) = (Symbol c, xs)"
  by (auto simp: scan_def current_def is_digit_def Let_def)

lemma scan_separator: "is_digit (current xs) \<Longrightarrow> scan (84 # xs) = (Word Separator 0 1, xs)"
  by (cases xs) (auto simp: scan_def current_def is_digit_def Let_def word_unit_def word_space_def whitespace_def
    word_token_def lower_unit_def month_words_def short_words_def text_of_def find_index_of_def)

lemma scan_zulu: "scan [90] = (Word ZoneWord 0 1, [])"
  by (simp add: scan_def current_def is_digit_def Let_def word_unit_def word_space_def whitespace_def
    word_token_def lower_unit_def month_words_def short_words_def text_of_def find_index_of_def)

definition parser_at :: "nat list \<Rightarrow> token \<Rightarrow> int list \<Rightarrow> int list \<Rightarrow> js_parser" where
  "parser_at rest t ds ts =
     \<lparr>ps_rest = rest, ps_next = t, ps_day = \<lparr>day_parts = ds, day_month = None, day_iso = False\<rparr>,
      ps_time = \<lparr>time_parts = ts, time_offset = None\<rparr>, ps_zone = \<lparr>zone_sign = None, zone_hour = None, zone_minute = None\<rparr>\<rparr>"

lemma parser_at_simps [simp]:
  "ps_next (parser_at r t ds ts) = t"
  "take_token (parser_at r t ds ts) = (t, parser_at (snd (scan r)) (fst (scan r)) ds ts)"
  "advance (parser_at r t ds ts) = parser_at (snd (scan r)) (fst (scan r)) ds ts"
  "length ds \<noteq> 3 \<Longrightarrow> push_day v (parser_at r t ds ts) = parser_at r t (ds @ [v]) ts"
  "length ts \<noteq> 4 \<Longrightarrow> push_time v (parser_at r t ds ts) = parser_at r t ds (ts @ [v])"
  "time_parts (ps_time (parser_at r t ds ts)) = ts"
  "ps_zone (parser_at r t ds ts) = \<lparr>zone_sign = None, zone_hour = None, zone_minute = None\<rparr>"
  by (simp_all add: parser_at_def advance_def take_token_def push_day_def push_time_def day_add_def time_add_def split: prod.split)

lemma parser_new_at: "parser_new xs = parser_at (snd (scan xs)) (fst (scan xs)) [] []"
  by (simp add: parser_new_def parser_at_def split: prod.split)

lemma skip_parser_at [simp]:
  "skip_symbol c (parser_at r (Symbol c) ds ts) = (True, parser_at (snd (scan r)) (fst (scan r)) ds ts)"
  by (simp add: skip_symbol_def)

lemma not_digit_symbol: "current (c # xs) = c" "\<not> is_digit 45" "\<not> is_digit 58" "\<not> is_digit 46" "\<not> is_digit 84" "\<not> is_digit 90"
  by (simp_all add: is_digit_def current_def)

lemma padded_starts_digit: "0 < w \<Longrightarrow> is_digit (current (zero_padded w n @ xs))"
proof -
  assume "0 < w"
  then have "zero_padded w n \<noteq> []" by (auto simp: zero_padded_def decimal_digits.simps [of n])
  then show ?thesis using zero_padded_digit [of _ w n] by (cases "zero_padded w n") (auto simp: current_def)
qed

lemmas scan_print = scan_padded scan_symbol scan_separator scan_zulu padded_starts_digit not_digit_symbol

lemma iso_year_read:
  assumes "\<bar>y\<bar> \<le> 999999"
  shows "iso_read_year (parser_new (iso_year y @ 45 # xs)) = Inr (parser_at xs (Symbol 45) [y] [])"
  using assms by (auto simp: parser_new_at iso_year_def iso_read_year_def scan_print token_sign_def Let_def split: if_splits)

lemma iso_date_read:
  assumes "1 \<le> m" "m \<le> 12" "1 \<le> d" "d \<le> 31" "is_digit (current xs)"
  shows "iso_read_date (parser_at (zero_padded 2 (nat m) @ 45 # zero_padded 2 (nat d) @ 84 # xs) (Symbol 45) [y] []) =
    Inr (parser_at xs (Word Separator 0 1) [y, m, d] [])"
  using assms by (simp add: iso_read_date_def scan_print in_range_def)

lemma iso_clock_read:
  fixes h mi sec ms :: nat
  assumes "h \<le> 23" "mi \<le> 59" "sec \<le> 59" "ms \<le> 999"
  shows "iso_read_clock (parser_at (zero_padded 2 h @ 58 # zero_padded 2 mi @ 58 # zero_padded 2 sec @ 46 # zero_padded 3 ms @ [90])
      (Word Separator 0 1) ds []) =
    Inr ((parser_at [] End ds [int h, int mi, int sec, int ms])\<lparr>ps_zone := zone_set 0 \<lparr>zone_sign = None, zone_hour = None, zone_minute = None\<rparr>\<rparr>)"
proof -
  have "scan [] = (End, [])" by (simp add: scan_def current_def)
  then show ?thesis
    using assms
    by (simp add: iso_read_clock_def is_separator_def scan_print iso_read_number_def in_range_def expect_symbol_def iso_read_seconds_def
      iso_read_zone_def token_z_def token_milliseconds_def)
qed

lemma iso_text_fields:
  assumes "iso_milliseconds v = Some xs"
  obtains y m d where "valid_date y m d" "days y m d * day_ms + v mod day_ms = v" "\<bar>v\<bar> \<le> time_clip" "\<bar>y\<bar> \<le> 999999"
    "xs = (let c = nat (v mod day_ms) in iso_year y @ 45 # zero_padded 2 (nat m) @ 45 # zero_padded 2 (nat d) @
      84 # zero_padded 2 (c div 3600000) @ 58 # zero_padded 2 (c div 60000 mod 60) @
      58 # zero_padded 2 (c div 1000 mod 60) @ 46 # zero_padded 3 (c mod 1000) @ [90])"
proof -
  obtain y m d where f: "utc_fields v = Some (y, m, d)" using assms by (auto simp: iso_milliseconds_def split: option.splits)
  then have g: "\<bar>v\<bar> \<le> time_clip" "valid_date y m d" "days y m d = v div day_ms" by (auto simp: utc_fields_eq)
  have "\<bar>v div day_ms\<bar> \<le> 100000000" using g(1) div_mult_mod_eq [of v day_ms] pos_mod_bound [of day_ms v] pos_mod_sign [of day_ms v] by linarith
  then have "\<bar>y\<bar> \<le> 999999" using date_year_bound [OF g(2)] g(3) by simp
  then show ?thesis using that [OF g(2)] g assms f by (simp add: iso_milliseconds_def Let_def)
qed

lemma clock_parts:
  fixes c :: nat
  assumes "c < 86400000"
  shows "c div 3600000 \<le> 23" "c div 60000 mod 60 \<le> 59" "c div 1000 mod 60 \<le> 59" "c mod 1000 \<le> 999"
    "clock_ms (int (c div 3600000), int (c div 60000 mod 60), int (c div 1000 mod 60), int (c mod 1000)) = int c"
proof -
  have a: "c div 60000 div 60 = c div 3600000" "c div 1000 div 60 = c div 60000" by (simp_all add: div_mult2_eq [symmetric])
  have b: "c div 60000 = 60 * (c div 3600000) + c div 60000 mod 60" "c div 1000 = 60 * (c div 60000) + c div 1000 mod 60"
    "c = 1000 * (c div 1000) + c mod 1000" unfolding a [symmetric] by simp_all
  show "c div 3600000 \<le> 23" using less_mult_imp_div_less [of c 24 3600000] assms by simp
  show "c div 60000 mod 60 \<le> 59" "c div 1000 mod 60 \<le> 59" "c mod 1000 \<le> 999"
    using mod_less_divisor [of 60 "c div 60000"] mod_less_divisor [of 60 "c div 1000"] mod_less_divisor [of 1000 c] by linarith+
  have "c div 3600000 * 3600000 + c div 60000 mod 60 * 60000 + c div 1000 mod 60 * 1000 + c mod 1000 = c" using b by linarith
  then show "clock_ms (int (c div 3600000), int (c div 60000 mod 60), int (c div 1000 mod 60), int (c mod 1000)) = int c"
    unfolding clock_ms_def prod.case by (metis (no_types, opaque_lifting) of_nat_add of_nat_mult of_nat_numeral)
qed

lemma parse_printed:
  assumes "iso_milliseconds v = Some xs"
  shows "parse_date host xs = Some v"
proof -
  obtain y m d where f: "valid_date y m d" "days y m d * day_ms + v mod day_ms = v" "\<bar>v\<bar> \<le> time_clip" "\<bar>y\<bar> \<le> 999999"
    and xs: "xs = (let c = nat (v mod day_ms) in iso_year y @ 45 # zero_padded 2 (nat m) @ 45 # zero_padded 2 (nat d) @
      84 # zero_padded 2 (c div 3600000) @ 58 # zero_padded 2 (c div 60000 mod 60) @
      58 # zero_padded 2 (c div 1000 mod 60) @ 46 # zero_padded 3 (c mod 1000) @ [90])"
    by (rule iso_text_fields [OF assms])
  define c where "c = nat (v mod day_ms)"
  have c: "c < 86400000" "int c = v mod day_ms" by (simp_all add: c_def nat_less_iff)
  note cp = clock_parts [OF c(1)]
  have md: "1 \<le> m" "m \<le> 12" "1 \<le> d" "d \<le> 31" using f(1) by (auto simp: valid_date_def month_length_def split: if_splits)
  let ?z = "zone_set 0 \<lparr>zone_sign = None, zone_hour = None, zone_minute = None\<rparr>"
  let ?ts = "[int (c div 3600000), int (c div 60000 mod 60), int (c div 1000 mod 60), int (c mod 1000)]"
  let ?p = "(parser_at [] End [y, m, d] ?ts)\<lparr>ps_zone := ?z\<rparr>"
  have "iso_read (parser_new xs) = Some (End, ?p\<lparr>ps_day := (ps_day ?p)\<lparr>day_iso := True\<rparr>\<rparr>)"
    unfolding xs c_def [symmetric] Let_def iso_read_def
    by (simp add: iso_year_read [OF f(4)] iso_date_read [OF md padded_starts_digit] iso_clock_read [OF cp(1-4)] zone_set_def del: One_nat_def)
  then have "parse_date host xs = finish_date host (?p\<lparr>ps_day := (ps_day ?p)\<lparr>day_iso := True\<rparr>\<rparr>)"
    by (simp add: parse_date_def parse_loop.simps)
  also have "\<dots> = Some v"
  proof -
    have "- time_clip \<le> v" "v \<le> time_clip" using f(3) by linarith+
    then show ?thesis
      using f(2) cp md unfolding c(2) [symmetric]
      by (simp add: finish_date_def parser_at_def day_fields_def time_fields_def zone_seconds_def zone_set_def fits_i64_def)
  qed
  finally show ?thesis .
qed

text \<open>
  (C36) Printing and parsing a date are inverse over ECMAScript's whole range: a millisecond is printed exactly when it
  is in the range, and the printed text, in its four digit and its signed six digit forms, is parsed back to the
  same millisecond, whatever the time zone of the host.
\<close>

theorem iso_date_roundtrip:
  "case iso_milliseconds v of None \<Rightarrow> \<bar>v\<bar> > time_clip | Some xs \<Rightarrow> \<bar>v\<bar> \<le> time_clip \<and> parse_date host xs = Some v"
proof (cases "iso_milliseconds v")
  case None
  then have "utc_fields v = None" by (auto simp: iso_milliseconds_def Let_def split: option.splits)
  then show ?thesis using None by (simp add: utc_fields_None)
next
  case (Some xs)
  then have "utc_fields v \<noteq> None" by (auto simp: iso_milliseconds_def split: option.splits)
  then show ?thesis using Some parse_printed [OF Some] by (simp add: utc_fields_None not_less)
qed

end
