(* ===== verification/Automations.thy ===== *)
theory Automations
  imports JsDate
begin

text \<open>
  The schedules of project automations (\<^verbatim>\<open>cantrip_server_rs/src/project_automations/schedule.rs\<close>). An interval
  schedule has an anchor, a unit and a count that the contract keeps between one and a million; its occurrences are
  the anchor shifted by multiples of the count.
\<close>

datatype interval_unit = Minute | Hour | Day | Week | Month | Year

definition clipped :: "int \<Rightarrow> int option" where
  "clipped value = (if \<bar>value\<bar> \<le> time_clip then Some value else None)"

definition add_calendar :: "int \<Rightarrow> int \<Rightarrow> bool \<Rightarrow> int option" where
  "add_calendar start count year_unit =
     (case utc_fields start of
        None \<Rightarrow> None
      | Some (year, month, day) \<Rightarrow>
          let target_month = month - 1 + count * (if year_unit then 12 else 1);
              target_year = year + target_month div 12;
              normalized_month = target_month mod 12
          in if target_year > 275000 then None
             else case utc_milliseconds target_year (normalized_month + 1) 0 of
               None \<Rightarrow> None
             | Some end_of_month \<Rightarrow>
                 (case utc_fields end_of_month of
                    None \<Rightarrow> None
                  | Some (_, _, last_day) \<Rightarrow>
                      (case utc_milliseconds target_year normalized_month (min day last_day) of
                         None \<Rightarrow> None
                       | Some midnight \<Rightarrow> clipped (midnight + start mod day_ms))))"

fun fixed_unit :: "interval_unit \<Rightarrow> int option" where
  "fixed_unit Minute = Some 60000"
| "fixed_unit Hour = Some 3600000"
| "fixed_unit Day = Some 86400000"
| "fixed_unit Week = Some (7 * 86400000)"
| "fixed_unit _ = None"

fun calendar_search :: "nat \<Rightarrow> int \<Rightarrow> int \<Rightarrow> int \<Rightarrow> bool \<Rightarrow> int \<Rightarrow> int option" where
  "calendar_search 0 start every occurrence year_unit after = None"
| "calendar_search (Suc n) start every occurrence year_unit after =
     (case add_calendar start (occurrence * every) year_unit of
        None \<Rightarrow> None
      | Some candidate \<Rightarrow>
          if candidate > after then Some candidate
          else calendar_search n start every (occurrence + 1) year_unit after)"

definition calendar_interval :: "int \<Rightarrow> int \<Rightarrow> bool \<Rightarrow> int \<Rightarrow> int option" where
  "calendar_interval start every year_unit after =
     (case (utc_fields start, utc_fields after) of
        (Some (start_year, start_month, _), Some (after_year, after_month, _)) \<Rightarrow>
          let rough = (if year_unit then after_year - start_year
                       else (after_year - start_year) * 12 + after_month - start_month)
          in calendar_search 4 start every (max (rough div every) 1) year_unit after
      | _ \<Rightarrow> None)"

definition interval_next :: "int \<Rightarrow> int \<Rightarrow> interval_unit \<Rightarrow> int \<Rightarrow> int option" where
  "interval_next start every unit after =
     (if after < start then Some start
      else case fixed_unit unit of
        Some fixed \<Rightarrow>
          let interval = fixed * every
          in clipped (start + max ((after - start) div interval + 1) 1 * interval)
      | None \<Rightarrow> calendar_interval start every (unit = Year) after)"

section \<open>Occurrences\<close>

definition shift_months :: "int \<Rightarrow> int \<Rightarrow> int" where
  "shift_months start n =
     (case utc_fields start of
        Some (y, m, d) \<Rightarrow>
          let t = 12 * y + m - 1 + n in (month_start t + min d (month_days t) - 1) * day_ms + start mod day_ms
      | None \<Rightarrow> start)"

fun occurrence_of :: "interval_unit \<Rightarrow> int \<Rightarrow> int \<Rightarrow> nat \<Rightarrow> int" where
  "occurrence_of Month start every k = shift_months start (int k * every)"
| "occurrence_of Year start every k = shift_months start (int k * every * 12)"
| "occurrence_of u start every k = start + int k * (the (fixed_unit u) * every)"

text \<open>Adding months: the month is shifted, the day is the last one of a shorter month, the clock is kept.\<close>

lemma add_calendar_eq:
  assumes f: "utc_fields start = Some (y, m, d)" and y: "100 \<le> y" and n: "n = count * (if year_unit then 12 else 1)" "0 \<le> n"
  shows "add_calendar start count year_unit =
    (if (12 * y + m - 1 + n) div 12 > 275000 then None else Some (shift_months start n))"
proof -
  define t where "t = 12 * y + m - 1 + n"
  have v: "valid_date y m d" using f by (simp add: utc_fields_eq)
  have md: "1 \<le> m" "m \<le> 12" "1 \<le> d" "d \<le> 31" using v by (auto simp: valid_date_def month_length_def split: if_splits)
  have i: "y + (m - 1 + n) div 12 = t div 12" "(m - 1 + n) mod 12 = t mod 12"
    using div_mult_self1 [of 12 "m - 1 + n" y] mod_mult_self1 [of "m - 1 + n" y 12] by (simp_all add: t_def algebra_simps)
  have t: "12 * y \<le> t" using md n(2) by (simp add: t_def)
  then have y': "100 \<le> t div 12" using y div_mult_mod_eq [of t 12] pos_mod_bound [of 12 t] by linarith
  show ?thesis
  proof (cases "t div 12 > 275000")
    case True
    then show ?thesis unfolding add_calendar_def f option.case prod.case Let_def n(1) [symmetric] i t_def [symmetric] by simp
  next
    case False
    have b: "1200 \<le> t" "t < 12 * 275001" using False t y by (linarith, simp)
    define k where "k = min d (month_days t)"
    have k: "1 \<le> k" "k \<le> 31" using md month_days_bounds [of t] by (auto simp: k_def)
    define e where "e = (month_start (t + 1) - 1) * day_ms"
    define w where "w = (month_start t + k - 1) * day_ms"
    have 1: "utc_milliseconds (t div 12) (t mod 12 + 1) 0 = Some e"
      using utc_milliseconds_month [of "t div 12" "t mod 12 + 1" 0] False y' pos_mod_bound [of 12 t] by (simp add: e_def)
    have 2: "utc_milliseconds (t div 12) (t mod 12) k = Some w"
      using utc_milliseconds_month [of "t div 12" "t mod 12" k] False y' k pos_mod_bound [of 12 t] by (simp add: w_def)
    have 3: "clipped (w + start mod day_ms) = Some (w + start mod day_ms)"
    proof -
      have "- 800000 < month_start t" "month_start t < 99999900" using month_start_bound [of t] b by simp_all
      moreover have "0 \<le> start mod day_ms" "start mod day_ms < day_ms" by simp_all
      ultimately have "\<bar>(month_start t + k - 1) * day_ms + start mod day_ms\<bar> \<le> time_clip"
        using k month_clock_clip by blast
      then show ?thesis unfolding clipped_def w_def by (rule if_P)
    qed
    have 4: "shift_months start n = w + start mod day_ms" by (simp add: shift_months_def f Let_def t_def k_def w_def)
    show ?thesis using False
      unfolding add_calendar_def f option.case prod.case Let_def n(1) [symmetric] i t_def [symmetric] 4
      by (simp add: 1 2 3 month_end_fields [OF b, folded e_def] k_def [symmetric])
  qed
qed

text \<open>The month of an instant decides its order.\<close>

lemma shift_months_order:
  assumes f: "utc_fields start = Some (y, m, d)" and g: "utc_fields v = Some (y', m', d')"
  shows "12 * y + m + n < 12 * y' + m' \<Longrightarrow> shift_months start n < v"
    "12 * y' + m' < 12 * y + m + n \<Longrightarrow> v < shift_months start n"
proof -
  define t where "t = 12 * y + m - 1 + n"
  define u where "u = 12 * y' + m' - 1"
  define k where "k = min d (month_days t)"
  have d: "1 \<le> d" using f by (simp add: utc_fields_eq valid_date_def)
  then have k: "1 \<le> k" "k \<le> month_days t" using month_days_bounds [of t] by (auto simp: k_def)
  have v: "valid_date y' m' d'" "days y' m' d' = v div day_ms" using g by (auto simp: utc_fields_eq)
  then have u: "v div day_ms = month_start u + d' - 1" "1 \<le> d'" "d' \<le> month_days u"
    using days_month_start [of m' y' d'] month_days_index [of m' y'] by (auto simp: valid_date_def u_def)
  have s: "shift_months start n = (month_start t + k - 1) * day_ms + start mod day_ms"
    by (simp add: shift_months_def f Let_def t_def k_def)
  have r: "v = v div day_ms * day_ms + v mod day_ms" "0 \<le> v mod day_ms" "v mod day_ms < day_ms"
    "0 \<le> start mod day_ms" "start mod day_ms < day_ms" by simp_all
  show "shift_months start n < v" if "12 * y + m + n < 12 * y' + m'"
    using month_start_mono [of t u] that k u r s by (simp add: t_def u_def)
  show "v < shift_months start n" if "12 * y' + m' < 12 * y + m + n"
    using month_start_mono [of u t] that k u r s by (simp add: t_def u_def)
qed

lemma shift_months_0: "utc_fields start = Some (y, m, d) \<Longrightarrow> shift_months start 0 = start"
proof -
  assume f: "utc_fields start = Some (y, m, d)"
  then have v: "valid_date y m d" "days y m d = start div day_ms" by (auto simp: utc_fields_eq)
  then have a: "min d (month_days (12 * y + m - 1)) = d" by (simp add: valid_date_def month_days_index)
  have b: "month_start (12 * y + m - 1) + d - 1 = start div day_ms"
    using v days_month_start [of m y d] by (simp add: valid_date_def)
  show ?thesis unfolding shift_months_def f option.case prod.case Let_def add_0_right a b by simp
qed

section \<open>The next occurrence\<close>

definition first_after :: "(nat \<Rightarrow> int) \<Rightarrow> int \<Rightarrow> nat \<Rightarrow> bool" where
  "first_after occ after k \<longleftrightarrow> after < occ k \<and> (\<forall>j < k. occ j \<le> after)"

definition beyond_dates :: "interval_unit \<Rightarrow> int \<Rightarrow> int \<Rightarrow> nat \<Rightarrow> bool" where
  "beyond_dates unit start every k =
     (case fixed_unit unit of
        Some _ \<Rightarrow> time_clip < occurrence_of unit start every k
      | None \<Rightarrow>
          (case utc_fields start of
             Some (y, m, _) \<Rightarrow> 275000 < (12 * y + m - 1 + int k * every * (if unit = Year then 12 else 1)) div 12
           | None \<Rightarrow> False))"

lemma fixed_interval:
  assumes u: "fixed_unit unit = Some f" and e: "1 \<le> every" and s: "start \<le> after" "\<bar>start\<bar> \<le> time_clip"
  obtains k where "first_after (occurrence_of unit start every) after k"
    "interval_next start every unit after = (if beyond_dates unit start every k then None else Some (occurrence_of unit start every k))"
proof -
  have f: "0 < f" using u by (cases unit) auto
  define i where "i = f * every"
  have i: "0 < i" using f e by (simp add: i_def)
  define q where "q = (after - start) div i"
  have m: "q * i + (after - start) mod i = after - start" "0 \<le> (after - start) mod i" "(after - start) mod i < i"
    using i by (simp_all add: q_def)
  have q: "0 \<le> q" "q * i \<le> after - start" "after - start < (q + 1) * i"
    using i s(1) m unfolding distrib_right by (simp add: q_def pos_imp_zdiv_nonneg_iff, linarith, linarith)
  have o: "occurrence_of unit start every j = start + int j * i" for j using u by (cases unit) (auto simp: i_def)
  have "occurrence_of unit start every j \<le> after" if "j < nat (q + 1)" for j
  proof -
    have "int j \<le> q" using that by linarith
    then have "int j * i \<le> q * i" using i by (intro mult_right_mono) auto
    then show ?thesis using q o by simp
  qed
  then have "first_after (occurrence_of unit start every) after (nat (q + 1))" using q o by (simp add: first_after_def algebra_simps)
  moreover have "interval_next start every unit after = clipped (occurrence_of unit start every (nat (q + 1)))"
    using u s(1) q(1) o by (simp add: interval_next_def Let_def i_def [symmetric] q_def [symmetric])
  moreover have "- time_clip \<le> occurrence_of unit start every (nat (q + 1))" using o q s by (simp add: abs_le_iff algebra_simps)
  ultimately show ?thesis using that u by (auto simp: clipped_def beyond_dates_def abs_le_iff)
qed

lemma rough_bounds:
  fixes every rough k :: int
  assumes "1 \<le> every" "k = max (rough div every) 1"
  shows "1 \<le> j \<Longrightarrow> j < k \<Longrightarrow> j * every < rough" "rough < (k + 1) * every"
proof -
  have m: "rough div every * every + rough mod every = rough" "0 \<le> rough mod every" "rough mod every < every"
    using assms(1) by simp_all
  show "rough < (k + 1) * every"
  proof -
    have "(rough div every + 1) * every \<le> (k + 1) * every" using assms by (intro mult_right_mono) auto
    moreover have "rough < (rough div every + 1) * every" unfolding distrib_right using m by linarith
    ultimately show ?thesis by simp
  qed
  show "j * every < rough" if "1 \<le> j" "j < k"
  proof -
    have "j * every \<le> (rough div every - 1) * every" using that assms by (intro mult_right_mono) auto
    moreover have "(rough div every - 1) * every < rough" unfolding left_diff_distrib using m assms(1) by linarith
    ultimately show ?thesis by simp
  qed
qed

lemma calendar_interval_eq:
  assumes u: "unit = Month \<or> unit = Year" and e: "1 \<le> every" and s: "start \<le> after"
    and f: "utc_fields start = Some (y, m, d)" "100 \<le> y" and g: "utc_fields after = Some (y', m', d')"
  obtains k where "first_after (occurrence_of unit start every) after k"
    "interval_next start every unit after = (if beyond_dates unit start every k then None else Some (occurrence_of unit start every k))"
proof -
  define c :: int where "c = (if unit = Year then 12 else 1)"
  define rough where "rough = (if unit = Year then y' - y else (y' - y) * 12 + m' - m)"
  define k where "k = max (rough div every) 1"
  have c: "0 < c" by (simp add: c_def)
  have m: "1 \<le> m" "m \<le> 12" "1 \<le> m'" "m' \<le> 12" using f(1) g by (auto simp: utc_fields_eq valid_date_def)
  have o: "occurrence_of unit start every j = shift_months start (int j * every * c)" for j using u by (auto simp: c_def)
  note rb = rough_bounds [OF e k_def]
  have before: "occurrence_of unit start every j \<le> after" if "j < nat k" for j
  proof (cases "j = 0")
    case True
    then show ?thesis using o [of 0] shift_months_0 [OF f(1)] s by simp
  next
    case False
    then have "int j * every < rough" using rb(1) [of "int j"] that by linarith
    then have "12 * y + m + int j * every * c < 12 * y' + m'" using m by (auto simp: rough_def c_def split: if_splits)
    then show ?thesis using shift_months_order(1) [OF f(1) g] o by fastforce
  qed
  have later: "after < occurrence_of unit start every (nat (k + 1))"
  proof -
    have "12 * y' + m' < 12 * y + m + (k + 1) * every * c"
      using rb(2) m by (auto simp: rough_def c_def split: if_splits)
    moreover have "int (nat (k + 1)) = k + 1" by (simp add: k_def)
    ultimately show ?thesis using shift_months_order(2) [OF f(1) g] o by simp
  qed
  have beyond: "beyond_dates unit start every j \<longleftrightarrow> 275000 < (12 * y + m - 1 + int j * every * c) div 12" for j
    using u f(1) by (auto simp: beyond_dates_def c_def)
  have add: "add_calendar start (int j * every) (unit = Year) =
      (if beyond_dates unit start every j then None else Some (occurrence_of unit start every j))" for j
    unfolding beyond o by (rule add_calendar_eq [OF f]) (use e in \<open>auto simp: c_def\<close>)
  have mono: "beyond_dates unit start every (nat (k + 1))" if "beyond_dates unit start every (nat k)"
  proof -
    have "int (nat k) * every * c \<le> int (nat (k + 1)) * every * c" using e c by (intro mult_right_mono) auto
    then show ?thesis using that zdiv_mono1 [of "12 * y + m - 1 + int (nat k) * every * c" "12 * y + m - 1 + int (nat (k + 1)) * every * c" 12]
      unfolding beyond by linarith
  qed
  have n: "interval_next start every unit after = calendar_search 4 start every k (unit = Year) after"
    using u s f(1) g by (auto simp: interval_next_def calendar_interval_def Let_def k_def rough_def)
  have k: "int (nat k) = k" "int (nat (k + 1)) = k + 1" "0 \<le> k" by (simp_all add: k_def)
  note add' = add [of "nat k", unfolded k(1)] add [of "nat (k + 1)", unfolded k(2)]
  have search: "calendar_search 4 start every k (unit = Year) after =
     (if beyond_dates unit start every (nat k) then None
      else if after < occurrence_of unit start every (nat k) then Some (occurrence_of unit start every (nat k))
      else if beyond_dates unit start every (nat (k + 1)) then None else Some (occurrence_of unit start every (nat (k + 1))))"
    using later by (simp add: numeral_eq_Suc add')
  show ?thesis
  proof (cases "after < occurrence_of unit start every (nat k)")
    case True
    then show ?thesis using that [of "nat k"] before n search by (simp add: first_after_def)
  next
    case False
    have "occurrence_of unit start every j \<le> after" if "j < nat (k + 1)" for j
      using that before [of j] False k(3) by (cases "j = nat k") auto
    then show ?thesis using that [of "nat (k + 1)"] later n search False mono by (auto simp: first_after_def)
  qed
qed

lemma fields_clip: "utc_fields v = Some x \<Longrightarrow> \<bar>v\<bar> \<le> time_clip"
  by (rule ccontr) (simp add: utc_fields_def)

lemma interval_first:
  assumes "1 \<le> every" "utc_fields start = Some (y, m, d)" "100 \<le> y" "\<bar>after\<bar> \<le> time_clip"
  shows "\<exists>k. first_after (occurrence_of unit start every) after k \<and>
    interval_next start every unit after =
      (if 0 < k \<and> beyond_dates unit start every k then None else Some (occurrence_of unit start every k))"
proof (cases "after < start")
  case True
  have "occurrence_of unit start every 0 = start" using shift_months_0 [OF assms(2)] by (cases unit) auto
  then show ?thesis using True by (intro exI [of _ 0]) (simp add: first_after_def interval_next_def)
next
  case False
  then have s: "start \<le> after" by simp
  obtain k where k: "first_after (occurrence_of unit start every) after k"
    "interval_next start every unit after = (if beyond_dates unit start every k then None else Some (occurrence_of unit start every k))"
  proof (cases "fixed_unit unit")
    case (Some f)
    then show ?thesis using that fixed_interval [OF Some assms(1) s fields_clip [OF assms(2)]] by blast
  next
    case None
    obtain y' m' d' where "utc_fields after = Some (y', m', d')" using assms(4) by (rule utc_fields_days)
    then show ?thesis using that calendar_interval_eq [OF _ assms(1) s assms(2,3)] None by (cases unit) auto
  qed
  moreover have "occurrence_of unit start every 0 = start" using shift_months_0 [OF assms(2)] by (cases unit) auto
  then have "0 < k" using k(1) s by (cases k) (auto simp: first_after_def)
  ultimately show ?thesis by auto
qed

lemma interval_later:
  assumes "1 \<le> every" "utc_fields start = Some (y, m, d)" "100 \<le> y" "\<bar>after\<bar> \<le> time_clip" "interval_next start every unit after = Some t"
  shows "after < t"
  using interval_first [OF assms(1-4), of unit] assms(5) by (auto simp: first_after_def split: if_splits)

text \<open>
  The next run of an interval schedule is its first occurrence after the instant given: the anchor moved by a
  multiple of minutes, hours, days or weeks, or of months and years with the day kept or clipped to the end of a
  shorter month. It is none only where that occurrence lies beyond the dates the code handles.
\<close>

lemma interval_next_least:
  assumes "1 \<le> every" "utc_fields start = Some (y, m, d)" "100 \<le> y" "\<bar>after\<bar> \<le> time_clip"
  shows "\<exists>k. first_after (occurrence_of unit start every) after k \<and>
    interval_next start every unit after =
      (if 0 < k \<and> beyond_dates unit start every k then None else Some (occurrence_of unit start every k))"
  by (rule interval_first [OF assms])

end
