(* ===== verification/Cron.thy ===== *)
theory Cron
  imports Texts
begin

text \<open>
  The cron pattern parser of project automations (\<^verbatim>\<open>cantrip_server_rs/src/project_automations/cron.rs\<close>). Text is a
  list of Unicode scalar values; a unit that is half of a surrogate pair is moved to a private plane first. A field is
  the index the source gives it: 0 seconds, 1 minutes, 2 hours, 3 days, 4 months, 5 days of the week, 6 years, and 7 the
  nearest weekdays. Numbers are exact integers (the source's doubles are, up to \<open>2 ^ 53\<close>; a larger one is refused
  either way). A diagnostic is the constructor of its message with the data the message shows.
\<close>

unbundle bit_operations_syntax

datatype cron_error =
    RebootUnsupported | WrongParts text_value | NotFiveParts text_value nat | EmptyAfterPlus
  | IllegalCharacters nat text_value | InvalidValue nat int | NthOutOfRange text_value | NthOnlyDayOfWeek | LastOnlyDayOfWeek
  | FromLarger text_value | StepZero | StepTooLarge nat | EmptyEntry nat text_value | NearestInRange bool bool
  | IllegalRangeStep text_value | IllegalRange text_value | LowerNaN | UpperNaN | IllegalStepping text_value
  | StepPrefix bool text_value | StepNaN | NearestOnlyDay | NotANumber nat text_value

record pattern =
  masks :: "nat list list"
  nearest :: "nat list"
  last_day_of_month :: bool
  last_weekday :: bool
  star_dom :: bool
  star_dow :: bool
  dom_and_dow :: bool

definition cron_lengths :: "nat list" where
  "cron_lengths = [60, 60, 24, 31, 12, 7, 10000, 31]"

definition encoded :: "nat list \<Rightarrow> text_value" where
  "encoded units = map (\<lambda>u. if 55296 \<le> u \<and> u \<le> 57343 then 983040 + (u - 55296) else u) units"

definition ascii_lower :: "nat \<Rightarrow> nat" where
  "ascii_lower c = (if 65 \<le> c \<and> c \<le> 90 then c + 32 else c)"

definition ascii_upper :: "nat \<Rightarrow> nat" where
  "ascii_upper c = (if 97 \<le> c \<and> c \<le> 122 then c - 32 else c)"

fun replace_ci :: "text_value \<Rightarrow> text_value \<Rightarrow> text_value \<Rightarrow> text_value" where
  "replace_ci from to [] = []"
| "replace_ci from to (x # xs) =
     (if from \<noteq> [] \<and> take (length from) (map ascii_lower (x # xs)) = from
      then to @ replace_ci from to (drop (length from - 1) xs)
      else x # replace_ci from to xs)"

definition cron_integer :: "text_value \<Rightarrow> int option" where
  "cron_integer s = (let ds = takeWhile is_digit s in if ds = [] then None else Some (int (digits_value ds)))"

fun split_on :: "(nat \<Rightarrow> bool) \<Rightarrow> text_value \<Rightarrow> text_value list" where
  "split_on P [] = [[]]"
| "split_on P (x # xs) =
     (if P x then [] # split_on P xs
      else case split_on P xs of [] \<Rightarrow> [[x]] | w # ws \<Rightarrow> (x # w) # ws)"

definition nicknames :: "(string \<times> string) list" where
  "nicknames = [(''@yearly'', ''0 0 1 1 *''), (''@annually'', ''0 0 1 1 *''), (''@monthly'', ''0 0 1 * *''), (''@weekly'', ''0 0 * * 0''),
     (''@daily'', ''0 0 * * *''), (''@midnight'', ''0 0 * * *''), (''@hourly'', ''0 * * * *'')]"

definition nickname :: "text_value \<Rightarrow> (cron_error, text_value) result" where
  "nickname s =
     (let key = map ascii_lower (trim_text s)
      in if key = text_of ''@reboot'' then Inl RebootUnsupported
         else case find (\<lambda>(k, _). text_of k = key) nicknames of Some (_, v) \<Rightarrow> Inr (text_of v) | None \<Rightarrow> Inr s)"

section \<open>Masks\<close>

definition get_mask :: "nat \<Rightarrow> pattern \<Rightarrow> nat list" where
  "get_mask field p = (if field = 7 then nearest p else masks p ! field)"

definition put_mask :: "nat \<Rightarrow> nat list \<Rightarrow> pattern \<Rightarrow> pattern" where
  "put_mask field m p = (if field = 7 then p\<lparr>nearest := m\<rparr> else p\<lparr>masks := (masks p)[field := m]\<rparr>)"

definition nth_mask :: "text_value option \<Rightarrow> nat \<Rightarrow> (cron_error, nat) result" where
  "nth_mask which bits =
     (case which of
        None \<Rightarrow> Inr 63
      | Some t \<Rightarrow>
          if t = [] then Inr 63
          else if map ascii_lower t = text_of ''l'' then Inr (bits OR 32)
          else if list_all is_digit t \<and> 0 < digits_value t \<and> digits_value t < 6
          then Inr (bits OR 2 ^ (digits_value t - 1))
          else Inl (NthOutOfRange t))"

definition set_value :: "nat \<Rightarrow> int \<Rightarrow> text_value option \<Rightarrow> pattern \<Rightarrow> (cron_error, pattern) result" where
  "set_value field value0 which p =
     (let value = (if field = 5 \<and> value0 = 7 then 0 else value0)
      in if value < (if field = 6 then 1 else 0) \<or> value \<ge> int (cron_lengths ! field) then Inl (InvalidValue field value)
         else if field = 5
         then rbind (nth_mask which (masks p ! 5 ! nat value)) (\<lambda>m.
                Inr (put_mask 5 ((masks p ! 5)[nat value := m]) p))
         else Inr (put_mask field ((get_mask field p)[nat value := 1]) p))"

definition split_nth :: "text_value \<Rightarrow> nat \<Rightarrow> (cron_error, text_value \<times> text_value option) result" where
  "split_nth s field =
     (if 35 \<in> set s
      then if field \<noteq> 5 then Inl NthOnlyDayOfWeek
           else (let ws = split_on (\<lambda>c. c = 35) s in Inr (ws ! 0, Some (ws ! 1)))
      else if s \<noteq> [] \<and> last s \<in> {76, 108}
      then if field \<noteq> 5 then Inl LastOnlyDayOfWeek else Inr (butlast s, Some (text_of ''L''))
      else Inr (s, None))"

definition check_range :: "int \<Rightarrow> int \<Rightarrow> int option \<Rightarrow> nat \<Rightarrow> text_value \<Rightarrow> (cron_error, unit) result" where
  "check_range from to step field input =
     (if from > to then Inl (FromLarger input)
      else case step of
        None \<Rightarrow> Inr ()
      | Some s \<Rightarrow>
          if s = 0 then Inl StepZero
          else if s > int (cron_lengths ! field) then Inl (StepTooLarge (cron_lengths ! field)) else Inr ())"

text \<open>\<open>check_range\<close> has refused a step of zero before the loop runs; its guard here only makes the recursion end.\<close>

function set_range :: "nat \<Rightarrow> int \<Rightarrow> int \<Rightarrow> int \<Rightarrow> text_value option \<Rightarrow> pattern \<Rightarrow> (cron_error, pattern) result" where
  "set_range field v to step which p =
     (if v \<le> to \<and> 0 < step then rbind (set_value field v which p) (\<lambda>p'. set_range field (v + step) to step which p')
      else Inr p)"
  by pat_completeness auto

termination
  by (relation "measure (\<lambda>(field, v, to, step, which, p). nat (to - v + 1))") auto

declare set_range.simps [simp del]

definition field_offset :: "nat \<Rightarrow> int" where
  "field_offset field = (if field = 3 \<or> field = 4 then - 1 else 0)"

definition number_at :: "int \<Rightarrow> text_value \<Rightarrow> int option" where
  "number_at offset s = map_option (\<lambda>n. n + offset) (cron_integer s)"

definition range_bounds ::
  "bool \<Rightarrow> bool \<Rightarrow> nat \<Rightarrow> text_value \<Rightarrow> text_value \<Rightarrow> (cron_error, int \<times> int \<times> int option) result" where
  "range_bounds ranged stepping field input value =
     (let offset = field_offset field
      in if ranged \<and> stepping
         then (let ws = split_on (\<lambda>c. c = 45 \<or> c = 47) value
               in if length ws \<noteq> 3 \<or> (\<exists>w \<in> set ws. w = [] \<or> \<not> list_all is_digit w) then Inl (IllegalRangeStep input)
                  else Inr (int (digits_value (ws ! 0)) + offset, int (digits_value (ws ! 1)) + offset,
                            Some (int (digits_value (ws ! 2)))))
         else if ranged
         then (let ws = split_on (\<lambda>c. c = 45) value
               in if length ws \<noteq> 2 then Inl (IllegalRange input)
                  else rbind (ok_or LowerNaN (number_at offset (ws ! 0))) (\<lambda>from.
                    rbind (ok_or UpperNaN (number_at offset (ws ! 1))) (\<lambda>to. Inr (from, to, None))))
         else (let ws = split_on (\<lambda>c. c = 47) value
               in if length ws \<noteq> 2 then Inl (IllegalStepping input)
                  else if ws ! 0 \<noteq> [42] then Inl (StepPrefix (ws ! 0 = []) input)
                  else rbind (ok_or StepNaN (cron_integer (ws ! 1))) (\<lambda>step.
                    Inr (0, int (cron_lengths ! field) - 1, Some step))))"

definition cron_atom :: "nat \<Rightarrow> text_value \<Rightarrow> pattern \<Rightarrow> (cron_error, pattern) result" where
  "cron_atom field input p =
     (let ranged = 45 \<in> set input; stepping = 47 \<in> set input; weekday = 87 \<in> ascii_upper ` set input
      in if ranged \<or> stepping
         then if weekday then Inl (NearestInRange ranged stepping)
              else rbind (split_nth input field) (\<lambda>(value, which).
                rbind (range_bounds ranged stepping field input value) (\<lambda>(from, to, step).
                  rbind (check_range from to step field input) (\<lambda>_.
                    set_range field from to (the_default 1 step) which p)))
         else if input \<noteq> []
         then rbind (split_nth input field) (\<lambda>(value, which).
                if weekday \<and> field \<noteq> 3 then Inl NearestOnlyDay
                else let field' = (if weekday then 7 else field)
                     in rbind (ok_or (NotANumber field' input) (number_at (field_offset field) value)) (\<lambda>v.
                          set_value field' v which p))
         else Inr p)"

definition cron_item :: "nat \<Rightarrow> text_value \<Rightarrow> pattern \<Rightarrow> (cron_error, pattern) result" where
  "cron_item field input p =
     (if input = [] \<and> \<not> (field = 3 \<and> (last_day_of_month p \<or> last_weekday p)) then Inl (EmptyEntry field input)
      else if input = [42]
      then Inr (put_mask field (replicate (length (get_mask field p)) (if field = 5 then 63 else 1)) p)
      else cron_atom field input p)"

fun rfold :: "('a \<Rightarrow> 's \<Rightarrow> ('e, 's) result) \<Rightarrow> 'a list \<Rightarrow> 's \<Rightarrow> ('e, 's) result" where
  "rfold f [] s = Inr s"
| "rfold f (x # xs) s = rbind (f x s) (rfold f xs)"

text \<open>An entry with commas is its items in order; an item has no comma, so the source's recursion is one level deep.\<close>

definition cron_part :: "nat \<Rightarrow> text_value \<Rightarrow> pattern \<Rightarrow> (cron_error, pattern) result" where
  "cron_part field input p =
     (if input \<noteq> [] \<and> 44 \<in> set input then rfold (cron_item field) (split_on (\<lambda>c. c = 44) input) p
      else cron_item field input p)"

section \<open>The pattern\<close>

definition month_names :: "string list" where
  "month_names = [''jan'', ''feb'', ''mar'', ''apr'', ''may'', ''jun'', ''jul'', ''aug'', ''sep'', ''oct'', ''nov'', ''dec'']"

definition day_names :: "string list" where
  "day_names = [''sun'', ''mon'', ''tue'', ''wed'', ''thu'', ''fri'', ''sat'']"

definition replace_names :: "string list \<Rightarrow> nat \<Rightarrow> text_value \<Rightarrow> text_value" where
  "replace_names names base s =
     fold (\<lambda>(name, i). replace_ci (text_of name) (decimal_digits i)) (zip names [base..<base + length names]) s"

definition words_of :: "text_value \<Rightarrow> text_value list" where
  "words_of s = filter (\<lambda>w. w \<noteq> []) (split_on whitespace s)"

definition empty_pattern :: pattern where
  "empty_pattern = \<lparr>masks = map (\<lambda>n. replicate n 0) (take 7 cron_lengths), nearest = replicate 31 0,
     last_day_of_month = False, last_weekday = False, star_dom = False, star_dow = False, dom_and_dow = False\<rparr>"

definition allowed_char :: "nat \<Rightarrow> nat \<Rightarrow> bool" where
  "allowed_char i c \<longleftrightarrow> is_digit c \<or> c \<in> {47, 42, 44, 45} \<or> (i = 3 \<and> c \<in> {87, 119, 76, 108}) \<or> (i = 5 \<and> c \<in> {35, 76, 108})"

definition dom_entry :: "text_value \<Rightarrow> pattern \<Rightarrow> text_value \<times> pattern" where
  "dom_entry s p =
     (let (s', p') =
        (if map ascii_lower s = text_of ''lw'' then ([], p\<lparr>last_weekday := True\<rparr>)
         else if 76 \<in> ascii_upper ` set s then (filter (\<lambda>c. c \<notin> {76, 108}) s, p\<lparr>last_day_of_month := True\<rparr>)
         else (s, p))
      in (s', p'\<lparr>star_dom := (s' = [42])\<rparr>))"

definition dow_entry :: "text_value \<Rightarrow> pattern \<Rightarrow> (cron_error, text_value \<times> pattern) result" where
  "dow_entry s p =
     (let t = replace_names day_names 0 (replace_ci (text_of ''-sun'') (text_of ''-7'') s)
      in if t \<noteq> [] \<and> hd t = 43
         then if tl t = [] then Inl EmptyAfterPlus
              else Inr (tl t, p\<lparr>dom_and_dow := True, star_dow := (tl t = [42])\<rparr>)
         else Inr (t, p\<lparr>star_dow := (t = [42])\<rparr>))"

definition check_characters :: "text_value list \<Rightarrow> (cron_error, unit) result" where
  "check_characters ws =
     (case find (\<lambda>(i, w). \<not> list_all (allowed_char i) w) (enumerate 0 ws) of
        Some (i, w) \<Rightarrow> Inl (IllegalCharacters i w)
      | None \<Rightarrow> Inr ())"

definition parse_entries :: "text_value list \<Rightarrow> pattern \<Rightarrow> (cron_error, pattern) result" where
  "parse_entries ws p =
     (let ws' = map (map (\<lambda>c. if c = 63 then 42 else c)) ws
      in rbind (check_characters ws') (\<lambda>_. rfold (\<lambda>(i, w). cron_part i w) (enumerate 0 ws') p))"

definition parse_cron :: "nat list \<Rightarrow> (cron_error, pattern) result" where
  "parse_cron input =
     rbind (nickname (encoded input)) (\<lambda>value.
       case words_of value of
         [minute, hour, day, month, weekdays] \<Rightarrow>
           (case dom_entry day empty_pattern of (day', p) \<Rightarrow>
              rbind (dow_entry weekdays p) (\<lambda>(weekdays', p').
                parse_entries [text_of ''0'', minute, hour, day', replace_names month_names 1 month, weekdays', text_of ''*''] p'))
       | ws \<Rightarrow> if 5 \<le> length ws \<and> length ws \<le> 7 then Inl (NotFiveParts value (length ws)) else Inl (WrongParts value))"

section \<open>What parsing keeps\<close>

definition shaped :: "pattern \<Rightarrow> bool" where
  "shaped p \<longleftrightarrow> length (masks p) = 7 \<and> (\<forall>i < 8. length (get_mask i p) = cron_lengths ! i) \<and> (\<forall>b \<in> set (masks p ! 5). b < 64)"

definition hit :: "nat \<Rightarrow> nat \<Rightarrow> pattern \<Rightarrow> bool" where
  "hit field v p \<longleftrightarrow> v < length (get_mask field p) \<and> get_mask field p ! v \<noteq> 0"

definition extends :: "pattern \<Rightarrow> pattern \<Rightarrow> bool" where
  "extends p q \<longleftrightarrow> shaped q \<and> (\<forall>f < 8. \<forall>v. hit f v p \<longrightarrow> hit f v q)"

lemma extends_shaped: "extends p q \<Longrightarrow> shaped q"
  by (simp add: extends_def)

lemma extends_hit: "extends p q \<Longrightarrow> f < 8 \<Longrightarrow> hit f v p \<Longrightarrow> hit f v q"
  by (simp add: extends_def)

lemma extends_trans: "extends p q \<Longrightarrow> extends q r \<Longrightarrow> extends p r"
  by (auto simp: extends_def)

lemma extends_refl: "shaped p \<Longrightarrow> extends p p"
  by (simp add: extends_def)

lemma get_put_mask:
  "length (masks p) = 7 \<Longrightarrow> f < 8 \<Longrightarrow> g < 8 \<Longrightarrow> get_mask g (put_mask f m p) = (if g = f then m else get_mask g p)"
  by (auto simp: get_mask_def put_mask_def)

lemma masks_put_mask:
  "length (masks (put_mask f m p)) = length (masks p)"
  "length (masks p) = 7 \<Longrightarrow> f < 8 \<Longrightarrow> masks (put_mask f m p) ! 5 = (if f = 5 then m else masks p ! 5)"
  by (auto simp: put_mask_def)

lemma put_mask_extends:
  assumes "shaped p" "f < 8" "length m = cron_lengths ! f" "f = 5 \<Longrightarrow> \<forall>b \<in> set m. b < 64" "\<And>v. hit f v p \<Longrightarrow> m ! v \<noteq> 0"
  shows "extends p (put_mask f m p)"
  using assms by (auto simp: extends_def shaped_def hit_def get_put_mask masks_put_mask)

lemma or_pos: "(a OR b :: nat) \<noteq> 0" if "b \<noteq> 0"
  using that by (metis or_eq_0_iff)

lemma or_less_64: "a < 64 \<Longrightarrow> b < 64 \<Longrightarrow> (a OR b :: nat) < 64"
  using OR_upper [of "int a" 6 "int b"] by (simp flip: of_nat_or_eq)

lemma nth_mask_bits: "nth_mask w b = Inr m \<Longrightarrow> m \<noteq> 0 \<and> (b < 64 \<longrightarrow> m < 64)"
proof -
  assume a: "nth_mask w b = Inr m"
  have p: "(2::nat) ^ (n - 1) < 64" if "n < 6" for n
  proof -
    have "(2::nat) ^ (n - 1) < 2 ^ 6" by (rule power_strict_increasing) (use that in auto)
    then show ?thesis by simp
  qed
  show ?thesis using a or_pos or_less_64 p by (auto simp: nth_mask_def split: option.splits if_splits)
qed

lemma set_value_extends:
  assumes s: "shaped p" and f: "f < 8" and v: "set_value f v w p = Inr q"
  shows "extends p q \<and> (\<exists>u. hit f u q)"
proof -
  define x where "x = (if f = 5 \<and> v = 7 then 0 else v)"
  have x: "0 \<le> x" "x < int (cron_lengths ! f)" using v by (auto simp: set_value_def x_def Let_def split: if_splits)
  have len: "length (masks p) = 7" "length (get_mask f p) = cron_lengths ! f" using s f by (auto simp: shaped_def)
  obtain b where b: "q = put_mask f ((get_mask f p)[nat x := b]) p" "b \<noteq> 0" "f = 5 \<Longrightarrow> b < 64"
  proof (cases "f = 5")
    case True
    then obtain m where m: "nth_mask w (masks p ! 5 ! nat x) = Inr m" "q = put_mask 5 ((masks p ! 5)[nat x := m]) p"
      using v x by (auto simp: set_value_def x_def Let_def rbind_eq_Inr split: if_splits)
    have "masks p ! 5 ! nat x < 64" 
      using s x len(2) True by (simp add: shaped_def get_mask_def all_set_conv_all_nth)
    then show ?thesis using that [of m] nth_mask_bits [OF m(1)] m(2) True by (simp add: get_mask_def)
  next
    case False
    then show ?thesis using that [of 1] v by (auto simp: set_value_def x_def Let_def split: if_splits)
  qed
  have 64: "\<forall>c \<in> set ((get_mask f p)[nat x := b]). c < 64" if "f = 5"
    using that b(3) s by (auto simp: shaped_def get_mask_def dest!: set_update_subset_insert [THEN subsetD])
  have h: "(get_mask f p)[nat x := b] ! u \<noteq> 0" if "hit f u p" for u
    using that b(2) len by (cases "u = nat x") (auto simp: hit_def)
  have e: "extends p q" unfolding b(1) by (rule put_mask_extends) (use s f len 64 h in auto)
  moreover have "hit f (nat x) q" using b len f x by (simp add: hit_def get_put_mask)
  ultimately show ?thesis by blast
qed

lemma set_range_extends:
  "set_range f v to step w p = Inr q \<Longrightarrow> shaped p \<Longrightarrow> f < 8 \<Longrightarrow> extends p q \<and> (v \<le> to \<and> 0 < step \<longrightarrow> (\<exists>u. hit f u q))"
proof (induction f v to step w p arbitrary: q rule: set_range.induct)
  case (1 f v to step w p)
  show ?case
  proof (cases "v \<le> to \<and> 0 < step")
    case True
    then obtain p' where p': "set_value f v w p = Inr p'" "set_range f (v + step) to step w p' = Inr q"
      using "1.prems"(1) by (auto simp: set_range.simps [of f v] rbind_eq_Inr)
    have e: "extends p p'" "\<exists>u. hit f u p'" using set_value_extends [OF "1.prems"(2,3) p'(1)] by auto
    then have "extends p' q" using "1.IH" [OF True, of p' q] p' "1.prems"(3) by (simp add: extends_def)
    then show ?thesis using e extends_trans \<open>f < 8\<close> by (auto simp: extends_def)
  next
    case False
    then have "q = p" using "1.prems"(1) by (auto simp: set_range.simps [of f v])
    then show ?thesis using False extends_refl "1.prems"(2) by auto
  qed
qed

lemma range_bounds_step: "range_bounds r st f i v = Inr (a, b, Some n) \<Longrightarrow> 0 \<le> n"
  by (auto simp: range_bounds_def cron_integer_def Let_def rbind_eq_Inr split: if_splits)

lemma cron_atom_extends:
  assumes "cron_atom f i p = Inr q" "shaped p" "f < 7"
  shows "extends p q \<and> (i \<noteq> [] \<and> f \<noteq> 3 \<longrightarrow> (\<exists>u. hit f u q))"
proof -
  define ranged where "ranged = (45 \<in> set i \<or> 47 \<in> set i)"
  show ?thesis
  proof (cases ranged)
    case True
    then obtain val w lo hi step where r: "range_bounds (45 \<in> set i) (47 \<in> set i) f i val = Inr (lo, hi, step)"
      "check_range lo hi step f i = Inr ()" "set_range f lo hi (the_default 1 step) w p = Inr q"
      using assms(1) by (auto simp: cron_atom_def ranged_def Let_def rbind_eq_Inr split: if_splits)
    have "lo \<le> hi" "0 < the_default 1 step"
      using r(2) range_bounds_step r(1) by (auto simp: check_range_def split: if_splits option.splits) fastforce
    then show ?thesis using set_range_extends [OF r(3) assms(2)] assms(3) by simp
  next
    case False
    show ?thesis
    proof (cases "i = []")
      case True
      then show ?thesis using assms(1) extends_refl [OF assms(2)] by (simp add: cron_atom_def)
    next
      case i: False
      then obtain w v where r: "set_value (if 87 \<in> ascii_upper ` set i then 7 else f) v w p = Inr q"
        "87 \<in> ascii_upper ` set i \<Longrightarrow> f = 3"
        using assms(1) False by (auto simp: cron_atom_def ranged_def Let_def rbind_eq_Inr split: if_splits)
      have "extends p q \<and> (\<exists>u. hit (if 87 \<in> ascii_upper ` set i then 7 else f) u q)"
        by (rule set_value_extends [OF assms(2) _ r(1)]) (use assms(3) in simp)
      then show ?thesis using r(2) by (cases "87 \<in> ascii_upper ` set i") auto
    qed
  qed
qed

lemma cron_item_extends:
  assumes "cron_item f i p = Inr q" "shaped p" "f < 7"
  shows "extends p q \<and> (f \<noteq> 3 \<longrightarrow> (\<exists>u. hit f u q))"
proof (cases "i = [42]")
  case True
  have len: "length (get_mask f p) = cron_lengths ! f" "length (masks p) = 7" using assms(2,3) by (auto simp: shaped_def)
  have q: "q = put_mask f (replicate (cron_lengths ! f) (if f = 5 then 63 else 1)) p"
    using assms(1) True len by (simp add: cron_item_def)
  have "extends p q" unfolding q by (rule put_mask_extends) (use assms(2,3) len in \<open>auto simp: hit_def\<close>)
  moreover have "f = 0 \<or> f = 1 \<or> f = 2 \<or> f = 3 \<or> f = 4 \<or> f = 5 \<or> f = 6" using assms(3) by linarith
  then have "0 < cron_lengths ! f" by (auto simp: cron_lengths_def)
  then have "hit f 0 q" using len assms(3) by (simp add: q hit_def get_put_mask)
  ultimately show ?thesis by blast
next
  case False
  then have "cron_atom f i p = Inr q" "i \<noteq> [] \<or> f = 3" using assms(1) by (auto simp: cron_item_def split: if_splits)
  then show ?thesis using cron_atom_extends [OF _ assms(2,3)] by blast
qed

lemma rfold_extends:
  assumes "\<And>x p q. x \<in> set xs \<Longrightarrow> shaped p \<Longrightarrow> g x p = Inr q \<Longrightarrow> extends p q"
  shows "rfold g xs p = Inr q \<Longrightarrow> shaped p \<Longrightarrow> extends p q"
  using assms
proof (induction xs arbitrary: p)
  case Nil
  then show ?case by (simp add: extends_refl)
next
  case (Cons x xs)
  then obtain p' where p': "g x p = Inr p'" "rfold g xs p' = Inr q" by (auto simp: rbind_eq_Inr)
  then have e: "extends p p'" using Cons.prems by auto
  moreover have "extends p' q" by (rule Cons.IH [OF p'(2) extends_shaped [OF e]]) (use Cons.prems(3) in auto)
  ultimately show ?case using extends_trans by blast
qed

lemma split_on_not_Nil: "split_on P xs \<noteq> []"
  by (induction xs) (auto split: list.splits)

lemma cron_part_extends:
  assumes "cron_part f i p = Inr q" "shaped p" "f < 7"
  shows "extends p q \<and> (f \<noteq> 3 \<longrightarrow> (\<exists>u. hit f u q))"
proof (cases "44 \<in> set i")
  case True
  obtain w ws where ws: "split_on (\<lambda>c. c = 44) i = w # ws" using split_on_not_Nil by (metis neq_Nil_conv)
  then obtain p' where p': "cron_item f w p = Inr p'" "rfold (cron_item f) ws p' = Inr q"
    using assms(1) True by (auto simp: cron_part_def rbind_eq_Inr split: if_splits)
  have e: "extends p p' \<and> (f \<noteq> 3 \<longrightarrow> (\<exists>u. hit f u p'))" using cron_item_extends [OF p'(1) assms(2,3)] .
  have "extends p' q"
    by (rule rfold_extends [OF _ p'(2)]) (use cron_item_extends assms(3) e extends_shaped in blast)+
  then show ?thesis using e extends_trans extends_hit [of p' q f] assms(3) by fastforce
next
  case False
  then show ?thesis using assms cron_item_extends by (auto simp: cron_part_def)
qed

lemma entries_extend:
  "rfold (\<lambda>(i, w). cron_part i w) (enumerate k ws) p = Inr q \<Longrightarrow> shaped p \<Longrightarrow> k + length ws \<le> 7 \<Longrightarrow>
   extends p q \<and> (\<forall>i. k \<le> i \<and> i < k + length ws \<and> i \<noteq> 3 \<longrightarrow> (\<exists>u. hit i u q))"
proof (induction ws arbitrary: k p)
  case Nil
  then show ?case by (auto simp: extends_refl)
next
  case (Cons w ws)
  then obtain p' where p': "cron_part k w p = Inr p'" "rfold (\<lambda>(i, w). cron_part i w) (enumerate (Suc k) ws) p' = Inr q"
    by (auto simp: rbind_eq_Inr)
  have e: "extends p p'" "k \<noteq> 3 \<Longrightarrow> \<exists>u. hit k u p'" using cron_part_extends [OF p'(1)] Cons.prems by auto
  have f: "extends p' q" "\<And>i. Suc k \<le> i \<Longrightarrow> i < Suc k + length ws \<Longrightarrow> i \<noteq> 3 \<Longrightarrow> \<exists>u. hit i u q"
    using Cons.IH [OF p'(2) extends_shaped [OF e(1)]] Cons.prems(3) by auto
  have "\<exists>u. hit i u q" if "k \<le> i" "i < k + length (w # ws)" "i \<noteq> 3" for i
    using that e(2) f extends_hit [OF f(1), of k] Cons.prems(3) by (cases "i = k") auto
  then show ?case using extends_trans [OF e(1) f(1)] by blast
qed

lemma parse_entries_hits:
  assumes "parse_entries ws p = Inr q" "shaped p" "length ws = 7" "i < 7" "i \<noteq> 3"
  shows "shaped q" "\<exists>u. hit i u q"
  using assms entries_extend [of 0 "map (map (\<lambda>c. if c = 63 then 42 else c)) ws" p q] extends_shaped
  by (auto simp: parse_entries_def Let_def rbind_eq_Inr)

lemma shaped_empty: "shaped empty_pattern"
proof -
  have "i = 0 \<or> i = 1 \<or> i = 2 \<or> i = 3 \<or> i = 4 \<or> i = 5 \<or> i = 6 \<or> i = 7" if "i < 8" for i :: nat using that by linarith
  then have "length (get_mask i empty_pattern) = cron_lengths ! i" if "i < 8" for i
    using that by (fastforce simp: get_mask_def empty_pattern_def cron_lengths_def)
  then show ?thesis by (simp add: shaped_def) (simp add: empty_pattern_def cron_lengths_def)
qed

lemma shaped_flags: "masks q = masks p \<Longrightarrow> nearest q = nearest p \<Longrightarrow> shaped q \<longleftrightarrow> shaped p"
  by (simp add: shaped_def get_mask_def)

lemma dom_entry_shaped: "dom_entry s p = (t, q) \<Longrightarrow> shaped p \<Longrightarrow> shaped q"
  by (auto simp: dom_entry_def Let_def split: if_splits prod.splits elim!: shaped_flags [THEN iffD2, rotated 2])

lemma dow_entry_shaped: "dow_entry s p = Inr (t, q) \<Longrightarrow> shaped p \<Longrightarrow> shaped q"
  by (auto simp: dow_entry_def Let_def split: if_splits elim!: shaped_flags [THEN iffD2, rotated 2])

lemma parse_cron_wf:
  assumes "parse_cron input = Inr p"
  shows "shaped p" "i < 7 \<Longrightarrow> i \<noteq> 3 \<Longrightarrow> \<exists>u. hit i u p"
proof -
  obtain v where v: "nickname (encoded input) = Inr v" using assms by (auto simp: parse_cron_def rbind_eq_Inr)
  obtain a b c d e where ws: "words_of v = [a, b, c, d, e]"
    using assms by (auto simp: parse_cron_def v split: list.split_asm if_split_asm)
  obtain c' q e' q' where q: "dom_entry c empty_pattern = (c', q)" "dow_entry e q = Inr (e', q')"
    "parse_entries [text_of ''0'', a, b, c', replace_names month_names 1 d, e', text_of ''*''] q' = Inr p"
    using assms by (auto simp: parse_cron_def v ws rbind_eq_Inr split: prod.splits)
  have "shaped q'" using dow_entry_shaped [OF q(2) dom_entry_shaped [OF q(1) shaped_empty]] .
  then have e: "parse_entries [text_of ''0'', a, b, c', replace_names month_names 1 d, e', text_of ''*''] q' = Inr p" "shaped q'"
    "length [text_of ''0'', a, b, c', replace_names month_names 1 d, e', text_of ''*''] = 7" using q(3) by simp_all
  show "shaped p" using parse_entries_hits(1) [OF e, of 0] by simp
  show "\<exists>u. hit i u p" if "i < 7" "i \<noteq> 3" using parse_entries_hits(2) [OF e that] .
qed

section \<open>The expression of a weekly schedule\<close>

fun joined :: "nat \<Rightarrow> text_value list \<Rightarrow> text_value" where
  "joined sep [] = []"
| "joined sep [w] = w"
| "joined sep (w # ws) = w @ sep # joined sep ws"

definition weekly_text :: "nat \<Rightarrow> nat \<Rightarrow> nat list \<Rightarrow> text_value" where
  "weekly_text minute hour weekdays =
     decimal_digits minute @ 32 # decimal_digits hour @ 32 # text_of ''* * '' @ joined 44 (map decimal_digits weekdays)"

definition weekly_pattern :: "nat \<Rightarrow> nat \<Rightarrow> nat list \<Rightarrow> pattern" where
  "weekly_pattern minute hour weekdays =
     \<lparr>masks = [(replicate 60 0)[0 := 1], (replicate 60 0)[minute := 1], (replicate 24 0)[hour := 1], replicate 31 1, replicate 12 1,
        map (\<lambda>d. if d \<in> set weekdays then 63 else 0) [0..<7], replicate 10000 1], nearest = replicate 31 0,
      last_day_of_month = False, last_weekday = False, star_dom = True, star_dow = False, dom_and_dow = False\<rparr>"

lemma split_on_none: "\<forall>c \<in> set w. \<not> P c \<Longrightarrow> split_on P w = [w]"
  by (induction w) auto

lemma split_on_sep: "\<forall>c \<in> set w. \<not> P c \<Longrightarrow> P c \<Longrightarrow> split_on P (w @ c # xs) = w # split_on P xs"
  by (induction w) auto

lemma split_on_joined:
  "ws \<noteq> [] \<Longrightarrow> \<forall>w \<in> set ws. \<forall>c \<in> set w. \<not> P c \<Longrightarrow> P sep \<Longrightarrow> split_on P (joined sep ws) = ws"
  by (induction sep ws rule: joined.induct) (auto simp: split_on_none split_on_sep)

definition plain :: "text_value \<Rightarrow> bool" where
  "plain s \<longleftrightarrow> (\<forall>c \<in> set s. is_digit c \<or> c = 42 \<or> c = 44)"

lemma plain_digits: "plain (decimal_digits n)"
  by (auto simp: plain_def dest: decimal_digits_digit)

lemma set_joined: "set (joined sep ws) \<subseteq> insert sep (\<Union> (set ` set ws))"
  by (induction sep ws rule: joined.induct) auto

lemma plain_joined: "\<forall>w \<in> set ws. plain w \<Longrightarrow> plain (joined 44 ws)"
  using set_joined [of 44 ws] by (fastforce simp: plain_def)

lemma plain_unit: "plain s \<Longrightarrow> c \<in> set s \<Longrightarrow> c < 58 \<and> c \<noteq> 45 \<and> c \<noteq> 47 \<and> c \<noteq> 35 \<and> \<not> whitespace c \<and> 42 \<le> c"
  by (auto simp: plain_def is_digit_def whitespace_def)

lemma replace_ci_plain: "plain s \<Longrightarrow> 64 < f \<or> f = 45 \<Longrightarrow> replace_ci (f # fs) t s = s"
proof (induction s)
  case (Cons c s)
  then have "ascii_lower c \<noteq> f" using plain_unit [OF Cons.prems(1), of c] by (auto simp: ascii_lower_def)
  moreover have "plain s" using Cons.prems by (simp add: plain_def)
  ultimately show ?case using Cons by simp
qed simp

lemma replace_names_plain:
  assumes "plain s" "\<forall>n \<in> set names. \<exists>c cs. n = c # cs \<and> 64 < (of_char c :: nat)"
  shows "replace_names names k s = s"
proof -
  have "fold (\<lambda>(name, i). replace_ci (text_of name) (decimal_digits i)) xs s = s"
    if "\<forall>x \<in> set xs. \<exists>c cs. fst x = c # cs \<and> 64 < (of_char c :: nat)" for xs
    using that
  proof (induction xs)
    case (Cons x xs)
    then obtain c cs where "fst x = c # cs" "64 < (of_char c :: nat)" by auto
    then have "replace_ci (text_of (fst x)) (decimal_digits (snd x)) s = s" using replace_ci_plain assms(1) by (simp add: text_of_def)
    then show ?case using Cons by (simp add: case_prod_unfold)
  qed simp
  moreover have "\<forall>x \<in> set (zip names [k..<k + length names]). \<exists>c cs. fst x = c # cs \<and> 64 < (of_char c :: nat)"
    using assms(2) by (auto dest: set_zip_leftD)
  ultimately show ?thesis by (simp add: replace_names_def)
qed

lemma decimal_digits_ne: "decimal_digits n \<noteq> []"
  by (simp add: decimal_digits.simps [of n])

lemma cron_integer_decimal: "cron_integer (decimal_digits n) = Some (int n)"
proof -
  have t: "takeWhile is_digit (decimal_digits n) = decimal_digits n" using decimal_digits_digit by (simp add: takeWhile_eq_all_conv)
  show ?thesis unfolding cron_integer_def Let_def t by (simp add: decimal_digits_ne)
qed

lemma digits_last: "decimal_digits n \<noteq> [] \<and> last (decimal_digits n) \<notin> {76, 108}"
proof -
  have "is_digit (last (decimal_digits n))" using decimal_digits_digit last_in_set [OF decimal_digits_ne] by blast
  then show ?thesis using decimal_digits_ne by (auto simp: is_digit_def)
qed

lemma digits_atoms:
  assumes "\<forall>c \<in> set s. is_digit c"
  shows "45 \<notin> set s" "47 \<notin> set s" "35 \<notin> set s" "44 \<notin> set s" "87 \<notin> ascii_upper ` set s" "s \<noteq> [42]" "63 \<notin> set s"
  using assms by (auto simp: is_digit_def ascii_upper_def split: if_splits)

lemma cron_item_decimal:
  assumes "f \<noteq> 3" "f \<noteq> 4"
  shows "cron_item f (decimal_digits n) p = set_value f (int n) None p"
proof -
  have d: "\<forall>c \<in> set (decimal_digits n). is_digit c" using decimal_digits_digit by blast
  show ?thesis using assms digits_atoms [OF d] digits_last [of n]
    by (simp add: cron_item_def cron_atom_def split_nth_def number_at_def cron_integer_decimal field_offset_def Let_def)
qed

lemma cron_part_decimal:
  assumes "f \<noteq> 3" "f \<noteq> 4"
  shows "cron_part f (decimal_digits n) p = set_value f (int n) None p"
proof -
  have "\<forall>c \<in> set (decimal_digits n). is_digit c" using decimal_digits_digit by blast
  then show ?thesis using digits_atoms(4) cron_item_decimal [OF assms] by (simp add: cron_part_def)
qed

lemma weekdays_part:
  assumes "ds \<noteq> []" "\<forall>d \<in> set ds. d < 7" "length (masks p) = 7" "length (masks p ! 5) = 7"
  shows "cron_part 5 (joined 44 (map decimal_digits ds)) p =
    Inr (put_mask 5 (map (\<lambda>d. if d \<in> set ds then 63 else masks p ! 5 ! d) [0..<7]) p)"
proof -
  have fold: "rfold (cron_item 5) (map decimal_digits es) q =
      Inr (put_mask 5 (map (\<lambda>d. if d \<in> set es then 63 else masks q ! 5 ! d) [0..<7]) q)"
    if "\<forall>d \<in> set es. d < 7" "length (masks q) = 7" "length (masks q ! 5) = 7" for es q
    using that
  proof (induction es arbitrary: q)
    case Nil
    have "map (\<lambda>d. masks q ! 5 ! d) [0..<7] = masks q ! 5" using map_nth [of "masks q ! 5"] Nil by simp
    then show ?case by (simp add: put_mask_def)
  next
    case (Cons d es)
    let ?q = "put_mask 5 ((masks q ! 5)[d := 63]) q"
    have d: "d < 7" using Cons.prems by simp
    have c: "cron_item 5 (decimal_digits d) q = Inr ?q"
      using d by (simp add: cron_item_decimal set_value_def nth_mask_def cron_lengths_def)
    have q: "length (masks ?q) = 7" "masks ?q ! 5 = (masks q ! 5)[d := 63]" using Cons.prems by (simp_all add: put_mask_def)
    have m: "map (\<lambda>e. if e \<in> set es then 63 else (masks q ! 5)[d := 63] ! e) [0..<7] =
        map (\<lambda>e. if e \<in> set (d # es) then 63 else masks q ! 5 ! e) [0..<7]"
      using d Cons.prems by (auto simp: nth_list_update)
    have "rfold (cron_item 5) (map decimal_digits es) ?q =
        Inr (put_mask 5 (map (\<lambda>e. if e \<in> set es then 63 else masks ?q ! 5 ! e) [0..<7]) ?q)"
      by (rule Cons.IH) (use Cons.prems q in auto)
    then show ?case unfolding q(2) m using c by (simp add: put_mask_def)
  qed
  have one: "cron_part 5 (decimal_digits d) p = rfold (cron_item 5) [decimal_digits d] p" for d
    by (simp add: cron_part_decimal cron_item_decimal rbind_def split: sum.splits)
  have split: "split_on (\<lambda>c. c = 44) (joined 44 (map decimal_digits ds)) = map decimal_digits ds"
    by (rule split_on_joined) (use assms(1) decimal_digits_digit in \<open>auto simp: is_digit_def\<close>, fastforce)
  show ?thesis
  proof (cases "tl ds")
    case Nil
    then obtain d where "ds = [d]" using assms(1) by (cases ds) auto
    then show ?thesis using one [of d] fold [of ds p] assms by simp
  next
    case (Cons e es)
    then obtain d where ds: "ds = d # e # es" using assms(1) by (cases ds) auto
    then have "44 \<in> set (joined 44 (map decimal_digits ds))" "joined 44 (map decimal_digits ds) \<noteq> []" by simp_all
    then show ?thesis using fold [of ds p] assms split by (simp add: cron_part_def)
  qed
qed

lemma star_part: "cron_part f [42] p = Inr (put_mask f (replicate (length (get_mask f p)) (if f = 5 then 63 else 1)) p)"
  by (simp add: cron_part_def cron_item_def)

lemma weekly_words:
  assumes "ds \<noteq> []"
  shows "words_of (weekly_text m h ds) =
    [decimal_digits m, decimal_digits h, [42], [42], joined 44 (map decimal_digits ds)]"
proof -
  let ?j = "joined 44 (map decimal_digits ds)"
  have w: "\<forall>c \<in> set w. \<not> whitespace c" if "plain w" for w using plain_unit [OF that] by blast
  have p: "plain ?j" by (rule plain_joined) (simp add: plain_digits)
  have j: "?j \<noteq> []" using assms decimal_digits_ne by (cases ds; cases "tl ds") auto
  have s: "whitespace 32" "\<not> whitespace 42" by (simp_all add: whitespace_def)
  have "split_on whitespace (weekly_text m h ds) = [decimal_digits m, decimal_digits h, [42], [42], ?j]"
    unfolding weekly_text_def text_of_def
    using split_on_sep [OF w [OF plain_digits], of 32] split_on_none [OF w [OF p]] s
    by simp
  then show ?thesis using j decimal_digits_ne by (simp add: words_of_def)
qed

lemma nickname_digit: "s \<noteq> [] \<Longrightarrow> is_digit (hd s) \<Longrightarrow> is_digit (last s) \<Longrightarrow> nickname s = Inr s"
proof -
  assume s: "s \<noteq> []" "is_digit (hd s)" "is_digit (last s)"
  have w: "\<not> whitespace c" if "is_digit c" for c using that by (auto simp: is_digit_def whitespace_def)
  have "dropWhile whitespace s = s" "dropWhile whitespace (rev s) = rev s"
    using s w by (simp_all add: dropWhile_eq_self_iff hd_rev)
  then have t: "trim_text s = s" by (simp add: trim_text_def)
  have k: "map ascii_lower s \<noteq> 64 # k" for k using s(1,2) by (cases s) (auto simp: is_digit_def ascii_lower_def)
  show ?thesis unfolding nickname_def t Let_def using k k [symmetric] by (simp add: text_of_def nicknames_def)
qed

lemma set_value_fresh:
  assumes "f < 7" "f \<noteq> 5" "f \<noteq> 6" "v < cron_lengths ! f"
  shows "set_value f (int v) None p = Inr (put_mask f ((masks p ! f)[v := 1]) p)"
  using assms by (simp add: set_value_def get_mask_def Let_def)

lemma joined_ends:
  "ws \<noteq> [] \<Longrightarrow> \<forall>w \<in> set ws. w \<noteq> [] \<Longrightarrow>
   joined sep ws \<noteq> [] \<and> hd (joined sep ws) = hd (hd ws) \<and> last (joined sep ws) = last (last ws)"
  by (induction sep ws rule: joined.induct) auto

lemma weekdays_text:
  assumes "ds \<noteq> []"
  defines "j \<equiv> joined 44 (map decimal_digits ds)"
  shows "plain j" "j \<noteq> []" "is_digit (hd j)" "is_digit (last j)"
proof -
  have e: "j \<noteq> []" "hd j = hd (decimal_digits (hd ds))" "last j = last (decimal_digits (last ds))"
    using joined_ends [of "map decimal_digits ds" 44] assms decimal_digits_ne by (auto simp: hd_map last_map)
  show "plain j" unfolding j_def by (rule plain_joined) (simp add: plain_digits)
  show "j \<noteq> []" "is_digit (hd j)" "is_digit (last j)"
    using e decimal_digits_digit hd_in_set [OF decimal_digits_ne] last_in_set [OF decimal_digits_ne] by auto
qed

lemma weekly_nickname:
  assumes "ds \<noteq> []"
  shows "nickname (encoded (weekly_text m h ds)) = Inr (weekly_text m h ds)"
proof -
  note j = weekdays_text [OF assms]
  have "c < 58" if "c \<in> set (weekly_text m h ds)" for c
    using that plain_unit [OF j(1)] plain_unit [OF plain_digits] by (auto simp: weekly_text_def text_of_def)
  then have "encoded (weekly_text m h ds) = weekly_text m h ds" by (force simp: encoded_def intro: map_idI)
  moreover have "nickname (weekly_text m h ds) = Inr (weekly_text m h ds)"
    by (rule nickname_digit)
      (use j decimal_digits_ne [of m] decimal_digits_digit hd_in_set [OF decimal_digits_ne] in \<open>auto simp: weekly_text_def text_of_def\<close>)
  ultimately show ?thesis by simp
qed

lemma weekly_dow:
  assumes "ds \<noteq> []"
  shows "dow_entry (joined 44 (map decimal_digits ds)) p = Inr (joined 44 (map decimal_digits ds), p\<lparr>star_dow := False\<rparr>)"
proof -
  note j = weekdays_text [OF assms]
  have "replace_ci (text_of ''-sun'') (text_of ''-7'') (joined 44 (map decimal_digits ds)) = joined 44 (map decimal_digits ds)"
    using replace_ci_plain [OF j(1)] by (simp add: text_of_def)
  moreover have "replace_names day_names 0 (joined 44 (map decimal_digits ds)) = joined 44 (map decimal_digits ds)"
    by (rule replace_names_plain [OF j(1)]) (simp add: day_names_def)
  moreover have "hd (joined 44 (map decimal_digits ds)) \<noteq> 43" "joined 44 (map decimal_digits ds) \<noteq> [42]"
    using j(2,3) by (auto simp: is_digit_def)
  ultimately show ?thesis by (simp add: dow_entry_def Let_def)
qed

lemma plain_entry: "plain s \<Longrightarrow> map (\<lambda>c. if c = 63 then 42 else c) s = s" "plain s \<Longrightarrow> list_all (allowed_char i) s"
  by (auto simp: plain_def is_digit_def allowed_char_def list_all_iff intro!: map_idI)

lemma plain_entries:
  assumes "\<forall>w \<in> set ws. plain w"
  shows "parse_entries ws p = rfold (\<lambda>(i, w). cron_part i w) (enumerate 0 ws) p"
proof -
  have "map (map (\<lambda>c. if c = 63 then 42 else c)) ws = ws" using assms plain_entry(1) by (auto intro: map_idI)
  moreover have "find (\<lambda>(i, w). \<not> list_all (allowed_char i) w) (enumerate 0 ws) = None"
    using assms plain_entry(2) by (auto simp: find_None_iff enumerate_eq_zip dest!: set_zip_rightD)
  ultimately show ?thesis by (simp add: parse_entries_def check_characters_def)
qed

lemma parse_weekly:
  assumes "m < 60" "h < 24" "ds \<noteq> []" "\<forall>d \<in> set ds. d < 7"
  shows "parse_cron (weekly_text m h ds) = Inr (weekly_pattern m h ds)"
proof -
  let ?j = "joined 44 (map decimal_digits ds)" and ?q = "empty_pattern\<lparr>star_dom := True, star_dow := False\<rparr>"
  have day: "dom_entry [42] empty_pattern = ([42], empty_pattern\<lparr>star_dom := True\<rparr>)"
    by (simp add: dom_entry_def text_of_def ascii_lower_def ascii_upper_def)
  have mon: "replace_names month_names 1 [42] = [42]" by (rule replace_names_plain) (simp_all add: plain_def month_names_def)
  have zero: "text_of ''0'' = decimal_digits 0" "text_of ''*'' = [42]" by (simp_all add: text_of_def decimal_digits_small)
  have "parse_cron (weekly_text m h ds) = parse_entries [decimal_digits 0, decimal_digits m, decimal_digits h, [42], [42], ?j, [42]] ?q"
    unfolding parse_cron_def weekly_nickname [OF assms(3)] rbind_simps weekly_words [OF assms(3)] list.case day prod.case
      weekly_dow [OF assms(3)] mon zero by simp
  also have "\<dots> = rfold (\<lambda>(i, w). cron_part i w) (enumerate 0 [decimal_digits 0, decimal_digits m, decimal_digits h, [42], [42], ?j, [42]]) ?q"
    by (rule plain_entries) (use plain_digits weekdays_text(1) [OF assms(3)] in \<open>auto simp: plain_def\<close>)
  also have "\<dots> = Inr (weekly_pattern m h ds)"
  proof -
    have w: "cron_part 5 ?j p = Inr (put_mask 5 (map (\<lambda>d. if d \<in> set ds then 63 else masks p ! 5 ! d) [0..<7]) p)"
      if "length (masks p) = 7" "length (masks p ! 5) = 7" for p
      using weekdays_part [OF assms(3,4) that] .
    have z: "map (\<lambda>d. if d \<in> set ds then 63 else replicate 7 0 ! d) [0..<7] = map (\<lambda>d. if d \<in> set ds then 63 else (0::nat)) [0..<7]"
      by auto
    have en: "enumerate 0 [a, b, c, d, e, f, g] = [(0, a), (1, b), (2, c), (3, d), (4, e), (5, f), (6, g)]" for a b c d e f g :: text_value
      by (simp add: numeral_eq_Suc)
    have v: "cron_part 0 (decimal_digits 0) p = Inr (put_mask 0 ((masks p ! 0)[0 := 1]) p)"
      "cron_part 1 (decimal_digits m) p = Inr (put_mask 1 ((masks p ! 1)[m := 1]) p)"
      "cron_part 2 (decimal_digits h) p = Inr (put_mask 2 ((masks p ! 2)[h := 1]) p)" for p
      using set_value_fresh [of 0 0 p] set_value_fresh [of 1 m p] set_value_fresh [of 2 h p] assms(1,2)
      by (simp_all add: cron_part_decimal cron_lengths_def)
    show ?thesis unfolding en rfold.simps prod.case v rbind_simps star_part
      by (simp add: w z put_mask_def get_mask_def empty_pattern_def weekly_pattern_def cron_lengths_def del: upt_Suc)
  qed
  finally show ?thesis .
qed

section \<open>Properties\<close>

text \<open>
  (C35) A parsed pattern is well typed: it has seven masks of the lengths of their fields and one for the nearest
  weekdays, a day of the week selects occurrences within its six bits, and every field but the days of the month has a
  value selected, so that the search for a date can always go on to one.
\<close>

theorem parsed_pattern_typed:
  assumes "parse_cron input = Inr p"
  shows "map length (masks p) = take 7 cron_lengths \<and> length (nearest p) = 31 \<and> (\<forall>b \<in> set (masks p ! 5). b < 64) \<and>
    (\<forall>i < 7. i \<noteq> 3 \<longrightarrow> (\<exists>v < cron_lengths ! i. masks p ! i ! v \<noteq> 0))"
proof -
  have s: "length (masks p) = 7" "\<And>i. i < 8 \<Longrightarrow> length (get_mask i p) = cron_lengths ! i" "\<forall>b \<in> set (masks p ! 5). b < 64"
    using parse_cron_wf(1) [OF assms] by (auto simp: shaped_def)
  have g: "length (masks p ! i) = cron_lengths ! i" if "i < 7" for i using s(2) [of i] that by (simp add: get_mask_def)
  have "map length (masks p) = take 7 cron_lengths"
    by (rule nth_equalityI) (use s(1) g in \<open>auto simp: cron_lengths_def [THEN arg_cong, of length]\<close>)
  moreover have "length (nearest p) = 31" using s(2) [of 7] by (simp add: get_mask_def cron_lengths_def)
  moreover have "\<exists>v < cron_lengths ! i. masks p ! i ! v \<noteq> 0" if "i < 7" "i \<noteq> 3" for i
    using parse_cron_wf(2) [OF assms that] g [OF that(1)] that(1) by (auto simp: hit_def get_mask_def)
  ultimately show ?thesis using s(3) by blast
qed

theorem parsed_pattern_typed_witness:
  "\<exists>p. parse_cron (weekly_text 30 9 [1, 3]) = Inr p \<and> map length (masks p) = take 7 cron_lengths"
proof -
  have p: "parse_cron (weekly_text 30 9 [1, 3]) = Inr (weekly_pattern 30 9 [1, 3])" by (rule parse_weekly) simp_all
  from parsed_pattern_typed [OF p] p show ?thesis by blast
qed

end
