(* ===== verification/CronDate.thy ===== *)
theory CronDate
  imports Cron JsDate
begin

text \<open>
  The next date of a cron pattern (\<^verbatim>\<open>cantrip_server_rs/src/project_automations/cron_date.rs\<close>). Civil fields are the
  source's array: year, month from zero, day, hour, minute and second. A time zone of the \<open>jiff\<close> crate is a parameter:
  \<open>zone\<close> gives the civil fields of an instant (with months from one), or nothing outside the crate's range. An error of
  the source is \<open>None\<close>. The search loop runs until it has matched every stage or passed the year 3000; it is a
  \<open>partial_function\<close>, whose \<open>None\<close> is a loop that does not end.
\<close>

type_synonym civil = "int list"
type_synonym zone = "int \<Rightarrow> (int \<times> int \<times> int \<times> int \<times> int \<times> int) option"

section \<open>Civil fields and zones\<close>

definition month_table :: "int list" where
  "month_table = [31, 28, 31, 30, 31, 30, 31, 31, 30, 31, 30, 31]"

definition cron_utc :: "civil \<Rightarrow> int option" where
  "cron_utc f =
     (case utc_milliseconds (f ! 0) (f ! 1) (f ! 2) of
        None \<Rightarrow> None
      | Some v \<Rightarrow>
          let value = v + (f ! 3 * 3600 + f ! 4 * 60 + f ! 5) * 1000
          in if \<bar>value\<bar> \<le> time_clip then Some value else None)"

definition cron_utc_fields :: "int \<Rightarrow> civil option" where
  "cron_utc_fields ms =
     (case utc_fields ms of
        None \<Rightarrow> None
      | Some (y, m, d) \<Rightarrow>
          let c = ms mod day_ms in Some [y, m - 1, d, c div 3600000, c div 60000 mod 60, c div 1000 mod 60])"

definition cron_local :: "zone \<Rightarrow> bool \<Rightarrow> int \<Rightarrow> civil option" where
  "cron_local zone intl ms =
     Option.bind (cron_utc_fields ms) (\<lambda>f.
       let year = lookup_year (f ! 0)
       in Option.bind (if year = f ! 0 then Some ms else cron_utc (f[0 := year])) (\<lambda>representative.
            Option.bind (zone representative) (\<lambda>(y, m, d, h, mi, s).
              let year' = y + f ! 0 - year
              in Some [if intl \<and> year' \<le> 0 then 1 - year' else year', m - 1, d, h, mi, s])))"

definition from_tz :: "zone \<Rightarrow> civil \<Rightarrow> int option" where
  "from_tz zone f =
     Option.bind (cron_utc f) (\<lambda>t.
       Option.bind (cron_local zone True t) (\<lambda>r.
         Option.bind (cron_utc r) (\<lambda>ur.
           let first = t + t - ur
           in Option.bind (cron_local zone True first) (\<lambda>h.
                if h = f
                then Option.bind (cron_local zone True (first - 3600000)) (\<lambda>e.
                       Some (if e = f then first - 3600000 else first))
                else Option.bind (cron_utc h) (\<lambda>uh.
                       let second = first + t - uh
                       in Option.bind (cron_local zone True second) (\<lambda>x.
                            Some (if x = f then second else max first second)))))))"

definition once_fields :: "(int \<Rightarrow> int option) \<Rightarrow> zone \<Rightarrow> zone \<Rightarrow> zone \<Rightarrow> nat list \<Rightarrow> civil option" where
  "once_fields host host_zone utc_zone zone expression =
     Option.bind (parse_date host expression) (\<lambda>parsed.
       let explicit = (\<exists>u \<in> set (drop 9 expression). u = 90 \<or> u = 43 \<or> u = 45)
       in Option.bind (if explicit then cron_utc_fields parsed else cron_local host_zone False parsed) (\<lambda>f.
            Option.bind (from_tz (if explicit then utc_zone else zone) f) (cron_local zone True)))"

definition cron_once :: "(int \<Rightarrow> int option) \<Rightarrow> zone \<Rightarrow> zone \<Rightarrow> zone \<Rightarrow> nat list \<Rightarrow> int \<Rightarrow> int option option" where
  "cron_once host host_zone utc_zone zone expression after =
     Option.bind (Option.bind (once_fields host host_zone utc_zone zone expression) (from_tz zone)) (\<lambda>once.
       Option.bind (Option.bind (cron_local zone True after) (from_tz zone)) (\<lambda>now.
         Some (if once > now then Some once else None)))"

section \<open>Days\<close>

definition cron_last_day :: "int \<Rightarrow> int \<Rightarrow> int option" where
  "cron_last_day year month =
     (if month \<noteq> 1 then Some (month_table ! nat month)
      else Option.bind (utc_milliseconds year (month + 1) 0) (\<lambda>v.
             Option.bind (cron_utc_fields v) (\<lambda>f. Some (f ! 2))))"

definition cron_weekday :: "int \<Rightarrow> int \<Rightarrow> int \<Rightarrow> int option" where
  "cron_weekday year month day = map_option (\<lambda>v. (v div day_ms + 4) mod 7) (cron_utc [year, month, day, 0, 0, 0])"

fun nearest_match :: "int \<Rightarrow> int \<Rightarrow> int \<Rightarrow> int \<Rightarrow> int list \<Rightarrow> bool option" where
  "nearest_match year month last_d day [] = Some False"
| "nearest_match year month last_d day (t # ts) =
     (if t > last_d then nearest_match year month last_d day ts
      else Option.bind (cron_weekday year month t) (\<lambda>w.
             let n = (if w = 0 then (if t = last_d then t - 2 else t + 1)
                      else if w = 6 then (if t = 1 then t + 2 else t - 1) else t)
             in if day = n then Some True else nearest_match year month last_d day ts))"

definition nearest_days :: "pattern \<Rightarrow> int list" where
  "nearest_days p = map (\<lambda>i. int i + 1) (filter (\<lambda>i. nearest p ! i \<noteq> 0) [0..<length (nearest p)])"

definition last_weekday_of :: "int \<Rightarrow> int \<Rightarrow> int" where
  "last_weekday_of last_d w = (if w = 0 then last_d - 2 else if w = 6 then last_d - 1 else last_d)"

definition week_selected :: "pattern \<Rightarrow> int \<Rightarrow> int \<Rightarrow> int \<Rightarrow> bool" where
  "week_selected p first_w last_d day =
     (let b = masks p ! 5 ! nat ((first_w + day - 1) mod 7)
      in bit b (nat ((day - 1) div 7)) \<or> (bit b 5 \<and> day + 7 > last_d))"

definition day_match :: "pattern \<Rightarrow> civil \<Rightarrow> int \<Rightarrow> bool option" where
  "day_match p f day =
     Option.bind (cron_last_day (f ! 0) (f ! 1)) (\<lambda>last_d.
       Option.bind (if masks p ! 3 ! nat (day - 1) \<noteq> 0 then Some True
                    else nearest_match (f ! 0) (f ! 1) last_d day (nearest_days p)) (\<lambda>m1.
         Option.bind (if last_weekday p
                      then map_option (\<lambda>w. m1 \<or> day = last_weekday_of last_d w) (cron_weekday (f ! 0) (f ! 1) last_d)
                      else Some m1) (\<lambda>m2.
           let m3 = (m2 \<or> (last_day_of_month p \<and> day = last_d))
           in if star_dow p then Some m3
              else map_option (\<lambda>w.
                     if dom_and_dow p \<or> star_dom p then m3 \<and> week_selected p w last_d day
                     else m3 \<or> week_selected p w last_d day) (cron_weekday (f ! 0) (f ! 1) 1))))"

section \<open>The search\<close>

definition normalize_civil :: "civil \<Rightarrow> (civil \<times> bool) option" where
  "normalize_civil f =
     (if \<not> (0 \<le> f ! 1 \<and> f ! 1 \<le> 11) \<or> f ! 2 < 1 \<or> f ! 2 > month_table ! nat (f ! 1) \<or> f ! 3 > 59 \<or> f ! 4 > 59 \<or> f ! 5 > 59 \<or>
         f ! 3 < 0 \<or> f ! 4 < 0 \<or> f ! 5 < 0
      then map_option (\<lambda>g. (g, True)) (Option.bind (cron_utc f) cron_utc_fields)
      else Some (f, False))"

definition stage_mask :: "nat \<Rightarrow> nat" where
  "stage_mask stage = 4 - stage"

definition stage_offset :: "nat \<Rightarrow> int" where
  "stage_offset stage = (if stage = 1 then - 1 else 0)"

definition stage_match :: "pattern \<Rightarrow> civil \<Rightarrow> nat \<Rightarrow> int \<Rightarrow> bool option" where
  "stage_match p f stage v =
     (if stage = 1 then day_match p f (v - stage_offset stage) else Some (masks p ! stage_mask stage ! nat v \<noteq> 0))"

fun first_value :: "(int \<Rightarrow> bool option) \<Rightarrow> int list \<Rightarrow> int option option" where
  "first_value ok [] = Some None"
| "first_value ok (v # vs) =
     (if v < 0 then first_value ok vs
      else Option.bind (ok v) (\<lambda>b. if b then Some (Some v) else first_value ok vs))"

definition select_value :: "pattern \<Rightarrow> civil \<Rightarrow> nat \<Rightarrow> int option option" where
  "select_value p f stage =
     map_option (map_option (\<lambda>v. v - stage_offset stage))
       (first_value (stage_match p f stage)
          [f ! (stage + 1) + stage_offset stage..int (length (masks p ! stage_mask stage)) - 1])"

definition reset_lower :: "nat \<Rightarrow> civil \<Rightarrow> civil" where
  "reset_lower stage f = fold (\<lambda>l g. g[l + 1 := - stage_offset l]) [stage + 1..<5] f"

datatype cron_outcome = Fires civil | Never | DateError

datatype cron_go = Stop cron_outcome | Go civil nat

definition stage_done :: "civil \<Rightarrow> nat \<Rightarrow> cron_go" where
  "stage_done f stage =
     (if stage + 1 = 5 then Stop (Fires f) else if f ! 0 \<ge> 3000 then Stop Never else Go f (stage + 1))"

definition cron_step :: "pattern \<Rightarrow> civil \<Rightarrow> nat \<Rightarrow> cron_go" where
  "cron_step p f stage =
     (case select_value p f stage of
        None \<Rightarrow> Stop DateError
      | Some None \<Rightarrow>
          (let g = (reset_lower stage f)[stage + 1 := - stage_offset stage]
           in case normalize_civil (g[stage := g ! stage + 1]) of
                None \<Rightarrow> Stop DateError
              | Some (h, _) \<Rightarrow> Go h 0)
      | Some (Some v) \<Rightarrow>
          if v = f ! (stage + 1) then stage_done f stage
          else (case normalize_civil ((reset_lower stage f)[stage + 1 := v]) of
                  None \<Rightarrow> Stop DateError
                | Some (h, True) \<Rightarrow> Go h (stage - 1)
                | Some (h, False) \<Rightarrow> stage_done h stage))"

partial_function (option) cron_search :: "pattern \<Rightarrow> civil \<Rightarrow> nat \<Rightarrow> cron_outcome option" where
  "cron_search p f stage = (case cron_step p f stage of Stop r \<Rightarrow> Some r | Go g s \<Rightarrow> cron_search p g s)"

text \<open>The civil second after an instant, where the search starts.\<close>

definition cron_start :: "zone \<Rightarrow> int \<Rightarrow> civil option" where
  "cron_start zone after =
     Option.bind (cron_local zone True after) (\<lambda>f. map_option fst (normalize_civil (f[5 := f ! 5 + 1])))"

definition cron_next :: "pattern \<Rightarrow> zone \<Rightarrow> int \<Rightarrow> int option option option" where
  "cron_next p zone after =
     (case cron_start zone after of
        None \<Rightarrow> Some None
      | Some f \<Rightarrow>
          (case cron_search p f 0 of
             None \<Rightarrow> None
           | Some (Fires g) \<Rightarrow> Some (map_option Some (from_tz zone g))
           | Some Never \<Rightarrow> Some (Some None)
           | Some DateError \<Rightarrow> Some None))"

end
