(* ===== verification/CronWall.thy ===== *)
theory CronWall
  imports CronDate
begin

text \<open>
  What a cron pattern means, and the clock it is searched on. \<open>wall\<close> numbers the seconds of the civil calendar;
  \<open>fires\<close> says of a civil reading that every stage of the pattern selects it, with the days of the pattern given by
  the calendar (\<open>day_selected\<close>). The lemmas reduce the source's arithmetic (\<open>normalize_civil\<close>, \<open>day_match\<close>,
  \<open>select_value\<close>) to these, and compare a state of the search with the readings after it (\<open>no_fire\<close>).
\<close>

section \<open>Wall clock\<close>

text \<open>The day number and the second number of civil fields.\<close>

definition civil_day :: "civil \<Rightarrow> int" where
  "civil_day f = month_start (12 * f ! 0 + f ! 1) + f ! 2 - 1"

definition wall :: "civil \<Rightarrow> int" where
  "wall f = civil_day f * 86400 + f ! 3 * 3600 + f ! 4 * 60 + f ! 5"

definition civil_date :: "civil \<Rightarrow> bool" where
  "civil_date f \<longleftrightarrow> length f = 6 \<and> 0 \<le> f ! 1 \<and> f ! 1 \<le> 11 \<and> 1 \<le> f ! 2 \<and> f ! 2 \<le> month_days (12 * f ! 0 + f ! 1)"

definition valid_civil :: "civil \<Rightarrow> bool" where
  "valid_civil f \<longleftrightarrow> civil_date f \<and> 0 \<le> f ! 3 \<and> f ! 3 \<le> 23 \<and> 0 \<le> f ! 4 \<and> f ! 4 \<le> 59 \<and> 0 \<le> f ! 5 \<and> f ! 5 \<le> 59"

lemma civil_cases:
  fixes f :: civil
  assumes "length f = 6"
  obtains y m d h mi s where "f = [y, m, d, h, mi, s]"
  using assms by (auto simp: length_Suc_conv numeral_eq_Suc)

lemma civil_nth [simp]:
  fixes y :: int
  shows "[y, m, d, h, mi, s] ! 0 = y" "[y, m, d, h, mi, s] ! 1 = m" "[y, m, d, h, mi, s] ! 2 = d" "[y, m, d, h, mi, s] ! 3 = h"
    "[y, m, d, h, mi, s] ! 4 = mi" "[y, m, d, h, mi, s] ! 5 = s" "[y, m, d, h, mi, s] ! Suc 0 = m"
  by simp_all

lemma civil_day_eq:
  assumes "civil_date f" "civil_date g" "civil_day f = civil_day g"
  shows "f ! 0 = g ! 0" "f ! 1 = g ! 1" "f ! 2 = g ! 2"
proof -
  let ?t = "12 * f ! 0 + f ! 1" and ?u = "12 * g ! 0 + g ! 1"
  have "?t = ?u"
    using assms month_start_mono [of ?t ?u] month_start_mono [of ?u ?t] by (force simp: civil_date_def civil_day_def)
  moreover have "?t div 12 = f ! 0" "?u div 12 = g ! 0" using assms(1,2) by (auto simp: civil_date_def)
  ultimately show "f ! 0 = g ! 0" by simp
  then show "f ! 1 = g ! 1" using \<open>?t = ?u\<close> by simp
  then show "f ! 2 = g ! 2" using assms(3) \<open>f ! 0 = g ! 0\<close> by (simp add: civil_day_def)
qed

lemma civil_day_mono: "civil_date f \<Longrightarrow> civil_date g \<Longrightarrow> civil_day f \<le> civil_day g \<Longrightarrow> 12 * f ! 0 + f ! 1 \<le> 12 * g ! 0 + g ! 1"
  using month_start_mono [of "12 * g ! 0 + g ! 1" "12 * f ! 0 + f ! 1"] by (force simp: civil_date_def civil_day_def)

text \<open>Every second of the calendar is the wall clock of one civil reading.\<close>

lemma second_parts:
  fixes r :: int
  shows "r * 1000 div 3600000 = r div 3600" "r * 1000 div 60000 mod 60 = r div 60 mod 60" "r * 1000 div 1000 mod 60 = r mod 60"
    "r = r div 3600 * 3600 + r div 60 mod 60 * 60 + r mod 60"
proof -
  show "r * 1000 div 3600000 = r div 3600" using div_mult_mult2 [of 1000 r 3600] by simp
  show "r * 1000 div 60000 mod 60 = r div 60 mod 60" using div_mult_mult2 [of 1000 r 60] by simp
  show "r * 1000 div 1000 mod 60 = r mod 60" by simp
  have "r div 60 div 60 = r div 3600" by (simp add: zdiv_zmult2_eq [symmetric])
  then have "r div 60 = r div 3600 * 60 + r div 60 mod 60" by (metis div_mult_mod_eq)
  then show "r = r div 3600 * 3600 + r div 60 mod 60 * 60 + r mod 60" using div_mult_mod_eq [of r 60] by linarith
qed

lemma mod_60: "(x::int) mod 60 \<le> 59"
proof -
  have "k \<le> 59" if "k < 60" for k :: int using that by simp
  then show ?thesis by simp
qed

lemma wall_fields:
  assumes "\<bar>w * 1000\<bar> \<le> time_clip"
  obtains f where "cron_utc_fields (w * 1000) = Some f" "valid_civil f" "wall f = w"
proof -
  obtain y m d where u: "utc_fields (w * 1000) = Some (y, m, d)" "valid_date y m d" "days y m d = w * 1000 div day_ms"
    using assms by (rule utc_fields_days)
  define r where "r = w mod 86400"
  have r: "0 \<le> r" "r < 86400" "w * 1000 mod day_ms = r * 1000" "w * 1000 div day_ms = w div 86400"
    using mod_mult_mult2 [of w 1000 86400] div_mult_mult2 [of 1000 w 86400] by (simp_all add: r_def)
  define f where "f = [y, m - 1, d, r div 3600, r div 60 mod 60, r mod 60]"
  have c: "cron_utc_fields (w * 1000) = Some f"
    by (simp add: cron_utc_fields_def u(1) r(3) Let_def second_parts f_def)
  have m: "1 \<le> m" "m \<le> 12" using u(2) by (auto simp: valid_date_def)
  have "civil_date f" using u(2) m month_days_index [OF m, of y] by (simp add: civil_date_def f_def valid_date_def algebra_simps)
  moreover have "r div 3600 \<le> 23" using zdiv_mono1 [of r 86399 3600] r(2) by simp
  moreover have "0 \<le> r div 3600" using r(1) by (simp add: pos_imp_zdiv_nonneg_iff)
  moreover have "r div 60 mod 60 \<le> 59" "r mod 60 \<le> 59" using mod_60 by blast+
  moreover have "0 \<le> r div 60 mod 60" "0 \<le> r mod 60" by simp_all
  ultimately have v: "valid_civil f" unfolding valid_civil_def f_def civil_nth by blast
  have e: "civil_day f = w div 86400"
    using u(3) days_month_start [OF m, of y d] r(4) by (simp add: civil_day_def f_def algebra_simps)
  have "wall f = civil_day f * 86400 + (r div 3600 * 3600 + r div 60 mod 60 * 60 + r mod 60)"
    unfolding wall_def f_def civil_nth by (simp only: add.assoc)
  also have "\<dots> = w" unfolding second_parts(4) [symmetric] e r_def by (rule div_mult_mod_eq)
  finally have "wall f = w" .
  then show ?thesis using that c v by blast
qed

lemma cron_utc_wall:
  assumes "length f = 6" "100 \<le> f ! 0" "f ! 0 \<le> 270000" "0 \<le> f ! 1" "f ! 1 \<le> 12" "0 \<le> f ! 2" "f ! 2 \<le> 40"
    "0 \<le> f ! 3" "f ! 3 \<le> 59" "0 \<le> f ! 4" "f ! 4 \<le> 60" "0 \<le> f ! 5" "f ! 5 \<le> 60"
  shows "cron_utc f = Some (wall f * 1000)" "\<bar>wall f * 1000\<bar> \<le> time_clip"
proof -
  have b: "- 800000 < month_start (12 * f ! 0 + f ! 1)" "month_start (12 * f ! 0 + f ! 1) < 99999900"
    using month_start_bound [of "12 * f ! 0 + f ! 1"] assms by simp_all
  have "\<bar>wall f * 1000\<bar> \<le> time_clip" using b assms by (simp add: wall_def civil_day_def abs_le_iff)
  moreover have "(month_start (12 * f ! 0 + f ! 1) + f ! 2 - 1) * day_ms + (f ! 3 * 3600 + f ! 4 * 60 + f ! 5) * 1000 = wall f * 1000"
    by (simp add: wall_def civil_day_def algebra_simps)
  ultimately show "cron_utc f = Some (wall f * 1000)" "\<bar>wall f * 1000\<bar> \<le> time_clip"
    using utc_milliseconds_month [of "f ! 0" "f ! 1" "f ! 2"] assms by (simp_all add: cron_utc_def Let_def)
qed

section \<open>Normalization\<close>

lemma month_table_days:
  assumes "0 \<le> m" "m \<le> 11"
  shows "month_table ! nat m \<le> month_days (12 * y + m)" "m \<noteq> 1 \<Longrightarrow> month_table ! nat m = month_days (12 * y + m)"
    "m = 1 \<Longrightarrow> month_table ! nat m = 28" "month_days (12 * y + m) \<le> month_table ! nat m + 1"
proof -
  have d: "month_days (12 * y + m) = month_length y (m + 1)" using month_days_index [of "m + 1" y] assms by simp
  have "m = 0 \<or> m = 1 \<or> m = 2 \<or> m = 3 \<or> m = 4 \<or> m = 5 \<or> m = 6 \<or> m = 7 \<or> m = 8 \<or> m = 9 \<or> m = 10 \<or> m = 11"
    using assms by presburger
  then show "month_table ! nat m \<le> month_days (12 * y + m)" "m \<noteq> 1 \<Longrightarrow> month_table ! nat m = month_days (12 * y + m)"
    "m = 1 \<Longrightarrow> month_table ! nat m = 28" "month_days (12 * y + m) \<le> month_table ! nat m + 1"
    unfolding d by (auto simp: month_table_def month_length_def)
qed

lemma normalize_wall:
  assumes "length f = 6" "100 \<le> f ! 0" "f ! 0 \<le> 270000" "0 \<le> f ! 1" "f ! 1 \<le> 12" "1 \<le> f ! 2" "f ! 2 \<le> 32"
    "0 \<le> f ! 3" "f ! 3 \<le> 59" "0 \<le> f ! 4" "f ! 4 \<le> 60" "0 \<le> f ! 5" "f ! 5 \<le> 60"
  obtains g b where "normalize_civil f = Some (g, b)" "wall g = wall f" "b \<Longrightarrow> valid_civil g"
    "\<not> b \<Longrightarrow> g = f \<and> civil_date f \<and> f ! 4 \<le> 59 \<and> f ! 5 \<le> 59"
    "b \<longleftrightarrow> \<not> (f ! 1 \<le> 11 \<and> f ! 2 \<le> month_table ! nat (f ! 1) \<and> f ! 4 \<le> 59 \<and> f ! 5 \<le> 59)"
proof -
  have b: "100 \<le> f ! 0" "f ! 2 \<le> 40" using assms by auto
  have u: "cron_utc f = Some (wall f * 1000)" "\<bar>wall f * 1000\<bar> \<le> time_clip" using cron_utc_wall [of f] assms by auto
  obtain g where g: "cron_utc_fields (wall f * 1000) = Some g" "valid_civil g" "wall g = wall f"
    using wall_fields [OF u(2)] .
  show ?thesis
  proof (cases "f ! 1 \<le> 11 \<and> f ! 2 \<le> month_table ! nat (f ! 1) \<and> f ! 4 \<le> 59 \<and> f ! 5 \<le> 59")
    case True
    then have "normalize_civil f = Some (f, False)" using assms by (simp add: normalize_civil_def)
    moreover have "civil_date f" using True assms month_table_days(1) [of "f ! 1" "f ! 0"] by (simp add: civil_date_def)
    ultimately show ?thesis using that [of f False] True by simp
  next
    case False
    then have "normalize_civil f = Some (g, True)" using u g assms by (auto simp: normalize_civil_def not_le)
    then show ?thesis using that [of g True] g False by simp
  qed
qed

section \<open>Days the pattern selects\<close>

text \<open>
  The days of a pattern, in terms of the calendar: the day of the month, the weekday nearest to a day, the last weekday
  and the last day, joined with the days of the week. \<open>d\<close> may lie after the end of the month, as in the search.
\<close>

definition weekday_of :: "int \<Rightarrow> int \<Rightarrow> int \<Rightarrow> int" where
  "weekday_of y m d = (month_start (12 * y + m) + d - 1 + 4) mod 7"

definition nearest_weekday :: "int \<Rightarrow> int \<Rightarrow> int \<Rightarrow> int" where
  "nearest_weekday y m t =
     (if weekday_of y m t = 0 then (if t = month_days (12 * y + m) then t - 2 else t + 1)
      else if weekday_of y m t = 6 then (if t = 1 then t + 2 else t - 1) else t)"

definition dom_selected :: "pattern \<Rightarrow> int \<Rightarrow> int \<Rightarrow> int \<Rightarrow> bool" where
  "dom_selected p y m d \<longleftrightarrow>
     masks p ! 3 ! nat (d - 1) \<noteq> 0 \<or>
     (\<exists>t \<in> set (nearest_days p). t \<le> month_days (12 * y + m) \<and> d = nearest_weekday y m t) \<or>
     (last_weekday p \<and> d = last_weekday_of (month_days (12 * y + m)) (weekday_of y m (month_days (12 * y + m)))) \<or>
     (last_day_of_month p \<and> d = month_days (12 * y + m))"

definition dow_selected :: "pattern \<Rightarrow> int \<Rightarrow> int \<Rightarrow> int \<Rightarrow> bool" where
  "dow_selected p y m d \<longleftrightarrow> week_selected p (weekday_of y m 1) (month_days (12 * y + m)) d"

definition day_selected :: "pattern \<Rightarrow> int \<Rightarrow> int \<Rightarrow> int \<Rightarrow> bool" where
  "day_selected p y m d \<longleftrightarrow>
     (if star_dow p then dom_selected p y m d
      else if dom_and_dow p \<or> star_dom p then dom_selected p y m d \<and> dow_selected p y m d
      else dom_selected p y m d \<or> dow_selected p y m d)"

lemma cron_weekday_eq:
  assumes "100 \<le> y" "y \<le> 270000" "0 \<le> m" "m \<le> 11" "1 \<le> d" "d \<le> 31"
  shows "cron_weekday y m d = Some (weekday_of y m d)"
proof -
  have "wall [y, m, d, 0, 0, 0] * 1000 div day_ms = month_start (12 * y + m) + d - 1"
    using nonzero_mult_div_cancel_right [of day_ms "month_start (12 * y + m) + d - 1"] by (simp add: wall_def civil_day_def algebra_simps)
  then show ?thesis
    using cron_utc_wall(1) [of "[y, m, d, 0, 0, 0]"] assms by (simp add: cron_weekday_def weekday_of_def)
qed

lemma cron_last_day_eq:
  assumes "100 \<le> y" "y \<le> 270000" "0 \<le> m" "m \<le> 11"
  shows "cron_last_day y m = Some (month_days (12 * y + m))"
proof (cases "m = 1")
  case True
  have "utc_milliseconds y 2 0 = Some ((month_start (12 * y + 1 + 1) - 1) * day_ms)"
    using utc_milliseconds_month [of y 2 0] assms by (simp add: algebra_simps)
  moreover have "utc_fields ((month_start (12 * y + 1 + 1) - 1) * day_ms) = Some (y, 2, month_days (12 * y + 1))"
    using month_end_fields [of "12 * y + 1"] assms by simp
  ultimately show ?thesis using True by (simp add: cron_last_day_def cron_utc_fields_def Let_def)
next
  case False
  then show ?thesis using month_table_days(2) [OF assms(3,4), of y] by (simp add: cron_last_day_def)
qed

lemma nearest_match_eq:
  assumes "100 \<le> y" "y \<le> 270000" "0 \<le> m" "m \<le> 11" "\<forall>t \<in> set ts. 1 \<le> t"
  shows "nearest_match y m (month_days (12 * y + m)) d ts =
    Some (\<exists>t \<in> set ts. t \<le> month_days (12 * y + m) \<and> d = nearest_weekday y m t)"
  using assms(5)
proof (induction ts)
  case (Cons t ts)
  have "t \<le> month_days (12 * y + m) \<Longrightarrow> cron_weekday y m t = Some (weekday_of y m t)"
    using cron_weekday_eq [OF assms(1-4)] month_days_bounds(2) [of "12 * y + m"] Cons.prems by simp
  then show ?case using Cons by (auto simp: nearest_weekday_def Let_def)
qed simp

lemma day_match_eq:
  assumes "100 \<le> f ! 0" "f ! 0 \<le> 270000" "0 \<le> f ! 1" "f ! 1 \<le> 11"
  shows "day_match p f d = Some (day_selected p (f ! 0) (f ! 1) d)"
proof -
  have "\<forall>t \<in> set (nearest_days p). 1 \<le> t" by (auto simp: nearest_days_def)
  note n = nearest_match_eq [OF assms this]
  have w: "cron_weekday (f ! 0) (f ! 1) (month_days (12 * f ! 0 + f ! 1)) = Some (weekday_of (f ! 0) (f ! 1) (month_days (12 * f ! 0 + f ! 1)))"
    "cron_weekday (f ! 0) (f ! 1) 1 = Some (weekday_of (f ! 0) (f ! 1) 1)"
    using cron_weekday_eq [OF assms] month_days_bounds [of "12 * f ! 0 + f ! 1"] by simp_all
  show ?thesis
    by (simp add: day_match_def cron_last_day_eq [OF assms] n w Let_def day_selected_def dom_selected_def dow_selected_def
      del: One_nat_def)
qed

section \<open>What a stage selects\<close>

definition stage_selected :: "pattern \<Rightarrow> int \<Rightarrow> int \<Rightarrow> nat \<Rightarrow> int \<Rightarrow> bool" where
  "stage_selected p y m k v \<longleftrightarrow> (if k = 1 then day_selected p y m v else masks p ! (4 - k) ! nat v \<noteq> 0)"

definition stage_top :: "nat \<Rightarrow> int" where
  "stage_top k = [11, 31, 23, 59, 59] ! k"

definition fires :: "pattern \<Rightarrow> civil \<Rightarrow> bool" where
  "fires p g \<longleftrightarrow> (\<forall>k < 5. stage_selected p (g ! 0) (g ! 1) k (g ! (k + 1)))"

lemma first_value_find:
  assumes "\<forall>v \<in> set vs. 0 \<le> v \<and> ok v = Some (P v)"
  shows "first_value ok vs = Some (find P vs)"
  using assms by (induction vs) auto

lemma find_upto:
  fixes a b :: int
  shows "find P [a..b] = None \<longleftrightarrow> (\<forall>v. a \<le> v \<and> v \<le> b \<longrightarrow> \<not> P v)"
    "find P [a..b] = Some v \<Longrightarrow> a \<le> v \<and> v \<le> b \<and> P v \<and> (\<forall>u. a \<le> u \<and> u < v \<longrightarrow> \<not> P u)"
proof -
  show "find P [a..b] = None \<longleftrightarrow> (\<forall>v. a \<le> v \<and> v \<le> b \<longrightarrow> \<not> P v)" by (auto simp: find_None_iff)
  assume "find P [a..b] = Some v"
  then obtain i where i: "i < length [a..b]" "P ([a..b] ! i)" "v = [a..b] ! i" "\<forall>j < i. \<not> P ([a..b] ! j)"
    by (auto simp: find_Some_iff)
  have v: "v = a + int i" "v \<le> b" "a \<le> b" using i(1,3) by (auto simp: nth_upto)
  have "\<not> P u" if "a \<le> u" "u < v" for u
    using i(4) [rule_format, of "nat (u - a)"] that v by (simp add: nth_upto)
  then show "a \<le> v \<and> v \<le> b \<and> P v \<and> (\<forall>u. a \<le> u \<and> u < v \<longrightarrow> \<not> P u)" using i v by simp
qed

lemma stage_cases:
  fixes k :: nat
  assumes "k < 5"
  obtains "k = 0" | "k = 1" | "k = 2" | "k = 3" | "k = 4"
  using assms by linarith

lemma select_stage:
  assumes p: "shaped p" and k: "k < 5" and f: "100 \<le> f ! 0" "f ! 0 \<le> 270000" "0 \<le> f ! 1" "f ! 1 \<le> 11"
    and v: "0 \<le> f ! (k + 1) + stage_offset k"
  shows "(select_value p f k = Some None \<and> (\<forall>v. f ! (k + 1) \<le> v \<and> v \<le> stage_top k \<longrightarrow> \<not> stage_selected p (f ! 0) (f ! 1) k v)) \<or>
    (\<exists>v. select_value p f k = Some (Some v) \<and> f ! (k + 1) \<le> v \<and> v \<le> stage_top k \<and> stage_selected p (f ! 0) (f ! 1) k v \<and>
      (\<forall>u. f ! (k + 1) \<le> u \<and> u < v \<longrightarrow> \<not> stage_selected p (f ! 0) (f ! 1) k u))"
proof -
  have "length (get_mask (4 - k) p) = cron_lengths ! (4 - k)" using p by (simp add: shaped_def)
  then have "length (masks p ! (4 - k)) = cron_lengths ! (4 - k)" by (simp add: get_mask_def split: if_splits)
  then have top: "int (length (masks p ! stage_mask k)) - 1 = stage_top k + stage_offset k"
    by (cases rule: stage_cases [OF k]) (simp_all add: stage_mask_def cron_lengths_def stage_top_def stage_offset_def)
  let ?P = "\<lambda>v. stage_selected p (f ! 0) (f ! 1) k (v - stage_offset k)"
  let ?vs = "[f ! (k + 1) + stage_offset k..stage_top k + stage_offset k]"
  have "\<forall>x \<in> set ?vs. 0 \<le> x \<and> stage_match p f k x = Some (?P x)"
    using v day_match_eq [OF f, of p] by (auto simp: stage_match_def stage_selected_def stage_mask_def stage_offset_def)
  then have "first_value (stage_match p f k) ?vs = Some (find ?P ?vs)" by (rule first_value_find)
  then have e: "select_value p f k = Some (map_option (\<lambda>x. x - stage_offset k) (find ?P ?vs))"
    unfolding select_value_def top by simp
  show ?thesis
  proof (cases "find ?P ?vs")
    case None
    have "\<not> stage_selected p (f ! 0) (f ! 1) k v" if "f ! (k + 1) \<le> v" "v \<le> stage_top k" for v
      using find_upto(1) [THEN iffD1, OF None, rule_format, of "v + stage_offset k"] that by simp
    then show ?thesis using e None by simp
  next
    case (Some x)
    note x = find_upto(2) [OF Some]
    have "\<not> stage_selected p (f ! 0) (f ! 1) k u" if "f ! (k + 1) \<le> u" "u < x - stage_offset k" for u
      using x that conjunct2 [OF conjunct2 [OF conjunct2 [OF x]], rule_format, of "u + stage_offset k"] by simp
    then show ?thesis using e Some x by (intro disjI2 exI [of _ "x - stage_offset k"]) auto
  qed
qed

section \<open>Levels\<close>

text \<open>The months, days, hours, minutes and seconds of all time in a row; stage \<open>k\<close> searches within level \<open>k\<close>.\<close>

definition level :: "nat \<Rightarrow> civil \<Rightarrow> int" where
  "level k f =
     (if k = 0 then 12 * f ! 0 + f ! 1 else if k = 1 then civil_day f else if k = 2 then civil_day f * 24 + f ! 3
      else if k = 3 then (civil_day f * 24 + f ! 3) * 60 + f ! 4 else wall f)"

definition level_start :: "nat \<Rightarrow> int \<Rightarrow> int" where
  "level_start k n =
     (if k = 0 then month_start n * 86400 else if k = 1 then n * 86400 else if k = 2 then n * 3600 else if k = 3 then n * 60 else n)"

text \<open>The states of the search: civil fields, where the hour 24 stands for the end of the day.\<close>

definition searching :: "civil \<Rightarrow> bool" where
  "searching f \<longleftrightarrow> civil_date f \<and> 0 \<le> f ! 3 \<and> f ! 3 \<le> 24 \<and> 0 \<le> f ! 4 \<and> f ! 4 \<le> 59 \<and> 0 \<le> f ! 5 \<and> f ! 5 \<le> 59 \<and>
     (f ! 3 = 24 \<longrightarrow> f ! 4 = 0 \<and> f ! 5 = 0)"

lemma searching_valid: "searching f \<Longrightarrow> f ! 3 \<noteq> 24 \<Longrightarrow> valid_civil f"
  by (auto simp: searching_def valid_civil_def)

lemma valid_searching: "valid_civil f \<Longrightarrow> searching f"
  by (auto simp: searching_def valid_civil_def)

lemma level_le:
  assumes "searching f" "valid_civil g" "wall f \<le> wall g" "k < 5"
  shows "level k f \<le> level k g"
proof -
  have d: "civil_day f \<le> civil_day g" using assms(1-3) by (simp add: searching_def valid_civil_def wall_def)
  then have "12 * f ! 0 + f ! 1 \<le> 12 * g ! 0 + g ! 1"
    using civil_day_mono assms(1,2) by (simp add: searching_def valid_civil_def)
  then show ?thesis using d assms by (auto simp: level_def searching_def valid_civil_def wall_def)
qed

lemma level_less:
  assumes "valid_civil g" "wall g < level_start k n" "k < 5"
  shows "level k g < n"
proof (cases "k = 0")
  case True
  have "month_start (12 * g ! 0 + g ! 1) \<le> civil_day g" using assms(1) by (simp add: valid_civil_def civil_date_def civil_day_def)
  then have "month_start (12 * g ! 0 + g ! 1) < month_start n"
    using assms True by (simp add: level_start_def valid_civil_def wall_def)
  moreover have "month_start n \<le> month_start t" if "n \<le> t" for t
    using that month_start_mono [of n t] month_days_bounds(1) [of n] by (cases "n = t") auto
  ultimately show ?thesis using True by (fastforce simp: level_def not_less [symmetric])
next
  case False
  then show ?thesis using assms by (auto simp: level_def level_start_def valid_civil_def wall_def)
qed

definition stage_cap :: "civil \<Rightarrow> nat \<Rightarrow> int" where
  "stage_cap f k = (if k = 1 then month_days (12 * f ! 0 + f ! 1) else stage_top k)"

text \<open>A reading between a state and a later value of its stage has the higher fields of the state.\<close>

lemma same_unit:
  assumes f: "searching f" and k: "k < 5" and g: "valid_civil g" and w: "wall f \<le> wall g"
    "wall g < level_start k (level k f - f ! (k + 1) + v)" and v: "v \<le> stage_cap f k + 1"
  shows "(k = 1 \<longrightarrow> g ! 0 = f ! 0 \<and> g ! 1 = f ! 1) \<and> f ! (k + 1) \<le> g ! (k + 1) \<and> g ! (k + 1) < v"
proof -
  have l: "level k f \<le> level k g" "level k g < level k f - f ! (k + 1) + v"
    using level_le [OF f g w(1) k] level_less [OF g w(2) k] by auto
  have gb: "0 \<le> g ! 1" "g ! 1 \<le> 11" "0 \<le> g ! 3" "g ! 3 \<le> 23" "0 \<le> g ! 4" "g ! 4 \<le> 59" "0 \<le> g ! 5" "g ! 5 \<le> 59"
    using g by (auto simp: valid_civil_def civil_date_def)
  have fb: "0 \<le> f ! 3" "0 \<le> f ! 4" "0 \<le> f ! 5" using f by (auto simp: searching_def)
  show ?thesis
  proof (cases rule: stage_cases [OF k])
    case 1
    have "0 \<le> f ! 1" using f by (auto simp: searching_def civil_date_def)
    then have "g ! 0 = f ! 0" using 1 l v gb by (simp add: level_def stage_cap_def stage_top_def)
    then show ?thesis using 1 l by (simp add: level_def)
  next
    case 2
    let ?t = "12 * f ! 0 + f ! 1"
    have "civil_day f - f ! 2 + v \<le> month_start (?t + 1)"
      using v 2 by (simp add: civil_day_def stage_cap_def month_start_step)
    then have "wall g < level_start 0 (?t + 1)" using w(2) 2 by (simp add: level_start_def level_def numeral_2_eq_2)
    then have "level 0 g < ?t + 1" by (rule level_less [OF g]) simp
    then have t: "12 * g ! 0 + g ! 1 = ?t" using level_le [OF f g w(1), of 0] by (simp add: level_def)
    moreover have "0 \<le> f ! 1" "f ! 1 \<le> 11" using f by (auto simp: searching_def civil_date_def)
    ultimately have "g ! 0 = f ! 0" "g ! 1 = f ! 1" using gb by presburger+
    then show ?thesis using l 2 t by (simp add: level_def civil_day_def numeral_2_eq_2)
  next
    case 3
    then have "civil_day g = civil_day f" using l v gb fb by (simp add: level_def stage_cap_def stage_top_def)
    then show ?thesis using 3 l by (simp add: level_def)
  next
    case 4
    then have "civil_day g * 24 + g ! 3 = civil_day f * 24 + f ! 3" using l v gb fb by (simp add: level_def stage_cap_def stage_top_def)
    then show ?thesis using 4 l by (simp add: level_def)
  next
    case 5
    have "wall f = ((civil_day f * 24 + f ! 3) * 60 + f ! 4) * 60 + f ! 5" "wall g = ((civil_day g * 24 + g ! 3) * 60 + g ! 4) * 60 + g ! 5"
      by (simp_all add: wall_def)
    moreover from this have "(civil_day g * 24 + g ! 3) * 60 + g ! 4 = (civil_day f * 24 + f ! 3) * 60 + f ! 4"
      using 5 l v gb fb by (simp add: level_def stage_cap_def stage_top_def)
    ultimately show ?thesis using 5 l by (simp add: level_def)
  qed
qed

lemma no_fire:
  assumes "searching f" "k < 5" "valid_civil g" "wall f \<le> wall g" "wall g < level_start k (level k f - f ! (k + 1) + v)"
    "v \<le> stage_cap f k + 1" "\<forall>u. f ! (k + 1) \<le> u \<and> u < v \<longrightarrow> \<not> stage_selected p (f ! 0) (f ! 1) k u"
  shows "\<not> fires p g"
proof
  assume "fires p g"
  then have "stage_selected p (g ! 0) (g ! 1) k (g ! (k + 1))" using assms(2) by (simp add: fires_def)
  moreover note same_unit [OF assms(1-6)]
  ultimately show False using assms(7) by (cases "k = 1") (auto simp: stage_selected_def)
qed

end
