(* ===== verification/CronSearch.thy ===== *)
theory CronSearch
  imports CronWall
begin

text \<open>
  The loop of \<open>cron_search\<close>: what each of its moves passes over, the four ways a step goes (\<open>cron_step_cases\<close>), and
  that it returns (\<open>returns_ready\<close>). Every step before the year 3000 goes to a later second, from the hour 24 to the
  hour 0 of the next day, or to a later stage; from the year 3000 on the next selected month ends the search.
\<close>

section \<open>The moves of the search\<close>

lemma wall_inject:
  assumes "valid_civil f" "valid_civil g" "wall f = wall g"
  shows "f = g"
proof -
  have l: "level k f = level k g" if "k < 5" for k
    using level_le [OF valid_searching [OF assms(1)] assms(2), of k] level_le [OF valid_searching [OF assms(2)] assms(1), of k] assms(3) that by simp
  have d: "civil_day f = civil_day g" using l [of 1] by (simp add: level_def)
  then have h: "f ! 3 = g ! 3" using l [of 2] by (simp add: level_def)
  then have m: "f ! 4 = g ! 4" using l [of 3] d by (simp add: level_def)
  then have s: "f ! 5 = g ! 5" using assms(3) d h by (simp add: wall_def)
  have c: "civil_date f" "civil_date g" using assms by (auto simp: valid_civil_def)
  have len: "length f = 6" "length g = 6" using c by (auto simp: civil_date_def)
  obtain y1 m1 d1 h1 n1 s1 where f: "f = [y1, m1, d1, h1, n1, s1]" using len(1) by (rule civil_cases)
  obtain y2 m2 d2 h2 n2 s2 where g: "g = [y2, m2, d2, h2, n2, s2]" using len(2) by (rule civil_cases)
  show ?thesis using civil_day_eq [OF c d] h m s unfolding f g by simp
qed

definition move_to_value :: "nat \<Rightarrow> civil \<Rightarrow> int \<Rightarrow> civil" where
  "move_to_value k f v = (reset_lower k f)[k + 1 := v]"

definition move_over :: "nat \<Rightarrow> civil \<Rightarrow> civil" where
  "move_over k f = (let g = (reset_lower k f)[k + 1 := - stage_offset k] in g[k := g ! k + 1])"

lemma move_to_value_simps:
  "move_to_value 0 [y, m, d, h, mi, s] v = [y, v, 1, 0, 0, 0]"
  "move_to_value 1 [y, m, d, h, mi, s] v = [y, m, v, 0, 0, 0]"
  "move_to_value 2 [y, m, d, h, mi, s] v = [y, m, d, v, 0, 0]"
  "move_to_value 3 [y, m, d, h, mi, s] v = [y, m, d, h, v, 0]"
  "move_to_value 4 [y, m, d, h, mi, s] v = [y, m, d, h, mi, v]"
  by (simp_all add: move_to_value_def reset_lower_def stage_offset_def upt_rec numeral_eq_Suc)

lemma fold_updates:
  "length (fold (\<lambda>l g. g[l + 1 := c l]) ls f) = length f"
  "\<forall>l \<in> set ls. j \<noteq> l + 1 \<Longrightarrow> fold (\<lambda>l g. g[l + 1 := c l]) ls f ! j = f ! j"
  by (induction ls arbitrary: f) simp_all

lemma move_to_value_nth:
  assumes "length f = 6" "k < 5"
  shows "move_to_value k f v ! (k + 1) = v" "j \<le> k \<Longrightarrow> move_to_value k f v ! j = f ! j"
  using assms fold_updates [where c = "\<lambda>l. - stage_offset l" and ls = "[k + 1..<5]" and f = f] by (auto simp: move_to_value_def reset_lower_def)

lemma move_over_simps:
  "move_over 0 [y, m, d, h, mi, s] = [y + 1, 0, 1, 0, 0, 0]"
  "move_over 1 [y, m, d, h, mi, s] = [y, m + 1, 1, 0, 0, 0]"
  "move_over 2 [y, m, d, h, mi, s] = [y, m, d + 1, 0, 0, 0]"
  "move_over 3 [y, m, d, h, mi, s] = [y, m, d, h + 1, 0, 0]"
  "move_over 4 [y, m, d, h, mi, s] = [y, m, d, h, mi + 1, 0]"
  by (simp_all add: move_over_def reset_lower_def stage_offset_def upt_rec numeral_eq_Suc)

lemma wall_move_to_value:
  assumes "length f = 6" "k < 5"
  shows "wall (move_to_value k f v) = level_start k (level k f - f ! (k + 1) + v)"
proof -
  obtain y m d h mi s where f: "f = [y, m, d, h, mi, s]" using assms(1) by (rule civil_cases)
  show ?thesis unfolding f
    by (cases rule: stage_cases [OF assms(2)])
      (simp_all add: move_to_value_simps [unfolded One_nat_def] wall_def civil_day_def level_start_def level_def)
qed

lemma wall_move_over:
  assumes "length f = 6" "k < 5"
  shows "wall (move_over k f) = level_start k (level k f - f ! (k + 1) + stage_cap f k + 1)"
proof -
  obtain y m d h mi s where f: "f = [y, m, d, h, mi, s]" using assms(1) by (rule civil_cases)
  have "month_start (12 * y + (m + 1)) = month_start (12 * y + m) + month_days (12 * y + m)"
    using month_start_step [of "12 * y + m"] by (simp add: add.assoc)
  then show ?thesis unfolding f
    by (cases rule: stage_cases [OF assms(2)])
      (simp_all add: move_over_simps [unfolded One_nat_def] wall_def civil_day_def level_start_def level_def stage_cap_def stage_top_def algebra_simps)
qed

definition near_civil :: "civil \<Rightarrow> bool" where
  "near_civil f \<longleftrightarrow> length f = 6 \<and> 100 \<le> f ! 0 \<and> f ! 0 \<le> 270000 \<and> 0 \<le> f ! 1 \<and> f ! 1 \<le> 12 \<and> 1 \<le> f ! 2 \<and> f ! 2 \<le> 32 \<and>
     0 \<le> f ! 3 \<and> f ! 3 \<le> 59 \<and> 0 \<le> f ! 4 \<and> f ! 4 \<le> 60 \<and> 0 \<le> f ! 5 \<and> f ! 5 \<le> 60"

lemma searching_bounds:
  assumes "searching [y, m, d, h, mi, s]"
  shows "0 \<le> m" "m \<le> 11" "1 \<le> d" "d \<le> 31" "0 \<le> h" "h \<le> 24" "0 \<le> mi" "mi \<le> 59" "0 \<le> s" "s \<le> 59" "d \<le> month_days (12 * y + m)"
    "h = 24 \<Longrightarrow> mi = 0 \<and> s = 0"
  using assms month_days_bounds(2) [of "12 * y + m"] by (auto simp: searching_def civil_date_def)

lemma searching_tuple:
  assumes "searching f"
  obtains y m d h mi s where "f = [y, m, d, h, mi, s]"
  using assms civil_cases by (metis searching_def civil_date_def)

lemma near_move_to_value:
  assumes "searching f" "100 \<le> f ! 0" "f ! 0 \<le> 269000" "k < 5" "f ! (k + 1) \<le> v" "v \<le> stage_top k"
  shows "near_civil (move_to_value k f v)"
proof -
  obtain y m d h mi s where f: "f = [y, m, d, h, mi, s]" using assms(1) by (rule searching_tuple)
  note b = searching_bounds [OF assms(1) [unfolded f]]
  show ?thesis using assms(2-) b unfolding f
    by (cases rule: stage_cases [OF assms(4)])
      (simp_all add: move_to_value_simps [unfolded One_nat_def] near_civil_def stage_top_def)
qed

lemma near_move_over:
  assumes "searching f" "100 \<le> f ! 0" "f ! 0 \<le> 269000" "k < 5"
  shows "near_civil (move_over k f)"
proof -
  obtain y m d h mi s where f: "f = [y, m, d, h, mi, s]" using assms(1) by (rule searching_tuple)
  note b = searching_bounds [OF assms(1) [unfolded f]]
  show ?thesis using assms(2-) b unfolding f
    by (cases rule: stage_cases [OF assms(4)])
      (simp_all add: move_over_simps [unfolded One_nat_def] near_civil_def)
qed

lemma next_wall:
  assumes "searching f" "k < 5" "f ! (k + 1) < v \<or> (k = 2 \<and> f ! 3 = 24 \<and> v = 24)"
  shows "wall f \<le> level_start k (level k f - f ! (k + 1) + v)" "f ! 3 \<noteq> 24 \<Longrightarrow> wall f < level_start k (level k f - f ! (k + 1) + v)"
proof -
  obtain y m d h mi s where f: "f = [y, m, d, h, mi, s]" using assms(1) by (rule searching_tuple)
  note b = searching_bounds [OF assms(1) [unfolded f]]
  have "month_start (12 * y + m) + month_days (12 * y + m) \<le> month_start (12 * y + v)" if "m < v"
    using month_start_mono [of "12 * y + m" "12 * y + v"] that by simp
  moreover have "h * 3600 + mi * 60 + s \<le> 86400" "h \<noteq> 24 \<Longrightarrow> h * 3600 + mi * 60 + s < 86400" using b by (cases "h = 24"; simp)+
  ultimately have "wall f \<le> level_start k (level k f - f ! (k + 1) + v) \<and> (f ! 3 \<noteq> 24 \<longrightarrow> wall f < level_start k (level k f - f ! (k + 1) + v))"
    using assms(3) b unfolding f
    by (cases rule: stage_cases [OF assms(2)])
      (auto simp: level_start_def level_def wall_def civil_day_def)
  then show "wall f \<le> level_start k (level k f - f ! (k + 1) + v)" "f ! 3 \<noteq> 24 \<Longrightarrow> wall f < level_start k (level k f - f ! (k + 1) + v)"
    by auto
qed

section \<open>What a move passes over\<close>

text \<open>
  A day after the end of February that the pattern selects moves the search into March, so that the first two days of
  March may be passed over. It does not happen when the pattern selects such a day whenever it selects the day of
  March it stands for.
\<close>

definition february_exact :: "pattern \<Rightarrow> bool" where
  "february_exact p \<longleftrightarrow>
     (\<forall>y d. month_days (12 * y + 1) < d \<and> d \<le> 31 \<and> day_selected p y 2 (d - month_days (12 * y + 1)) \<longrightarrow> day_selected p y 1 d)"

definition skippable :: "pattern \<Rightarrow> civil \<Rightarrow> bool" where
  "skippable p h \<longleftrightarrow> \<not> february_exact p \<and> h ! 1 = 2 \<and> h ! 2 \<le> 2"

definition passes :: "pattern \<Rightarrow> int \<Rightarrow> int \<Rightarrow> bool" where
  "passes p a b \<longleftrightarrow> a \<le> b \<and> (\<forall>h. valid_civil h \<and> a \<le> wall h \<and> wall h < b \<and> fires p h \<longrightarrow> skippable p h)"

lemma passes_refl: "passes p a a"
  by (auto simp: passes_def)

lemma passes_trans: "passes p a b \<Longrightarrow> passes p b c \<Longrightarrow> passes p a c"
  unfolding passes_def by (metis linorder_not_le order_trans)

lemma passes_unit:
  assumes "searching f" "k < 5" "v \<le> stage_cap f k + 1" "f ! (k + 1) < v \<or> (k = 2 \<and> f ! 3 = 24 \<and> v = 24)"
    "\<forall>u. f ! (k + 1) \<le> u \<and> u < v \<longrightarrow> \<not> stage_selected p (f ! 0) (f ! 1) k u"
  shows "passes p (wall f) (level_start k (level k f - f ! (k + 1) + v))"
  using next_wall(1) [OF assms(1,2,4)] no_fire [OF assms(1,2) _ _ _ assms(3,5)] unfolding passes_def by blast

lemma passes_february:
  assumes f: "searching f" and v: "month_days (12 * f ! 0 + f ! 1) + 1 < v" "v \<le> 31"
    and n: "\<forall>u. f ! 2 \<le> u \<and> u < v \<longrightarrow> \<not> day_selected p (f ! 0) (f ! 1) u"
  shows "passes p (wall f) (level_start 1 (level 1 f - f ! 2 + v))"
proof -
  define t where "t = 12 * f ! 0 + f ! 1"
  define l where "l = month_days t"
  have m: "0 \<le> f ! 1" "f ! 1 \<le> 11" "1 \<le> f ! 2" "f ! 2 \<le> l" using f by (auto simp: searching_def civil_date_def t_def l_def)
  have feb: "f ! 1 = 1"
  proof (rule ccontr)
    assume "f ! 1 \<noteq> 1"
    then have "l = month_table ! nat (f ! 1)" using month_table_days(2) [OF m(1,2)] by (simp add: l_def t_def)
    moreover have "f ! 1 = 0 \<or> f ! 1 = 2 \<or> f ! 1 = 3 \<or> f ! 1 = 4 \<or> f ! 1 = 5 \<or> f ! 1 = 6 \<or> f ! 1 = 7 \<or> f ! 1 = 8 \<or> f ! 1 = 9 \<or> f ! 1 = 10 \<or> f ! 1 = 11"
      using m(1,2) \<open>f ! 1 \<noteq> 1\<close> by presburger
    ultimately have "30 \<le> l" by (auto simp: month_table_def)
    then show False using v by (simp add: l_def t_def)
  qed
  have le: "wall f \<le> level_start 1 (level 1 f - f ! 2 + v)" using next_wall(1) [OF f, of 1 v] m(4) v by (simp add: l_def t_def numeral_2_eq_2)
  have "skippable p h" if h: "valid_civil h" "wall f \<le> wall h" "wall h < level_start 1 (level 1 f - f ! 2 + v)" "fires p h" for h
  proof -
    have "\<not> wall h < level_start 1 (level 1 f - f ! 2 + (l + 1))"
      using no_fire [OF f _ h(1,2), of 1 "l + 1" p] n v h(4) by (auto simp: stage_cap_def stage_selected_def l_def t_def numeral_2_eq_2)
    then have a: "month_start t + l \<le> civil_day h"
      using h(1) by (simp add: level_start_def level_def civil_day_def t_def valid_civil_def wall_def)
    have b: "civil_day h < month_start t + v - 1"
      using level_less [OF h(1,3)] by (simp add: level_def civil_day_def t_def)
    have hd: "civil_date h" using h(1) by (simp add: valid_civil_def)
    define u where "u = 12 * h ! 0 + h ! 1"
    have hu: "civil_day h = month_start u + h ! 2 - 1" "1 \<le> h ! 2" "h ! 2 \<le> month_days u"
      using hd by (auto simp: civil_day_def u_def civil_date_def)
    have s: "month_start (t + 1) = month_start t + l" by (simp add: month_start_step l_def)
    have "\<not> u < t + 1" using month_start_mono [of u "t + 1"] hu a s by linarith
    moreover have "\<not> t + 1 < u"
      using month_start_mono [of "t + 1" u] hu b s month_days_bounds(1) [of "t + 1"] month_days_bounds(1) [of t] v(2) by (auto simp: l_def)
    ultimately have u: "u = t + 1" by simp
    then have "12 * h ! 0 + h ! 1 = 12 * f ! 0 + 2" "0 \<le> h ! 1" "h ! 1 \<le> 11" using feb hd by (auto simp: u_def t_def civil_date_def)
    then have y: "h ! 0 = f ! 0" "h ! 1 = 2" by presburger+
    have h2: "l + h ! 2 < v" using hu(1) u s b by simp
    then have "h ! 2 \<le> 2" using v(2) month_days_bounds(1) [of t] by (simp add: l_def)
    moreover have "\<not> february_exact p"
    proof
      assume "february_exact p"
      moreover have "day_selected p (f ! 0) 2 (h ! 2)" using h(4) y unfolding fires_def stage_selected_def by (auto simp: numeral_2_eq_2 dest: spec [of _ 1])
      moreover have "month_days (12 * f ! 0 + 1) = l" by (simp only: l_def t_def feb)
      ultimately have "day_selected p (f ! 0) 1 (l + h ! 2)"
        using h2 v(2) hu(2) unfolding february_exact_def by (metis add_diff_cancel_left' less_add_same_cancel1 less_le_trans order_less_imp_le zero_less_one)
      then show False using n h2 m(4) hu(2) feb by auto
    qed
    ultimately show ?thesis using y by (simp add: skippable_def)
  qed
  then show ?thesis using le by (auto simp: passes_def)
qed

section \<open>A step of the search\<close>

lemma normalize_near:
  assumes x: "near_civil x" "x ! 3 \<le> 24" "x ! 3 = 24 \<longrightarrow> x ! 4 = 0 \<and> x ! 5 = 0"
  obtains g b where "normalize_civil x = Some (g, b)" "wall g = wall x" "searching g" "g = x \<or> valid_civil g"
    "valid_civil x \<Longrightarrow> g = x" "\<not> b \<Longrightarrow> g = x" "x ! 1 \<le> 11 \<Longrightarrow> x ! 2 \<le> 28 \<Longrightarrow> x ! 4 \<le> 59 \<Longrightarrow> x ! 5 \<le> 59 \<Longrightarrow> \<not> b"
proof -
  obtain g b where g: "normalize_civil x = Some (g, b)" "wall g = wall x" "b \<Longrightarrow> valid_civil g"
    "\<not> b \<Longrightarrow> g = x \<and> civil_date x \<and> x ! 4 \<le> 59 \<and> x ! 5 \<le> 59"
    "b \<longleftrightarrow> \<not> (x ! 1 \<le> 11 \<and> x ! 2 \<le> month_table ! nat (x ! 1) \<and> x ! 4 \<le> 59 \<and> x ! 5 \<le> 59)"
    using x(1) unfolding near_civil_def by (metis normalize_wall)
  have s: "searching g"
  proof (cases b)
    case True
    then show ?thesis using g(3) valid_searching by simp
  next
    case False
    then show ?thesis using g(4) x by (auto simp: searching_def near_civil_def)
  qed
  have "g = x" if "valid_civil x" using g(2,3,4) wall_inject that by (cases b) auto
  moreover have "\<not> b" if "x ! 1 \<le> 11" "x ! 2 \<le> 28" "x ! 4 \<le> 59" "x ! 5 \<le> 59"
  proof -
    have "0 \<le> x ! 1" using x(1) by (simp add: near_civil_def)
    then have "28 \<le> month_table ! nat (x ! 1)"
      using month_table_days(2) [of "x ! 1" 0] month_table_days(3) [of "x ! 1"] that(1) month_days_bounds(1) [of "12 * 0 + x ! 1"] by (cases "x ! 1 = 1") auto
    then show ?thesis using g(5) that by simp
  qed
  ultimately show ?thesis using that [OF g(1,2) s] g(3,4) by blast
qed

definition ready :: "pattern \<Rightarrow> civil \<Rightarrow> nat \<Rightarrow> bool" where
  "ready p f k \<longleftrightarrow> searching f \<and> 100 \<le> f ! 0 \<and> (2 < k \<longrightarrow> f ! 3 \<le> 23) \<and> (\<forall>j < k. stage_selected p (f ! 0) (f ! 1) j (f ! (j + 1)))"

definition moved :: "pattern \<Rightarrow> civil \<Rightarrow> civil \<Rightarrow> bool" where
  "moved p f g \<longleftrightarrow> passes p (wall f) (wall g) \<and> (wall f < wall g \<or> wall f = wall g \<and> f ! 3 = 24 \<and> g ! 3 \<noteq> 24)"

lemma year_mono:
  assumes "searching f" "valid_civil g" "wall f \<le> wall g"
  shows "f ! 0 \<le> g ! 0"
proof -
  have "12 * f ! 0 + f ! 1 \<le> 12 * g ! 0 + g ! 1" using level_le [OF assms, of 0] by (simp add: level_def)
  moreover have "0 \<le> f ! 1" "g ! 1 \<le> 11" using assms(1,2) by (auto simp: searching_def valid_civil_def civil_date_def)
  ultimately show ?thesis by linarith
qed

lemma near_year:
  assumes "near_civil x" "valid_civil g" "wall g = wall x"
  shows "g ! 0 \<le> x ! 0 + 1"
proof -
  define t where "t = 12 * x ! 0 + x ! 1"
  have b: "0 \<le> x ! 1" "x ! 1 \<le> 12" "x ! 2 \<le> 32" "x ! 3 \<le> 59" "x ! 4 \<le> 60" "x ! 5 \<le> 60" using assms(1) by (auto simp: near_civil_def)
  have "month_start t + 28 + 28 \<le> month_start (t + 1 + 1)"
    using month_days_bounds(1) [of t] month_days_bounds(1) [of "t + 1"] by (simp only: month_start_step)
  also have "\<dots> \<le> month_start (12 * x ! 0 + 24)"
    using month_start_mono [of "t + 1 + 1" "12 * x ! 0 + 24"] month_days_bounds(1) [of "t + 1 + 1"] b by (simp add: t_def)
  finally have "wall g < level_start 0 (12 * x ! 0 + 24)"
    using b unfolding assms(3) by (simp add: wall_def civil_day_def level_start_def t_def)
  then have "12 * g ! 0 + g ! 1 < 12 * x ! 0 + 24" using level_less [OF assms(2), of 0] by (simp add: level_def)
  moreover have "0 \<le> g ! 1" using assms(2) by (simp add: valid_civil_def civil_date_def)
  ultimately show ?thesis by linarith
qed

text \<open>A move of the search, normalized, goes on from a later state.\<close>

lemma move_moved:
  assumes f: "searching f" "k < 5" "100 \<le> f ! 0" and x: "near_civil x" "x ! 3 \<le> 24" "x ! 3 = 24 \<longrightarrow> x ! 4 = 0 \<and> x ! 5 = 0"
    and c: "f ! 3 = 24 \<Longrightarrow> x ! 3 \<noteq> 24" and w: "wall x = level_start k (level k f - f ! (k + 1) + v)"
    and v: "f ! (k + 1) < v \<or> (k = 2 \<and> f ! 3 = 24 \<and> v = 24)"
    and p: "passes p (wall f) (wall x)"
    and g: "searching g" "wall g = wall x" "g = x \<or> valid_civil g"
  shows "moved p f g" "ready p g 0" "g ! 0 \<le> x ! 0 + 1"
proof -
  have n: "wall f \<le> wall g" "f ! 3 \<noteq> 24 \<Longrightarrow> wall f < wall g" using next_wall [OF f(1,2) v] w g(2) by simp_all
  have "f ! 3 = 24 \<Longrightarrow> g ! 3 \<noteq> 24" using c g(3) by (auto simp: valid_civil_def)
  then show "moved p f g" using n p g(2) by (auto simp: moved_def)
  have "100 \<le> g ! 0" using year_mono [OF f(1) _ n(1)] g(3) x(1) f(3) by (auto simp: near_civil_def)
  then show "ready p g 0" using g(1) by (simp add: ready_def)
  show "g ! 0 \<le> x ! 0 + 1" using near_year [OF x(1) _ g(2)] g(3) by auto
qed


lemma step_to_value:
  assumes r: "ready p f k" "k < 5" "f ! 0 \<le> 269000" and v: "f ! (k + 1) < v" "v \<le> stage_top k"
    "stage_selected p (f ! 0) (f ! 1) k v" "\<forall>u. f ! (k + 1) \<le> u \<and> u < v \<longrightarrow> \<not> stage_selected p (f ! 0) (f ! 1) k u"
  obtains (found) g where "normalize_civil (move_to_value k f v) = Some (g, False)" "moved p f g" "ready p g (k + 1)" "g ! 0 = f ! 0"
  | (again) g where "normalize_civil (move_to_value k f v) = Some (g, True)" "moved p f g" "ready p g (k - 1)" "g ! 0 \<le> f ! 0 + 1" "0 < k"
      "1 < k \<Longrightarrow> g ! 0 = f ! 0"
proof -
  let ?x = "move_to_value k f v"
  have s: "searching f" "100 \<le> f ! 0" using r(1) by (auto simp: ready_def)
  obtain y m d h mi sec where f: "f = [y, m, d, h, mi, sec]" using s(1) by (rule searching_tuple)
  note b = searching_bounds [OF s(1) [unfolded f]]
  have near: "near_civil ?x" using near_move_to_value [OF s r(3,2)] v by simp
  have h: "2 < k \<Longrightarrow> h \<le> 23" using r(1) by (simp add: ready_def f)
  have x3: "?x ! 3 \<le> 23" using v(2) h
    by (cases rule: stage_cases [OF r(2)]) (simp_all add: f move_to_value_simps [unfolded One_nat_def] stage_top_def)
  have x0: "?x ! 0 = f ! 0" "0 < k \<Longrightarrow> ?x ! 1 = f ! 1" "j < k \<Longrightarrow> ?x ! (j + 1) = f ! (j + 1)" "?x ! (k + 1) = v" for j
    using move_to_value_nth [OF _ r(2)] by (simp_all add: f)
  have xv: "valid_civil ?x" if "k \<noteq> 1"
    using b v(1,2) h month_days_bounds(1) [of "12 * y + v"] that
    by (cases rule: stage_cases [OF r(2)])
      (simp_all add: f move_to_value_simps [unfolded One_nat_def] valid_civil_def civil_date_def stage_top_def)
  have w: "wall ?x = level_start k (level k f - f ! (k + 1) + v)" using wall_move_to_value [OF _ r(2)] by (simp add: f)
  have ps: "passes p (wall f) (wall ?x)"
  proof (cases "v \<le> stage_cap f k + 1")
    case True
    then show ?thesis unfolding w using passes_unit [OF s(1) r(2) True _ v(4)] v(1) by simp
  next
    case False
    then have "k = 1" using v(2) by (simp add: stage_cap_def split: if_splits)
    then show ?thesis unfolding w
      using passes_february [OF s(1), of v p] False v by (simp add: stage_cap_def stage_top_def stage_selected_def numeral_2_eq_2)
  qed
  obtain g b where g: "normalize_civil ?x = Some (g, b)" "wall g = wall ?x" "searching g" "g = ?x \<or> valid_civil g"
    "valid_civil ?x \<Longrightarrow> g = ?x" "\<not> b \<Longrightarrow> g = ?x" "?x ! 1 \<le> 11 \<Longrightarrow> ?x ! 2 \<le> 28 \<Longrightarrow> ?x ! 4 \<le> 59 \<Longrightarrow> ?x ! 5 \<le> 59 \<Longrightarrow> \<not> b"
    using normalize_near [OF near] x3 by auto
  have mv: "moved p f g" "ready p g 0" "g ! 0 \<le> ?x ! 0 + 1"
    by (rule move_moved [OF s(1) r(2) s(2) near _ _ _ w _ ps g(3,2,4)]; use x3 v(1) in simp)+
  have up: "ready p g j" if "g = ?x" "j \<le> k + 1" for j
  proof -
    have "stage_selected p (?x ! 0) (?x ! 1) i (?x ! (i + 1))" if "i < j" for i
    proof (cases "i < k")
      case True
      then show ?thesis using r(1) x0 by (auto simp: ready_def)
    next
      case False
      then have "i = k" using that \<open>j \<le> k + 1\<close> by simp
      then show ?thesis using v(3) x0 by (cases "k = 0") (auto simp: stage_selected_def)
    qed
    then show ?thesis using mv(2) x3 that(1) by (simp add: ready_def)
  qed
  show ?thesis
  proof (cases b)
    case False
    then show ?thesis using found [of g] g(1,6) mv(1) up [of "k + 1"] x0(1) by simp
  next
    case True
    have "0 < k" using g(7) True v(2) by (cases "k = 0") (auto simp: f move_to_value_simps stage_top_def)
    moreover have "ready p g (k - 1)" using mv(2) up g(5) xv by (cases "k = 1") auto
    moreover have "1 < k \<Longrightarrow> g ! 0 = f ! 0" using g(5) xv x0(1) by auto
    ultimately show ?thesis using again [of g] True g(1) mv x0(1) by simp
  qed
qed

lemma step_over:
  assumes r: "ready p f k" "k < 5" "f ! 0 \<le> 269000"
    and n: "\<forall>u. f ! (k + 1) \<le> u \<and> u \<le> stage_top k \<longrightarrow> \<not> stage_selected p (f ! 0) (f ! 1) k u"
  obtains g b where "normalize_civil (move_over k f) = Some (g, b)" "moved p f g" "ready p g 0" "g ! 0 \<le> f ! 0 + 2"
    "k = 0 \<Longrightarrow> g = move_over k f"
proof -
  let ?x = "move_over k f" and ?v = "stage_cap f k + 1"
  have s: "searching f" "100 \<le> f ! 0" using r(1) by (auto simp: ready_def)
  obtain y m d h mi sec where f: "f = [y, m, d, h, mi, sec]" using s(1) by (rule searching_tuple)
  note b = searching_bounds [OF s(1) [unfolded f]]
  have h: "2 < k \<Longrightarrow> h \<le> 23" using r(1) by (simp add: ready_def f)
  have x: "?x ! 3 \<le> 24" "?x ! 3 = 24 \<longrightarrow> ?x ! 4 = 0 \<and> ?x ! 5 = 0" "f ! 3 = 24 \<Longrightarrow> ?x ! 3 \<noteq> 24" "?x ! 0 \<le> f ! 0 + 1" "k = 0 \<Longrightarrow> valid_civil ?x"
    using h month_days_bounds(1) [of "12 * (y + 1)"]
    by (cases rule: stage_cases [OF r(2)];
        simp add: f move_over_simps [unfolded One_nat_def] valid_civil_def civil_date_def)+
  have w: "wall ?x = level_start k (level k f - f ! (k + 1) + ?v)" using wall_move_over [OF _ r(2), of f] by (simp add: f algebra_simps)
  have v: "f ! (k + 1) < ?v \<or> (k = 2 \<and> f ! 3 = 24 \<and> ?v = 24)"
    using b by (cases rule: stage_cases [OF r(2)]) (auto simp: f stage_cap_def stage_top_def)
  have "stage_cap f k \<le> stage_top k" using month_days_bounds(2) [of "12 * y + m"] by (auto simp: f stage_cap_def stage_top_def)
  then have ps: "passes p (wall f) (wall ?x)" unfolding w using n by (intro passes_unit [OF s(1) r(2) order_refl v]) auto
  have near: "near_civil ?x" by (rule near_move_over [OF s r(3,2)])
  obtain g b where g: "normalize_civil ?x = Some (g, b)" "wall g = wall ?x" "searching g" "g = ?x \<or> valid_civil g" "valid_civil ?x \<Longrightarrow> g = ?x"
    using normalize_near [OF near x(1,2)] by (metis (lifting))
  have "moved p f g" "ready p g 0" "g ! 0 \<le> ?x ! 0 + 1"
    by (rule move_moved [OF s(1) r(2) s(2) near x(1,2,3) w v ps g(3,2,4)]; assumption)+
  then show ?thesis using that [of g b] g x by auto
qed

text \<open>The four ways a step of the search goes.\<close>

lemma cron_step_cases:
  assumes p: "shaped p" and r: "ready p f k" "k < 5" "f ! 0 \<le> 269000"
  obtains (kept) "cron_step p f k = stage_done f k" "ready p f (k + 1)"
  | (found) g where "cron_step p f k = stage_done g k" "moved p f g" "ready p g (k + 1)" "g ! 0 = f ! 0"
  | (again) g where "cron_step p f k = Go g (k - 1)" "moved p f g" "ready p g (k - 1)" "g ! 0 \<le> f ! 0 + 1" "0 < k" "1 < k \<Longrightarrow> g ! 0 = f ! 0"
  | (over) g where "cron_step p f k = Go g 0" "moved p f g" "ready p g 0" "g ! 0 \<le> f ! 0 + 2" "k = 0 \<Longrightarrow> g = move_over 0 f"
      "\<forall>u. f ! (k + 1) \<le> u \<and> u \<le> stage_top k \<longrightarrow> \<not> stage_selected p (f ! 0) (f ! 1) k u"
proof -
  have s: "searching f" "100 \<le> f ! 0" using r(1) by (auto simp: ready_def)
  obtain y m d h mi sec where f: "f = [y, m, d, h, mi, sec]" using s(1) by (rule searching_tuple)
  note b = searching_bounds [OF s(1) [unfolded f]]
  have "0 \<le> f ! (k + 1) + stage_offset k" using b by (cases rule: stage_cases [OF r(2)]) (simp_all add: f stage_offset_def)
  moreover have "0 \<le> f ! 1" "f ! 1 \<le> 11" using b by (simp_all add: f)
  ultimately consider (none) "select_value p f k = Some None" "\<forall>v. f ! (k + 1) \<le> v \<and> v \<le> stage_top k \<longrightarrow> \<not> stage_selected p (f ! 0) (f ! 1) k v"
    | (some) v where "select_value p f k = Some (Some v)" "f ! (k + 1) \<le> v" "v \<le> stage_top k" "stage_selected p (f ! 0) (f ! 1) k v"
        "\<forall>u. f ! (k + 1) \<le> u \<and> u < v \<longrightarrow> \<not> stage_selected p (f ! 0) (f ! 1) k u"
    using select_stage [OF p r(2) s(2)] r(3) by fastforce
  then show ?thesis
  proof cases
    case none
    obtain g c where g: "normalize_civil (move_over k f) = Some (g, c)" "moved p f g" "ready p g 0" "g ! 0 \<le> f ! 0 + 2" "k = 0 \<Longrightarrow> g = move_over k f"
      using step_over [OF r none(2)] by blast
    have "cron_step p f k = Go g 0" using none(1) g(1) by (simp add: cron_step_def move_over_def Let_def)
    then show ?thesis using over [of g] g none(2) by simp
  next
    case some
    show ?thesis
    proof (cases "v = f ! (k + 1)")
      case True
      then have "cron_step p f k = stage_done f k" using some(1) by (simp add: cron_step_def)
      moreover have "ready p f (k + 1)" using r(1) some(3,4) True
        by (auto simp: ready_def less_Suc_eq stage_top_def)
      ultimately show ?thesis by (rule kept)
    next
      case False
      then have v: "f ! (k + 1) < v" "cron_step p f k =
        (case normalize_civil (move_to_value k f v) of None \<Rightarrow> Stop DateError | Some (h, True) \<Rightarrow> Go h (k - 1) | Some (h, False) \<Rightarrow> stage_done h k)"
        using some(1,2) by (simp_all add: cron_step_def move_to_value_def)
      from r v(1) some(3-5) show ?thesis
      proof (cases rule: step_to_value)
        case (found g)
        then show ?thesis using that(2) [of g] v(2) by simp
      next
        case (again g)
        then show ?thesis using that(3) [of g] v(2) by simp
      qed
    qed
  qed
qed

section \<open>The search returns\<close>

text \<open>
  What the search promises of its start \<open>a\<close>: a reading the pattern fires at, with no earlier one since \<open>a\<close> but
  the days a February may skip; or that there is none before the year 3000.
\<close>

definition outcome_ok :: "pattern \<Rightarrow> int \<Rightarrow> cron_outcome \<Rightarrow> bool" where
  "outcome_ok p a r \<longleftrightarrow>
     (case r of
        Fires g \<Rightarrow> valid_civil g \<and> fires p g \<and> g ! 0 < 3000 \<and> passes p a (wall g)
      | Never \<Rightarrow> (\<forall>h. valid_civil h \<and> a \<le> wall h \<and> h ! 0 < 3000 \<and> fires p h \<longrightarrow> skippable p h)
      | DateError \<Rightarrow> False)"

lemma outcome_passes:
  assumes "passes p a b" "outcome_ok p b r"
  shows "outcome_ok p a r"
proof (cases r)
  case (Fires g)
  then show ?thesis using assms passes_trans by (auto simp: outcome_ok_def)
next
  case Never
  have "skippable p h" if "valid_civil h" "a \<le> wall h" "h ! 0 < 3000" "fires p h" for h
    using assms Never that by (cases "b \<le> wall h") (auto simp: outcome_ok_def passes_def)
  then show ?thesis using Never by (simp add: outcome_ok_def)
qed (use assms in \<open>simp add: outcome_ok_def\<close>)

lemma never_ok: "searching f \<Longrightarrow> 3000 \<le> f ! 0 \<Longrightarrow> outcome_ok p (wall f) Never"
  using year_mono [of f] by (force simp: outcome_ok_def)

definition returns :: "pattern \<Rightarrow> civil \<Rightarrow> nat \<Rightarrow> bool" where
  "returns p f k \<longleftrightarrow> (\<exists>r. cron_search p f k = Some r \<and> outcome_ok p (wall f) r)"

lemma returns_stop: "cron_step p f k = Stop r \<Longrightarrow> outcome_ok p (wall f) r \<Longrightarrow> returns p f k"
  by (simp add: returns_def cron_search.simps [of p f k])

lemma returns_go: "cron_step p f k = Go g j \<Longrightarrow> passes p (wall f) (wall g) \<Longrightarrow> returns p g j \<Longrightarrow> returns p f k"
  using outcome_passes by (auto simp: returns_def cron_search.simps [of p f k])

text \<open>From the year 3000 on, the search ends after the next selected month.\<close>

definition has_month :: "pattern \<Rightarrow> bool" where
  "has_month p \<longleftrightarrow> (\<exists>m. 0 \<le> m \<and> m \<le> 11 \<and> masks p ! 4 ! nat m \<noteq> 0)"

lemma returns_late:
  assumes "shaped p" "ready p f 0" "3000 \<le> f ! 0" "f ! 0 \<le> 269000" "cron_step p f 0 \<noteq> Go (move_over 0 f) 0"
  shows "returns p f 0"
  using assms(1,2) zero_less_numeral assms(4)
proof (cases rule: cron_step_cases)
  case kept
  then show ?thesis using never_ok [of f p] assms(2,3) by (intro returns_stop [of p f 0 Never]) (auto simp: stage_done_def ready_def)
next
  case (found g)
  then have "outcome_ok p (wall f) Never"
    using outcome_passes [OF _ never_ok, of p "wall f" g] assms(3) by (simp add: moved_def ready_def)
  then show ?thesis using found assms(3) by (intro returns_stop [of p f 0 Never]) (auto simp: stage_done_def)
next
  case (again g)
  then show ?thesis by simp
next
  case (over g)
  then show ?thesis using assms(5) by simp
qed

lemma returns_late_year:
  assumes p: "shaped p" "has_month p" and f: "ready p f 0" "3000 \<le> f ! 0" "f ! 0 \<le> 268000"
  shows "returns p f 0"
proof (cases "cron_step p f 0 = Go (move_over 0 f) 0")
  case True
  let ?g = "move_over 0 f"
  have b: "f ! 0 \<le> 269000" using f(3) by simp
  have m: "moved p f ?g" "ready p ?g 0"
    using p(1) f(1) zero_less_numeral b by (cases rule: cron_step_cases; use True in \<open>simp add: stage_done_def split: if_splits\<close>)+
  have g: "?g ! 0 = f ! 0 + 1" "?g ! 1 = 0"
    using f(1) by (auto simp: ready_def move_over_simps elim!: searching_tuple)
  have "cron_step p ?g 0 \<noteq> Go (move_over 0 ?g) 0"
  proof
    assume e: "cron_step p ?g 0 = Go (move_over 0 ?g) 0"
    have "?g ! 0 \<le> 269000" using g f(3) by simp
    with p(1) m(2) zero_less_numeral have "\<forall>u. ?g ! 1 \<le> u \<and> u \<le> stage_top 0 \<longrightarrow> \<not> stage_selected p (?g ! 0) (?g ! 1) 0 u"
      by (cases rule: cron_step_cases) (use e in \<open>simp_all add: stage_done_def split: if_splits\<close>)
    then show False using p(2) g(2) by (auto simp: has_month_def stage_top_def stage_selected_def)
  qed
  then have "returns p ?g 0" using returns_late [OF p(1) m(2)] g f(2,3) by simp
  then show ?thesis using returns_go [OF True] m(1) by (simp add: moved_def)
next
  case False
  then show ?thesis using returns_late [OF p(1) f(1,2)] f(3) by simp
qed

text \<open>Before the year 3000 every step goes on to a later state, or to a later stage.\<close>

definition rank :: "civil \<Rightarrow> nat \<Rightarrow> nat" where
  "rank f k = nat (level_start 0 36000 - wall f) * 12 + (if f ! 3 = 24 then 6 else 0) + (5 - k)"

lemma wall_months:
  assumes "searching f" "12 * f ! 0 + f ! 1 < n"
  shows "wall f \<le> level_start 0 n"
proof -
  have t: "f ! 2 \<le> month_days (12 * f ! 0 + f ! 1)" using assms by (auto simp: searching_def civil_date_def)
  obtain y m d h mi s where f: "f = [y, m, d, h, mi, s]" using assms(1) by (rule searching_tuple)
  note b = searching_bounds [OF assms(1) [unfolded f]]
  have "h * 3600 + mi * 60 + s \<le> 86400" using b by (cases "h = 24") auto
  moreover have "civil_day f + 1 \<le> month_start n" using month_start_mono [OF assms(2)] t by (simp add: civil_day_def)
  ultimately show ?thesis by (simp add: level_start_def wall_def f)
qed

lemma wall_3000:
  assumes "searching f" "f ! 0 < 3000"
  shows "wall f \<le> level_start 0 36000"
  by (rule wall_months) (use assms in \<open>auto simp: searching_def civil_date_def\<close>)

lemma rank_less:
  assumes "moved p f g" "searching g" "g ! 0 < 3000" "k < 5"
  shows "rank g j < rank f k"
proof (cases "wall f < wall g")
  case True
  then have "nat (level_start 0 36000 - wall g) + 1 \<le> nat (level_start 0 36000 - wall f)" using wall_3000 [OF assms(2,3)] by simp
  moreover have "rank g j \<le> nat (level_start 0 36000 - wall g) * 12 + 11" unfolding rank_def by (cases "g ! 3 = 24"; simp; linarith)
  moreover have "nat (level_start 0 36000 - wall f) * 12 + 1 \<le> rank f k" using assms(4) by (simp add: rank_def)
  ultimately show ?thesis by linarith
next
  case False
  then have "wall f = wall g" "f ! 3 = 24" "g ! 3 \<noteq> 24" using assms(1) by (auto simp: moved_def)
  then show ?thesis using assms(4) by (simp add: rank_def)
qed

lemma returns_done:
  assumes g: "ready p g (k + 1)" "passes p (wall f) (wall g)" "g ! 0 < 3000" "k < 5"
    and s: "cron_step p f k = stage_done g k" and n: "k < 4 \<Longrightarrow> returns p g (k + 1)"
  shows "returns p f k"
proof (cases "k = 4")
  case True
  then have "valid_civil g" "fires p g" using g(1) by (auto simp: ready_def fires_def intro: searching_valid)
  then have "outcome_ok p (wall f) (Fires g)" using g(2,3) by (simp add: outcome_ok_def)
  then show ?thesis using s True by (intro returns_stop) (auto simp: stage_done_def)
next
  case False
  then show ?thesis using s g n by (intro returns_go [of p f k g "k + 1"]) (auto simp: stage_done_def)
qed

lemma returns_ready:
  assumes p: "shaped p" "has_month p"
  shows "ready p f k \<Longrightarrow> k < 5 \<Longrightarrow> k = 0 \<or> f ! 0 < 3000 \<Longrightarrow> f ! 0 \<le> 268000 \<Longrightarrow> returns p f k"
proof (induction "rank f k" arbitrary: f k rule: less_induct)
  case less
  have go: "returns p g j" if "moved p f g" "ready p g j" "j < 5" "j = 0 \<or> g ! 0 < 3000" "g ! 0 \<le> 268000" for g j
  proof (cases "g ! 0 < 3000")
    case True
    then show ?thesis using less.hyps [OF rank_less [OF that(1) _ _ less.prems(2)]] that by (simp add: ready_def)
  next
    case False
    then show ?thesis using returns_late_year [OF p] that by auto
  qed
  show ?case
  proof (cases "f ! 0 < 3000")
    case False
    then show ?thesis using returns_late_year [OF p] less.prems by auto
  next
    case True
    then have b: "f ! 0 \<le> 269000" by simp
    from p(1) less.prems(1,2) b show ?thesis
    proof (cases rule: cron_step_cases)
      case kept
      have "k < 4 \<Longrightarrow> returns p f (k + 1)" using less.hyps [of f "k + 1"] kept(2) True by (simp add: rank_def)
      then show ?thesis using returns_done [OF kept(2) passes_refl True less.prems(2) kept(1)] by simp
    next
      case (found g)
      have "k < 4 \<Longrightarrow> returns p g (k + 1)" using go [OF found(2,3)] found(4) True by simp
      then show ?thesis using returns_done [OF found(3) _ _ less.prems(2) found(1)] found(2,4) True by (simp add: moved_def)
    next
      case (again g)
      then have "returns p g (k - 1)" using go [OF again(2,3)] less.prems(2) True by (cases "k = 1") auto
      then show ?thesis using returns_go [OF again(1)] again(2) by (simp add: moved_def)
    next
      case (over g)
      then have "returns p g 0" using go [OF over(2,3)] True by simp
      then show ?thesis using returns_go [OF over(1)] over(2) by (simp add: moved_def)
    qed
  qed
qed

end
