(* ===== verification/CronNext.thy ===== *)
theory CronNext
  imports CronSearch
begin

text \<open>
  The next date of a pattern: it exists as a result, it is the first date the pattern fires at, and weekly schedules
  run at their next weekday.
\<close>

section \<open>Zones\<close>

text \<open>The ranges of the civil fields a time zone gives.\<close>

definition zone_civil :: "zone \<Rightarrow> bool" where
  "zone_civil zone \<longleftrightarrow>
     (\<forall>t. case zone t of
            None \<Rightarrow> True
          | Some (y, m, d, h, mi, s) \<Rightarrow> 1 \<le> m \<and> m \<le> 12 \<and> 1 \<le> d \<and> d \<le> 31 \<and> 0 \<le> h \<and> h \<le> 23 \<and> 0 \<le> mi \<and> mi \<le> 59 \<and> 0 \<le> s \<and> s \<le> 59)"

section \<open>Weekly schedules\<close>

lemma weekly_selected:
  assumes "m < 60" "h < 24" "1 \<le> d" "d \<le> 31"
  shows "stage_selected (weekly_pattern m h ds) y mon 1 d \<longleftrightarrow> nat (weekday_of y mon d) \<in> set ds"
proof -
  have w: "(weekday_of y mon 1 + d - 1) mod 7 = weekday_of y mon d" 
    using mod_add_left_eq [of "month_start (12 * y + mon) + 4" 7 "d - 1"] by (simp add: weekday_of_def algebra_simps)
  have "0 \<le> weekday_of y mon d" "weekday_of y mon d < 7" by (simp_all add: weekday_of_def)
  then have n: "nat (weekday_of y mon d) < 7" by simp
  have q: "nat ((d - 1) div 7) < 6" using zdiv_mono1 [of "d - 1" 30 7] assms(3,4) by simp
  have b: "bit (63::nat) n" if "n < 6" for n
  proof -
    have "n = 0 \<or> n = 1 \<or> n = 2 \<or> n = 3 \<or> n = 4 \<or> n = 5" using that by presburger
    then show ?thesis by (auto simp: bit_iff_odd)
  qed
  have "masks (weekly_pattern m h ds) ! 3 ! nat (d - 1) \<noteq> 0" using assms(3,4) by (simp add: weekly_pattern_def)
  then have "dom_selected (weekly_pattern m h ds) y mon d" by (simp add: dom_selected_def)
  moreover have "dow_selected (weekly_pattern m h ds) y mon d \<longleftrightarrow> nat (weekday_of y mon d) \<in> set ds"
    using n b [OF q] by (simp add: dow_selected_def week_selected_def w Let_def weekly_pattern_def del: upt_Suc)
  ultimately show ?thesis by (simp add: stage_selected_def day_selected_def) (simp add: weekly_pattern_def)
qed

lemma day_selected_weekly:
  "m < 60 \<Longrightarrow> h < 24 \<Longrightarrow> 1 \<le> d \<Longrightarrow> d \<le> 31 \<Longrightarrow>
   day_selected (weekly_pattern m h ds) y mon d \<longleftrightarrow> nat (weekday_of y mon d) \<in> set ds"
  using weekly_selected [of m h d ds y mon] by (simp add: stage_selected_def)

lemma weekly_february: 
  assumes "m < 60" "h < 24"
  shows "february_exact (weekly_pattern m h ds)"
proof -
  have "day_selected (weekly_pattern m h ds) y 1 d"
    if "month_days (12 * y + 1) < d" "d \<le> 31" "day_selected (weekly_pattern m h ds) y 2 (d - month_days (12 * y + 1))" for y d
  proof -
    have "month_start (12 * y + 2) = month_start (12 * y + 1) + month_days (12 * y + 1)" using month_start_step [of "12 * y + 1"] by (simp add: add.commute)
    then have "weekday_of y 2 (d - month_days (12 * y + 1)) = weekday_of y 1 d" by (simp add: weekday_of_def)
    moreover have "1 \<le> d" "1 \<le> d - month_days (12 * y + 1)" "d - month_days (12 * y + 1) \<le> 31"
      using that(1,2) month_days_bounds(1) [of "12 * y + 1"] by auto
    ultimately show ?thesis using that(2,3) day_selected_weekly [OF assms] by simp
  qed
  then show ?thesis by (simp add: february_exact_def)
qed

definition weekly_run :: "nat \<Rightarrow> nat \<Rightarrow> nat list \<Rightarrow> civil \<Rightarrow> bool" where
  "weekly_run m h ds g \<longleftrightarrow>
     valid_civil g \<and> nat (weekday_of (g ! 0) (g ! 1) (g ! 2)) \<in> set ds \<and> g ! 3 = int h \<and> g ! 4 = int m \<and> g ! 5 = 0"

lemma weekly_fires:
  assumes "m < 60" "h < 24" "valid_civil g"
  shows "fires (weekly_pattern m h ds) g \<longleftrightarrow> weekly_run m h ds g"
proof -
  let ?p = "weekly_pattern m h ds"
  have g: "0 \<le> g ! 1" "g ! 1 \<le> 11" "1 \<le> g ! 2" "g ! 2 \<le> 31" "0 \<le> g ! 3" "g ! 3 \<le> 23" "0 \<le> g ! 4" "g ! 4 \<le> 59" "0 \<le> g ! 5" "g ! 5 \<le> 59"
    using assms(3) month_days_bounds(2) [of "12 * g ! 0 + g ! 1"] by (auto simp: valid_civil_def civil_date_def)
  have one: "(replicate n (0::nat))[i := 1] ! nat v \<noteq> 0 \<longleftrightarrow> v = int i" if "0 \<le> v" "nat v < n" for n i v
    using that by (cases "nat v = i") auto
  have "stage_selected ?p (g ! 0) (g ! 1) 0 (g ! 1)" using g by (simp add: stage_selected_def weekly_pattern_def)
  moreover have "stage_selected ?p (g ! 0) (g ! 1) 2 (g ! 3) \<longleftrightarrow> g ! 3 = int h" using g one [of "g ! 3" 24 h] by (simp add: stage_selected_def weekly_pattern_def)
  moreover have "stage_selected ?p (g ! 0) (g ! 1) 3 (g ! 4) \<longleftrightarrow> g ! 4 = int m" using g one [of "g ! 4" 60 m] by (simp add: stage_selected_def weekly_pattern_def)
  moreover have "stage_selected ?p (g ! 0) (g ! 1) 4 (g ! 5) \<longleftrightarrow> g ! 5 = 0" using g one [of "g ! 5" 60 0] by (simp add: stage_selected_def weekly_pattern_def)
  moreover have "fires ?p g \<longleftrightarrow> stage_selected ?p (g ! 0) (g ! 1) 0 (g ! 1) \<and> stage_selected ?p (g ! 0) (g ! 1) 1 (g ! 2) \<and>
      stage_selected ?p (g ! 0) (g ! 1) 2 (g ! 3) \<and> stage_selected ?p (g ! 0) (g ! 1) 3 (g ! 4) \<and> stage_selected ?p (g ! 0) (g ! 1) 4 (g ! 5)"
    by (auto simp: fires_def less_Suc_eq numeral_eq_Suc)
  ultimately show ?thesis using weekly_selected [OF assms(1,2) g(3,4)] assms(3) unfolding weekly_run_def by simp
qed

text \<open>A weekly schedule runs at least once in every seven days.\<close>

lemma weekly_exists:
  assumes "m < 60" "h < 24" "d \<in> set ds" "d < 7" "\<bar>w\<bar> \<le> 8600000000000"
  obtains g where "weekly_run m h ds g" "w < wall g" "wall g \<le> w + 7 * 86400"
proof -
  define T where "T = int h * 3600 + int m * 60"
  have T: "0 \<le> T" "T < 86400" using assms(1,2) by (simp_all add: T_def)
  define r where "r = w mod 86400"
  have r: "w = w div 86400 * 86400 + r" "0 \<le> r" "r < 86400" by (simp_all add: r_def)
  define base where "base = (if r < T then w div 86400 else w div 86400 + 1)"
  define D where "D = base + (int d - (base + 4)) mod 7"
  have D: "base \<le> D" "D \<le> base + 6" using pos_mod_bound [of 7 "int d - (base + 4)"] by (simp_all add: D_def)
  have wd: "(D + 4) mod 7 = int d" using assms(4) mod_add_right_eq [of "base + 4" "int d - (base + 4)" 7] by (simp add: D_def algebra_simps)
  define t where "t = D * 86400 + T"
  have t: "w < t" "t \<le> w + 7 * 86400" using D r T unfolding t_def base_def by (auto split: if_splits)
  then obtain g where g: "valid_civil g" "wall g = t" using wall_fields [of t] assms(5) by (auto simp: abs_le_iff)
  have v: "0 \<le> g ! 3" "g ! 3 \<le> 23" "0 \<le> g ! 4" "g ! 4 \<le> 59" "0 \<le> g ! 5" "g ! 5 \<le> 59" using g(1) by (auto simp: valid_civil_def)
  have e: "civil_day g * 86400 + (g ! 3 * 3600 + g ! 4 * 60 + g ! 5) = D * 86400 + (int h * 3600 + int m * 60)"
    using g(2) by (simp add: wall_def t_def T_def)
  then have dd: "civil_day g = D" using v assms(1,2) by simp
  have hh: "g ! 3 = int h" using e [unfolded dd] v assms(1,2) by simp
  have mm: "g ! 4 = int m" using e [unfolded dd hh] v by simp
  have "weekday_of (g ! 0) (g ! 1) (g ! 2) = int d" using wd dd by (simp add: weekday_of_def civil_day_def)
  then have "weekly_run m h ds g" using g(1) hh mm e dd assms(3) by (simp add: weekly_run_def)
  then show ?thesis using that t g(2) by simp
qed

section \<open>The next date in a zone\<close>

text \<open>What the search relies on of a time zone, and what it promises in return.\<close>

locale civil_zone =
  fixes zone :: zone
  assumes civil: "zone_civil zone"
begin

lemma local_civil:
  assumes "cron_local zone intl after = Some f"
  shows "length f = 6" "0 \<le> f ! 1" "f ! 1 \<le> 11" "1 \<le> f ! 2" "f ! 2 \<le> 31" "0 \<le> f ! 3" "f ! 3 \<le> 23" "0 \<le> f ! 4" "f ! 4 \<le> 59" "0 \<le> f ! 5" "f ! 5 \<le> 59"
proof -
  obtain t y m d h mi s y' where z: "zone t = Some (y, m, d, h, mi, s)" "f = [y', m - 1, d, h, mi, s]"
    using assms by (auto simp: cron_local_def Let_def bind_eq_Some_conv)
  then show "length f = 6" "0 \<le> f ! 1" "f ! 1 \<le> 11" "1 \<le> f ! 2" "f ! 2 \<le> 31" "0 \<le> f ! 3" "f ! 3 \<le> 23" "0 \<le> f ! 4" "f ! 4 \<le> 59" "0 \<le> f ! 5" "f ! 5 \<le> 59"
    using civil [unfolded zone_civil_def, rule_format, of t] by simp_all
qed

lemma start_ready:
  assumes "cron_local zone True after = Some f" "100 \<le> f ! 0" "f ! 0 \<le> 260000"
  obtains s where "cron_start zone after = Some s" "ready p s 0" "s ! 0 \<le> f ! 0 + 1" "wall s = wall f + 1" "valid_civil s"
proof -
  note l = local_civil [OF assms(1)]
  let ?x = "f[5 := f ! 5 + 1]"
  have x: "near_civil ?x" "?x ! 3 \<le> 24" "?x ! 3 = 24 \<longrightarrow> ?x ! 4 = 0 \<and> ?x ! 5 = 0" "?x ! 0 = f ! 0" "wall ?x = wall f + 1"
    using l assms(2,3) by (simp_all add: near_civil_def wall_def civil_day_def)
  obtain s b where s: "normalize_civil ?x = Some (s, b)" "wall s = wall ?x" "searching s" "s = ?x \<or> valid_civil s"
    using normalize_near [OF x(1-3)] by (metis (lifting))
  have v: "s ! 3 \<le> 23" using s(4) l(7) by (auto simp: valid_civil_def)
  then have "valid_civil s" using s(3) by (intro searching_valid) auto
  have up: "s ! 0 \<le> f ! 0 + 1" using near_year [OF x(1) \<open>valid_civil s\<close> s(2)] x(4) by simp
  let ?o = "[f ! 0, f ! 1, 1, 0, 0, 0]"
  have "valid_civil ?o" using l month_days_bounds(1) [of "12 * f ! 0 + f ! 1"] by (simp add: valid_civil_def civil_date_def)
  moreover have "wall ?o \<le> wall s" using l s(2) x(5) by (simp add: wall_def civil_day_def)
  ultimately have "f ! 0 \<le> s ! 0" using year_mono [OF valid_searching _ , of ?o s] \<open>valid_civil s\<close> by simp
  then show ?thesis using that [of s] s(1-3) x(5) up assms \<open>valid_civil s\<close> by (simp add: cron_start_def ready_def)
qed

lemma parsed_returns:
  assumes "parse_cron input = Inr p" "cron_local zone True after = Some f" "100 \<le> f ! 0" "f ! 0 \<le> 260000"
  obtains s r where "cron_start zone after = Some s" "wall s = wall f + 1" "valid_civil s" "s ! 0 \<le> f ! 0 + 1"
    "cron_search p s 0 = Some r" "outcome_ok p (wall f + 1) r"
proof -
  have p: "shaped p" "\<exists>u. hit 4 u p" using parse_cron_wf(1) [OF assms(1)] parse_cron_wf(2) [OF assms(1), of 4] by simp_all
  have "length (get_mask 4 p) = 12" using p(1) unfolding shaped_def by (auto simp: cron_lengths_def dest!: spec [of _ 4])
  then obtain u where "u < 12" "get_mask 4 p ! u \<noteq> 0" using p(2) by (auto simp: hit_def)
  then have m: "has_month p" unfolding has_month_def by (intro exI [of _ "int u"]) (simp add: get_mask_def)
  obtain s where s: "cron_start zone after = Some s" "ready p s 0" "s ! 0 \<le> f ! 0 + 1" "wall s = wall f + 1" "valid_civil s"
    using start_ready [OF assms(2-4)] .
  then have "returns p s 0" using returns_ready [OF p(1) m s(2)] assms(4) by simp
  then show ?thesis using that s by (auto simp: returns_def)
qed

lemma cron_next_outcome:
  assumes "parse_cron input = Inr p" "cron_local zone True after = Some f" "100 \<le> f ! 0" "f ! 0 \<le> 260000"
  shows "(\<exists>g. cron_next p zone after = Some (map_option Some (from_tz zone g)) \<and> valid_civil g \<and> fires p g \<and> wall f < wall g \<and> g ! 0 < 3000 \<and>
        (\<forall>h. valid_civil h \<and> fires p h \<and> wall f < wall h \<and> wall h < wall g \<longrightarrow> skippable p h)) \<or>
     (cron_next p zone after = Some (Some None) \<and>
        (\<forall>h. valid_civil h \<and> fires p h \<and> wall f < wall h \<and> h ! 0 < 3000 \<longrightarrow> skippable p h))"
proof -
  obtain s r where r: "cron_start zone after = Some s" "cron_search p s 0 = Some r" "outcome_ok p (wall f + 1) r"
    using parsed_returns [OF assms] by (metis (lifting))
  show ?thesis
  proof (cases r)
    case (Fires g)
    then show ?thesis using r by (intro disjI1 exI [of _ g]) (auto simp: outcome_ok_def cron_next_def passes_def)
  next
    case Never
    then show ?thesis using r by (intro disjI2) (auto simp: outcome_ok_def cron_next_def)
  qed (use r in \<open>simp add: outcome_ok_def\<close>)
qed

text \<open>The search for the next date of a parsed pattern ends.\<close>

lemma cron_next_returns:
  assumes "parse_cron input = Inr p" "\<forall>f. cron_local zone True after = Some f \<longrightarrow> 100 \<le> f ! 0 \<and> f ! 0 \<le> 260000"
  shows "\<exists>r. cron_next p zone after = Some r"
proof (cases "cron_local zone True after")
  case None
  then show ?thesis by (simp add: cron_next_def cron_start_def)
next
  case (Some f)
  then have "100 \<le> f ! 0" "f ! 0 \<le> 260000" using assms(2) by auto
  from parsed_returns [OF assms(1) Some this] show ?thesis
    by (metis (no_types, lifting) cron_next_def cron_outcome.exhaust cron_outcome.simps(8-10) option.simps(5))
qed

text \<open>The next date of a weekly pattern.\<close>

lemma weekly_cron_next:
  assumes "minute < 60" "hour < 24" "weekdays \<noteq> []" "\<forall>d \<in> set weekdays. d < 7"
    and "cron_local zone True after = Some f" "100 \<le> f ! 0" "f ! 0 \<le> 2900"
  shows "\<exists>p g. parse_cron (weekly_text minute hour weekdays) = Inr p \<and> cron_next p zone after = Some (map_option Some (from_tz zone g)) \<and>
    weekly_run minute hour weekdays g \<and> wall f < wall g \<and> wall g \<le> wall f + 7 * 86400 \<and>
    (\<forall>h. weekly_run minute hour weekdays h \<and> wall f < wall h \<longrightarrow> wall g \<le> wall h)"
proof -
  let ?p = "weekly_pattern minute hour weekdays"
  note p = parse_weekly [OF assms(1-4)]
  have y: "f ! 0 \<le> 260000" using assms(7) by simp
  obtain s where s: "wall s = wall f + 1" "valid_civil s" "s ! 0 \<le> f ! 0 + 1" "ready ?p s 0"
    using start_ready [OF assms(5,6) y, of ?p] by (metis (lifting))
  have m: "0 \<le> s ! 1" "s ! 1 \<le> 11" "100 \<le> s ! 0" "searching s"
    using s(2,4) by (auto simp: valid_civil_def civil_date_def ready_def)
  have n: "month_start 34824 = 340406" "month_start 36000 = 376200" "month_start 1200 = - 683003" by code_simp+
  have "wall s \<le> level_start 0 34824" by (rule wall_months) (use m s(3) assms(7) in auto)
  moreover have "month_start 1200 \<le> month_start (12 * s ! 0 + s ! 1)"
    using month_start_mono [of 1200 "12 * s ! 0 + s ! 1"] month_days_bounds(1) [of 1200] m by (cases "12 * s ! 0 + s ! 1 = 1200") auto
  then have "level_start 0 1200 \<le> wall s" using s(2) by (simp add: level_start_def wall_def civil_day_def valid_civil_def civil_date_def)
  ultimately have b: "wall f + 7 * 86400 < level_start 0 36000" "\<bar>wall f\<bar> \<le> 8600000000000"
    using s(1) n by (simp_all add: level_start_def)
  obtain d where d: "d \<in> set weekdays" "d < 7" using assms(3,4) by (cases weekdays) auto
  obtain g0 where g0: "weekly_run minute hour weekdays g0" "wall f < wall g0" "wall g0 \<le> wall f + 7 * 86400"
    using weekly_exists [OF assms(1,2) d b(2)] .
  have v: "valid_civil g0" using g0(1) by (simp add: weekly_run_def)
  then have "12 * g0 ! 0 + g0 ! 1 < 36000" using level_less [of g0 0 36000] g0(3) b(1) by (simp add: level_def)
  then have "g0 ! 0 < 3000" using v by (auto simp: valid_civil_def civil_date_def)
  note fires = weekly_fires [OF assms(1,2)]
  have "\<not> skippable ?p h" for h using weekly_february [OF assms(1,2)] by (simp add: skippable_def)
  then obtain g where g: "cron_next ?p zone after = Some (map_option Some (from_tz zone g))" "valid_civil g" "fires ?p g" "wall f < wall g"
      "\<forall>h. valid_civil h \<and> fires ?p h \<and> wall f < wall h \<longrightarrow> wall g \<le> wall h"
    using cron_next_outcome [OF p assms(5,6) y] \<open>g0 ! 0 < 3000\<close> v g0(1,2) fires [OF v] by (metis linorder_not_less)
  then have "weekly_run minute hour weekdays g" "\<forall>h. weekly_run minute hour weekdays h \<and> wall f < wall h \<longrightarrow> wall g \<le> wall h"
    using fires by (auto simp: weekly_run_def)
  then show ?thesis using p g(1,4) g0 by (intro exI [of _ ?p] exI [of _ g]) force
qed

end

text \<open>The time zone of UTC.\<close>

definition civil_utc :: zone where
  "civil_utc t = map_option (\<lambda>f. (f ! 0, f ! 1 + 1, f ! 2, f ! 3, f ! 4, f ! 5)) (cron_utc_fields t)"

lemma zone_civil_utc: "zone_civil civil_utc"
proof -
  have "1 \<le> m \<and> m \<le> 12 \<and> 1 \<le> d \<and> d \<le> 31 \<and> 0 \<le> h \<and> h \<le> 23 \<and> 0 \<le> mi \<and> mi \<le> 59 \<and> 0 \<le> s \<and> s \<le> 59"
    if z: "civil_utc t = Some (y, m, d, h, mi, s)" for t y m d h mi s
  proof -
    define c where "c = t mod day_ms"
    have c: "0 \<le> c" "c \<le> 86399999" using pos_mod_bound [of day_ms t] by (simp_all add: c_def)
    obtain y' m' d' where y: "utc_fields t = Some (y', m', d')" using z by (cases "utc_fields t") (auto simp: civil_utc_def cron_utc_fields_def)
    have e: "civil_utc t = Some (y', m', d', c div 3600000, c div 60000 mod 60, c div 1000 mod 60)"
      unfolding civil_utc_def cron_utc_fields_def y Let_def c_def [symmetric] by simp
    have u: "utc_fields t = Some (y, m, d)" "h = c div 3600000" "mi = c div 60000 mod 60" "s = c div 1000 mod 60"
      using z unfolding y e option.inject prod.inject by simp_all
    have "\<bar>t\<bar> \<le> time_clip"
    proof (rule ccontr)
      assume "\<not> \<bar>t\<bar> \<le> time_clip"
      then have "utc_fields t = None" unfolding utc_fields_def by simp
      then show False using u(1) by simp
    qed
    then have "valid_date y m d" using utc_fields_days [of t] u(1) by auto
    moreover have "month_length y m \<le> 31" by (simp add: month_length_def)
    ultimately have v: "1 \<le> m" "m \<le> 12" "1 \<le> d" "d \<le> 31" by (auto simp: valid_date_def)
    have h: "0 \<le> c div 3600000" "c div 3600000 \<le> 23" using zdiv_mono1 [OF c(2), of 3600000] c(1) by (simp_all add: pos_imp_zdiv_nonneg_iff)
    have p: "0 \<le> x mod 60" for x :: int by simp
    show ?thesis unfolding u(2-4) by (intro conjI v h p mod_60)
  qed
  then show ?thesis unfolding zone_civil_def by (auto split: option.splits)
qed

interpretation utc: civil_zone civil_utc
  by unfold_locales (rule zone_civil_utc)

section \<open>A pattern that skips the first of March\<close>

definition days_pattern :: "nat list \<Rightarrow> nat list \<Rightarrow> pattern" where
  "days_pattern ds years =
     \<lparr>masks = [(replicate 60 0)[0 := 1], (replicate 60 0)[0 := 1], (replicate 24 0)[0 := 1], ds, replicate 12 1, replicate 7 63, years],
      nearest = replicate 31 0, last_day_of_month = False, last_weekday = False, star_dom = False, star_dow = True, dom_and_dow = False\<rparr>"

definition first_and_last :: "nat list" where
  "first_and_last = (replicate 31 0)[0 := 1, 30 := 1]"

lemma skipping_steps:
  "cron_step (days_pattern first_and_last ys) [2023, 1, 5, 0, 0, 1] 0 = Go [2023, 1, 5, 0, 0, 1] 1"
  "cron_step (days_pattern first_and_last ys) [2023, 1, 5, 0, 0, 1] 1 = Go [2023, 2, 3, 0, 0, 0] 0"
  "cron_step (days_pattern first_and_last ys) [2023, 2, 3, 0, 0, 0] 0 = Go [2023, 2, 3, 0, 0, 0] 1"
  "cron_step (days_pattern first_and_last ys) [2023, 2, 3, 0, 0, 0] 1 = Go [2023, 2, 31, 0, 0, 0] 2"
  "cron_step (days_pattern first_and_last ys) [2023, 2, 31, 0, 0, 0] 2 = Go [2023, 2, 31, 0, 0, 0] 3"
  "cron_step (days_pattern first_and_last ys) [2023, 2, 31, 0, 0, 0] 3 = Go [2023, 2, 31, 0, 0, 0] 4"
  "cron_step (days_pattern first_and_last ys) [2023, 2, 31, 0, 0, 0] 4 = Stop (Fires [2023, 2, 31, 0, 0, 0])"
  by code_simp+

lemma cron_search_go: "cron_step p f k = Go g j \<Longrightarrow> cron_search p f k = cron_search p g j"
  by (simp add: cron_search.simps [of p f k])

lemma cron_search_stop: "cron_step p f k = Stop r \<Longrightarrow> cron_search p f k = Some r"
  by (simp add: cron_search.simps [of p f k])

lemma skipping_search: "cron_search (days_pattern first_and_last ys) [2023, 1, 5, 0, 0, 1] 0 = Some (Fires [2023, 2, 31, 0, 0, 0])"
  by (simp only: skipping_steps(1-6) [THEN cron_search_go] skipping_steps(7) [THEN cron_search_stop])

lemma parse_skipping: "parse_cron (text_of ''0 0 1,31 * *'') = Inr (days_pattern first_and_last (replicate 10000 1))"
proof -
  let ?t = "[48, 32, 48, 32, 49, 44, 51, 49, 32, 42, 32, 42]" and ?ws = "[[48], [48], [48], [49, 44, 51, 49], [42], [42], [42]]" and ?q = "empty_pattern\<lparr>star_dom := False, star_dow := True\<rparr>"
  have t: "text_of ''0 0 1,31 * *'' = ?t" by (simp add: text_of_def)
  have n: "nickname (encoded ?t) = Inr ?t"
    by (simp add: nickname_def encoded_def trim_text_def whitespace_def text_of_def nicknames_def ascii_lower_def Let_def)
  have w: "words_of ?t = [[48], [48], [49, 44, 51, 49], [42], [42]]" by (simp add: words_of_def whitespace_def)
  have d: "dom_entry [49, 44, 51, 49] p = ([49, 44, 51, 49], p\<lparr>star_dom := False\<rparr>)" for p
    by (simp add: dom_entry_def text_of_def ascii_lower_def ascii_upper_def)
  have e: "dow_entry [42] p = Inr ([42], p\<lparr>star_dow := True\<rparr>)" for p
    using replace_names_plain [of "[42]" day_names 0] by (simp add: dow_entry_def text_of_def ascii_lower_def plain_def day_names_def)
  have m: "replace_names month_names 1 [42] = [42]" by (rule replace_names_plain) (simp_all add: plain_def month_names_def)
  have tx: "text_of ''0'' = [48]" "text_of ''*'' = [42]" by (simp_all add: text_of_def)
  have "parse_cron ?t = parse_entries ?ws ?q" by (simp add: parse_cron_def n w d e m [unfolded One_nat_def] tx)
  also have "\<dots> = rfold (\<lambda>(i, w). cron_part i w) (enumerate 0 ?ws) ?q" by (rule plain_entries) (simp add: plain_def is_digit_def)
  also have "\<dots> = Inr (days_pattern first_and_last (replicate 10000 1))"
  proof -
    have z: "decimal_digits 0 = [48]" "decimal_digits 1 = [49]" "decimal_digits 31 = [51, 49]" by (simp_all add: decimal_digits.simps)
    have v: "cron_part f [48] p = Inr (put_mask f ((masks p ! f)[0 := 1]) p)" if "f < 3" for f p
      using cron_part_decimal [of f 0 p] set_value_fresh [of f 0 p] that z(1) by (auto simp: cron_lengths_def less_Suc_eq numeral_eq_Suc)
    have en: "enumerate 0 [a, b, c, d, e, f, g] = [(0, a), (1, b), (2, c), (3, d), (4, e), (5, f), (6, g)]" for a b c d e f g :: text_value
      by (simp add: numeral_eq_Suc)
    have i: "cron_item 3 [49] p = Inr (put_mask 3 ((masks p ! 3)[0 := 1]) p)" "cron_item 3 [51, 49] p = Inr (put_mask 3 ((masks p ! 3)[30 := 1]) p)" for p
      by (simp_all add: cron_item_def cron_atom_def split_nth_def number_at_def cron_integer_def field_offset_def is_digit_def digits_value_def
        Let_def ascii_upper_def set_value_def cron_lengths_def nth_mask_def get_mask_def)
    have c: "cron_part 3 [49, 44, 51, 49] p = Inr (put_mask 3 ((masks p ! 3)[0 := 1, 30 := 1]) p)" if "length (masks p) = 7" for p
      using that by (simp add: cron_part_def i put_mask_def)
    show ?thesis unfolding en rfold.simps prod.case
      by (simp add: v c star_part put_mask_def get_mask_def empty_pattern_def days_pattern_def first_and_last_def cron_lengths_def)
  qed
  finally show ?thesis unfolding t .
qed

section \<open>Properties\<close>

text \<open>
  (C34) The next date of a parsed pattern is the least one: it is a civil time after the instant given at which every
  stage of the pattern fires, before the year 3000, and any earlier such time is one of the first two days of March,
  passed over by a pattern that selects days after the end of February but not the days of March they stand for.
  When there is no result, no other time before the year 3000 fires.
\<close>

theorem cron_next_least:
  assumes "parse_cron input = Inr p" "zone_civil zone" "cron_local zone True after = Some f" "100 \<le> f ! 0" "f ! 0 \<le> 260000"
  shows "(\<exists>g. cron_next p zone after = Some (map_option Some (from_tz zone g)) \<and> valid_civil g \<and> fires p g \<and> wall f < wall g \<and> g ! 0 < 3000 \<and>
        (\<forall>h. valid_civil h \<and> fires p h \<and> wall f < wall h \<and> wall h < wall g \<longrightarrow> \<not> february_exact p \<and> h ! 1 = 2 \<and> h ! 2 \<le> 2)) \<or>
     (cron_next p zone after = Some (Some None) \<and>
        (\<forall>h. valid_civil h \<and> fires p h \<and> wall f < wall h \<and> h ! 0 < 3000 \<longrightarrow> \<not> february_exact p \<and> h ! 1 = 2 \<and> h ! 2 \<le> 2))"
  using civil_zone.cron_next_outcome [OF civil_zone.intro [OF assms(2)] assms(1,3-5)] unfolding skippable_def .

theorem cron_next_least_witness:
  "\<exists>p. parse_cron (weekly_text 30 9 [1, 3]) = Inr p \<and>
     ((\<exists>g. cron_next p civil_utc 1704067200000 = Some (map_option Some (from_tz civil_utc g)) \<and> fires p g) \<or>
      cron_next p civil_utc 1704067200000 = Some (Some None))"
proof -
  have p: "parse_cron (weekly_text 30 9 [1, 3]) = Inr (weekly_pattern 30 9 [1, 3])" by (rule parse_weekly) simp_all
  have "cron_local civil_utc True 1704067200000 = Some [2024, 0, 1, 0, 0, 0]" by code_simp
  from cron_next_least [OF p zone_civil_utc this] p show ?thesis by auto
qed

text \<open>
  The days of March a February hides: the pattern \<open>0 0 1,31 * *\<close> fires on the first of March, but the search from
  the fifth of February 2023 goes to the thirty-first of March. The day 31 it selects for February stands for the third
  of March, where it goes on.
\<close>

lemma february_skips:
  "\<exists>p. parse_cron (text_of ''0 0 1,31 * *'') = Inr p \<and> valid_civil [2023, 2, 1, 0, 0, 0] \<and> fires p [2023, 2, 1, 0, 0, 0] \<and>
     wall [2023, 1, 5, 0, 0, 1] < wall [2023, 2, 1, 0, 0, 0] \<and> wall [2023, 2, 1, 0, 0, 0] < wall [2023, 2, 31, 0, 0, 0] \<and>
     cron_search p [2023, 1, 5, 0, 0, 1] 0 = Some (Fires [2023, 2, 31, 0, 0, 0])"
proof (intro exI conjI)
  show "parse_cron (text_of ''0 0 1,31 * *'') = Inr (days_pattern first_and_last (replicate 10000 1))" by (rule parse_skipping)
  show "cron_search (days_pattern first_and_last (replicate 10000 1)) [2023, 1, 5, 0, 0, 1] 0 = Some (Fires [2023, 2, 31, 0, 0, 0])"
    by (rule skipping_search)
  show "valid_civil [2023, 2, 1, 0, 0, 0]" by code_simp
  have "fires (days_pattern first_and_last ys) [2023, 2, 1, 0, 0, 0]" for ys by code_simp
  then show "fires (days_pattern first_and_last (replicate 10000 1)) [2023, 2, 1, 0, 0, 0]" .
  show "wall [2023, 1, 5, 0, 0, 1] < wall [2023, 2, 1, 0, 0, 0]" by code_simp
  show "wall [2023, 2, 1, 0, 0, 0] < wall [2023, 2, 31, 0, 0, 0]" by code_simp
qed

end
