(* ===== verification/CronZone.thy ===== *)
theory CronZone
  imports CronNext
begin

text \<open>
  Civil times and instants: what \<open>cron_local\<close> reads near a civil time in a zone whose offset changes at most once
  there, and that \<open>from_tz\<close> finds an instant that reads the civil time whenever there is one.
\<close>

section \<open>Readings near a civil time\<close>

lemma year_window:
  assumes "valid_civil g" "101 \<le> g ! 0" "g ! 0 \<le> 9997" "\<bar>s - wall g\<bar> \<le> 4 * 86400"
  obtains f where "cron_utc_fields (s * 1000) = Some f" "valid_civil f" "wall f = s" "100 \<le> f ! 0" "f ! 0 \<le> 9998"
proof -
  have g: "0 \<le> g ! 1" "g ! 1 \<le> 11" "searching g" using assms(1) valid_searching by (auto simp: valid_civil_def civil_date_def)
  have n: "month_start 1200 = - 683003" "month_start 1212 = - 682638" "month_start 119976 = 2932167" "month_start 119988 = 2932532" by code_simp+
  have "month_start 1212 \<le> month_start (12 * g ! 0 + g ! 1)"
    using month_start_mono [of 1212 "12 * g ! 0 + g ! 1"] month_days_bounds(1) [of 1212] g assms(2) by (cases "12 * g ! 0 + g ! 1 = 1212") auto
  then have "level_start 0 1212 \<le> wall g" using assms(1) by (simp add: level_start_def wall_def civil_day_def valid_civil_def civil_date_def)
  moreover have "wall g \<le> level_start 0 119976" by (rule wall_months [OF g(3)]) (use g assms(3) in auto)
  ultimately have b: "level_start 0 1200 < s" "s < level_start 0 119988" using assms(4) n by (simp_all add: level_start_def)
  then have "\<bar>s * 1000\<bar> \<le> time_clip" using n by (simp add: level_start_def)
  then obtain f where f: "cron_utc_fields (s * 1000) = Some f" "valid_civil f" "wall f = s" by (rule wall_fields)
  have v: "0 \<le> f ! 1" "f ! 1 \<le> 11" "searching f" using f(2) valid_searching by (auto simp: valid_civil_def civil_date_def)
  have "12 * f ! 0 + f ! 1 < 119988" using level_less [OF f(2), of 0 119988] f(3) b(2) by (simp add: level_def)
  moreover have "\<not> 12 * f ! 0 + f ! 1 < 1200" using wall_months [OF v(3), of 1200] f(3) b(1) by auto
  ultimately show ?thesis using that [OF f] v by simp
qed

lemma cron_local_offset:
  assumes "valid_civil g" "101 \<le> g ! 0" "g ! 0 \<le> 9997" "\<bar>s - wall g\<bar> \<le> 3 * 86400" "\<bar>a\<bar> \<le> 86400" "zone (s * 1000) = civil_utc ((s + a) * 1000)"
  obtains f where "cron_local zone True (s * 1000) = Some f" "valid_civil f" "wall f = s + a" "cron_utc f = Some ((s + a) * 1000)"
proof -
  obtain e where e: "cron_utc_fields (s * 1000) = Some e" "e ! 0 \<le> 9998" "100 \<le> e ! 0"
    using year_window [OF assms(1-3), of s] assms(4) by auto
  obtain f where f: "cron_utc_fields ((s + a) * 1000) = Some f" "valid_civil f" "wall f = s + a" "100 \<le> f ! 0" "f ! 0 \<le> 9998"
    by (rule year_window [OF assms(1-3), of "s + a"]) (use assms(4,5) in auto)
  obtain y m d h mi sec where t: "f = [y, m, d, h, mi, sec]" using f(2) by (auto simp: valid_civil_def civil_date_def elim: civil_cases)
  have z: "zone (s * 1000) = Some (y, m + 1, d, h, mi, sec)" unfolding assms(6) civil_utc_def f(1) by (simp add: t)
  have "lookup_year (e ! 0) = e ! 0" using e by (simp add: lookup_year_def)
  then have l: "cron_local zone True (s * 1000) = Some f" unfolding cron_local_def e(1) Let_def using f(4) by (simp add: z t)
  have "f ! 2 \<le> 31" using f(2) month_days_bounds(2) [of "12 * f ! 0 + f ! 1"] by (auto simp: valid_civil_def civil_date_def)
  then have "cron_utc f = Some ((s + a) * 1000)"
    using cron_utc_wall(1) [of f] f by (simp add: valid_civil_def civil_date_def)
  then show ?thesis using that l f by blast
qed

section \<open>Civil times and instants\<close>

text \<open>A zone whose offset changes once, from \<open>a\<close> to \<open>b\<close> seconds at the second \<open>change\<close>, around a civil time.\<close>

definition offset_at :: "int \<Rightarrow> int \<Rightarrow> int \<Rightarrow> int \<Rightarrow> int" where
  "offset_at change a b s = (if s < change then a else b)"

definition changes_once :: "zone \<Rightarrow> int \<Rightarrow> int \<Rightarrow> int \<Rightarrow> int \<Rightarrow> bool" where
  "changes_once zone w change a b \<longleftrightarrow>
     \<bar>a\<bar> \<le> 86400 \<and> \<bar>b\<bar> \<le> 86400 \<and>
     (\<forall>s. \<bar>s - w\<bar> \<le> 3 * 86400 \<longrightarrow> zone (s * 1000) = civil_utc ((s + offset_at change a b s) * 1000))"

lemma changes_once_local:
  assumes "valid_civil g" "101 \<le> g ! 0" "g ! 0 \<le> 9997" "changes_once zone (wall g) change a b" "\<bar>s - wall g\<bar> \<le> 3 * 86400"
  obtains f where "cron_local zone True (s * 1000) = Some f" "valid_civil f" "wall f = s + offset_at change a b s"
    "cron_utc f = Some (wall f * 1000)" "f = g \<longleftrightarrow> s + offset_at change a b s = wall g"
proof -
  have "\<bar>offset_at change a b s\<bar> \<le> 86400" "zone (s * 1000) = civil_utc ((s + offset_at change a b s) * 1000)"
    using assms(4,5) by (auto simp: changes_once_def offset_at_def)
  from cron_local_offset [where zone = zone, OF assms(1-3,5) this] obtain f where f: "cron_local zone True (s * 1000) = Some f" "valid_civil f"
      "wall f = s + offset_at change a b s" "cron_utc f = Some ((s + offset_at change a b s) * 1000)" .
  have "f = g \<longleftrightarrow> s + offset_at change a b s = wall g" using f(3) wall_inject [OF f(2) assms(1)] by auto
  then show ?thesis using that [OF f(1-3)] f(3,4) by simp
qed

lemma from_tz_eq:
  assumes g: "valid_civil g" "101 \<le> g ! 0" "g ! 0 \<le> 9997" "changes_once zone (wall g) change a b"
  defines "x \<equiv> wall g - offset_at change a b (wall g)"
  defines "y \<equiv> wall g - offset_at change a b x"
  shows "from_tz zone g = Some
    (if x + offset_at change a b x = wall g
     then (if x - 3600 + offset_at change a b (x - 3600) = wall g then x - 3600 else x) * 1000
     else if y + offset_at change a b y = wall g then y * 1000 else max x y * 1000)"
proof -
  have ab: "\<bar>offset_at change a b s\<bar> \<le> 86400" for s using g(4) by (auto simp: changes_once_def offset_at_def)
  have xy: "\<bar>x - wall g\<bar> \<le> 86400" "\<bar>y - wall g\<bar> \<le> 86400" using ab by (simp_all add: x_def y_def)
  note l = changes_once_local [OF g]
  obtain r where r: "cron_local zone True (wall g * 1000) = Some r" "cron_utc r = Some (wall r * 1000)" "wall r = wall g + offset_at change a b (wall g)"
    using l [of "wall g"] by auto
  obtain h where h: "cron_local zone True (x * 1000) = Some h" "cron_utc h = Some (wall h * 1000)" "wall h = x + offset_at change a b x"
    "h = g \<longleftrightarrow> x + offset_at change a b x = wall g"
    by (rule l [of x]) (use xy in auto)
  obtain e where e: "cron_local zone True ((x - 3600) * 1000) = Some e" "e = g \<longleftrightarrow> x - 3600 + offset_at change a b (x - 3600) = wall g"
    by (rule l [of "x - 3600"]) (use xy in auto)
  obtain z where z: "cron_local zone True (y * 1000) = Some z" "z = g \<longleftrightarrow> y + offset_at change a b y = wall g"
    by (rule l [of y]) (use xy in auto)
  have "g ! 2 \<le> 31" using g(1) month_days_bounds(2) [of "12 * g ! 0 + g ! 1"] by (auto simp: valid_civil_def civil_date_def)
  then have u: "cron_utc g = Some (wall g * 1000)" using cron_utc_wall(1) [of g] g(1-3) by (simp add: valid_civil_def civil_date_def)
  have f: "wall g * 1000 + wall g * 1000 - wall r * 1000 = x * 1000" by (simp add: r(3) x_def)
  have s: "x * 1000 + wall g * 1000 - wall h * 1000 = y * 1000" by (simp add: h(3) y_def)
  have m: "max (x * 1000) (y * 1000) = max x y * 1000" by (simp add: max_def)
  have e': "cron_local zone True (x * 1000 - 3600000) = Some e" using e(1) by (simp add: algebra_simps)
  show ?thesis
    unfolding from_tz_def u r(1,2) bind.bind_lunit Let_def f h(1,2) s
    by (simp add: e' e(2) h(4) z m)
qed



end
