(* ===== verification/Schedules.thy ===== *)
theory Schedules
  imports Automations CronZone
begin

text \<open>
  The schedules of project automations (\<^verbatim>\<open>cantrip_server_rs/src/project_automations/schedule.rs\<close>): the zone a name
  stands for, the next run of a schedule and its first. What the \<open>jiff\<close> crate and the machine provide is a record of
  parameters: the named zones of the bundled database, the zones of the compiled files, the zone of a fixed offset, the
  zone of the host and UTC, and the host's offset for dates without one. The outer option of \<open>schedule_next\<close> is a
  search that does not end; \<open>schedule_next_returns\<close> shows that there is none.
\<close>

record time_zones =
  named_zone :: "text_value \<Rightarrow> zone option"
  tzif_zone :: "string \<Rightarrow> zone option"
  fixed_zone :: "int \<Rightarrow> zone"
  host_zone :: zone
  utc_zone :: zone
  host_offset :: "int \<Rightarrow> int option"

datatype schedule =
    IntervalSchedule (starts_at: text_value) (every: int) (interval_unit: interval_unit)
  | WeeklySchedule (weekdays: "nat list") (hour: nat) (minute: nat) (weekly_zone: text_value)
  | CronSchedule (expression: text_value) (cron_zone: text_value)

datatype schedule_error = InvalidZone | InvalidCron cron_error | DateFailed

section \<open>Zones\<close>

definition legacy_offsets :: "(string \<times> int) list" where
  "legacy_offsets =
     [(''systemv/ast4'', - 4), (''systemv/cst6'', - 6), (''systemv/est5'', - 5), (''systemv/hst10'', - 10),
      (''systemv/mst7'', - 7), (''systemv/pst8'', - 8), (''systemv/yst9'', - 9)]"

definition legacy_files :: "string list" where
  "legacy_files =
     [''systemv/ast4adt'', ''systemv/cst6cdt'', ''systemv/est5edt'', ''systemv/mst7mdt'', ''systemv/pst8pdt'', ''systemv/yst9ydt'']"

definition offset_digits :: "text_value \<Rightarrow> int option" where
  "offset_digits ds = (if list_all is_digit ds then Some (int (digits_value ds)) else None)"

text \<open>A character outside ASCII is not a digit, so that the bytes of a name are its characters wherever it is accepted.\<close>

definition offset_seconds :: "text_value \<Rightarrow> int option" where
  "offset_seconds name =
     (case name of
        [] \<Rightarrow> None
      | c # _ \<Rightarrow>
          Option.bind (if c = 43 then Some 1 else if c = 45 then Some (- 1) else None) (\<lambda>sign.
          Option.bind
            (if length name = 3 then Some (offset_digits (take 2 (drop 1 name)), Some 0)
             else if length name = 5 then Some (offset_digits (take 2 (drop 1 name)), offset_digits (take 2 (drop 3 name)))
             else if length name = 6 \<and> name ! 3 = 58 then Some (offset_digits (take 2 (drop 1 name)), offset_digits (take 2 (drop 4 name)))
             else None) (\<lambda>(hours, minutes).
          Option.bind hours (\<lambda>h. if h \<le> 23 then
            Option.bind minutes (\<lambda>m. if m \<le> 59 then Some (sign * (h * 3600 + m * 60)) else None) else None))))"

definition time_zone :: "time_zones \<Rightarrow> text_value \<Rightarrow> zone option" where
  "time_zone w name =
     (let lower = map ascii_lower name
      in if lower \<in> text_of ` {''etc/unknown'', ''factory'', ''posixrules''} then None
         else if lower = text_of ''us/pacific-new'' then named_zone w (text_of ''America/Los_Angeles'')
         else case find (\<lambda>(n, _). text_of n = lower) legacy_offsets of
           Some (_, hours) \<Rightarrow> Some (fixed_zone w (hours * 3600))
         | None \<Rightarrow>
             (case find (\<lambda>n. text_of n = lower) legacy_files of
                Some file \<Rightarrow> tzif_zone w file
              | None \<Rightarrow>
                  (case named_zone w name of
                     Some zone \<Rightarrow> Some zone
                   | None \<Rightarrow> map_option (fixed_zone w) (offset_seconds name))))"

section \<open>The next run\<close>

definition schedule_start :: "time_zones \<Rightarrow> text_value \<Rightarrow> int option" where
  "schedule_start w starts = parse_date (host_offset w) starts"

definition interval_run :: "time_zones \<Rightarrow> text_value \<Rightarrow> int \<Rightarrow> interval_unit \<Rightarrow> int \<Rightarrow> int option" where
  "interval_run w starts count unit after =
     (case schedule_start w starts of None \<Rightarrow> None | Some start \<Rightarrow> interval_next start count unit after)"

definition is_once :: "text_value \<Rightarrow> bool" where
  "is_once e \<longleftrightarrow> 58 \<in> set e \<and> hd e \<noteq> 58"

fun cron_parts :: "schedule \<Rightarrow> text_value \<times> text_value" where
  "cron_parts (WeeklySchedule ds h m zone) = (weekly_text m h ds, zone)"
| "cron_parts (CronSchedule e zone) = (e, zone)"
| "cron_parts (IntervalSchedule starts count unit) = ([], [])"

definition cron_run :: "time_zones \<Rightarrow> text_value \<Rightarrow> text_value \<Rightarrow> int \<Rightarrow> (schedule_error, int option) result option" where
  "cron_run w e name after =
     (case time_zone w name of
        None \<Rightarrow> Some (Inl InvalidZone)
      | Some zone \<Rightarrow>
          if is_once e
          then Some (ok_or DateFailed (cron_once (host_offset w) (host_zone w) (utc_zone w) zone e after))
          else case parse_cron e of
            Inl err \<Rightarrow> Some (Inl (InvalidCron err))
          | Inr p \<Rightarrow> map_option (ok_or DateFailed) (cron_next p zone after))"

definition schedule_next :: "time_zones \<Rightarrow> schedule \<Rightarrow> int \<Rightarrow> (schedule_error, int option) result option" where
  "schedule_next w s after =
     (case s of
        IntervalSchedule starts count unit \<Rightarrow> Some (Inr (interval_run w starts count unit after))
      | _ \<Rightarrow> case cron_parts s of (e, name) \<Rightarrow> cron_run w e name after)"

datatype cron_message = InvalidIso | CronMessage cron_error

definition cron_error_of :: "time_zones \<Rightarrow> text_value \<Rightarrow> zone \<Rightarrow> cron_message option" where
  "cron_error_of w e zone =
     (if is_once e
      then case once_fields (host_offset w) (host_zone w) (utc_zone w) zone e of None \<Rightarrow> Some InvalidIso | Some _ \<Rightarrow> None
      else case parse_cron e of Inl err \<Rightarrow> Some (CronMessage err) | Inr _ \<Rightarrow> None)"

definition schedule_first :: "time_zones \<Rightarrow> schedule \<Rightarrow> int \<Rightarrow> (schedule_error, int option) result option" where
  "schedule_first w s now =
     (case s of
        IntervalSchedule starts count unit \<Rightarrow>
          (case schedule_start w starts of
             Some start \<Rightarrow> if start \<ge> now then Some (Inr (Some start)) else schedule_next w s now
           | None \<Rightarrow> schedule_next w s now)
      | _ \<Rightarrow> schedule_next w s now)"

section \<open>Fixed offsets\<close>

definition offset_zone :: "int \<Rightarrow> zone" where
  "offset_zone off t = civil_utc (t + off * 1000)"

lemma second_floor:
  fixes v :: int
  shows "v div day_ms = v div 1000 * 1000 div day_ms" "v mod day_ms div 3600000 = v div 1000 * 1000 mod day_ms div 3600000"
    "v mod day_ms div 60000 = v div 1000 * 1000 mod day_ms div 60000" "v mod day_ms div 1000 = v div 1000 * 1000 mod day_ms div 1000"
proof -
  define q r where "q = v div 1000" and "r = v mod 1000"
  have v: "v = q * 1000 + r" "0 \<le> r" "r < 1000" by (simp_all add: q_def r_def)
  define a c where "a = q div 86400" and "c = q mod 86400"
  have q: "q = a * 86400 + c" "0 \<le> c" "c < 86400" by (simp_all add: a_def c_def)
  have e: "v = a * day_ms + (c * 1000 + r)" "q * 1000 = a * day_ms + c * 1000" using v(1) q(1) by simp_all
  have b: "0 \<le> c * 1000 + r" "c * 1000 + r < day_ms" "0 \<le> c * 1000" "c * 1000 < day_ms" using v q by simp_all
  have d: "v div day_ms = a" "q * 1000 div day_ms = a" "v mod day_ms = c * 1000 + r" "q * 1000 mod day_ms = c * 1000"
    using b unfolding e by (simp_all del: distrib_right_numeral)
  have k: "(c * 1000 + r) div 1000 = c" using v by simp
  have "x div 3600000 = x div 1000 div 3600" "x div 60000 = x div 1000 div 60" for x :: int
    by (simp_all add: zdiv_zmult2_eq [symmetric])
  then show "v div day_ms = v div 1000 * 1000 div day_ms" "v mod day_ms div 3600000 = v div 1000 * 1000 mod day_ms div 3600000"
    "v mod day_ms div 60000 = v div 1000 * 1000 mod day_ms div 60000" "v mod day_ms div 1000 = v div 1000 * 1000 mod day_ms div 1000"
    unfolding q_def [symmetric] d using k by (simp_all only: nonzero_mult_div_cancel_right)
qed

lemma cron_utc_fields_floor:
  assumes "\<bar>v\<bar> \<le> 8000000000000000"
  shows "cron_utc_fields v = cron_utc_fields (v div 1000 * 1000)"
proof -
  have n: "\<bar>q * 1000\<bar> \<le> time_clip" if "q * 1000 + r = v" "0 \<le> r" "r < 1000" for q r using that assms by simp
  have b: "\<bar>v\<bar> \<le> time_clip" using assms by simp
  have b': "\<bar>v div 1000 * 1000\<bar> \<le> time_clip" by (rule n [OF div_mult_mod_eq]) simp_all
  obtain y m d where u: "utc_fields v = Some (y, m, d)" "valid_date y m d" "days y m d = v div day_ms" using b by (rule utc_fields_days)
  have "utc_fields (v div 1000 * 1000) = Some (y, m, d)" unfolding utc_fields_eq second_floor(1) [symmetric] using u(2,3) b' by blast
  then show ?thesis unfolding cron_utc_fields_def u(1) option.case prod.case Let_def second_floor(2-4) [of v] by simp
qed

lemma year_range:
  assumes "valid_civil f" "- 58900000000 \<le> wall f" "wall f \<le> 29300000000"
  shows "101 \<le> f ! 0" "f ! 0 \<le> 2900"
proof -
  have n: "month_start 1212 = - 682638" "month_start 34812 = 340041" by code_simp+
  have v: "0 \<le> f ! 1" "f ! 1 \<le> 11" "searching f" using assms(1) valid_searching by (auto simp: valid_civil_def civil_date_def)
  have "12 * f ! 0 + f ! 1 < 34812" using level_less [OF assms(1), of 0 34812] assms(3) n(2) by (simp add: level_def level_start_def)
  then show "f ! 0 \<le> 2900" using v by simp
  have "\<not> 12 * f ! 0 + f ! 1 < 1212" using wall_months [OF v(3), of 1212] assms(2) n(1) by (auto simp: level_start_def)
  then show "101 \<le> f ! 0" using v by simp
qed

lemma offset_zone_civil: "zone_civil (offset_zone off)"
  using zone_civil_utc unfolding zone_civil_def offset_zone_def by blast

interpretation offset: civil_zone "offset_zone off" for off
  by unfold_locales (rule offset_zone_civil)

lemma offset_local:
  assumes "- 58000000000000 \<le> after" "after \<le> 29000000000000" "\<bar>off\<bar> \<le> 86400"
  obtains f where "cron_local (offset_zone off) True after = Some f" "valid_civil f" "wall f = after div 1000 + off"
proof -
  define s where "s = after div 1000"
  have s: "- 58000000000 \<le> s" "s \<le> 29000000000"
    using zdiv_mono1 [OF assms(1), of 1000] zdiv_mono1 [OF assms(2), of 1000] by (simp_all add: s_def)
  obtain e where e: "cron_utc_fields (s * 1000) = Some e" "valid_civil e" "wall e = s" by (rule wall_fields [of s]) (use s in simp)
  obtain f where f: "cron_utc_fields ((s + off) * 1000) = Some f" "valid_civil f" "wall f = s + off"
    by (rule wall_fields [of "s + off"]) (use s assms(3) in simp)
  have ey: "101 \<le> e ! 0" "e ! 0 \<le> 2900" by (rule year_range [OF e(2)]; use e(3) s in simp)+
  have fy: "101 \<le> f ! 0" by (rule year_range(1) [OF f(2)]; use f(3) s assms(3) in simp)
  have a: "cron_utc_fields after = Some e" using cron_utc_fields_floor [of after] assms(1,2) e(1) by (simp add: s_def)
  have "(after + off * 1000) div 1000 = s + off" by (simp add: s_def)
  then have z: "cron_utc_fields (after + off * 1000) = Some f"
    using cron_utc_fields_floor [of "after + off * 1000"] assms f(1) by (simp only:)
  obtain y m d h mi sec where t: "f = [y, m, d, h, mi, sec]" using f(2) by (auto simp: valid_civil_def civil_date_def elim: civil_cases)
  have l: "lookup_year (e ! 0) = e ! 0" using ey by (simp add: lookup_year_def)
  have "cron_local (offset_zone off) True after = Some f"
    unfolding cron_local_def a using fy by (simp add: l offset_zone_def civil_utc_def z t)
  then show ?thesis using that f by (simp add: s_def)
qed

lemma offset_instant:
  assumes "valid_civil g" "101 \<le> g ! 0" "g ! 0 \<le> 9997" "\<bar>off\<bar> \<le> 86400"
  shows "from_tz (offset_zone off) g = Some ((wall g - off) * 1000)"
proof -
  have "changes_once (offset_zone off) (wall g) 0 off off"
    using assms(4) by (simp add: changes_once_def offset_zone_def offset_at_def algebra_simps)
  from from_tz_eq [OF assms(1-3) this] show ?thesis by (simp add: offset_at_def)
qed

section \<open>Weekly schedules\<close>

lemma weekly_not_once: "\<not> is_once (weekly_text m h ds)"
proof -
  have "58 \<notin> set (joined 44 (map decimal_digits ds))"
    using set_joined [of 44 "map decimal_digits ds"] decimal_digits_digit by (fastforce simp: is_digit_def)
  moreover have "58 \<notin> set (decimal_digits n)" for n using decimal_digits_digit [of 58 n] by (auto simp: is_digit_def)
  ultimately have "58 \<notin> set (weekly_text m h ds)" by (simp add: weekly_text_def text_of_def)
  then show ?thesis by (simp add: is_once_def)
qed

lemma weekly_run_eq:
  assumes "time_zone w name = Some zone" "parse_cron (weekly_text m h ds) = Inr p"
  shows "schedule_next w (WeeklySchedule ds h m name) after = map_option (ok_or DateFailed) (cron_next p zone after)"
  using assms weekly_not_once by (simp add: schedule_next_def cron_run_def)

text \<open>A machine in UTC without named zones but UTC, for the witnesses.\<close>

definition utc_machine :: time_zones where
  "utc_machine = \<lparr>named_zone = (\<lambda>n. if n = text_of ''UTC'' then Some (offset_zone 0) else None), tzif_zone = (\<lambda>_. None), fixed_zone = offset_zone,
     host_zone = offset_zone 0, utc_zone = offset_zone 0, host_offset = Some\<rparr>"

lemma offset_seconds_bound:
  assumes "offset_seconds name = Some off"
  shows "\<bar>off\<bar> \<le> 86400"
proof -
  have nonneg: "0 \<le> n" if "offset_digits ds = Some n" for ds n using that by (auto simp: offset_digits_def split: if_splits)
  show ?thesis using assms by (auto simp: offset_seconds_def bind_eq_Some_conv split: list.splits if_splits dest!: nonneg)
qed

lemma utc_machine_zones:
  assumes "time_zone utc_machine name = Some zone"
  obtains off where "zone = offset_zone off" "\<bar>off\<bar> \<le> 86400"
proof -
  have l: "\<bar>h\<bar> \<le> 10" if "find P legacy_offsets = Some (n, h)" for P n h
    using that by (auto simp: legacy_offsets_def split: if_splits)
  have "(\<exists>off. zone = offset_zone off \<and> \<bar>off\<bar> \<le> 86400)"
    using assms offset_seconds_bound l
    by (force simp: time_zone_def utc_machine_def Let_def split: if_splits option.splits prod.splits)
  then show ?thesis using that by blast
qed

section \<open>Properties\<close>

text \<open>
  (C33) Asking for the next run of a schedule always returns: an interval directly, a weekly or cron schedule because the
  search over the calendar ends, for every zone that gives civil fields in their ranges and every instant whose local
  year is from 100 to 260000.
\<close>

theorem schedule_next_returns:
  assumes "\<And>name zone. time_zone w name = Some zone \<Longrightarrow> zone_civil zone"
    and "\<And>name zone f. time_zone w name = Some zone \<Longrightarrow> cron_local zone True after = Some f \<Longrightarrow> 100 \<le> f ! 0 \<and> f ! 0 \<le> 260000"
  shows "\<exists>r. schedule_next w s after = Some r"
proof -
  have "\<exists>r. cron_run w e name after = Some r" for e name
  proof (cases "time_zone w name")
    case None
    then show ?thesis by (simp add: cron_run_def)
  next
    case (Some zone)
    show ?thesis
    proof (cases "parse_cron e")
      case (Inl err)
      then show ?thesis using Some by (simp add: cron_run_def)
    next
      case (Inr p)
      have "\<exists>r. cron_next p zone after = Some r" using civil_zone.cron_next_returns [OF civil_zone.intro [OF assms(1) [OF Some]] Inr] assms(2) [OF Some] by blast
      then show ?thesis using Some Inr by (auto simp: cron_run_def)
    qed
  qed
  then show ?thesis by (cases s) (auto simp: schedule_next_def)
qed

theorem schedule_next_returns_witness:
  "\<exists>r. schedule_next utc_machine (CronSchedule (text_of ''0 0 1,31 * *'') (text_of ''UTC'')) 1704067200000 = Some r"
proof (rule schedule_next_returns)
  fix name zone assume z: "time_zone utc_machine name = Some zone"
  from utc_machine_zones [OF z] obtain off where off: "zone = offset_zone off" "\<bar>off\<bar> \<le> 86400" .
  then show "zone_civil zone" using offset_zone_civil by simp
  fix f assume f: "cron_local zone True 1704067200000 = Some f"
  obtain f' where "cron_local (offset_zone off) True 1704067200000 = Some f'" "valid_civil f'" "wall f' = 1704067200000 div 1000 + off"
    by (rule offset_local [of 1704067200000 off]) (use off in auto)
  then have "f' = f" "valid_civil f" "wall f = 1704067200 + off" using f off by auto
  then show "100 \<le> f ! 0 \<and> f ! 0 \<le> 260000" using year_range [of f] off(2) by (simp add: abs_le_iff)
qed

text \<open>
  A weekly schedule runs next at the first of its weekdays and times after the instant given, in the civil time of
  its zone, and at most seven days later.
\<close>

lemma weekly_schedule_next:
  assumes "m < 60" "h < 24" "ds \<noteq> []" "\<forall>d \<in> set ds. d < 7" "time_zone w name = Some zone"
    and "zone_civil zone" "cron_local zone True after = Some f" "100 \<le> f ! 0" "f ! 0 \<le> 2900"
  shows "\<exists>g. schedule_next w (WeeklySchedule ds h m name) after = Some (ok_or DateFailed (map_option Some (from_tz zone g))) \<and>
    weekly_run m h ds g \<and> wall f < wall g \<and> wall g \<le> wall f + 7 * 86400 \<and>
    (\<forall>g'. weekly_run m h ds g' \<and> wall f < wall g' \<longrightarrow> wall g \<le> wall g')"
  using civil_zone.weekly_cron_next [OF civil_zone.intro [OF assms(6)] assms(1-4,7-9)] weekly_run_eq [OF assms(5)] by fastforce

lemma utc_machine_offset: "time_zone utc_machine (text_of ''+05:30'') = Some (offset_zone 19800)"
  by (simp add: time_zone_def utc_machine_def text_of_def ascii_lower_def legacy_offsets_def legacy_files_def offset_seconds_def offset_digits_def
    is_digit_def digits_value_def Let_def)

text \<open>
  In a zone of a fixed offset the next run of a weekly schedule is exact to the millisecond: it is the first instant
  after the one given that shows one of its weekdays and its time on the zone's clock, at most seven days later.
\<close>

lemma weekly_offset_next:
  assumes "m < 60" "h < 24" "ds \<noteq> []" "\<forall>d \<in> set ds. d < 7" "time_zone w name = Some (offset_zone off)" "\<bar>off\<bar> \<le> 86400"
    and "- 58000000000000 \<le> after" "after \<le> 29000000000000"
  shows "\<exists>g. schedule_next w (WeeklySchedule ds h m name) after = Some (Inr (Some ((wall g - off) * 1000))) \<and>
    weekly_run m h ds g \<and> after < (wall g - off) * 1000 \<and> (wall g - off) * 1000 \<le> after + 7 * 86400000 \<and>
    (\<forall>g'. weekly_run m h ds g' \<and> after < (wall g' - off) * 1000 \<longrightarrow> wall g \<le> wall g')"
proof -
  define q r where "q = after div 1000" and "r = after mod 1000"
  have q: "after = q * 1000 + r" "0 \<le> r" "r < 1000" by (simp_all add: q_def r_def)
  obtain f where f: "cron_local (offset_zone off) True after = Some f" "valid_civil f" "wall f = q + off"
    using offset_local [OF assms(7,8,6)] unfolding q_def by blast
  have qb: "- 58000000001 \<le> q" "q \<le> 29000000000" using q assms(7,8) by simp_all
  have fy: "101 \<le> f ! 0" "f ! 0 \<le> 2900" by (rule year_range [OF f(2)]; use f(3) qb assms(6) in simp)+
  have fy': "100 \<le> f ! 0" using fy by simp
  obtain p g where g: "parse_cron (weekly_text m h ds) = Inr p" "cron_next p (offset_zone off) after = Some (map_option Some (from_tz (offset_zone off) g))"
      "weekly_run m h ds g" "wall f < wall g" "wall g \<le> wall f + 7 * 86400" "\<forall>g'. weekly_run m h ds g' \<and> wall f < wall g' \<longrightarrow> wall g \<le> wall g'"
    using offset.weekly_cron_next [OF assms(1-4) f(1) fy' fy(2)] by blast
  have v: "valid_civil g" using g(3) by (simp add: weekly_run_def)
  have gy: "101 \<le> g ! 0" "g ! 0 \<le> 2900" by (rule year_range [OF v]; use g(4,5) f(3) qb assms(6) in simp)+
  have "schedule_next w (WeeklySchedule ds h m name) after = Some (Inr (Some ((wall g - off) * 1000)))"
    using weekly_run_eq [OF assms(5) g(1)] g(2) offset_instant [OF v gy(1) _ assms(6)] gy(2) by simp
  moreover have "after < (wall g - off) * 1000" "(wall g - off) * 1000 \<le> after + 7 * 86400000" using g(4,5) f(3) q by simp_all
  moreover have "wall g \<le> wall g'" if "weekly_run m h ds g'" "after < (wall g' - off) * 1000" for g'
    using g(6) that f(3) q by simp
  ultimately show ?thesis using g(3) by blast
qed

end
