(* ===== verification/AutomationRuns.thy ===== *)
theory AutomationRuns
  imports Schedules
begin

text \<open>
  The automations of a project and the runs of their occurrences
  (\<^verbatim>\<open>cantrip_server_rs/src/project_automations/repository.rs\<close> with the statements of its \<^verbatim>\<open>queries.json\<close>). A table is
  the list of its rows; a statement is a search or an update of the rows its condition selects. Every repository call
  is one transaction, except \<open>update\<close>, which reads before it writes (\<open>update_plan\<close>, then \<open>update_apply\<close>). Times are
  milliseconds; the ids and lease tokens the code draws are arguments. The join of an automation with the worktree of its
  chat reads the tables of projects and chats, which other parts of the server change.
\<close>

type_synonym key = text_value

datatype run_status = Dispatching | Started | Queued | Skipped | Failed

record chat_row =
  chat_project :: key
  chat_agent :: bool
  chat_worker :: "key option"
  chat_effort :: "key option"

record content =
  protected_name :: text_value
  protected_prompt :: text_value
  protected_condition :: text_value

record automation =
  a_id :: key
  a_owner :: key
  a_project :: key
  a_chat :: key
  a_content :: content
  a_schedule :: schedule
  a_enabled :: bool
  a_revision :: int
  a_next :: "int option"
  a_last_run :: "int option"
  a_last_status :: "run_status option"
  a_last_error :: "text_value option"
  a_created :: int
  a_updated :: int

record run_row =
  r_id :: key
  r_automation :: key
  r_owner :: key
  r_project :: key
  r_chat :: key
  r_worker :: key
  r_revision :: int
  r_scheduled :: int
  r_status :: run_status
  r_instance :: key
  r_token :: key
  r_fence :: int
  r_expires :: int
  r_attempt :: int
  r_effort :: "key option"
  r_error :: "text_value option"
  r_claimed :: int
  r_completed :: "int option"
  r_created :: int
  r_updated :: int

record tables =
  projects :: "(key \<times> key) list"
  chats :: "(key \<times> chat_row) list"
  automations :: "automation list"
  runs :: "run_row list"

record lease =
  l_automation :: automation
  l_worker :: key
  l_instance :: key
  l_fence :: int
  l_token :: key
  l_next :: "int option"
  l_run :: key
  l_effort :: "key option"
  l_scheduled :: int

datatype run_error =
    ScheduleFailed schedule_error | NoFutureOccurrence | InvalidTime | ForeignChat | ClaimConflict | DuplicateKey

section \<open>Statements\<close>

definition check_date :: "int \<Rightarrow> (run_error, text_value) result" where
  "check_date ms = ok_or InvalidTime (iso_milliseconds ms)"

definition check_date_option :: "int option \<Rightarrow> (run_error, unit) result" where
  "check_date_option ms = (case ms of None \<Rightarrow> Inr () | Some t \<Rightarrow> rbind (check_date t) (\<lambda>_. Inr ()))"

definition worker_of :: "tables \<Rightarrow> key \<Rightarrow> key option" where
  "worker_of db chat = Option.bind (map_of (chats db) chat) chat_worker"

definition target :: "tables \<Rightarrow> key \<Rightarrow> key \<Rightarrow> key \<Rightarrow> key option" where
  "target db owner project chat =
     Option.bind (map_of (chats db) chat) (\<lambda>c.
       if map_of (projects db) (chat_project c) = Some owner \<and> chat_project c = project \<and> chat_agent c then chat_worker c else None)"

definition get_automation :: "tables \<Rightarrow> key \<Rightarrow> key \<Rightarrow> (automation \<times> key) option" where
  "get_automation db owner i =
     Option.bind (find (\<lambda>a. a_id a = i) (automations db)) (\<lambda>a.
       if map_of (projects db) (a_project a) = Some owner then map_option (Pair a) (worker_of db (a_chat a)) else None)"

text \<open>The first run of a schedule that is switched on; the outer option is a search that does not end.\<close>

definition first_run :: "time_zones \<Rightarrow> bool \<Rightarrow> schedule \<Rightarrow> int \<Rightarrow> (run_error, int option) result option" where
  "first_run w enabled s now =
     (if \<not> enabled then Some (Inr None)
      else map_option (\<lambda>r. case r of
             Inl e \<Rightarrow> Inl (ScheduleFailed e)
           | Inr None \<Rightarrow> Inl NoFutureOccurrence
           | Inr (Some t) \<Rightarrow> Inr (Some t)) (schedule_first w s now))"

section \<open>Operations\<close>

record creation =
  c_id :: key
  c_chat :: key
  c_content :: content
  c_schedule :: schedule
  c_enabled :: bool

definition create_automation ::
  "time_zones \<Rightarrow> tables \<Rightarrow> key \<Rightarrow> key \<Rightarrow> creation \<Rightarrow> int \<Rightarrow> (run_error, tables \<times> (automation \<times> key) option) result option" where
  "create_automation w db owner project input now =
     (case target db owner project (c_chat input) of
        None \<Rightarrow> Some (Inr (db, None))
      | Some worker \<Rightarrow>
          map_option (\<lambda>r. rbind r (\<lambda>next_run.
            rbind (check_date_option next_run) (\<lambda>_. rbind (check_date now) (\<lambda>_.
              if \<exists>a \<in> set (automations db). a_id a = c_id input then Inl DuplicateKey
              else
                let a = \<lparr>a_id = c_id input, a_owner = owner, a_project = project, a_chat = c_chat input, a_content = c_content input,
                  a_schedule = c_schedule input, a_enabled = c_enabled input, a_revision = 1, a_next = next_run, a_last_run = None,
                  a_last_status = None, a_last_error = None, a_created = now, a_updated = now\<rparr>
                in Inr (db\<lparr>automations := automations db @ [a]\<rparr>, Some (a, worker))))))
            (first_run w (c_enabled input) (c_schedule input) now))"

record edit =
  e_chat :: "key option"
  e_name :: "text_value option"
  e_prompt :: "text_value option"
  e_condition :: "text_value option"
  e_schedule :: "schedule option"
  e_enabled :: "bool option"

record plan =
  p_id :: key
  p_owner :: key
  p_revision :: int
  p_chat :: key
  p_schedule :: schedule
  p_enabled :: bool
  p_next :: "int option"
  p_edit :: edit
  p_worker :: key
  p_now :: int

definition refreshes :: "edit \<Rightarrow> automation \<Rightarrow> bool" where
  "refreshes e a \<longleftrightarrow> e_schedule e \<noteq> None \<or> e_chat e \<noteq> None \<or> (e_enabled e = Some True \<and> \<not> a_enabled a)"

definition update_plan ::
  "time_zones \<Rightarrow> tables \<Rightarrow> key \<Rightarrow> key \<Rightarrow> edit \<Rightarrow> int \<Rightarrow> int \<Rightarrow> (run_error, plan option) result option" where
  "update_plan w db owner i e now1 now2 =
     (case get_automation db owner i of
        None \<Rightarrow> Some (Inr None)
      | Some (a, _) \<Rightarrow>
          let chat = (case e_chat e of Some c \<Rightarrow> c | None \<Rightarrow> a_chat a)
          in case target db owner (a_project a) chat of
               None \<Rightarrow> Some (Inl ForeignChat)
             | Some worker \<Rightarrow>
                 let enabled = (case e_enabled e of Some b \<Rightarrow> b | None \<Rightarrow> a_enabled a);
                     s = (case e_schedule e of Some s \<Rightarrow> s | None \<Rightarrow> a_schedule a)
                 in map_option (\<lambda>r. rbind r (\<lambda>next_run.
                      rbind (check_date_option next_run) (\<lambda>_. rbind (check_date now2) (\<lambda>_.
                        Inr (Some \<lparr>p_id = i, p_owner = owner, p_revision = a_revision a, p_chat = chat, p_schedule = s, p_enabled = enabled,
                          p_next = next_run, p_edit = e, p_worker = worker, p_now = now2\<rparr>)))))
                    (if \<not> enabled then Some (Inr None)
                     else if refreshes e a \<or> a_next a = None then first_run w True s now1
                     else Some (Inr (a_next a))))"

definition edited_content :: "edit \<Rightarrow> content \<Rightarrow> content" where
  "edited_content e c =
     \<lparr>protected_name = (case e_name e of Some v \<Rightarrow> v | None \<Rightarrow> protected_name c),
      protected_prompt = (case e_prompt e of Some v \<Rightarrow> v | None \<Rightarrow> protected_prompt c),
      protected_condition = (case e_condition e of Some v \<Rightarrow> v | None \<Rightarrow> protected_condition c)\<rparr>"

definition plan_selects :: "plan \<Rightarrow> automation \<Rightarrow> bool" where
  "plan_selects p a \<longleftrightarrow> a_id a = p_id p \<and> a_owner a = p_owner p \<and> a_revision a = p_revision p"

definition planned :: "plan \<Rightarrow> automation \<Rightarrow> automation" where
  "planned p a = a\<lparr>a_chat := p_chat p, a_content := edited_content (p_edit p) (a_content a), a_schedule := p_schedule p, a_enabled := p_enabled p,
     a_revision := p_revision p + 1, a_next := p_next p, a_last_error := None, a_updated := p_now p\<rparr>"

definition update_apply :: "tables \<Rightarrow> plan \<Rightarrow> tables \<times> (automation \<times> key) option" where
  "update_apply db p =
     (db\<lparr>automations := update_rows (plan_selects p) (planned p) (automations db)\<rparr>,
      map_option (\<lambda>a. (planned p a, p_worker p)) (find (plan_selects p) (automations db)))"

definition delete_automation :: "tables \<Rightarrow> key \<Rightarrow> key \<Rightarrow> tables \<times> bool" where
  "delete_automation db owner i =
     (if \<exists>a \<in> set (automations db). a_id a = i \<and> a_owner a = owner
      then (db\<lparr>automations := filter (\<lambda>a. \<not> (a_id a = i \<and> a_owner a = owner)) (automations db),
               runs := filter (\<lambda>r. r_automation r \<noteq> i) (runs db)\<rparr>, True)
      else (db, False))"

section \<open>Claiming and finishing an occurrence\<close>

record claim_request =
  q_owner :: key
  q_worker :: key
  q_automation :: key
  q_revision :: int
  q_scheduled :: text_value
  q_instance :: key
  q_ttl :: int
  q_token :: key
  q_run :: key

definition due_automation :: "tables \<Rightarrow> claim_request \<Rightarrow> (automation \<times> key option) option" where
  "due_automation db q =
     Option.bind (find (\<lambda>a. a_id a = q_automation q \<and> a_owner a = q_owner q) (automations db)) (\<lambda>a.
       Option.bind (map_of (chats db) (a_chat a)) (\<lambda>c.
         if chat_worker c = Some (q_worker q) \<and> a_enabled a \<and> a_revision a = q_revision q \<and> a_next a \<noteq> None
         then Some (a, chat_effort c) else None))"

definition existing_run :: "tables \<Rightarrow> key \<Rightarrow> int \<Rightarrow> run_row option" where
  "existing_run db i expected = find (\<lambda>r. r_automation r = i \<and> r_scheduled r = expected) (runs db)"

definition renewable :: "key \<Rightarrow> int \<Rightarrow> int \<Rightarrow> run_row \<Rightarrow> bool" where
  "renewable i fence now r \<longleftrightarrow> r_id r = i \<and> r_fence r = fence \<and> r_expires r \<le> now \<and> r_status r = Dispatching"

definition renewed :: "claim_request \<Rightarrow> run_row \<Rightarrow> int \<Rightarrow> run_row \<Rightarrow> run_row" where
  "renewed q old now r = r\<lparr>r_instance := q_instance q, r_token := q_token q, r_fence := r_fence old + 1, r_expires := now + q_ttl q,
     r_attempt := r_attempt old + 1, r_error := None, r_claimed := now, r_updated := now\<rparr>"

definition fresh_run :: "claim_request \<Rightarrow> automation \<Rightarrow> key option \<Rightarrow> int \<Rightarrow> int \<Rightarrow> run_row" where
  "fresh_run q a effort expected now =
     \<lparr>r_id = q_run q, r_automation = q_automation q, r_owner = q_owner q, r_project = a_project a, r_chat = a_chat a, r_worker = q_worker q,
      r_revision = a_revision a, r_scheduled = expected, r_status = Dispatching, r_instance = q_instance q, r_token = q_token q, r_fence = 1,
      r_expires = now + q_ttl q, r_attempt = 1, r_effort = effort, r_error = None, r_claimed = now, r_completed = None,
      r_created = now, r_updated = now\<rparr>"

definition claim_row ::
  "tables \<Rightarrow> claim_request \<Rightarrow> automation \<Rightarrow> key option \<Rightarrow> int \<Rightarrow> int \<Rightarrow> run_row option \<Rightarrow> (run_error, run_row list \<times> run_row option) result" where
  "claim_row db q a effort expected now existing =
     (case existing of
        Some old \<Rightarrow>
          let P = renewable (r_id old) (r_fence old) now
          in Inr (update_rows P (renewed q old now) (runs db), map_option (renewed q old now) (find P (runs db)))
      | None \<Rightarrow>
          if \<exists>r \<in> set (runs db). r_id r = q_run q then Inl DuplicateKey
          else Inr (runs db @ [fresh_run q a effort expected now], Some (fresh_run q a effort expected now)))"

definition marks :: "claim_request \<Rightarrow> automation \<Rightarrow> int \<Rightarrow> automation \<Rightarrow> bool" where
  "marks q row expected a \<longleftrightarrow> a_id a = q_automation q \<and> a_revision a = a_revision row \<and> a_next a = Some expected"

definition marked :: "int \<Rightarrow> int \<Rightarrow> automation \<Rightarrow> automation" where
  "marked expected now a = a\<lparr>a_last_run := Some expected, a_last_status := Some Dispatching, a_last_error := None, a_updated := now\<rparr>"

definition claim_grant ::
  "tables \<Rightarrow> claim_request \<Rightarrow> automation \<Rightarrow> key option \<Rightarrow> int \<Rightarrow> int \<Rightarrow> int option \<Rightarrow> (run_error, tables \<times> lease option) result" where
  "claim_grant db q a effort expected now next_run =
     (let existing = existing_run db (q_automation q) expected
      in if (case existing of Some r \<Rightarrow> r_status r \<noteq> Dispatching \<or> r_expires r > now | None \<Rightarrow> False) then Inr (db, None)
         else rbind (check_date (now + q_ttl q)) (\<lambda>_. rbind (check_date now) (\<lambda>_.
           rbind (claim_row db q a effort expected now existing) (\<lambda>(rows, run).
             case run of
               None \<Rightarrow> Inr (db\<lparr>runs := rows\<rparr>, None)
             | Some r \<Rightarrow>
                 (case find (marks q a expected) (automations db) of
                    None \<Rightarrow> Inl ClaimConflict
                  | Some a' \<Rightarrow>
                      Inr (db\<lparr>runs := rows, automations := update_rows (marks q a expected) (marked expected now) (automations db)\<rparr>,
                        Some \<lparr>l_automation = marked expected now a', l_worker = q_worker q, l_instance = q_instance q, l_fence = r_fence r,
                          l_token = q_token q, l_next = next_run, l_run = r_id r, l_effort = r_effort r, l_scheduled = expected\<rparr>))))))"

definition claim_due_at :: "time_zones \<Rightarrow> tables \<Rightarrow> claim_request \<Rightarrow> int \<Rightarrow> (run_error, tables \<times> lease option) result option" where
  "claim_due_at w db q now =
     (case due_automation db q of
        None \<Rightarrow> Some (Inr (db, None))
      | Some (a, effort) \<Rightarrow>
          let expected = the (a_next a)
          in case check_date expected of
               Inl e \<Rightarrow> Some (Inl e)
             | Inr printed \<Rightarrow>
                 if printed \<noteq> q_scheduled q \<or> expected > now + 30000 then Some (Inr (db, None))
                 else map_option (\<lambda>r. case r of
                        Inl e \<Rightarrow> Inl (ScheduleFailed e)
                      | Inr next_run \<Rightarrow> claim_grant db q a effort expected now next_run)
                    (schedule_next w (a_schedule a) (max now expected)))"

definition finishable :: "lease \<Rightarrow> int \<Rightarrow> run_row \<Rightarrow> bool" where
  "finishable l now r \<longleftrightarrow> r_id r = l_run l \<and> r_instance r = l_instance l \<and> r_token r = l_token l \<and> r_fence r = l_fence l \<and>
     r_status r = Dispatching \<and> r_expires r > now"

definition finished :: "run_status \<Rightarrow> text_value option \<Rightarrow> int \<Rightarrow> run_row \<Rightarrow> run_row" where
  "finished status error now r = r\<lparr>r_status := status, r_error := error, r_completed := Some now, r_updated := now\<rparr>"

definition advances :: "lease \<Rightarrow> automation \<Rightarrow> bool" where
  "advances l a \<longleftrightarrow> a_id a = a_id (l_automation l) \<and> a_revision a = a_revision (l_automation l) \<and> a_next a = Some (l_scheduled l)"

definition advanced :: "lease \<Rightarrow> run_status \<Rightarrow> text_value option \<Rightarrow> int \<Rightarrow> automation \<Rightarrow> automation" where
  "advanced l status error now a = a\<lparr>a_next := l_next l, a_last_run := Some (l_scheduled l), a_last_status := Some status,
     a_last_error := error, a_updated := now\<rparr>"

definition finish_dispatch_at ::
  "tables \<Rightarrow> lease \<Rightarrow> run_status \<Rightarrow> text_value option \<Rightarrow> int \<Rightarrow> (run_error, tables \<times> bool) result" where
  "finish_dispatch_at db l status error now =
     (let err = map_option (take 5000) error
      in rbind (check_date now) (\<lambda>_. rbind (check_date (l_scheduled l)) (\<lambda>_. rbind (check_date_option (l_next l)) (\<lambda>_.
           if \<not> (\<exists>r \<in> set (runs db). finishable l now r) then Inr (db, False)
           else Inr (db\<lparr>runs := update_rows (finishable l now) (finished status err now) (runs db),
                       automations := update_rows (advances l) (advanced l status err now) (automations db)\<rparr>, True)))))"

end
