(* ===== verification/RunSafety.thy ===== *)
theory RunSafety
  imports AutomationRuns
begin

text \<open>
  The safety of automation runs. \<open>run_step\<close> interleaves the repository calls of any number of server instances, with the
  leases handed out so far kept beside the tables; \<open>run_inv\<close> holds in every reachable state. A lease carries the token
  its claim drew and the fencing token of its run, and only the lease of the row's current token can finish the run.
\<close>

section \<open>Update of rows\<close>

lemma update_rows_map: "(\<And>r. P r \<Longrightarrow> g (f r) = g r) \<Longrightarrow> map g (update_rows P f rows) = map g rows"
  by (simp add: update_rows_def)

lemma in_update_rows: "r \<in> set (update_rows P f rows) \<longleftrightarrow> (\<exists>s \<in> set rows. r = (if P s then f s else s))"
  by (auto simp: update_rows_def)

lemma update_rows_none: "find P rows = None \<Longrightarrow> update_rows P f rows = rows"
  by (induction rows) (auto simp: update_rows_def split: if_splits)

lemma find_append: "find P (xs @ ys) = (case find P xs of None \<Rightarrow> find P ys | Some x \<Rightarrow> Some x)"
  by (induction xs) auto

section \<open>What a claim does\<close>

lemma claim_lease_cases:
  assumes "claim_due_at w db q now = Some (Inr (db', Some l))"
  obtains (fresh) a a' effort expected where
      "due_automation db q = Some (a, effort)" "a_next a = Some expected" "expected \<le> now + 30000"
      "existing_run db (q_automation q) expected = None"
      "\<forall>r \<in> set (runs db). r_id r \<noteq> q_run q"
      "runs db' = runs db @ [fresh_run q a effort expected now]"
      "automations db' = update_rows (marks q a expected) (marked expected now) (automations db)"
      "schedule_next w (a_schedule a) (max now expected) = Some (Inr (l_next l))"
      "find (marks q a expected) (automations db) = Some a'" "l_automation l = marked expected now a'"
      "l_run l = q_run q" "l_token l = q_token q" "l_fence l = 1" "l_instance l = q_instance q" "l_scheduled l = expected"
  | (renew) a a' effort expected old where
      "due_automation db q = Some (a, effort)" "a_next a = Some expected" "expected \<le> now + 30000"
      "existing_run db (q_automation q) expected = Some old" "r_status old = Dispatching" "r_expires old \<le> now"
      "runs db' = update_rows (renewable (r_id old) (r_fence old) now) (renewed q old now) (runs db)"
      "automations db' = update_rows (marks q a expected) (marked expected now) (automations db)"
      "schedule_next w (a_schedule a) (max now expected) = Some (Inr (l_next l))"
      "find (marks q a expected) (automations db) = Some a'" "l_automation l = marked expected now a'"
      "l_run l = r_id old" "l_token l = q_token q" "l_fence l = r_fence old + 1" "l_instance l = q_instance q" "l_scheduled l = expected"
proof -
  obtain a effort where a: "due_automation db q = Some (a, effort)" using assms by (auto simp: claim_due_at_def split: option.splits)
  then obtain expected where x: "a_next a = Some expected" by (auto simp: due_automation_def bind_eq_Some_conv split: if_splits)
  obtain nx where n: "schedule_next w (a_schedule a) (max now expected) = Some (Inr nx)" "expected \<le> now + 30000"
    "claim_grant db q a effort expected now nx = Inr (db', Some l)"
    using assms a x by (auto simp: claim_due_at_def Let_def split: sum.split_asm if_split_asm) (metis obj_sumE)
  let ?x = "existing_run db (q_automation q) expected"
  obtain rows run where g: "claim_row db q a effort expected now ?x = Inr (rows, Some run)"
    "\<not> (case ?x of Some r \<Rightarrow> r_status r \<noteq> Dispatching \<or> r_expires r > now | None \<Rightarrow> False)"
    using n(3) by (auto simp: claim_grant_def Let_def rbind_eq_Inr split: if_splits option.splits prod.splits)
  obtain a' where l: "find (marks q a expected) (automations db) = Some a'"
    "db' = db\<lparr>runs := rows, automations := update_rows (marks q a expected) (marked expected now) (automations db)\<rparr>"
    "l = \<lparr>l_automation = marked expected now a', l_worker = q_worker q, l_instance = q_instance q, l_fence = r_fence run,
       l_token = q_token q, l_next = nx, l_run = r_id run, l_effort = r_effort run, l_scheduled = expected\<rparr>"
    using n(3) g by (auto simp: claim_grant_def Let_def rbind_eq_Inr split: if_splits option.splits)
  show ?thesis
  proof (cases ?x)
    case None
    moreover have "\<forall>r \<in> set (runs db). r_id r \<noteq> q_run q" "rows = runs db @ [fresh_run q a effort expected now]" "run = fresh_run q a effort expected now"
      using g(1) None by (auto simp: claim_row_def split: if_splits)
    ultimately show ?thesis using fresh [OF a x n(2)] n(1) l by (simp add: fresh_run_def)
  next
    case (Some old)
    moreover have "r_status old = Dispatching" "r_expires old \<le> now" using g(2) Some by auto
    moreover have "rows = update_rows (renewable (r_id old) (r_fence old) now) (renewed q old now) (runs db)" "r_id run = r_id old" "r_fence run = r_fence old + 1"
      using g(1) Some by (auto simp: claim_row_def Let_def renewed_def renewable_def find_Some_iff)
    ultimately show ?thesis using renew [OF a x n(2)] n(1) l by simp
  qed
qed

lemma existing_run_None: "existing_run db i t = None \<longleftrightarrow> (\<forall>r \<in> set (runs db). \<not> (r_automation r = i \<and> r_scheduled r = t))"
  by (auto simp: existing_run_def find_None_iff)

lemma existing_run_Some: "existing_run db i t = Some r \<Longrightarrow> r \<in> set (runs db) \<and> r_automation r = i \<and> r_scheduled r = t"
  by (auto simp: existing_run_def find_Some_iff)

lemma existing_run_update:
  assumes "runs db' = update_rows Q f (runs db)" "\<And>r. r_automation (f r) = r_automation r \<and> r_scheduled (f r) = r_scheduled r"
  shows "existing_run db' i t = map_option (\<lambda>r. if Q r then f r else r) (existing_run db i t)"
proof -
  have "find (\<lambda>r. r_automation r = i \<and> r_scheduled r = t) (update_rows Q f rows) =
      map_option (\<lambda>r. if Q r then f r else r) (find (\<lambda>r. r_automation r = i \<and> r_scheduled r = t) rows)" for rows
    using assms(2) by (induction rows) (auto simp: update_rows_def)
  then show ?thesis by (simp add: existing_run_def assms(1))
qed

lemma unclaimed_tables: "claim_due_at w db q now = Some (Inr (db', None)) \<Longrightarrow> runs db' = runs db \<and> automations db' = automations db"
proof -
  assume c: "claim_due_at w db q now = Some (Inr (db', None))"
  have grant: "runs db' = runs db \<and> automations db' = automations db" if "claim_grant db q a effort expected now nx = Inr (db', None)" for a effort expected nx
    using that by (auto simp: claim_grant_def claim_row_def Let_def rbind_eq_Inr update_rows_none split: if_splits option.splits)
  show ?thesis
  proof (cases "due_automation db q")
    case None
    then show ?thesis using c by (simp add: claim_due_at_def)
  next
    case (Some x)
    then show ?thesis using c grant by (auto simp: claim_due_at_def Let_def split: prod.split_asm sum.split_asm if_split_asm) (metis obj_sumE)+
  qed
qed

section \<open>The system\<close>

text \<open>
  The tables and the leases handed out so far. Any number of server instances call the repository, each call a
  transaction of its own at a time of its own clock; a call that fails changes nothing. Lease tokens and run ids are
  drawn fresh. Other parts of the server change the projects and chats.
\<close>

inductive run_step :: "time_zones \<Rightarrow> tables \<times> lease list \<Rightarrow> tables \<times> lease list \<Rightarrow> bool" for w where
  claimed: "claim_due_at w db q now = Some (Inr (db', Some l)) \<Longrightarrow> q_token q \<notin> l_token ` set ls \<Longrightarrow> q_run q \<notin> l_run ` set ls \<Longrightarrow>
    run_step w (db, ls) (db', l # ls)"
| unclaimed: "claim_due_at w db q now = Some (Inr (db', None)) \<Longrightarrow> run_step w (db, ls) (db', ls)"
| finishing: "l \<in> set ls \<Longrightarrow> status \<noteq> Dispatching \<Longrightarrow> finish_dispatch_at db l status err now = Inr (db', b) \<Longrightarrow> run_step w (db, ls) (db', ls)"
| creating: "create_automation w db owner project input now = Some (Inr (db', r)) \<Longrightarrow> run_step w (db, ls) (db', ls)"
| updating: "update_apply db p = (db', r) \<Longrightarrow> run_step w (db, ls) (db', ls)"
| deleting: "delete_automation db owner i = (db', r) \<Longrightarrow> run_step w (db, ls) (db', ls)"
| elsewhere: "db' = db\<lparr>projects := ps, chats := cs\<rparr> \<Longrightarrow> run_step w (db, ls) (db', ls)"

inductive_cases run_stepE [elim]: "run_step w s s'"

inductive run_reachable :: "time_zones \<Rightarrow> tables \<times> lease list \<Rightarrow> bool" for w where
  start: "runs db = [] \<Longrightarrow> run_reachable w (db, [])"
| more: "run_reachable w s \<Longrightarrow> run_step w s s' \<Longrightarrow> run_reachable w s'"

definition run_ok :: "run_row \<Rightarrow> bool" where
  "run_ok r \<longleftrightarrow> 0 < r_fence r \<and> r_attempt r = r_fence r \<and> (r_completed r = None \<longleftrightarrow> r_status r = Dispatching)"

definition lease_of :: "lease \<Rightarrow> run_row \<Rightarrow> bool" where
  "lease_of l r \<longleftrightarrow> l_run l = r_id r \<and> l_scheduled l = r_scheduled r \<and> a_id (l_automation l) = r_automation r"

definition run_inv :: "tables \<times> lease list \<Rightarrow> bool" where
  "run_inv s \<longleftrightarrow>
     (case s of (db, ls) \<Rightarrow>
        distinct (map r_id (runs db)) \<and> distinct (map (\<lambda>r. (r_automation r, r_scheduled r)) (runs db)) \<and>
        distinct (map l_token ls) \<and>
        (\<forall>r \<in> set (runs db). run_ok r \<and> (\<exists>l \<in> set ls. lease_of l r \<and> l_token l = r_token r \<and> l_fence l = r_fence r)) \<and>
        (\<forall>r \<in> set (runs db). \<forall>l \<in> set ls. l_run l = r_id r \<longrightarrow>
           lease_of l r \<and> l_fence l \<le> r_fence r \<and> (l_fence l = r_fence r \<longrightarrow> l_token l = r_token r)))"

lemma inv_runs_only:
  assumes "run_inv (db, ls)" "runs db' = runs db"
  shows "run_inv (db', ls)"
  using assms by (simp add: run_inv_def)

lemma inv_filter:
  assumes "run_inv (db, ls)" "runs db' = filter P (runs db)"
  shows "run_inv (db', ls)"
  using assms by (auto simp: run_inv_def distinct_map_filter)

lemma inv_update:
  assumes i: "run_inv (db, ls)" and e: "runs db' = update_rows P f (runs db)"
    and f: "\<And>r. r_id (f r) = r_id r \<and> r_automation (f r) = r_automation r \<and> r_scheduled (f r) = r_scheduled r \<and> r_token (f r) = r_token r \<and> r_fence (f r) = r_fence r"
    and k: "\<And>r. run_ok r \<Longrightarrow> run_ok (f r)"
  shows "run_inv (db', ls)"
proof -
  have m: "map r_id (runs db') = map r_id (runs db)" "map (\<lambda>r. (r_automation r, r_scheduled r)) (runs db') = map (\<lambda>r. (r_automation r, r_scheduled r)) (runs db)"
    unfolding e using f by (simp_all add: update_rows_map)
  have old: "\<exists>s \<in> set (runs db). r_id r = r_id s \<and> r_automation r = r_automation s \<and> r_scheduled r = r_scheduled s \<and> r_token r = r_token s \<and>
      r_fence r = r_fence s \<and> (run_ok s \<longrightarrow> run_ok r)" if "r \<in> set (runs db')" for r
    using that f k unfolding e in_update_rows by (metis (full_types))
  show ?thesis unfolding run_inv_def prod.case m
    using i old unfolding run_inv_def prod.case lease_of_def by (metis (no_types, lifting))
qed

lemma update_one:
  assumes "distinct (map r_id rows)" "old \<in> set rows" "P old" "\<And>r. P r \<Longrightarrow> r_id r = r_id old"
  shows "r \<in> set (update_rows P f rows) \<longleftrightarrow> r = f old \<or> (r \<in> set rows \<and> r_id r \<noteq> r_id old)"
proof -
  have same: "s = old" if "s \<in> set rows" "r_id s = r_id old" for s using assms(1,2) that by (metis inj_on_contraD distinct_map)
  show ?thesis unfolding in_update_rows using assms(2-4) same by metis
qed

lemma inv_fresh:
  assumes i: "run_inv (db, ls)" and t: "l_token l \<notin> l_token ` set ls" "r_id r \<notin> l_run ` set ls" and rows: "runs db' = runs db @ [r]"
    and new: "\<forall>s \<in> set (runs db). r_id s \<noteq> r_id r" "\<forall>s \<in> set (runs db). \<not> (r_automation s = r_automation r \<and> r_scheduled s = r_scheduled r)"
    and r: "run_ok r" "lease_of l r" "l_token l = r_token r" "l_fence l = r_fence r"
  shows "run_inv (db', l # ls)"
proof -
  have "l_run l \<noteq> r_id s" if "s \<in> set (runs db)" for s using new(1) that r(2) by (auto simp: lease_of_def)
  moreover have "l_run x \<noteq> r_id r" if "x \<in> set ls" for x using t(2) that by force
  ultimately show ?thesis using i t new r unfolding run_inv_def prod.case rows by auto
qed

lemma inv_renew:
  assumes i: "run_inv (db, ls)" and t: "l_token l \<notin> l_token ` set ls" and old: "old \<in> set (runs db)" "P old" "\<And>r. P r \<Longrightarrow> r_id r = r_id old"
    and rows: "runs db' = update_rows P f (runs db)"
    and f: "r_id (f old) = r_id old" "r_automation (f old) = r_automation old" "r_scheduled (f old) = r_scheduled old" "r_fence (f old) = r_fence old + 1"
    and r: "run_ok (f old)" "lease_of l (f old)" "l_token l = r_token (f old)" "l_fence l = r_fence (f old)"
  shows "run_inv (db', l # ls)"
proof -
  have d: "distinct (map r_id (runs db))" using i by (simp add: run_inv_def)
  have u: "s \<in> set (update_rows P f (runs db)) \<longleftrightarrow> s = f old \<or> (s \<in> set (runs db) \<and> r_id s \<noteq> r_id old)" for s
    by (rule update_one [where P = P, OF d old(1,2)]) (rule old(3))
  have same: "s = old" if "P s" "s \<in> set (runs db)" for s using d old(1,3) that by (metis inj_on_contraD distinct_map)
  have m: "map r_id (runs db') = map r_id (runs db)" "map (\<lambda>r. (r_automation r, r_scheduled r)) (runs db') = map (\<lambda>r. (r_automation r, r_scheduled r)) (runs db)"
    unfolding rows update_rows_def using same f by auto
  have other: "run_ok s" "\<exists>l' \<in> set ls. lease_of l' s \<and> l_token l' = r_token s \<and> l_fence l' = r_fence s"
      "\<forall>l' \<in> set ls. l_run l' = r_id s \<longrightarrow> lease_of l' s \<and> l_fence l' \<le> r_fence s \<and> (l_fence l' = r_fence s \<longrightarrow> l_token l' = r_token s)"
    if "s \<in> set (runs db)" for s using i that unfolding run_inv_def prod.case by blast+
  have new: "\<forall>l' \<in> set ls. l_run l' = r_id (f old) \<longrightarrow> lease_of l' (f old) \<and> l_fence l' < r_fence (f old)"
    using other(3) [OF old(1)] f unfolding lease_of_def by fastforce
  have l: "l_run l = r_id old" using r(2) f(1) by (simp add: lease_of_def)
  have "run_ok s \<and> (\<exists>l' \<in> set (l # ls). lease_of l' s \<and> l_token l' = r_token s \<and> l_fence l' = r_fence s)" if "s \<in> set (runs db')" for s
    using that r other(1,2) unfolding rows u by auto
  moreover have "\<forall>l' \<in> set (l # ls). l_run l' = r_id s \<longrightarrow> lease_of l' s \<and> l_fence l' \<le> r_fence s \<and> (l_fence l' = r_fence s \<longrightarrow> l_token l' = r_token s)"
    if "s \<in> set (runs db')" for s
    using that r(2-4) other(3) new l unfolding rows u by auto
  moreover have "distinct (map l_token (l # ls))" using i t by (simp add: run_inv_def)
  ultimately show ?thesis using i unfolding run_inv_def prod.case m by blast
qed

lemma create_runs: "create_automation w db owner project input now = Some (Inr (db', r)) \<Longrightarrow> runs db' = runs db"
  by (auto simp: create_automation_def rbind_eq_Inr Let_def split: option.splits if_splits)

lemma due_in: "due_automation db q = Some (a, effort) \<Longrightarrow> a \<in> set (automations db) \<and> a_id a = q_automation q"
  by (auto simp: due_automation_def bind_eq_Some_conv find_Some_iff split: if_splits)

lemma plan_of:
  assumes "update_plan w db owner i e t1 t2 = Some (Inr (Some p))"
  shows "\<exists>a wk. get_automation db owner i = Some (a, wk) \<and> p_revision p = a_revision a \<and> p_id p = i \<and> p_owner p = owner"
  using assms by (auto simp: update_plan_def Let_def rbind_eq_Inr split: option.splits prod.splits if_splits)

lemma marks_id: "find (marks q a expected) rows = Some a' \<Longrightarrow> a_id a' = q_automation q"
  by (auto simp: find_Some_iff marks_def)

lemma claim_schedule:
  assumes "claim_due_at w db q now = Some (Inr (db', Some l))"
  shows "\<exists>b \<in> set (automations db). a_id b = a_id (l_automation l) \<and> schedule_next w (a_schedule b) (max now (l_scheduled l)) = Some (Inr (l_next l))"
  using assms
proof (cases rule: claim_lease_cases)
  case (fresh a a' effort expected)
  then show ?thesis using due_in [OF fresh(1)] marks_id [OF fresh(9)] by (intro bexI [of _ a]) (auto simp: marked_def)
next
  case (renew a a' effort expected old)
  then show ?thesis using due_in [OF renew(1)] marks_id [OF renew(10)] by (intro bexI [of _ a]) (auto simp: marked_def)
qed

lemma inv_step:
  assumes "run_step w s s'" "run_inv s"
  shows "run_inv s'"
  using assms
proof (cases rule: run_step.cases)
  case (claimed db q now db' l ls)
  then have i: "run_inv (db, ls)" using assms(2) by simp
  from claimed(3) show ?thesis
  proof (cases rule: claim_lease_cases)
    case (fresh a a' effort expected)
    have "run_inv (db', l # ls)"
      by (rule inv_fresh [OF i _ _ fresh(6)])
        (use fresh claimed(4,5) marks_id [OF fresh(9)] in \<open>auto simp: existing_run_None fresh_run_def run_ok_def lease_of_def marked_def\<close>)
    then show ?thesis using claimed by simp
  next
    case (renew a a' effort expected old)
    note old = existing_run_Some [OF renew(4)]
    then have "run_ok old" using i by (auto simp: run_inv_def)
    then have "run_ok (renewed q old now old)" using renew(5) by (auto simp: run_ok_def renewed_def)
    then have "run_inv (db', l # ls)"
      by (intro inv_renew [OF i _ conjunct1 [OF old] _ _ renew(7)])
        (use renew old claimed(4,5) marks_id [OF renew(10)] in \<open>auto simp: renewed_def renewable_def lease_of_def marked_def\<close>)
    then show ?thesis using claimed by simp
  qed
next
  case (unclaimed db q now db' ls)
  then show ?thesis using unclaimed_tables inv_runs_only assms(2) by metis
next
  case (finishing l ls status db err now db' b)
  have "run_inv (db', ls)"
  proof (cases "runs db' = runs db")
    case True
    then show ?thesis using inv_runs_only assms(2) finishing(1) by metis
  next
    case False
    then have rows: "runs db' = update_rows (finishable l now) (finished status (map_option (take 5000) err) now) (runs db)"
      using finishing(5) by (auto simp: finish_dispatch_at_def Let_def rbind_eq_Inr split: if_splits)
    have i: "run_inv (db, ls)" using assms(2) finishing(1) by simp
    show ?thesis by (rule inv_update [OF i rows]) (use finishing(4) in \<open>auto simp: finished_def run_ok_def\<close>)
  qed
  then show ?thesis using finishing by simp
next
  case (creating db owner project input now db' r ls)
  then show ?thesis using create_runs inv_runs_only assms(2) by metis
next
  case (updating db p db' r ls)
  then show ?thesis using inv_runs_only [of db ls db'] assms(2) by (auto simp: update_apply_def)
next
  case (deleting db owner i db' r ls)
  then show ?thesis using inv_filter [of db ls db'] inv_runs_only [of db ls db'] assms(2) by (auto simp: delete_automation_def split: if_splits)
next
  case (elsewhere db' cs ps db ls)
  then show ?thesis using inv_runs_only [of db ls db'] assms(2) by simp
qed

lemma run_reachable_inv: "run_reachable w s \<Longrightarrow> run_inv s"
  by (induction rule: run_reachable.induct) (simp add: run_inv_def, blast intro: inv_step)

section \<open>Finishing\<close>

lemma finish_True:
  assumes "finish_dispatch_at db l status err now = Inr (db', True)"
  obtains r where "r \<in> set (runs db)" "finishable l now r"
    "runs db' = update_rows (finishable l now) (finished status (map_option (take 5000) err) now) (runs db)"
    "automations db' = update_rows (advances l) (advanced l status (map_option (take 5000) err) now) (automations db)"
  using assms by (auto simp: finish_dispatch_at_def Let_def rbind_eq_Inr split: if_splits)

lemma finish_False: "finish_dispatch_at db l status err now = Inr (db', False) \<Longrightarrow> db' = db"
  by (auto simp: finish_dispatch_at_def Let_def rbind_eq_Inr split: if_splits)

inductive run_steps :: "time_zones \<Rightarrow> tables \<times> lease list \<Rightarrow> tables \<times> lease list \<Rightarrow> bool" for w where
  stay: "run_steps w s s"
| next_step: "run_step w s s' \<Longrightarrow> run_steps w s' s'' \<Longrightarrow> run_steps w s s''"

lemma steps_reachable: "run_steps w s s' \<Longrightarrow> run_reachable w s \<Longrightarrow> run_reachable w s'"
  by (induction rule: run_steps.induct) (auto intro: run_reachable.more)

definition settled :: "run_row \<Rightarrow> tables \<times> lease list \<Rightarrow> bool" where
  "settled r s \<longleftrightarrow> (\<exists>l \<in> set (snd s). l_run l = r_id r) \<and> (\<forall>r' \<in> set (runs (fst s)). r_id r' = r_id r \<longrightarrow> r' = r)"

lemma run_settled_step:
  assumes "run_step w s s'" "settled r s" "r_status r \<noteq> Dispatching"
  shows "settled r s'"
  using assms(1)
proof (cases rule: run_step.cases)
  case (claimed db q now db' l ls)
  have old: "\<exists>l \<in> set ls. l_run l = r_id r" "\<forall>r' \<in> set (runs db). r_id r' = r_id r \<longrightarrow> r' = r" using assms(2) claimed(1) by (auto simp: settled_def)
  from claimed(3) show ?thesis
  proof (cases rule: claim_lease_cases)
    case (fresh a a' effort expected)
    have "q_run q \<noteq> r_id r" using old(1) claimed(5) by force
    then show ?thesis using fresh(6) old claimed(2) by (auto simp: settled_def fresh_run_def)
  next
    case (renew a a' effort expected x)
    have "r_id x \<noteq> r_id r" using old(2) existing_run_Some [OF renew(4)] renew(5) assms(3) by auto
    then show ?thesis using renew(7) old claimed(2) by (auto simp: settled_def in_update_rows renewable_def renewed_def)
  qed
next
  case (unclaimed db q now db' ls)
  then show ?thesis using unclaimed_tables assms(2) by (metis fst_conv settled_def snd_conv)
next
  case (finishing l ls status db err now db' b)
  show ?thesis
  proof (cases b)
    case True
    then have rows: "runs db' = update_rows (finishable l now) (finished status (map_option (take 5000) err) now) (runs db)"
      using finishing(5) by (auto elim!: finish_True)
    have old: "\<exists>l \<in> set ls. l_run l = r_id r" "\<forall>r' \<in> set (runs db). r_id r' = r_id r \<longrightarrow> r' = r" using assms(2) finishing(1) by (auto simp: settled_def)
    then have "\<not> finishable l now x" if "x \<in> set (runs db)" "r_id x = r_id r" for x using that assms(3) by (auto simp: finishable_def)
    then show ?thesis using finishing(2) rows old by (auto simp: settled_def in_update_rows finished_def)
  next
    case False
    then have "db' = db" using finish_False [of db l status err now db'] finishing(5) by simp
    then show ?thesis using finishing(1,2) assms(2) by simp
  qed
next
  case (creating db owner project input now db' x ls)
  then show ?thesis using create_runs assms(2) by (simp add: settled_def)
qed (use assms(2) in \<open>auto simp: settled_def update_apply_def delete_automation_def split: if_splits\<close>)

lemma settled_steps: "run_steps w s s' \<Longrightarrow> settled r s \<Longrightarrow> r_status r \<noteq> Dispatching \<Longrightarrow> settled r s'"
  by (induction rule: run_steps.induct) (auto intro: run_settled_step)

section \<open>An hourly automation\<close>

definition demo_time :: text_value where
  "demo_time = [50, 48, 50, 52, 45, 48, 49, 45, 48, 49, 84, 48, 48, 58, 48, 48, 58, 48, 48, 46, 48, 48, 48, 90]"

definition demo_automation :: automation where
  "demo_automation = \<lparr>a_id = [4], a_owner = [1], a_project = [2], a_chat = [3],
     a_content = \<lparr>protected_name = [], protected_prompt = [], protected_condition = []\<rparr>,
     a_schedule = IntervalSchedule (demo_time) 1 Hour, a_enabled = True, a_revision = 1, a_next = Some 1704067200000,
     a_last_run = None, a_last_status = None, a_last_error = None, a_created = 0, a_updated = 0\<rparr>"

definition demo_tables :: tables where
  "demo_tables = \<lparr>projects = [([2], [1])], chats = [([3], \<lparr>chat_project = [2], chat_agent = True, chat_worker = Some [5], chat_effort = None\<rparr>)],
     automations = [demo_automation], runs = []\<rparr>"

definition demo_claim :: "key \<Rightarrow> key \<Rightarrow> claim_request" where
  "demo_claim token run = \<lparr>q_owner = [1], q_worker = [5], q_automation = [4], q_revision = 1, q_scheduled = demo_time,
     q_instance = [6], q_ttl = 60000, q_token = token, q_run = run\<rparr>"

definition demo_claimed :: tables where
  "demo_claimed = demo_tables\<lparr>automations := [marked 1704067200000 1704067201000 demo_automation],
     runs := [fresh_run (demo_claim [7] [8]) demo_automation None 1704067200000 1704067201000]\<rparr>"

definition demo_lease :: lease where
  "demo_lease = \<lparr>l_automation = marked 1704067200000 1704067201000 demo_automation, l_worker = [5], l_instance = [6], l_fence = 1, l_token = [7],
     l_next = Some 1704070800000, l_run = [8], l_effort = None, l_scheduled = 1704067200000\<rparr>"

lemma check_date_ok:
  assumes "\<bar>t\<bar> \<le> time_clip"
  obtains x where "check_date t = Inr x"
proof (cases "iso_milliseconds t")
  case None
  then have "utc_fields t = None" by (auto simp: iso_milliseconds_def Let_def split: option.splits)
  then show ?thesis using assms by (simp add: utc_fields_None)
qed (use that in \<open>simp add: check_date_def\<close>)

lemma demo_iso: "iso_milliseconds 1704067200000 = Some demo_time"
proof -
  have u: "utc_fields 1704067200000 = Some (2024, 1, 1)" by code_simp
  have "replicate 2 (48::nat) = [48, 48]" by (simp add: numeral_2_eq_2)
  then show ?thesis by (simp add: iso_milliseconds_def u iso_year_def zero_padded_def decimal_digits.simps demo_time_def)
qed

lemma demo_next: "schedule_next utc_machine (a_schedule demo_automation) 1704067201000 = Some (Inr (Some 1704070800000))"
proof -
  have "schedule_start utc_machine demo_time = Some 1704067200000" unfolding schedule_start_def by (rule parse_printed [OF demo_iso])
  moreover have "interval_next 1704067200000 1 Hour 1704067201000 = Some 1704070800000" by code_simp
  ultimately show ?thesis by (simp add: schedule_next_def interval_run_def demo_automation_def)
qed

lemma demo_claim_granted: "claim_due_at utc_machine demo_tables (demo_claim [7] [8]) 1704067201000 = Some (Inr (demo_claimed, Some demo_lease))"
proof -
  have d: "due_automation demo_tables (demo_claim [7] [8]) = Some (demo_automation, None)" by code_simp
  have x: "a_next demo_automation = Some 1704067200000" by code_simp
  have r: "claim_row demo_tables (demo_claim [7] [8]) demo_automation None 1704067200000 1704067201000 None =
      Inr (runs demo_claimed, Some (fresh_run (demo_claim [7] [8]) demo_automation None 1704067200000 1704067201000))" by code_simp
  have m: "find (marks (demo_claim [7] [8]) demo_automation 1704067200000) (automations demo_tables) = Some demo_automation" by code_simp
  have e: "existing_run demo_tables [4] 1704067200000 = None" by code_simp
  have u: "update_rows (marks (demo_claim [7] [8]) demo_automation 1704067200000) (marked 1704067200000 1704067201000) (automations demo_tables) =
      automations demo_claimed" by code_simp
  obtain y where y: "check_date 1704067261000 = Inr y" by (rule check_date_ok [of 1704067261000]) auto
  obtain z where z: "check_date 1704067201000 = Inr z" by (rule check_date_ok [of 1704067201000]) auto
  have q: "q_automation (demo_claim [7] [8]) = [4]" "q_ttl (demo_claim [7] [8]) = 60000" by (simp_all add: demo_claim_def)
  have g: "claim_grant demo_tables (demo_claim [7] [8]) demo_automation None 1704067200000 1704067201000 (Some 1704070800000) = Inr (demo_claimed, Some demo_lease)"
    unfolding claim_grant_def q e by (simp add: y z r m u) (simp add: demo_claimed_def demo_lease_def demo_claim_def fresh_run_def)
  show ?thesis using d x g demo_next by (simp add: claim_due_at_def check_date_def demo_iso) (simp add: demo_claim_def)
qed

lemma demo_finish: "\<exists>db. finish_dispatch_at demo_claimed demo_lease Started None 1704067202000 = Inr (db, True)"
proof -
  obtain x where x: "check_date 1704067202000 = Inr x" by (rule check_date_ok [of 1704067202000]) auto
  obtain y where y: "check_date (l_scheduled demo_lease) = Inr y" by (rule check_date_ok [of "l_scheduled demo_lease"]) (auto simp: demo_lease_def)
  obtain z where z: "check_date 1704070800000 = Inr z" by (rule check_date_ok [of 1704070800000]) auto
  have "\<exists>r \<in> set (runs demo_claimed). finishable demo_lease 1704067202000 r" by code_simp
  then show ?thesis by (simp add: finish_dispatch_at_def Let_def x y check_date_option_def) (simp add: demo_lease_def z)
qed

lemma demo_reachable: "run_reachable utc_machine (demo_claimed, [demo_lease])"
proof -
  have "run_step utc_machine (demo_tables, []) (demo_claimed, [demo_lease])"
    using demo_claim_granted by (rule run_step.claimed) simp_all
  moreover have "run_reachable utc_machine (demo_tables, [])" by (rule run_reachable.start) (simp add: demo_tables_def)
  ultimately show ?thesis by (rule run_reachable.more [rotated])
qed

definition demo_edit :: "text_value \<Rightarrow> edit" where
  "demo_edit name = \<lparr>e_chat = None, e_name = Some name, e_prompt = None, e_condition = None, e_schedule = None, e_enabled = Some False\<rparr>"

lemma demo_plan: "\<exists>p. update_plan utc_machine demo_tables [1] [4] (demo_edit name) 0 0 = Some (Inr (Some p))"
proof -
  obtain x where x: "check_date 0 = Inr x" by (rule check_date_ok [of 0]) auto
  show ?thesis
    by (simp add: update_plan_def get_automation_def target_def worker_of_def demo_tables_def demo_automation_def demo_edit_def Let_def check_date_option_def x)
qed

section \<open>Properties\<close>

text \<open>
  (C8) The run table keeps its order under every interleaving of the repository's calls: one row per occurrence of an
  automation, a fencing token that counts the attempts from one, a completion time exactly for a run that is no longer
  dispatching, and the token of a lease handed out in every row.
\<close>

theorem run_table_invariant:
  assumes "run_reachable w (db, ls)"
  shows "distinct (map (\<lambda>r. (r_automation r, r_scheduled r)) (runs db)) \<and>
    (\<forall>r \<in> set (runs db). 0 < r_fence r \<and> r_attempt r = r_fence r \<and> (r_completed r = None \<longleftrightarrow> r_status r = Dispatching) \<and>
      (\<exists>l \<in> set ls. l_run l = r_id r \<and> l_token l = r_token r \<and> l_fence l = r_fence r))"
  using run_reachable_inv [OF assms] by (auto simp: run_inv_def run_ok_def lease_of_def)

theorem run_table_invariant_witness:
  "runs demo_claimed \<noteq> [] \<and> r_attempt (hd (runs demo_claimed)) = r_fence (hd (runs demo_claimed))"
  using run_table_invariant [OF demo_reachable] by (simp add: demo_claimed_def)

text \<open>
  (C6) Of all leases ever handed out for an occurrence, at most one can finish it in any state, whatever the clocks of
  the instances say: the one claimed last. A lease that was taken over by a later claim cannot.
\<close>

theorem one_lease_finishes:
  assumes "run_reachable w (db, ls)" "l \<in> set ls" "finish_dispatch_at db l status err now = Inr (db', True)"
  shows "\<forall>l' \<in> set ls. a_id (l_automation l') = a_id (l_automation l) \<and> l_scheduled l' = l_scheduled l \<and> l' \<noteq> l \<longrightarrow>
    (l_run l' = l_run l \<longrightarrow> l_fence l' < l_fence l) \<and> (\<nexists>db'' status' err' now'. finish_dispatch_at db l' status' err' now' = Inr (db'', True))"
proof (intro ballI impI)
  note i = run_reachable_inv [OF assms(1)]
  obtain r where r: "r \<in> set (runs db)" "finishable l now r" using assms(3) by (rule finish_True)
  have lease: "lease_of x y" if "x \<in> set ls" "y \<in> set (runs db)" "finishable x t y" for x y t
    using i that unfolding run_inv_def prod.case finishable_def by metis
  have lr: "lease_of l r" "l_token l = r_token r" "l_fence l = r_fence r" using lease [OF assms(2) r] r(2) by (simp_all add: finishable_def)
  fix l' assume l': "l' \<in> set ls" "a_id (l_automation l') = a_id (l_automation l) \<and> l_scheduled l' = l_scheduled l \<and> l' \<noteq> l"
  have tok: "l_token l' \<noteq> l_token l" using i l' assms(2) by (auto simp: run_inv_def distinct_map inj_on_def)
  have fence: "l_fence l' < l_fence l" if "l_run l' = l_run l"
    using i r(1) l'(1) that lr tok unfolding run_inv_def prod.case lease_of_def by (metis order_less_le)
  have "False" if f: "finish_dispatch_at db l' status' err' now' = Inr (db'', True)" for db'' status' err' now'
  proof -
    obtain r' where r': "r' \<in> set (runs db)" "finishable l' now' r'" using f by (rule finish_True)
    then have "lease_of l' r'" "l_token l' = r_token r'" using lease [OF l'(1) r'] by (simp_all add: finishable_def)
    then have "(r_automation r', r_scheduled r') = (r_automation r, r_scheduled r)" using lr(1) l'(2) by (auto simp: lease_of_def)
    moreover have "inj_on (\<lambda>r. (r_automation r, r_scheduled r)) (set (runs db))" using i by (simp add: run_inv_def distinct_map)
    ultimately have "r' = r" using r'(1) r(1) by (meson inj_onD)
    then show False using tok lr(2) \<open>l_token l' = r_token r'\<close> by simp
  qed
  then show "(l_run l' = l_run l \<longrightarrow> l_fence l' < l_fence l) \<and> (\<nexists>db'' status' err' now'. finish_dispatch_at db l' status' err' now' = Inr (db'', True))"
    using fence by blast
qed

theorem one_lease_finishes_witness:
  "\<exists>db. finish_dispatch_at demo_claimed demo_lease Started None 1704067202000 = Inr (db, True) \<and>
     (\<nexists>l db'' status now'. l \<in> set [demo_lease] \<and> l_scheduled l = l_scheduled demo_lease \<and> a_id (l_automation l) = a_id (l_automation demo_lease) \<and>
       l \<noteq> demo_lease \<and> finish_dispatch_at demo_claimed l status None now' = Inr (db'', True))"
proof -
  obtain db where db: "finish_dispatch_at demo_claimed demo_lease Started None 1704067202000 = Inr (db, True)" using demo_finish by blast
  from one_lease_finishes [OF demo_reachable _ db] show ?thesis using db by auto
qed

text \<open>
  A run that has been finished never changes again: after any further calls its row is the same, or gone with its
  automation, so that no occurrence is finished twice.
\<close>

lemma finished_run_stays:
  assumes "run_reachable w (db, ls)" "r \<in> set (runs db)" "r_status r \<noteq> Dispatching" "run_steps w (db, ls) (db', ls')"
  shows "(\<forall>r' \<in> set (runs db'). r_id r' = r_id r \<longrightarrow> r' = r) \<and>
    (\<forall>l status err now db''. finish_dispatch_at db' l status err now = Inr (db'', True) \<longrightarrow> l_run l \<noteq> r_id r)"
proof -
  have "settled r (db, ls)"
    using run_reachable_inv [OF assms(1)] assms(2) unfolding settled_def run_inv_def lease_of_def
    by (auto simp: distinct_map dest: inj_onD)
  then have s: "settled r (db', ls')" using settled_steps assms(3,4) by blast
  then show ?thesis using assms(3) by (auto simp: settled_def finishable_def elim!: finish_True)
qed

text \<open>
  (C7) A claim excludes the others: it is granted only for an enabled automation of that revision and worker whose next
  run is due, and only where the occurrence has no run yet or a dispatching one whose lease has expired. Until the new
  lease expires, no further claim of the occurrence is granted.
\<close>

theorem claim_excludes:
  assumes "claim_due_at w db q now = Some (Inr (db', Some l))"
  shows "(\<exists>a \<in> set (automations db). a_id a = q_automation q \<and> a_owner a = q_owner q \<and> a_enabled a \<and> a_revision a = q_revision q \<and>
      worker_of db (a_chat a) = Some (q_worker q) \<and> a_next a = Some (l_scheduled l) \<and> l_scheduled l \<le> now + 30000) \<and>
    (\<forall>r. existing_run db (q_automation q) (l_scheduled l) = Some r \<longrightarrow> r_status r = Dispatching \<and> r_expires r \<le> now) \<and>
    (\<forall>q2 now2 db2 l2. now2 < now + q_ttl q \<and> claim_due_at w db' q2 now2 = Some (Inr (db2, Some l2)) \<longrightarrow>
      q_automation q2 \<noteq> q_automation q \<or> l_scheduled l2 \<noteq> l_scheduled l)"
proof (intro conjI allI impI)
  have due: "\<exists>a \<in> set (automations db). a_id a = q_automation q \<and> a_owner a = q_owner q \<and> a_enabled a \<and> a_revision a = q_revision q \<and>
      worker_of db (a_chat a) = Some (q_worker q) \<and> a_next a = Some expected \<and> expected \<le> now + 30000"
    if "due_automation db q = Some (a, effort)" "a_next a = Some expected" "expected \<le> now + 30000" for a effort expected
    using that by (auto simp: due_automation_def worker_of_def bind_eq_Some_conv find_Some_iff split: if_splits)
  show "\<exists>a \<in> set (automations db). a_id a = q_automation q \<and> a_owner a = q_owner q \<and> a_enabled a \<and> a_revision a = q_revision q \<and>
      worker_of db (a_chat a) = Some (q_worker q) \<and> a_next a = Some (l_scheduled l) \<and> l_scheduled l \<le> now + 30000"
    using assms by (cases rule: claim_lease_cases) (auto dest: due)
  show "r_status r = Dispatching" "r_expires r \<le> now" if "existing_run db (q_automation q) (l_scheduled l) = Some r" for r
    using assms that by (cases rule: claim_lease_cases; simp)+
  have new: "\<exists>r. existing_run db' (q_automation q) (l_scheduled l) = Some r \<and> r_expires r = now + q_ttl q"
    using assms
  proof (cases rule: claim_lease_cases)
    case (fresh a a' effort expected)
    then show ?thesis by (simp add: existing_run_def find_append) (simp add: fresh_run_def)
  next
    case (renew a a' effort expected old)
    have "renewable (r_id old) (r_fence old) now old" using renew(5,6) by (simp add: renewable_def)
    then show ?thesis using existing_run_update [OF renew(7), of "q_automation q" expected] renew by (simp add: renewed_def)
  qed
  fix q2 now2 db2 l2
  assume c: "now2 < now + q_ttl q \<and> claim_due_at w db' q2 now2 = Some (Inr (db2, Some l2))"
  then have "claim_due_at w db' q2 now2 = Some (Inr (db2, Some l2))" by simp
  then show "q_automation q2 \<noteq> q_automation q \<or> l_scheduled l2 \<noteq> l_scheduled l"
    by (cases rule: claim_lease_cases) (use new c in auto)
qed

theorem claim_excludes_witness:
  "claim_due_at utc_machine demo_tables (demo_claim [7] [8]) 1704067201000 = Some (Inr (demo_claimed, Some demo_lease)) \<and>
   (\<nexists>now2 db2 l2. now2 < 1704067261000 \<and> claim_due_at utc_machine demo_claimed (demo_claim [9] [10]) now2 = Some (Inr (db2, Some l2)) \<and>
     l_scheduled l2 = l_scheduled demo_lease)"
  using claim_excludes [OF demo_claim_granted] demo_claim_granted by (auto simp: demo_claim_def)

text \<open>
  Finishing a lease moves its automation on: if the automation still has the revision and the occurrence of the
  claim, its next run becomes the one the claim computed from the schedule, with the status and the error of the run.
  For an interval schedule that is after the occurrence and after the time of the claim, so that the occurrence is not
  due again.
\<close>

lemma finish_moves_on:
  assumes "claim_due_at w db q now = Some (Inr (db1, Some l))" "finish_dispatch_at db2 l status err now2 = Inr (db3, True)"
    and "a \<in> set (automations db2)" "a_id a = a_id (l_automation l)" "a_revision a = a_revision (l_automation l)" "a_next a = Some (l_scheduled l)"
  shows "\<exists>a' \<in> set (automations db3). a_id a' = a_id a \<and> a_next a' = l_next l \<and> a_last_run a' = Some (l_scheduled l) \<and>
    a_last_status a' = Some status \<and> a_last_error a' = map_option (take 5000) err \<and>
    (\<exists>b \<in> set (automations db). a_id b = a_id a \<and> schedule_next w (a_schedule b) (max now (l_scheduled l)) = Some (Inr (l_next l)) \<and>
      (\<forall>starts count unit start y m d. a_schedule b = IntervalSchedule starts count unit \<and> 1 \<le> count \<and> schedule_start w starts = Some start \<and>
        utc_fields start = Some (y, m, d) \<and> 100 \<le> y \<and> \<bar>max now (l_scheduled l)\<bar> \<le> time_clip \<longrightarrow>
        (\<forall>t. l_next l = Some t \<longrightarrow> max now (l_scheduled l) < t)))"
proof -
  have r: "automations db3 = update_rows (advances l) (advanced l status (map_option (take 5000) err) now2) (automations db2)"
    using assms(2) by (rule finish_True)
  let ?a = "advanced l status (map_option (take 5000) err) now2 a"
  have "advances l a" using assms(4-6) by (simp add: advances_def)
  then have inn: "?a \<in> set (automations db3)" unfolding r in_update_rows using assms(3) by force
  obtain b where b: "b \<in> set (automations db)" "a_id b = a_id a" "schedule_next w (a_schedule b) (max now (l_scheduled l)) = Some (Inr (l_next l))"
    using claim_schedule [OF assms(1)] assms(4) by metis
  have later: "max now (l_scheduled l) < t"
    if "a_schedule b = IntervalSchedule starts count unit \<and> 1 \<le> count \<and> schedule_start w starts = Some start \<and>
        utc_fields start = Some (y, m, d) \<and> 100 \<le> y \<and> \<bar>max now (l_scheduled l)\<bar> \<le> time_clip" "l_next l = Some t" for starts count unit start y m d t
    using interval_later [of count start y m d "max now (l_scheduled l)" unit t] that b(3) by (simp add: schedule_next_def interval_run_def)
  have f: "a_id ?a = a_id a" "a_next ?a = l_next l" "a_last_run ?a = Some (l_scheduled l)" "a_last_status ?a = Some status"
    "a_last_error ?a = map_option (take 5000) err" by (simp_all add: advanced_def)
  show ?thesis by (rule bexI [OF _ inn]) (intro conjI f bexI [OF _ b(1)] b(2,3) allI impI, erule later)
qed

text \<open>
  Edits of an automation do not overwrite one another: of two updates planned from the same state, the one applied
  second changes nothing and reports that it found no row.
\<close>

lemma second_update_lost:
  assumes "update_plan w db owner i e1 t1 t2 = Some (Inr (Some p1))" "update_plan w db owner i e2 t3 t4 = Some (Inr (Some p2))"
    and "update_apply db p1 = (db1, r1)"
  shows "update_apply db1 p2 = (db1, None)"
proof -
  have p: "p_id p1 = i" "p_owner p1 = owner" "p_id p2 = i" "p_owner p2 = owner" "p_revision p1 = p_revision p2"
    using assms(1,2) plan_of by (metis option.inject prod.inject)+
  have "\<not> plan_selects p2 x" if x: "x \<in> set (automations db1)" for x
  proof -
    obtain s where "x = (if plan_selects p1 s then planned p1 s else s)"
      using x assms(3) by (auto simp: update_apply_def in_update_rows)
    then show ?thesis using p by (cases "plan_selects p1 s") (auto simp: plan_selects_def planned_def)
  qed
  then show ?thesis using update_rows_none [of "plan_selects p2" "automations db1"] by (simp add: update_apply_def find_None_iff)
qed

end
