(* ===== verification/Dispatch.thy ===== *)
theory Dispatch
  imports RunSafety
begin

text \<open>
  Dispatching a due automation (\<^verbatim>\<open>cantrip_server_rs/src/project_automations/dispatch.rs\<close>): claim the occurrence, look for
  a message or prompt an earlier attempt left, have the worker protect the prompt, queue it or begin a turn, and finish
  the run. What the chats, the model routing, the worker and the turn runtime answer is a record of parameters; a call
  that fails is \<open>None\<close>. Effects are listed in the order they happen. Claiming and finishing are transactions of their own: what other
  calls do to the tables between them is a parameter (\<open>others\<close>).
\<close>

record chat_context =
  x_worker :: key
  x_task :: bool
  x_paused :: bool
  x_executing :: bool

datatype protected_turn = Disallowed | Allowed (turn_valid: bool)

record answers =
  ans_context :: "chat_context option option"
  ans_message :: "bool option"
  ans_prompt :: "bool option"
  ans_model :: bool
  ans_github :: bool
  ans_protected :: "protected_turn option"
  ans_enqueue :: "bool option"
  ans_begin :: bool

datatype effect = Published | AskedWorker | Enqueued | Recovered | Began

datatype reply = Accepted run_status "int option" | NotDue "int option" | ExpiredBeforeRecovery | ExpiredBeforeCompletion | DispatchFailed

type_synonym 'a dispatched = "tables \<times> effect list \<times> 'a option"

definition finish :: "tables \<Rightarrow> lease \<Rightarrow> run_status \<Rightarrow> text_value option \<Rightarrow> int \<Rightarrow> bool dispatched" where
  "finish db l status err now =
     (case finish_dispatch_at db l status err now of
        Inl _ \<Rightarrow> (db, [], None)
      | Inr (db', finalized) \<Rightarrow> (db', if finalized then [Published] else [], Some finalized))"

text \<open>
  The reply passes \<^verbatim>\<open>projectAutomationDispatchResultSchema\<close>, whose dates have years of four digits: the signed years that
  \<open>iso_milliseconds\<close> prints outside \<open>0\<close> to \<open>9999\<close> are refused, after the run has been finished.
\<close>

definition reply_fits :: "int option \<Rightarrow> bool" where
  "reply_fits next_run =
     (case next_run of None \<Rightarrow> True | Some t \<Rightarrow> (case iso_milliseconds t of None \<Rightarrow> False | Some s \<Rightarrow> is_digit (hd s)))"

definition reply_with :: "int option \<Rightarrow> reply \<Rightarrow> reply option" where
  "reply_with next_run r = (if reply_fits next_run then Some r else None)"

definition conclude :: "tables \<Rightarrow> effect list \<Rightarrow> lease \<Rightarrow> run_status \<Rightarrow> reply \<Rightarrow> int \<Rightarrow> reply dispatched" where
  "conclude db done l status expired now =
     (case finish db l status None now of
        (db', es, None) \<Rightarrow> (db', done @ es, None)
      | (db', es, Some finalized) \<Rightarrow> (db', done @ es, if finalized then reply_with (l_next l) (Accepted status (l_next l)) else Some expired))"

definition usable_context :: "answers \<Rightarrow> key \<Rightarrow> chat_context option" where
  "usable_context ans worker =
     Option.bind (Option.bind (ans_context ans) id) (\<lambda>c. if x_worker c = worker \<and> \<not> x_task c then Some c else None)"

definition start_turn :: "answers \<Rightarrow> chat_context \<Rightarrow> (effect list \<times> run_status) option" where
  "start_turn ans c =
     (if x_paused c \<or> x_executing c
      then if ans_enqueue ans = Some True then Some (Enqueued # (if x_paused c then [] else [Recovered]), Queued) else None
      else if ans_begin ans then Some ([Began], Started) else None)"

definition perform :: "tables \<Rightarrow> lease \<Rightarrow> key \<Rightarrow> answers \<Rightarrow> int \<Rightarrow> reply dispatched" where
  "perform db l worker ans now =
     (case (usable_context ans worker, ans_message ans, ans_prompt ans) of
        (Some c, Some message, Some prompt) \<Rightarrow>
          if message \<or> prompt then conclude db [] l (if prompt then Queued else Started) ExpiredBeforeRecovery now
          else if \<not> ans_model ans \<or> \<not> ans_github ans then (db, [], None)
          else (case ans_protected ans of
                  None \<Rightarrow> (db, [AskedWorker], None)
                | Some Disallowed \<Rightarrow> conclude db [AskedWorker] l Skipped ExpiredBeforeCompletion now
                | Some (Allowed valid) \<Rightarrow>
                    if \<not> valid then (db, [AskedWorker], None)
                    else (case start_turn ans c of
                            None \<Rightarrow> (db, [AskedWorker], None)
                          | Some (es, status) \<Rightarrow> conclude db (AskedWorker # es) l status ExpiredBeforeCompletion now))
      | _ \<Rightarrow> (db, [], None))"

definition failure_text :: text_value where
  "failure_text = text_of ''Protected automation dispatch failed.''"

definition run_lease :: "tables \<Rightarrow> lease \<Rightarrow> key \<Rightarrow> answers \<Rightarrow> (tables \<Rightarrow> tables) \<Rightarrow> int \<Rightarrow> int \<Rightarrow> reply dispatched" where
  "run_lease db l worker ans others now1 now2 =
     (case perform db l worker ans now1 of
        (db', es, Some r) \<Rightarrow> (db', Published # es, Some r)
      | (db', es, None) \<Rightarrow>
          (case finish (others db') l Failed (Some failure_text) now2 of
             (db'', es', None) \<Rightarrow> (db'', Published # es @ es', None)
           | (db'', es', Some _) \<Rightarrow> (db'', Published # es @ es', Some DispatchFailed)))"

definition dispatch_run ::
  "time_zones \<Rightarrow> tables \<Rightarrow> claim_request \<Rightarrow> answers \<Rightarrow> (tables \<Rightarrow> tables) \<Rightarrow> (tables \<Rightarrow> tables) \<Rightarrow> int \<Rightarrow> int \<Rightarrow> int \<Rightarrow> reply dispatched option" where
  "dispatch_run w db q ans others1 others2 now0 now1 now2 =
     map_option (\<lambda>c. case c of
         Inl _ \<Rightarrow> (db, [], None)
       | Inr (db', None) \<Rightarrow>
           let next_run = Option.bind (get_automation (others1 db') (q_owner q) (q_automation q)) (\<lambda>(a, _). a_next a)
           in (others1 db', [], reply_with next_run (NotDue next_run))
       | Inr (db', Some l) \<Rightarrow> run_lease (others1 db') l (q_worker q) ans others2 now1 now2)
       (claim_due_at w db q now0)"

section \<open>A lease in time\<close>

lemma claimed_row:
  assumes "claim_due_at w db q now0 = Some (Inr (db1, Some l))"
  obtains r where "r \<in> set (runs db1)" "r_id r = l_run l" "r_instance r = l_instance l" "r_status r = Dispatching" "r_expires r = now0 + q_ttl q"
  using assms
proof (cases rule: claim_lease_cases)
  case (fresh a a' effort expected)
  then show ?thesis using that [of "fresh_run q a effort expected now0"] by (simp add: fresh_run_def)
next
  case (renew a a' effort expected old)
  have "renewable (r_id old) (r_fence old) now0 old" using renew(5,6) by (simp add: renewable_def)
  then have "renewed q old now0 old \<in> set (runs db1)" unfolding renew(7) in_update_rows using existing_run_Some [OF renew(4)] by force
  then show ?thesis by (rule that) (use renew in \<open>simp_all add: renewed_def\<close>)
qed

lemma claimed_date:
  assumes "claim_due_at w db q now0 = Some (Inr (db1, Some l))"
  obtains x where "check_date (l_scheduled l) = Inr x"
proof -
  have "\<exists>x. check_date (the (a_next a)) = Inr x" if "due_automation db q = Some (a, effort)" for a effort
    using assms that by (auto simp: claim_due_at_def Let_def split: sum.split_asm)
  note date = this
  from assms show ?thesis
  proof (cases rule: claim_lease_cases)
    case (fresh a a' effort expected)
    then show ?thesis using date [OF fresh(1)] that by auto
  next
    case (renew a a' effort expected old)
    then show ?thesis using date [OF renew(1)] that by auto
  qed
qed

definition settled_as :: "tables \<Rightarrow> lease \<Rightarrow> run_status \<Rightarrow> bool" where
  "settled_as db l status \<longleftrightarrow>
     (\<exists>r \<in> set (runs db). r_id r = l_run l \<and> r_token r = l_token l \<and> r_fence r = l_fence l \<and> r_status r = status \<and> r_completed r \<noteq> None)"

lemma finish_in_time:
  assumes "\<exists>r \<in> set (runs db). finishable l now r" "\<bar>now\<bar> \<le> time_clip" "check_date (l_scheduled l) = Inr x" "check_date_option (l_next l) = Inr ()"
  obtains db' where "finish db l status err now = (db', [Published], Some True)" "settled_as db' l status"
proof -
  obtain y where y: "check_date now = Inr y" using assms(2) by (rule check_date_ok)
  then obtain db' where f: "finish_dispatch_at db l status err now = Inr (db', True)" using assms by (simp add: finish_dispatch_at_def Let_def)
  obtain r where r: "r \<in> set (runs db)" "finishable l now r"
    "runs db' = update_rows (finishable l now) (finished status (map_option (take 5000) err) now) (runs db)" using f by (rule finish_True)
  have "finished status (map_option (take 5000) err) now r \<in> set (runs db')" unfolding r(3) in_update_rows using r(1,2) by force
  then have "settled_as db' l status" unfolding settled_as_def using r(2) by (rule_tac bexI) (auto simp: finished_def finishable_def)
  then show ?thesis using that f by (simp add: finish_def)
qed

section \<open>A lease among other calls\<close>

text \<open>The occurrence of a lease is out of its hands: the run was deleted with its automation, or a later claim took it over.\<close>

definition lost :: "lease \<Rightarrow> tables \<Rightarrow> bool" where
  "lost l db \<longleftrightarrow> (\<forall>r \<in> set (runs db). r_id r = l_run l \<longrightarrow> l_fence l < r_fence r)"

definition unfinished :: "lease \<Rightarrow> tables \<Rightarrow> bool" where
  "unfinished l db \<longleftrightarrow> (\<forall>status. \<not> settled_as db l status)"

text \<open>Calls of the repository by others, who do not finish runs with this lease.\<close>

definition meanwhile :: "time_zones \<Rightarrow> lease \<Rightarrow> tables \<times> lease list \<Rightarrow> tables \<times> lease list \<Rightarrow> bool" where
  "meanwhile w l s s' \<longleftrightarrow> run_steps w s s' \<and> (unfinished l (fst s) \<longrightarrow> unfinished l (fst s'))"

text \<open>The run as the claim left it, as long as no later claim took it over.\<close>

definition held_until :: "int \<Rightarrow> lease \<Rightarrow> tables \<Rightarrow> bool" where
  "held_until t l db \<longleftrightarrow> (\<forall>r \<in> set (runs db). r_id r = l_run l \<and> r_fence r = l_fence l \<longrightarrow> r_expires r = t \<and> r_instance r = l_instance l)"

text \<open>A row of a known run was there before, and its lease is the same or a later one.\<close>

lemma step_origin:
  assumes "run_step w (db, ls) (db', ls')" "r \<in> set (runs db')" "r_id r \<in> l_run ` set ls"
  shows "\<exists>r0 \<in> set (runs db). r_id r0 = r_id r \<and>
    (r_fence r0 < r_fence r \<or> r_fence r0 = r_fence r \<and> r_expires r0 = r_expires r \<and> r_instance r0 = r_instance r)"
  using assms(1)
proof cases
  case (claimed q now l)
  from claimed(2) show ?thesis
  proof (cases rule: claim_lease_cases)
    case (fresh a a' effort expected)
    then show ?thesis using assms(2,3) claimed by (auto simp: fresh_run_def)
  next
    case (renew a a' effort expected old)
    then show ?thesis using assms(2) by (force simp: in_update_rows renewable_def renewed_def split: if_splits)
  qed
next
  case (unclaimed q now)
  then show ?thesis using unclaimed_tables assms(2) by metis
next
  case (finishing l status err now b)
  show ?thesis
  proof (cases b)
    case True
    then have "runs db' = update_rows (finishable l now) (finished status (map_option (take 5000) err) now) (runs db)"
      using finishing(4) by (auto elim!: finish_True)
    then show ?thesis using assms(2) by (force simp: in_update_rows finished_def split: if_splits)
  next
    case False
    then show ?thesis using finishing(4) assms(2) by (auto dest: finish_False)
  qed
next
  case (creating owner project input now res)
  then show ?thesis using create_runs assms(2) by metis
qed (use assms(2) in \<open>auto simp: update_apply_def delete_automation_def split: if_splits\<close>)

lemma lease_steps:
  assumes "run_steps w s s'" "run_inv s" "l \<in> set (snd s)"
  shows "run_inv s' \<and> l \<in> set (snd s') \<and> (held_until t l (fst s) \<longrightarrow> held_until t l (fst s')) \<and> (lost l (fst s) \<longrightarrow> lost l (fst s'))"
  using assms
proof (induction rule: run_steps.induct)
  case (next_step s s' s'')
  obtain db ls db' ls' where s: "s = (db, ls)" "s' = (db', ls')" by (cases s; cases s')
  have leases: "set ls \<subseteq> set ls'" using next_step.hyps(1) s by auto
  have old: "l_fence l \<le> r_fence r" if "r \<in> set (runs db)" "r_id r = l_run l" for r
    using next_step.prems s that by (auto simp: run_inv_def)
  have origin: "\<exists>r0 \<in> set (runs db). r_id r0 = l_run l \<and>
      (r_fence r0 < r_fence r \<or> r_fence r0 = r_fence r \<and> r_expires r0 = r_expires r \<and> r_instance r0 = r_instance r)"
    if "r \<in> set (runs db')" "r_id r = l_run l" for r
    using step_origin [of w db ls db' ls' r] next_step.hyps(1) next_step.prems(2) s that by auto
  have "held_until t l db'" if "held_until t l db" using that origin old unfolding held_until_def by (metis not_le)
  moreover have "lost l db'" if "lost l db" using that origin unfolding lost_def by (metis order_less_trans)
  moreover have "run_inv s'" "l \<in> set (snd s')" using inv_step [OF next_step.hyps(1)] next_step.prems s leases by auto
  ultimately show ?case using next_step.IH s by auto
qed simp

lemma claimed_held:
  assumes "claim_due_at w db q now0 = Some (Inr (db1, Some l))" "run_inv (db1, l # ls)"
  shows "held_until (now0 + q_ttl q) l db1 \<and> unfinished l db1"
proof -
  obtain r where r: "r \<in> set (runs db1)" "r_id r = l_run l" "r_instance r = l_instance l" "r_status r = Dispatching" "r_expires r = now0 + q_ttl q"
    using assms(1) by (rule claimed_row)
  have "inj_on r_id (set (runs db1))" using assms(2) by (simp add: run_inv_def distinct_map)
  then have only: "r' = r" if "r' \<in> set (runs db1)" "r_id r' = l_run l" for r' using inj_onD [of r_id _ r' r] that r(1,2) by simp
  have "r_completed r = None" using r assms(2) by (auto simp: run_inv_def run_ok_def)
  then show ?thesis unfolding held_until_def unfinished_def settled_as_def using only r by metis
qed

lemma lease_fate:
  assumes "run_inv (db, ls)" "l \<in> set ls" "held_until t l db" "unfinished l db" "now < t"
  shows "(\<exists>r \<in> set (runs db). finishable l now r) \<or> lost l db"
proof (rule disjCI)
  assume "\<not> lost l db"
  then obtain r where r: "r \<in> set (runs db)" "r_id r = l_run l" "\<not> l_fence l < r_fence r" by (auto simp: lost_def)
  then have ok: "l_fence l = r_fence r" "l_token l = r_token r" "run_ok r" using assms(1,2) by (fastforce simp: run_inv_def)+
  have "r_completed r = None" using assms(4) r ok by (force simp: unfinished_def settled_as_def)
  then show "\<exists>r \<in> set (runs db). finishable l now r"
    using r ok assms(3,5) by (intro bexI [of _ r]) (auto simp: finishable_def run_ok_def held_until_def)
qed

lemma lost_unfinishable: "lost l db \<Longrightarrow> r \<in> set (runs db) \<Longrightarrow> \<not> finishable l now r"
  by (auto simp: lost_def finishable_def)

lemma settled_steps_as:
  assumes "run_steps w (db, ls) (db', ls')" "run_inv (db, ls)" "settled_as db l status"
  shows "settled_as db' l status \<or> lost l db'" "r \<in> set (runs db') \<Longrightarrow> \<not> finishable l now r"
proof -
  obtain r0 where r0: "r0 \<in> set (runs db)" "r_id r0 = l_run l" "r_token r0 = l_token l" "r_fence r0 = l_fence l" "r_status r0 = status" "r_completed r0 \<noteq> None"
    using assms(3) by (auto simp: settled_as_def)
  then have st: "r_status r0 \<noteq> Dispatching" using assms(2) by (auto simp: run_inv_def run_ok_def)
  have "settled r0 (db, ls)"
    using assms(2) r0(1) unfolding settled_def run_inv_def lease_of_def by (auto simp: distinct_map dest: inj_onD)
  then have only: "\<forall>r' \<in> set (runs db'). r_id r' = r_id r0 \<longrightarrow> r' = r0" using settled_steps [OF assms(1) _ st] by (simp add: settled_def)
  show "settled_as db' l status \<or> lost l db'" using only r0 by (force simp: settled_as_def lost_def)
  show "r \<in> set (runs db') \<Longrightarrow> \<not> finishable l now r" using only r0(2) st by (auto simp: finishable_def)
qed

lemma finish_lost:
  assumes "\<forall>r \<in> set (runs db). \<not> finishable l now r" "\<bar>now\<bar> \<le> time_clip" "check_date (l_scheduled l) = Inr x" "check_date_option (l_next l) = Inr ()"
  shows "finish db l status err now = (db, [], Some False)"
proof -
  obtain y where "check_date now = Inr y" using assms(2) by (rule check_date_ok)
  then show ?thesis using assms by (auto simp: finish_def finish_dispatch_at_def Let_def)
qed

text \<open>What \<open>perform\<close> leaves: nothing done, a settled run with or without a reply, or the reply of a lost lease.\<close>

lemma perform_fate:
  assumes "(\<exists>r \<in> set (runs db). finishable l now r) \<or> lost l db" "\<bar>now\<bar> \<le> time_clip" "check_date (l_scheduled l) = Inr x" "check_date_option (l_next l) = Inr ()"
  obtains (failed) es where "perform db l worker ans now = (db, es, None)"
  | (settled) db' es status where "perform db l worker ans now = (db', es, reply_with (l_next l) (Accepted status (l_next l)))"
      "settled_as db' l status" "status \<noteq> Dispatching" "finish_dispatch_at db l status None now = Inr (db', True)"
  | (lost) es r where "perform db l worker ans now = (db, es, Some r)" "lost l db" "r = ExpiredBeforeRecovery \<or> r = ExpiredBeforeCompletion"
proof -
  define G where "G p \<longleftrightarrow> (\<exists>es. p = (db, es, None)) \<or>
    (\<exists>db' es status. p = (db', es, reply_with (l_next l) (Accepted status (l_next l))) \<and> settled_as db' l status \<and> status \<noteq> Dispatching \<and>
       finish_dispatch_at db l status None now = Inr (db', True)) \<or>
    (\<exists>es r. p = (db, es, Some r) \<and> lost l db \<and> (r = ExpiredBeforeRecovery \<or> r = ExpiredBeforeCompletion))" for p :: "reply dispatched"
  have "G (conclude db before l status expired now)"
    if "status \<noteq> Dispatching" "expired = ExpiredBeforeRecovery \<or> expired = ExpiredBeforeCompletion" for before status expired
    using assms(1)
  proof
    assume fin: "\<exists>r \<in> set (runs db). finishable l now r"
    obtain db' where f: "finish db l status None now = (db', [Published], Some True)" "settled_as db' l status"
      by (rule finish_in_time [OF fin assms(2-4), of status None])
    then have "finish_dispatch_at db l status None now = Inr (db', True)" by (auto simp: finish_def split: sum.splits if_splits)
    then show ?thesis using f that(1) unfolding G_def conclude_def by force
  next
    assume "lost l db"
    then show ?thesis using finish_lost [OF _ assms(2-4), of db status None] lost_unfinishable that(2) by (auto simp: G_def conclude_def)
  qed
  moreover have "G (db, es, None)" for es by (simp add: G_def)
  moreover have "status = Queued \<or> status = Started" if "start_turn ans c = Some (es, status)" for c es status
    using that by (auto simp: start_turn_def split: if_splits)
  ultimately have "G (perform db l worker ans now)" unfolding perform_def
    by (auto split: option.split protected_turn.split prod.split) (metis run_status.distinct)+
  then show ?thesis unfolding G_def using that by blast
qed

definition starts :: "effect \<Rightarrow> bool" where
  "starts e \<longleftrightarrow> e = Enqueued \<or> e = Began"

lemma finish_effects: "finish db l status err now = (db', es, r) \<Longrightarrow> filter starts es = []"
  by (auto simp: finish_def starts_def split: sum.splits if_splits)

lemma conclude_effects: "conclude db before l status expired now = (db', es, r) \<Longrightarrow> filter starts es = filter starts before"
  by (auto simp: conclude_def split: prod.splits option.splits dest: finish_effects)

lemma perform_effects:
  assumes "perform db l worker ans now = (db', es, r)"
  shows "filter starts es = [] \<or> (length (filter starts es) = 1 \<and> ans_message ans = Some False \<and> ans_prompt ans = Some False \<and>
    ans_protected ans = Some (Allowed True) \<and> (\<exists>c. ans_context ans = Some (Some c) \<and> x_worker c = worker \<and> \<not> x_task c))"
proof -
  have t: "length (filter starts xs) = 1" if "start_turn ans c = Some (xs, status)" for c xs status
    using that by (auto simp: start_turn_def starts_def split: if_splits)
  have a: "\<not> starts AskedWorker" by (simp add: starts_def)
  have u: "ans_context ans = Some (Some c) \<and> x_worker c = worker \<and> \<not> x_task c" if "usable_context ans worker = Some c" for c
    using that by (auto simp: usable_context_def bind_eq_Some_conv split: if_splits)
  show ?thesis
    using assms unfolding perform_def
    by (auto simp: a split: option.split_asm protected_turn.split_asm prod.split_asm if_split_asm dest!: conclude_effects t u)
qed

definition demo_answers :: answers where
  "demo_answers = \<lparr>ans_context = Some (Some \<lparr>x_worker = [5], x_task = False, x_paused = False, x_executing = False\<rparr>), ans_message = Some False,
     ans_prompt = Some False, ans_model = True, ans_github = True, ans_protected = Some (Allowed True), ans_enqueue = None, ans_begin = True\<rparr>"

section \<open>Properties\<close>

text \<open>
  (C9) A dispatch settles the run it claimed. Let other calls of the repository run between its transactions, and let the lease last
  until the dispatch is over. Whatever the chats, the worker and the runtime answer, the run ends as started, queued or
  skipped with a reply that says so, or as failed with the failure reply; or it has been deleted or taken over by a later claim, and then
  the reply does not say it was accepted. The failure reply is also given for a run that was started, queued or skipped
  where the next run is in a year that the reply cannot carry.
\<close>

theorem dispatch_settles:
  assumes "run_reachable w (db, ls)" "claim_due_at w db q now0 = Some (Inr (db1, Some l))" "q_token q \<notin> l_token ` set ls" "q_run q \<notin> l_run ` set ls"
    and "meanwhile w l (db1, l # ls) (others1 db1, ls1)"
    and "\<And>db2 es. perform (others1 db1) l (q_worker q) ans now1 = (db2, es, None) \<Longrightarrow> meanwhile w l (db2, ls1) (others2 db2, ls2)"
    and "now1 < now0 + q_ttl q" "now2 < now0 + q_ttl q" "\<bar>now1\<bar> \<le> time_clip" "\<bar>now2\<bar> \<le> time_clip" "check_date_option (l_next l) = Inr ()"
  shows "\<exists>db' es r. dispatch_run w db q ans others1 others2 now0 now1 now2 = Some (db', es, Some r) \<and>
    ((\<exists>status. settled_as db' l status \<and>
        (r = Accepted status (l_next l) \<or> r = DispatchFailed \<and> (status = Failed \<or> \<not> reply_fits (l_next l)))) \<or>
     lost l db' \<and> (\<forall>status t. r \<noteq> Accepted status t))"
proof -
  obtain x where x: "check_date (l_scheduled l) = Inr x" using assms(2) by (rule claimed_date)
  have claim: "run_step w (db, ls) (db1, l # ls)" using assms(2-4) by (rule run_step.claimed)
  note inv1 = inv_step [OF claim run_reachable_inv [OF assms(1)]]
  have held: "held_until (now0 + q_ttl q) l db1" and free: "unfinished l db1" using claimed_held [OF assms(2) inv1] by auto
  have d: "dispatch_run w db q ans others1 others2 now0 now1 now2 = Some (run_lease (others1 db1) l (q_worker q) ans others2 now1 now2)"
    using assms(2) by (simp add: dispatch_run_def)
  have st1: "run_steps w (db1, l # ls) (others1 db1, ls1)" and free1: "unfinished l (others1 db1)" using assms(5) free by (auto simp: meanwhile_def)
  have s1: "run_inv (others1 db1, ls1)" "l \<in> set ls1" "held_until (now0 + q_ttl q) l (others1 db1)" using lease_steps [OF st1 inv1] held by auto
  note fate1 = lease_fate [OF s1 free1 assms(7)]
  show ?thesis
  proof (rule perform_fate [OF fate1 assms(9) x assms(11), of "q_worker q" ans])
    fix es assume p: "perform (others1 db1) l (q_worker q) ans now1 = (others1 db1, es, None)"
    let ?db = "others2 (others1 db1)"
    have st2: "run_steps w (others1 db1, ls1) (?db, ls2)" "unfinished l ?db" using assms(6) [OF p] free1 by (auto simp: meanwhile_def)
    have s2: "run_inv (?db, ls2)" "l \<in> set ls2" "held_until (now0 + q_ttl q) l ?db" using lease_steps [OF st2(1) s1(1)] s1 by auto
    from lease_fate [OF s2 st2(2) assms(8)] show ?thesis
    proof
      assume "\<exists>r \<in> set (runs ?db). finishable l now2 r"
      from finish_in_time [OF this assms(10) x assms(11), of Failed "Some failure_text"] obtain db' where
        "finish ?db l Failed (Some failure_text) now2 = (db', [Published], Some True)" "settled_as db' l Failed" .
      then show ?thesis using d p by (auto simp: run_lease_def)
    next
      assume lost: "lost l ?db"
      then show ?thesis using d p finish_lost [OF _ assms(10) x assms(11), of ?db Failed "Some failure_text"] lost_unfinishable
        by (auto simp: run_lease_def)
    qed
  next
    fix db2 es status
    assume p: "perform (others1 db1) l (q_worker q) ans now1 = (db2, es, reply_with (l_next l) (Accepted status (l_next l)))"
      and settled: "settled_as db2 l status" "status \<noteq> Dispatching" and f: "finish_dispatch_at (others1 db1) l status None now1 = Inr (db2, True)"
    show ?thesis
    proof (cases "reply_fits (l_next l)")
      case True
      then show ?thesis using d p settled by (auto simp: run_lease_def reply_with_def)
    next
      case False
      let ?db = "others2 db2"
      have p': "perform (others1 db1) l (q_worker q) ans now1 = (db2, es, None)" using p False by (simp add: reply_with_def)
      have "run_inv (db2, ls1)" using inv_step [OF run_step.finishing [OF s1(2) settled(2) f] s1(1)] .
      moreover have "run_steps w (db2, ls1) (?db, ls2)" using assms(6) [OF p'] by (simp add: meanwhile_def)
      ultimately have "settled_as ?db l status \<or> lost l ?db" "\<forall>r \<in> set (runs ?db). \<not> finishable l now2 r"
        using settled_steps_as [of w db2 ls1 ?db ls2 l status] settled(1) by auto
      then show ?thesis using d p' False finish_lost [OF _ assms(10) x assms(11), of ?db Failed "Some failure_text"] by (auto simp: run_lease_def)
    qed
  next
    fix es r assume "perform (others1 db1) l (q_worker q) ans now1 = (others1 db1, es, Some r)" "lost l (others1 db1)"
      "r = ExpiredBeforeRecovery \<or> r = ExpiredBeforeCompletion"
    then show ?thesis using d by (auto simp: run_lease_def)
  qed
qed

theorem dispatch_settles_witness:
  "\<exists>db' es r. dispatch_run utc_machine demo_tables (demo_claim [7] [8]) demo_answers id id 1704067201000 1704067202000 1704067203000 = Some (db', es, Some r) \<and>
     ((\<exists>status. settled_as db' demo_lease status \<and>
         (r = Accepted status (l_next demo_lease) \<or> r = DispatchFailed \<and> (status = Failed \<or> \<not> reply_fits (l_next demo_lease)))) \<or>
      lost demo_lease db' \<and> (\<nexists>status t. r = Accepted status t))"
proof -
  obtain z where "check_date 1704070800000 = Inr z" by (rule check_date_ok [of 1704070800000]) auto
  then have n: "check_date_option (l_next demo_lease) = Inr ()" by (simp add: check_date_option_def demo_lease_def)
  have start: "run_reachable utc_machine (demo_tables, [])" by (rule run_reachable.start) (simp add: demo_tables_def)
  have quiet: "meanwhile utc_machine demo_lease (d, ls) (id d, ls)" for d ls by (simp add: meanwhile_def run_steps.stay)
  from dispatch_settles [OF start demo_claim_granted, where ?others1.0 = id and ?others2.0 = id and ?ls1.0 = "[demo_lease]" and ?ls2.0 = "[demo_lease]"
      and ans = demo_answers and ?now1.0 = 1704067202000 and ?now2.0 = 1704067203000] show ?thesis
    using n quiet by (simp add: demo_claim_def)
qed

text \<open>
  (C10) A dispatch starts the prompt at most once, and only when no earlier attempt of the occurrence left a message or a
  prompt, the chat is still on the claiming worker and is not a task, and the worker allowed the turn.
\<close>

theorem dispatch_starts_once:
  assumes "dispatch_run w db q ans others1 others2 now0 now1 now2 = Some (db', es, r)"
  shows "length (filter starts es) \<le> 1 \<and>
    (filter starts es \<noteq> [] \<longrightarrow> ans_message ans = Some False \<and> ans_prompt ans = Some False \<and> ans_protected ans = Some (Allowed True) \<and>
      (\<exists>c. ans_context ans = Some (Some c) \<and> x_worker c = q_worker q \<and> \<not> x_task c))"
proof -
  have published: "\<not> starts Published" by (simp add: starts_def)
  have lease: "\<exists>db1 db2 es2 r2. perform db1 l (q_worker q) ans now1 = (db2, es2, r2) \<and> filter starts es = filter starts es2"
    if "run_lease db0 l (q_worker q) ans others2 now1 now2 = (db', es, r)" for db0 l
    using that by (auto simp: run_lease_def published split: prod.splits option.splits dest!: finish_effects) blast+
  have "filter starts es = [] \<or> (\<exists>db1 l db2 es2 r2. perform db1 l (q_worker q) ans now1 = (db2, es2, r2) \<and> filter starts es = filter starts es2)"
  proof (cases "claim_due_at w db q now0")
    case (Some c)
    then consider "es = []" | db0 l where "run_lease db0 l (q_worker q) ans others2 now1 now2 = (db', es, r)"
      using assms by (auto simp: dispatch_run_def Let_def split: sum.split_asm prod.split_asm option.split_asm)
    then show ?thesis using lease by cases (simp, blast)
  qed (use assms in \<open>simp add: dispatch_run_def\<close>)
  then show ?thesis using perform_effects by fastforce
qed

theorem dispatch_starts_once_witness:
  "\<exists>db' es r. dispatch_run utc_machine demo_tables (demo_claim [7] [8]) demo_answers id id 1704067201000 1704067202000 1704067203000 = Some (db', es, r) \<and>
     length (filter starts es) \<le> 1"
proof -
  obtain db' es r where d: "dispatch_run utc_machine demo_tables (demo_claim [7] [8]) demo_answers id id 1704067201000 1704067202000 1704067203000 = Some (db', es, r)"
    by (cases "run_lease demo_claimed demo_lease [5] demo_answers id 1704067202000 1704067203000")
      (simp add: dispatch_run_def demo_claim_granted, simp add: demo_claim_def)
  from dispatch_starts_once [OF d] d show ?thesis by blast
qed

text \<open>
  A dispatch whose server stopped is taken up again: once its lease has expired, a due claim of the occurrence is
  granted with the next fencing token, for the same run.
\<close>

lemma expired_lease_reclaimed:
  assumes "due_automation db q = Some (a, effort)" "a_next a = Some expected" "iso_milliseconds expected = Some (q_scheduled q)" "expected \<le> now + 30000"
    and "schedule_next w (a_schedule a) (max now expected) = Some (Inr next_run)"
    and "existing_run db (q_automation q) expected = Some r" "r_status r = Dispatching" "r_expires r \<le> now"
    and "\<bar>now\<bar> \<le> time_clip" "\<bar>now + q_ttl q\<bar> \<le> time_clip"
  shows "\<exists>db' l. claim_due_at w db q now = Some (Inr (db', Some l)) \<and> l_run l = r_id r \<and> l_fence l = r_fence r + 1 \<and> l_next l = next_run"
proof -
  have i: "a \<in> set (automations db)" "a_id a = q_automation q" using due_in [OF assms(1)] by auto
  then have "marks q a expected a" using assms(2) by (simp add: marks_def)
  then obtain a' where m: "find (marks q a expected) (automations db) = Some a'" using i(1) by (cases "find (marks q a expected) (automations db)") (auto simp: find_None_iff)
  have "renewable (r_id r) (r_fence r) now r" using assms(7,8) by (simp add: renewable_def)
  then obtain r' where n: "find (renewable (r_id r) (r_fence r) now) (runs db) = Some r'"
    using existing_run_Some [OF assms(6)] by (cases "find (renewable (r_id r) (r_fence r) now) (runs db)") (auto simp: find_None_iff)
  then have e: "r_id r' = r_id r" by (auto simp: find_Some_iff renewable_def)
  obtain y z where d: "check_date now = Inr y" "check_date (now + q_ttl q) = Inr z" using check_date_ok [OF assms(9)] check_date_ok [OF assms(10)] by metis
  have "\<exists>db' l. claim_grant db q a effort expected now next_run = Inr (db', Some l) \<and> l_run l = r_id r \<and> l_fence l = r_fence r + 1 \<and> l_next l = next_run"
    using assms(6-8) m n e d by (simp add: claim_grant_def claim_row_def Let_def renewed_def)
  then show ?thesis using assms(1-5) by (simp add: claim_due_at_def Let_def check_date_def)
qed

end
