(* ===== verification/RemoteChunks.thy ===== *)
theory RemoteChunks
  imports Prelude "HOL-Library.Word" "HOL-Library.Sublist"
begin

text \<open>
  Remote Surface chunks of a worker link (\<^verbatim>\<open>cantrip_server_rs/src/worker_links/frame.rs\<close>): the binary codec of a
  chunk and the assembler that puts a frame together from its chunks. Bytes are 8-bit words; the \<open>u32\<close> fields
  are big-endian with the truncation of the source's cast. A slice outside its range is the branch
  \<open>SlicePanic\<close>.
\<close>

type_synonym byte = "8 word"

abbreviation (input) max_payload_bytes :: nat where "max_payload_bytes \<equiv> 8 + 8 * 1024 + 64 * 1024 + 16"
abbreviation (input) remote_chunk_header_bytes :: nat where "remote_chunk_header_bytes \<equiv> 16"
abbreviation (input) remote_chunk_payload_bytes :: nat where
  "remote_chunk_payload_bytes \<equiv> max_payload_bytes - remote_chunk_header_bytes"
abbreviation (input) remote_max_frame_bytes :: nat where "remote_max_frame_bytes \<equiv> 8 + 64 * 1024 + 4 * 1024 * 1024"

definition remote_magic :: "byte list" where
  "remote_magic = [67, 84, 82, 76]"

definition to_be_bytes :: "nat \<Rightarrow> byte list" where
  "to_be_bytes n = [of_nat (n div 2 ^ 24), of_nat (n div 2 ^ 16), of_nat (n div 2 ^ 8), of_nat n]"

definition from_be_bytes :: "byte list \<Rightarrow> nat" where
  "from_be_bytes bs = foldl (\<lambda>n b. n * 256 + unat b) 0 bs"

record chunk =
  frame_id :: nat
  frame_length :: nat
  chunk_offset :: nat
  chunk_payload :: "byte list"

datatype frame_error = OutOfBounds | InvalidChunk | Restarted | NotContiguous | SlicePanic

definition validate_chunk :: "chunk \<Rightarrow> (frame_error, unit) result" where
  "validate_chunk c =
     (if frame_id c > 2 ^ 32 - 1 \<or> \<not> (1 \<le> frame_length c \<and> frame_length c \<le> remote_max_frame_bytes) \<or>
         chunk_offset c \<ge> frame_length c \<or> chunk_payload c = [] \<or> length (chunk_payload c) > remote_chunk_payload_bytes \<or>
         chunk_offset c + length (chunk_payload c) > frame_length c
      then Inl OutOfBounds else Inr ())"

definition encode_chunk :: "chunk \<Rightarrow> (frame_error, byte list) result" where
  "encode_chunk c =
     rbind (validate_chunk c) (\<lambda>_.
       Inr (remote_magic @ concat (map (\<lambda>v. to_be_bytes (v mod 2 ^ 32)) [frame_id c, frame_length c, chunk_offset c]) @ chunk_payload c))"

definition read_u32 :: "byte list \<Rightarrow> nat \<Rightarrow> nat" where
  "read_u32 bs i = from_be_bytes (take 4 (drop i bs))"

definition decode_chunk :: "byte list \<Rightarrow> (frame_error, chunk) result" where
  "decode_chunk bs =
     (if length bs \<le> remote_chunk_header_bytes \<or> length bs > max_payload_bytes \<or> take 4 bs \<noteq> remote_magic
      then Inl InvalidChunk
      else let c = \<lparr>frame_id = read_u32 bs 4, frame_length = read_u32 bs 8, chunk_offset = read_u32 bs 12, chunk_payload = drop 16 bs\<rparr>
        in rbind (validate_chunk c) (\<lambda>_. Inr c))"

record active_frame =
  active_bytes :: "byte list"
  active_id :: nat
  active_offset :: nat

record assembler =
  active :: "active_frame option"
  replace_incomplete :: bool

definition assembler_new :: "bool \<Rightarrow> assembler" where
  "assembler_new r = \<lparr>active = None, replace_incomplete = r\<rparr>"

definition assembler_reset :: "assembler \<Rightarrow> assembler" where
  "assembler_reset s = s\<lparr>active := None\<rparr>"

text \<open>\<open>bytes[from..to].copy_from_slice(payload)\<close>: both the range and the lengths are checked.\<close>

definition copy_slice :: "byte list \<Rightarrow> nat \<Rightarrow> nat \<Rightarrow> byte list \<Rightarrow> byte list option" where
  "copy_slice bs a b p = (if a \<le> b \<and> b \<le> length bs \<and> b - a = length p then Some (take a bs @ p @ drop b bs) else None)"

definition start_frame :: "chunk \<Rightarrow> assembler \<Rightarrow> (frame_error, assembler) result" where
  "start_frame c s =
     (if chunk_offset c = 0
      then if active s \<noteq> None \<and> \<not> replace_incomplete s then Inl Restarted
           else Inr (s\<lparr>active := Some \<lparr>active_bytes = replicate (frame_length c) 0, active_id = frame_id c, active_offset = 0\<rparr>\<rparr>)
      else Inr s)"

definition append_chunk :: "chunk \<Rightarrow> assembler \<Rightarrow> (frame_error, byte list option) result \<times> assembler" where
  "append_chunk c s =
     (case active s of
        None \<Rightarrow> (Inl NotContiguous, s)
      | Some f \<Rightarrow>
          if active_id f = frame_id c \<and> length (active_bytes f) = frame_length c \<and> active_offset f = chunk_offset c
          then let e = active_offset f + length (chunk_payload c)
               in case copy_slice (active_bytes f) (active_offset f) e (chunk_payload c) of
                    None \<Rightarrow> (Inl SlicePanic, s)
                  | Some bs \<Rightarrow>
                      if e \<noteq> length bs then (Inr None, s\<lparr>active := Some (f\<lparr>active_bytes := bs, active_offset := e\<rparr>)\<rparr>)
                      else (Inr (Some bs), s\<lparr>active := None\<rparr>)
          else (Inl NotContiguous, s))"

definition assembler_push :: "byte list \<Rightarrow> assembler \<Rightarrow> (frame_error, byte list option) result \<times> assembler" where
  "assembler_push bs s =
     (case decode_chunk bs of
        Inl e \<Rightarrow> (Inl e, s)
      | Inr c \<Rightarrow> (case start_frame c s of Inl e \<Rightarrow> (Inl e, s) | Inr s' \<Rightarrow> append_chunk c s'))"

section \<open>The chunk codec\<close>

lemma be_digits: "(n::nat) = ((n div 16777216 * 256 + n div 65536 mod 256) * 256 + n div 256 mod 256) * 256 + n mod 256"
proof -
  have a: "n div 65536 = n div 16777216 * 256 + n div 65536 mod 256"
    using div_mult_mod_eq [of "n div 65536" 256] by (simp add: div_mult2_eq [symmetric])
  have b: "n div 256 = n div 65536 * 256 + n div 256 mod 256"
    using div_mult_mod_eq [of "n div 256" 256] by (simp add: div_mult2_eq [symmetric])
  have c: "n = n div 256 * 256 + n mod 256" by simp
  show ?thesis using a b c by presburger
qed

lemma from_to_be: "n < 2 ^ 32 \<Longrightarrow> from_be_bytes (to_be_bytes n) = n"
proof -
  assume n: "n < 2 ^ 32"
  have u: "unat (of_nat m :: byte) = m mod 256" for m :: nat by (simp add: unat_of_nat)
  have "n div 16777216 < 256" using n by (simp add: less_mult_imp_div_less)
  then have d: "n div 16777216 mod 256 = n div 16777216" by simp
  have "from_be_bytes (to_be_bytes n) =
      ((n div 16777216 mod 256 * 256 + n div 65536 mod 256) * 256 + n div 256 mod 256) * 256 + n mod 256"
    unfolding from_be_bytes_def to_be_bytes_def by (simp add: u)
  also have "\<dots> = n" unfolding d using be_digits [of n] by simp
  finally show ?thesis .
qed

lemma length_to_be [simp]: "length (to_be_bytes n) = 4"
  by (simp add: to_be_bytes_def)

lemma to_from_be: "length bs = 4 \<Longrightarrow> to_be_bytes (from_be_bytes bs) = bs"
proof -
  assume "length bs = 4"
  then obtain a b c d where bs: "bs = [a, b, c, d]" by (auto simp: numeral_eq_Suc length_Suc_conv)
  have lt: "unat x < 256" for x :: byte using unsigned_less [where ?'a = nat and w = x] by simp
  have w: "(of_nat m :: byte) = x" if "m mod 256 = unat x" for m x
    using that by (intro unsigned_word_eqI [where ?'a = nat]) (simp add: unat_of_nat)
  define n where "n = ((unat a * 256 + unat b) * 256 + unat c) * 256 + unat d"
  have dm: "(x * 256 + y) div 256 = x" "(x * 256 + y) mod 256 = y" if "y < 256" for x y :: nat using that by auto
  have n1: "n div 256 = (unat a * 256 + unat b) * 256 + unat c" "n mod 256 = unat d" unfolding n_def using dm [OF lt [of d]] by blast+
  have n2: "n div 65536 = n div 256 div 256" "n div 16777216 = n div 256 div 256 div 256" by (simp_all add: div_mult2_eq [symmetric])
  have "n div 16777216 = unat a" "n div 65536 mod 256 = unat b" "n div 256 mod 256 = unat c"
    unfolding n2 n1 by (simp_all only: dm [OF lt])
  then have "to_be_bytes n = bs" using n1(2) lt [of a] by (simp add: bs to_be_bytes_def w)
  moreover have "from_be_bytes bs = n" by (simp only: bs from_be_bytes_def foldl.simps n_def mult_0 add_0)
  ultimately show ?thesis by simp
qed

lemma validate_chunk_iff:
  "validate_chunk c = Inr u \<longleftrightarrow> frame_id c < 2 ^ 32 \<and> 1 \<le> frame_length c \<and> frame_length c \<le> remote_max_frame_bytes \<and>
     chunk_offset c < frame_length c \<and> chunk_payload c \<noteq> [] \<and> length (chunk_payload c) \<le> remote_chunk_payload_bytes \<and>
     chunk_offset c + length (chunk_payload c) \<le> frame_length c"
  by (auto simp: validate_chunk_def)

lemma encode_decode:
  assumes "encode_chunk c = Inr bs"
  shows "decode_chunk bs = Inr c"
proof -
  have v: "validate_chunk c = Inr ()" using assms by (auto simp: encode_chunk_def rbind_eq_Inr)
  have small: "frame_id c < 2 ^ 32" "frame_length c < 2 ^ 32" "chunk_offset c < 2 ^ 32"
    using v unfolding validate_chunk_iff by auto
  have bs: "bs = remote_magic @ to_be_bytes (frame_id c) @ to_be_bytes (frame_length c) @ to_be_bytes (chunk_offset c) @ chunk_payload c"
    using assms v small by (simp add: encode_chunk_def)
  have m: "length remote_magic = 4" by (simp add: remote_magic_def)
  have r: "read_u32 bs 4 = frame_id c" "read_u32 bs 8 = frame_length c" "read_u32 bs 12 = chunk_offset c" "drop 16 bs = chunk_payload c"
    unfolding read_u32_def bs using from_to_be small m by simp_all
  have "length bs = 16 + length (chunk_payload c)" "take 4 bs = remote_magic" unfolding bs by (simp_all add: m)
  moreover have eta: "\<lparr>frame_id = frame_id c, frame_length = frame_length c, chunk_offset = chunk_offset c, chunk_payload = chunk_payload c\<rparr> = c"
    by simp
  moreover have "0 < length (chunk_payload c)" "length (chunk_payload c) \<le> remote_chunk_payload_bytes" using v unfolding validate_chunk_iff by auto
  ultimately show ?thesis unfolding decode_chunk_def Let_def r eta v by simp
qed

lemma decode_encode:
  assumes "decode_chunk bs = Inr c"
  shows "encode_chunk c = Inr bs"
proof -
  have g: "length bs > 16" "take 4 bs = remote_magic" "validate_chunk c = Inr ()"
      "c = \<lparr>frame_id = read_u32 bs 4, frame_length = read_u32 bs 8, chunk_offset = read_u32 bs 12, chunk_payload = drop 16 bs\<rparr>"
    using assms by (auto simp: decode_chunk_def Let_def rbind_eq_Inr split: if_splits)
  have b: "to_be_bytes (read_u32 bs i) = take 4 (drop i bs)" if "i \<le> 12" for i
    unfolding read_u32_def using g(1) that by (intro to_from_be) simp
  have small: "frame_id c < 2 ^ 32" "frame_length c < 2 ^ 32" "chunk_offset c < 2 ^ 32" using g(3) unfolding validate_chunk_iff by auto
  have four: "drop i bs = take 4 (drop i bs) @ drop (i + 4) bs" for i by (metis append_take_drop_id drop_drop add.commute)
  have "bs = take 4 bs @ take 4 (drop 4 bs) @ take 4 (drop 8 bs) @ take 4 (drop 12 bs) @ drop 16 bs"
    using four [of 0] four [of 4] four [of 8] four [of 12] by simp
  then show ?thesis using g(2,3) small b by (simp add: encode_chunk_def g(4))
qed

section \<open>The assembler\<close>

text \<open>
  The contents of an assembler: the chunks of the frame under assembly so far, contiguous from its start.
\<close>

fun chunks_from :: "nat \<Rightarrow> nat \<Rightarrow> nat \<Rightarrow> byte list list \<Rightarrow> chunk list" where
  "chunks_from i n k [] = []"
| "chunks_from i n k (p # ps) = \<lparr>frame_id = i, frame_length = n, chunk_offset = k, chunk_payload = p\<rparr> # chunks_from i n (k + length p) ps"

definition frame_chunks :: "nat \<Rightarrow> nat \<Rightarrow> byte list list \<Rightarrow> chunk list" where
  "frame_chunks i n ps = chunks_from i n 0 ps"

lemma chunks_from_snoc:
  "chunks_from i n k (ps @ [p]) = chunks_from i n k ps @ [\<lparr>frame_id = i, frame_length = n, chunk_offset = k + length (concat ps), chunk_payload = p\<rparr>]"
  by (induction ps arbitrary: k) (simp_all add: add.assoc)

lemma frame_chunks_snoc:
  "frame_chunks i n (ps @ [p]) = frame_chunks i n ps @ [\<lparr>frame_id = i, frame_length = n, chunk_offset = length (concat ps), chunk_payload = p\<rparr>]"
  by (simp add: frame_chunks_def chunks_from_snoc)

definition assembling :: "nat \<Rightarrow> nat \<Rightarrow> byte list list \<Rightarrow> active_frame \<Rightarrow> bool" where
  "assembling i n ps f \<longleftrightarrow> active_id f = i \<and> active_offset f = length (concat ps) \<and> length (concat ps) < n \<and>
     active_bytes f = concat ps @ replicate (n - length (concat ps)) 0"

lemma append_chunk_step:
  assumes "validate_chunk c = Inr u" "active s = Some f" "assembling i n ps f"
    and "frame_id c = i" "frame_length c = n" "chunk_offset c = length (concat ps)"
  shows "append_chunk c s =
    (if length (concat (ps @ [chunk_payload c])) = n then (Inr (Some (concat (ps @ [chunk_payload c]))), s\<lparr>active := None\<rparr>)
     else (Inr None, s\<lparr>active := Some \<lparr>active_bytes = concat (ps @ [chunk_payload c]) @ replicate (n - length (concat (ps @ [chunk_payload c]))) 0,
        active_id = i, active_offset = length (concat (ps @ [chunk_payload c]))\<rparr>\<rparr>))"
proof -
  let ?k = "length (concat ps)" and ?p = "chunk_payload c"
  have f: "active_id f = i" "active_offset f = ?k" "?k < n" "active_bytes f = concat ps @ replicate (n - ?k) 0"
    using assms(3) by (auto simp: assembling_def)
  have fit: "?k + length ?p \<le> n" using assms(1,5,6) unfolding validate_chunk_iff by simp
  have copy: "copy_slice (active_bytes f) ?k (?k + length ?p) ?p = Some (concat ps @ ?p @ replicate (n - (?k + length ?p)) 0)"
    using f(3,4) fit by (simp add: copy_slice_def)
  have eta: "f\<lparr>active_bytes := b, active_offset := e\<rparr> = \<lparr>active_bytes = b, active_id = i, active_offset = e\<rparr>" for b e
    using f(1) by (cases f) simp
  show ?thesis
    using assms(2,4-6) f fit copy by (auto simp: append_chunk_def Let_def eta)
qed

lemma push_first:
  assumes "encode_chunk c = Inr bs" "chunk_offset c = 0" "active s = None \<or> replace_incomplete s"
  shows "assembler_push bs s = append_chunk c (s\<lparr>active := Some \<lparr>active_bytes = replicate (frame_length c) 0, active_id = frame_id c, active_offset = 0\<rparr>\<rparr>)"
  using assms encode_decode [OF assms(1)] by (auto simp: assembler_push_def start_frame_def)

lemma push_next:
  assumes "encode_chunk c = Inr bs" "chunk_offset c \<noteq> 0"
  shows "assembler_push bs s = append_chunk c s"
  using assms encode_decode [OF assms(1)] by (simp add: assembler_push_def start_frame_def)

fun pushes :: "byte list list \<Rightarrow> assembler \<Rightarrow> (frame_error, byte list option) result list \<times> assembler" where
  "pushes [] s = ([], s)"
| "pushes (b # bs) s = (case assembler_push b s of (r, s') \<Rightarrow> case pushes bs s' of (rs, s'') \<Rightarrow> (r # rs, s''))"

lemma pushes_append:
  "pushes (xs @ ys) s = (case pushes xs s of (rs, s') \<Rightarrow> case pushes ys s' of (qs, s'') \<Rightarrow> (rs @ qs, s''))"
  by (induction xs arbitrary: s) (auto split: prod.splits)

definition received :: "byte list list \<Rightarrow> chunk list" where
  "received bss = List.map_filter (\<lambda>b. case decode_chunk b of Inr c \<Rightarrow> Some c | Inl _ \<Rightarrow> None) bss"

lemma received_simps [simp]:
  "received [] = []"
  "received (bss @ [b]) = received bss @ (case decode_chunk b of Inr c \<Rightarrow> [c] | Inl _ \<Rightarrow> [])"
  by (auto simp: received_def List.map_filter_def split: sum.splits)

definition explained :: "byte list list \<Rightarrow> assembler \<Rightarrow> bool" where
  "explained bss s \<longleftrightarrow> (\<forall>f. active s = Some f \<longrightarrow>
     (\<exists>i n ps. assembling i n ps f \<and> subseq (frame_chunks i n ps) (received bss)))"

lemma decode_error: "decode_chunk b = Inl e \<Longrightarrow> e = InvalidChunk \<or> e = OutOfBounds"
  by (auto simp: decode_chunk_def Let_def rbind_eq_Inl validate_chunk_def split: if_splits)

lemma frame_chunks_Nil [simp]: "frame_chunks i n [] = []"
  by (simp add: frame_chunks_def)

lemma chunk_eq: "\<lparr>frame_id = frame_id c, frame_length = frame_length c, chunk_offset = chunk_offset c, chunk_payload = chunk_payload c\<rparr> = c"
  by simp

lemma append_explained:
  assumes "\<And>f. active s = Some f \<Longrightarrow> \<exists>i n ps. assembling i n ps f \<and> subseq (frame_chunks i n ps) h"
    and "validate_chunk c = Inr u" "append_chunk c s = (r, s')"
  shows "(\<forall>f. active s' = Some f \<longrightarrow> (\<exists>i n ps. assembling i n ps f \<and> subseq (frame_chunks i n ps) (h @ [c]))) \<and>
    r \<noteq> Inl SlicePanic \<and>
    (\<forall>bytes. r = Inr (Some bytes) \<longrightarrow> (\<exists>i ps. bytes = concat ps \<and> subseq (frame_chunks i (length bytes) ps) (h @ [c])))"
proof (cases "active s")
  case None
  then show ?thesis using assms(3) by (auto simp: append_chunk_def)
next
  case (Some f)
  obtain i n ps where a: "assembling i n ps f" "subseq (frame_chunks i n ps) h" using assms(1) Some by blast
  have len: "length (active_bytes f) = n" "active_id f = i" "active_offset f = length (concat ps)" using a by (auto simp: assembling_def)
  note sub = a(2)
  show ?thesis
  proof (cases "frame_id c = i \<and> frame_length c = n \<and> chunk_offset c = length (concat ps)")
    case True
    let ?ps = "ps @ [chunk_payload c]"
    have le: "length (concat ?ps) \<le> n" using assms(2) True unfolding validate_chunk_iff by simp
    have c: "\<lparr>frame_id = i, frame_length = n, chunk_offset = length (concat ps), chunk_payload = chunk_payload c\<rparr> = c" using True chunk_eq [of c] by simp
    have new: "subseq (frame_chunks i n ?ps) (h @ [c])" unfolding frame_chunks_snoc c by (intro list_emb_append_mono sub) simp
    show ?thesis
    proof (cases "length (concat ?ps) = n")
      case True
      then have "r = Inr (Some (concat ?ps))" "s' = s\<lparr>active := None\<rparr>"
        using append_chunk_step [OF assms(2) Some a(1)] assms(3) \<open>frame_id c = i \<and> _ \<and> _\<close> by auto
      then show ?thesis using new True by fastforce
    next
      case False
      then have "r = Inr None" "s' = s\<lparr>active := Some \<lparr>active_bytes = concat ?ps @ replicate (n - length (concat ?ps)) 0, active_id = i, active_offset = length (concat ?ps)\<rparr>\<rparr>"
        using append_chunk_step [OF assms(2) Some a(1)] assms(3) True by auto
      moreover have "assembling i n ?ps \<lparr>active_bytes = concat ?ps @ replicate (n - length (concat ?ps)) 0, active_id = i, active_offset = length (concat ?ps)\<rparr>"
        using False le by (simp add: assembling_def)
      ultimately show ?thesis using new by auto
    qed
  next
    case False
    then have "append_chunk c s = (Inl NotContiguous, s)" using Some len by (auto simp: append_chunk_def)
    then have "r = Inl NotContiguous" "s' = s" using assms(3) by auto
    then show ?thesis using Some a(1) sub by (auto intro: list_emb_append2)
  qed
qed

lemma push_explained:
  assumes "explained bss s" "assembler_push b s = (r, s')"
  shows "explained (bss @ [b]) s' \<and> r \<noteq> Inl SlicePanic \<and>
    (\<forall>bytes. r = Inr (Some bytes) \<longrightarrow> (\<exists>i ps. bytes = concat ps \<and> subseq (frame_chunks i (length bytes) ps) (received (bss @ [b]))))"
proof (cases "decode_chunk b")
  case (Inl e)
  then have "r = Inl e" "s' = s" using assms(2) by (auto simp: assembler_push_def)
  then show ?thesis using assms(1) Inl decode_error [OF Inl] by (auto simp: explained_def)
next
  case (Inr c)
  have v: "validate_chunk c = Inr ()" using Inr by (auto simp: decode_chunk_def Let_def rbind_eq_Inr split: if_splits)
  have old: "\<exists>i n ps. assembling i n ps f \<and> subseq (frame_chunks i n ps) (received bss)" if "active s = Some f" for f
    using assms(1) that unfolding explained_def by blast
  show ?thesis
  proof (cases "start_frame c s")
    case (Inl e)
    then have "r = Inl e" "s' = s" "e = Restarted" using assms(2) Inr by (auto simp: assembler_push_def start_frame_def split: if_splits)
    then show ?thesis using old Inr by (fastforce simp: explained_def intro: list_emb_append2)
  next
    case (Inr s1)
    have st: "\<exists>i n ps. assembling i n ps f \<and> subseq (frame_chunks i n ps) (received bss)" if "active s1 = Some f" for f
    proof (cases "chunk_offset c = 0")
      case True
      then have "f = \<lparr>active_bytes = replicate (frame_length c) 0, active_id = frame_id c, active_offset = 0\<rparr>"
        using Inr that by (auto simp: start_frame_def split: if_splits)
      then show ?thesis using v unfolding validate_chunk_iff by (intro exI [of _ "frame_id c"] exI [of _ "frame_length c"] exI [of _ "[]"]) (simp add: assembling_def)
    next
      case False
      then show ?thesis using old Inr that by (auto simp: start_frame_def)
    qed
    have "append_chunk c s1 = (r, s')" using assms(2) Inr \<open>decode_chunk b = Inr c\<close> by (simp add: assembler_push_def)
    from append_explained [OF st v this] show ?thesis using \<open>decode_chunk b = Inr c\<close> by (auto simp: explained_def)
  qed
qed


lemma pushes_explained:
  "pushes bss (assembler_new r) = (rs, s) \<Longrightarrow> explained bss s \<and> Inl SlicePanic \<notin> set rs"
proof (induction bss arbitrary: rs s rule: rev_induct)
  case Nil
  then show ?case by (auto simp: explained_def assembler_new_def)
next
  case (snoc b bss)
  obtain rs1 s1 where p: "pushes bss (assembler_new r) = (rs1, s1)" by fastforce
  obtain q s2 where q: "assembler_push b s1 = (q, s2)" by fastforce
  have "rs = rs1 @ [q]" "s = s2" using snoc.prems p q by (auto simp: pushes_append)
  then show ?case using snoc.IH [OF p] push_explained [OF _ q] by auto
qed

lemma pushes_rest:
  assumes "active s = Some f" "assembling i n qs f" "qs \<noteq> []" "[] \<notin> set qs" "ps \<noteq> []" "length (concat (qs @ ps)) = n"
    and "rmap encode_chunk (chunks_from i n (length (concat qs)) ps) = Inr bss"
  shows "pushes bss s = (replicate (length ps - 1) (Inr None) @ [Inr (Some (concat (qs @ ps)))], s\<lparr>active := None\<rparr>)"
  using assms
proof (induction ps arbitrary: qs s f bss)
  case (Cons p ps)
  let ?c = "\<lparr>frame_id = i, frame_length = n, chunk_offset = length (concat qs), chunk_payload = p\<rparr>"
  obtain b bss' where b: "encode_chunk ?c = Inr b" "rmap encode_chunk (chunks_from i n (length (concat (qs @ [p]))) ps) = Inr bss'" "bss = b # bss'"
    using Cons.prems(7) by (auto simp: rbind_eq_Inr)
  have v: "validate_chunk ?c = Inr ()" using b(1) by (auto simp: encode_chunk_def rbind_eq_Inr)
  have ne: "p \<noteq> []" using v unfolding validate_chunk_iff by simp
  have off: "chunk_offset ?c \<noteq> 0" using Cons.prems(3,4) by (cases qs) auto
  have push: "assembler_push b s = append_chunk ?c s" by (rule push_next [OF b(1) off])
  note step = append_chunk_step [OF v Cons.prems(1,2)]
  show ?case
  proof (cases "ps = []")
    case True
    then show ?thesis using step push b(2,3) Cons.prems(6) by simp
  next
    case False
    have "concat ps \<noteq> []" using b(2) False by (cases ps) (auto simp: rbind_eq_Inr encode_chunk_def validate_chunk_iff)
    then have "0 < length (concat ps)" by blast
    then have lt: "length (concat (qs @ [p])) < n" using Cons.prems(6) unfolding concat_append length_append concat.simps append_Nil2 by linarith
    let ?q = "concat (qs @ [p])"
    let ?f = "\<lparr>active_bytes = ?q @ replicate (n - length ?q) 0, active_id = i, active_offset = length ?q\<rparr>"
    have st: "append_chunk ?c s = (Inr None, s\<lparr>active := Some ?f\<rparr>)" using step lt by simp
    have a: "assembling i n (qs @ [p]) ?f" using lt by (simp add: assembling_def)
    have "pushes bss' (s\<lparr>active := Some ?f\<rparr>) = (replicate (length ps - 1) (Inr None) @ [Inr (Some (concat ((qs @ [p]) @ ps)))], (s\<lparr>active := Some ?f\<rparr>)\<lparr>active := None\<rparr>)"
      by (rule Cons.IH [OF _ a]) (use Cons.prems(4,6) ne False b(2) in auto)
    moreover have "replicate (length ps) (Inr None :: (frame_error, byte list option) result) = Inr None # replicate (length ps - 1) (Inr None)"
      using False by (cases ps) auto
    ultimately show ?thesis using push st b(3) by simp
  qed
qed simp

lemma pushes_frame:
  assumes "active s = None \<or> replace_incomplete s" "ps \<noteq> []" "rmap encode_chunk (frame_chunks i (length (concat ps)) ps) = Inr bss"
  shows "pushes bss s = (replicate (length ps - 1) (Inr None) @ [Inr (Some (concat ps))], s\<lparr>active := None\<rparr>)"
proof -
  let ?n = "length (concat ps)"
  obtain p qs where ps: "ps = p # qs" using assms(2) by (cases ps) auto
  let ?c = "\<lparr>frame_id = i, frame_length = ?n, chunk_offset = 0, chunk_payload = p\<rparr>"
  obtain b bss' where b: "encode_chunk ?c = Inr b" "rmap encode_chunk (chunks_from i ?n (length (concat [p])) qs) = Inr bss'" "bss = b # bss'"
    using assms(3) ps by (auto simp: frame_chunks_def rbind_eq_Inr)
  have v: "validate_chunk ?c = Inr ()" using b(1) by (auto simp: encode_chunk_def rbind_eq_Inr)
  have ne: "p \<noteq> []" "0 < ?n" using v unfolding validate_chunk_iff by auto
  let ?g = "\<lparr>active_bytes = replicate ?n 0, active_id = i, active_offset = 0\<rparr>"
  have "assembling i ?n [] ?g" using ne by (simp add: assembling_def)
  note step = append_chunk_step [OF v _ this, of "s\<lparr>active := Some ?g\<rparr>"]
  have push: "assembler_push b s = append_chunk ?c (s\<lparr>active := Some ?g\<rparr>)" using push_first [OF b(1) _ assms(1)] by simp
  show ?thesis
  proof (cases "qs = []")
    case True
    then show ?thesis using step push b(2,3) ps by simp
  next
    case False
    have "concat qs \<noteq> []" using b(2) False by (cases qs) (auto simp: rbind_eq_Inr encode_chunk_def validate_chunk_iff)
    then have "0 < length (concat qs)" by blast
    then have lt: "length p < ?n" unfolding ps concat.simps length_append by linarith
    let ?f = "\<lparr>active_bytes = p @ replicate (?n - length p) 0, active_id = i, active_offset = length p\<rparr>"
    have st: "append_chunk ?c (s\<lparr>active := Some ?g\<rparr>) = (Inr None, s\<lparr>active := Some ?f\<rparr>)" using step lt by simp
    have a: "assembling i ?n [p] ?f" using lt by (simp add: assembling_def)
    have "pushes bss' (s\<lparr>active := Some ?f\<rparr>) = (replicate (length qs - 1) (Inr None) @ [Inr (Some (concat ([p] @ qs)))], (s\<lparr>active := Some ?f\<rparr>)\<lparr>active := None\<rparr>)"
      by (rule pushes_rest [OF _ a]) (use ne ps False b(2) in auto)
    moreover have "replicate (length qs) (Inr None :: (frame_error, byte list option) result) = Inr None # replicate (length qs - 1) (Inr None)"
      using False by (cases qs) auto
    ultimately show ?thesis using push st b(3) ps by simp
  qed
qed

section \<open>Properties\<close>

text \<open>
  The chunk codec is a bijection between the chunks it accepts and their encodings: a chunk encodes to
  given bytes exactly when those bytes decode to that chunk.
\<close>

lemma chunk_codec_roundtrip: "encode_chunk c = Inr bytes \<longleftrightarrow> decode_chunk bytes = Inr c"
  using encode_decode decode_encode by blast

text \<open>
  (C38) A frame arrives whole: cut in any way into chunks the codec accepts, and pushed in order into an
  assembler that is idle or replaces incomplete frames, it is returned exactly by its last chunk, every
  earlier push returns nothing, and the assembler is idle again.
\<close>

theorem frame_reassembled:
  assumes "active s = None \<or> replace_incomplete s" "ps \<noteq> []"
    and "rmap encode_chunk (frame_chunks i (length (concat ps)) ps) = Inr bss"
  shows "pushes bss s = (replicate (length ps - 1) (Inr None) @ [Inr (Some (concat ps))], assembler_reset s)"
  using pushes_frame [OF assms] by (simp add: assembler_reset_def)

theorem frame_reassembled_witness:
  "\<exists>bss. rmap encode_chunk (frame_chunks 9 3 [[1, 2], [3]]) = Inr bss \<and>
     pushes bss (assembler_new False) = ([Inr None, Inr (Some [1, 2, 3])], assembler_new False)"
proof -
  obtain bss where b: "rmap encode_chunk (frame_chunks 9 (length (concat [[1, 2], [3 :: byte]])) [[1, 2], [3]]) = Inr bss"
    by (simp add: frame_chunks_def encode_chunk_def validate_chunk_def)
  show ?thesis using frame_reassembled [OF _ _ b, of "assembler_new False"] b by (simp add: assembler_new_def assembler_reset_def numeral_3_eq_3)
qed

text \<open>
  Whatever bytes arrive, the assembler never slices out of range, and a frame it returns consists of the
  payloads of received chunks of one frame, in order of arrival, contiguous from the start of the frame to its
  declared length.
\<close>

lemma assembled_frame_received:
  assumes "pushes (bss @ [b]) (assembler_new replace) = (rs @ [r], s)"
  shows "Inl SlicePanic \<notin> set (rs @ [r]) \<and>
    (case r of Inr (Some bytes) \<Rightarrow> \<exists>i ps. bytes = concat ps \<and> subseq (frame_chunks i (length bytes) ps) (received (bss @ [b])) | _ \<Rightarrow> True)"
proof -
  obtain rs1 s1 where p: "pushes bss (assembler_new replace) = (rs1, s1)" by fastforce
  obtain q s2 where q: "assembler_push b s1 = (q, s2)" by fastforce
  have "r = q" using assms p q by (auto simp: pushes_append)
  then show ?thesis
    using push_explained [OF conjunct1 [OF pushes_explained [OF p]] q] pushes_explained [OF assms] by (auto split: sum.splits option.splits)
qed

end
