(* ===== verification/LinkFrames.thy ===== *)
theory LinkFrames
  imports RemoteChunks
begin

text \<open>
  The binary frames of a worker link (\<^verbatim>\<open>cantrip_server_rs/src/worker_links/frame.rs\<close>): four magic bytes, the length of
  the header as a big-endian \<open>u32\<close>, the JSON text of the header, and the payload. The JSON text and the schema of the
  header are the work of the wire contracts: \<open>codec\<close> holds their three functions, reading a header's text (lossy UTF-8,
  byte order mark, JSON, schema), printing a header, and checking a header built by the server. Fields of a header the
  server only hands on are kept as text.
\<close>

datatype link_route = RouteLocal | RouteLan | RouteWan | RouteRelay

datatype link_lane = LaneEvents | LaneInteractive | LaneStream | LaneRealtime | LaneBulk

datatype resource_kind = KindTerminal | KindTunnel | KindProjectShare | KindBrowser | KindRemoteDesktop | KindObservations

record link_grant =
  grant_id :: string
  grant_resource :: resource_kind
  grant_rest :: string

record link_channel =
  channel_id :: string
  connection_id :: string

datatype link_kind =
    OpenChannel link_grant string nat
  | AcceptChannel nat
  | RejectChannel string
  | ChannelData string string
  | ChannelCredit string nat
  | HalfClose string
  | CloseChannel string
  | ChannelError string

record link_header =
  h_session :: string
  h_generation :: nat
  h_route :: link_route
  h_channel :: link_channel
  h_lane :: link_lane
  h_sequence :: nat
  h_kind :: link_kind

record link_frame =
  lf_header :: link_header
  lf_bytes :: "byte list"
  lf_start :: nat

datatype link_frame_error =
    BadMagic
  | BadHeaderLength
  | HeaderTruncated
  | HeaderNotJson
  | HeaderRefused
  | HeaderTooLong
  | PayloadTooLong
  | DataWithoutPayload
  | ControlWithPayload

record link_codec =
  read_header :: "byte list \<Rightarrow> (link_frame_error, link_header) result"
  print_header :: "link_header \<Rightarrow> byte list"
  check_header :: "link_header \<Rightarrow> (link_frame_error, link_header) result"

abbreviation (input) max_header_bytes :: nat where "max_header_bytes \<equiv> 8 * 1024"

definition link_magic :: "byte list" where
  "link_magic = [67, 87, 76, 75]"

definition frame_payload :: "link_frame \<Rightarrow> byte list" where
  "frame_payload f = drop (lf_start f) (lf_bytes f)"

definition is_frame :: "byte list \<Rightarrow> bool" where
  "is_frame bs \<longleftrightarrow> take 4 bs = link_magic"

fun is_data :: "link_kind \<Rightarrow> bool" where
  "is_data (ChannelData _ _) = True"
| "is_data _ = False"

definition validate_payload :: "link_header \<Rightarrow> byte list \<Rightarrow> (link_frame_error, unit) result" where
  "validate_payload h p =
     (if length p > max_payload_bytes then Inl PayloadTooLong
      else if is_data (h_kind h) \<and> p = [] then Inl DataWithoutPayload
      else if \<not> is_data (h_kind h) \<and> p \<noteq> [] then Inl ControlWithPayload
      else Inr ())"

definition link_create :: "link_codec \<Rightarrow> link_header \<Rightarrow> byte list \<Rightarrow> (link_frame_error, link_frame) result" where
  "link_create cd header p =
     rbind (check_header cd header) (\<lambda>h.
     rbind (validate_payload h p) (\<lambda>_.
       let encoded = print_header cd h
       in if length encoded > max_header_bytes then Inl HeaderTooLong
          else Inr \<lparr>lf_header = h,
                    lf_bytes = link_magic @ to_be_bytes (length encoded mod 2 ^ 32) @ encoded @ p,
                    lf_start = 8 + length encoded\<rparr>))"

definition link_decode :: "link_codec \<Rightarrow> byte list \<Rightarrow> (link_frame_error, link_frame) result" where
  "link_decode cd bs =
     (if length bs < 8 \<or> \<not> is_frame bs then Inl BadMagic
      else let len = from_be_bytes (take 4 (drop 4 bs))
        in if \<not> (1 \<le> len \<and> len \<le> max_header_bytes) then Inl BadHeaderLength
           else let start = 8 + len
             in if start > length bs then Inl HeaderTruncated
                else rbind (read_header cd (take len (drop 8 bs))) (\<lambda>h.
                     rbind (validate_payload h (drop start bs)) (\<lambda>_.
                       Inr \<lparr>lf_header = h, lf_bytes = bs, lf_start = start\<rparr>)))"

section \<open>The frame codec\<close>

lemma length_magic [simp]: "length link_magic = 4"
  by (simp add: link_magic_def)

lemma created_frame:
  assumes "link_create cd header p = Inr f"
  obtains h where "check_header cd header = Inr h" "lf_header f = h" "frame_payload f = p"
    "validate_payload h p = Inr ()" "length (print_header cd h) \<le> max_header_bytes"
    "lf_bytes f = link_magic @ to_be_bytes (length (print_header cd h)) @ print_header cd h @ p"
    "lf_start f = 8 + length (print_header cd h)"
proof -
  obtain h where h: "check_header cd header = Inr h" using assms by (auto simp: link_create_def rbind_eq_Inr)
  obtain u where v: "validate_payload h p = Inr u" using assms h by (auto simp: link_create_def rbind_eq_Inr)
  have len: "length (print_header cd h) \<le> max_header_bytes"
    using assms h v by (auto simp: link_create_def Let_def split: if_splits)
  then have m: "length (print_header cd h) mod 2 ^ 32 = length (print_header cd h)" by simp
  have f: "f = \<lparr>lf_header = h, lf_bytes = link_magic @ to_be_bytes (length (print_header cd h)) @ print_header cd h @ p,
      lf_start = 8 + length (print_header cd h)\<rparr>"
    using assms h v len m by (simp add: link_create_def Let_def)
  show ?thesis
    using f h v len by (intro that) (simp_all add: frame_payload_def)
qed

lemma validated_payload:
  "validate_payload h p = Inr u \<longleftrightarrow> length p \<le> max_payload_bytes \<and> (p \<noteq> []) = is_data (h_kind h)"
  by (auto simp: validate_payload_def)

lemma decode_eq_Inr:
  "link_decode cd bs = Inr f \<longleftrightarrow>
     (let len = from_be_bytes (take 4 (drop 4 bs))
      in 8 \<le> length bs \<and> is_frame bs \<and> 1 \<le> len \<and> len \<le> max_header_bytes \<and> 8 + len \<le> length bs \<and>
         read_header cd (take len (drop 8 bs)) = Inr (lf_header f) \<and> lf_bytes f = bs \<and> lf_start f = 8 + len \<and>
         validate_payload (lf_header f) (frame_payload f) = Inr ())"
  by (cases f) (auto simp: link_decode_def frame_payload_def Let_def rbind_eq_Inr)

lemma decoded_frame:
  assumes "link_decode cd bs = Inr f"
  shows "lf_bytes f = bs" "9 \<le> lf_start f" "lf_start f \<le> 8 + max_header_bytes" "lf_start f \<le> length bs"
    "length (frame_payload f) \<le> max_payload_bytes" "(frame_payload f \<noteq> []) = is_data (h_kind (lf_header f))"
    "is_frame bs" "read_header cd (take (lf_start f - 8) (drop 8 bs)) = Inr (lf_header f)"
  using assms by (simp_all add: decode_eq_Inr validated_payload Let_def)

text \<open>
  A frame the server creates is read back as the very same frame, header, payload and bytes, by whoever decodes it,
  provided the JSON text of a header is not empty and reads back as the header it was printed from.
\<close>

lemma created_frame_decodes:
  assumes "link_create cd header p = Inr f"
    and "print_header cd (lf_header f) \<noteq> []"
    and "read_header cd (print_header cd (lf_header f)) = Inr (lf_header f)"
  shows "link_decode cd (lf_bytes f) = Inr f \<and> frame_payload f = p"
  using assms(1)
proof (rule created_frame)
  fix h
  let ?e = "print_header cd h"
  assume h: "lf_header f = h" and p: "frame_payload f = p" and v: "validate_payload h p = Inr ()"
    and len: "length ?e \<le> max_header_bytes" and bs: "lf_bytes f = link_magic @ to_be_bytes (length ?e) @ ?e @ p"
    and st: "lf_start f = 8 + length ?e"
  have "1 \<le> length ?e" using assms(2) h by (cases ?e) auto
  moreover have "from_be_bytes (to_be_bytes (length ?e)) = length ?e" by (rule from_to_be) (use len in simp)
  ultimately show ?thesis
    using assms(3) h p v len st by (simp add: link_decode_def is_frame_def bs Let_def)
qed

definition demo_codec :: link_codec where
  "demo_codec = \<lparr>read_header = (\<lambda>bs. if length bs = 2 then Inr \<lparr>h_session = ''s'', h_generation = 1, h_route = RouteRelay,
        h_channel = \<lparr>channel_id = ''c'', connection_id = ''k''\<rparr>, h_lane = LaneStream, h_sequence = unat (bs ! 1),
        h_kind = (if bs ! 0 = 0 then CloseChannel ''endpoint-disconnected'' else if bs ! 0 = 1 then ChannelData ''client-to-worker'' ''raw''
          else if bs ! 0 = 2 then AcceptChannel 64
          else if bs ! 0 = 3 then OpenChannel \<lparr>grant_id = ''g'', grant_resource = KindBrowser, grant_rest = ''''\<rparr> ''n'' 64
          else OpenChannel \<lparr>grant_id = ''g'', grant_resource = KindTerminal, grant_rest = ''''\<rparr> ''n'' 64)\<rparr> else Inl HeaderNotJson),
     print_header = (\<lambda>h. [case h_kind h of CloseChannel _ \<Rightarrow> 0 | ChannelData _ _ \<Rightarrow> 1 | AcceptChannel _ \<Rightarrow> 2 | _ \<Rightarrow> 3, of_nat (h_sequence h)]),
     check_header = Inr\<rparr>"

end
