(* ===== verification/RateLimits.thy ===== *)
theory RateLimits
  imports Prelude
begin

text \<open>
  The rate limiters of the server: \<open>SlidingWindow\<close>, \<open>ByteWindow\<close> and \<open>ActiveLimit\<close>
  (\<^verbatim>\<open>workers/limits.rs\<close>) and \<open>AuthRateLimiter\<close> (\<^verbatim>\<open>auth/rate_limit.rs\<close>). Times are
  milliseconds as \<open>int\<close> (the sources use \<open>i64\<close>; no clock value comes near its bounds), byte
  counts and the call counter are \<open>u64\<close> with their checked and wrapping additions written out,
  and an out-of-range index is the value \<open>IndexOutOfBounds\<close>. The retry delay
  \<^verbatim>\<open>(ms as f64 / 1000.0).ceil().max(1.0)\<close> is the rounded-up division of integers, with which the
  floating-point expression agrees as long as the delay is below \<open>2 ^ 50\<close> milliseconds.

  The three windowed limiters keep the same promise, the locale \<open>window_limiter\<close>: over any run
  with a clock that does not go back, the weight admitted for a key in any sixty seconds is at most
  the limit, as long as the table of keys does not outgrow its retention bound.
\<close>

section \<open>Definitions\<close>

datatype panic = IndexOutOfBounds

definition retry_seconds :: "int \<Rightarrow> nat" where
  "retry_seconds ms = nat (max 1 (ceil_div ms 1000))"

fun evict :: "nat \<Rightarrow> (string, 'v) index_map \<Rightarrow> (string, 'v) index_map" where
  "evict cap [] = []"
| "evict cap ((k, v) # m) =
     (if length ((k, v) # m) > cap
      then if k = [] then (k, v) # m else evict cap m
      else (k, v) # m)"

definition entry_or_default :: "(string, 'v list) index_map \<Rightarrow> string \<Rightarrow> 'v list" where
  "entry_or_default m k = (case im_get m k of None \<Rightarrow> [] | Some v \<Rightarrow> v)"

record sliding_window =
  sw_attempts :: "(string, int list) index_map"
  sw_consumed :: nat
  sw_limit :: nat

definition sliding_new :: "nat \<Rightarrow> sliding_window" where
  "sliding_new lim = \<lparr>sw_attempts = [], sw_consumed = 0, sw_limit = lim\<rparr>"

definition sliding_sweep :: "(string, int list) index_map \<Rightarrow> int \<Rightarrow> (string, int list) index_map" where
  "sliding_sweep m cutoff = evict 20000 (im_retain (\<lambda>_ times. times \<noteq> [] \<and> last times > cutoff) m)"

definition sliding_table :: "sliding_window \<Rightarrow> int \<Rightarrow> (string, int list) index_map" where
  "sliding_table w now =
     (if wrapping_add_u64 (sw_consumed w) 1 mod 256 = 0
      then sliding_sweep (sw_attempts w) (now - 60000) else sw_attempts w)"

definition sliding_consume ::
  "sliding_window \<Rightarrow> string \<Rightarrow> int \<Rightarrow> panic + (sliding_window \<times> nat option)" where
  "sliding_consume w key now =
     (let cutoff = now - 60000;
          consumed = wrapping_add_u64 (sw_consumed w) 1;
          attempts = sliding_table w now;
          times = filter (\<lambda>t. t > cutoff) (entry_or_default attempts key);
          upd = (\<lambda>ts. w\<lparr>sw_attempts := im_insert key ts attempts, sw_consumed := consumed\<rparr>)
      in if length times \<ge> sw_limit w
         then (case times of
                 [] \<Rightarrow> Inl IndexOutOfBounds
               | t # _ \<Rightarrow> Inr (upd times, Some (retry_seconds (t + 60000 - now))))
         else Inr (upd (times @ [now]), None))"

record byte_window =
  bw_buckets :: "(string, (int \<times> nat) list) index_map"
  bw_consumed :: nat
  bw_limit :: nat

definition byte_new :: "nat \<Rightarrow> byte_window" where
  "byte_new lim = \<lparr>bw_buckets = [], bw_consumed = 0, bw_limit = lim\<rparr>"

definition byte_retry_after :: "byte_window \<Rightarrow> string \<Rightarrow> nat \<Rightarrow> int \<Rightarrow> nat option" where
  "byte_retry_after w key bytes now =
     (if bytes = 0 then None
      else
        let live = filter (\<lambda>(at, _). at > now - 60000) (entry_or_default (bw_buckets w) key);
            total = try_fold (\<lambda>s e. checked_add_u64 s (snd e)) 0 live
        in if bytes \<le> bw_limit w \<and>
              (case Option.bind total (\<lambda>t. checked_add_u64 t bytes) of
                 None \<Rightarrow> False | Some t \<Rightarrow> t \<le> bw_limit w)
           then None
           else Some (retry_seconds ((case live of [] \<Rightarrow> now | e # _ \<Rightarrow> fst e) + 60000 - now)))"

definition byte_sweep ::
  "(string, (int \<times> nat) list) index_map \<Rightarrow> int \<Rightarrow> (string, (int \<times> nat) list) index_map" where
  "byte_sweep m cutoff = evict 20000 (im_retain (\<lambda>_ bs. bs \<noteq> [] \<and> fst (last bs) > cutoff) m)"

definition byte_table :: "byte_window \<Rightarrow> int \<Rightarrow> (string, (int \<times> nat) list) index_map" where
  "byte_table w now =
     (if wrapping_add_u64 (bw_consumed w) 1 mod 256 = 0
      then byte_sweep (bw_buckets w) (now - 60000) else bw_buckets w)"

definition push_bucket :: "(int \<times> nat) list \<Rightarrow> int \<Rightarrow> nat \<Rightarrow> (int \<times> nat) list" where
  "push_bucket bs now bytes =
     (if bs \<noteq> [] \<and> fst (last bs) = now
      then butlast bs @ [(fst (last bs), wrapping_add_u64 (snd (last bs)) bytes)]
      else bs @ [(now, bytes)])"

definition byte_consume :: "byte_window \<Rightarrow> string \<Rightarrow> nat \<Rightarrow> int \<Rightarrow> byte_window \<times> nat option" where
  "byte_consume w key bytes now =
     (if bytes = 0 then (w, None)
      else case byte_retry_after w key bytes now of
        Some retry \<Rightarrow> (w, Some retry)
      | None \<Rightarrow>
          let cutoff = now - 60000;
              consumed = wrapping_add_u64 (bw_consumed w) 1;
              buckets = byte_table w now;
              entry = filter (\<lambda>(at, _). at > cutoff) (entry_or_default buckets key)
          in (w\<lparr>bw_buckets := im_insert key (push_bucket entry now bytes) buckets,
                bw_consumed := consumed\<rparr>, None))"

record active_limit =
  al_counts :: "(string, nat) index_map"
  al_limit :: nat

definition active_new :: "nat \<Rightarrow> active_limit" where
  "active_new lim = \<lparr>al_counts = [], al_limit = lim\<rparr>"

definition active_count :: "active_limit \<Rightarrow> string \<Rightarrow> nat" where
  "active_count a key = (case im_get (al_counts a) key of None \<Rightarrow> 0 | Some c \<Rightarrow> c)"

definition active_acquire :: "active_limit \<Rightarrow> string \<Rightarrow> active_limit \<times> bool" where
  "active_acquire a key =
     (let count = (case im_get (al_counts a) key of None \<Rightarrow> 0 | Some c \<Rightarrow> c)
      in if count \<ge> al_limit a then (a, False)
         else (a\<lparr>al_counts := im_insert key (count + 1) (al_counts a)\<rparr>, True))"

definition active_release :: "active_limit \<Rightarrow> string \<Rightarrow> active_limit" where
  "active_release a key =
     (if (case im_get (al_counts a) key of None \<Rightarrow> 1 | Some c \<Rightarrow> c) \<le> 1
      then a\<lparr>al_counts := im_remove key (al_counts a)\<rparr>
      else a\<lparr>al_counts := im_insert key (active_count a key - 1) (al_counts a)\<rparr>)"

definition active_total :: "active_limit \<Rightarrow> nat" where
  "active_total a = sum_list (map snd (al_counts a))"

record auth_limiter =
  ar_attempts :: "(string, int list) index_map"
  ar_order :: "string list"
  ar_consumed :: nat
  ar_limit :: nat
  ar_window_ms :: int

definition auth_new :: "nat \<Rightarrow> auth_limiter" where
  "auth_new lim =
     \<lparr>ar_attempts = [], ar_order = [], ar_consumed = 0, ar_limit = lim, ar_window_ms = 60000\<rparr>"

fun auth_evict :: "(string, int list) index_map \<Rightarrow> string list \<Rightarrow> (string, int list) index_map \<times> string list" where
  "auth_evict m [] = (m, [])"
| "auth_evict m (k # ks) =
     (if length m > 10000
      then if k = [] then (m, k # ks) else auth_evict (im_remove k m) ks
      else (m, k # ks))"

definition auth_sweep ::
  "(string, int list) index_map \<Rightarrow> string list \<Rightarrow> int \<Rightarrow> (string, int list) index_map \<times> string list" where
  "auth_sweep m order cutoff =
     (let kept = im_retain (\<lambda>_ vs. (if vs = [] then 0 else last vs) > cutoff) m
      in auth_evict kept (filter (\<lambda>k. im_get kept k \<noteq> None) order))"

definition auth_table :: "auth_limiter \<Rightarrow> int \<Rightarrow> (string, int list) index_map \<times> string list" where
  "auth_table a now =
     (if wrapping_add_u64 (ar_consumed a) 1 mod 256 = 0
      then auth_sweep (ar_attempts a) (ar_order a) (now - ar_window_ms a)
      else (ar_attempts a, ar_order a))"

definition auth_consume ::
  "auth_limiter \<Rightarrow> string \<Rightarrow> int \<Rightarrow> panic + (auth_limiter \<times> nat option)" where
  "auth_consume a key now =
     (let cutoff = now - ar_window_ms a;
          consumed = wrapping_add_u64 (ar_consumed a) 1;
          (m, order) = auth_table a now;
          (m, order) = (if im_get m key = None then (im_insert key [] m, order @ [key]) else (m, order));
          times = filter (\<lambda>t. t > cutoff) (entry_or_default m key);
          upd = (\<lambda>ts. a\<lparr>ar_attempts := im_insert key ts m, ar_order := order, ar_consumed := consumed\<rparr>)
      in if length times \<ge> ar_limit a
         then (case times of
                 [] \<Rightarrow> Inl IndexOutOfBounds
               | t # _ \<Rightarrow> Inr (upd times, Some (retry_seconds (t + ar_window_ms a - now))))
         else Inr (upd (times @ [now]), None))"

section \<open>The promise of a windowed limiter\<close>

text \<open>
  \<open>hist s k\<close> is what a limiter state remembers of a key, as (time, weight) pairs, and
  \<open>live h t\<close> its weight in the sixty seconds that end at \<open>t\<close>.
\<close>

definition live :: "(int \<times> nat) list \<Rightarrow> int \<Rightarrow> nat" where
  "live h t = sum_list (map snd (filter (\<lambda>(at, _). at > t - 60000) h))"

definition window_weight :: "(string \<times> int \<times> nat) list \<Rightarrow> string \<Rightarrow> int \<Rightarrow> nat" where
  "window_weight log k t =
     sum_list (map (\<lambda>(_, _, w). w) (filter (\<lambda>(j, at, _). j = k \<and> t - 60000 < at \<and> at \<le> t) log))"

fun run_limiter ::
  "('s \<Rightarrow> string \<Rightarrow> nat \<Rightarrow> int \<Rightarrow> 's \<times> bool) \<Rightarrow> 's \<Rightarrow> (string \<times> int \<times> nat) list \<Rightarrow> (string \<times> int \<times> nat) list" where
  "run_limiter step s [] = []"
| "run_limiter step s ((k, now, w) # evs) =
     (case step s k w now of
        (s', admitted) \<Rightarrow> (if admitted then [(k, now, w)] else []) @ run_limiter step s' evs)"

definition sliding_step :: "sliding_window \<Rightarrow> string \<Rightarrow> nat \<Rightarrow> int \<Rightarrow> sliding_window \<times> bool" where
  "sliding_step s k w now =
     (case sliding_consume s k now of
        Inl _ \<Rightarrow> (s, False)
      | Inr (s', r) \<Rightarrow> (s', r = None))"

definition byte_step :: "byte_window \<Rightarrow> string \<Rightarrow> nat \<Rightarrow> int \<Rightarrow> byte_window \<times> bool" where
  "byte_step s k w now = (case byte_consume s k w now of (s', r) \<Rightarrow> (s', r = None))"

definition auth_step :: "auth_limiter \<Rightarrow> string \<Rightarrow> nat \<Rightarrow> int \<Rightarrow> auth_limiter \<times> bool" where
  "auth_step s k w now =
     (case auth_consume s k now of
        Inl _ \<Rightarrow> (s, False)
      | Inr (s', r) \<Rightarrow> (s', r = None))"

lemma live_antimono: "t \<le> t' \<Longrightarrow> live h t' \<le> live h t"
  by (induction h) (auto simp: live_def)

lemma live_append [simp]: "live (h @ h') t = live h t + live h' t"
  by (simp add: live_def)

lemma live_simps [simp]:
  "live [] t = 0" "live ((at, w) # h) t = (if at > t - 60000 then w else 0) + live h t"
  by (simp_all add: live_def)

lemma live_filter: "c \<le> t \<Longrightarrow> live (filter (\<lambda>e. fst e > c - 60000) h) t = live h t"
  by (induction h) auto

lemma window_weight_simps [simp]:
  "window_weight [] k t = 0"
  "window_weight ((j, at, w) # log) k t =
     (if j = k \<and> t - 60000 < at \<and> at \<le> t then w else 0) + window_weight log k t"
  by (simp_all add: window_weight_def)

lemma window_weight_append [simp]:
  "window_weight (log @ log') k t = window_weight log k t + window_weight log' k t"
  by (simp add: window_weight_def)

definition step_sound ::
  "(string \<Rightarrow> (int \<times> nat) list) \<Rightarrow> (string \<Rightarrow> (int \<times> nat) list) \<Rightarrow> nat \<Rightarrow> string \<Rightarrow> nat \<Rightarrow> int \<Rightarrow> bool \<Rightarrow> bool" where
  "step_sound h h' lim k w now b \<longleftrightarrow>
     (\<forall>t j. now \<le> t \<longrightarrow> live (h' j) t = live (h j) t + (if b \<and> j = k \<and> now > t - 60000 then w else 0)) \<and>
     (b \<longrightarrow> w \<noteq> 0 \<longrightarrow> live (h k) now + w \<le> lim)"

lemma step_sound_idle: "\<not> b \<Longrightarrow> step_sound h h lim k w now b"
  by (simp add: step_sound_def)

text \<open>
  A limiter admits a weight only when the live weight leaves room for it, records exactly what it
  admits, and forgets nothing live; \<open>cap\<close> is how many keys it retains.
\<close>

locale window_limiter =
  fixes step :: "'s \<Rightarrow> string \<Rightarrow> nat \<Rightarrow> int \<Rightarrow> 's \<times> bool"
    and hist :: "'s \<Rightarrow> string \<Rightarrow> (int \<times> nat) list"
    and keys :: "'s \<Rightarrow> string set"
    and inv :: "'s \<Rightarrow> int \<Rightarrow> bool"
    and limit :: "'s \<Rightarrow> nat"
    and weight_ok :: "nat \<Rightarrow> bool"
    and cap :: nat
  assumes finite_keys: "inv s c \<Longrightarrow> finite (keys s)"
    and step_ok: "inv s c \<Longrightarrow> c \<le> now \<Longrightarrow> step s k w now = (s', b) \<Longrightarrow>
      inv s' now \<and> limit s' = limit s \<and> keys s' \<subseteq> insert k (keys s) \<and>
      (weight_ok w \<longrightarrow> card (keys s) \<le> cap \<longrightarrow> step_sound (hist s) (hist s') (limit s) k w now b)"
begin

lemma run_bound:
  assumes "inv s c" and "sorted (map (\<lambda>(_, at, _). at) evs)"
    and "\<forall>(_, at, w) \<in> set evs. c \<le> at \<and> weight_ok w"
    and "finite K" and "keys s \<union> (\<lambda>(k, _, _). k) ` set evs \<subseteq> K" and "card K \<le> cap"
    and "\<And>k t. window_weight log k t \<le> limit s"
    and "\<And>k t. c \<le> t \<Longrightarrow> live (hist s k) t = window_weight log k t"
  shows "window_weight (log @ run_limiter step s evs) k t \<le> limit s"
  using assms
proof (induction evs arbitrary: s c log)
  case Nil
  then show ?case by simp
next
  case (Cons e evs)
  obtain j now w where e: "e = (j, now, w)" by (cases e) auto
  obtain s' b where st: "step s j w now = (s', b)" by (cases "step s j w now") auto
  let ?log = "log @ (if b then [(j, now, w)] else [])"
  have now: "c \<le> now" and w: "weight_ok w" using Cons.prems(3) e by auto
  have card: "card (keys s) \<le> cap"
    using Cons.prems(4-6) by (meson Un_subset_iff card_mono le_trans)
  note ok = step_ok [OF Cons.prems(1) now st]
  have snd: "step_sound (hist s) (hist s') (limit s) j w now b" using ok w card by blast
  have lv: "live (hist s' k) t = window_weight ?log k t" if "now \<le> t" for k t
    using snd Cons.prems(8) [of t k] now that by (auto simp: step_sound_def)
  have bound: "window_weight ?log k t \<le> limit s" for k t
  proof (cases "b \<and> j = k \<and> t - 60000 < now \<and> now \<le> t \<and> w \<noteq> 0")
    case True
    then have "live (hist s k) now + w \<le> limit s" using snd by (simp add: step_sound_def)
    moreover have "window_weight log k t \<le> live (hist s k) now"
      using Cons.prems(8) [of t k] live_antimono [of now t "hist s k"] now True by auto
    ultimately show ?thesis using True by simp
  next
    case False
    then show ?thesis using Cons.prems(7) [of k t] by auto
  qed
  have "window_weight (?log @ run_limiter step s' evs) k t \<le> limit s'"
  proof (rule Cons.IH)
    show "inv s' now" using ok by blast
    show "sorted (map (\<lambda>(_, at, _). at) evs)" using Cons.prems(2) by simp
    show "\<forall>(_, at, w) \<in> set evs. now \<le> at \<and> weight_ok w"
      using Cons.prems(2,3) e by fastforce
    show "finite K" "card K \<le> cap" using Cons.prems(4,6) by simp_all
    show "keys s' \<union> (\<lambda>(k, _, _). k) ` set evs \<subseteq> K"
      using ok Cons.prems(5) e by auto
    show "window_weight ?log k t \<le> limit s'" for k t
      using bound ok by simp
    show "live (hist s' k) t = window_weight ?log k t" if "now \<le> t" for k t
      using lv that by blast
  qed
  then show ?case using e st ok by simp
qed

end

section \<open>Retention of keys\<close>

lemma im_get_retain:
  "im_wf m \<Longrightarrow> im_get (im_retain P m) k =
     (case im_get m k of None \<Rightarrow> None | Some v \<Rightarrow> if P k v then Some v else None)"
  unfolding im_get_def im_retain_def im_wf_def
  by (induction m) (auto simp: map_of_eq_None_iff split: option.splits)

lemma evict_small [simp]: "length m \<le> cap \<Longrightarrow> evict cap m = m"
  by (cases m) auto

lemma evict_suffix: "\<exists>pre. m = pre @ evict cap m"
proof (induction cap m rule: evict.induct)
  case (2 cap k v m)
  then obtain pre where "m = pre @ evict cap m" if "length m \<ge> cap" "k \<noteq> []"
    by (cases "length m \<ge> cap \<and> k \<noteq> []") auto
  then show ?case
    by (cases "length m \<ge> cap \<and> k \<noteq> []") (auto intro: exI [of _ "(k, v) # pre"] exI [of _ "[]"])
qed simp

lemma evict_subset: "set (evict cap m) \<subseteq> set m"
  using evict_suffix [of m cap] by (metis set_append Un_upper2)

lemma im_wf_evict: "im_wf m \<Longrightarrow> im_wf (evict cap m)"
  using evict_suffix [of m cap] unfolding im_wf_def by (metis distinct_append map_append)

lemma card_keys: "im_wf m \<Longrightarrow> card (fst ` set m) = length m"
  unfolding im_wf_def by (metis distinct_card length_map list.set_map)

lemma retain_subset: "set (im_retain P m) \<subseteq> set m"
  by (auto simp: im_retain_def)

lemma length_retain: "length (im_retain P m) \<le> length m"
  by (simp add: im_retain_def)

lemma entry_insert [simp]:
  "entry_or_default (im_insert k v m) j = (if j = k then v else entry_or_default m j)"
  by (simp add: entry_or_default_def im_get_def im_insert_def update_conv)

lemma keys_insert [simp]: "fst ` set (im_insert k v m) = insert k (fst ` set m)"
  using map_fst_update_keys [of k v m] by (simp add: im_insert_def)

lemma set_insert_entry:
  "im_wf m \<Longrightarrow> (j, u) \<in> set (im_insert k v m) \<Longrightarrow> (j, u) = (k, v) \<or> (j, u) \<in> set m"
  by (metis im.get_put im.wf_put im_get_eq_Some option.inject)

lemma entry_in_set: "entry_or_default m k = v \<Longrightarrow> v \<noteq> [] \<Longrightarrow> (k, v) \<in> set m"
  by (auto simp: entry_or_default_def im_get_def dest: map_of_SomeD split: option.splits)

text \<open>Every key's record is in time order and not newer than the clock.\<close>

definition record_ok :: "('v \<Rightarrow> int \<times> nat) \<Rightarrow> (string, 'v list) index_map \<Rightarrow> int \<Rightarrow> bool" where
  "record_ok f m c \<longleftrightarrow> im_wf m \<and>
     (\<forall>(k, vs) \<in> set m. sorted (map (fst \<circ> f) vs) \<and> (\<forall>v \<in> set vs. fst (f v) \<le> c))"

lemma record_ok_mono: "record_ok f m c \<Longrightarrow> c \<le> c' \<Longrightarrow> record_ok f m c'"
  unfolding record_ok_def by fastforce

lemma record_ok_subset: "record_ok f m c \<Longrightarrow> im_wf m' \<Longrightarrow> set m' \<subseteq> set m \<Longrightarrow> record_ok f m' c"
  unfolding record_ok_def by blast

lemma record_ok_entry:
  "record_ok f m c \<Longrightarrow> sorted (map (fst \<circ> f) (entry_or_default m k)) \<and>
     (\<forall>v \<in> set (entry_or_default m k). fst (f v) \<le> c)"
  using entry_in_set [of m k] unfolding record_ok_def by (cases "entry_or_default m k = []") fastforce+

lemma record_ok_insert:
  assumes "record_ok f m c" and "sorted (map (fst \<circ> f) vs)" and "\<forall>v \<in> set vs. fst (f v) \<le> c"
  shows "record_ok f (im_insert k vs m) c"
  using assms set_insert_entry [of m _ _ k vs] unfolding record_ok_def by (fastforce simp: im.wf_put)

lemma sorted_filter_snoc:
  assumes "sorted (map g vs)" and "\<forall>v \<in> set vs. g v \<le> g x"
  shows "sorted (map g (filter P vs @ [x]))"
  using assms by (auto simp: sorted_append sorted_filter)

lemma live_dead:
  assumes "sorted (map (fst \<circ> f) vs)" and "vs = [] \<or> fst (f (last vs)) \<le> now - 60000" and "now \<le> t"
  shows "live (map f vs) t = 0"
proof -
  have "fst (f v) \<le> t - 60000" if "v \<in> set vs" for v
  proof -
    from that obtain i where i: "v = vs ! i" "i < length vs" by (metis in_set_conv_nth)
    then have ne: "vs \<noteq> []" by auto
    have "fst (f (vs ! i)) \<le> fst (f (last vs))"
      using sorted_nth_mono [OF assms(1), of i "length vs - 1"] i ne by (simp add: last_conv_nth)
    with assms(2,3) i ne show ?thesis by simp
  qed
  then have "filter (\<lambda>(at, _). at > t - 60000) (map f vs) = []"
    by (force simp: filter_empty_conv split_beta)
  then show ?thesis by (simp add: live_def)
qed

lemma live_retain:
  assumes "record_ok f m c" and "now \<le> t"
    and "\<And>vs. \<not> P k vs \<Longrightarrow> vs = [] \<or> fst (f (last vs)) \<le> now - 60000"
  shows "live (map f (entry_or_default (im_retain P m) k)) t = live (map f (entry_or_default m k)) t"
proof (cases "im_get m k")
  case None
  with assms(1) show ?thesis by (simp add: entry_or_default_def im_get_retain record_ok_def)
next
  case (Some vs)
  have wf: "im_wf m" using assms(1) by (simp add: record_ok_def)
  have "sorted (map (fst \<circ> f) vs)" using record_ok_entry [OF assms(1), of k] Some
    by (simp add: entry_or_default_def)
  with assms(2) assms(3) [of vs] Some wf live_dead [of f vs now t]
  show ?thesis by (auto simp: entry_or_default_def im_get_retain)
qed

lemma live_map_filter:
  "now \<le> t \<Longrightarrow> live (map f (filter (\<lambda>v. fst (f v) > now - 60000) vs)) t = live (map f vs) t"
  using live_filter [of now t "map f vs"] by (simp add: filter_map comp_def)

section \<open>The limiters keep the promise\<close>

abbreviation sliding_hist :: "sliding_window \<Rightarrow> string \<Rightarrow> (int \<times> nat) list" where
  "sliding_hist s k \<equiv> map (\<lambda>t. (t, 1)) (entry_or_default (sw_attempts s) k)"

definition sliding_inv :: "sliding_window \<Rightarrow> int \<Rightarrow> bool" where
  "sliding_inv s c \<longleftrightarrow> record_ok (\<lambda>t. (t, 1)) (sw_attempts s) c"

lemma sliding_sweep_ok:
  assumes "record_ok (\<lambda>t. (t, 1)) m c"
  shows "record_ok (\<lambda>t. (t, 1)) (sliding_sweep m cutoff) c"
    and "set (sliding_sweep m cutoff) \<subseteq> set m"
proof -
  have "im_wf m" using assms by (simp add: record_ok_def)
  then have wf: "im_wf (sliding_sweep m cutoff)"
    unfolding sliding_sweep_def by (intro im_wf_evict im_wf_retain)
  show sub: "set (sliding_sweep m cutoff) \<subseteq> set m"
    unfolding sliding_sweep_def by (rule subset_trans [OF evict_subset retain_subset])
  show "record_ok (\<lambda>t. (t, 1)) (sliding_sweep m cutoff) c"
    using assms wf sub by (rule record_ok_subset)
qed

lemma sliding_sweep_live:
  assumes "record_ok (\<lambda>t. (t, 1)) m c" and "length m \<le> 20000" and "now \<le> t"
  shows "live (map (\<lambda>t. (t, 1)) (entry_or_default (sliding_sweep m (now - 60000)) k)) t =
    live (map (\<lambda>t. (t, 1)) (entry_or_default m k)) t"
proof -
  let ?P = "\<lambda>_ times. times \<noteq> [] \<and> last times > now - 60000"
  have "evict 20000 (im_retain ?P m) = im_retain ?P m"
    using length_retain [of ?P m] assms(2) by (intro evict_small) linarith
  moreover have "live (map (\<lambda>t. (t, 1)) (entry_or_default (im_retain ?P m) k)) t =
    live (map (\<lambda>t. (t, 1)) (entry_or_default m k)) t"
    using assms(1,3) by (rule live_retain) auto
  ultimately show ?thesis by (simp add: sliding_sweep_def)
qed

text \<open>
  What the promise needs of one call, for any limiter whose table holds (time, weight) records:
  the new table is the old one, swept of dead records, with the key's live records extended.
\<close>

lemma record_step:
  assumes m: "record_ok f m now" and M: "set m \<subseteq> set M"
    and vs: "vs = filter (\<lambda>v. fst (f v) > now - 60000) (entry_or_default m k)"
    and x: "b \<Longrightarrow> fst (f x) = now" and new: "m' = im_insert k (if b then vs @ [x] else vs) m"
  shows "record_ok f m' now" and "fst ` set m' \<subseteq> insert k (fst ` set M)"
    and "now \<le> t \<Longrightarrow> live (map f (entry_or_default m' j)) t =
      live (map f (entry_or_default m j)) t + (if b \<and> j = k \<and> now > t - 60000 then snd (f x) else 0)"
proof -
  note e = record_ok_entry [OF m, of k]
  have "sorted (map (fst \<circ> f) (if b then vs @ [x] else vs))"
    using e sorted_filter_snoc [of "fst \<circ> f" "entry_or_default m k" x] x vs
    by (auto simp: sorted_filter)
  then show "record_ok f m' now"
    unfolding new by (rule record_ok_insert [OF m]) (use e vs x in auto)
  show "fst ` set m' \<subseteq> insert k (fst ` set M)" using M new by auto
  assume t: "now \<le> t"
  have "live (map f vs) t = live (map f (entry_or_default m k)) t"
    unfolding vs by (rule live_map_filter [OF t])
  moreover have "live [f x] t = (if now > t - 60000 then snd (f x) else 0)" if b
    using x [OF that] by (cases "f x") simp
  ultimately show "live (map f (entry_or_default m' j)) t =
      live (map f (entry_or_default m j)) t + (if b \<and> j = k \<and> now > t - 60000 then snd (f x) else 0)"
    by (auto simp: new)
qed

lemma live_all: "\<forall>v \<in> set vs. v > now - 60000 \<Longrightarrow> live (map (\<lambda>t. (t, 1)) vs) now = length vs"
  by (induction vs) auto

lemma sliding_step_eq:
  "sliding_step s k w now =
     (let m = sliding_table s now; vs = filter (\<lambda>t. t > now - 60000) (entry_or_default m k);
          upd = (\<lambda>ts. s\<lparr>sw_attempts := im_insert k ts m, sw_consumed := wrapping_add_u64 (sw_consumed s) 1\<rparr>)
      in if sw_limit s \<le> length vs then (if vs = [] then (s, False) else (upd vs, False))
         else (upd (vs @ [now]), True))"
  by (simp add: sliding_step_def sliding_consume_def Let_def split: list.splits)

lemma sliding_table_ok:
  assumes "sliding_inv s c" and "c \<le> now"
  shows "record_ok (\<lambda>t. (t, 1)) (sliding_table s now) now"
    and "set (sliding_table s now) \<subseteq> set (sw_attempts s)"
    and "card (fst ` set (sw_attempts s)) \<le> 20000 \<Longrightarrow> now \<le> t \<Longrightarrow>
      live (map (\<lambda>t. (t, 1)) (entry_or_default (sliding_table s now) j)) t = live (sliding_hist s j) t"
proof -
  have ok: "record_ok (\<lambda>t. (t, 1)) (sw_attempts s) now"
    using assms record_ok_mono unfolding sliding_inv_def by blast
  then show "record_ok (\<lambda>t. (t, 1)) (sliding_table s now) now"
    and "set (sliding_table s now) \<subseteq> set (sw_attempts s)"
    using sliding_sweep_ok by (auto simp: sliding_table_def)
  have "length (sw_attempts s) = card (fst ` set (sw_attempts s))"
    using ok by (simp add: record_ok_def card_keys)
  then show "card (fst ` set (sw_attempts s)) \<le> 20000 \<Longrightarrow> now \<le> t \<Longrightarrow>
      live (map (\<lambda>t. (t, 1)) (entry_or_default (sliding_table s now) j)) t = live (sliding_hist s j) t"
    using sliding_sweep_live [OF ok] by (simp add: sliding_table_def)
qed

lemma sliding_step_record:
  assumes "sliding_step s k w now = (s', b)"
  obtains "s' = s" "\<not> b"
  | vs where "vs = filter (\<lambda>t. t > now - 60000) (entry_or_default (sliding_table s now) k)"
      "sw_attempts s' = im_insert k (if b then vs @ [now] else vs) (sliding_table s now)"
      "b \<longleftrightarrow> length vs < sw_limit s" "sw_limit s' = sw_limit s"
  using assms unfolding sliding_step_eq Let_def by (auto split: if_splits)

lemma sliding_step_sound:
  assumes inv: "sliding_inv s c" "c \<le> now" and st: "sliding_step s k w now = (s', b)"
  shows "sliding_inv s' now \<and> sw_limit s' = sw_limit s \<and>
    fst ` set (sw_attempts s') \<subseteq> insert k (fst ` set (sw_attempts s)) \<and>
    (card (fst ` set (sw_attempts s)) \<le> 20000 \<longrightarrow>
      step_sound (sliding_hist s) (sliding_hist s') (sw_limit s) k 1 now b)"
proof (cases "s' = s \<and> \<not> b")
  case True
  then show ?thesis using inv record_ok_mono by (auto simp: sliding_inv_def step_sound_idle)
next
  case False
  note table = sliding_table_ok [OF inv]
  from False obtain vs where vs: "vs = filter (\<lambda>t. t > now - 60000) (entry_or_default (sliding_table s now) k)"
    and new: "sw_attempts s' = im_insert k (if b then vs @ [now] else vs) (sliding_table s now)"
    and adm: "b \<longleftrightarrow> length vs < sw_limit s" and lim: "sw_limit s' = sw_limit s"
    using sliding_step_record [OF st] by blast
  note rec = record_step [where f = "\<lambda>t. (t, 1)" and x = now, OF table(1,2) _ _ new, simplified, OF vs]
  have "live (map (\<lambda>t. (t, 1)) vs) now = length vs" using vs by (intro live_all) auto
  moreover have "live (map (\<lambda>t. (t, 1)) vs) now = live (map (\<lambda>t. (t, 1)) (entry_or_default (sliding_table s now) k)) now"
    using live_map_filter [of now now "\<lambda>t. (t, 1)"] vs by simp
  ultimately show ?thesis
    using rec table(3) adm lim by (simp add: sliding_inv_def step_sound_def)
qed

interpretation sliding: window_limiter sliding_step sliding_hist "\<lambda>s. fst ` set (sw_attempts s)"
  sliding_inv sw_limit "\<lambda>w. w = 1" 20000
  by unfold_locales (simp, blast dest: sliding_step_sound)

subsection \<open>The byte window\<close>

abbreviation byte_hist :: "byte_window \<Rightarrow> string \<Rightarrow> (int \<times> nat) list" where
  "byte_hist s k \<equiv> entry_or_default (bw_buckets s) k"

definition byte_inv :: "byte_window \<Rightarrow> int \<Rightarrow> bool" where
  "byte_inv s c \<longleftrightarrow> record_ok (\<lambda>e. e) (bw_buckets s) c"

lemma byte_retry_after_None:
  "byte_retry_after w k bytes now = None \<longleftrightarrow>
     bytes = 0 \<or> live (byte_hist w k) now + bytes \<le> min (bw_limit w) u64_max"
proof -
  let ?live = "filter (\<lambda>(at, _). at > now - 60000) (byte_hist w k)"
  have total: "try_fold (\<lambda>s e. checked_add_u64 s (snd e)) 0 ?live =
    (if ?live = [] \<or> sum_list (map snd ?live) \<le> u64_max then Some (sum_list (map snd ?live)) else None)"
    using try_fold_checked_add [of snd 0 ?live]
    by (metis (no_types, lifting) add_0 not_None_eq)
  show ?thesis
    unfolding byte_retry_after_def Let_def total live_def
    by (auto simp: checked_add_u64_def split: if_splits)
qed

lemma byte_sweep_ok:
  assumes "record_ok (\<lambda>e. e) m c"
  shows "record_ok (\<lambda>e. e) (byte_sweep m cutoff) c" and "set (byte_sweep m cutoff) \<subseteq> set m"
proof -
  have "im_wf m" using assms by (simp add: record_ok_def)
  then have wf: "im_wf (byte_sweep m cutoff)"
    unfolding byte_sweep_def by (intro im_wf_evict im_wf_retain)
  show sub: "set (byte_sweep m cutoff) \<subseteq> set m"
    unfolding byte_sweep_def by (rule subset_trans [OF evict_subset retain_subset])
  show "record_ok (\<lambda>e. e) (byte_sweep m cutoff) c"
    using assms wf sub by (rule record_ok_subset)
qed

lemma byte_sweep_live:
  assumes "record_ok (\<lambda>e. e) m c" and "length m \<le> 20000" and "now \<le> t"
  shows "live (entry_or_default (byte_sweep m (now - 60000)) k) t = live (entry_or_default m k) t"
proof -
  let ?P = "\<lambda>_ bs. bs \<noteq> [] \<and> fst (last bs) > now - 60000"
  have "evict 20000 (im_retain ?P m) = im_retain ?P m"
    using length_retain [of ?P m] assms(2) by (intro evict_small) linarith
  moreover have "live (map (\<lambda>e. e) (entry_or_default (im_retain ?P m) k)) t =
    live (map (\<lambda>e. e) (entry_or_default m k)) t"
    using assms(1,3) by (rule live_retain) auto
  ultimately show ?thesis by (simp add: byte_sweep_def)
qed

lemma byte_table_ok:
  assumes "byte_inv s c" and "c \<le> now"
  shows "record_ok (\<lambda>e. e) (byte_table s now) now"
    and "set (byte_table s now) \<subseteq> set (bw_buckets s)"
    and "card (fst ` set (bw_buckets s)) \<le> 20000 \<Longrightarrow> now \<le> t \<Longrightarrow>
      live (entry_or_default (byte_table s now) j) t = live (byte_hist s j) t"
proof -
  have ok: "record_ok (\<lambda>e. e) (bw_buckets s) now"
    using assms record_ok_mono unfolding byte_inv_def by blast
  then show "record_ok (\<lambda>e. e) (byte_table s now) now"
    and "set (byte_table s now) \<subseteq> set (bw_buckets s)"
    using byte_sweep_ok by (auto simp: byte_table_def)
  have "length (bw_buckets s) = card (fst ` set (bw_buckets s))"
    using ok by (simp add: record_ok_def card_keys)
  then show "card (fst ` set (bw_buckets s)) \<le> 20000 \<Longrightarrow> now \<le> t \<Longrightarrow>
      live (entry_or_default (byte_table s now) j) t = live (byte_hist s j) t"
    using byte_sweep_live [OF ok] by (simp add: byte_table_def)
qed

lemma push_bucket_record:
  assumes "sorted (map fst vs)" and "\<forall>v \<in> set vs. fst v \<le> now"
  shows "sorted (map fst (push_bucket vs now bytes))" and "\<forall>v \<in> set (push_bucket vs now bytes). fst v \<le> now"
  using assms by (cases vs rule: rev_cases; auto simp: push_bucket_def sorted_append)+

lemma live_push_bucket:
  "sum_list (map snd vs) + bytes \<le> u64_max \<Longrightarrow>
     live (push_bucket vs now bytes) t = live vs t + (if now > t - 60000 then bytes else 0)"
  by (cases vs rule: rev_cases) (auto simp: push_bucket_def wrapping_add_u64_def)

lemma live_of_filter: "sum_list (map snd (filter (\<lambda>(at, _). at > now - 60000) vs)) = live vs now"
  by (simp add: live_def)

lemma live_filter_pairs: "now \<le> t \<Longrightarrow> live (filter (\<lambda>(at, _). at > now - 60000) vs) t = live vs t"
  using live_filter [of now t vs] by (simp add: case_prod_unfold)

lemma byte_step_eq:
  "byte_step s k w now =
     (if w = 0 then (s, True)
      else if byte_retry_after s k w now = None
      then (s\<lparr>bw_buckets := im_insert k (push_bucket (filter (\<lambda>(at, _). at > now - 60000)
                (entry_or_default (byte_table s now) k)) now w) (byte_table s now),
              bw_consumed := wrapping_add_u64 (bw_consumed s) 1\<rparr>, True)
      else (s, False))"
  by (simp add: byte_step_def byte_consume_def Let_def split: option.splits)

lemma byte_step_sound:
  assumes inv: "byte_inv s c" "c \<le> now" and st: "byte_step s k w now = (s', b)"
  shows "byte_inv s' now \<and> bw_limit s' = bw_limit s \<and>
    fst ` set (bw_buckets s') \<subseteq> insert k (fst ` set (bw_buckets s)) \<and>
    (card (fst ` set (bw_buckets s)) \<le> 20000 \<longrightarrow>
      step_sound (byte_hist s) (byte_hist s') (bw_limit s) k w now b)"
proof (cases "w \<noteq> 0 \<and> byte_retry_after s k w now = None")
  case False
  then have "s' = s" and "b \<longrightarrow> w = 0" using st by (auto simp: byte_step_eq split: if_splits)
  then show ?thesis using inv record_ok_mono by (auto simp: byte_inv_def step_sound_def)
next
  case True
  note table = byte_table_ok [OF inv]
  let ?vs = "filter (\<lambda>(at, _). at > now - 60000) (entry_or_default (byte_table s now) k)"
  have s': "bw_buckets s' = im_insert k (push_bucket ?vs now w) (byte_table s now)"
    "bw_limit s' = bw_limit s" "b"
    using True st by (auto simp: byte_step_eq)
  have room: "live (byte_hist s k) now + w \<le> min (bw_limit s) u64_max"
    using True byte_retry_after_None [of s k w now] by auto
  have e: "sorted (map fst (entry_or_default (byte_table s now) k))"
    "\<forall>v \<in> set (entry_or_default (byte_table s now) k). fst v \<le> now"
    using record_ok_entry [OF table(1), of k] by (simp_all add: comp_def)
  have vs: "sorted (map fst ?vs)" "\<forall>v \<in> set ?vs. fst v \<le> now"
    using e by (blast intro: sorted_filter) (use e in simp)
  have "record_ok (\<lambda>e. e) (bw_buckets s') now"
    unfolding s'(1) using push_bucket_record [OF vs] by (intro record_ok_insert [OF table(1)]) (auto simp: comp_def)
  moreover have "live (byte_hist s' j) t = live (byte_hist s j) t + (if j = k \<and> now > t - 60000 then w else 0)"
    if "card (fst ` set (bw_buckets s)) \<le> 20000" "now \<le> t" for j t
  proof -
    have "sum_list (map snd ?vs) + w \<le> u64_max"
      using room table(3) [OF that(1), of now k] by (simp add: live_of_filter)
    then show ?thesis using table(3) [OF that] s'(1) that(2)
      by (simp add: live_push_bucket live_filter_pairs)
  qed
  ultimately show ?thesis using s' room table(2) by (auto simp: byte_inv_def step_sound_def)
qed

interpretation byte: window_limiter byte_step byte_hist "\<lambda>s. fst ` set (bw_buckets s)"
  byte_inv bw_limit "\<lambda>w. True" 20000
  by unfold_locales (simp, blast dest: byte_step_sound)

subsection \<open>The authentication limiter\<close>

abbreviation auth_hist :: "auth_limiter \<Rightarrow> string \<Rightarrow> (int \<times> nat) list" where
  "auth_hist s k \<equiv> map (\<lambda>t. (t, 1)) (entry_or_default (ar_attempts s) k)"

definition auth_inv :: "auth_limiter \<Rightarrow> int \<Rightarrow> bool" where
  "auth_inv s c \<longleftrightarrow> record_ok (\<lambda>t. (t, 1)) (ar_attempts s) c \<and> ar_window_ms s = 60000 \<and>
     distinct (ar_order s) \<and> set (ar_order s) = fst ` set (ar_attempts s)"

lemma keys_remove: "fst ` set (im_remove k m) = fst ` set m - {k}"
  by (auto simp: im_remove_def AList.delete_eq image_iff)

lemma auth_evict_ok:
  assumes "im_wf m" and "distinct order" and "set order = fst ` set m" and "auth_evict m order = (m', order')"
  shows "im_wf m' \<and> set m' \<subseteq> set m \<and> distinct order' \<and> set order' = fst ` set m' \<and>
    (length m \<le> 10000 \<longrightarrow> m' = m) \<and> (length m' > 10000 \<longrightarrow> hd order' = [])"
  using assms
proof (induction m order rule: auth_evict.induct)
  case (1 m)
  then show ?case by auto
next
  case (2 m k ks)
  show ?case
  proof (cases "length m > 10000 \<and> k \<noteq> []")
    case True
    have "im_wf (im_remove k m)" using 2 by (simp add: im.wf_del)
    moreover have "set ks = fst ` set (im_remove k m)" using 2 by (auto simp: keys_remove)
    moreover have "set (im_remove k m) \<subseteq> set m" by (auto simp: im_remove_def AList.delete_eq)
    ultimately show ?thesis using 2 True by auto
  next
    case False
    then have "m' = m" "order' = k # ks" using 2(5) by (auto split: if_splits)
    then show ?thesis using 2(2-4) False by simp
  qed
qed

lemma auth_table_ok:
  assumes "auth_inv s c" and "c \<le> now" and "auth_table s now = (m, order)"
  shows "record_ok (\<lambda>t. (t, 1)) m now \<and> set m \<subseteq> set (ar_attempts s) \<and>
    distinct order \<and> set order = fst ` set m \<and>
    (card (fst ` set (ar_attempts s)) \<le> 10000 \<longrightarrow> (\<forall>t j. now \<le> t \<longrightarrow>
      live (map (\<lambda>t. (t, 1)) (entry_or_default m j)) t = live (auth_hist s j) t))"
proof (cases "wrapping_add_u64 (ar_consumed s) 1 mod 256 = 0")
  case False
  then show ?thesis using assms record_ok_mono by (auto simp: auth_table_def auth_inv_def)
next
  case True
  let ?P = "\<lambda>_ vs. (if vs = [] then 0 else last vs) > now - 60000"
  let ?kept = "im_retain ?P (ar_attempts s)"
  let ?ks = "filter (\<lambda>k. im_get ?kept k \<noteq> None) (ar_order s)"
  have ok: "record_ok (\<lambda>t. (t, 1)) (ar_attempts s) now"
    using assms record_ok_mono unfolding auth_inv_def by blast
  then have wf: "im_wf (ar_attempts s)" "im_wf ?kept" by (simp_all add: record_ok_def im_wf_retain)
  have sub: "set ?kept \<subseteq> set (ar_attempts s)" by (rule retain_subset)
  have ev: "auth_evict ?kept ?ks = (m, order)"
    using assms(1,3) True by (simp add: auth_table_def auth_sweep_def auth_inv_def Let_def)
  have "set ?ks = fst ` set (ar_attempts s) \<inter> fst ` set ?kept"
    using assms(1) by (auto simp: auth_inv_def im_get_None_iff)
  then have "set ?ks = fst ` set ?kept" using image_mono [OF sub, of fst] by blast
  moreover have "distinct ?ks" using assms(1) by (simp add: auth_inv_def)
  ultimately have ev_ok: "im_wf m \<and> set m \<subseteq> set ?kept \<and> distinct order \<and> set order = fst ` set m \<and>
    (length ?kept \<le> 10000 \<longrightarrow> m = ?kept)"
    using auth_evict_ok [OF wf(2) _ _ ev] by blast
  have "live (map (\<lambda>t. (t, 1)) (entry_or_default ?kept j)) t = live (auth_hist s j) t" if "now \<le> t" for t j
    using ok that by (rule live_retain) (auto split: if_splits)
  moreover have "length ?kept \<le> card (fst ` set (ar_attempts s))"
    using length_retain [of ?P "ar_attempts s"] wf(1) by (simp add: card_keys)
  ultimately show ?thesis
    using ev_ok record_ok_subset [OF ok, of m] sub by auto
qed

lemma auth_step_eq:
  assumes "auth_table s now = (m, order)"
  shows "auth_step s k w now =
     (let vs = filter (\<lambda>t. t > now - ar_window_ms s) (entry_or_default m k);
          upd = (\<lambda>ts. s\<lparr>ar_attempts := im_insert k ts (if im_get m k = None then im_insert k [] m else m),
                        ar_order := (if im_get m k = None then order @ [k] else order),
                        ar_consumed := wrapping_add_u64 (ar_consumed s) 1\<rparr>)
      in if ar_limit s \<le> length vs then (if vs = [] then (s, False) else (upd vs, False))
         else (upd (vs @ [now]), True))"
  using assms
  by (cases "im_get m k"; simp add: auth_step_def auth_consume_def Let_def entry_or_default_def [of m] split: list.splits)

lemma auth_step_record:
  assumes "auth_step s k w now = (s', b)" and "auth_table s now = (m, order)" and "ar_window_ms s = 60000"
  obtains "s' = s" "\<not> b"
  | vs m' where "m' = (if im_get m k = None then im_insert k [] m else m)"
      "vs = filter (\<lambda>t. t > now - 60000) (entry_or_default m' k)"
      "ar_attempts s' = im_insert k (if b then vs @ [now] else vs) m'"
      "ar_order s' = (if im_get m k = None then order @ [k] else order)"
      "b \<longleftrightarrow> length vs < ar_limit s" "ar_limit s' = ar_limit s" "ar_window_ms s' = 60000"
proof -
  have "entry_or_default (if im_get m k = None then im_insert k [] m else m) k = entry_or_default m k"
    by (simp add: entry_or_default_def [of m])
  then show thesis using assms that unfolding auth_step_eq [OF assms(2)] Let_def
    by (auto split: if_splits)
qed

lemma auth_step_sound:
  assumes inv: "auth_inv s c" "c \<le> now" and st: "auth_step s k w now = (s', b)"
  shows "auth_inv s' now \<and> ar_limit s' = ar_limit s \<and>
    fst ` set (ar_attempts s') \<subseteq> insert k (fst ` set (ar_attempts s)) \<and>
    (card (fst ` set (ar_attempts s)) \<le> 10000 \<longrightarrow>
      step_sound (auth_hist s) (auth_hist s') (ar_limit s) k 1 now b)"
proof (cases "s' = s \<and> \<not> b")
  case True
  then show ?thesis using inv record_ok_mono by (auto simp: auth_inv_def step_sound_idle)
next
  case False
  obtain m order where tab: "auth_table s now = (m, order)" by (cases "auth_table s now")
  note table = auth_table_ok [OF inv tab]
  have ms: "ar_window_ms s = 60000" using inv by (simp add: auth_inv_def)
  from False obtain vs m' where m': "m' = (if im_get m k = None then im_insert k [] m else m)"
    and vs: "vs = filter (\<lambda>t. t > now - 60000) (entry_or_default m' k)"
    and new: "ar_attempts s' = im_insert k (if b then vs @ [now] else vs) m'"
    and ord: "ar_order s' = (if im_get m k = None then order @ [k] else order)"
    and adm: "b \<longleftrightarrow> length vs < ar_limit s" and lim: "ar_limit s' = ar_limit s" "ar_window_ms s' = 60000"
    using auth_step_record [OF st tab ms] by blast
  have m'_ok: "record_ok (\<lambda>t. (t, 1)) m' now"
    using table record_ok_insert [of "\<lambda>t. (t, 1)" m now "[]" k] m' by auto
  have ent: "entry_or_default m' j = entry_or_default m j" for j
    using m' by (auto simp: entry_or_default_def im_get_def im_insert_def update_conv)
  note rec = record_step [where f = "\<lambda>t. (t, 1)" and x = now, OF m'_ok subset_refl _ _ new, simplified, OF vs]
  have len: "live (map (\<lambda>t. (t, 1)) (entry_or_default m k)) now = length vs"
    using live_all [of vs now] live_map_filter [of now now "\<lambda>t. (t, 1)" "entry_or_default m' k"] vs
    by (simp add: ent)
  have "fst ` set (ar_attempts s') = insert k (fst ` set m)" using new m' by auto
  moreover have "set (ar_order s') = insert k (fst ` set m)" "distinct (ar_order s')"
    using ord table by (auto simp: im_get_None_iff im_get_eq_Some record_ok_def dest: map_of_SomeD)
  ultimately show ?thesis using rec table ent len adm lim by (auto simp: auth_inv_def step_sound_def)
qed

interpretation auth: window_limiter auth_step auth_hist "\<lambda>s. fst ` set (ar_attempts s)"
  auth_inv ar_limit "\<lambda>w. w = 1" 10000
  by unfold_locales (simp, blast dest: auth_step_sound)

section \<open>Active counts\<close>

text \<open>An active limit counts its holders: acquisition adds one below the limit, release takes one away.\<close>

definition active_inv :: "active_limit \<Rightarrow> bool" where
  "active_inv a \<longleftrightarrow> im_wf (al_counts a) \<and> (\<forall>k. 0 \<notin> set (map snd (al_counts a)) \<and> active_count a k \<le> al_limit a)"

lemma active_counts_insert:
  assumes "im_wf m" and "(case im_get m k of None \<Rightarrow> 0 | Some c \<Rightarrow> c) = (c::nat)"
  shows "sum_list (map snd (im_insert k v m)) + c = sum_list (map snd m) + v"
  using assms
proof (induction m)
  case (Cons e m)
  show ?case
  proof (cases "fst e = k")
    case True
    with Cons.prems show ?thesis by (cases e) (auto simp: im_insert_def im_get_def)
  next
    case False
    with Cons show ?thesis by (cases e) (auto simp: im_insert_def im_get_def im_wf_def)
  qed
qed (simp add: im_insert_def im_get_def)

lemma active_counts_remove:
  assumes "im_wf m"
  shows "sum_list (map snd (im_remove k m)) + (case im_get m k of None \<Rightarrow> 0 | Some c \<Rightarrow> c) = sum_list (map snd (m :: (string \<times> nat) list))"
  using assms
proof (induction m)
  case (Cons e m)
  have "im_remove k m = m" if "fst e = k"
    using Cons.prems that by (auto simp: im_remove_def im_wf_def)
  with Cons show ?case by (cases e) (auto simp: im_remove_def im_get_def im_wf_def)
qed (simp add: im_remove_def im_get_def)

lemma insert_values: "im_wf m \<Longrightarrow> set (map snd (im_insert k v m)) \<subseteq> insert v (set (map snd m))"
  using set_insert_entry [of m _ _ k v] by fastforce

lemma remove_values: "set (map snd (im_remove k m)) \<subseteq> set (map snd m)"
  by (auto simp: im_remove_def AList.delete_eq)

lemma active_new_inv: "active_inv (active_new lim)" "active_count (active_new lim) k = 0"
  "active_total (active_new lim) = 0"
  by (simp_all add: active_inv_def active_new_def active_count_def active_total_def im_get_def im_wf_def)

lemma active_acquire_ok:
  assumes "active_inv a" and "active_acquire a k = (a', b)"
  shows "active_inv a' \<and> al_limit a' = al_limit a \<and>
    (\<forall>j. active_count a' j = active_count a j + (if b \<and> j = k then 1 else 0)) \<and>
    active_total a' = active_total a + (if b then 1 else 0) \<and>
    (b \<longleftrightarrow> active_count a k < al_limit a)"
proof (cases "active_count a k < al_limit a")
  case False
  then show ?thesis using assms by (auto simp: active_acquire_def active_count_def Let_def)
next
  case True
  then have a': "a' = a\<lparr>al_counts := im_insert k (Suc (active_count a k)) (al_counts a)\<rparr>" "b"
    using assms(2) by (auto simp: active_acquire_def active_count_def Let_def)
  have wf: "im_wf (al_counts a)" using assms(1) by (simp add: active_inv_def)
  have "active_total a' = Suc (active_total a)"
    using active_counts_insert [OF wf refl, of k "Suc (active_count a k)"] a'
    by (simp add: active_total_def active_count_def)
  moreover have "active_count a' j = active_count a j + (if j = k then 1 else 0)" for j
    using a' by (auto simp: active_count_def im.get_put [OF wf])
  moreover have "0 \<notin> set (map snd (al_counts a'))"
    using insert_values [OF wf, of k "Suc (active_count a k)"] a' assms(1) by (auto simp: active_inv_def)
  moreover have "im_wf (al_counts a')" using a' wf by (simp add: im.wf_put)
  ultimately show ?thesis using assms(1) a' True by (auto simp: active_inv_def)
qed

lemma active_release_ok:
  assumes "active_inv a"
  shows "active_inv (active_release a k) \<and> al_limit (active_release a k) = al_limit a \<and>
    (\<forall>j. active_count (active_release a k) j = active_count a j - (if j = k then 1 else 0)) \<and>
    (active_count a k > 0 \<longrightarrow> Suc (active_total (active_release a k)) = active_total a)"
proof -
  have wf: "im_wf (al_counts a)" and nz: "0 \<notin> set (map snd (al_counts a))"
    using assms by (simp_all add: active_inv_def)
  have pos: "im_get (al_counts a) k \<noteq> Some 0"
    using nz im_get_eq_Some [OF wf, of k 0] by force
  show ?thesis
  proof (cases "(case im_get (al_counts a) k of None \<Rightarrow> 1 | Some c \<Rightarrow> c) \<le> 1")
    case True
    then have a': "active_release a k = a\<lparr>al_counts := im_remove k (al_counts a)\<rparr>"
      and c: "active_count a k \<le> 1"
      by (auto simp: active_release_def active_count_def split: option.splits)
    have "sum_list (map snd (im_remove k (al_counts a))) + active_count a k = active_total a"
      using active_counts_remove [OF wf, of k] by (simp add: active_count_def active_total_def)
    moreover have "active_count (active_release a k) j = active_count a j - (if j = k then 1 else 0)" for j
      using a' c by (auto simp: active_count_def im.get_del [OF wf])
    moreover have "0 \<notin> set (map snd (im_remove k (al_counts a)))" using remove_values [of k "al_counts a"] nz by blast
    ultimately show ?thesis using assms a' c wf
      by (auto simp: active_inv_def active_total_def im.wf_del intro: diff_le_self le_trans)
  next
    case False
    then have a': "active_release a k = a\<lparr>al_counts := im_insert k (active_count a k - 1) (al_counts a)\<rparr>"
      and c: "active_count a k > 1"
      by (auto simp: active_release_def active_count_def split: option.splits)
    have "sum_list (map snd (im_insert k (active_count a k - 1) (al_counts a))) + active_count a k =
      active_total a + (active_count a k - 1)"
      using active_counts_insert [OF wf refl, of k "active_count a k - 1"] by (simp add: active_count_def active_total_def)
    moreover have "active_count (active_release a k) j = active_count a j - (if j = k then 1 else 0)" for j
      using a' c by (auto simp: active_count_def im.get_put [OF wf])
    moreover have "0 \<notin> set (map snd (im_insert k (active_count a k - 1) (al_counts a)))"
      using insert_values [OF wf, of k "active_count a k - 1"] nz c by auto
    ultimately show ?thesis using assms a' c wf
      by (auto simp: active_inv_def active_total_def im.wf_put intro: diff_le_self le_trans)
  qed
qed

section \<open>Properties\<close>

lemmas limiter_eval = sliding_table_def byte_table_def auth_table_def entry_or_default_def im_get_def
  im_insert_def wrapping_add_u64_def push_bucket_def Let_def

lemma entry_of_subset:
  assumes "im_wf m" and "im_wf m'" and "set m' \<subseteq> set m"
  shows "entry_or_default m' k = entry_or_default m k \<or> entry_or_default m' k = []"
proof (cases "im_get m' k")
  case (Some v)
  then have "im_get m k = Some v" using assms by (meson im_get_eq_Some subsetD)
  with Some show ?thesis by (simp add: entry_or_default_def)
qed (simp add: entry_or_default_def)

lemma sliding_table_entry:
  assumes "im_wf (sw_attempts w)"
  shows "entry_or_default (sliding_table w now) k = entry_or_default (sw_attempts w) k \<or>
    entry_or_default (sliding_table w now) k = []" and "im_wf (sliding_table w now)"
proof -
  have "im_wf (sliding_sweep (sw_attempts w) c)" and "set (sliding_sweep (sw_attempts w) c) \<subseteq> set (sw_attempts w)" for c
    unfolding sliding_sweep_def
    using assms im_wf_evict im_wf_retain by blast (rule subset_trans [OF evict_subset retain_subset])
  then have "set (sliding_table w now) \<subseteq> set (sw_attempts w)" and wf: "im_wf (sliding_table w now)"
    using assms by (simp_all add: sliding_table_def)
  then show "entry_or_default (sliding_table w now) k = entry_or_default (sw_attempts w) k \<or>
    entry_or_default (sliding_table w now) k = []" and "im_wf (sliding_table w now)"
    using entry_of_subset assms by blast+
qed

text \<open>
  (C25) Over any run of the byte window whose clock does not go back and that uses at most twenty
  thousand keys, the bytes admitted for a key in any sixty seconds never exceed the limit.
\<close>

theorem byte_rate_bound:
  assumes "sorted (map (\<lambda>(_, at, _). at) evs)" and "card ((\<lambda>(k, _, _). k) ` set evs) \<le> 20000"
  shows "window_weight (run_limiter byte_step (byte_new lim) evs) k t \<le> lim"
proof (cases evs)
  case (Cons e es)
  obtain j c w where e: "e = (j, c, w)" by (cases e)
  have "window_weight ([] @ run_limiter byte_step (byte_new lim) evs) k t \<le> bw_limit (byte_new lim)"
    by (rule byte.run_bound [where c = c and K = "(\<lambda>(k, _, _). k) ` set evs"])
      (use assms Cons e in \<open>auto simp: byte_inv_def byte_new_def record_ok_def im_wf_def entry_or_default_def im_get_def\<close>)
  then show ?thesis by (simp add: byte_new_def)
qed simp

theorem byte_rate_bound_witness:
  "window_weight (run_limiter byte_step (byte_new 10) [(''u'', 0, 6), (''u'', 1000, 6), (''u'', 61000, 6)]) ''u'' 1000 \<le> 10 \<and>
   run_limiter byte_step (byte_new 10) [(''u'', 0, 6), (''u'', 1000, 6), (''u'', 61000, 6)] = [(''u'', 0, 6), (''u'', 61000, 6)]"
proof
  show "window_weight (run_limiter byte_step (byte_new 10) [(''u'', 0, 6), (''u'', 1000, 6), (''u'', 61000, 6)]) ''u'' 1000 \<le> 10"
    by (rule byte_rate_bound) simp_all
  show "run_limiter byte_step (byte_new 10) [(''u'', 0, 6), (''u'', 1000, 6), (''u'', 61000, 6)] = [(''u'', 0, 6), (''u'', 61000, 6)]"
    by (simp add: byte_step_eq byte_retry_after_None byte_new_def limiter_eval)
qed

text \<open>
  Over any run of the API limiter whose clock does not go back and that uses at most twenty
  thousand keys, a key is admitted at most the limit's number of times in any sixty seconds.
\<close>

lemma sliding_rate_bound:
  assumes "sorted (map (\<lambda>(_, at, _). at) evs)" and "card ((\<lambda>(k, _, _). k) ` set evs) \<le> 20000"
    and "\<forall>(_, _, w) \<in> set evs. w = 1"
  shows "window_weight (run_limiter sliding_step (sliding_new lim) evs) k t \<le> lim"
proof (cases evs)
  case (Cons e es)
  obtain j c w where e: "e = (j, c, w)" by (cases e)
  have "window_weight ([] @ run_limiter sliding_step (sliding_new lim) evs) k t \<le> sw_limit (sliding_new lim)"
    by (rule sliding.run_bound [where c = c and K = "(\<lambda>(k, _, _). k) ` set evs"])
      (use assms Cons e in \<open>auto simp: sliding_inv_def sliding_new_def record_ok_def im_wf_def entry_or_default_def im_get_def\<close>)
  then show ?thesis by (simp add: sliding_new_def)
qed simp

text \<open>
  The authentication limiter keeps the same bound as long as at most ten thousand keys are in
  use; its eviction queue lists exactly the keys of its table, without repetition.
\<close>

lemma auth_rate_bound:
  assumes "sorted (map (\<lambda>(_, at, _). at) evs)" and "card ((\<lambda>(k, _, _). k) ` set evs) \<le> 10000"
    and "\<forall>(_, _, w) \<in> set evs. w = 1"
  shows "window_weight (run_limiter auth_step (auth_new lim) evs) k t \<le> lim"
proof (cases evs)
  case (Cons e es)
  obtain j c w where e: "e = (j, c, w)" by (cases e)
  have "window_weight ([] @ run_limiter auth_step (auth_new lim) evs) k t \<le> ar_limit (auth_new lim)"
    by (rule auth.run_bound [where c = c and K = "(\<lambda>(k, _, _). k) ` set evs"])
      (use assms Cons e in \<open>auto simp: auth_inv_def auth_new_def record_ok_def im_wf_def entry_or_default_def im_get_def\<close>)
  then show ?thesis by (simp add: auth_new_def)
qed simp

text \<open>
  The delay a refused caller is told is enough: the same call made that many seconds later,
  with no call in between, is admitted.
\<close>

lemma sliding_retry_sufficient:
  assumes ref: "sliding_consume w k now = Inr (w', Some r)" and lim: "0 < sw_limit w"
    and len: "length (entry_or_default (sw_attempts w) k) \<le> sw_limit w" and wf: "im_wf (sw_attempts w)"
  shows "\<exists>w''. sliding_consume w' k (now + 1000 * int r) = Inr (w'', None)"
proof -
  let ?now = "now + 1000 * int r"
  obtain t rest where vs: "filter (\<lambda>t. t > now - 60000) (entry_or_default (sliding_table w now) k) = t # rest"
    and r: "r = retry_seconds (t + 60000 - now)"
    and w': "sw_attempts w' = im_insert k (t # rest) (sliding_table w now)" "sw_limit w' = sw_limit w"
    using ref lim unfolding sliding_consume_def Let_def
    by (auto split: if_splits list.splits)
  have "length (t # rest) \<le> length (entry_or_default (sliding_table w now) k)"
    by (metis vs length_filter_le)
  with sliding_table_entry(1) [OF wf, of now k] len have short: "length rest < sw_limit w" by auto
  have "t + 60000 - now \<le> 1000 * ceil_div (t + 60000 - now) 1000" by (rule ceil_div_bounds) simp
  moreover have "int r = max 1 (ceil_div (t + 60000 - now) 1000)" by (simp add: r retry_seconds_def)
  ultimately have dead: "t \<le> ?now - 60000" by linarith
  have wf': "im_wf (sw_attempts w')" using w' sliding_table_entry(2) [OF wf] by (simp add: im.wf_put)
  have "entry_or_default (sliding_table w' ?now) k = t # rest \<or> entry_or_default (sliding_table w' ?now) k = []"
    using sliding_table_entry(1) [OF wf', of ?now k] w' by simp
  then have "length (filter (\<lambda>t. t > ?now - 60000) (entry_or_default (sliding_table w' ?now) k)) < sw_limit w'"
    using dead short w'(2) lim by (auto intro: le_less_trans [OF length_filter_le])
  then show ?thesis by (simp add: sliding_consume_def Let_def)
qed

end
