(* ===== verification/Quotas.thy ===== *)
theory Quotas
  imports RateLimits "HOL-Library.Multiset"
begin

text \<open>
  The relay quotas of the server (\<^verbatim>\<open>relay/quotas.rs\<close>): per-account and per-worker byte windows
  for relayed traffic and for uploads, and per-account and per-worker counts of open Remote Surface
  connections, whose permits give their place back when they are dropped. The counters of
  \<open>RelayQuotaStats\<close> are \<open>f64\<close> in the source and natural numbers here, exact up to \<open>2 ^ 53\<close>. Every
  operation runs under one mutex, so the operations are state transformers.
\<close>

section \<open>Definitions\<close>

record relay_limit_error =
  message :: string
  retry_after_seconds :: nat
  not_dispatched :: bool

definition limit_error_new :: "string \<Rightarrow> nat \<Rightarrow> relay_limit_error" where
  "limit_error_new msg retry = \<lparr>message = msg, retry_after_seconds = retry, not_dispatched = False\<rparr>"

definition before_dispatch :: "relay_limit_error \<Rightarrow> relay_limit_error" where
  "before_dispatch e = e\<lparr>not_dispatched := True\<rparr>"

record relay_quota_stats =
  active_remote_surfaces :: nat
  rejected_relay_bandwidth :: nat
  rejected_remote_surfaces :: nat
  rejected_uploads :: nat
  relay_bytes :: nat
  upload_bytes :: nat

record relay_quotas =
  account_relay :: byte_window
  worker_relay :: byte_window
  account_upload :: byte_window
  worker_upload :: byte_window
  account_surfaces :: active_limit
  worker_surfaces :: active_limit
  quota_stats :: relay_quota_stats

record surface_permit =
  permit_owner :: string
  permit_worker :: string

definition quotas_with_limits :: "nat \<Rightarrow> nat \<Rightarrow> nat \<Rightarrow> nat \<Rightarrow> nat \<Rightarrow> nat \<Rightarrow> relay_quotas" where
  "quotas_with_limits ar wr au wu asf wsf =
     \<lparr>account_relay = byte_new ar, worker_relay = byte_new wr,
      account_upload = byte_new au, worker_upload = byte_new wu,
      account_surfaces = active_new asf, worker_surfaces = active_new wsf,
      quota_stats = \<lparr>active_remote_surfaces = 0, rejected_relay_bandwidth = 0,
        rejected_remote_surfaces = 0, rejected_uploads = 0, relay_bytes = 0, upload_bytes = 0\<rparr>\<rparr>"

definition count_rejected_surface :: "relay_quotas \<Rightarrow> relay_quotas" where
  "count_rejected_surface q = q\<lparr>quota_stats := (quota_stats q)
     \<lparr>rejected_remote_surfaces := rejected_remote_surfaces (quota_stats q) + 1\<rparr>\<rparr>"

definition acquire_surface ::
  "relay_quotas \<Rightarrow> string \<Rightarrow> string \<Rightarrow> relay_quotas \<times> (relay_limit_error + surface_permit)" where
  "acquire_surface q owner worker =
     (case active_acquire (account_surfaces q) owner of
        (_, False) \<Rightarrow>
          (count_rejected_surface q,
           Inl (limit_error_new ''Account Remote Surface connection quota reached.'' 1))
      | (acc, True) \<Rightarrow>
          (case active_acquire (worker_surfaces q) worker of
             (_, False) \<Rightarrow>
               (count_rejected_surface (q\<lparr>account_surfaces := active_release acc owner\<rparr>),
                Inl (limit_error_new ''Worker Remote Surface connection quota reached.'' 1))
           | (wrk, True) \<Rightarrow>
               (q\<lparr>account_surfaces := acc, worker_surfaces := wrk\<rparr>,
                Inr \<lparr>permit_owner = owner, permit_worker = worker\<rparr>)))"

definition drop_permit :: "relay_quotas \<Rightarrow> surface_permit \<Rightarrow> relay_quotas" where
  "drop_permit q p =
     q\<lparr>worker_surfaces := active_release (worker_surfaces q) (permit_worker p),
       account_surfaces := active_release (account_surfaces q) (permit_owner p)\<rparr>"

definition unwrap_or :: "'a \<Rightarrow> 'a option \<Rightarrow> 'a" where
  "unwrap_or d x = (case x of None \<Rightarrow> d | Some v \<Rightarrow> v)"

definition consume_upload_at ::
  "relay_quotas \<Rightarrow> string \<Rightarrow> string \<Rightarrow> nat \<Rightarrow> int \<Rightarrow> relay_quotas \<times> (relay_limit_error + unit)" where
  "consume_upload_at q owner worker bytes now =
     (let account = unwrap_or 0 (byte_retry_after (account_upload q) owner bytes now);
          worker_retry = unwrap_or 0 (byte_retry_after (worker_upload q) worker bytes now);
          retry = max account worker_retry
      in if retry > 0
         then (q\<lparr>quota_stats := (quota_stats q)\<lparr>rejected_uploads := rejected_uploads (quota_stats q) + 1\<rparr>\<rparr>,
               Inl (limit_error_new ''Attachment upload byte quota reached. Retry later.'' retry))
         else (q\<lparr>account_upload := fst (byte_consume (account_upload q) owner bytes now),
                 worker_upload := fst (byte_consume (worker_upload q) worker bytes now),
                 quota_stats := (quota_stats q)\<lparr>upload_bytes := upload_bytes (quota_stats q) + bytes\<rparr>\<rparr>,
               Inr ()))"

definition consume_relay_at ::
  "relay_quotas \<Rightarrow> string \<Rightarrow> string \<Rightarrow> nat \<Rightarrow> int \<Rightarrow> relay_quotas \<times> bool" where
  "consume_relay_at q owner worker bytes now =
     (if byte_retry_after (account_relay q) owner bytes now \<noteq> None \<or>
         byte_retry_after (worker_relay q) worker bytes now \<noteq> None
      then (q\<lparr>quota_stats := (quota_stats q)
               \<lparr>rejected_relay_bandwidth := rejected_relay_bandwidth (quota_stats q) + 1\<rparr>\<rparr>, False)
      else (q\<lparr>account_relay := fst (byte_consume (account_relay q) owner bytes now),
              worker_relay := fst (byte_consume (worker_relay q) worker bytes now),
              quota_stats := (quota_stats q)\<lparr>relay_bytes := relay_bytes (quota_stats q) + bytes\<rparr>\<rparr>, True))"

definition relay_stats :: "relay_quotas \<Rightarrow> relay_quota_stats" where
  "relay_stats q = (quota_stats q)\<lparr>active_remote_surfaces := active_total (account_surfaces q)\<rparr>"

text \<open>
  A run of the quotas beside the permits that are outstanding: a permit is dropped once, by the
  connection that holds it.
\<close>

inductive quota_reach :: "relay_quotas \<Rightarrow> relay_quotas \<Rightarrow> surface_permit multiset \<Rightarrow> bool"
  for q0 where
  start: "quota_reach q0 q0 {#}"
| acquire_ok: "quota_reach q0 q ps \<Longrightarrow> acquire_surface q ow wk = (q', Inr p) \<Longrightarrow> quota_reach q0 q' (add_mset p ps)"
| acquire_fail: "quota_reach q0 q ps \<Longrightarrow> acquire_surface q ow wk = (q', Inl e) \<Longrightarrow> quota_reach q0 q' ps"
| drop: "quota_reach q0 q (add_mset p ps) \<Longrightarrow> quota_reach q0 (drop_permit q p) ps"
| upload: "quota_reach q0 q ps \<Longrightarrow> consume_upload_at q ow wk n now = (q', r) \<Longrightarrow> quota_reach q0 q' ps"
| relay: "quota_reach q0 q ps \<Longrightarrow> consume_relay_at q ow wk n now = (q', b) \<Longrightarrow> quota_reach q0 q' ps"

section \<open>Lemmas\<close>

definition surfaces_match :: "relay_quotas \<Rightarrow> surface_permit multiset \<Rightarrow> bool" where
  "surfaces_match q ps \<longleftrightarrow>
     active_inv (account_surfaces q) \<and> active_inv (worker_surfaces q) \<and>
     (\<forall>k. active_count (account_surfaces q) k = size {#p \<in># ps. permit_owner p = k#}) \<and>
     (\<forall>k. active_count (worker_surfaces q) k = size {#p \<in># ps. permit_worker p = k#}) \<and>
     active_total (account_surfaces q) = size ps"

lemma acquire_surface_cases:
  assumes "acquire_surface q ow wk = (q', r)"
  obtains (account) e where "active_acquire (account_surfaces q) ow = (account_surfaces q, False)"
      "q' = count_rejected_surface q" "r = Inl e"
  | (worker) acc e where "active_acquire (account_surfaces q) ow = (acc, True)"
      "active_acquire (worker_surfaces q) wk = (worker_surfaces q, False)"
      "q' = count_rejected_surface (q\<lparr>account_surfaces := active_release acc ow\<rparr>)" "r = Inl e"
  | (both) acc wrk where "active_acquire (account_surfaces q) ow = (acc, True)"
      "active_acquire (worker_surfaces q) wk = (wrk, True)"
      "q' = q\<lparr>account_surfaces := acc, worker_surfaces := wrk\<rparr>"
      "r = Inr \<lparr>permit_owner = ow, permit_worker = wk\<rparr>"
proof -
  have refuse: "snd (active_acquire a k) \<or> active_acquire a k = (a, False)" for a k
    by (auto simp: active_acquire_def Let_def)
  show thesis
  proof (cases "snd (active_acquire (account_surfaces q) ow)")
    case False
    then have eq: "active_acquire (account_surfaces q) ow = (account_surfaces q, False)" using refuse by blast
    then show ?thesis using assms account by (auto simp: acquire_surface_def)
  next
    case True
    then obtain acc where acc: "active_acquire (account_surfaces q) ow = (acc, True)"
      by (cases "active_acquire (account_surfaces q) ow") auto
    show ?thesis
    proof (cases "snd (active_acquire (worker_surfaces q) wk)")
      case False
      then have "active_acquire (worker_surfaces q) wk = (worker_surfaces q, False)" using refuse by blast
      then show ?thesis using assms acc worker by (auto simp: acquire_surface_def)
    next
      case True
      then obtain wrk where "active_acquire (worker_surfaces q) wk = (wrk, True)"
        by (cases "active_acquire (worker_surfaces q) wk") auto
      then show ?thesis using assms acc both by (auto simp: acquire_surface_def)
    qed
  qed
qed

lemma count_rejected_fields [simp]:
  "account_surfaces (count_rejected_surface q) = account_surfaces q"
  "worker_surfaces (count_rejected_surface q) = worker_surfaces q"
  by (simp_all add: count_rejected_surface_def)

lemma active_acquire_release:
  assumes "active_inv a" and "active_acquire a k = (a', True)"
  shows "active_inv (active_release a' k)" "al_limit (active_release a' k) = al_limit a"
    "active_count (active_release a' k) j = active_count a j" "active_total (active_release a' k) = active_total a"
  using active_acquire_ok [OF assms] active_release_ok [of a' k] by auto

lemma surfaces_match_acquire:
  assumes "surfaces_match q ps" and "acquire_surface q ow wk = (q', r)"
  shows "surfaces_match q' (case r of Inl _ \<Rightarrow> ps | Inr p \<Rightarrow> add_mset p ps)"
  using assms(2)
proof (cases rule: acquire_surface_cases)
  case account
  then show ?thesis using assms(1) by (simp add: surfaces_match_def)
next
  case (worker acc e)
  then show ?thesis using assms(1) active_acquire_release [OF _ worker(1)] by (simp add: surfaces_match_def)
next
  case (both acc wrk)
  have "active_inv (account_surfaces q)" "active_inv (worker_surfaces q)"
    using assms(1) by (simp_all add: surfaces_match_def)
  note ok = active_acquire_ok [OF this(1) both(1)] active_acquire_ok [OF this(2) both(2)]
  show ?thesis using assms(1) both ok by (auto simp: surfaces_match_def)
qed

lemma surfaces_match_drop:
  assumes "surfaces_match q (add_mset p ps)"
  shows "surfaces_match (drop_permit q p) ps"
proof -
  have "active_inv (account_surfaces q)" "active_inv (worker_surfaces q)"
    and pos: "active_count (account_surfaces q) (permit_owner p) > 0"
    using assms by (simp_all add: surfaces_match_def)
  note ok = active_release_ok [OF this(1), of "permit_owner p"] active_release_ok [OF this(2), of "permit_worker p"]
  show ?thesis using assms ok pos by (auto simp: surfaces_match_def drop_permit_def)
qed

lemma surfaces_match_frame:
  "surfaces_match q ps \<Longrightarrow> account_surfaces q' = account_surfaces q \<Longrightarrow>
   worker_surfaces q' = worker_surfaces q \<Longrightarrow> surfaces_match q' ps"
  by (simp add: surfaces_match_def)

lemma quota_reach_match:
  assumes "quota_reach (quotas_with_limits ar wr au wu asf wsf) q ps"
  shows "surfaces_match q ps \<and> al_limit (account_surfaces q) = asf \<and> al_limit (worker_surfaces q) = wsf"
  using assms
proof (induction rule: quota_reach.induct)
  case start
  show ?case by (simp add: surfaces_match_def quotas_with_limits_def active_new_inv) (simp add: active_new_def)
next
  case (acquire_ok q ps ow wk q' p)
  then show ?case using surfaces_match_acquire [of q ps ow wk q' "Inr p"]
    by (cases rule: acquire_surface_cases [OF acquire_ok(2)])
      (auto simp: surfaces_match_def dest: active_acquire_ok)
next
  case (acquire_fail q ps ow wk q' e)
  then show ?case using surfaces_match_acquire [of q ps ow wk q' "Inl e"]
    by (cases rule: acquire_surface_cases [OF acquire_fail(2)])
      (auto simp: surfaces_match_def dest: active_acquire_release(2))
next
  case (drop q p ps)
  then show ?case using surfaces_match_drop [of q p ps] active_release_ok
    by (auto simp: drop_permit_def surfaces_match_def)
next
  case (upload q ps ow wk n now q' r)
  then show ?case using surfaces_match_frame [of q ps q']
    by (auto simp: consume_upload_at_def Let_def split: if_splits)
next
  case (relay q ps ow wk n now q' b)
  then show ?case using surfaces_match_frame [of q ps q']
    by (auto simp: consume_relay_at_def split: if_splits)
qed

lemma retry_seconds_pos: "retry_seconds ms > 0"
  by (simp add: retry_seconds_def)

lemma byte_retry_after_pos: "unwrap_or 0 (byte_retry_after w k n now) > 0 \<longleftrightarrow> byte_retry_after w k n now \<noteq> None"
  by (cases "byte_retry_after w k n now")
    (auto simp: unwrap_or_def byte_retry_after_def Let_def retry_seconds_pos split: if_splits)

lemma byte_consume_admits:
  "byte_retry_after w k n now = None \<longleftrightarrow> snd (byte_step w k n now)"
  by (auto simp: byte_step_eq byte_retry_after_None)

lemma byte_step_consume: "fst (byte_step w k n now) = fst (byte_consume w k n now)"
  by (simp add: byte_step_def split: prod.splits)

section \<open>Properties\<close>

text \<open>
  In every reachable state the surface counts of an account and of a worker are the numbers of
  their outstanding permits, neither exceeds its limit, and the reported total is the number of
  permits: no failed acquisition leaks a place and no drop gives one back twice.
\<close>

lemma surface_permits_accounted:
  assumes "quota_reach (quotas_with_limits ar wr au wu asf wsf) q ps"
  shows "active_count (account_surfaces q) k = size {#p \<in># ps. permit_owner p = k#} \<and>
    active_count (account_surfaces q) k \<le> asf \<and>
    active_count (worker_surfaces q) k = size {#p \<in># ps. permit_worker p = k#} \<and>
    active_count (worker_surfaces q) k \<le> wsf \<and>
    active_remote_surfaces (relay_stats q) = size ps"
  using quota_reach_match [OF assms] by (auto simp: surfaces_match_def relay_stats_def active_inv_def)

text \<open>
  Relayed bytes are charged to the account and to the worker together or to neither: a call
  succeeds exactly when both windows have room, charges both then, and changes only the rejection
  counter otherwise.
\<close>

lemma consume_relay_atomic:
  assumes "consume_relay_at q ow wk n now = (q', granted)"
  shows "(granted \<longleftrightarrow> snd (byte_step (account_relay q) ow n now) \<and> snd (byte_step (worker_relay q) wk n now)) \<and>
    (if granted
     then q' = q\<lparr>account_relay := fst (byte_step (account_relay q) ow n now),
                 worker_relay := fst (byte_step (worker_relay q) wk n now), quota_stats := quota_stats q'\<rparr> \<and>
          relay_bytes (quota_stats q') = relay_bytes (quota_stats q) + n
     else q' = q\<lparr>quota_stats := quota_stats q'\<rparr> \<and>
          rejected_relay_bandwidth (quota_stats q') = rejected_relay_bandwidth (quota_stats q) + 1)"
proof (cases "byte_retry_after (account_relay q) ow n now = None \<and> byte_retry_after (worker_relay q) wk n now = None")
  case True
  then have "snd (byte_step (account_relay q) ow n now)" "snd (byte_step (worker_relay q) wk n now)"
    by (simp_all add: byte_consume_admits)
  with True assms show ?thesis by (auto simp: consume_relay_at_def byte_step_consume)
next
  case False
  then have "\<not> (snd (byte_step (account_relay q) ow n now) \<and> snd (byte_step (worker_relay q) wk n now))"
    by (simp add: byte_consume_admits)
  with False assms show ?thesis by (auto simp: consume_relay_at_def)
qed

text \<open>
  An upload is granted exactly when both windows have room, and a refusal reports a positive
  delay that covers the longer of the two and leaves both windows as they were.
\<close>

lemma consume_upload_atomic:
  assumes "consume_upload_at q ow wk n now = (q', r)"
  shows "(r = Inr () \<longleftrightarrow> snd (byte_step (account_upload q) ow n now) \<and> snd (byte_step (worker_upload q) wk n now)) \<and>
    (r = Inr () \<longrightarrow> account_upload q' = fst (byte_step (account_upload q) ow n now) \<and>
       worker_upload q' = fst (byte_step (worker_upload q) wk n now)) \<and>
    (\<forall>e. r = Inl e \<longrightarrow> account_upload q' = account_upload q \<and> worker_upload q' = worker_upload q \<and>
       retry_after_seconds e > 0 \<and>
       (\<forall>d \<in> set_option (byte_retry_after (account_upload q) ow n now). d \<le> retry_after_seconds e) \<and>
       (\<forall>d \<in> set_option (byte_retry_after (worker_upload q) wk n now). d \<le> retry_after_seconds e))"
proof -
  let ?a = "byte_retry_after (account_upload q) ow n now" and ?w = "byte_retry_after (worker_upload q) wk n now"
  have "max (unwrap_or 0 ?a) (unwrap_or 0 ?w) > 0 \<longleftrightarrow> ?a \<noteq> None \<or> ?w \<noteq> None"
    using byte_retry_after_pos by (metis less_max_iff_disj)
  then show ?thesis using assms
    by (auto simp: consume_upload_at_def Let_def byte_step_consume limit_error_new_def unwrap_or_def
        simp flip: byte_consume_admits split: if_splits)
qed

end
