(* ===== verification/LinkRelay.thy ===== *)
theory LinkRelay
  imports LinkFrames Quotas
begin

text \<open>
  The relay of the worker links (\<^verbatim>\<open>cantrip_server_rs/src/worker_links/relay/\<close>): it hands the frames of a client's socket
  to the worker and the worker's frames back, numbers and bounds them, and holds the Remote Surface permits of the open
  channels. Connections live in a store: an address stands for the \<open>Arc\<close>, so that a connection that was replaced is a
  different object with the same session. The options are those of \<^verbatim>\<open>worker_links/service.rs\<close>: the bytes and the surfaces are
  counted by the relay quotas of \<open>Quotas\<close>, and every frame is recorded for the usage meter. The socket is the one of
  \<^verbatim>\<open>http/worker_link_socket.rs\<close>; \<open>so_out\<close> is everything its queue was given. The worker bridge is the list of the workers
  it can reach and the frames it has taken.

  The operations of one connection run under its \<open>operation\<close> mutex and are one step each. \<open>retire\<close> takes only the state
  mutex and is a step of its own, between the others. When the transport ends it is called by the task that reads the
  client's frames (\<open>on_closed\<close>), so never inside \<open>receive_client\<close>, and a drain calls it under the operation mutex. What the
  steps leave out is a retirement that falls inside another operation of the same connection: the end of the transport
  inside \<open>receive_worker\<close> or a drain, and \<open>close\<close> at the shutdown of the server inside any of them, where \<open>receive_client\<close>
  can enter a channel after its check that the connection is open.
\<close>

section \<open>The client's socket\<close>

datatype outgoing = OutText string | OutBinary link_frame | OutFlush | OutClose nat string

record link_socket =
  so_open :: bool
  so_buffered :: nat
  so_receiver :: bool
  so_out :: "outgoing list"

definition framed_size :: "nat \<Rightarrow> nat" where
  "framed_size n = n + (if n < 126 then 2 else if n \<le> 65535 then 4 else 10)"

text \<open>A message the queue refuses, because its receiver is gone, gives its reservation back when it is dropped.\<close>

definition socket_send :: "link_frame \<Rightarrow> link_socket \<Rightarrow> link_socket \<times> bool" where
  "socket_send f s =
     (if \<not> so_open s then (s, False)
      else if so_receiver s
      then (s\<lparr>so_buffered := so_buffered s + framed_size (length (lf_bytes f)), so_out := so_out s @ [OutBinary f]\<rparr>, True)
      else (s, False))"

definition socket_close :: "nat \<Rightarrow> string \<Rightarrow> link_socket \<Rightarrow> link_socket" where
  "socket_close code reason s =
     (if so_open s
      then s\<lparr>so_open := False, so_out := (if so_receiver s then so_out s @ [OutClose code reason] else so_out s)\<rparr>
      else s)"

section \<open>Connections\<close>

record link_session =
  ls_id :: string
  ls_generation :: nat
  ls_owner :: string
  ls_account :: string
  ls_worker :: string
  ls_enabled :: "link_route list"

record lane_limit =
  max_channels :: nat
  max_queued_frames :: nat
  max_queued_bytes :: nat
  max_bytes_per_second :: nat

record relay_channel =
  ch_bandwidth :: string
  ch_delivered :: int
  ch_client :: int
  ch_worker :: int
  ch_grant :: string
  ch_header :: link_header

record lane_queue =
  lq_bytes :: nat
  lq_frames :: "(string \<times> link_frame) list"

record surface =
  sf_channels :: "string list"
  sf_permit :: surface_permit

record connection =
  cn_session :: link_session
  cn_socket :: link_socket
  cn_closed :: bool
  cn_channels :: "(string, relay_channel) index_map"
  cn_closing :: "(string, relay_channel) index_map"
  cn_lanes :: "link_lane \<Rightarrow> lane_queue"
  cn_surfaces :: "(string, surface) index_map"
  cn_bytes :: nat
  cn_frames :: nat
  cn_stalled :: "int option"
  cn_drain :: bool

type_synonym usage = "string \<times> string \<times> bool \<times> nat"

record relay =
  rl_closed :: bool
  rl_connections :: "(string, nat) index_map"
  rl_store :: "connection list"
  rl_quotas :: relay_quotas
  rl_usage :: "usage list"
  rl_online :: "string list"
  rl_sent :: "(string \<times> link_frame) list"

abbreviation (input) max_buffered :: nat where "max_buffered \<equiv> 8 * 1024 * 1024"

definition lane_order :: "link_lane list" where
  "lane_order = [LaneInteractive, LaneRealtime, LaneEvents, LaneStream, LaneBulk]"

definition default_limits :: "link_lane \<Rightarrow> lane_limit" where
  "default_limits l =
     (case l of
        LaneEvents \<Rightarrow> lane_limit.make 64 256 (4 * 1024 * 1024) (16 * 1024 * 1024)
      | LaneInteractive \<Rightarrow> lane_limit.make 64 128 (2 * 1024 * 1024) (16 * 1024 * 1024)
      | LaneStream \<Rightarrow> lane_limit.make 256 256 (16 * 1024 * 1024) (128 * 1024 * 1024)
      | LaneRealtime \<Rightarrow> lane_limit.make 64 64 (4 * 1024 * 1024) (64 * 1024 * 1024)
      | LaneBulk \<Rightarrow> lane_limit.make 32 128 (16 * 1024 * 1024) (64 * 1024 * 1024))"

definition empty_lane :: lane_queue where
  "empty_lane = \<lparr>lq_bytes = 0, lq_frames = []\<rparr>"

definition new_connection :: "link_session \<Rightarrow> link_socket \<Rightarrow> connection" where
  "new_connection s k =
     \<lparr>cn_session = s, cn_socket = k, cn_closed = False, cn_channels = [], cn_closing = [], cn_lanes = (\<lambda>_. empty_lane),
      cn_surfaces = [], cn_bytes = 0, cn_frames = 0, cn_stalled = None, cn_drain = False\<rparr>"

definition bandwidth_of :: "resource_kind \<Rightarrow> string" where
  "bandwidth_of k =
     (case k of
        KindTerminal \<Rightarrow> ''terminal-relay''
      | KindBrowser \<Rightarrow> ''remote-surface-relay''
      | KindRemoteDesktop \<Rightarrow> ''remote-surface-relay''
      | KindProjectShare \<Rightarrow> ''project-share-relay''
      | KindTunnel \<Rightarrow> ''tunnel-relay''
      | KindObservations \<Rightarrow> ''other'')"

definition canonical :: "link_header \<Rightarrow> link_channel \<times> link_lane" where
  "canonical h = (h_channel h, h_lane h)"

definition relay_new :: "relay_quotas \<Rightarrow> relay" where
  "relay_new q = \<lparr>rl_closed = False, rl_connections = [], rl_store = [], rl_quotas = q, rl_usage = [], rl_online = [], rl_sent = []\<rparr>"

abbreviation conn :: "relay \<Rightarrow> nat \<Rightarrow> connection" where
  "conn r c \<equiv> rl_store r ! c"

definition edit_conn :: "nat \<Rightarrow> (connection \<Rightarrow> connection) \<Rightarrow> relay \<Rightarrow> relay" where
  "edit_conn c f r = r\<lparr>rl_store := (rl_store r)[c := f (conn r c)]\<rparr>"

definition close_socket :: "nat \<Rightarrow> string \<Rightarrow> connection \<Rightarrow> connection" where
  "close_socket code reason cn = cn\<lparr>cn_socket := socket_close code reason (cn_socket cn)\<rparr>"

definition relay_current :: "relay \<Rightarrow> nat \<Rightarrow> bool" where
  "relay_current r c \<longleftrightarrow> im_get (rl_connections r) (ls_id (cn_session (conn r c))) = Some c"

definition relay_record :: "nat \<Rightarrow> string \<Rightarrow> bool \<Rightarrow> nat \<Rightarrow> relay \<Rightarrow> relay" where
  "relay_record c bw ingress n r = r\<lparr>rl_usage := rl_usage r @ [(ls_owner (cn_session (conn r c)), bw, ingress, n)]\<rparr>"

definition relay_consume :: "nat \<Rightarrow> nat \<Rightarrow> int \<Rightarrow> relay \<Rightarrow> relay \<times> bool" where
  "relay_consume c n now r =
     (if n = 0 then (r, True)
      else case consume_relay_at (rl_quotas r) (ls_owner (cn_session (conn r c))) (ls_worker (cn_session (conn r c))) n now of
          (q, True) \<Rightarrow> (r\<lparr>rl_quotas := q\<rparr>, True)
        | (q, False) \<Rightarrow> (edit_conn c (close_socket 1013 ''WorkerLink relay bandwidth quota reached'') (r\<lparr>rl_quotas := q\<rparr>), False))"

section \<open>Channels\<close>

fun surface_kind :: "resource_kind \<Rightarrow> bool" where
  "surface_kind KindBrowser = True"
| "surface_kind KindRemoteDesktop = True"
| "surface_kind _ = False"

definition retain_surface :: "nat \<Rightarrow> link_grant \<Rightarrow> string \<Rightarrow> relay \<Rightarrow> relay \<times> bool" where
  "retain_surface c g ch r =
     (if \<not> surface_kind (grant_resource g) then (r, True)
      else case im_get (cn_surfaces (conn r c)) (grant_id g) of
          Some sf \<Rightarrow>
            (edit_conn c (\<lambda>cn. cn\<lparr>cn_surfaces := im_insert (grant_id g) (sf\<lparr>sf_channels := List.insert ch (sf_channels sf)\<rparr>) (cn_surfaces cn)\<rparr>) r, True)
        | None \<Rightarrow>
            (case acquire_surface (rl_quotas r) (ls_owner (cn_session (conn r c))) (ls_worker (cn_session (conn r c))) of
               (q, Inl _) \<Rightarrow> (r\<lparr>rl_quotas := q\<rparr>, False)
             | (q, Inr p) \<Rightarrow>
                 (edit_conn c (\<lambda>cn. cn\<lparr>cn_surfaces := im_insert (grant_id g) \<lparr>sf_channels = [ch], sf_permit = p\<rparr> (cn_surfaces cn)\<rparr>)
                    (r\<lparr>rl_quotas := q\<rparr>), True)))"

definition open_channel :: "link_header \<Rightarrow> link_grant \<Rightarrow> relay_channel" where
  "open_channel h g =
     \<lparr>ch_bandwidth = bandwidth_of (grant_resource g), ch_delivered = -1, ch_client = int (h_sequence h), ch_worker = -1,
      ch_grant = grant_id g, ch_header = h\<rparr>"

definition set_channel :: "string \<Rightarrow> relay_channel \<Rightarrow> connection \<Rightarrow> connection" where
  "set_channel i ch cn = cn\<lparr>cn_channels := im_insert i ch (cn_channels cn)\<rparr>"

definition client_channel :: "nat \<Rightarrow> link_header \<Rightarrow> relay \<Rightarrow> relay \<times> relay_channel option" where
  "client_channel c h r =
     (let i = channel_id (h_channel h); cn = conn r c
      in case h_kind h of
           OpenChannel g _ _ \<Rightarrow>
             if im_get (cn_channels cn) i \<noteq> None \<or> im_get (cn_closing cn) i \<noteq> None
             then (edit_conn c (close_socket 1008 ''WorkerLink channel was replayed'') r, None)
             else (case retain_surface c g i r of
                 (r', False) \<Rightarrow> (edit_conn c (close_socket 1013 ''WorkerLink Remote Surface relay quota reached'') r', None)
               | (r', True) \<Rightarrow> (edit_conn c (set_channel i (open_channel h g)) r', Some (open_channel h g)))
         | _ \<Rightarrow>
             (case im_get (cn_channels cn) i of
                None \<Rightarrow> (edit_conn c (close_socket 1008 ''WorkerLink channel sequence is invalid'') r, None)
              | Some ch \<Rightarrow>
                  if int (h_sequence h) \<noteq> ch_client ch + 1
                  then (edit_conn c (close_socket 1008 ''WorkerLink channel sequence is invalid'') r, None)
                  else (edit_conn c (set_channel i (ch\<lparr>ch_client := int (h_sequence h)\<rparr>)) r, Some (ch\<lparr>ch_client := int (h_sequence h)\<rparr>))))"

definition release_closing :: "string \<Rightarrow> relay_channel \<Rightarrow> bool \<Rightarrow> connection \<Rightarrow> connection" where
  "release_closing i ch await cn =
     (if await
      then let closing = im_insert i ch (cn_closing cn)
           in cn\<lparr>cn_closing := (if length closing > 1024 then tl closing else closing)\<rparr>
      else cn)"

definition release_surface :: "nat \<Rightarrow> string \<Rightarrow> string \<Rightarrow> relay \<Rightarrow> relay" where
  "release_surface c g i r =
     (case im_get (cn_surfaces (conn r c)) g of
        None \<Rightarrow> r
      | Some sf \<Rightarrow>
          let rest = removeAll i (sf_channels sf)
          in if rest = []
             then edit_conn c (\<lambda>cn. cn\<lparr>cn_surfaces := im_remove g (cn_surfaces cn)\<rparr>) (r\<lparr>rl_quotas := drop_permit (rl_quotas r) (sf_permit sf)\<rparr>)
             else edit_conn c (\<lambda>cn. cn\<lparr>cn_surfaces := im_insert g (sf\<lparr>sf_channels := rest\<rparr>) (cn_surfaces cn)\<rparr>) r)"

definition release_channel :: "nat \<Rightarrow> string \<Rightarrow> bool \<Rightarrow> relay \<Rightarrow> relay" where
  "release_channel c i await r =
     (case im_get (cn_channels (conn r c)) i of
        None \<Rightarrow> r
      | Some ch \<Rightarrow>
          release_surface c (ch_grant ch) i
            (edit_conn c (\<lambda>cn. release_closing i ch await (cn\<lparr>cn_channels := im_remove i (cn_channels cn)\<rparr>)) r))"

section \<open>The queues of a connection\<close>

definition schedule_drain :: "connection \<Rightarrow> connection" where
  "schedule_drain cn = (if cn_closed cn \<or> cn_drain cn then cn else cn\<lparr>cn_drain := True\<rparr>)"

definition send_now :: "string \<Rightarrow> link_frame \<Rightarrow> connection \<Rightarrow> connection \<times> usage list \<times> bool" where
  "send_now bw f cn =
     (case socket_send f (cn_socket cn) of
        (s, True) \<Rightarrow> (cn\<lparr>cn_socket := s\<rparr>, [(ls_owner (cn_session cn), bw, False, length (lf_bytes f))], True)
      | (_, False) \<Rightarrow> (close_socket 1011 ''WorkerLink relay send failed'' cn, [], False))"

definition push_frame :: "link_lane \<Rightarrow> string \<Rightarrow> link_frame \<Rightarrow> int \<Rightarrow> connection \<Rightarrow> connection" where
  "push_frame l bw f now cn =
     (let q = cn_lanes cn l; n = length (lf_bytes f)
      in schedule_drain (cn\<lparr>cn_lanes := (cn_lanes cn)(l := \<lparr>lq_bytes = lq_bytes q + n, lq_frames = lq_frames q @ [(bw, f)]\<rparr>),
           cn_bytes := cn_bytes cn + n, cn_frames := cn_frames cn + 1,
           cn_stalled := (if cn_stalled cn = None then Some now else cn_stalled cn)\<rparr>))"

definition send_or_queue ::
  "(link_lane \<Rightarrow> lane_limit) \<Rightarrow> link_lane \<Rightarrow> string \<Rightarrow> link_frame \<Rightarrow> int \<Rightarrow> connection \<Rightarrow> connection \<times> usage list \<times> bool" where
  "send_or_queue limits l bw f now cn =
     (if \<not> so_open (cn_socket cn) then (cn, [], False)
      else let q = cn_lanes cn l
        in if lq_frames q \<noteq> [] \<or> so_buffered (cn_socket cn) > max_buffered
           then if length (lq_frames q) \<ge> max_queued_frames (limits l) \<or> lq_bytes q + length (lf_bytes f) > max_queued_bytes (limits l)
                then (close_socket 1013 ''WorkerLink relay lane is congested'' cn, [], False)
                else (push_frame l bw f now cn, [], True)
           else send_now bw f cn)"

definition pop_frame :: "link_lane \<Rightarrow> link_frame \<Rightarrow> (string \<times> link_frame) list \<Rightarrow> connection \<Rightarrow> connection" where
  "pop_frame l f rest cn =
     (let n = length (lf_bytes f)
      in cn\<lparr>cn_lanes := (cn_lanes cn)(l := \<lparr>lq_bytes = lq_bytes (cn_lanes cn l) - n, lq_frames = rest\<rparr>),
            cn_bytes := cn_bytes cn - n, cn_frames := cn_frames cn - 1\<rparr>)"

datatype pass = Failed_send | Passed bool

fun drain_pass :: "link_lane list \<Rightarrow> int \<Rightarrow> bool \<Rightarrow> connection \<Rightarrow> connection \<times> usage list \<times> pass" where
  "drain_pass [] now sent cn = (cn, [], Passed sent)"
| "drain_pass (l # ls) now sent cn =
     (case lq_frames (cn_lanes cn l) of
        [] \<Rightarrow> drain_pass ls now sent cn
      | (bw, f) # rest \<Rightarrow>
          (case send_now bw f (pop_frame l f rest cn) of
             (cn', us, False) \<Rightarrow> (cn', us, Failed_send)
           | (cn', us, True) \<Rightarrow>
               let cn'' = cn'\<lparr>cn_stalled := Some now\<rparr>
               in if so_buffered (cn_socket cn'') > max_buffered then (cn'', us, Passed True)
                  else (case drain_pass ls now True cn'' of (cn''', us', p) \<Rightarrow> (cn''', us @ us', p))))"

definition queued :: "connection \<Rightarrow> nat" where
  "queued cn = sum_list (map (\<lambda>l. length (lq_frames (cn_lanes cn l))) lane_order)"

lemma queued_pop:
  "lq_frames (cn_lanes cn l) = (bw, f) # rest \<Longrightarrow> queued cn = Suc (queued (pop_frame l f rest cn))"
  by (cases l) (simp_all add: queued_def lane_order_def pop_frame_def Let_def)

lemma queued_fields [simp]:
  "queued (cn\<lparr>cn_socket := s\<rparr>) = queued cn" "queued (cn\<lparr>cn_stalled := t\<rparr>) = queued cn"
  "queued (close_socket code reason cn) = queued cn"
  by (simp_all add: queued_def close_socket_def)

lemma queued_send: "queued (fst (send_now bw f cn)) = queued cn"
  by (auto simp: send_now_def split: prod.split bool.split)

lemma drain_pass_queued:
  "drain_pass ls now sent cn = (cn', us, p) \<Longrightarrow> queued cn' \<le> queued cn \<and> (\<not> sent \<and> p = Passed True \<longrightarrow> queued cn' < queued cn)"
proof (induction ls arbitrary: sent cn cn' us p)
  case (Cons l ls)
  show ?case
  proof (cases "lq_frames (cn_lanes cn l)")
    case Nil
    with Cons show ?thesis by simp
  next
    case (Cons e rest)
    obtain bw f where e: "e = (bw, f)" by (cases e)
    obtain cm um b where sn: "send_now bw f (pop_frame l f rest cn) = (cm, um, b)" by (metis prod_cases3)
    have q: "queued cn = Suc (queued cm)"
      using queued_pop [of cn l bw f rest] queued_send [of bw f "pop_frame l f rest cn"] Cons e sn by simp
    obtain cz uz pz where dz: "drain_pass ls now True (cm\<lparr>cn_stalled := Some now\<rparr>) = (cz, uz, pz)" by (metis prod_cases3)
    have z: "queued cz \<le> queued cm" using Cons.IH [OF dz] by simp
    show ?thesis
      using Cons.prems Cons e sn q z dz by (auto simp: Let_def split: bool.splits if_splits)
  qed
qed simp

function drain_loop :: "int \<Rightarrow> connection \<Rightarrow> connection \<times> usage list \<times> bool" where
  "drain_loop now cn =
     (if so_buffered (cn_socket cn) > max_buffered then (cn, [], True)
      else (case drain_pass lane_order now False cn of
          (cn', us, Failed_send) \<Rightarrow> (cn', us, False)
        | (cn', us, Passed False) \<Rightarrow> (cn', us, True)
        | (cn', us, Passed True) \<Rightarrow> (case drain_loop now cn' of (cn'', us', ok) \<Rightarrow> (cn'', us @ us', ok))))"
  by pat_completeness auto
termination
  by (relation "measure (\<lambda>(_, cn). queued cn)") (auto dest: drain_pass_queued [OF sym])

declare drain_loop.simps [simp del]

section \<open>The operations of the relay\<close>

definition close_header :: "relay_channel \<Rightarrow> link_header" where
  "close_header ch = (ch_header ch)\<lparr>h_sequence := nat (ch_delivered ch + 1), h_kind := CloseChannel ''endpoint-disconnected''\<rparr>"

definition close_frame :: "link_codec \<Rightarrow> relay_channel \<Rightarrow> link_frame list" where
  "close_frame cd ch =
     (if ch_delivered ch < 0 then []
      else case link_create cd (close_header ch) [] of Inl _ \<Rightarrow> [] | Inr f \<Rightarrow> [f])"

definition retired :: "connection \<Rightarrow> connection" where
  "retired cn =
     cn\<lparr>cn_closed := True, cn_closing := [], cn_lanes := (\<lambda>_. empty_lane), cn_bytes := 0, cn_frames := 0,
        cn_drain := False, cn_channels := [], cn_surfaces := []\<rparr>"

definition bridge_send :: "string \<Rightarrow> link_frame \<Rightarrow> relay \<Rightarrow> relay \<times> bool" where
  "bridge_send w f r = (if w \<in> set (rl_online r) then (r\<lparr>rl_sent := rl_sent r @ [(w, f)]\<rparr>, True) else (r, False))"

definition retire_connection :: "link_codec \<Rightarrow> nat \<Rightarrow> relay \<Rightarrow> relay" where
  "retire_connection cd c r =
     (let cn = conn r c; s = cn_session cn
      in if cn_closed cn then r
         else fold (\<lambda>f r. fst (bridge_send (ls_worker s) f r)) (concat (map (close_frame cd \<circ> snd) (cn_channels cn)))
                (r\<lparr>rl_store := (rl_store r)[c := retired cn],
                   rl_connections := (if relay_current r c then im_remove (ls_id s) (rl_connections r) else rl_connections r),
                   rl_quotas := fold (\<lambda>sf q. drop_permit q (sf_permit sf)) (map snd (cn_surfaces cn)) (rl_quotas r)\<rparr>))"

definition attach :: "link_session \<Rightarrow> link_socket \<Rightarrow> relay \<Rightarrow> relay \<times> (link_socket + nat)" where
  "attach s k r =
     (if rl_closed r \<or> \<not> so_open k \<or> RouteRelay \<notin> set (ls_enabled s)
      then (r, Inl (socket_close 1013 ''WorkerLink relay is unavailable'' k))
      else let r1 = (case im_get (rl_connections r) (ls_id s) of
                 None \<Rightarrow> r | Some p \<Rightarrow> edit_conn p (close_socket 1012 ''WorkerLink relay was replaced'') r);
               c = length (rl_store r1)
        in (r1\<lparr>rl_store := rl_store r1 @ [new_connection s k], rl_connections := im_insert (ls_id s) c (rl_connections r1)\<rparr>, Inr c))"

definition forward_client :: "nat \<Rightarrow> link_frame \<Rightarrow> string \<Rightarrow> relay \<Rightarrow> relay" where
  "forward_client c f bw r =
     (let h = lf_header f; i = channel_id (h_channel h)
      in case bridge_send (ls_worker (cn_session (conn r c))) f r of
           (r1, False) \<Rightarrow> edit_conn c (close_socket 1013 ''WorkerLink worker route is unavailable'') r1
         | (r1, True) \<Rightarrow>
             let r2 = relay_record c bw False (length (lf_bytes f))
                   (edit_conn c (\<lambda>cn. case im_get (cn_channels cn) i of
                        None \<Rightarrow> cn | Some ch \<Rightarrow> set_channel i (ch\<lparr>ch_delivered := int (h_sequence h)\<rparr>) cn) r1)
             in case h_kind h of CloseChannel _ \<Rightarrow> release_channel c i True r2 | _ \<Rightarrow> r2)"

definition stale_header :: "connection \<Rightarrow> link_header \<Rightarrow> bool" where
  "stale_header cn h \<longleftrightarrow>
     h_session h \<noteq> ls_id (cn_session cn) \<or> h_generation h \<noteq> ls_generation (cn_session cn) \<or> h_route h \<noteq> RouteRelay"

definition receive_client :: "link_codec \<Rightarrow> nat \<Rightarrow> byte list \<Rightarrow> bool \<Rightarrow> int \<Rightarrow> relay \<Rightarrow> relay" where
  "receive_client cd c bs binary now r =
     (if \<not> binary then edit_conn c (close_socket 1003 ''WorkerLink relay requires binary frames'') r
      else if cn_closed (conn r c) \<or> \<not> relay_current r c then r
      else case link_decode cd bs of
          Inl _ \<Rightarrow> edit_conn c (close_socket 1003 ''WorkerLink frame is invalid'') r
        | Inr f \<Rightarrow>
            if stale_header (conn r c) (lf_header f)
            then edit_conn c (close_socket 1008 ''WorkerLink frame identity is stale'') r
            else (case client_channel c (lf_header f) r of
                (r1, None) \<Rightarrow> r1
              | (r1, Some ch) \<Rightarrow>
                  (case relay_consume c (length (frame_payload f)) now (relay_record c (ch_bandwidth ch) True (length (lf_bytes f)) r1) of
                     (r2, False) \<Rightarrow> r2
                   | (r2, True) \<Rightarrow> forward_client c f (ch_bandwidth ch) r2)))"

fun first_answer :: "link_kind \<Rightarrow> bool" where
  "first_answer (AcceptChannel _) = True"
| "first_answer (RejectChannel _) = True"
| "first_answer _ = False"

fun ends_channel :: "link_kind \<Rightarrow> bool" where
  "ends_channel (CloseChannel _) = True"
| "ends_channel (RejectChannel _) = True"
| "ends_channel _ = False"

definition in_sequence :: "relay_channel \<Rightarrow> link_header \<Rightarrow> bool" where
  "in_sequence ch h \<longleftrightarrow>
     canonical (ch_header ch) = canonical h \<and> int (h_sequence h) = ch_worker ch + 1 \<and> first_answer (h_kind h) = (ch_worker ch < 0)"

definition forward_worker :: "(link_lane \<Rightarrow> lane_limit) \<Rightarrow> nat \<Rightarrow> link_frame \<Rightarrow> string \<Rightarrow> int \<Rightarrow> relay \<Rightarrow> relay" where
  "forward_worker limits c f bw now r =
     (let h = lf_header f
      in case relay_consume c (length (frame_payload f)) now (relay_record c bw True (length (lf_bytes f)) r) of
           (r1, False) \<Rightarrow> r1
         | (r1, True) \<Rightarrow>
             (case send_or_queue limits (h_lane h) bw f now (conn r1 c) of
                (cn, us, ok) \<Rightarrow>
                  let r2 = (edit_conn c (\<lambda>_. cn) r1)\<lparr>rl_usage := rl_usage r1 @ us\<rparr>
                  in if ok \<and> ends_channel (h_kind h) then release_channel c (channel_id (h_channel h)) False r2 else r2))"

definition receive_worker :: "(link_lane \<Rightarrow> lane_limit) \<Rightarrow> nat \<Rightarrow> link_frame \<Rightarrow> int \<Rightarrow> relay \<Rightarrow> relay" where
  "receive_worker limits c f now r =
     (let h = lf_header f; i = channel_id (h_channel h); cn = conn r c
      in if \<not> relay_current r c \<or> stale_header cn h then r
         else case im_get (cn_channels cn) i of
             Some ch \<Rightarrow>
               if \<not> in_sequence ch h then edit_conn c (close_socket 1008 ''WorkerLink worker frame is out of sequence'') r
               else let r1 = edit_conn c (set_channel i (ch\<lparr>ch_worker := int (h_sequence h)\<rparr>)) r
                 in if im_get (cn_closing cn) i \<noteq> None
                    then if ends_channel (h_kind h) then edit_conn c (\<lambda>cn. cn\<lparr>cn_closing := im_remove i (cn_closing cn)\<rparr>) r1 else r1
                    else forward_worker limits c f (ch_bandwidth ch) now r1
           | None \<Rightarrow>
               (case im_get (cn_closing cn) i of
                  None \<Rightarrow> edit_conn c (close_socket 1008 ''WorkerLink worker frame is out of sequence'') r
                | Some ch \<Rightarrow>
                    if \<not> in_sequence ch h then edit_conn c (close_socket 1008 ''WorkerLink worker frame is out of sequence'') r
                    else if ends_channel (h_kind h) then edit_conn c (\<lambda>cn. cn\<lparr>cn_closing := im_remove i (cn_closing cn)\<rparr>) r
                    else edit_conn c (\<lambda>cn. cn\<lparr>cn_closing := im_insert i (ch\<lparr>ch_worker := int (h_sequence h)\<rparr>) (cn_closing cn)\<rparr>) r))"

definition drained :: "int \<Rightarrow> connection \<Rightarrow> connection \<times> usage list" where
  "drained now cn =
     (if so_buffered (cn_socket cn) > max_buffered
      then ((case cn_stalled cn of
               Some t \<Rightarrow> if now - t \<ge> 5000 then close_socket 1013 ''WorkerLink relay client is too slow'' cn else schedule_drain cn
             | None \<Rightarrow> schedule_drain cn), [])
      else case drain_loop now cn of
          (cn', us, False) \<Rightarrow> (cn', us)
        | (cn', us, True) \<Rightarrow> (if cn_frames cn' = 0 then cn'\<lparr>cn_stalled := None\<rparr> else schedule_drain cn', us))"

definition drain :: "link_codec \<Rightarrow> nat \<Rightarrow> int \<Rightarrow> relay \<Rightarrow> relay" where
  "drain cd c now r =
     (if \<not> relay_current r c \<or> cn_closed (conn r c) then r
      else let r1 = edit_conn c (\<lambda>cn. cn\<lparr>cn_drain := False\<rparr>) r
        in if \<not> so_open (cn_socket (conn r1 c)) then retire_connection cd c r1
           else case drained now (conn r1 c) of (cn, us) \<Rightarrow> (edit_conn c (\<lambda>_. cn) r1)\<lparr>rl_usage := rl_usage r1 @ us\<rparr>)"

definition revoke_where :: "(link_session \<Rightarrow> bool) \<Rightarrow> string \<Rightarrow> relay \<Rightarrow> relay" where
  "revoke_where P reason r =
     fold (\<lambda>c r. if P (cn_session (conn r c)) then edit_conn c (close_socket 1008 reason) r else r) (map snd (rl_connections r)) r"

definition revoke_session :: "string \<Rightarrow> string \<Rightarrow> relay \<Rightarrow> relay" where
  "revoke_session i reason r =
     (case im_get (rl_connections r) i of None \<Rightarrow> r | Some c \<Rightarrow> edit_conn c (close_socket 1008 reason) r)"

definition revoke_account :: "string \<Rightarrow> relay \<Rightarrow> relay" where
  "revoke_account a = revoke_where (\<lambda>s. ls_account s = a) ''Account session ended''"

definition revoke_owner :: "string \<Rightarrow> relay \<Rightarrow> relay" where
  "revoke_owner ow = revoke_where (\<lambda>s. ls_owner s = ow) ''Account sessions ended''"

definition relay_close :: "link_codec \<Rightarrow> relay \<Rightarrow> relay" where
  "relay_close cd r =
     (if rl_closed r then r
      else fold (\<lambda>c r. retire_connection cd c (edit_conn c (close_socket 1001 ''Server is shutting down'') r))
             (map snd (rl_connections r)) (r\<lparr>rl_closed := True\<rparr>))"

definition worker_offline :: "nat \<Rightarrow> relay \<Rightarrow> relay" where
  "worker_offline c = edit_conn c (close_socket 1013 ''Worker is offline'')"

definition transport_ended :: "link_codec \<Rightarrow> nat \<Rightarrow> relay \<Rightarrow> relay" where
  "transport_ended cd c r = retire_connection cd c (edit_conn c (\<lambda>cn. cn\<lparr>cn_socket := (cn_socket cn)\<lparr>so_open := False\<rparr>\<rparr>) r)"

record link_counts =
  st_channels :: nat
  st_connections :: nat
  st_bytes :: nat
  st_frames :: nat
  st_lanes :: "link_lane \<Rightarrow> nat"

definition link_stats :: "relay \<Rightarrow> link_counts" where
  "link_stats r =
     (let cs = map (\<lambda>(_, c). conn r c) (rl_connections r)
      in \<lparr>st_channels = sum_list (map (length \<circ> cn_channels) cs), st_connections = length cs,
          st_bytes = sum_list (map cn_bytes cs), st_frames = sum_list (map cn_frames cs),
          st_lanes = (\<lambda>l. sum_list (map (\<lambda>cn. length (lq_frames (cn_lanes cn l))) cs))\<rparr>)"

end
