(* ===== verification/LinkSafety.thy ===== *)
theory LinkSafety
  imports LinkRelay
begin

text \<open>
  What the relay of the worker links keeps: the queues of a connection are counted and bounded and always have a drain
  coming, the Remote Surface permits are exactly those of the open surface channels, a client sees the frames of a
  channel in the worker's order, and a worker sees the client's. The step relation interleaves the operations of the
  relay with the transports, the worker bridge and the other holders of permits.
\<close>

section \<open>What a connection keeps\<close>

definition frame_size :: "string \<times> link_frame \<Rightarrow> nat" where
  "frame_size e = length (lf_bytes (snd e))"

definition lane_ok :: "(link_lane \<Rightarrow> lane_limit) \<Rightarrow> link_lane \<Rightarrow> lane_queue \<Rightarrow> bool" where
  "lane_ok limits l q \<longleftrightarrow>
     lq_bytes q = sum_list (map frame_size (lq_frames q)) \<and> lq_bytes q \<le> max_queued_bytes (limits l) \<and>
     length (lq_frames q) \<le> max_queued_frames (limits l) \<and> (\<forall>e \<in> set (lq_frames q). h_lane (lf_header (snd e)) = l)"

definition lane_bytes :: "connection \<Rightarrow> nat" where
  "lane_bytes cn = sum_list (map (\<lambda>l. lq_bytes (cn_lanes cn l)) lane_order)"

definition queues_ok :: "(link_lane \<Rightarrow> lane_limit) \<Rightarrow> connection \<Rightarrow> bool" where
  "queues_ok limits cn \<longleftrightarrow>
     (\<forall>l. lane_ok limits l (cn_lanes cn l)) \<and> cn_bytes cn = lane_bytes cn \<and> cn_frames cn = queued cn"

definition drain_comes :: "connection \<Rightarrow> bool" where
  "drain_comes cn \<longleftrightarrow> so_open (cn_socket cn) \<and> \<not> cn_closed cn \<and> cn_frames cn > 0 \<longrightarrow> cn_drain cn"

fun opens_surface :: "link_kind \<Rightarrow> bool" where
  "opens_surface (OpenChannel g _ _) = surface_kind (grant_resource g)"
| "opens_surface _ = False"

definition surface_channels :: "connection \<Rightarrow> string \<Rightarrow> string set" where
  "surface_channels cn g =
     {i. \<exists>ch. im_get (cn_channels cn) i = Some ch \<and> ch_grant ch = g \<and> opens_surface (h_kind (ch_header ch))}"

definition channels_ok :: "connection \<Rightarrow> bool" where
  "channels_ok cn \<longleftrightarrow>
     im_wf (cn_channels cn) \<and> im_wf (cn_closing cn) \<and> length (cn_closing cn) \<le> 1024 \<and>
     (\<forall>i ch. im_get (cn_channels cn) i = Some ch \<longrightarrow>
        channel_id (h_channel (ch_header ch)) = i \<and> -1 \<le> ch_worker ch \<and> im_get (cn_closing cn) i = None)"

definition surfaces_ok :: "connection \<Rightarrow> bool" where
  "surfaces_ok cn \<longleftrightarrow>
     im_wf (cn_surfaces cn) \<and>
     (\<forall>g. im_get (cn_surfaces cn) g = None \<longrightarrow> surface_channels cn g = {}) \<and>
     (\<forall>g sf. im_get (cn_surfaces cn) g = Some sf \<longrightarrow>
        set (sf_channels sf) = surface_channels cn g \<and> sf_channels sf \<noteq> [] \<and>
        sf_permit sf = \<lparr>permit_owner = ls_owner (cn_session cn), permit_worker = ls_worker (cn_session cn)\<rparr>)"

definition client_ok :: "connection \<Rightarrow> bool" where
  "client_ok cn \<longleftrightarrow>
     (so_open (cn_socket cn) \<longrightarrow> (\<forall>i ch. im_get (cn_channels cn) i = Some ch \<longrightarrow> ch_delivered ch = ch_client ch))"

fun out_frame :: "outgoing \<Rightarrow> link_frame list" where
  "out_frame (OutBinary f) = [f]"
| "out_frame _ = []"

definition sent_frames :: "connection \<Rightarrow> link_frame list" where
  "sent_frames cn = concat (map out_frame (so_out (cn_socket cn)))"

text \<open>The frames of a channel on their way to the client: those given to the socket, then those queued in its lane.\<close>

definition channel_frames :: "connection \<Rightarrow> link_header \<Rightarrow> link_frame list" where
  "channel_frames cn h =
     filter (\<lambda>f. canonical (lf_header f) = canonical h) (sent_frames cn @ map snd (lq_frames (cn_lanes cn (h_lane h))))"

definition worker_ok :: "connection \<Rightarrow> bool" where
  "worker_ok cn \<longleftrightarrow>
     (so_open (cn_socket cn) \<longrightarrow>
       (\<forall>i ch. im_get (cn_channels cn) i = Some ch \<longrightarrow>
          suffix [0..<nat (ch_worker ch + 1)] (map (h_sequence \<circ> lf_header) (channel_frames cn (ch_header ch)))))"

definition ended_ok :: "connection \<Rightarrow> bool" where
  "ended_ok cn \<longleftrightarrow> (cn_closed cn \<longrightarrow> cn_channels cn = [] \<and> cn_closing cn = [] \<and> cn_surfaces cn = [] \<and> cn_frames cn = 0)"

definition core_ok :: "(link_lane \<Rightarrow> lane_limit) \<Rightarrow> connection \<Rightarrow> bool" where
  "core_ok limits cn \<longleftrightarrow> queues_ok limits cn \<and> drain_comes cn \<and> channels_ok cn \<and> surfaces_ok cn \<and> ended_ok cn"

definition conn_ok :: "(link_lane \<Rightarrow> lane_limit) \<Rightarrow> connection \<Rightarrow> bool" where
  "conn_ok limits cn \<longleftrightarrow> core_ok limits cn \<and> client_ok cn \<and> worker_ok cn"

definition conn_permits :: "connection \<Rightarrow> surface_permit multiset" where
  "conn_permits cn = mset (map (sf_permit \<circ> snd) (cn_surfaces cn))"

subsection \<open>Changes of the socket\<close>

definition same_state :: "connection \<Rightarrow> connection \<Rightarrow> bool" where
  "same_state cn' cn \<longleftrightarrow>
     cn_session cn' = cn_session cn \<and> cn_closed cn' = cn_closed cn \<and> cn_channels cn' = cn_channels cn \<and> cn_closing cn' = cn_closing cn \<and>
     cn_lanes cn' = cn_lanes cn \<and> cn_surfaces cn' = cn_surfaces cn \<and> cn_bytes cn' = cn_bytes cn \<and> cn_frames cn' = cn_frames cn \<and>
     (so_open (cn_socket cn') \<longrightarrow> so_open (cn_socket cn) \<and> cn_drain cn' = cn_drain cn) \<and> sent_frames cn' = sent_frames cn"

lemma queues_ok_cong:
  "cn_lanes cn' = cn_lanes cn \<Longrightarrow> cn_bytes cn' = cn_bytes cn \<Longrightarrow> cn_frames cn' = cn_frames cn \<Longrightarrow> queues_ok limits cn' = queues_ok limits cn"
  by (simp add: queues_ok_def lane_bytes_def queued_def)

lemma surface_channels_cong: "cn_channels cn' = cn_channels cn \<Longrightarrow> surface_channels cn' = surface_channels cn"
  by (simp add: surface_channels_def fun_eq_iff)

lemma surfaces_ok_cong:
  "cn_surfaces cn' = cn_surfaces cn \<Longrightarrow> cn_channels cn' = cn_channels cn \<Longrightarrow> cn_session cn' = cn_session cn \<Longrightarrow>
   surfaces_ok cn' = surfaces_ok cn"
  by (simp add: surfaces_ok_def surface_channels_cong [of cn' cn])

lemma channels_ok_cong:
  "cn_channels cn' = cn_channels cn \<Longrightarrow> cn_closing cn' = cn_closing cn \<Longrightarrow> channels_ok cn' = channels_ok cn"
  by (simp add: channels_ok_def)

lemma channel_frames_cong:
  "cn_lanes cn' = cn_lanes cn \<Longrightarrow> sent_frames cn' = sent_frames cn \<Longrightarrow> channel_frames cn' = channel_frames cn"
  by (simp add: channel_frames_def fun_eq_iff)

lemma same_state_core: "same_state cn' cn \<Longrightarrow> core_ok limits cn \<Longrightarrow> core_ok limits cn'"
  using queues_ok_cong [of cn' cn limits] surfaces_ok_cong [of cn' cn] channels_ok_cong [of cn' cn]
  by (simp add: same_state_def core_ok_def drain_comes_def ended_ok_def)

lemma same_state_ok: "same_state cn' cn \<Longrightarrow> conn_ok limits cn \<Longrightarrow> conn_ok limits cn'"
  using same_state_core [of cn' cn limits] channel_frames_cong [of cn' cn]
  by (simp add: same_state_def conn_ok_def client_ok_def worker_ok_def)

lemma same_state_close: "same_state (close_socket code reason cn) cn"
  by (simp add: same_state_def close_socket_def socket_close_def sent_frames_def)

lemma same_state_stalled: "same_state (cn\<lparr>cn_stalled := t\<rparr>) cn"
  by (simp add: same_state_def sent_frames_def)

lemma closed_socket [simp]:
  "so_open (cn_socket (close_socket code reason cn)) = False" "cn_session (close_socket code reason cn) = cn_session cn"
  "cn_closed (close_socket code reason cn) = cn_closed cn" "conn_permits (close_socket code reason cn) = conn_permits cn"
  "cn_channels (close_socket code reason cn) = cn_channels cn" "sent_frames (close_socket code reason cn) = sent_frames cn"
  by (simp_all add: close_socket_def socket_close_def conn_permits_def sent_frames_def)

lemma close_ok: "conn_ok limits cn \<Longrightarrow> conn_ok limits (close_socket code reason cn)"
  by (rule same_state_ok [OF same_state_close])

subsection \<open>Queues\<close>

lemma lane_bytes_upd:
  "lane_bytes (cn\<lparr>cn_lanes := (cn_lanes cn)(l := q)\<rparr>) + lq_bytes (cn_lanes cn l) = lane_bytes cn + lq_bytes q"
  by (cases l) (simp_all add: lane_bytes_def lane_order_def)

lemma queued_upd:
  "queued (cn\<lparr>cn_lanes := (cn_lanes cn)(l := q)\<rparr>) + length (lq_frames (cn_lanes cn l)) = queued cn + length (lq_frames q)"
  by (cases l) (simp_all add: queued_def lane_order_def)

lemma schedule_fields [simp]:
  "cn_session (schedule_drain cn) = cn_session cn" "cn_socket (schedule_drain cn) = cn_socket cn" "cn_closed (schedule_drain cn) = cn_closed cn"
  "cn_channels (schedule_drain cn) = cn_channels cn" "cn_closing (schedule_drain cn) = cn_closing cn" "cn_lanes (schedule_drain cn) = cn_lanes cn"
  "cn_surfaces (schedule_drain cn) = cn_surfaces cn" "cn_bytes (schedule_drain cn) = cn_bytes cn" "cn_frames (schedule_drain cn) = cn_frames cn"
  "cn_drain (schedule_drain cn) \<longleftrightarrow> \<not> cn_closed cn \<or> cn_drain cn" "queued (schedule_drain cn) = queued cn"
  by (auto simp: schedule_drain_def queued_def)

lemma schedule_congs [simp]:
  "sent_frames (schedule_drain cn) = sent_frames cn" "channel_frames (schedule_drain cn) = channel_frames cn"
  "conn_permits (schedule_drain cn) = conn_permits cn" "lane_bytes (schedule_drain cn) = lane_bytes cn"
  by (simp_all add: sent_frames_def channel_frames_def fun_eq_iff conn_permits_def lane_bytes_def)

lemma push_queues:
  assumes "queues_ok limits cn" "h_lane (lf_header f) = l"
    and "length (lq_frames (cn_lanes cn l)) < max_queued_frames (limits l)"
    and "lq_bytes (cn_lanes cn l) + length (lf_bytes f) \<le> max_queued_bytes (limits l)"
  shows "queues_ok limits (push_frame l bw f now cn)"
proof -
  let ?q = "\<lparr>lq_bytes = lq_bytes (cn_lanes cn l) + length (lf_bytes f), lq_frames = lq_frames (cn_lanes cn l) @ [(bw, f)]\<rparr>"
  have "lane_ok limits l ?q"
    using assms by (auto simp: queues_ok_def lane_ok_def frame_size_def)
  then show ?thesis
    using assms(1) lane_bytes_upd [of cn l ?q] queued_upd [of cn l ?q]
    by (simp add: queues_ok_def push_frame_def Let_def lane_bytes_def queued_def)
qed

lemma pop_queues:
  assumes "queues_ok limits cn" "lq_frames (cn_lanes cn l) = (bw, f) # rest"
  shows "queues_ok limits (pop_frame l f rest cn)"
proof -
  let ?q = "\<lparr>lq_bytes = lq_bytes (cn_lanes cn l) - length (lf_bytes f), lq_frames = rest\<rparr>"
  have old: "lane_ok limits l (cn_lanes cn l)" using assms(1) by (simp add: queues_ok_def)
  then have b: "lq_bytes (cn_lanes cn l) = length (lf_bytes f) + sum_list (map frame_size rest)"
    by (simp add: lane_ok_def assms(2) frame_size_def)
  have "lane_ok limits l ?q" using old b by (auto simp: lane_ok_def assms(2))
  then show ?thesis
    using assms lane_bytes_upd [of cn l ?q] queued_upd [of cn l ?q] b
    by (simp add: queues_ok_def pop_frame_def Let_def lane_bytes_def queued_def) (intro conjI; linarith)
qed

lemma push_fields [simp]:
  "cn_session (push_frame l bw f now cn) = cn_session cn" "cn_socket (push_frame l bw f now cn) = cn_socket cn"
  "cn_closed (push_frame l bw f now cn) = cn_closed cn" "cn_channels (push_frame l bw f now cn) = cn_channels cn"
  "cn_closing (push_frame l bw f now cn) = cn_closing cn" "cn_surfaces (push_frame l bw f now cn) = cn_surfaces cn"
  "cn_drain (push_frame l bw f now cn) \<longleftrightarrow> \<not> cn_closed cn \<or> cn_drain cn" "cn_frames (push_frame l bw f now cn) = cn_frames cn + 1"
  by (simp_all add: push_frame_def Let_def)

lemma pop_fields [simp]:
  "cn_session (pop_frame l f rest cn) = cn_session cn" "cn_socket (pop_frame l f rest cn) = cn_socket cn"
  "cn_closed (pop_frame l f rest cn) = cn_closed cn" "cn_channels (pop_frame l f rest cn) = cn_channels cn"
  "cn_closing (pop_frame l f rest cn) = cn_closing cn" "cn_surfaces (pop_frame l f rest cn) = cn_surfaces cn"
  "cn_drain (pop_frame l f rest cn) = cn_drain cn" "sent_frames (pop_frame l f rest cn) = sent_frames cn"
  by (simp_all add: pop_frame_def Let_def sent_frames_def)

text \<open>What sending leaves alone; a frame the socket takes is the only change while it stays open.\<close>

definition same_channels :: "connection \<Rightarrow> connection \<Rightarrow> bool" where
  "same_channels cn' cn \<longleftrightarrow>
     cn_session cn' = cn_session cn \<and> cn_closed cn' = cn_closed cn \<and> cn_channels cn' = cn_channels cn \<and> cn_closing cn' = cn_closing cn \<and>
     cn_surfaces cn' = cn_surfaces cn \<and> (so_open (cn_socket cn') \<longrightarrow> so_open (cn_socket cn))"

lemma same_channels_refl [simp]: "same_channels cn cn"
  by (simp add: same_channels_def)

lemma same_channels_trans: "same_channels a b \<Longrightarrow> same_channels b c \<Longrightarrow> same_channels a c"
  by (simp add: same_channels_def)

lemma same_channels_client: "same_channels cn' cn \<Longrightarrow> client_ok cn \<Longrightarrow> client_ok cn'"
  by (simp add: same_channels_def client_ok_def)

lemma same_channels_core:
  "same_channels cn' cn \<Longrightarrow> core_ok limits cn \<Longrightarrow> queues_ok limits cn' \<Longrightarrow> drain_comes cn' \<Longrightarrow>
   (cn_closed cn \<Longrightarrow> cn_frames cn' = 0) \<Longrightarrow> core_ok limits cn'"
  using surfaces_ok_cong [of cn' cn] channels_ok_cong [of cn' cn]
  by (simp add: same_channels_def core_ok_def ended_ok_def)

lemma send_now_cases:
  obtains (sent) s where "socket_send f (cn_socket cn) = (s, True)"
      "send_now bw f cn = (cn\<lparr>cn_socket := s\<rparr>, [(ls_owner (cn_session cn), bw, False, length (lf_bytes f))], True)"
      "so_open (cn_socket cn)" "so_open s" "so_out s = so_out (cn_socket cn) @ [OutBinary f]"
    | (failed) "send_now bw f cn = (close_socket 1011 ''WorkerLink relay send failed'' cn, [], False)"
proof (cases "so_open (cn_socket cn) \<and> so_receiver (cn_socket cn)")
  case True
  let ?s = "(cn_socket cn)\<lparr>so_buffered := so_buffered (cn_socket cn) + framed_size (length (lf_bytes f)),
      so_out := so_out (cn_socket cn) @ [OutBinary f]\<rparr>"
  show ?thesis using True by (intro sent [of ?s]) (simp_all add: socket_send_def send_now_def)
next
  case False
  show ?thesis using False by (intro failed) (auto simp: socket_send_def send_now_def)
qed

lemma sent_socket:
  "so_out s = so_out (cn_socket cn) @ [OutBinary f] \<Longrightarrow> sent_frames (cn\<lparr>cn_socket := s\<rparr>) = sent_frames cn @ [f]"
  by (simp add: sent_frames_def)

lemma send_or_queue_cases:
  assumes "send_or_queue limits l bw f now cn = (cn', us, ok)"
  obtains (gone) "\<not> so_open (cn_socket cn)" "cn' = cn" "\<not> ok"
    | (closed) code reason where "cn' = close_socket code reason cn" "\<not> ok"
    | (queue) "cn' = push_frame l bw f now cn" "so_open (cn_socket cn)" "ok"
        "length (lq_frames (cn_lanes cn l)) < max_queued_frames (limits l)"
        "lq_bytes (cn_lanes cn l) + length (lf_bytes f) \<le> max_queued_bytes (limits l)"
    | (direct) s where "cn' = cn\<lparr>cn_socket := s\<rparr>" "so_open (cn_socket cn)" "so_open s" "ok" "lq_frames (cn_lanes cn l) = []"
        "so_out s = so_out (cn_socket cn) @ [OutBinary f]"
proof (cases "so_open (cn_socket cn)")
  case False
  show ?thesis by (rule gone) (use assms False in \<open>auto simp: send_or_queue_def\<close>)
next
  case op: True
  show ?thesis
  proof (cases "lq_frames (cn_lanes cn l) \<noteq> [] \<or> so_buffered (cn_socket cn) > max_buffered")
    case True
    show ?thesis
    proof (cases "length (lq_frames (cn_lanes cn l)) \<ge> max_queued_frames (limits l) \<or>
        lq_bytes (cn_lanes cn l) + length (lf_bytes f) > max_queued_bytes (limits l)")
      case full: True
      show ?thesis
        by (rule closed [of 1013 "''WorkerLink relay lane is congested''"])
          (use assms op True full in \<open>auto simp: send_or_queue_def Let_def\<close>)
    next
      case room: False
      show ?thesis by (rule queue) (use assms op True room in \<open>auto simp: send_or_queue_def Let_def\<close>)
    qed
  next
    case False
    then have sn: "send_now bw f cn = (cn', us, ok)" and e: "lq_frames (cn_lanes cn l) = []"
      using assms op by (simp_all add: send_or_queue_def Let_def)
    show ?thesis
    proof (cases rule: send_now_cases [of f cn bw])
      case (sent s)
      show ?thesis by (rule direct [of s]) (use sent sn e op in auto)
    next
      case failed
      show ?thesis by (rule closed [of 1011 "''WorkerLink relay send failed''"]) (use failed sn in auto)
    qed
  qed
qed

lemma send_or_queue_core:
  assumes "send_or_queue limits l bw f now cn = (cn', us, ok)" "core_ok limits cn" "\<not> cn_closed cn" "h_lane (lf_header f) = l"
  shows "core_ok limits cn' \<and> same_channels cn' cn"
  using assms(1)
proof (cases rule: send_or_queue_cases)
  case gone
  then show ?thesis using assms by simp
next
  case closed
  then show ?thesis
    using same_state_core [OF same_state_close assms(2)] by (simp add: same_channels_def close_socket_def socket_close_def)
next
  case queue
  then have s: "same_channels cn' cn" by (simp add: same_channels_def)
  show ?thesis
    using same_channels_core [OF s assms(2)] push_queues [of limits cn f l] queue s assms
    by (simp add: core_ok_def drain_comes_def)
next
  case direct
  then have s: "same_channels cn' cn" by (simp add: same_channels_def)
  show ?thesis
    using same_channels_core [OF s assms(2)] direct s assms queues_ok_cong [of cn' cn limits]
    by (simp add: core_ok_def drain_comes_def)
qed

lemma send_or_queue_frames:
  assumes "send_or_queue limits l bw f now cn = (cn', us, ok)" "so_open (cn_socket cn')" "h_lane (lf_header f) = l"
  shows "channel_frames cn' h = channel_frames cn h @ (if canonical (lf_header f) = canonical h then [f] else [])"
  using assms(1)
proof (cases rule: send_or_queue_cases)
  case queue
  have "sent_frames cn' = sent_frames cn" using queue by (simp add: sent_frames_def)
  then show ?thesis using queue assms(3) by (auto simp: channel_frames_def push_frame_def Let_def canonical_def)
next
  case direct
  have "sent_frames cn' = sent_frames cn @ [f]" using direct sent_socket by simp
  then show ?thesis using direct assms(3) by (auto simp: channel_frames_def canonical_def)
qed (use assms(2) in auto)

section \<open>Draining\<close>

definition drain_rel :: "(link_lane \<Rightarrow> lane_limit) \<Rightarrow> connection \<Rightarrow> connection \<Rightarrow> bool" where
  "drain_rel limits cn cn' \<longleftrightarrow>
     same_channels cn' cn \<and> cn_drain cn' = cn_drain cn \<and> queues_ok limits cn' \<and>
     (so_open (cn_socket cn') \<longrightarrow> channel_frames cn' = channel_frames cn)"

lemma drain_rel_trans: "drain_rel limits a b \<Longrightarrow> drain_rel limits b c \<Longrightarrow> drain_rel limits a c"
  by (auto simp: drain_rel_def same_channels_def)

lemma pop_channel_frames:
  assumes "queues_ok limits cn" "lq_frames (cn_lanes cn l) = (bw, f) # rest" "so_out s = so_out (cn_socket cn) @ [OutBinary f]"
  shows "channel_frames ((pop_frame l f rest cn)\<lparr>cn_socket := s\<rparr>) = channel_frames cn"
proof -
  have "h_lane (lf_header f) = l" using assms(1,2) by (auto simp: queues_ok_def lane_ok_def dest!: spec [of _ l])
  moreover have "sent_frames ((pop_frame l f rest cn)\<lparr>cn_socket := s\<rparr>) = sent_frames cn @ [f]"
    using assms(3) by (simp add: sent_frames_def)
  ultimately show ?thesis
    using assms(2) by (auto simp: channel_frames_def fun_eq_iff pop_frame_def Let_def canonical_def)
qed

lemma pop_send:
  assumes "queues_ok limits cn" "lq_frames (cn_lanes cn l) = (bw, f) # rest" "send_now bw f (pop_frame l f rest cn) = (cn', us, ok)"
  shows "drain_rel limits cn cn' \<and> (\<not> ok \<longrightarrow> \<not> so_open (cn_socket cn'))"
proof -
  let ?p = "pop_frame l f rest cn"
  have q: "queues_ok limits ?p" using pop_queues [OF assms(1,2)] .
  show ?thesis
  proof (rule send_now_cases [of f ?p bw])
    fix s assume s: "send_now bw f ?p = (?p\<lparr>cn_socket := s\<rparr>, [(ls_owner (cn_session ?p), bw, False, length (lf_bytes f))], True)"
      "so_open (cn_socket ?p)" "so_open s" "so_out s = so_out (cn_socket ?p) @ [OutBinary f]"
    have "queues_ok limits (?p\<lparr>cn_socket := s\<rparr>)" using q queues_ok_cong [of "?p\<lparr>cn_socket := s\<rparr>" ?p limits] by simp
    then show ?thesis
      using s assms(3) pop_channel_frames [OF assms(1,2), of s] by (auto simp: drain_rel_def same_channels_def)
  next
    assume "send_now bw f ?p = (close_socket 1011 ''WorkerLink relay send failed'' ?p, [], False)"
    then show ?thesis
      using assms(3) q queues_ok_cong [of "close_socket 1011 ''WorkerLink relay send failed'' ?p" ?p limits]
      by (auto simp: drain_rel_def same_channels_def close_socket_def socket_close_def)
  qed
qed

lemma drain_rel_stalled: "drain_rel limits cn cn' \<Longrightarrow> drain_rel limits cn (cn'\<lparr>cn_stalled := t\<rparr>)"
  using queues_ok_cong [of "cn'\<lparr>cn_stalled := t\<rparr>" cn' limits] channel_frames_cong [of "cn'\<lparr>cn_stalled := t\<rparr>" cn']
  by (simp add: drain_rel_def same_channels_def sent_frames_def)

lemma drain_rel_refl: "queues_ok limits cn \<Longrightarrow> drain_rel limits cn cn"
  by (simp add: drain_rel_def)

lemma drain_rel_queues: "drain_rel limits cn cn' \<Longrightarrow> queues_ok limits cn'"
  by (simp add: drain_rel_def)

lemma drain_pass_rel:
  "queues_ok limits cn \<Longrightarrow> drain_pass ls now sent cn = (cn', us, p) \<Longrightarrow>
   drain_rel limits cn cn' \<and> (p = Failed_send \<longrightarrow> \<not> so_open (cn_socket cn')) \<and>
   (p = Passed False \<longrightarrow> \<not> sent \<and> cn' = cn \<and> (\<forall>l \<in> set ls. lq_frames (cn_lanes cn l) = []))"
proof (induction ls arbitrary: sent cn cn' us p)
  case Nil
  then show ?case using drain_rel_refl [of limits cn] by auto
next
  case (Cons l ls)
  show ?case
  proof (cases "lq_frames (cn_lanes cn l)")
    case Nil
    with Cons.prems Cons.IH [of cn sent cn' us p] show ?thesis by simp
  next
    case q: (Cons e rest)
    obtain bw f where e: "e = (bw, f)" by (cases e)
    have lane: "lq_frames (cn_lanes cn l) = (bw, f) # rest" using q e by simp
    obtain cm um b where sn: "send_now bw f (pop_frame l f rest cn) = (cm, um, b)" by (metis prod_cases3)
    have rel: "drain_rel limits cn cm" and fail: "\<not> b \<Longrightarrow> \<not> so_open (cn_socket cm)"
      using pop_send [OF Cons.prems(1) lane sn] by simp_all
    let ?cm = "cm\<lparr>cn_stalled := Some now\<rparr>"
    have rel': "drain_rel limits cn ?cm" using drain_rel_stalled [OF rel] .
    obtain cz uz pz where dz: "drain_pass ls now True ?cm = (cz, uz, pz)" by (metis prod_cases3)
    have z: "drain_rel limits ?cm cz \<and> (pz = Failed_send \<longrightarrow> \<not> so_open (cn_socket cz)) \<and> pz \<noteq> Passed False"
      using Cons.IH [OF drain_rel_queues [OF rel'] dz] by auto
    show ?thesis
      using Cons.prems(2) lane sn rel rel' fail dz z drain_rel_trans [OF rel', of cz]
      by (auto simp: Let_def split: bool.splits if_splits)
  qed
qed

lemma lanes_cover: "l \<in> set lane_order"
  by (cases l) (simp_all add: lane_order_def)

lemma drain_loop_rel:
  "queues_ok limits cn \<Longrightarrow> drain_loop now cn = (cn', us, ok) \<Longrightarrow>
   drain_rel limits cn cn' \<and> (\<not> ok \<longrightarrow> \<not> so_open (cn_socket cn')) \<and>
   (ok \<longrightarrow> so_buffered (cn_socket cn') > max_buffered \<or> queued cn' = 0)"
proof (induction now cn arbitrary: cn' us ok rule: drain_loop.induct)
  case (1 now cn)
  show ?case
  proof (cases "so_buffered (cn_socket cn) > max_buffered")
    case True
    then show ?thesis using 1(2,3) drain_rel_refl [of limits cn] by (simp add: drain_loop.simps)
  next
    case False
    obtain cm um p where dp: "drain_pass lane_order now False cn = (cm, um, p)" by (metis prod_cases3)
    note rel = drain_pass_rel [OF 1(2) dp]
    show ?thesis
    proof (cases "p = Passed True")
      case True
      obtain cz uz b where dz: "drain_loop now cm = (cz, uz, b)" by (metis prod_cases3)
      have eqs: "cn' = cz" "ok = b" using 1(3) False dp True dz by (simp_all add: drain_loop.simps [of now cn])
      have "queues_ok limits cm" using rel by (simp add: drain_rel_def)
      then have step: "drain_rel limits cm cz \<and> (\<not> b \<longrightarrow> \<not> so_open (cn_socket cz)) \<and>
          (b \<longrightarrow> so_buffered (cn_socket cz) > max_buffered \<or> queued cz = 0)"
        by (rule 1(1) [OF False dp [symmetric] refl True refl _ dz])
      have "drain_rel limits cn cm" using rel by simp
      then have "drain_rel limits cn cz" using step drain_rel_trans by blast
      with step show ?thesis unfolding eqs by simp
    next
      case np: False
      have "queued cm = 0" if "p = Passed False"
        using rel that lanes_cover by (auto simp: queued_def)
      then show ?thesis
        using 1(3) False dp np rel by (auto simp: drain_loop.simps [of now cn] split: pass.splits bool.splits)
    qed
  qed
qed

lemma drain_rel_ok:
  assumes "drain_rel limits cn cn'" "core_ok limits cn0" "client_ok cn0" "worker_ok cn0" "\<not> cn_closed cn0"
    and "cn = cn0\<lparr>cn_drain := False\<rparr>" "drain_comes cn'"
  shows "conn_ok limits cn'"
proof -
  have s: "same_channels cn' cn0" using assms(1,6) by (simp add: drain_rel_def same_channels_def)
  have f: "channel_frames cn = channel_frames cn0"
    by (rule channel_frames_cong) (simp_all add: assms(6) sent_frames_def)
  have "core_ok limits cn'"
    using same_channels_core [OF s assms(2)] assms(1,5,7) by (simp add: drain_rel_def)
  moreover have "worker_ok cn'"
    using assms(1,4) s f by (simp add: worker_ok_def drain_rel_def same_channels_def)
  ultimately show ?thesis using same_channels_client [OF s assms(3)] by (simp add: conn_ok_def)
qed

lemma schedule_rel: "drain_rel limits cn cn' \<Longrightarrow> queues_ok limits (schedule_drain cn') \<and> same_channels (schedule_drain cn') cn"
  using queues_ok_cong [of "schedule_drain cn'" cn' limits] by (simp add: drain_rel_def same_channels_def)

lemma conn_ok_drain:
  assumes "conn_ok limits cn0" "same_channels cn' cn0" "queues_ok limits cn'" "drain_comes cn'" "\<not> cn_closed cn0"
    and "so_open (cn_socket cn') \<Longrightarrow> channel_frames cn' = channel_frames cn0"
  shows "conn_ok limits cn'"
  using assms same_channels_core [OF assms(2)] same_channels_client [OF assms(2)]
  by (simp add: conn_ok_def worker_ok_def same_channels_def)

lemma drained_ok:
  assumes "conn_ok limits cn0" "\<not> cn_closed cn0" "so_open (cn_socket cn0)" "drained now (cn0\<lparr>cn_drain := False\<rparr>) = (cn', us)"
  shows "conn_ok limits cn' \<and> same_channels cn' cn0"
proof -
  let ?cn = "cn0\<lparr>cn_drain := False\<rparr>"
  have q0: "queues_ok limits ?cn" using assms(1) queues_ok_cong [of ?cn cn0 limits] by (simp add: conn_ok_def core_ok_def)
  have f0: "channel_frames ?cn = channel_frames cn0" by (rule channel_frames_cong) (simp_all add: sent_frames_def)
  have *: "conn_ok limits cn' \<and> same_channels cn' cn0"
    if "drain_rel limits ?cn cm" "cn' = cm \<or> cn' = schedule_drain cm \<or> cn' = cm\<lparr>cn_stalled := None\<rparr>" "drain_comes cn'" for cm
  proof -
    have "queues_ok limits cn'" "same_channels cn' cn0" "so_open (cn_socket cn') \<Longrightarrow> channel_frames cn' = channel_frames cn0"
      using that schedule_rel [OF that(1)] drain_rel_stalled [OF that(1), of None] f0
      by (auto simp: drain_rel_def same_channels_def)
    then show ?thesis using conn_ok_drain [OF assms(1)] that(3) assms(2) by blast
  qed
  have cl: "drain_rel limits ?cn (close_socket code reason ?cn)" for code reason
    using q0 queues_ok_cong [of "close_socket code reason ?cn" ?cn limits]
    by (simp add: drain_rel_def same_channels_def close_socket_def socket_close_def)
  show ?thesis
  proof (cases "so_buffered (cn_socket ?cn) > max_buffered")
    case True
    have "cn' = schedule_drain ?cn \<or> (\<exists>code reason. cn' = close_socket code reason ?cn)"
      using assms(4) True by (auto simp: drained_def split: option.splits if_splits)
    then show ?thesis
    proof (elim disjE exE)
      assume "cn' = schedule_drain ?cn"
      then show ?thesis using assms(2) by (intro * [OF drain_rel_refl [OF q0]]) (simp_all add: drain_comes_def)
    next
      fix code reason assume "cn' = close_socket code reason ?cn"
      then show ?thesis by (intro * [OF cl [of code reason]]) (simp_all add: drain_comes_def)
    qed
  next
    case False
    obtain cm um b where dl: "drain_loop now ?cn = (cm, um, b)" by (metis prod_cases3)
    note rel = drain_loop_rel [OF q0 dl]
    have nc: "\<not> cn_closed cm" using rel assms(2) by (simp add: drain_rel_def same_channels_def)
    have "cn' = (if \<not> b then cm else if cn_frames cm = 0 then cm\<lparr>cn_stalled := None\<rparr> else schedule_drain cm)"
      using assms(4) False dl by (auto simp: drained_def split: bool.splits)
    then show ?thesis
      using rel nc by (intro * [of cm]) (auto simp: drain_comes_def)
  qed
qed

end
