(* ===== verification/LinkMoves.thy ===== *)
theory LinkMoves
  imports LinkSafety
begin

text \<open>
  How the frame handlers of the relay move one connection of the store: what every handler leaves alone (\<open>moves\<close>), and that
  it keeps what a connection keeps.
\<close>

section \<open>Moves of one connection\<close>

definition moves :: "nat \<Rightarrow> relay \<Rightarrow> relay \<Rightarrow> bool" where
  "moves c r r' \<longleftrightarrow>
     length (rl_store r') = length (rl_store r) \<and> (\<forall>d. d \<noteq> c \<longrightarrow> conn r' d = conn r d) \<and>
     rl_connections r' = rl_connections r \<and> rl_closed r' = rl_closed r \<and>
     cn_session (conn r' c) = cn_session (conn r c) \<and> cn_closed (conn r' c) = cn_closed (conn r c) \<and>
     (so_open (cn_socket (conn r' c)) \<longrightarrow> so_open (cn_socket (conn r c))) \<and>
     (\<forall>X. surfaces_match (rl_quotas r) (conn_permits (conn r c) + X) \<longrightarrow> surfaces_match (rl_quotas r') (conn_permits (conn r' c) + X))"

lemma moves_refl [simp]: "moves c r r"
  by (simp add: moves_def)

lemma moves_trans [trans]: "moves c r r1 \<Longrightarrow> moves c r1 r2 \<Longrightarrow> moves c r r2"
  by (simp add: moves_def)

lemma moves_length: "moves c r r' \<Longrightarrow> length (rl_store r') = length (rl_store r)"
  by (simp add: moves_def)

lemma conn_edit [simp]: "c < length (rl_store r) \<Longrightarrow> conn (edit_conn c f r) c = f (conn r c)"
  by (simp add: edit_conn_def)

lemma conn_edit_other [simp]: "d \<noteq> c \<Longrightarrow> conn (edit_conn c f r) d = conn r d"
  by (simp add: edit_conn_def)

lemma edit_fields [simp]:
  "length (rl_store (edit_conn c f r)) = length (rl_store r)" "rl_connections (edit_conn c f r) = rl_connections r"
  "rl_closed (edit_conn c f r) = rl_closed r" "rl_quotas (edit_conn c f r) = rl_quotas r" "rl_sent (edit_conn c f r) = rl_sent r"
  "rl_online (edit_conn c f r) = rl_online r" "rl_usage (edit_conn c f r) = rl_usage r"
  by (simp_all add: edit_conn_def)

lemma moves_edit:
  assumes "c < length (rl_store r)"
    and "cn_session (f (conn r c)) = cn_session (conn r c)" "cn_closed (f (conn r c)) = cn_closed (conn r c)"
    and "so_open (cn_socket (f (conn r c))) \<Longrightarrow> so_open (cn_socket (conn r c))" "conn_permits (f (conn r c)) = conn_permits (conn r c)"
  shows "moves c r (edit_conn c f r)"
  using assms by (auto simp: moves_def)

lemma moves_close: "c < length (rl_store r) \<Longrightarrow> moves c r (edit_conn c (close_socket code reason) r)"
  by (rule moves_edit) simp_all

lemma moves_usage: "moves c r r' \<Longrightarrow> moves c r (r'\<lparr>rl_usage := u\<rparr>)"
  by (simp add: moves_def)

lemma moves_record [simp]: "moves c r (relay_record d bw b n r)"
  by (simp add: moves_def relay_record_def)

lemma record_fields [simp]:
  "rl_store (relay_record d bw b n r) = rl_store r" "rl_sent (relay_record d bw b n r) = rl_sent r"
  "rl_online (relay_record d bw b n r) = rl_online r" "rl_connections (relay_record d bw b n r) = rl_connections r"
  by (simp_all add: relay_record_def)

lemma consume_surfaces:
  "consume_relay_at q ow wk n now = (q', b) \<Longrightarrow> surfaces_match q ps \<Longrightarrow> surfaces_match q' ps"
  using surfaces_match_frame [of q ps q'] by (auto simp: consume_relay_at_def split: if_splits)

lemma consume_moves:
  assumes "relay_consume c n now r = (r', ok)" "c < length (rl_store r)"
  shows "moves c r r' \<and> rl_sent r' = rl_sent r \<and> rl_online r' = rl_online r \<and>
    (if ok then conn r' c = conn r c
     else conn r' c = close_socket 1013 ''WorkerLink relay bandwidth quota reached'' (conn r c))"
proof (cases "n = 0")
  case False
  obtain q b where cq: "consume_relay_at (rl_quotas r) (ls_owner (cn_session (conn r c))) (ls_worker (cn_session (conn r c))) n now = (q, b)"
    by fastforce
  note keep = consume_surfaces [OF cq]
  have m: "moves c r (r\<lparr>rl_quotas := q\<rparr>)" using keep by (simp add: moves_def)
  show ?thesis
    using assms False cq m moves_trans [OF m moves_close]
    by (cases b) (auto simp: relay_consume_def)
qed (use assms in \<open>simp add: relay_consume_def\<close>)

section \<open>Channels\<close>

lemma set_channel_fields [simp]:
  "cn_session (set_channel i ch cn) = cn_session cn" "cn_closed (set_channel i ch cn) = cn_closed cn"
  "cn_socket (set_channel i ch cn) = cn_socket cn" "cn_lanes (set_channel i ch cn) = cn_lanes cn"
  "cn_surfaces (set_channel i ch cn) = cn_surfaces cn" "cn_closing (set_channel i ch cn) = cn_closing cn"
  "cn_bytes (set_channel i ch cn) = cn_bytes cn" "cn_frames (set_channel i ch cn) = cn_frames cn"
  "cn_drain (set_channel i ch cn) = cn_drain cn" "cn_channels (set_channel i ch cn) = im_insert i ch (cn_channels cn)"
  "conn_permits (set_channel i ch cn) = conn_permits cn" "sent_frames (set_channel i ch cn) = sent_frames cn"
  "queues_ok limits (set_channel i ch cn) = queues_ok limits cn" "drain_comes (set_channel i ch cn) = drain_comes cn"
  "channel_frames (set_channel i ch cn) = channel_frames cn"
  by (simp_all add: set_channel_def conn_permits_def sent_frames_def queues_ok_def drain_comes_def lane_bytes_def queued_def
      channel_frames_def fun_eq_iff)

lemma channels_wf: "core_ok limits cn \<Longrightarrow> im_wf (cn_channels cn)"
  by (simp add: core_ok_def channels_ok_def)

lemma channel_open: "core_ok limits cn \<Longrightarrow> im_get (cn_channels cn) i = Some ch \<Longrightarrow> \<not> cn_closed cn"
  by (auto simp: core_ok_def ended_ok_def)

lemma surface_channels_set:
  assumes "im_wf (cn_channels cn)"
  shows "surface_channels (set_channel i ch cn) g =
    (if ch_grant ch = g \<and> opens_surface (h_kind (ch_header ch)) then insert i (surface_channels cn g) else surface_channels cn g - {i})"
  using assms by (auto simp: surface_channels_def store_simps split: if_splits)

lemma set_channel_core:
  assumes "core_ok limits cn" "im_get (cn_channels cn) i = Some ch"
    and "ch_header ch' = ch_header ch" "ch_grant ch' = ch_grant ch" "-1 \<le> ch_worker ch'"
  shows "core_ok limits (set_channel i ch' cn)"
proof -
  have wf: "im_wf (cn_channels cn)" using channels_wf [OF assms(1)] .
  have "surface_channels (set_channel i ch' cn) g = surface_channels cn g" for g
    using assms(2-4) unfolding surface_channels_set [OF wf] by (auto simp: surface_channels_def)
  then have "surfaces_ok (set_channel i ch' cn)" using assms(1) by (simp add: core_ok_def surfaces_ok_def)
  moreover have "channels_ok (set_channel i ch' cn)"
    using assms wf by (auto simp: core_ok_def channels_ok_def store_simps split: if_splits)
  moreover have "ended_ok (set_channel i ch' cn)" using channel_open [OF assms(1,2)] by (simp add: ended_ok_def)
  ultimately show ?thesis using assms(1) by (simp add: core_ok_def)
qed

lemma set_channel_worker:
  assumes "worker_ok cn" "im_wf (cn_channels cn)" "im_get (cn_channels cn) i = Some ch"
    and "ch_header ch' = ch_header ch" "ch_worker ch' = ch_worker ch"
  shows "worker_ok (set_channel i ch' cn)"
  using assms by (auto simp: worker_ok_def store_simps split: if_splits)

text \<open>Between the acceptance of a client's frame and its delivery only that channel may lag.\<close>

definition client_but :: "string \<Rightarrow> connection \<Rightarrow> bool" where
  "client_but i cn \<longleftrightarrow>
     (so_open (cn_socket cn) \<longrightarrow> (\<forall>j ch. j \<noteq> i \<longrightarrow> im_get (cn_channels cn) j = Some ch \<longrightarrow> ch_delivered ch = ch_client ch))"

lemma client_but_ok: "client_ok cn \<Longrightarrow> im_wf (cn_channels cn) \<Longrightarrow> client_but i (set_channel i ch cn)"
  by (simp add: client_ok_def client_but_def store_simps)

lemma client_but_delivered:
  "client_but i cn \<Longrightarrow> im_wf (cn_channels cn) \<Longrightarrow> ch_delivered ch = ch_client ch \<Longrightarrow> client_ok (set_channel i ch cn)"
  by (auto simp: client_ok_def client_but_def store_simps split: if_splits)

definition accepted :: "(link_lane \<Rightarrow> lane_limit) \<Rightarrow> string \<Rightarrow> int \<Rightarrow> relay_channel \<Rightarrow> connection \<Rightarrow> bool" where
  "accepted limits i n ch cn \<longleftrightarrow>
     core_ok limits cn \<and> worker_ok cn \<and> client_but i cn \<and> im_get (cn_channels cn) i = Some ch \<and> ch_client ch = n"

subsection \<open>Opening\<close>

definition set_surface :: "string \<Rightarrow> surface \<Rightarrow> connection \<Rightarrow> connection" where
  "set_surface g sf cn = cn\<lparr>cn_surfaces := im_insert g sf (cn_surfaces cn)\<rparr>"

lemma set_surface_fields [simp]:
  "cn_session (set_surface g sf cn) = cn_session cn" "cn_closed (set_surface g sf cn) = cn_closed cn"
  "cn_socket (set_surface g sf cn) = cn_socket cn" "cn_lanes (set_surface g sf cn) = cn_lanes cn"
  "cn_surfaces (set_surface g sf cn) = im_insert g sf (cn_surfaces cn)" "cn_closing (set_surface g sf cn) = cn_closing cn"
  "cn_channels (set_surface g sf cn) = cn_channels cn" "cn_frames (set_surface g sf cn) = cn_frames cn"
  "queues_ok limits (set_surface g sf cn) = queues_ok limits cn" "drain_comes (set_surface g sf cn) = drain_comes cn"
  "channels_ok (set_surface g sf cn) = channels_ok cn" "client_ok (set_surface g sf cn) = client_ok cn"
  "worker_ok (set_surface g sf cn) = worker_ok cn" "surface_channels (set_surface g sf cn) = surface_channels cn"
  by (simp_all add: set_surface_def queues_ok_def drain_comes_def channels_ok_def client_ok_def worker_ok_def lane_bytes_def queued_def
      surface_channels_def fun_eq_iff channel_frames_def sent_frames_def)

lemma insert_absent: "im_get m k = None \<Longrightarrow> im_insert k v m = m @ [(k, v)]"
  by (induction m) (auto simp: im_get_def im_insert_def split: if_splits)

lemma insert_same_image: "im_get m k = Some w \<Longrightarrow> f v = f w \<Longrightarrow> map (f \<circ> snd) (im_insert k v m) = map (f \<circ> snd) m"
  by (induction m) (auto simp: im_get_def im_insert_def split: if_splits)

lemma remove_image:
  "im_wf m \<Longrightarrow> im_get m k = Some w \<Longrightarrow> mset (map (f \<circ> snd) m) = add_mset (f w) (mset (map (f \<circ> snd) (im_remove k m)))"
proof (induction m)
  case (Cons e m)
  show ?case
  proof (cases "fst e = k")
    case True
    then have "k \<notin> fst ` set m" using Cons.prems(1) by (auto simp: im_wf_def)
    then have "AList.delete k (e # m) = m" using True by (cases e) simp
    then show ?thesis using True Cons.prems(2) by (cases e) (simp add: im_remove_def im_get_def)
  next
    case False
    then show ?thesis using Cons by (cases e) (auto simp: im_remove_def im_get_def im_wf_def)
  qed
qed (simp add: im_get_def)

lemma permits_fresh:
  "im_get (cn_surfaces cn) g = None \<Longrightarrow> conn_permits (set_surface g sf cn) = add_mset (sf_permit sf) (conn_permits cn)"
  by (simp add: conn_permits_def insert_absent)

lemma permits_kept:
  "im_get (cn_surfaces cn) g = Some sf \<Longrightarrow> sf_permit sf' = sf_permit sf \<Longrightarrow> conn_permits (set_surface g sf' cn) = conn_permits cn"
  using insert_same_image [of "cn_surfaces cn" g sf sf_permit sf'] by (simp add: conn_permits_def)

lemma opened_channels:
  assumes "core_ok limits cn" "im_get (cn_channels cn) i = None" "im_get (cn_closing cn) i = None"
    and "h_kind h = OpenChannel g nn cr" "i = channel_id (h_channel h)"
  shows "channels_ok (set_channel i (open_channel h g) cn)"
  using assms by (auto simp: core_ok_def channels_ok_def open_channel_def store_simps split: if_splits)

lemma opened_ok:
  assumes "conn_ok limits cn" "\<not> cn_closed cn" "im_get (cn_channels cn) i = None" "im_get (cn_closing cn) i = None"
    and h: "h_kind h = OpenChannel g nn cr" "i = channel_id (h_channel h)"
    and cn': "cn' = set_channel i (open_channel h g) cn0"
    and cn0: "if surface_kind (grant_resource g)
      then \<exists>sf. cn0 = set_surface (grant_id g) sf cn \<and> set (sf_channels sf) = insert i (surface_channels cn (grant_id g)) \<and>
        sf_permit sf = \<lparr>permit_owner = ls_owner (cn_session cn), permit_worker = ls_worker (cn_session cn)\<rparr>
      else cn0 = cn"
  shows "accepted limits i (int (h_sequence h)) (open_channel h g) cn'"
proof -
  have core: "core_ok limits cn" and cl: "client_ok cn" and wk: "worker_ok cn" using assms(1) by (simp_all add: conn_ok_def)
  have wf: "im_wf (cn_channels cn)" and swf: "im_wf (cn_surfaces cn)" using core by (simp_all add: core_ok_def channels_ok_def surfaces_ok_def)
  have parts: "cn_channels cn0 = cn_channels cn" "cn_closing cn0 = cn_closing cn" "cn_session cn0 = cn_session cn"
    "cn_closed cn0 = cn_closed cn" "queues_ok limits cn0 = queues_ok limits cn" "drain_comes cn0 = drain_comes cn"
    "client_ok cn0 = client_ok cn" "worker_ok cn0 = worker_ok cn" "surface_channels cn0 = surface_channels cn"
    using cn0 by (auto split: if_splits)
  have i_new: "i \<notin> surface_channels cn k" for k using assms(3) by (simp add: surface_channels_def)
  have sc: "surface_channels cn' k =
      (if grant_id g = k \<and> surface_kind (grant_resource g) then insert i (surface_channels cn k) else surface_channels cn k)" for k
    using surface_channels_set [of cn0 i "open_channel h g" k] wf i_new [of k] parts h(1) unfolding cn'
    by (simp add: open_channel_def)
  have so: "surfaces_ok cn'"
    using core cn0 swf unfolding surfaces_ok_def sc
    by (auto simp: core_ok_def surfaces_ok_def cn' store_simps split: if_splits)
  have ch: "channels_ok cn'"
    using opened_channels [OF core assms(3,4) h(1,2)] parts unfolding cn' by (simp add: channels_ok_def)
  have "worker_ok cn'"
    using wk parts wf unfolding cn' by (auto simp: worker_ok_def store_simps open_channel_def split: if_splits)
  moreover have "client_but i cn'" using cl parts wf unfolding cn' by (intro client_but_ok) simp_all
  moreover have "core_ok limits cn'"
    using so ch core parts assms(2) unfolding cn' by (simp add: core_ok_def ended_ok_def)
  ultimately show ?thesis
    using wf parts unfolding accepted_def cn' by (simp add: store_simps open_channel_def)
qed

lemma acquired_permit:
  "acquire_surface q ow wk = (q', Inr p) \<Longrightarrow> p = \<lparr>permit_owner = ow, permit_worker = wk\<rparr>"
  by (erule acquire_surface_cases) simp_all

lemma retain_moves:
  assumes "retain_surface c g i r = (r', ok)" "c < length (rl_store r)" "conn_ok limits (conn r c)"
  shows "moves c r r' \<and> rl_sent r' = rl_sent r \<and> rl_online r' = rl_online r \<and>
    (if \<not> ok then conn r' c = conn r c
     else if surface_kind (grant_resource g)
      then \<exists>sf. conn r' c = set_surface (grant_id g) sf (conn r c) \<and> set (sf_channels sf) = insert i (surface_channels (conn r c) (grant_id g)) \<and>
        sf_permit sf = \<lparr>permit_owner = ls_owner (cn_session (conn r c)), permit_worker = ls_worker (cn_session (conn r c))\<rparr>
      else conn r' c = conn r c)"
proof -
  let ?cn = "conn r c" and ?k = "grant_id g"
  let ?ow = "ls_owner (cn_session ?cn)" and ?wk = "ls_worker (cn_session ?cn)"
  have so: "surfaces_ok ?cn" using assms(3) by (simp add: conn_ok_def core_ok_def)
  consider (plain) "\<not> surface_kind (grant_resource g)"
    | (kept) sf where "surface_kind (grant_resource g)" "im_get (cn_surfaces ?cn) ?k = Some sf"
    | (fresh) "surface_kind (grant_resource g)" "im_get (cn_surfaces ?cn) ?k = None"
    by (cases "im_get (cn_surfaces ?cn) ?k") auto
  then show ?thesis
  proof cases
    case plain
    then show ?thesis using assms(1) by (simp add: retain_surface_def)
  next
    case kept
    let ?sf = "sf\<lparr>sf_channels := List.insert i (sf_channels sf)\<rparr>"
    have r': "r' = edit_conn c (set_surface ?k ?sf) r" "ok"
      using assms(1) kept by (auto simp: retain_surface_def set_surface_def [abs_def])
    have "moves c r r'" unfolding r'(1)
      using kept(2) assms(2) by (intro moves_edit) (simp_all add: permits_kept)
    then show ?thesis using r' kept assms(2) so by (auto simp: surfaces_ok_def)
  next
    case fresh
    obtain q res where aq: "acquire_surface (rl_quotas r) ?ow ?wk = (q, res)" by fastforce
    note sm = surfaces_match_acquire [OF _ aq]
    have none: "surface_channels ?cn ?k = {}" using so fresh(2) by (simp add: surfaces_ok_def)
    show ?thesis
    proof (cases res)
      case (Inl e)
      then have r': "r' = r\<lparr>rl_quotas := q\<rparr>" "\<not> ok" using assms(1) fresh aq by (simp_all add: retain_surface_def)
      have "moves c r r'" unfolding r' using sm Inl by (simp add: moves_def)
      then show ?thesis using r' by simp
    next
      case (Inr p)
      let ?sf = "\<lparr>sf_channels = [i], sf_permit = p\<rparr>"
      have r': "r' = edit_conn c (set_surface ?k ?sf) (r\<lparr>rl_quotas := q\<rparr>)" "ok"
        using assms(1) fresh aq Inr by (auto simp: retain_surface_def set_surface_def [abs_def])
      have cn': "conn r' c = set_surface ?k ?sf ?cn" using r' assms(2) by simp
      have "moves c r r'"
        using sm Inr permits_fresh [OF fresh(2), of ?sf] cn' by (auto simp: moves_def r'(1) ac_simps)
      then show ?thesis
        using fresh(1) cn' r' none aq Inr acquired_permit [of "rl_quotas r" ?ow ?wk q p] by auto
    qed
  qed
qed

subsection \<open>Client frames\<close>

lemma client_channel_moves:
  assumes "client_channel c h r = (r', res)" "c < length (rl_store r)" "conn_ok limits (conn r c)" "\<not> cn_closed (conn r c)"
  shows "moves c r r' \<and> rl_sent r' = rl_sent r \<and> rl_online r' = rl_online r \<and>
    (case res of None \<Rightarrow> conn_ok limits (conn r' c) \<and> \<not> so_open (cn_socket (conn r' c))
     | Some ch \<Rightarrow> accepted limits (channel_id (h_channel h)) (int (h_sequence h)) ch (conn r' c) \<and> cn_socket (conn r' c) = cn_socket (conn r c) \<and>
         (case im_get (cn_channels (conn r c)) (channel_id (h_channel h)) of
            None \<Rightarrow> \<exists>g nn cr. h_kind h = OpenChannel g nn cr
          | Some ch0 \<Rightarrow> ch = ch0\<lparr>ch_client := int (h_sequence h)\<rparr> \<and> int (h_sequence h) = ch_client ch0 + 1))"
proof -
  let ?cn = "conn r c" and ?i = "channel_id (h_channel h)"
  have wf: "im_wf (cn_channels ?cn)" using assms(3) by (simp add: conn_ok_def core_ok_def channels_ok_def)
  have refuse: ?thesis if "r' = edit_conn c (close_socket code reason) r" "res = None" for code reason
    using that assms(2,3) moves_close [OF assms(2)] close_ok [OF assms(3)] by simp
  have known: ?thesis if nk: "im_get (cn_channels ?cn) ?i = Some ch0" "int (h_sequence h) = ch_client ch0 + 1"
      "r' = edit_conn c (set_channel ?i (ch0\<lparr>ch_client := int (h_sequence h)\<rparr>)) r" "res = Some (ch0\<lparr>ch_client := int (h_sequence h)\<rparr>)" for ch0
  proof -
    let ?ch = "ch0\<lparr>ch_client := int (h_sequence h)\<rparr>"
    have core: "core_ok limits ?cn" and ok: "client_ok ?cn" "worker_ok ?cn" using assms(3) by (simp_all add: conn_ok_def)
    have w: "-1 \<le> ch_worker ch0" using core nk(1) by (simp add: core_ok_def channels_ok_def)
    have "accepted limits ?i (int (h_sequence h)) ?ch (set_channel ?i ?ch ?cn)"
      using set_channel_core [OF core nk(1), of ?ch] set_channel_worker [OF ok(2) wf nk(1), of ?ch] client_but_ok [OF ok(1) wf] w wf
      by (simp add: accepted_def store_simps)
    moreover have "moves c r r'" unfolding nk(3) using assms(2) by (intro moves_edit) simp_all
    ultimately show ?thesis using nk assms(2) by simp
  qed
  show ?thesis
  proof (cases "\<exists>g nn cr. h_kind h = OpenChannel g nn cr")
    case True
    then obtain g nn cr where k: "h_kind h = OpenChannel g nn cr" by blast
    obtain r1 ok where rs: "retain_surface c g ?i r = (r1, ok)" by fastforce
    show ?thesis
    proof (cases "im_get (cn_channels ?cn) ?i \<noteq> None \<or> im_get (cn_closing ?cn) ?i \<noteq> None")
      case True
      then show ?thesis using assms(1) k by (intro refuse) (auto simp: client_channel_def Let_def)
    next
      case new: False
      note m = retain_moves [OF rs assms(2,3)]
      have len: "c < length (rl_store r1)" using m assms(2) by (simp add: moves_def)
      show ?thesis
      proof (cases ok)
        case False
        then have "r' = edit_conn c (close_socket 1013 ''WorkerLink Remote Surface relay quota reached'') r1" "res = None"
          using assms(1) k new rs by (auto simp: client_channel_def Let_def)
        then show ?thesis
          using m False len moves_trans [OF _ moves_close [OF len]] close_ok [OF assms(3)] by simp
      next
        case True
        have r': "r' = edit_conn c (set_channel ?i (open_channel h g)) r1" "res = Some (open_channel h g)"
          using assms(1) k new rs True by (auto simp: client_channel_def Let_def)
        have "accepted limits ?i (int (h_sequence h)) (open_channel h g) (conn r' c)"
          using m True new r'(1) len assms(3,4) k by (intro opened_ok [of limits ?cn ?i h g nn cr _ "conn r1 c"]) simp_all
        moreover have "moves c r1 r'" unfolding r'(1) using len by (intro moves_edit) simp_all
        moreover have "cn_socket (conn r1 c) = cn_socket ?cn" using m True by (auto split: if_splits)
        ultimately show ?thesis using m r' len k new moves_trans [of c r r1 r'] by auto
      qed
    qed
  next
    case False
    then have cc: "client_channel c h r = (case im_get (cn_channels ?cn) ?i of
        None \<Rightarrow> (edit_conn c (close_socket 1008 ''WorkerLink channel sequence is invalid'') r, None)
      | Some ch \<Rightarrow> if int (h_sequence h) \<noteq> ch_client ch + 1
          then (edit_conn c (close_socket 1008 ''WorkerLink channel sequence is invalid'') r, None)
          else (edit_conn c (set_channel ?i (ch\<lparr>ch_client := int (h_sequence h)\<rparr>)) r, Some (ch\<lparr>ch_client := int (h_sequence h)\<rparr>)))"
      by (cases "h_kind h") (simp_all add: client_channel_def Let_def)
    show ?thesis
    proof (cases "im_get (cn_channels ?cn) ?i")
      case None
      then show ?thesis using assms(1) cc by (intro refuse) auto
    next
      case (Some ch0)
      then show ?thesis using assms(1) cc refuse known [OF Some] by (cases "int (h_sequence h) = ch_client ch0 + 1") auto
    qed
  qed
qed

subsection \<open>Release\<close>

definition unlisted :: "string \<Rightarrow> relay_channel \<Rightarrow> bool \<Rightarrow> connection \<Rightarrow> connection" where
  "unlisted i ch await cn = release_closing i ch await (cn\<lparr>cn_channels := im_remove i (cn_channels cn)\<rparr>)"

lemma unlisted_fields [simp]:
  "cn_session (unlisted i ch await cn) = cn_session cn" "cn_closed (unlisted i ch await cn) = cn_closed cn"
  "cn_socket (unlisted i ch await cn) = cn_socket cn" "cn_lanes (unlisted i ch await cn) = cn_lanes cn"
  "cn_surfaces (unlisted i ch await cn) = cn_surfaces cn" "cn_frames (unlisted i ch await cn) = cn_frames cn"
  "cn_channels (unlisted i ch await cn) = im_remove i (cn_channels cn)" "sent_frames (unlisted i ch await cn) = sent_frames cn"
  "queues_ok limits (unlisted i ch await cn) = queues_ok limits cn" "drain_comes (unlisted i ch await cn) = drain_comes cn"
  "conn_permits (unlisted i ch await cn) = conn_permits cn" "channel_frames (unlisted i ch await cn) = channel_frames cn"
  by (simp_all add: unlisted_def release_closing_def Let_def queues_ok_def drain_comes_def lane_bytes_def queued_def conn_permits_def
      sent_frames_def channel_frames_def fun_eq_iff)

lemma closing_insert:
  assumes "im_wf m" "length m \<le> 1024" "im_get m i = None"
    and m': "m' = (let closing = im_insert i ch m in if length closing > 1024 then tl closing else closing)"
  shows "im_wf m'" "length m' \<le> 1024" "j \<noteq> i \<Longrightarrow> im_get m j = None \<Longrightarrow> im_get m' j = None"
proof -
  have e: "im_insert i ch m = m @ [(i, ch)]" using assms(3) by (rule insert_absent)
  have wf: "im_wf (m @ [(i, ch)])" using assms(1) im.wf_put [of m i ch] e by simp
  have eq: "m' = m @ [(i, ch)] \<or> m' = tl (m @ [(i, ch)])" and "length m' \<le> 1024"
    using assms(2) unfolding m' e by (simp_all add: Let_def)
  then show "length m' \<le> 1024" by simp
  show "im_wf m'" using wf eq by (cases m) (auto simp: im_wf_def)
  show "j \<noteq> i \<Longrightarrow> im_get m j = None \<Longrightarrow> im_get m' j = None"
    using eq by (cases m) (auto simp: im_get_def map_of_eq_None_iff split: if_splits)
qed

lemma unlisted_channels:
  assumes "core_ok limits cn" "im_get (cn_channels cn) i = Some ch"
  shows "channels_ok (unlisted i ch await cn)"
proof -
  have ok: "im_wf (cn_channels cn)" "im_wf (cn_closing cn)" "length (cn_closing cn) \<le> 1024" "im_get (cn_closing cn) i = None"
    and all: "\<And>j c. im_get (cn_channels cn) j = Some c \<Longrightarrow>
      channel_id (h_channel (ch_header c)) = j \<and> -1 \<le> ch_worker c \<and> im_get (cn_closing cn) j = None"
    using assms by (auto simp: core_ok_def channels_ok_def)
  have clo: "cn_closing (unlisted i ch await cn) =
      (if await then (let closing = im_insert i ch (cn_closing cn) in if length closing > 1024 then tl closing else closing) else cn_closing cn)"
    by (simp add: unlisted_def release_closing_def Let_def)
  note ins = closing_insert [OF ok(2,3,4) refl, where ch = ch]
  show ?thesis
    unfolding channels_ok_def clo using ok all ins by (auto simp: store_simps split: if_splits)
qed

lemma unlisted_surfaces:
  "im_wf (cn_channels cn) \<Longrightarrow> surface_channels (unlisted i ch await cn) g = surface_channels cn g - {i}"
  by (auto simp: surface_channels_def store_simps split: if_splits)

lemma released_ok:
  assumes "conn_ok limits cn" "im_get (cn_channels cn) i = Some ch"
    and "im_wf sfs" "cn' = (unlisted i ch await cn)\<lparr>cn_surfaces := sfs\<rparr>"
    and sfs: "\<And>g. (im_get sfs g = None \<longrightarrow> surface_channels cn g - {i} = {}) \<and>
      (\<forall>sf. im_get sfs g = Some sf \<longrightarrow> set (sf_channels sf) = surface_channels cn g - {i} \<and> sf_channels sf \<noteq> [] \<and>
         sf_permit sf = \<lparr>permit_owner = ls_owner (cn_session cn), permit_worker = ls_worker (cn_session cn)\<rparr>)"
  shows "conn_ok limits cn'"
proof -
  let ?u = "unlisted i ch await cn"
  have core: "core_ok limits cn" and cl: "client_ok cn" and wk: "worker_ok cn" using assms(1) by (simp_all add: conn_ok_def)
  have wf: "im_wf (cn_channels cn)" by (rule channels_wf [OF core])
  have sc: "surface_channels cn' g = surface_channels cn g - {i}" for g
    using unlisted_surfaces [OF wf] surface_channels_cong [of cn' ?u] by (simp add: assms(4))
  have "surfaces_ok cn'" using sfs assms(3) by (simp add: surfaces_ok_def sc) (simp add: assms(4))
  moreover have "channels_ok cn'" using unlisted_channels [OF core assms(2)] channels_ok_cong [of cn' ?u] by (simp add: assms(4))
  moreover have "queues_ok limits cn'" using core queues_ok_cong [of cn' ?u limits] by (simp add: assms(4) core_ok_def)
  moreover have "drain_comes cn'" "ended_ok cn'"
    using core channel_open [OF core assms(2)] by (simp_all add: assms(4) core_ok_def drain_comes_def ended_ok_def unlisted_def release_closing_def Let_def)
  moreover have "client_ok cn'" using cl wf by (simp add: assms(4) client_ok_def store_simps)
  moreover have "worker_ok cn'"
    using wk wf channel_frames_cong [of cn' ?u] by (simp add: assms(4) worker_ok_def store_simps sent_frames_def)
  ultimately show ?thesis by (simp add: conn_ok_def core_ok_def)
qed

lemma release_moves:
  assumes "c < length (rl_store r)" "conn_ok limits (conn r c)"
  shows "moves c r (release_channel c i await r) \<and> conn_ok limits (conn (release_channel c i await r) c) \<and> rl_sent (release_channel c i await r) = rl_sent r \<and>
    cn_socket (conn (release_channel c i await r) c) = cn_socket (conn r c)"
proof (cases "im_get (cn_channels (conn r c)) i")
  case None
  then show ?thesis using assms by (simp add: release_channel_def)
next
  case (Some ch)
  let ?cn = "conn r c" and ?u = "unlisted i ch await (conn r c)" and ?r = "edit_conn c (unlisted i ch await) r" and ?g = "ch_grant ch"
  have rel: "release_channel c i await r = release_surface c ?g i ?r"
    using Some by (simp add: release_channel_def unlisted_def [abs_def])
  have so: "surfaces_ok ?cn" using assms(2) by (simp add: conn_ok_def core_ok_def)
  then have swf: "im_wf (cn_surfaces ?cn)" by (simp add: surfaces_ok_def)
  have u: "conn ?r c = ?u" "c < length (rl_store ?r)" using assms(1) by simp_all
  have mu: "moves c r ?r" using assms(1) by (intro moves_edit) simp_all
  have others: "g \<noteq> ?g \<Longrightarrow> surface_channels ?cn g - {i} = surface_channels ?cn g" for g
    using Some by (auto simp: surface_channels_def)
  show ?thesis
  proof (cases "im_get (cn_surfaces ?cn) ?g")
    case None
    then have eq: "release_channel c i await r = ?r" using u by (simp add: rel release_surface_def)
    have "surface_channels ?cn ?g = {}" using so None by (simp add: surfaces_ok_def)
    then have "surface_channels ?cn g - {i} = surface_channels ?cn g" for g using others [of g] by auto
    then have "conn_ok limits ?u"
      using so swf by (intro released_ok [OF assms(2) Some swf, where await = await]) (auto simp: surfaces_ok_def)
    then show ?thesis using eq mu u by simp
  next
    case sf: (Some sf)
    let ?rest = "removeAll i (sf_channels sf)"
    have set_sf: "set (sf_channels sf) = surface_channels ?cn ?g"
      and pm: "sf_permit sf = \<lparr>permit_owner = ls_owner (cn_session ?cn), permit_worker = ls_worker (cn_session ?cn)\<rparr>"
      using so sf by (auto simp: surfaces_ok_def)
    show ?thesis
    proof (cases "?rest = []")
      case True
      let ?f = "\<lambda>cn. cn\<lparr>cn_surfaces := im_remove ?g (cn_surfaces cn)\<rparr>"
      have eq: "release_channel c i await r = edit_conn c ?f (?r\<lparr>rl_quotas := drop_permit (rl_quotas r) (sf_permit sf)\<rparr>)"
        using u sf True by (simp add: rel release_surface_def Let_def)
      have cn': "conn (release_channel c i await r) c = ?f ?u" using eq u by simp
      have empty: "surface_channels ?cn ?g - {i} = {}" using True set_sf by (metis set_empty2 set_removeAll)
      have "conn_ok limits (?f ?u)"
        using so swf empty others
        by (intro released_ok [OF assms(2) Some im.wf_del [OF swf, of ?g], where await = await]) (auto simp: surfaces_ok_def store_simps)
      moreover have "conn_permits ?cn = add_mset (sf_permit sf) (conn_permits (?f ?u))"
        using remove_image [OF swf sf, of sf_permit] by (simp add: conn_permits_def)
      then have "moves c r (release_channel c i await r)"
        using cn' surfaces_match_drop [of "rl_quotas r" "sf_permit sf"] by (auto simp: moves_def eq)
      ultimately show ?thesis using cn' eq by simp
    next
      case False
      let ?sf = "sf\<lparr>sf_channels := ?rest\<rparr>"
      let ?f = "\<lambda>cn. cn\<lparr>cn_surfaces := im_insert ?g ?sf (cn_surfaces cn)\<rparr>"
      have eq: "release_channel c i await r = edit_conn c ?f ?r" using u sf False by (simp add: rel release_surface_def Let_def)
      have cn': "conn (release_channel c i await r) c = ?f ?u" using eq u by simp
      have "conn_ok limits (?f ?u)"
        using so swf set_sf pm False others
        by (intro released_ok [OF assms(2) Some im.wf_put [OF swf, of ?g ?sf], where await = await]) (auto simp: surfaces_ok_def store_simps)
      moreover have "conn_permits (?f ?u) = conn_permits ?cn"
        using insert_same_image [OF sf, of sf_permit ?sf] by (simp add: conn_permits_def)
      then have "moves c ?r (release_channel c i await r)" unfolding eq using u by (intro moves_edit) (simp_all add: conn_permits_def)
      ultimately show ?thesis using cn' eq moves_trans [OF mu] by simp
    qed
  qed
qed

subsection \<open>Frames handed on\<close>

lemma moves_sent: "moves c r r' \<Longrightarrow> moves c r (r'\<lparr>rl_sent := u\<rparr>)"
  by (simp add: moves_def)

lemma accepted_closed:
  assumes "accepted limits i n ch cn"
  shows "conn_ok limits (close_socket code reason cn)"
proof -
  have "core_ok limits (close_socket code reason cn)"
    using assms same_state_core [OF same_state_close] by (simp add: accepted_def)
  then show ?thesis by (simp add: conn_ok_def client_ok_def worker_ok_def)
qed

lemma forward_client_moves:
  assumes "accepted limits i (int (h_sequence (lf_header f))) ch (conn r c)" "i = channel_id (h_channel (lf_header f))" "c < length (rl_store r)"
    and r'_def: "r' = forward_client c f bw r"
  shows "moves c r r' \<and> conn_ok limits (conn r' c) \<and>
    (rl_sent r' = rl_sent r \<and> \<not> so_open (cn_socket (conn r' c)) \<or> rl_sent r' = rl_sent r @ [(ls_worker (cn_session (conn r c)), f)])"
proof (cases "ls_worker (cn_session (conn r c)) \<in> set (rl_online r)")
  case False
  then have "r' = edit_conn c (close_socket 1013 ''WorkerLink worker route is unavailable'') r"
    by (simp add: r'_def forward_client_def bridge_send_def Let_def)
  then show ?thesis using moves_close [OF assms(3)] accepted_closed [OF assms(1)] assms(3) by simp
next
  case True
  let ?n = "int (h_sequence (lf_header f))" and ?w = "ls_worker (cn_session (conn r c))"
  let ?ch = "ch\<lparr>ch_delivered := ?n\<rparr>" and ?r1 = "r\<lparr>rl_sent := rl_sent r @ [(?w, f)]\<rparr>"
  let ?f = "\<lambda>cn. case im_get (cn_channels cn) i of None \<Rightarrow> cn | Some ch \<Rightarrow> set_channel i (ch\<lparr>ch_delivered := ?n\<rparr>) cn"
  let ?r2 = "relay_record c bw False (length (lf_bytes f)) (edit_conn c ?f ?r1)"
  have ac: "core_ok limits (conn r c)" "worker_ok (conn r c)" "client_but i (conn r c)" "im_get (cn_channels (conn r c)) i = Some ch" "ch_client ch = ?n"
    using assms(1) by (simp_all add: accepted_def)
  have wf: "im_wf (cn_channels (conn r c))" by (rule channels_wf [OF ac(1)])
  have r': "r' = ?r2 \<or> r' = release_channel c i True ?r2"
    using True assms(2) by (auto simp: r'_def forward_client_def bridge_send_def Let_def split: link_kind.split)
  have cn2: "conn ?r2 c = set_channel i ?ch (conn r c)" using assms(3) ac(4) by simp
  have w: "-1 \<le> ch_worker ch" using ac(1,4) by (simp add: core_ok_def channels_ok_def)
  have ok2: "conn_ok limits (conn ?r2 c)" unfolding cn2
    using set_channel_core [OF ac(1,4), of ?ch] set_channel_worker [OF ac(2) wf ac(4), of ?ch] client_but_delivered [OF ac(3) wf, of ?ch] ac(5) w
    by (simp add: conn_ok_def)
  have "moves c r ?r1" by (simp add: moves_sent)
  also have "moves c ?r1 (edit_conn c ?f ?r1)" using assms(3) ac(4) by (intro moves_edit) simp_all
  also have "moves c (edit_conn c ?f ?r1) ?r2" by simp
  finally have m2: "moves c r ?r2" .
  have len: "c < length (rl_store ?r2)" using assms(3) by simp
  show ?thesis
    using r' m2 ok2 release_moves [OF len ok2, of i True] moves_trans [OF m2] by auto
qed

lemma receive_client_moves:
  assumes "c < length (rl_store r)" "conn_ok limits (conn r c)"
    and r'_def: "r' = receive_client cd c bs binary now r"
  shows "moves c r r' \<and> conn_ok limits (conn r' c) \<and>
    (rl_sent r' = rl_sent r \<or>
      (\<exists>f. link_decode cd bs = Inr f \<and> relay_current r c \<and> \<not> cn_closed (conn r c) \<and> \<not> stale_header (conn r c) (lf_header f) \<and>
         rl_sent r' = rl_sent r @ [(ls_worker (cn_session (conn r c)), f)] \<and>
         (case im_get (cn_channels (conn r c)) (channel_id (h_channel (lf_header f))) of
            None \<Rightarrow> \<exists>g nn cr. h_kind (lf_header f) = OpenChannel g nn cr
          | Some ch \<Rightarrow> int (h_sequence (lf_header f)) = ch_client ch + 1)))"
proof -
  let ?cn = "conn r c"
  have refuse: ?thesis if "r' = edit_conn c (close_socket code reason) r" for code reason
    using that moves_close [OF assms(1)] close_ok [OF assms(2)] assms(1) by simp
  show ?thesis
  proof (cases "\<not> binary \<or> cn_closed ?cn \<or> \<not> relay_current r c")
    case True
    then show ?thesis using refuse assms(2) by (auto simp: r'_def receive_client_def)
  next
    case go: False
    show ?thesis
    proof (cases "link_decode cd bs")
      case (Inl e)
      then show ?thesis using go by (intro refuse) (simp add: r'_def receive_client_def)
    next
      case (Inr f)
      let ?i = "channel_id (h_channel (lf_header f))"
      show ?thesis
      proof (cases "stale_header ?cn (lf_header f)")
        case True
        then show ?thesis using go Inr by (intro refuse) (simp add: r'_def receive_client_def)
      next
        case fresh: False
        obtain r1 res where cc: "client_channel c (lf_header f) r = (r1, res)" by fastforce
        note m1 = client_channel_moves [OF cc assms(1,2)]
        show ?thesis
        proof (cases res)
          case None
          then show ?thesis using go Inr fresh cc m1 by (simp add: r'_def receive_client_def)
        next
          case (Some ch)
          let ?q = "relay_record c (ch_bandwidth ch) True (length (lf_bytes f)) r1"
          have len: "c < length (rl_store ?q)" using m1 go assms(1) by (simp add: moves_def)
          have mq: "moves c r ?q" using m1 go moves_trans [of c r r1 ?q] by simp
          obtain r2 ok where cs: "relay_consume c (length (frame_payload f)) now ?q = (r2, ok)" by fastforce
          note m2 = consume_moves [OF cs len]
          have ac: "accepted limits ?i (int (h_sequence (lf_header f))) ch (conn ?q c)" using m1 go Some by simp
          show ?thesis
          proof (cases ok)
            case False
            then show ?thesis
              using go Inr fresh cc Some cs m1 m2 mq accepted_closed [OF ac] moves_trans [of c r ?q r2]
              by (simp add: r'_def receive_client_def)
          next
            case True
            then have eq: "r' = forward_client c f (ch_bandwidth ch) r2" using go Inr fresh cc Some cs by (simp add: r'_def receive_client_def)
            have len2: "c < length (rl_store r2)" using m2 len by (simp add: moves_def)
            have ac2: "accepted limits ?i (int (h_sequence (lf_header f))) ch (conn r2 c)" using ac m2 True by simp
            note fw = forward_client_moves [OF ac2 refl len2 eq]
            have mr2: "moves c r r2" using moves_trans [OF mq] m2 by simp
            have mv: "moves c r r'" using moves_trans [OF mr2] fw by simp
            have wk: "cn_session (conn r2 c) = cn_session ?cn" using mr2 by (simp add: moves_def)
            have st: "rl_sent r2 = rl_sent r" using m1 m2 go by simp
            have seq: "case im_get (cn_channels ?cn) ?i of
                None \<Rightarrow> \<exists>g nn cr. h_kind (lf_header f) = OpenChannel g nn cr
              | Some ch \<Rightarrow> int (h_sequence (lf_header f)) = ch_client ch + 1"
              using m1 go Some by (cases "im_get (cn_channels ?cn) ?i") simp_all
            have "rl_sent r' = rl_sent r \<or> rl_sent r' = rl_sent r @ [(ls_worker (cn_session ?cn), f)]"
              using fw st wk by auto
            then show ?thesis using mv fw Inr fresh go seq by blast
          qed
        qed
      qed
    qed
  qed
qed

lemma suffix_snoc: "suffix xs ys \<Longrightarrow> suffix (xs @ [x]) (ys @ [x])"
  by (auto simp: suffix_def)

lemma worker_extended:
  assumes ok: "conn_ok limits cn" and ch: "im_get (cn_channels cn) i = Some ch" and seq: "in_sequence ch (lf_header f)"
    and sq: "send_or_queue limits (h_lane (lf_header f)) bw f now (set_channel i (ch\<lparr>ch_worker := int (h_sequence (lf_header f))\<rparr>) cn) = (cn', us, done1)"
  shows "conn_ok limits cn' \<and> same_channels cn' (set_channel i (ch\<lparr>ch_worker := int (h_sequence (lf_header f))\<rparr>) cn)"
proof -
  let ?h = "lf_header f"
  let ?ch = "ch\<lparr>ch_worker := int (h_sequence ?h)\<rparr>" and ?cn = "set_channel i (ch\<lparr>ch_worker := int (h_sequence ?h)\<rparr>) cn"
  have core: "core_ok limits cn" and cl: "client_ok cn" and wk: "worker_ok cn" using ok by (simp_all add: conn_ok_def)
  have wf: "im_wf (cn_channels cn)" by (rule channels_wf [OF core])
  have core1: "core_ok limits ?cn" by (rule set_channel_core [OF core ch]) simp_all
  have open1: "\<not> cn_closed ?cn" using channel_open [OF core ch] by simp
  note sc = send_or_queue_core [OF sq core1 open1 refl]
  have cl1: "client_ok ?cn" using cl ch wf by (auto simp: client_ok_def store_simps split: if_splits)
  have id: "channel_id (h_channel (ch_header x)) = j" if "im_get (cn_channels cn) j = Some x" for j x
    using core that by (simp add: core_ok_def channels_ok_def)
  have "worker_ok cn'"
    unfolding worker_ok_def
  proof (intro impI allI)
    fix j x assume op: "so_open (cn_socket cn')" and x: "im_get (cn_channels cn') j = Some x"
    have frames: "channel_frames cn' h = channel_frames cn h @ (if canonical ?h = canonical h then [f] else [])" for h
      using send_or_queue_frames [OF sq op refl, of h] by simp
    have op0: "so_open (cn_socket cn)" using sc op by (simp add: same_channels_def)
    have x1: "im_get (cn_channels ?cn) j = Some x" using x sc by (simp add: same_channels_def)
    show "suffix [0..<nat (ch_worker x + 1)] (map (h_sequence \<circ> lf_header) (channel_frames cn' (ch_header x)))"
    proof (cases "j = i")
      case True
      then have xe: "x = ?ch" using x1 wf by (simp add: store_simps)
      have n: "nat (ch_worker ch + 1) = h_sequence ?h" and can: "canonical (ch_header ch) = canonical ?h"
        using seq by (simp_all add: in_sequence_def nat_eq_iff)
      have "suffix [0..<h_sequence ?h] (map (h_sequence \<circ> lf_header) (channel_frames cn (ch_header ch)))"
        unfolding n [symmetric] using wk op0 ch by (simp add: worker_ok_def)
      from suffix_snoc [OF this, of "h_sequence ?h"] show ?thesis
        using xe can by (simp add: frames nat_add_distrib)
    next
      case False
      then have old: "im_get (cn_channels cn) j = Some x" using x1 wf by (simp add: store_simps)
      have "canonical ?h \<noteq> canonical (ch_header x)"
        using seq id [OF old] id [OF ch] False by (auto simp: in_sequence_def canonical_def)
      then show ?thesis using wk op0 old by (simp add: frames worker_ok_def)
    qed
  qed
  then show ?thesis using sc same_channels_client [OF _ cl1] by (simp add: conn_ok_def)
qed

lemma same_channels_permits: "same_channels cn' cn \<Longrightarrow> conn_permits cn' = conn_permits cn"
  by (simp add: same_channels_def conn_permits_def)

lemma forward_worker_moves:
  assumes len: "c < length (rl_store r)" and ok: "conn_ok limits (conn r c)" and ch: "im_get (cn_channels (conn r c)) i = Some ch"
    and seq: "in_sequence ch (lf_header f)" and i: "i = channel_id (h_channel (lf_header f))"
    and r': "r' = forward_worker limits c f (ch_bandwidth ch) now (edit_conn c (set_channel i (ch\<lparr>ch_worker := int (h_sequence (lf_header f))\<rparr>)) r)"
  shows "moves c r r' \<and> conn_ok limits (conn r' c) \<and> rl_sent r' = rl_sent r"
proof -
  let ?s = "set_channel i (ch\<lparr>ch_worker := int (h_sequence (lf_header f))\<rparr>)"
  let ?r0 = "edit_conn c ?s r"
  let ?q = "relay_record c (ch_bandwidth ch) True (length (lf_bytes f)) ?r0"
  have m0: "moves c r ?r0" using len by (intro moves_edit) simp_all
  have lq: "c < length (rl_store ?q)" and cq: "conn ?q c = ?s (conn r c)" using len by simp_all
  obtain r1 b where cs: "relay_consume c (length (frame_payload f)) now ?q = (r1, b)" by fastforce
  note m1 = consume_moves [OF cs lq]
  have mr1: "moves c r r1" using moves_trans [OF m0] m1 moves_trans [of c ?r0 ?q r1] by simp
  have l1: "c < length (rl_store r1)" using moves_length [OF mr1] len by simp
  show ?thesis
  proof (cases b)
    case False
    have core: "core_ok limits (?s (conn r c))"
      using ok ch by (intro set_channel_core) (simp_all add: conn_ok_def)
    have "conn_ok limits (close_socket 1013 ''WorkerLink relay bandwidth quota reached'' (?s (conn r c)))"
      using same_state_core [OF same_state_close core] by (simp add: conn_ok_def client_ok_def worker_ok_def)
    then show ?thesis using False r' cs mr1 m1 cq by (simp add: forward_worker_def Let_def)
  next
    case True
    obtain cn us b' where sq: "send_or_queue limits (h_lane (lf_header f)) (ch_bandwidth ch) f now (conn r1 c) = (cn, us, b')"
      by (metis prod_cases3)
    have c1: "conn r1 c = ?s (conn r c)" using m1 True cq by simp
    note ext = worker_extended [OF ok ch seq sq [unfolded c1]]
    let ?r2 = "(edit_conn c (\<lambda>_. cn) r1)\<lparr>rl_usage := rl_usage r1 @ us\<rparr>"
    have m2: "moves c r1 ?r2"
      using ext c1 l1 same_channels_permits [of cn "?s (conn r c)"]
      by (intro moves_usage moves_edit) (auto simp: same_channels_def)
    have l2: "c < length (rl_store ?r2)" and c2: "conn ?r2 c = cn" using l1 by simp_all
    have ok2: "conn_ok limits (conn ?r2 c)" using ext c2 by simp
    have mr2: "moves c r ?r2" by (rule moves_trans [OF mr1 m2])
    have "r' = ?r2 \<or> r' = release_channel c i False ?r2"
      using r' True cs sq i by (auto simp: forward_worker_def Let_def)
    then show ?thesis
    proof
      assume "r' = ?r2"
      then show ?thesis using mr2 ok2 m1 by simp
    next
      assume eq: "r' = release_channel c i False ?r2"
      note rl = release_moves [OF l2 ok2, of i False, folded eq]
      then have "moves c r r'" using moves_trans [OF mr2] by blast
      then show ?thesis using rl m1 by simp
    qed
  qed
qed

lemma closing_removed:
  assumes "conn_ok limits cn" "im_wf m" "length m \<le> 1024" "\<And>j. im_get (cn_closing cn) j = None \<Longrightarrow> im_get m j = None"
    and "cn_closed cn \<Longrightarrow> m = []"
  shows "conn_ok limits (cn\<lparr>cn_closing := m\<rparr>)"
proof -
  let ?cn = "cn\<lparr>cn_closing := m\<rparr>"
  have "queues_ok limits ?cn = queues_ok limits cn" by (rule queues_ok_cong) simp_all
  moreover have "surfaces_ok ?cn = surfaces_ok cn" by (rule surfaces_ok_cong) simp_all
  moreover have "channel_frames ?cn = channel_frames cn" by (rule channel_frames_cong) (simp_all add: sent_frames_def)
  ultimately show ?thesis
    using assms by (auto simp: conn_ok_def core_ok_def drain_comes_def ended_ok_def client_ok_def worker_ok_def channels_ok_def)
qed

lemma receive_worker_moves:
  assumes len: "c < length (rl_store r)" and ok: "conn_ok limits (conn r c)" and r': "r' = receive_worker limits c f now r"
  shows "moves c r r' \<and> conn_ok limits (conn r' c) \<and> rl_sent r' = rl_sent r"
proof -
  let ?cn = "conn r c" and ?h = "lf_header f" and ?i = "channel_id (h_channel (lf_header f))"
  have refuse: ?thesis if "r' = edit_conn c (close_socket code reason) r" for code reason
    using that moves_close [OF len] close_ok [OF ok] len by simp
  have chs: "channels_ok ?cn" and en: "ended_ok ?cn" using ok by (simp_all add: conn_ok_def core_ok_def)
  have closing: ?thesis if "r' = edit_conn c (\<lambda>cn. cn\<lparr>cn_closing := g (cn_closing cn)\<rparr>) r"
    "im_wf (g (cn_closing ?cn))" "length (g (cn_closing ?cn)) \<le> 1024" "\<And>j. im_get (cn_closing ?cn) j = None \<Longrightarrow> im_get (g (cn_closing ?cn)) j = None"
    "cn_closed ?cn \<Longrightarrow> g (cn_closing ?cn) = []" for g
    using that(1) len closing_removed [OF ok that(2-5)] moves_edit [OF len, of "\<lambda>cn. cn\<lparr>cn_closing := g (cn_closing cn)\<rparr>"]
    by (simp add: conn_permits_def)
  show ?thesis
  proof (cases "\<not> relay_current r c \<or> stale_header ?cn ?h")
    case True
    then show ?thesis using r' ok by (auto simp: receive_worker_def Let_def)
  next
    case go: False
    show ?thesis
    proof (cases "im_get (cn_channels ?cn) ?i")
      case (Some ch)
      have "im_get (cn_closing ?cn) ?i = None" using chs Some by (simp add: channels_ok_def)
      then have "r' = (if \<not> in_sequence ch ?h then edit_conn c (close_socket 1008 ''WorkerLink worker frame is out of sequence'') r
          else forward_worker limits c f (ch_bandwidth ch) now (edit_conn c (set_channel ?i (ch\<lparr>ch_worker := int (h_sequence ?h)\<rparr>)) r))"
        using r' go Some by (simp add: receive_worker_def Let_def)
      then show ?thesis
        using refuse forward_worker_moves [OF len ok Some _ refl, of r' now] by (cases "in_sequence ch ?h") simp_all
    next
      case None
      show ?thesis
      proof (cases "im_get (cn_closing ?cn) ?i")
        case None2: None
        then show ?thesis using r' go None by (intro refuse) (simp add: receive_worker_def Let_def)
      next
        case (Some ch)
        have wf: "im_wf (cn_closing ?cn)" "length (cn_closing ?cn) \<le> 1024" using chs by (simp_all add: channels_ok_def)
        have nc: "\<not> cn_closed ?cn" using en Some by (auto simp: ended_ok_def)
        show ?thesis
        proof (cases "in_sequence ch ?h")
          case False
          then show ?thesis using r' go None Some by (intro refuse) (simp add: receive_worker_def Let_def)
        next
          case seq: True
          show ?thesis
          proof (cases "ends_channel (h_kind ?h)")
            case True
            have "length (im_remove ?i (cn_closing ?cn)) \<le> length (cn_closing ?cn)" by (rule length_im_remove)
            then show ?thesis
              using r' go None Some seq True wf nc by (intro closing [of "im_remove ?i"]) (auto simp: receive_worker_def Let_def store_simps)
          next
            case False
            then show ?thesis
              using r' go None Some seq wf nc length_im_insert [of _ _ "cn_closing ?cn"] Some
              by (intro closing [of "im_insert ?i (ch\<lparr>ch_worker := int (h_sequence ?h)\<rparr>)"]) (auto simp: receive_worker_def Let_def store_simps)
          qed
        qed
      qed
    qed
  qed
qed

end
