(* ===== verification/LinkProperties.thy ===== *)
theory LinkProperties
  imports LinkMoves
begin

text \<open>
  The relay as a whole: the step relation of the relay with its surroundings, the invariant of its reachable states, and
  the properties that follow.
\<close>

section \<open>The invariant\<close>

definition permits :: "relay \<Rightarrow> surface_permit multiset" where
  "permits r = sum_list (map conn_permits (rl_store r))"

definition relay_base :: "(link_lane \<Rightarrow> lane_limit) \<Rightarrow> relay \<Rightarrow> surface_permit multiset \<Rightarrow> bool" where
  "relay_base limits r ms \<longleftrightarrow>
     im_wf (rl_connections r) \<and>
     (\<forall>i c. im_get (rl_connections r) i = Some c \<longrightarrow>
        c < length (rl_store r) \<and> ls_id (cn_session (conn r c)) = i \<and> \<not> cn_closed (conn r c)) \<and>
     (\<forall>c < length (rl_store r). conn_ok limits (conn r c) \<and>
        (so_open (cn_socket (conn r c)) \<and> \<not> cn_closed (conn r c) \<longrightarrow> relay_current r c)) \<and>
     surfaces_match (rl_quotas r) (permits r + ms)"

definition relay_inv :: "(link_lane \<Rightarrow> lane_limit) \<Rightarrow> relay \<Rightarrow> surface_permit multiset \<Rightarrow> bool" where
  "relay_inv limits r ms \<longleftrightarrow> relay_base limits r ms \<and> (rl_closed r \<longrightarrow> rl_connections r = [])"

lemma permits_split:
  "c < length (rl_store r) \<Longrightarrow>
   permits r = conn_permits (conn r c) + (sum_list (map conn_permits (take c (rl_store r))) + sum_list (map conn_permits (drop (Suc c) (rl_store r))))"
proof -
  assume "c < length (rl_store r)"
  from id_take_nth_drop [OF this] show ?thesis
    unfolding permits_def by (metis (no_types, lifting) list.map(2) map_append sum_list.Cons sum_list_append union_lcomm)
qed

lemma store_update:
  "length xs = length ys \<Longrightarrow> (\<And>d. d \<noteq> c \<Longrightarrow> xs ! d = ys ! d) \<Longrightarrow> c < length ys \<Longrightarrow> xs = ys[c := xs ! c]"
  by (intro nth_equalityI) (auto simp: nth_list_update)

lemma permits_moved:
  assumes "moves c r r'" "c < length (rl_store r)" "surfaces_match (rl_quotas r) (permits r + ms)"
  shows "surfaces_match (rl_quotas r') (permits r' + ms)"
proof -
  let ?rest = "sum_list (map conn_permits (take c (rl_store r))) + sum_list (map conn_permits (drop (Suc c) (rl_store r)))"
  have st: "rl_store r' = (rl_store r)[c := conn r' c]"
    using assms(1,2) by (intro store_update) (auto simp: moves_def)
  have "take c (rl_store r') = take c (rl_store r)" "drop (Suc c) (rl_store r') = drop (Suc c) (rl_store r)"
    by (subst st, simp)+
  then have "permits r' = conn_permits (conn r' c) + ?rest"
    using permits_split [of c r'] assms(2) moves_length [OF assms(1)] by simp
  moreover have "surfaces_match (rl_quotas r) (conn_permits (conn r c) + (?rest + ms))"
    using assms(3) permits_split [OF assms(2)] by (simp add: ac_simps)
  then have "surfaces_match (rl_quotas r') (conn_permits (conn r' c) + (?rest + ms))"
    using assms(1) unfolding moves_def by blast
  ultimately show ?thesis by (simp add: ac_simps)
qed

lemma current_moved: "moves c r r' \<Longrightarrow> relay_current r' d = relay_current r d"
  by (cases "d = c") (simp_all add: moves_def relay_current_def)

lemma base_moves:
  assumes "relay_base limits r ms" "c < length (rl_store r)" "moves c r r'" "conn_ok limits (conn r' c)"
  shows "relay_base limits r' ms"
proof -
  have same: "cn_session (conn r' d) = cn_session (conn r d)" "cn_closed (conn r' d) = cn_closed (conn r d)"
    "so_open (cn_socket (conn r' d)) \<Longrightarrow> so_open (cn_socket (conn r d))" for d
    using assms(3) by (cases "d = c"; simp add: moves_def)+
  have ok: "conn_ok limits (conn r' d)" if "d < length (rl_store r)" for d
    using assms that by (cases "d = c") (simp_all add: moves_def relay_base_def)
  have c: "rl_connections r' = rl_connections r" using assms(3) by (simp add: moves_def)
  show ?thesis
    using assms(1) ok same permits_moved [OF assms(3,2)] moves_length [OF assms(3)] current_moved [OF assms(3)]
    unfolding relay_base_def c by (simp add: same)
qed

lemma inv_moves:
  "relay_inv limits r ms \<Longrightarrow> c < length (rl_store r) \<Longrightarrow> moves c r r' \<Longrightarrow> conn_ok limits (conn r' c) \<Longrightarrow> relay_inv limits r' ms"
  using base_moves [of limits r ms c r'] by (simp add: relay_inv_def moves_def)

lemma base_conn: "relay_base limits r ms \<Longrightarrow> c < length (rl_store r) \<Longrightarrow> conn_ok limits (conn r c)"
  by (simp add: relay_base_def)

lemma base_close:
  assumes "relay_base limits r ms" "c < length (rl_store r)"
  shows "relay_base limits (edit_conn c (close_socket code reason) r) ms"
  using base_moves [OF assms moves_close [OF assms(2)]] close_ok [OF base_conn [OF assms]] assms(2) by simp

section \<open>Retirement and attachment\<close>

lemma drop_all_permits:
  "surfaces_match q (mset (map (sf_permit \<circ> snd) sfs) + X) \<Longrightarrow> surfaces_match (fold (\<lambda>sf q. drop_permit q (sf_permit sf)) (map snd sfs) q) X"
proof (induction sfs arbitrary: q)
  case (Cons e sfs)
  then show ?case using surfaces_match_drop [of q "sf_permit (snd e)"] by simp
qed simp

lemma bridge_fold:
  "\<exists>fs. fold (\<lambda>f r. fst (bridge_send w f r)) xs r = r\<lparr>rl_sent := rl_sent r @ map (Pair w) fs\<rparr> \<and> fs = (if w \<in> set (rl_online r) then xs else [])"
proof (induction xs arbitrary: r)
  case (Cons x xs)
  show ?case using Cons.IH [of "fst (bridge_send w x r)"] by (auto simp: bridge_send_def)
qed simp

definition retire_store :: "nat \<Rightarrow> relay \<Rightarrow> relay" where
  "retire_store c r =
     r\<lparr>rl_store := (rl_store r)[c := retired (conn r c)],
       rl_connections := (if relay_current r c then im_remove (ls_id (cn_session (conn r c))) (rl_connections r) else rl_connections r),
       rl_quotas := fold (\<lambda>sf q. drop_permit q (sf_permit sf)) (map snd (cn_surfaces (conn r c))) (rl_quotas r)\<rparr>"

lemma retire_eq:
  "retire_connection cd c r = (if cn_closed (conn r c) then r
     else (retire_store c r)\<lparr>rl_sent := rl_sent r @ (if ls_worker (cn_session (conn r c)) \<in> set (rl_online r)
       then map (Pair (ls_worker (cn_session (conn r c)))) (concat (map (close_frame cd \<circ> snd) (cn_channels (conn r c)))) else [])\<rparr>)"
  using bridge_fold [of "ls_worker (cn_session (conn r c))" "concat (map (close_frame cd \<circ> snd) (cn_channels (conn r c)))" "retire_store c r"]
  by (auto simp: retire_connection_def Let_def retire_store_def)

lemma retired_fields [simp]:
  "cn_session (retired cn) = cn_session cn" "cn_closed (retired cn)" "cn_socket (retired cn) = cn_socket cn"
  "cn_channels (retired cn) = []" "cn_closing (retired cn) = []" "cn_surfaces (retired cn) = []" "cn_frames (retired cn) = 0"
  by (simp_all add: retired_def)

lemma retired_ok: "conn_ok limits (retired cn)"
  by (simp add: conn_ok_def core_ok_def queues_ok_def drain_comes_def channels_ok_def surfaces_ok_def ended_ok_def client_ok_def worker_ok_def
      surface_channels_def lane_ok_def retired_def empty_lane_def lane_bytes_def queued_def lane_order_def im_wf_def)

lemma retire_store_fields [simp]:
  "length (rl_store (retire_store c r)) = length (rl_store r)" "rl_closed (retire_store c r) = rl_closed r"
  by (simp_all add: retire_store_def)

lemma retire_store_conn:
  "c < length (rl_store r) \<Longrightarrow> conn (retire_store c r) d = (if d = c then retired (conn r c) else conn r d)"
  by (simp add: retire_store_def nth_list_update)

lemma retire_store_session [simp]: "cn_session (conn (retire_store c r) d) = cn_session (conn r d)"
proof (cases "c < length (rl_store r)")
  case True
  then show ?thesis by (simp add: retire_store_conn)
qed (simp add: retire_store_def list_update_beyond)

lemma retire_store_base:
  assumes base: "relay_base limits r ms" and c: "c < length (rl_store r)"
  shows "relay_base limits (retire_store c r) ms"
proof -
  let ?r = "retire_store c r" and ?i = "ls_id (cn_session (conn r c))"
  have wf: "im_wf (rl_connections r)" using base by (simp add: relay_base_def)
  have get: "im_get (rl_connections ?r) i = (if relay_current r c \<and> i = ?i then None else im_get (rl_connections r) i)" for i
    using wf by (simp add: retire_store_def store_simps)
  have wf': "im_wf (rl_connections ?r)" using wf by (simp add: retire_store_def store_simps)
  have not_c: "im_get (rl_connections ?r) i \<noteq> Some c" for i
  proof
    assume e: "im_get (rl_connections ?r) i = Some c"
    then have g: "im_get (rl_connections r) i = Some c" and n: "\<not> (relay_current r c \<and> i = ?i)" using get [of i] by (simp_all split: if_splits)
    have "?i = i" using base g by (simp add: relay_base_def)
    then show False using g n by (simp add: relay_current_def)
  qed
  have "permits ?r + conn_permits (conn r c) = permits r"
  proof -
    have st: "take c (rl_store ?r) = take c (rl_store r)" "drop (Suc c) (rl_store ?r) = drop (Suc c) (rl_store r)"
      by (simp_all add: retire_store_def)
    show ?thesis
      using permits_split [of c ?r] permits_split [OF c] c by (simp add: st retire_store_conn conn_permits_def)
  qed
  then have "surfaces_match (rl_quotas r) (conn_permits (conn r c) + (permits ?r + ms))"
    using base by (simp add: relay_base_def ac_simps)
  then have sm: "surfaces_match (rl_quotas ?r) (permits ?r + ms)"
    unfolding conn_permits_def retire_store_def using drop_all_permits by (auto simp: comp_def)
  have cur: "relay_current ?r d" if "relay_current r d" "d \<noteq> c" for d
  proof -
    have "relay_current r c \<Longrightarrow> ls_id (cn_session (conn r d)) \<noteq> ?i" using that by (auto simp: relay_current_def)
    then show ?thesis using that by (auto simp: relay_current_def get)
  qed
  have a: "d < length (rl_store ?r) \<and> ls_id (cn_session (conn ?r d)) = i \<and> \<not> cn_closed (conn ?r d)"
    if "im_get (rl_connections ?r) i = Some d" for i d
  proof -
    have "d \<noteq> c" using that not_c by blast
    moreover have "im_get (rl_connections r) i = Some d" using that get [of i] by (simp split: if_splits)
    ultimately show ?thesis using base c by (simp add: relay_base_def retire_store_conn)
  qed
  have b: "conn_ok limits (conn ?r d) \<and> (so_open (cn_socket (conn ?r d)) \<and> \<not> cn_closed (conn ?r d) \<longrightarrow> relay_current ?r d)"
    if "d < length (rl_store r)" for d
    using base that c cur [of d] retired_ok by (cases "d = c") (simp_all add: retire_store_conn relay_base_def)
  show ?thesis using wf' a b sm by (simp add: relay_base_def)
qed

lemma base_sent: "relay_base limits (r\<lparr>rl_sent := u\<rparr>) ms = relay_base limits r ms"
  by (simp add: relay_base_def relay_current_def permits_def)

lemma retire_base: "relay_base limits r ms \<Longrightarrow> c < length (rl_store r) \<Longrightarrow> relay_base limits (retire_connection cd c r) ms"
  using retire_store_base by (simp add: retire_eq base_sent)

lemma retire_fields [simp]: "length (rl_store (retire_connection cd c r)) = length (rl_store r)" "rl_closed (retire_connection cd c r) = rl_closed r"
  by (simp_all add: retire_eq)

lemma retire_connections:
  "rl_connections r = [] \<Longrightarrow> rl_connections (retire_connection cd c r) = []"
  by (simp add: retire_eq retire_store_def im_remove_def)

lemma retire_inv: "relay_inv limits r ms \<Longrightarrow> c < length (rl_store r) \<Longrightarrow> relay_inv limits (retire_connection cd c r) ms"
  by (simp add: relay_inv_def retire_base retire_connections)

lemma attach_inv:
  assumes inv: "relay_inv limits r ms" and at: "attach s k r = (r', res)" and new: "concat (map out_frame (so_out k)) = []"
  shows "relay_inv limits r' ms"
proof (cases "rl_closed r \<or> \<not> so_open k \<or> RouteRelay \<notin> set (ls_enabled s)")
  case True
  then show ?thesis using inv at by (simp add: attach_def)
next
  case False
  have base: "relay_base limits r ms" using inv by (simp add: relay_inv_def)
  let ?i = "ls_id s"
  define r1 where "r1 = (case im_get (rl_connections r) ?i of None \<Rightarrow> r
    | Some p \<Rightarrow> edit_conn p (close_socket 1012 ''WorkerLink relay was replaced'') r)"
  have b1: "relay_base limits r1 ms"
    using base base_close [OF base] by (cases "im_get (rl_connections r) ?i") (auto simp: r1_def relay_base_def)
  have con1: "rl_connections r1 = rl_connections r" and cl1: "rl_closed r1 = rl_closed r"
    by (cases "im_get (rl_connections r) ?i"; simp add: r1_def)+
  let ?c = "length (rl_store r1)"
  have r': "r' = r1\<lparr>rl_store := rl_store r1 @ [new_connection s k], rl_connections := im_insert ?i ?c (rl_connections r1)\<rparr>"
    using at False by (auto simp: attach_def Let_def r1_def)
  have wf: "im_wf (rl_connections r1)" using b1 by (simp add: relay_base_def)
  have old: "conn r' d = conn r1 d" if "d < ?c" for d using that by (simp add: r' nth_append)
  have cn: "conn r' ?c = new_connection s k" by (simp add: r')
  have get: "im_get (rl_connections r') i = (if i = ?i then Some ?c else im_get (rl_connections r1) i)" for i
    using wf by (simp add: r' store_simps)
  have replaced: "\<not> so_open (cn_socket (conn r1 d))" if "im_get (rl_connections r1) ?i = Some d" for d
    using that base con1 by (auto simp: relay_base_def r1_def)
  have okn: "conn_ok limits (new_connection s k)"
    using new by (simp add: conn_ok_def core_ok_def queues_ok_def drain_comes_def channels_ok_def surfaces_ok_def ended_ok_def client_ok_def
      worker_ok_def surface_channels_def lane_ok_def new_connection_def empty_lane_def lane_bytes_def queued_def lane_order_def im_wf_def)
  have a: "d < Suc ?c \<and> ls_id (cn_session (conn r' d)) = i \<and> \<not> cn_closed (conn r' d)" if "im_get (rl_connections r') i = Some d" for i d
  proof (cases "i = ?i")
    case True
    then show ?thesis using that cn by (simp add: get new_connection_def)
  next
    case False
    then have "d < ?c" "ls_id (cn_session (conn r1 d)) = i" "\<not> cn_closed (conn r1 d)" using that b1 by (simp_all add: get relay_base_def)
    then show ?thesis using old by simp
  qed
  have b: "conn_ok limits (conn r' d) \<and> (so_open (cn_socket (conn r' d)) \<and> \<not> cn_closed (conn r' d) \<longrightarrow> relay_current r' d)"
    if "d < Suc ?c" for d
  proof (cases "d = ?c")
    case True
    then show ?thesis using okn cn by (simp add: relay_current_def get new_connection_def)
  next
    case False
    then have d: "d < ?c" using that by simp
    have ok: "conn_ok limits (conn r1 d)" using base_conn [OF b1 d] .
    have "relay_current r' d" if op: "so_open (cn_socket (conn r1 d))" "\<not> cn_closed (conn r1 d)"
    proof -
      have cur: "im_get (rl_connections r1) (ls_id (cn_session (conn r1 d))) = Some d"
        using b1 d op by (simp add: relay_base_def relay_current_def)
      then have "ls_id (cn_session (conn r1 d)) \<noteq> ?i" using replaced [of d] op(1) by auto
      then show ?thesis using cur old [OF d] by (simp add: relay_current_def get)
    qed
    then show ?thesis using ok old [OF d] by simp
  qed
  have "permits r' = permits r1" by (simp add: r' permits_def conn_permits_def new_connection_def)
  moreover have "rl_quotas r' = rl_quotas r1" by (simp add: r')
  ultimately have "surfaces_match (rl_quotas r') (permits r' + ms)" using b1 by (simp add: relay_base_def)
  moreover have "im_wf (rl_connections r')" "length (rl_store r') = Suc ?c" "rl_closed r' = rl_closed r"
    using wf cl1 by (simp_all add: r' store_simps)
  ultimately show ?thesis using a b False by (simp add: relay_inv_def relay_base_def)
qed

section \<open>The other operations\<close>

lemma drain_inv:
  assumes inv: "relay_inv limits r ms" and c: "c < length (rl_store r)"
  shows "relay_inv limits (drain cd c now r) ms"
proof (cases "\<not> relay_current r c \<or> cn_closed (conn r c)")
  case True
  then show ?thesis using inv by (simp add: drain_def)
next
  case False
  let ?f = "\<lambda>cn. cn\<lparr>cn_drain := False\<rparr>"
  let ?r1 = "edit_conn c ?f r"
  have ok: "conn_ok limits (conn r c)" using inv c by (simp add: relay_inv_def relay_base_def)
  have c1: "conn ?r1 c = ?f (conn r c)" using c by simp
  show ?thesis
  proof (cases "so_open (cn_socket (conn r c))")
    case True
    obtain cn us where dr: "drained now (?f (conn r c)) = (cn, us)" by fastforce
    have d: "conn_ok limits cn" "same_channels cn (conn r c)" using drained_ok [OF ok _ True dr] False by simp_all
    let ?r2 = "(edit_conn c (\<lambda>_. cn) ?r1)\<lparr>rl_usage := rl_usage ?r1 @ us\<rparr>"
    have eq: "drain cd c now r = ?r2" using False True dr c1 by (simp add: drain_def)
    have "moves c r ?r1" using c by (intro moves_edit) (simp_all add: conn_permits_def)
    moreover have "moves c ?r1 ?r2"
      using c d(2) same_channels_permits [OF d(2)] by (intro moves_usage moves_edit) (auto simp: same_channels_def conn_permits_def)
    ultimately have "moves c r ?r2" by (rule moves_trans)
    then show ?thesis using inv_moves [OF inv c] c d(1) eq by simp
  next
    case cl: False
    have s: "same_state (?f (conn r c)) (conn r c)" using cl by (simp add: same_state_def sent_frames_def)
    have "moves c r ?r1" using c by (intro moves_edit) (simp_all add: conn_permits_def)
    then have "relay_inv limits ?r1 ms" using inv_moves [OF inv c, of ?r1] same_state_ok [OF s ok] c1 by simp
    then show ?thesis using False cl c1 c by (simp add: drain_def retire_inv)
  qed
qed

lemma close_inv: "relay_inv limits r ms \<Longrightarrow> c < length (rl_store r) \<Longrightarrow> relay_inv limits (edit_conn c (close_socket code reason) r) ms"
  by (simp add: relay_inv_def base_close)

lemma fold_inv:
  assumes "\<And>c r. Q r \<Longrightarrow> c < n \<Longrightarrow> length (rl_store r) = n \<Longrightarrow> Q (f c r) \<and> length (rl_store (f c r)) = n"
    and "Q r" "length (rl_store r) = n" "\<forall>c \<in> set cs. c < n"
  shows "Q (fold f cs r) \<and> length (rl_store (fold f cs r)) = n"
  using assms(2-) by (induction cs arbitrary: r) (use assms(1) in auto)

lemma connections_bound: "relay_base limits r ms \<Longrightarrow> \<forall>c \<in> set (map snd (rl_connections r)). c < length (rl_store r)"
proof
  fix c assume base: "relay_base limits r ms" and "c \<in> set (map snd (rl_connections r))"
  then obtain i where "(i, c) \<in> set (rl_connections r)" by auto
  moreover have "im_wf (rl_connections r)" using base by (simp add: relay_base_def)
  ultimately have "im_get (rl_connections r) i = Some c" by (simp add: im_get_eq_Some)
  then show "c < length (rl_store r)" using base by (simp add: relay_base_def)
qed

lemma revoke_where_inv: "relay_inv limits r ms \<Longrightarrow> relay_inv limits (revoke_where P reason r) ms"
  unfolding revoke_where_def
  using fold_inv [where Q = "\<lambda>r. relay_inv limits r ms" and n = "length (rl_store r)"
      and f = "\<lambda>c r. if P (cn_session (conn r c)) then edit_conn c (close_socket 1008 reason) r else r" and cs = "map snd (rl_connections r)" and r = r]
    connections_bound [of limits r ms]
  by (simp add: close_inv relay_inv_def base_close)

lemma revoke_session_inv: "relay_inv limits r ms \<Longrightarrow> relay_inv limits (revoke_session i reason r) ms"
  by (auto simp: revoke_session_def relay_inv_def relay_base_def [of limits r] intro: base_close split: option.split)

lemma retire_gets:
  assumes "relay_base limits r ms" "c < length (rl_store r)"
  shows "im_get (rl_connections (retire_connection cd c r)) i =
    (if im_get (rl_connections r) i = Some c then None else im_get (rl_connections r) i)"
proof -
  have wf: "im_wf (rl_connections r)" and at: "\<And>d. im_get (rl_connections r) i = Some d \<Longrightarrow> ls_id (cn_session (conn r d)) = i \<and> \<not> cn_closed (conn r d)"
    using assms(1) by (simp_all add: relay_base_def)
  show ?thesis
  proof (cases "im_get (rl_connections r) i = Some c")
    case True
    then have "ls_id (cn_session (conn r c)) = i" "\<not> cn_closed (conn r c)" using at by simp_all
    then show ?thesis using True wf by (simp add: retire_eq retire_store_def relay_current_def store_simps)
  next
    case False
    then have "relay_current r c \<Longrightarrow> ls_id (cn_session (conn r c)) \<noteq> i" by (auto simp: relay_current_def)
    then show ?thesis using False wf by (auto simp: retire_eq retire_store_def store_simps)
  qed
qed

lemma retired_all:
  assumes "relay_base limits r ms" "\<forall>c \<in> set cs. c < length (rl_store r)"
    and "\<And>i c. im_get (rl_connections r) i = Some c \<Longrightarrow> c \<in> set cs"
  shows "relay_base limits (fold (\<lambda>c r. retire_connection cd c (edit_conn c (close_socket code reason) r)) cs r) ms \<and>
    rl_connections (fold (\<lambda>c r. retire_connection cd c (edit_conn c (close_socket code reason) r)) cs r) = []"
  using assms
proof (induction cs arbitrary: r)
  case Nil
  then have "im_get (rl_connections r) i = None" for i by (cases "im_get (rl_connections r) i") auto
  then have "\<forall>i. i \<notin> set (map fst (rl_connections r))" unfolding im_get_None_iff by blast
  then have "set (map fst (rl_connections r)) = {}" by (simp only: all_not_in_conv)
  then have "rl_connections r = []" by simp
  then show ?case using Nil by simp
next
  case (Cons c cs)
  let ?e = "edit_conn c (close_socket code reason) r"
  have c: "c < length (rl_store r)" using Cons.prems(2) by simp
  have b: "relay_base limits ?e ms" using base_close [OF Cons.prems(1) c] .
  have "relay_base limits (retire_connection cd c ?e) ms" using b c by (simp add: retire_base)
  moreover have "d \<in> set cs" if "im_get (rl_connections (retire_connection cd c ?e)) i = Some d" for i d
    using that Cons.prems(3) [of i d] retire_gets [OF b, of c cd i] c by (auto split: if_splits)
  ultimately show ?case using Cons.IH [of "retire_connection cd c ?e"] Cons.prems(2) by simp
qed

lemma relay_close_inv:
  assumes "relay_inv limits r ms"
  shows "relay_inv limits (relay_close cd r) ms \<and> rl_connections (relay_close cd r) = []"
proof (cases "rl_closed r")
  case True
  then show ?thesis using assms by (simp add: relay_close_def relay_inv_def)
next
  case False
  let ?r = "r\<lparr>rl_closed := True\<rparr>" and ?cs = "map snd (rl_connections r)"
  have base: "relay_base limits ?r ms" using assms by (simp add: relay_inv_def relay_base_def relay_current_def permits_def)
  have bound: "\<forall>c \<in> set ?cs. c < length (rl_store ?r)" using connections_bound [OF base] by simp
  have all: "c \<in> set ?cs" if "im_get (rl_connections ?r) i = Some c" for i c
    using that by (force simp: im_get_def dest: map_of_SomeD)
  show ?thesis
    using retired_all [OF base bound all] False by (simp add: relay_close_def relay_inv_def)
qed

lemma transport_ended_inv:
  assumes inv: "relay_inv limits r ms" and c: "c < length (rl_store r)"
  shows "relay_inv limits (transport_ended cd c r) ms"
proof -
  let ?f = "\<lambda>cn. cn\<lparr>cn_socket := (cn_socket cn)\<lparr>so_open := False\<rparr>\<rparr>"
  have ok: "conn_ok limits (conn r c)" using inv c by (simp add: relay_inv_def relay_base_def)
  have s: "same_state (?f (conn r c)) (conn r c)" by (simp add: same_state_def sent_frames_def)
  have "moves c r (edit_conn c ?f r)" using c by (intro moves_edit) (simp_all add: conn_permits_def)
  then have "relay_inv limits (edit_conn c ?f r) ms" using inv_moves [OF inv c] same_state_ok [OF s ok] c by simp
  then show ?thesis using c by (simp add: transport_ended_def retire_inv)
qed

section \<open>The reachable states\<close>

text \<open>
  One step of the relay and its surroundings. The multiset holds the Remote Surface permits of everyone but the relay.
  A transport may write out, lose or close its socket at any time; it never reopens it and never adds a frame of its own.
\<close>

inductive relay_step ::
  "link_codec \<Rightarrow> (link_lane \<Rightarrow> lane_limit) \<Rightarrow> relay \<Rightarrow> surface_permit multiset \<Rightarrow> relay \<Rightarrow> surface_permit multiset \<Rightarrow> bool"
  for cd limits where
  attach: "attach s k r = (r', res) \<Longrightarrow> concat (map out_frame (so_out k)) = [] \<Longrightarrow> relay_step cd limits r ms r' ms"
| client: "c < length (rl_store r) \<Longrightarrow> relay_step cd limits r ms (receive_client cd c bs binary now r) ms"
| worker: "c < length (rl_store r) \<Longrightarrow> relay_step cd limits r ms (receive_worker limits c f now r) ms"
| drain: "c < length (rl_store r) \<Longrightarrow> relay_step cd limits r ms (drain cd c now r) ms"
| session: "relay_step cd limits r ms (revoke_session i reason r) ms"
| account: "relay_step cd limits r ms (revoke_account i r) ms"
| owner: "relay_step cd limits r ms (revoke_owner i r) ms"
| offline: "c < length (rl_store r) \<Longrightarrow> relay_step cd limits r ms (worker_offline c r) ms"
| ended: "c < length (rl_store r) \<Longrightarrow> relay_step cd limits r ms (transport_ended cd c r) ms"
| close: "relay_step cd limits r ms (relay_close cd r) ms"
| socket: "c < length (rl_store r) \<Longrightarrow> so_open k \<longrightarrow> so_open (cn_socket (conn r c)) \<Longrightarrow>
    concat (map out_frame (so_out k)) = sent_frames (conn r c) \<Longrightarrow>
    relay_step cd limits r ms (edit_conn c (\<lambda>cn. cn\<lparr>cn_socket := k\<rparr>) r) ms"
| bridge: "relay_step cd limits r ms (r\<lparr>rl_online := ws\<rparr>) ms"
| other_acquire: "acquire_surface (rl_quotas r) ow wk = (q, Inr p) \<Longrightarrow> relay_step cd limits r ms (r\<lparr>rl_quotas := q\<rparr>) (add_mset p ms)"
| other_refused: "acquire_surface (rl_quotas r) ow wk = (q, Inl e) \<Longrightarrow> relay_step cd limits r ms (r\<lparr>rl_quotas := q\<rparr>) ms"
| other_drop: "relay_step cd limits r (add_mset p ms) (r\<lparr>rl_quotas := drop_permit (rl_quotas r) p\<rparr>) ms"
| other_relay: "consume_relay_at (rl_quotas r) ow wk n now = (q, b) \<Longrightarrow> relay_step cd limits r ms (r\<lparr>rl_quotas := q\<rparr>) ms"
| other_upload: "consume_upload_at (rl_quotas r) ow wk n now = (q, e) \<Longrightarrow> relay_step cd limits r ms (r\<lparr>rl_quotas := q\<rparr>) ms"

inductive relay_reach ::
  "link_codec \<Rightarrow> (link_lane \<Rightarrow> lane_limit) \<Rightarrow> relay_quotas \<Rightarrow> relay \<Rightarrow> surface_permit multiset \<Rightarrow> bool"
  for cd limits q0 where
  start: "relay_reach cd limits q0 (relay_new q0) {#}"
| step: "relay_reach cd limits q0 r ms \<Longrightarrow> relay_step cd limits r ms r' ms' \<Longrightarrow> relay_reach cd limits q0 r' ms'"

lemma inv_quotas:
  "relay_inv limits r ms \<Longrightarrow> surfaces_match q (permits r + ms') \<Longrightarrow> relay_inv limits (r\<lparr>rl_quotas := q\<rparr>) ms'"
  by (simp add: relay_inv_def relay_base_def relay_current_def permits_def)

lemma inv_match: "relay_inv limits r ms \<Longrightarrow> surfaces_match (rl_quotas r) (permits r + ms)"
  by (simp add: relay_inv_def relay_base_def)

lemma inv_conn: "relay_inv limits r ms \<Longrightarrow> c < length (rl_store r) \<Longrightarrow> conn_ok limits (conn r c)"
  by (simp add: relay_inv_def relay_base_def)

lemma step_inv: "relay_step cd limits r ms r' ms' \<Longrightarrow> relay_inv limits r ms \<Longrightarrow> relay_inv limits r' ms'"
proof (induction rule: relay_step.induct)
  case (attach s k r r' res ms)
  then show ?case using attach_inv by blast
next
  case (client c r ms bs binary now)
  then show ?case using inv_moves receive_client_moves [OF _ inv_conn refl] by blast
next
  case (worker c r ms f now)
  then show ?case using inv_moves receive_worker_moves [OF _ inv_conn refl] by blast
next
  case (socket c r k ms)
  let ?f = "\<lambda>cn. cn\<lparr>cn_socket := k\<rparr>"
  have s: "same_state (?f (conn r c)) (conn r c)" using socket(2,3) by (simp add: same_state_def sent_frames_def)
  have "moves c r (edit_conn c ?f r)" using socket(1,2) by (intro moves_edit) (simp_all add: conn_permits_def)
  then show ?case using inv_moves [OF socket(4,1)] same_state_ok [OF s inv_conn [OF socket(4,1)]] socket(1) by simp
next
  case (bridge r ms ws)
  then show ?case by (simp add: relay_inv_def relay_base_def relay_current_def permits_def)
next
  case (other_acquire r ow wk q p ms)
  then show ?case using inv_quotas [of limits r ms q "add_mset p ms"] surfaces_match_acquire [OF inv_match, of limits r ms ow wk q "Inr p"] by simp
next
  case (other_refused r ow wk q e ms)
  then show ?case using inv_quotas [of limits r ms q ms] surfaces_match_acquire [OF inv_match, of limits r ms ow wk q "Inl e"] by simp
next
  case (other_drop r p ms)
  then show ?case
    using inv_quotas [of limits r "add_mset p ms" _ ms] surfaces_match_drop [of "rl_quotas r" p "permits r + ms"] inv_match [of limits r "add_mset p ms"]
    by simp
next
  case (other_relay r ow wk n now q b ms)
  then show ?case using inv_quotas consume_surfaces inv_match by blast
next
  case (other_upload r ow wk n now q e ms)
  then have "surfaces_match q (permits r + ms)"
    using surfaces_match_frame [OF inv_match, of limits r ms q] by (auto simp: consume_upload_at_def Let_def split: if_splits)
  then show ?case using inv_quotas other_upload by blast
qed (simp_all add: drain_inv revoke_session_inv revoke_where_inv revoke_account_def revoke_owner_def worker_offline_def close_inv
  transport_ended_inv relay_close_inv)

lemma reach_inv: "relay_reach cd limits q0 r ms \<Longrightarrow> surfaces_match q0 {#} \<Longrightarrow> relay_inv limits r ms"
proof (induction rule: relay_reach.induct)
  case start
  then show ?case by (simp add: relay_inv_def relay_base_def relay_new_def permits_def im_wf_def)
next
  case (step r ms r' ms')
  then show ?case using step_inv by blast
qed

lemma quotas_start: "surfaces_match (quotas_with_limits ar wr au wu asf wsf) {#}"
  using active_new_inv by (simp add: surfaces_match_def quotas_with_limits_def active_new_def active_total_def)

lemmas reach_ok = reach_inv [OF _ quotas_start]

lemma reach_conn:
  "relay_reach cd limits (quotas_with_limits ar wr au wu asf wsf) r ms \<Longrightarrow> c < length (rl_store r) \<Longrightarrow> conn_ok limits (conn r c)"
  by (rule inv_conn [OF reach_ok])

lemma inv_current:
  "relay_inv limits r ms \<Longrightarrow> c < length (rl_store r) \<Longrightarrow> so_open (cn_socket (conn r c)) \<Longrightarrow> \<not> cn_closed (conn r c) \<Longrightarrow> relay_current r c"
  by (simp add: relay_inv_def relay_base_def)

lemma surface_count: "surfaces_ok cn \<Longrightarrow> length (cn_surfaces cn) = card {g. surface_channels cn g \<noteq> {}}"
proof -
  assume ok: "surfaces_ok cn"
  have "{g. surface_channels cn g \<noteq> {}} = set (map fst (cn_surfaces cn))"
  proof (intro set_eqI)
    fix g
    have "surface_channels cn g \<noteq> {} \<longleftrightarrow> im_get (cn_surfaces cn) g \<noteq> None"
    proof (cases "im_get (cn_surfaces cn) g")
      case None
      then show ?thesis using ok by (simp add: surfaces_ok_def)
    next
      case (Some sf)
      then have "surface_channels cn g = set (sf_channels sf)" "sf_channels sf \<noteq> []" using ok by (simp_all add: surfaces_ok_def)
      then show ?thesis using Some by simp
    qed
    then show "g \<in> {g. surface_channels cn g \<noteq> {}} \<longleftrightarrow> g \<in> set (map fst (cn_surfaces cn))" by (simp add: im_get_None_iff)
  qed
  then show ?thesis using ok distinct_card [of "map fst (cn_surfaces cn)"] by (simp add: surfaces_ok_def im_wf_def)
qed

lemma permit_count:
  assumes "surfaces_ok cn"
    and "\<And>p. p = \<lparr>permit_owner = ls_owner (cn_session cn), permit_worker = ls_worker (cn_session cn)\<rparr> \<Longrightarrow> P p = b"
  shows "size (filter_mset P (conn_permits cn)) = (if b then card {g. surface_channels cn g \<noteq> {}} else 0)"
proof -
  have "P (sf_permit sf) = b" if "(g, sf) \<in> set (cn_surfaces cn)" for g sf
    using that assms im_get_eq_Some [of "cn_surfaces cn" g sf] by (simp add: surfaces_ok_def)
  then have "filter_mset P (conn_permits cn) = (if b then conn_permits cn else {#})"
    by (auto simp: conn_permits_def filter_mset_eq_conv)
  then show ?thesis using surface_count [OF assms(1)] by (simp add: conn_permits_def)
qed

lemma permits_count:
  assumes "\<forall>cn \<in> set cns. surfaces_ok cn \<and> size (filter_mset P (conn_permits cn)) = f cn"
  shows "size (filter_mset P (sum_list (map conn_permits cns))) = sum_list (map f cns)"
  using assms by (induction cns) simp_all

section \<open>Properties\<close>

text \<open>
  (C15) In every reachable state of the relay the queues of a connection stay within the limits of their lanes, the counted
  bytes and frames are exactly those queued, and at most 1024 channels wait for the worker's close.
\<close>

theorem relay_queues_bounded:
  assumes "relay_reach cd limits (quotas_with_limits ar wr au wu asf wsf) r ms" and "c < length (rl_store r)"
  shows "length (lq_frames (cn_lanes (conn r c) l)) \<le> max_queued_frames (limits l) \<and>
    sum_list (map frame_size (lq_frames (cn_lanes (conn r c) l))) \<le> max_queued_bytes (limits l) \<and>
    cn_frames (conn r c) = queued (conn r c) \<and>
    cn_bytes (conn r c) = sum_list (map (\<lambda>l. sum_list (map frame_size (lq_frames (cn_lanes (conn r c) l)))) lane_order) \<and>
    length (cn_closing (conn r c)) \<le> 1024"
proof -
  have ok: "queues_ok limits (conn r c)" "channels_ok (conn r c)" using reach_conn [OF assms] by (simp_all add: conn_ok_def core_ok_def)
  then have lanes: "lane_ok limits l (cn_lanes (conn r c) l)" for l by (simp add: queues_ok_def)
  then have "lq_bytes (cn_lanes (conn r c) l) = sum_list (map frame_size (lq_frames (cn_lanes (conn r c) l)))" for l by (simp add: lane_ok_def)
  then show ?thesis using ok lanes [of l] by (simp add: queues_ok_def channels_ok_def lane_ok_def lane_bytes_def)
qed

text \<open>
  (C11) The Remote Surface places taken from the shared quotas are exactly accounted for: the count of an account, and of
  a worker, is the number of grants that have an open surface channel on some connection of that account or worker, plus
  the permits that others hold. No frame, error path, replacement or retirement leaks a permit or gives one back twice.
\<close>

theorem relay_permits_exact:
  assumes "relay_reach cd limits (quotas_with_limits ar wr au wu asf wsf) r ms"
  shows "active_count (account_surfaces (rl_quotas r)) k =
      (\<Sum>cn\<leftarrow>rl_store r. if ls_owner (cn_session cn) = k then card {g. surface_channels cn g \<noteq> {}} else 0) + size {#p \<in># ms. permit_owner p = k#} \<and>
    active_count (worker_surfaces (rl_quotas r)) k =
      (\<Sum>cn\<leftarrow>rl_store r. if ls_worker (cn_session cn) = k then card {g. surface_channels cn g \<noteq> {}} else 0) + size {#p \<in># ms. permit_worker p = k#}"
proof -
  have ok: "surfaces_ok cn" if "cn \<in> set (rl_store r)" for cn
    using that reach_conn [OF assms] by (auto simp: in_set_conv_nth conn_ok_def core_ok_def)
  have "surfaces_match (rl_quotas r) (permits r + ms)" using inv_match [OF reach_ok [OF assms]] .
  moreover have "size {#p \<in># permits r. permit_owner p = k#} =
      (\<Sum>cn\<leftarrow>rl_store r. if ls_owner (cn_session cn) = k then card {g. surface_channels cn g \<noteq> {}} else 0)"
    unfolding permits_def using ok permit_count by (intro permits_count) auto
  moreover have "size {#p \<in># permits r. permit_worker p = k#} =
      (\<Sum>cn\<leftarrow>rl_store r. if ls_worker (cn_session cn) = k then card {g. surface_channels cn g \<noteq> {}} else 0)"
    unfolding permits_def using ok permit_count by (intro permits_count) auto
  ultimately show ?thesis by (simp add: surfaces_match_def)
qed

text \<open>
  (C12) A client sees the worker's frames in order: as long as its socket is open, the frames of an open channel that were
  given to the socket or wait in its lane end with the sequence numbers \<open>0, 1, \<dots>\<close> up to the last one the worker sent.
\<close>

theorem worker_frames_in_order:
  assumes "relay_reach cd limits (quotas_with_limits ar wr au wu asf wsf) r ms" and "c < length (rl_store r)"
    and "so_open (cn_socket (conn r c))" and "im_get (cn_channels (conn r c)) i = Some ch"
  shows "suffix [0..<nat (ch_worker ch + 1)] (map (h_sequence \<circ> lf_header) (channel_frames (conn r c) (ch_header ch)))"
  using reach_conn [OF assms(1,2)] assms(3,4) by (simp add: conn_ok_def worker_ok_def)

text \<open>
  (C13) A worker sees the client's frames in order and untouched: what a client frame adds to the worker's input, while
  the client's socket is open, is that very frame, byte for byte, and its number follows the last frame of the channel that
  was delivered, or it opens the channel.
\<close>

theorem client_frames_in_order:
  assumes "relay_reach cd limits (quotas_with_limits ar wr au wu asf wsf) r ms" and "c < length (rl_store r)"
    and "so_open (cn_socket (conn r c))" and "rl_sent (receive_client cd c bs binary now r) \<noteq> rl_sent r"
  shows "\<exists>f. rl_sent (receive_client cd c bs binary now r) = rl_sent r @ [(ls_worker (cn_session (conn r c)), f)] \<and> lf_bytes f = bs \<and>
    h_session (lf_header f) = ls_id (cn_session (conn r c)) \<and>
    (case im_get (cn_channels (conn r c)) (channel_id (h_channel (lf_header f))) of
       None \<Rightarrow> \<exists>g nn cr. h_kind (lf_header f) = OpenChannel g nn cr
     | Some ch \<Rightarrow> int (h_sequence (lf_header f)) = ch_delivered ch + 1)"
proof -
  have ok: "conn_ok limits (conn r c)" by (rule reach_conn [OF assms(1,2)])
  obtain f where f: "link_decode cd bs = Inr f" "\<not> stale_header (conn r c) (lf_header f)"
      "rl_sent (receive_client cd c bs binary now r) = rl_sent r @ [(ls_worker (cn_session (conn r c)), f)]"
      "case im_get (cn_channels (conn r c)) (channel_id (h_channel (lf_header f))) of
         None \<Rightarrow> \<exists>g nn cr. h_kind (lf_header f) = OpenChannel g nn cr | Some ch \<Rightarrow> int (h_sequence (lf_header f)) = ch_client ch + 1"
    using receive_client_moves [OF assms(2) ok refl, of cd bs binary now] assms(4) by blast
  have "ch_delivered ch = ch_client ch" if "im_get (cn_channels (conn r c)) i = Some ch" for i ch
    using ok assms(3) that by (simp add: conn_ok_def client_ok_def)
  then show ?thesis
    using f decoded_frame(1) [OF f(1)] by (intro exI [of _ f]) (auto simp: stale_header_def split: option.splits)
qed

text \<open>
  (C14) Queued frames are not stranded: a live connection with queued frames always has a drain coming, and a drain that
  finds room in the socket sends them all, or fills the socket and schedules the next drain, or the socket is closed.
\<close>

theorem queued_frames_drain:
  assumes "relay_reach cd limits (quotas_with_limits ar wr au wu asf wsf) r ms" and "c < length (rl_store r)"
    and "so_open (cn_socket (conn r c))" and "\<not> cn_closed (conn r c)" and "cn_frames (conn r c) > 0"
    and "so_buffered (cn_socket (conn r c)) \<le> max_buffered"
  shows "cn_drain (conn r c) \<and>
    (let cn = conn (drain cd c now r) c
     in cn_frames cn = 0 \<or> so_buffered (cn_socket cn) > max_buffered \<and> cn_drain cn \<or> \<not> so_open (cn_socket cn))"
proof -
  let ?f = "\<lambda>cn. cn\<lparr>cn_drain := False\<rparr>"
  have ok: "conn_ok limits (conn r c)" by (rule reach_conn [OF assms(1,2)])
  have cur: "relay_current r c" by (rule inv_current [OF reach_ok [OF assms(1)] assms(2-4)])
  have q: "queues_ok limits (?f (conn r c))" using ok queues_ok_cong [of "?f (conn r c)" "conn r c" limits] by (simp add: conn_ok_def core_ok_def)
  obtain cn us b where dl: "drain_loop now (?f (conn r c)) = (cn, us, b)" by (metis prod_cases3)
  note rel = drain_loop_rel [OF q dl]
  have nc: "\<not> cn_closed cn" and fr: "cn_frames cn = queued cn" using rel assms(4) by (auto simp: drain_rel_def same_channels_def queues_ok_def)
  have "conn (drain cd c now r) c = (if \<not> b then cn else if cn_frames cn = 0 then cn\<lparr>cn_stalled := None\<rparr> else schedule_drain cn)"
  proof -
    have dr: "drained now (?f (conn r c)) = (if \<not> b then cn else if cn_frames cn = 0 then cn\<lparr>cn_stalled := None\<rparr> else schedule_drain cn, us)"
      using assms(6) dl by (cases b) (simp_all add: drained_def)
    show ?thesis using cur assms(2-4) dr by (simp add: drain_def)
  qed
  then have "let cn = conn (drain cd c now r) c
     in cn_frames cn = 0 \<or> so_buffered (cn_socket cn) > max_buffered \<and> cn_drain cn \<or> \<not> so_open (cn_socket cn)"
    using rel nc fr by (auto simp: Let_def)
  moreover have "cn_drain (conn r c)" using ok assms(3-5) by (simp add: conn_ok_def core_ok_def drain_comes_def)
  ultimately show ?thesis by simp
qed

text \<open>
  A session has at most one live relay connection: two connections of one session whose sockets are open and that
  are not retired are the same, so an attachment has closed the socket it replaces.
\<close>

lemma one_connection_per_session:
  assumes "relay_reach cd limits (quotas_with_limits ar wr au wu asf wsf) r ms"
    and "c < length (rl_store r)" and "so_open (cn_socket (conn r c))" and "\<not> cn_closed (conn r c)"
    and "d < length (rl_store r)" and "so_open (cn_socket (conn r d))" and "\<not> cn_closed (conn r d)"
    and "ls_id (cn_session (conn r c)) = ls_id (cn_session (conn r d))"
  shows "c = d"
  using inv_current [OF reach_ok [OF assms(1)] assms(2-4)] inv_current [OF reach_ok [OF assms(1)] assms(5-7)] assms(8)
  by (simp add: relay_current_def)

section \<open>A run of the relay\<close>

definition demo_link_session :: link_session where
  "demo_link_session = \<lparr>ls_id = ''s'', ls_generation = 1, ls_owner = ''o'', ls_account = ''a'', ls_worker = ''w'', ls_enabled = [RouteRelay]\<rparr>"

definition demo_socket :: "nat \<Rightarrow> outgoing list \<Rightarrow> link_socket" where
  "demo_socket n out = \<lparr>so_open = True, so_buffered = n, so_receiver = True, so_out = out\<rparr>"

definition demo_bytes :: "byte \<Rightarrow> byte \<Rightarrow> byte list \<Rightarrow> byte list" where
  "demo_bytes k n p = [67, 87, 76, 75, 0, 0, 0, 2, k, n] @ p"

definition demo_frame :: "link_kind \<Rightarrow> nat \<Rightarrow> byte list \<Rightarrow> link_frame" where
  "demo_frame k n p = \<lparr>lf_header = \<lparr>h_session = ''s'', h_generation = 1, h_route = RouteRelay,
       h_channel = \<lparr>channel_id = ''c'', connection_id = ''k''\<rparr>, h_lane = LaneStream, h_sequence = n, h_kind = k\<rparr>,
     lf_bytes = demo_bytes 9 (of_nat n) p, lf_start = 10\<rparr>"

definition demo_opened :: relay where
  "demo_opened = receive_client demo_codec 0 (demo_bytes 3 0 []) True 0
     ((fst (attach demo_link_session (demo_socket 0 []) (relay_new (quotas_with_limits 100 100 100 100 2 2))))\<lparr>rl_online := [''w'']\<rparr>)"

definition demo_accept :: relay where
  "demo_accept = receive_worker default_limits 0 (demo_frame (AcceptChannel 64) 0 []) 0 demo_opened"

definition demo_full :: relay where
  "demo_full = edit_conn 0 (\<lambda>cn. cn\<lparr>cn_socket := demo_socket 9000000 (so_out (cn_socket (conn demo_accept 0)))\<rparr>) demo_accept"

definition demo_pushed :: relay where
  "demo_pushed = receive_worker default_limits 0 (demo_frame (ChannelData ''worker-to-client'' ''raw'') 1 [1, 2]) 0 demo_full"

definition demo_queued :: relay where
  "demo_queued = edit_conn 0 (\<lambda>cn. cn\<lparr>cn_socket := demo_socket 0 (so_out (cn_socket (conn demo_accept 0)))\<rparr>) demo_pushed"

lemmas demo_relay_defs = demo_link_session_def demo_socket_def demo_bytes_def demo_frame_def demo_opened_def demo_accept_def demo_full_def demo_pushed_def demo_queued_def

lemmas relay_eval = receive_client_def receive_worker_def attach_def relay_new_def new_connection_def edit_conn_def relay_current_def stale_header_def
  link_decode_def is_frame_def link_magic_def from_be_bytes_def demo_codec_def validate_payload_def frame_payload_def client_channel_def
  retain_surface_def acquire_surface_def quotas_with_limits_def active_new_def active_acquire_def active_count_def relay_record_def
  relay_consume_def forward_client_def bridge_send_def set_channel_def open_channel_def bandwidth_of_def im_get_def im_insert_def Let_def
  in_sequence_def canonical_def forward_worker_def send_or_queue_def send_now_def socket_send_def framed_size_def empty_lane_def close_socket_def
  push_frame_def schedule_drain_def default_limits_def lane_limit.defs consume_relay_at_def byte_retry_after_def byte_new_def
  entry_or_default_def checked_add_u64_def byte_consume_def byte_table_def wrapping_add_u64_def push_bucket_def

lemma demo_open_values:
  "length (rl_store demo_opened) = 1" "so_open (cn_socket (conn demo_opened 0))" "\<not> cn_closed (conn demo_opened 0)"
  "so_out (cn_socket (conn demo_opened 0)) = []"
  by (simp_all add: demo_relay_defs relay_eval)

lemma demo_accept_values:
  "length (rl_store demo_accept) = 1" "so_open (cn_socket (conn demo_accept 0))" "\<not> cn_closed (conn demo_accept 0)"
  "so_out (cn_socket (conn demo_accept 0)) = [OutBinary (demo_frame (AcceptChannel 64) 0 [])]"
  by (simp_all add: demo_relay_defs relay_eval)

lemma demo_queued_values:
  "length (rl_store demo_queued) = 1" "so_open (cn_socket (conn demo_queued 0))" "\<not> cn_closed (conn demo_queued 0)"
  "cn_frames (conn demo_queued 0) = 1" "so_buffered (cn_socket (conn demo_queued 0)) = 0"
  by (simp_all add: demo_relay_defs relay_eval)

abbreviation (input) demo_quotas :: relay_quotas where "demo_quotas \<equiv> quotas_with_limits 100 100 100 100 2 2"

lemma demo_open_reached: "relay_reach demo_codec default_limits demo_quotas demo_opened {#}"
proof -
  let ?a = "fst (attach demo_link_session (demo_socket 0 []) (relay_new demo_quotas))"
  have "relay_reach demo_codec default_limits demo_quotas ?a {#}"
    by (rule relay_reach.step [OF relay_reach.start relay_step.attach [OF prod.collapse [symmetric]]]) (simp add: demo_socket_def)
  then have "relay_reach demo_codec default_limits demo_quotas (?a\<lparr>rl_online := [''w'']\<rparr>) {#}"
    by (rule relay_reach.step [OF _ relay_step.bridge])
  then show ?thesis
    unfolding demo_opened_def by (rule relay_reach.step [OF _ relay_step.client]) (simp add: demo_relay_defs relay_eval)
qed

lemma demo_accept_reached: "relay_reach demo_codec default_limits demo_quotas demo_accept {#}"
  unfolding demo_accept_def by (rule relay_reach.step [OF demo_open_reached relay_step.worker]) (simp add: demo_open_values)

lemma demo_queued_reached: "relay_reach demo_codec default_limits demo_quotas demo_queued {#}"
proof -
  have full: "relay_reach demo_codec default_limits demo_quotas demo_full {#}"
    unfolding demo_full_def
    by (rule relay_reach.step [OF demo_accept_reached relay_step.socket]) (simp_all add: demo_accept_values sent_frames_def demo_socket_def)
  have len: "length (rl_store demo_full) = 1" by (simp add: demo_full_def demo_accept_values)
  have w: "relay_reach demo_codec default_limits demo_quotas demo_pushed {#}"
    unfolding demo_pushed_def by (rule relay_reach.step [OF full relay_step.worker]) (simp add: len)
  have v: "length (rl_store demo_pushed) = 1" "so_open (cn_socket (conn demo_pushed 0))"
    "so_out (cn_socket (conn demo_pushed 0)) = so_out (cn_socket (conn demo_accept 0))"
    by (simp_all add: demo_relay_defs relay_eval)
  show ?thesis
    unfolding demo_queued_def
    by (rule relay_reach.step [OF w relay_step.socket]) (simp_all add: v sent_frames_def demo_socket_def)
qed

theorem relay_queues_bounded_witness:
  "0 < length (rl_store demo_queued) \<and> length (lq_frames (cn_lanes (conn demo_queued 0) LaneStream)) \<le> 256 \<and>
   cn_frames (conn demo_queued 0) = 1 \<and> queued (conn demo_queued 0) = 1"
proof -
  have "length (lq_frames (cn_lanes (conn demo_queued 0) LaneStream)) \<le> max_queued_frames (default_limits LaneStream)"
    "cn_frames (conn demo_queued 0) = queued (conn demo_queued 0)"
    using relay_queues_bounded [OF demo_queued_reached, of 0 LaneStream] demo_queued_values by simp_all
  then show ?thesis using demo_queued_values by (simp add: default_limits_def lane_limit.defs)
qed

theorem relay_permits_exact_witness:
  "active_count (account_surfaces (rl_quotas demo_opened)) ''o'' =
     (\<Sum>cn\<leftarrow>rl_store demo_opened. if ls_owner (cn_session cn) = ''o'' then card {g. surface_channels cn g \<noteq> {}} else 0) \<and>
   active_count (account_surfaces (rl_quotas demo_opened)) ''o'' = 1"
  using relay_permits_exact [OF demo_open_reached, of "''o''"] by (simp add: demo_relay_defs relay_eval)

theorem worker_frames_in_order_witness:
  "so_open (cn_socket (conn demo_queued 0)) \<and>
   (\<exists>ch. im_get (cn_channels (conn demo_queued 0)) ''c'' = Some ch \<and> ch_worker ch = 1 \<and>
      suffix [0, 1] (map (h_sequence \<circ> lf_header) (channel_frames (conn demo_queued 0) (ch_header ch))))"
proof -
  have "\<exists>ch. im_get (cn_channels (conn demo_queued 0)) ''c'' = Some ch \<and> ch_worker ch = 1" by (simp add: demo_relay_defs relay_eval)
  then obtain ch where ch: "im_get (cn_channels (conn demo_queued 0)) ''c'' = Some ch" "ch_worker ch = 1" by blast
  have "suffix [0..<nat (ch_worker ch + 1)] (map (h_sequence \<circ> lf_header) (channel_frames (conn demo_queued 0) (ch_header ch)))"
    by (rule worker_frames_in_order [OF demo_queued_reached _ _ ch(1)]) (simp_all add: demo_queued_values)
  moreover have "[0..<nat (1 + 1)] = [0, 1]" by (simp add: upt_rec numeral_2_eq_2)
  ultimately show ?thesis using ch demo_queued_values by auto
qed

theorem client_frames_in_order_witness:
  "so_open (cn_socket (conn demo_opened 0)) \<and>
   (\<exists>f. rl_sent (receive_client demo_codec 0 (demo_bytes 1 1 [5]) True 0 demo_opened) = rl_sent demo_opened @ [(''w'', f)] \<and>
      lf_bytes f = demo_bytes 1 1 [5])"
proof -
  let ?r = "receive_client demo_codec 0 (demo_bytes 1 1 [5]) True 0 demo_opened"
  have "rl_sent ?r \<noteq> rl_sent demo_opened" by (simp add: demo_relay_defs relay_eval)
  from client_frames_in_order [OF demo_open_reached _ _ this]
  have "\<exists>f. rl_sent ?r = rl_sent demo_opened @ [(ls_worker (cn_session (conn demo_opened 0)), f)] \<and> lf_bytes f = demo_bytes 1 1 [5]"
    using demo_open_values by auto
  moreover have "ls_worker (cn_session (conn demo_opened 0)) = ''w''" by (simp add: demo_relay_defs relay_eval)
  ultimately show ?thesis using demo_open_values by simp
qed

theorem queued_frames_drain_witness:
  "cn_frames (conn demo_queued 0) = 1 \<and> cn_drain (conn demo_queued 0) \<and>
   (cn_frames (conn (drain demo_codec 0 5 demo_queued) 0) = 0 \<or>
    so_buffered (cn_socket (conn (drain demo_codec 0 5 demo_queued) 0)) > 8388608 \<and> cn_drain (conn (drain demo_codec 0 5 demo_queued) 0) \<or>
    \<not> so_open (cn_socket (conn (drain demo_codec 0 5 demo_queued) 0)))"
  using queued_frames_drain [OF demo_queued_reached, of 0 5] demo_queued_values by (simp add: Let_def)

text \<open>
  A frame the relay refuses for the byte quota is lost while the channel's count has moved on. The socket is closing, but
  frames that were already on their way are still taken: the next frame within the quota reaches the worker, which sees
  the numbers \<open>0\<close> and \<open>2\<close>.
\<close>

definition demo_tight :: relay where
  "demo_tight = receive_client demo_codec 0 (demo_bytes 1 1 [5, 5]) True 0 (receive_client demo_codec 0 (demo_bytes 3 0 []) True 0
     ((fst (attach demo_link_session (demo_socket 0 []) (relay_new (quotas_with_limits 1 1 1 1 2 2))))\<lparr>rl_online := [''w'']\<rparr>))"

lemma refused_frame_leaves_gap:
  "\<not> so_open (cn_socket (conn demo_tight 0)) \<and> map (h_sequence \<circ> lf_header \<circ> snd) (rl_sent demo_tight) = [0] \<and>
   map (h_sequence \<circ> lf_header \<circ> snd) (rl_sent (receive_client demo_codec 0 (demo_bytes 1 2 [5]) True 0 demo_tight)) = [0, 2]"
proof (intro conjI)
  show "\<not> so_open (cn_socket (conn demo_tight 0))" by (simp add: demo_tight_def demo_relay_defs relay_eval socket_close_def)
  show "map (h_sequence \<circ> lf_header \<circ> snd) (rl_sent demo_tight) = [0]" by (simp add: demo_tight_def demo_relay_defs relay_eval socket_close_def)
  show "map (h_sequence \<circ> lf_header \<circ> snd) (rl_sent (receive_client demo_codec 0 (demo_bytes 1 2 [5]) True 0 demo_tight)) = [0, 2]"
    by (simp add: demo_tight_def demo_relay_defs relay_eval socket_close_def)
qed

end
