(* ===== verification/LinkAuthority.thy ===== *)
theory LinkAuthority
  imports LinkFrames Texts
begin

text \<open>
  The authority over the worker links (\<^verbatim>\<open>cantrip_server_rs/src/worker_links/\<close>: \<^verbatim>\<open>mod.rs\<close>, \<^verbatim>\<open>sessions.rs\<close>, \<^verbatim>\<open>grants.rs\<close>,
  \<^verbatim>\<open>peers.rs\<close>, \<^verbatim>\<open>lifecycle.rs\<close>): sessions of a client with a worker process, the grants and peers of a session, and the fences
  that keep a revoked account or resource out while it is being revoked. A call of the source is cut where it waits for the
  worker: what it does between two waits is one definition, and what it carries over a wait is the argument of its next section. An object behind an \<open>Arc\<close> carries the number it was made with, so that \<open>Arc::ptr_eq\<close> compares numbers;
  what the source does to an object that has left its table changes nothing here. Times are milliseconds in the years whose
  dates read back as they were printed. The contracts of the wire (\<^verbatim>\<open>cantrip_server_rs/contracts/security.json\<close>, generated from
  \<^verbatim>\<open>packages/protocol/src/worker-link.ts\<close>) trim the ids they are given: \<open>check_session\<close>, \<open>check_grant\<close> and \<open>check_peer\<close> write them
  out for the fields kept here. An id is a string of UTF-16 units below 256. The ids and tokens that are drawn are arguments and pass
  their contracts, and so is the answer of the worker. What is left of the surroundings is the record \<open>link_world\<close>: which ids the
  callers of the coordinator pass, and the size and the contract of a mailbox.
\<close>

section \<open>Data\<close>

datatype link_error = Unavailable string | RequestFailed | ContractRefused | InvalidTime

record link_lease =
  issued_at :: int
  expires_at :: int
  absolute_at :: int

record link_identity =
  li_server :: string
  li_generation :: string
  li_owner :: string
  li_account :: string
  li_client :: string
  li_worker :: string
  li_process :: string

record authority_session =
  as_id :: string
  as_identity :: link_identity
  as_lease :: link_lease
  as_enabled :: "link_route list"
  as_route_generation :: nat
  as_preferred :: link_route

record installed_grant =
  ig_number :: nat
  ig_id :: string
  ig_kind :: string
  ig_resource :: string
  ig_attachment :: "string option"
  ig_lanes :: "string list"
  ig_operations :: "string list"
  ig_channels :: nat
  ig_lease :: link_lease
  ig_token_hash :: string
  ig_observation :: "(string \<times> string list) option"

record envelope =
  en_peer :: string
  en_session :: string
  en_generation :: nat
  en_route :: link_route
  en_from_client :: bool
  en_sequence :: nat
  en_body :: string

record peer_session =
  pr_number :: nat
  pr_ready :: bool
  pr_id :: string
  pr_route_generation :: nat
  pr_route :: link_route
  pr_lease :: link_lease
  pr_signals :: "envelope list"
  pr_advertisements :: "envelope list"
  pr_last_client :: int
  pr_last_worker :: int
  pr_last_advertisement :: int

record session_state =
  ss_number :: nat
  ss_ready :: bool
  ss_session :: authority_session
  ss_grants :: "(string, installed_grant) index_map"
  ss_peers :: "(string, peer_session) index_map"

record links =
  lk_closed :: bool
  lk_sessions :: "(string, session_state) index_map"
  lk_identities :: "(string, string) index_map"
  lk_opening :: "(string, nat) index_map"
  lk_opening_peers :: "(string, nat) index_map"
  lk_owner_fences :: "(string, nat) index_map"
  lk_account_fences :: "(string, nat) index_map"
  lk_resource_fences :: "(string, nat) index_map"
  lk_workers :: "string list"
  lk_number :: nat

record peer_configuration =
  pc_relay_only :: bool
  pc_local :: bool
  pc_lan :: bool
  pc_wan :: bool
  pc_per_client :: nat
  pc_per_worker :: nat

record link_options =
  op_server :: string
  op_generation :: string
  op_peer :: "peer_configuration option"
  op_session_lease :: int
  op_session_lifetime :: int
  op_max_sessions :: nat

record link_world =
  lw_caller_id :: "string \<Rightarrow> bool"
  lw_mailbox :: "peer_session \<Rightarrow> bool"
  lw_mailbox_bytes :: "envelope list \<Rightarrow> envelope list \<Rightarrow> nat"

definition links_new :: links where
  "links_new = \<lparr>lk_closed = False, lk_sessions = [], lk_identities = [], lk_opening = [], lk_opening_peers = [],
     lk_owner_fences = [], lk_account_fences = [], lk_resource_fences = [], lk_workers = [], lk_number = 0\<rparr>"

section \<open>Leases and keys\<close>

definition iso_ok :: "int \<Rightarrow> bool" where
  "iso_ok t \<longleftrightarrow> abs t \<le> 8640000000000000"

definition lease_valid :: "link_lease \<Rightarrow> bool" where
  "lease_valid l \<longleftrightarrow> issued_at l < expires_at l \<and> expires_at l \<le> absolute_at l"

text \<open>The dates of the wire have years of four digits.\<close>

definition wire_date :: "int \<Rightarrow> bool" where
  "wire_date t \<longleftrightarrow> -62167219200000 \<le> t \<and> t < 253402300800000"

definition lease_contract :: "link_lease \<Rightarrow> bool" where
  "lease_contract l \<longleftrightarrow> wire_date (issued_at l) \<and> wire_date (expires_at l) \<and> wire_date (absolute_at l) \<and> lease_valid l"

definition make_lease :: "int \<Rightarrow> int \<Rightarrow> int \<Rightarrow> (link_error, link_lease) result" where
  "make_lease issued expiry absolute =
     (if \<not> iso_ok issued \<or> \<not> iso_ok expiry \<or> \<not> iso_ok absolute then Inl InvalidTime
      else let l = \<lparr>issued_at = issued, expires_at = expiry, absolute_at = absolute\<rparr>
        in if lease_contract l then Inr l else Inl ContractRefused)"

definition renew_lease :: "link_lease \<Rightarrow> int \<Rightarrow> int \<Rightarrow> int option \<Rightarrow> (link_error, link_lease) result" where
  "renew_lease current duration now parent =
     (let expiry = min (case parent of None \<Rightarrow> absolute_at current | Some p \<Rightarrow> min (absolute_at current) p) (now + max duration 1)
      in if expiry \<le> now then Inl (Unavailable ''The WorkerLink lease has expired.'')
         else make_lease (issued_at current) expiry (absolute_at current))"

definition decimal :: "nat \<Rightarrow> string" where
  "decimal n = map char_of (decimal_digits n)"

definition link_key :: "string list \<Rightarrow> string" where
  "link_key parts = concat (map (\<lambda>p. decimal (length p) @ '':'' @ p) parts)"

definition identity_parts :: "link_identity \<Rightarrow> string list" where
  "identity_parts i = [li_server i, li_generation i, li_owner i, li_account i, li_client i, li_worker i, li_process i]"

definition identity_key :: "link_identity \<Rightarrow> string" where
  "identity_key i = link_key (identity_parts i)"

definition resource_key :: "string \<Rightarrow> string \<Rightarrow> string \<Rightarrow> string" where
  "resource_key ow kind res = link_key [ow, kind, res]"

section \<open>Contracts\<close>

definition js_space :: "char \<Rightarrow> bool" where
  "js_space c \<longleftrightarrow> whitespace (of_char c)"

definition js_trim :: "string \<Rightarrow> string" where
  "js_trim s = rev (dropWhile js_space (rev (dropWhile js_space s)))"

definition id_char :: "char \<Rightarrow> bool" where
  "id_char c \<longleftrightarrow> (32 :: nat) \<le> of_char c \<and> of_char c \<noteq> (127 :: nat)"

definition id_contract :: "string \<Rightarrow> string option" where
  "id_contract s = (let t = js_trim s in if t \<noteq> [] \<and> length t \<le> 200 \<and> list_all id_char t then Some t else None)"

definition trim_identity :: "link_identity \<Rightarrow> link_identity" where
  "trim_identity i = \<lparr>li_server = js_trim (li_server i), li_generation = js_trim (li_generation i), li_owner = js_trim (li_owner i),
     li_account = js_trim (li_account i), li_client = js_trim (li_client i), li_worker = js_trim (li_worker i), li_process = js_trim (li_process i)\<rparr>"

definition identity_contract :: "link_identity \<Rightarrow> link_identity option" where
  "identity_contract i = (if list_all (\<lambda>p. id_contract p \<noteq> None) (identity_parts i) then Some (trim_identity i) else None)"

definition generation_contract :: "nat \<Rightarrow> bool" where
  "generation_contract n \<longleftrightarrow> 0 < n \<and> n \<le> 9007199254740991"

definition unique_of :: "string list \<Rightarrow> string list \<Rightarrow> bool" where
  "unique_of options xs \<longleftrightarrow> xs \<noteq> [] \<and> distinct xs \<and> set xs \<subseteq> set options"

definition hex_char :: "char \<Rightarrow> bool" where
  "hex_char c \<longleftrightarrow> c \<in> set ''0123456789abcdefABCDEF''"

definition is_uuid :: "string \<Rightarrow> bool" where
  "is_uuid s \<longleftrightarrow> s \<in> {''00000000-0000-0000-0000-000000000000'', ''ffffffff-ffff-ffff-ffff-ffffffffffff''} \<or>
     length s = 36 \<and> s ! 14 \<in> set ''12345678'' \<and> s ! 19 \<in> set ''89abAB'' \<and>
     list_all (\<lambda>(i, c). if i \<in> {8, 13, 18, 23} then c = CHR ''-'' else hex_char c) (List.enumerate 0 s)"

definition grant_kinds :: "string list" where
  "grant_kinds = [''terminal'', ''tunnel'', ''project-share'', ''browser'', ''remote-desktop'', ''observations'']"

definition grant_lanes :: "string list" where
  "grant_lanes = [''events'', ''interactive'', ''stream'', ''realtime'', ''bulk'']"

definition grant_operations :: "string list" where
  "grant_operations = [''stream:open'', ''stream:read'', ''stream:write'', ''stream:half-close'', ''stream:guest-connect'',
     ''stream:guest-listen'', ''events:subscribe'', ''datagram:send'']"

definition observation_topics :: "string list" where
  "observation_topics = [''chat-progress'', ''filesystem'', ''worktree'', ''runtime'']"

text \<open>Only a grant of observations has a subscription, and it is the attachment of the grant.\<close>

definition observation_contract :: "string \<Rightarrow> string option \<Rightarrow> (string \<times> string list) option \<Rightarrow> bool" where
  "observation_contract kind attachment observation \<longleftrightarrow>
     (kind = ''observations'' \<longleftrightarrow> observation \<noteq> None) \<and>
     (case observation of None \<Rightarrow> True
      | Some (subscription, topics) \<Rightarrow> is_uuid subscription \<and> unique_of observation_topics topics \<and> attachment = Some subscription)"

section \<open>The tables\<close>

definition identity_authorized :: "links \<Rightarrow> string \<Rightarrow> string \<Rightarrow> bool" where
  "identity_authorized st ow account \<longleftrightarrow> im_get (lk_owner_fences st) ow = None \<and> im_get (lk_account_fences st) account = None"

abbreviation (input) not_authorized :: link_error where
  "not_authorized \<equiv> Unavailable ''The WorkerLink account session is no longer authorized.''"

abbreviation (input) shutting_down :: link_error where
  "shutting_down \<equiv> Unavailable ''The WorkerLink coordinator is shutting down.''"

abbreviation owner_of :: "session_state \<Rightarrow> string" where
  "owner_of s \<equiv> li_owner (as_identity (ss_session s))"

abbreviation account_of :: "session_state \<Rightarrow> string" where
  "account_of s \<equiv> li_account (as_identity (ss_session s))"

abbreviation worker_of_session :: "session_state \<Rightarrow> string" where
  "worker_of_session s \<equiv> li_worker (as_identity (ss_session s))"

definition ready_state :: "links \<Rightarrow> string \<Rightarrow> (link_error, session_state) result" where
  "ready_state st sid =
     (case im_get (lk_sessions st) sid of
        None \<Rightarrow> Inl (Unavailable ''The WorkerLink session is unavailable.'')
      | Some s \<Rightarrow>
          if \<not> ss_ready s then Inl (Unavailable ''The WorkerLink session is unavailable.'')
          else if \<not> identity_authorized st (owner_of s) (account_of s) then Inl not_authorized
          else Inr s)"

text \<open>The session object \<open>n\<close>, if it is still the one in the table.\<close>

definition current_session :: "links \<Rightarrow> string \<Rightarrow> nat \<Rightarrow> session_state option" where
  "current_session st sid n =
     (case im_get (lk_sessions st) sid of None \<Rightarrow> None | Some s \<Rightarrow> if ss_number s = n then Some s else None)"

definition put_link :: "string \<Rightarrow> session_state \<Rightarrow> links \<Rightarrow> links" where
  "put_link sid s st = st\<lparr>lk_sessions := im_insert sid s (lk_sessions st)\<rparr>"

definition current_grant :: "session_state \<Rightarrow> string \<Rightarrow> nat \<Rightarrow> installed_grant option" where
  "current_grant s gid n = (case im_get (ss_grants s) gid of None \<Rightarrow> None | Some g \<Rightarrow> if ig_number g = n then Some g else None)"

definition current_peer :: "session_state \<Rightarrow> string \<Rightarrow> nat \<Rightarrow> peer_session option" where
  "current_peer s pid n = (case im_get (ss_peers s) pid of None \<Rightarrow> None | Some p \<Rightarrow> if pr_number p = n then Some p else None)"

definition session_for_authorization :: "links \<Rightarrow> string \<Rightarrow> string \<Rightarrow> string \<Rightarrow> int \<Rightarrow> authority_session option" where
  "session_for_authorization st sid ow account now =
     (case im_get (lk_sessions st) sid of
        None \<Rightarrow> None
      | Some s \<Rightarrow> if ss_ready s \<and> owner_of s = ow \<and> account_of s = account \<and> expires_at (as_lease (ss_session s)) > now
          then Some (ss_session s) else None)"

definition authority_stats :: "links \<Rightarrow> nat \<times> nat" where
  "authority_stats st = (sum_list (map (length \<circ> ss_grants \<circ> snd) (lk_sessions st)), length (lk_sessions st))"

section \<open>Revocation\<close>

definition remove_session :: "string \<Rightarrow> nat \<Rightarrow> links \<Rightarrow> links" where
  "remove_session sid n st =
     (case current_session st sid n of
        None \<Rightarrow> st
      | Some s \<Rightarrow>
          let key = identity_key (as_identity (ss_session s));
              worker = worker_of_session s; rest = im_remove sid (lk_sessions st)
          in st\<lparr>lk_sessions := rest,
                lk_identities := (if im_get (lk_identities st) key = Some sid then im_remove key (lk_identities st) else lk_identities st),
                lk_workers := (if list_ex (\<lambda>(_, t). worker_of_session t = worker) rest then lk_workers st else removeAll worker (lk_workers st))\<rparr>)"

definition revoke_link :: "string \<Rightarrow> links \<Rightarrow> links \<times> bool" where
  "revoke_link sid st =
     (case im_get (lk_sessions st) sid of None \<Rightarrow> (st, False) | Some s \<Rightarrow> (remove_session sid (ss_number s) st, True))"

definition sessions_where :: "(authority_session \<Rightarrow> bool) \<Rightarrow> links \<Rightarrow> string list" where
  "sessions_where P st = map fst (filter (\<lambda>(_, s). P (ss_session s)) (lk_sessions st))"

definition revoke_grant :: "string \<Rightarrow> string \<Rightarrow> links \<Rightarrow> links \<times> bool" where
  "revoke_grant sid gid st =
     (case im_get (lk_sessions st) sid of
        None \<Rightarrow> (st, False)
      | Some s \<Rightarrow>
          if im_get (ss_grants s) gid = None then (st, False)
          else (put_link sid (s\<lparr>ss_grants := im_remove gid (ss_grants s)\<rparr>) st, True))"

definition revoke_peer :: "string \<Rightarrow> string \<Rightarrow> links \<Rightarrow> links \<times> bool" where
  "revoke_peer sid pid st =
     (case im_get (lk_sessions st) sid of
        None \<Rightarrow> (st, False)
      | Some s \<Rightarrow>
          if im_get (ss_peers s) pid = None then (st, False)
          else (put_link sid (s\<lparr>ss_peers := im_remove pid (ss_peers s)\<rparr>) st, True))"

datatype scope = OwnerScope string | AccountScope string | ResourceScope string string string "string option"

definition raise_fence :: "string \<Rightarrow> (string, nat) index_map \<Rightarrow> (string, nat) index_map" where
  "raise_fence k m = im_insert k (case im_get m k of None \<Rightarrow> 1 | Some n \<Rightarrow> n + 1) m"

definition lower_fence :: "string \<Rightarrow> (string, nat) index_map \<Rightarrow> (string, nat) index_map" where
  "lower_fence k m =
     (case im_get m k of None \<Rightarrow> m | Some n \<Rightarrow> if n - 1 = 0 then im_remove k m else im_insert k (n - 1) m)"

fun fence :: "scope \<Rightarrow> links \<Rightarrow> links" where
  "fence (OwnerScope ow) st = st\<lparr>lk_owner_fences := raise_fence ow (lk_owner_fences st)\<rparr>"
| "fence (AccountScope a) st = st\<lparr>lk_account_fences := raise_fence a (lk_account_fences st)\<rparr>"
| "fence (ResourceScope ow k r _) st = st\<lparr>lk_resource_fences := raise_fence (resource_key ow k r) (lk_resource_fences st)\<rparr>"

fun drop_fence :: "scope \<Rightarrow> links \<Rightarrow> links" where
  "drop_fence (OwnerScope ow) st = st\<lparr>lk_owner_fences := lower_fence ow (lk_owner_fences st)\<rparr>"
| "drop_fence (AccountScope a) st = st\<lparr>lk_account_fences := lower_fence a (lk_account_fences st)\<rparr>"
| "drop_fence (ResourceScope ow k r _) st = st\<lparr>lk_resource_fences := lower_fence (resource_key ow k r) (lk_resource_fences st)\<rparr>"

definition grant_matches :: "string \<Rightarrow> string \<Rightarrow> string option \<Rightarrow> installed_grant \<Rightarrow> bool" where
  "grant_matches kind res attachment g \<longleftrightarrow>
     ig_kind g = kind \<and> ig_resource g = res \<and> (case attachment of None \<Rightarrow> True | Some a \<Rightarrow> ig_attachment g = Some a)"

datatype revocation = RevokeSession string | RevokeGrant string string | RevokePeer string string

text \<open>What the revocation of a scope finds once its fence stands; each is then revoked on its own.\<close>

fun scope_matches :: "scope \<Rightarrow> links \<Rightarrow> revocation list" where
  "scope_matches (OwnerScope ow) st = map RevokeSession (sessions_where (\<lambda>s. li_owner (as_identity s) = ow) st)"
| "scope_matches (AccountScope a) st = map RevokeSession (sessions_where (\<lambda>s. li_account (as_identity s) = a) st)"
| "scope_matches (ResourceScope ow kind res att) st =
     concat (map (\<lambda>(sid, s). if owner_of s \<noteq> ow then []
        else map (\<lambda>(gid, _). RevokeGrant sid gid) (filter (\<lambda>(_, g). grant_matches kind res att g) (ss_grants s))) (lk_sessions st))"

fun revoke_one :: "revocation \<Rightarrow> links \<Rightarrow> links \<times> bool" where
  "revoke_one (RevokeSession sid) st = revoke_link sid st"
| "revoke_one (RevokeGrant sid gid) st = revoke_grant sid gid st"
| "revoke_one (RevokePeer sid pid) st = revoke_peer sid pid st"

definition sweep_scan :: "int \<Rightarrow> links \<Rightarrow> revocation list" where
  "sweep_scan now st =
     (let live = filter (\<lambda>(_, s). \<not> expires_at (as_lease (ss_session s)) \<le> now) (lk_sessions st)
      in concat (map (\<lambda>(sid, s). map (\<lambda>(pid, _). RevokePeer sid pid) (filter (\<lambda>(_, p). expires_at (pr_lease p) \<le> now) (ss_peers s))) live) @
         concat (map (\<lambda>(sid, s). map (\<lambda>(gid, _). RevokeGrant sid gid) (filter (\<lambda>(_, g). expires_at (ig_lease g) \<le> now) (ss_grants s))) live) @
         map RevokeSession (sessions_where (\<lambda>s. expires_at (as_lease s) \<le> now) st))"

text \<open>The workers whose disconnection and notifications the coordinator has subscribed to (\<^verbatim>\<open>native_workers\<close>).\<close>

definition register_worker :: "string \<Rightarrow> links \<Rightarrow> links" where
  "register_worker worker st = (if worker \<in> set (lk_workers st) then st else st\<lparr>lk_workers := lk_workers st @ [worker]\<rparr>)"

definition clear_workers :: "links \<Rightarrow> links" where
  "clear_workers st = st\<lparr>lk_workers := []\<rparr>"

definition close_links :: "links \<Rightarrow> links" where
  "close_links st = st\<lparr>lk_closed := True\<rparr>"

section \<open>Sessions\<close>

record resolved_identity =
  rv_server :: string
  rv_owner :: string
  rv_worker :: string
  rv_process :: string

definition open_begin :: "links \<Rightarrow> string \<Rightarrow> string \<Rightarrow> (link_error, unit) result" where
  "open_begin st ow account =
     (if lk_closed st then Inl shutting_down else if \<not> identity_authorized st ow account then Inl not_authorized else Inr ())"

datatype open_decision = KnownSession authority_session | JoinOpening nat | StartOpening string link_identity

definition open_start :: "link_options \<Rightarrow> string \<Rightarrow> link_identity \<Rightarrow> nat \<Rightarrow> links \<Rightarrow> links \<times> (link_error, open_decision) result" where
  "open_start opts key ident marker st =
     (case im_get (lk_opening st) key of
        Some m \<Rightarrow> (st, Inr (JoinOpening m))
      | None \<Rightarrow>
          if length (lk_sessions st) + length (lk_opening st) \<ge> op_max_sessions opts
          then (st, Inl (Unavailable ''The WorkerLink session limit has been reached.''))
          else (st\<lparr>lk_opening := im_insert key marker (lk_opening st)\<rparr>, Inr (StartOpening key ident)))"

text \<open>The worker's answer passes its contract before it is compared.\<close>

definition resolve_contract :: "resolved_identity \<Rightarrow> resolved_identity option" where
  "resolve_contract rv =
     (if list_all (\<lambda>p. id_contract p \<noteq> None) [rv_server rv, rv_owner rv, rv_worker rv, rv_process rv]
      then Some \<lparr>rv_server = js_trim (rv_server rv), rv_owner = js_trim (rv_owner rv), rv_worker = js_trim (rv_worker rv),
             rv_process = js_trim (rv_process rv)\<rparr>
      else None)"

definition open_decide ::
  "link_options \<Rightarrow> string \<Rightarrow> string \<Rightarrow> string \<Rightarrow> string \<Rightarrow> resolved_identity \<Rightarrow> nat \<Rightarrow> links \<Rightarrow> links \<times> (link_error, open_decision) result" where
  "open_decide opts ow account client worker answer marker st =
     (case resolve_contract answer of
        None \<Rightarrow> (st, Inl ContractRefused)
      | Some rv \<Rightarrow>
          if rv_server rv \<noteq> op_server opts \<or> rv_owner rv \<noteq> ow \<or> rv_worker rv \<noteq> worker
          then (st, Inl (Unavailable ''WorkerLink identity resolution did not match the authorized worker.''))
          else let ident = \<lparr>li_server = op_server opts, li_generation = op_generation opts, li_owner = ow, li_account = account,
                   li_client = client, li_worker = worker, li_process = rv_process rv\<rparr>;
                 key = identity_key ident
            in case Option.bind (im_get (lk_identities st) key) (im_get (lk_sessions st)) of
                 Some s \<Rightarrow> if ss_ready s then (st, Inr (KnownSession (ss_session s))) else open_start opts key ident marker st
               | None \<Rightarrow> open_start opts key ident marker st)"

definition generation_changed :: "link_identity \<Rightarrow> links \<Rightarrow> revocation list" where
  "generation_changed ident st =
     map RevokeSession (sessions_where (\<lambda>s. li_worker (as_identity s) = li_worker ident \<and> li_process (as_identity s) \<noteq> li_process ident) st)"

definition enabled_routes :: "peer_configuration option \<Rightarrow> link_route list" where
  "enabled_routes config =
     (if (case config of None \<Rightarrow> True | Some c \<Rightarrow> \<not> pc_relay_only c)
      then (if (case config of None \<Rightarrow> True | Some c \<Rightarrow> pc_local c) then [RouteLocal] else []) @
           (if (case config of None \<Rightarrow> False | Some c \<Rightarrow> pc_lan c) then [RouteLan] else []) @
           (if (case config of None \<Rightarrow> False | Some c \<Rightarrow> pc_wan c) then [RouteWan] else [])
      else []) @ [RouteRelay]"

definition check_session :: "authority_session \<Rightarrow> (link_error, authority_session) result" where
  "check_session s =
     (if lease_contract (as_lease s) \<and> as_enabled s \<noteq> [] \<and> distinct (as_enabled s) \<and> as_preferred s \<in> set (as_enabled s) \<and>
         generation_contract (as_route_generation s)
      then (case identity_contract (as_identity s) of None \<Rightarrow> Inl ContractRefused | Some i \<Rightarrow> Inr (s\<lparr>as_identity := i\<rparr>))
      else Inl ContractRefused)"

definition new_session :: "link_options \<Rightarrow> link_identity \<Rightarrow> string \<Rightarrow> int \<Rightarrow> (link_error, authority_session) result" where
  "new_session opts ident sid now =
     (let enabled = enabled_routes (op_peer opts);
          absolute = now + max (op_session_lifetime opts) 1
      in rbind (make_lease now (min absolute (now + max (op_session_lease opts) 1)) absolute) (\<lambda>l.
         check_session \<lparr>as_id = sid, as_identity = ident, as_lease = l, as_enabled = enabled, as_route_generation = 1,
           as_preferred = (if RouteLocal \<in> set enabled then RouteLocal else RouteRelay)\<rparr>))"

definition open_insert ::
  "link_options \<Rightarrow> string \<Rightarrow> link_identity \<Rightarrow> string \<Rightarrow> int \<Rightarrow> links \<Rightarrow> links \<times> (link_error, authority_session) result" where
  "open_insert opts key ident sid now st =
     (case open_begin st (li_owner ident) (li_account ident) of
        Inl e \<Rightarrow> (st, Inl e)
      | Inr _ \<Rightarrow>
          (case new_session opts ident sid now of
             Inl e \<Rightarrow> (st, Inl e)
           | Inr s \<Rightarrow>
               (put_link (as_id s) \<lparr>ss_number = lk_number st, ss_ready = False, ss_session = s, ss_grants = [], ss_peers = []\<rparr>
                  (register_worker (li_worker ident) (st\<lparr>lk_identities := im_insert key (as_id s) (lk_identities st), lk_number := lk_number st + 1\<rparr>)), Inr s)))"

definition open_accept :: "string \<Rightarrow> nat \<Rightarrow> link_identity \<Rightarrow> links \<Rightarrow> links \<times> bool" where
  "open_accept sid n ident st =
     (case current_session st sid n of
        None \<Rightarrow> (st, False)
      | Some s \<Rightarrow>
          if \<not> identity_authorized st (li_owner ident) (li_account ident) then (st, False)
          else (put_link sid (s\<lparr>ss_ready := True\<rparr>) st, True))"

definition open_end :: "string \<Rightarrow> nat \<Rightarrow> links \<Rightarrow> links" where
  "open_end key marker st =
     (if im_get (lk_opening st) key = Some marker then st\<lparr>lk_opening := im_remove key (lk_opening st)\<rparr> else st)"

definition renew_session_begin ::
  "link_options \<Rightarrow> string \<Rightarrow> int option \<Rightarrow> int \<Rightarrow> links \<Rightarrow> (link_error, session_state \<times> link_lease) result" where
  "renew_session_begin opts sid duration now st =
     (if lk_closed st then Inl shutting_down
      else rbind (ready_state st sid) (\<lambda>s.
           rbind (renew_lease (as_lease (ss_session s)) (case duration of None \<Rightarrow> op_session_lease opts | Some d \<Rightarrow> d) now None) (\<lambda>l.
             Inr (s, l))))"

definition renew_session_commit :: "string \<Rightarrow> nat \<Rightarrow> link_lease \<Rightarrow> links \<Rightarrow> links \<times> (link_error, peer_session list) result" where
  "renew_session_commit sid n l st =
     (case current_session st sid n of
        None \<Rightarrow> (st, Inl (Unavailable ''The WorkerLink session was revoked during renewal.''))
      | Some s \<Rightarrow>
          (case check_session ((ss_session s)\<lparr>as_lease := l\<rparr>) of
             Inl e \<Rightarrow> (st, Inl e)
           | Inr v \<Rightarrow> (put_link sid (s\<lparr>ss_session := v\<rparr>) st, Inr (map snd (ss_peers s)))))"

text \<open>Each peer of a renewed session in turn: a peer that is not ready is passed over.\<close>

definition renew_peer_begin :: "peer_session \<Rightarrow> int \<Rightarrow> int \<Rightarrow> link_lease \<Rightarrow> (link_error, link_lease option) result" where
  "renew_peer_begin p duration now l =
     (if \<not> pr_ready p then Inr None
      else rbind (renew_lease (pr_lease p) duration now (Some (expires_at l))) (\<lambda>pl. Inr (Some pl)))"

text \<open>The ids of a peer are its session's, which have passed the same contract.\<close>

definition check_peer :: "peer_session \<Rightarrow> (link_error, peer_session) result" where
  "check_peer p =
     (if lease_contract (pr_lease p) \<and> pr_route p \<in> {RouteLan, RouteWan} \<and> generation_contract (pr_route_generation p)
      then Inr p else Inl ContractRefused)"

definition renew_peer_commit ::
  "string \<Rightarrow> nat \<Rightarrow> string \<Rightarrow> nat \<Rightarrow> link_lease \<Rightarrow> links \<Rightarrow> links \<times> (link_error, unit) result" where
  "renew_peer_commit sid n pid pn l st =
     (case current_session st sid n of
        None \<Rightarrow> (st, Inr ())
      | Some s \<Rightarrow>
          (case current_peer s pid pn of
             None \<Rightarrow> (st, Inr ())
           | Some p \<Rightarrow>
               (case check_peer (p\<lparr>pr_lease := l\<rparr>) of
                  Inl e \<Rightarrow> (st, Inl e)
                | Inr p' \<Rightarrow> (put_link sid (s\<lparr>ss_peers := im_insert pid p' (ss_peers s)\<rparr>) st, Inr ()))))"

definition renew_peer_failed :: "string \<Rightarrow> nat \<Rightarrow> string \<Rightarrow> links \<Rightarrow> links" where
  "renew_peer_failed sid n pid st =
     (case current_session st sid n of
        None \<Rightarrow> st
      | Some s \<Rightarrow> put_link sid (s\<lparr>ss_peers := im_remove pid (ss_peers s)\<rparr>) st)"

datatype route_decision = SameRoute authority_session | ChangeRoute nat nat

definition replace_route_begin :: "string \<Rightarrow> link_route \<Rightarrow> links \<Rightarrow> (link_error, route_decision) result" where
  "replace_route_begin sid route st =
     (if lk_closed st then Inl shutting_down
      else rbind (ready_state st sid) (\<lambda>s.
        if as_preferred (ss_session s) = route then Inr (SameRoute (ss_session s))
        else if route \<notin> set (as_enabled (ss_session s)) then Inl (Unavailable ''The requested WorkerLink route is not enabled.'')
        else Inr (ChangeRoute (ss_number s) (as_route_generation (ss_session s) + 1))))"

definition replace_route_commit ::
  "string \<Rightarrow> nat \<Rightarrow> link_route \<Rightarrow> nat \<Rightarrow> links \<Rightarrow> links \<times> (link_error, revocation list) result" where
  "replace_route_commit sid n route generation st =
     (case current_session st sid n of
        None \<Rightarrow> (st, Inl (Unavailable ''The WorkerLink session was revoked during route replacement.''))
      | Some s \<Rightarrow>
          (case check_session ((ss_session s)\<lparr>as_preferred := route, as_route_generation := generation\<rparr>) of
             Inl e \<Rightarrow> (st, Inl e)
           | Inr v \<Rightarrow> (put_link sid (s\<lparr>ss_session := v\<rparr>) st, Inr (map (\<lambda>(pid, _). RevokePeer sid pid) (ss_peers s)))))"

section \<open>Grants\<close>

datatype requested_expiry = NoExpiry | BadExpiry | ExpiryAt int

record grant_input =
  gi_kind :: string
  gi_resource :: string
  gi_attachment :: "string option"
  gi_lanes :: "string list"
  gi_operations :: "string list"
  gi_max_channels :: "nat option"
  gi_lease_ms :: "int option"
  gi_expiry :: requested_expiry
  gi_observation :: "(string \<times> string list) option"

definition trim_grant :: "installed_grant \<Rightarrow> installed_grant" where
  "trim_grant g = g\<lparr>ig_resource := js_trim (ig_resource g), ig_attachment := map_option js_trim (ig_attachment g)\<rparr>"

definition check_grant :: "installed_grant \<Rightarrow> (link_error, installed_grant) result" where
  "check_grant g =
     (if lease_contract (ig_lease g) \<and> ig_kind g \<in> set grant_kinds \<and> id_contract (ig_resource g) \<noteq> None \<and>
         (case ig_attachment g of None \<Rightarrow> True | Some a \<Rightarrow> id_contract a \<noteq> None) \<and>
         unique_of grant_lanes (ig_lanes g) \<and> unique_of grant_operations (ig_operations g) \<and> 0 < ig_channels g \<and> ig_channels g \<le> 64 \<and>
         observation_contract (ig_kind g) (map_option js_trim (ig_attachment g)) (ig_observation g)
      then Inr (trim_grant g) else Inl ContractRefused)"

definition grant_lease :: "link_lease \<Rightarrow> grant_input \<Rightarrow> int \<Rightarrow> (link_error, link_lease) result" where
  "grant_lease sl input now =
     (case gi_expiry input of
        BadExpiry \<Rightarrow> Inl (Unavailable ''The WorkerLink resource lifetime is invalid.'')
      | e \<Rightarrow>
          let absolute = (case e of ExpiryAt t \<Rightarrow> min (absolute_at sl) t | _ \<Rightarrow> absolute_at sl)
          in if absolute \<le> now then Inl (Unavailable ''The WorkerLink resource lifetime has expired.'')
             else make_lease now
                    (min (min (expires_at sl) absolute) (now + max (case gi_lease_ms input of None \<Rightarrow> 60000 | Some d \<Rightarrow> d) 1)) absolute)"

definition prepare_grant ::
  "string \<Rightarrow> grant_input \<Rightarrow> int \<Rightarrow> string \<Rightarrow> string \<Rightarrow> links \<Rightarrow> links \<times> (link_error, session_state \<times> installed_grant) result" where
  "prepare_grant sid input now gid hash st =
     (case ready_state st sid of
        Inl e \<Rightarrow> (st, Inl e)
      | Inr s \<Rightarrow>
          if im_get (lk_resource_fences st) (resource_key (owner_of s) (gi_kind input) (gi_resource input)) \<noteq> None
          then (st, Inl (Unavailable ''The WorkerLink resource is being revoked.''))
          else if length (ss_grants s) \<ge> 128 then (st, Inl (Unavailable ''The WorkerLink grant limit has been reached.''))
          else (case grant_lease (as_lease (ss_session s)) input now of
              Inl e \<Rightarrow> (st, Inl e)
            | Inr l \<Rightarrow>
                (case check_grant \<lparr>ig_number = lk_number st, ig_id = gid, ig_kind = gi_kind input, ig_resource = gi_resource input,
                      ig_attachment = gi_attachment input, ig_lanes = gi_lanes input, ig_operations = gi_operations input,
                      ig_channels = min (case gi_max_channels input of None \<Rightarrow> 4 | Some n \<Rightarrow> n) 64, ig_lease = l,
                      ig_token_hash = hash, ig_observation = gi_observation input\<rparr> of
                   Inl e \<Rightarrow> (st, Inl e)
                 | Inr g \<Rightarrow>
                     (put_link sid (s\<lparr>ss_grants := im_insert (ig_id g) g (ss_grants s)\<rparr>) (st\<lparr>lk_number := lk_number st + 1\<rparr>), Inr (s, g)))))"

definition issue_failed :: "string \<Rightarrow> nat \<Rightarrow> string \<Rightarrow> nat \<Rightarrow> links \<Rightarrow> links" where
  "issue_failed sid n gid gn st =
     (case current_session st sid n of
        None \<Rightarrow> st
      | Some s \<Rightarrow> if current_grant s gid gn = None then st else put_link sid (s\<lparr>ss_grants := im_remove gid (ss_grants s)\<rparr>) st)"

definition issue_accept :: "string \<Rightarrow> nat \<Rightarrow> string \<Rightarrow> nat \<Rightarrow> string \<Rightarrow> links \<Rightarrow> bool" where
  "issue_accept sid n gid gn key st =
     (case current_session st sid n of
        None \<Rightarrow> False
      | Some s \<Rightarrow> current_grant s gid gn \<noteq> None \<and> im_get (lk_resource_fences st) key = None)"

definition renew_grant_begin ::
  "string \<Rightarrow> string \<Rightarrow> int option \<Rightarrow> int \<Rightarrow> links \<Rightarrow> (link_error, nat \<times> nat \<times> link_lease) result" where
  "renew_grant_begin sid gid duration now st =
     (if lk_closed st then Inl shutting_down
      else rbind (ready_state st sid) (\<lambda>s.
        case im_get (ss_grants s) gid of
          None \<Rightarrow> Inl (Unavailable ''The WorkerLink grant is missing.'')
        | Some g \<Rightarrow>
            rbind (renew_lease (ig_lease g) (case duration of None \<Rightarrow> 60000 | Some d \<Rightarrow> d) now (Some (expires_at (as_lease (ss_session s))))) (\<lambda>l.
              Inr (ss_number s, ig_number g, l))))"

definition renew_grant_commit ::
  "string \<Rightarrow> nat \<Rightarrow> string \<Rightarrow> nat \<Rightarrow> link_lease \<Rightarrow> links \<Rightarrow> links \<times> (link_error, unit) result" where
  "renew_grant_commit sid n gid gn l st =
     (case Option.bind (current_session st sid n) (\<lambda>s. map_option (Pair s) (current_grant s gid gn)) of
        None \<Rightarrow> (st, Inl (Unavailable ''The WorkerLink grant was revoked during renewal.''))
      | Some (s, g) \<Rightarrow>
          (case check_grant (g\<lparr>ig_lease := l\<rparr>) of
             Inl e \<Rightarrow> (st, Inl e)
           | Inr g' \<Rightarrow> (put_link sid (s\<lparr>ss_grants := im_insert gid g' (ss_grants s)\<rparr>) st, Inr ())))"

section \<open>Peers\<close>

definition route_enabled :: "peer_configuration \<Rightarrow> link_route \<Rightarrow> bool" where
  "route_enabled c route \<longleftrightarrow>
     \<not> pc_relay_only c \<and> (case route of RouteLocal \<Rightarrow> pc_local c | RouteLan \<Rightarrow> pc_lan c | RouteWan \<Rightarrow> pc_wan c | RouteRelay \<Rightarrow> False)"

datatype peer_decision = KnownPeer peer_session | JoinPeer nat | StartPeer session_state peer_configuration

definition route_text :: "link_route \<Rightarrow> string" where
  "route_text route = (case route of RouteLocal \<Rightarrow> ''local'' | RouteLan \<Rightarrow> ''lan'' | RouteWan \<Rightarrow> ''wan'' | RouteRelay \<Rightarrow> ''relay'')"

definition peer_round :: "string \<Rightarrow> nat \<Rightarrow> link_route \<Rightarrow> string" where
  "peer_round sid generation route = sid @ '':'' @ decimal generation @ '':'' @ route_text route"

definition open_peer_decide ::
  "link_options \<Rightarrow> string \<Rightarrow> link_route \<Rightarrow> nat \<Rightarrow> nat \<Rightarrow> links \<Rightarrow> links \<times> (link_error, peer_decision) result" where
  "open_peer_decide opts sid route generation marker st =
     (if lk_closed st then (st, Inl shutting_down)
      else case ready_state st sid of
          Inl e \<Rightarrow> (st, Inl e)
        | Inr s \<Rightarrow>
            (case op_peer opts of
               None \<Rightarrow> (st, Inl (Unavailable ''The requested WorkerLink peer route is disabled.''))
             | Some config \<Rightarrow>
                 if \<not> route_enabled config route then (st, Inl (Unavailable ''The requested WorkerLink peer route is disabled.''))
                 else if generation \<noteq> as_route_generation (ss_session s)
                 then (st, Inl (Unavailable ''The WorkerLink peer route generation is stale.''))
                 else (case filter (\<lambda>p. pr_ready p \<and> pr_route p = route \<and> pr_route_generation p = generation) (map snd (ss_peers s)) of
                     p # _ \<Rightarrow> (st, Inr (KnownPeer p))
                   | [] \<Rightarrow>
                       let slot = peer_round sid generation route
                       in case im_get (lk_opening_peers st) slot of
                            Some m \<Rightarrow> (st, Inr (JoinPeer m))
                          | None \<Rightarrow> (st\<lparr>lk_opening_peers := im_insert slot marker (lk_opening_peers st)\<rparr>, Inr (StartPeer s config)))))"

definition open_peer_end :: "string \<Rightarrow> nat \<Rightarrow> links \<Rightarrow> links" where
  "open_peer_end slot marker st =
     (if im_get (lk_opening_peers st) slot = Some marker then st\<lparr>lk_opening_peers := im_remove slot (lk_opening_peers st)\<rparr> else st)"

definition worker_peers :: "string \<Rightarrow> links \<Rightarrow> nat" where
  "worker_peers worker st = sum_list (map (\<lambda>(_, s). if worker_of_session s = worker then length (ss_peers s) else 0) (lk_sessions st))"

text \<open>A session that was revoked in the meantime is an empty object: the peer is put into it and is never accepted.\<close>

definition prepare_peer ::
  "peer_configuration \<Rightarrow> session_state \<Rightarrow> link_route \<Rightarrow> int \<Rightarrow> string \<Rightarrow> links \<Rightarrow> links \<times> (link_error, peer_session) result" where
  "prepare_peer config held route now pid st =
     (let sid = as_id (ss_session held);
          now_held = current_session st sid (ss_number held);
          s = (case now_held of Some s \<Rightarrow> s | None \<Rightarrow> held\<lparr>ss_peers := []\<rparr>)
      in if length (ss_peers s) \<ge> pc_per_client config
         then (st, Inl (Unavailable ''The WorkerLink client peer-session limit has been reached.''))
         else if worker_peers (worker_of_session s) st \<ge> pc_per_worker config
         then (st, Inl (Unavailable ''The WorkerLink worker peer-session limit has been reached.''))
         else if \<not> iso_ok now then (st, Inl InvalidTime)
         else (case check_peer \<lparr>pr_number = lk_number st, pr_ready = False, pr_id = pid, pr_route_generation = as_route_generation (ss_session s),
               pr_route = route, pr_lease = \<lparr>issued_at = now, expires_at = expires_at (as_lease (ss_session s)), absolute_at = absolute_at (as_lease (ss_session s))\<rparr>,
               pr_signals = [], pr_advertisements = [], pr_last_client = -1, pr_last_worker = -1, pr_last_advertisement = -1\<rparr> of
             Inl e \<Rightarrow> (st, Inl e)
           | Inr p \<Rightarrow>
               let st' = st\<lparr>lk_number := lk_number st + 1\<rparr>
               in (case now_held of None \<Rightarrow> st' | Some s \<Rightarrow> put_link sid (s\<lparr>ss_peers := im_insert (pr_id p) p (ss_peers s)\<rparr>) st', Inr p)))"

definition install_peer_failed :: "string \<Rightarrow> nat \<Rightarrow> string \<Rightarrow> nat \<Rightarrow> links \<Rightarrow> links" where
  "install_peer_failed sid n pid pn st =
     (case current_session st sid n of
        None \<Rightarrow> st
      | Some s \<Rightarrow> if current_peer s pid pn = None then st else put_link sid (s\<lparr>ss_peers := im_remove pid (ss_peers s)\<rparr>) st)"

definition install_peer_accept :: "string \<Rightarrow> nat \<Rightarrow> peer_session \<Rightarrow> links \<Rightarrow> links \<times> bool" where
  "install_peer_accept sid n peer st =
     (case current_session st sid n of
        None \<Rightarrow> (st, False)
      | Some s \<Rightarrow>
          (case current_peer s (pr_id peer) (pr_number peer) of
             None \<Rightarrow> (st, False)
           | Some p \<Rightarrow>
               if as_route_generation (ss_session s) \<noteq> pr_route_generation peer then (st, False)
               else (put_link sid (s\<lparr>ss_peers := im_insert (pr_id peer) (p\<lparr>pr_ready := True\<rparr>) (ss_peers s)\<rparr>) st, True)))"

abbreviation (input) signal_unavailable :: link_error where
  "signal_unavailable \<equiv> Unavailable ''The WorkerLink peer signal authority is unavailable.''"

definition signal_begin :: "envelope \<Rightarrow> links \<Rightarrow> (link_error, nat \<times> nat) result" where
  "signal_begin en st =
     (if \<not> en_from_client en then Inl (Unavailable ''The WorkerLink peer signal sender is invalid.'')
      else rbind (ready_state st (en_session en)) (\<lambda>s.
        case im_get (ss_peers s) (en_peer en) of None \<Rightarrow> Inl signal_unavailable | Some p \<Rightarrow> Inr (ss_number s, pr_number p)))"

definition signal_turn :: "envelope \<Rightarrow> nat \<Rightarrow> nat \<Rightarrow> int \<Rightarrow> links \<Rightarrow> links \<times> (link_error, unit) result" where
  "signal_turn en n pn now st =
     (case Option.bind (current_session st (en_session en) n) (\<lambda>s. current_peer s (en_peer en) pn) of
        None \<Rightarrow> (st, Inl signal_unavailable)
      | Some p \<Rightarrow>
          if \<not> (pr_ready p \<and> en_generation en = pr_route_generation p \<and> en_route en = pr_route p \<and> expires_at (pr_lease p) > now)
          then (st, Inl signal_unavailable)
          else if int (en_sequence en) \<noteq> pr_last_client p + 1
          then (st, Inl (Unavailable ''The WorkerLink peer signal sequence is invalid.''))
          else if en_sequence en \<ge> 256
          then (fst (revoke_peer (en_session en) (en_peer en) st), Inl (Unavailable ''The WorkerLink peer signal limit has been reached.''))
          else (st, Inr ()))"

definition edit_peer :: "string \<Rightarrow> string \<Rightarrow> (peer_session \<Rightarrow> peer_session) \<Rightarrow> session_state \<Rightarrow> links \<Rightarrow> links" where
  "edit_peer sid pid f s st =
     (case im_get (ss_peers s) pid of None \<Rightarrow> st | Some p \<Rightarrow> put_link sid (s\<lparr>ss_peers := im_insert pid (f p) (ss_peers s)\<rparr>) st)"

definition signal_commit :: "envelope \<Rightarrow> nat \<Rightarrow> nat \<Rightarrow> links \<Rightarrow> links" where
  "signal_commit en n pn st =
     (case current_session st (en_session en) n of
        None \<Rightarrow> st
      | Some s \<Rightarrow>
          if current_peer s (en_peer en) pn = None then st
          else edit_peer (en_session en) (en_peer en) (\<lambda>p. p\<lparr>pr_last_client := int (en_sequence en)\<rparr>) s st)"

definition after_cursor :: "nat option \<Rightarrow> envelope list \<Rightarrow> envelope list" where
  "after_cursor cursor es = (case cursor of None \<Rightarrow> es | Some n \<Rightarrow> filter (\<lambda>e. en_sequence e > n) es)"

definition read_peer_mailbox ::
  "link_world \<Rightarrow> string \<Rightarrow> string \<Rightarrow> nat option \<Rightarrow> nat option \<Rightarrow> int \<Rightarrow> links \<Rightarrow> links \<times> (link_error, envelope list \<times> envelope list) result" where
  "read_peer_mailbox wd sid pid after_signal after_advertisement now st =
     (case ready_state st sid of
        Inl e \<Rightarrow> (st, Inl e)
      | Inr s \<Rightarrow>
          (case im_get (ss_peers s) pid of
             None \<Rightarrow> (st, Inl (Unavailable ''The WorkerLink peer mailbox is unavailable.''))
           | Some p \<Rightarrow>
               if \<not> pr_ready p \<or> expires_at (pr_lease p) \<le> now then (st, Inl (Unavailable ''The WorkerLink peer mailbox is unavailable.''))
               else if (case after_signal of None \<Rightarrow> False | Some n \<Rightarrow> int n > pr_last_worker p) \<or>
                       (case after_advertisement of None \<Rightarrow> False | Some n \<Rightarrow> int n > pr_last_advertisement p)
               then (st, Inl (Unavailable ''The WorkerLink peer mailbox cursor is invalid.''))
               else let p' = p\<lparr>pr_signals := after_cursor after_signal (pr_signals p),
                      pr_advertisements := after_cursor after_advertisement (pr_advertisements p)\<rparr>
                 in (edit_peer sid pid (\<lambda>_. p') s st,
                     if lw_mailbox wd p' then Inr (pr_signals p', pr_advertisements p') else Inl ContractRefused)))"

text \<open>What a worker's signal (or, for \<open>signal = False\<close>, candidate advertisement) does to its peer; \<open>None\<close> revokes the peer.\<close>

definition accept_record :: "link_world \<Rightarrow> bool \<Rightarrow> envelope \<Rightarrow> peer_session \<Rightarrow> peer_session option" where
  "accept_record wd signal en p =
     (let last = (if signal then pr_last_worker p else pr_last_advertisement p);
          records = (if signal then pr_signals p else pr_advertisements p)
      in if int (en_sequence en) \<le> last
         then (case filter (\<lambda>e. en_sequence e = en_sequence en) records of
             e # _ \<Rightarrow> if e \<noteq> en then None else Some p
           | [] \<Rightarrow> Some p)
         else let signals = (if signal then pr_signals p @ [en] else pr_signals p);
                  advertisements = (if signal then pr_advertisements p else pr_advertisements p @ [en])
           in if int (en_sequence en) \<noteq> last + 1 \<or> length records \<ge> 256 \<or> lw_mailbox_bytes wd signals advertisements > 4 * 1024 * 1024
              then None
              else if signal then Some (p\<lparr>pr_signals := signals, pr_last_worker := int (en_sequence en)\<rparr>)
              else Some (p\<lparr>pr_advertisements := advertisements, pr_last_advertisement := int (en_sequence en)\<rparr>))"

definition peer_record :: "link_world \<Rightarrow> string \<Rightarrow> bool \<Rightarrow> envelope \<Rightarrow> int \<Rightarrow> session_state \<Rightarrow> peer_session \<Rightarrow> peer_session option" where
  "peer_record wd worker signal en now s p =
     (if worker_of_session s \<noteq> worker \<or> en_session en \<noteq> as_id (ss_session s) \<or> en_generation en \<noteq> pr_route_generation p \<or>
         en_route en \<noteq> pr_route p \<or> expires_at (pr_lease p) \<le> now
      then None else accept_record wd signal en p)"

fun find_peer :: "string \<Rightarrow> (string, session_state) index_map \<Rightarrow> (string \<times> session_state \<times> peer_session) option" where
  "find_peer pid [] = None"
| "find_peer pid ((sid, s) # m) = (case im_get (ss_peers s) pid of Some p \<Rightarrow> Some (sid, s, p) | None \<Rightarrow> find_peer pid m)"

definition receive_notification :: "link_world \<Rightarrow> string \<Rightarrow> bool \<Rightarrow> envelope \<Rightarrow> int \<Rightarrow> links \<Rightarrow> links" where
  "receive_notification wd worker signal en now st =
     (case find_peer (en_peer en) (lk_sessions st) of
        None \<Rightarrow> st
      | Some (sid, s, p) \<Rightarrow>
          (case peer_record wd worker signal en now s p of
             None \<Rightarrow> fst (revoke_peer sid (en_peer en) st)
           | Some p' \<Rightarrow> put_link sid (s\<lparr>ss_peers := im_insert (en_peer en) p' (ss_peers s)\<rparr>) st))"

end
