(* ===== verification/LinkCalls.thy ===== *)
theory LinkCalls
  imports LinkAuthority
begin

text \<open>
  The calls of the worker-link authority as interleaved sections: a running call is a task that holds what it carries over
  its waits for the worker; a step runs one section of one task, or begins a call. \<open>sweep_expired\<close>, with which most calls
  begin, runs as a task of its own, and the turns of a peer's signals are not kept apart, so that the steps include every
  interleaving of the source. The account, the client and the resource of a call are ids that \<open>lw_caller_id\<close> admits. Each step is one of a few edits of the tables (\<open>link_edit\<close>), on which the invariants rest.
\<close>

section \<open>Calls in flight\<close>

datatype link_task =
    OpenClearing string link_identity nat "revocation list"
  | OpenInstalling string link_identity nat string nat
  | OpenEnding string link_identity nat
  | RevokingScope scope "revocation list option"
  | RevokingList "revocation list"
  | Closing "revocation list"
  | RenewingSession string nat link_lease int
  | RenewingPeers string nat link_lease int "(string \<times> nat) list"
  | RenewingPeer string nat string nat link_lease link_lease int "(string \<times> nat) list"
  | RenewingGrant string nat string nat link_lease
  | ChangingRoute string nat link_route nat
  | IssuingGrant string nat string nat string
  | PreparingPeer session_state peer_configuration link_route string nat
  | InstallingPeer string nat peer_session string nat
  | EndingPeer string nat
  | TakingTurn envelope nat nat
  | Signalling envelope nat nat

definition worker_revocations :: "string \<Rightarrow> string option \<Rightarrow> links \<Rightarrow> revocation list" where
  "worker_revocations worker generation st =
     map RevokeSession (sessions_where (\<lambda>s. li_worker (as_identity s) = worker \<and>
       (case generation of None \<Rightarrow> True | Some g \<Rightarrow> li_process (as_identity s) = g)) st)"

text \<open>The first section of a call, and the task it leaves.\<close>

inductive call_begins :: "link_world \<Rightarrow> link_options \<Rightarrow> links \<Rightarrow> links \<Rightarrow> link_task list \<Rightarrow> bool" for wd opts where
  opens: "open_decide opts ow account client worker rv marker st = (st', Inr (StartOpening key ident)) \<Longrightarrow>
    lw_caller_id wd account \<Longrightarrow> lw_caller_id wd client \<Longrightarrow>
    call_begins wd opts st st' [OpenClearing key ident marker (generation_changed ident st')]"
| revokes: "call_begins wd opts st (fence sc st) [RevokingScope sc None]"
| sweeps: "call_begins wd opts st st [RevokingList (sweep_scan now st)]"
| worker_gone: "call_begins wd opts st st [RevokingList (worker_revocations worker generation st)]"
| revokes_one: "call_begins wd opts st st [RevokingList [rv]]"
| closes: "\<not> lk_closed st \<Longrightarrow> call_begins wd opts st (close_links st) [Closing (map RevokeSession (sessions_where (\<lambda>_. True) (close_links st)))]"
| renews: "renew_session_begin opts sid duration now st = Inr (s, l) \<Longrightarrow> call_begins wd opts st st [RenewingSession sid (ss_number s) l (case duration of None \<Rightarrow> op_session_lease opts | Some d \<Rightarrow> d)]"
| routes: "replace_route_begin sid route st = Inr (ChangeRoute n generation) \<Longrightarrow> call_begins wd opts st st [ChangingRoute sid n route generation]"
| grants: "prepare_grant sid input now gid hash st = (st', Inr (s, g)) \<Longrightarrow> lw_caller_id wd (gi_resource input) \<Longrightarrow>
    call_begins wd opts st st' [IssuingGrant sid (ss_number s) (ig_id g) (ig_number g) (resource_key (owner_of s) (gi_kind input) (gi_resource input))]"
| renews_grant: "renew_grant_begin sid gid duration now st = Inr (n, gn, l) \<Longrightarrow> call_begins wd opts st st [RenewingGrant sid n gid gn l]"
| peers: "open_peer_decide opts sid route generation marker st = (st', Inr (StartPeer s config)) \<Longrightarrow>
    call_begins wd opts st st' [PreparingPeer s config route (peer_round sid generation route) marker]"
| signals: "signal_begin en st = Inr (n, pn) \<Longrightarrow> call_begins wd opts st st [TakingTurn en n pn]"
| reads: "read_peer_mailbox wd sid pid a b now st = (st', r) \<Longrightarrow> call_begins wd opts st st' []"
| notified: "call_begins wd opts st (receive_notification wd worker signal en now st) []"

text \<open>The next section of a task, with the worker's answer where it waited for one, and the tasks it leaves.\<close>

inductive task_runs :: "link_world \<Rightarrow> link_options \<Rightarrow> links \<Rightarrow> link_task \<Rightarrow> links \<Rightarrow> link_task list \<Rightarrow> bool" for wd opts where
  clears: "task_runs wd opts st (OpenClearing key ident marker (rv # rvs)) (fst (revoke_one rv st)) [OpenClearing key ident marker rvs]"
| inserts: "open_insert opts key ident sid now st = (st', Inr s) \<Longrightarrow> im_get (lk_sessions st) sid = None \<Longrightarrow>
    task_runs wd opts st (OpenClearing key ident marker []) st' [OpenInstalling key ident marker (as_id s) (lk_number st)]"
| insert_fails: "open_insert opts key ident sid now st = (st', Inl e) \<Longrightarrow>
    task_runs wd opts st (OpenClearing key ident marker []) st' [OpenEnding key ident marker]"
| install_fails: "task_runs wd opts st (OpenInstalling key ident marker sid n) (remove_session sid n st) [OpenEnding key ident marker]"
| accepts: "task_runs wd opts st (OpenInstalling key ident marker sid n) (fst (open_accept sid n ident st)) [OpenEnding key ident marker]"
| ends_open: "task_runs wd opts st (OpenEnding key ident marker) (open_end key marker st) []"
| scans: "task_runs wd opts st (RevokingScope sc None) st [RevokingScope sc (Some (scope_matches sc st))]"
| revokes_next: "task_runs wd opts st (RevokingScope sc (Some (rv # rvs))) (fst (revoke_one rv st)) [RevokingScope sc (Some rvs)]"
| lifts: "task_runs wd opts st (RevokingScope sc (Some [])) (drop_fence sc st) []"
| revokes_list: "task_runs wd opts st (RevokingList (rv # rvs)) (fst (revoke_one rv st)) [RevokingList rvs]"
| closes_next: "task_runs wd opts st (Closing (rv # rvs)) (fst (revoke_one rv st)) [Closing rvs]"
| closed: "task_runs wd opts st (Closing []) (clear_workers st) []"
| list_done: "task_runs wd opts st (RevokingList []) st []"
| commits_renewal: "renew_session_commit sid n l st = (st', Inr ps) \<Longrightarrow>
    task_runs wd opts st (RenewingSession sid n l d) st' [RenewingPeers sid n l d (map (\<lambda>p. (pr_id p, pr_number p)) ps)]"
| renewal_refused: "task_runs wd opts st (RenewingSession sid n l d) st []"
| renews_peer: "current_session st sid n = Some s \<Longrightarrow> current_peer s pid pn = Some p \<Longrightarrow> renew_peer_begin p d now l = Inr (Some pl) \<Longrightarrow>
    task_runs wd opts st (RenewingPeers sid n l d ((pid, pn) # ps)) st [RenewingPeer sid n pid pn pl l d ps]"
| passes_peer: "(\<And>s p. current_session st sid n = Some s \<Longrightarrow> current_peer s pid pn = Some p \<Longrightarrow> \<not> pr_ready p) \<Longrightarrow>
    task_runs wd opts st (RenewingPeers sid n l d ((pid, pn) # ps)) st [RenewingPeers sid n l d ps]"
| renewals_end: "task_runs wd opts st (RenewingPeers sid n l d ps) st []"
| commits_peer_renewal: "renew_peer_commit sid n pid pn pl st = (st', Inr u) \<Longrightarrow>
    task_runs wd opts st (RenewingPeer sid n pid pn pl l d ps) st' [RenewingPeers sid n l d ps]"
| peer_renewal_refused: "renew_peer_commit sid n pid pn pl st = (st', Inl e) \<Longrightarrow> task_runs wd opts st (RenewingPeer sid n pid pn pl l d ps) st' []"
| peer_renewal_fails: "task_runs wd opts st (RenewingPeer sid n pid pn pl l d ps) (renew_peer_failed sid n pid st) [RenewingPeers sid n l d ps]"
| commits_grant_renewal: "task_runs wd opts st (RenewingGrant sid n gid gn l) (fst (renew_grant_commit sid n gid gn l st)) []"
| grant_renewal_refused: "task_runs wd opts st (RenewingGrant sid n gid gn l) st []"
| commits_route: "replace_route_commit sid n route generation st = (st', Inr rvs) \<Longrightarrow>
    task_runs wd opts st (ChangingRoute sid n route generation) st' [RevokingList rvs]"
| route_refused: "task_runs wd opts st (ChangingRoute sid n route generation) st []"
| issue_ends: "task_runs wd opts st (IssuingGrant sid n gid gn key) st []"
| issue_fails: "task_runs wd opts st (IssuingGrant sid n gid gn key) (issue_failed sid n gid gn st) []"
| prepares_peer: "prepare_peer config s route now pid st = (st', Inr p) \<Longrightarrow>
    task_runs wd opts st (PreparingPeer s config route slot marker) st' [InstallingPeer (as_id (ss_session s)) (ss_number s) p slot marker]"
| prepare_fails: "prepare_peer config s route now pid st = (st', Inl e) \<Longrightarrow>
    task_runs wd opts st (PreparingPeer s config route slot marker) st' [EndingPeer slot marker]"
| accepts_peer: "task_runs wd opts st (InstallingPeer sid n p slot marker) (fst (install_peer_accept sid n p st)) [EndingPeer slot marker]"
| peer_fails: "task_runs wd opts st (InstallingPeer sid n p slot marker) (install_peer_failed sid n (pr_id p) (pr_number p) st) [EndingPeer slot marker]"
| ends_peer: "task_runs wd opts st (EndingPeer slot marker) (open_peer_end slot marker st) []"
| turn: "signal_turn en n pn now st = (st', Inr u) \<Longrightarrow> task_runs wd opts st (TakingTurn en n pn) st' [Signalling en n pn]"
| turn_refused: "signal_turn en n pn now st = (st', Inl e) \<Longrightarrow> task_runs wd opts st (TakingTurn en n pn) st' []"
| signalled: "task_runs wd opts st (Signalling en n pn) (signal_commit en n pn st) []"
| signal_refused: "task_runs wd opts st (Signalling en n pn) st []"

inductive links_reach :: "link_world \<Rightarrow> link_options \<Rightarrow> links \<Rightarrow> link_task list \<Rightarrow> bool" for wd opts where
  start: "links_reach wd opts links_new []"
| begins: "links_reach wd opts st ts \<Longrightarrow> call_begins wd opts st st' new \<Longrightarrow> links_reach wd opts st' (ts @ new)"
| runs: "links_reach wd opts st (xs @ t # ys) \<Longrightarrow> task_runs wd opts st t st' new \<Longrightarrow> links_reach wd opts st' (xs @ new @ ys)"

section \<open>What a section does to the tables\<close>

text \<open>
  The source takes its keys from the ids as they were passed and stores them as the contracts return them, trimmed. The two agree
  when the callers pass trimmed ids: the client instance of a session comes from a request that has passed \<^verbatim>\<open>workerLinkSessionOpenRequestSchema\<close>,
  account sessions, resources and the generation of the server are ids the server made.
\<close>

definition callers_trim :: "link_world \<Rightarrow> link_options \<Rightarrow> bool" where
  "callers_trim wd opts \<longleftrightarrow> (\<forall>i. lw_caller_id wd i \<longrightarrow> js_trim i = i) \<and> js_trim (op_generation opts) = op_generation opts"

definition session_trimmed :: "session_state \<Rightarrow> bool" where
  "session_trimmed s \<longleftrightarrow> trim_identity (as_identity (ss_session s)) = as_identity (ss_session s) \<and>
     (\<forall>gid g. im_get (ss_grants s) gid = Some g \<longrightarrow> trim_grant g = g)"

definition stored_trimmed :: "links \<Rightarrow> bool" where
  "stored_trimmed st \<longleftrightarrow> (\<forall>sid s. im_get (lk_sessions st) sid = Some s \<longrightarrow> session_trimmed s)"

text \<open>The identity of an opening in flight is the one its session will have.\<close>

fun task_trimmed :: "link_task \<Rightarrow> bool" where
  "task_trimmed (OpenClearing _ ident _ _) \<longleftrightarrow> trim_identity ident = ident"
| "task_trimmed (OpenInstalling _ ident _ _ _) \<longleftrightarrow> trim_identity ident = ident"
| "task_trimmed _ \<longleftrightarrow> True"

text \<open>Records with consecutive numbers that end with \<open>newest\<close>.\<close>

definition consecutive :: "int \<Rightarrow> envelope list \<Rightarrow> bool" where
  "consecutive newest es \<longleftrightarrow> map (\<lambda>e. int (en_sequence e)) es = [newest - int (length es) + 1 .. newest]"

definition mailbox_ok :: "peer_session \<Rightarrow> bool" where
  "mailbox_ok p \<longleftrightarrow> consecutive (pr_last_worker p) (pr_signals p) \<and> consecutive (pr_last_advertisement p) (pr_advertisements p) \<and>
     length (pr_signals p) \<le> 256 \<and> length (pr_advertisements p) \<le> 256"

inductive session_edit :: "bool \<Rightarrow> link_task option \<Rightarrow> links \<Rightarrow> string \<Rightarrow> session_state \<Rightarrow> session_state \<Rightarrow> nat \<Rightarrow> bool" for tr tk st sid s where
  new_lease: "tk = Some (RenewingSession sid (ss_number s) l d) \<Longrightarrow> lease_valid l \<Longrightarrow>
    session_edit tr tk st sid s (s\<lparr>ss_session := (ss_session s)\<lparr>as_lease := l\<rparr>\<rparr>) 0"
| new_route: "session_edit tr tk st sid s (s\<lparr>ss_session := (ss_session s)\<lparr>as_preferred := route, as_route_generation := generation\<rparr>\<rparr>) 0"
| made_ready: "tk = Some (OpenInstalling key ident marker sid (ss_number s)) \<Longrightarrow> session_edit tr tk st sid s (s\<lparr>ss_ready := True\<rparr>) 0"
| grant_in: "length (ss_grants s) < 128 \<Longrightarrow> trim_grant g = g \<Longrightarrow>
    (tr \<Longrightarrow> im_get (lk_resource_fences st) (resource_key (owner_of s) (ig_kind g) (ig_resource g)) = None) \<Longrightarrow> lease_valid (ig_lease g) \<Longrightarrow> absolute_at (ig_lease g) \<le> absolute_at (as_lease (ss_session s)) \<Longrightarrow> ig_number g = lk_number st \<Longrightarrow>
    session_edit tr tk st sid s (s\<lparr>ss_grants := im_insert gid g (ss_grants s)\<rparr>) (Suc 0)"
| grant_out: "session_edit tr tk st sid s (s\<lparr>ss_grants := im_remove gid (ss_grants s)\<rparr>) 0"
| grant_renewed: "tk = Some (RenewingGrant sid (ss_number s) gid (ig_number g) l) \<Longrightarrow> im_get (ss_grants s) gid = Some g \<Longrightarrow> lease_valid l \<Longrightarrow>
    session_edit tr tk st sid s (s\<lparr>ss_grants := im_insert gid (g\<lparr>ig_lease := l\<rparr>) (ss_grants s)\<rparr>) 0"
| peer_in: "tk = Some (PreparingPeer held config route slot marker) \<Longrightarrow> length (ss_peers s) < pc_per_client config \<Longrightarrow>
    worker_peers (worker_of_session s) st < pc_per_worker config \<Longrightarrow> lease_valid (pr_lease p) \<Longrightarrow> absolute_at (pr_lease p) = absolute_at (as_lease (ss_session s)) \<Longrightarrow> pr_number p = lk_number st \<Longrightarrow>
    mailbox_ok p \<Longrightarrow> session_edit tr tk st sid s (s\<lparr>ss_peers := im_insert pid p (ss_peers s)\<rparr>) (Suc 0)"
| peer_out: "session_edit tr tk st sid s (s\<lparr>ss_peers := im_remove pid (ss_peers s)\<rparr>) 0"
| peer_renewed: "tk = Some (RenewingPeer sid (ss_number s) pid (pr_number p) l sl d ps) \<Longrightarrow> im_get (ss_peers s) pid = Some p \<Longrightarrow> lease_valid l \<Longrightarrow>
    session_edit tr tk st sid s (s\<lparr>ss_peers := im_insert pid (p\<lparr>pr_lease := l\<rparr>) (ss_peers s)\<rparr>) 0"
| peer_changed: "im_get (ss_peers s) pid = Some p \<Longrightarrow> pr_number p' = pr_number p \<Longrightarrow> pr_lease p' = pr_lease p \<Longrightarrow>
    (mailbox_ok p \<Longrightarrow> mailbox_ok p') \<Longrightarrow> session_edit tr tk st sid s (s\<lparr>ss_peers := im_insert pid p' (ss_peers s)\<rparr>) 0"

definition same_tables :: "links \<Rightarrow> links \<Rightarrow> bool" where
  "same_tables st st' \<longleftrightarrow> lk_sessions st' = lk_sessions st \<and> lk_identities st' = lk_identities st \<and> lk_opening st' = lk_opening st \<and>
     lk_owner_fences st' = lk_owner_fences st \<and> lk_account_fences st' = lk_account_fences st \<and>
     lk_resource_fences st' = lk_resource_fences st \<and> lk_workers st' = lk_workers st \<and> (lk_closed st \<longrightarrow> lk_closed st') \<and>
     lk_number st \<le> lk_number st'"

inductive link_edit :: "bool \<Rightarrow> link_task option \<Rightarrow> links \<Rightarrow> links \<Rightarrow> bool" for tr tk st where
  quiet: "same_tables st st' \<Longrightarrow> link_edit tr tk st st'"
| edited: "im_get (lk_sessions st) sid = Some s \<Longrightarrow> session_edit tr tk st sid s s' k \<Longrightarrow>
    link_edit tr tk st (put_link sid s' (st\<lparr>lk_number := lk_number st + k\<rparr>))"
| inserted: "tk = Some (OpenClearing key ident marker []) \<Longrightarrow> im_get (lk_sessions st) sid = None \<Longrightarrow>
    open_begin st (li_owner ident) (li_account ident) = Inr () \<Longrightarrow> as_identity v = trim_identity ident \<Longrightarrow>
    (tr \<Longrightarrow> trim_identity ident = ident) \<Longrightarrow> lease_valid (as_lease v) \<Longrightarrow>
    link_edit tr tk st (put_link sid \<lparr>ss_number = lk_number st, ss_ready = False, ss_session = v, ss_grants = [], ss_peers = []\<rparr>
      (register_worker (li_worker ident) (st\<lparr>lk_identities := im_insert key sid (lk_identities st), lk_number := Suc (lk_number st)\<rparr>)))"
| removed: "im_get (lk_sessions st) sid = Some s \<Longrightarrow> link_edit tr tk st (remove_session sid (ss_number s) st)"

lemmas edited_in_place = edited [where k = 0, simplified]
lemmas edited_with_new = edited [where k = "Suc 0", simplified]

lemma link_edit_refl [simp]: "link_edit tr tk st st"
  by (rule quiet) (simp add: same_tables_def)

lemma current_sessionD: "current_session st sid n = Some s \<Longrightarrow> im_get (lk_sessions st) sid = Some s \<and> ss_number s = n"
  by (auto simp: current_session_def split: option.splits if_splits)

lemma current_grantD: "current_grant s gid n = Some g \<Longrightarrow> im_get (ss_grants s) gid = Some g \<and> ig_number g = n"
  by (auto simp: current_grant_def split: option.splits if_splits)

lemma current_peerD: "current_peer s pid n = Some p \<Longrightarrow> im_get (ss_peers s) pid = Some p \<and> pr_number p = n"
  by (auto simp: current_peer_def split: option.splits if_splits)

lemma ready_stateD: "ready_state st sid = Inr s \<Longrightarrow> im_get (lk_sessions st) sid = Some s \<and> ss_ready s \<and> identity_authorized st (owner_of s) (account_of s)"
  by (auto simp: ready_state_def split: option.splits if_splits)

lemma remove_session_edit: "link_edit tr tk st (remove_session sid n st)"
proof (cases "current_session st sid n")
  case None then show ?thesis by (simp add: remove_session_def)
next
  case (Some s) then show ?thesis using removed [of st sid s tr tk] by (auto dest: current_sessionD)
qed

lemma revoke_one_edit: "link_edit tr tk st (fst (revoke_one rv st))"
proof (cases rv)
  case (RevokeSession sid) then show ?thesis by (auto simp: revoke_link_def removed split: option.splits)
next
  case (RevokeGrant sid gid) then show ?thesis
    by (auto simp: revoke_grant_def edited_in_place grant_out split: option.splits)
next
  case (RevokePeer sid pid) then show ?thesis
    by (auto simp: revoke_peer_def edited_in_place peer_out split: option.splits)
qed

lemma filter_upto: "filter (\<lambda>x. n < x) [a..b] = [max a (n + 1)..b]"
proof (induction a b rule: upto.induct)
  case (1 a b)
  show ?case
  proof (cases "n < a")
    case True
    then have "filter (\<lambda>x. n < x) [a..b] = [a..b]" by (auto simp: filter_id_conv)
    moreover have "max a (n + 1) = a" using True by simp
    ultimately show ?thesis by simp
  next
    case False
    then show ?thesis using 1 by (cases "a \<le> b") (auto simp: upto.simps [of a b] max_def)
  qed
qed

lemma read_consecutive:
  assumes "consecutive newest es"
  shows "consecutive newest (filter (\<lambda>e. en_sequence e > n) es)"
proof -
  let ?f = "\<lambda>e. int (en_sequence e)" and ?es = "filter (\<lambda>e. en_sequence e > n) es"
  have "map ?f ?es = filter (\<lambda>x. int n < x) (map ?f es)" by (simp add: filter_map comp_def)
  also have "\<dots> = [max (newest - int (length es) + 1) (int n + 1)..newest]"
    using assms by (simp add: consecutive_def filter_upto)
  finally have eq: "map ?f ?es = [max (newest - int (length es) + 1) (int n + 1)..newest]" .
  then have "length ?es = nat (newest - max (newest - int (length es) + 1) (int n + 1) + 1)"
    by (metis length_map length_upto)
  then show ?thesis using eq by (auto simp: consecutive_def max_def)
qed

lemma append_consecutive:
  "consecutive newest es \<Longrightarrow> int (en_sequence e) = newest + 1 \<Longrightarrow> consecutive (newest + 1) (es @ [e])"
  using upto_rec2 [of "newest - int (length es) + 1" "newest + 1"] by (simp add: consecutive_def)

lemma no_records [simp]: "consecutive newest []"
  by (simp add: consecutive_def)

lemma after_cursor_ok [simp]: "consecutive newest es \<Longrightarrow> consecutive newest (after_cursor cursor es)"
  by (auto simp: after_cursor_def read_consecutive split: option.splits)

lemma after_cursor_length: "length es \<le> k \<Longrightarrow> length (after_cursor cursor es) \<le> k"
  by (auto simp: after_cursor_def intro: order_trans [OF length_filter_le] split: option.splits)

lemma accept_record_ok:
  assumes "accept_record wd signal en p = Some p'"
  shows "pr_number p' = pr_number p \<and> pr_lease p' = pr_lease p \<and> (mailbox_ok p \<longrightarrow> mailbox_ok p')"
proof (cases "int (en_sequence en) \<le> (if signal then pr_last_worker p else pr_last_advertisement p)")
  case True
  then have "p' = p" using assms by (auto simp: accept_record_def split: list.splits if_splits)
  then show ?thesis by simp
next
  case False
  then show ?thesis using assms append_consecutive [of "pr_last_worker p" "pr_signals p" en]
      append_consecutive [of "pr_last_advertisement p" "pr_advertisements p" en]
    by (cases signal) (auto simp: accept_record_def Let_def mailbox_ok_def split: if_splits)
qed

section \<open>The sections as edits\<close>

lemma read_peer_mailbox_edit: "link_edit tr tk st (fst (read_peer_mailbox wd sid pid a b now st))"
proof (cases "ready_state st sid")
  case (Inl e) then show ?thesis by (simp add: read_peer_mailbox_def)
next
  case (Inr s)
  then have s: "im_get (lk_sessions st) sid = Some s" by (simp add: ready_stateD)
  have "link_edit tr tk st (edit_peer sid pid (\<lambda>_. p\<lparr>pr_signals := after_cursor a (pr_signals p), pr_advertisements := after_cursor b (pr_advertisements p)\<rparr>) s st)"
    if "im_get (ss_peers s) pid = Some p" for p
    using that by (auto simp: edit_peer_def mailbox_ok_def after_cursor_length intro!: edited_in_place [OF s] peer_changed)
  then show ?thesis using Inr by (auto simp: read_peer_mailbox_def Let_def split: option.splits)
qed

lemma find_peerD: "find_peer pid m = Some (sid, s, p) \<Longrightarrow> (sid, s) \<in> set m \<and> im_get (ss_peers s) pid = Some p"
  by (induction m) (auto split: option.splits)

lemma receive_notification_edit:
  assumes "im_wf (lk_sessions st)"
  shows "link_edit tr tk st (receive_notification wd worker signal en now st)"
proof (cases "find_peer (en_peer en) (lk_sessions st)")
  case None then show ?thesis by (simp add: receive_notification_def)
next
  case (Some a)
  obtain sid s p where a: "a = (sid, s, p)" by (cases a) auto
  then have s: "im_get (lk_sessions st) sid = Some s" "im_get (ss_peers s) (en_peer en) = Some p"
    using find_peerD [of "en_peer en" "lk_sessions st" sid s p] Some assms by (simp_all add: im_get_eq_Some)
  show ?thesis
  proof (cases "peer_record wd worker signal en now s p")
    case None then show ?thesis using Some a revoke_one_edit [of tr tk st "RevokePeer sid (en_peer en)"] by (simp add: receive_notification_def)
  next
    case (Some p')
    then have "accept_record wd signal en p = Some p'" by (simp add: peer_record_def split: if_splits)
    then have "link_edit tr tk st (put_link sid (s\<lparr>ss_peers := im_insert (en_peer en) p' (ss_peers s)\<rparr>) st)"
      using s by (auto dest: accept_record_ok intro!: edited_in_place peer_changed)
    then show ?thesis using Some a \<open>find_peer (en_peer en) (lk_sessions st) = Some a\<close> by (simp add: receive_notification_def)
  qed
qed

lemma signal_turn_edit: "link_edit tr tk st (fst (signal_turn en n pn now st))"
  using revoke_one_edit [of tr tk st "RevokePeer (en_session en) (en_peer en)"] by (auto simp: signal_turn_def split: option.splits)

lemma signal_commit_edit: "link_edit tr tk st (signal_commit en n pn st)"
  by (auto simp: signal_commit_def edit_peer_def mailbox_ok_def dest!: current_sessionD intro!: edited_in_place peer_changed split: option.splits)

lemma lease_contractD: "lease_contract l \<Longrightarrow> lease_valid l"
  by (simp add: lease_contract_def)

lemma renewed_leaseD: "renew_lease current duration now parent = Inr l \<Longrightarrow> lease_valid l \<and> absolute_at l = absolute_at current"
  by (auto simp: lease_contractD renew_lease_def make_lease_def Let_def split: if_splits)

lemma grant_leaseD: "grant_lease sl input now = Inr l \<Longrightarrow> lease_valid l \<and> absolute_at l \<le> absolute_at sl"
  by (auto simp: lease_contractD grant_lease_def make_lease_def Let_def split: requested_expiry.splits if_splits)

lemma dropWhile_idem: "dropWhile P (dropWhile P xs) = dropWhile P xs"
  by (induction xs) auto

lemma js_trim_idem [simp]: "js_trim (js_trim s) = js_trim s"
proof (cases "js_trim s")
  case (Cons c cs)
  let ?t = "rev (dropWhile js_space s)"
  obtain us where us: "dropWhile js_space s = js_trim s @ us"
  proof -
    have "?t = takeWhile js_space ?t @ dropWhile js_space ?t" by simp
    then have "rev ?t = rev (dropWhile js_space ?t) @ rev (takeWhile js_space ?t)" by (metis rev_append)
    then show ?thesis using that by (simp add: js_trim_def)
  qed
  then have "\<not> js_space c" using hd_dropWhile [of js_space s] Cons by (metis append_Cons list.distinct(1) list.sel(1))
  then have "dropWhile js_space (js_trim s) = js_trim s" by (simp add: Cons)
  then show ?thesis by (simp add: js_trim_def dropWhile_idem)
next
  case Nil
  then show ?thesis by (simp only: Nil) (simp add: js_trim_def)
qed

lemma trim_idem [simp]: "trim_identity (trim_identity i) = trim_identity i" "trim_grant (trim_grant g) = trim_grant g"
  by (simp_all add: trim_identity_def trim_grant_def option.map_comp comp_def)

lemma trim_grant_fields [simp]: "ig_lease (trim_grant g) = ig_lease g" "ig_number (trim_grant g) = ig_number g" "ig_id (trim_grant g) = ig_id g"
  "ig_kind (trim_grant g) = ig_kind g" "ig_resource (trim_grant g) = js_trim (ig_resource g)"
  "trim_grant (g\<lparr>ig_lease := l\<rparr>) = (trim_grant g)\<lparr>ig_lease := l\<rparr>"
  by (simp_all add: trim_grant_def)

lemma check_sessionD: "check_session v = Inr v' \<Longrightarrow> v' = v\<lparr>as_identity := trim_identity (as_identity v)\<rparr> \<and> lease_valid (as_lease v)"
  by (auto simp: check_session_def identity_contract_def lease_contractD split: if_splits)

lemma check_grantD: "check_grant g = Inr g' \<Longrightarrow> g' = trim_grant g \<and> lease_valid (ig_lease g)"
  by (auto simp: check_grant_def lease_contractD split: if_splits)

lemma check_peerD: "check_peer p = Inr p' \<Longrightarrow> p' = p \<and> lease_valid (pr_lease p)"
  by (auto simp: check_peer_def lease_contractD split: if_splits)

lemma new_sessionD: "new_session opts ident sid now = Inr v \<Longrightarrow> as_id v = sid \<and> as_identity v = trim_identity ident \<and> lease_valid (as_lease v)"
  by (auto simp: new_session_def Let_def rbind_eq_Inr dest!: check_sessionD)

lemma stored_session: "stored_trimmed st \<Longrightarrow> im_get (lk_sessions st) sid = Some s \<Longrightarrow>
  (ss_session s)\<lparr>as_lease := l, as_identity := trim_identity (as_identity (ss_session s))\<rparr> = (ss_session s)\<lparr>as_lease := l\<rparr> \<and>
  (ss_session s)\<lparr>as_preferred := p, as_route_generation := n, as_identity := trim_identity (as_identity (ss_session s))\<rparr> =
    (ss_session s)\<lparr>as_preferred := p, as_route_generation := n\<rparr>"
  by (simp add: stored_trimmed_def session_trimmed_def)

lemma stored_grant: "stored_trimmed st \<Longrightarrow> im_get (lk_sessions st) sid = Some s \<Longrightarrow> im_get (ss_grants s) gid = Some g \<Longrightarrow> trim_grant g = g"
  by (simp add: stored_trimmed_def session_trimmed_def)

lemma prepare_grant_edit:
  assumes "prepare_grant sid input now gid hash st = (st', r)" "tr \<Longrightarrow> js_trim (gi_resource input) = gi_resource input"
  shows "link_edit tr tk st st'"
proof (cases r)
  case (Inl e)
  then show ?thesis using assms(1) by (auto simp: prepare_grant_def split: sum.splits if_splits)
next
  case (Inr a)
  define h where "h l = \<lparr>ig_number = lk_number st, ig_id = gid, ig_kind = gi_kind input, ig_resource = gi_resource input,
    ig_attachment = gi_attachment input, ig_lanes = gi_lanes input, ig_operations = gi_operations input,
    ig_channels = min (case gi_max_channels input of None \<Rightarrow> 4 | Some n \<Rightarrow> n) 64, ig_lease = l,
    ig_token_hash = hash, ig_observation = gi_observation input\<rparr>" for l
  obtain s l where s: "ready_state st sid = Inr s"
      and free: "im_get (lk_resource_fences st) (resource_key (owner_of s) (gi_kind input) (gi_resource input)) = None"
      and few: "length (ss_grants s) < 128" and l: "grant_lease (as_lease (ss_session s)) input now = Inr l"
      and st': "st' = put_link sid (s\<lparr>ss_grants := im_insert (ig_id (trim_grant (h l))) (trim_grant (h l)) (ss_grants s)\<rparr>) (st\<lparr>lk_number := Suc (lk_number st)\<rparr>)"
    using Inr assms(1) by (auto simp: prepare_grant_def h_def split: sum.splits if_splits dest!: check_grantD)
  have "session_edit tr tk st sid s (s\<lparr>ss_grants := im_insert (ig_id (trim_grant (h l))) (trim_grant (h l)) (ss_grants s)\<rparr>) (Suc 0)"
    by (rule grant_in) (use grant_leaseD [OF l] free few assms(2) in \<open>simp_all add: h_def\<close>)
  then show ?thesis unfolding st' using ready_stateD [OF s] by (simp add: edited_with_new)
qed

lemma prepare_peer_edit:
  assumes "prepare_peer config held route now pid st = (st', r)"
  shows "link_edit tr (Some (PreparingPeer held config route slot marker)) st st'"
proof -
  define p where "p s = \<lparr>pr_number = lk_number st, pr_ready = False, pr_id = pid, pr_route_generation = as_route_generation (ss_session s),
    pr_route = route, pr_lease = \<lparr>issued_at = now, expires_at = expires_at (as_lease (ss_session s)), absolute_at = absolute_at (as_lease (ss_session s))\<rparr>,
    pr_signals = [], pr_advertisements = [], pr_last_client = -1, pr_last_worker = -1, pr_last_advertisement = -1\<rparr>" for s :: session_state
  let ?cur = "current_session st (as_id (ss_session held)) (ss_number held)"
  have cases: "st' = st \<or> ?cur = None \<and> st' = st\<lparr>lk_number := Suc (lk_number st)\<rparr> \<or>
    (\<exists>s. ?cur = Some s \<and> lease_valid (pr_lease (p s)) \<and> length (ss_peers s) < pc_per_client config \<and>
       worker_peers (worker_of_session s) st < pc_per_worker config \<and>
       st' = put_link (as_id (ss_session held)) (s\<lparr>ss_peers := im_insert (pr_id (p s)) (p s) (ss_peers s)\<rparr>) (st\<lparr>lk_number := Suc (lk_number st)\<rparr>))"
  proof (cases ?cur)
    case None
    then show ?thesis using assms by (auto simp: prepare_peer_def Let_def split: sum.splits if_splits)
  next
    case (Some s)
    then show ?thesis using assms check_peerD [of "p s"]
      by (auto simp: prepare_peer_def Let_def p_def split: sum.splits if_splits)
  qed
  have "link_edit tr (Some (PreparingPeer held config route slot marker)) st (put_link (as_id (ss_session held)) (s\<lparr>ss_peers := im_insert (pr_id (p s)) (p s) (ss_peers s)\<rparr>) (st\<lparr>lk_number := Suc (lk_number st)\<rparr>))"
    if "?cur = Some s" "lease_valid (pr_lease (p s))" "length (ss_peers s) < pc_per_client config"
      "worker_peers (worker_of_session s) st < pc_per_worker config" for s
    using that by (auto simp: p_def mailbox_ok_def dest!: current_sessionD intro!: edited_with_new [of st _ s] peer_in)
  then show ?thesis using cases by (auto intro: quiet simp: same_tables_def)
qed

lemma small_edits:
  "link_edit tr tk st (install_peer_failed sid n pid pn st)" "link_edit tr tk st (issue_failed sid n gid gn st)"
  "link_edit tr tk st (renew_peer_failed sid n pid st)" "link_edit tr tk st (fst (install_peer_accept sid n p st))"
  "link_edit tr tk st (open_peer_end slot marker st)" "link_edit tr tk st (close_links st)"
  by (auto simp: install_peer_failed_def issue_failed_def renew_peer_failed_def install_peer_accept_def open_peer_end_def close_links_def
      same_tables_def mailbox_ok_def dest!: current_sessionD current_peerD
      intro!: edited_in_place peer_out grant_out peer_changed intro: quiet split: option.splits)

lemma open_peer_decide_edit: "open_peer_decide opts sid route generation marker st = (st', r) \<Longrightarrow> link_edit tr tk st st'"
  by (auto simp: open_peer_decide_def Let_def same_tables_def intro!: quiet split: if_splits option.splits sum.splits list.splits)

lemma renewal_edits:
  assumes "stored_trimmed st"
  shows "link_edit tr (Some (RenewingSession sid n l d)) st (fst (renew_session_commit sid n l st))"
    and "link_edit tr (Some (RenewingPeer sid n pid pn l sl d ps)) st (fst (renew_peer_commit sid n pid pn l st))"
    and "link_edit tr (Some (RenewingGrant sid n gid gn l)) st (fst (renew_grant_commit sid n gid gn l st))"
    and "link_edit tr tk st (fst (replace_route_commit sid n route generation st))"
  by (auto simp: renew_session_commit_def renew_peer_commit_def renew_grant_commit_def replace_route_commit_def bind_eq_Some_conv
        stored_session [OF assms] stored_grant [OF assms]
      dest!: current_sessionD current_peerD current_grantD check_sessionD check_peerD check_grantD
      intro!: edited_in_place new_lease peer_renewed grant_renewed new_route split: option.splits sum.splits)

lemma open_insert_edit:
  assumes "open_insert opts key ident sid now st = (st', Inr v)" "im_get (lk_sessions st) sid = None"
  shows "(tr \<Longrightarrow> trim_identity ident = ident) \<Longrightarrow> link_edit tr (Some (OpenClearing key ident marker [])) st st'"
    and "st' = put_link (as_id v) \<lparr>ss_number = lk_number st, ss_ready = False, ss_session = v, ss_grants = [], ss_peers = []\<rparr>
      (register_worker (li_worker ident) (st\<lparr>lk_identities := im_insert key (as_id v) (lk_identities st), lk_number := Suc (lk_number st)\<rparr>))"
    and "as_identity v = trim_identity ident" and "as_id v = sid"
    and "open_begin st (li_owner ident) (li_account ident) = Inr ()"
  using assms new_sessionD [of opts ident sid now v]
  by (auto simp: open_insert_def intro!: inserted split: sum.splits)

lemma open_insert_fails: "open_insert opts key ident sid now st = (st', Inl e) \<Longrightarrow> st' = st"
  by (auto simp: open_insert_def split: sum.splits)

lemma open_accept_edit: "link_edit tr (Some (OpenInstalling key ident marker sid n)) st (fst (open_accept sid n ident st))"
  by (auto simp: open_accept_def dest!: current_sessionD intro!: edited_in_place made_ready split: option.splits)

text \<open>A call that neither opens a session nor revokes a scope.\<close>

fun ordinary :: "link_task \<Rightarrow> bool" where
  "ordinary (OpenClearing _ _ _ _) = False"
| "ordinary (OpenInstalling _ _ _ _ _) = False"
| "ordinary (OpenEnding _ _ _) = False"
| "ordinary (RevokingScope _ _) = False"
| "ordinary _ = True"

lemma call_edits:
  assumes "tr \<Longrightarrow> callers_trim wd opts" "im_wf (lk_sessions st)" "call_begins wd opts st st' new"
  obtains (opens) ow account client worker rv marker key ident where
      "open_decide opts ow account client worker rv marker st = (st', Inr (StartOpening key ident))"
      "lw_caller_id wd account" "lw_caller_id wd client" "new = [OpenClearing key ident marker (generation_changed ident st')]"
  | (scope) sc where "st' = fence sc st" "new = [RevokingScope sc None]"
  | (ordinary) "link_edit tr None st st'" "list_all ordinary new"
  using assms(3)
proof cases
  case (grants sid input now gid hash s g)
  then show ?thesis using that(3) prepare_grant_edit assms(1) by (simp add: callers_trim_def)
next
  case (peers sid route generation marker s config)
  then show ?thesis using that(3) open_peer_decide_edit by simp
next
  case (reads sid pid a b now r)
  then show ?thesis using that(3) read_peer_mailbox_edit [of tr None st wd sid pid a b now] by simp
next
  case (notified worker signal en now)
  then show ?thesis using that(3) receive_notification_edit [OF assms(2)] by simp
qed (use that small_edits in simp_all)

lemma task_edits:
  assumes "stored_trimmed st" "tr \<Longrightarrow> task_trimmed t" "task_runs wd opts st t st' new"
  obtains (ended) key ident marker where "t = OpenEnding key ident marker" "st' = open_end key marker st" "new = []"
  | (lifted) sc where "t = RevokingScope sc (Some [])" "st' = drop_fence sc st" "new = []"
  | (cleared) "t = Closing []" "st' = clear_workers st" "new = []"
  | (edit) "link_edit tr (Some t) st st'"
  using assms(3)
proof cases
  case (inserts key ident sid now s marker)
  then show ?thesis using that(4) open_insert_edit(1) assms(2) by simp
next
  case (insert_fails key ident sid now e marker)
  then show ?thesis using that(4) open_insert_fails by fastforce
next
  case (commits_renewal sid n l ps d)
  then show ?thesis using that(4) renewal_edits(1) [OF assms(1), of tr sid n l d] by simp
next
  case (commits_peer_renewal sid n pid pn pl u l d ps)
  then show ?thesis using that(4) renewal_edits(2) [OF assms(1), of tr sid n pid pn pl l d ps] by simp
next
  case (peer_renewal_refused sid n pid pn pl e l d ps)
  then show ?thesis using that(4) renewal_edits(2) [OF assms(1), of tr sid n pid pn pl l d ps] by simp
next
  case (commits_route sid n route generation rvs)
  then show ?thesis using that(4) renewal_edits(4) [OF assms(1), of tr "Some t" sid n route generation] by simp
next
  case (turn en n pn now u)
  then show ?thesis using that(4) signal_turn_edit [of tr "Some t" st en n pn now] by simp
next
  case (turn_refused en n pn now e)
  then show ?thesis using that(4) signal_turn_edit [of tr "Some t" st en n pn now] by simp
next
  case (prepares_peer config s route now pid p slot marker)
  then show ?thesis using that(4) prepare_peer_edit by simp
next
  case (prepare_fails config s route now pid e slot marker)
  then show ?thesis using that(4) prepare_peer_edit by simp
qed (use that small_edits renewal_edits [OF assms(1)] revoke_one_edit remove_session_edit open_accept_edit signal_commit_edit in simp_all)

lemma ordinary_runs: "task_runs wd opts st t st' new \<Longrightarrow> ordinary t \<Longrightarrow> list_all ordinary new"
  by (induction rule: task_runs.induct) (auto simp: list_all_iff split: option.splits)

end
