(* ===== verification/LinkCustody.thy ===== *)
theory LinkCustody
  imports LinkCalls
begin

text \<open>
  The sessions, grants and peers of the worker-link authority in every interleaving of its calls: leases that nest, consecutive
  mailboxes, bounded tables. An invariant is an instance of the locale \<open>link_invariant\<close>; this theory gives \<open>custody\<close> (every
  object is in order, and a renewal in flight carries the absolute limit it was read with), \<open>limits\<close> (the peers allowed
  for a client and a worker) and \<open>watch\<close> (the subscriptions to the workers of the sessions).
\<close>

section \<open>Reachable states\<close>

text \<open>An invariant of the authority, whichever way its calls interleave.\<close>

locale link_invariant =
  fixes wd :: link_world and opts :: link_options and inv :: "links \<Rightarrow> link_task list \<Rightarrow> bool"
  assumes holds_at_start: "inv links_new []"
    and kept_by_call: "links_reach wd opts st ts \<Longrightarrow> inv st ts \<Longrightarrow> call_begins wd opts st st' new \<Longrightarrow> inv st' (ts @ new)"
    and kept_by_task: "links_reach wd opts st (xs @ t # ys) \<Longrightarrow> inv st (xs @ t # ys) \<Longrightarrow> task_runs wd opts st t st' new \<Longrightarrow> inv st' (xs @ new @ ys)"
begin

lemma always: "links_reach wd opts st ts \<Longrightarrow> inv st ts"
  by (induction rule: links_reach.induct) (auto intro: holds_at_start kept_by_call kept_by_task)

end

section \<open>Sessions, grants and peers\<close>

definition grant_ok :: "nat \<Rightarrow> link_lease \<Rightarrow> installed_grant \<Rightarrow> bool" where
  "grant_ok n sl g \<longleftrightarrow> ig_number g < n \<and> lease_valid (ig_lease g) \<and> absolute_at (ig_lease g) \<le> absolute_at sl \<and> trim_grant g = g"

definition peer_ok :: "nat \<Rightarrow> link_lease \<Rightarrow> peer_session \<Rightarrow> bool" where
  "peer_ok n sl p \<longleftrightarrow> pr_number p < n \<and> lease_valid (pr_lease p) \<and> absolute_at (pr_lease p) = absolute_at sl \<and> mailbox_ok p"

definition session_ok :: "nat \<Rightarrow> session_state \<Rightarrow> bool" where
  "session_ok n s \<longleftrightarrow> ss_number s < n \<and> im_wf (ss_grants s) \<and> im_wf (ss_peers s) \<and> lease_valid (as_lease (ss_session s)) \<and>
     length (ss_grants s) \<le> 128 \<and> trim_identity (as_identity (ss_session s)) = as_identity (ss_session s) \<and>
     (\<forall>gid g. im_get (ss_grants s) gid = Some g \<longrightarrow> grant_ok n (as_lease (ss_session s)) g) \<and>
     (\<forall>pid p. im_get (ss_peers s) pid = Some p \<longrightarrow> peer_ok n (as_lease (ss_session s)) p)"

definition sessions_ok :: "links \<Rightarrow> bool" where
  "sessions_ok st \<longleftrightarrow> im_wf (lk_sessions st) \<and> (\<forall>sid s. im_get (lk_sessions st) sid = Some s \<longrightarrow> session_ok (lk_number st) s)"

lemma sessions_trimmed: "sessions_ok st \<Longrightarrow> stored_trimmed st"
  by (auto simp: sessions_ok_def session_ok_def grant_ok_def stored_trimmed_def session_trimmed_def)

text \<open>
  What a call in flight carries: a renewal, a lease with the absolute limit of the object it was read from; an opening, the id of
  a worker as the worker's own answer gave it, trimmed.
\<close>

fun renewal_ok :: "links \<Rightarrow> link_task \<Rightarrow> bool" where
  "renewal_ok st (RenewingSession sid n l _) \<longleftrightarrow> n < lk_number st \<and>
     (\<forall>s. im_get (lk_sessions st) sid = Some s \<longrightarrow> ss_number s = n \<longrightarrow> absolute_at l = absolute_at (as_lease (ss_session s)))"
| "renewal_ok st (RenewingGrant sid n gid gn l) \<longleftrightarrow> gn < lk_number st \<and>
     (\<forall>s g. im_get (lk_sessions st) sid = Some s \<longrightarrow> im_get (ss_grants s) gid = Some g \<longrightarrow> ig_number g = gn \<longrightarrow>
        absolute_at l = absolute_at (ig_lease g))"
| "renewal_ok st (RenewingPeer sid n pid pn l _ _ _) \<longleftrightarrow> pn < lk_number st \<and>
     (\<forall>s p. im_get (lk_sessions st) sid = Some s \<longrightarrow> im_get (ss_peers s) pid = Some p \<longrightarrow> pr_number p = pn \<longrightarrow>
        absolute_at l = absolute_at (pr_lease p))"
| "renewal_ok st (OpenClearing _ ident _ _) \<longleftrightarrow> js_trim (li_worker ident) = li_worker ident"
| "renewal_ok st _ \<longleftrightarrow> True"

definition custody :: "links \<Rightarrow> link_task list \<Rightarrow> bool" where
  "custody st ts \<longleftrightarrow> sessions_ok st \<and> list_all (renewal_ok st) ts"

lemma session_ok_mono: "session_ok n s \<Longrightarrow> n \<le> m \<Longrightarrow> session_ok m s"
  by (fastforce simp: session_ok_def grant_ok_def peer_ok_def)

lemma session_ok_later [intro]: "session_ok n s \<Longrightarrow> session_ok (n + k) s" "session_ok n s \<Longrightarrow> session_ok (Suc n) s"
  by (auto elim: session_ok_mono)

lemma length_insert_same: "im_get m k = Some w \<Longrightarrow> length (im_insert k v m) = length m"
  by (simp add: length_im_insert)

lemma length_insert_le: "length m < k \<Longrightarrow> length (im_insert i v m) \<le> k"
  by (simp add: length_im_insert)

lemma session_edit_ok:
  assumes "session_edit tr tk st sid s s' k" "session_ok (lk_number st) s" "im_get (lk_sessions st) sid = Some s"
    "\<And>t. tk = Some t \<Longrightarrow> renewal_ok st t"
  shows "session_ok (lk_number st + k) s'"
  using assms
proof cases
  case (grant_in g gid)
  then show ?thesis using assms(2)
    by (auto simp: session_ok_def grant_ok_def peer_ok_def length_insert_le store_simps intro: less_SucI)
next
  case (peer_in held config route slot marker p pid)
  then show ?thesis using assms(2) by (auto simp: session_ok_def grant_ok_def peer_ok_def store_simps intro: less_SucI)
next
  case (grant_out gid)
  then show ?thesis using assms(2) order_trans [OF length_im_remove] by (auto simp: session_ok_def store_simps)
qed (use assms(2,3,4) in \<open>auto simp: session_ok_def grant_ok_def peer_ok_def mailbox_ok_def length_insert_same store_simps\<close>)

lemma put_link_fields [simp]:
  "lk_sessions (put_link sid s st) = im_insert sid s (lk_sessions st)" "lk_number (put_link sid s st) = lk_number st"
  "lk_identities (put_link sid s st) = lk_identities st" "lk_opening (put_link sid s st) = lk_opening st"
  "lk_owner_fences (put_link sid s st) = lk_owner_fences st" "lk_account_fences (put_link sid s st) = lk_account_fences st"
  "lk_resource_fences (put_link sid s st) = lk_resource_fences st"
  by (simp_all add: put_link_def)

lemma register_worker_fields [simp]:
  "lk_sessions (register_worker w st) = lk_sessions st" "lk_number (register_worker w st) = lk_number st"
  "lk_identities (register_worker w st) = lk_identities st" "lk_opening (register_worker w st) = lk_opening st"
  "lk_owner_fences (register_worker w st) = lk_owner_fences st" "lk_account_fences (register_worker w st) = lk_account_fences st"
  "lk_resource_fences (register_worker w st) = lk_resource_fences st" "lk_closed (register_worker w st) = lk_closed st"
  "set (lk_workers (register_worker w st)) = insert w (set (lk_workers st))"
  by (auto simp: register_worker_def)

lemma clear_workers_fields [simp]:
  "lk_sessions (clear_workers st) = lk_sessions st" "lk_number (clear_workers st) = lk_number st"
  "lk_identities (clear_workers st) = lk_identities st" "lk_opening (clear_workers st) = lk_opening st"
  "lk_owner_fences (clear_workers st) = lk_owner_fences st" "lk_account_fences (clear_workers st) = lk_account_fences st"
  "lk_resource_fences (clear_workers st) = lk_resource_fences st" "lk_closed (clear_workers st) = lk_closed st"
  by (simp_all add: clear_workers_def)

lemma remove_session_fields [simp]:
  "lk_number (remove_session sid n st) = lk_number st" "lk_opening (remove_session sid n st) = lk_opening st"
  "lk_owner_fences (remove_session sid n st) = lk_owner_fences st" "lk_account_fences (remove_session sid n st) = lk_account_fences st"
  "lk_resource_fences (remove_session sid n st) = lk_resource_fences st"
  by (simp_all add: remove_session_def Let_def split: option.splits)

lemma removed_sessions: "im_get (lk_sessions st) sid = Some s \<Longrightarrow> lk_sessions (remove_session sid (ss_number s) st) = im_remove sid (lk_sessions st)"
  by (simp add: remove_session_def current_session_def Let_def)

lemma link_edit_ok:
  assumes "link_edit tr tk st st'" "sessions_ok st" "\<And>t. tk = Some t \<Longrightarrow> renewal_ok st t"
  shows "sessions_ok st'"
  using assms(1)
proof cases
  case quiet
  then show ?thesis using assms(2) by (auto simp: sessions_ok_def same_tables_def intro: session_ok_mono)
next
  case (edited sid s s' k)
  then have "session_ok (lk_number st + k) s'" using assms by (auto simp: sessions_ok_def intro: session_edit_ok)
  then show ?thesis using edited assms(2) by (auto simp: sessions_ok_def store_simps)
next
  case (inserted key ident marker sid v)
  then have "session_ok (Suc (lk_number st)) \<lparr>ss_number = lk_number st, ss_ready = False, ss_session = v, ss_grants = [], ss_peers = []\<rparr>"
    by (simp add: session_ok_def)
  then show ?thesis using inserted assms(2) by (auto simp: sessions_ok_def store_simps)
next
  case (removed sid s)
  then show ?thesis using assms(2) by (auto simp: sessions_ok_def removed_sessions store_simps)
qed

text \<open>An object of the next state that is not new was in the table before, with the same absolute limit.\<close>

lemma session_edit_keeps:
  assumes "session_edit tr tk st sid s s' k" "im_get (lk_sessions st) sid = Some s" "session_ok (lk_number st) s" "\<And>t. tk = Some t \<Longrightarrow> renewal_ok st t"
  shows "ss_number s' = ss_number s \<and> as_identity (ss_session s') = as_identity (ss_session s) \<and>
      absolute_at (as_lease (ss_session s')) = absolute_at (as_lease (ss_session s))"
    and "im_get (ss_grants s') gid = Some g' \<Longrightarrow> ig_number g' < lk_number st \<Longrightarrow>
      \<exists>g. im_get (ss_grants s) gid = Some g \<and> ig_number g = ig_number g' \<and> absolute_at (ig_lease g) = absolute_at (ig_lease g')"
    and "im_get (ss_peers s') pid = Some p' \<Longrightarrow> pr_number p' < lk_number st \<Longrightarrow>
      \<exists>p. im_get (ss_peers s) pid = Some p \<and> pr_number p = pr_number p' \<and> absolute_at (pr_lease p) = absolute_at (pr_lease p')"
  using assms by (cases, auto simp: session_ok_def store_simps split: if_splits)+

lemma link_edit_number: "link_edit tr tk st st' \<Longrightarrow> lk_number st \<le> lk_number st'"
  by (induction rule: link_edit.induct) (auto simp: same_tables_def)

lemma link_edit_keeps:
  assumes "link_edit tr tk st st'" "sessions_ok st" "\<And>t. tk = Some t \<Longrightarrow> renewal_ok st t"
  shows "im_get (lk_sessions st') sid = Some s' \<Longrightarrow> ss_number s' < lk_number st \<Longrightarrow>
      \<exists>s. im_get (lk_sessions st) sid = Some s \<and> ss_number s = ss_number s' \<and>
        absolute_at (as_lease (ss_session s)) = absolute_at (as_lease (ss_session s'))"
    and "im_get (lk_sessions st') sid = Some s' \<Longrightarrow> im_get (ss_grants s') gid = Some g' \<Longrightarrow> ig_number g' < lk_number st \<Longrightarrow>
      \<exists>s g. im_get (lk_sessions st) sid = Some s \<and> im_get (ss_grants s) gid = Some g \<and> ig_number g = ig_number g' \<and>
        absolute_at (ig_lease g) = absolute_at (ig_lease g')"
    and "im_get (lk_sessions st') sid = Some s' \<Longrightarrow> im_get (ss_peers s') pid = Some p' \<Longrightarrow> pr_number p' < lk_number st \<Longrightarrow>
      \<exists>s p. im_get (lk_sessions st) sid = Some s \<and> im_get (ss_peers s) pid = Some p \<and> pr_number p = pr_number p' \<and>
        absolute_at (pr_lease p) = absolute_at (pr_lease p')"
proof -
  have wf: "im_wf (lk_sessions st)" "\<And>sid s. im_get (lk_sessions st) sid = Some s \<Longrightarrow> session_ok (lk_number st) s"
    using assms(2) by (simp_all add: sessions_ok_def)
  note keeps = session_edit_keeps [OF _ _ wf(2) assms(3)]
  show "im_get (lk_sessions st') sid = Some s' \<Longrightarrow> ss_number s' < lk_number st \<Longrightarrow>
      \<exists>s. im_get (lk_sessions st) sid = Some s \<and> ss_number s = ss_number s' \<and>
        absolute_at (as_lease (ss_session s)) = absolute_at (as_lease (ss_session s'))"
    using assms(1) keeps(1)
    by (cases) (auto simp: same_tables_def removed_sessions wf(1) store_simps split: if_splits)
  show "im_get (lk_sessions st') sid = Some s' \<Longrightarrow> im_get (ss_grants s') gid = Some g' \<Longrightarrow> ig_number g' < lk_number st \<Longrightarrow>
      \<exists>s g. im_get (lk_sessions st) sid = Some s \<and> im_get (ss_grants s) gid = Some g \<and> ig_number g = ig_number g' \<and>
        absolute_at (ig_lease g) = absolute_at (ig_lease g')"
    using assms(1) keeps(2)
    by (cases) (auto simp: same_tables_def removed_sessions wf(1) store_simps split: if_splits)
  show "im_get (lk_sessions st') sid = Some s' \<Longrightarrow> im_get (ss_peers s') pid = Some p' \<Longrightarrow> pr_number p' < lk_number st \<Longrightarrow>
      \<exists>s p. im_get (lk_sessions st) sid = Some s \<and> im_get (ss_peers s) pid = Some p \<and> pr_number p = pr_number p' \<and>
        absolute_at (pr_lease p) = absolute_at (pr_lease p')"
    using assms(1) keeps(3)
    by (cases) (auto simp: same_tables_def removed_sessions wf(1) store_simps split: if_splits)
qed

lemma renewal_stays:
  assumes "link_edit tr tk st st'" "sessions_ok st" "\<And>t. tk = Some t \<Longrightarrow> renewal_ok st t" "renewal_ok st t"
  shows "renewal_ok st' t"
proof (cases t)
  case (RenewingSession sid n l d)
  then show ?thesis using assms(4) link_edit_keeps(1) [OF assms(1-3), of sid] link_edit_number [OF assms(1)] by fastforce
next
  case (RenewingGrant sid n gid gn l)
  then show ?thesis using assms(4) link_edit_keeps(2) [OF assms(1-3), of sid _ gid] link_edit_number [OF assms(1)] by fastforce
next
  case (RenewingPeer sid n pid pn l sl d ps)
  then show ?thesis using assms(4) link_edit_keeps(3) [OF assms(1-3), of sid _ pid] link_edit_number [OF assms(1)] by fastforce
qed (use assms(4) in simp_all)

lemma custody_same:
  assumes "lk_sessions st' = lk_sessions st" "lk_number st' = lk_number st"
  shows "sessions_ok st' \<longleftrightarrow> sessions_ok st" "renewal_ok st' t \<longleftrightarrow> renewal_ok st t"
  using assms by (simp add: sessions_ok_def) (cases t; simp add: assms)

lemma fence_fields [simp]: "lk_sessions (fence sc st) = lk_sessions st" "lk_number (fence sc st) = lk_number st"
  "lk_identities (fence sc st) = lk_identities st" "lk_opening (fence sc st) = lk_opening st"
  "lk_sessions (drop_fence sc st) = lk_sessions st" "lk_number (drop_fence sc st) = lk_number st"
  "lk_identities (drop_fence sc st) = lk_identities st" "lk_opening (drop_fence sc st) = lk_opening st"
  by (cases sc; simp)+

lemma open_end_fields [simp]: "lk_sessions (open_end key marker st) = lk_sessions st" "lk_number (open_end key marker st) = lk_number st"
  "lk_identities (open_end key marker st) = lk_identities st" "lk_owner_fences (open_end key marker st) = lk_owner_fences st"
  "lk_account_fences (open_end key marker st) = lk_account_fences st" "lk_resource_fences (open_end key marker st) = lk_resource_fences st"
  by (simp_all add: open_end_def)

text \<open>Where \<open>open_session\<close> starts a session of its own.\<close>

lemma open_decideD:
  assumes "open_decide opts ow account client worker rv marker st = (st', Inr (StartOpening key ident))"
  shows "st' = st\<lparr>lk_opening := im_insert key marker (lk_opening st)\<rparr>" "im_get (lk_opening st) key = None"
    "length (lk_sessions st) + length (lk_opening st) < op_max_sessions opts" "key = identity_key ident"
    "js_trim (li_worker ident) = li_worker ident"
    "callers_trim wd opts \<Longrightarrow> lw_caller_id wd account \<Longrightarrow> lw_caller_id wd client \<Longrightarrow> trim_identity ident = ident"
    "im_get (lk_identities st) key = Some sid \<Longrightarrow> im_get (lk_sessions st) sid = Some s \<Longrightarrow> \<not> ss_ready s"
  using assms by (auto simp: open_decide_def open_start_def resolve_contract_def callers_trim_def trim_identity_def Let_def split: if_splits option.splits)
    (metis js_trim_idem)+

lemma call_renewals:
  assumes "call_begins wd opts st st' new" "sessions_ok st"
  shows "list_all (renewal_ok st') new"
  using assms(1)
proof cases
  case (opens ow account client worker rv marker key ident)
  then show ?thesis using open_decideD(5) by simp
next
  case (renews sid duration now s l)
  then have "im_get (lk_sessions st) sid = Some s" "absolute_at l = absolute_at (as_lease (ss_session s))"
    by (auto simp: renew_session_begin_def rbind_eq_Inr dest: ready_stateD renewed_leaseD split: if_splits)
  then show ?thesis using renews assms(2) by (auto simp: sessions_ok_def session_ok_def)
next
  case (renews_grant sid gid duration now n gn l)
  then obtain s g where "im_get (lk_sessions st) sid = Some s" "im_get (ss_grants s) gid = Some g" "ig_number g = gn"
      "absolute_at l = absolute_at (ig_lease g)"
    by (auto simp: renew_grant_begin_def rbind_eq_Inr dest!: ready_stateD renewed_leaseD split: if_splits option.splits)
  then show ?thesis using renews_grant assms(2) by (auto simp: sessions_ok_def session_ok_def grant_ok_def)
qed simp_all

lemma task_renewals:
  assumes "task_runs wd opts st t st' new" "sessions_ok st" "renewal_ok st t"
  shows "list_all (renewal_ok st') new"
  using assms(1)
proof cases
  case (renews_peer sid n s pid pn p d now l pl ps)
  then have "im_get (lk_sessions st) sid = Some s" "im_get (ss_peers s) pid = Some p" "pr_number p = pn" "absolute_at pl = absolute_at (pr_lease p)"
    by (auto simp: renew_peer_begin_def rbind_eq_Inr dest!: current_sessionD current_peerD renewed_leaseD split: if_splits)
  then show ?thesis using renews_peer assms(2) by (auto simp: sessions_ok_def session_ok_def peer_ok_def)
qed (use assms(3) in simp_all)

interpretation custody: link_invariant wd opts "\<lambda>st ts. custody st ts" for wd opts
proof unfold_locales
  show "custody links_new []"
    by (simp add: custody_def sessions_ok_def links_new_def)
next
  fix st ts st' new
  assume inv: "custody st ts" and call: "call_begins wd opts st st' new"
  show "custody st' (ts @ new)"
  proof -
    have ok: "sessions_ok st" "list_all (renewal_ok st) ts" using inv by (simp_all add: custody_def)
    then have wf: "im_wf (lk_sessions st)" by (simp add: sessions_ok_def)
    have "sessions_ok st' \<and> list_all (renewal_ok st') ts"
    proof (rule call_edits [where tr = False, OF FalseE wf call])
      fix ow account client worker rv marker key ident
      assume "open_decide opts ow account client worker rv marker st = (st', Inr (StartOpening key ident))"
      then show ?thesis using ok custody_same [of st' st] by (auto dest: open_decideD(1) simp: list_all_iff)
    next
      fix sc assume "st' = fence sc st"
      then show ?thesis using ok custody_same [of st' st] by (simp add: list_all_iff)
    next
      assume edit: "link_edit False None st st'"
      show ?thesis using ok link_edit_ok [OF edit ok(1)] renewal_stays [OF edit ok(1)] by (auto simp: list_all_iff)
    qed
    then show "custody st' (ts @ new)" using call_renewals [OF call ok(1)] by (simp add: custody_def)
  qed
next
  fix st xs t ys st' new
  assume inv: "custody st (xs @ t # ys)" and run: "task_runs wd opts st t st' new"
  show "custody st' (xs @ new @ ys)"
  proof -
    have ok: "sessions_ok st" "renewal_ok st t" "list_all (renewal_ok st) (xs @ ys)" using inv by (simp_all add: custody_def)
    have "sessions_ok st' \<and> list_all (renewal_ok st') (xs @ ys)"
    proof (rule task_edits [where tr = False, OF sessions_trimmed [OF ok(1)] FalseE run])
      fix key ident marker assume "st' = open_end key marker st"
      then show ?thesis using ok custody_same [of st' st] by (simp add: list_all_iff)
    next
      fix sc assume "st' = drop_fence sc st"
      then show ?thesis using ok custody_same [of st' st] by (simp add: list_all_iff)
    next
      assume "st' = clear_workers st"
      then show ?thesis using ok custody_same [of st' st] by (simp add: list_all_iff)
    next
      assume edit: "link_edit False (Some t) st st'"
      then have "sessions_ok st'" using link_edit_ok [OF edit ok(1)] ok(2) by simp
      then show ?thesis using ok renewal_stays [OF edit ok(1)] by (auto simp: list_all_iff)
    qed
    then show "custody st' (xs @ new @ ys)" using task_renewals [OF run ok(1,2)] by (simp add: custody_def)
  qed
qed

lemma custodyD: "links_reach wd opts st ts \<Longrightarrow> sessions_ok st \<and> (\<forall>t \<in> set ts. renewal_ok st t)"
  using custody.always [of wd opts st ts] by (auto simp: custody_def list_all_iff)

section \<open>Limits on peers\<close>

fun peer_task_ok :: "link_options \<Rightarrow> link_task \<Rightarrow> bool" where
  "peer_task_ok opts (PreparingPeer _ config _ _ _) \<longleftrightarrow> op_peer opts = Some config"
| "peer_task_ok opts _ \<longleftrightarrow> True"

definition within_limits :: "link_options \<Rightarrow> links \<Rightarrow> bool" where
  "within_limits opts st \<longleftrightarrow> (\<forall>config. op_peer opts = Some config \<longrightarrow>
     (\<forall>sid s. im_get (lk_sessions st) sid = Some s \<longrightarrow> length (ss_peers s) \<le> pc_per_client config) \<and>
     (\<forall>worker. worker_peers worker st \<le> pc_per_worker config))"

definition limited :: "link_options \<Rightarrow> links \<Rightarrow> link_task list \<Rightarrow> bool" where
  "limited opts st ts \<longleftrightarrow> within_limits opts st \<and> list_all (peer_task_ok opts) ts"

lemma sum_insert: "im_get m k = Some v \<Longrightarrow> sum_list (map f (im_insert k v' m)) + f (k, v) = sum_list (map f m) + (f (k, v') :: nat)"
  by (induction m) (auto simp: im_get_def im_insert_def split: if_splits)

lemma sum_insert_new: "im_get m k = None \<Longrightarrow> sum_list (map f (im_insert k v m)) = sum_list (map f m) + (f (k, v) :: nat)"
  by (induction m) (auto simp: im_get_def im_insert_def split: if_splits)

lemma sum_remove: "sum_list (map f (im_remove k m)) \<le> (sum_list (map f m) :: nat)"
  by (induction m) (auto simp: im_remove_def)

lemma session_edit_peers:
  assumes "session_edit tr tk st sid s s' k"
  shows "length (ss_peers s') \<le> length (ss_peers s) \<or> length (ss_peers s') = Suc (length (ss_peers s)) \<and>
    (\<exists>held config route slot marker. tk = Some (PreparingPeer held config route slot marker) \<and> length (ss_peers s) < pc_per_client config \<and>
       worker_peers (worker_of_session s) st < pc_per_worker config)"
  using assms by cases (auto simp: length_im_insert length_im_remove)

lemma link_edit_limits:
  assumes edit: "link_edit tr tk st st'" and ok: "sessions_ok st" and tk: "\<forall>t. tk = Some t \<longrightarrow> renewal_ok st t \<and> peer_task_ok opts t"
    and lim: "within_limits opts st"
  shows "within_limits opts st'"
  using edit
proof cases
  case quiet
  then show ?thesis using lim by (simp add: within_limits_def same_tables_def worker_peers_def)
next
  case (edited sid s s' k)
  have wf: "im_wf (lk_sessions st)" "session_ok (lk_number st) s" using ok edited by (auto simp: sessions_ok_def)
  have same: "worker_of_session s' = worker_of_session s" using session_edit_keeps(1) [OF edited(3,2) wf(2)] tk by auto
  have sum: "worker_peers w st' + (if worker_of_session s = w then length (ss_peers s) else 0) =
      worker_peers w st + (if worker_of_session s = w then length (ss_peers s') else 0)" for w
    unfolding worker_peers_def edited(1) put_link_fields
    using sum_insert [OF edited(2), of "\<lambda>(_, s). if worker_of_session s = w then length (ss_peers s) else 0" s'] same by simp
  show ?thesis unfolding within_limits_def
  proof (intro allI impI)
    fix config assume c: "op_peer opts = Some config"
    have "length (ss_peers s') \<le> pc_per_client config \<and> (\<forall>w. worker_peers w st' \<le> pc_per_worker config)"
    proof (cases "length (ss_peers s') \<le> length (ss_peers s)")
      case True
      then have "worker_peers w st' \<le> worker_peers w st" for w using sum [of w] by (auto split: if_splits)
      then show ?thesis using lim c edited(2) True by (meson order_trans within_limits_def)
    next
      case False
      then have more: "length (ss_peers s') = Suc (length (ss_peers s))" "length (ss_peers s) < pc_per_client config"
          "worker_peers (worker_of_session s) st < pc_per_worker config"
        using session_edit_peers [OF edited(3)] tk c by auto
      have "worker_peers w st' \<le> pc_per_worker config" for w
        using sum [of w] more lim c by (cases "worker_of_session s = w") (auto simp: within_limits_def)
      then show ?thesis using more by simp
    qed
    then show "(\<forall>sid s. im_get (lk_sessions st') sid = Some s \<longrightarrow> length (ss_peers s) \<le> pc_per_client config) \<and>
        (\<forall>worker. worker_peers worker st' \<le> pc_per_worker config)"
      using lim c edited(1) wf(1) by (auto simp: within_limits_def store_simps)
  qed
next
  case (inserted key ident marker sid v)
  then have "worker_peers w st' = worker_peers w st" for w
    by (simp add: worker_peers_def sum_insert_new)
  then show ?thesis using lim inserted ok by (auto simp: within_limits_def sessions_ok_def store_simps)
next
  case (removed sid s)
  then have fewer: "worker_peers w st' \<le> worker_peers w st" for w by (simp add: worker_peers_def removed_sessions sum_remove)
  have "im_get (lk_sessions st') i = (if i = sid then None else im_get (lk_sessions st) i)" for i
    using removed ok by (simp add: removed_sessions sessions_ok_def store_simps)
  then show ?thesis using lim by (auto simp: within_limits_def intro: order_trans [OF fewer] split: if_splits)
qed

lemma limits_same: "lk_sessions st' = lk_sessions st \<Longrightarrow> within_limits opts st' = within_limits opts st"
  by (simp add: within_limits_def worker_peers_def)

lemma call_peer_tasks: "call_begins wd opts st st' new \<Longrightarrow> list_all (peer_task_ok opts) new"
  by (induction rule: call_begins.induct)
    (auto simp: open_peer_decide_def Let_def split: if_splits option.splits sum.splits list.splits)

lemma task_peer_tasks: "task_runs wd opts st t st' new \<Longrightarrow> list_all (peer_task_ok opts) new"
  by (induction rule: task_runs.induct) (auto simp: list_all_iff split: option.splits)

interpretation limits: link_invariant wd opts "\<lambda>st ts. limited opts st ts" for wd opts
proof unfold_locales
  show "limited opts links_new []"
    by (simp add: limited_def within_limits_def links_new_def worker_peers_def)
next
  fix st ts st' new
  assume reach: "links_reach wd opts st ts" and inv: "limited opts st ts" and call: "call_begins wd opts st st' new"
  show "limited opts st' (ts @ new)"
  proof -
    have ok: "sessions_ok st" "im_wf (lk_sessions st)" "limited opts st ts" using custodyD [OF reach] inv by (auto simp: sessions_ok_def)
    have "within_limits opts st'"
      by (rule call_edits [where tr = False, OF FalseE ok(2) call])
        (use ok limits_same [of st' st] link_edit_limits [of False None st st' opts] in \<open>auto simp: limited_def dest: open_decideD(1)\<close>)
    then show "limited opts st' (ts @ new)" using ok(3) call_peer_tasks [OF call] by (simp add: limited_def)
  qed
next
  fix st xs t ys st' new
  assume reach: "links_reach wd opts st (xs @ t # ys)" and inv: "limited opts st (xs @ t # ys)"
    and run: "task_runs wd opts st t st' new"
  show "limited opts st' (xs @ new @ ys)"
  proof -
    have ok: "sessions_ok st" "renewal_ok st t" "limited opts st (xs @ t # ys)" using custodyD [OF reach] inv by auto
    have "within_limits opts st'"
      by (rule task_edits [where tr = False, OF sessions_trimmed [OF ok(1)] FalseE run])
        (use ok limits_same [of st' st] link_edit_limits [of False "Some t" st st' opts] in \<open>auto simp: limited_def\<close>)
    then show "limited opts st' (xs @ new @ ys)" using ok(3) task_peer_tasks [OF run] by (simp add: limited_def)
  qed
qed

section \<open>Subscriptions to workers\<close>

text \<open>The worker of every session is subscribed to, and a shutdown in progress still lists every session.\<close>

fun closing_ok :: "links \<Rightarrow> link_task \<Rightarrow> bool" where
  "closing_ok st (Closing rvs) \<longleftrightarrow> lk_closed st \<and> (\<forall>sid s. im_get (lk_sessions st) sid = Some s \<longrightarrow> RevokeSession sid \<in> set rvs)"
| "closing_ok st _ \<longleftrightarrow> True"

definition workers_watched :: "links \<Rightarrow> bool" where
  "workers_watched st \<longleftrightarrow> (\<forall>sid s. im_get (lk_sessions st) sid = Some s \<longrightarrow> worker_of_session s \<in> set (lk_workers st))"

definition watching :: "links \<Rightarrow> link_task list \<Rightarrow> bool" where
  "watching st ts \<longleftrightarrow> workers_watched st \<and> list_all (closing_ok st) ts"

lemma closed_fields [simp]: "lk_closed (put_link sid s st) = lk_closed st" "lk_closed (remove_session sid n st) = lk_closed st"
  "lk_closed (fence sc st) = lk_closed st" "lk_closed (drop_fence sc st) = lk_closed st" "lk_closed (open_end key marker st) = lk_closed st"
  "lk_workers (put_link sid s st) = lk_workers st" "lk_workers (fence sc st) = lk_workers st" "lk_workers (drop_fence sc st) = lk_workers st"
  "lk_workers (open_end key marker st) = lk_workers st"
  by (simp_all add: put_link_def remove_session_def Let_def open_end_def split: option.splits) (cases sc; simp)+

lemma removed_watch:
  assumes "im_wf (lk_sessions st)" "im_get (lk_sessions st) sid = Some s" "im_get (lk_sessions st) sid' = Some s'" "sid' \<noteq> sid"
    "worker_of_session s' \<in> set (lk_workers st)"
  shows "worker_of_session s' \<in> set (lk_workers (remove_session sid (ss_number s) st))"
proof -
  have "(sid', s') \<in> set (im_remove sid (lk_sessions st))" using assms(1,3,4) by (simp add: store_simps flip: im_get_eq_Some [OF im.wf_del [OF assms(1), of sid]])
  then show ?thesis using assms(2,5) by (auto simp: remove_session_def current_session_def Let_def list_ex_iff)
qed

lemma link_edit_watched:
  assumes "link_edit tr tk st st'" "sessions_ok st" "\<forall>t. tk = Some t \<longrightarrow> renewal_ok st t" "workers_watched st"
  shows "workers_watched st'"
  using assms(1)
proof cases
  case quiet
  then show ?thesis using assms(4) by (simp add: workers_watched_def same_tables_def)
next
  case (edited sid s s' k)
  have ok: "im_wf (lk_sessions st)" "session_ok (lk_number st) s" using edited assms(2) by (auto simp: sessions_ok_def)
  then show ?thesis using edited assms(4) session_edit_keeps(1) [OF edited(3,2) ok(2) assms(3) [rule_format]]
    by (auto simp: workers_watched_def store_simps)
next
  case (inserted key ident marker sid v)
  then have "li_worker (as_identity v) = li_worker ident" using assms(3) by (simp add: trim_identity_def)
  then show ?thesis using inserted assms(2,4) by (auto simp: workers_watched_def sessions_ok_def store_simps)
next
  case (removed sid s)
  then show ?thesis using assms(2,4) removed_watch [of st sid s]
    by (auto simp: workers_watched_def sessions_ok_def removed_sessions store_simps split: if_splits)
qed

text \<open>Once the authority is closed no session is added.\<close>

lemma closed_domain:
  assumes "link_edit tr tk st st'" "sessions_ok st" "lk_closed st"
  shows "lk_closed st' \<and> (\<forall>sid s'. im_get (lk_sessions st') sid = Some s' \<longrightarrow> im_get (lk_sessions st) sid \<noteq> None)"
  using assms by cases (auto simp: same_tables_def sessions_ok_def removed_sessions open_begin_def store_simps split: if_splits)

lemma closing_stays:
  assumes "link_edit tr tk st st'" "sessions_ok st" "closing_ok st t"
  shows "closing_ok st' t"
  using assms closed_domain [OF assms(1,2)] by (cases t) fastforce+

lemma closing_same: "lk_sessions st' = lk_sessions st \<Longrightarrow> lk_closed st' = lk_closed st \<Longrightarrow> closing_ok st' t = closing_ok st t"
  by (cases t) simp_all

lemma call_closing:
  assumes "call_begins wd opts st st' new" "sessions_ok st"
  shows "list_all (closing_ok st') new"
  using assms by cases (force simp: sessions_where_def close_links_def sessions_ok_def im_get_eq_Some)+

lemma task_closing:
  assumes "task_runs wd opts st t st' new" "sessions_ok st" "closing_ok st t"
  shows "list_all (closing_ok st') new"
  using assms(1)
proof cases
  case (closes_next rv rvs)
  have gone: "im_get (lk_sessions (fst (revoke_link sid st))) sid = None" for sid
    using assms(2) by (auto simp: revoke_link_def removed_sessions sessions_ok_def store_simps split: option.splits)
  have "closing_ok st' (Closing (rv # rvs))"
    using closing_stays [OF revoke_one_edit [of False None] assms(2), of "Closing (rv # rvs)" rv] closes_next assms(3) by (simp del: closing_ok.simps)
  then show ?thesis using closes_next gone by (cases rv) auto
qed simp_all

interpretation watch: link_invariant wd opts "\<lambda>st ts. watching st ts" for wd opts
proof unfold_locales
  show "watching links_new []" by (simp add: watching_def workers_watched_def links_new_def)
next
  fix st ts st' new
  assume reach: "links_reach wd opts st ts" and inv: "watching st ts" and call: "call_begins wd opts st st' new"
  show "watching st' (ts @ new)"
  proof -
    have ok: "sessions_ok st" "im_wf (lk_sessions st)" "workers_watched st" "list_all (closing_ok st) ts"
      using custodyD [OF reach] inv by (auto simp: sessions_ok_def watching_def)
    have same: "watching st' ts" if "lk_sessions st' = lk_sessions st" "lk_closed st' = lk_closed st" "lk_workers st' = lk_workers st"
      using that ok closing_same [OF that(1,2)] by (simp add: watching_def workers_watched_def list_all_iff)
    have "watching st' ts"
    proof (rule call_edits [where tr = False, OF FalseE ok(2) call])
      fix ow account client worker rv marker key ident
      assume "open_decide opts ow account client worker rv marker st = (st', Inr (StartOpening key ident))"
      from open_decideD(1) [OF this] show ?thesis by (intro same) auto
    next
      fix sc assume "st' = fence sc st" then show ?thesis by (intro same) auto
    next
      assume edit: "link_edit False None st st'"
      then show ?thesis using link_edit_watched [OF edit ok(1) _ ok(3)] closing_stays [OF edit ok(1)] ok(4) by (auto simp: watching_def list_all_iff)
    qed
    then show "watching st' (ts @ new)" using call_closing [OF call ok(1)] by (simp add: watching_def)
  qed
next
  fix st xs t ys st' new
  assume reach: "links_reach wd opts st (xs @ t # ys)" and inv: "watching st (xs @ t # ys)"
    and run: "task_runs wd opts st t st' new"
  show "watching st' (xs @ new @ ys)"
  proof -
    have ok: "sessions_ok st" "renewal_ok st t" "workers_watched st" "closing_ok st t" "list_all (closing_ok st) (xs @ ys)"
      using custodyD [OF reach] inv by (auto simp: watching_def)
    have same: "watching st' (xs @ ys)" if "lk_sessions st' = lk_sessions st" "lk_closed st' = lk_closed st" "workers_watched st'"
      using that ok closing_same [OF that(1,2)] by (simp add: watching_def list_all_iff)
    have "watching st' (xs @ ys)"
    proof (rule task_edits [where tr = False, OF sessions_trimmed [OF ok(1)] FalseE run])
      fix key ident marker assume "st' = open_end key marker st"
      then show ?thesis using ok(3) by (intro same) (auto simp: workers_watched_def)
    next
      fix sc assume "st' = drop_fence sc st"
      then show ?thesis using ok(3) by (intro same) (auto simp: workers_watched_def)
    next
      assume "t = Closing []" "st' = clear_workers st"
      then show ?thesis using ok(4) by (intro same) (auto simp: workers_watched_def)
    next
      assume edit: "link_edit False (Some t) st st'"
      then show ?thesis using link_edit_watched [OF edit ok(1) _ ok(3)] closing_stays [OF edit ok(1)] ok(2,5) by (auto simp: watching_def list_all_iff)
    qed
    then show "watching st' (xs @ new @ ys)" using task_closing [OF run ok(1,4)] by (simp add: watching_def)
  qed
qed

end
