(* ===== verification/LinkFences.thy ===== *)
theory LinkFences
  imports LinkCustody
begin

text \<open>
  Revocation and opening in the worker-link authority, as more instances of \<open>link_invariant\<close>: a fence stands exactly as long as a
  revocation of its scope runs (\<open>fences\<close>) and every call that opens a session has a slot of its own (\<open>slots\<close>). Where the callers pass
  trimmed ids (\<open>named\<close>), a revocation also still lists every match (\<open>scans\<close>), and an identity that is being opened has no ready
  session while every ready session is the one the identity index names (\<open>owned\<close>).
\<close>

section \<open>Fences\<close>

datatype fence_key = OwnerKey string | AccountKey string | ResourceKey string

fun scope_key :: "scope \<Rightarrow> fence_key" where
  "scope_key (OwnerScope ow) = OwnerKey ow"
| "scope_key (AccountScope a) = AccountKey a"
| "scope_key (ResourceScope ow k r _) = ResourceKey (resource_key ow k r)"

fun fence_at :: "links \<Rightarrow> fence_key \<Rightarrow> nat option" where
  "fence_at st (OwnerKey ow) = im_get (lk_owner_fences st) ow"
| "fence_at st (AccountKey a) = im_get (lk_account_fences st) a"
| "fence_at st (ResourceKey k) = im_get (lk_resource_fences st) k"

fun revoking :: "fence_key \<Rightarrow> link_task \<Rightarrow> bool" where
  "revoking k (RevokingScope sc _) \<longleftrightarrow> scope_key sc = k"
| "revoking k _ \<longleftrightarrow> False"

text \<open>The scan of a revocation still lists every match.\<close>

fun listed :: "links \<Rightarrow> link_task \<Rightarrow> bool" where
  "listed st (RevokingScope sc (Some rvs)) \<longleftrightarrow> set (scope_matches sc st) \<subseteq> set rvs"
| "listed st _ \<longleftrightarrow> True"

definition counted :: "nat \<Rightarrow> nat option" where
  "counted n = (if n = 0 then None else Some n)"

definition fences_match :: "links \<Rightarrow> link_task list \<Rightarrow> bool" where
  "fences_match st ts \<longleftrightarrow> im_wf (lk_owner_fences st) \<and> im_wf (lk_account_fences st) \<and> im_wf (lk_resource_fences st) \<and>
     (\<forall>k. fence_at st k = counted (length (filter (revoking k) ts)))"

lemma raise_fence_get: "im_wf m \<Longrightarrow> im_get m k = counted n \<Longrightarrow> im_get (raise_fence k m) j = (if j = k then counted (Suc n) else im_get m j)"
  by (auto simp: raise_fence_def counted_def store_simps split: if_splits)

lemma lower_fence_get: "im_wf m \<Longrightarrow> im_get m k = counted (Suc n) \<Longrightarrow> im_get (lower_fence k m) j = (if j = k then counted n else im_get m j)"
  by (auto simp: lower_fence_def counted_def store_simps)

lemma fence_wf: "im_wf m \<Longrightarrow> im_wf (raise_fence k m)" "im_wf m \<Longrightarrow> im_wf (lower_fence k m)"
  by (auto simp: raise_fence_def lower_fence_def store_simps split: option.splits)

lemma fence_at_fence:
  assumes "fences_match st ts"
  shows "fence_at (fence sc st) k = (if k = scope_key sc then counted (Suc (length (filter (revoking k) ts))) else fence_at st k)"
proof -
  have "fence_at st (scope_key sc) = counted (length (filter (revoking (scope_key sc)) ts))" using assms by (simp add: fences_match_def)
  then show ?thesis using assms by (cases sc; cases k) (auto simp: fences_match_def raise_fence_get)
qed

lemma fence_at_drop_fence:
  assumes "fences_match st ts" "length (filter (revoking (scope_key sc)) ts) = Suc n"
  shows "fence_at (drop_fence sc st) k = (if k = scope_key sc then counted n else fence_at st k)"
proof -
  have "fence_at st (scope_key sc) = counted (Suc n)" using assms by (simp add: fences_match_def)
  then show ?thesis using assms by (cases sc; cases k) (auto simp: fences_match_def lower_fence_get)
qed

lemma fences_raised: "fences_match st ts \<Longrightarrow> fences_match (fence sc st) (ts @ [RevokingScope sc r])"
proof -
  assume m: "fences_match st ts"
  then have "im_wf (lk_owner_fences (fence sc st)) \<and> im_wf (lk_account_fences (fence sc st)) \<and> im_wf (lk_resource_fences (fence sc st))"
    by (cases sc) (simp_all add: fences_match_def fence_wf)
  then show ?thesis using m fence_at_fence [OF m, of sc] by (auto simp: fences_match_def)
qed

lemma fences_dropped:
  assumes m: "fences_match st (xs @ RevokingScope sc r # ys)"
  shows "fences_match (drop_fence sc st) (xs @ ys)"
proof -
  have "im_wf (lk_owner_fences (drop_fence sc st)) \<and> im_wf (lk_account_fences (drop_fence sc st)) \<and> im_wf (lk_resource_fences (drop_fence sc st))"
    using m by (cases sc) (simp_all add: fences_match_def fence_wf)
  then show ?thesis using m fence_at_drop_fence [OF m, of sc] by (auto simp: fences_match_def)
qed

lemma same_fences:
  assumes "lk_owner_fences st' = lk_owner_fences st" "lk_account_fences st' = lk_account_fences st" "lk_resource_fences st' = lk_resource_fences st"
  shows "fence_at st' k = fence_at st k" "fences_match st' ts \<longleftrightarrow> fences_match st ts"
proof -
  show f: "fence_at st' k = fence_at st k" for k using assms by (cases k) simp_all
  show "fences_match st' ts \<longleftrightarrow> fences_match st ts" using assms by (simp add: fences_match_def f)
qed

lemma link_edit_fences:
  "link_edit tr tk st st' \<Longrightarrow> lk_owner_fences st' = lk_owner_fences st \<and> lk_account_fences st' = lk_account_fences st \<and>
     lk_resource_fences st' = lk_resource_fences st"
  by (induction rule: link_edit.induct) (auto simp: same_tables_def)

subsection \<open>What a revocation finds\<close>

lemma owner_matches:
  assumes "sessions_ok st"
  shows "rv \<in> set (scope_matches (OwnerScope ow) st) \<longleftrightarrow> (\<exists>sid s. rv = RevokeSession sid \<and> im_get (lk_sessions st) sid = Some s \<and> owner_of s = ow)"
  using assms by (force simp: sessions_where_def sessions_ok_def im_get_eq_Some)

lemma account_matches:
  assumes "sessions_ok st"
  shows "rv \<in> set (scope_matches (AccountScope a) st) \<longleftrightarrow> (\<exists>sid s. rv = RevokeSession sid \<and> im_get (lk_sessions st) sid = Some s \<and> account_of s = a)"
  using assms by (force simp: sessions_where_def sessions_ok_def im_get_eq_Some)

lemma in_named_grants: "rv \<in> set (map (\<lambda>(gid, _). f gid) (filter (\<lambda>(_, g). Q g) l)) \<longleftrightarrow> (\<exists>gid g. (gid, g) \<in> set l \<and> Q g \<and> rv = f gid)"
  by force

lemma in_scan: "rv \<in> set (concat (map (\<lambda>(k, v). if P v then [] else f k v) m)) \<longleftrightarrow> (\<exists>k v. (k, v) \<in> set m \<and> \<not> P v \<and> rv \<in> set (f k v))"
  by (induction m) (auto split: if_splits)

lemma resource_matches:
  assumes "sessions_ok st"
  shows "rv \<in> set (scope_matches (ResourceScope ow kind res att) st) \<longleftrightarrow>
    (\<exists>sid s gid g. rv = RevokeGrant sid gid \<and> im_get (lk_sessions st) sid = Some s \<and> owner_of s = ow \<and>
       im_get (ss_grants s) gid = Some g \<and> grant_matches kind res att g)"
proof -
  have wf: "im_wf (lk_sessions st)" "\<And>sid s. (sid, s) \<in> set (lk_sessions st) \<Longrightarrow> im_wf (ss_grants s)"
    using assms by (auto simp: sessions_ok_def session_ok_def im_get_eq_Some)
  have "rv \<in> set (scope_matches (ResourceScope ow kind res att) st) \<longleftrightarrow>
    (\<exists>sid s gid g. rv = RevokeGrant sid gid \<and> (sid, s) \<in> set (lk_sessions st) \<and> owner_of s = ow \<and>
       (gid, g) \<in> set (ss_grants s) \<and> grant_matches kind res att g)"
    unfolding scope_matches.simps in_scan in_named_grants by blast
  also have "\<dots> \<longleftrightarrow> (\<exists>sid s gid g. rv = RevokeGrant sid gid \<and> im_get (lk_sessions st) sid = Some s \<and> owner_of s = ow \<and>
       im_get (ss_grants s) gid = Some g \<and> grant_matches kind res att g)"
    using wf(1) im_get_eq_Some [OF wf(2)] by (metis im_get_eq_Some)
  finally show ?thesis .
qed

lemmas matches = owner_matches account_matches resource_matches

lemma session_edit_grants:
  assumes "session_edit True tk st sid s s' k" "im_wf (ss_grants s)" "im_get (ss_grants s') gid = Some g'"
  shows "im_get (lk_resource_fences st) (resource_key (owner_of s) (ig_kind g') (ig_resource g')) = None \<or>
    (\<exists>g. im_get (ss_grants s) gid = Some g \<and> (\<forall>kind res att. grant_matches kind res att g' \<longrightarrow> grant_matches kind res att g))"
  using assms by cases (auto simp: store_simps grant_matches_def split: if_splits option.splits)

text \<open>Where a session of the next state comes from.\<close>

lemma session_origin:
  assumes "link_edit True tk st st'" "sessions_ok st" "\<forall>t. tk = Some t \<longrightarrow> renewal_ok st t" "im_get (lk_sessions st') sid = Some s'"
  obtains (old) s where "im_get (lk_sessions st) sid = Some s" "as_identity (ss_session s') = as_identity (ss_session s)"
      "\<And>gid g'. im_get (ss_grants s') gid = Some g' \<Longrightarrow>
         im_get (lk_resource_fences st) (resource_key (owner_of s) (ig_kind g') (ig_resource g')) = None \<or>
         (\<exists>g. im_get (ss_grants s) gid = Some g \<and> (\<forall>kind res att. grant_matches kind res att g' \<longrightarrow> grant_matches kind res att g))"
  | (new) "open_begin st (owner_of s') (account_of s') = Inr ()" "ss_grants s' = []"
  using assms(1)
proof cases
  case quiet
  then show ?thesis using old [of s'] assms(4) by (auto simp: same_tables_def)
next
  case (edited sid0 s0 s0' k)
  have ok: "im_wf (lk_sessions st)" "session_ok (lk_number st) s0" using edited assms(2) by (auto simp: sessions_ok_def)
  show ?thesis
  proof (cases "sid = sid0")
    case True
    then have "s' = s0'" using edited assms(4) ok by (simp add: store_simps)
    then show ?thesis using True edited ok session_edit_keeps(1) [OF edited(3,2) ok(2) assms(3) [rule_format]] session_edit_grants [OF edited(3)]
      by (intro old [of s0]) (auto simp: session_ok_def)
  next
    case False
    then show ?thesis using old [of s'] edited assms(4) ok by (auto simp: store_simps)
  qed
next
  case (inserted key ident marker sid0 v)
  then have "as_identity v = ident" by simp
  then show ?thesis using inserted old [of s'] new assms(2,4) by (cases "sid = sid0") (auto simp: sessions_ok_def store_simps)
next
  case (removed sid0 s0)
  then show ?thesis using old [of s'] assms(2,4) by (auto simp: removed_sessions sessions_ok_def store_simps split: if_splits)
qed

lemma open_begin_unfenced:
  "open_begin st ow account = Inr () \<Longrightarrow> fence_at st (OwnerKey ow) = None \<and> fence_at st (AccountKey account) = None"
  by (auto simp: open_begin_def identity_authorized_def split: if_splits)

lemma fenced_matches_shrink:
  assumes "link_edit True tk st st'" "sessions_ok st" "\<And>t. tk = Some t \<Longrightarrow> renewal_ok st t" "fence_at st (scope_key sc) \<noteq> None"
  shows "set (scope_matches sc st') \<subseteq> set (scope_matches sc st)"
proof
  fix rv assume rv: "rv \<in> set (scope_matches sc st')"
  note ok = assms(2) link_edit_ok [OF assms(1-3)]
  have "\<forall>t. tk = Some t \<longrightarrow> renewal_ok st t" using assms(3) by blast
  note origin = session_origin [OF assms(1,2) this]
  show "rv \<in> set (scope_matches sc st)"
  proof (cases sc)
    case (OwnerScope ow)
    then obtain sid s' where s': "rv = RevokeSession sid" "im_get (lk_sessions st') sid = Some s'" "owner_of s' = ow"
      using rv ok(2) by (auto simp: matches simp del: scope_matches.simps)
    show ?thesis by (rule origin [OF s'(2)]) (use s' OwnerScope assms(4) ok(1) open_begin_unfenced in \<open>auto simp: matches simp del: scope_matches.simps\<close>)
  next
    case (AccountScope a)
    then obtain sid s' where s': "rv = RevokeSession sid" "im_get (lk_sessions st') sid = Some s'" "account_of s' = a"
      using rv ok(2) by (auto simp: matches simp del: scope_matches.simps)
    show ?thesis by (rule origin [OF s'(2)]) (use s' AccountScope assms(4) ok(1) open_begin_unfenced in \<open>auto simp: matches simp del: scope_matches.simps\<close>)
  next
    case (ResourceScope ow kind res att)
    then obtain sid s' gid g' where s': "rv = RevokeGrant sid gid" "im_get (lk_sessions st') sid = Some s'" "owner_of s' = ow"
        "im_get (ss_grants s') gid = Some g'" "grant_matches kind res att g'"
      using rv ok(2) by (auto simp: matches simp del: scope_matches.simps)
    then have key: "ig_kind g' = kind" "ig_resource g' = res" by (auto simp: grant_matches_def)
    show ?thesis
      by (rule origin [OF s'(2)]) (use s' key ResourceScope assms(4) ok(1) in \<open>fastforce simp: matches simp del: scope_matches.simps\<close>)+
  qed
qed

lemma revoked_not_matched:
  assumes "sessions_ok st"
  shows "rv \<notin> set (scope_matches sc (fst (revoke_one rv st)))"
proof -
  have ok: "sessions_ok (fst (revoke_one rv st))" by (rule link_edit_ok [OF revoke_one_edit [of True None] assms]) simp
  have wf: "im_wf (lk_sessions st)" "\<And>sid s. im_get (lk_sessions st) sid = Some s \<Longrightarrow> im_wf (ss_grants s)"
    using assms by (auto simp: sessions_ok_def session_ok_def)
  have gone: "im_get (lk_sessions (fst (revoke_link sid st))) sid = None" for sid
    using wf(1) by (auto simp: revoke_link_def removed_sessions store_simps split: option.splits)
  have out: "im_get (ss_grants s) gid = None" if "im_get (lk_sessions (fst (revoke_grant sid gid st))) sid = Some s" for sid gid s
    using that wf by (auto simp: revoke_grant_def store_simps split: option.splits if_splits)
  show ?thesis using ok gone out
    by (cases sc; cases rv) (auto simp: matches simp del: scope_matches.simps)
qed

subsection \<open>A fence stands as long as a revocation of its scope runs\<close>

lemma matches_same: "lk_sessions st' = lk_sessions st \<Longrightarrow> scope_matches sc st' = scope_matches sc st"
  by (cases sc) (simp_all add: sessions_where_def)

lemma listed_same: "lk_sessions st' = lk_sessions st \<Longrightarrow> listed st' t = listed st t"
  using matches_same [of st' st] by (cases "(st, t)" rule: listed.cases) (auto simp del: scope_matches.simps)

lemma scope_fenced: "fences_match st ts \<Longrightarrow> RevokingScope sc r \<in> set ts \<Longrightarrow> fence_at st (scope_key sc) \<noteq> None"
  by (force simp: fences_match_def counted_def filter_empty_conv)

lemma listed_stays:
  assumes "link_edit True tk st st'" "sessions_ok st" "\<And>t. tk = Some t \<Longrightarrow> renewal_ok st t" "fences_match st ts" "t \<in> set ts" "listed st t"
  shows "listed st' t"
proof (cases "(st', t)" rule: listed.cases)
  case (1 st1 sc rvs)
  then show ?thesis using fenced_matches_shrink [OF assms(1-3), of sc] scope_fenced [OF assms(4), of sc] assms(5,6) by auto
qed auto

lemma task_revoking:
  assumes "task_runs wd opts st t st' new" "\<And>sc. t \<noteq> RevokingScope sc (Some [])"
  shows "length (filter (revoking k) new) = length (filter (revoking k) [t])"
  using assms by cases (auto simp: filter_concat filter_empty_conv split: option.splits)

lemma task_listed:
  assumes "task_runs wd opts st t st' new" "sessions_ok st" "fences_match st ts" "t \<in> set ts" "listed st t"
  shows "list_all (listed st') new"
  using assms(1)
proof cases
  case (revokes_next sc rv rvs)
  then have "set (scope_matches sc st') \<subseteq> set (scope_matches sc st)"
    using fenced_matches_shrink [OF revoke_one_edit [of True None] assms(2)] scope_fenced [OF assms(3)] assms(4) by blast
  then show ?thesis using revokes_next assms(5) revoked_not_matched [OF assms(2), of rv sc] by (auto simp del: scope_matches.simps)
qed simp_all

lemma plain_fenced: "list_all ordinary new \<Longrightarrow> filter (revoking k) new = [] \<and> list_all (listed st) new"
  by (induction new) (auto elim!: ordinary.elims)

interpretation fences: link_invariant wd opts fences_match for wd opts
proof unfold_locales
  have "fence_at links_new k = None" for k by (cases k) (simp_all add: links_new_def)
  then show "fences_match links_new []" by (simp add: fences_match_def counted_def links_new_def)
next
  fix st ts st' new
  assume reach: "links_reach wd opts st ts" and ok: "fences_match st ts" and call: "call_begins wd opts st st' new"
  have wf: "im_wf (lk_sessions st)" using custodyD [OF reach] by (simp add: sessions_ok_def)
  show "fences_match st' (ts @ new)"
  proof (rule call_edits [where tr = False, OF FalseE wf call])
    fix ow account client worker rv marker key ident
    assume "open_decide opts ow account client worker rv marker st = (st', Inr (StartOpening key ident))"
      "new = [OpenClearing key ident marker (generation_changed ident st')]"
    then show ?thesis using ok same_fences [of st' st] by (auto simp: fences_match_def dest!: open_decideD(1))
  next
    fix sc assume "st' = fence sc st" "new = [RevokingScope sc None]"
    then show ?thesis using fences_raised [OF ok] by simp
  next
    assume edit: "link_edit False None st st'" and new: "list_all ordinary new"
    show ?thesis using ok same_fences(2) [of st' st] link_edit_fences [OF edit] plain_fenced [OF new] by (simp add: fences_match_def)
  qed simp
next
  fix st xs t ys st' new
  assume reach: "links_reach wd opts st (xs @ t # ys)" and ok: "fences_match st (xs @ t # ys)" and run: "task_runs wd opts st t st' new"
  show "fences_match st' (xs @ new @ ys)"
  proof (cases "\<exists>sc. t = RevokingScope sc (Some [])")
    case True
    then obtain sc where sc: "t = RevokingScope sc (Some [])" ..
    with run have "st' = drop_fence sc st \<and> new = []" by (auto elim: task_runs.cases)
    then show ?thesis using sc ok fences_dropped [of st xs sc "Some []" ys] by simp
  next
    case False
    have "lk_owner_fences st' = lk_owner_fences st \<and> lk_account_fences st' = lk_account_fences st \<and> lk_resource_fences st' = lk_resource_fences st"
      by (rule task_edits [where tr = False, OF sessions_trimmed [OF conjunct1 [OF custodyD [OF reach]]] FalseE run])
        (use False link_edit_fences in auto)
    moreover have "length (filter (revoking k) new) = length (filter (revoking k) [t])" for k using task_revoking [OF run] False by blast
    then have "length (filter (revoking k) (xs @ new @ ys)) = length (filter (revoking k) (xs @ t # ys))" for k by simp
    ultimately show ?thesis using ok same_fences(2) [of st' st] by (simp add: fences_match_def del: filter_append filter.simps)
  qed
qed

text \<open>The identities of the openings in flight are trimmed where the callers' ids are.\<close>

lemma plain_trimmed: "list_all ordinary new \<Longrightarrow> list_all task_trimmed new"
  by (induction new) (auto elim!: ordinary.elims)

interpretation named: link_invariant wd opts "\<lambda>st ts. callers_trim wd opts \<longrightarrow> list_all task_trimmed ts" for wd opts
proof unfold_locales
  fix st ts st' new
  assume reach: "links_reach wd opts st ts" and inv: "callers_trim wd opts \<longrightarrow> list_all task_trimmed ts" and call: "call_begins wd opts st st' new"
  have wf: "im_wf (lk_sessions st)" using custodyD [OF reach] by (simp add: sessions_ok_def)
  have "list_all task_trimmed new" if "callers_trim wd opts"
    by (rule call_edits [where tr = False, OF FalseE wf call]) (use that open_decideD(6) plain_trimmed in auto)
  then show "callers_trim wd opts \<longrightarrow> list_all task_trimmed (ts @ new)" using inv by simp
next
  fix st xs t ys st' new
  assume inv: "callers_trim wd opts \<longrightarrow> list_all task_trimmed (xs @ t # ys)" and run: "task_runs wd opts st t st' new"
  from run have "task_trimmed t \<Longrightarrow> list_all task_trimmed new" by cases (auto simp: list_all_iff)
  then show "callers_trim wd opts \<longrightarrow> list_all task_trimmed (xs @ new @ ys)" using inv by auto
qed simp

lemma namedD: "callers_trim wd opts \<Longrightarrow> links_reach wd opts st ts \<Longrightarrow> t \<in> set ts \<Longrightarrow> task_trimmed t"
  using named.always [of wd opts st ts] by (simp add: list_all_iff)

interpretation scans: link_invariant wd opts "\<lambda>st ts. callers_trim wd opts \<longrightarrow> list_all (listed st) ts" for wd opts
proof unfold_locales
  fix st ts st' new
  assume reach: "links_reach wd opts st ts" and inv: "callers_trim wd opts \<longrightarrow> list_all (listed st) ts" and call: "call_begins wd opts st st' new"
  note match = fences.always [OF reach]
  have ok: "sessions_ok st" "im_wf (lk_sessions st)" using custodyD [OF reach] by (simp_all add: sessions_ok_def)
  show "callers_trim wd opts \<longrightarrow> list_all (listed st') (ts @ new)"
  proof
    assume trim: "callers_trim wd opts"
    then have old: "list_all (listed st) ts" using inv by simp
    show "list_all (listed st') (ts @ new)"
    proof (rule call_edits [where tr = True, OF trim ok(2) call])
      fix ow account client worker rv marker key ident
      assume "open_decide opts ow account client worker rv marker st = (st', Inr (StartOpening key ident))"
        "new = [OpenClearing key ident marker (generation_changed ident st')]"
      then show ?thesis using old listed_same [of st' st] by (auto simp: list_all_iff dest!: open_decideD(1))
    next
      fix sc assume "st' = fence sc st" "new = [RevokingScope sc None]"
      then show ?thesis using old listed_same [of st' st] by (simp add: list_all_iff)
    next
      assume edit: "link_edit True None st st'" and new: "list_all ordinary new"
      show ?thesis using old listed_stays [OF edit ok(1) _ match] plain_fenced [OF new] by (auto simp: list_all_iff)
    qed
  qed
next
  fix st xs t ys st' new
  assume reach: "links_reach wd opts st (xs @ t # ys)" and inv: "callers_trim wd opts \<longrightarrow> list_all (listed st) (xs @ t # ys)"
    and run: "task_runs wd opts st t st' new"
  note match = fences.always [OF reach]
  have ok: "sessions_ok st" "renewal_ok st t" using custodyD [OF reach] by simp_all
  show "callers_trim wd opts \<longrightarrow> list_all (listed st') (xs @ new @ ys)"
  proof
    assume trim: "callers_trim wd opts"
    then have old: "listed st t" "list_all (listed st) (xs @ ys)" using inv by simp_all
    have named: "task_trimmed t" using namedD [OF trim reach] by simp
    have "list_all (listed st') (xs @ ys)"
      by (rule task_edits [where tr = True, OF sessions_trimmed [OF ok(1)] named run])
        (use old ok listed_same [of st' st] listed_stays [of "Some t" st st', OF _ ok(1) _ match] in \<open>auto simp: list_all_iff\<close>)
    then show "list_all (listed st') (xs @ new @ ys)" using task_listed [OF run ok(1) match _ old(1)] by simp
  qed
qed simp

section \<open>One session for an identity\<close>

fun open_key :: "link_task \<Rightarrow> string option" where
  "open_key (OpenClearing key _ _ _) = Some key"
| "open_key (OpenInstalling key _ _ _ _) = Some key"
| "open_key (OpenEnding key _ _) = Some key"
| "open_key _ = None"

text \<open>Every call that opens a session has its own slot in the table of openings.\<close>

fun slot_ok :: "links \<Rightarrow> link_task \<Rightarrow> bool" where
  "slot_ok st (OpenClearing key _ marker _) \<longleftrightarrow> im_get (lk_opening st) key = Some marker"
| "slot_ok st (OpenInstalling key _ marker _ _) \<longleftrightarrow> im_get (lk_opening st) key = Some marker"
| "slot_ok st (OpenEnding key _ marker) \<longleftrightarrow> im_get (lk_opening st) key = Some marker"
| "slot_ok st _ \<longleftrightarrow> True"

fun clearing :: "link_task \<Rightarrow> bool" where
  "clearing (OpenClearing _ _ _ _) = True"
| "clearing _ = False"

abbreviation session_key :: "session_state \<Rightarrow> string" where
  "session_key s \<equiv> identity_key (as_identity (ss_session s))"

definition none_ready :: "links \<Rightarrow> string \<Rightarrow> bool" where
  "none_ready st key \<longleftrightarrow> (\<forall>sid s. im_get (lk_sessions st) sid = Some s \<longrightarrow> ss_ready s \<longrightarrow> session_key s \<noteq> key)"

fun open_ok :: "links \<Rightarrow> link_task \<Rightarrow> bool" where
  "open_ok st (OpenClearing key ident _ _) \<longleftrightarrow> key = identity_key ident \<and> none_ready st key"
| "open_ok st (OpenInstalling key ident _ sid n) \<longleftrightarrow> key = identity_key ident \<and> none_ready st key \<and>
     n < lk_number st \<and> (\<forall>s. im_get (lk_sessions st) sid = Some s \<longrightarrow> ss_number s = n \<longrightarrow>
       as_identity (ss_session s) = ident \<and> im_get (lk_identities st) key = Some sid)"
| "open_ok st _ \<longleftrightarrow> True"

definition indexed :: "links \<Rightarrow> bool" where
  "indexed st \<longleftrightarrow> im_wf (lk_identities st) \<and>
     (\<forall>sid s. im_get (lk_sessions st) sid = Some s \<longrightarrow> ss_ready s \<longrightarrow> im_get (lk_identities st) (session_key s) = Some sid)"

definition slotted :: "link_options \<Rightarrow> links \<Rightarrow> link_task list \<Rightarrow> bool" where
  "slotted opts st ts \<longleftrightarrow> im_wf (lk_opening st) \<and> distinct (List.map_filter open_key ts) \<and> list_all (slot_ok st) ts \<and>
     length (lk_sessions st) + length (filter clearing ts) \<le> op_max_sessions opts"

definition openings :: "links \<Rightarrow> link_task list \<Rightarrow> bool" where
  "openings st ts \<longleftrightarrow> list_all (open_ok st) ts \<and> indexed st"

lemma map_filter_append: "List.map_filter f (xs @ ys) = List.map_filter f xs @ List.map_filter f ys"
  by (induction xs) (auto simp: map_filter_simps split: option.splits)

lemma set_open_keys: "key \<in> set (List.map_filter open_key ts) \<longleftrightarrow> (\<exists>t \<in> set ts. open_key t = Some key)"
  by (force simp: map_filter_def image_iff)

lemma clearing_few: "length (filter clearing ts) \<le> length (List.map_filter open_key ts)"
proof (induction ts)
  case (Cons t ts) then show ?case by (cases t) (simp_all add: map_filter_simps)
qed (simp add: map_filter_simps)

lemma slot_ok_opening: "slot_ok st t \<Longrightarrow> open_key t = Some key \<Longrightarrow> im_get (lk_opening st) key \<noteq> None"
  by (cases t) auto

lemma clearing_below_opening:
  assumes "slotted opts st ts"
  shows "length (filter clearing ts) \<le> length (lk_opening st)"
proof -
  have "set (List.map_filter open_key ts) \<subseteq> set (map fst (lk_opening st))"
  proof
    fix key assume "key \<in> set (List.map_filter open_key ts)"
    then have "im_get (lk_opening st) key \<noteq> None"
      using assms slot_ok_opening by (auto simp: set_open_keys slotted_def list_all_iff)
    then show "key \<in> set (map fst (lk_opening st))" by (simp add: im_get_None_iff)
  qed
  then have "card (set (List.map_filter open_key ts)) \<le> length (lk_opening st)"
    by (metis card_length card_mono finite_set length_map order_trans)
  then have "length (List.map_filter open_key ts) \<le> length (lk_opening st)"
    using assms by (simp add: slotted_def distinct_card)
  then show ?thesis using clearing_few [of ts] by simp
qed

lemma link_edit_opening: "link_edit tr tk st st' \<Longrightarrow> lk_opening st' = lk_opening st"
  by (induction rule: link_edit.induct) (auto simp: same_tables_def)

lemma link_edit_count:
  "link_edit tr tk st st' \<Longrightarrow> length (lk_sessions st') \<le> length (lk_sessions st) + (case tk of Some (OpenClearing _ _ _ []) \<Rightarrow> 1 | _ \<Rightarrow> 0)"
  by (induction rule: link_edit.induct) (auto simp: same_tables_def length_im_insert removed_sessions intro: trans_le_add1 length_im_remove)

lemma task_clearing:
  "task_runs wd opts st t st' new \<Longrightarrow> length (filter clearing new) + (case t of OpenClearing _ _ _ [] \<Rightarrow> 1 | _ \<Rightarrow> 0) = length (filter clearing [t])"
  by (induction rule: task_runs.induct) (auto simp: filter_concat filter_empty_conv split: option.splits)

lemma task_open_keys:
  "task_runs wd opts st t st' new \<Longrightarrow> List.map_filter open_key new = (if \<exists>key ident marker. t = OpenEnding key ident marker then [] else List.map_filter open_key [t])"
  by (induction rule: task_runs.induct) (auto simp: map_filter_simps map_filter_def filter_concat filter_empty_conv split: option.splits)

lemma session_edit_ready:
  "session_edit tr tk st sid s s' k \<Longrightarrow> ss_ready s' \<Longrightarrow> ss_ready s \<or> (\<exists>key ident marker. tk = Some (OpenInstalling key ident marker sid (ss_number s)))"
  by (induction rule: session_edit.induct) auto

text \<open>A session that is ready in the next state was ready, or its opening has just been acknowledged.\<close>

lemma ready_origin:
  assumes "link_edit tr tk st st'" "sessions_ok st" "\<forall>t. tk = Some t \<longrightarrow> renewal_ok st t" "im_get (lk_sessions st') sid = Some s'" "ss_ready s'"
  obtains s where "im_get (lk_sessions st) sid = Some s" "session_key s = session_key s'" "ss_number s = ss_number s'"
    "ss_ready s \<or> (\<exists>key ident marker. tk = Some (OpenInstalling key ident marker sid (ss_number s)))"
  using assms(1)
proof cases
  case quiet
  then show ?thesis using that [of s'] assms(4,5) by (auto simp: same_tables_def)
next
  case (edited sid0 s0 s0' k)
  have ok: "im_wf (lk_sessions st)" "session_ok (lk_number st) s0" using edited assms(2) by (auto simp: sessions_ok_def)
  show ?thesis
  proof (cases "sid = sid0")
    case True
    then have "s' = s0'" using edited assms(4) ok by (simp add: store_simps)
    then show ?thesis using that [of s0] True edited session_edit_keeps(1) [OF edited(3,2) ok(2) assms(3) [rule_format]]
        session_edit_ready [OF edited(3)] assms(5) by auto
  next
    case False
    then show ?thesis using that [of s'] edited assms(4,5) ok by (auto simp: store_simps)
  qed
next
  case (inserted key ident marker sid0 v)
  then show ?thesis using that [of s'] assms(2,4,5) by (cases "sid = sid0") (auto simp: sessions_ok_def store_simps)
next
  case (removed sid0 s0)
  then show ?thesis using that [of s'] assms(2,4,5) by (auto simp: removed_sessions sessions_ok_def store_simps split: if_splits)
qed

lemma link_edit_none_ready:
  assumes "link_edit tr tk st st'" "sessions_ok st" "\<forall>t. tk = Some t \<longrightarrow> renewal_ok st t \<and> open_ok st t \<and> open_key t \<noteq> Some key" "none_ready st key"
  shows "none_ready st' key"
  unfolding none_ready_def
proof (intro allI impI)
  fix sid s' assume s': "im_get (lk_sessions st') sid = Some s'" "ss_ready s'"
  have "\<forall>t. tk = Some t \<longrightarrow> renewal_ok st t" using assms(3) by blast
  then obtain s where s: "im_get (lk_sessions st) sid = Some s" "session_key s = session_key s'"
      "ss_ready s \<or> (\<exists>key ident marker. tk = Some (OpenInstalling key ident marker sid (ss_number s)))"
    using ready_origin [OF assms(1,2) _ s'] by metis
  have "session_key s \<noteq> key" using s(1,3) assms(3,4) by (auto simp: none_ready_def)
  then show "session_key s' \<noteq> key" by (simp add: s(2))
qed

text \<open>An entry of the identity index is changed only by the opening that owns its key, or with the session it names.\<close>

lemma identity_kept:
  assumes "link_edit tr tk st st'" "im_wf (lk_identities st)" "im_get (lk_identities st) key = Some sid" "im_get (lk_sessions st') sid = Some s'"
    "\<forall>t. tk = Some t \<longrightarrow> open_key t \<noteq> Some key" "im_wf (lk_sessions st)"
  shows "im_get (lk_identities st') key = Some sid"
  using assms(1)
proof cases
  case (removed sid0 s0)
  then show ?thesis using assms(2-6)
    by (auto simp: remove_session_def current_session_def Let_def removed_sessions store_simps split: if_splits)
qed (use assms in \<open>auto simp: same_tables_def store_simps\<close>)

lemma identities_wf: "link_edit tr tk st st' \<Longrightarrow> im_wf (lk_identities st) \<Longrightarrow> im_wf (lk_identities st')"
  by (induction rule: link_edit.induct) (auto simp: same_tables_def remove_session_def Let_def store_simps split: option.splits)

lemma identity_kept_ready:
  assumes "link_edit tr tk st st'" "indexed st" "sessions_ok st" "im_get (lk_identities st) key = Some sid" "im_get (lk_sessions st') sid = Some s'"
    "tk = Some t" "open_key t = Some key" "\<not> clearing t"
  shows "im_get (lk_identities st') key = Some sid"
  using assms(1)
proof cases
  case (removed sid0 s0)
  then show ?thesis using assms(2-8)
    by (auto simp: indexed_def sessions_ok_def remove_session_def current_session_def Let_def removed_sessions store_simps split: if_splits)
qed (use assms in \<open>auto simp: same_tables_def\<close>)

lemma link_edit_indexed:
  assumes "link_edit tr tk st st'" "sessions_ok st" "\<forall>t. tk = Some t \<longrightarrow> renewal_ok st t \<and> open_ok st t" "indexed st"
  shows "indexed st'"
proof -
  have wf: "im_wf (lk_sessions st)" "im_wf (lk_identities st)" using assms(2,4) by (simp_all add: sessions_ok_def indexed_def)
  have "im_get (lk_identities st') (session_key s') = Some sid" if s': "im_get (lk_sessions st') sid = Some s'" "ss_ready s'" for sid s'
  proof -
    have "\<forall>t. tk = Some t \<longrightarrow> renewal_ok st t" using assms(3) by blast
    then obtain s where s: "im_get (lk_sessions st) sid = Some s" "session_key s = session_key s'"
        "ss_ready s \<or> (\<exists>key ident marker. tk = Some (OpenInstalling key ident marker sid (ss_number s)))"
      using ready_origin [OF assms(1,2) _ s'] by metis
    have "im_get (lk_identities st) (session_key s) = Some sid" using s(1,3) assms(3,4) by (auto simp: indexed_def)
    then have old: "im_get (lk_identities st) (session_key s') = Some sid" by (simp add: s(2))
    show ?thesis
    proof (cases "\<exists>t. tk = Some t \<and> open_key t = Some (session_key s')")
      case False
      then show ?thesis using identity_kept [OF assms(1) wf(2) old s'(1) _ wf(1)] by blast
    next
      case True
      then obtain t where t: "tk = Some t" "open_key t = Some (session_key s')" by blast
      have "\<not> clearing t" using t s assms(3) by (cases t) (auto simp: none_ready_def)
      then show ?thesis using identity_kept_ready [OF assms(1,4,2) old s'(1) t] by blast
    qed
  qed
  then show ?thesis using identities_wf [OF assms(1) wf(2)] by (auto simp: indexed_def)
qed

lemma session_kept:
  assumes "link_edit tr tk st st'" "sessions_ok st" "\<forall>t. tk = Some t \<longrightarrow> renewal_ok st t" "im_get (lk_sessions st') sid = Some s'"
    "ss_number s' < lk_number st"
  shows "\<exists>s. im_get (lk_sessions st) sid = Some s \<and> ss_number s = ss_number s' \<and> as_identity (ss_session s) = as_identity (ss_session s')"
  using assms(1)
proof cases
  case (edited sid0 s0 s0' k)
  have ok: "im_wf (lk_sessions st)" "session_ok (lk_number st) s0" using edited assms(2) by (auto simp: sessions_ok_def)
  then show ?thesis using edited assms(4) session_edit_keeps(1) [OF edited(3,2) ok(2) assms(3) [rule_format]]
    by (auto simp: store_simps split: if_splits)
qed (use assms in \<open>auto simp: same_tables_def sessions_ok_def removed_sessions store_simps split: if_splits\<close>)

lemma open_ok_stays:
  assumes edit: "link_edit tr tk st st'" and ok: "sessions_ok st" "indexed st"
    and tk: "\<forall>t. tk = Some t \<longrightarrow> renewal_ok st t \<and> open_ok st t" and u: "open_ok st u"
    and apart: "\<forall>t key. tk = Some t \<longrightarrow> open_key u = Some key \<longrightarrow> open_key t \<noteq> Some key"
  shows "open_ok st' u"
proof -
  have wf: "im_wf (lk_sessions st)" "im_wf (lk_identities st)" using ok by (simp_all add: sessions_ok_def indexed_def)
  have rn: "\<forall>t. tk = Some t \<longrightarrow> renewal_ok st t" using tk by blast
  note same = link_edit_opening [OF edit] link_edit_number [OF edit]
  have none: "none_ready st' key" if "none_ready st key" "open_key u = Some key" for key
    using link_edit_none_ready [OF edit ok(1) _ that(1)] tk apart that(2) by blast
  show ?thesis
  proof (cases u)
    case (OpenInstalling key ident marker sid n)
    have "as_identity (ss_session s') = ident \<and> im_get (lk_identities st') key = Some sid"
      if s': "im_get (lk_sessions st') sid = Some s'" "ss_number s' = n" for s'
    proof -
      obtain s where s: "im_get (lk_sessions st) sid = Some s" "ss_number s = n" "as_identity (ss_session s) = as_identity (ss_session s')"
        using session_kept [OF edit ok(1) rn s'(1)] u OpenInstalling s'(2) by auto
      then have "as_identity (ss_session s') = ident" "im_get (lk_identities st) key = Some sid" using u OpenInstalling by auto
      then show ?thesis using identity_kept [OF edit wf(2) _ s'(1) _ wf(1)] apart OpenInstalling by auto
    qed
    then show ?thesis using u same none OpenInstalling by auto
  qed (use u same none in auto)
qed

lemma task_open_ok:
  assumes run: "task_runs wd opts st t st' new" and ok: "sessions_ok st" "indexed st" "task_trimmed t" "open_ok st t"
  shows "list_all (open_ok st') new"
  using run
proof cases
  case (clears key ident marker rv rvs)
  then show ?thesis using ok(4) link_edit_none_ready [OF revoke_one_edit [of True None] ok(1)] by auto
next
  case (inserts key ident sid now s marker)
  note ins = open_insert_edit(2-5) [OF inserts(3,4)]
  have wf: "im_wf (lk_sessions st)" "im_wf (lk_identities st)" using ok by (simp_all add: sessions_ok_def indexed_def)
  then show ?thesis using inserts ok(3,4) ins by (auto simp: none_ready_def store_simps split: if_splits)
qed (use ok(4) in simp_all)

lemma open_ok_same:
  assumes "lk_sessions st' = lk_sessions st" "lk_number st' = lk_number st" "lk_identities st' = lk_identities st"
  shows "open_ok st' t = open_ok st t" "indexed st' = indexed st"
  using assms by (cases t; auto simp: none_ready_def) (simp add: indexed_def assms)

lemma slot_ok_same:
  "(\<And>key. open_key t = Some key \<Longrightarrow> im_get (lk_opening st') key = im_get (lk_opening st) key) \<Longrightarrow> slot_ok st' t = slot_ok st t"
  by (cases t) auto

lemma plain_open: "list_all ordinary new \<Longrightarrow>
  List.map_filter open_key new = [] \<and> list_all (open_ok st) new \<and> list_all (slot_ok st) new \<and> filter clearing new = []"
  by (induction new) (auto simp: map_filter_simps elim!: ordinary.elims)

lemma distinct_open_keys:
  assumes "distinct (List.map_filter open_key (xs @ t # ys))" "u \<in> set xs \<union> set ys" "open_key u = Some key"
  shows "open_key t \<noteq> Some key"
proof
  assume "open_key t = Some key"
  then have "key \<notin> set (List.map_filter open_key (xs @ ys))" using assms(1) by (auto simp: map_filter_append map_filter_simps)
  then show False using assms(2,3) by (auto simp: set_open_keys)
qed

subsection \<open>The slots of the openings\<close>

lemma task_slots:
  assumes "task_runs wd opts st t st' new" "slot_ok st t" "lk_opening st' = lk_opening st"
  shows "list_all (slot_ok st') new"
  using assms by cases auto

lemma slotted_call:
  assumes ok: "sessions_ok st" and inv: "slotted opts st ts" and call: "call_begins wd opts st st' new"
  shows "slotted opts st' (ts @ new)"
proof -
  have wf: "im_wf (lk_sessions st)" using ok by (simp add: sessions_ok_def)
  have inv': "im_wf (lk_opening st)" "distinct (List.map_filter open_key ts)" "list_all (slot_ok st) ts"
      "length (lk_sessions st) + length (filter clearing ts) \<le> op_max_sessions opts"
    using inv by (simp_all add: slotted_def)
  show ?thesis
  proof (rule call_edits [where tr = False, OF FalseE wf call])
    fix ow account client worker rv marker key ident
    assume dec: "open_decide opts ow account client worker rv marker st = (st', Inr (StartOpening key ident))"
      and new: "new = [OpenClearing key ident marker (generation_changed ident st')]"
    note d = open_decideD [OF dec]
    have apart: "open_key t \<noteq> Some key" if "t \<in> set ts" for t
      using that inv'(3) d(2) slot_ok_opening [of st t key] by (auto simp: list_all_iff)
    have same: "slot_ok st' t = slot_ok st t" if "t \<in> set ts" for t
      by (rule slot_ok_same) (use d(1) apart [OF that] inv'(1) in \<open>auto simp: store_simps\<close>)
    have "slot_ok st' (OpenClearing key ident marker (generation_changed ident st'))" using d(1) inv'(1) by (simp add: store_simps)
    moreover have "key \<notin> set (List.map_filter open_key ts)" using apart by (simp add: set_open_keys)
    moreover have "length (filter clearing ts) \<le> length (lk_opening st)" by (rule clearing_below_opening [OF inv])
    ultimately show ?thesis using inv' same d(1,3) new
      by (auto simp: slotted_def map_filter_append map_filter_simps list_all_iff store_simps)
  next
    fix sc assume "st' = fence sc st" "new = [RevokingScope sc None]"
    then show ?thesis using inv' slot_ok_same [of _ st' st]
      by (auto simp: slotted_def map_filter_append map_filter_simps list_all_iff)
  next
    assume edit: "link_edit False None st st'" and new: "list_all ordinary new"
    have "length (lk_sessions st') \<le> length (lk_sessions st)" using link_edit_count [OF edit] by simp
    then show ?thesis using inv' plain_open [OF new] link_edit_opening [OF edit] slot_ok_same [of _ st' st]
      by (auto simp: slotted_def map_filter_append list_all_iff)
  qed simp
qed

lemma slotted_task:
  assumes ok: "sessions_ok st" and inv: "slotted opts st (xs @ t # ys)" and run: "task_runs wd opts st t st' new"
  shows "slotted opts st' (xs @ new @ ys)"
proof -
  have inv': "im_wf (lk_opening st)" "distinct (List.map_filter open_key (xs @ t # ys))" "list_all (slot_ok st) (xs @ ys)" "slot_ok st t"
      "length (lk_sessions st) + length (filter clearing (xs @ t # ys)) \<le> op_max_sessions opts"
    using inv by (simp_all add: slotted_def)
  have keys: "distinct (List.map_filter open_key (xs @ new @ ys))"
    using inv'(2) task_open_keys [OF run] by (auto simp: map_filter_append map_filter_simps split: option.splits)
  show ?thesis
  proof (cases "\<exists>key ident marker. t = OpenEnding key ident marker")
    case True
    then obtain key ident marker where t: "t = OpenEnding key ident marker" by blast
    then have st': "st' = open_end key marker st" "new = []" using run by (auto elim: task_runs.cases)
    have "slot_ok st' u = slot_ok st u" if "u \<in> set (xs @ ys)" for u
      by (rule slot_ok_same) (use distinct_open_keys [OF inv'(2)] that st' t inv'(1) in \<open>auto simp: open_end_def store_simps\<close>)
    moreover have "im_wf (lk_opening st')" "length (lk_sessions st') = length (lk_sessions st)"
      using st' inv'(1) by (simp_all add: open_end_def store_simps)
    ultimately show ?thesis using inv' keys st' t by (auto simp: slotted_def list_all_iff)
  next
    case False
    have same: "lk_opening st' = lk_opening st \<and>
        length (lk_sessions st') \<le> length (lk_sessions st) + (case t of OpenClearing _ _ _ [] \<Rightarrow> 1 | _ \<Rightarrow> 0)"
      by (rule task_edits [where tr = False, OF sessions_trimmed [OF ok] FalseE run])
        (use False link_edit_opening link_edit_count [of False "Some t" st st'] in auto)
    then have "list_all (slot_ok st') (xs @ ys)" using inv'(3) slot_ok_same [of _ st' st] by (auto simp: list_all_iff)
    moreover have "list_all (slot_ok st') new" using task_slots [OF run inv'(4)] same by simp
    moreover have "length (lk_sessions st') + length (filter clearing (xs @ new @ ys)) \<le> op_max_sessions opts"
      using inv'(5) same task_clearing [OF run] by (cases "clearing t") simp_all
    ultimately show ?thesis using inv' keys same by (simp add: slotted_def)
  qed
qed

interpretation slots: link_invariant wd opts "slotted opts" for wd opts
proof unfold_locales
  show "slotted opts links_new []" by (simp add: slotted_def links_new_def map_filter_simps)
next
  fix st ts st' new
  assume "links_reach wd opts st ts" "slotted opts st ts" "call_begins wd opts st st' new"
  then show "slotted opts st' (ts @ new)" using custodyD slotted_call by blast
next
  fix st xs t ys st' new
  assume "links_reach wd opts st (xs @ t # ys)" "slotted opts st (xs @ t # ys)" "task_runs wd opts st t st' new"
  then show "slotted opts st' (xs @ new @ ys)" using custodyD slotted_task by blast
qed

subsection \<open>The sessions of the openings\<close>

lemma openings_call:
  assumes trim: "callers_trim wd opts" and ok: "sessions_ok st" and inv: "openings st ts" and call: "call_begins wd opts st st' new"
  shows "openings st' (ts @ new)"
proof -
  have wf: "im_wf (lk_sessions st)" using ok by (simp add: sessions_ok_def)
  have inv': "list_all (open_ok st) ts" "indexed st" using inv by (simp_all add: openings_def)
  show ?thesis
  proof (rule call_edits [where tr = True, OF trim wf call])
    fix ow account client worker rv marker key ident
    assume dec: "open_decide opts ow account client worker rv marker st = (st', Inr (StartOpening key ident))"
      and new: "new = [OpenClearing key ident marker (generation_changed ident st')]"
    note d = open_decideD [OF dec]
    have "session_key s \<noteq> key" if "im_get (lk_sessions st) sid = Some s" "ss_ready s" for sid s
      using that inv'(2) d(7) [of sid s] by (auto simp: indexed_def)
    then have "none_ready st key" by (simp add: none_ready_def)
    then show ?thesis using inv' open_ok_same [of st' st] d(1,4) new by (simp add: openings_def list_all_iff)
  next
    fix sc assume "st' = fence sc st" "new = [RevokingScope sc None]"
    then show ?thesis using inv' open_ok_same [of st' st] by (simp add: openings_def list_all_iff)
  next
    assume edit: "link_edit True None st st'" and new: "list_all ordinary new"
    have "list_all (open_ok st') ts" using inv'(1) open_ok_stays [OF edit ok inv'(2)] by (auto simp: list_all_iff)
    then show ?thesis using plain_open [OF new] link_edit_indexed [OF edit ok _ inv'(2)] by (simp add: openings_def)
  qed
qed

lemma openings_task:
  assumes ok: "sessions_ok st" "renewal_ok st t" "task_trimmed t" and keys: "distinct (List.map_filter open_key (xs @ t # ys))"
    and inv: "openings st (xs @ t # ys)" and run: "task_runs wd opts st t st' new"
  shows "openings st' (xs @ new @ ys)"
proof -
  have inv': "list_all (open_ok st) (xs @ ys)" "open_ok st t" "indexed st" using inv by (simp_all add: openings_def)
  have others: "u \<in> set (xs @ ys) \<Longrightarrow> open_key u = Some key \<Longrightarrow> open_key t \<noteq> Some key" for u key
    using distinct_open_keys [OF keys] by simp
  have "list_all (open_ok st') (xs @ ys) \<and> indexed st'"
  proof (rule task_edits [where tr = True, OF sessions_trimmed [OF ok(1)] ok(3) run])
    assume edit: "link_edit True (Some t) st st'"
    have tk: "\<forall>u. Some t = Some u \<longrightarrow> renewal_ok st u \<and> open_ok st u" using ok(2) inv'(2) by simp
    show ?thesis using inv'(1) open_ok_stays [OF edit ok(1) inv'(3) tk] others link_edit_indexed [OF edit ok(1) tk inv'(3)]
      by (auto simp: list_all_iff)
  qed (use inv' open_ok_same [of st' st] in \<open>auto simp: list_all_iff\<close>)
  then show ?thesis using task_open_ok [OF run ok(1) inv'(3) ok(3) inv'(2)] by (simp add: openings_def)
qed

interpretation owned: link_invariant wd opts "\<lambda>st ts. callers_trim wd opts \<longrightarrow> openings st ts" for wd opts
proof unfold_locales
  show "callers_trim wd opts \<longrightarrow> openings links_new []" by (simp add: openings_def links_new_def indexed_def)
next
  fix st ts st' new
  assume "links_reach wd opts st ts" "callers_trim wd opts \<longrightarrow> openings st ts" "call_begins wd opts st st' new"
  then show "callers_trim wd opts \<longrightarrow> openings st' (ts @ new)" using custodyD [of wd opts st ts] openings_call by blast
next
  fix st xs t ys st' new
  assume reach: "links_reach wd opts st (xs @ t # ys)" and inv: "callers_trim wd opts \<longrightarrow> openings st (xs @ t # ys)"
    and run: "task_runs wd opts st t st' new"
  have "distinct (List.map_filter open_key (xs @ t # ys))" using slots.always [OF reach] by (simp add: slotted_def)
  then show "callers_trim wd opts \<longrightarrow> openings st' (xs @ new @ ys)"
    using custodyD [OF reach] namedD [OF _ reach, of t] inv run openings_task [of st t xs ys wd opts st' new] by auto
qed

end
