(* ===== verification/LinkGuarantees.thy ===== *)
theory LinkGuarantees
  imports LinkFences
begin

text \<open>
  The properties of the worker-link authority, over every interleaving of its calls, and a run on which they are tried: a session is
  opened, given a grant and a peer with a signal in its mailbox, and then its owner is revoked.
\<close>

section \<open>Keys\<close>

lemma decimal_no_colon: "CHR '':'' \<notin> set (decimal n)"
proof
  assume "CHR '':'' \<in> set (decimal n)"
  then obtain d where d: "d \<in> set (decimal_digits n)" "CHR '':'' = char_of d" by (auto simp: decimal_def)
  then have "48 \<le> d \<and> d \<le> 57" using decimal_digits_digit by (simp add: is_digit_def)
  moreover have "(58 :: nat) = d mod 256" using arg_cong [OF d(2), of "of_char :: char \<Rightarrow> nat"] by simp
  ultimately show False by simp
qed

lemma decimal_inj: "decimal n = decimal m \<longleftrightarrow> n = m"
proof
  have digits: "map of_char (decimal k) = decimal_digits k" for k
  proof -
    have "d mod 256 = d" if "d \<in> set (decimal_digits k)" for d
      using decimal_digits_digit [OF that] by (simp add: is_digit_def)
    then show ?thesis by (simp add: decimal_def comp_def map_idI)
  qed
  assume "decimal n = decimal m"
  then show "n = m" by (metis digits decimal_digits_value)
qed simp

lemma split_at_colon:
  assumes "a @ CHR '':'' # xs = b @ CHR '':'' # ys" "CHR '':'' \<notin> set a" "CHR '':'' \<notin> set b"
  shows "a = b \<and> xs = ys"
proof -
  have "takeWhile (\<lambda>c. c \<noteq> CHR '':'') (u @ CHR '':'' # v) = u" if "CHR '':'' \<notin> set u" for u v :: string
    using that by (induction u) auto
  then show ?thesis using assms by (metis same_append_eq list.inject)
qed

lemma link_key_inj: "length ps = length qs \<Longrightarrow> link_key ps = link_key qs \<longleftrightarrow> ps = qs"
proof (induction ps qs rule: list_induct2)
  case (Cons p ps q qs)
  show ?case
  proof
    assume "link_key (p # ps) = link_key (q # qs)"
    then have "decimal (length p) @ CHR '':'' # p @ link_key ps = decimal (length q) @ CHR '':'' # q @ link_key qs"
      by (simp add: link_key_def)
    then have "decimal (length p) = decimal (length q)" "p @ link_key ps = q @ link_key qs"
      using split_at_colon decimal_no_colon by blast+
    then have "p = q" "link_key ps = link_key qs" by (simp_all add: decimal_inj)
    then show "p # ps = q # qs" using Cons.IH by simp
  qed simp
qed simp

section \<open>A run\<close>

definition sample_world :: link_world where
  "sample_world = \<lparr>lw_caller_id = (\<lambda>i. js_trim i = i), lw_mailbox = (\<lambda>_. True), lw_mailbox_bytes = (\<lambda>_ _. 0)\<rparr>"

definition sample_peering :: peer_configuration where
  "sample_peering = \<lparr>pc_relay_only = False, pc_local = True, pc_lan = True, pc_wan = False, pc_per_client = 4, pc_per_worker = 16\<rparr>"

definition sample_options :: link_options where
  "sample_options = \<lparr>op_server = ''srv'', op_generation = ''g1'', op_peer = Some sample_peering, op_session_lease = 120000,
     op_session_lifetime = 43200000, op_max_sessions = 1024\<rparr>"

definition sample_identity :: link_identity where
  "sample_identity = \<lparr>li_server = ''srv'', li_generation = ''g1'', li_owner = ''ann'', li_account = ''acc'', li_client = ''cli'',
     li_worker = ''wrk'', li_process = ''pid''\<rparr>"

definition sample_grant_input :: grant_input where
  "sample_grant_input = \<lparr>gi_kind = ''terminal'', gi_resource = ''t1'', gi_attachment = None, gi_lanes = [''interactive''], gi_operations = [''stream:read''],
     gi_max_channels = None, gi_lease_ms = None, gi_expiry = NoExpiry, gi_observation = None\<rparr>"

definition sample_signal :: envelope where
  "sample_signal = \<lparr>en_peer = ''p1'', en_session = ''s1'', en_generation = 1, en_route = RouteLan, en_from_client = False, en_sequence = 0, en_body = ''x''\<rparr>"

definition sample_authority :: authority_session where
  "sample_authority = \<lparr>as_id = ''s1'', as_identity = sample_identity, as_lease = \<lparr>issued_at = 0, expires_at = 120000, absolute_at = 43200000\<rparr>,
     as_enabled = [RouteLocal, RouteLan, RouteRelay], as_route_generation = 1, as_preferred = RouteLocal\<rparr>"

definition sample_grant :: installed_grant where
  "sample_grant = \<lparr>ig_number = 1, ig_id = ''gr'', ig_kind = ''terminal'', ig_resource = ''t1'', ig_attachment = None, ig_lanes = [''interactive''],
     ig_operations = [''stream:read''], ig_channels = 4, ig_lease = \<lparr>issued_at = 1000, expires_at = 61000, absolute_at = 43200000\<rparr>,
     ig_token_hash = ''h'', ig_observation = None\<rparr>"

definition sample_peer :: "bool \<Rightarrow> envelope list \<Rightarrow> peer_session" where
  "sample_peer ready signals = \<lparr>pr_number = 2, pr_ready = ready, pr_id = ''p1'', pr_route_generation = 1, pr_route = RouteLan,
     pr_lease = \<lparr>issued_at = 2000, expires_at = 120000, absolute_at = 43200000\<rparr>, pr_signals = signals, pr_advertisements = [],
     pr_last_client = -1, pr_last_worker = int (length signals) - 1, pr_last_advertisement = -1\<rparr>"

definition sample_session :: "bool \<Rightarrow> (string, installed_grant) index_map \<Rightarrow> (string, peer_session) index_map \<Rightarrow> session_state" where
  "sample_session ready grants peers = \<lparr>ss_number = 0, ss_ready = ready, ss_session = sample_authority, ss_grants = grants, ss_peers = peers\<rparr>"

definition sample_state :: "session_state \<Rightarrow> nat \<Rightarrow> links" where
  "sample_state s n = links_new\<lparr>lk_sessions := [(''s1'', s)], lk_identities := [(identity_key sample_identity, ''s1'')], lk_workers := [''wrk''], lk_number := n\<rparr>"

abbreviation sample_slot :: "(string, nat) index_map" where
  "sample_slot \<equiv> [(identity_key sample_identity, 1)]"

abbreviation sample_round :: "(string, nat) index_map" where
  "sample_round \<equiv> [(peer_round ''s1'' 1 RouteLan, 2)]"

definition sample_links :: links where
  "sample_links = sample_state (sample_session True [(''gr'', sample_grant)] [(''p1'', sample_peer True [sample_signal])]) 3"

definition sample_revoked :: links where
  "sample_revoked = links_new\<lparr>lk_owner_fences := [(''ann'', 1)], lk_number := 3\<rparr>"

lemmas sample_data = sample_world_def sample_peering_def sample_options_def sample_identity_def sample_grant_input_def sample_signal_def
  sample_authority_def sample_grant_def sample_peer_def sample_session_def sample_state_def links_new_def

lemmas link_eval = sample_data put_link_def im_get_def im_insert_def im_remove_def identity_authorized_def current_session_def
  ready_state_def make_lease_def iso_ok_def lease_contract_def wire_date_def lease_valid_def generation_contract_def Let_def

lemmas id_eval = id_contract_def js_trim_def js_space_def whitespace_def id_char_def Let_def

lemma sample_ids:
  "id_contract ''srv'' = Some ''srv''" "id_contract ''g1'' = Some ''g1''" "id_contract ''ann'' = Some ''ann''" "id_contract ''acc'' = Some ''acc''"
  "id_contract ''cli'' = Some ''cli''" "id_contract ''wrk'' = Some ''wrk''" "id_contract ''pid'' = Some ''pid''" "id_contract ''t1'' = Some ''t1''"
  by (simp_all add: id_eval)

lemma id_contractD: "id_contract s = Some t \<Longrightarrow> js_trim s = t"
  by (auto simp: id_contract_def Let_def split: if_splits)

lemmas sample_trims = sample_ids [THEN id_contractD]

lemmas contract_eval = check_session_def identity_contract_def identity_parts_def trim_identity_def resolve_contract_def check_grant_def
  trim_grant_def unique_of_def grant_kinds_def grant_lanes_def grant_operations_def observation_contract_def check_peer_def sample_ids sample_trims

lemma sample_caller_ids: "lw_caller_id sample_world ''acc''" "lw_caller_id sample_world ''cli''" "lw_caller_id sample_world (gi_resource sample_grant_input)"
  by (simp_all add: sample_world_def sample_grant_input_def sample_trims)

lemma sample_callers: "callers_trim sample_world sample_options"
  by (simp add: callers_trim_def sample_world_def sample_options_def sample_trims)

text \<open>Each section of the run, evaluated.\<close>

lemma sample_open:
  "open_decide sample_options ''ann'' ''acc'' ''cli'' ''wrk'' \<lparr>rv_server = ''srv'', rv_owner = ''ann'', rv_worker = ''wrk'', rv_process = ''pid''\<rparr> 1 links_new =
     (links_new\<lparr>lk_opening := sample_slot\<rparr>, Inr (StartOpening (identity_key sample_identity) sample_identity))"
  "generation_changed sample_identity (links_new\<lparr>lk_opening := sample_slot\<rparr>) = []"
  "open_insert sample_options (identity_key sample_identity) sample_identity ''s1'' 0 (links_new\<lparr>lk_opening := sample_slot\<rparr>) =
     ((sample_state (sample_session False [] []) 1)\<lparr>lk_opening := sample_slot\<rparr>, Inr sample_authority)"
  "fst (open_accept ''s1'' 0 sample_identity ((sample_state (sample_session False [] []) 1)\<lparr>lk_opening := sample_slot\<rparr>)) =
     (sample_state (sample_session True [] []) 1)\<lparr>lk_opening := sample_slot\<rparr>"
  "open_end (identity_key sample_identity) 1 ((sample_state (sample_session True [] []) 1)\<lparr>lk_opening := sample_slot\<rparr>) = sample_state (sample_session True [] []) 1"
  by (simp_all add: link_eval open_decide_def open_start_def generation_changed_def sessions_where_def open_insert_def open_begin_def
      register_worker_def new_session_def contract_eval enabled_routes_def open_accept_def open_end_def)

lemma sample_granted:
  "prepare_grant ''s1'' sample_grant_input 1000 ''gr'' ''h'' (sample_state (sample_session True [] []) 1) =
     (sample_state (sample_session True [(''gr'', sample_grant)] []) 2, Inr (sample_session True [] [], sample_grant))"
  by (simp add: link_eval prepare_grant_def grant_lease_def contract_eval)

lemma sample_paired:
  "open_peer_decide sample_options ''s1'' RouteLan 1 2 (sample_state (sample_session True [(''gr'', sample_grant)] []) 2) =
     ((sample_state (sample_session True [(''gr'', sample_grant)] []) 2)\<lparr>lk_opening_peers := sample_round\<rparr>,
      Inr (StartPeer (sample_session True [(''gr'', sample_grant)] []) sample_peering))"
  "prepare_peer sample_peering (sample_session True [(''gr'', sample_grant)] []) RouteLan 2000 ''p1''
      ((sample_state (sample_session True [(''gr'', sample_grant)] []) 2)\<lparr>lk_opening_peers := sample_round\<rparr>) =
     ((sample_state (sample_session True [(''gr'', sample_grant)] [(''p1'', sample_peer False [])]) 3)\<lparr>lk_opening_peers := sample_round\<rparr>,
      Inr (sample_peer False []))"
  "fst (install_peer_accept ''s1'' 0 (sample_peer False [])
      ((sample_state (sample_session True [(''gr'', sample_grant)] [(''p1'', sample_peer False [])]) 3)\<lparr>lk_opening_peers := sample_round\<rparr>)) =
     (sample_state (sample_session True [(''gr'', sample_grant)] [(''p1'', sample_peer True [])]) 3)\<lparr>lk_opening_peers := sample_round\<rparr>"
  "open_peer_end (peer_round ''s1'' 1 RouteLan) 2
      ((sample_state (sample_session True [(''gr'', sample_grant)] [(''p1'', sample_peer True [])]) 3)\<lparr>lk_opening_peers := sample_round\<rparr>) =
     sample_state (sample_session True [(''gr'', sample_grant)] [(''p1'', sample_peer True [])]) 3"
  "receive_notification sample_world ''wrk'' True sample_signal 3000 (sample_state (sample_session True [(''gr'', sample_grant)] [(''p1'', sample_peer True [])]) 3) = sample_links"
  by (simp_all add: link_eval open_peer_decide_def route_enabled_def prepare_peer_def worker_peers_def contract_eval install_peer_accept_def
      current_peer_def open_peer_end_def receive_notification_def peer_record_def accept_record_def sample_links_def)

lemma alone_begins: "links_reach wd opts st [] \<Longrightarrow> call_begins wd opts st st' new \<Longrightarrow> links_reach wd opts st' new"
  using links_reach.begins [of wd opts st "[]"] by simp

lemma alone_runs: "links_reach wd opts st [t] \<Longrightarrow> task_runs wd opts st t st' new \<Longrightarrow> links_reach wd opts st' new"
  using links_reach.runs [of wd opts st "[]" t "[]"] by simp

lemma sample_opened_reached: "links_reach sample_world sample_options (sample_state (sample_session True [] []) 1) []"
proof -
  let ?key = "identity_key sample_identity" and ?st = "links_new\<lparr>lk_opening := sample_slot\<rparr>"
  have "links_reach sample_world sample_options ?st [OpenClearing ?key sample_identity 1 []]"
    using alone_begins [OF links_reach.start call_begins.opens [OF sample_open(1)]] sample_caller_ids by (simp only: sample_open(2))
  then have "links_reach sample_world sample_options ((sample_state (sample_session False [] []) 1)\<lparr>lk_opening := sample_slot\<rparr>)
      [OpenInstalling ?key sample_identity 1 (as_id sample_authority) (lk_number ?st)]"
    by (rule alone_runs) (rule task_runs.inserts [OF sample_open(3)], simp add: links_new_def)
  then have "links_reach sample_world sample_options ((sample_state (sample_session False [] []) 1)\<lparr>lk_opening := sample_slot\<rparr>) [OpenInstalling ?key sample_identity 1 ''s1'' 0]"
    by (simp add: sample_authority_def links_new_def)
  from alone_runs [OF alone_runs [OF this task_runs.accepts] task_runs.ends_open] show ?thesis by (simp only: sample_open)
qed

lemma sample_granted_reached: "links_reach sample_world sample_options (sample_state (sample_session True [(''gr'', sample_grant)] []) 2) []"
  by (rule alone_runs [OF alone_begins [OF sample_opened_reached call_begins.grants [OF sample_granted sample_caller_ids(3)]] task_runs.issue_ends])

lemma sample_reached: "links_reach sample_world sample_options sample_links []"
proof -
  have "links_reach sample_world sample_options ((sample_state (sample_session True [(''gr'', sample_grant)] [(''p1'', sample_peer False [])]) 3)\<lparr>lk_opening_peers := sample_round\<rparr>)
      [InstallingPeer (as_id sample_authority) 0 (sample_peer False []) (peer_round ''s1'' 1 RouteLan) 2]"
    using alone_runs [OF alone_begins [OF sample_granted_reached call_begins.peers [OF sample_paired(1)]] task_runs.prepares_peer [OF sample_paired(2)]]
    by (simp add: sample_session_def)
  then have "links_reach sample_world sample_options ((sample_state (sample_session True [(''gr'', sample_grant)] [(''p1'', sample_peer False [])]) 3)\<lparr>lk_opening_peers := sample_round\<rparr>)
      [InstallingPeer ''s1'' 0 (sample_peer False []) (peer_round ''s1'' 1 RouteLan) 2]" by (simp add: sample_authority_def)
  from alone_runs [OF alone_runs [OF this task_runs.accepts_peer] task_runs.ends_peer]
  have "links_reach sample_world sample_options (sample_state (sample_session True [(''gr'', sample_grant)] [(''p1'', sample_peer True [])]) 3) []"
    by (simp only: sample_paired)
  from alone_begins [OF this call_begins.notified, of "''wrk''" True sample_signal 3000] show ?thesis by (simp only: sample_paired)
qed

lemma sample_revocation_reached: "links_reach sample_world sample_options sample_revoked [RevokingScope (OwnerScope ''ann'') (Some [])]"
proof -
  let ?sc = "OwnerScope ''ann''"
  have found: "scope_matches ?sc (fence ?sc sample_links) = [RevokeSession ''s1'']" "fst (revoke_one (RevokeSession ''s1'') (fence ?sc sample_links)) = sample_revoked"
    by (simp_all add: sample_links_def sample_revoked_def sessions_where_def revoke_link_def remove_session_def raise_fence_def link_eval)
  have "links_reach sample_world sample_options (fence ?sc sample_links) [RevokingScope ?sc (Some [RevokeSession ''s1''])]"
    using alone_runs [OF alone_begins [OF sample_reached call_begins.revokes] task_runs.scans, of ?sc] by (simp only: found)
  from alone_runs [OF this task_runs.revokes_next] show ?thesis by (simp only: found)
qed

abbreviation sample_held :: session_state where
  "sample_held \<equiv> sample_session True [(''gr'', sample_grant)] [(''p1'', sample_peer True [sample_signal])]"

lemma sample_found:
  "im_get (lk_sessions sample_links) ''s1'' = Some sample_held" "im_get (ss_grants sample_held) ''gr'' = Some sample_grant"
  "im_get (ss_peers sample_held) ''p1'' = Some (sample_peer True [sample_signal])" "ss_ready sample_held" "ss_session sample_held = sample_authority"
  by (simp_all add: sample_links_def sample_state_def sample_session_def im_get_def)

section \<open>Properties\<close>

text \<open>
  Keys. The index keys tell identities and resources apart: two sessions share a key of \<open>identities\<close> and \<open>opening\<close> exactly when
  the seven parts of their identities agree, and two resources share a fence exactly when owner, kind and resource agree, whatever
  characters the parts hold.
\<close>

lemma keys_identify:
  fixes i j :: link_identity
  shows "(identity_key i = identity_key j \<longleftrightarrow> i = j) \<and> (resource_key ow k r = resource_key ow' k' r' \<longleftrightarrow> ow = ow' \<and> k = k' \<and> r = r')"
  by (cases i; cases j) (auto simp: identity_key_def identity_parts_def resource_key_def link_key_inj)

text \<open>
  Revocation (C16). When the revocation of an owner, an account session or a resource has revoked what it found, and before its
  fence is lifted, nothing of its scope is left in the tables and its fence stands, whatever other calls ran in the meantime. The
  callers pass trimmed ids: the source checks a fence on an id as it was passed and stores it trimmed (\<open>padded_grant_enters\<close>).
\<close>

theorem revocation_leaves_nothing:
  assumes "callers_trim wd opts" "links_reach wd opts st ts" "RevokingScope sc (Some []) \<in> set ts"
  shows "scope_matches sc st = [] \<and> fence_at st (scope_key sc) \<noteq> None"
proof -
  have "listed st (RevokingScope sc (Some []))" using scans.always [OF assms(2)] assms(1,3) unfolding list_all_iff by blast
  then show ?thesis using scope_fenced [OF fences.always [OF assms(2)] assms(3)] by simp
qed

theorem revocation_leaves_nothing_witness:
  "scope_matches (OwnerScope ''ann'') sample_revoked = [] \<and> fence_at sample_revoked (OwnerKey ''ann'') \<noteq> None"
  using revocation_leaves_nothing [OF sample_callers sample_revocation_reached, of "OwnerScope ''ann''"] by simp


text \<open>
  Fences (C20). A fence counts the revocations of its scope that are running: it stands from the first to the end of the last, and
  none is left behind.
\<close>

theorem fences_count_revocations:
  assumes "links_reach wd opts st ts"
  shows "fence_at st k = counted (length (filter (revoking k) ts))"
  using fences.always [OF assms] by (simp add: fences_match_def)

theorem fences_count_revocations_witness: "fence_at sample_revoked (OwnerKey ''ann'') = Some 1 \<and> fence_at sample_links (OwnerKey ''ann'') = None"
  using fences_count_revocations [OF sample_revocation_reached, of "OwnerKey ''ann''"]
    fences_count_revocations [OF sample_reached, of "OwnerKey ''ann''"] by (simp add: counted_def)


text \<open>
  Leases (C18). No capability outlives its session: the lease of a session, a grant and a peer ends after it was issued, and a grant
  or peer expires no later than the absolute limit of its session.
\<close>

theorem leases_nest:
  assumes "links_reach wd opts st ts" "im_get (lk_sessions st) sid = Some s"
  shows "lease_valid (as_lease (ss_session s)) \<and>
    (im_get (ss_grants s) gid = Some g \<longrightarrow> lease_valid (ig_lease g) \<and> expires_at (ig_lease g) \<le> absolute_at (as_lease (ss_session s))) \<and>
    (im_get (ss_peers s) pid = Some p \<longrightarrow> lease_valid (pr_lease p) \<and> expires_at (pr_lease p) \<le> absolute_at (as_lease (ss_session s)))"
proof -
  have "session_ok (lk_number st) s" using custodyD [OF assms(1)] assms(2) by (auto simp: sessions_ok_def)
  then show ?thesis by (force simp: session_ok_def grant_ok_def peer_ok_def lease_valid_def)
qed

theorem leases_nest_witness:
  "lease_valid (as_lease sample_authority) \<and> expires_at (ig_lease sample_grant) \<le> absolute_at (as_lease sample_authority) \<and>
   expires_at (pr_lease (sample_peer True [sample_signal])) \<le> absolute_at (as_lease sample_authority)"
  using leases_nest [OF sample_reached, of "''s1''" sample_held "''gr''" sample_grant "''p1''" "sample_peer True [sample_signal]"] sample_found by simp


text \<open>
  Limits (C19). The authority holds at most \<open>max_active_sessions\<close> sessions, a session at most 128 grants and the peers allowed for a
  client, a worker has at most the peers allowed for it, and a mailbox at most 256 signals and advertisements.
\<close>

theorem link_tables_bounded:
  assumes "links_reach wd opts st ts"
  shows "length (lk_sessions st) \<le> op_max_sessions opts \<and>
    (im_get (lk_sessions st) sid = Some s \<longrightarrow> length (ss_grants s) \<le> 128 \<and>
       (im_get (ss_peers s) pid = Some p \<longrightarrow> length (pr_signals p) \<le> 256 \<and> length (pr_advertisements p) \<le> 256)) \<and>
    (op_peer opts = Some config \<longrightarrow> worker_peers worker st \<le> pc_per_worker config \<and>
       (im_get (lk_sessions st) sid = Some s \<longrightarrow> length (ss_peers s) \<le> pc_per_client config))"
proof (intro conjI)
  show "length (lk_sessions st) \<le> op_max_sessions opts"
    using slots.always [OF assms] by (simp add: slotted_def)
  show "im_get (lk_sessions st) sid = Some s \<longrightarrow> length (ss_grants s) \<le> 128 \<and>
       (im_get (ss_peers s) pid = Some p \<longrightarrow> length (pr_signals p) \<le> 256 \<and> length (pr_advertisements p) \<le> 256)"
    using custodyD [OF assms] by (auto simp: sessions_ok_def session_ok_def peer_ok_def mailbox_ok_def)
  show "op_peer opts = Some config \<longrightarrow> worker_peers worker st \<le> pc_per_worker config \<and>
       (im_get (lk_sessions st) sid = Some s \<longrightarrow> length (ss_peers s) \<le> pc_per_client config)"
    using limits.always [OF assms] by (simp add: limited_def within_limits_def)
qed

theorem link_tables_bounded_witness:
  "length (lk_sessions sample_links) \<le> 1024 \<and> length (ss_grants sample_held) \<le> 128 \<and> length (ss_peers sample_held) \<le> 4 \<and>
   worker_peers ''wrk'' sample_links \<le> 16"
  using link_tables_bounded [OF sample_reached, of "''s1''" sample_held _ _ sample_peering "''wrk''"] sample_found
  by (simp add: sample_options_def sample_peering_def)


text \<open>
  Mailboxes. The worker's signals (and advertisements) a peer keeps are consecutive and end with the last one accepted: what
  a client has not acknowledged is there without a gap, without a duplicate and in order.
\<close>

lemma mailbox_consecutive:
  assumes "links_reach wd opts st ts" "im_get (lk_sessions st) sid = Some s" "im_get (ss_peers s) pid = Some p"
  shows "map (\<lambda>e. int (en_sequence e)) (pr_signals p) = [pr_last_worker p - int (length (pr_signals p)) + 1 .. pr_last_worker p] \<and>
    map (\<lambda>e. int (en_sequence e)) (pr_advertisements p) =
      [pr_last_advertisement p - int (length (pr_advertisements p)) + 1 .. pr_last_advertisement p]"
proof -
  have "mailbox_ok p" using custodyD [OF assms(1)] assms(2,3) by (auto simp: sessions_ok_def session_ok_def peer_ok_def)
  then show ?thesis by (simp add: mailbox_ok_def consecutive_def)
qed

text \<open>
  Identity (C17). A client instance and a worker process have at most one ready session under an account, and the identity index
  finds it, however many openings ran at the same time. The callers pass trimmed ids: the index has the identity as it was passed,
  the session the trimmed one.
\<close>

theorem one_ready_session:
  assumes "callers_trim wd opts" "links_reach wd opts st ts" "im_get (lk_sessions st) sid = Some s" "im_get (lk_sessions st) sid' = Some s'"
    "ss_ready s" "ss_ready s'" "as_identity (ss_session s) = as_identity (ss_session s')"
  shows "sid = sid' \<and> im_get (lk_identities st) (identity_key (as_identity (ss_session s))) = Some sid"
proof -
  have "indexed st" using owned.always [OF assms(2)] assms(1) by (simp add: openings_def)
  then have "im_get (lk_identities st) (identity_key (as_identity (ss_session s))) = Some sid"
      "im_get (lk_identities st) (identity_key (as_identity (ss_session s'))) = Some sid'"
    using assms(3-6) unfolding indexed_def by blast+
  then show ?thesis using assms(7) by simp
qed

theorem one_ready_session_witness: "im_get (lk_identities sample_links) (identity_key sample_identity) = Some ''s1''"
  using one_ready_session [OF sample_callers sample_reached, of "''s1''" sample_held "''s1''" sample_held] sample_found
  by (simp add: sample_session_def sample_authority_def)

text \<open>
  Subscriptions. The coordinator is subscribed to the worker of every session it holds, so that the disconnection of the worker
  revokes it.
\<close>

lemma sessions_watched:
  assumes "links_reach wd opts st ts" "im_get (lk_sessions st) sid = Some s"
  shows "worker_of_session s \<in> set (lk_workers st) \<and> RevokeSession sid \<in> set (worker_revocations (worker_of_session s) None st)"
proof -
  have "workers_watched st" "im_wf (lk_sessions st)"
    using watch.always [OF assms(1)] custodyD [OF assms(1)] by (simp_all add: watching_def sessions_ok_def)
  then show ?thesis using assms(2) by (force simp: workers_watched_def worker_revocations_def sessions_where_def im_get_eq_Some)
qed

text \<open>
  A caller that pads an id gets past the fence: while the revocation of the resource \<open>t1\<close> stands, a grant for \<open>\<open> t1\<close>\<close> is let in, since
  its fence is looked up as it was passed, and is stored as a grant of \<open>t1\<close>.
\<close>

lemma padded_grant_enters:
  "let sc = ResourceScope ''ann'' ''terminal'' ''t1'' None; st = fence sc (sample_state (sample_session True [] []) 1)
   in scope_matches sc st = [] \<and> fence_at st (scope_key sc) = Some 1 \<and>
      scope_matches sc (fst (prepare_grant ''s1'' (sample_grant_input\<lparr>gi_resource := '' t1''\<rparr>) 1000 ''gr'' ''h'' st)) = [RevokeGrant ''s1'' ''gr'']"
proof -
  have "id_contract '' t1'' = Some ''t1''" by (simp add: id_eval)
  note padded = this id_contractD [OF this]
  have "resource_key ''ann'' ''terminal'' '' t1'' \<noteq> resource_key ''ann'' ''terminal'' ''t1''" by (simp add: resource_key_def link_key_inj)
  then show ?thesis
    by (simp add: link_eval contract_eval padded prepare_grant_def grant_lease_def raise_fence_def grant_matches_def)
qed

end
