(* ===== verification/Tunnels.thy ===== *)
theory Tunnels
  imports Prelude
begin

text \<open>
  The attachments of tunnels and their direct leases (\<^verbatim>\<open>cantrip_server_rs/src/tunnels/\<close>: \<^verbatim>\<open>mod.rs\<close>, \<^verbatim>\<open>attachments.rs\<close>,
  \<^verbatim>\<open>leases.rs\<close>, \<^verbatim>\<open>recovery.rs\<close>, the identity pin of \<^verbatim>\<open>os.rs\<close> and the deletions of \<^verbatim>\<open>management.rs\<close> and \<^verbatim>\<open>managed.rs\<close>). A table is
  the list of its rows, with the columns these files read or write; a column that may be \<open>NULL\<close> is an \<open>option\<close>. A transaction locks
  the row of the tunnel, so it is one step; one that fails leaves the tables as they were. \<open>lock_attachment\<close> reads the attachment
  before it waits for that lock: where the source goes on with this earlier row, the row is an argument. Times are milliseconds.
  A new attachment's id is drawn by the server and is an argument too.
\<close>

section \<open>Rows\<close>

datatype tunnel_status = TunnelStopped | TunnelStarting | TunnelActive | TunnelOffline | TunnelDegraded | TunnelStopping | TunnelFailed

record tunnel_row =
  tn_id :: string
  tn_owner :: string
  tn_project :: "string option"
  tn_origin :: string
  tn_management :: string
  tn_source :: string
  tn_source_worker :: "string option"
  tn_destination :: string
  tn_adapter :: "string option"
  tn_resource :: "string option"
  tn_destination_worker :: "string option"
  tn_os_source :: "string option"
  tn_revision :: int
  tn_operation :: "string option"
  tn_content :: bool
  tn_managed_by :: "(string \<times> string) option"
  tn_desired :: string
  tn_status :: tunnel_status
  tn_error :: "string option"
  tn_connections :: nat
  tn_updated :: int

record attachment_row =
  aw_id :: string
  aw_tunnel :: string
  aw_kind :: string
  aw_client :: "string option"
  aw_connections :: nat
  aw_expires :: "int option"
  aw_error :: "string option"
  aw_last_seen :: "int option"
  aw_secret_expires :: "int option"
  aw_secret_hash :: "string option"
  aw_status :: tunnel_status
  aw_identity :: "string option"
  aw_updated :: int

record direct_lease =
  dw_capability :: string
  dw_attachment :: string
  dw_active :: bool
  dw_expires :: int
  dw_finalized :: "int option"
  dw_updated :: int

record tunnel_tables =
  tb_tunnels :: "tunnel_row list"
  tb_attachments :: "attachment_row list"
  tb_leases :: "direct_lease list"

text \<open>A comparison with \<open>NULL\<close> does not hold.\<close>

definition later :: "int option \<Rightarrow> int \<Rightarrow> bool" where
  "later t now \<longleftrightarrow> (case t of None \<Rightarrow> False | Some x \<Rightarrow> x > now)"

definition ended_status :: "tunnel_status \<Rightarrow> bool" where
  "ended_status s \<longleftrightarrow> s = TunnelStopped \<or> s = TunnelFailed"

definition tunnel_error_kind :: string where
  "tunnel_error_kind = ''attachment-disconnected''"

definition lock_tunnel :: "string \<Rightarrow> string option \<Rightarrow> tunnel_tables \<Rightarrow> tunnel_row option" where
  "lock_tunnel tid owner tb = find (\<lambda>t. tn_id t = tid \<and> (owner = None \<or> owner = Some (tn_owner t))) (tb_tunnels tb)"

definition observe_attachment :: "string \<Rightarrow> string option \<Rightarrow> tunnel_tables \<Rightarrow> attachment_row option" where
  "observe_attachment aid client tb = find (\<lambda>a. aw_id a = aid \<and> (client = None \<or> aw_client a = client)) (tb_attachments tb)"

definition lock_attachment :: "string \<Rightarrow> string option \<Rightarrow> string option \<Rightarrow> tunnel_tables \<Rightarrow> (attachment_row \<times> tunnel_row) option" where
  "lock_attachment aid owner client tb =
     Option.bind (observe_attachment aid client tb) (\<lambda>a. map_option (Pair a) (lock_tunnel (aw_tunnel a) owner tb))"

section \<open>The status of a tunnel\<close>

definition direct_live :: "int \<Rightarrow> tunnel_tables \<Rightarrow> string \<Rightarrow> bool" where
  "direct_live now tb aid \<longleftrightarrow> (\<exists>l \<in> set (tb_leases tb). dw_attachment l = aid \<and> dw_active l \<and> dw_expires l > now)"

definition effective_status :: "int \<Rightarrow> tunnel_tables \<Rightarrow> attachment_row \<Rightarrow> tunnel_status" where
  "effective_status now tb a =
     (if ended_status (aw_status a) then aw_status a
      else if aw_last_seen a \<noteq> None \<or> direct_live now tb (aw_id a) then TunnelActive
      else if aw_status a \<in> {TunnelStarting, TunnelDegraded, TunnelStopping} then aw_status a
      else TunnelOffline)"

definition effective_error :: "tunnel_status \<Rightarrow> string option \<Rightarrow> string option" where
  "effective_error s e = (if s = TunnelActive \<or> s = TunnelStarting then None else Some (case e of Some m \<Rightarrow> m | None \<Rightarrow> tunnel_error_kind))"

definition refresh_attachment :: "int \<Rightarrow> tunnel_tables \<Rightarrow> attachment_row \<Rightarrow> attachment_row" where
  "refresh_attachment now tb a =
     (let s = effective_status now tb a; e = effective_error s (aw_error a)
      in if ended_status (aw_status a) \<or> (aw_status a = s \<and> aw_error a = e) then a
         else a\<lparr>aw_error := e, aw_status := s, aw_updated := now\<rparr>)"

definition tunnel_error :: "tunnel_status \<Rightarrow> (attachment_row \<times> tunnel_status) list \<Rightarrow> string option" where
  "tunnel_error s rows =
     (if s = TunnelActive \<or> s = TunnelStarting then None
      else Some (case find (\<lambda>(a, v). v = s \<and> aw_error a \<noteq> None \<and> aw_error a \<noteq> Some []) rows of
          Some (a, _) \<Rightarrow> the (aw_error a) | None \<Rightarrow> tunnel_error_kind))"

definition recompute :: "string \<Rightarrow> int \<Rightarrow> tunnel_tables \<Rightarrow> tunnel_tables" where
  "recompute tid now tb =
     (let rows = filter (\<lambda>a. aw_tunnel a = tid) (tb_attachments tb);
          effective = map (effective_status now tb) rows;
          tb' = tb\<lparr>tb_attachments := update_rows (\<lambda>a. aw_tunnel a = tid) (refresh_attachment now tb) (tb_attachments tb)\<rparr>
      in if rows = [] then tb
         else case find (\<lambda>s. s \<in> set effective) [TunnelActive, TunnelDegraded, TunnelStarting, TunnelStopping, TunnelOffline] of
           None \<Rightarrow> tb'
         | Some s \<Rightarrow> tb'\<lparr>tb_tunnels := update_rows (\<lambda>t. tn_id t = tid)
             (\<lambda>t. t\<lparr>tn_connections := 0, tn_desired := ''started'', tn_error := tunnel_error s (zip rows effective), tn_status := s, tn_updated := now\<rparr>)
             (tb_tunnels tb)\<rparr>)"

section \<open>Attachments\<close>

record attachment_input =
  ci_kind :: "string option"
  ci_revision :: "int option"
  ci_client :: string
  ci_expires :: int
  ci_secret_expires :: int
  ci_secret_hash :: string

datatype tunnel_failure = StaleTunnel | BadDestination | BadSource | BadIdentity | NoAttachment | ManagedTunnel | AttachmentsOpen

definition listening :: "tunnel_row \<Rightarrow> bool" where
  "listening t \<longleftrightarrow> tn_source t = ''worker-listener'' \<and> tn_os_source t \<noteq> None \<and> tn_destination t = ''worker-tcp'' \<and>
     tn_source_worker t = tn_destination_worker t"

definition attachable :: "tunnel_row \<Rightarrow> bool" where
  "attachable t \<longleftrightarrow> (tn_source t = ''desktop-loopback'' \<or> listening t) \<and>
     (tn_management t = ''user-managed'' \<or>
      tn_management t = ''managed-ephemeral'' \<and> (tn_origin t = ''browser'' \<or> tn_origin t = ''project-share''))"

definition create_attachment ::
  "string \<Rightarrow> string \<Rightarrow> attachment_input \<Rightarrow> string \<Rightarrow> int \<Rightarrow> tunnel_tables \<Rightarrow>
     tunnel_tables \<times> (tunnel_failure, (string \<times> int) option) result" where
  "create_attachment owner tid input fresh now tb =
     (case lock_tunnel tid (Some owner) tb of
        None \<Rightarrow> (tb, Inr None)
      | Some t \<Rightarrow>
          if \<not> attachable t then (tb, Inr None)
          else let kind = (if listening t then ''worker-listener'' else ''desktop-loopback'')
            in if (case ci_kind input of None \<Rightarrow> ''desktop-loopback'' | Some k \<Rightarrow> k) \<noteq> kind \<or>
                  (case ci_revision input of None \<Rightarrow> False | Some v \<Rightarrow> tn_revision t \<noteq> v)
               then (tb, Inl StaleTunnel)
               else let existing = find (\<lambda>a. aw_tunnel a = tid \<and> aw_client a = Some (ci_client input)) (tb_attachments tb);
                   aid = (case existing of Some a \<Rightarrow> aw_id a | None \<Rightarrow> fresh);
                   previous = (case Option.bind existing aw_secret_expires of Some s \<Rightarrow> s | None \<Rightarrow> 0);
                   secret = max (ci_secret_expires input) (previous + 1);
                   tb' = (if existing \<noteq> None
                     then tb\<lparr>tb_attachments := update_rows (\<lambda>a. aw_id a = aid)
                            (\<lambda>a. a\<lparr>aw_kind := kind, aw_identity := (if aw_status a = TunnelStopped then None else aw_identity a), aw_connections := 0,
                               aw_expires := Some (ci_expires input), aw_error := None, aw_last_seen := None, aw_secret_expires := Some secret,
                               aw_secret_hash := Some (ci_secret_hash input), aw_status := TunnelStarting, aw_updated := now\<rparr>) (tb_attachments tb),
                          tb_leases := update_rows (\<lambda>l. dw_attachment l = aid)
                            (\<lambda>l. l\<lparr>dw_expires := min (dw_expires l) (ci_expires input), dw_updated := now\<rparr>) (tb_leases tb)\<rparr>
                     else tb\<lparr>tb_attachments := tb_attachments tb @ [\<lparr>aw_id = aid, aw_tunnel = tid, aw_kind = kind, aw_client = Some (ci_client input),
                            aw_connections = 0, aw_expires = Some (ci_expires input), aw_error = None, aw_last_seen = None,
                            aw_secret_expires = Some secret, aw_secret_hash = Some (ci_secret_hash input), aw_status = TunnelStarting,
                            aw_identity = None, aw_updated = now\<rparr>]\<rparr>)
                 in (recompute tid now tb', Inr (Some (aid, secret))))"

definition activate_attachment :: "string \<Rightarrow> string \<Rightarrow> int \<Rightarrow> int \<Rightarrow> tunnel_tables \<Rightarrow> tunnel_tables \<times> int option" where
  "activate_attachment aid client secret now tb =
     (case lock_attachment aid None (Some client) tb of
        None \<Rightarrow> (tb, None)
      | Some (_, t) \<Rightarrow>
          (case find (\<lambda>a. aw_id a = aid \<and> aw_client a = Some client \<and> aw_secret_expires a = Some secret) (tb_attachments tb) of
             None \<Rightarrow> (tb, None)
           | Some a \<Rightarrow>
               let activated = max now ((case aw_last_seen a of None \<Rightarrow> 0 | Some s \<Rightarrow> s) + 1);
                   P = (\<lambda>a. aw_id a = aid \<and> aw_client a = Some client \<and> aw_secret_expires a = Some secret \<and>
                          aw_status a \<noteq> TunnelStopped \<and> later (aw_expires a) now)
               in if \<not> list_ex P (tb_attachments tb) then (tb, None)
                  else (recompute (tn_id t) now (tb\<lparr>tb_attachments := update_rows P
                          (\<lambda>a. a\<lparr>aw_error := None, aw_last_seen := Some activated, aw_status := TunnelActive, aw_updated := now\<rparr>) (tb_attachments tb)\<rparr>),
                        Some activated)))"

definition mark_offline :: "string \<Rightarrow> int \<Rightarrow> int \<Rightarrow> int \<Rightarrow> tunnel_tables \<Rightarrow> tunnel_tables \<times> bool" where
  "mark_offline aid secret activated now tb =
     (case lock_attachment aid None None tb of
        None \<Rightarrow> (tb, False)
      | Some (_, t) \<Rightarrow>
          let P = (\<lambda>a. aw_id a = aid \<and> aw_secret_expires a = Some secret \<and> aw_last_seen a = Some activated \<and>
                     aw_status a \<noteq> TunnelStopped \<and> later (aw_expires a) now)
          in if \<not> list_ex P (tb_attachments tb) then (tb, False)
             else (recompute (tn_id t) now (tb\<lparr>tb_attachments := update_rows P
                     (\<lambda>a. a\<lparr>aw_connections := 0, aw_error := Some tunnel_error_kind, aw_last_seen := None, aw_status := TunnelOffline, aw_updated := now\<rparr>)
                     (tb_attachments tb)\<rparr>), True))"

record stop_fence =
  sf_activated :: "int option"
  sf_expires :: "int option"
  sf_secret_expires :: "int option"

definition fence_of :: "attachment_row \<Rightarrow> stop_fence" where
  "fence_of a = \<lparr>sf_activated = aw_last_seen a, sf_expires = aw_expires a, sf_secret_expires = aw_secret_expires a\<rparr>"

definition stop_attachment ::
  "string \<Rightarrow> string \<Rightarrow> string option \<Rightarrow> bool \<Rightarrow> stop_fence option \<Rightarrow> int \<Rightarrow> tunnel_tables \<Rightarrow> tunnel_tables \<times> tunnel_row option" where
  "stop_attachment owner aid error preserve expected now tb =
     (case lock_attachment aid (Some owner) None tb of
        None \<Rightarrow> (tb, None)
      | Some (_, t) \<Rightarrow>
          let status = (if error \<noteq> None \<and> error \<noteq> Some [] then TunnelFailed else TunnelStopped);
              P = (\<lambda>a. aw_id a = aid \<and> (case expected of None \<Rightarrow> True | Some fc \<Rightarrow> fence_of a = fc))
          in if \<not> list_ex P (tb_attachments tb) then (tb, None)
             else let tb' = tb\<lparr>tb_attachments := update_rows P
                      (\<lambda>a. a\<lparr>aw_connections := 0, aw_error := error, aw_secret_expires := None, aw_secret_hash := None, aw_status := status, aw_updated := now\<rparr>)
                      (tb_attachments tb), tb_leases := filter (\<lambda>l. dw_attachment l \<noteq> aid) (tb_leases tb)\<rparr>;
                    remaining = list_ex (\<lambda>a. aw_tunnel a = tn_id t \<and> aw_id a \<noteq> aid \<and> \<not> ended_status (aw_status a)) (tb_attachments tb')
               in (if \<not> remaining \<and> \<not> preserve
                   then tb'\<lparr>tb_tunnels := update_rows (\<lambda>u. tn_id u = tn_id t)
                          (\<lambda>u. u\<lparr>tn_connections := 0, tn_desired := ''stopped'', tn_error := error, tn_status := status, tn_updated := now\<rparr>) (tb_tunnels tb')\<rparr>
                   else if remaining then recompute (tn_id t) now tb'
                   else tb', Some t))"

definition hex_text :: "string \<Rightarrow> bool" where
  "hex_text s \<longleftrightarrow> length s = 64 \<and> list_all (\<lambda>c. c \<in> set ''0123456789abcdef'') s"

definition pin_os_service_identity :: "string \<Rightarrow> string \<Rightarrow> int \<Rightarrow> string \<Rightarrow> int \<Rightarrow> tunnel_tables \<Rightarrow> tunnel_tables \<times> (tunnel_failure, bool) result" where
  "pin_os_service_identity aid client secret identity now tb =
     (if \<not> hex_text identity then (tb, Inl BadIdentity)
      else let P = (\<lambda>a. aw_id a = aid \<and> aw_client a = Some client \<and> aw_secret_expires a = Some secret \<and> later (aw_expires a) now \<and>
                 aw_status a \<noteq> TunnelStopped \<and> (aw_identity a = None \<or> aw_identity a = Some identity))
        in (tb\<lparr>tb_attachments := update_rows P (\<lambda>a. a\<lparr>aw_identity := Some identity\<rparr>) (tb_attachments tb)\<rparr>, Inr (list_ex P (tb_attachments tb))))"

subsection \<open>Authorization\<close>

datatype tunnel_destination = WorkerTcp "string option" | WorkerAdapter "string option" string string

definition tunnel_destination_of :: "tunnel_row \<Rightarrow> (tunnel_failure, tunnel_destination) result" where
  "tunnel_destination_of t =
     (if tn_destination t = ''worker-tcp'' then Inr (WorkerTcp (tn_destination_worker t))
      else case (tn_adapter t, tn_resource t) of
          (Some adapter, Some res) \<Rightarrow>
            if tn_destination t = ''worker-adapter'' \<and> adapter \<noteq> [] \<and> res \<noteq> [] then Inr (WorkerAdapter (tn_destination_worker t) adapter res)
            else Inl BadDestination
        | _ \<Rightarrow> Inl BadDestination)"

definition protected_tunnel :: "tunnel_row \<Rightarrow> bool" where
  "protected_tunnel t \<longleftrightarrow> tn_content t \<and> tn_operation t \<noteq> None \<and> tn_operation t \<noteq> Some [] \<and> tn_revision t \<ge> 1"

definition tunnel_source_ok :: "tunnel_row \<Rightarrow> bool" where
  "tunnel_source_ok t \<longleftrightarrow> tn_source t = ''desktop-loopback'' \<or>
     tn_source t = ''worker-listener'' \<and> tn_source_worker t \<noteq> None \<and> tn_source_worker t \<noteq> Some []"

definition authorization ::
  "string option \<Rightarrow> string \<Rightarrow> string option \<Rightarrow> int \<Rightarrow> tunnel_tables \<Rightarrow> (tunnel_failure, (attachment_row \<times> tunnel_row) option) result" where
  "authorization owner aid secret now tb =
     (case find (\<lambda>(a, t). aw_id a = aid \<and> tn_id t = aw_tunnel a \<and> (aw_kind a = ''desktop-loopback'' \<or> aw_kind a = ''worker-listener'') \<and>
             later (aw_expires a) now \<and> aw_status a \<noteq> TunnelStopped \<and> (owner = None \<or> owner = Some (tn_owner t)) \<and>
             (secret = None \<or> aw_secret_hash a = secret \<and> later (aw_secret_expires a) now))
           (List.product (tb_attachments tb) (tb_tunnels tb)) of
        None \<Rightarrow> Inr None
      | Some (a, t) \<Rightarrow>
          rbind (tunnel_destination_of t) (\<lambda>dest.
            let tcp = (case dest of WorkerTcp _ \<Rightarrow> True | _ \<Rightarrow> False);
                heard = tn_source t = ''worker-listener'' \<and> aw_kind a = ''worker-listener'' \<and> tn_os_source t \<noteq> None \<and> tcp \<and>
                  tn_source_worker t = tn_destination_worker t;
                desktop = tn_source t = ''desktop-loopback'' \<and> aw_kind a = ''desktop-loopback'';
                reachable = (case dest of WorkerTcp _ \<Rightarrow> True
                  | WorkerAdapter _ adapter _ \<Rightarrow> adapter = ''project-share'' \<or> owner \<noteq> None \<and> adapter = ''cantrip-os'')
            in if aw_client a = None \<or> aw_client a = Some [] \<or> aw_expires a = None \<or> aw_secret_expires a = None \<or>
                  \<not> (desktop \<or> owner \<noteq> None \<and> heard) \<or> \<not> reachable \<or> \<not> protected_tunnel t
               then Inr None
               else if owner \<noteq> None \<and> \<not> tunnel_source_ok t then Inl BadSource
               else Inr (Some (a, t))))"

section \<open>Direct leases\<close>

definition admitted :: "string \<Rightarrow> int option \<Rightarrow> int \<Rightarrow> int option" where
  "admitted capability expires now = (case expires of None \<Rightarrow> None | Some e \<Rightarrow> if capability \<noteq> [] \<and> e > now then Some e else None)"

definition activate_direct ::
  "string \<Rightarrow> string \<Rightarrow> string \<Rightarrow> int option \<Rightarrow> int option \<Rightarrow> int \<Rightarrow> int \<Rightarrow> tunnel_tables \<Rightarrow> tunnel_tables \<times> tunnel_row option" where
  "activate_direct owner aid capability expires secret before now tb =
     (case (admitted capability expires before, secret) of
        (Some e, Some gen) \<Rightarrow>
          (case lock_attachment aid (Some owner) None tb of
             None \<Rightarrow> (tb, None)
           | Some (_, t) \<Rightarrow>
               (case find (\<lambda>a. aw_id a = aid \<and> aw_secret_expires a = Some gen \<and> \<not> ended_status (aw_status a) \<and> later (aw_expires a) now) (tb_attachments tb) of
                  None \<Rightarrow> (tb, None)
                | Some a \<Rightarrow>
                    let hard = the (aw_expires a); bounded = min e hard; P = (\<lambda>l. dw_capability l = capability)
                    in if bounded \<le> now then (tb, None)
                       else if list_ex P (tb_leases tb)
                       then let Q = (\<lambda>l. P l \<and> dw_active l \<and> dw_attachment l = aid)
                         in if \<not> list_ex Q (tb_leases tb) then (tb, None)
                            else (recompute (tn_id t) now (tb\<lparr>tb_leases := update_rows Q
                                    (\<lambda>l. l\<lparr>dw_expires := min (max (dw_expires l) bounded) hard, dw_updated := now\<rparr>) (tb_leases tb)\<rparr>), Some t)
                       else (recompute (tn_id t) now (tb\<lparr>tb_leases := tb_leases tb @ [\<lparr>dw_capability = capability, dw_attachment = aid, dw_active = True,
                               dw_expires = bounded, dw_finalized = None, dw_updated = now\<rparr>]\<rparr>), Some t)))
      | _ \<Rightarrow> (tb, None))"

text \<open>\<open>a\<close> is the row that was read before the lock.\<close>

definition renew_direct ::
  "string \<Rightarrow> string \<Rightarrow> string \<Rightarrow> int option \<Rightarrow> int \<Rightarrow> attachment_row \<Rightarrow> int \<Rightarrow> tunnel_tables \<Rightarrow> tunnel_tables \<times> tunnel_row option" where
  "renew_direct owner aid capability expires before a now tb =
     (case (admitted capability expires before, lock_tunnel (aw_tunnel a) (Some owner) tb, aw_expires a) of
        (Some e, Some t, Some hard) \<Rightarrow>
          let bounded = min e hard; Q = (\<lambda>l. dw_capability l = capability \<and> dw_attachment l = aid \<and> dw_active l)
          in if ended_status (aw_status a) \<or> bounded \<le> now then (tb, None)
             else (tb\<lparr>tb_leases := update_rows Q (\<lambda>l. l\<lparr>dw_expires := min (max (dw_expires l) bounded) hard, dw_updated := now\<rparr>) (tb_leases tb)\<rparr>,
                   if list_ex Q (tb_leases tb) then Some t else None)
      | _ \<Rightarrow> (tb, None))"

definition finalize_direct ::
  "string \<Rightarrow> string \<Rightarrow> string \<Rightarrow> int option \<Rightarrow> attachment_row \<Rightarrow> int \<Rightarrow> tunnel_tables \<Rightarrow> tunnel_tables \<times> (tunnel_failure, tunnel_row option) result" where
  "finalize_direct owner aid capability expires a now tb =
     (case (if capability = [] then None else expires, lock_tunnel (aw_tunnel a) (Some owner) tb) of
        (Some e, Some t) \<Rightarrow>
          let P = (\<lambda>l. dw_capability l = capability)
          in if ended_status (aw_status a)
             then (tb\<lparr>tb_leases := filter (\<lambda>l. \<not> (P l \<and> dw_attachment l = aid)) (tb_leases tb)\<rparr>, Inr None)
             else let hard = (case aw_expires a of None \<Rightarrow> e | Some h \<Rightarrow> h); bounded = min e hard
               in if list_ex P (tb_leases tb)
                  then let Q = (\<lambda>l. P l \<and> dw_attachment l = aid)
                    in if \<not> list_ex Q (tb_leases tb) then (tb, Inr None)
                       else (recompute (tn_id t) now (tb\<lparr>tb_leases := update_rows Q (\<lambda>l. l\<lparr>dw_finalized := Some now,
                               dw_expires := min (max (dw_expires l) bounded) hard, dw_active := False, dw_updated := now\<rparr>) (tb_leases tb)\<rparr>), Inr (Some t))
                  else if \<not> list_ex (\<lambda>a. aw_id a = aid) (tb_attachments tb) then (tb, Inl NoAttachment)
                  else (recompute (tn_id t) now (tb\<lparr>tb_leases := tb_leases tb @ [\<lparr>dw_capability = capability, dw_attachment = aid, dw_active = False,
                          dw_expires = bounded, dw_finalized = Some now, dw_updated = now\<rparr>]\<rparr>), Inr (Some t))
      | _ \<Rightarrow> (tb, Inr None))"

text \<open>The transaction for one attachment; the scan that finds the attachments reads the tables before.\<close>

definition expire_direct_one :: "string \<Rightarrow> string \<Rightarrow> int \<Rightarrow> tunnel_tables \<Rightarrow> tunnel_tables \<times> bool" where
  "expire_direct_one tid aid now tb =
     (if lock_tunnel tid None tb = None then (tb, False)
      else let Q = (\<lambda>l. dw_attachment l = aid \<and> dw_active l \<and> dw_expires l \<le> now);
             some = list_ex Q (tb_leases tb);
             ls = update_rows Q (\<lambda>l. l\<lparr>dw_finalized := Some now, dw_active := False, dw_updated := now\<rparr>) (tb_leases tb);
             tb' = tb\<lparr>tb_leases := filter (\<lambda>l. \<not> (dw_attachment l = aid \<and> \<not> dw_active l \<and> dw_expires l \<le> now)) ls\<rparr>
        in (if some then recompute tid now tb' else tb', some))"

definition expire_direct_scan :: "int \<Rightarrow> tunnel_tables \<Rightarrow> (string \<times> string) list" where
  "expire_direct_scan now tb =
     remdups (concat (map (\<lambda>l. map (\<lambda>a. (aw_tunnel a, aw_id a)) (filter (\<lambda>a. aw_id a = dw_attachment l) (tb_attachments tb)))
       (filter (\<lambda>l. dw_expires l \<le> now) (tb_leases tb))))"

section \<open>Expiry, restart and deletion\<close>

definition expire_scan :: "int \<Rightarrow> tunnel_tables \<Rightarrow> (attachment_row \<times> tunnel_row) list" where
  "expire_scan now tb =
     filter (\<lambda>(a, t). tn_id t = aw_tunnel a \<and> (case aw_expires a of None \<Rightarrow> False | Some e \<Rightarrow> e \<le> now) \<and> \<not> ended_status (aw_status a))
       (List.product (tb_attachments tb) (tb_tunnels tb))"

definition expire_one :: "attachment_row \<Rightarrow> tunnel_row \<Rightarrow> int \<Rightarrow> tunnel_tables \<Rightarrow> tunnel_tables \<times> tunnel_row option" where
  "expire_one a t now tb = stop_attachment (tn_owner t) (aw_id a) (Some ''attachment-expired'') False (Some (fence_of a)) now tb"

definition transient :: "tunnel_status \<Rightarrow> bool" where
  "transient s \<longleftrightarrow> s \<in> {TunnelStarting, TunnelActive, TunnelDegraded, TunnelStopping}"

definition delete_tunnel :: "string \<Rightarrow> tunnel_tables \<Rightarrow> tunnel_tables" where
  "delete_tunnel tid tb =
     tb\<lparr>tb_tunnels := filter (\<lambda>t. tn_id t \<noteq> tid) (tb_tunnels tb),
        tb_leases := filter (\<lambda>l. \<not> list_ex (\<lambda>a. aw_id a = dw_attachment l \<and> aw_tunnel a = tid) (tb_attachments tb)) (tb_leases tb),
        tb_attachments := filter (\<lambda>a. aw_tunnel a \<noteq> tid) (tb_attachments tb)\<rparr>"

definition reset_transient_one :: "string \<Rightarrow> int \<Rightarrow> tunnel_tables \<Rightarrow> tunnel_tables" where
  "reset_transient_one tid now tb =
     (case lock_tunnel tid None tb of
        None \<Rightarrow> tb
      | Some t \<Rightarrow>
          let live = list_ex (\<lambda>l. dw_active l \<and> dw_expires l > now \<and>
                list_ex (\<lambda>a. aw_id a = dw_attachment l \<and> aw_tunnel a = tid \<and> \<not> ended_status (aw_status a)) (tb_attachments tb)) (tb_leases tb);
              tb' = tb\<lparr>tb_attachments := update_rows (\<lambda>a. aw_tunnel a = tid \<and> transient (aw_status a))
                (\<lambda>a. a\<lparr>aw_connections := 0, aw_error := Some ''server-restarted'', aw_last_seen := None, aw_secret_expires := None, aw_secret_hash := None,
                   aw_status := TunnelOffline, aw_updated := now\<rparr>) (tb_attachments tb)\<rparr>
          in if live then recompute tid now tb'
             else if tn_management t = ''managed-ephemeral'' \<and> tn_origin t = ''project-share'' then delete_tunnel tid tb'
             else if transient (tn_status t)
             then tb'\<lparr>tb_tunnels := update_rows (\<lambda>u. tn_id u = tid)
                    (\<lambda>u. u\<lparr>tn_connections := 0, tn_error := Some ''server-restarted'', tn_status := TunnelOffline, tn_updated := now\<rparr>) (tb_tunnels tb')\<rparr>
             else tb')"

definition reset_scan :: "tunnel_tables \<Rightarrow> string list" where
  "reset_scan tb = map tn_id (filter (\<lambda>t. transient (tn_status t) \<or>
     (tn_origin t = ''code'' \<or> tn_origin t = ''project-share'') \<and> tn_management t = ''managed-ephemeral'') (tb_tunnels tb))"

definition reset_transient :: "int \<Rightarrow> tunnel_tables \<Rightarrow> tunnel_tables" where
  "reset_transient now tb = foldl (\<lambda>tb' tid. reset_transient_one tid now tb') tb (reset_scan tb)"

definition open_attachment :: "string \<Rightarrow> tunnel_tables \<Rightarrow> bool" where
  "open_attachment tid tb \<longleftrightarrow> list_ex (\<lambda>a. aw_tunnel a = tid \<and> \<not> ended_status (aw_status a)) (tb_attachments tb)"

definition guard_user :: "tunnel_row \<Rightarrow> tunnel_tables \<Rightarrow> (tunnel_failure, unit) result" where
  "guard_user t tb =
     (if tn_management t \<noteq> ''user-managed'' then Inl ManagedTunnel else if open_attachment (tn_id t) tb then Inl AttachmentsOpen else Inr ())"

definition delete_user :: "string \<Rightarrow> string \<Rightarrow> tunnel_tables \<Rightarrow> tunnel_tables \<times> (tunnel_failure, bool) result" where
  "delete_user owner tid tb =
     (case lock_tunnel tid (Some owner) tb of
        None \<Rightarrow> (tb, Inr False)
      | Some t \<Rightarrow> (case guard_user t tb of Inl e \<Rightarrow> (tb, Inl e) | Inr _ \<Rightarrow> (delete_tunnel tid tb, Inr True)))"

definition remove_managed :: "string \<Rightarrow> string \<times> string \<Rightarrow> tunnel_tables \<Rightarrow> tunnel_tables \<times> bool" where
  "remove_managed owner managed tb =
     (let ids = map tn_id (filter (\<lambda>t. tn_owner t = owner \<and> tn_management t \<noteq> ''user-managed'' \<and> tn_managed_by t = Some managed) (tb_tunnels tb))
      in (foldl (\<lambda>tb' tid. delete_tunnel tid tb') tb ids, length ids = 1))"

end
