(* ===== verification/TunnelSafety.thy ===== *)
theory TunnelSafety
  imports Tunnels
begin

text \<open>
  The tables of tunnels under every sequence of transactions, with the rows that \<open>renew_direct\<close>, \<open>finalize_direct\<close> and the expiry of
  attachments read before they lock: the state is the tables and the rows read so far. The rows of \<open>tunnels\<close> that the catalog
  writes (\<^verbatim>\<open>create_user\<close>, \<^verbatim>\<open>update_user\<close>, \<^verbatim>\<open>register_managed\<close>) may change in any way between two steps.
\<close>

section \<open>Steps\<close>

inductive tunnel_step :: "tunnel_tables \<Rightarrow> attachment_row list \<Rightarrow> tunnel_tables \<Rightarrow> bool" for tb obs where
  manages: "tunnel_step tb obs (tb\<lparr>tb_tunnels := ts\<rparr>)"
| creates: "fresh \<notin> set (map aw_id (tb_attachments tb)) \<Longrightarrow> tunnel_step tb obs (fst (create_attachment owner tid input fresh now tb))"
| activates: "tunnel_step tb obs (fst (activate_attachment aid client secret now tb))"
| disconnects: "tunnel_step tb obs (fst (mark_offline aid secret activated now tb))"
| stops: "tunnel_step tb obs (fst (stop_attachment owner aid error preserve expected now tb))"
| pins: "tunnel_step tb obs (fst (pin_os_service_identity aid client secret identity now tb))"
| activates_direct: "tunnel_step tb obs (fst (activate_direct owner aid capability expires secret before now tb))"
| renews_direct: "a \<in> set obs \<Longrightarrow> tunnel_step tb obs (fst (renew_direct owner (aw_id a) capability expires before a now tb))"
| finalizes_direct: "a \<in> set obs \<Longrightarrow> tunnel_step tb obs (fst (finalize_direct owner (aw_id a) capability expires a now tb))"
| expires_direct: "tunnel_step tb obs (fst (expire_direct_one tid aid now tb))"
| expires: "a \<in> set obs \<Longrightarrow> tunnel_step tb obs (fst (expire_one a t now tb))"
| resets: "tunnel_step tb obs (reset_transient_one tid now tb)"
| deletes: "tunnel_step tb obs (fst (delete_user owner tid tb))"
| removes: "tunnel_step tb obs (fst (remove_managed owner managed tb))"

inductive tunnels_reach :: "tunnel_tables \<Rightarrow> attachment_row list \<Rightarrow> bool" where
  no_attachments: "tb_attachments tb = [] \<Longrightarrow> tb_leases tb = [] \<Longrightarrow> tunnels_reach tb []"
| observed: "tunnels_reach tb obs \<Longrightarrow> a \<in> set (tb_attachments tb) \<Longrightarrow> tunnels_reach tb (a # obs)"
| stepped: "tunnels_reach tb obs \<Longrightarrow> tunnel_step tb obs tb' \<Longrightarrow> tunnels_reach tb' obs"

section \<open>Attachments that have ended\<close>

definition row_ok :: "attachment_row \<Rightarrow> bool" where
  "row_ok a \<longleftrightarrow> (if ended_status (aw_status a) then aw_secret_expires a = None \<and> aw_secret_hash a = None
     else aw_last_seen a \<noteq> None \<longrightarrow> aw_status a = TunnelActive)"

definition open_id :: "attachment_row list \<Rightarrow> string \<Rightarrow> bool" where
  "open_id rows i \<longleftrightarrow> (\<exists>a \<in> set rows. aw_id a = i \<and> \<not> ended_status (aw_status a))"

definition sealed :: "tunnel_tables \<Rightarrow> bool" where
  "sealed tb \<longleftrightarrow> distinct (map aw_id (tb_attachments tb)) \<and> list_all row_ok (tb_attachments tb) \<and>
     (\<forall>l \<in> set (tb_leases tb). dw_active l \<longrightarrow> open_id (tb_attachments tb) (dw_attachment l))"

lemma sealedI:
  assumes "sealed tb" "map aw_id (tb_attachments tb') = map aw_id (tb_attachments tb)" "list_all row_ok (tb_attachments tb')"
    "\<And>l. l \<in> set (tb_leases tb') \<Longrightarrow> dw_active l \<Longrightarrow>
       (\<exists>l0 \<in> set (tb_leases tb). dw_active l0 \<and> dw_attachment l0 = dw_attachment l \<and>
         (open_id (tb_attachments tb) (dw_attachment l) \<longrightarrow> open_id (tb_attachments tb') (dw_attachment l))) \<or> open_id (tb_attachments tb') (dw_attachment l)"
  shows "sealed tb'"
  using assms unfolding sealed_def by metis

lemma update_rows_ids: "(\<And>a. aw_id (f a) = aw_id a) \<Longrightarrow> map aw_id (update_rows P f rows) = map aw_id rows"
  by (simp add: update_rows_def comp_def)

lemma update_rows_set: "r' \<in> set (update_rows P f rows) \<longleftrightarrow> (\<exists>r \<in> set rows. r' = (if P r then f r else r))"
  by (auto simp: update_rows_def)

lemma open_id_update:
  assumes "\<And>a. aw_id (f a) = aw_id a" "\<And>a. a \<in> set rows \<Longrightarrow> P a \<Longrightarrow> aw_id a = i \<Longrightarrow> \<not> ended_status (aw_status a) \<Longrightarrow> \<not> ended_status (aw_status (f a))"
    "open_id rows i"
  shows "open_id (update_rows P f rows) i"
proof -
  obtain a where a: "a \<in> set rows" "aw_id a = i" "\<not> ended_status (aw_status a)" using assms(3) by (auto simp: open_id_def)
  then have "(if P a then f a else a) \<in> set (update_rows P f rows)" by (auto simp: update_rows_def)
  then show ?thesis unfolding open_id_def by (rule bexI [rotated]) (use a assms(1,2) in auto)
qed

text \<open>Rows that change without ending.\<close>

lemma sealed_update:
  assumes "sealed tb" "\<And>a. aw_id (f a) = aw_id a" "\<And>a. a \<in> set (tb_attachments tb) \<Longrightarrow> P a \<Longrightarrow> row_ok (f a) \<and> \<not> ended_status (aw_status (f a))"
  shows "sealed (tb\<lparr>tb_attachments := update_rows P f (tb_attachments tb)\<rparr>)"
proof (rule sealedI [OF assms(1)])
  show "list_all row_ok (tb_attachments (tb\<lparr>tb_attachments := update_rows P f (tb_attachments tb)\<rparr>))"
    using assms by (auto simp: list_all_iff update_rows_set sealed_def)
  show "map aw_id (tb_attachments (tb\<lparr>tb_attachments := update_rows P f (tb_attachments tb)\<rparr>)) = map aw_id (tb_attachments tb)"
    using assms(2) by (simp add: update_rows_ids)
qed (use assms(3) open_id_update [OF assms(2), of "tb_attachments tb" P] in auto)

lemma sealed_leases:
  assumes "sealed tb" "\<And>l. l \<in> set ls \<Longrightarrow> dw_active l \<Longrightarrow> (\<exists>l0 \<in> set (tb_leases tb). dw_active l0 \<and> dw_attachment l0 = dw_attachment l) \<or> open_id (tb_attachments tb) (dw_attachment l)"
  shows "sealed (tb\<lparr>tb_leases := ls\<rparr>)"
  using assms by (intro sealedI [OF assms(1)]) (auto simp: sealed_def)

lemma sealed_lease_update:
  assumes "sealed tb" "\<And>l. dw_active (g l) \<Longrightarrow> dw_active l" "\<And>l. dw_attachment (g l) = dw_attachment l"
  shows "sealed (tb\<lparr>tb_leases := update_rows Q g (tb_leases tb)\<rparr>)"
  using assms by (intro sealed_leases) (fastforce simp: update_rows_set split: if_splits)+

lemma sealed_lease_filter: "sealed tb \<Longrightarrow> sealed (tb\<lparr>tb_leases := filter P (tb_leases tb)\<rparr>)"
  by (rule sealed_leases) auto

lemma sealed_lease_add: "sealed tb \<Longrightarrow> (dw_active l \<Longrightarrow> open_id (tb_attachments tb) (dw_attachment l)) \<Longrightarrow> sealed (tb\<lparr>tb_leases := tb_leases tb @ [l]\<rparr>)"
  by (rule sealed_leases) auto

lemma sealed_tunnels [simp]: "sealed (tb\<lparr>tb_tunnels := ts\<rparr>) = sealed tb"
  by (simp add: sealed_def)

lemma refresh_kept: "aw_id (refresh_attachment now tb a) = aw_id a"
  "ended_status (aw_status (refresh_attachment now tb a)) = ended_status (aw_status a)"
  "aw_secret_expires (refresh_attachment now tb a) = aw_secret_expires a" "aw_identity (refresh_attachment now tb a) = aw_identity a"
  by (auto simp: refresh_attachment_def effective_status_def ended_status_def Let_def)

lemma refresh_ok: "row_ok a \<Longrightarrow> row_ok (refresh_attachment now tb a)"
  by (auto simp: refresh_attachment_def effective_status_def row_ok_def ended_status_def Let_def)

lemma recompute_fields:
  "tb_leases (recompute tid now tb) = tb_leases tb"
  "tb_attachments (recompute tid now tb) = update_rows (\<lambda>a. aw_tunnel a = tid) (refresh_attachment now tb) (tb_attachments tb)"
  by (auto simp: recompute_def Let_def update_rows_def filter_empty_conv map_idI split: option.splits)

lemma recompute_sealed: "sealed tb \<Longrightarrow> sealed (recompute tid now tb)"
proof -
  assume s: "sealed tb"
  show ?thesis
  proof (rule sealedI [OF s])
    show "list_all row_ok (tb_attachments (recompute tid now tb))"
      using s by (auto simp: recompute_fields list_all_iff update_rows_set sealed_def refresh_ok)
    show "map aw_id (tb_attachments (recompute tid now tb)) = map aw_id (tb_attachments tb)"
      by (simp add: recompute_fields update_rows_ids refresh_kept)
  qed (use open_id_update [of "refresh_attachment now tb"] in \<open>auto simp: recompute_fields refresh_kept\<close>)
qed

lemma row_okD: "sealed tb \<Longrightarrow> a \<in> set (tb_attachments tb) \<Longrightarrow> row_ok a"
  by (simp add: sealed_def list_all_iff)

lemma secret_open: "row_ok a \<Longrightarrow> aw_secret_expires a = Some s \<Longrightarrow> \<not> ended_status (aw_status a)"
  by (auto simp: row_ok_def split: if_splits)

lemma fresh_rows:
  assumes "sealed tb" "aw_id a \<notin> set (map aw_id (tb_attachments tb))" "row_ok a"
  shows "sealed (tb\<lparr>tb_attachments := tb_attachments tb @ [a]\<rparr>)"
  using assms by (auto simp: sealed_def open_id_def)

lemma create_sealed:
  assumes "sealed tb" "fresh \<notin> set (map aw_id (tb_attachments tb))"
  shows "sealed (fst (create_attachment owner tid input fresh now tb))"
proof -
  have renewed: "sealed (tb\<lparr>tb_attachments := update_rows P f (tb_attachments tb), tb_leases := update_rows Q g (tb_leases tb)\<rparr>)"
    if "\<And>a. aw_id (f a) = aw_id a" "\<And>a. row_ok (f a) \<and> \<not> ended_status (aw_status (f a))" "\<And>l. dw_active (g l) = dw_active l" "\<And>l. dw_attachment (g l) = dw_attachment l"
    for P Q f g
  proof -
    have "sealed (tb\<lparr>tb_attachments := update_rows P f (tb_attachments tb)\<rparr>)" using assms(1) that by (intro sealed_update) auto
    from sealed_lease_update [OF this, of g Q] that(3,4) show ?thesis by simp
  qed
  show ?thesis using assms
    by (auto simp: create_attachment_def Let_def row_ok_def ended_status_def intro!: recompute_sealed renewed fresh_rows split: option.splits)
qed

lemma activate_sealed: "sealed tb \<Longrightarrow> sealed (fst (activate_attachment aid client secret now tb))"
  by (auto simp: activate_attachment_def Let_def row_ok_def ended_status_def intro!: recompute_sealed sealed_update split: option.splits)

lemma offline_sealed: "sealed tb \<Longrightarrow> sealed (fst (mark_offline aid secret activated now tb))"
  by (auto simp: mark_offline_def Let_def row_ok_def ended_status_def intro!: recompute_sealed sealed_update split: option.splits)

lemma pin_sealed: "sealed tb \<Longrightarrow> sealed (fst (pin_os_service_identity aid client secret identity now tb))"
proof -
  assume s: "sealed tb"
  have "row_ok (a\<lparr>aw_identity := Some identity\<rparr>) \<and> \<not> ended_status (aw_status (a\<lparr>aw_identity := Some identity\<rparr>))"
    if "a \<in> set (tb_attachments tb)" "aw_secret_expires a = Some secret" for a
    using row_okD [OF s that(1)] that(2) by (auto simp: row_ok_def split: if_splits)
  then show ?thesis using s by (auto simp: pin_os_service_identity_def Let_def intro!: sealed_update)
qed

lemma stop_sealed:
  assumes "sealed tb"
  shows "sealed (fst (stop_attachment owner aid error preserve expected now tb))"
proof -
  have stopped: "sealed (tb\<lparr>tb_attachments := update_rows P f (tb_attachments tb), tb_leases := filter (\<lambda>l. dw_attachment l \<noteq> aid) (tb_leases tb)\<rparr>)"
    if "\<And>a. aw_id (f a) = aw_id a" "\<And>a. row_ok (f a)" "\<And>a. P a \<Longrightarrow> aw_id a = aid" for P f
  proof (rule sealedI [OF assms])
    show "list_all row_ok (tb_attachments (tb\<lparr>tb_attachments := update_rows P f (tb_attachments tb), tb_leases := filter (\<lambda>l. dw_attachment l \<noteq> aid) (tb_leases tb)\<rparr>))"
      using assms that(2) by (auto simp: list_all_iff update_rows_set sealed_def)
    fix l assume "l \<in> set (tb_leases (tb\<lparr>tb_attachments := update_rows P f (tb_attachments tb), tb_leases := filter (\<lambda>l. dw_attachment l \<noteq> aid) (tb_leases tb)\<rparr>))" "dw_active l"
    then have l: "l \<in> set (tb_leases tb)" "dw_active l" "dw_attachment l \<noteq> aid" by auto
    then have "open_id (tb_attachments tb) (dw_attachment l)" using assms by (simp add: sealed_def)
    then have "open_id (update_rows P f (tb_attachments tb)) (dw_attachment l)" using l(3) that by (intro open_id_update) auto
    then show "(\<exists>l0 \<in> set (tb_leases tb). dw_active l0 \<and> dw_attachment l0 = dw_attachment l \<and> (open_id (tb_attachments tb) (dw_attachment l) \<longrightarrow>
        open_id (tb_attachments (tb\<lparr>tb_attachments := update_rows P f (tb_attachments tb), tb_leases := filter (\<lambda>l. dw_attachment l \<noteq> aid) (tb_leases tb)\<rparr>)) (dw_attachment l))) \<or>
      open_id (tb_attachments (tb\<lparr>tb_attachments := update_rows P f (tb_attachments tb), tb_leases := filter (\<lambda>l. dw_attachment l \<noteq> aid) (tb_leases tb)\<rparr>)) (dw_attachment l)"
      by simp
  qed (simp add: update_rows_ids that(1))
  define status where "status = (if error \<noteq> None \<and> error \<noteq> Some [] then TunnelFailed else TunnelStopped)"
  have ended: "sealed (tb\<lparr>tb_attachments := update_rows (\<lambda>a. aw_id a = aid \<and> (case expected of None \<Rightarrow> True | Some fc \<Rightarrow> fence_of a = fc))
      (\<lambda>a. a\<lparr>aw_connections := 0, aw_error := error, aw_secret_expires := None, aw_secret_hash := None, aw_status := status, aw_updated := now\<rparr>)
      (tb_attachments tb), tb_leases := filter (\<lambda>l. dw_attachment l \<noteq> aid) (tb_leases tb)\<rparr>)"
    by (rule stopped) (auto simp: row_ok_def status_def ended_status_def)
  show ?thesis
  proof (cases "lock_attachment aid (Some owner) None tb")
    case None then show ?thesis using assms by (simp add: stop_attachment_def)
  next
    case (Some x)
    obtain a t where x: "x = (a, t)" by (cases x)
    show ?thesis using ended assms recompute_sealed [OF ended, of "tn_id t" now]
      unfolding stop_attachment_def Some x option.case prod.case Let_def status_def by simp
  qed
qed

lemma activate_direct_sealed:
  assumes "sealed tb"
  shows "sealed (fst (activate_direct owner aid capability expires secret before now tb))"
proof -
  have open_now: "open_id (tb_attachments tb) aid"
    if "find (\<lambda>a. aw_id a = aid \<and> aw_secret_expires a = Some gen \<and> \<not> ended_status (aw_status a) \<and> later (aw_expires a) now) (tb_attachments tb) = Some a" for gen a
    using that by (auto simp: open_id_def dest!: find_SomeD)
  then have opened: "sealed (tb\<lparr>tb_leases := tb_leases tb @ [l]\<rparr>)"
    if "find (\<lambda>a. aw_id a = aid \<and> aw_secret_expires a = Some gen \<and> \<not> ended_status (aw_status a) \<and> later (aw_expires a) now) (tb_attachments tb) = Some a"
      "dw_attachment l = aid" for gen a l
    using that assms by (auto intro: sealed_lease_add)
  have longer: "sealed (tb\<lparr>tb_leases := update_rows Q (\<lambda>l. l\<lparr>dw_expires := e l, dw_updated := now\<rparr>) (tb_leases tb)\<rparr>)" for Q e
    by (rule sealed_lease_update [OF assms]) auto
  show ?thesis using assms opened longer
    by (simp add: activate_direct_def Let_def recompute_sealed split: option.splits prod.splits)
qed

lemma renew_direct_sealed: "sealed tb \<Longrightarrow> sealed (fst (renew_direct owner aid capability expires before a now tb))"
  by (auto simp: renew_direct_def Let_def intro!: sealed_lease_update split: option.splits)

lemma finalize_direct_sealed: "sealed tb \<Longrightarrow> sealed (fst (finalize_direct owner aid capability expires a now tb))"
  by (auto simp: finalize_direct_def Let_def intro!: recompute_sealed sealed_lease_update sealed_lease_filter sealed_lease_add split: option.splits)

lemma expire_direct_sealed: "sealed tb \<Longrightarrow> sealed (fst (expire_direct_one tid aid now tb))"
proof -
  assume s: "sealed tb"
  let ?ls = "update_rows (\<lambda>l. dw_attachment l = aid \<and> dw_active l \<and> dw_expires l \<le> now) (\<lambda>l. l\<lparr>dw_finalized := Some now, dw_active := False, dw_updated := now\<rparr>) (tb_leases tb)"
  have "sealed (tb\<lparr>tb_leases := ?ls\<rparr>)" by (rule sealed_lease_update [OF s]) auto
  from sealed_lease_filter [OF this, of "\<lambda>l. \<not> (dw_attachment l = aid \<and> \<not> dw_active l \<and> dw_expires l \<le> now)"] s
  show ?thesis by (auto simp: expire_direct_one_def Let_def recompute_sealed)
qed

lemma delete_sealed: "sealed tb \<Longrightarrow> sealed (delete_tunnel tid tb)"
  by (fastforce simp: sealed_def delete_tunnel_def open_id_def list_all_iff list_ex_iff distinct_map_filter)

lemma reset_sealed: "sealed tb \<Longrightarrow> sealed (reset_transient_one tid now tb)"
proof -
  assume s: "sealed tb"
  have "sealed (tb\<lparr>tb_attachments := update_rows (\<lambda>a. aw_tunnel a = tid \<and> transient (aw_status a))
      (\<lambda>a. a\<lparr>aw_connections := 0, aw_error := Some ''server-restarted'', aw_last_seen := None, aw_secret_expires := None, aw_secret_hash := None,
         aw_status := TunnelOffline, aw_updated := now\<rparr>) (tb_attachments tb)\<rparr>)"
    by (rule sealed_update [OF s]) (auto simp: row_ok_def ended_status_def)
  then show ?thesis using s by (auto simp: reset_transient_one_def Let_def intro!: recompute_sealed delete_sealed split: option.splits)
qed

lemma remove_sealed: "sealed tb \<Longrightarrow> sealed (fst (remove_managed owner managed tb))"
proof -
  have "sealed tb \<Longrightarrow> sealed (foldl (\<lambda>tb' tid. delete_tunnel tid tb') tb ids)" for tb and ids :: "string list"
    by (induction ids arbitrary: tb) (auto intro: delete_sealed)
  then show "sealed tb \<Longrightarrow> ?thesis" by (simp add: remove_managed_def Let_def)
qed

lemmas sealed_steps = create_sealed activate_sealed offline_sealed stop_sealed pin_sealed activate_direct_sealed renew_direct_sealed
  finalize_direct_sealed expire_direct_sealed delete_sealed reset_sealed remove_sealed

lemma step_sealed: "tunnel_step tb obs tb' \<Longrightarrow> sealed tb \<Longrightarrow> sealed tb'"
  by (induction rule: tunnel_step.induct)
    (auto simp: expire_one_def delete_user_def intro: sealed_steps split: option.splits sum.splits)

lemma reach_sealed: "tunnels_reach tb obs \<Longrightarrow> sealed tb"
proof (induction rule: tunnels_reach.induct)
  case (no_attachments tb) then show ?case by (simp add: sealed_def)
qed (auto intro: step_sealed)

lemma authorization_secret: "authorization owner aid secret now tb = Inr (Some (a, t)) \<Longrightarrow> a \<in> set (tb_attachments tb) \<and> aw_secret_expires a \<noteq> None"
  by (auto simp: authorization_def rbind_eq_Inr Let_def dest!: find_SomeD split: option.splits if_splits)

section \<open>The status of a tunnel\<close>

fun status_rank :: "tunnel_status \<Rightarrow> nat" where
  "status_rank TunnelActive = 0"
| "status_rank TunnelDegraded = 1"
| "status_rank TunnelStarting = 2"
| "status_rank TunnelStopping = 3"
| "status_rank TunnelOffline = 4"
| "status_rank _ = 5"

lemma refresh_status: "aw_status (refresh_attachment now tb a) = effective_status now tb a"
  by (auto simp: refresh_attachment_def effective_status_def Let_def)

lemma refresh_more: "aw_tunnel (refresh_attachment now tb a) = aw_tunnel a" "aw_last_seen (refresh_attachment now tb a) = aw_last_seen a"
  by (auto simp: refresh_attachment_def Let_def)

lemma best_status:
  assumes "find (\<lambda>s. s \<in> S) [TunnelActive, TunnelDegraded, TunnelStarting, TunnelStopping, TunnelOffline] = Some s"
  shows "s \<in> S" "u \<in> S \<Longrightarrow> status_rank s \<le> status_rank u"
  using assms by (cases u; auto split: if_splits)+

lemma recompute_rows:
  "{a \<in> set (tb_attachments (recompute tid now tb)). aw_tunnel a = tid} = refresh_attachment now tb ` {a \<in> set (tb_attachments tb). aw_tunnel a = tid}"
  by (auto simp: recompute_fields update_rows_set refresh_more)

lemma recompute_tunnel:
  assumes "t \<in> set (tb_tunnels (recompute tid now tb))" "tn_id t = tid" "a \<in> set (tb_attachments tb)" "aw_tunnel a = tid" "\<not> ended_status (aw_status a)"
  obtains "find (\<lambda>s. s \<in> effective_status now tb ` {a \<in> set (tb_attachments tb). aw_tunnel a = tid})
    [TunnelActive, TunnelDegraded, TunnelStarting, TunnelStopping, TunnelOffline] = Some (tn_status t)"
proof -
  let ?S = "effective_status now tb ` {a \<in> set (tb_attachments tb). aw_tunnel a = tid}"
  let ?find = "find (\<lambda>s. s \<in> ?S) [TunnelActive, TunnelDegraded, TunnelStarting, TunnelStopping, TunnelOffline]"
  have set: "set (map (effective_status now tb) (filter (\<lambda>a. aw_tunnel a = tid) (tb_attachments tb))) = ?S" by auto
  have "effective_status now tb a \<in> ?S" using assms(3,4) by blast
  moreover have "effective_status now tb a \<in> {TunnelActive, TunnelDegraded, TunnelStarting, TunnelStopping, TunnelOffline}"
    using assms(5) by (auto simp: effective_status_def)
  ultimately have "?find \<noteq> None" unfolding find_None_iff by (metis list.set(1,2))
  then obtain s where s: "?find = Some s" by blast
  have "filter (\<lambda>a. aw_tunnel a = tid) (tb_attachments tb) \<noteq> []" using assms(3,4) by (auto simp: filter_empty_conv)
  define f where "f = (\<lambda>t :: tunnel_row. t\<lparr>tn_connections := 0, tn_desired := ''started'', tn_error := tunnel_error s (zip (filter (\<lambda>a. aw_tunnel a = tid) (tb_attachments tb))
    (map (effective_status now tb) (filter (\<lambda>a. aw_tunnel a = tid) (tb_attachments tb)))), tn_status := s, tn_updated := now\<rparr>)"
  have "tb_tunnels (recompute tid now tb) = update_rows (\<lambda>t. tn_id t = tid) f (tb_tunnels tb)"
    using \<open>filter _ _ \<noteq> []\<close> unfolding recompute_def Let_def set s f_def by simp
  then obtain r where r: "t = (if tn_id r = tid then f r else r)" using assms(1) by (auto simp: update_rows_set)
  then have "tn_id r = tid" using assms(2) by (cases "tn_id r = tid") simp_all
  then have "tn_status t = s" using r by (simp add: f_def)
  then show ?thesis using s that by simp
qed

section \<open>Generations of a secret\<close>

lemma existing_row:
  assumes "distinct (map aw_id rows)" "find P rows = Some a" "b \<in> set rows" "aw_id b = aw_id a"
  shows "b = a"
  using assms by (metis distinct_map find_SomeD inj_on_contraD)

lemma created_generation:
  assumes "sealed tb" "create_attachment owner tid input fresh now tb = (tb', Inr (Some (aid, s)))"
    "find (\<lambda>a. aw_tunnel a = tid \<and> aw_client a = Some (ci_client input)) (tb_attachments tb) = Some a" "aw_secret_expires a = Some p"
  shows "aid = aw_id a" "p < s" "\<And>b. b \<in> set (tb_attachments tb') \<Longrightarrow> aw_id b = aid \<Longrightarrow> aw_secret_expires b = Some s"
proof -
  define f where "f kind sec a = a\<lparr>aw_kind := kind, aw_identity := (if aw_status a = TunnelStopped then None else aw_identity a), aw_connections := 0,
     aw_expires := Some (ci_expires input), aw_error := None, aw_last_seen := None, aw_secret_expires := Some sec,
     aw_secret_hash := Some (ci_secret_hash input), aw_status := TunnelStarting, aw_updated := now\<rparr>" for kind sec and a :: attachment_row
  obtain t where t: "lock_tunnel tid (Some owner) tb = Some t"
    using assms(2) by (cases "lock_tunnel tid (Some owner) tb") (simp_all add: create_attachment_def)
  have at: "attachable t" by (rule ccontr) (use assms(2) t in \<open>simp add: create_attachment_def\<close>)
  define kind where "kind = (if listening t then ''worker-listener'' else ''desktop-loopback'')"
  have current: "\<not> ((case ci_kind input of None \<Rightarrow> ''desktop-loopback'' | Some k \<Rightarrow> k) \<noteq> kind \<or>
      (case ci_revision input of None \<Rightarrow> False | Some v \<Rightarrow> tn_revision t \<noteq> v))" (is "\<not> ?stale")
  proof
    assume ?stale
    then have "create_attachment owner tid input fresh now tb = (tb, Inl StaleTunnel)"
      unfolding create_attachment_def t option.case Let_def kind_def by (simp only: at not_True_eq_False if_False if_True)
    then show False using assms(2) by simp
  qed
  define g where "g = max (ci_secret_expires input) (p + 1)"
  have "create_attachment owner tid input fresh now tb = (recompute tid now (tb\<lparr>tb_attachments := update_rows (\<lambda>b. aw_id b = aw_id a)
      (f kind g) (tb_attachments tb),
      tb_leases := update_rows (\<lambda>l. dw_attachment l = aw_id a) (\<lambda>l. l\<lparr>dw_expires := min (dw_expires l) (ci_expires input), dw_updated := now\<rparr>) (tb_leases tb)\<rparr>),
      Inr (Some (aw_id a, g)))"
    using current unfolding create_attachment_def t option.case Let_def assms(3) kind_def [symmetric] f_def g_def
    by (simp add: at assms(4))
  then have *: "aid = aw_id a" "s = g" "tb_attachments tb' = tb_attachments (recompute tid now (tb\<lparr>tb_attachments := update_rows (\<lambda>b. aw_id b = aid)
      (f kind g) (tb_attachments tb),
      tb_leases := update_rows (\<lambda>l. dw_attachment l = aw_id a) (\<lambda>l. l\<lparr>dw_expires := min (dw_expires l) (ci_expires input), dw_updated := now\<rparr>) (tb_leases tb)\<rparr>))"
    using assms(2) by auto
  then show "aid = aw_id a" "p < s" by (simp_all add: g_def)
  fix b assume b: "b \<in> set (tb_attachments tb')" "aw_id b = aid"
  let ?rows = "update_rows (\<lambda>b. aw_id b = aid) (f kind g) (tb_attachments tb)"
  obtain r where r: "r \<in> set ?rows" "aw_id b = aw_id r" "aw_secret_expires b = aw_secret_expires r"
    using b(1) unfolding *(3) recompute_fields by (auto simp: update_rows_set [of b] refresh_kept)
  then obtain q where "r = (if aw_id q = aid then f kind g q else q)" by (auto simp: update_rows_set)
  then have "r = f kind g q" using r(2) b(2) by (auto split: if_splits)
  then show "aw_secret_expires b = Some s" using r(3) *(2) by (simp add: f_def)
qed

section \<open>A run\<close>

definition loop_tunnel :: "string \<Rightarrow> tunnel_status \<Rightarrow> int \<Rightarrow> tunnel_row" where
  "loop_tunnel desired status now = \<lparr>tn_id = ''t1'', tn_owner = ''ann'', tn_project = None, tn_origin = ''user'', tn_management = ''user-managed'',
     tn_source = ''desktop-loopback'', tn_source_worker = None, tn_destination = ''worker-tcp'', tn_adapter = None, tn_resource = None,
     tn_destination_worker = Some ''wrk'', tn_os_source = None, tn_revision = 1, tn_operation = Some ''op'', tn_content = True, tn_managed_by = None,
     tn_desired = desired, tn_status = status, tn_error = None, tn_connections = 0, tn_updated = now\<rparr>"

definition loop_input :: attachment_input where
  "loop_input = \<lparr>ci_kind = None, ci_revision = Some 1, ci_client = ''cli'', ci_expires = 9000, ci_secret_expires = 5000, ci_secret_hash = ''h''\<rparr>"

definition loop_attachment :: "int \<Rightarrow> int \<Rightarrow> attachment_row" where
  "loop_attachment secret now = \<lparr>aw_id = ''a1'', aw_tunnel = ''t1'', aw_kind = ''desktop-loopback'', aw_client = Some ''cli'', aw_connections = 0,
     aw_expires = Some 9000, aw_error = None, aw_last_seen = None, aw_secret_expires = Some secret, aw_secret_hash = Some ''h'',
     aw_status = TunnelStarting, aw_identity = None, aw_updated = now\<rparr>"

definition loop_stopped :: attachment_row where
  "loop_stopped = (loop_attachment 5000 100)\<lparr>aw_secret_expires := None, aw_secret_hash := None, aw_status := TunnelStopped, aw_updated := 300\<rparr>"

definition loop_tables :: "tunnel_row \<Rightarrow> attachment_row list \<Rightarrow> tunnel_tables" where
  "loop_tables t as = \<lparr>tb_tunnels = [t], tb_attachments = as, tb_leases = []\<rparr>"

lemmas loop_data = loop_tunnel_def loop_input_def loop_attachment_def loop_stopped_def loop_tables_def

lemmas tunnel_eval = loop_data lock_tunnel_def lock_attachment_def observe_attachment_def attachable_def listening_def recompute_def
  effective_status_def effective_error_def ended_status_def refresh_attachment_def update_rows_def direct_live_def tunnel_error_def Let_def

lemma loop_created:
  "create_attachment ''ann'' ''t1'' loop_input ''a1'' 100 (loop_tables (loop_tunnel ''stopped'' TunnelStopped 0) []) =
     (loop_tables (loop_tunnel ''started'' TunnelStarting 100) [loop_attachment 5000 100], Inr (Some (''a1'', 5000)))"
  "create_attachment ''ann'' ''t1'' loop_input ''a2'' 200 (loop_tables (loop_tunnel ''started'' TunnelStarting 100) [loop_attachment 5000 100]) =
     (loop_tables (loop_tunnel ''started'' TunnelStarting 200) [loop_attachment 5001 200], Inr (Some (''a1'', 5001)))"
  by (simp_all add: tunnel_eval create_attachment_def)

lemma loop_stop: "fst (stop_attachment ''ann'' ''a1'' None False None 300 (loop_tables (loop_tunnel ''started'' TunnelStarting 100) [loop_attachment 5000 100])) =
    loop_tables (loop_tunnel ''stopped'' TunnelStopped 300) [loop_stopped]"
  by (simp add: tunnel_eval stop_attachment_def)

lemma loop_reached: "tunnels_reach (loop_tables (loop_tunnel ''started'' TunnelStarting 100) [loop_attachment 5000 100]) []"
proof -
  have "tunnels_reach (loop_tables (loop_tunnel ''stopped'' TunnelStopped 0) []) []" by (rule no_attachments) (simp_all add: loop_tables_def)
  from stepped [OF this creates [of "''a1''" _ _ "''ann''" "''t1''" loop_input 100]] show ?thesis by (simp add: loop_created) (simp add: loop_tables_def)
qed

lemma loop_stop_reached: "tunnels_reach (loop_tables (loop_tunnel ''stopped'' TunnelStopped 300) [loop_stopped]) []"
  using stepped [OF loop_reached stops [of _ _ "''ann''" "''a1''" None False None 300]] by (simp only: loop_stop)

section \<open>Properties\<close>

text \<open>
  Ended attachments (C21). A stopped or failed attachment has no secret and no active direct lease, and no authorization is given for
  it, in whatever order the transactions ran and however old the rows are that renewals and expiries go on with.
\<close>

theorem ended_attachment_sealed:
  assumes "tunnels_reach tb obs" "a \<in> set (tb_attachments tb)" "ended_status (aw_status a)"
  shows "aw_secret_hash a = None \<and> \<not> list_ex (\<lambda>l. dw_attachment l = aw_id a \<and> dw_active l) (tb_leases tb) \<and>
    authorization owner (aw_id a) secret now tb \<noteq> Inr (Some (a, t))"
proof -
  have s: "sealed tb" using assms(1) by (rule reach_sealed)
  then have a: "row_ok a" using assms(2) by (simp add: row_okD)
  have "\<not> dw_active l" if l: "l \<in> set (tb_leases tb)" "dw_attachment l = aw_id a" for l
  proof
    assume "dw_active l"
    then obtain b where "b \<in> set (tb_attachments tb)" "aw_id b = aw_id a" "\<not> ended_status (aw_status b)"
      using s l by (auto simp: sealed_def open_id_def)
    then show False using s assms(2,3) by (metis distinct_map inj_on_contraD sealed_def)
  qed
  then show ?thesis using a assms(3) authorization_secret [of owner "aw_id a" secret now tb a t] by (auto simp: row_ok_def list_ex_iff)
qed

theorem ended_attachment_sealed_witness:
  "aw_secret_hash loop_stopped = None \<and>
   authorization (Some ''ann'') ''a1'' None 400 (loop_tables (loop_tunnel ''stopped'' TunnelStopped 300) [loop_stopped]) \<noteq>
     Inr (Some (loop_stopped, loop_tunnel ''stopped'' TunnelStopped 300))"
  using ended_attachment_sealed [OF loop_stop_reached, of loop_stopped "Some ''ann''" None 400 "loop_tunnel ''stopped'' TunnelStopped 300"]
  by (simp add: loop_data ended_status_def)


text \<open>
  Status (C23). After \<open>recompute\<close> an attachment that has not ended is active exactly when its client is connected or a direct lease of it
  is live, and the tunnel has the best status of its attachments: active before degraded, starting, stopping and offline.
\<close>

theorem tunnel_status_exact:
  assumes "tb' = recompute tid now tb" "t \<in> set (tb_tunnels tb')" "tn_id t = tid" "a \<in> set (tb_attachments tb')" "aw_tunnel a = tid"
    "\<not> ended_status (aw_status a)"
  shows "(aw_status a = TunnelActive \<longleftrightarrow> aw_last_seen a \<noteq> None \<or> direct_live now tb' (aw_id a)) \<and>
    status_rank (tn_status t) \<le> status_rank (aw_status a) \<and> (\<exists>b. b \<in> set (tb_attachments tb') \<and> aw_tunnel b = tid \<and> aw_status b = tn_status t)"
proof -
  obtain a0 where a0: "a0 \<in> set (tb_attachments tb)" "aw_tunnel a0 = tid" "a = refresh_attachment now tb a0"
    using assms(1,4,5) recompute_rows [of tid now tb] by blast
  then have open0: "\<not> ended_status (aw_status a0)" using assms(6) by (simp add: refresh_kept)
  have live: "direct_live now tb' = direct_live now tb" by (simp add: fun_eq_iff direct_live_def assms(1) recompute_fields)
  let ?S = "effective_status now tb ` {a \<in> set (tb_attachments tb). aw_tunnel a = tid}"
  have "find (\<lambda>s. s \<in> ?S) [TunnelActive, TunnelDegraded, TunnelStarting, TunnelStopping, TunnelOffline] = Some (tn_status t)"
    using recompute_tunnel [OF _ assms(3) a0(1,2) open0, of now] assms(1,2) by blast
  note best = best_status [OF this]
  have "aw_status a \<in> ?S" using a0 by (auto simp: refresh_status)
  moreover obtain b0 where "b0 \<in> set (tb_attachments tb)" "aw_tunnel b0 = tid" "tn_status t = effective_status now tb b0" using best(1) by blast
  then have "refresh_attachment now tb b0 \<in> set (tb_attachments tb') \<and> aw_tunnel (refresh_attachment now tb b0) = tid \<and>
      aw_status (refresh_attachment now tb b0) = tn_status t"
    using recompute_rows [of tid now tb] assms(1) by (auto simp: refresh_status)
  moreover have "aw_status a = TunnelActive \<longleftrightarrow> aw_last_seen a \<noteq> None \<or> direct_live now tb' (aw_id a)"
    using open0 by (auto simp: a0(3) live refresh_status refresh_more refresh_kept effective_status_def)
  ultimately show ?thesis using best(2) by blast
qed

theorem tunnel_status_exact_witness:
  "status_rank (tn_status (loop_tunnel ''started'' TunnelStarting 150)) \<le> status_rank (aw_status (loop_attachment 5000 100)) \<and>
   \<not> direct_live 150 (loop_tables (loop_tunnel ''started'' TunnelStarting 150) [loop_attachment 5000 100]) ''a1''"
proof -
  have r: "loop_tables (loop_tunnel ''started'' TunnelStarting 150) [loop_attachment 5000 100] =
      recompute ''t1'' 150 (loop_tables (loop_tunnel ''started'' TunnelStarting 100) [loop_attachment 5000 100])"
    by (simp add: tunnel_eval)
  show ?thesis using tunnel_status_exact [OF r, of "loop_tunnel ''started'' TunnelStarting 150" "loop_attachment 5000 100"]
    by (simp add: loop_data ended_status_def)
qed


text \<open>
  Generations (C22). A client that attaches again while the row of its attachment has a secret gets a later secret generation, and
  whatever is still on its way with the earlier one is refused and changes nothing: an activation, a disconnection, a direct lease,
  and the expiry of the row as it was. (A stop, a failure and a restart of the server clear the secret; the generation of the next
  attachment is then the expiry its caller asks for, with nothing to exceed.)
\<close>

theorem new_secret_fences:
  assumes "tunnels_reach tb obs" "create_attachment owner tid input fresh now tb = (tb', Inr (Some (aid, s)))"
    "find (\<lambda>a. aw_tunnel a = tid \<and> aw_client a = Some (ci_client input)) (tb_attachments tb) = Some a" "aw_secret_expires a = Some p"
  shows "p < s \<and> activate_attachment aid client p now' tb' = (tb', None) \<and> mark_offline aid p activated now' tb' = (tb', False) \<and>
    activate_direct owner' aid capability expires (Some p) before now' tb' = (tb', None) \<and> expire_one a t now' tb' = (tb', None)"
proof -
  note c = created_generation [OF reach_sealed [OF assms(1)] assms(2-4)]
  have "find (\<lambda>b. aw_id b = aid \<and> aw_client b = Some client \<and> aw_secret_expires b = Some p) (tb_attachments tb') = None"
    "find (\<lambda>b. aw_id b = aid \<and> aw_secret_expires b = Some p \<and> \<not> ended_status (aw_status b) \<and> later (aw_expires b) now') (tb_attachments tb') = None"
    using c(2,3) by (auto simp: find_None_iff)
  moreover have "\<not> (aw_id b = aid \<and> aw_secret_expires b = Some p)" "\<not> (aw_id b = aid \<and> fence_of b = fence_of a)"
    if "b \<in> set (tb_attachments tb')" for b using that c(2,3) assms(4) by (auto simp: fence_of_def)
  ultimately show ?thesis using c(1,2) unfolding activate_attachment_def mark_offline_def activate_direct_def expire_one_def stop_attachment_def
    by (auto simp: Let_def list_ex_iff split: option.splits prod.splits)
qed

theorem new_secret_fences_witness:
  "activate_attachment ''a1'' ''cli'' 5000 250 (loop_tables (loop_tunnel ''started'' TunnelStarting 200) [loop_attachment 5001 200]) =
     (loop_tables (loop_tunnel ''started'' TunnelStarting 200) [loop_attachment 5001 200], None)"
proof -
  have "find (\<lambda>a. aw_tunnel a = ''t1'' \<and> aw_client a = Some (ci_client loop_input))
      (tb_attachments (loop_tables (loop_tunnel ''started'' TunnelStarting 100) [loop_attachment 5000 100])) = Some (loop_attachment 5000 100)"
    "aw_secret_expires (loop_attachment 5000 100) = Some 5000" by (simp_all add: loop_data)
  from new_secret_fences [OF loop_reached loop_created(2) this, of "''cli''" 250] show ?thesis by blast
qed


end
