(* ===== verification/Spec2Isabelle.thy ===== *)
theory Spec2Isabelle
  imports WorkspaceProperties HostCalls Schedule Meter Dispatch LinkProperties LinkGuarantees TunnelSafety
begin

text \<open>
  Cantrip: a verification development of the control plane and of the interaction core.

  \<^bold>\<open>The program.\<close> Cantrip is a desktop workspace for coding agents. A Rust server
  (\<^verbatim>\<open>src/cantrip_server_rs\<close>) keeps the state that several windows, devices and workers share and
  decides every change of it; a Rust library (\<^verbatim>\<open>src/cantrip_interaction\<close>) turns the input of remote
  participants into native events. The parts modelled here interact as follows. A window sends workspace
  commands; the executor decides each against one stored layout. A device reaches a worker over a worker link: the
  authority opens a session for the two, grants it resources and pairs it with direct peers, and revokes them; the relay
  carries its frames, which the quotas admit, the rate limiters slow down and the bandwidth meter accounts for;
  what is shown of a remote surface travels as chunks in such frames. What a participant
  types and clicks goes to an input host, which keeps every participant's held keys in the ownership
  registry and delivers to a native backend; recorded gestures are delivered as a timeline. A project's
  automations run prompts on a schedule: workers ask for a due run, the server leases the occurrence to one
  of them and the dispatch queues or starts the prompt. A tunnel forwards a port to a worker: a client attaches to
  it with a secret and may hold a lease that lets it connect directly.

  \<^bold>\<open>The theories and the sources.\<close> Names of files are relative to \<^verbatim>\<open>src/\<close>.

  \<^item> \<open>Prelude\<close>: Rust's \<open>Result\<close> with the \<open>?\<close> operator, checked and wrapping integers, \<open>IndexMap\<close> and
  \<open>BTreeMap\<close> as association lists. The locale \<open>keyed_store\<close> is what a client may use of a map; both
  containers interpret it.
  \<^item> \<open>Texts\<close>: doubles, text and decimal digits, shared by the components below.
  \<^item> \<open>RateLimits\<close>: \<open>SlidingWindow\<close>, \<open>ByteWindow\<close>, \<open>ActiveLimit\<close> and \<open>AuthRateLimiter\<close>
  (\<^verbatim>\<open>cantrip_server_rs/src/workers/limits.rs\<close>, \<^verbatim>\<open>auth/rate_limit.rs\<close>). Each has a rate bound over every
  run, proved once in a locale of window limiters.
  \<^item> \<open>Quotas\<close>: \<open>RelayQuotas\<close> and its permits (\<^verbatim>\<open>relay/quotas.rs\<close>).
  \<^item> \<open>WorkspaceModel\<close>: the ownership snapshot and its validator (\<^verbatim>\<open>workspace_layouts\<close>). Each JSON object is
  a record. \<open>WorkspaceCommands\<close>, \<open>WorkspaceTransfers\<close> and \<open>WorkspaceApply\<close>: one definition for each helper
  and each of the actions of \<^verbatim>\<open>workspace_layouts/commands\<close>, the executor \<open>apply_command\<close>, and the import
  of legacy windows. \<open>WorkspaceTree\<close>, \<open>WorkspaceWindow\<close>, \<open>WorkspaceSafety\<close>, \<open>WorkspaceViews\<close>: the lemmas
  on trees, on a window, on aborts and on the set of views. \<open>WorkspaceProperties\<close>: the properties.
  \<^item> \<open>Input\<close>: the input events, the geometry and the cursor (\<^verbatim>\<open>cantrip_interaction/src/input.rs\<close>,
  \<^verbatim>\<open>geometry.rs\<close>, \<^verbatim>\<open>cursor.rs\<close>).
  \<^item> \<open>Ownership\<close>, \<open>OwnershipSpec\<close>: the registry of held input (\<^verbatim>\<open>ownership.rs\<close>), its invariant and its
  specification by one stack of holds per participant.
  \<^item> \<open>Host\<close>, \<open>HostCalls\<close>: \<open>InputHost\<close> (\<^verbatim>\<open>host.rs\<close>) over an arbitrary backend, its invariant, and what it
  asks of the backend.
  \<^item> \<open>Schedule\<close>: timeline dispatch (\<^verbatim>\<open>schedule.rs\<close>) over arbitrary clock and delivery closures.
  \<^item> \<open>Meter\<close>: the bandwidth meter (\<^verbatim>\<open>cantrip_server_rs/src/usage/meter.rs\<close>).
  \<^item> \<open>RemoteChunks\<close>: the chunk codec and the frame assembler (\<^verbatim>\<open>worker_links/frame.rs\<close>).
  \<^item> \<open>LinkFrames\<close>: creating and decoding the frames of a worker link (\<^verbatim>\<open>worker_links/frame.rs\<close>), over the wire
  contracts of their headers.
  \<^item> \<open>LinkRelay\<close>, \<open>LinkSafety\<close>, \<open>LinkMoves\<close>, \<open>LinkProperties\<close>: the relay (\<^verbatim>\<open>worker_links/relay\<close>) with its connections,
  channels, lane queues and permits, the invariant of a connection, what each operation does to the frames of a channel,
  and the properties over every sequence of operations.
  \<^item> \<open>LinkAuthority\<close>: the authority (\<^verbatim>\<open>worker_links/mod.rs\<close>, \<^verbatim>\<open>sessions.rs\<close>, \<^verbatim>\<open>grants.rs\<close>, \<^verbatim>\<open>peers.rs\<close>, \<^verbatim>\<open>lifecycle.rs\<close>),
  one definition for what a call does between two waits for the worker, with the contracts of sessions, grants and peers
  (\<^verbatim>\<open>packages/protocol/src/worker-link.ts\<close>), which trim the ids they store. \<open>LinkCalls\<close>: the calls in flight, their
  interleaving (\<open>links_reach\<close>), and the few edits of the tables a step can make. \<open>LinkCustody\<close>, \<open>LinkFences\<close>: the locale
  \<open>link_invariant\<close> of what holds in every interleaving and its eight interpretations. \<open>LinkGuarantees\<close>: the properties.
  \<^item> \<open>Tunnels\<close>, \<open>TunnelSafety\<close>: the attachments of tunnels and their direct leases as tables of rows
  (\<^verbatim>\<open>tunnels/mod.rs\<close>, \<^verbatim>\<open>attachments.rs\<close>, \<^verbatim>\<open>leases.rs\<close>, \<^verbatim>\<open>recovery.rs\<close>, the identity pin of \<^verbatim>\<open>os.rs\<close>, the deletions of
  \<^verbatim>\<open>management.rs\<close> and \<^verbatim>\<open>managed.rs\<close>), one definition per transaction, and every sequence of transactions with
  rows read before the lock (\<open>tunnels_reach\<close>).
  \<^item> \<open>Calendar\<close>, \<open>JsDate\<close>: day numbers, civil fields, printing and the parser of dates
  (\<^verbatim>\<open>cantrip_server_rs/src/wire/js_date.rs\<close>).
  \<^item> \<open>Automations\<close>, \<open>Cron\<close>, \<open>CronDate\<close>, \<open>Schedules\<close>: interval schedules, the parser of cron patterns, the
  search for the next date, and the next run of a schedule in its zone
  (\<^verbatim>\<open>project_automations/schedule.rs\<close>, \<^verbatim>\<open>cron.rs\<close>, \<^verbatim>\<open>cron_date.rs\<close>). \<open>CronWall\<close> says what a pattern means on
  the calendar, \<open>CronSearch\<close> and \<open>CronNext\<close> that the search finds it, \<open>CronZone\<close> how civil times and
  instants correspond.
  \<^item> \<open>AutomationRuns\<close>, \<open>RunSafety\<close>, \<open>Dispatch\<close>: the tables of automations and runs with the statements
  on them (\<^verbatim>\<open>project_automations/repository.rs\<close>, \<^verbatim>\<open>queries.json\<close>), the interleavings of the repository's
  calls, and the dispatch of a due automation (\<^verbatim>\<open>dispatch.rs\<close>), with other calls between its transactions.

  \<^bold>\<open>What is shown.\<close>

  \<^item> Workspace: no command aborts, whatever the stored layout; an accepted command is one revision of
  the same workspace with a valid layout; a command that expects an old revision is refused, and the
  revision determines the layout along a history; rearranging commands and committed transfers neither
  lose nor duplicate a view; a view reserved for a transfer survives every command that is not an explicit
  close; a transfer changes phase only from its destination and in order; the validator's stack walk
  decides the declarative rule on trees; a legacy import happens once. (A conversion of code views that is refused for want
  of focus, an error of the code, is computed on one layout.)
  \<^item> Limiters and quotas: the weight admitted in any sixty seconds is bounded, a refused caller succeeds
  after the reported delay, two windows are charged together or not at all, and surface counts are the
  outstanding permits.
  \<^item> Interaction: the registry refines its specification, errors included; a control has one owner and the capacities hold; a
  token is never used twice; the native calls of each delivery are given for every outcome of the
  backend, a panic included; a failure ends only its own participant; a host that is dropped releases
  everything; with a backend that does not panic no operation panics; a timeline releases every key it pressed; a cursor state is always presentable.
  \<^item> Meter: recorded usage is confirmed or buffered usage, flushes are confirmed in sequence, a retried
  flush is identical.
  \<^item> Remote frames: the codec is a bijection between the chunks and the bytes it accepts, a frame cut in
  any way is put together again, and only received bytes are ever returned.
  \<^item> Worker link relay: frames decode to what was created; the permits held are the surfaces open; queues stay within
  their limits and always drain; while the client's socket is open, the frames of a channel reach client and worker unchanged
  and in order (a frame refused for the byte quota starts the close of the socket and leaves a gap, an error of the code); a session has one live connection.
  \<^item> Worker link authority: a finished revocation has left nothing of its scope, and its fence stands exactly as long as
  revocations of the scope run; an identity has one ready session. (Revocation and identity where the callers pass trimmed
  ids, as those of the repository do: fences and index have the ids as passed, the tables as the contracts trim them.) No grant or peer outlives the absolute limit of its
  session; all tables are bounded; mailboxes have no gaps; keys of different identities differ; the worker of every
  session is subscribed to.
  \<^item> Tunnels: an attachment that has ended has no secret and no active lease and is authorized for nothing, in every
  order of transactions; a new generation of a secret that stands shuts out the old one; the status of a tunnel
  is the best of its attachments.
  \<^item> Dates and schedules: the day numbers are the calendar's and printing and parsing are inverse; a parsed
  pattern is well typed and the search for its next date ends, with the first date it fires at except for
  two days of March that some patterns skip (an error of the code, shown on a pattern); weekly and interval
  schedules run at their next occurrence; a civil time and its instant correspond around a change of offset.
  \<^item> Automation runs: under every interleaving one lease at most can finish an occurrence, a finished run
  never changes, a claim excludes the others until it expires and an expired one is taken up again;
  finishing moves the automation on; a dispatch settles its run, unless the run is deleted or taken over meanwhile, and starts
  its prompt at most once.

  \<^bold>\<open>Errors, bounds and parameters.\<close> An \<open>unwrap\<close>, \<open>expect\<close>, index or slice that can abort is an error
  value of the model, so that its absence is a theorem. All definitions but one are total and need no fuel: the
  loops of the sources recurse over lists or trees, and the walk of the validator decreases the nodes on its
  stack. The search for a cron date is a \<open>partial_function\<close>, since it ends only because every pattern has a
  month and the search stops after the year 3000; that it returns is a theorem. Counters that the sources add with \<open>checked_add\<close> or \<open>wrapping_add\<close> are written with the bound
  of \<open>u64\<close>; \<open>u32\<close> fields of a chunk and its bytes are words. Doubles are exact rationals, infinities or
  NaN where no operation rounds, and naturals where the source counts (exact below \<open>2 ^ 53\<close>). Parameters stand for
  code outside the sources: the backend and its packets (an operating system), the closures of a timeline,
  the calendar of the \<open>chrono\<close> crate, the time zones of the \<open>jiff\<close> crate, the wire contracts of frame headers and mailboxes, and the answers of chats, worker and turn
  runtime to a dispatch or a link. The ids and tokens the code draws at random are arguments, fresh where it matters.

  \<^bold>\<open>Not modelled.\<close> The forked agent \<^verbatim>\<open>cantrip_codex/upstream\<close> and other vendored code; HTTP routes,
  sockets and, except for the automations and tunnels, database queries, which are input and output around the modelled decisions; the native
  backends of each platform; the Tauri shell. Of modelled files: \<open>for_identity\<close> (a palette
  chosen with a hash of the standard library), the JSON text of layouts (each object is a record after
  validation), and the locks (what runs between two waits is one step), the admission count and the log of the worker-link
  authority. A retirement of a relay connection inside another operation of it (at the end of the transport inside
  \<open>receive_worker\<close>, at shutdown inside \<open>receive_client\<close>): it is a step between operations. Of the tunnels: the writes of the catalog (any row of \<open>tunnels\<close> may change between two steps), the runtime
  that carries the bytes, and the legacy frames. The workers and the chats are database rows and sockets behind
  asynchronous calls; their decisions are guards of single statements, and they are left out as a whole.
\<close>

end
